(* ===== verification/Net_Prelude.thy ===== *)
theory Net_Prelude
  imports Main "HOL-Library.Word" "HOL-Library.AList"
begin

text \<open>
  Shared vocabulary of the development: machine integers, little-endian byte strings,
  slices, and the two ordered containers of the Rust standard library that the transport
  uses (a map iterated in key order, a min-heap). The collections of facts below are the
  ones the component theories feed to the simplifier and the classical reasoner.
\<close>

unbundle bit_operations_syntax

type_synonym u8 = "8 word"
type_synonym u16 = "16 word"
type_synonym u32 = "32 word"
type_synonym u64 = "64 word"
type_synonym bytes = "u8 list"

named_theorems le_simps "little-endian byte strings"
named_theorems wf_intros "preservation of the components' invariants"
named_theorems parse_intros "what a reader returns on an encoded value"

section \<open>Little-endian integers\<close>

text \<open>\<open>to_le_bytes\<close> and \<open>from_le_bytes\<close> of the Rust integer types, for any width.\<close>

definition le_bytes :: "nat \<Rightarrow> 'a::len word \<Rightarrow> bytes" where
  "le_bytes n w = map (\<lambda>i. ucast (drop_bit (8 * i) w)) [0..<n]"

fun from_le :: "bytes \<Rightarrow> 'a::len word" where
  "from_le [] = 0"
| "from_le (b # bs) = ucast b OR push_bit 8 (from_le bs)"

definition be_bytes :: "nat \<Rightarrow> 'a::len word \<Rightarrow> bytes" where
  "be_bytes n w = rev (le_bytes n w)"

lemma length_le_bytes [simp, le_simps]: "length (le_bytes n w) = n"
  by (simp add: le_bytes_def)

lemma length_be_bytes [simp, le_simps]: "length (be_bytes n w) = n"
  by (simp add: be_bytes_def)

lemma le_bytes_eq_Nil [simp]: "le_bytes n w = [] \<longleftrightarrow> n = 0"
  by (simp add: le_bytes_def)

lemma nth_le_bytes: "i < n \<Longrightarrow> le_bytes n w ! i = ucast (drop_bit (8 * i) w)"
  by (simp add: le_bytes_def)

lemma bit_from_le:
  "bit (from_le bs :: 'a::len word) i \<longleftrightarrow>
     i < LENGTH('a) \<and> i div 8 < length bs \<and> bit (bs ! (i div 8)) (i mod 8)"
proof (induction bs arbitrary: i)
  case Nil
  show ?case by simp
next
  case (Cons b bs)
  show ?case
  proof (cases "i < 8")
    case True
    then show ?thesis
      by (auto simp: bit_or_iff bit_push_bit_iff bit_ucast_iff dest: bit_imp_le_length)
  next
    case False
    then have "i div 8 = Suc ((i - 8) div 8)" and "(i - 8) mod 8 = i mod 8"
      by (simp_all add: le_div_geq le_mod_geq)
    moreover from False have "\<not> bit b i"
      by (auto dest: bit_imp_le_length)
    ultimately show ?thesis
      using False Cons.IH [of "i - 8"] by (auto simp: bit_or_iff bit_push_bit_iff bit_ucast_iff)
  qed
qed

lemma from_le_le_bytes [simp, le_simps]:
  assumes "LENGTH('a) \<le> 8 * n"
  shows "from_le (le_bytes n w) = (w :: 'a::len word)"
proof (rule bit_word_eqI)
  fix i
  assume i: "i < LENGTH('a)"
  then have "i div 8 < n" using assms by (simp add: div_less_iff_less_mult)
  moreover have "i div 8 * 8 + i mod 8 = i" by simp
  ultimately show "bit (from_le (le_bytes n w) :: 'a word) i = bit w i"
    using i by (simp add: bit_from_le nth_le_bytes bit_ucast_iff bit_drop_bit_eq mult.commute)
qed

lemma le_bytes_from_le [le_simps]:
  assumes "length bs = n" "8 * n \<le> LENGTH('a)"
  shows "le_bytes n (from_le bs :: 'a::len word) = bs"
proof (rule nth_equalityI)
  show "length (le_bytes n (from_le bs :: 'a word)) = length bs"
    using assms by simp
next
  fix k
  assume "k < length (le_bytes n (from_le bs :: 'a word))"
  then have k: "k < n" by simp
  show "le_bytes n (from_le bs :: 'a word) ! k = bs ! k"
  proof (rule bit_word_eqI)
    fix i
    assume i: "i < LENGTH(8)"
    then have "(8 * k + i) div 8 = k" "(8 * k + i) mod 8 = i" "8 * k + i < LENGTH('a)"
      using k assms(2) by simp_all
    then show "bit (le_bytes n (from_le bs :: 'a word) ! k) i = bit (bs ! k) i"
      using k i assms(1)
      by (simp add: nth_le_bytes bit_ucast_iff bit_drop_bit_eq bit_from_le)
  qed
qed

lemma le_bytes_inj:
  assumes "LENGTH('a) \<le> 8 * n"
  shows "le_bytes n (v :: 'a::len word) = le_bytes n w \<longleftrightarrow> v = w"
  using from_le_le_bytes [OF assms] by metis

section \<open>Slices\<close>

text \<open>\<open>xs[a..b]\<close>; every use keeps \<open>a \<le> b \<le> xs.len()\<close>, which the component proves.\<close>

definition subslice :: "'a list \<Rightarrow> nat \<Rightarrow> nat \<Rightarrow> 'a list" where
  "subslice xs a b = take (b - a) (drop a xs)"

text \<open>\<open>xs[a..a + ys.len()].copy_from_slice(ys)\<close>.\<close>

definition overwrite :: "'a list \<Rightarrow> nat \<Rightarrow> 'a list \<Rightarrow> 'a list" where
  "overwrite xs a ys = take a xs @ ys @ drop (a + length ys) xs"

lemma subslice_0 [simp]: "subslice xs 0 n = take n xs"
  by (simp add: subslice_def)

lemma length_subslice: "b \<le> length xs \<Longrightarrow> length (subslice xs a b) = b - a"
  by (simp add: subslice_def)

lemma subslice_append [simp]:
  "subslice (xs @ ys @ zs) (length xs) (length xs + length ys) = ys"
  by (simp add: subslice_def)

lemma length_overwrite [simp]:
  "a + length ys \<le> length xs \<Longrightarrow> length (overwrite xs a ys) = length xs"
  by (simp add: overwrite_def)

lemma overwrite_0 [simp]: "overwrite xs 0 ys = ys @ drop (length ys) xs"
  by (simp add: overwrite_def)

lemma overwrite_append: "length ys = length zs \<Longrightarrow> overwrite (xs @ ys @ ws) (length xs) zs = xs @ zs @ ws"
  by (simp add: overwrite_def)

section \<open>Iterators\<close>

text \<open>\<open>iter().position(p)\<close>.\<close>

fun position :: "('a \<Rightarrow> bool) \<Rightarrow> 'a list \<Rightarrow> nat option" where
  "position p [] = None"
| "position p (x # xs) = (if p x then Some 0 else map_option Suc (position p xs))"

lemma position_Some:
  "position p xs = Some i \<Longrightarrow> i < length xs \<and> p (xs ! i) \<and> (\<forall>j<i. \<not> p (xs ! j))"
  by (induction xs arbitrary: i) (auto simp: nth_Cons split: if_splits nat.splits)

lemma position_None: "position p xs = None \<longleftrightarrow> (\<forall>x \<in> set xs. \<not> p x)"
  by (induction xs) auto

lemma position_nth: "distinct xs \<Longrightarrow> i < length xs \<Longrightarrow> position (\<lambda>x. x = xs ! i) xs = Some i"
proof (induction xs arbitrary: i)
  case Nil
  then show ?case by simp
next
  case (Cons x xs)
  then show ?case by (cases i) (auto dest: nth_mem)
qed

text \<open>\<open>chunks(n)\<close>: pieces of \<open>n\<close> in order, the last one the remainder.\<close>

function chunks :: "nat \<Rightarrow> 'a list \<Rightarrow> 'a list list" where
  "chunks n xs = (if xs = [] \<or> n = 0 then [] else take n xs # chunks n (drop n xs))"
  by pat_completeness auto
termination
  by (relation "measure (\<lambda>(n, xs). length xs)") auto

declare chunks.simps [simp del]

lemma chunks_Nil [simp]: "chunks n [] = []"
  by (simp add: chunks.simps)

lemma chunks_step: "xs \<noteq> [] \<Longrightarrow> 0 < n \<Longrightarrow> chunks n xs = take n xs # chunks n (drop n xs)"
  by (simp add: chunks.simps)

lemma concat_chunks: "0 < n \<Longrightarrow> concat (chunks n xs) = xs"
proof (induction n xs rule: chunks.induct)
  case (1 n xs)
  then show ?case by (cases "xs = []") (simp_all add: chunks_step)
qed

lemma length_chunks_le: "0 < n \<Longrightarrow> c \<in> set (chunks n xs) \<Longrightarrow> 0 < length c \<and> length c \<le> n"
proof (induction n xs rule: chunks.induct)
  case (1 n xs)
  then show ?case by (cases "xs = []") (auto simp: chunks_step min_def)
qed

lemma div_step: "0 < n \<Longrightarrow> (n + k) div n = Suc (k div n)" for n :: nat
  by (simp add: div_add_self1)

lemma length_chunks: "0 < n \<Longrightarrow> length (chunks n xs) = (length xs + n - 1) div n"
proof (induction n xs rule: chunks.induct)
  case (1 n xs)
  show ?case
  proof (cases "xs = []")
    case True
    then show ?thesis using "1.prems" by simp
  next
    case False
    have "length (chunks n (drop n xs)) = (length xs - n + n - 1) div n"
      using "1.IH" False "1.prems" by simp
    moreover have "(length xs + n - 1) div n = Suc ((length xs - n + n - 1) div n)"
    proof (cases "n \<le> length xs")
      case True
      then have "length xs + n - 1 = n + (length xs - n + n - 1)" using "1.prems" by simp
      then show ?thesis using div_step [OF "1.prems"] by metis
    next
      case less: False
      then have "length xs + n - 1 = n + (length xs - 1)" and "(length xs - 1) div n = 0"
        and "(length xs - n + n - 1) div n = 0"
        using False by (cases xs; simp)+
      then show ?thesis using div_step [OF "1.prems"] by metis
    qed
    ultimately show ?thesis using False "1.prems" by (simp add: chunks_step)
  qed
qed

section \<open>Bit masks\<close>

lemma unat_of_nat_small: "n < 2 ^ LENGTH('a) \<Longrightarrow> unat (word_of_nat n :: 'a::len word) = n"
  by (simp add: unsigned_of_nat take_bit_nat_eq_self)

lemma unat_ucast_mod: "unat (ucast w :: 'b::len word) = unat w mod 2 ^ LENGTH('b)"
  by (simp add: unsigned_ucast_eq take_bit_eq_mod)

lemma unat_ucast_up:
  assumes "LENGTH('a) \<le> LENGTH('b)"
  shows "unat (ucast (w :: 'a::len word) :: 'b::len word) = unat w"
proof -
  have "unat w < 2 ^ LENGTH('a)" by simp
  also have "(2::nat) ^ LENGTH('a) \<le> 2 ^ LENGTH('b)" using assms by (simp add: power_increasing)
  finally show ?thesis by (simp add: unat_ucast_mod)
qed

lemma ucast_ucast_up:
  assumes "LENGTH('a) \<le> LENGTH('b)"
  shows "ucast (ucast (w :: 'a::len word) :: 'b::len word) = w"
proof -
  have "unat (ucast (ucast w :: 'b word) :: 'a word) = unat w"
    by (simp add: unat_ucast_mod [where 'b = 'a] unat_ucast_up [OF assms])
  then show ?thesis by (simp add: word_unat_eq_iff)
qed

text \<open>A value below \<open>2 ^ n\<close> has no bit from \<open>n\<close> up.\<close>

lemma bit_lt_exp:
  assumes "unat (w :: 'a::len word) < 2 ^ n" "bit w i"
  shows "i < n"
proof (rule ccontr)
  assume "\<not> i < n"
  then have "(2::nat) ^ n \<le> 2 ^ i" by (simp add: power_increasing)
  with assms(1) have "unat w < 2 ^ i" by (rule less_le_trans)
  then have "unat w div 2 ^ i = 0" by simp
  moreover have "bit (unat w) i" using assms(2) by (simp add: bit_unsigned_iff)
  then have "odd (unat w div 2 ^ i)" by (simp add: bit_iff_odd)
  ultimately show False by simp
qed

text \<open>The masks and marker bits of the variable-length integers.\<close>

lemma marker_clear:
  "(x :: u16) AND 0x8000 = 0 \<longleftrightarrow> \<not> bit x 15" "(y :: u8) AND 0x80 = 0 \<longleftrightarrow> \<not> bit y 7"
  "y AND 0x40 = 0 \<longleftrightarrow> \<not> bit y 6"
  using and_exp_eq_0_iff_not_bit [of x 15] and_exp_eq_0_iff_not_bit [of y 7]
    and_exp_eq_0_iff_not_bit [of y 6] by simp_all

lemma marker_mask:
  "(x :: u16) AND 0x7FFF = take_bit 15 x" "x AND 0x3FFF = take_bit 14 x"
  "(y :: u8) AND 0x7F = take_bit 7 y" "y AND 0x3F = take_bit 6 y"
  by (simp_all add: take_bit_eq_mask mask_eq_exp_minus_1)

lemma marker_set:
  "(x :: u16) OR 0x8000 = set_bit 15 x" "(y :: u8) OR 0x80 = set_bit 7 y"
  "y OR 0xC0 = set_bit 7 (set_bit 6 y)"
  by (simp_all add: set_bit_eq_or push_bit_eq_mult or.assoc)

lemma bit_below:
  assumes "v \<le> w" "unat w < 2 ^ n" "bit (v :: 'a::len word) i"
  shows "i < n"
proof -
  have "unat v < 2 ^ n" using assms(1,2) by (simp add: word_le_nat_alt)
  then show ?thesis using assms(3) by (rule bit_lt_exp)
qed

end
