(* ===== verification/Cp1252.thy ===== *)
theory Cp1252
  imports Net_Prelude
begin

text \<open>
  \<open>crates/ac-bits/src/cp1252.rs\<close>: the Windows-1252 code page of every game string. A Rust
  \<open>char\<close> is its code point, a \<open>String\<close> the list of its characters. The theorems: every byte
  survives decoding and encoding, every character that has an encoding survives the way
  back, and the two maps are inverse bijections between the bytes and the encodable
  characters.
\<close>

type_synonym rchar = u32
type_synonym rstring = "rchar list"

definition HIGH_BLOCK :: "rchar list" where
  "HIGH_BLOCK =
    [0x20AC, 0x0081, 0x201A, 0x0192, 0x201E, 0x2026, 0x2020, 0x2021,
     0x02C6, 0x2030, 0x0160, 0x2039, 0x0152, 0x008D, 0x017D, 0x008F,
     0x0090, 0x2018, 0x2019, 0x201C, 0x201D, 0x2022, 0x2013, 0x2014,
     0x02DC, 0x2122, 0x0161, 0x203A, 0x0153, 0x009D, 0x017E, 0x0178]"

definition REPLACEMENT :: u8 where
  "REPLACEMENT = 0x3F"

definition cp_decode_byte :: "u8 \<Rightarrow> rchar" where
  "cp_decode_byte b =
     (if 0x80 \<le> b \<and> b \<le> 0x9F then HIGH_BLOCK ! unat (b - 0x80) else ucast b)"

definition cp_decode :: "bytes \<Rightarrow> rstring" where
  "cp_decode bs = map cp_decode_byte bs"

definition cp_encode_char :: "rchar \<Rightarrow> u8 option" where
  "cp_encode_char c =
     (if c < 0x80 \<or> (0xA0 \<le> c \<and> c \<le> 0xFF) then Some (ucast c)
      else map_option (\<lambda>i. word_of_nat (0x80 + i)) (position (\<lambda>h. h = c) HIGH_BLOCK))"

definition cp_encode :: "rstring \<Rightarrow> bytes" where
  "cp_encode cs = map (\<lambda>c. case cp_encode_char c of None \<Rightarrow> REPLACEMENT | Some b \<Rightarrow> b) cs"

text \<open>The characters with an encoding.\<close>

definition cp_encodable :: "rchar \<Rightarrow> bool" where
  "cp_encodable c \<longleftrightarrow> cp_encode_char c \<noteq> None"

section \<open>The table\<close>

lemma length_HIGH_BLOCK: "length HIGH_BLOCK = 32"
  by (simp add: HIGH_BLOCK_def)

lemma distinct_HIGH_BLOCK: "distinct HIGH_BLOCK"
  by (simp add: HIGH_BLOCK_def)

lemma HIGH_BLOCK_range: "c \<in> set HIGH_BLOCK \<Longrightarrow> \<not> (c < 0x80 \<or> (0xA0 \<le> c \<and> c \<le> 0xFF))"
  by (auto simp: HIGH_BLOCK_def)

lemma high_index:
  assumes "0x80 \<le> (b :: u8)" "b \<le> 0x9F"
  shows "unat (b - 0x80) < 32" "word_of_nat (0x80 + unat (b - 0x80)) = b"
proof -
  have "unat b = 0x80 + unat (b - 0x80)"
    using assms(1) by (simp add: unat_sub word_le_nat_alt)
  then have "word_of_nat (0x80 + unat (b - 0x80)) = (word_of_nat (unat b) :: u8)" by (simp only:)
  then show "word_of_nat (0x80 + unat (b - 0x80)) = b" by simp
  show "unat (b - 0x80) < 32"
    using assms by (simp add: unat_sub word_le_nat_alt)
qed

section \<open>Round trips\<close>

lemma cp_encode_decode_byte: "cp_encode_char (cp_decode_byte b) = Some b"
proof (cases "0x80 \<le> b \<and> b \<le> 0x9F")
  case True
  let ?i = "unat (b - 0x80)"
  have i: "?i < length HIGH_BLOCK" "word_of_nat (0x80 + ?i) = b"
    using high_index [of b] True by (simp_all add: length_HIGH_BLOCK)
  have "position (\<lambda>h. h = HIGH_BLOCK ! ?i) HIGH_BLOCK = Some ?i"
    using distinct_HIGH_BLOCK i(1) by (rule position_nth)
  then have "cp_encode_char (HIGH_BLOCK ! ?i) = Some b"
    using HIGH_BLOCK_range [OF nth_mem [OF i(1)]] i(2)
    by (simp only: cp_encode_char_def if_False option.map)
  then show ?thesis using True by (simp add: cp_decode_byte_def)
next
  case False
  have u: "unat (ucast b :: u32) = unat b"
    by (simp add: unat_ucast_up)
  have "(ucast b :: u32) < 0x80 \<or> 0xA0 \<le> (ucast b :: u32) \<and> (ucast b :: u32) \<le> 0xFF"
    using False unsigned_less [of b, where 'a = nat] u by (auto simp: word_le_nat_alt word_less_nat_alt)
  moreover have "ucast (ucast b :: u32) = b"
    by (simp add: ucast_ucast_up)
  ultimately show ?thesis
    using False by (auto simp: cp_decode_byte_def cp_encode_char_def)
qed

lemma cp_decode_encode_char:
  assumes "cp_encode_char c = Some b"
  shows "cp_decode_byte b = c"
proof (cases "c < 0x80 \<or> (0xA0 \<le> c \<and> c \<le> 0xFF)")
  case True
  then have b: "b = ucast c" using assms by (auto simp: cp_encode_char_def)
  have lt: "unat c < 256" using True by (auto simp: word_le_nat_alt word_less_nat_alt)
  then have ub: "unat b = unat c" using b by (simp add: unat_ucast_mod)
  then have "\<not> (0x80 \<le> b \<and> b \<le> 0x9F)"
    using True by (auto simp: word_le_nat_alt word_less_nat_alt)
  moreover have "ucast b = c"
    using ub by (simp add: word_unat_eq_iff unat_ucast_up)
  ultimately show ?thesis by (auto simp: cp_decode_byte_def)
next
  case False
  then obtain i where i: "position (\<lambda>h. h = c) HIGH_BLOCK = Some i" "b = word_of_nat (0x80 + i)"
    using assms by (auto simp: cp_encode_char_def)
  then have lt: "i < 32" and nth: "HIGH_BLOCK ! i = c"
    using position_Some [OF i(1)] by (simp_all add: length_HIGH_BLOCK)
  then have ub: "unat b = 0x80 + i" unfolding i(2) by (intro unat_of_nat_small) simp
  then have r: "0x80 \<le> b" "b \<le> 0x9F" using lt by (simp_all add: word_le_nat_alt)
  have "unat (b - 0x80) = i" using r(1) ub by (simp add: unat_sub)
  then show ?thesis using r nth by (simp add: cp_decode_byte_def)
qed

lemma length_cp_encode [simp]: "length (cp_encode cs) = length cs"
  by (simp add: cp_encode_def)

lemma length_cp_decode [simp]: "length (cp_decode bs) = length bs"
  by (simp add: cp_decode_def)

lemma cp_encodable_iff: "cp_encodable c \<longleftrightarrow> (\<exists>b. c = cp_decode_byte b)"
  by (auto simp: cp_encodable_def cp_encode_decode_byte dest: cp_decode_encode_char)

lemma cp_decode_encode: "list_all cp_encodable cs \<Longrightarrow> cp_decode (cp_encode cs) = cs"
  by (induction cs) (auto simp: cp_decode_def cp_encode_def cp_encodable_def cp_decode_encode_char)

lemma cp_encode_decode: "cp_encode (cp_decode bs) = bs"
  by (induction bs) (simp_all add: cp_encode_def cp_decode_def cp_encode_decode_byte)

lemma cp_decode_encode_iff: "cp_decode (cp_encode cs) = cs \<longleftrightarrow> list_all cp_encodable cs"
proof
  assume eq: "cp_decode (cp_encode cs) = cs"
  have "list_all cp_encodable (cp_decode bs)" for bs
    by (simp add: cp_decode_def list_all_iff cp_encodable_iff) blast
  then show "list_all cp_encodable cs" using eq by metis
qed (rule cp_decode_encode)

end
