(* ===== verification/Crypto.thy ===== *)
theory Crypto
  imports Net_Prelude
begin

text \<open>
  \<open>crates/ac-net/src/crypto.rs\<close>: the packet checksum hash and the ISAAC keystream. The
  locale \<open>keystream\<close> is what the transport relies on (a state from which words are drawn
  one after the other, for ever); \<open>Isaac\<close> is interpreted in it. The invariant
  \<open>isaac_ok\<close> bounds every index the generator uses, so no draw panics.
\<close>

section \<open>The checksum hash\<close>

text \<open>The loop over \<open>chunks_exact(4)\<close>; the second component is \<open>remainder()\<close>.\<close>

fun hash_words :: "u32 \<Rightarrow> bytes \<Rightarrow> u32 \<times> bytes" where
  "hash_words s (a # b # c # d # rest) = hash_words (s + from_le [a, b, c, d]) rest"
| "hash_words s rest = (s, rest)"

text \<open>The loop over the remainder: \<open>shift\<close> starts at 24 and falls by 8.\<close>

fun hash_tail :: "u32 \<Rightarrow> nat \<Rightarrow> bytes \<Rightarrow> u32" where
  "hash_tail s shift [] = s"
| "hash_tail s shift (b # bs) = hash_tail (s + push_bit shift (ucast b)) (shift - 8) bs"

definition hash32 :: "bytes \<Rightarrow> u32" where
  "hash32 d =
     (let (s, rest) = hash_words (push_bit 16 (word_of_nat (length d))) d
      in hash_tail s 24 rest)"

lemma hash32_examples:
  "hash32 [] = 0" "hash32 [1, 2, 3, 4] = 0x04070201" "hash32 [0xAA, 0xBB, 0xCC, 0xDD, 0xEE] = 0xCBD1BBAA"
  "hash32 [0x42] = 0x42010000" "hash32 [0x42, 0x7F] = 0x42810000" "hash32 [1, 2, 3] = 0x01050300"
  by (simp_all add: hash32_def push_bit_eq_mult)

text \<open>The accumulator only adds up, so the sum of a block and the rest can be taken apart.\<close>

lemma hash_words_add: "hash_words (s + t) d = (case hash_words t d of (u, rest) \<Rightarrow> (s + u, rest))"
  by (induction t d arbitrary: s rule: hash_words.induct) (simp_all add: add.assoc)

lemma hash_tail_add: "hash_tail (s + t) k d = s + hash_tail t k d"
  by (induction d arbitrary: s t k) (simp_all add: add.assoc)

lemma hash_words_append:
  "length d mod 4 = 0 \<Longrightarrow>
     hash_words s (d @ e) = (case hash_words s d of (t, _) \<Rightarrow> hash_words t e)"
  by (induction s d rule: hash_words.induct) (auto simp: mod_Suc split: if_splits)

lemma hash_words_rest: "snd (hash_words s d) = drop (length d - length d mod 4) d"
proof (induction s d rule: hash_words.induct)
  case (1 s a b c d rest)
  have "length (a # b # c # d # rest) mod 4 = length rest mod 4"
    using mod_add_self2 [of "length rest" 4] by simp
  moreover have "length rest mod 4 \<le> length rest" by simp
  ultimately have "length (a # b # c # d # rest) - length (a # b # c # d # rest) mod 4 =
      Suc (Suc (Suc (Suc (length rest - length rest mod 4))))"
    by simp
  then show ?case using 1 by (simp only: hash_words.simps drop_Suc_Cons)
qed simp_all

text \<open>
  A block whose length is a multiple of four splits off: hashing a 20-byte header and the
  rest of a packet separately loses nothing but the length words.
\<close>

definition hash_sum :: "bytes \<Rightarrow> u32" where
  "hash_sum d = (let (s, rest) = hash_words 0 d in hash_tail s 24 rest)"

lemma hash32_length_and_sum: "hash32 d = push_bit 16 (word_of_nat (length d)) + hash_sum d"
  using hash_words_add [of "push_bit 16 (word_of_nat (length d))" 0 d]
  by (simp add: hash32_def hash_sum_def hash_tail_add split: prod.splits)

lemma hash_sum_append:
  assumes "length d mod 4 = 0"
  shows "hash_sum (d @ e) = hash_sum d + hash_sum e"
proof -
  obtain s rest where d: "hash_words 0 d = (s, rest)" by force
  then have "rest = []" using hash_words_rest [of 0 d] assms by simp
  moreover obtain t r where e: "hash_words 0 e = (t, r)" by force
  moreover have "hash_words s e = (s + t, r)" using hash_words_add [of s 0 e] e by simp
  ultimately show ?thesis
    using d assms by (simp add: hash_sum_def hash_words_append hash_tail_add)
qed

lemma hash32_append:
  assumes "length d mod 4 = 0"
  shows "hash32 (d @ e) =
    hash32 d + hash32 e + (push_bit 16 (word_of_nat (length d + length e)) -
      push_bit 16 (word_of_nat (length d)) - push_bit 16 (word_of_nat (length e)))"
  using hash_sum_append [OF assms, of e] by (simp add: hash32_length_and_sum algebra_simps)

section \<open>ISAAC\<close>

definition STATE_SIZE :: nat where
  "STATE_SIZE = 256"

definition GOLDEN_RATIO :: u32 where
  "GOLDEN_RATIO = 0x9E3779B9"

record isaac =
  mm :: "u32 list"
  rsl :: "u32 list"
  reg_a :: u32
  reg_b :: u32
  reg_c :: u32
  ks_offset :: nat

text \<open>\<open>s[i] ^= f(s[j])\<close> and \<open>s[i] = s[i].wrapping_add(s[j])\<close>.\<close>

definition xor_into :: "nat \<Rightarrow> (u32 \<Rightarrow> u32) \<Rightarrow> nat \<Rightarrow> u32 list \<Rightarrow> u32 list" where
  "xor_into i f j s = s[i := s ! i XOR f (s ! j)]"

definition add_into :: "nat \<Rightarrow> nat \<Rightarrow> u32 list \<Rightarrow> u32 list" where
  "add_into i j s = s[i := s ! i + s ! j]"

text \<open>The eight-word mixer, one statement of the source per \<open>let\<close>.\<close>

definition mix :: "u32 list \<Rightarrow> u32 list" where
  "mix s =
     (let s = xor_into 0 (push_bit 11) 1 s;
          s = add_into 3 0 s;
          s = add_into 1 2 s;
          s = xor_into 1 (drop_bit 2) 2 s;
          s = add_into 4 1 s;
          s = add_into 2 3 s;
          s = xor_into 2 (push_bit 8) 3 s;
          s = add_into 5 2 s;
          s = add_into 3 4 s;
          s = xor_into 3 (drop_bit 16) 4 s;
          s = add_into 6 3 s;
          s = add_into 4 5 s;
          s = xor_into 4 (push_bit 10) 5 s;
          s = add_into 7 4 s;
          s = add_into 5 6 s;
          s = xor_into 5 (drop_bit 4) 6 s;
          s = add_into 0 5 s;
          s = add_into 6 7 s;
          s = xor_into 6 (push_bit 8) 7 s;
          s = add_into 1 6 s;
          s = add_into 7 0 s;
          s = xor_into 7 (drop_bit 9) 0 s;
          s = add_into 2 7 s
      in add_into 0 1 s)"

text \<open>One eight-word step of an initialization pass: fold, mix, store.\<close>

definition init_block :: "u32 list \<Rightarrow> nat \<Rightarrow> u32 list \<times> u32 list \<Rightarrow> u32 list \<times> u32 list" where
  "init_block src j = (\<lambda>(s, m).
     let s = mix (map2 (+) s (subslice src j (j + 8)))
     in (s, overwrite m j s))"

text \<open>\<open>(0..STATE_SIZE).step_by(8)\<close>.\<close>

definition init_steps :: "nat list" where
  "init_steps = map (\<lambda>k. 8 * k) [0..<32]"

definition isaac_initialize :: "isaac \<Rightarrow> isaac" where
  "isaac_initialize x =
     (let s = (mix ^^ 4) (replicate 8 GOLDEN_RATIO);
          (s, m) = fold (init_block (rsl x)) init_steps (s, mm x);
          (s, m) = fold (\<lambda>j (s, m). init_block m j (s, m)) init_steps (s, m)
      in x\<lparr>mm := m\<rparr>)"

definition scramble_step :: "nat \<Rightarrow> isaac \<Rightarrow> isaac" where
  "scramble_step i st =
     (let x = mm st ! i;
          a = (if i mod 4 = 0 then reg_a st XOR push_bit 13 (reg_a st)
               else if i mod 4 = 1 then reg_a st XOR drop_bit 6 (reg_a st)
               else if i mod 4 = 2 then reg_a st XOR push_bit 2 (reg_a st)
               else reg_a st XOR drop_bit 16 (reg_a st));
          a = a + mm st ! ((i + 128) mod 256);
          y = mm st ! unat (drop_bit 2 x AND 0xFF) + a + reg_b st;
          m = (mm st)[i := y];
          next_b = m ! unat (drop_bit 10 y AND 0xFF) + x
      in st\<lparr>mm := m, rsl := (rsl st)[i := next_b], reg_a := a, reg_b := next_b\<rparr>)"

definition isaac_scramble :: "isaac \<Rightarrow> isaac" where
  "isaac_scramble st =
     (let c = reg_c st + 1
      in fold scramble_step [0..<STATE_SIZE] (st\<lparr>reg_c := c, reg_b := reg_b st + c\<rparr>))"

definition isaac_new :: "u32 \<Rightarrow> isaac" where
  "isaac_new seed =
     (let x = isaac_initialize
                \<lparr>mm = replicate STATE_SIZE 0, rsl = replicate STATE_SIZE 0,
                 reg_a = 0, reg_b = 0, reg_c = 0, ks_offset = 0\<rparr>
      in (isaac_scramble (x\<lparr>reg_a := seed, reg_b := seed, reg_c := seed\<rparr>))
           \<lparr>ks_offset := STATE_SIZE - 1\<rparr>)"

definition next_word :: "isaac \<Rightarrow> u32 \<times> isaac" where
  "next_word st =
     (rsl st ! ks_offset st,
      if ks_offset st > 0 then st\<lparr>ks_offset := ks_offset st - 1\<rparr>
      else (isaac_scramble st)\<lparr>ks_offset := STATE_SIZE - 1\<rparr>)"

section \<open>Every index stays inside its array\<close>

definition isaac_ok :: "isaac \<Rightarrow> bool" where
  "isaac_ok st \<longleftrightarrow>
     length (mm st) = STATE_SIZE \<and> length (rsl st) = STATE_SIZE \<and> ks_offset st < STATE_SIZE"

lemma unat_and_FF: "unat (w AND 0xFF :: u32) < 256"
proof -
  have "w AND 0xFF \<le> 0xFF" by (rule word_and_le1)
  then show ?thesis by (simp add: word_le_nat_alt)
qed

lemma length_into [simp]: "length (xor_into i f j s) = length s" "length (add_into i j s) = length s"
  by (simp_all add: xor_into_def add_into_def)

lemma length_mix [simp]: "length (mix s) = length s"
  by (simp add: mix_def Let_def)

lemma init_block_lengths:
  assumes "length s = 8" "length m = 256" "length src = 256" "j + 8 \<le> 256"
  shows "length (fst (init_block src j (s, m))) = 8 \<and> length (snd (init_block src j (s, m))) = 256"
  using assms by (simp add: init_block_def Let_def length_subslice)

lemma init_steps_range: "j \<in> set init_steps \<Longrightarrow> j + 8 \<le> 256"
  by (auto simp: init_steps_def)

lemma fold_init_lengths:
  assumes "\<forall>j \<in> set js. j + 8 \<le> 256" "length s = 8" "length m = 256"
    and f: "\<And>j s m. length s = 8 \<Longrightarrow> length m = 256 \<Longrightarrow> j + 8 \<le> 256 \<Longrightarrow>
      length (fst (f j (s, m))) = 8 \<and> length (snd (f j (s, m))) = 256"
  shows "length (fst (fold f js (s, m))) = 8 \<and> length (snd (fold f js (s, m))) = 256"
  using assms(1-3)
proof (induction js arbitrary: s m)
  case Nil
  then show ?case by simp
next
  case (Cons j js)
  obtain s' m' where sm: "f j (s, m) = (s', m')" by force
  then show ?case using f [of s m j] Cons by simp
qed

lemma isaac_initialize_lengths:
  assumes "length (mm x) = 256" "length (rsl x) = 256"
  shows "length (mm (isaac_initialize x)) = 256" "rsl (isaac_initialize x) = rsl x"
    "ks_offset (isaac_initialize x) = ks_offset x"
proof -
  define s where "s = (mix ^^ 4) (replicate 8 GOLDEN_RATIO)"
  have s8: "length s = 8" by (simp add: s_def numeral_eq_Suc)
  have rng: "\<forall>j \<in> set init_steps. j + 8 \<le> 256" using init_steps_range by blast
  obtain s1 m1 where p1: "fold (init_block (rsl x)) init_steps (s, mm x) = (s1, m1)" by force
  have l1: "length s1 = 8 \<and> length m1 = 256"
    using fold_init_lengths [OF rng s8 assms(1), of "init_block (rsl x)"] assms(2) p1
    by (simp add: init_block_lengths)
  obtain s2 m2 where p2: "fold (\<lambda>j (s, m). init_block m j (s, m)) init_steps (s1, m1) = (s2, m2)" by force
  have "length m2 = 256"
    using fold_init_lengths [OF rng, of s1 m1 "\<lambda>j (s, m). init_block m j (s, m)"] l1 p2
    by (simp add: init_block_lengths)
  then show "length (mm (isaac_initialize x)) = 256" "rsl (isaac_initialize x) = rsl x"
    "ks_offset (isaac_initialize x) = ks_offset x"
    using p1 p2 by (simp_all add: isaac_initialize_def s_def [symmetric])
qed

lemma scramble_step_lengths [simp]:
  "length (mm (scramble_step i st)) = length (mm st)" "length (rsl (scramble_step i st)) = length (rsl st)"
  "ks_offset (scramble_step i st) = ks_offset st"
  by (simp_all add: scramble_step_def Let_def)

lemma fold_scramble_lengths:
  "length (mm (fold scramble_step is st)) = length (mm st) \<and>
   length (rsl (fold scramble_step is st)) = length (rsl st) \<and>
   ks_offset (fold scramble_step is st) = ks_offset st"
  by (induction "is" arbitrary: st) simp_all

lemma isaac_ok_scramble: "isaac_ok st \<Longrightarrow> isaac_ok (isaac_scramble st)"
  by (simp add: isaac_ok_def isaac_scramble_def fold_scramble_lengths Let_def)

lemma isaac_ok_new [simp, intro]: "isaac_ok (isaac_new seed)"
  by (simp add: isaac_ok_def isaac_new_def isaac_scramble_def fold_scramble_lengths STATE_SIZE_def
      isaac_initialize_lengths Let_def)

lemma isaac_ok_next: "isaac_ok st \<Longrightarrow> isaac_ok (snd (next_word st))"
  using isaac_ok_scramble [of st] by (auto simp: next_word_def isaac_ok_def STATE_SIZE_def)

section \<open>The keystream interface\<close>

text \<open>
  What the transport assumes of a keystream: an invariant that a draw keeps. From it, the
  words of the stream are numbered once for all: \<open>word k\<close> is the \<open>k\<close>-th word (from 0) and
  \<open>after k\<close> the state once \<open>k\<close> words were drawn.
\<close>

locale word_stream =
  fixes draw :: "'s \<Rightarrow> 'w \<times> 's"
    and ok :: "'s \<Rightarrow> bool"
  assumes ok_draw: "ok s \<Longrightarrow> ok (snd (draw s))"
begin

fun after :: "nat \<Rightarrow> 's \<Rightarrow> 's" where
  "after 0 s = s"
| "after (Suc k) s = snd (draw (after k s))"

definition word :: "nat \<Rightarrow> 's \<Rightarrow> 'w" where
  "word k s = fst (draw (after k s))"

lemma draw_after: "draw (after k s) = (word k s, after (Suc k) s)"
  by (simp add: word_def)

lemma ok_after: "ok s \<Longrightarrow> ok (after k s)"
  by (induction k) (simp_all add: ok_draw)

lemma after_after: "after j (after k s) = after (j + k) s"
  by (induction j) simp_all

lemma word_after: "word j (after k s) = word (j + k) s"
  by (simp add: word_def after_after)

end

interpretation ks: word_stream next_word isaac_ok
  by unfold_locales (rule isaac_ok_next)

end
