(* ===== verification/Packet.thy ===== *)
theory Packet
  imports Crypto
begin

text \<open>
  \<open>crates/ac-net/src/packet/flags.rs\<close>, \<open>header.rs\<close> and \<open>fragment.rs\<close>: the flags word, the
  20-byte packet header and the message fragments with their 16-byte headers. Both headers
  correspond one to one to their wire bytes, a fragment is read back exactly as it was
  written, and the fragment parser consumes at least a header and at most its input, which
  is why the loops over a fragment area end.
\<close>

section \<open>Flags\<close>

type_synonym packet_flags = u32

definition NO_FLAGS :: packet_flags where "NO_FLAGS = 0x00000000"
definition RETRANSMISSION :: packet_flags where "RETRANSMISSION = 0x00000001"
definition ENCRYPTED_CHECKSUM :: packet_flags where "ENCRYPTED_CHECKSUM = 0x00000002"
definition BLOB_FRAGMENTS :: packet_flags where "BLOB_FRAGMENTS = 0x00000004"
definition SERVER_SWITCH :: packet_flags where "SERVER_SWITCH = 0x00000100"
definition LOGON_SERVER_ADDR :: packet_flags where "LOGON_SERVER_ADDR = 0x00000200"
definition EMPTY_HEADER1 :: packet_flags where "EMPTY_HEADER1 = 0x00000400"
definition REFERRAL :: packet_flags where "REFERRAL = 0x00000800"
definition REQUEST_RETRANSMIT :: packet_flags where "REQUEST_RETRANSMIT = 0x00001000"
definition REJECT_RETRANSMIT :: packet_flags where "REJECT_RETRANSMIT = 0x00002000"
definition ACK_SEQUENCE :: packet_flags where "ACK_SEQUENCE = 0x00004000"
definition DISCONNECT :: packet_flags where "DISCONNECT = 0x00008000"
definition LOGIN_REQUEST :: packet_flags where "LOGIN_REQUEST = 0x00010000"
definition WORLD_LOGIN_REQUEST :: packet_flags where "WORLD_LOGIN_REQUEST = 0x00020000"
definition CONNECT_REQUEST :: packet_flags where "CONNECT_REQUEST = 0x00040000"
definition CONNECT_RESPONSE :: packet_flags where "CONNECT_RESPONSE = 0x00080000"
definition NET_ERROR :: packet_flags where "NET_ERROR = 0x00100000"
definition NET_ERROR_DISCONNECT :: packet_flags where "NET_ERROR_DISCONNECT = 0x00200000"
definition CICMD_COMMAND :: packet_flags where "CICMD_COMMAND = 0x00400000"
definition TIME_SYNC :: packet_flags where "TIME_SYNC = 0x01000000"
definition ECHO_REQUEST :: packet_flags where "ECHO_REQUEST = 0x02000000"
definition ECHO_RESPONSE :: packet_flags where "ECHO_RESPONSE = 0x04000000"
definition FLOW :: packet_flags where "FLOW = 0x08000000"

lemmas flag_defs =
  NO_FLAGS_def RETRANSMISSION_def ENCRYPTED_CHECKSUM_def BLOB_FRAGMENTS_def SERVER_SWITCH_def
  LOGON_SERVER_ADDR_def EMPTY_HEADER1_def REFERRAL_def REQUEST_RETRANSMIT_def REJECT_RETRANSMIT_def
  ACK_SEQUENCE_def DISCONNECT_def LOGIN_REQUEST_def WORLD_LOGIN_REQUEST_def CONNECT_REQUEST_def
  CONNECT_RESPONSE_def NET_ERROR_def NET_ERROR_DISCONNECT_def CICMD_COMMAND_def TIME_SYNC_def
  ECHO_REQUEST_def ECHO_RESPONSE_def FLOW_def

text \<open>\<open>has\<close>: any of these bits is set.\<close>

definition has :: "packet_flags \<Rightarrow> packet_flags \<Rightarrow> bool" where
  "has f flags \<longleftrightarrow> f AND flags \<noteq> 0"

lemma has_or: "has (f OR g) x \<longleftrightarrow> has f x \<or> has g x"
proof -
  have "(f OR g) AND x = (f AND x) OR (g AND x)" by (rule bit.conj_disj_distrib2)
  then show ?thesis by (simp add: has_def or_eq_0_iff)
qed

lemma has_zero [simp]: "\<not> has 0 x"
  by (simp add: has_def)

section \<open>The packet header\<close>

record packet_header =
  hdr_sequence :: u32
  hdr_flags :: packet_flags
  hdr_checksum :: u32
  hdr_id :: u16
  hdr_time :: u16
  hdr_data_size :: u16
  hdr_iteration :: u16

definition HEADER_SIZE :: nat where
  "HEADER_SIZE = 20"

definition CHECKSUM_PLACEHOLDER :: u32 where
  "CHECKSUM_PLACEHOLDER = 0xBADD70DD"

text \<open>\<open>PacketHeader::default()\<close>.\<close>

definition header_default :: packet_header where
  "header_default =
     \<lparr>hdr_sequence = 0, hdr_flags = NO_FLAGS, hdr_checksum = 0, hdr_id = 0, hdr_time = 0,
      hdr_data_size = 0, hdr_iteration = 0\<rparr>"

definition header_to_bytes :: "packet_header \<Rightarrow> bytes" where
  "header_to_bytes h =
     le_bytes 4 (hdr_sequence h) @ le_bytes 4 (hdr_flags h) @ le_bytes 4 (hdr_checksum h) @
     le_bytes 2 (hdr_id h) @ le_bytes 2 (hdr_time h) @ le_bytes 2 (hdr_data_size h) @
     le_bytes 2 (hdr_iteration h)"

definition word_at :: "nat \<Rightarrow> bytes \<Rightarrow> nat \<Rightarrow> 'a::len word" where
  "word_at n b i = from_le (subslice b i (i + n))"

definition header_from_bytes :: "bytes \<Rightarrow> packet_header option" where
  "header_from_bytes d =
     (if length d < HEADER_SIZE then None
      else let b = take HEADER_SIZE d
           in Some \<lparr>hdr_sequence = word_at 4 b 0, hdr_flags = word_at 4 b 4,
                    hdr_checksum = word_at 4 b 8, hdr_id = word_at 2 b 12,
                    hdr_time = word_at 2 b 14, hdr_data_size = word_at 2 b 16,
                    hdr_iteration = word_at 2 b 18\<rparr>)"

definition header_hash :: "packet_header \<Rightarrow> u32" where
  "header_hash h = hash32 (header_to_bytes (h\<lparr>hdr_checksum := CHECKSUM_PLACEHOLDER\<rparr>))"

lemma length_header_to_bytes [simp]: "length (header_to_bytes h) = 20"
  by (simp add: header_to_bytes_def)

lemma header_from_to: "header_from_bytes (header_to_bytes h @ rest) = Some h"
  by (simp add: header_from_bytes_def header_to_bytes_def HEADER_SIZE_def word_at_def subslice_def Let_def)

lemma take_split4: "subslice d i (i + n) @ subslice d (i + n) k = subslice d i k" if "i + n \<le> k" for d :: "'a list"
proof -
  have "subslice d i k = take (n + (k - (i + n))) (drop i d)" using that by (simp add: subslice_def)
  then show ?thesis by (simp add: subslice_def take_add add.commute)
qed

lemma header_to_from:
  assumes "header_from_bytes d = Some h"
  shows "header_to_bytes h = take 20 d"
proof -
  have l: "\<not> length d < 20" using assms by (auto simp: header_from_bytes_def HEADER_SIZE_def split: if_splits)
  define b where "b = take 20 d"
  have lb: "length b = 20" using l by (simp add: b_def)
  have h: "h = \<lparr>hdr_sequence = word_at 4 b 0, hdr_flags = word_at 4 b 4, hdr_checksum = word_at 4 b 8,
      hdr_id = word_at 2 b 12, hdr_time = word_at 2 b 14, hdr_data_size = word_at 2 b 16,
      hdr_iteration = word_at 2 b 18\<rparr>"
    using assms l by (simp add: header_from_bytes_def HEADER_SIZE_def b_def Let_def)
  have "header_to_bytes h =
      subslice b 0 (0 + 4) @ subslice b (0 + 4) (4 + 4) @ subslice b (4 + 4) (8 + 4) @ subslice b (8 + 4) (12 + 2) @
      subslice b (12 + 2) (14 + 2) @ subslice b (14 + 2) (16 + 2) @ subslice b (16 + 2) 20"
    using lb by (simp add: h header_to_bytes_def word_at_def le_bytes_from_le length_subslice)
  also have "\<dots> = b"
    using lb take_split4 [of 0 4 20 b] take_split4 [of 4 4 20 b] take_split4 [of 8 4 20 b]
      take_split4 [of 12 2 20 b] take_split4 [of 14 2 20 b] take_split4 [of 16 2 20 b]
    by simp
  finally show ?thesis by (simp add: b_def)
qed

lemma header_from_bytes_Some_iff: "(\<exists>h. header_from_bytes d = Some h) \<longleftrightarrow> 20 \<le> length d"
  by (auto simp: header_from_bytes_def HEADER_SIZE_def Let_def)

lemma header_hash_checksum [simp]: "header_hash (h\<lparr>hdr_checksum := c\<rparr>) = header_hash h"
  by (simp add: header_hash_def)

section \<open>Message fragments\<close>

record fragment_header =
  frag_sequence :: u32
  frag_id :: u32
  frag_count :: u16
  frag_total_size :: u16
  frag_index :: u16
  frag_queue :: u16

record fragment =
  fr_header :: fragment_header
  fr_payload :: bytes

definition FRAG_SIZE :: nat where "FRAG_SIZE = 16"
definition MAX_FRAGMENT_SIZE :: nat where "MAX_FRAGMENT_SIZE = 464"
definition MAX_PAYLOAD :: nat where "MAX_PAYLOAD = MAX_FRAGMENT_SIZE - FRAG_SIZE"
definition OUTBOUND_ID :: u32 where "OUTBOUND_ID = 0x80000000"
definition MAX_MESSAGE_BODY :: nat where "MAX_MESSAGE_BODY = MAX_PAYLOAD * 65535"

lemmas frag_consts = FRAG_SIZE_def MAX_FRAGMENT_SIZE_def MAX_PAYLOAD_def

definition frag_to_bytes :: "fragment_header \<Rightarrow> bytes" where
  "frag_to_bytes h =
     le_bytes 4 (frag_sequence h) @ le_bytes 4 (frag_id h) @ le_bytes 2 (frag_count h) @
     le_bytes 2 (frag_total_size h) @ le_bytes 2 (frag_index h) @ le_bytes 2 (frag_queue h)"

definition frag_from_bytes :: "bytes \<Rightarrow> fragment_header option" where
  "frag_from_bytes d =
     (if length d < FRAG_SIZE then None
      else let b = take FRAG_SIZE d
           in Some \<lparr>frag_sequence = word_at 4 b 0, frag_id = word_at 4 b 4, frag_count = word_at 2 b 8,
                    frag_total_size = word_at 2 b 10, frag_index = word_at 2 b 12,
                    frag_queue = word_at 2 b 14\<rparr>)"

definition frag_hash :: "fragment \<Rightarrow> u32" where
  "frag_hash f = hash32 (frag_to_bytes (fr_header f)) + hash32 (fr_payload f)"

definition parse_fragment :: "bytes \<Rightarrow> (fragment \<times> nat) option" where
  "parse_fragment source =
     (case frag_from_bytes source of
        None \<Rightarrow> None
      | Some h \<Rightarrow>
          let total = unat (frag_total_size h)
          in if \<not> (FRAG_SIZE \<le> total \<and> total \<le> MAX_FRAGMENT_SIZE) \<or> frag_count h = 0 \<or>
                frag_index h \<ge> frag_count h \<or> length source < total
             then None
             else Some (\<lparr>fr_header = h, fr_payload = subslice source FRAG_SIZE total\<rparr>, total))"

definition write_fragment ::
  "bytes \<Rightarrow> u32 \<Rightarrow> u16 \<Rightarrow> u16 \<Rightarrow> u16 \<Rightarrow> bytes \<Rightarrow> (bytes \<times> nat) option" where
  "write_fragment out sequence queue count index payload =
     (if length payload > MAX_PAYLOAD \<or> index \<ge> count then None
      else let total = FRAG_SIZE + length payload;
               h = \<lparr>frag_sequence = sequence, frag_id = OUTBOUND_ID, frag_count = count,
                    frag_total_size = word_of_nat total, frag_index = index, frag_queue = queue\<rparr>
           in Some (out @ frag_to_bytes h @ payload, total))"

definition write_single_fragment :: "bytes \<Rightarrow> u32 \<Rightarrow> u16 \<Rightarrow> bytes \<Rightarrow> (bytes \<times> nat) option" where
  "write_single_fragment out sequence queue body = write_fragment out sequence queue 1 0 body"

definition split_message :: "bytes \<Rightarrow> bytes list option" where
  "split_message body =
     (if body = [] then Some [body]
      else let pieces = chunks MAX_PAYLOAD body
           in if length pieces > 65535 then None else Some pieces)"

text \<open>What the parser accepts, and the bytes it accepts it from.\<close>

definition frag_wf :: "fragment \<Rightarrow> bool" where
  "frag_wf f \<longleftrightarrow>
     unat (frag_total_size (fr_header f)) = FRAG_SIZE + length (fr_payload f) \<and>
     length (fr_payload f) \<le> MAX_PAYLOAD \<and> frag_count (fr_header f) \<noteq> 0 \<and>
     frag_index (fr_header f) < frag_count (fr_header f)"

definition frag_render :: "fragment \<Rightarrow> bytes" where
  "frag_render f = frag_to_bytes (fr_header f) @ fr_payload f"

lemma length_frag_to_bytes [simp]: "length (frag_to_bytes h) = 16"
  by (simp add: frag_to_bytes_def)

lemma length_frag_render [simp]: "length (frag_render f) = 16 + length (fr_payload f)"
  by (simp add: frag_render_def)

lemma frag_from_to: "frag_from_bytes (frag_to_bytes h @ rest) = Some h"
  by (simp add: frag_from_bytes_def frag_to_bytes_def FRAG_SIZE_def word_at_def subslice_def Let_def)

lemma frag_to_from:
  assumes "frag_from_bytes d = Some h"
  shows "frag_to_bytes h = take 16 d"
proof -
  have l: "\<not> length d < 16" using assms by (auto simp: frag_from_bytes_def FRAG_SIZE_def split: if_splits)
  define b where "b = take 16 d"
  have lb: "length b = 16" using l by (simp add: b_def)
  have h: "h = \<lparr>frag_sequence = word_at 4 b 0, frag_id = word_at 4 b 4, frag_count = word_at 2 b 8,
      frag_total_size = word_at 2 b 10, frag_index = word_at 2 b 12, frag_queue = word_at 2 b 14\<rparr>"
    using assms l by (simp add: frag_from_bytes_def FRAG_SIZE_def b_def Let_def)
  have "frag_to_bytes h =
      subslice b 0 (0 + 4) @ subslice b (0 + 4) (4 + 4) @ subslice b (4 + 4) (8 + 2) @ subslice b (8 + 2) (10 + 2) @
      subslice b (10 + 2) (12 + 2) @ subslice b (12 + 2) 16"
    using lb by (simp add: h frag_to_bytes_def word_at_def le_bytes_from_le length_subslice)
  also have "\<dots> = b"
    using lb take_split4 [of 0 4 16 b] take_split4 [of 4 4 16 b] take_split4 [of 8 2 16 b]
      take_split4 [of 10 2 16 b] take_split4 [of 12 2 16 b]
    by simp
  finally show ?thesis by (simp add: b_def)
qed

text \<open>
  The parser returns exactly the well-formed fragments whose rendering its input starts
  with, and consumes exactly that rendering.
\<close>

lemma parse_fragment_iff:
  "parse_fragment src = Some (f, n) \<longleftrightarrow>
     frag_wf f \<and> n = length (frag_render f) \<and> (\<exists>rest. src = frag_render f @ rest)" (is "?L \<longleftrightarrow> ?R")
proof
  assume L: ?L
  then obtain h where h: "frag_from_bytes src = Some h"
    by (auto simp: parse_fragment_def split: option.splits)
  have f: "f = \<lparr>fr_header = h, fr_payload = subslice src 16 n\<rparr>" "n = unat (frag_total_size h)" "16 \<le> n" "n \<le> 464"
    "frag_count h \<noteq> 0" "frag_index h < frag_count h" "n \<le> length src"
    using L h by (auto simp: parse_fragment_def frag_consts Let_def split: if_splits)
  have "frag_render f = take 16 src @ take (n - 16) (drop 16 src)"
    using f(1) frag_to_from [OF h] by (simp add: frag_render_def subslice_def)
  also have "\<dots> = take n src"
    using f(3) by (simp add: take_add [symmetric])
  finally have r: "frag_render f = take n src" .
  then have "src = frag_render f @ drop n src" by simp
  moreover have "frag_wf f"
    using f by (simp add: frag_wf_def frag_consts length_subslice)
  ultimately show ?R using r f(7) by (metis length_take min.absorb2)
next
  assume R: ?R
  then obtain rest where rest: "src = frag_to_bytes (fr_header f) @ fr_payload f @ rest"
    by (auto simp: frag_render_def)
  have h: "frag_from_bytes src = Some (fr_header f)" by (simp add: rest frag_from_to)
  have "subslice src 16 (16 + length (fr_payload f)) = fr_payload f" by (simp add: rest subslice_def)
  moreover have "\<not> length src < 16 + length (fr_payload f)" by (simp add: rest)
  ultimately show ?L
    using R by (simp add: parse_fragment_def h frag_consts frag_wf_def Let_def not_le)
qed

lemma parse_fragment_used:
  "parse_fragment src = Some (f, n) \<Longrightarrow> 16 \<le> n \<and> n \<le> 464 \<and> n \<le> length src"
  by (auto simp: parse_fragment_iff frag_wf_def frag_consts)

lemma write_fragment_Some:
  assumes "write_fragment out s q c i p = Some (out', n)"
  defines "f \<equiv> \<lparr>fr_header = \<lparr>frag_sequence = s, frag_id = OUTBOUND_ID, frag_count = c,
      frag_total_size = word_of_nat (16 + length p), frag_index = i, frag_queue = q\<rparr>, fr_payload = p\<rparr>"
  shows "out' = out @ frag_render f" "n = length (frag_render f)" "frag_wf f"
proof -
  have a: "length p \<le> 448" "i < c" "n = 16 + length p" "out' = out @ frag_render f"
    using assms by (auto simp: write_fragment_def frag_consts frag_render_def Let_def split: if_splits)
  then have "unat (word_of_nat (16 + length p) :: u16) = 16 + length p"
    by (intro unat_of_nat_small) simp
  moreover have "c \<noteq> 0" using a(2) by auto
  ultimately show "out' = out @ frag_render f" "n = length (frag_render f)" "frag_wf f"
    using a by (simp_all add: f_def frag_wf_def frag_consts)
qed

lemma write_fragment_None: "write_fragment out s q c i p = None \<longleftrightarrow> 448 < length p \<or> c \<le> i"
  by (auto simp: write_fragment_def frag_consts Let_def)

text \<open>The iterator \<open>Fragments\<close>: parse until the parser stops.\<close>

function frag_iter :: "bytes \<Rightarrow> fragment list" where
  "frag_iter rest =
     (case parse_fragment rest of None \<Rightarrow> [] | Some (f, used) \<Rightarrow> f # frag_iter (drop used rest))"
  by pat_completeness auto
termination
  by (relation "measure length") (auto dest: parse_fragment_used)

declare frag_iter.simps [simp del]

section \<open>Items parsed one after the other\<close>

text \<open>
  The contract of a parser that reads an item off the front of its input and returns the
  bytes it used, and what follows for a whole area of such items.
\<close>

locale item_parser =
  fixes parse :: "bytes \<Rightarrow> ('a \<times> nat) option"
    and render :: "'a \<Rightarrow> bytes"
    and wf :: "'a \<Rightarrow> bool"
  assumes parse_iff: "parse src = Some (x, n) \<longleftrightarrow>
      wf x \<and> n = length (render x) \<and> (\<exists>rest. src = render x @ rest)"
    and render_nonempty: "render x \<noteq> []"
begin

definition area :: "'a list \<Rightarrow> bytes" where
  "area xs = concat (map render xs)"

lemma area_simps [simp]: "area [] = []" "area (x # xs) = render x @ area xs"
  by (simp_all add: area_def)

lemma area_append: "area (xs @ ys) = area xs @ area ys"
  by (simp add: area_def)

lemma parse_render: "wf x \<Longrightarrow> parse (render x @ rest) = Some (x, length (render x))"
  by (auto simp: parse_iff)

lemma parse_Nil: "parse [] = None"
  using parse_iff [of "[]"] render_nonempty by (cases "parse []") auto

lemma area_unique:
  "list_all wf xs \<Longrightarrow> list_all wf ys \<Longrightarrow> area xs = area ys \<Longrightarrow> xs = ys"
proof (induction xs arbitrary: ys)
  case Nil
  then show ?case using render_nonempty by (cases ys) auto
next
  case (Cons x xs)
  then obtain y ys' where ys: "ys = y # ys'" using render_nonempty by (cases ys) auto
  have "parse (area (x # xs)) = Some (x, length (render x))"
    using Cons.prems(1) by (simp add: parse_render)
  moreover have "parse (area ys) = Some (y, length (render y))"
    using Cons.prems(2) ys by (simp add: parse_render)
  ultimately have "x = y" using Cons.prems(3) by simp
  then show ?case using Cons ys by simp
qed

end

interpretation frag: item_parser parse_fragment frag_render frag_wf
  by unfold_locales (simp_all add: parse_fragment_iff frag_render_def frag_to_bytes_def)

lemma frag_iter_Nil [simp]: "frag_iter [] = []"
  by (simp add: frag_iter.simps frag.parse_Nil)

lemma frag_iter_render: "frag_wf f \<Longrightarrow> frag_iter (frag_render f @ rest) = f # frag_iter rest"
  by (subst frag_iter.simps) (simp add: frag.parse_render del: length_frag_render)

lemma frag_iter_area: "list_all frag_wf fs \<Longrightarrow> frag_iter (frag.area fs) = fs"
  by (induction fs) (simp_all add: frag_iter_render)

lemma frag_iter_wf: "list_all frag_wf (frag_iter src)"
proof (induction src rule: frag_iter.induct)
  case (1 rest)
  show ?case
  proof (cases "parse_fragment rest")
    case None
    then show ?thesis by (simp add: frag_iter.simps)
  next
    case (Some r)
    obtain f n where r: "r = (f, n)" by (cases r)
    have "list_all frag_wf (frag_iter (drop n rest))" by (rule "1.IH" [OF Some r [symmetric]])
    moreover have "frag_wf f" using Some r by (simp add: parse_fragment_iff)
    ultimately show ?thesis using Some r by (simp add: frag_iter.simps [of rest])
  qed
qed

section \<open>Splitting a message\<close>

lemma split_message_pieces:
  assumes "split_message body = Some ps"
  shows "concat ps = body" "0 < length ps" "length ps \<le> 65535" "p \<in> set ps \<Longrightarrow> length p \<le> 448"
proof -
  show "concat ps = body"
    using assms by (auto simp: split_message_def frag_consts concat_chunks Let_def split: if_splits)
  show "0 < length ps"
    using assms by (auto simp: split_message_def frag_consts Let_def chunks_step split: if_splits)
  show "length ps \<le> 65535"
    using assms by (auto simp: split_message_def frag_consts Let_def split: if_splits)
  show "length p \<le> 448" if "p \<in> set ps"
    using assms that length_chunks_le [of 448 p body]
    by (auto simp: split_message_def frag_consts Let_def split: if_splits)
qed

lemma split_message_None: "split_message body = None \<longleftrightarrow> MAX_MESSAGE_BODY < length body"
proof -
  have "length (chunks 448 body) > 65535 \<longleftrightarrow> 448 * 65535 < length body"
    by (simp add: length_chunks less_eq_div_iff_mult_less_eq Suc_le_eq [symmetric])
  then show ?thesis
    by (cases "body = []") (simp_all add: split_message_def frag_consts MAX_MESSAGE_BODY_def Let_def)
qed

end
