(* ===== verification/Bits_Reader.thy ===== *)
theory Bits_Reader
  imports Net_Prelude
begin

text \<open>
  \<open>crates/ac-bits/src/reader.rs\<close>: a cursor over a byte slice. A reader operation takes
  the cursor and returns its result (\<open>Inl\<close> the error) with the cursor it leaves behind,
  because a compound read that fails half way leaves the cursor where it stopped.
  Floats are read as their bit patterns. \<open>parses f enc v\<close> says that the operation \<open>f\<close>
  reads exactly the bytes \<open>enc\<close> as \<open>v\<close> wherever they lie in the slice; it composes along
  \<open>rd_bind\<close>, and the locale \<open>wire_codec\<close> is the contract of an encoding.
\<close>

section \<open>Errors and the cursor\<close>

datatype bits_error =
    UnexpectedEnd (offset: nat) (needed: nat) (available: nat)
  | ValueOutOfRange (encoding: string) (out_value: nat)

record reader =
  rd_data :: bytes
  rd_pos :: nat

type_synonym ('e, 'a) reading = "reader \<Rightarrow> ('e + 'a) \<times> reader"
type_synonym 'a rd = "(bits_error, 'a) reading"

definition rd_new :: "bytes \<Rightarrow> reader" where
  "rd_new d = \<lparr>rd_data = d, rd_pos = 0\<rparr>"

definition rd_position :: "reader \<Rightarrow> nat" where
  "rd_position r = rd_pos r"

definition rd_len :: "reader \<Rightarrow> nat" where
  "rd_len r = length (rd_data r)"

definition rd_is_empty :: "reader \<Rightarrow> bool" where
  "rd_is_empty r \<longleftrightarrow> rd_data r = []"

definition rd_remaining :: "reader \<Rightarrow> nat" where
  "rd_remaining r = length (rd_data r) - rd_pos r"

definition rd_peek_rest :: "reader \<Rightarrow> bytes" where
  "rd_peek_rest r = drop (rd_pos r) (rd_data r)"

text \<open>Sequencing: the \<open>?\<close> operator returns the error and skips the rest.\<close>

definition rd_ret :: "'a \<Rightarrow> ('e, 'a) reading" where
  "rd_ret v r = (Inr v, r)"

definition rd_bind :: "('e, 'a) reading \<Rightarrow> ('a \<Rightarrow> ('e, 'b) reading) \<Rightarrow> ('e, 'b) reading" where
  "rd_bind m f r = (case m r of (Inl e, r') \<Rightarrow> (Inl e, r') | (Inr v, r') \<Rightarrow> f v r')"

text \<open>\<open>map_err(|_| e)\<close>.\<close>

definition rd_map_err :: "'e \<Rightarrow> 'a rd \<Rightarrow> ('e, 'a) reading" where
  "rd_map_err e m r = (case m r of (Inl _, r') \<Rightarrow> (Inl e, r') | (Inr v, r') \<Rightarrow> (Inr v, r'))"

section \<open>Operations\<close>

definition rd_seek :: "nat \<Rightarrow> unit rd" where
  "rd_seek p r =
     (if p > length (rd_data r) then (Inl (UnexpectedEnd p 0 0), r)
      else (Inr (), r\<lparr>rd_pos := p\<rparr>))"

definition rd_bytes :: "nat \<Rightarrow> bytes rd" where
  "rd_bytes count r =
     (let available = rd_remaining r
      in if count > available then (Inl (UnexpectedEnd (rd_pos r) count available), r)
         else (Inr (subslice (rd_data r) (rd_pos r) (rd_pos r + count)),
               r\<lparr>rd_pos := rd_pos r + count\<rparr>))"

definition rd_skip :: "nat \<Rightarrow> unit rd" where
  "rd_skip count = rd_bind (rd_bytes count) (\<lambda>_. rd_ret ())"

definition rd_array :: "nat \<Rightarrow> bytes rd" where
  "rd_array n = rd_bytes n"

text \<open>The macro \<open>read_le!\<close>: an array of the type's size, then \<open>from_le_bytes\<close>.\<close>

definition rd_le :: "nat \<Rightarrow> 'a::len word rd" where
  "rd_le n = rd_bind (rd_array n) (\<lambda>b. rd_ret (from_le b))"

definition rd_u8 :: "u8 rd" where "rd_u8 = rd_le 1"
definition rd_i8 :: "u8 rd" where "rd_i8 = rd_le 1"
definition rd_u16 :: "u16 rd" where "rd_u16 = rd_le 2"
definition rd_i16 :: "u16 rd" where "rd_i16 = rd_le 2"
definition rd_u32 :: "u32 rd" where "rd_u32 = rd_le 4"
definition rd_i32 :: "u32 rd" where "rd_i32 = rd_le 4"
definition rd_u64 :: "u64 rd" where "rd_u64 = rd_le 8"
definition rd_i64 :: "u64 rd" where "rd_i64 = rd_le 8"
definition rd_f32 :: "u32 rd" where "rd_f32 = rd_le 4"
definition rd_f64 :: "u64 rd" where "rd_f64 = rd_le 8"

text \<open>\<open>None\<close> is the panic of \<open>pos % 0\<close>.\<close>

definition rd_align :: "nat \<Rightarrow> reader \<Rightarrow> ((bits_error + unit) \<times> reader) option" where
  "rd_align alignment r =
     (if alignment = 0 then None
      else let rem = rd_pos r mod alignment
           in Some (if rem = 0 then (Inr (), r) else rd_skip (alignment - rem) r))"

definition rd_packed_dword :: "u32 rd" where
  "rd_packed_dword =
     rd_bind rd_u16 (\<lambda>first.
       if first AND 0x8000 = 0 then rd_ret (ucast first)
       else rd_bind rd_u16 (\<lambda>low.
         rd_ret (push_bit 16 (ucast (first AND 0x7FFF)) OR ucast low)))"

definition rd_packed_dword_of_known_type :: "u32 \<Rightarrow> u32 rd" where
  "rd_packed_dword_of_known_type known_type =
     rd_bind rd_packed_dword (\<lambda>packed.
       rd_ret (if packed = 0 then 0 else packed OR known_type))"

definition rd_data_id_of_known_type :: "u32 \<Rightarrow> u32 rd" where
  "rd_data_id_of_known_type known_type =
     rd_bind rd_u16 (\<lambda>first.
       if first AND 0x8000 = 0 then rd_ret (known_type + ucast first)
       else rd_bind rd_u16 (\<lambda>low.
         rd_ret (known_type + (push_bit 16 (ucast (first AND 0x3FFF)) OR ucast low))))"

definition rd_compressed_u32 :: "u32 rd" where
  "rd_compressed_u32 =
     rd_bind rd_u8 (\<lambda>b0.
       if b0 AND 0x80 = 0 then rd_ret (ucast b0)
       else rd_bind rd_u8 (\<lambda>b1.
         if b0 AND 0x40 = 0 then rd_ret (push_bit 8 (ucast (b0 AND 0x7F)) OR ucast b1)
         else rd_bind rd_u16 (\<lambda>low.
           rd_ret (push_bit 16 (push_bit 8 (ucast (b0 AND 0x3F)) OR ucast b1) OR ucast low))))"

text \<open>\<open>(4 - ((2 + len) & 3)) & 3\<close>, shared by every padded string record.\<close>

definition pad4 :: "nat \<Rightarrow> nat" where
  "pad4 n = (4 - n mod 4) mod 4"

definition rd_string16l_bytes :: "bytes rd" where
  "rd_string16l_bytes =
     rd_bind rd_u16 (\<lambda>len.
       rd_bind (rd_bytes (unat len)) (\<lambda>txt.
         rd_bind (rd_skip (pad4 (2 + unat len))) (\<lambda>_. rd_ret txt)))"

section \<open>Short input is an error, never a panic\<close>

text \<open>The cursor stays inside its slice, so \<open>remaining\<close> never underflows.\<close>

definition rd_ok :: "reader \<Rightarrow> bool" where
  "rd_ok r \<longleftrightarrow> rd_pos r \<le> length (rd_data r)"

text \<open>An operation is safe when it keeps the slice, never moves back and stays inside.\<close>

definition rd_safe :: "('e, 'a) reading \<Rightarrow> bool" where
  "rd_safe f \<longleftrightarrow>
     (\<forall>r. rd_ok r \<longrightarrow>
        rd_ok (snd (f r)) \<and> rd_data (snd (f r)) = rd_data r \<and> rd_pos r \<le> rd_pos (snd (f r)))"

lemma pad4_lt: "pad4 n < 4"
  by (simp add: pad4_def)

lemma pad4_mod: "(n + pad4 n) mod 4 = 0"
proof -
  define q m where "q = n div 4" and "m = n mod 4"
  have "m < 4" "n = q * 4 + m" by (simp_all add: q_def m_def)
  then have "n + (4 - m) = 4 * (q + 1)" by simp
  then have "n + (4 - n mod 4) = 4 * (q + 1)" by (simp add: m_def)
  then show ?thesis by (simp add: pad4_def mod_add_right_eq)
qed

lemma rd_ok_new [simp, intro]: "rd_ok (rd_new d)"
  by (simp add: rd_ok_def rd_new_def)

lemma rd_safe_ret [wf_intros]: "rd_safe (rd_ret v)"
  by (simp add: rd_safe_def rd_ret_def)

lemma rd_bytes_short:
  "rd_remaining r < n \<Longrightarrow> rd_bytes n r = (Inl (UnexpectedEnd (rd_pos r) n (rd_remaining r)), r)"
  by (simp add: rd_bytes_def)

lemma rd_bytes_enough:
  "n \<le> rd_remaining r \<Longrightarrow>
     rd_bytes n r = (Inr (subslice (rd_data r) (rd_pos r) (rd_pos r + n)), r\<lparr>rd_pos := rd_pos r + n\<rparr>)"
  by (simp add: rd_bytes_def)

lemma rd_safe_bytes [wf_intros]: "rd_safe (rd_bytes n)"
proof (unfold rd_safe_def, intro allI impI)
  fix r
  assume "rd_ok r"
  then show "rd_ok (snd (rd_bytes n r)) \<and> rd_data (snd (rd_bytes n r)) = rd_data r \<and>
      rd_pos r \<le> rd_pos (snd (rd_bytes n r))"
    by (cases "n \<le> rd_remaining r")
      (simp_all add: rd_bytes_short rd_bytes_enough rd_ok_def rd_remaining_def)
qed

lemma rd_safe_pos:
  assumes "rd_safe f" "rd_ok r" "f r = (x, r')"
  shows "rd_ok r' \<and> rd_data r' = rd_data r \<and> rd_pos r \<le> rd_pos r'"
  using assms(1) [unfolded rd_safe_def, rule_format, OF assms(2)] assms(3) by simp

lemma rd_safe_bind [wf_intros]:
  assumes "rd_safe f" "\<And>v. rd_safe (g v)"
  shows "rd_safe (rd_bind f g)"
proof (unfold rd_safe_def, intro allI impI)
  fix r
  assume ok: "rd_ok r"
  obtain x r' where fr: "f r = (x, r')" by force
  have f: "rd_ok r'" "rd_data r' = rd_data r" "rd_pos r \<le> rd_pos r'"
    using rd_safe_pos [OF assms(1) ok fr] by simp_all
  show "rd_ok (snd (rd_bind f g r)) \<and> rd_data (snd (rd_bind f g r)) = rd_data r \<and>
      rd_pos r \<le> rd_pos (snd (rd_bind f g r))"
  proof (cases x)
    case (Inl e)
    then show ?thesis using f fr by (simp add: rd_bind_def)
  next
    case (Inr v)
    have "rd_ok (snd (g v r')) \<and> rd_data (snd (g v r')) = rd_data r' \<and> rd_pos r' \<le> rd_pos (snd (g v r'))"
      using rd_safe_pos [OF assms(2) f(1) surjective_pairing] by simp
    then show ?thesis using Inr f fr by (simp add: rd_bind_def)
  qed
qed

lemma rd_safe_if [wf_intros]: "rd_safe f \<Longrightarrow> rd_safe g \<Longrightarrow> rd_safe (if b then f else g)"
  by simp

lemma rd_safe_skip [wf_intros]: "rd_safe (rd_skip n)"
  by (simp add: rd_skip_def wf_intros)

lemma rd_safe_le [wf_intros]: "rd_safe (rd_le n)"
  by (simp add: rd_le_def rd_array_def wf_intros)

lemma rd_safe_ints [wf_intros]:
  "rd_safe rd_u8" "rd_safe rd_u16" "rd_safe rd_u32" "rd_safe rd_u64" "rd_safe rd_f32" "rd_safe rd_f64"
  by (simp_all add: rd_u8_def rd_u16_def rd_u32_def rd_u64_def rd_f32_def rd_f64_def wf_intros)

lemma rd_safe_compound [wf_intros]:
  "rd_safe rd_packed_dword" "rd_safe (rd_packed_dword_of_known_type k)"
  "rd_safe (rd_data_id_of_known_type k)" "rd_safe rd_compressed_u32" "rd_safe rd_string16l_bytes"
  unfolding rd_packed_dword_def rd_packed_dword_of_known_type_def rd_data_id_of_known_type_def
    rd_compressed_u32_def rd_string16l_bytes_def
  by (intro wf_intros)+

text \<open>A primitive read that fails leaves the cursor where it was.\<close>

lemma rd_bytes_error: "rd_bytes n r = (Inl e, r') \<Longrightarrow> r' = r \<and> e = UnexpectedEnd (rd_pos r) n (rd_remaining r)"
  by (cases "n \<le> rd_remaining r") (auto simp: rd_bytes_short rd_bytes_enough)

lemma rd_le_error:
  "(rd_le n :: 'a::len word rd) r = (Inl e, r') \<Longrightarrow>
     r' = r \<and> e = UnexpectedEnd (rd_pos r) n (rd_remaining r)"
  by (auto simp: rd_le_def rd_array_def rd_bind_def rd_ret_def dest: rd_bytes_error split: prod.splits sum.splits)

section \<open>Reading back an encoding\<close>

definition parses :: "('e, 'a) reading \<Rightarrow> bytes \<Rightarrow> 'a \<Rightarrow> bool" where
  "parses f enc v \<longleftrightarrow>
     (\<forall>pre post. f \<lparr>rd_data = pre @ enc @ post, rd_pos = length pre\<rparr> =
        (Inr v, \<lparr>rd_data = pre @ enc @ post, rd_pos = length pre + length enc\<rparr>))"

lemma parses_ret [parse_intros]: "parses (rd_ret v) [] v"
  by (simp add: parses_def rd_ret_def)

lemma parses_bind [parse_intros]:
  assumes "parses f e1 x" "parses (g x) e2 y"
  shows "parses (rd_bind f g) (e1 @ e2) y"
proof (unfold parses_def, intro allI)
  fix pre post
  have f: "f \<lparr>rd_data = pre @ (e1 @ e2) @ post, rd_pos = length pre\<rparr> =
      (Inr x, \<lparr>rd_data = pre @ e1 @ e2 @ post, rd_pos = length pre + length e1\<rparr>)"
    using assms(1) [unfolded parses_def, rule_format, of pre "e2 @ post"] by simp
  have g: "g x \<lparr>rd_data = pre @ e1 @ e2 @ post, rd_pos = length pre + length e1\<rparr> =
      (Inr y, \<lparr>rd_data = pre @ e1 @ e2 @ post, rd_pos = length pre + length e1 + length e2\<rparr>)"
    using assms(2) [unfolded parses_def, rule_format, of "pre @ e1" post] by simp
  show "rd_bind f g \<lparr>rd_data = pre @ (e1 @ e2) @ post, rd_pos = length pre\<rparr> =
      (Inr y, \<lparr>rd_data = pre @ (e1 @ e2) @ post, rd_pos = length pre + length (e1 @ e2)\<rparr>)"
    unfolding rd_bind_def f by (simp add: g add.assoc)
qed

lemma parses_map_err [parse_intros]: "parses m enc v \<Longrightarrow> parses (rd_map_err e m) enc v"
  by (simp add: parses_def rd_map_err_def)

lemma parses_bind_nil: "parses f e1 x \<Longrightarrow> parses (g x) [] y \<Longrightarrow> parses (rd_bind f g) e1 y"
  using parses_bind [of f e1 x g "[]" y] by simp

lemma parses_bytes [parse_intros]: "length bs = n \<Longrightarrow> parses (rd_bytes n) bs bs"
  by (auto simp: parses_def rd_bytes_def rd_remaining_def subslice_def)

lemma parses_skip [parse_intros]: "length bs = n \<Longrightarrow> parses (rd_skip n) bs ()"
  unfolding rd_skip_def by (rule parses_bind_nil) (auto intro: parse_intros)

lemma parses_le [parse_intros]:
  assumes "LENGTH('a) \<le> 8 * n"
  shows "parses (rd_le n) (le_bytes n w) (w :: 'a::len word)"
proof -
  have "parses (rd_bytes n) (le_bytes n w) (le_bytes n w)"
    by (rule parses_bytes) simp
  moreover have "parses (rd_ret (from_le (le_bytes n w))) [] w"
    using assms by (simp add: parses_ret)
  ultimately show ?thesis
    unfolding rd_le_def rd_array_def by (rule parses_bind_nil)
qed

lemma parses_ints [parse_intros]:
  "parses rd_u8 (le_bytes 1 a) a" "parses rd_u16 (le_bytes 2 b) b" "parses rd_u32 (le_bytes 4 c) c"
  "parses rd_u64 (le_bytes 8 d) d" "parses rd_f32 (le_bytes 4 e) e" "parses rd_f64 (le_bytes 8 f) f"
  by (auto simp: rd_u8_def rd_u16_def rd_u32_def rd_u64_def rd_f32_def rd_f64_def
      simp del: One_nat_def intro!: parses_le)

lemma parses_new:
  "parses f enc v \<Longrightarrow> f (rd_new (enc @ post)) = (Inr v, \<lparr>rd_data = enc @ post, rd_pos = length enc\<rparr>)"
  unfolding parses_def rd_new_def by (drule spec [where x = "[]"]) simp

section \<open>The contract of a wire encoding\<close>

text \<open>
  What a client of an encoding relies on: every valid value is read back from its bytes
  at any place of any message. Unambiguity and lists follow once for all encodings.
\<close>

fun rd_list :: "'a rd \<Rightarrow> nat \<Rightarrow> 'a list rd" where
  "rd_list f 0 = rd_ret []"
| "rd_list f (Suc n) = rd_bind f (\<lambda>v. rd_bind (rd_list f n) (\<lambda>vs. rd_ret (v # vs)))"

locale wire_codec =
  fixes dec :: "'a rd"
    and enc :: "'a \<Rightarrow> bytes"
    and valid :: "'a \<Rightarrow> bool"
  assumes reads_back: "valid v \<Longrightarrow> parses dec (enc v) v"
begin

lemma unambiguous:
  assumes "valid v" "valid w" "enc v @ xs = enc w @ ys"
  shows "v = w \<and> xs = ys"
proof -
  have "dec (rd_new (enc v @ xs)) = (Inr v, \<lparr>rd_data = enc v @ xs, rd_pos = length (enc v)\<rparr>)"
    using reads_back [OF assms(1)] by (rule parses_new)
  moreover have "dec (rd_new (enc w @ ys)) = (Inr w, \<lparr>rd_data = enc w @ ys, rd_pos = length (enc w)\<rparr>)"
    using reads_back [OF assms(2)] by (rule parses_new)
  ultimately have "v = w" using assms(3) by simp
  then show ?thesis using assms(3) by simp
qed

lemma reads_list:
  "list_all valid vs \<Longrightarrow> parses (rd_list dec (length vs)) (concat (map enc vs)) vs"
proof (induction vs)
  case Nil
  show ?case by (simp add: parses_ret)
next
  case (Cons v vs)
  have "parses (rd_bind (rd_list dec (length vs)) (\<lambda>vs. rd_ret (v # vs))) (concat (map enc vs)) (v # vs)"
    using Cons by (intro parses_bind_nil [where x = vs]) (auto intro: parse_intros)
  then show ?case
    using Cons.prems by (auto intro!: parses_bind reads_back)
qed

end

interpretation u16_codec: wire_codec rd_u16 "le_bytes 2" "\<lambda>_. True"
  by unfold_locales (rule parse_intros)

interpretation u32_codec: wire_codec rd_u32 "le_bytes 4" "\<lambda>_. True"
  by unfold_locales (rule parse_intros)

end
