(* ===== verification/Bits_Writer.thy ===== *)
theory Bits_Writer
  imports Bits_Reader Cp1252
begin

text \<open>
  \<open>crates/ac-bits/src/writer.rs\<close>: the growable buffer and its variable-length encodings,
  each proved to be read back by the matching operation of the reader, and to be rejected
  exactly outside its range. The four encodings are instances of \<open>wire_codec\<close>, so they
  are unambiguous inside any message.
\<close>

section \<open>The buffer\<close>

record wbuf =
  wr_buf :: bytes

definition wr_new :: wbuf where
  "wr_new = \<lparr>wr_buf = []\<rparr>"

definition wr_len :: "wbuf \<Rightarrow> nat" where
  "wr_len w = length (wr_buf w)"

definition wr_is_empty :: "wbuf \<Rightarrow> bool" where
  "wr_is_empty w \<longleftrightarrow> wr_buf w = []"

definition wr_bytes :: "bytes \<Rightarrow> wbuf \<Rightarrow> wbuf" where
  "wr_bytes bs w = w\<lparr>wr_buf := wr_buf w @ bs\<rparr>"

text \<open>The macro \<open>write_le!\<close>: append \<open>to_le_bytes\<close>.\<close>

definition wr_u8 :: "u8 \<Rightarrow> wbuf \<Rightarrow> wbuf" where "wr_u8 v = wr_bytes (le_bytes 1 v)"
definition wr_u16 :: "u16 \<Rightarrow> wbuf \<Rightarrow> wbuf" where "wr_u16 v = wr_bytes (le_bytes 2 v)"
definition wr_u32 :: "u32 \<Rightarrow> wbuf \<Rightarrow> wbuf" where "wr_u32 v = wr_bytes (le_bytes 4 v)"
definition wr_u64 :: "u64 \<Rightarrow> wbuf \<Rightarrow> wbuf" where "wr_u64 v = wr_bytes (le_bytes 8 v)"
definition wr_f32 :: "u32 \<Rightarrow> wbuf \<Rightarrow> wbuf" where "wr_f32 v = wr_bytes (le_bytes 4 v)"
definition wr_f64 :: "u64 \<Rightarrow> wbuf \<Rightarrow> wbuf" where "wr_f64 v = wr_bytes (le_bytes 8 v)"

definition wr_pad :: "nat \<Rightarrow> wbuf \<Rightarrow> wbuf" where
  "wr_pad count w = w\<lparr>wr_buf := wr_buf w @ replicate count 0\<rparr>"

text \<open>\<open>None\<close> is the panic of \<open>len % 0\<close>.\<close>

definition wr_align :: "nat \<Rightarrow> wbuf \<Rightarrow> wbuf option" where
  "wr_align alignment w =
     (if alignment = 0 then None
      else let rem = length (wr_buf w) mod alignment
           in Some (if rem \<noteq> 0 then wr_pad (alignment - rem) w else w))"

type_synonym wr_result = "(bits_error + unit) \<times> wbuf"

definition wr_packed_dword :: "u32 \<Rightarrow> wbuf \<Rightarrow> wr_result" where
  "wr_packed_dword v w =
     (if v \<le> 0x7FFF then (Inr (), wr_u16 (ucast v) w)
      else if v \<le> 0x7FFFFFFF then
        (Inr (), wr_u16 (ucast v) (wr_u16 (ucast (drop_bit 16 v) OR 0x8000) w))
      else (Inl (ValueOutOfRange ''packed dword'' (unat v)), w))"

definition wr_compressed_u32 :: "u32 \<Rightarrow> wbuf \<Rightarrow> wr_result" where
  "wr_compressed_u32 v w =
     (if v \<le> 0x7F then (Inr (), wr_u8 (ucast v) w)
      else if v \<le> 0x3FFF then
        (Inr (), wr_u8 (ucast v) (wr_u8 (ucast (drop_bit 8 v) OR 0x80) w))
      else if v \<le> 0x3FFFFFFF then
        (Inr (), wr_u16 (ucast v) (wr_u8 (ucast (drop_bit 16 v)) (wr_u8 (ucast (drop_bit 24 v) OR 0xC0) w)))
      else (Inl (ValueOutOfRange ''compressed u32'' (unat v)), w))"

definition wr_string16l_bytes :: "bytes \<Rightarrow> wbuf \<Rightarrow> wr_result" where
  "wr_string16l_bytes s w =
     (if length s > 0xFFFF then (Inl (ValueOutOfRange ''string16l length'' (length s)), w)
      else (Inr (), wr_pad (pad4 (2 + length s)) (wr_bytes s (wr_u16 (word_of_nat (length s)) w))))"

definition wr_string16l :: "rstring \<Rightarrow> wbuf \<Rightarrow> wr_result" where
  "wr_string16l s w = wr_string16l_bytes (cp_encode s) w"

text \<open>\<open>Reader::string16l\<close>: the bytes, decoded from Windows-1252.\<close>

definition rd_string16l :: "rstring rd" where
  "rd_string16l = rd_bind rd_string16l_bytes (\<lambda>b. rd_ret (cp_decode b))"

section \<open>What each operation appends\<close>

lemmas wr_defs = wr_bytes_def wr_pad_def wr_u8_def wr_u16_def wr_u32_def wr_u64_def wr_f32_def wr_f64_def

definition packed_dword_enc :: "u32 \<Rightarrow> bytes" where
  "packed_dword_enc v =
     (if v \<le> 0x7FFF then le_bytes 2 (ucast v :: u16)
      else le_bytes 2 (ucast (drop_bit 16 v) OR 0x8000 :: u16) @ le_bytes 2 (ucast v :: u16))"

definition compressed_u32_enc :: "u32 \<Rightarrow> bytes" where
  "compressed_u32_enc v =
     (if v \<le> 0x7F then le_bytes 1 (ucast v :: u8)
      else if v \<le> 0x3FFF then le_bytes 1 (ucast (drop_bit 8 v) OR 0x80 :: u8) @ le_bytes 1 (ucast v :: u8)
      else le_bytes 1 (ucast (drop_bit 24 v) OR 0xC0 :: u8) @ le_bytes 1 (ucast (drop_bit 16 v) :: u8) @
        le_bytes 2 (ucast v :: u16))"

definition string16l_enc :: "bytes \<Rightarrow> bytes" where
  "string16l_enc s = le_bytes 2 (word_of_nat (length s) :: u16) @ s @ replicate (pad4 (2 + length s)) 0"

lemma wr_packed_dword_eq:
  "wr_packed_dword v w =
     (if v \<le> 0x7FFFFFFF then (Inr (), w\<lparr>wr_buf := wr_buf w @ packed_dword_enc v\<rparr>)
      else (Inl (ValueOutOfRange ''packed dword'' (unat v)), w))"
  by (auto simp: wr_packed_dword_def packed_dword_enc_def wr_defs word_le_nat_alt)

lemma wr_compressed_u32_eq:
  "wr_compressed_u32 v w =
     (if v \<le> 0x3FFFFFFF then (Inr (), w\<lparr>wr_buf := wr_buf w @ compressed_u32_enc v\<rparr>)
      else (Inl (ValueOutOfRange ''compressed u32'' (unat v)), w))"
  by (auto simp: wr_compressed_u32_def compressed_u32_enc_def wr_defs word_le_nat_alt)

lemma wr_string16l_bytes_eq:
  "wr_string16l_bytes s w =
     (if length s \<le> 0xFFFF then (Inr (), w\<lparr>wr_buf := wr_buf w @ string16l_enc s\<rparr>)
      else (Inl (ValueOutOfRange ''string16l length'' (length s)), w))"
  by (auto simp: wr_string16l_bytes_def string16l_enc_def wr_defs)

section \<open>Reading back\<close>

lemma parses_eq: "parses f enc x \<Longrightarrow> x = y \<Longrightarrow> parses f enc y"
  by simp

lemma packed_short:
  assumes "v \<le> (0x7FFF :: u32)"
  shows "(ucast v :: u16) AND 0x8000 = 0" "ucast (ucast v :: u16) = v"
proof -
  have b: "bit v i \<Longrightarrow> i < 15" for i
    using bit_below [OF assms, of 15 i] by simp
  then show "(ucast v :: u16) AND 0x8000 = 0"
    by (auto simp: marker_clear bit_simps)
  show "ucast (ucast v :: u16) = v"
    by (rule bit_word_eqI) (auto simp: bit_simps dest: b)
qed

lemma packed_long:
  assumes "v \<le> (0x7FFFFFFF :: u32)"
  defines "h \<equiv> (ucast (drop_bit 16 v) OR 0x8000 :: u16)"
  shows "h AND 0x8000 \<noteq> 0" "push_bit 16 (ucast (h AND 0x7FFF)) OR ucast (ucast v :: u16) = v"
proof -
  have b: "bit v i \<Longrightarrow> i < 31" for i
    using bit_below [OF assms(1), of 31 i] by simp
  show "h AND 0x8000 \<noteq> 0"
    by (simp add: h_def marker_clear marker_set bit_simps)
  show "push_bit 16 (ucast (h AND 0x7FFF)) OR ucast (ucast v :: u16) = v"
    by (rule bit_word_eqI) (auto simp: h_def marker_mask marker_set bit_simps dest: b)
qed

lemma compressed_one:
  assumes "v \<le> (0x7F :: u32)"
  shows "(ucast v :: u8) AND 0x80 = 0" "ucast (ucast v :: u8) = v"
proof -
  have b: "bit v i \<Longrightarrow> i < 7" for i
    using bit_below [OF assms, of 7 i] by simp
  then show "(ucast v :: u8) AND 0x80 = 0"
    by (auto simp: marker_clear bit_simps)
  show "ucast (ucast v :: u8) = v"
    by (rule bit_word_eqI) (auto simp: bit_simps dest: b)
qed

lemma compressed_two:
  assumes "v \<le> (0x3FFF :: u32)"
  defines "h \<equiv> (ucast (drop_bit 8 v) OR 0x80 :: u8)"
  shows "h AND 0x80 \<noteq> 0" "h AND 0x40 = 0"
    "push_bit 8 (ucast (h AND 0x7F)) OR ucast (ucast v :: u8) = v"
proof -
  have b: "bit v i \<Longrightarrow> i < 14" for i
    using bit_below [OF assms(1), of 14 i] by simp
  show "h AND 0x80 \<noteq> 0" "h AND 0x40 = 0"
    using b by (auto simp: h_def marker_clear marker_set bit_simps)
  show "push_bit 8 (ucast (h AND 0x7F)) OR ucast (ucast v :: u8) = v"
    by (rule bit_word_eqI) (auto simp: h_def marker_mask marker_set bit_simps dest: b)
qed

lemma compressed_four:
  assumes "v \<le> (0x3FFFFFFF :: u32)"
  defines "h \<equiv> (ucast (drop_bit 24 v) OR 0xC0 :: u8)"
  shows "h AND 0x80 \<noteq> 0" "h AND 0x40 \<noteq> 0"
    "push_bit 16 (push_bit 8 (ucast (h AND 0x3F)) OR ucast (ucast (drop_bit 16 v) :: u8)) OR
       ucast (ucast v :: u16) = v"
proof -
  have b: "bit v i \<Longrightarrow> i < 30" for i
    using bit_below [OF assms(1), of 30 i] by simp
  show "h AND 0x80 \<noteq> 0" "h AND 0x40 \<noteq> 0"
    by (auto simp: h_def marker_clear marker_set bit_simps)
  show "push_bit 16 (push_bit 8 (ucast (h AND 0x3F)) OR ucast (ucast (drop_bit 16 v) :: u8)) OR
       ucast (ucast v :: u16) = v"
    by (rule bit_word_eqI) (auto simp: h_def marker_mask marker_set bit_simps dest: b)
qed

lemma parses_packed_dword:
  assumes "v \<le> 0x7FFFFFFF"
  shows "parses rd_packed_dword (packed_dword_enc v) v"
proof (cases "v \<le> 0x7FFF")
  case True
  then show ?thesis
    unfolding rd_packed_dword_def packed_dword_enc_def
    by (auto intro!: parses_bind_nil [OF parses_ints(2)] simp: packed_short parses_ret)
next
  case False
  note l = packed_long [OF assms]
  show ?thesis
    unfolding rd_packed_dword_def packed_dword_enc_def if_not_P [OF False]
    by (intro parses_bind [OF parses_ints(2)], subst if_not_P [OF l(1)],
        intro parses_bind_nil [OF parses_ints(2)], subst l(2), rule parses_ret)
qed

lemma parses_compressed_u32:
  assumes "v \<le> 0x3FFFFFFF"
  shows "parses rd_compressed_u32 (compressed_u32_enc v) v"
proof -
  consider (one) "v \<le> 0x7F" | (two) "\<not> v \<le> 0x7F" "v \<le> 0x3FFF" | (four) "\<not> v \<le> 0x7F" "\<not> v \<le> 0x3FFF"
    by blast
  then show ?thesis
  proof cases
    case one
    then show ?thesis
      unfolding rd_compressed_u32_def compressed_u32_enc_def
      by (auto intro!: parses_bind_nil [OF parses_ints(1)] simp: compressed_one parses_ret simp del: One_nat_def)
  next
    case two
    note l = compressed_two [OF two(2)]
    show ?thesis
      unfolding rd_compressed_u32_def compressed_u32_enc_def if_not_P [OF two(1)] if_P [OF two(2)]
      by (intro parses_bind [OF parses_ints(1)], subst if_not_P [OF l(1)],
          intro parses_bind_nil [OF parses_ints(1)], subst if_P [OF l(2)], subst l(3), rule parses_ret)
  next
    case four
    note l = compressed_four [OF assms]
    show ?thesis
      unfolding rd_compressed_u32_def compressed_u32_enc_def if_not_P [OF four(1)] if_not_P [OF four(2)]
      by (intro parses_bind [OF parses_ints(1)], subst if_not_P [OF l(1)],
          intro parses_bind [OF parses_ints(1)], subst if_not_P [OF l(2)],
          intro parses_bind_nil [OF parses_ints(2)], subst l(3), rule parses_ret)
  qed
qed

lemma parses_string16l:
  assumes "length s \<le> 0xFFFF"
  shows "parses rd_string16l_bytes (string16l_enc s) s"
proof -
  have n: "unat (word_of_nat (length s) :: u16) = length s"
    using assms by (intro unat_of_nat_small) simp
  show ?thesis
    unfolding rd_string16l_bytes_def string16l_enc_def
    by (intro parses_bind [OF parses_ints(2)] parses_bind [OF parses_bytes] parses_bind_nil [OF parses_skip]
        parses_ret) (simp_all add: n)
qed

lemma parses_string16l_decoded:
  assumes "length s \<le> 0xFFFF"
  shows "parses rd_string16l (string16l_enc s) (cp_decode s)"
  unfolding rd_string16l_def by (rule parses_bind_nil [OF parses_string16l [OF assms] parses_ret])

interpretation packed_codec: wire_codec rd_packed_dword packed_dword_enc "\<lambda>v. v \<le> 0x7FFFFFFF"
  by unfold_locales (rule parses_packed_dword)

interpretation compressed_codec: wire_codec rd_compressed_u32 compressed_u32_enc "\<lambda>v. v \<le> 0x3FFFFFFF"
  by unfold_locales (rule parses_compressed_u32)

interpretation string16l_codec: wire_codec rd_string16l_bytes string16l_enc "\<lambda>s. length s \<le> 0xFFFF"
  by unfold_locales (rule parses_string16l)

lemma length_packed_dword_enc: "length (packed_dword_enc v) = (if v \<le> 0x7FFF then 2 else 4)"
  by (simp add: packed_dword_enc_def)

lemma length_compressed_u32_enc:
  "length (compressed_u32_enc v) = (if v \<le> 0x7F then 1 else if v \<le> 0x3FFF then 2 else 4)"
  by (simp add: compressed_u32_enc_def)

lemma length_string16l_enc: "length (string16l_enc s) = 2 + length s + pad4 (2 + length s)"
  by (simp add: string16l_enc_def)

end
