(* ===== verification/Codec.thy ===== *)
theory Codec
  imports Packet Bits_Writer
begin

text \<open>
  \<open>crates/ac-net/src/packet/codec.rs\<close>: a datagram is a 20-byte header, optional sections
  announced by the flags, and fragments. Parsing computes both shares of the checksum and
  never touches a keystream; sealing computes the checksum of a body that already sits in
  a buffer, drawing at most one keystream word and only once every check has passed. The
  main facts: a sealed packet parses back to the header and body it was sealed from, with
  the same shares, and verifies under exactly the word it was sealed with.
\<close>

section \<open>Errors and parsed data\<close>

datatype packet_error =
    TooShort | BodyExceedsDatagram | InvalidOptionalHeader | InvalidFragment | ChecksumMismatch

datatype encode_error =
    BodyTooLarge nat | BufferTooSmall | OptionalLengthOutOfRange | MalformedOptional
  | StrayBodyBytes | MalformedFragment | MissingKeystream

record connect_request =
  cr_server_time :: u64
  cr_cookie :: u64
  cr_client_id :: u32
  cr_server_seed :: u32
  cr_client_seed :: u32

record sequence_list =
  sl_bytes :: bytes

definition sl_from_raw :: "bytes \<Rightarrow> sequence_list" where
  "sl_from_raw b = \<lparr>sl_bytes = take (length b - length b mod 4) b\<rparr>"

definition sl_len :: "sequence_list \<Rightarrow> nat" where
  "sl_len l = length (sl_bytes l) div 4"

definition sl_is_empty :: "sequence_list \<Rightarrow> bool" where
  "sl_is_empty l \<longleftrightarrow> sl_bytes l = []"

text \<open>\<open>chunks_exact(4)\<close>: a trailing part shorter than four bytes is left out.\<close>

fun chunks4 :: "bytes \<Rightarrow> u32 list" where
  "chunks4 (a # b # c # d # rest) = from_le [a, b, c, d] # chunks4 rest"
| "chunks4 _ = []"

definition sl_iter :: "sequence_list \<Rightarrow> u32 list" where
  "sl_iter l = chunks4 (sl_bytes l)"

record optional_header =
  opt_raw :: bytes
  opt_ack_sequence :: u32
  opt_retransmit_requests :: sequence_list
  opt_reject_retransmits :: sequence_list
  opt_time_sync :: u64
  opt_echo_request_time :: u32
  opt_echo_response_time :: u32
  opt_echo_response_holding :: u32
  opt_flow_bytes :: u32
  opt_flow_interval :: u16
  opt_connect_request :: "connect_request option"

definition optional_default :: optional_header where
  "optional_default =
     \<lparr>opt_raw = [], opt_ack_sequence = 0, opt_retransmit_requests = \<lparr>sl_bytes = []\<rparr>,
      opt_reject_retransmits = \<lparr>sl_bytes = []\<rparr>, opt_time_sync = 0, opt_echo_request_time = 0,
      opt_echo_response_time = 0, opt_echo_response_holding = 0, opt_flow_bytes = 0,
      opt_flow_interval = 0, opt_connect_request = None\<rparr>"

section \<open>The optional sections\<close>

text \<open>\<open>Ok(None)\<close> is a list longer than 1024 ids or than the body.\<close>

definition read_list :: "sequence_list option rd" where
  "read_list =
     rd_bind rd_u32 (\<lambda>count r.
       if unat count > 1024 \<or> rd_remaining r < unat count * 4 then rd_ret None r
       else rd_bind (rd_bytes (unat count * 4)) (\<lambda>b. rd_ret (Some \<lparr>sl_bytes = b\<rparr>)) r)"

text \<open>A section guarded by a flag; a list section may end the parse with \<open>Ok(None)\<close>.\<close>

definition opt_when ::
  "bool \<Rightarrow> (optional_header \<Rightarrow> optional_header rd) \<Rightarrow> optional_header \<Rightarrow> optional_header rd" where
  "opt_when flag f o' = (if flag then f o' else rd_ret o')"

definition opt_list ::
  "bool \<Rightarrow> (sequence_list \<Rightarrow> optional_header \<Rightarrow> optional_header) \<Rightarrow> optional_header \<Rightarrow>
   (optional_header \<Rightarrow> 'a option rd) \<Rightarrow> 'a option rd" where
  "opt_list flag store o' k =
     (if flag
      then rd_bind read_list (\<lambda>l. case l of None \<Rightarrow> rd_ret None | Some l \<Rightarrow> k (store l o'))
      else k o')"

definition opt_skip8 :: "optional_header \<Rightarrow> optional_header rd" where
  "opt_skip8 o' = rd_bind (rd_skip 8) (\<lambda>_. rd_ret o')"

definition opt_ack :: "optional_header \<Rightarrow> optional_header rd" where
  "opt_ack o' = rd_bind rd_u32 (\<lambda>v. rd_ret (o'\<lparr>opt_ack_sequence := v\<rparr>))"

definition opt_connect :: "optional_header \<Rightarrow> optional_header rd" where
  "opt_connect o' =
     rd_bind rd_f64 (\<lambda>server_time.
     rd_bind rd_u64 (\<lambda>cookie.
     rd_bind rd_u32 (\<lambda>client_id.
     rd_bind rd_u32 (\<lambda>server_seed.
     rd_bind rd_u32 (\<lambda>client_seed.
     rd_bind (rd_skip 4) (\<lambda>_.
       rd_ret (o'\<lparr>opt_connect_request := Some \<lparr>cr_server_time = server_time, cr_cookie = cookie,
         cr_client_id = client_id, cr_server_seed = server_seed, cr_client_seed = client_seed\<rparr>\<rparr>)))))))"

definition opt_time :: "optional_header \<Rightarrow> optional_header rd" where
  "opt_time o' = rd_bind rd_f64 (\<lambda>v. rd_ret (o'\<lparr>opt_time_sync := v\<rparr>))"

definition opt_echo_request :: "optional_header \<Rightarrow> optional_header rd" where
  "opt_echo_request o' = rd_bind rd_f32 (\<lambda>v. rd_ret (o'\<lparr>opt_echo_request_time := v\<rparr>))"

definition opt_echo_response :: "optional_header \<Rightarrow> optional_header rd" where
  "opt_echo_response o' =
     rd_bind rd_f32 (\<lambda>t. rd_bind rd_f32 (\<lambda>h.
       rd_ret (o'\<lparr>opt_echo_response_time := t, opt_echo_response_holding := h\<rparr>)))"

definition opt_flow :: "optional_header \<Rightarrow> optional_header rd" where
  "opt_flow o' =
     rd_bind rd_u32 (\<lambda>b. rd_bind rd_u16 (\<lambda>i.
       rd_ret (o'\<lparr>opt_flow_bytes := b, opt_flow_interval := i\<rparr>)))"

text \<open>\<open>let used = r.position(); o.raw = &body[..used]\<close>.\<close>

definition opt_end :: "bytes \<Rightarrow> optional_header \<Rightarrow> (optional_header \<times> nat) option rd" where
  "opt_end body o' r =
     (let used = rd_position r in rd_ret (Some (o'\<lparr>opt_raw := take used body\<rparr>, used)) r)"

definition parse_optional_inner ::
  "bytes \<Rightarrow> packet_flags \<Rightarrow> (optional_header \<times> nat) option rd" where
  "parse_optional_inner body flags =
     rd_bind (opt_when (has flags SERVER_SWITCH) opt_skip8 optional_default) (\<lambda>s.
     opt_list (has flags REQUEST_RETRANSMIT) (\<lambda>l s. s\<lparr>opt_retransmit_requests := l\<rparr>) s (\<lambda>s.
     opt_list (has flags REJECT_RETRANSMIT) (\<lambda>l s. s\<lparr>opt_reject_retransmits := l\<rparr>) s (\<lambda>s.
     rd_bind (opt_when (has flags ACK_SEQUENCE) opt_ack s) (\<lambda>s.
     if has flags LOGIN_REQUEST then rd_ret (Some (s\<lparr>opt_raw := body\<rparr>, length body))
     else
     rd_bind (opt_when (has flags WORLD_LOGIN_REQUEST) opt_skip8 s) (\<lambda>s.
     rd_bind (opt_when (has flags CONNECT_REQUEST) opt_connect s) (\<lambda>s.
     rd_bind (opt_when (has flags CONNECT_RESPONSE) opt_skip8 s) (\<lambda>s.
     rd_bind (opt_when (has flags CICMD_COMMAND) opt_skip8 s) (\<lambda>s.
     rd_bind (opt_when (has flags TIME_SYNC) opt_time s) (\<lambda>s.
     rd_bind (opt_when (has flags ECHO_REQUEST) opt_echo_request s) (\<lambda>s.
     rd_bind (opt_when (has flags ECHO_RESPONSE) opt_echo_response s) (\<lambda>s.
     rd_bind (opt_when (has flags FLOW) opt_flow s) (\<lambda>s.
     opt_end body s))))))))))))"

definition parse_optional :: "bytes \<Rightarrow> packet_flags \<Rightarrow> (optional_header \<times> nat) option" where
  "parse_optional body flags =
     (case fst (parse_optional_inner body flags (rd_new body)) of Inl _ \<Rightarrow> None | Inr x \<Rightarrow> x)"

section \<open>Parsing a datagram\<close>

record parsed_packet =
  pkt_header :: packet_header
  pkt_optional :: optional_header
  pkt_body :: bytes
  pkt_fragment_count :: nat
  pkt_header_hash :: u32
  pkt_payload_hash :: u32
  pkt_fragment_bytes :: bytes

definition pkt_fragments :: "parsed_packet \<Rightarrow> fragment list" where
  "pkt_fragments p = frag_iter (pkt_fragment_bytes p)"

definition verify_checksum :: "packet_header \<Rightarrow> u32 \<Rightarrow> u32 \<Rightarrow> u32 option \<Rightarrow> bool" where
  "verify_checksum header header_hash' payload_hash' key =
     (let payload = (case key of Some k \<Rightarrow> k XOR payload_hash' | None \<Rightarrow> payload_hash')
      in hdr_checksum header = header_hash' + payload)"

definition pkt_verify :: "parsed_packet \<Rightarrow> u32 option \<Rightarrow> bool" where
  "pkt_verify p key = verify_checksum (pkt_header p) (pkt_header_hash p) (pkt_payload_hash p) key"

text \<open>The fragment loop of \<open>parse_packet\<close>: hash and number of the fragments.\<close>

function scan_fragments :: "bytes \<Rightarrow> u32 \<Rightarrow> nat \<Rightarrow> (u32 \<times> nat) option" where
  "scan_fragments rest h n =
     (if rest = [] then Some (h, n)
      else case parse_fragment rest of
             None \<Rightarrow> None
           | Some (f, used) \<Rightarrow> scan_fragments (drop used rest) (h + frag_hash f) (n + 1))"
  by pat_completeness auto
termination
  by (relation "measure (\<lambda>(rest, _, _). length rest)") (auto dest: parse_fragment_used)

declare scan_fragments.simps [simp del]

definition parse_packet :: "bytes \<Rightarrow> packet_error + parsed_packet" where
  "parse_packet datagram =
     (case header_from_bytes datagram of
        None \<Rightarrow> Inl TooShort
      | Some header \<Rightarrow>
          let after_header = drop HEADER_SIZE datagram; size = unat (hdr_data_size header)
          in if length after_header < size then Inl BodyExceedsDatagram
             else let body = take size after_header
             in case parse_optional body (hdr_flags header) of
                  None \<Rightarrow> Inl InvalidOptionalHeader
                | Some (optional, optional_len) \<Rightarrow>
                    let fragment_bytes = (if has (hdr_flags header) BLOB_FRAGMENTS
                                          then drop optional_len body else [])
                    in case scan_fragments fragment_bytes 0 0 of
                         None \<Rightarrow> Inl InvalidFragment
                       | Some (fragment_hash, fragment_count) \<Rightarrow>
                           Inr \<lparr>pkt_header = header, pkt_optional = optional, pkt_body = body,
                                pkt_fragment_count = fragment_count,
                                pkt_header_hash = header_hash header,
                                pkt_payload_hash = hash32 (opt_raw optional) + fragment_hash,
                                pkt_fragment_bytes = fragment_bytes\<rparr>)"

definition decode_with_keystream ::
  "bytes \<Rightarrow> isaac option \<Rightarrow> (packet_error + parsed_packet) \<times> isaac option" where
  "decode_with_keystream datagram keystream =
     (case parse_packet datagram of
        Inl e \<Rightarrow> (Inl e, keystream)
      | Inr packet \<Rightarrow>
          if has (hdr_flags (pkt_header packet)) ENCRYPTED_CHECKSUM
          then case keystream of
                 None \<Rightarrow> (Inl ChecksumMismatch, None)
               | Some ks \<Rightarrow>
                   let (key, ks') = next_word ks
                   in (if pkt_verify packet (Some key) then Inr packet else Inl ChecksumMismatch, Some ks')
          else (if pkt_verify packet None then Inr packet else Inl ChecksumMismatch, keystream))"

section \<open>Sealing\<close>

record sealed =
  sealed_len :: nat
  sealed_key :: u32
  sealed_payload :: u32

text \<open>The fragment loop of \<open>payload_hash\<close>.\<close>

function hash_fragments :: "bytes \<Rightarrow> u32 \<Rightarrow> u32 option" where
  "hash_fragments rest h =
     (if rest = [] then Some h
      else case parse_fragment rest of
             None \<Rightarrow> None
           | Some (f, used) \<Rightarrow> hash_fragments (drop used rest) (h + frag_hash f))"
  by pat_completeness auto
termination
  by (relation "measure (\<lambda>(rest, _). length rest)") (auto dest: parse_fragment_used)

declare hash_fragments.simps [simp del]

definition payload_hash :: "bytes \<Rightarrow> packet_flags \<Rightarrow> nat \<Rightarrow> encode_error + u32" where
  "payload_hash body flags optional_len =
     (let optional_hash = hash32 (take optional_len body)
      in if \<not> has flags BLOB_FRAGMENTS
         then if optional_len \<noteq> length body then Inl StrayBodyBytes else Inr optional_hash
         else case hash_fragments (drop optional_len body) optional_hash of
                None \<Rightarrow> Inl MalformedFragment
              | Some h \<Rightarrow> Inr h)"

definition prepare_seal ::
  "packet_header \<Rightarrow> bytes \<Rightarrow> nat \<Rightarrow> nat \<Rightarrow> encode_error + (packet_header \<times> u32 \<times> nat)" where
  "prepare_seal header datagram body_len optional_len =
     (if body_len > 65535 then Inl (BodyTooLarge body_len)
      else let len = HEADER_SIZE + body_len
           in if length datagram < len then Inl BufferTooSmall
              else if optional_len > body_len then Inl OptionalLengthOutOfRange
              else case payload_hash (subslice datagram HEADER_SIZE len) (hdr_flags header) optional_len of
                     Inl e \<Rightarrow> Inl e
                   | Inr payload \<Rightarrow> Inr (header\<lparr>hdr_data_size := word_of_nat body_len\<rparr>, payload, len))"

definition finish_seal ::
  "packet_header \<Rightarrow> bytes \<Rightarrow> u32 \<Rightarrow> nat \<Rightarrow> u32 option \<Rightarrow> sealed \<times> bytes" where
  "finish_seal header datagram payload len key =
     (let (k, sealed_pl) = (case key of Some k \<Rightarrow> (k, k XOR payload) | None \<Rightarrow> (0, payload));
          header' = header\<lparr>hdr_checksum := header_hash header + sealed_pl\<rparr>
      in (\<lparr>sealed_len = len, sealed_key = k, sealed_payload = sealed_pl\<rparr>,
          overwrite datagram 0 (header_to_bytes header')))"

text \<open>Result, the buffer and the keystream left behind.\<close>

definition seal_in_place ::
  "packet_header \<Rightarrow> bytes \<Rightarrow> nat \<Rightarrow> nat \<Rightarrow> isaac option \<Rightarrow>
   (encode_error + sealed) \<times> bytes \<times> isaac option" where
  "seal_in_place header datagram body_len optional_len keystream =
     (case prepare_seal header datagram body_len optional_len of
        Inl e \<Rightarrow> (Inl e, datagram, keystream)
      | Inr (header', payload, len) \<Rightarrow>
          if has (hdr_flags header') ENCRYPTED_CHECKSUM
          then case keystream of
                 None \<Rightarrow> (Inl MissingKeystream, datagram, None)
               | Some ks \<Rightarrow>
                   let (key, ks') = next_word ks;
                       (s, d) = finish_seal header' datagram payload len (Some key)
                   in (Inr s, d, Some ks')
          else let (s, d) = finish_seal header' datagram payload len None
               in (Inr s, d, keystream))"

definition reseal_in_place ::
  "packet_header \<Rightarrow> bytes \<Rightarrow> nat \<Rightarrow> nat \<Rightarrow> u32 \<Rightarrow> (encode_error + sealed) \<times> bytes" where
  "reseal_in_place header datagram body_len optional_len key =
     (case prepare_seal header datagram body_len optional_len of
        Inl e \<Rightarrow> (Inl e, datagram)
      | Inr (header', payload, len) \<Rightarrow>
          let (s, d) = finish_seal header' datagram payload len
                         (if has (hdr_flags header') ENCRYPTED_CHECKSUM then Some key else None)
          in (Inr s, d))"

definition encode ::
  "packet_header \<Rightarrow> bytes \<Rightarrow> isaac option \<Rightarrow> (encode_error + bytes) \<times> isaac option" where
  "encode header body keystream =
     (case parse_optional body (hdr_flags header) of
        None \<Rightarrow> (Inl MalformedOptional, keystream)
      | Some (_, optional_len) \<Rightarrow>
          let datagram = overwrite (replicate (HEADER_SIZE + length body) 0) HEADER_SIZE body
          in case seal_in_place header datagram (length body) optional_len keystream of
               (Inl e, _, ks) \<Rightarrow> (Inl e, ks)
             | (Inr _, d, ks) \<Rightarrow> (Inr d, ks))"

text \<open>\<open>None\<close> is the panic of \<open>expect\<close>.\<close>

definition transport_disconnect :: "u16 \<Rightarrow> u16 \<Rightarrow> bytes option" where
  "transport_disconnect client_id iteration =
     (let header = header_default\<lparr>hdr_sequence := 0, hdr_flags := DISCONNECT, hdr_id := client_id,
                     hdr_iteration := iteration\<rparr>
      in case seal_in_place header (header_to_bytes header) 0 0 None of
           (Inl _, _, _) \<Rightarrow> None
         | (Inr s, d, _) \<Rightarrow> Some (take (sealed_len s) d))"

section \<open>The optional sections lie at the front of the body\<close>

definition opt_post :: "bytes \<Rightarrow> (optional_header \<times> nat) option rd \<Rightarrow> bool" where
  "opt_post body m \<longleftrightarrow>
     (\<forall>r. rd_ok r \<and> rd_data r = body \<longrightarrow>
        (\<forall>s n. fst (m r) = Inr (Some (s, n)) \<longrightarrow> n \<le> length body \<and> opt_raw s = take n body))"

lemma opt_post_bind [wf_intros]:
  assumes "rd_safe f" "\<And>v. opt_post body (g v)"
  shows "opt_post body (rd_bind f g)"
proof (unfold opt_post_def, intro allI impI)
  fix r s n
  assume r: "rd_ok r \<and> rd_data r = body" and res: "fst (rd_bind f g r) = Inr (Some (s, n))"
  obtain x r' where fr: "f r = (x, r')" by force
  have r': "rd_ok r' \<and> rd_data r' = body" using rd_safe_pos [OF assms(1) _ fr] r by simp
  show "n \<le> length body \<and> opt_raw s = take n body"
  proof (cases x)
    case (Inl e)
    then show ?thesis using res fr by (simp add: rd_bind_def)
  next
    case (Inr v)
    then have "fst (g v r') = Inr (Some (s, n))" using res fr by (simp add: rd_bind_def)
    then show ?thesis using assms(2) [of v] r' unfolding opt_post_def by blast
  qed
qed

lemma opt_post_if [wf_intros]: "opt_post body f \<Longrightarrow> opt_post body g \<Longrightarrow> opt_post body (if b then f else g)"
  by simp

lemma opt_post_None [wf_intros]: "opt_post body (rd_ret None)"
  by (simp add: opt_post_def rd_ret_def)

lemma opt_post_login [wf_intros]: "opt_post body (rd_ret (Some (s\<lparr>opt_raw := body\<rparr>, length body)))"
  by (simp add: opt_post_def rd_ret_def)

lemma opt_post_end [wf_intros]: "opt_post body (opt_end body s)"
  by (auto simp: opt_post_def opt_end_def rd_ret_def rd_position_def rd_ok_def Let_def)

lemma rd_safe_read_list [wf_intros]: "rd_safe read_list"
proof -
  have "rd_safe (\<lambda>r. if b \<or> rd_remaining r < k then rd_ret None r else f r)"
    if "rd_safe f" for b k and f :: "sequence_list option rd"
    using that unfolding rd_safe_def by (simp add: rd_ret_def)
  from this [OF rd_safe_bind, OF rd_safe_bytes rd_safe_ret]
  show ?thesis unfolding read_list_def by (intro wf_intros)
qed

lemma opt_post_list [wf_intros]:
  assumes "\<And>s. opt_post body (k s)"
  shows "opt_post body (opt_list flag store s k)"
  unfolding opt_list_def by (intro wf_intros assms) (simp split: option.split add: assms opt_post_None)

lemma rd_safe_sections [wf_intros]:
  "rd_safe (opt_skip8 s)" "rd_safe (opt_ack s)" "rd_safe (opt_connect s)" "rd_safe (opt_time s)"
  "rd_safe (opt_echo_request s)" "rd_safe (opt_echo_response s)" "rd_safe (opt_flow s)"
  unfolding opt_skip8_def opt_ack_def opt_connect_def opt_time_def opt_echo_request_def
    opt_echo_response_def opt_flow_def by (intro wf_intros)+

lemma rd_safe_when [wf_intros]: "(\<And>s. rd_safe (f s)) \<Longrightarrow> rd_safe (opt_when b f s)"
  by (simp add: opt_when_def rd_safe_ret)

lemma opt_post_parse: "opt_post body (parse_optional_inner body flags)"
  unfolding parse_optional_inner_def by (intro wf_intros)

lemma parse_optional_raw:
  assumes "parse_optional body flags = Some (s, n)"
  shows "n \<le> length body" "opt_raw s = take n body"
proof -
  have "fst (parse_optional_inner body flags (rd_new body)) = Inr (Some (s, n))"
    using assms by (simp add: parse_optional_def split: sum.splits)
  moreover have "rd_ok (rd_new body) \<and> rd_data (rd_new body) = body" by (simp add: rd_new_def rd_ok_def)
  ultimately show "n \<le> length body" "opt_raw s = take n body"
    using opt_post_parse [of body flags] unfolding opt_post_def by blast+
qed

section \<open>The two fragment loops agree with the fragment iterator\<close>

definition fragments_ok :: "bytes \<Rightarrow> bool" where
  "fragments_ok area \<longleftrightarrow> frag.area (frag_iter area) = area"

definition fragments_hash :: "bytes \<Rightarrow> u32" where
  "fragments_hash area = sum_list (map frag_hash (frag_iter area))"

lemma fragments_ok_step:
  "parse_fragment rest = Some (f, n) \<Longrightarrow> fragments_ok rest \<longleftrightarrow> fragments_ok (drop n rest)"
proof -
  assume p: "parse_fragment rest = Some (f, n)"
  then obtain tail where t: "frag_wf f" "n = length (frag_render f)" "rest = frag_render f @ tail"
    unfolding parse_fragment_iff by blast
  have "frag_iter rest = f # frag_iter tail" using t by (simp add: frag_iter_render)
  then show ?thesis using t by (simp add: fragments_ok_def)
qed

lemma fragments_ok_stuck: "parse_fragment rest = None \<Longrightarrow> fragments_ok rest \<longleftrightarrow> rest = []"
  by (auto simp: fragments_ok_def frag_iter.simps [of rest])

lemma fragments_hash_step:
  "parse_fragment rest = Some (f, n) \<Longrightarrow>
     fragments_hash rest = frag_hash f + fragments_hash (drop n rest)"
  by (simp add: fragments_hash_def frag_iter.simps [of rest])

lemma fragments_nil [simp]: "fragments_ok []" "fragments_hash [] = 0"
  by (simp_all add: fragments_ok_def fragments_hash_def)

lemma hash_fragments_eq:
  "hash_fragments rest h = (if fragments_ok rest then Some (h + fragments_hash rest) else None)"
proof (induction rest h rule: hash_fragments.induct)
  case (1 rest h)
  show ?case
  proof (cases "parse_fragment rest")
    case None
    then show ?thesis by (auto simp: hash_fragments.simps [of rest] fragments_ok_stuck)
  next
    case (Some r)
    obtain f n where r: "r = (f, n)" by (cases r)
    have ne: "rest \<noteq> []" using Some frag.parse_Nil by auto
    have IH: "hash_fragments (drop n rest) (h + frag_hash f) =
        (if fragments_ok (drop n rest) then Some (h + frag_hash f + fragments_hash (drop n rest)) else None)"
      by (rule "1.IH" [OF ne Some r [symmetric]])
    show ?thesis
      using Some r ne
      by (simp add: hash_fragments.simps [of rest] IH fragments_ok_step fragments_hash_step add.assoc)
  qed
qed

lemma scan_fragments_eq:
  "scan_fragments rest h k =
     (if fragments_ok rest then Some (h + fragments_hash rest, k + length (frag_iter rest)) else None)"
proof (induction rest h k rule: scan_fragments.induct)
  case (1 rest h k)
  show ?case
  proof (cases "parse_fragment rest")
    case None
    then show ?thesis by (auto simp: scan_fragments.simps [of rest] fragments_ok_stuck)
  next
    case (Some r)
    obtain f n where r: "r = (f, n)" by (cases r)
    have ne: "rest \<noteq> []" using Some frag.parse_Nil by auto
    have IH: "scan_fragments (drop n rest) (h + frag_hash f) (k + 1) =
        (if fragments_ok (drop n rest)
         then Some (h + frag_hash f + fragments_hash (drop n rest), k + 1 + length (frag_iter (drop n rest))) else None)"
      by (rule "1.IH" [OF ne Some r [symmetric]])
    show ?thesis
      using Some r ne
      by (simp add: scan_fragments.simps [of rest] IH [simplified] fragments_ok_step fragments_hash_step add.assoc
          frag_iter.simps [of rest])
  qed
qed

text \<open>A fragment area built from well-formed fragments passes both loops.\<close>

lemma fragments_ok_area: "list_all frag_wf fs \<Longrightarrow> fragments_ok (frag.area fs)"
  by (simp add: fragments_ok_def frag_iter_area)

section \<open>Layout and checksum shares\<close>

text \<open>What follows the optional sections: fragments, or nothing.\<close>

definition layout_ok :: "packet_flags \<Rightarrow> bytes \<Rightarrow> nat \<Rightarrow> bool" where
  "layout_ok flags body n \<longleftrightarrow>
     (if has flags BLOB_FRAGMENTS then fragments_ok (drop n body) else n = length body)"

definition payload_share :: "packet_flags \<Rightarrow> bytes \<Rightarrow> nat \<Rightarrow> u32" where
  "payload_share flags body n =
     hash32 (take n body) + (if has flags BLOB_FRAGMENTS then fragments_hash (drop n body) else 0)"

lemma payload_hash_Inr:
  "payload_hash body flags n = Inr w \<longleftrightarrow> layout_ok flags body n \<and> w = payload_share flags body n"
  by (auto simp: payload_hash_def layout_ok_def payload_share_def hash_fragments_eq Let_def)

lemma payload_hash_error:
  "payload_hash body flags n = Inl e \<longleftrightarrow>
     \<not> layout_ok flags body n \<and> e = (if has flags BLOB_FRAGMENTS then MalformedFragment else StrayBodyBytes)"
  by (auto simp: payload_hash_def layout_ok_def hash_fragments_eq Let_def)

definition the_packet :: "packet_header \<Rightarrow> optional_header \<Rightarrow> bytes \<Rightarrow> nat \<Rightarrow> parsed_packet" where
  "the_packet h s body n =
     (let area = (if has (hdr_flags h) BLOB_FRAGMENTS then drop n body else [])
      in \<lparr>pkt_header = h, pkt_optional = s, pkt_body = body,
          pkt_fragment_count = length (frag_iter area), pkt_header_hash = header_hash h,
          pkt_payload_hash = hash32 (opt_raw s) + fragments_hash area, pkt_fragment_bytes = area\<rparr>)"

lemma the_packet_simps [simp]:
  "pkt_header (the_packet h s body n) = h" "pkt_optional (the_packet h s body n) = s"
  "pkt_body (the_packet h s body n) = body" "pkt_header_hash (the_packet h s body n) = header_hash h"
  "pkt_fragment_count (the_packet h s body n) = length (pkt_fragments (the_packet h s body n))"
  by (simp_all add: the_packet_def pkt_fragments_def Let_def)

lemma the_packet_share:
  "opt_raw s = take n body \<Longrightarrow> pkt_payload_hash (the_packet h s body n) = payload_share (hdr_flags h) body n"
  by (simp add: the_packet_def payload_share_def Let_def)

lemma parse_packet_Inr:
  "parse_packet d = Inr p \<longleftrightarrow>
     (\<exists>h s n. header_from_bytes d = Some h \<and> unat (hdr_data_size h) \<le> length (drop 20 d) \<and>
        parse_optional (take (unat (hdr_data_size h)) (drop 20 d)) (hdr_flags h) = Some (s, n) \<and>
        (has (hdr_flags h) BLOB_FRAGMENTS \<longrightarrow> fragments_ok (drop n (take (unat (hdr_data_size h)) (drop 20 d)))) \<and>
        p = the_packet h s (take (unat (hdr_data_size h)) (drop 20 d)) n)"
  by (auto simp: parse_packet_def the_packet_def scan_fragments_eq HEADER_SIZE_def Let_def not_less
      split: option.splits)

lemma parse_packet_build:
  assumes "length body = unat (hdr_data_size h)"
    and "parse_optional body (hdr_flags h) = Some (s, n)" "has (hdr_flags h) BLOB_FRAGMENTS \<longrightarrow> fragments_ok (drop n body)"
  shows "parse_packet (header_to_bytes h @ body @ rest) = Inr (the_packet h s body n)"
  using assms by (simp add: parse_packet_Inr header_from_to)

text \<open>The body is its optional sections followed by its fragments.\<close>

lemma the_packet_area:
  assumes "opt_raw s = take n body" "layout_ok (hdr_flags h) body n"
  shows "opt_raw s @ frag.area (pkt_fragments (the_packet h s body n)) = body"
  using assms by (auto simp: the_packet_def pkt_fragments_def layout_ok_def fragments_ok_def Let_def split: if_splits)

section \<open>What a seal writes\<close>

definition seal_share :: "u32 option \<Rightarrow> u32 \<Rightarrow> u32" where
  "seal_share key payload = (case key of Some k \<Rightarrow> k XOR payload | None \<Rightarrow> payload)"

definition sealed_header :: "packet_header \<Rightarrow> nat \<Rightarrow> u32 \<Rightarrow> packet_header" where
  "sealed_header h body_len share =
     h\<lparr>hdr_data_size := word_of_nat body_len,
       hdr_checksum := header_hash (h\<lparr>hdr_data_size := word_of_nat body_len\<rparr>) + share\<rparr>"

lemma sealed_header_simps [simp]:
  "hdr_flags (sealed_header h n x) = hdr_flags h" "hdr_sequence (sealed_header h n x) = hdr_sequence h"
  "hdr_id (sealed_header h n x) = hdr_id h" "hdr_time (sealed_header h n x) = hdr_time h"
  "hdr_iteration (sealed_header h n x) = hdr_iteration h"
  "hdr_data_size (sealed_header h n x) = word_of_nat n"
  "header_hash (sealed_header h n x) = header_hash (h\<lparr>hdr_data_size := word_of_nat n\<rparr>)"
  by (simp_all add: sealed_header_def)

lemma prepare_seal_Inr:
  "prepare_seal h d bl ol = Inr r \<longleftrightarrow>
     bl \<le> 65535 \<and> 20 + bl \<le> length d \<and> ol \<le> bl \<and> layout_ok (hdr_flags h) (subslice d 20 (20 + bl)) ol \<and>
     r = (h\<lparr>hdr_data_size := word_of_nat bl\<rparr>, payload_share (hdr_flags h) (subslice d 20 (20 + bl)) ol, 20 + bl)"
  by (auto simp: prepare_seal_def HEADER_SIZE_def Let_def payload_hash_Inr payload_hash_error split: sum.splits)

definition seal_ok :: "packet_header \<Rightarrow> bytes \<Rightarrow> nat \<Rightarrow> nat \<Rightarrow> bool" where
  "seal_ok h d bl ol \<longleftrightarrow>
     bl \<le> 65535 \<and> 20 + bl \<le> length d \<and> ol \<le> bl \<and> layout_ok (hdr_flags h) (subslice d 20 (20 + bl)) ol"

lemma prepare_seal_cases:
  "prepare_seal h d bl ol =
     (if seal_ok h d bl ol
      then Inr (h\<lparr>hdr_data_size := word_of_nat bl\<rparr>, payload_share (hdr_flags h) (subslice d 20 (20 + bl)) ol, 20 + bl)
      else prepare_seal h d bl ol)"
  by (simp add: prepare_seal_Inr seal_ok_def)

lemma prepare_seal_ok:
  "seal_ok h d bl ol \<Longrightarrow> prepare_seal h d bl ol =
     Inr (h\<lparr>hdr_data_size := word_of_nat bl\<rparr>, payload_share (hdr_flags h) (subslice d 20 (20 + bl)) ol, 20 + bl)"
  by (simp add: prepare_seal_Inr seal_ok_def)

lemma prepare_seal_not_ok:
  "\<not> seal_ok h d bl ol \<Longrightarrow> \<exists>e. prepare_seal h d bl ol = Inl e"
  using prepare_seal_Inr [of h d bl ol] by (cases "prepare_seal h d bl ol") (auto simp: seal_ok_def)

lemma finish_seal_eq:
  "finish_seal (h\<lparr>hdr_data_size := word_of_nat bl\<rparr>) d w len key =
     (\<lparr>sealed_len = len, sealed_key = (case key of Some k \<Rightarrow> k | None \<Rightarrow> 0), sealed_payload = seal_share key w\<rparr>,
      header_to_bytes (sealed_header h bl (seal_share key w)) @ drop 20 d)"
  by (simp add: finish_seal_def seal_share_def sealed_header_def overwrite_def split: option.split)

text \<open>The word a seal draws, and the keystream it leaves.\<close>

definition seal_key :: "packet_header \<Rightarrow> isaac option \<Rightarrow> u32 option" where
  "seal_key h ks = (if has (hdr_flags h) ENCRYPTED_CHECKSUM then map_option (fst \<circ> next_word) ks else None)"

definition seal_rest :: "packet_header \<Rightarrow> isaac option \<Rightarrow> isaac option" where
  "seal_rest h ks = (if has (hdr_flags h) ENCRYPTED_CHECKSUM then map_option (snd \<circ> next_word) ks else ks)"

definition seal_result :: "packet_header \<Rightarrow> bytes \<Rightarrow> nat \<Rightarrow> nat \<Rightarrow> u32 option \<Rightarrow> sealed \<times> bytes" where
  "seal_result h d bl ol key =
     (let share = seal_share key (payload_share (hdr_flags h) (subslice d 20 (20 + bl)) ol)
      in (\<lparr>sealed_len = 20 + bl, sealed_key = (case key of Some k \<Rightarrow> k | None \<Rightarrow> 0), sealed_payload = share\<rparr>,
          header_to_bytes (sealed_header h bl share) @ drop 20 d))"

lemma seal_in_place_ok:
  assumes "seal_ok h d bl ol" "has (hdr_flags h) ENCRYPTED_CHECKSUM \<Longrightarrow> ks \<noteq> None"
  shows "seal_in_place h d bl ol ks =
    (Inr (fst (seal_result h d bl ol (seal_key h ks))), snd (seal_result h d bl ol (seal_key h ks)), seal_rest h ks)"
  using assms
  by (auto simp: seal_in_place_def prepare_seal_ok finish_seal_eq seal_result_def seal_key_def seal_rest_def
      Let_def split_beta)

lemma seal_in_place_not_ok:
  assumes "\<not> seal_ok h d bl ol \<or> has (hdr_flags h) ENCRYPTED_CHECKSUM \<and> ks = None"
  shows "\<exists>e. seal_in_place h d bl ol ks = (Inl e, d, ks)"
proof (cases "seal_ok h d bl ol")
  case True
  then show ?thesis using assms by (simp add: seal_in_place_def prepare_seal_ok)
next
  case False
  then show ?thesis using prepare_seal_not_ok by (fastforce simp: seal_in_place_def)
qed

lemma reseal_in_place_ok:
  "seal_ok h d bl ol \<Longrightarrow> reseal_in_place h d bl ol key =
     (let r = seal_result h d bl ol (if has (hdr_flags h) ENCRYPTED_CHECKSUM then Some key else None)
      in (Inr (fst r), snd r))"
  by (simp add: reseal_in_place_def prepare_seal_ok finish_seal_eq seal_result_def Let_def)

lemma sealed_verifies:
  assumes "opt_raw s = take n body" "share = seal_share key (payload_share (hdr_flags h) body n)"
  shows "pkt_verify (the_packet (sealed_header h bl share) s body n) key"
  using the_packet_share [OF assms(1), of "sealed_header h bl share"] assms(2)
  by (simp add: pkt_verify_def verify_checksum_def seal_share_def sealed_header_def Let_def)

section \<open>Properties\<close>

lemma overwrite_zeros: "overwrite (replicate (20 + length body) 0) 20 body = replicate 20 0 @ body"
  by (simp add: overwrite_def min_def)

lemma subslice_body: "length pre = 20 \<Longrightarrow> subslice (pre @ body @ rest) 20 (20 + length body) = body"
  by (simp add: subslice_def)

lemma encode_Inr:
  "encode h body ks = (Inr d, ks') \<longleftrightarrow>
     (\<exists>s n. parse_optional body (hdr_flags h) = Some (s, n) \<and> length body \<le> 65535 \<and>
        layout_ok (hdr_flags h) body n \<and> (has (hdr_flags h) ENCRYPTED_CHECKSUM \<longrightarrow> ks \<noteq> None) \<and>
        d = header_to_bytes (sealed_header h (length body)
              (seal_share (seal_key h ks) (payload_share (hdr_flags h) body n))) @ body \<and>
        ks' = seal_rest h ks)" (is "?L \<longleftrightarrow> ?R")
proof (cases "parse_optional body (hdr_flags h)")
  case None
  then show ?thesis by (simp add: encode_def)
next
  case (Some r)
  obtain s n where r: "r = (s, n)" by (cases r)
  define d0 where "d0 = replicate 20 0 @ body"
  have sub: "subslice d0 20 (20 + length body) = body" "drop 20 d0 = body" "20 + length body \<le> length d0"
    by (simp_all add: d0_def subslice_def)
  have enc: "encode h body ks =
      (case seal_in_place h d0 (length body) n ks of (Inl e, _, k) \<Rightarrow> (Inl e, k) | (Inr _, d, k) \<Rightarrow> (Inr d, k))"
    using Some r overwrite_zeros [of body] by (simp add: encode_def HEADER_SIZE_def d0_def)
  have ok: "seal_ok h d0 (length body) n \<longleftrightarrow> length body \<le> 65535 \<and> layout_ok (hdr_flags h) body n"
    using sub parse_optional_raw(1) [OF Some [unfolded r]] by (simp add: seal_ok_def)
  show ?thesis
  proof (cases "seal_ok h d0 (length body) n \<and> (has (hdr_flags h) ENCRYPTED_CHECKSUM \<longrightarrow> ks \<noteq> None)")
    case True
    then show ?thesis
      using Some r ok by (auto simp: enc seal_in_place_ok seal_result_def sub Let_def)
  next
    case False
    then obtain e where "seal_in_place h d0 (length body) n ks = (Inl e, d0, ks)"
      using seal_in_place_not_ok [of h d0 "length body" n ks] by auto
    then show ?thesis using False Some r ok by (auto simp: enc)
  qed
qed

lemma encode_keeps: "encode h body ks = (Inl e, ks') \<Longrightarrow> ks' = ks"
proof -
  assume e: "encode h body ks = (Inl e, ks')"
  show ?thesis
  proof (cases "parse_optional body (hdr_flags h)")
    case None
    then show ?thesis using e by (simp add: encode_def)
  next
    case (Some r)
    obtain s n where r: "r = (s, n)" by (cases r)
    define d0 where "d0 = overwrite (replicate (HEADER_SIZE + length body) 0) HEADER_SIZE body"
    show ?thesis
      using e Some r seal_in_place_not_ok [of h d0 "length body" n ks] seal_in_place_ok [of h d0 "length body" n ks]
      by (cases "seal_ok h d0 (length body) n \<and> (has (hdr_flags h) ENCRYPTED_CHECKSUM \<longrightarrow> ks \<noteq> None)")
        (auto simp: encode_def d0_def [symmetric])
  qed
qed

text \<open>
  C2. Sealing and opening are inverse: whatever \<open>encode\<close> builds, \<open>decode_with_keystream\<close> at
  the same keystream position accepts, reads the same header fields and body, splits the body
  into the same optional sections and fragments, and leaves the keystream where the sender's
  stands; a packet that cannot be built costs no keystream word.
\<close>

theorem encode_decode:
  "case encode h body ks of
     (Inl e, ks') \<Rightarrow> ks' = ks
   | (Inr d, ks') \<Rightarrow>
       \<exists>p. decode_with_keystream d ks = (Inr p, ks') \<and> pkt_body p = body \<and>
         hdr_data_size (pkt_header p) = word_of_nat (length body) \<and> length body \<le> 65535 \<and>
         pkt_header p = h\<lparr>hdr_data_size := hdr_data_size (pkt_header p), hdr_checksum := hdr_checksum (pkt_header p)\<rparr> \<and>
         parse_optional body (hdr_flags h) = Some (pkt_optional p, length (opt_raw (pkt_optional p))) \<and>
         opt_raw (pkt_optional p) @ frag.area (pkt_fragments p) = body"
proof (cases "encode h body ks")
  case (Pair res ks')
  show ?thesis
  proof (cases res)
    case (Inl e)
    then show ?thesis using Pair encode_keeps by simp
  next
    case (Inr d)
    then obtain s n where o: "parse_optional body (hdr_flags h) = Some (s, n)" "length body \<le> 65535"
        "layout_ok (hdr_flags h) body n" "has (hdr_flags h) ENCRYPTED_CHECKSUM \<longrightarrow> ks \<noteq> None"
        "ks' = seal_rest h ks"
      and d: "d = header_to_bytes (sealed_header h (length body)
              (seal_share (seal_key h ks) (payload_share (hdr_flags h) body n))) @ body"
      using Pair unfolding Inr encode_Inr by blast
    define sh where "sh = seal_share (seal_key h ks) (payload_share (hdr_flags h) body n)"
    define p where "p = the_packet (sealed_header h (length body) sh) s body n"
    have size: "unat (word_of_nat (length body) :: u16) = length body"
      using o(2) by (intro unat_of_nat_small) simp
    have parse: "parse_packet d = Inr p"
      using parse_packet_build [of body "sealed_header h (length body) sh" s n "[]"] o size
      by (auto simp: d sh_def [symmetric] p_def layout_ok_def)
    have raw: "opt_raw s = take n body" "n \<le> length body" using parse_optional_raw [OF o(1)] by simp_all
    have ver: "pkt_verify p (seal_key h ks)"
      unfolding p_def by (rule sealed_verifies [OF raw(1) sh_def])
    have "decode_with_keystream d ks = (Inr p, ks')"
      using ver o(4,5)
      by (cases "has (hdr_flags h) ENCRYPTED_CHECKSUM"; cases ks)
        (simp_all add: decode_with_keystream_def parse p_def seal_key_def seal_rest_def split_beta)
    moreover have "opt_raw s @ frag.area (pkt_fragments p) = body"
      using the_packet_area [OF raw(1), of "sealed_header h (length body) sh"] o(3) by (simp add: p_def)
    ultimately show ?thesis
      using Pair Inr o(1,2) raw by (simp add: p_def sealed_header_def)
  qed
qed

text \<open>
  A sealed packet verifies under exactly one keystream word, so a word taken from the
  wrong place of the stream is always noticed.
\<close>

theorem verifies_under_one_word: "\<exists>!key. pkt_verify p (Some key)"
proof (rule ex1I)
  let ?k = "(hdr_checksum (pkt_header p) - pkt_header_hash p) XOR pkt_payload_hash p"
  show "pkt_verify p (Some ?k)" by (simp add: pkt_verify_def verify_checksum_def xor.assoc)
next
  fix key
  assume "pkt_verify p (Some key)"
  then have "hdr_checksum (pkt_header p) - pkt_header_hash p = key XOR pkt_payload_hash p"
    by (simp add: pkt_verify_def verify_checksum_def)
  then show "key = (hdr_checksum (pkt_header p) - pkt_header_hash p) XOR pkt_payload_hash p"
    by (simp add: xor.assoc)
qed

end
