(* ===== verification/Group.thy ===== *)
theory Group
  imports Net_Prelude
begin

text \<open>
  \<open>crates/ac-net/src/group.rs\<close>: the message queues and their wire values.
\<close>

datatype game_message_group =
    InvalidQueue | EventQueue | ControlQueue | WeenieQueue | LoginQueue | DatabaseQueue
  | SecureControlQueue | SecureWeenieQueue | SecureLoginQueue | UiQueue | SmartboxQueue
  | ObserverQueue

fun group_to_u16 :: "game_message_group \<Rightarrow> u16" where
  "group_to_u16 InvalidQueue = 0x00"
| "group_to_u16 EventQueue = 0x01"
| "group_to_u16 ControlQueue = 0x02"
| "group_to_u16 WeenieQueue = 0x03"
| "group_to_u16 LoginQueue = 0x04"
| "group_to_u16 DatabaseQueue = 0x05"
| "group_to_u16 SecureControlQueue = 0x06"
| "group_to_u16 SecureWeenieQueue = 0x07"
| "group_to_u16 SecureLoginQueue = 0x08"
| "group_to_u16 UiQueue = 0x09"
| "group_to_u16 SmartboxQueue = 0x0A"
| "group_to_u16 ObserverQueue = 0x0B"

definition group_from_u16 :: "u16 \<Rightarrow> game_message_group option" where
  "group_from_u16 v =
     (if v = 0x00 then Some InvalidQueue
      else if v = 0x01 then Some EventQueue
      else if v = 0x02 then Some ControlQueue
      else if v = 0x03 then Some WeenieQueue
      else if v = 0x04 then Some LoginQueue
      else if v = 0x05 then Some DatabaseQueue
      else if v = 0x06 then Some SecureControlQueue
      else if v = 0x07 then Some SecureWeenieQueue
      else if v = 0x08 then Some SecureLoginQueue
      else if v = 0x09 then Some UiQueue
      else if v = 0x0A then Some SmartboxQueue
      else if v = 0x0B then Some ObserverQueue
      else None)"

text \<open>The two conversions are inverse to each other, as a partial bijection.\<close>

lemma group_to_from: "group_from_u16 (group_to_u16 g) = Some g"
  by (cases g) (simp_all add: group_from_u16_def)

lemma group_from_to: "group_from_u16 v = Some g \<longleftrightarrow> v = group_to_u16 g"
  by (auto simp: group_to_from) (auto simp: group_from_u16_def split: if_splits)

lemma group_none: "group_from_u16 v = None \<longleftrightarrow> v \<notin> range group_to_u16"
  by (metis group_from_to option.exhaust option.distinct(1) rangeE rangeI)

end
