(* ===== verification/Sequence.thy ===== *)
theory Sequence
  imports Net_Prelude
begin

text \<open>
  \<open>crates/ac-net/src/transport/seq.rs\<close> and the ghost numbering the transport theories use:
  \<open>seq_at w p\<close> is the sequence number of the \<open>p\<close>-th packet after sequence \<open>w\<close> when the
  sender counts up and skips zero. Positions never wrap, sequence numbers do; within a
  session of \<open>SESSION\<close> packets the two comparisons agree.
\<close>

section \<open>Wrap-safe comparison\<close>

definition is_newer :: "u32 \<Rightarrow> u32 \<Rightarrow> bool" where
  "is_newer a b \<longleftrightarrow> sint (a - b) > 0"

definition newest :: "u32 \<Rightarrow> u32 \<Rightarrow> u32" where
  "newest a b = (if is_newer a b then a else b)"

lemma sint_u32: "sint (d :: u32) = (if uint d < 2147483648 then uint d else uint d - 4294967296)"
proof -
  have "sint d = uint d - 4294967296 * of_bool (odd (uint d div 2147483648))"
    using sint_uint [of d] unsigned_less [of d, where 'a = int]
    by (simp add: signed_take_bit_eq_take_bit_minus) (simp add: take_bit_int_eq_self bit_iff_odd)
  moreover have "0 \<le> uint d" "uint d < 4294967296" using unsigned_less [of d, where 'a = int] by simp_all
  then have "uint d div 2147483648 = (if uint d < 2147483648 then 0 else 1)" by auto
  ultimately show ?thesis by simp
qed

lemma is_newer_iff: "is_newer a b \<longleftrightarrow> a \<noteq> b \<and> unat (a - b) < 2147483648"
proof -
  obtain n where n: "unat (a - b) = n" by blast
  have i: "uint (a - b) = int n" by (simp flip: n)
  have "n < 4294967296" using unsigned_less [of "a - b", where 'a = nat] by (simp flip: n)
  moreover have "n = 0 \<longleftrightarrow> a = b" by (simp add: unat_eq_0 flip: n)
  ultimately show ?thesis by (auto simp: is_newer_def sint_u32 i n)
qed

lemma is_newer_irrefl [simp]: "\<not> is_newer a a"
  by (simp add: is_newer_iff)

text \<open>The comparison is antisymmetric everywhere but at the antipode, where neither is newer.\<close>

lemma unat_swap: "a \<noteq> b \<Longrightarrow> unat (a - b) = 4294967296 - unat (b - a)" for a b :: u32
proof -
  assume "a \<noteq> b"
  then have "unat a \<noteq> unat b" by (simp add: word_unat_eq_iff)
  then show ?thesis
    using unsigned_less [of a, where 'a = nat] unsigned_less [of b, where 'a = nat] by (auto simp: unat_sub_if')
qed

section \<open>Numbering the packets of a session\<close>

text \<open>The sender's next sequence: zero is skipped.\<close>

definition seq_next :: "u32 \<Rightarrow> u32" where
  "seq_next s = (if s + 1 = 0 then 1 else s + 1)"

definition seq_at :: "u32 \<Rightarrow> nat \<Rightarrow> u32" where
  "seq_at w p = (seq_next ^^ p) w"

lemma seq_at_0 [simp]: "seq_at w 0 = w"
  by (simp add: seq_at_def)

lemma seq_at_Suc: "seq_at w (Suc p) = seq_next (seq_at w p)"
  by (simp add: seq_at_def)

lemma seq_next_nz [simp]: "seq_next s \<noteq> 0"
  by (simp add: seq_next_def)

lemma seq_at_nz: "w \<noteq> 0 \<Longrightarrow> seq_at w p \<noteq> 0"
  by (cases p) (simp_all add: seq_at_Suc)

lemma unat_seq_next: "s \<noteq> 0 \<Longrightarrow> unat (seq_next s) = (if unat s = 4294967295 then 1 else unat s + 1)"
proof -
  have "unat s < 4294967296" using unsigned_less [of s, where 'a = nat] by simp
  then have u: "unat (s + 1) = (if unat s = 4294967295 then 0 else unat s + 1)"
    by (auto simp: unat_word_ariths(1) mod_if)
  have z: "s + 1 = 0 \<longleftrightarrow> unat s = 4294967295"
    using u word_unat_eq_iff [of "s + 1" 0] by (simp split: if_splits)
  show ?thesis using u by (simp add: seq_next_def z)
qed

lemma unat_seq_at:
  assumes "w \<noteq> 0"
  shows "unat (seq_at w p) = 1 + (unat w - 1 + p) mod 4294967295"
proof (induction p)
  case 0
  have "0 < unat w" using assms by (simp add: unat_gt_0)
  moreover have "unat w < 4294967296" using unsigned_less [of w, where 'a = nat] by simp
  ultimately show ?case by simp
next
  case (Suc p)
  define k where "k = unat w - 1 + p"
  have "unat (seq_at w (Suc p)) = (if 1 + k mod 4294967295 = 4294967295 then 1 else 1 + k mod 4294967295 + 1)"
    using unat_seq_next [OF seq_at_nz [OF assms], of p] Suc by (simp add: seq_at_Suc k_def)
  also have "\<dots> = 1 + (k + 1) mod 4294967295"
    by (auto simp: mod_Suc)
  finally show ?case by (simp add: k_def)
qed

text \<open>Positions of one session; the limit leaves room for the sanity window.\<close>

definition SESSION :: nat where
  "SESSION = 0x7FFF0000"

lemma seq_at_inj:
  assumes "w \<noteq> 0" "p < 4294967295" "q < 4294967295"
  shows "seq_at w p = seq_at w q \<longleftrightarrow> p = q"
proof
  define k where "k = unat w - 1"
  assume "seq_at w p = seq_at w q"
  then have eq: "(k + p) mod 4294967295 = (k + q) mod 4294967295"
    using unat_seq_at [OF assms(1), of p] unat_seq_at [OF assms(1), of q] by (simp add: k_def)
  have *: "x = y" if "x \<le> y" "y < 4294967295" "(k + x) mod 4294967295 = (k + y) mod 4294967295" for x y
  proof -
    have "4294967295 dvd (k + y) - (k + x)"
      using that(1,3) by (metis add_le_cancel_left mod_eq_dvd_iff_nat)
    then have "4294967295 dvd y - x" by simp
    moreover have "y - x < 4294967295" using that by simp
    ultimately show ?thesis using that(1) by (metis nat_dvd_not_less diff_is_0_eq le_antisym not_gr_zero)
  qed
  show "p = q" using *[of p q] *[of q p] assms eq by (metis nat_le_linear)
qed simp

text \<open>The distance between two positions, measured on the sequence numbers.\<close>

lemma unat_seq_diff:
  assumes "w \<noteq> 0" "p \<le> q" "q - p < 4294967295"
  shows "unat (seq_at w q - seq_at w p) = (q - p) + (if unat (seq_at w q) < unat (seq_at w p) then 1 else 0)"
proof -
  define j where "j = (unat w - 1 + p) mod 4294967295"
  define d where "d = q - p"
  have j: "j < 4294967295" by (simp add: j_def)
  have d: "d < 4294967295" using assms by (simp add: d_def)
  have p: "unat (seq_at w p) = 1 + j" using unat_seq_at [OF assms(1)] by (simp add: j_def)
  have "unat w - 1 + q = (unat w - 1 + p) + d" using assms(2) by (simp add: d_def)
  then have "(unat w - 1 + q) mod 4294967295 = (j + d) mod 4294967295"
    by (simp only: j_def mod_add_left_eq)
  moreover have "(j + d) mod 4294967295 = (if j + d < 4294967295 then j + d else j + d - 4294967295)"
    using j d by (simp add: mod_if)
  ultimately have q: "unat (seq_at w q) = (if j + d < 4294967295 then 1 + j + d else 1 + j + d - 4294967295)"
    using unat_seq_at [OF assms(1), of q] by auto
  show ?thesis
    using p q j d by (auto simp: unat_sub_if' d_def [symmetric])
qed

lemma newer_in_session:
  assumes "w \<noteq> 0" "p < q" "q - p < 2147483647"
  shows "is_newer (seq_at w q) (seq_at w p)" "\<not> is_newer (seq_at w p) (seq_at w q)"
proof -
  let ?a = "seq_at w q" and ?b = "seq_at w p"
  have ne: "?a \<noteq> ?b"
  proof
    assume "?a = ?b"
    then show False using unat_seq_diff [OF assms(1) less_imp_le [OF assms(2)]] assms by simp
  qed
  have d: "unat (?a - ?b) < 2147483648" using unat_seq_diff [OF assms(1) less_imp_le [OF assms(2)]] assms(3) by simp
  show "is_newer ?a ?b" using ne d by (simp add: is_newer_iff)
  have "unat (?b - ?a) = 4294967296 - unat (?a - ?b)" using ne by (intro unat_swap) simp
  then show "\<not> is_newer ?b ?a" using ne d unat_seq_diff [OF assms(1) less_imp_le [OF assms(2)]] assms
    by (simp add: is_newer_iff)
qed

text \<open>A packet at or below the newest one is never beyond the sanity window.\<close>

lemma not_beyond_window:
  assumes "w \<noteq> 0" "p \<le> q" "q - p < SESSION"
  shows "\<not> is_newer (seq_at w p) (seq_at w q + 0x7FFF)"
proof -
  let ?a = "seq_at w q" and ?b = "seq_at w p"
  define d where "d = unat (?a - ?b)"
  have d: "d \<le> 0x7FFF0000" using unat_seq_diff [OF assms(1,2)] assms(3) by (simp add: SESSION_def d_def)
  have ab: "?a - ?b = word_of_nat d" by (simp add: d_def)
  have "?b - (?a + 0x7FFF) = - (word_of_nat d + 0x7FFF)" by (simp flip: ab)
  also have "\<dots> = - word_of_nat (d + 0x7FFF)" by simp
  finally have "unat (?b - (?a + 0x7FFF)) = 4294967296 - (d + 0x7FFF)"
  proof -
    assume e: "?b - (?a + 0x7FFF) = - word_of_nat (d + 0x7FFF)"
    have n: "unat (word_of_nat (d + 0x7FFF) :: u32) = d + 0x7FFF" by (rule unat_of_nat_small) (use d in simp)
    have "unat (0 - word_of_nat (d + 0x7FFF) :: u32) = 4294967296 - (d + 0x7FFF)"
      by (subst unat_sub_if') (simp only: n, simp)
    then show ?thesis by (simp only: e diff_0)
  qed
  then have "2147483648 \<le> unat (?b - (?a + 0x7FFF))" using d by linarith
  then show ?thesis by (simp add: is_newer_iff)
qed

end
