(* ===== verification/Net_Time.thy ===== *)
theory Net_Time
  imports Net_Prelude
begin

text \<open>
  \<open>crates/ac-net/src/time.rs\<close>: a \<open>NetTime\<close> is the number of nanoseconds since the caller's
  origin (a \<open>Duration\<close> is a number of nanoseconds too), so \<open>since\<close> is the truncated
  subtraction of natural numbers.
\<close>

type_synonym duration = nat
type_synonym net_time = nat

definition nt_zero :: net_time where
  "nt_zero = 0"

definition nt_from_duration :: "duration \<Rightarrow> net_time" where
  "nt_from_duration since_origin = since_origin"

definition from_millis :: "nat \<Rightarrow> duration" where
  "from_millis ms = ms * 1000000"

definition from_secs :: "nat \<Rightarrow> duration" where
  "from_secs s = s * 1000000000"

definition nt_from_millis :: "nat \<Rightarrow> net_time" where
  "nt_from_millis ms = from_millis ms"

definition as_duration :: "net_time \<Rightarrow> duration" where
  "as_duration t = t"

definition since :: "net_time \<Rightarrow> net_time \<Rightarrow> duration" where
  "since t earlier = t - earlier"

definition nt_add :: "net_time \<Rightarrow> duration \<Rightarrow> net_time" where
  "nt_add t d = t + d"

end
