(* ===== verification/Link_Stats.thy ===== *)
theory Link_Stats
  imports Net_Time
begin

text \<open>
  \<open>transport/stats.rs\<close>, \<open>transport/clock.rs\<close> and \<open>transport/loss.rs\<close> of \<open>crates/ac-net/src\<close>:
  the counters, the half-second interval clock and the packet-loss window. The \<open>u64\<close> counters
  are natural numbers: each is incremented by one per datagram, so it cannot wrap.
\<close>

section \<open>Counters\<close>

record transport_stats =
  packets_received :: nat
  packets_sent :: nat
  resends_sent :: nat
  nak_requests_received :: nat
  uncached_nak_ids :: nat
  acks_consumed :: nat
  inbound_dups_dropped :: nat
  inbound_sanity_drops :: nat
  checksum_failures :: nat
  keys_parked :: nat
  acks_sent :: nat
  naks_sent :: nat
  nak_ids_sent :: nat
  reject_words_reclaimed :: nat
  rejects_received :: nat
  time_pairs_sent :: nat

definition stats_default :: transport_stats where
  "stats_default =
     \<lparr>packets_received = 0, packets_sent = 0, resends_sent = 0, nak_requests_received = 0,
      uncached_nak_ids = 0, acks_consumed = 0, inbound_dups_dropped = 0, inbound_sanity_drops = 0,
      checksum_failures = 0, keys_parked = 0, acks_sent = 0, naks_sent = 0, nak_ids_sent = 0,
      reject_words_reclaimed = 0, rejects_received = 0, time_pairs_sent = 0\<rparr>"

section \<open>The interval clock\<close>

definition INTERVAL :: duration where
  "INTERVAL = from_millis 500"

definition TIME_SYNC_PERIOD :: u32 where
  "TIME_SYNC_PERIOD = 6"

record interval_clock =
  ck_base :: net_time
  ck_interval_id :: u16

definition clock_new :: "net_time \<Rightarrow> interval_clock" where
  "clock_new t = \<lparr>ck_base = t, ck_interval_id = 1\<rparr>"

definition crosses_time_sync :: "u16 \<Rightarrow> u32 \<Rightarrow> bool" where
  "crosses_time_sync old steps \<longleftrightarrow>
     (let old' = ucast old :: u32; reached = (old' + steps) mod TIME_SYNC_PERIOD
      in reached = 1 \<or> steps \<ge> TIME_SYNC_PERIOD \<or> (reached > 0 \<and> reached < old' mod TIME_SYNC_PERIOD))"

text \<open>
  \<open>Duration::from_nanos\<close> takes a \<open>u64\<close>, so the product is truncated to 64 bits before it
  moves the base.
\<close>

definition clock_update :: "net_time \<Rightarrow> interval_clock \<Rightarrow> bool \<times> interval_clock" where
  "clock_update t c =
     (let elapsed = since t (ck_base c)
      in if elapsed < INTERVAL then (False, c)
         else let steps = elapsed div INTERVAL;
                  old = ck_interval_id c
              in (crosses_time_sync old (if steps < 2 ^ 32 then word_of_nat steps else - 1),
                  \<lparr>ck_base = nt_add (ck_base c) ((steps * INTERVAL) mod 2 ^ 64),
                   ck_interval_id = old + word_of_nat (steps mod 65536)\<rparr>))"

lemma INTERVAL_pos: "INTERVAL > 0"
  by (simp add: INTERVAL_def from_millis_def)

text \<open>For a clock read less than 584 years after its base no truncation occurs.\<close>

lemma clock_update_eq:
  assumes "t - ck_base c < 2 ^ 64"
  shows "snd (clock_update t c) =
    \<lparr>ck_base = ck_base c + (t - ck_base c) div INTERVAL * INTERVAL,
     ck_interval_id = ck_interval_id c + word_of_nat ((t - ck_base c) div INTERVAL)\<rparr>"
proof -
  let ?e = "t - ck_base c"
  have "?e div INTERVAL * INTERVAL < 2 ^ 64" using assms by (metis div_times_less_eq_dividend order.strict_trans1)
  moreover have "word_of_nat (n mod 65536) = (word_of_nat n :: u16)" for n
    by (simp add: word_unat_eq_iff unat_of_nat)
  ultimately show ?thesis
    by (cases "?e < INTERVAL") (simp_all add: clock_update_def since_def nt_add_def Let_def)
qed

lemma fold_clock:
  assumes "sorted (t # ts)" "last (t # ts) - t0 < 2 ^ 64" "t0 \<le> t"
  shows "fold (\<lambda>t c. snd (clock_update t c)) ts
      \<lparr>ck_base = t0 + (t - t0) div INTERVAL * INTERVAL, ck_interval_id = i + word_of_nat ((t - t0) div INTERVAL)\<rparr> =
    \<lparr>ck_base = t0 + (last (t # ts) - t0) div INTERVAL * INTERVAL,
     ck_interval_id = i + word_of_nat ((last (t # ts) - t0) div INTERVAL)\<rparr>"
  using assms
proof (induction ts arbitrary: t)
  case Nil
  then show ?case by simp
next
  case (Cons u ts)
  define k where "k = (t - t0) div INTERVAL"
  have le: "t \<le> u" "u \<le> last (u # ts)" using Cons.prems(1) by (auto simp: sorted_wrt_append split: if_splits)
  have lt: "u - t0 < 2 ^ 64" using Cons.prems(2) le by simp
  have kt: "k * INTERVAL \<le> t - t0" unfolding k_def by (rule div_times_less_eq_dividend)
  define r where "r = u - t0 - k * INTERVAL"
  have u: "u - t0 = r + k * INTERVAL" using kt le Cons.prems(3) by (simp add: r_def)
  have base: "u - (t0 + k * INTERVAL) = r" by (simp add: r_def)
  have "r div INTERVAL + k = (u - t0) div INTERVAL" using INTERVAL_pos by (simp add: u)
  then have "t0 + k * INTERVAL + r div INTERVAL * INTERVAL = t0 + (u - t0) div INTERVAL * INTERVAL"
    "word_of_nat k + word_of_nat (r div INTERVAL) = (word_of_nat ((u - t0) div INTERVAL) :: u16)"
    by (simp_all add: add_mult_distrib flip: \<open>_ = (u - t0) div INTERVAL\<close>)
  moreover have "r < 2 ^ 64" using lt u by simp
  ultimately have "snd (clock_update u \<lparr>ck_base = t0 + k * INTERVAL, ck_interval_id = i + word_of_nat k\<rparr>) =
      \<lparr>ck_base = t0 + (u - t0) div INTERVAL * INTERVAL, ck_interval_id = i + word_of_nat ((u - t0) div INTERVAL)\<rparr>"
    using clock_update_eq [of u "\<lparr>ck_base = t0 + k * INTERVAL, ck_interval_id = i + word_of_nat k\<rparr>"]
    by (simp add: base add.assoc)
  then show ?case
    using Cons.IH [of u] Cons.prems le by (simp add: k_def)
qed

text \<open>
  The interval clock never drifts: however the sweeps are spaced, after the last one the
  id stamped on packets is one plus the number of whole half seconds since the clock started
  (modulo 65536), and the base keeps the fractional remainder.
\<close>

theorem clock_never_drifts:
  assumes "sorted (t0 # ts)" "last (t0 # ts) - t0 < 2 ^ 64"
  shows "fold (\<lambda>t c. snd (clock_update t c)) ts (clock_new t0) =
    \<lparr>ck_base = t0 + (last (t0 # ts) - t0) div INTERVAL * INTERVAL,
     ck_interval_id = 1 + word_of_nat ((last (t0 # ts) - t0) div INTERVAL)\<rparr>"
  using fold_clock [OF assms, of 1] by (simp add: clock_new_def)

lemma clock_never_drifts_witness:
  "fold (\<lambda>t c. snd (clock_update t c)) [from_millis 400, from_millis 900, from_millis 1600] (clock_new 0) =
    \<lparr>ck_base = from_millis 1500, ck_interval_id = 4\<rparr>"
  using clock_never_drifts [of 0 "[from_millis 400, from_millis 900, from_millis 1600]"]
  by (simp add: from_millis_def INTERVAL_def)

lemma sync_table:
  fixes m k :: nat
  assumes "m < 6" "k < 6"
  shows "(m + k) mod 6 = 1 \<or> (0 < (m + k) mod 6 \<and> (m + k) mod 6 < m) \<longleftrightarrow>
    (if k = 0 then m = 1 else (\<exists>j \<in> {1..k}. (m + j) mod 6 = 1) \<and> \<not> (m = 0 \<and> 2 \<le> k \<and> k \<le> 5))"
proof -
  have "list_all (\<lambda>m. list_all (\<lambda>k.
      ((m + k) mod 6 = 1 \<or> (0 < (m + k) mod 6 \<and> (m + k) mod 6 < m)) =
      (if k = 0 then m = 1 else list_ex (\<lambda>j. (m + j) mod 6 = 1) [1..<Suc k] \<and> \<not> (m = 0 \<and> 2 \<le> k \<and> k \<le> 5))) [0..<6]) [0..<(6::nat)]"
    by code_simp
  then have "((m + k) mod 6 = 1 \<or> (0 < (m + k) mod 6 \<and> (m + k) mod 6 < m)) =
      (if k = 0 then m = 1 else list_ex (\<lambda>j. (m + j) mod 6 = 1) [1..<Suc k] \<and> \<not> (m = 0 \<and> 2 \<le> k \<and> k \<le> 5))"
    using assms unfolding list_all_iff by (simp del: upt_rec_numeral)
  then show ?thesis by (simp add: list_ex_iff atLeastLessThanSuc_atLeastAtMost del: upt_Suc)
qed

text \<open>
  C22. A time-sync point is reported exactly when the counter passes a value that is 1 modulo 6,
  with one exception the code makes: starting from a multiple of 6, a jump of two to five
  intervals passes such a value and is not reported. (A jump of no interval, which the clock
  never makes, reports the value the counter stands on.)
\<close>

theorem crosses_time_sync_exactly:
  "crosses_time_sync old steps \<longleftrightarrow>
     (if steps = 0 then unat old mod 6 = 1
      else (\<exists>k \<in> {1..unat steps}. (unat old + k) mod 6 = 1) \<and>
        \<not> (unat old mod 6 = 0 \<and> 2 \<le> unat steps \<and> unat steps \<le> 5))"
proof -
  define n where "n = unat old"
  define k where "k = unat steps"
  have n: "n < 65536" using unsigned_less [of old, where 'a = nat] by (simp add: n_def)
  show ?thesis
  proof (cases "k < 6")
    case False
    then have "steps \<ge> TIME_SYNC_PERIOD" by (simp add: TIME_SYNC_PERIOD_def word_le_nat_alt k_def)
    then have "crosses_time_sync old steps" by (simp add: crosses_time_sync_def Let_def)
    moreover have "\<exists>j \<in> {1..k}. (n + j) mod 6 = 1"
    proof (rule bexI)
      define m where "m = n mod 6"
      have m: "m < 6" by (simp add: m_def)
      let ?j = "if m = 0 then 1 else 7 - m"
      have "(n + ?j) mod 6 = (m + ?j) mod 6" by (simp add: m_def mod_add_left_eq)
      moreover have "(m + ?j) mod 6 = 1" using m by simp
      ultimately show "(n + ?j) mod 6 = 1" by simp
      show "?j \<in> {1..k}" using m False by auto
    qed
    moreover have "steps \<noteq> 0" using False by (auto simp: k_def)
    ultimately show ?thesis using False by (simp add: n_def k_def)
  next
    case True
    define reached where "reached = (ucast old + steps) mod TIME_SYNC_PERIOD"
    have uo: "unat (ucast old :: u32) = n" unfolding n_def by (rule unat_ucast_up) simp
    have "unat (ucast old + steps) = n + k"
      using n True by (simp add: unat_word_ariths(1) uo k_def)
    then have reached: "unat reached = (n + k) mod 6"
      by (simp add: reached_def TIME_SYNC_PERIOD_def unat_mod)
    have om: "unat (ucast old mod TIME_SYNC_PERIOD :: u32) = n mod 6"
      by (simp add: TIME_SYNC_PERIOD_def unat_mod uo)
    have "crosses_time_sync old steps \<longleftrightarrow> (n + k) mod 6 = 1 \<or> ((n + k) mod 6 > 0 \<and> (n + k) mod 6 < n mod 6)"
    proof -
      have "reached = 1 \<longleftrightarrow> (n + k) mod 6 = 1" using reached by (simp add: word_unat_eq_iff)
      moreover have "reached > 0 \<longleftrightarrow> (n + k) mod 6 > 0" using reached by (simp add: word_less_nat_alt)
      moreover have "reached < ucast old mod TIME_SYNC_PERIOD \<longleftrightarrow> (n + k) mod 6 < n mod 6"
        using reached om by (simp add: word_less_nat_alt)
      moreover have "\<not> steps \<ge> TIME_SYNC_PERIOD"
        using True by (simp add: TIME_SYNC_PERIOD_def word_le_nat_alt k_def)
      ultimately show ?thesis by (simp add: crosses_time_sync_def Let_def reached_def)
    qed
    moreover have "\<dots> \<longleftrightarrow> (if k = 0 then n mod 6 = 1
        else (\<exists>j \<in> {1..k}. (n mod 6 + j) mod 6 = 1) \<and> \<not> (n mod 6 = 0 \<and> 2 \<le> k \<and> k \<le> 5))"
      using sync_table [of "n mod 6" k] True by (simp add: mod_add_left_eq)
    moreover have "k = 0 \<longleftrightarrow> steps = 0" by (simp add: k_def unat_eq_0)
    ultimately show ?thesis by (simp add: n_def k_def mod_add_left_eq)
  qed
qed

end
