(* ===== verification/Std_Containers.thy ===== *)
theory Std_Containers
  imports Net_Prelude
begin

text \<open>
  The standard-library containers of the transport: \<open>BTreeMap\<close> as an association list
  kept in ascending key order (its iteration order is observable: a NAK lists the lowest
  missing ids), \<open>HashMap\<close> as an association list whose order nothing reads, and the
  min-heap \<open>BinaryHeap<Reverse<_>>\<close> as an ascending list. The locale states what the
  components rely on; both maps are interpreted in it.
\<close>

section \<open>The interface of a keyed store\<close>

locale kv_store =
  fixes get :: "'m \<Rightarrow> 'k \<Rightarrow> 'v option"
    and put :: "'k \<Rightarrow> 'v \<Rightarrow> 'm \<Rightarrow> 'm"
    and del :: "'k \<Rightarrow> 'm \<Rightarrow> 'm"
    and keys :: "'m \<Rightarrow> 'k list"
    and ok :: "'m \<Rightarrow> bool"
  assumes get_put: "ok m \<Longrightarrow> get (put k v m) = (get m)(k \<mapsto> v)"
    and get_del: "ok m \<Longrightarrow> get (del k m) = (get m)(k := None)"
    and ok_put: "ok m \<Longrightarrow> ok (put k v m)"
    and ok_del: "ok m \<Longrightarrow> ok (del k m)"
    and set_keys: "ok m \<Longrightarrow> set (keys m) = dom (get m)"
    and distinct_keys: "ok m \<Longrightarrow> distinct (keys m)"
begin

lemma card_dom: "ok m \<Longrightarrow> length (keys m) = card (dom (get m))"
  by (metis set_keys distinct_keys distinct_card)

lemma finite_dom: "ok m \<Longrightarrow> finite (dom (get m))"
  by (metis set_keys List.finite_set)

lemma length_put_fresh:
  assumes "ok m" "get m k = None"
  shows "length (keys (put k v m)) = Suc (length (keys m))"
proof -
  have "k \<notin> dom (get m)" using assms by auto
  then show ?thesis
    using assms by (simp add: card_dom ok_put get_put finite_dom)
qed

lemma length_put_held:
  assumes "ok m" "get m k \<noteq> None"
  shows "length (keys (put k v m)) = length (keys m)"
proof -
  have "insert k (dom (get m)) = dom (get m)" using assms by auto
  then show ?thesis
    using assms by (simp add: card_dom ok_put get_put)
qed

lemma length_del_held:
  assumes "ok m" "get m k \<noteq> None"
  shows "length (keys m) = Suc (length (keys (del k m)))"
proof -
  have "k \<in> dom (get m)" using assms by auto
  then have "card (dom (get m)) = Suc (card (dom (get m) - {k}))"
    using assms finite_dom by (metis card_Suc_Diff1)
  then show ?thesis
    using assms by (simp add: card_dom ok_del get_del)
qed

lemma del_absent: "ok m \<Longrightarrow> get m k = None \<Longrightarrow> get (del k m) = get m"
  by (auto simp: get_del)

end

section \<open>\<open>BTreeMap\<close>\<close>

type_synonym ('k, 'v) btree = "('k \<times> 'v) list"

definition bt_get :: "('k, 'v) btree \<Rightarrow> 'k \<Rightarrow> 'v option" where
  "bt_get m = map_of m"

fun bt_insert :: "'k::linorder \<Rightarrow> 'v \<Rightarrow> ('k, 'v) btree \<Rightarrow> ('k, 'v) btree" where
  "bt_insert k v [] = [(k, v)]"
| "bt_insert k v ((k', v') # m) =
     (if k < k' then (k, v) # (k', v') # m
      else if k = k' then (k, v) # m
      else (k', v') # bt_insert k v m)"

definition bt_remove :: "'k \<Rightarrow> ('k, 'v) btree \<Rightarrow> ('k, 'v) btree" where
  "bt_remove k m = filter (\<lambda>p. fst p \<noteq> k) m"

definition bt_keys :: "('k, 'v) btree \<Rightarrow> 'k list" where
  "bt_keys m = map fst m"

definition bt_ok :: "('k::linorder, 'v) btree \<Rightarrow> bool" where
  "bt_ok m \<longleftrightarrow> sorted_wrt (<) (bt_keys m)"

lemma set_bt_keys_insert [simp]: "set (bt_keys (bt_insert k v m)) = insert k (set (bt_keys m))"
  by (induction k v m rule: bt_insert.induct) (auto simp: bt_keys_def)

lemma set_bt_keys_remove [simp]: "set (bt_keys (bt_remove k m)) = set (bt_keys m) - {k}"
  by (auto simp: bt_keys_def bt_remove_def)

lemma bt_ok_Nil [simp, intro]: "bt_ok []"
  by (simp add: bt_ok_def bt_keys_def)

lemma bt_keys_simps [simp]: "bt_keys [] = []" "bt_keys (e # m) = fst e # bt_keys m"
  by (simp_all add: bt_keys_def)

lemma bt_get_Nil [simp]: "bt_get [] = Map.empty"
  by (simp add: bt_get_def)

lemma bt_ok_Cons: "bt_ok ((k, v) # m) \<longleftrightarrow> (\<forall>k' \<in> set (bt_keys m). k < k') \<and> bt_ok m"
  by (simp add: bt_ok_def bt_keys_def)

lemma bt_ok_insert: "bt_ok m \<Longrightarrow> bt_ok (bt_insert k v m)"
  by (induction k v m rule: bt_insert.induct) (auto simp: bt_ok_Cons)

lemma bt_ok_remove: "bt_ok m \<Longrightarrow> bt_ok (bt_remove k m)"
  by (simp add: bt_ok_def bt_keys_def bt_remove_def sorted_wrt_map sorted_wrt_filter)

lemma bt_get_insert: "bt_ok m \<Longrightarrow> bt_get (bt_insert k v m) = (bt_get m)(k \<mapsto> v)"
proof (induction k v m rule: bt_insert.induct)
  case (1 k v)
  show ?case by (simp add: bt_get_def)
next
  case (2 k v k' v' m)
  have "bt_get m k = None" if "k < k'"
    using "2.prems" that by (force simp: bt_ok_Cons bt_get_def bt_keys_def map_of_eq_None_iff)
  then show ?case
    using 2 by (auto simp: bt_get_def bt_ok_Cons fun_eq_iff)
qed

lemma bt_get_remove: "bt_get (bt_remove k m) = (bt_get m)(k := None)"
  by (induction m) (auto simp: bt_get_def bt_remove_def)

interpretation bt: kv_store bt_get bt_insert bt_remove bt_keys bt_ok
proof unfold_locales
  fix m :: "('a::linorder, 'b) btree"
  show "set (bt_keys m) = dom (bt_get m)"
    by (simp add: bt_keys_def bt_get_def dom_map_of_conv_image_fst)
  assume "bt_ok m"
  then show "distinct (bt_keys m)"
    by (simp add: bt_ok_def strict_sorted_iff)
qed (simp_all add: bt_get_insert bt_get_remove bt_ok_insert bt_ok_remove)

section \<open>\<open>HashMap\<close>\<close>

type_synonym ('k, 'v) hmap = "('k \<times> 'v) list"

definition hm_get :: "('k, 'v) hmap \<Rightarrow> 'k \<Rightarrow> 'v option" where
  "hm_get m = map_of m"

definition hm_insert :: "'k \<Rightarrow> 'v \<Rightarrow> ('k, 'v) hmap \<Rightarrow> ('k, 'v) hmap" where
  "hm_insert k v m = AList.update k v m"

definition hm_remove :: "'k \<Rightarrow> ('k, 'v) hmap \<Rightarrow> ('k, 'v) hmap" where
  "hm_remove k m = AList.delete k m"

definition hm_keys :: "('k, 'v) hmap \<Rightarrow> 'k list" where
  "hm_keys m = map fst m"

definition hm_ok :: "('k, 'v) hmap \<Rightarrow> bool" where
  "hm_ok m \<longleftrightarrow> distinct (hm_keys m)"

text \<open>\<open>HashMap::retain\<close>.\<close>

definition hm_retain :: "('k \<Rightarrow> 'v \<Rightarrow> bool) \<Rightarrow> ('k, 'v) hmap \<Rightarrow> ('k, 'v) hmap" where
  "hm_retain p m = filter (\<lambda>(k, v). p k v) m"

lemma hm_Nil [simp]: "hm_get [] = Map.empty" "hm_keys [] = []" "hm_ok []"
  by (simp_all add: hm_get_def hm_keys_def hm_ok_def)

interpretation hm: kv_store hm_get hm_insert hm_remove hm_keys hm_ok
proof unfold_locales
  fix m :: "('a, 'b) hmap" and k v
  show "hm_get (hm_insert k v m) = (hm_get m)(k \<mapsto> v)"
    by (simp add: hm_get_def hm_insert_def update_conv')
  show "hm_get (hm_remove k m) = (hm_get m)(k := None)"
    by (simp add: hm_get_def hm_remove_def delete_conv')
  show "set (hm_keys m) = dom (hm_get m)"
    by (simp add: hm_keys_def hm_get_def dom_map_of_conv_image_fst)
  assume "hm_ok m"
  then show "hm_ok (hm_insert k v m)" "hm_ok (hm_remove k m)" "distinct (hm_keys m)"
    by (simp_all add: hm_ok_def hm_keys_def hm_insert_def hm_remove_def distinct_update distinct_delete)
qed

lemma hm_ok_retain: "hm_ok m \<Longrightarrow> hm_ok (hm_retain p m)"
  by (simp add: hm_ok_def hm_keys_def hm_retain_def distinct_map_filter)

lemma hm_get_retain:
  "hm_ok m \<Longrightarrow>
     hm_get (hm_retain p m) k = (case hm_get m k of None \<Rightarrow> None | Some v \<Rightarrow> if p k v then Some v else None)"
proof (induction m)
  case Nil
  show ?case by (simp add: hm_retain_def)
next
  case (Cons e m)
  obtain k' v' where e: "e = (k', v')" by force
  have "hm_get m k' = None" "hm_ok m"
    using Cons.prems e by (auto simp: hm_ok_def hm_keys_def hm_get_def map_of_eq_None_iff)
  then show ?case
    using Cons.IH e by (auto simp: hm_get_def hm_retain_def split: option.splits)
qed

section \<open>The min-heap\<close>

text \<open>
  \<open>BinaryHeap<Reverse<T>>\<close>: \<open>pop\<close> returns a least element. Which of several equal
  elements it returns cannot be seen, so an ascending list is a faithful state.
\<close>

definition heap_push :: "'a::linorder \<Rightarrow> 'a list \<Rightarrow> 'a list" where
  "heap_push x h = insort x h"

fun heap_pop :: "'a list \<Rightarrow> ('a \<times> 'a list) option" where
  "heap_pop [] = None"
| "heap_pop (x # h) = Some (x, h)"

lemma sorted_heap_push: "sorted h \<Longrightarrow> sorted (heap_push x h)"
  by (simp add: heap_push_def sorted_insort)

lemma set_heap_push [simp]: "set (heap_push x h) = insert x (set h)"
  by (simp add: heap_push_def set_insort_key)

lemma heap_pop_least:
  "sorted h \<Longrightarrow> heap_pop h = Some (x, h') \<Longrightarrow> (\<forall>y \<in> set h. x \<le> y) \<and> sorted h'"
  by (cases h) auto

end
