(* ===== verification/Inbound.thy ===== *)
theory Inbound
  imports Sequence Link_Stats Codec Std_Containers "HOL-Library.Product_Lexorder"
begin

text \<open>
  \<open>crates/ac-net/src/transport/inbound.rs\<close>: packets are processed as they arrive, but the
  keystream is consumed in sequence order. The refinement below numbers the packets of a
  session by position and describes the tracker by three sets of positions: the newest one
  seen, the missing ones and the ones the server spent no word on. Each operation of the
  tracker is simulated by an operation on these sets, and the word handed out for position
  \<open>p\<close> is always the one the server sealed position \<open>p\<close> with.
\<close>

section \<open>State\<close>

definition INITIAL_WATERMARK :: u32 where
  "INITIAL_WATERMARK = 1"

definition SANITY_WINDOW :: u32 where
  "SANITY_WINDOW = 0x7FFF"

definition U64_MAX :: nat where
  "U64_MAX = 2 ^ 64 - 1"

record parked_word =
  pw_word :: u32
  pw_draw_order :: nat

datatype admission = Drop | Process (adm_key: "u32 option") (adm_draw_order: nat)

record inbound =
  ib_keystream :: isaac
  ib_highest :: u32
  ib_nak_set :: "(u32, parked_word) btree"
  ib_reclaimed :: "(nat \<times> u32) list"
  ib_draw_ordinal :: nat

definition inbound_new :: "isaac \<Rightarrow> u32 \<Rightarrow> inbound" where
  "inbound_new keystream initial_watermark =
     \<lparr>ib_keystream = keystream, ib_highest = initial_watermark, ib_nak_set = [],
      ib_reclaimed = [], ib_draw_ordinal = 0\<rparr>"

definition highest_id_received :: "inbound \<Rightarrow> u32" where
  "highest_id_received tr = ib_highest tr"

definition nak_count :: "inbound \<Rightarrow> nat" where
  "nak_count tr = length (ib_nak_set tr)"

definition reclaimed_word_count :: "inbound \<Rightarrow> nat" where
  "reclaimed_word_count tr = length (ib_reclaimed tr)"

section \<open>Operations\<close>

definition ib_next_word :: "inbound \<Rightarrow> parked_word \<times> inbound" where
  "ib_next_word tr =
     (case heap_pop (ib_reclaimed tr) of
        Some ((order, w), h) \<Rightarrow> (\<lparr>pw_word = w, pw_draw_order = order\<rparr>, tr\<lparr>ib_reclaimed := h\<rparr>)
      | None \<Rightarrow>
          let n = ib_draw_ordinal tr + 1; (w, ks) = next_word (ib_keystream tr)
          in (\<lparr>pw_word = w, pw_draw_order = n\<rparr>, tr\<lparr>ib_draw_ordinal := n, ib_keystream := ks\<rparr>))"

definition add_nakked :: "u32 \<Rightarrow> inbound \<times> transport_stats \<Rightarrow> inbound \<times> transport_stats" where
  "add_nakked sequence = (\<lambda>(tr, st).
     if bt_get (ib_nak_set tr) sequence \<noteq> None then (tr, st)
     else let (w, tr') = ib_next_word tr
          in (tr'\<lparr>ib_nak_set := bt_insert sequence w (ib_nak_set tr')\<rparr>, st\<lparr>keys_parked := keys_parked st + 1\<rparr>))"

text \<open>The gap walk \<open>while id != end\<close>.\<close>

lemma walk_measure: "sid \<noteq> stop \<Longrightarrow> unat (stop - (sid + 1)) < unat (stop - sid)" for sid stop :: u32
proof -
  assume "sid \<noteq> stop"
  then have nz: "unat (stop - sid) \<noteq> 0" by (simp add: unat_eq_0)
  have "stop - (sid + 1) = (stop - sid) - 1" by simp
  then have "unat (stop - (sid + 1)) = unat (stop - sid) - 1"
    using nz by (metis unat_minus_one unat_eq_0)
  then show ?thesis using nz by simp
qed

function gap_walk :: "u32 \<Rightarrow> u32 \<Rightarrow> inbound \<times> transport_stats \<Rightarrow> inbound \<times> transport_stats" where
  "gap_walk sid stop s =
     (if sid = stop then s
      else gap_walk (sid + 1) stop (if sid \<noteq> 0 then add_nakked sid s else s))"
  by pat_completeness auto
termination
  by (relation "measure (\<lambda>(sid, stop, _). unat (stop - sid))") (auto intro: walk_measure)

declare gap_walk.simps [simp del]

text \<open>What remains of \<open>admit\<close> once duplicates and bogus packets are gone.\<close>

definition admit_known ::
  "u32 \<Rightarrow> bool \<Rightarrow> bool \<Rightarrow> parked_word option \<Rightarrow> inbound \<Rightarrow> transport_stats \<Rightarrow>
   admission \<times> inbound \<times> transport_stats" where
  "admit_known sequence encrypted newer parked tr st =
     (let (tr, st) =
            (if newer
             then let stop = (if encrypted then sequence else sequence + 1);
                      (tr, st) = gap_walk (ib_highest tr + 1) stop (tr, st)
                  in (tr\<lparr>ib_highest := sequence\<rparr>, st)
             else (tr, st))
      in if \<not> encrypted then (Process None U64_MAX, tr, st)
         else let (own, tr) = (case parked of Some w \<Rightarrow> (w, tr) | None \<Rightarrow> ib_next_word tr)
              in (Process (Some (pw_word own)) (pw_draw_order own), tr, st))"

definition admit ::
  "u32 \<Rightarrow> bool \<Rightarrow> inbound \<Rightarrow> transport_stats \<Rightarrow> admission \<times> inbound \<times> transport_stats" where
  "admit sequence encrypted tr st =
     (if is_newer sequence (ib_highest tr + SANITY_WINDOW)
      then (Drop, tr, st\<lparr>inbound_sanity_drops := inbound_sanity_drops st + 1\<rparr>)
      else let newer = is_newer sequence (ib_highest tr)
           in if encrypted \<and> \<not> newer
              then case bt_get (ib_nak_set tr) sequence of
                     Some w \<Rightarrow>
                       admit_known sequence encrypted newer (Some w)
                         (tr\<lparr>ib_nak_set := bt_remove sequence (ib_nak_set tr)\<rparr>) st
                   | None \<Rightarrow> (Drop, tr, st\<lparr>inbound_dups_dropped := inbound_dups_dropped st + 1\<rparr>)
              else admit_known sequence encrypted newer None tr st)"

definition repark ::
  "u32 \<Rightarrow> u32 \<Rightarrow> nat \<Rightarrow> inbound \<Rightarrow> transport_stats \<Rightarrow> inbound \<times> transport_stats" where
  "repark sequence key draw_order tr st =
     (if bt_get (ib_nak_set tr) sequence \<noteq> None then (tr, st)
      else (tr\<lparr>ib_nak_set := bt_insert sequence \<lparr>pw_word = key, pw_draw_order = draw_order\<rparr> (ib_nak_set tr)\<rparr>,
            st\<lparr>keys_parked := keys_parked st + 1\<rparr>))"

definition on_reject_retransmit :: "sequence_list \<Rightarrow> inbound \<Rightarrow> inbound" where
  "on_reject_retransmit ids tr =
     tr\<lparr>ib_nak_set := fold bt_remove (sl_iter ids) (ib_nak_set tr)\<rparr>"

definition nak_ids_ascending :: "nat \<Rightarrow> inbound \<Rightarrow> u32 list" where
  "nak_ids_ascending max_ids tr = take max_ids (bt_keys (ib_nak_set tr))"

text \<open>The swap loop of the cleartext reject: every slot takes the word of the one before it.\<close>

fun shift_parked ::
  "(nat \<times> u32) list \<Rightarrow> parked_word \<Rightarrow> (u32, parked_word) btree \<Rightarrow> parked_word \<times> (u32, parked_word) btree" where
  "shift_parked [] carry m = (carry, m)"
| "shift_parked ((_, sid) # later) carry m =
     (case bt_get m sid of
        Some slot \<Rightarrow> shift_parked later slot (bt_insert sid carry m)
      | None \<Rightarrow> shift_parked later carry m)"

definition later_parked :: "nat \<Rightarrow> (u32, parked_word) btree \<Rightarrow> (nat \<times> u32) list" where
  "later_parked order m =
     sort (map (\<lambda>(sid, w). (pw_draw_order w, sid)) (filter (\<lambda>(_, w). pw_draw_order w > order) m))"

definition on_cleartext_reject_sequence ::
  "u32 \<Rightarrow> inbound \<Rightarrow> transport_stats \<Rightarrow> inbound \<times> transport_stats" where
  "on_cleartext_reject_sequence sequence tr st =
     (case bt_get (ib_nak_set tr) sequence of
        None \<Rightarrow> (tr, st)
      | Some reclaimed \<Rightarrow>
          let m = bt_remove sequence (ib_nak_set tr);
              (carry, m) = shift_parked (later_parked (pw_draw_order reclaimed) m) reclaimed m
          in (tr\<lparr>ib_nak_set := m,
                 ib_reclaimed := heap_push (pw_draw_order carry, pw_word carry) (ib_reclaimed tr)\<rparr>,
              st\<lparr>reject_words_reclaimed := reject_words_reclaimed st + 1\<rparr>))"

section \<open>The abstract machine\<close>

text \<open>
  \<open>draw_index C p\<close> counts the positions up to \<open>p\<close> the server spent a word on: position
  \<open>p\<close> is sealed with word number \<open>draw_index C p\<close>, counted from 1.
\<close>

fun draw_index :: "nat set \<Rightarrow> nat \<Rightarrow> nat" where
  "draw_index C 0 = 0"
| "draw_index C (Suc p) = draw_index C p + (if Suc p \<in> C then 0 else 1)"

definition position_word :: "isaac \<Rightarrow> nat set \<Rightarrow> nat \<Rightarrow> parked_word" where
  "position_word K C p = \<lparr>pw_word = ks.word (draw_index C p - 1) K, pw_draw_order = draw_index C p\<rparr>"

lemma position_word_simps [simp]:
  "pw_word (position_word K C p) = ks.word (draw_index C p - 1) K"
  "pw_draw_order (position_word K C p) = draw_index C p"
  by (simp_all add: position_word_def)

record ledger =
  lg_free :: "nat set"
  lg_newest :: nat
  lg_missing :: "nat set"

text \<open>
  The tracker agrees with a ledger: the watermark is the newest position's sequence, the
  parked words are those of the missing positions, and the words drawn beyond what the newest
  position needs are exactly the reclaimed ones.
\<close>

definition naks_aligned :: "isaac \<Rightarrow> u32 \<Rightarrow> nat set \<Rightarrow> (u32, parked_word) btree \<Rightarrow> nat set \<Rightarrow> bool" where
  "naks_aligned K w C m M \<longleftrightarrow>
     bt_ok m \<and> dom (bt_get m) = seq_at w ` M \<and>
     (\<forall>p \<in> M. bt_get m (seq_at w p) = Some (position_word K C p))"

definition stream_at :: "isaac \<Rightarrow> inbound \<Rightarrow> nat \<Rightarrow> bool" where
  "stream_at K tr i \<longleftrightarrow>
     i \<le> ib_draw_ordinal tr \<and> ib_keystream tr = ks.after (ib_draw_ordinal tr) K \<and>
     ib_reclaimed tr = map (\<lambda>k. (k, ks.word (k - 1) K)) [i + 1..<ib_draw_ordinal tr + 1]"

definition ledger_ok :: "ledger \<Rightarrow> bool" where
  "ledger_ok l \<longleftrightarrow>
     lg_newest l < SESSION \<and> lg_free l \<subseteq> {1..lg_newest l} \<and> lg_missing l \<subseteq> {1..lg_newest l} - lg_free l"

definition aligned :: "isaac \<Rightarrow> u32 \<Rightarrow> inbound \<Rightarrow> ledger \<Rightarrow> bool" where
  "aligned K w tr l \<longleftrightarrow>
     w \<noteq> 0 \<and> ledger_ok l \<and> ib_highest tr = seq_at w (lg_newest l) \<and>
     naks_aligned K w (lg_free l) (ib_nak_set tr) (lg_missing l) \<and>
     stream_at K tr (draw_index (lg_free l) (lg_newest l))"

definition ledger_admit :: "bool \<Rightarrow> nat \<Rightarrow> ledger \<Rightarrow> bool \<times> ledger" where
  "ledger_admit encrypted p l =
     (if lg_newest l < p
      then (True, l\<lparr>lg_newest := p,
              lg_missing := lg_missing l \<union> {lg_newest l<..<p} \<union> (if encrypted then {} else {p})\<rparr>)
      else if \<not> encrypted then (True, l)
      else (p \<in> lg_missing l, l\<lparr>lg_missing := lg_missing l - {p}\<rparr>))"

section \<open>The simulation\<close>

declare ks.after.simps(2) [simp del]

text \<open>Drawing: the next word is always the one after the newest position's.\<close>

lemma ib_next_word_stream:
  assumes "stream_at K tr i"
  shows "fst (ib_next_word tr) = \<lparr>pw_word = ks.word i K, pw_draw_order = i + 1\<rparr>"
    "stream_at K (snd (ib_next_word tr)) (i + 1)"
    "ib_nak_set (snd (ib_next_word tr)) = ib_nak_set tr" "ib_highest (snd (ib_next_word tr)) = ib_highest tr"
proof -
  have "fst (ib_next_word tr) = \<lparr>pw_word = ks.word i K, pw_draw_order = i + 1\<rparr> \<and>
    stream_at K (snd (ib_next_word tr)) (i + 1) \<and>
    ib_nak_set (snd (ib_next_word tr)) = ib_nak_set tr \<and> ib_highest (snd (ib_next_word tr)) = ib_highest tr"
  proof (cases "i = ib_draw_ordinal tr")
    case True
    then show ?thesis
      using assms ks.draw_after [of i K] by (simp add: ib_next_word_def stream_at_def Let_def)
  next
    case False
    then have "[i + 1..<ib_draw_ordinal tr + 1] = (i + 1) # [i + 2..<ib_draw_ordinal tr + 1]"
      using assms by (simp add: stream_at_def upt_conv_Cons)
    then show ?thesis
      using assms False by (simp add: ib_next_word_def stream_at_def)
  qed
  then show "fst (ib_next_word tr) = \<lparr>pw_word = ks.word i K, pw_draw_order = i + 1\<rparr>"
    "stream_at K (snd (ib_next_word tr)) (i + 1)"
    "ib_nak_set (snd (ib_next_word tr)) = ib_nak_set tr" "ib_highest (snd (ib_next_word tr)) = ib_highest tr"
    by simp_all
qed

lemma stream_at_nak [simp]: "stream_at K (tr\<lparr>ib_nak_set := m\<rparr>) i \<longleftrightarrow> stream_at K tr i"
  "stream_at K (tr\<lparr>ib_highest := s\<rparr>) i \<longleftrightarrow> stream_at K tr i"
  by (simp_all add: stream_at_def)

lemma naks_put:
  assumes "naks_aligned K w C m M" "v = position_word K C p"
    "w \<noteq> 0" "p < SESSION" "M \<subseteq> {..<SESSION}"
  shows "naks_aligned K w C (bt_insert (seq_at w p) v m) (insert p M)"
proof -
  have inj: "q \<in> M \<Longrightarrow> seq_at w q = seq_at w p \<longleftrightarrow> q = p" for q
    using seq_at_inj [OF assms(3), of q p] assms(4,5) by (auto simp: SESSION_def)
  show ?thesis
    using assms(1,2) inj by (auto simp: naks_aligned_def bt.get_put bt.ok_put)
qed

lemma naks_del:
  assumes "naks_aligned K w C m M" "w \<noteq> 0" "p < SESSION" "M \<subseteq> {..<SESSION}"
  shows "naks_aligned K w C (bt_remove (seq_at w p) m) (M - {p})"
proof -
  have inj: "q \<in> M \<Longrightarrow> seq_at w q = seq_at w p \<longleftrightarrow> q = p" for q
    using seq_at_inj [OF assms(2), of q p] assms(3,4) by (auto simp: SESSION_def)
  show ?thesis
    using assms(1) inj by (auto simp: naks_aligned_def bt.get_del bt.ok_del)
qed

lemma naks_member:
  assumes "naks_aligned K w C m M" "w \<noteq> 0" "p < SESSION" "M \<subseteq> {..<SESSION}"
  shows "bt_get m (seq_at w p) = (if p \<in> M then Some (position_word K C p) else None)"
proof -
  have "seq_at w p \<in> seq_at w ` M \<longleftrightarrow> p \<in> M"
    using seq_at_inj [OF assms(2)] assms(3,4) by (auto simp: SESSION_def subset_iff)
  then show ?thesis using assms(1) by (auto simp: naks_aligned_def domIff dom_def)
qed

lemma draw_index_beyond: "C \<subseteq> {1..h} \<Longrightarrow> h \<le> p \<Longrightarrow> draw_index C p = draw_index C h + (p - h)"
proof (induction p)
  case 0
  then show ?case by simp
next
  case (Suc p)
  then show ?case by (cases "h = Suc p") (auto simp: Suc_diff_le)
qed

text \<open>The gap walk visits the positions between, zero excluded.\<close>

lemma gap_walk_step:
  assumes "w \<noteq> 0" "stop \<noteq> seq_at w (Suc h)" "seq_at w h + 1 = 0 \<Longrightarrow> stop \<noteq> 0"
  shows "gap_walk (seq_at w h + 1) stop x = gap_walk (seq_at w (Suc h) + 1) stop (add_nakked (seq_at w (Suc h)) x)"
proof (cases "seq_at w h + 1 = 0")
  case True
  then have s: "seq_at w (Suc h) = 1" by (simp add: seq_at_Suc seq_next_def)
  have "gap_walk 0 stop x = gap_walk 1 stop x" using assms(3) True by (simp add: gap_walk.simps [of 0])
  also have "\<dots> = gap_walk (1 + 1) stop (add_nakked 1 x)" using assms(2) s by (simp add: gap_walk.simps [of 1])
  finally show ?thesis using True s by simp
next
  case False
  then have s: "seq_at w (Suc h) = seq_at w h + 1" by (simp add: seq_at_Suc seq_next_def)
  then show ?thesis using assms(2) False by (subst gap_walk.simps) auto
qed

lemma gap_walk_through:
  assumes "w \<noteq> 0" "h \<le> q" "q < SESSION"
  shows "gap_walk (seq_at w h + 1) (seq_at w q + 1) x = fold add_nakked (map (seq_at w) [Suc h..<Suc q]) x"
  using assms(2)
proof (induction "q - h" arbitrary: h x)
  case 0
  then show ?case by (simp add: gap_walk.simps)
next
  case (Suc d)
  then have h: "h < q" "d = q - Suc h" by simp_all
  have ne: "seq_at w q \<noteq> seq_at w h" using seq_at_inj [OF assms(1), of q h] h assms(3) by (simp add: SESSION_def)
  have "seq_at w q + 1 \<noteq> seq_at w (Suc h)"
    using ne seq_at_nz [OF assms(1), of q] by (auto simp: seq_at_Suc seq_next_def)
  moreover have "seq_at w h + 1 = 0 \<Longrightarrow> seq_at w q + 1 \<noteq> 0" using ne by (metis add_right_cancel)
  ultimately show ?case
    using gap_walk_step [OF assms(1), of "seq_at w q + 1" h x] Suc(1) [OF h(2)] h(1)
    by (simp add: upt_conv_Cons del: upt_Suc)
qed

lemma gap_walk_upto:
  assumes "w \<noteq> 0" "h < q" "q < SESSION"
  shows "gap_walk (seq_at w h + 1) (seq_at w q) x = fold add_nakked (map (seq_at w) [Suc h..<q]) x"
  using assms(2)
proof (induction "q - h" arbitrary: h x)
  case 0
  then show ?case by simp
next
  case (Suc d)
  show ?case
  proof (cases "q = Suc h")
    case True
    then show ?thesis
      by (cases "seq_at w h + 1 = 0") (simp_all add: seq_at_Suc seq_next_def gap_walk.simps)
  next
    case False
    then have h: "Suc h < q" "d = q - Suc h" using Suc by simp_all
    have "seq_at w q \<noteq> seq_at w (Suc h)"
      using seq_at_inj [OF assms(1), of q "Suc h"] h assms(3) by (simp add: SESSION_def)
    then show ?thesis
      using gap_walk_step [OF assms(1), of "seq_at w q" h x] Suc(1) [OF h(2,1)] h(1) seq_at_nz [OF assms(1), of q]
      by (simp add: upt_conv_Cons del: upt_Suc)
  qed
qed

text \<open>Parking a word for each position of a gap.\<close>

lemma add_nakked_fresh:
  assumes naks: "naks_aligned K w C (ib_nak_set tr) M" and stream: "stream_at K tr (draw_index C (p - 1))"
    and p: "1 \<le> p" "p < SESSION" "p \<notin> M" "p \<notin> C" and M: "M \<subseteq> {..<SESSION}" and w: "w \<noteq> 0"
  shows "naks_aligned K w C (ib_nak_set (fst (add_nakked (seq_at w p) (tr, st)))) (insert p M)"
    "stream_at K (fst (add_nakked (seq_at w p) (tr, st))) (draw_index C p)"
    "ib_highest (fst (add_nakked (seq_at w p) (tr, st))) = ib_highest tr"
proof -
  have none: "bt_get (ib_nak_set tr) (seq_at w p) = None"
    using naks_member [OF naks w p(2) M] p(3) by simp
  have idx: "draw_index C p = draw_index C (p - 1) + 1"
    using p(1,4) by (cases p) simp_all
  note nxt = ib_next_word_stream [OF stream]
  obtain v tr' where vt: "ib_next_word tr = (v, tr')" by force
  have v: "v = position_word K C p" using nxt(1) vt idx by (simp add: position_word_def)
  have add: "add_nakked (seq_at w p) (tr, st) =
      (tr'\<lparr>ib_nak_set := bt_insert (seq_at w p) v (ib_nak_set tr')\<rparr>, st\<lparr>keys_parked := keys_parked st + 1\<rparr>)"
    using none vt by (simp add: add_nakked_def)
  show "naks_aligned K w C (ib_nak_set (fst (add_nakked (seq_at w p) (tr, st)))) (insert p M)"
    using naks_put [OF naks v w p(2) M] nxt(3) vt by (simp add: add)
  show "stream_at K (fst (add_nakked (seq_at w p) (tr, st))) (draw_index C p)"
    "ib_highest (fst (add_nakked (seq_at w p) (tr, st))) = ib_highest tr"
    using nxt(2,4) vt idx by (simp_all add: add)
qed

lemma fold_add_nakked:
  assumes "naks_aligned K w C (ib_nak_set tr) M" "stream_at K tr (draw_index C h)"
    and "h < q" "q \<le> SESSION" "M \<subseteq> {..h}" "C \<subseteq> {1..h}" "w \<noteq> 0"
  shows "naks_aligned K w C (ib_nak_set (fst (fold add_nakked (map (seq_at w) [Suc h..<q]) (tr, st)))) (M \<union> {h<..<q}) \<and>
    stream_at K (fst (fold add_nakked (map (seq_at w) [Suc h..<q]) (tr, st))) (draw_index C (q - 1)) \<and>
    ib_highest (fst (fold add_nakked (map (seq_at w) [Suc h..<q]) (tr, st))) = ib_highest tr"
  using assms(3,4)
proof (induction q)
  case 0
  then show ?case by simp
next
  case (Suc q)
  show ?case
  proof (cases "q = h")
    case True
    then have "{h<..<Suc q} = {}" by auto
    then show ?thesis using True assms by simp
  next
    case False
    then have q: "h < q" "q < SESSION" using Suc.prems by simp_all
    define x where "x = fold add_nakked (map (seq_at w) [Suc h..<q]) (tr, st)"
    obtain tr' st' where x: "x = (tr', st')" by force
    have IH: "naks_aligned K w C (ib_nak_set tr') (M \<union> {h<..<q})" "stream_at K tr' (draw_index C (q - 1))"
      "ib_highest tr' = ib_highest tr"
      using Suc.IH q by (simp_all add: x_def [symmetric] x)
    have fresh: "q \<notin> M \<union> {h<..<q}" "q \<notin> C" "M \<union> {h<..<q} \<subseteq> {..<SESSION}" "1 \<le> q"
      using assms(5,6) q by auto
    have "fold add_nakked (map (seq_at w) [Suc h..<Suc q]) (tr, st) = add_nakked (seq_at w q) (tr', st')"
      using q x by (simp add: x_def)
    moreover have "insert q (M \<union> {h<..<q}) = M \<union> {h<..<Suc q}" using q by auto
    ultimately show ?thesis
      using add_nakked_fresh [OF IH(1,2) fresh(4) q(2) fresh(1,2,3) assms(7), of st'] IH(3) by simp
  qed
qed

lemma alignedD:
  assumes "aligned K w tr l"
  shows "w \<noteq> 0" "lg_newest l < SESSION" "lg_free l \<subseteq> {1..lg_newest l}" "lg_missing l \<subseteq> {1..lg_newest l}"
    "lg_missing l \<inter> lg_free l = {}" "lg_missing l \<subseteq> {..<SESSION}" "ib_highest tr = seq_at w (lg_newest l)"
    "naks_aligned K w (lg_free l) (ib_nak_set tr) (lg_missing l)"
    "stream_at K tr (draw_index (lg_free l) (lg_newest l))"
  using assms by (auto simp: aligned_def ledger_ok_def)

text \<open>A newer packet.\<close>

lemma admit_newer:
  assumes al: "aligned K w tr l" and p: "lg_newest l < p" "p < SESSION"
    and near: "\<not> is_newer (seq_at w p) (ib_highest tr + SANITY_WINDOW)"
  shows "case admit (seq_at w p) encrypted tr st of (adm, tr', st') \<Rightarrow>
    aligned K w tr' (snd (ledger_admit encrypted p l)) \<and>
    adm = (if encrypted then Process (Some (pw_word (position_word K (lg_free l) p))) (draw_index (lg_free l) p)
           else Process None U64_MAX)"
proof -
  note al' = alignedD [OF al]
  let ?h = "lg_newest l" and ?C = "lg_free l" and ?M = "lg_missing l"
  have newer: "is_newer (seq_at w p) (ib_highest tr)"
    using newer_in_session(1) [OF al'(1) p(1)] p(2) al'(7) by (simp add: SESSION_def)
  define q where "q = (if encrypted then p else Suc p)"
  have q: "?h < q" "q \<le> SESSION" using p by (auto simp: q_def)
  have walk: "gap_walk (ib_highest tr + 1) (if encrypted then seq_at w p else seq_at w p + 1) (tr, st) =
      fold add_nakked (map (seq_at w) [Suc ?h..<q]) (tr, st)"
    using gap_walk_upto [OF al'(1) p] gap_walk_through [OF al'(1) less_imp_le [OF p(1)] p(2)] al'(7)
    by (simp add: q_def)
  obtain tr1 st1 where x: "fold add_nakked (map (seq_at w) [Suc ?h..<q]) (tr, st) = (tr1, st1)" by force
  have "?M \<subseteq> {..?h}" using al'(4) by auto
  from fold_add_nakked [OF al'(8,9) q this al'(3,1), of st]
  have r: "naks_aligned K w ?C (ib_nak_set tr1) (?M \<union> {?h<..<q})" "stream_at K tr1 (draw_index ?C (q - 1))"
    by (simp_all add: x)
  have pC: "p \<notin> ?C" using al'(3) p(1) by auto
  have idx: "draw_index ?C p = draw_index ?C (p - 1) + 1" using pC p(1) by (cases p) simp_all
  have adm: "admit (seq_at w p) encrypted tr st =
      (if encrypted then let (own, tr2) = ib_next_word (tr1\<lparr>ib_highest := seq_at w p\<rparr>)
          in (Process (Some (pw_word own)) (pw_draw_order own), tr2, st1)
       else (Process None U64_MAX, tr1\<lparr>ib_highest := seq_at w p\<rparr>, st1))"
    using near newer walk x by (simp add: admit_def admit_known_def split_beta)
  have ok: "ledger_ok (snd (ledger_admit encrypted p l))"
    using al'(2-5) p pC by (auto simp: ledger_ok_def ledger_admit_def)
  show ?thesis
  proof (cases encrypted)
    case True
    define tr2 where "tr2 = tr1\<lparr>ib_highest := seq_at w p\<rparr>"
    have st2: "stream_at K tr2 (draw_index ?C (p - 1))" using r(2) True by (simp add: tr2_def q_def)
    note nxt = ib_next_word_stream [OF st2]
    have adm': "admit (seq_at w p) encrypted tr st =
        (Process (Some (pw_word (position_word K ?C p))) (draw_index ?C p), snd (ib_next_word tr2), st1)"
      using adm nxt(1) True idx by (simp add: split_beta tr2_def position_word_def)
    show ?thesis
      unfolding adm' using nxt(2-4) r(1) True p(1) al'(1) ok idx
      by (simp add: aligned_def) (simp add: tr2_def ledger_admit_def q_def)
  next
    case False
    have "?M \<union> {?h<..<Suc p} = insert p (?M \<union> {?h<..<p})" using p(1) by auto
    moreover have adm': "admit (seq_at w p) encrypted tr st =
        (Process None U64_MAX, tr1\<lparr>ib_highest := seq_at w p\<rparr>, st1)"
      using adm False by simp
    ultimately show ?thesis
      unfolding adm' using r False p(1) al'(1) ok by (simp add: aligned_def ledger_admit_def q_def)
  qed
qed

text \<open>A late packet.\<close>

lemma not_newer_late:
  assumes "aligned K w tr l" "p \<le> lg_newest l"
  shows "\<not> is_newer (seq_at w p) (ib_highest tr)" "\<not> is_newer (seq_at w p) (ib_highest tr + SANITY_WINDOW)"
proof -
  note al = alignedD [OF assms(1)]
  show "\<not> is_newer (seq_at w p) (ib_highest tr)"
    using newer_in_session(2) [OF al(1), of p "lg_newest l"] assms(2) al(2,7)
    by (cases "p = lg_newest l") (simp_all add: SESSION_def)
  show "\<not> is_newer (seq_at w p) (ib_highest tr + SANITY_WINDOW)"
    using not_beyond_window [OF al(1) assms(2)] al(2,7) by (simp add: SANITY_WINDOW_def)
qed

lemma admit_late:
  assumes al: "aligned K w tr l" and p: "p \<le> lg_newest l"
  shows "case admit (seq_at w p) encrypted tr st of (adm, tr', st') \<Rightarrow>
    aligned K w tr' (snd (ledger_admit encrypted p l)) \<and>
    adm = (if \<not> encrypted then Process None U64_MAX
           else if p \<in> lg_missing l
           then Process (Some (pw_word (position_word K (lg_free l) p))) (draw_index (lg_free l) p)
           else Drop)"
proof -
  note al' = alignedD [OF al] and late = not_newer_late [OF al p]
  have get: "bt_get (ib_nak_set tr) (seq_at w p) =
      (if p \<in> lg_missing l then Some (position_word K (lg_free l) p) else None)"
    by (rule naks_member [OF al'(8,1) _ al'(6)]) (use p al'(2) in simp)
  have del: "naks_aligned K w (lg_free l) (bt_remove (seq_at w p) (ib_nak_set tr)) (lg_missing l - {p})"
    by (rule naks_del [OF al'(8,1) _ al'(6)]) (use p al'(2) in simp)
  have same: "lg_missing l - {p} = lg_missing l" if "p \<notin> lg_missing l" using that by simp
  show ?thesis
    using late p get del al'
    by (cases encrypted; cases "p \<in> lg_missing l")
      (auto simp: admit_def admit_known_def ledger_admit_def aligned_def ledger_ok_def position_word_def same)
qed

section \<open>Failures, rejects and the resend request\<close>

lemma repark_aligned:
  assumes al: "aligned K w tr l" and p: "1 \<le> p" "p \<le> lg_newest l" "p \<notin> lg_free l"
  shows "aligned K w
    (fst (repark (seq_at w p) (pw_word (position_word K (lg_free l) p)) (draw_index (lg_free l) p) tr st))
    (l\<lparr>lg_missing := insert p (lg_missing l)\<rparr>)"
proof -
  note al' = alignedD [OF al]
  have lim: "p < SESSION" using p al'(2) by simp
  have put: "naks_aligned K w (lg_free l)
      (bt_insert (seq_at w p) (position_word K (lg_free l) p) (ib_nak_set tr)) (insert p (lg_missing l))"
    by (rule naks_put [OF al'(8) refl al'(1) lim al'(6)])
  have get: "bt_get (ib_nak_set tr) (seq_at w p) =
      (if p \<in> lg_missing l then Some (position_word K (lg_free l) p) else None)"
    by (rule naks_member [OF al'(8,1) lim al'(6)])
  have ok: "ledger_ok (l\<lparr>lg_missing := insert p (lg_missing l)\<rparr>)"
    using al p by (auto simp: aligned_def ledger_ok_def)
  show ?thesis
  proof (cases "p \<in> lg_missing l")
    case True
    then show ?thesis using al get by (simp add: repark_def insert_absorb)
  next
    case False
    then show ?thesis using al' get put ok by (simp add: repark_def aligned_def position_word_def)
  qed
qed

lemma bt_ok_fold_remove: "bt_ok m \<Longrightarrow> bt_ok (fold bt_remove ks m)"
  by (induction ks arbitrary: m) (simp_all add: bt.ok_del)

lemma bt_get_fold_remove: "bt_get (fold bt_remove ks m) k = (if k \<in> set ks then None else bt_get m k)"
  by (induction ks arbitrary: m) (auto simp: bt_get_remove)

lemma reject_aligned:
  assumes al: "aligned K w tr l"
  shows "aligned K w (on_reject_retransmit ids tr)
    (l\<lparr>lg_missing := {p \<in> lg_missing l. seq_at w p \<notin> set (sl_iter ids)}\<rparr>)"
proof -
  note al' = alignedD [OF al]
  have "naks_aligned K w (lg_free l) (fold bt_remove (sl_iter ids) (ib_nak_set tr))
      {p \<in> lg_missing l. seq_at w p \<notin> set (sl_iter ids)}"
    using al'(8) by (auto simp: naks_aligned_def bt_ok_fold_remove bt_get_fold_remove dom_def split: if_splits)
  moreover have "ledger_ok (l\<lparr>lg_missing := {p \<in> lg_missing l. seq_at w p \<notin> set (sl_iter ids)}\<rparr>)"
    using al by (auto simp: aligned_def ledger_ok_def)
  moreover have "stream_at K (tr\<lparr>ib_nak_set := m\<rparr>) i = stream_at K tr i" for m i by simp
  ultimately show ?thesis using al' by (simp add: aligned_def on_reject_retransmit_def)
qed

text \<open>The cleartext reject: every later position moves one word down.\<close>

lemma draw_index_mono: "p \<le> q \<Longrightarrow> draw_index C p \<le> draw_index C q"
  by (induction q) (auto simp: le_Suc_eq)

lemma draw_index_strict: "p < q \<Longrightarrow> q \<notin> C \<Longrightarrow> draw_index C p < draw_index C q"
proof (cases q)
  case (Suc j)
  assume "p < q" "q \<notin> C"
  then show ?thesis using draw_index_mono [of p j C] Suc by simp
qed simp

lemma draw_index_insert:
  assumes "p \<notin> C" "1 \<le> p"
  shows "draw_index (insert p C) q = draw_index C q - (if p \<le> q then 1 else 0)"
proof (induction q)
  case 0
  then show ?case using assms by simp
next
  case (Suc q)
  have "1 \<le> draw_index C q" if "p \<le> q"
    using draw_index_strict [of 0 p C] draw_index_mono [OF that, of C] assms by simp
  then show ?case using Suc assms by (auto simp: le_Suc_eq)
qed

lemma shift_parked_append:
  "shift_parked (xs @ ys) c m = (case shift_parked xs c m of (c', m') \<Rightarrow> shift_parked ys c' m')"
  by (induction xs c m rule: shift_parked.induct) (auto split: option.split)

text \<open>The positions after \<open>p\<close> that own a word.\<close>

definition owed_after :: "nat set \<Rightarrow> nat \<Rightarrow> nat \<Rightarrow> nat list" where
  "owed_after C p h = filter (\<lambda>q. q \<notin> C) [Suc p..<Suc h]"

lemma set_owed: "set (owed_after C p h) = {p<..h} - C"
  by (auto simp: owed_after_def)

lemma sorted_owed: "sorted_wrt (<) (owed_after C p h)"
  unfolding owed_after_def by (intro sorted_wrt_filter sorted_wrt_upt)

lemma later_parked_eq:
  assumes naks: "naks_aligned K w C m M" and w: "w \<noteq> 0" and M: "M \<subseteq> {..h}" "M \<inter> C = {}" "p \<notin> M" "{p<..h} \<subseteq> M \<union> C"
  shows "later_parked (draw_index C p) m = map (\<lambda>q. (draw_index C q, seq_at w q)) (owed_after C p h)"
proof -
  let ?xs = "map (\<lambda>(sid, v). (pw_draw_order v, sid)) (filter (\<lambda>(_, v). pw_draw_order v > draw_index C p) m)"
  let ?ys = "map (\<lambda>q. (draw_index C q, seq_at w q)) (owed_after C p h)"
  have ok: "bt_ok m" using naks by (simp add: naks_aligned_def)
  have dk: "distinct (map fst m)" using bt.distinct_keys [OF ok] by (simp add: bt_keys_def)
  have mem: "(s, v) \<in> set m \<longleftrightarrow> (\<exists>q \<in> M. s = seq_at w q \<and> v = position_word K C q)" for s v
  proof -
    have "(s, v) \<in> set m \<longleftrightarrow> bt_get m s = Some v" using dk by (simp add: bt_get_def)
    also have "\<dots> \<longleftrightarrow> (\<exists>q \<in> M. s = seq_at w q \<and> v = position_word K C q)"
    proof
      assume g: "bt_get m s = Some v"
      then have "s \<in> seq_at w ` M" using naks by (auto simp: naks_aligned_def)
      then show "\<exists>q \<in> M. s = seq_at w q \<and> v = position_word K C q" using naks g by (auto simp: naks_aligned_def)
    qed (use naks in \<open>auto simp: naks_aligned_def\<close>)
    finally show ?thesis .
  qed
  have gt: "draw_index C p < draw_index C q \<longleftrightarrow> p < q" if "q \<in> M" for q
    using that draw_index_strict [of p q C] draw_index_mono [of q p C] M(2,3)
    by (metis disjoint_iff leD linorder_not_le nat_neq_iff order_le_less)
  have S: "{p<..h} - C = {q \<in> M. p < q}" using M by auto
  have "set ?xs = set ?ys"
  proof (rule set_eqI)
    fix e
    have "e \<in> set ?xs \<longleftrightarrow> (\<exists>s v. (s, v) \<in> set m \<and> draw_index C p < pw_draw_order v \<and> e = (pw_draw_order v, s))"
      by auto
    also have "\<dots> \<longleftrightarrow> (\<exists>q \<in> M. draw_index C p < pw_draw_order (position_word K C q) \<and>
        e = (pw_draw_order (position_word K C q), seq_at w q))"
      unfolding mem by blast
    also have "\<dots> \<longleftrightarrow> (\<exists>q \<in> M. p < q \<and> e = (draw_index C q, seq_at w q))"
      using gt by auto
    also have "\<dots> \<longleftrightarrow> e \<in> set ?ys" by (auto simp: set_owed S)
    finally show "e \<in> set ?xs \<longleftrightarrow> e \<in> set ?ys" .
  qed
  moreover have "distinct ?xs"
  proof -
    have "distinct (map snd ?xs)"
      using dk by (auto simp: distinct_map o_def case_prod_beta inj_on_def distinct_filter)
    then show ?thesis unfolding distinct_map [of snd] by blast
  qed
  moreover have strict: "sorted_wrt (<) ?ys"
    unfolding sorted_wrt_map
    by (rule sorted_wrt_mono_rel [OF _ sorted_owed])
      (use draw_index_strict set_owed in \<open>fastforce simp: less_prod_def\<close>)
  moreover from strict have "sorted ?ys" "distinct ?ys" by (simp_all only: strict_sorted_iff)
  ultimately have "sort ?xs = ?ys"
    by (intro sorted_distinct_set_unique) (simp_all only: sorted_sort distinct_sort set_sort)
  then show ?thesis by (simp only: later_parked_def)
qed

lemma shift_parked_owed:
  assumes naks: "naks_aligned K w C m M" and w: "w \<noteq> 0"
    and M: "M \<subseteq> {..<SESSION}" "M \<inter> C = {}" "p \<notin> M" "{p<..h} \<subseteq> M \<union> C"
    and p: "1 \<le> p" "p \<notin> C" and j: "p \<le> j" "j \<le> h"
  shows "\<exists>m'. shift_parked (map (\<lambda>q. (draw_index C q, seq_at w q)) (owed_after C p j)) (position_word K C p) m =
      (position_word K C j, m') \<and> bt_ok m' \<and> dom (bt_get m') = seq_at w ` M \<and>
      (\<forall>q \<in> M. bt_get m' (seq_at w q) = Some (position_word K (if q \<le> j then insert p C else C) q))"
  using j
proof (induction j)
  case 0
  then show ?case using p(1) by simp
next
  case (Suc j)
  have below: "position_word K (insert p C) q = position_word K C q" if "q < p" for q
    using draw_index_insert [OF p(2,1), of q] that by (simp add: position_word_def)
  show ?case
  proof (cases "p = Suc j")
    case True
    have "q \<le> p \<Longrightarrow> q \<in> M \<Longrightarrow> q < p" for q using M(3) by (cases "q = p") auto
    then show ?thesis
      using True naks below by (auto simp: owed_after_def naks_aligned_def)
  next
    case False
    then have pj: "p \<le> j" "j \<le> h" using Suc.prems by simp_all
    then obtain m' where m': "shift_parked (map (\<lambda>q. (draw_index C q, seq_at w q)) (owed_after C p j)) (position_word K C p) m =
        (position_word K C j, m')" "bt_ok m'" "dom (bt_get m') = seq_at w ` M"
      "\<forall>q \<in> M. bt_get m' (seq_at w q) = Some (position_word K (if q \<le> j then insert p C else C) q)"
      using Suc.IH by blast
    show ?thesis
    proof (cases "Suc j \<in> C")
      case True
      then have "Suc j \<notin> M" using M(2) by auto
      moreover have "owed_after C p (Suc j) = owed_after C p j" using True pj by (simp add: owed_after_def)
      moreover have "position_word K C (Suc j) = position_word K C j" using True by (simp add: position_word_def)
      ultimately show ?thesis using m' by (intro exI [of _ m']) (auto simp: le_Suc_eq)
    next
      case False
      moreover have "Suc j \<in> {p<..h}" using pj Suc.prems by simp
      ultimately have inM: "Suc j \<in> M" using M(4) by blast
      have app: "owed_after C p (Suc j) = owed_after C p j @ [Suc j]" using False pj by (simp add: owed_after_def)
      have slot: "bt_get m' (seq_at w (Suc j)) = Some (position_word K C (Suc j))" using m'(4) inM by auto
      have carry: "position_word K C j = position_word K (insert p C) (Suc j)"
        using draw_index_insert [OF p(2,1), of "Suc j"] False pj by (simp add: position_word_def)
      define m2 where "m2 = bt_insert (seq_at w (Suc j)) (position_word K C j) m'"
      have inj: "seq_at w q = seq_at w (Suc j) \<longleftrightarrow> q = Suc j" if "q \<in> M" for q
      proof -
        have "q < SESSION" "Suc j < SESSION" using that M(1) inM by auto
        then show ?thesis using seq_at_inj [OF w, of q "Suc j"] by (simp add: SESSION_def)
      qed
      have "shift_parked (map (\<lambda>q. (draw_index C q, seq_at w q)) (owed_after C p (Suc j))) (position_word K C p) m =
          (position_word K C (Suc j), m2)"
        using m'(1) slot by (simp add: app shift_parked_append m2_def)
      moreover have "bt_ok m2" "dom (bt_get m2) = seq_at w ` M"
        using m'(2,3) inM by (auto simp: m2_def bt.ok_put bt.get_put)
      moreover have "bt_get m2 (seq_at w q) = Some (position_word K (if q \<le> Suc j then insert p C else C) q)"
        if "q \<in> M" for q
        using m'(2,4) that inj carry by (auto simp: m2_def bt.get_put le_Suc_eq)
      ultimately show ?thesis by blast
    qed
  qed
qed

lemma cleartext_reject_aligned:
  assumes al: "aligned K w tr l" and p: "p \<in> lg_missing l" and later: "{p<..lg_newest l} \<subseteq> lg_missing l \<union> lg_free l"
  shows "aligned K w (fst (on_cleartext_reject_sequence (seq_at w p) tr st))
    (l\<lparr>lg_free := insert p (lg_free l), lg_missing := lg_missing l - {p}\<rparr>)"
proof -
  note al' = alignedD [OF al]
  let ?C = "lg_free l" and ?M = "lg_missing l - {p}" and ?h = "lg_newest l"
  have pr: "1 \<le> p" "p \<le> ?h" "p \<notin> ?C" "p < SESSION" using p al'(2,4,5) by auto
  have get: "bt_get (ib_nak_set tr) (seq_at w p) = Some (position_word K ?C p)"
    using naks_member [OF al'(8,1) pr(4) al'(6)] p by simp
  define m where "m = bt_remove (seq_at w p) (ib_nak_set tr)"
  have naks: "naks_aligned K w ?C m ?M" unfolding m_def by (rule naks_del [OF al'(8,1) pr(4) al'(6)])
  have M: "?M \<subseteq> {..?h}" "?M \<inter> ?C = {}" "p \<notin> ?M" "{p<..?h} \<subseteq> ?M \<union> ?C" "?M \<subseteq> {..<SESSION}"
    using al'(4,5,6) later by auto
  obtain m' where m': "shift_parked (map (\<lambda>q. (draw_index ?C q, seq_at w q)) (owed_after ?C p ?h)) (position_word K ?C p) m =
      (position_word K ?C ?h, m')" "bt_ok m'" "dom (bt_get m') = seq_at w ` ?M"
    "\<forall>q \<in> ?M. bt_get m' (seq_at w q) = Some (position_word K (if q \<le> ?h then insert p ?C else ?C) q)"
    using shift_parked_owed [OF naks al'(1) M(5,2,3,4) pr(1,3,2) order_refl] by blast
  have naks': "naks_aligned K w (insert p ?C) m' ?M"
    using m'(2-4) M(1) by (auto simp: naks_aligned_def)
  define i where "i = draw_index ?C ?h"
  have i: "1 \<le> i" "draw_index (insert p ?C) ?h = i - 1"
    using draw_index_strict [of 0 p ?C] draw_index_mono [OF pr(2), of ?C] pr draw_index_insert [OF pr(3,1), of ?h]
    by (simp_all add: i_def)
  have rec: "on_cleartext_reject_sequence (seq_at w p) tr st =
      (tr\<lparr>ib_nak_set := m', ib_reclaimed := heap_push (i, ks.word (i - 1) K) (ib_reclaimed tr)\<rparr>,
       st\<lparr>reject_words_reclaimed := reject_words_reclaimed st + 1\<rparr>)"
    using get m'(1) later_parked_eq [OF naks al'(1) M(1,2,3,4)]
    by (simp add: on_cleartext_reject_sequence_def m_def [symmetric] i_def)
  have st: "i \<le> ib_draw_ordinal tr" "ib_keystream tr = ks.after (ib_draw_ordinal tr) K"
    "ib_reclaimed tr = map (\<lambda>k. (k, ks.word (k - 1) K)) [i + 1..<ib_draw_ordinal tr + 1]"
    using al'(9) by (simp_all add: stream_at_def i_def)
  have "heap_push (i, ks.word (i - 1) K) (ib_reclaimed tr) =
      map (\<lambda>k. (k, ks.word (k - 1) K)) [i..<ib_draw_ordinal tr + 1]"
  proof -
    have "heap_push (i, ks.word (i - 1) K) (ib_reclaimed tr) = (i, ks.word (i - 1) K) # ib_reclaimed tr"
      unfolding heap_push_def by (rule insort_is_Cons) (auto simp: st(3) less_eq_prod_def)
    also have "\<dots> = map (\<lambda>k. (k, ks.word (k - 1) K)) [i..<ib_draw_ordinal tr + 1]"
      using st(1) by (simp add: st(3) upt_conv_Cons del: upt_Suc)
    finally show ?thesis .
  qed
  moreover have "[i - 1 + 1..<ib_draw_ordinal tr + 1] = [i..<ib_draw_ordinal tr + 1]" using i(1) by simp
  moreover have "ledger_ok (l\<lparr>lg_free := insert p ?C, lg_missing := ?M\<rparr>)"
    using al pr by (auto simp: aligned_def ledger_ok_def)
  ultimately show ?thesis
    using al'(1,7) naks' st(1,2) i by (simp add: rec aligned_def stream_at_def)
qed

section \<open>Sessions\<close>

text \<open>
  Everything the transport does with the tracker, in any order: packets arrive (sealed or in
  the clear, early, late or repeated), a checked packet fails and its word is parked again,
  the server gives up sequences, and a validated cleartext reject returns its word, which
  the transport does while every later position is still unverified.
\<close>

inductive inbound_session :: "isaac \<Rightarrow> u32 \<Rightarrow> inbound \<Rightarrow> ledger \<Rightarrow> bool" for K w where
  start: "w \<noteq> 0 \<Longrightarrow> inbound_session K w (inbound_new K w) \<lparr>lg_free = {}, lg_newest = 0, lg_missing = {}\<rparr>"
| arrive: "inbound_session K w tr l \<Longrightarrow> p < SESSION \<Longrightarrow> admit (seq_at w p) encrypted tr st = (adm, tr', st') \<Longrightarrow>
    inbound_session K w tr' (if adm = Drop then l else snd (ledger_admit encrypted p l))"
| failed: "inbound_session K w tr l \<Longrightarrow> 1 \<le> p \<Longrightarrow> p \<le> lg_newest l \<Longrightarrow> p \<notin> lg_free l \<Longrightarrow>
    repark (seq_at w p) (pw_word (position_word K (lg_free l) p)) (draw_index (lg_free l) p) tr st = (tr', st') \<Longrightarrow>
    inbound_session K w tr' (l\<lparr>lg_missing := insert p (lg_missing l)\<rparr>)"
| given_up: "inbound_session K w tr l \<Longrightarrow>
    inbound_session K w (on_reject_retransmit ids tr)
      (l\<lparr>lg_missing := {p \<in> lg_missing l. seq_at w p \<notin> set (sl_iter ids)}\<rparr>)"
| reclaimed: "inbound_session K w tr l \<Longrightarrow> p \<in> lg_missing l \<Longrightarrow> {p<..lg_newest l} \<subseteq> lg_missing l \<union> lg_free l \<Longrightarrow>
    on_cleartext_reject_sequence (seq_at w p) tr st = (tr', st') \<Longrightarrow>
    inbound_session K w tr' (l\<lparr>lg_free := insert p (lg_free l), lg_missing := lg_missing l - {p}\<rparr>)"

lemma aligned_new: "w \<noteq> 0 \<Longrightarrow> aligned K w (inbound_new K w) \<lparr>lg_free = {}, lg_newest = 0, lg_missing = {}\<rparr>"
  by (simp add: aligned_def ledger_ok_def inbound_new_def naks_aligned_def stream_at_def SESSION_def)

lemma admit_beyond:
  "is_newer s (ib_highest tr + SANITY_WINDOW) \<Longrightarrow>
     admit s encrypted tr st = (Drop, tr, st\<lparr>inbound_sanity_drops := inbound_sanity_drops st + 1\<rparr>)"
  by (simp add: admit_def)

lemma admit_known_accepts: "fst (admit_known s encrypted newer parked tr st) \<noteq> Drop"
  by (simp add: admit_known_def split_beta Let_def)

lemma admit_known_not_drop: "admit_known s encrypted newer parked tr st \<noteq> (Drop, r)"
  using admit_known_accepts [of s encrypted newer parked tr st] by auto

lemma admit_drop: "admit s encrypted tr st = (Drop, tr', st') \<Longrightarrow> tr' = tr"
  by (auto simp: admit_def Let_def admit_known_not_drop split: option.splits if_splits)

lemma admit_simulated:
  assumes al: "aligned K w tr l" and p: "p < SESSION" and run: "admit (seq_at w p) encrypted tr st = (adm, tr', st')"
  shows "aligned K w tr' (if adm = Drop then l else snd (ledger_admit encrypted p l))"
    "adm = (if is_newer (seq_at w p) (ib_highest tr + SANITY_WINDOW) \<or> \<not> fst (ledger_admit encrypted p l) then Drop
            else if \<not> encrypted then Process None U64_MAX
            else Process (Some (ks.word (draw_index (lg_free l) p - 1) K)) (draw_index (lg_free l) p))"
proof -
  have both: "aligned K w tr' (if adm = Drop then l else snd (ledger_admit encrypted p l)) \<and>
    adm = (if is_newer (seq_at w p) (ib_highest tr + SANITY_WINDOW) \<or> \<not> fst (ledger_admit encrypted p l) then Drop
            else if \<not> encrypted then Process None U64_MAX
            else Process (Some (ks.word (draw_index (lg_free l) p - 1) K)) (draw_index (lg_free l) p))"
  proof (cases "is_newer (seq_at w p) (ib_highest tr + SANITY_WINDOW)")
    case True
    then show ?thesis using al run by (simp add: admit_beyond)
  next
    case near: False
    show ?thesis
    proof (cases "lg_newest l < p")
      case True
      then show ?thesis
        using admit_newer [OF al True p near, of encrypted st] near run True
        by (cases encrypted) (simp_all add: ledger_admit_def)
    next
      case False
      then have "p \<le> lg_newest l" by simp
      then show ?thesis
        using admit_late [OF al, of p encrypted st] near run by (auto simp: ledger_admit_def)
    qed
  qed
  show "aligned K w tr' (if adm = Drop then l else snd (ledger_admit encrypted p l))"
    by (rule both [THEN conjunct1])
  show "adm = (if is_newer (seq_at w p) (ib_highest tr + SANITY_WINDOW) \<or> \<not> fst (ledger_admit encrypted p l) then Drop
            else if \<not> encrypted then Process None U64_MAX
            else Process (Some (ks.word (draw_index (lg_free l) p - 1) K)) (draw_index (lg_free l) p))"
    by (rule both [THEN conjunct2])
qed

lemma session_aligned: "inbound_session K w tr l \<Longrightarrow> aligned K w tr l"
proof (induction rule: inbound_session.induct)
  case start
  then show ?case by (rule aligned_new)
next
  case (arrive tr l p encrypted st adm tr' st')
  show ?case by (rule admit_simulated(1) [OF arrive.IH arrive.hyps(2,3)])
next
  case (failed tr l p st tr' st')
  show ?case using repark_aligned [OF failed.IH failed.hyps(2-4), of st] failed.hyps(5) by simp
next
  case (given_up tr l ids)
  show ?case by (rule reject_aligned [OF given_up.IH])
next
  case (reclaimed tr l p st tr' st')
  show ?case using cleartext_reject_aligned [OF reclaimed.IH reclaimed.hyps(2,3), of st] reclaimed.hyps(4) by simp
qed

section \<open>Properties\<close>

text \<open>
  C3. The inbound keystream never loses its alignment. In any session (loss, reordering,
  repetition, failed checksums, sequences given up, cleartext packets and cleartext rejects,
  the 32-bit counter wrapping past zero), an arriving sealed packet at position \<open>p\<close> is either
  dropped or checked against exactly the word the server sealed it with: the word numbered by
  the count of positions up to \<open>p\<close> that own one. It is dropped exactly when it is too far
  ahead or neither new nor missing.
\<close>

theorem session_words_aligned:
  assumes "inbound_session K w tr l" "p < SESSION" "admit (seq_at w p) True tr st = (adm, tr', st')"
  shows "adm =
    (if is_newer (seq_at w p) (seq_at w (lg_newest l) + SANITY_WINDOW) \<or> p \<le> lg_newest l \<and> p \<notin> lg_missing l then Drop
     else Process (Some (ks.word (draw_index (lg_free l) p - 1) K)) (draw_index (lg_free l) p)) \<and>
    (adm = Drop \<longrightarrow> tr' = tr) \<and>
    (adm \<noteq> Drop \<longrightarrow> inbound_session K w tr' (snd (ledger_admit True p l)))"
proof -
  have al: "aligned K w tr l" by (rule session_aligned [OF assms(1)])
  have "adm =
    (if is_newer (seq_at w p) (seq_at w (lg_newest l) + SANITY_WINDOW) \<or> p \<le> lg_newest l \<and> p \<notin> lg_missing l then Drop
     else Process (Some (ks.word (draw_index (lg_free l) p - 1) K)) (draw_index (lg_free l) p))"
    using admit_simulated(2) [OF al assms(2,3)] alignedD(7) [OF al] by (auto simp: ledger_admit_def)
  moreover have "adm = Drop \<longrightarrow> tr' = tr"
    using admit_drop assms(3) by blast
  moreover have "adm \<noteq> Drop \<longrightarrow> inbound_session K w tr' (snd (ledger_admit True p l))"
    using inbound_session.arrive [OF assms] by auto
  ultimately show ?thesis by blast
qed

lemma session_words_aligned_witness:
  "\<exists>tr l. inbound_session (isaac_new 7) 1 tr l \<and> lg_missing l = {1} \<and>
     fst (admit 2 True tr stats_default) = Process (Some (ks.word 0 (isaac_new 7))) 1"
proof -
  let ?K = "isaac_new 7" and ?l0 = "\<lparr>lg_free = {}, lg_newest = 0, lg_missing = {}\<rparr> :: ledger"
  have s0: "inbound_session ?K 1 (inbound_new ?K 1) ?l0" by (rule inbound_session.start) simp
  have seq1: "seq_at 1 (Suc 0) = 2" by (simp add: seq_at_def seq_next_def)
  have "seq_at 1 2 = seq_next (seq_at 1 (Suc 0))" by (metis seq_at_Suc numeral_2_eq_2)
  then have seqs: "seq_at 1 (Suc 0) = 2" "seq_at 1 2 = 3" using seq1 by (simp_all add: seq_next_def)
  have lim: "Suc 0 < SESSION" "2 < SESSION" by (simp_all add: SESSION_def)
  obtain adm tr st' where r2: "admit (seq_at 1 2) True (inbound_new ?K 1) stats_default = (adm, tr, st')"
    using prod_cases3 by blast
  have near: "\<not> is_newer 3 (1 + SANITY_WINDOW)" "\<not> is_newer 2 (3 + SANITY_WINDOW)"
    by (simp_all add: is_newer_iff SANITY_WINDOW_def)
  have l2: "snd (ledger_admit True 2 ?l0) = \<lparr>lg_free = {}, lg_newest = 2, lg_missing = {1}\<rparr>"
    by (auto simp: ledger_admit_def)
  have s2: "inbound_session ?K 1 tr \<lparr>lg_free = {}, lg_newest = 2, lg_missing = {1}\<rparr>"
    using session_words_aligned [OF s0 lim(2) r2] near l2 by (simp add: seqs)
  obtain adm' tr' st'' where r1: "admit (seq_at 1 (Suc 0)) True tr stats_default = (adm', tr', st'')"
    using prod_cases3 by blast
  have "adm' = Process (Some (ks.word 0 ?K)) 1"
    using session_words_aligned [OF s2 lim(1) r1] near by (simp add: seqs)
  then show ?thesis
    using s2 r1 by (intro exI [of _ tr] exI [of _ "\<lparr>lg_free = {}, lg_newest = 2, lg_missing = {1}\<rparr>"]) (simp add: seqs)
qed

text \<open>
  C18. A validated cleartext reject returns its word: after
  \<open>on_cleartext_reject_sequence\<close> the sequence is no longer asked for, every later missing
  position holds the word of the position before it, and the excess word is the next one
  drawn, so a fresh packet behind it is again checked against the server's word.
\<close>

theorem cleartext_reject_shifts:
  assumes "inbound_session K w tr l" "p \<in> lg_missing l" "{p<..lg_newest l} \<subseteq> lg_missing l \<union> lg_free l"
    and "on_cleartext_reject_sequence (seq_at w p) tr st = (tr', st')"
  shows "bt_get (ib_nak_set tr') (seq_at w p) = None \<and>
    list_all (\<lambda>q. bt_get (ib_nak_set tr') (seq_at w q) =
      Some \<lparr>pw_word = ks.word (draw_index (lg_free l) q - (if p < q then 2 else 1)) K,
            pw_draw_order = draw_index (lg_free l) q - (if p < q then 1 else 0)\<rparr>)
      (sorted_list_of_set (lg_missing l - {p})) \<and>
    pw_word (fst (ib_next_word tr')) = ks.word (draw_index (lg_free l) (lg_newest l) - 1) K"
proof -
  let ?C = "lg_free l" and ?l' = "l\<lparr>lg_free := insert p (lg_free l), lg_missing := lg_missing l - {p}\<rparr>"
  have al: "aligned K w tr l" by (rule session_aligned [OF assms(1)])
  have al': "aligned K w tr' ?l'"
    by (rule session_aligned [OF inbound_session.reclaimed [OF assms]])
  note old = alignedD [OF al] and new = alignedD [OF al']
  have pr: "1 \<le> p" "p \<le> lg_newest l" "p \<notin> ?C" "p < SESSION" using assms(2) old(2,4,5) by auto
  note ins = draw_index_insert [OF pr(3,1)]
  have "bt_get (ib_nak_set tr') (seq_at w p) = None"
    using naks_member [OF new(8,1) pr(4) new(6)] by simp
  moreover have "bt_get (ib_nak_set tr') (seq_at w q) =
      Some \<lparr>pw_word = ks.word (draw_index ?C q - (if p < q then 2 else 1)) K,
            pw_draw_order = draw_index ?C q - (if p < q then 1 else 0)\<rparr>" if q: "q \<in> lg_missing l - {p}" for q
  proof -
    have "bt_get (ib_nak_set tr') (seq_at w q) = Some (position_word K (insert p ?C) q)"
      using new(8) q by (auto simp: naks_aligned_def)
    then show ?thesis using q ins [of q] by (auto simp: position_word_def numeral_2_eq_2)
  qed
  moreover have "pw_word (fst (ib_next_word tr')) = ks.word (draw_index ?C (lg_newest l) - 1) K"
    using ib_next_word_stream(1) [OF new(9)] ins [of "lg_newest l"] pr by simp
  moreover have "finite (lg_missing l - {p})" using old(4) finite_subset by blast
  ultimately show ?thesis by (simp add: list_all_iff)
qed

lemma cleartext_reject_shifts_witness:
  "\<exists>tr l. inbound_session (isaac_new 7) 1 tr l \<and> lg_missing l = {1} \<and>
     pw_word (fst (ib_next_word (fst (on_cleartext_reject_sequence 2 tr stats_default)))) = ks.word 0 (isaac_new 7)"
proof -
  let ?K = "isaac_new 7" and ?l0 = "\<lparr>lg_free = {}, lg_newest = 0, lg_missing = {}\<rparr> :: ledger"
  let ?l1 = "\<lparr>lg_free = {}, lg_newest = 1, lg_missing = {1}\<rparr> :: ledger"
  have s0: "inbound_session ?K 1 (inbound_new ?K 1) ?l0" by (rule inbound_session.start) simp
  have seq: "seq_at 1 (Suc 0) = 2" by (simp add: seq_at_def seq_next_def)
  have lim: "1 < SESSION" by (simp add: SESSION_def)
  obtain adm tr st' where r: "admit (seq_at 1 1) False (inbound_new ?K 1) stats_default = (adm, tr, st')"
    using prod_cases3 by blast
  have near: "\<not> is_newer 2 (1 + SANITY_WINDOW)" by (simp add: is_newer_iff SANITY_WINDOW_def)
  have "adm \<noteq> Drop"
    using admit_simulated(2) [OF session_aligned [OF s0] lim r] near
    by (simp add: seq ledger_admit_def inbound_new_def)
  moreover have "snd (ledger_admit False 1 ?l0) = ?l1" by (auto simp: ledger_admit_def)
  ultimately have s1: "inbound_session ?K 1 tr ?l1"
    using inbound_session.arrive [OF s0 lim r] by simp
  obtain tr' st'' where rej: "on_cleartext_reject_sequence (seq_at 1 1) tr stats_default = (tr', st'')" by force
  have "pw_word (fst (ib_next_word tr')) = ks.word 0 ?K"
    using cleartext_reject_shifts [OF s1 _ _ rej] by simp
  then show ?thesis using s1 rej by (intro exI [of _ tr] exI [of _ ?l1]) (simp add: seq)
qed

end
