(* ===== verification/Sent_Store.thy ===== *)
theory Sent_Store
  imports Sequence Std_Containers
begin

text \<open>
  \<open>crates/ac-net/src/transport/sent_store.rs\<close>: the packets kept for resending, in send order.
\<close>

record cached_packet =
  ca_sequence :: u32
  ca_datagram :: bytes
  ca_key :: u32
  ca_sealed_payload :: u32
  ca_has_fragments :: bool
  ca_has_ack :: bool
  ca_has_time_pair :: bool

record sent_store =
  ss_order :: "u32 list"
  ss_by_sequence :: "(u32, cached_packet) hmap"

definition store_default :: sent_store where
  "store_default = \<lparr>ss_order = [], ss_by_sequence = []\<rparr>"

definition store_len :: "sent_store \<Rightarrow> nat" where
  "store_len s = length (ss_order s)"

definition store_add :: "cached_packet \<Rightarrow> sent_store \<Rightarrow> sent_store" where
  "store_add p s =
     \<lparr>ss_order = ss_order s @ [ca_sequence p],
      ss_by_sequence = hm_insert (ca_sequence p) p (ss_by_sequence s)\<rparr>"

definition store_contains :: "u32 \<Rightarrow> sent_store \<Rightarrow> bool" where
  "store_contains sequence s \<longleftrightarrow> hm_get (ss_by_sequence s) sequence \<noteq> None"

text \<open>\<open>get_mut\<close>: the reference is modelled by the lookup and the write of the new value.\<close>

definition store_get :: "u32 \<Rightarrow> sent_store \<Rightarrow> cached_packet option" where
  "store_get sequence s = hm_get (ss_by_sequence s) sequence"

definition store_put :: "u32 \<Rightarrow> cached_packet \<Rightarrow> sent_store \<Rightarrow> sent_store" where
  "store_put sequence p s = s\<lparr>ss_by_sequence := hm_insert sequence p (ss_by_sequence s)\<rparr>"

fun flush_loop :: "u32 \<Rightarrow> u32 list \<Rightarrow> (u32, cached_packet) hmap \<Rightarrow> sent_store" where
  "flush_loop watermark [] m = \<lparr>ss_order = [], ss_by_sequence = m\<rparr>"
| "flush_loop watermark (head # order) m =
     (if \<not> is_newer watermark head then \<lparr>ss_order = head # order, ss_by_sequence = m\<rparr>
      else flush_loop watermark order (hm_remove head m))"

definition flush_older_than :: "u32 \<Rightarrow> sent_store \<Rightarrow> sent_store" where
  "flush_older_than watermark s = flush_loop watermark (ss_order s) (ss_by_sequence s)"

section \<open>Invariant\<close>

definition store_ok :: "sent_store \<Rightarrow> bool" where
  "store_ok s \<longleftrightarrow>
     hm_ok (ss_by_sequence s) \<and> distinct (ss_order s) \<and>
     dom (hm_get (ss_by_sequence s)) = set (ss_order s)"

lemma store_ok_default [simp]: "store_ok store_default"
  by (simp add: store_ok_def store_default_def)

lemma store_default_simps [simp]:
  "ss_order store_default = []" "store_get k store_default = None" "\<not> store_contains k store_default"
  by (simp_all add: store_default_def store_get_def store_contains_def)

lemma store_ok_add:
  assumes "store_ok s" "\<not> store_contains (ca_sequence p) s"
  shows "store_ok (store_add p s)"
proof -
  have "ca_sequence p \<notin> set (ss_order s)"
    using assms by (metis domIff store_contains_def store_ok_def)
  then show ?thesis
    using assms(1) by (simp add: store_ok_def store_add_def hm.get_put hm.ok_put)
qed

lemma store_ok_put: "store_ok s \<Longrightarrow> store_contains k s \<Longrightarrow> store_ok (store_put k p s)"
  by (auto simp: store_ok_def store_put_def store_contains_def hm.get_put hm.ok_put)

lemma flush_loop_eq:
  assumes "hm_ok m" "distinct order"
  shows "ss_order (flush_loop w order m) = dropWhile (is_newer w) order \<and>
    hm_ok (ss_by_sequence (flush_loop w order m)) \<and>
    hm_get (ss_by_sequence (flush_loop w order m)) = (\<lambda>k. if k \<in> set (takeWhile (is_newer w) order) then None else hm_get m k)"
  using assms
proof (induction w order m rule: flush_loop.induct)
  case (1 w m)
  then show ?case by simp
next
  case (2 w head order m)
  then show ?case by (auto simp: hm.ok_del hm.get_del fun_eq_iff)
qed

lemma flush_older_than_eq:
  assumes "store_ok s"
  shows "ss_order (flush_older_than w s) = dropWhile (is_newer w) (ss_order s)"
    "store_ok (flush_older_than w s)"
    "store_get k (flush_older_than w s) = (if k \<in> set (takeWhile (is_newer w) (ss_order s)) then None else store_get k s)"
proof -
  have ok: "hm_ok (ss_by_sequence s)" "distinct (ss_order s)" using assms by (simp_all add: store_ok_def)
  note f = flush_loop_eq [OF ok, of w]
  have split: "set (takeWhile (is_newer w) (ss_order s)) \<inter> set (dropWhile (is_newer w) (ss_order s)) = {}"
    "set (takeWhile (is_newer w) (ss_order s)) \<union> set (dropWhile (is_newer w) (ss_order s)) = set (ss_order s)"
    using ok(2) by (metis distinct_append takeWhile_dropWhile_id, metis set_append takeWhile_dropWhile_id)
  show "ss_order (flush_older_than w s) = dropWhile (is_newer w) (ss_order s)"
    "store_get k (flush_older_than w s) = (if k \<in> set (takeWhile (is_newer w) (ss_order s)) then None else store_get k s)"
    using f by (simp_all add: flush_older_than_def store_get_def)
  have "dom (\<lambda>k. if k \<in> set (takeWhile (is_newer w) (ss_order s)) then None else hm_get (ss_by_sequence s) k) =
      set (dropWhile (is_newer w) (ss_order s))"
    using assms split by (auto simp: store_ok_def dom_def split: if_splits)
  then show "store_ok (flush_older_than w s)"
    using f ok(2) by (simp add: store_ok_def flush_older_than_def distinct_dropWhile)
qed

end
