(* ===== verification/Sections.thy ===== *)
theory Sections
  imports Codec
begin

text \<open>
  The optional sections the client writes (the cumulative ack, the time-sync and echo pair,
  the list of requested resends) and what \<open>parse_optional\<close> reads from them. \<open>carries\<close>
  says which sections a flags word announces; only these occur in the client's packets.
\<close>

section \<open>Reading a section off the front of the rest\<close>

lemma rd_bind_ret [simp]: "rd_bind (rd_ret v) g = g v"
  by (rule ext) (simp add: rd_bind_def rd_ret_def)

lemma rd_bind_parses:
  assumes "parses f e v" "drop p d = e @ rest" "p \<le> length d"
  shows "rd_bind f g \<lparr>rd_data = d, rd_pos = p\<rparr> = g v \<lparr>rd_data = d, rd_pos = p + length e\<rparr>"
proof -
  have d: "d = take p d @ e @ rest" "length (take p d) = p"
    using assms(2,3) by (metis append_take_drop_id, simp)
  have "f \<lparr>rd_data = take p d @ e @ rest, rd_pos = length (take p d)\<rparr> =
      (Inr v, \<lparr>rd_data = take p d @ e @ rest, rd_pos = length (take p d) + length e\<rparr>)"
    using assms(1) unfolding parses_def by blast
  then show ?thesis unfolding d(1) [symmetric] d(2) by (simp add: rd_bind_def)
qed

lemma parses_sections [parse_intros]:
  "parses (opt_ack s) (le_bytes 4 a) (s\<lparr>opt_ack_sequence := a\<rparr>)"
  "parses (opt_time s) (le_bytes 8 t) (s\<lparr>opt_time_sync := t\<rparr>)"
  "parses (opt_echo_request s) (le_bytes 4 e) (s\<lparr>opt_echo_request_time := e\<rparr>)"
  unfolding opt_ack_def opt_time_def opt_echo_request_def
  by (auto intro!: parses_bind_nil parse_intros)

section \<open>Acknowledgement and time pair\<close>

record time_stamps =
  ts_server_time :: u64
  ts_local_time :: u32

definition stamps_to_bytes :: "time_stamps \<Rightarrow> bytes" where
  "stamps_to_bytes s = le_bytes 8 (ts_server_time s) @ le_bytes 4 (ts_local_time s)"

definition ack_bytes :: "u32 option \<Rightarrow> bytes" where
  "ack_bytes a = (case a of None \<Rightarrow> [] | Some a \<Rightarrow> le_bytes 4 a)"

definition pair_bytes :: "time_stamps option \<Rightarrow> bytes" where
  "pair_bytes s = (case s of None \<Rightarrow> [] | Some s \<Rightarrow> stamps_to_bytes s)"

lemma length_sections [simp]:
  "length (stamps_to_bytes s) = 12" "length (ack_bytes a) = (if a = None then 0 else 4)"
  "length (pair_bytes t) = (if t = None then 0 else 12)"
  by (auto simp: stamps_to_bytes_def ack_bytes_def pair_bytes_def split: option.split)

definition carries :: "packet_flags \<Rightarrow> bool \<Rightarrow> bool \<Rightarrow> bool" where
  "carries f ack pair \<longleftrightarrow>
     \<not> has f SERVER_SWITCH \<and> \<not> has f REQUEST_RETRANSMIT \<and> \<not> has f REJECT_RETRANSMIT \<and>
     has f ACK_SEQUENCE = ack \<and> \<not> has f LOGIN_REQUEST \<and> \<not> has f WORLD_LOGIN_REQUEST \<and>
     \<not> has f CONNECT_REQUEST \<and> \<not> has f CONNECT_RESPONSE \<and> \<not> has f CICMD_COMMAND \<and>
     has f TIME_SYNC = pair \<and> has f ECHO_REQUEST = pair \<and> \<not> has f ECHO_RESPONSE \<and> \<not> has f FLOW"

definition pair_optional :: "u32 option \<Rightarrow> time_stamps option \<Rightarrow> optional_header" where
  "pair_optional ack stamps =
     optional_default\<lparr>opt_raw := ack_bytes ack @ pair_bytes stamps,
       opt_ack_sequence := (case ack of None \<Rightarrow> 0 | Some a \<Rightarrow> a),
       opt_time_sync := (case stamps of None \<Rightarrow> 0 | Some s \<Rightarrow> ts_server_time s),
       opt_echo_request_time := (case stamps of None \<Rightarrow> 0 | Some s \<Rightarrow> ts_local_time s)\<rparr>"

lemma opt_list_False [simp]: "opt_list False store s k = k s"
  by (simp add: opt_list_def)

lemma opt_when_simps [simp]: "opt_when False f s = rd_ret s" "opt_when True f s = f s"
  by (simp_all add: opt_when_def)

lemma opt_end_at: "opt_end body s \<lparr>rd_data = d, rd_pos = p\<rparr> =
    (Inr (Some (s\<lparr>opt_raw := take p body\<rparr>, p)), \<lparr>rd_data = d, rd_pos = p\<rparr>)"
  by (simp add: opt_end_def rd_position_def rd_ret_def)

lemma parse_pair_part:
  assumes "drop p d = pair_bytes stamps @ rest" "p \<le> length d"
  shows "rd_bind (opt_when (stamps \<noteq> None) opt_time s) (\<lambda>s.
      rd_bind (opt_when (stamps \<noteq> None) opt_echo_request s) g) \<lparr>rd_data = d, rd_pos = p\<rparr> =
    g (case stamps of None \<Rightarrow> s | Some t \<Rightarrow> s\<lparr>opt_time_sync := ts_server_time t, opt_echo_request_time := ts_local_time t\<rparr>)
      \<lparr>rd_data = d, rd_pos = p + length (pair_bytes stamps)\<rparr>"
proof (cases stamps)
  case None
  then show ?thesis by simp
next
  case (Some t)
  have d: "drop p d = le_bytes 8 (ts_server_time t) @ le_bytes 4 (ts_local_time t) @ rest"
    using assms(1) Some by (simp add: pair_bytes_def stamps_to_bytes_def)
  have "length (drop p d) = 12 + length rest" by (simp add: d)
  then have p: "p + 8 \<le> length d" by simp
  have "drop (p + 8) d = drop 8 (drop p d)" by (simp add: add.commute)
  then have d2: "drop (p + 8) d = le_bytes 4 (ts_local_time t) @ rest" by (simp add: d)
  show ?thesis
    by (simp add: Some rd_bind_parses [OF parses_sections(2) d assms(2)]
        rd_bind_parses [OF parses_sections(3) d2 p] add.assoc)
qed

lemma parse_sections:
  assumes "carries f (ack \<noteq> None) (stamps \<noteq> None)"
  shows "parse_optional (ack_bytes ack @ pair_bytes stamps @ rest) f =
    Some (pair_optional ack stamps, length (ack_bytes ack @ pair_bytes stamps))"
proof -
  define body where "body = ack_bytes ack @ pair_bytes stamps @ rest"
  define s0 where "s0 = (case ack of None \<Rightarrow> optional_default | Some a \<Rightarrow> optional_default\<lparr>opt_ack_sequence := a\<rparr>)"
  define tail :: "optional_header \<Rightarrow> (optional_header \<times> nat) option rd" where
    "tail s = rd_bind (opt_when (stamps \<noteq> None) opt_time s) (\<lambda>s.
      rd_bind (opt_when (stamps \<noteq> None) opt_echo_request s) (opt_end body))" for s
  have inner: "parse_optional_inner body f = rd_bind (opt_when (ack \<noteq> None) opt_ack optional_default) tail"
    using assms unfolding parse_optional_inner_def carries_def by (simp add: tail_def [abs_def])
  have "rd_bind (opt_when (ack \<noteq> None) opt_ack optional_default) tail (rd_new body) =
      tail s0 \<lparr>rd_data = body, rd_pos = length (ack_bytes ack)\<rparr>"
  proof (cases ack)
    case None
    then show ?thesis by (simp add: s0_def rd_new_def)
  next
    case (Some a)
    have "drop 0 body = le_bytes 4 a @ (pair_bytes stamps @ rest)" by (simp add: body_def Some ack_bytes_def)
    from rd_bind_parses [OF parses_sections(1) this] show ?thesis
      by (simp add: Some s0_def rd_new_def)
  qed
  also have "\<dots> = opt_end body (case stamps of None \<Rightarrow> s0
      | Some t \<Rightarrow> s0\<lparr>opt_time_sync := ts_server_time t, opt_echo_request_time := ts_local_time t\<rparr>)
      \<lparr>rd_data = body, rd_pos = length (ack_bytes ack) + length (pair_bytes stamps)\<rparr>"
    unfolding tail_def by (rule parse_pair_part [where rest = rest]) (simp_all add: body_def)
  finally have "fst (parse_optional_inner body f (rd_new body)) =
      Inr (Some (pair_optional ack stamps, length (ack_bytes ack) + length (pair_bytes stamps)))"
    unfolding inner by (auto simp: opt_end_at pair_optional_def s0_def body_def optional_default_def split: option.splits)
  then show ?thesis by (simp add: parse_optional_def body_def)
qed

end
