(* ===== verification/Assembler.thy ===== *)
theory Assembler
  imports Packet Group Std_Containers Net_Time
begin

text \<open>
  \<open>crates/ac-net/src/assembler.rs\<close>: fragments are collected by message sequence and the
  message is released once every index has arrived. The history of a sequence is described
  by the set of indices received so far (\<open>holds\<close>): whatever the arrival order, with
  duplicates and with other messages in between, the body comes out whole with the last
  missing index, and a completed sequence stays silent for the next 63 completions.
\<close>

section \<open>State\<close>

definition PARTIAL_TTL :: nat where
  "PARTIAL_TTL = from_secs 60"

definition COMPLETED_RING_SIZE :: nat where
  "COMPLETED_RING_SIZE = 64"

record inbound_message =
  im_queue :: u16
  im_body :: bytes

definition im_group :: "inbound_message \<Rightarrow> game_message_group option" where
  "im_group m = group_from_u16 (im_queue m)"

definition im_opcode :: "inbound_message \<Rightarrow> u32 option" where
  "im_opcode m = (if length (im_body m) < 4 then None else Some (from_le (take 4 (im_body m))))"

record partial_message =
  pm_fragments :: "bytes option list"
  pm_queue :: u16
  pm_received :: nat
  pm_last_fragment_at :: net_time

record assembler =
  as_in_flight :: "(u32, partial_message) hmap"
  as_completed :: "u32 list"
  as_completed_next :: nat
  as_completed_count :: nat

definition assembler_new :: assembler where
  "assembler_new =
     \<lparr>as_in_flight = [], as_completed = replicate COMPLETED_RING_SIZE 0,
      as_completed_next = 0, as_completed_count = 0\<rparr>"

definition partial_count :: "assembler \<Rightarrow> nat" where
  "partial_count a = length (hm_keys (as_in_flight a))"

definition was_recently_completed :: "assembler \<Rightarrow> u32 \<Rightarrow> bool" where
  "was_recently_completed a s \<longleftrightarrow> s \<in> set (take (as_completed_count a) (as_completed a))"

definition remember_completed :: "u32 \<Rightarrow> assembler \<Rightarrow> assembler" where
  "remember_completed s a =
     a\<lparr>as_completed := (as_completed a)[as_completed_next a := s],
       as_completed_next := (as_completed_next a + 1) mod COMPLETED_RING_SIZE,
       as_completed_count := (if as_completed_count a < COMPLETED_RING_SIZE
                              then as_completed_count a + 1 else as_completed_count a)\<rparr>"

text \<open>\<open>into_iter().flatten().flatten()\<close> of the slots.\<close>

definition flatten_slots :: "bytes option list \<Rightarrow> bytes" where
  "flatten_slots slots = concat (map (\<lambda>x. case x of None \<Rightarrow> [] | Some b \<Rightarrow> b) slots)"

text \<open>The partial a fragment joins; \<open>None\<close> when it is ignored.\<close>

definition find_partial :: "net_time \<Rightarrow> fragment_header \<Rightarrow> assembler \<Rightarrow> partial_message option" where
  "find_partial t h a =
     (case hm_get (as_in_flight a) (frag_sequence h) of
        Some p \<Rightarrow>
          if length (pm_fragments p) \<noteq> unat (frag_count h) \<or> pm_queue p \<noteq> frag_queue h
          then None else Some p
      | None \<Rightarrow>
          if was_recently_completed a (frag_sequence h) then None
          else Some \<lparr>pm_fragments = replicate (unat (frag_count h)) None, pm_queue = frag_queue h,
                     pm_received = 0, pm_last_fragment_at = t\<rparr>)"

text \<open>Fill an empty slot.\<close>

definition fill_slot :: "net_time \<Rightarrow> nat \<Rightarrow> bytes \<Rightarrow> partial_message \<Rightarrow> partial_message" where
  "fill_slot t i b p =
     (if pm_fragments p ! i = None
      then p\<lparr>pm_fragments := (pm_fragments p)[i := Some b], pm_received := pm_received p + 1,
             pm_last_fragment_at := t\<rparr>
      else p)"

definition ingest :: "net_time \<Rightarrow> fragment \<Rightarrow> assembler \<Rightarrow> inbound_message option \<times> assembler" where
  "ingest t f a =
     (let h = fr_header f
      in if frag_count h = 1 \<and> frag_index h = 0
         then (Some \<lparr>im_queue = frag_queue h, im_body = fr_payload f\<rparr>, a)
         else case find_partial t h a of
                None \<Rightarrow> (None, a)
              | Some p \<Rightarrow>
                  if unat (frag_index h) \<ge> length (pm_fragments p)
                  then (None, a\<lparr>as_in_flight := hm_insert (frag_sequence h) p (as_in_flight a)\<rparr>)
                  else let p' = fill_slot t (unat (frag_index h)) (fr_payload f) p
                       in if pm_received p' < length (pm_fragments p')
                          then (None, a\<lparr>as_in_flight := hm_insert (frag_sequence h) p' (as_in_flight a)\<rparr>)
                          else (Some \<lparr>im_queue = pm_queue p', im_body = flatten_slots (pm_fragments p')\<rparr>,
                                remember_completed (frag_sequence h)
                                  (a\<lparr>as_in_flight := hm_remove (frag_sequence h) (as_in_flight a)\<rparr>)))"

definition sweep_expired :: "net_time \<Rightarrow> assembler \<Rightarrow> nat \<times> assembler" where
  "sweep_expired t a =
     (let before = length (hm_keys (as_in_flight a));
          m = hm_retain (\<lambda>_ p. since t (pm_last_fragment_at p) \<le> PARTIAL_TTL) (as_in_flight a)
      in (before - length (hm_keys m), a\<lparr>as_in_flight := m\<rparr>))"

definition drop_all :: "assembler \<Rightarrow> assembler" where
  "drop_all a = a\<lparr>as_in_flight := [], as_completed_next := 0, as_completed_count := 0\<rparr>"

section \<open>Invariant\<close>

definition filled :: "bytes option list \<Rightarrow> nat" where
  "filled slots = length (filter (\<lambda>x. x \<noteq> None) slots)"

definition partial_ok :: "partial_message \<Rightarrow> bool" where
  "partial_ok p \<longleftrightarrow>
     pm_received p = filled (pm_fragments p) \<and>
     (pm_received p < length (pm_fragments p) \<or> pm_fragments p = [])"

definition assembler_ok :: "assembler \<Rightarrow> bool" where
  "assembler_ok a \<longleftrightarrow>
     hm_ok (as_in_flight a) \<and> (\<forall>s p. hm_get (as_in_flight a) s = Some p \<longrightarrow> partial_ok p) \<and>
     length (as_completed a) = COMPLETED_RING_SIZE \<and> as_completed_next a < COMPLETED_RING_SIZE \<and>
     as_completed_count a \<le> COMPLETED_RING_SIZE \<and>
     (as_completed_count a < COMPLETED_RING_SIZE \<longrightarrow> as_completed_next a = as_completed_count a)"

lemma filled_le: "filled slots \<le> length slots"
  by (simp add: filled_def)

lemma filled_replicate [simp]: "filled (replicate n None) = 0"
  by (simp add: filled_def)

lemma filled_update: "i < length slots \<Longrightarrow> slots ! i = None \<Longrightarrow> filled (slots[i := Some b]) = Suc (filled slots)"
proof (induction slots arbitrary: i)
  case Nil
  then show ?case by simp
next
  case (Cons x slots)
  then show ?case by (cases i) (auto simp: filled_def)
qed

lemma filled_Cons: "filled (x # slots) = (if x = None then filled slots else Suc (filled slots))"
  by (simp add: filled_def)

lemma filled_eq_length: "filled slots = length slots \<longleftrightarrow> None \<notin> set slots"
proof (induction slots)
  case Nil
  show ?case by (simp add: filled_def)
next
  case (Cons x slots)
  have "filled slots < Suc (length slots)" using filled_le [of slots] by simp
  then show ?case using Cons by (auto simp: filled_Cons)
qed

lemma assembler_ok_new [wf_intros]: "assembler_ok assembler_new"
  by (simp add: assembler_ok_def assembler_new_def COMPLETED_RING_SIZE_def)

lemma assembler_ok_remember: "assembler_ok a \<Longrightarrow> assembler_ok (remember_completed s a)"
  by (auto simp: assembler_ok_def remember_completed_def COMPLETED_RING_SIZE_def)

lemma assembler_ok_put:
  assumes "assembler_ok a" "partial_ok p"
  shows "assembler_ok (a\<lparr>as_in_flight := hm_insert s p (as_in_flight a)\<rparr>)"
  using assms by (simp add: assembler_ok_def hm.get_put hm.ok_put)

lemma assembler_ok_del:
  "assembler_ok a \<Longrightarrow> assembler_ok (a\<lparr>as_in_flight := hm_remove s (as_in_flight a)\<rparr>)"
  by (simp add: assembler_ok_def hm.get_del hm.ok_del)

lemma find_partial_ok:
  assumes "assembler_ok a" "find_partial t h a = Some p"
  shows "partial_ok p \<and> length (pm_fragments p) = unat (frag_count h) \<and> pm_queue p = frag_queue h"
proof (cases "hm_get (as_in_flight a) (frag_sequence h)")
  case None
  then show ?thesis using assms(2) by (auto simp: find_partial_def partial_ok_def split: if_splits)
next
  case (Some p')
  then have "partial_ok p'" using assms(1) unfolding assembler_ok_def by blast
  then show ?thesis using assms(2) Some by (simp add: find_partial_def split: if_splits)
qed

lemma fill_slot_facts:
  assumes "partial_ok p" "i < length (pm_fragments p)"
  shows "pm_received (fill_slot t i b p) = filled (pm_fragments (fill_slot t i b p))"
    "length (pm_fragments (fill_slot t i b p)) = length (pm_fragments p)"
    "pm_queue (fill_slot t i b p) = pm_queue p"
  using assms by (auto simp: fill_slot_def partial_ok_def filled_update)

lemma assembler_ok_ingest [wf_intros]:
  assumes "assembler_ok a"
  shows "assembler_ok (snd (ingest t f a))"
proof (cases "frag_count (fr_header f) = 1 \<and> frag_index (fr_header f) = 0")
  case True
  then show ?thesis using assms by (simp add: ingest_def)
next
  case False
  note nf = this
  let ?h = "fr_header f"
  show ?thesis
  proof (cases "find_partial t ?h a")
    case None
    then show ?thesis using assms nf by (auto simp: ingest_def)
  next
    case (Some p)
    note p = find_partial_ok [OF assms Some]
    let ?p = "fill_slot t (unat (frag_index ?h)) (fr_payload f) p"
    show ?thesis
    proof (cases "unat (frag_index ?h) < length (pm_fragments p)")
      case True
      have "pm_received ?p < length (pm_fragments ?p) \<Longrightarrow> partial_ok ?p"
        using fill_slot_facts(1) [OF conjunct1 [OF p] True, of t "fr_payload f"] by (simp add: partial_ok_def)
      then show ?thesis
        using nf Some True assms
        by (auto simp: ingest_def Let_def intro: assembler_ok_put assembler_ok_remember assembler_ok_del)
    next
      case False
      then show ?thesis using nf Some p assms by (auto simp: ingest_def intro: assembler_ok_put)
    qed
  qed
qed

lemma assembler_ok_sweep [wf_intros]: "assembler_ok a \<Longrightarrow> assembler_ok (snd (sweep_expired t a))"
  by (auto simp: assembler_ok_def sweep_expired_def hm_ok_retain hm_get_retain Let_def
      split: option.splits if_splits)

lemma assembler_ok_drop_all [wf_intros]: "assembler_ok a \<Longrightarrow> assembler_ok (drop_all a)"
  by (simp add: assembler_ok_def drop_all_def COMPLETED_RING_SIZE_def)

section \<open>One message among the traffic\<close>

text \<open>The fragments of a split message, as \<open>write_fragment\<close> writes and \<open>parse_fragment\<close> reads them.\<close>

definition piece_fragment :: "u32 \<Rightarrow> u16 \<Rightarrow> bytes list \<Rightarrow> nat \<Rightarrow> fragment" where
  "piece_fragment s q ps i =
     \<lparr>fr_header = \<lparr>frag_sequence = s, frag_id = OUTBOUND_ID, frag_count = word_of_nat (length ps),
        frag_total_size = word_of_nat (16 + length (ps ! i)), frag_index = word_of_nat i, frag_queue = q\<rparr>,
      fr_payload = ps ! i\<rparr>"

text \<open>The indices of \<open>I\<close> have arrived for sequence \<open>s\<close>, and nothing else.\<close>

definition holds :: "assembler \<Rightarrow> u32 \<Rightarrow> u16 \<Rightarrow> bytes list \<Rightarrow> nat set \<Rightarrow> bool" where
  "holds a s q ps I \<longleftrightarrow>
     (case hm_get (as_in_flight a) s of
        None \<Rightarrow> I = {} \<and> \<not> was_recently_completed a s
      | Some p \<Rightarrow> pm_queue p = q \<and> pm_received p = card I \<and>
          pm_fragments p = map (\<lambda>j. if j \<in> I then Some (ps ! j) else None) [0..<length ps])"

lemma piece_fragment_simps [simp]:
  "frag_sequence (fr_header (piece_fragment s q ps i)) = s" "frag_queue (fr_header (piece_fragment s q ps i)) = q"
  "fr_payload (piece_fragment s q ps i) = ps ! i"
  by (simp_all add: piece_fragment_def)

lemma piece_fragment_numbers:
  assumes "i < length ps" "length ps \<le> 65535"
  shows "unat (frag_count (fr_header (piece_fragment s q ps i))) = length ps"
    "unat (frag_index (fr_header (piece_fragment s q ps i))) = i"
  using assms by (auto simp: piece_fragment_def intro!: unat_of_nat_small)

lemma piece_fragment_single:
  assumes "i < length ps" "length ps \<le> 65535"
  shows "(frag_count (fr_header (piece_fragment s q ps i)) = 1 \<and> frag_index (fr_header (piece_fragment s q ps i)) = 0)
    \<longleftrightarrow> length ps = 1"
proof -
  let ?h = "fr_header (piece_fragment s q ps i)"
  have "frag_count ?h = 1 \<longleftrightarrow> unat (frag_count ?h) = 1" by (metis unat_1 word_unat_eq_iff)
  moreover have "frag_index ?h = 0 \<longleftrightarrow> unat (frag_index ?h) = 0" by (simp add: unat_eq_0)
  ultimately show ?thesis using piece_fragment_numbers [OF assms, of s q] assms(1) by auto
qed

lemma flatten_all: "flatten_slots (map (\<lambda>j. if j \<in> I then Some (ps ! j) else None) [0..<length ps]) = concat ps"
  if "I = {..<length ps}"
proof -
  have "map (\<lambda>x. case x of None \<Rightarrow> [] | Some b \<Rightarrow> b) (map (\<lambda>j. if j \<in> I then Some (ps ! j) else None) [0..<length ps])
      = map (\<lambda>j. ps ! j) [0..<length ps]"
    using that by simp
  then show ?thesis by (simp only: flatten_slots_def map_nth)
qed

text \<open>A new piece of the message.\<close>

lemma ingest_piece:
  assumes ok: "assembler_ok a" and held: "holds a s q ps I" and I: "I \<subset> {..<length ps}"
    and i: "i < length ps" and len: "1 < length ps" "length ps \<le> 65535"
  shows "if insert i I = {..<length ps}
    then fst (ingest t (piece_fragment s q ps i) a) = Some \<lparr>im_queue = q, im_body = concat ps\<rparr>
    else fst (ingest t (piece_fragment s q ps i) a) = None \<and>
      holds (snd (ingest t (piece_fragment s q ps i) a)) s q ps (insert i I)"
proof -
  let ?f = "piece_fragment s q ps i" and ?slots = "\<lambda>I. map (\<lambda>j. if j \<in> I then Some (ps ! j) else None) [0..<length ps]"
  note num = piece_fragment_numbers [OF i len(2), of s q]
  have nsingle: "\<not> (frag_count (fr_header ?f) = 1 \<and> frag_index (fr_header ?f) = 0)"
    using piece_fragment_single [OF i len(2), of s q] len(1) by simp
  have fin: "finite I" using I finite_subset by blast
  have hm: "hm_ok (as_in_flight a)" using ok by (simp add: assembler_ok_def)
  obtain p where p: "find_partial t (fr_header ?f) a = Some p" "pm_fragments p = ?slots I"
      "pm_queue p = q" "pm_received p = card I"
  proof (cases "hm_get (as_in_flight a) s")
    case None
    then have "I = {}" "\<not> was_recently_completed a s" using held by (simp_all add: holds_def)
    then show ?thesis
      using that None num(1) by (simp add: find_partial_def map_replicate_const)
  next
    case (Some p)
    then show ?thesis using that [of p] held num(1) by (simp add: find_partial_def holds_def)
  qed
  define p' where "p' = fill_slot t i (ps ! i) p"
  have p': "pm_fragments p' = ?slots (insert i I)" "pm_queue p' = q" "pm_received p' = card (insert i I)"
  proof -
    have "(?slots I)[i := Some (ps ! i)] = ?slots (insert i I)"
      using i by (intro nth_equalityI) (auto simp: nth_list_update)
    moreover have "i \<in> I \<Longrightarrow> insert i I = I" by auto
    ultimately show "pm_fragments p' = ?slots (insert i I)" "pm_queue p' = q" "pm_received p' = card (insert i I)"
      using p i fin by (auto simp: p'_def fill_slot_def)
  qed
  have ing: "ingest t ?f a =
      (if card (insert i I) < length ps
       then (None, a\<lparr>as_in_flight := hm_insert s p' (as_in_flight a)\<rparr>)
       else (Some \<lparr>im_queue = q, im_body = flatten_slots (?slots (insert i I))\<rparr>,
             remember_completed s (a\<lparr>as_in_flight := hm_remove s (as_in_flight a)\<rparr>)))"
    unfolding ingest_def Let_def if_not_P [OF nsingle]
    using p num i p' by (simp add: p'_def [symmetric] not_le)
  have sub: "insert i I \<subseteq> {..<length ps}" using I i by auto
  show ?thesis
  proof (cases "insert i I = {..<length ps}")
    case True
    then show ?thesis using flatten_all [OF True] by (simp add: ing)
  next
    case False
    then have "card (insert i I) < length ps"
      using sub psubset_card_mono [of "{..<length ps}" "insert i I"] by auto
    then show ?thesis using False p' hm by (simp add: ing holds_def hm.get_put)
  qed
qed

text \<open>Another message's fragment, and a piece of a message completed a while ago.\<close>

lemma was_recently_remember:
  assumes "assembler_ok a" "was_recently_completed (remember_completed s' a) s"
  shows "s = s' \<or> was_recently_completed a s"
proof -
  let ?n = "as_completed_next a" and ?c = "as_completed_count a"
  have "set (take m ((as_completed a)[?n := s'])) \<subseteq> insert s' (set (take m (as_completed a)))" for m
    by (simp add: take_update_swap set_update_subset_insert)
  moreover have "set (take (Suc ?c) ((as_completed a)[?n := s'])) \<subseteq> insert s' (set (take ?c (as_completed a)))"
    if "?c < COMPLETED_RING_SIZE"
  proof -
    have "?n = ?c" "?c < length (as_completed a)" using that assms(1) by (simp_all add: assembler_ok_def)
    then show ?thesis by (simp add: take_Suc_conv_app_nth)
  qed
  ultimately show ?thesis
    using assms(2) by (fastforce simp: was_recently_completed_def remember_completed_def split: if_splits)
qed

lemma ingest_other:
  assumes ok: "assembler_ok a" and other: "frag_sequence (fr_header f) \<noteq> s"
  shows "hm_get (as_in_flight (snd (ingest t f a))) s = hm_get (as_in_flight a) s"
    "was_recently_completed (snd (ingest t f a)) s \<Longrightarrow> was_recently_completed a s"
proof -
  let ?h = "fr_header f"
  have hm: "hm_ok (as_in_flight a)" using ok by (simp add: assembler_ok_def)
  have upd: "was_recently_completed (a\<lparr>as_in_flight := m\<rparr>) s \<longleftrightarrow> was_recently_completed a s" for m
    by (simp add: was_recently_completed_def)
  have rem: "hm_get (as_in_flight (remember_completed s' b)) s = hm_get (as_in_flight b) s" for s' b
    by (simp add: remember_completed_def)
  have okr: "assembler_ok (a\<lparr>as_in_flight := hm_remove (frag_sequence ?h) (as_in_flight a)\<rparr>)"
    using ok by (rule assembler_ok_del)
  show "hm_get (as_in_flight (snd (ingest t f a))) s = hm_get (as_in_flight a) s"
    using other hm by (simp add: ingest_def Let_def rem hm.get_put hm.get_del split: option.split)
  show "was_recently_completed a s" if "was_recently_completed (snd (ingest t f a)) s"
    using that other was_recently_remember [OF okr, of "frag_sequence ?h" s]
    by (auto simp: ingest_def Let_def upd split: option.splits if_splits)
qed

fun ingest_all :: "(net_time \<times> fragment) list \<Rightarrow> assembler \<Rightarrow> inbound_message option list \<times> assembler" where
  "ingest_all [] a = ([], a)"
| "ingest_all ((t, f) # evs) a =
     (let (m, a) = ingest t f a; (ms, a) = ingest_all evs a in (m # ms, a))"

text \<open>The indices of the message that a run of fragments brings.\<close>

definition brings :: "u32 \<Rightarrow> bytes list \<Rightarrow> (net_time \<times> fragment) list \<Rightarrow> nat set" where
  "brings s ps evs =
     {i. i < length ps \<and> (\<exists>(t, f) \<in> set evs. frag_sequence (fr_header f) = s \<and> unat (frag_index (fr_header f)) = i)}"

text \<open>Every fragment with the message's sequence is one of its pieces.\<close>

definition genuine :: "u32 \<Rightarrow> u16 \<Rightarrow> bytes list \<Rightarrow> (net_time \<times> fragment) list \<Rightarrow> bool" where
  "genuine s q ps evs \<longleftrightarrow>
     list_all (\<lambda>(t, f). frag_sequence (fr_header f) \<noteq> s \<or>
       (\<exists>i \<in> {..<length ps}. f = piece_fragment s q ps i)) evs"

lemma brings_Cons_other:
  "frag_sequence (fr_header f) \<noteq> s \<Longrightarrow> brings s ps ((t, f) # evs) = brings s ps evs"
  by (auto simp: brings_def)

lemma brings_Cons_piece:
  assumes "i < length ps" "length ps \<le> 65535"
  shows "brings s ps ((t, piece_fragment s q ps i) # evs) = insert i (brings s ps evs)"
  using assms piece_fragment_numbers(2) [OF assms, of s q] by (auto simp: brings_def)

lemma ingest_all_quiet:
  assumes len: "length ps \<le> 65535"
    and "assembler_ok a" "holds a s q ps I" "I \<subseteq> {..<length ps}" "genuine s q ps evs"
    "I \<union> brings s ps evs \<subset> {..<length ps}"
  shows "assembler_ok (snd (ingest_all evs a)) \<and> holds (snd (ingest_all evs a)) s q ps (I \<union> brings s ps evs) \<and>
    length (fst (ingest_all evs a)) = length evs \<and>
    list_all2 (\<lambda>(t, f) m. frag_sequence (fr_header f) = s \<longrightarrow> m = None) evs (fst (ingest_all evs a))"
  using assms(2-)
proof (induction evs arbitrary: a I)
  case Nil
  then show ?case by (simp add: brings_def)
next
  case (Cons e evs)
  obtain t f where e: "e = (t, f)" by force
  obtain m a' where step: "ingest t f a = (m, a')" by force
  have ok': "assembler_ok a'" using assembler_ok_ingest [OF Cons.prems(1), of t f] step by simp
  have gen: "genuine s q ps evs" using Cons.prems(4) by (simp add: genuine_def)
  show ?case
  proof (cases "frag_sequence (fr_header f) = s")
    case False
    then have held: "holds a' s q ps I"
      using ingest_other [OF Cons.prems(1) False, of t] step Cons.prems(2)
      by (auto simp: holds_def split: option.splits)
    show ?thesis
      using Cons.IH [OF ok' held Cons.prems(3) gen] Cons.prems(5) False step e
      by (simp add: brings_Cons_other case_prod_beta Let_def)
  next
    case True
    then obtain i where i: "i < length ps" "f = piece_fragment s q ps i"
      using Cons.prems(4) e by (auto simp: genuine_def)
    have br: "brings s ps (e # evs) = insert i (brings s ps evs)"
      using brings_Cons_piece [OF i(1) len] e i(2) by simp
    have ne: "insert i I \<subset> {..<length ps}" using Cons.prems(5) br by auto
    have len1: "1 < length ps"
    proof (rule ccontr)
      assume "\<not> 1 < length ps"
      then have "{..<length ps} \<subseteq> {i}" using i(1) by auto
      then show False using ne by auto
    qed
    have I: "I \<subset> {..<length ps}" using ne by auto
    note piece = ingest_piece [OF Cons.prems(1,2) I i(1) len1 len, of t]
    have "insert i I \<noteq> {..<length ps}" using ne by blast
    then have m: "m = None" and held: "holds a' s q ps (insert i I)"
      using piece step i(2) by simp_all
    have "insert i I \<union> brings s ps evs \<subset> {..<length ps}" using Cons.prems(5) br by auto
    from Cons.IH [OF ok' held psubset_imp_subset [OF ne] gen this] show ?thesis
      using br m step e by (simp add: case_prod_beta Let_def)
  qed
qed

section \<open>Late duplicates of a completed message\<close>

text \<open>Sequence \<open>s\<close> stays in the completed ring for at least \<open>k\<close> more completions.\<close>

definition done_for :: "assembler \<Rightarrow> u32 \<Rightarrow> nat \<Rightarrow> bool" where
  "done_for a s k \<longleftrightarrow>
     hm_get (as_in_flight a) s = None \<and>
     (\<exists>j < as_completed_count a. as_completed a ! j = s \<and> k \<le> (j + 64 - as_completed_next a) mod 64)"

lemma done_for_recent: "assembler_ok a \<Longrightarrow> done_for a s k \<Longrightarrow> was_recently_completed a s"
  by (force simp: done_for_def was_recently_completed_def assembler_ok_def in_set_conv_nth)

lemma done_for_remember:
  assumes ok: "assembler_ok a" and d: "done_for a s (Suc k)"
  shows "done_for (remember_completed s' a) s k"
proof -
  obtain j where j: "j < as_completed_count a" "as_completed a ! j = s" "Suc k \<le> (j + 64 - as_completed_next a) mod 64"
    using d by (auto simp: done_for_def)
  let ?n = "as_completed_next a"
  have lim: "?n < 64" "j < 64" "length (as_completed a) = 64"
    using ok j(1) by (auto simp: assembler_ok_def COMPLETED_RING_SIZE_def)
  have "j \<noteq> ?n" using j(3) by auto
  moreover have "k \<le> (j + 64 - (?n + 1) mod 64) mod 64"
  proof (cases "?n < j")
    case True
    then have "(j + 64 - ?n) mod 64 = j - ?n" "(j + 64 - (?n + 1) mod 64) mod 64 = j - (?n + 1)"
      using lim by (simp_all add: mod_if)
    then show ?thesis using j(3) by simp
  next
    case False
    then have "j < ?n" using \<open>j \<noteq> ?n\<close> by simp
    then have 1: "(j + 64 - ?n) mod 64 = j + 64 - ?n" using lim by simp
    show ?thesis
    proof (cases "?n = 63")
      case True
      then show ?thesis using j(3) 1 lim by simp
    next
      case n63: False
      then have "(?n + 1) mod 64 = ?n + 1" using lim by simp
      then show ?thesis using j(3) 1 lim \<open>j < ?n\<close> by simp
    qed
  qed
  moreover have "hm_get (as_in_flight (remember_completed s' a)) s = None"
    using d by (simp add: done_for_def remember_completed_def)
  ultimately show ?thesis
    using j lim unfolding done_for_def
    by (auto intro!: exI [of _ j] simp: remember_completed_def COMPLETED_RING_SIZE_def)
qed

lemma done_for_start:
  assumes "assembler_ok a" "hm_get (as_in_flight a) s = None"
  shows "done_for (remember_completed s a) s 63"
proof -
  let ?n = "as_completed_next a"
  have n: "?n < 64" "length (as_completed a) = 64" using assms(1) by (simp_all add: assembler_ok_def COMPLETED_RING_SIZE_def)
  have "?n < as_completed_count (remember_completed s a)"
    using assms(1) by (auto simp: assembler_ok_def remember_completed_def COMPLETED_RING_SIZE_def)
  moreover have "63 \<le> (?n + 64 - (?n + 1) mod 64) mod 64"
    using n(1) by (cases "?n = 63") simp_all
  ultimately show ?thesis
    using n assms(2) unfolding done_for_def
    by (intro conjI exI [of _ ?n]) (simp_all add: remember_completed_def COMPLETED_RING_SIZE_def)
qed

lemma done_for_mono: "done_for a s k \<Longrightarrow> j \<le> k \<Longrightarrow> done_for a s j"
  by (auto simp: done_for_def)

text \<open>A fragment that completes a message of several fragments.\<close>

definition completes :: "fragment \<Rightarrow> inbound_message option \<Rightarrow> bool" where
  "completes f m \<longleftrightarrow> m \<noteq> None \<and> frag_count (fr_header f) \<noteq> 1"

lemma ingest_done_same:
  assumes "assembler_ok a" "done_for a s k" "frag_sequence (fr_header f) = s" "frag_count (fr_header f) \<noteq> 1"
  shows "ingest t f a = (None, a)"
  using assms done_for_recent [OF assms(1,2)] by (simp add: ingest_def find_partial_def done_for_def Let_def)

lemma done_for_put:
  assumes "assembler_ok a" "done_for a s k" "s' \<noteq> s"
  shows "done_for (a\<lparr>as_in_flight := hm_insert s' p (as_in_flight a)\<rparr>) s k"
  using assms by (simp add: done_for_def assembler_ok_def hm.get_put)

lemma ingest_done_other:
  assumes ok: "assembler_ok a" and d: "done_for a s (Suc k)" and other: "frag_sequence (fr_header f) \<noteq> s"
  shows "done_for (snd (ingest t f a)) s k"
proof -
  let ?h = "fr_header f"
  define b where "b = a\<lparr>as_in_flight := hm_remove (frag_sequence ?h) (as_in_flight a)\<rparr>"
  have okb: "assembler_ok b" unfolding b_def by (rule assembler_ok_del [OF ok])
  have db: "done_for b s (Suc k)"
    using d other ok by (simp add: done_for_def b_def assembler_ok_def hm.get_del)
  have dk: "done_for a s k" using done_for_mono [OF d] by simp
  show ?thesis
    using dk done_for_put [OF ok dk other] done_for_remember [OF okb db, of "frag_sequence ?h"]
    by (simp add: ingest_def Let_def b_def split: option.split)
qed

lemma ingest_done_quiet:
  assumes ok: "assembler_ok a" and d: "done_for a s k" and other: "frag_sequence (fr_header f) \<noteq> s"
    and quiet: "\<not> completes f (fst (ingest t f a))"
  shows "done_for (snd (ingest t f a)) s k"
proof (cases "frag_count (fr_header f) = 1 \<and> frag_index (fr_header f) = 0")
  case True
  then show ?thesis using d by (simp add: ingest_def)
next
  case False
  note put = done_for_put [OF ok d other]
  show ?thesis
  proof (cases "frag_count (fr_header f) = 1")
    case True
    then have nz: "unat (frag_index (fr_header f)) \<noteq> 0" using False by (simp add: unat_eq_0)
    have "length (pm_fragments p) \<le> unat (frag_index (fr_header f))" if "find_partial t (fr_header f) a = Some p" for p
      using find_partial_ok [OF ok that] True nz by simp
    then show ?thesis
      unfolding ingest_def Let_def if_not_P [OF False] using d put by (simp split: option.split)
  next
    case several: False
    then have "fst (ingest t f a) = None" using quiet by (auto simp: completes_def)
    then show ?thesis
      using d put several by (auto simp: ingest_def Let_def split: option.splits if_splits)
  qed
qed

text \<open>No fragment of sequence \<open>s\<close> releases a message in a run.\<close>

definition silent :: "u32 \<Rightarrow> (net_time \<times> fragment) list \<Rightarrow> inbound_message option list \<Rightarrow> bool" where
  "silent s evs ms \<longleftrightarrow> list_all2 (\<lambda>(t, f) m. frag_sequence (fr_header f) = s \<longrightarrow> m = None) evs ms"

definition completions :: "(net_time \<times> fragment) list \<Rightarrow> inbound_message option list \<Rightarrow> nat" where
  "completions evs ms = length (filter (\<lambda>((t, f), m). completes f m) (zip evs ms))"

lemma ingest_all_done:
  assumes "length ps \<le> 65535" "1 < length ps"
    and "assembler_ok a" "done_for a s k" "genuine s q ps evs" "completions evs (fst (ingest_all evs a)) \<le> k"
  shows "silent s evs (fst (ingest_all evs a))"
  using assms(3-)
proof (induction evs arbitrary: a k)
  case Nil
  then show ?case by (simp add: silent_def)
next
  case (Cons e evs)
  obtain t f where e: "e = (t, f)" by force
  obtain m a' where step: "ingest t f a = (m, a')" by force
  have ok': "assembler_ok a'" using assembler_ok_ingest [OF Cons.prems(1), of t f] step by simp
  have gen: "genuine s q ps evs" using Cons.prems(3) by (simp add: genuine_def)
  have outs: "fst (ingest_all (e # evs) a) = m # fst (ingest_all evs a')"
    using step e by (simp add: case_prod_beta Let_def)
  have cs: "completions (e # evs) (fst (ingest_all (e # evs) a)) =
      (if completes f m then 1 else 0) + completions evs (fst (ingest_all evs a'))"
    using outs e by (simp add: completions_def)
  show ?case
  proof (cases "frag_sequence (fr_header f) = s")
    case True
    then obtain i where i: "i < length ps" "f = piece_fragment s q ps i"
      using Cons.prems(3) e by (auto simp: genuine_def)
    have "frag_count (fr_header f) \<noteq> 1"
      using piece_fragment_numbers(1) [OF i(1) assms(1), of s q] assms(2) i(2) by auto
    then have "m = None" "a' = a" using ingest_done_same [OF Cons.prems(1,2) True] step by simp_all
    then show ?thesis
      using Cons.IH [OF ok' _ gen, of k] Cons.prems(2,4) cs outs e
      by (simp add: silent_def completes_def)
  next
    case False
    show ?thesis
    proof (cases "completes f m")
      case True
      then obtain j where j: "k = Suc j" "completions evs (fst (ingest_all evs a')) \<le> j"
        using Cons.prems(4) cs by (cases k) auto
      have "done_for a' s j"
        using ingest_done_other [OF Cons.prems(1) Cons.prems(2) [unfolded j(1)] False, of t] step by simp
      then show ?thesis
        using Cons.IH [OF ok' _ gen j(2)] outs e False by (simp add: silent_def)
    next
      case quiet: False
      have "done_for a' s k"
        using ingest_done_quiet [OF Cons.prems(1,2) False, of t] step quiet by simp
      then show ?thesis
        using Cons.IH [OF ok' _ gen, of k] Cons.prems(4) cs outs e False quiet by (simp add: silent_def)
    qed
  qed
qed

section \<open>Properties\<close>

text \<open>
  C14. A split message is reassembled exactly once. Take the fragments of a message of several
  pieces in any order, with any repetition, and any fragments of other messages in between:
  nothing is released for its sequence until the last missing piece arrives, that piece
  releases the whole body on its queue, and later repetitions are dropped for as long as no
  more than 63 other multi-fragment messages have completed since.
\<close>

theorem message_reassembled_once:
  assumes "assembler_ok a" "hm_get (as_in_flight a) s = None" "\<not> was_recently_completed a s"
    and "split_message body = Some ps" "1 < length ps"
    and "genuine s q ps before" "genuine s q ps later"
    and "i < length ps" "brings s ps before \<union> {i} = {..<length ps}" "brings s ps before \<noteq> {..<length ps}"
    and "ingest_all before a = (ms, a1)" "ingest t (piece_fragment s q ps i) a1 = (m, a2)"
    and "ingest_all later a2 = (ms', a3)" "completions later ms' \<le> 63"
  shows "silent s before ms \<and> m = Some \<lparr>im_queue = q, im_body = body\<rparr> \<and> silent s later ms'"
proof -
  have ps: "concat ps = body" "length ps \<le> 65535" using split_message_pieces [OF assms(4)] by simp_all
  have sub: "brings s ps before \<subset> {..<length ps}" using assms(10) by (auto simp: brings_def)
  have quiet: "assembler_ok a1" "holds a1 s q ps (brings s ps before)" "silent s before ms"
    using ingest_all_quiet [OF ps(2) assms(1) _ _ assms(6), of "{}"] sub assms(2,3,11)
    by (simp_all add: holds_def silent_def)
  have ins: "insert i (brings s ps before) = {..<length ps}" using assms(9) by simp
  have m: "m = Some \<lparr>im_queue = q, im_body = body\<rparr>"
    using ingest_piece [OF quiet(1,2) sub assms(8,5) ps(2), of t] ins assms(12) ps(1) by simp
  have ok2: "assembler_ok a2" using assembler_ok_ingest [OF quiet(1), of t "piece_fragment s q ps i"] assms(12) by simp
  have count: "frag_count (fr_header (piece_fragment s q ps i)) \<noteq> 1"
    using piece_fragment_numbers(1) [OF assms(8) ps(2), of s q] assms(5) by auto
  define b where "b = a1\<lparr>as_in_flight := hm_remove s (as_in_flight a1)\<rparr>"
  have "a2 = remember_completed s b"
    using assms(12) m count by (auto simp: ingest_def Let_def b_def split: option.splits if_splits)
  moreover have "hm_get (as_in_flight b) s = None"
    using quiet(1) by (simp add: b_def assembler_ok_def hm.get_del)
  moreover have "assembler_ok b" unfolding b_def by (rule assembler_ok_del [OF quiet(1)])
  ultimately have "done_for a2 s 63" by (simp add: done_for_start)
  then have "silent s later ms'"
    using ingest_all_done [OF ps(2) assms(5) ok2 _ assms(7)] assms(13,14) by simp
  then show ?thesis using quiet(3) m by simp
qed

lemma message_reassembled_once_witness:
  "let ps = [replicate 448 7, replicate 52 7];
       (ms, a1) = ingest_all [(0, piece_fragment 9 3 ps 1), (1, piece_fragment 9 3 ps 1)] assembler_new;
       (m, a2) = ingest 2 (piece_fragment 9 3 ps 0) a1
   in ms = [None, None] \<and> m = Some \<lparr>im_queue = 3, im_body = replicate 500 7\<rparr>"
proof -
  define ps :: "bytes list" where "ps = [replicate 448 7, replicate 52 7]"
  define evs where "evs = [(0 :: nat, piece_fragment 9 3 ps 1), (1, piece_fragment 9 3 ps 1)]"
  obtain ms a1 where r1: "ingest_all evs assembler_new = (ms, a1)" by force
  obtain m a2 where r2: "ingest 2 (piece_fragment 9 3 ps 0) a1 = (m, a2)" by force
  have split: "split_message (replicate 500 7) = Some ps"
    by (simp add: split_message_def frag_consts chunks_step ps_def Let_def)
  have ix: "unat (frag_index (fr_header (piece_fragment 9 3 ps 1))) = 1"
    by (rule piece_fragment_numbers(2)) (simp_all add: ps_def)
  have all: "{..<length ps} = {0, 1}" by (auto simp: ps_def)
  have gen: "genuine 9 3 ps evs" "genuine 9 3 ps []"
    by (auto simp: genuine_def evs_def ps_def)
  have br: "brings 9 ps evs = {1}" using ix by (auto simp: brings_def evs_def ps_def)
  have fresh: "hm_get (as_in_flight assembler_new) 9 = None" "\<not> was_recently_completed assembler_new 9"
    by (simp_all add: assembler_new_def was_recently_completed_def)
  have "silent 9 evs ms \<and> m = Some \<lparr>im_queue = 3, im_body = replicate 500 7\<rparr> \<and> silent 9 [] []"
    by (rule message_reassembled_once [OF assembler_ok_new fresh split _ gen _ _ _ r1 r2])
      (simp_all add: br all completions_def, simp_all add: ps_def)
  moreover have "silent 9 evs ms \<Longrightarrow> ms = [None, None]"
    by (auto simp: silent_def evs_def list_all2_Cons1)
  ultimately show ?thesis using r1 r2 by (simp add: evs_def ps_def)
qed

text \<open>
  Age-out: a sweep keeps exactly the partial messages whose last new fragment is at most
  60 s old, reports how many it dropped, and every operation keeps the invariant that a
  partial counts its filled slots and is never complete.
\<close>

theorem sweep_keeps_fresh_partials:
  assumes "assembler_ok a"
  shows "assembler_ok (snd (sweep_expired t a)) \<and> assembler_ok (snd (ingest t f a)) \<and> assembler_ok (drop_all a) \<and>
    hm_get (as_in_flight (snd (sweep_expired t a))) s =
       (case hm_get (as_in_flight a) s of
          None \<Rightarrow> None
        | Some p \<Rightarrow> if t - pm_last_fragment_at p \<le> PARTIAL_TTL then Some p else None) \<and>
    partial_count a = fst (sweep_expired t a) + partial_count (snd (sweep_expired t a))"
proof -
  have "hm_get (as_in_flight (snd (sweep_expired t a))) s =
       (case hm_get (as_in_flight a) s of
          None \<Rightarrow> None
        | Some p \<Rightarrow> if t - pm_last_fragment_at p \<le> PARTIAL_TTL then Some p else None)"
    using assms by (simp add: sweep_expired_def assembler_ok_def hm_get_retain since_def Let_def)
  moreover have "length (hm_keys (hm_retain P m)) \<le> length (hm_keys m)" for P and m :: "(u32, partial_message) hmap"
    by (simp add: hm_keys_def hm_retain_def)
  then have "partial_count a = fst (sweep_expired t a) + partial_count (snd (sweep_expired t a))"
    by (simp add: sweep_expired_def partial_count_def Let_def)
  ultimately show ?thesis
    using assms assembler_ok_sweep assembler_ok_ingest assembler_ok_drop_all by blast
qed

lemma sweep_keeps_fresh_partials_witness:
  "hm_get (as_in_flight (snd (sweep_expired (PARTIAL_TTL + 6)
     (snd (ingest 5 (piece_fragment 9 3 [[1], [2]] 1) assembler_new))))) 9 = None"
proof -
  let ?f = "piece_fragment 9 3 [[1], [2]] 1 :: fragment"
  let ?a = "snd (ingest 5 ?f assembler_new)"
  have ok: "assembler_ok ?a" by (rule assembler_ok_ingest [OF assembler_ok_new])
  have "hm_get (as_in_flight ?a) 9 =
      Some \<lparr>pm_fragments = [None, Some [2]], pm_queue = 3, pm_received = 1, pm_last_fragment_at = 5\<rparr>"
    by code_simp
  then show ?thesis
    using sweep_keeps_fresh_partials [OF ok, of "PARTIAL_TTL + 6" ?f 9] by simp
qed

end
