(* ===== verification/Outbound.thy ===== *)
theory Outbound
  imports Sent_Store Link_Stats Sections Assembler
begin

text \<open>
  \<open>crates/ac-net/src/transport/outbound.rs\<close>: outbound reliable delivery. The ghost
  numbering is that of \<open>Sequence\<close>: the \<open>n\<close>-th numbered packet has sequence \<open>seq_at 1 n\<close> and
  owns keystream word \<open>n\<close> (from 1). The invariant ties the queue to that numbering; every
  datagram it emits, first or resent, parses to its sections and verifies with its own word.
\<close>

section \<open>State\<close>

definition MAX_PACKET_DATA :: nat where "MAX_PACKET_DATA = 464"
definition TIME_PAIR_LEN :: nat where "TIME_PAIR_LEN = 12"
definition ACK_LEN :: nat where "ACK_LEN = 4"

datatype send_error = MessageTooLarge nat | Closed | NotConfirmed | EncodeFailed encode_error

record fragment_place =
  fp_message_sequence :: u32
  fp_queue :: u16
  fp_count :: u16
  fp_index :: u16

record outbound =
  ob_keystream :: isaac
  ob_client_id :: u16
  ob_iteration :: u16
  ob_store :: sent_store
  ob_pending_resends :: "u32 list"
  ob_highest_id_sent :: u32
  ob_fragment_sequence :: u32
  ob_ack_watermark :: u32
  ob_time_pair_held :: bool

text \<open>The queue with the counters and the outgoing datagrams its operations also change.\<close>

type_synonym flow = "outbound \<times> transport_stats \<times> bytes list"

definition emit :: "transport_stats \<Rightarrow> bytes list \<Rightarrow> bytes \<Rightarrow> transport_stats \<times> bytes list" where
  "emit st out datagram = (st\<lparr>packets_sent := packets_sent st + 1\<rparr>, out @ [datagram])"

definition outbound_new :: "isaac \<Rightarrow> u16 \<Rightarrow> u16 \<Rightarrow> outbound" where
  "outbound_new keystream client_id iteration =
     \<lparr>ob_keystream = keystream, ob_client_id = client_id, ob_iteration = iteration,
      ob_store = store_default, ob_pending_resends = [], ob_highest_id_sent = 1,
      ob_fragment_sequence = 1, ob_ack_watermark = 0, ob_time_pair_held = False\<rparr>"

definition cache_depth :: "outbound \<Rightarrow> nat" where
  "cache_depth ob = store_len (ob_store ob)"

definition pending_resend_count :: "outbound \<Rightarrow> nat" where
  "pending_resend_count ob = length (ob_pending_resends ob)"

definition next_sequence :: "outbound \<Rightarrow> u32" where
  "next_sequence ob = (if ob_highest_id_sent ob = 0xFFFFFFFF then 1 else ob_highest_id_sent ob + 1)"

section \<open>Transmitting one packet\<close>

text \<open>
  The datagram \<open>transmit\<close> builds before it seals: flags, buffer, length of the optional
  sections and of the body. \<open>None\<close> when the fragment does not fit.
\<close>

definition transmit_layout ::
  "u32 option \<Rightarrow> time_stamps option \<Rightarrow> (bytes \<times> fragment_place) option \<Rightarrow>
   (packet_flags \<times> bytes \<times> nat \<times> nat) option" where
  "transmit_layout ack stamps fragment' =
     (let datagram = replicate HEADER_SIZE 0;
          flags = ENCRYPTED_CHECKSUM;
          optional_len = 0;
          (flags, datagram, optional_len) =
            (case ack of
               None \<Rightarrow> (flags, datagram, optional_len)
             | Some a \<Rightarrow> (flags OR ACK_SEQUENCE, datagram @ le_bytes 4 a, optional_len + ACK_LEN));
          (flags, datagram, optional_len) =
            (case stamps of
               None \<Rightarrow> (flags, datagram, optional_len)
             | Some s \<Rightarrow> (flags OR (TIME_SYNC OR ECHO_REQUEST), datagram @ stamps_to_bytes s,
                          optional_len + TIME_PAIR_LEN))
      in case fragment' of
           None \<Rightarrow> Some (flags, datagram, optional_len, optional_len)
         | Some (piece, place) \<Rightarrow>
             (case write_fragment datagram (fp_message_sequence place) (fp_queue place)
                     (fp_count place) (fp_index place) piece of
                None \<Rightarrow> None
              | Some (datagram, n) \<Rightarrow>
                  Some (flags OR BLOB_FRAGMENTS, datagram, optional_len, optional_len + n)))"

definition transmit ::
  "u32 option \<Rightarrow> time_stamps option \<Rightarrow> (bytes \<times> fragment_place) option \<Rightarrow> u16 \<Rightarrow> flow \<Rightarrow>
   (send_error + unit) \<times> flow" where
  "transmit ack stamps fragment' interval_id = (\<lambda>(ob, st, out).
     case transmit_layout ack stamps fragment' of
       None \<Rightarrow> (Inl (MessageTooLarge (case fragment' of None \<Rightarrow> 0 | Some (piece, _) \<Rightarrow> length piece)), ob, st, out)
     | Some (flags, datagram, optional_len, body_len) \<Rightarrow>
         let header = header_default\<lparr>hdr_sequence := next_sequence ob, hdr_flags := flags,
                        hdr_id := ob_client_id ob, hdr_time := interval_id,
                        hdr_iteration := ob_iteration ob\<rparr>
         in case seal_in_place header datagram body_len optional_len (Some (ob_keystream ob)) of
              (Inl e, _, ks) \<Rightarrow> (Inl (EncodeFailed e), ob\<lparr>ob_keystream := the ks\<rparr>, st, out)
            | (Inr s, datagram, ks) \<Rightarrow>
                let ob = ob\<lparr>ob_keystream := the ks, ob_highest_id_sent := hdr_sequence header\<rparr>;
                    st = (if stamps \<noteq> None then st\<lparr>time_pairs_sent := time_pairs_sent st + 1\<rparr> else st);
                    (st, out) = emit st out datagram;
                    ob = ob\<lparr>ob_store := store_add
                           \<lparr>ca_sequence = hdr_sequence header, ca_datagram = datagram,
                            ca_key = sealed_key s, ca_sealed_payload = sealed_payload s,
                            ca_has_fragments = fragment' \<noteq> None, ca_has_ack = ack \<noteq> None,
                            ca_has_time_pair = stamps \<noteq> None\<rparr> (ob_store ob)\<rparr>
                in (Inr (), ob, st, out))"

section \<open>Time pairs, messages and acknowledgements\<close>

text \<open>\<open>None\<close> is the panic of \<open>expect\<close>.\<close>

definition queue_time_pair :: "u16 \<Rightarrow> time_stamps \<Rightarrow> flow \<Rightarrow> flow option" where
  "queue_time_pair interval_id stamps s =
     (case (if ob_time_pair_held (fst s) then transmit None (Some stamps) None interval_id s else (Inr (), s)) of
        (Inl _, _) \<Rightarrow> None
      | (Inr _, ob, st, out) \<Rightarrow> Some (ob\<lparr>ob_time_pair_held := True\<rparr>, st, out))"

text \<open>The loop over the remaining pieces; \<open>?\<close> ends it with the error.\<close>

fun send_pieces ::
  "(u16 \<Rightarrow> fragment_place) \<Rightarrow> bool \<Rightarrow> u16 \<Rightarrow> u16 \<Rightarrow> (nat \<times> bytes) list \<Rightarrow> flow \<Rightarrow> (send_error + unit) \<times> flow" where
  "send_pieces place tail_rode last_index interval_id [] s = (Inr (), s)"
| "send_pieces place tail_rode last_index interval_id ((index, piece) # rest) s =
     (if tail_rode \<and> word_of_nat index = last_index then (Inr (), s)
      else case transmit None None (Some (piece, place (word_of_nat index))) interval_id s of
             (Inl e, s) \<Rightarrow> (Inl e, s)
           | (Inr _, s) \<Rightarrow> send_pieces place tail_rode last_index interval_id rest s)"

definition outbound_send_game_message ::
  "bytes \<Rightarrow> u16 \<Rightarrow> u16 \<Rightarrow> time_stamps \<Rightarrow> flow \<Rightarrow> (send_error + unit) \<times> flow" where
  "outbound_send_game_message body queue interval_id stamps = (\<lambda>(ob, st, out).
     case split_message body of
       None \<Rightarrow> (Inl (MessageTooLarge (length body)), ob, st, out)
     | Some pieces \<Rightarrow>
         let count = word_of_nat (length pieces);
             message_sequence = ob_fragment_sequence ob;
             ob = ob\<lparr>ob_fragment_sequence := ob_fragment_sequence ob + 1\<rparr>;
             place = (\<lambda>index. \<lparr>fp_message_sequence = message_sequence, fp_queue = queue,
                               fp_count = count, fp_index = index\<rparr>);
             last_index = count - 1;
             tail = pieces ! unat last_index;
             tail_rode = (ob_time_pair_held ob \<and> TIME_PAIR_LEN + FRAG_SIZE + length tail \<le> MAX_PACKET_DATA)
         in case (if ob_time_pair_held ob
                  then transmit None (Some stamps) (if tail_rode then Some (tail, place last_index) else None)
                         interval_id (ob\<lparr>ob_time_pair_held := False\<rparr>, st, out)
                  else (Inr (), ob, st, out)) of
              (Inl e, s) \<Rightarrow> (Inl e, s)
            | (Inr _, s) \<Rightarrow>
                send_pieces place tail_rode last_index interval_id (zip [0..<length pieces] pieces) s)"

definition release_time_pair_with_ack ::
  "u32 \<Rightarrow> bool \<Rightarrow> u16 \<Rightarrow> time_stamps \<Rightarrow> flow \<Rightarrow> flow option" where
  "release_time_pair_with_ack ack hold_pair interval_id stamps = (\<lambda>(ob, st, out).
     if \<not> (ob_time_pair_held ob \<or> hold_pair) then Some (ob, st, out)
     else case transmit (Some ack) (Some stamps) None interval_id (ob\<lparr>ob_time_pair_held := False\<rparr>, st, out) of
            (Inl _, _) \<Rightarrow> None
          | (Inr _, s) \<Rightarrow> Some s)"

definition on_ack_sequence :: "u32 \<Rightarrow> outbound \<times> transport_stats \<Rightarrow> outbound \<times> transport_stats" where
  "on_ack_sequence ack = (\<lambda>(ob, st).
     (ob\<lparr>ob_ack_watermark := newest (ob_ack_watermark ob) ack\<rparr>, st\<lparr>acks_consumed := acks_consumed st + 1\<rparr>))"

text \<open>
  \<open>iter().position(|&pending| !is_newer(id, pending)).unwrap_or(len)\<close>, the test for a
  duplicate at that index, and the insertion.
\<close>

definition merge_insert_pending :: "u32 \<Rightarrow> u32 list \<Rightarrow> u32 list" where
  "merge_insert_pending sid pending =
     (let index = (case position (\<lambda>p. \<not> is_newer sid p) pending of None \<Rightarrow> length pending | Some i \<Rightarrow> i)
      in if index < length pending \<and> pending ! index = sid then pending
         else take index pending @ sid # drop index pending)"

definition request_one :: "nat \<times> u32 \<Rightarrow> outbound \<times> transport_stats \<Rightarrow> outbound \<times> transport_stats" where
  "request_one = (\<lambda>(i, sid) s.
     let (ob, st) = (if i = 0 then on_ack_sequence sid s else s)
     in if store_contains sid (ob_store ob)
        then (ob\<lparr>ob_pending_resends := merge_insert_pending sid (ob_pending_resends ob)\<rparr>, st)
        else (ob, st\<lparr>uncached_nak_ids := uncached_nak_ids st + 1\<rparr>))"

definition on_retransmit_request ::
  "sequence_list \<Rightarrow> outbound \<times> transport_stats \<Rightarrow> outbound \<times> transport_stats" where
  "on_retransmit_request ids = (\<lambda>(ob, st).
     if sl_is_empty ids then (ob, st)
     else fold request_one (zip [0..<length (sl_iter ids)] (sl_iter ids))
            (ob, st\<lparr>nak_requests_received := nak_requests_received st + 1\<rparr>))"

section \<open>Resending\<close>

definition resend_header :: "cached_packet \<Rightarrow> u16 \<Rightarrow> packet_header option" where
  "resend_header cached interval_id =
     (case header_from_bytes (ca_datagram cached) of
        None \<Rightarrow> None
      | Some header \<Rightarrow>
          let flags = RETRANSMISSION OR ENCRYPTED_CHECKSUM;
              flags = (if ca_has_fragments cached then flags OR BLOB_FRAGMENTS else flags);
              flags = (if ca_has_ack cached then flags OR ACK_SEQUENCE else flags);
              flags = (if ca_has_time_pair cached then flags OR (TIME_SYNC OR ECHO_REQUEST) else flags);
              header = header\<lparr>hdr_flags := flags, hdr_time := interval_id\<rparr>
          in Some (header\<lparr>hdr_checksum := header_hash header + ca_sealed_payload cached\<rparr>))"

definition rebuild_for_resend :: "cached_packet \<Rightarrow> u16 \<Rightarrow> time_stamps \<Rightarrow> bool \<times> cached_packet" where
  "rebuild_for_resend cached interval_id stamps =
     (case resend_header cached interval_id of
        None \<Rightarrow> (False, cached)
      | Some header \<Rightarrow>
          if \<not> ca_has_time_pair cached
          then (True, cached\<lparr>ca_datagram := overwrite (ca_datagram cached) 0 (header_to_bytes header)\<rparr>)
          else let ack_len = (if ca_has_ack cached then ACK_LEN else 0);
                   pair_at = HEADER_SIZE + ack_len
               in if length (ca_datagram cached) < pair_at + TIME_PAIR_LEN then (False, cached)
                  else let datagram = overwrite (ca_datagram cached) pair_at (stamps_to_bytes stamps);
                           body_len = unat (hdr_data_size header)
                       in case reseal_in_place header datagram body_len (ack_len + TIME_PAIR_LEN) (ca_key cached) of
                            (Inr s, d) \<Rightarrow> (True, cached\<lparr>ca_datagram := d, ca_sealed_payload := sealed_payload s\<rparr>)
                          | (Inl _, d) \<Rightarrow> (False, cached\<lparr>ca_datagram := d\<rparr>))"

definition resend_one :: "u16 \<Rightarrow> time_stamps \<Rightarrow> u32 \<Rightarrow> flow \<Rightarrow> flow" where
  "resend_one interval_id stamps sid = (\<lambda>(ob, st, out).
     if ob_ack_watermark ob \<noteq> 0 \<and> is_newer (ob_ack_watermark ob) sid then (ob, st, out)
     else case store_get sid (ob_store ob) of
            None \<Rightarrow> (ob, st, out)
          | Some cached \<Rightarrow>
              let (ok, cached) = rebuild_for_resend cached interval_id stamps;
                  ob = ob\<lparr>ob_store := store_put sid cached (ob_store ob)\<rparr>
              in if ok
                 then let (st, out) = emit (st\<lparr>resends_sent := resends_sent st + 1\<rparr>) out (ca_datagram cached)
                      in (ob, st, out)
                 else (ob, st, out))"

definition transmit_pending_resends :: "u16 \<Rightarrow> time_stamps \<Rightarrow> flow \<Rightarrow> flow" where
  "transmit_pending_resends interval_id stamps = (\<lambda>(ob, st, out).
     let (ob, st, out) = fold (resend_one interval_id stamps) (ob_pending_resends ob) (ob, st, out)
     in (ob\<lparr>ob_pending_resends := [], ob_store := flush_older_than (ob_ack_watermark ob) (ob_store ob)\<rparr>, st, out))"

section \<open>What a numbered packet looks like on the wire\<close>

declare ks.after.simps(2) [simp del]

definition frag_of :: "bytes \<Rightarrow> fragment_place \<Rightarrow> fragment" where
  "frag_of piece place =
     \<lparr>fr_header = \<lparr>frag_sequence = fp_message_sequence place, frag_id = OUTBOUND_ID,
        frag_count = fp_count place, frag_total_size = word_of_nat (16 + length piece),
        frag_index = fp_index place, frag_queue = fp_queue place\<rparr>, fr_payload = piece\<rparr>"

definition fits :: "(bytes \<times> fragment_place) option \<Rightarrow> bool" where
  "fits fo = (case fo of None \<Rightarrow> True | Some (piece, place) \<Rightarrow> length piece \<le> 448 \<and> fp_index place < fp_count place)"

definition frag_bytes :: "(bytes \<times> fragment_place) option \<Rightarrow> bytes" where
  "frag_bytes fo = (case fo of None \<Rightarrow> [] | Some (piece, place) \<Rightarrow> frag_render (frag_of piece place))"

definition frag_list :: "(bytes \<times> fragment_place) option \<Rightarrow> fragment list" where
  "frag_list fo = (case fo of None \<Rightarrow> [] | Some (piece, place) \<Rightarrow> [frag_of piece place])"

definition section_bytes :: "u32 option \<Rightarrow> time_stamps option \<Rightarrow> bytes" where
  "section_bytes ack stamps = ack_bytes ack @ pair_bytes stamps"

definition numbered_body :: "u32 option \<Rightarrow> time_stamps option \<Rightarrow> (bytes \<times> fragment_place) option \<Rightarrow> bytes" where
  "numbered_body ack stamps fo = section_bytes ack stamps @ frag_bytes fo"

definition numbered_share :: "u32 option \<Rightarrow> time_stamps option \<Rightarrow> (bytes \<times> fragment_place) option \<Rightarrow> u32" where
  "numbered_share ack stamps fo =
     hash32 (section_bytes ack stamps) + (if fo = None then 0 else fragments_hash (frag_bytes fo))"

text \<open>The flags word announces the parts the packet has.\<close>

definition announces ::
  "packet_flags \<Rightarrow> u32 option \<Rightarrow> time_stamps option \<Rightarrow> (bytes \<times> fragment_place) option \<Rightarrow> bool" where
  "announces f ack stamps fo \<longleftrightarrow>
     carries f (ack \<noteq> None) (stamps \<noteq> None) \<and> has f ENCRYPTED_CHECKSUM \<and> has f BLOB_FRAGMENTS = (fo \<noteq> None)"

text \<open>What a receiver reads from a datagram, checking it with \<open>key\<close>.\<close>

definition opens_as ::
  "bytes \<Rightarrow> u32 \<Rightarrow> u32 \<Rightarrow> u32 option \<Rightarrow> time_stamps option \<Rightarrow> (bytes \<times> fragment_place) option \<Rightarrow> bool" where
  "opens_as d seq key ack stamps fo \<longleftrightarrow>
     (case parse_packet d of
        Inl _ \<Rightarrow> False
      | Inr p \<Rightarrow>
          pkt_verify p (Some key) \<and> hdr_sequence (pkt_header p) = seq \<and>
          has (hdr_flags (pkt_header p)) ENCRYPTED_CHECKSUM \<and>
          pkt_body p = numbered_body ack stamps fo \<and>
          pkt_optional p = pair_optional ack stamps \<and> pkt_fragments p = frag_list fo)"

lemma frag_of_wf: "fits (Some (piece, place)) \<Longrightarrow> frag_wf (frag_of piece place)"
proof -
  assume f: "fits (Some (piece, place))"
  then have "unat (word_of_nat (16 + length piece) :: u16) = 16 + length piece"
    by (intro unat_of_nat_small) (simp add: fits_def)
  moreover have "fp_count place \<noteq> 0" using f by (auto simp: fits_def)
  ultimately show ?thesis using f by (simp add: frag_wf_def frag_of_def fits_def frag_consts)
qed

lemma frag_None [simp]: "frag_bytes None = []" "frag_list None = []"
  by (simp_all add: frag_bytes_def frag_list_def)

lemma frag_bytes_area: "frag_bytes fo = frag.area (frag_list fo)"
  by (auto simp: frag_bytes_def frag_list_def split: option.split)

lemma frag_list_wf: "fits fo \<Longrightarrow> list_all frag_wf (frag_list fo)"
  using frag_of_wf by (auto simp: frag_list_def split: option.split)

lemma frag_bytes_facts:
  assumes "fits fo"
  shows "fragments_ok (frag_bytes fo)" "frag_iter (frag_bytes fo) = frag_list fo" "length (frag_bytes fo) \<le> 464"
proof -
  show "fragments_ok (frag_bytes fo)" "frag_iter (frag_bytes fo) = frag_list fo"
    using frag_list_wf [OF assms] by (simp_all add: frag_bytes_area fragments_ok_area frag_iter_area)
  show "length (frag_bytes fo) \<le> 464"
    using assms by (auto simp: frag_bytes_def fits_def frag_of_def split: option.splits)
qed

lemma length_numbered_body: "fits fo \<Longrightarrow> length (numbered_body ack stamps fo) \<le> 480"
  using frag_bytes_facts(3) [of fo] by (auto simp: numbered_body_def section_bytes_def)

lemma numbered_share_eq:
  assumes "has f BLOB_FRAGMENTS = (fo \<noteq> None)"
  shows "payload_share f (numbered_body ack stamps fo) (length (section_bytes ack stamps)) = numbered_share ack stamps fo"
  using assms by (simp add: payload_share_def numbered_share_def numbered_body_def)

lemma numbered_layout:
  assumes "has f BLOB_FRAGMENTS = (fo \<noteq> None)" "fits fo"
  shows "layout_ok f (numbered_body ack stamps fo) (length (section_bytes ack stamps))"
  using assms frag_bytes_facts(1) [OF assms(2)]
  by (cases fo) (auto simp: layout_ok_def numbered_body_def)

text \<open>Any header over such a body whose checksum uses \<open>key\<close> opens under \<open>key\<close>.\<close>

lemma numbered_opens:
  assumes f: "announces (hdr_flags h) ack stamps fo" and fo: "fits fo"
    and size: "unat (hdr_data_size h) = length (numbered_body ack stamps fo)"
    and sum: "hdr_checksum h = header_hash h + (key XOR numbered_share ack stamps fo)"
  shows "opens_as (header_to_bytes h @ numbered_body ack stamps fo) (hdr_sequence h) key ack stamps fo"
proof -
  let ?body = "numbered_body ack stamps fo" and ?n = "length (section_bytes ack stamps)"
  have opt: "parse_optional ?body (hdr_flags h) = Some (pair_optional ack stamps, ?n)"
    using parse_sections [of "hdr_flags h" ack stamps "frag_bytes fo"] f
    by (simp add: announces_def numbered_body_def section_bytes_def)
  have blob: "has (hdr_flags h) BLOB_FRAGMENTS = (fo \<noteq> None)" using f by (simp add: announces_def)
  have d: "drop ?n ?body = frag_bytes fo" by (simp add: numbered_body_def)
  define p where "p = the_packet h (pair_optional ack stamps) ?body ?n"
  have parse: "parse_packet (header_to_bytes h @ ?body) = Inr p"
    using parse_packet_build [OF _ opt, of "[]"] size d frag_bytes_facts(1) [OF fo] by (simp add: p_def)
  have raw: "opt_raw (pair_optional ack stamps) = take ?n ?body"
    by (simp add: pair_optional_def numbered_body_def section_bytes_def)
  have "pkt_payload_hash p = numbered_share ack stamps fo"
    using the_packet_share [OF raw, of h] numbered_share_eq [OF blob] by (simp add: p_def)
  then have "pkt_verify p (Some key)"
    using sum by (simp add: pkt_verify_def verify_checksum_def p_def)
  moreover have "pkt_fragments p = frag_list fo"
    using frag_bytes_facts(2) [OF fo] blob d
    by (cases fo) (simp_all add: p_def the_packet_def pkt_fragments_def Let_def)
  ultimately show ?thesis using parse f by (simp add: opens_as_def announces_def) (simp add: p_def)
qed

section \<open>Transmitting always succeeds\<close>

definition numbered_flags :: "u32 option \<Rightarrow> time_stamps option \<Rightarrow> (bytes \<times> fragment_place) option \<Rightarrow> packet_flags" where
  "numbered_flags ack stamps fo =
     (let f = ENCRYPTED_CHECKSUM;
          f = (if ack = None then f else f OR ACK_SEQUENCE);
          f = (if stamps = None then f else f OR (TIME_SYNC OR ECHO_REQUEST))
      in if fo = None then f else f OR BLOB_FRAGMENTS)"

lemma announces_numbered: "announces (numbered_flags ack stamps fo) ack stamps fo"
  unfolding announces_def carries_def numbered_flags_def
  by (cases ack; cases stamps; cases fo) (simp_all add: has_def flag_defs)

lemma transmit_layout_fits:
  assumes "fits fo"
  shows "transmit_layout ack stamps fo =
    Some (numbered_flags ack stamps fo, replicate 20 0 @ numbered_body ack stamps fo,
      length (section_bytes ack stamps), length (numbered_body ack stamps fo))"
proof (cases fo)
  case None
  then show ?thesis
    by (cases ack; cases stamps)
      (simp_all add: transmit_layout_def numbered_flags_def numbered_body_def section_bytes_def ack_bytes_def
        pair_bytes_def ACK_LEN_def TIME_PAIR_LEN_def HEADER_SIZE_def)
next
  case (Some e)
  obtain piece place where e: "e = (piece, place)" by force
  have w: "write_fragment out (fp_message_sequence place) (fp_queue place) (fp_count place) (fp_index place) piece =
      Some (out @ frag_render (frag_of piece place), length (frag_render (frag_of piece place)))" for out
  proof -
    have "\<not> (448 < length piece \<or> fp_count place \<le> fp_index place)" using assms Some e by (auto simp: fits_def)
    then obtain out' n where r: "write_fragment out (fp_message_sequence place) (fp_queue place) (fp_count place)
        (fp_index place) piece = Some (out', n)"
      using write_fragment_None by (metis not_None_eq surj_pair)
    then show ?thesis using write_fragment_Some(1,2) [OF r] by (simp add: frag_of_def)
  qed
  show ?thesis
    by (cases ack; cases stamps)
      (simp_all add: Some e w transmit_layout_def numbered_flags_def numbered_body_def section_bytes_def ack_bytes_def
        pair_bytes_def frag_bytes_def ACK_LEN_def TIME_PAIR_LEN_def HEADER_SIZE_def)
qed

text \<open>A packet kept for resending: what it was sealed from.\<close>

definition cached_form ::
  "cached_packet \<Rightarrow> u32 \<Rightarrow> u32 \<Rightarrow> u32 option \<Rightarrow> time_stamps option \<Rightarrow> (bytes \<times> fragment_place) option \<Rightarrow> bool" where
  "cached_form c seq key ack stamps fo \<longleftrightarrow>
     ca_sequence c = seq \<and> ca_key c = key \<and> ca_has_fragments c = (fo \<noteq> None) \<and>
     ca_has_ack c = (ack \<noteq> None) \<and> ca_has_time_pair c = (stamps \<noteq> None) \<and> fits fo \<and>
     ca_sealed_payload c = key XOR numbered_share ack stamps fo \<and>
     (\<exists>h. ca_datagram c = header_to_bytes h @ numbered_body ack stamps fo \<and> hdr_sequence h = seq \<and>
        unat (hdr_data_size h) = length (numbered_body ack stamps fo))"

lemma body_size: "fits fo \<Longrightarrow> unat (word_of_nat (length (numbered_body ack stamps fo)) :: u16) = length (numbered_body ack stamps fo)"
  using length_numbered_body [of fo ack stamps] by (intro unat_of_nat_small) simp

lemma numbered_seal_ok:
  assumes "announces (hdr_flags h) ack stamps fo" "fits fo" "length pre = 20"
  shows "seal_ok h (pre @ numbered_body ack stamps fo) (length (numbered_body ack stamps fo)) (length (section_bytes ack stamps))"
  using assms length_numbered_body [OF assms(2), of ack stamps] numbered_layout [of "hdr_flags h" fo ack stamps]
  by (simp add: seal_ok_def announces_def subslice_def numbered_body_def)

lemma numbered_seal_result:
  fixes key :: u32
  assumes "announces (hdr_flags h) ack stamps fo" "fits fo" "length pre = 20"
  defines "body \<equiv> numbered_body ack stamps fo"
  defines "share \<equiv> key XOR numbered_share ack stamps fo"
  shows "seal_result h (pre @ body) (length body) (length (section_bytes ack stamps)) (Some key) =
    (\<lparr>sealed_len = 20 + length body, sealed_key = key, sealed_payload = share\<rparr>,
     header_to_bytes (sealed_header h (length body) share) @ body)"
proof -
  have "payload_share (hdr_flags h) body (length (section_bytes ack stamps)) = numbered_share ack stamps fo"
    unfolding body_def using assms(1) by (intro numbered_share_eq) (simp add: announces_def)
  then show ?thesis
    using assms(3) by (simp add: seal_result_def subslice_def seal_share_def share_def Let_def)
qed

lemma sealed_numbered_opens:
  assumes "announces (hdr_flags h) ack stamps fo" "fits fo"
  defines "body \<equiv> numbered_body ack stamps fo"
  shows "opens_as (header_to_bytes (sealed_header h (length body) (key XOR numbered_share ack stamps fo)) @ body)
    (hdr_sequence h) key ack stamps fo"
proof -
  let ?h = "sealed_header h (length body) (key XOR numbered_share ack stamps fo)"
  have "hdr_checksum ?h = header_hash ?h + (key XOR numbered_share ack stamps fo)"
    by (simp add: sealed_header_def)
  from numbered_opens [OF _ assms(2) _ this] assms(1) show ?thesis
    using body_size [OF assms(2), of ack stamps] by (simp add: body_def)
qed

lemma transmit_fits:
  assumes "fits fo"
  shows "\<exists>c st'. transmit ack stamps fo iv (ob, st, out) =
      (Inr (), ob\<lparr>ob_keystream := snd (next_word (ob_keystream ob)), ob_highest_id_sent := next_sequence ob,
         ob_store := store_add c (ob_store ob)\<rparr>, st', out @ [ca_datagram c]) \<and>
    packets_sent st' = packets_sent st + 1 \<and>
    cached_form c (next_sequence ob) (fst (next_word (ob_keystream ob))) ack stamps fo \<and>
    opens_as (ca_datagram c) (next_sequence ob) (fst (next_word (ob_keystream ob))) ack stamps fo"
proof -
  let ?ks = "ob_keystream ob" and ?body = "numbered_body ack stamps fo" and ?seq = "next_sequence ob"
  let ?key = "fst (next_word ?ks)" and ?share = "fst (next_word ?ks) XOR numbered_share ack stamps fo"
  define h where "h = header_default\<lparr>hdr_sequence := ?seq, hdr_flags := numbered_flags ack stamps fo,
    hdr_id := ob_client_id ob, hdr_time := iv, hdr_iteration := ob_iteration ob\<rparr>"
  have ann: "announces (hdr_flags h) ack stamps fo" by (simp add: h_def announces_numbered)
  have enc: "has (hdr_flags h) ENCRYPTED_CHECKSUM" using ann by (simp add: announces_def)
  define d where "d = header_to_bytes (sealed_header h (length ?body) ?share) @ ?body"
  have seal: "seal_in_place h (replicate 20 0 @ ?body) (length ?body) (length (section_bytes ack stamps)) (Some ?ks) =
      (Inr \<lparr>sealed_len = 20 + length ?body, sealed_key = ?key, sealed_payload = ?share\<rparr>, d, Some (snd (next_word ?ks)))"
    using seal_in_place_ok [OF numbered_seal_ok [OF ann assms, of "replicate 20 0"], of "Some ?ks"]
      numbered_seal_result [OF ann assms, of "replicate 20 0" ?key] enc
    by (simp add: seal_key_def seal_rest_def d_def)
  define c where "c = \<lparr>ca_sequence = ?seq, ca_datagram = d, ca_key = ?key, ca_sealed_payload = ?share,
    ca_has_fragments = fo \<noteq> None, ca_has_ack = ack \<noteq> None, ca_has_time_pair = stamps \<noteq> None\<rparr>"
  have hs: "hdr_sequence h = ?seq" by (simp add: h_def)
  have "cached_form c ?seq ?key ack stamps fo"
    using assms body_size [OF assms, of ack stamps] hs
    by (auto simp: cached_form_def c_def d_def intro!: exI [of _ "sealed_header h (length ?body) ?share"])
  moreover have "opens_as d ?seq ?key ack stamps fo"
    using sealed_numbered_opens [OF ann assms, of ?key] hs by (simp add: d_def)
  moreover have "\<exists>st'. transmit ack stamps fo iv (ob, st, out) =
      (Inr (), ob\<lparr>ob_keystream := snd (next_word ?ks), ob_highest_id_sent := ?seq,
         ob_store := store_add c (ob_store ob)\<rparr>, st', out @ [d]) \<and> packets_sent st' = packets_sent st + 1"
    unfolding transmit_def
    by (simp add: transmit_layout_fits [OF assms] h_def [symmetric] seal emit_def c_def hs Let_def)
  moreover have cd: "ca_datagram c = d" by (simp add: c_def)
  ultimately show ?thesis by (intro exI [of _ c]) (auto simp: cd)
qed

section \<open>The invariant\<close>

text \<open>
  After \<open>n\<close> numbered packets: the keystream stands at word \<open>n\<close>, the last sequence is
  position \<open>n\<close>, and every cached packet is one of them, kept with its own word.
\<close>

definition cached_at :: "isaac \<Rightarrow> nat \<Rightarrow> cached_packet \<Rightarrow> bool" where
  "cached_at K j c \<longleftrightarrow> (\<exists>ack stamps fo. cached_form c (seq_at 1 j) (ks.word (j - 1) K) ack stamps fo)"

definition outbound_ok :: "isaac \<Rightarrow> nat \<Rightarrow> outbound \<Rightarrow> bool" where
  "outbound_ok K n ob \<longleftrightarrow>
     n < SESSION \<and> ob_keystream ob = ks.after n K \<and> ob_highest_id_sent ob = seq_at 1 n \<and>
     store_ok (ob_store ob) \<and>
     (\<exists>js. sorted_wrt (<) js \<and> set js \<subseteq> {1..n} \<and> ss_order (ob_store ob) = map (seq_at 1) js) \<and>
     (\<forall>j \<in> {1..n}. \<forall>c. store_get (seq_at 1 j) (ob_store ob) = Some c \<longrightarrow> cached_at K j c) \<and>
     (\<exists>ps. sorted_wrt (<) ps \<and> set ps \<subseteq> {1..n} \<and> ob_pending_resends ob = map (seq_at 1) ps)"

lemma next_sequence_at: "ob_highest_id_sent ob = seq_at 1 n \<Longrightarrow> next_sequence ob = seq_at 1 (Suc n)"
proof -
  have "s + 1 = 0 \<longleftrightarrow> s = 0xFFFFFFFF" for s :: u32
    using unat_seq_next [of s] by (auto simp: eq_neg_iff_add_eq_0 [symmetric])
  then show "ob_highest_id_sent ob = seq_at 1 n \<Longrightarrow> next_sequence ob = seq_at 1 (Suc n)"
    by (simp add: next_sequence_def seq_at_Suc seq_next_def)
qed

lemma seq_session_inj: "p < SESSION \<Longrightarrow> q < SESSION \<Longrightarrow> seq_at 1 p = seq_at 1 q \<longleftrightarrow> p = q"
  using seq_at_inj [of 1 p q] by (simp add: SESSION_def)

lemma outbound_ok_new: "outbound_ok K 0 (outbound_new K cid it)"
  by (simp add: outbound_ok_def outbound_new_def SESSION_def)

lemma outbound_ok_cong:
  "outbound_ok K n ob \<Longrightarrow> outbound_ok K n (ob\<lparr>ob_fragment_sequence := x, ob_time_pair_held := h\<rparr>)"
  "outbound_ok K n ob \<Longrightarrow> outbound_ok K n (ob\<lparr>ob_time_pair_held := h\<rparr>)"
  "outbound_ok K n ob \<Longrightarrow> outbound_ok K n (ob\<lparr>ob_fragment_sequence := x\<rparr>)"
  "outbound_ok K n ob \<Longrightarrow> outbound_ok K n (ob\<lparr>ob_ack_watermark := w\<rparr>)"
  by (simp_all add: outbound_ok_def)

lemma outbound_ok_transmitted:
  assumes ok: "outbound_ok K n ob" and lim: "Suc n < SESSION"
    and c: "cached_form c (seq_at 1 (Suc n)) (ks.word n K) ack stamps fo"
  shows "outbound_ok K (Suc n) (ob\<lparr>ob_keystream := ks.after (Suc n) K, ob_highest_id_sent := seq_at 1 (Suc n),
    ob_store := store_add c (ob_store ob)\<rparr>)"
proof -
  obtain js ps where js: "sorted_wrt (<) js" "set js \<subseteq> {1..n}" "ss_order (ob_store ob) = map (seq_at 1) js"
    and ps: "sorted_wrt (<) ps" "set ps \<subseteq> {1..n}" "ob_pending_resends ob = map (seq_at 1) ps"
    using ok by (auto simp: outbound_ok_def)
  have store: "store_ok (ob_store ob)" using ok by (simp add: outbound_ok_def)
  have seq: "ca_sequence c = seq_at 1 (Suc n)" using c by (simp add: cached_form_def)
  have fresh: "seq_at 1 (Suc n) \<notin> set (ss_order (ob_store ob))"
  proof
    assume "seq_at 1 (Suc n) \<in> set (ss_order (ob_store ob))"
    then obtain j where "j \<in> {1..n}" "seq_at 1 (Suc n) = seq_at 1 j" using js(2,3) by auto
    then show False using seq_session_inj [of "Suc n" j] lim by simp
  qed
  then have nc: "\<not> store_contains (ca_sequence c) (ob_store ob)"
    using store seq by (metis domIff store_contains_def store_ok_def)
  have hm: "hm_ok (ss_by_sequence (ob_store ob))" using store by (simp add: store_ok_def)
  have "cached_at K j c'" if j: "j \<in> {1..Suc n}" and g: "store_get (seq_at 1 j) (store_add c (ob_store ob)) = Some c'" for j c'
  proof (cases "j = Suc n")
    case True
    then show ?thesis using g c seq hm by (auto simp: store_get_def store_add_def hm.get_put cached_at_def)
  next
    case False
    then have "j \<in> {1..n}" using j by auto
    moreover have "store_get (seq_at 1 j) (ob_store ob) = Some c'"
      using g seq hm seq_session_inj [of j "Suc n"] False j lim by (simp add: store_get_def store_add_def hm.get_put)
    ultimately show ?thesis using ok by (simp add: outbound_ok_def)
  qed
  moreover have "\<exists>js. sorted_wrt (<) js \<and> set js \<subseteq> {1..Suc n} \<and> ss_order (store_add c (ob_store ob)) = map (seq_at 1) js"
    using js seq by (intro exI [of _ "js @ [Suc n]"]) (force simp: sorted_wrt_append store_add_def)
  moreover have "\<exists>ps. sorted_wrt (<) ps \<and> set ps \<subseteq> {1..Suc n} \<and> ob_pending_resends ob = map (seq_at 1) ps"
    using ps by (intro exI [of _ ps]) auto
  ultimately show ?thesis
    using store_ok_add [OF store nc] lim by (simp add: outbound_ok_def)
qed

text \<open>Datagrams that open as the numbered packets after position \<open>n\<close>.\<close>

type_synonym contents = "u32 option \<times> time_stamps option \<times> (bytes \<times> fragment_place) option"

fun open_from :: "isaac \<Rightarrow> nat \<Rightarrow> bytes list \<Rightarrow> contents list \<Rightarrow> bool" where
  "open_from K n [] [] = True"
| "open_from K n (d # ds) ((ack, stamps, fo) # cs) =
     (opens_as d (seq_at 1 (Suc n)) (ks.word n K) ack stamps fo \<and> open_from K (Suc n) ds cs)"
| "open_from K n _ _ = False"

lemma open_from_append:
  "open_from K n ds cs \<Longrightarrow> open_from K (n + length cs) es bs \<Longrightarrow> open_from K n (ds @ es) (cs @ bs)"
  by (induction K n ds cs rule: open_from.induct) simp_all

lemma open_from_length: "open_from K n ds cs \<Longrightarrow> length ds = length cs"
  by (induction K n ds cs rule: open_from.induct) simp_all

text \<open>An operation that succeeds, emits these packets and keeps the invariant.\<close>

definition sends :: "isaac \<Rightarrow> nat \<Rightarrow> flow \<Rightarrow> contents list \<Rightarrow> flow \<Rightarrow> bool" where
  "sends K n = (\<lambda>(ob, st, out) cs (ob', st', out').
     outbound_ok K (n + length cs) ob' \<and> packets_sent st' = packets_sent st + length cs \<and>
     ob_client_id ob' = ob_client_id ob \<and> ob_iteration ob' = ob_iteration ob \<and>
     (\<exists>ds. out' = out @ ds \<and> open_from K n ds cs))"

lemma sends_trans:
  assumes "sends K n s cs s'" "sends K (n + length cs) s' bs s''"
  shows "sends K n s (cs @ bs) s''"
proof -
  obtain ob st out ob' st' out' ob'' st'' out'' where s: "s = (ob, st, out)" "s' = (ob', st', out')" "s'' = (ob'', st'', out'')"
    by (metis prod_cases3)
  obtain ds es where "out' = out @ ds" "open_from K n ds cs" "out'' = out' @ es" "open_from K (n + length cs) es bs"
    using assms by (auto simp: s sends_def)
  then show ?thesis
    using assms open_from_append [of K n ds cs es bs] by (auto simp: s sends_def add.assoc)
qed

lemma sends_transmit:
  assumes ok: "outbound_ok K n ob" and lim: "Suc n < SESSION" and fo: "fits fo"
  shows "\<exists>s'. transmit ack stamps fo iv (ob, st, out) = (Inr (), s') \<and> sends K n (ob, st, out) [(ack, stamps, fo)] s' \<and>
    ob_time_pair_held (fst s') = ob_time_pair_held ob \<and> ob_fragment_sequence (fst s') = ob_fragment_sequence ob \<and>
    ob_pending_resends (fst s') = ob_pending_resends ob \<and> ob_ack_watermark (fst s') = ob_ack_watermark ob"
proof -
  have at: "ob_keystream ob = ks.after n K" "next_sequence ob = seq_at 1 (Suc n)"
    using ok next_sequence_at [of ob n] by (simp_all add: outbound_ok_def)
  have draw: "next_word (ob_keystream ob) = (ks.word n K, ks.after (Suc n) K)"
    using at(1) ks.draw_after [of n K] by simp
  from transmit_fits [OF fo, of ack stamps iv ob st out] obtain c st' where t:
    "transmit ack stamps fo iv (ob, st, out) =
      (Inr (), ob\<lparr>ob_keystream := ks.after (Suc n) K, ob_highest_id_sent := seq_at 1 (Suc n),
         ob_store := store_add c (ob_store ob)\<rparr>, st', out @ [ca_datagram c])"
    "packets_sent st' = packets_sent st + 1" "cached_form c (seq_at 1 (Suc n)) (ks.word n K) ack stamps fo"
    "opens_as (ca_datagram c) (seq_at 1 (Suc n)) (ks.word n K) ack stamps fo"
    unfolding at(2) draw fst_conv snd_conv by blast
  show ?thesis
    using t outbound_ok_transmitted [OF ok lim t(3)] by (simp add: sends_def)
qed

section \<open>Messages and time pairs\<close>

definition message_place :: "u32 \<Rightarrow> u16 \<Rightarrow> bytes list \<Rightarrow> nat \<Rightarrow> bytes \<times> fragment_place" where
  "message_place s q ps i =
     (ps ! i, \<lparr>fp_message_sequence = s, fp_queue = q, fp_count = word_of_nat (length ps), fp_index = word_of_nat i\<rparr>)"

lemma message_place_fits:
  assumes "split_message body = Some ps" "i < length ps"
  shows "fits (Some (message_place s q ps i))"
proof -
  note pieces = split_message_pieces [OF assms(1)]
  have "length (ps ! i) \<le> 448" using pieces(4) assms(2) by simp
  moreover have "(word_of_nat i :: u16) < word_of_nat (length ps)"
    using assms(2) pieces(3) by (simp add: word_less_nat_alt unat_of_nat_small)
  ultimately show ?thesis by (simp add: fits_def message_place_def)
qed

lemma message_place_fragment: "frag_of (fst (message_place s q ps i)) (snd (message_place s q ps i)) = piece_fragment s q ps i"
  by (simp add: message_place_def frag_of_def piece_fragment_def)

text \<open>The packets of a message: the rest of the pieces, and the held pair with the last one.\<close>

definition plain_packets :: "u32 \<Rightarrow> u16 \<Rightarrow> bytes list \<Rightarrow> nat list \<Rightarrow> contents list" where
  "plain_packets s q ps is = map (\<lambda>i. (None, None, Some (message_place s q ps i))) is"

lemma send_pieces_ok:
  fixes tail_rode :: bool
  assumes "split_message body = Some ps" "k \<le> length ps"
    and "outbound_ok K n ob" "n + (length ps - k) < SESSION"
    and place: "\<And>i. place (word_of_nat i) = snd (message_place s q ps i)"
    and last_index: "last_index = word_of_nat (length ps - 1)"
  defines "m \<equiv> (if tail_rode then length ps - 1 else length ps)"
  shows "\<exists>s'. send_pieces place tail_rode last_index iv (zip [k..<length ps] (drop k ps)) (ob, st, out) = (Inr (), s') \<and>
    sends K n (ob, st, out) (plain_packets s q ps [k..<m]) s' \<and>
    ob_time_pair_held (fst s') = ob_time_pair_held ob \<and> ob_fragment_sequence (fst s') = ob_fragment_sequence ob"
  using assms(2-4)
proof (induction "length ps - k" arbitrary: k n ob st out)
  case 0
  then have "k = length ps" by simp
  then show ?case using 0 by (simp add: m_def plain_packets_def sends_def)
next
  case (Suc d)
  then have k: "k < length ps" "d = length ps - Suc k" by simp_all
  note len = split_message_pieces(3) [OF assms(1)]
  have zip: "zip [k..<length ps] (drop k ps) = (k, ps ! k) # zip [Suc k..<length ps] (drop (Suc k) ps)"
    using k(1) by (simp add: upt_conv_Cons Cons_nth_drop_Suc [symmetric] del: upt_Suc)
  have idx: "(word_of_nat k :: u16) = last_index \<longleftrightarrow> k = length ps - 1"
  proof -
    have "unat (word_of_nat k :: u16) = k" using k(1) len by (intro unat_of_nat_small) simp
    moreover have "unat last_index = length ps - 1"
      unfolding last_index using len by (intro unat_of_nat_small) simp
    ultimately show ?thesis by (simp add: word_unat_eq_iff)
  qed
  show ?case
  proof (cases "tail_rode \<and> k = length ps - 1")
    case True
    then have "send_pieces place tail_rode last_index iv (zip [k..<length ps] (drop k ps)) (ob, st, out) = (Inr (), (ob, st, out))"
      using zip idx by simp
    moreover have "plain_packets s q ps [k..<m] = []" using True by (simp add: m_def plain_packets_def)
    ultimately show ?thesis using Suc.prems by (simp add: sends_def)
  next
    case False
    have km: "k < m" using False k(1) by (auto simp: m_def)
    have lim: "Suc n < SESSION" "Suc n + (length ps - Suc k) < SESSION" using Suc.prems(3) k(1) by auto
    from sends_transmit [OF Suc.prems(2) lim(1) message_place_fits [OF assms(1) k(1), of s q],
        where ack = None and stamps = None and iv = iv and st = st and out = out]
    obtain ob1 st1 out1 where t: "transmit None None (Some (message_place s q ps k)) iv (ob, st, out) = (Inr (), ob1, st1, out1)"
      "sends K n (ob, st, out) [(None, None, Some (message_place s q ps k))] (ob1, st1, out1)"
      "ob_time_pair_held ob1 = ob_time_pair_held ob" "ob_fragment_sequence ob1 = ob_fragment_sequence ob"
      by (metis fst_conv prod_cases3)
    have ok1: "outbound_ok K (Suc n) ob1" using t(2) by (simp add: sends_def)
    from Suc.hyps(1) [OF k(2) Suc_leI [OF k(1)] ok1 lim(2), of st1 out1]
    obtain s' where r: "send_pieces place tail_rode last_index iv (zip [Suc k..<length ps] (drop (Suc k) ps)) (ob1, st1, out1) = (Inr (), s')"
      "sends K (Suc n) (ob1, st1, out1) (plain_packets s q ps [Suc k..<m]) s'"
      "ob_time_pair_held (fst s') = ob_time_pair_held ob1" "ob_fragment_sequence (fst s') = ob_fragment_sequence ob1"
      by blast
    have nf: "\<not> (tail_rode \<and> word_of_nat k = last_index)" using False idx by simp
    have pl: "(ps ! k, place (word_of_nat k)) = message_place s q ps k" by (simp add: place) (simp add: message_place_def)
    have "send_pieces place tail_rode last_index iv (zip [k..<length ps] (drop k ps)) (ob, st, out) = (Inr (), s')"
      by (simp only: zip send_pieces.simps if_not_P [OF nf] pl t(1) r(1) prod.case sum.case)
    moreover have "plain_packets s q ps [k..<m] = [(None, None, Some (message_place s q ps k))] @ plain_packets s q ps [Suc k..<m]"
      using km by (simp add: plain_packets_def upt_conv_Cons)
    then have "sends K n (ob, st, out) (plain_packets s q ps [k..<m]) s'"
      using sends_trans [OF t(2), of "plain_packets s q ps [Suc k..<m]" s'] r(2) by simp
    ultimately show ?thesis using t(3,4) r(3,4) by simp
  qed
qed

text \<open>The packets \<open>send_game_message\<close> sends: with a pair held, the pair goes first and takes the last piece when it fits.\<close>

definition message_packets :: "bool \<Rightarrow> time_stamps \<Rightarrow> u32 \<Rightarrow> u16 \<Rightarrow> bytes list \<Rightarrow> contents list" where
  "message_packets held stamps s q ps =
     (let n = length ps; rides = held \<and> 12 + 16 + length (ps ! (n - 1)) \<le> 464
      in (if held then [(None, Some stamps, if rides then Some (message_place s q ps (n - 1)) else None)] else []) @
         plain_packets s q ps [0..<(if rides then n - 1 else n)])"

lemma send_game_message_ok:
  assumes ok: "outbound_ok K n ob" and ps: "split_message body = Some ps" and lim: "n + length ps + 1 < SESSION"
  shows "\<exists>s'. outbound_send_game_message body q iv stamps (ob, st, out) = (Inr (), s') \<and>
    sends K n (ob, st, out) (message_packets (ob_time_pair_held ob) stamps (ob_fragment_sequence ob) q ps) s' \<and>
    \<not> ob_time_pair_held (fst s') \<and> ob_fragment_sequence (fst s') = ob_fragment_sequence ob + 1"
proof -
  note pieces = split_message_pieces(2,3) [OF ps]
  define ms where "ms = ob_fragment_sequence ob"
  define last_index :: u16 where "last_index = word_of_nat (length ps) - 1"
  define place where "place = (\<lambda>index. \<lparr>fp_message_sequence = ms, fp_queue = q, fp_count = word_of_nat (length ps), fp_index = index\<rparr>)"
  define rides where "rides = (ob_time_pair_held ob \<and> 12 + 16 + length (ps ! (length ps - 1)) \<le> 464)"
  have li: "last_index = word_of_nat (length ps - 1)" 
  proof -
    have "Suc (length ps - 1) = length ps" using pieces(1) by simp
    then have "(1 :: u16) + word_of_nat (length ps - 1) = word_of_nat (length ps)" by (metis of_nat_Suc)
    then show ?thesis unfolding last_index_def by (metis add_diff_cancel_left')
  qed
  have ul: "unat last_index = length ps - 1"
    unfolding li using pieces(2) by (intro unat_of_nat_small) simp
  have pl: "place (word_of_nat i) = snd (message_place ms q ps i)" for i
    by (simp add: place_def message_place_def)
  have tail: "(ps ! unat last_index, place last_index) = message_place ms q ps (length ps - 1)"
    unfolding ul by (simp only: li pl) (simp add: message_place_def)
  define ob1 where "ob1 = ob\<lparr>ob_fragment_sequence := ms + 1, ob_time_pair_held := False\<rparr>"
  have ok1: "outbound_ok K n ob1" unfolding ob1_def by (rule outbound_ok_cong(1) [OF ok])
  have ob_upd: "ob\<lparr>ob_fragment_sequence := ms + 1\<rparr>\<lparr>ob_time_pair_held := False\<rparr> = ob1"
    "\<not> ob_time_pair_held ob \<Longrightarrow> ob\<lparr>ob_fragment_sequence := ms + 1\<rparr> = ob1"
    by (simp_all add: ob1_def)
  have rides: "rides = (ob_time_pair_held ob \<and> TIME_PAIR_LEN + FRAG_SIZE + length (ps ! unat last_index) \<le> MAX_PACKET_DATA)"
    by (simp add: rides_def ul TIME_PAIR_LEN_def FRAG_SIZE_def MAX_PACKET_DATA_def)
  have "outbound_send_game_message body q iv stamps (ob, st, out) =
      (case (if ob_time_pair_held ob
             then transmit None (Some stamps) (if rides then Some (ps ! unat last_index, place last_index) else None) iv
               (ob\<lparr>ob_fragment_sequence := ms + 1\<rparr>\<lparr>ob_time_pair_held := False\<rparr>, st, out)
             else (Inr (), ob\<lparr>ob_fragment_sequence := ms + 1\<rparr>, st, out)) of
         (Inl e, s) \<Rightarrow> (Inl e, s)
       | (Inr _, s) \<Rightarrow> send_pieces place rides last_index iv (zip [0..<length ps] ps) s)"
    unfolding rides place_def last_index_def ms_def outbound_send_game_message_def
    by (simp add: ps Let_def cong: sum.case_cong prod.case_cong)
  then have send: "outbound_send_game_message body q iv stamps (ob, st, out) =
      (case (if ob_time_pair_held ob
             then transmit None (Some stamps) (if rides then Some (message_place ms q ps (length ps - 1)) else None) iv (ob1, st, out)
             else (Inr (), ob1, st, out)) of
         (Inl e, s) \<Rightarrow> (Inl e, s)
       | (Inr _, s) \<Rightarrow> send_pieces place rides last_index iv (zip [0..<length ps] ps) s)"
    unfolding tail ob_upd(1) using ob_upd(2) by (cases "ob_time_pair_held ob") simp_all
  define m where "m = (if rides then length ps - 1 else length ps)"
  have goal: ?thesis if "sends K n (ob, st, out) cs (ob2, st2, out2)" "length cs \<le> 1"
    "(if ob_time_pair_held ob
      then transmit None (Some stamps) (if rides then Some (message_place ms q ps (length ps - 1)) else None) iv (ob1, st, out)
      else (Inr (), ob1, st, out)) = (Inr (), ob2, st2, out2)"
    "message_packets (ob_time_pair_held ob) stamps ms q ps = cs @ plain_packets ms q ps [0..<m]"
    "\<not> ob_time_pair_held ob2" "ob_fragment_sequence ob2 = ms + 1" for cs ob2 st2 out2
  proof -
    have ok2: "outbound_ok K (n + length cs) ob2" using that(1) by (simp add: sends_def)
    have "n + length cs + (length ps - 0) < SESSION" using that(2) lim by simp
    from send_pieces_ok [OF ps le0 ok2 this pl li, of rides iv st2 out2]
    obtain s' where r: "send_pieces place rides last_index iv (zip [0..<length ps] ps) (ob2, st2, out2) = (Inr (), s')"
      "sends K (n + length cs) (ob2, st2, out2) (plain_packets ms q ps [0..<m]) s'"
      "ob_time_pair_held (fst s') = ob_time_pair_held ob2" "ob_fragment_sequence (fst s') = ob_fragment_sequence ob2"
      by (auto simp: m_def)
    then show ?thesis
      using send that sends_trans [OF that(1) r(2)] by (simp add: ms_def)
  qed
  show ?thesis
  proof (cases "ob_time_pair_held ob")
    case False
    then show ?thesis
      using goal [of "[]" ob1 st out] ok1
      by (simp add: sends_def message_packets_def m_def rides_def ob1_def)
  next
    case True
    define fo where "fo = (if rides then Some (message_place ms q ps (length ps - 1)) else None)"
    have fo: "fits fo" using message_place_fits [OF ps, of "length ps - 1" ms q] pieces(1) by (simp add: fo_def fits_def)
    have "Suc n < SESSION" using lim by simp
    from sends_transmit [OF ok1 this fo, where ack = None and stamps = "Some stamps" and iv = iv and st = st and out = out]
    obtain ob2 st2 out2 where t: "transmit None (Some stamps) fo iv (ob1, st, out) = (Inr (), ob2, st2, out2)"
      "sends K n (ob1, st, out) [(None, Some stamps, fo)] (ob2, st2, out2)"
      "ob_time_pair_held ob2 = ob_time_pair_held ob1" "ob_fragment_sequence ob2 = ob_fragment_sequence ob1"
      by (metis fst_conv prod_cases3)
    then show ?thesis
      using goal [of "[(None, Some stamps, fo)]" ob2 st2 out2] True
      by (simp add: sends_def message_packets_def m_def rides_def fo_def ob1_def Let_def)
  qed
qed

lemma queue_time_pair_ok:
  assumes "outbound_ok K n ob" "Suc n < SESSION"
  shows "\<exists>s'. queue_time_pair iv stamps (ob, st, out) = Some s' \<and>
    sends K n (ob, st, out) (if ob_time_pair_held ob then [(None, Some stamps, None)] else []) s' \<and>
    ob_time_pair_held (fst s')"
proof (cases "ob_time_pair_held ob")
  case False
  then show ?thesis using assms by (simp add: queue_time_pair_def sends_def outbound_ok_cong)
next
  case True
  have "fits None" by (simp add: fits_def)
  from sends_transmit [OF assms this, where ack = None and stamps = "Some stamps" and iv = iv and st = st and out = out] True show ?thesis
    by (auto simp: queue_time_pair_def sends_def outbound_ok_cong)
qed

lemma release_time_pair_ok:
  assumes "outbound_ok K n ob" "Suc n < SESSION"
  shows "\<exists>s'. release_time_pair_with_ack ack hold iv stamps (ob, st, out) = Some s' \<and>
    sends K n (ob, st, out) (if ob_time_pair_held ob \<or> hold then [(Some ack, Some stamps, None)] else []) s' \<and>
    \<not> ob_time_pair_held (fst s')"
proof (cases "ob_time_pair_held ob \<or> hold")
  case False
  then show ?thesis using assms by (simp add: release_time_pair_with_ack_def sends_def)
next
  case True
  have "fits None" by (simp add: fits_def)
  from sends_transmit [OF outbound_ok_cong(2) [OF assms(1), of False] assms(2) this,
      where ack = "Some ack" and stamps = "Some stamps" and iv = iv and st = st and out = out] True
  show ?thesis by (auto simp: release_time_pair_with_ack_def sends_def)
qed

section \<open>Resending\<close>

text \<open>The time pair a resend carries is stamped again; everything else stays.\<close>

definition restamp :: "time_stamps \<Rightarrow> time_stamps option \<Rightarrow> time_stamps option" where
  "restamp now stamps = (case stamps of None \<Rightarrow> None | Some _ \<Rightarrow> Some now)"

definition resend_flags :: "u32 option \<Rightarrow> time_stamps option \<Rightarrow> (bytes \<times> fragment_place) option \<Rightarrow> packet_flags" where
  "resend_flags ack stamps fo =
     (let f = RETRANSMISSION OR ENCRYPTED_CHECKSUM;
          f = (if fo \<noteq> None then f OR BLOB_FRAGMENTS else f);
          f = (if ack \<noteq> None then f OR ACK_SEQUENCE else f)
      in if stamps \<noteq> None then f OR (TIME_SYNC OR ECHO_REQUEST) else f)"

lemma announces_resend: "announces (resend_flags ack stamps fo) ack stamps fo"
  unfolding announces_def carries_def resend_flags_def
  by (cases ack; cases stamps; cases fo) (simp_all add: has_def flag_defs)

lemma announces_restamp: "announces f ack stamps fo \<Longrightarrow> announces f ack (restamp now stamps) fo"
  by (cases stamps) (simp_all add: announces_def restamp_def)

lemma length_restamp [simp]: "length (numbered_body ack (restamp now stamps) fo) = length (numbered_body ack stamps fo)"
  by (simp add: numbered_body_def section_bytes_def restamp_def split: option.split)

lemma overwrite_pair:
  assumes "length pre = 20"
  shows "overwrite (pre @ numbered_body ack (Some t) fo) (20 + length (ack_bytes ack)) (stamps_to_bytes now) =
    pre @ numbered_body ack (Some now) fo"
  using assms by (simp add: overwrite_def numbered_body_def section_bytes_def pair_bytes_def)

lemma rebuild_ok:
  assumes form: "cached_form c seq key ack stamps fo"
  shows "\<exists>c'. rebuild_for_resend c iv now = (True, c') \<and> cached_form c' seq key ack (restamp now stamps) fo \<and>
    opens_as (ca_datagram c') seq key ack (restamp now stamps) fo"
proof -
  obtain h where h: "ca_datagram c = header_to_bytes h @ numbered_body ack stamps fo" "hdr_sequence h = seq"
    "unat (hdr_data_size h) = length (numbered_body ack stamps fo)"
    using form by (auto simp: cached_form_def)
  have fo: "fits fo" using form by (simp add: cached_form_def)
  define h1 where "h1 = h\<lparr>hdr_flags := resend_flags ack stamps fo, hdr_time := iv\<rparr>"
  define h2 where "h2 = h1\<lparr>hdr_checksum := header_hash h1 + ca_sealed_payload c\<rparr>"
  have head: "resend_header c iv = Some h2"
    using form h(1)
    by (simp add: resend_header_def header_from_to cached_form_def resend_flags_def h1_def h2_def Let_def)
  have ann: "announces (hdr_flags h2) ack (restamp now stamps) fo"
    using announces_restamp [OF announces_resend] by (simp add: h2_def h1_def)
  have hs: "hdr_sequence h2 = seq" "hdr_data_size h2 = hdr_data_size h" using h(2) by (simp_all add: h2_def h1_def)
  show ?thesis
  proof (cases stamps)
    case None
    define c' where "c' = c\<lparr>ca_datagram := header_to_bytes h2 @ numbered_body ack stamps fo\<rparr>"
    have "rebuild_for_resend c iv now = (True, c')"
      using None form h(1) head by (simp add: rebuild_for_resend_def cached_form_def overwrite_def c'_def)
    moreover have "cached_form c' seq key ack stamps fo"
      using form h hs by (auto simp: cached_form_def c'_def intro!: exI [of _ h2])
    moreover have "opens_as (ca_datagram c') seq key ack stamps fo"
      using numbered_opens [of h2 ack stamps fo key] ann fo h hs form None
      by (simp add: c'_def restamp_def cached_form_def h2_def)
    ultimately show ?thesis using None by (simp add: restamp_def)
  next
    case (Some t)
    let ?body = "numbered_body ack (Some now) fo"
    have len: "length ?body = length (numbered_body ack stamps fo)"
      using length_restamp [of ack now stamps fo] Some by (simp add: restamp_def)
    define d where "d = header_to_bytes h @ ?body"
    have ow: "overwrite (ca_datagram c) (20 + length (ack_bytes ack)) (stamps_to_bytes now) = d"
      using overwrite_pair [of "header_to_bytes h" ack t fo now] h(1) Some by (simp add: d_def)
    have ann': "announces (hdr_flags h2) ack (Some now) fo" using ann Some by (simp add: restamp_def)
    have enc: "has (hdr_flags h2) ENCRYPTED_CHECKSUM" using ann' by (simp add: announces_def)
    have sec: "length (section_bytes ack (Some now)) = length (ack_bytes ack) + 12" by (simp add: section_bytes_def)
    define share where "share = key XOR numbered_share ack (Some now) fo"
    define h3 where "h3 = sealed_header h2 (length ?body) share"
    have seal: "reseal_in_place h2 d (length ?body) (length (ack_bytes ack) + 12) key =
        (Inr \<lparr>sealed_len = 20 + length ?body, sealed_key = key, sealed_payload = share\<rparr>, header_to_bytes h3 @ ?body)"
      using reseal_in_place_ok [OF numbered_seal_ok [OF ann' fo, of "header_to_bytes h"], of key]
        numbered_seal_result [OF ann' fo, of "header_to_bytes h" key] enc sec
      by (simp add: d_def share_def h3_def Let_def)
    define c' where "c' = c\<lparr>ca_datagram := header_to_bytes h3 @ ?body, ca_sealed_payload := share\<rparr>"
    have al: "(if ca_has_ack c then ACK_LEN else 0) = length (ack_bytes ack)"
      using form by (simp add: cached_form_def ACK_LEN_def)
    have "\<not> length (ca_datagram c) < 20 + length (ack_bytes ack) + 12"
      using h(1) Some by (simp add: numbered_body_def section_bytes_def)
    then have "rebuild_for_resend c iv now = (True, c')"
      unfolding rebuild_for_resend_def al
      using form Some head ow seal hs h(3) len al
      by (simp add: cached_form_def c'_def HEADER_SIZE_def TIME_PAIR_LEN_def)
    moreover have "cached_form c' seq key ack (Some now) fo"
      using form h hs len Some body_size [OF fo, of ack "Some now"]
      by (auto simp: cached_form_def c'_def share_def h3_def intro!: exI [of _ h3])
    moreover have "opens_as (ca_datagram c') seq key ack (Some now) fo"
      using sealed_numbered_opens [OF ann' fo, of key] hs by (simp add: c'_def h3_def share_def)
    ultimately show ?thesis using Some by (simp add: restamp_def)
  qed
qed

section \<open>The resend queue\<close>

lemma position_bound: "position p xs = Some i \<Longrightarrow> i < length xs"
  by (drule position_Some) simp

lemma merge_insert_pending_simps [simp]:
  "merge_insert_pending s [] = [s]"
  "merge_insert_pending s (x # xs) =
     (if is_newer s x then x # merge_insert_pending s xs else if x = s then x # xs else s # x # xs)"
proof -
  show "merge_insert_pending s [] = [s]" by (simp add: merge_insert_pending_def)
  show "merge_insert_pending s (x # xs) =
     (if is_newer s x then x # merge_insert_pending s xs else if x = s then x # xs else s # x # xs)"
    by (cases "position (\<lambda>p. \<not> is_newer s p) xs") (simp_all add: merge_insert_pending_def Let_def)
qed

text \<open>In a session the queue is kept in send order without repetition.\<close>

lemma merge_insert_sorted:
  assumes "sorted_wrt (<) ps" "set ps \<subseteq> {..<SESSION}" "j < SESSION"
  shows "merge_insert_pending (seq_at 1 j) (map (seq_at 1) ps) =
    map (seq_at 1) (takeWhile (\<lambda>p. p < j) ps @ j # dropWhile (\<lambda>p. p \<le> j) ps)"
proof -
  have newer: "is_newer (seq_at 1 j) (seq_at 1 p) \<longleftrightarrow> p < j" if "p \<in> set ps" for p
  proof -
    have p: "p < SESSION" using assms(2) that by auto
    consider "p < j" | "p = j" | "j < p" by linarith
    then show ?thesis
    proof cases
      case 1
      then show ?thesis using newer_in_session(1) [of 1 p j] assms(3) by (simp add: SESSION_def)
    next
      case 2
      then show ?thesis by simp
    next
      case 3
      then show ?thesis using newer_in_session(2) [of 1 j p] p by (simp add: SESSION_def)
    qed
  qed
  have inj: "seq_at 1 p = seq_at 1 j \<longleftrightarrow> p = j" if "p \<in> set ps" for p
    using seq_session_inj [of p j] assms(2,3) that by auto
  show ?thesis
    using assms(1) newer inj
  proof (induction ps)
    case Nil
    then show ?case by simp
  next
    case (Cons p ps)
    show ?case
    proof (cases "p < j")
      case True
      then show ?thesis using Cons by simp
    next
      case False
      then have "\<not> is_newer (seq_at 1 j) (seq_at 1 p)" using Cons.prems(2) by simp
      moreover have "dropWhile (\<lambda>p. p \<le> j) ps = ps" if "p = j"
        using Cons.prems(1) that by (cases ps) auto
      ultimately show ?thesis using False Cons.prems(3) by auto
    qed
  qed
qed

lemma merge_insert_set:
  fixes ps :: "nat list" and j :: nat
  assumes "sorted_wrt (<) ps"
  defines "qs \<equiv> takeWhile (\<lambda>p. p < j) ps @ j # dropWhile (\<lambda>p. p \<le> j) ps"
  shows "sorted_wrt (<) qs" "set qs = insert j (set ps)"
proof -
  have "sorted_wrt (<) qs \<and> set qs = insert j (set ps)"
    using assms(1) unfolding qs_def
  proof (induction ps)
    case Nil
    then show ?case by simp
  next
    case (Cons p ps)
    show ?case
    proof (cases "p < j")
      case True
      then show ?thesis using Cons by (auto dest: set_dropWhileD)
    next
      case False
      moreover have "dropWhile (\<lambda>p. p \<le> j) ps = ps" if "p = j"
        using Cons.prems that by (cases ps) auto
      ultimately show ?thesis using Cons.prems by (cases "p = j") auto
    qed
  qed
  then show "sorted_wrt (<) qs" "set qs = insert j (set ps)" by simp_all
qed

section \<open>Requests and resends keep the invariant\<close>

lemma outbound_ok_held:
  assumes "outbound_ok K n ob" "store_contains sid (ob_store ob)"
  shows "\<exists>j \<in> {1..n}. sid = seq_at 1 j"
proof -
  have "sid \<in> set (ss_order (ob_store ob))"
    using assms by (metis domIff outbound_ok_def store_contains_def store_ok_def)
  moreover obtain js where "set js \<subseteq> {1..n}" "ss_order (ob_store ob) = map (seq_at 1) js"
    using assms(1) by (auto simp: outbound_ok_def)
  ultimately show ?thesis by auto
qed

lemma outbound_ok_pending:
  assumes ok: "outbound_ok K n ob" and held: "store_contains sid (ob_store ob)"
  shows "outbound_ok K n (ob\<lparr>ob_pending_resends := merge_insert_pending sid (ob_pending_resends ob)\<rparr>)"
proof -
  obtain j where j: "j \<in> {1..n}" "sid = seq_at 1 j" using outbound_ok_held [OF ok held] by blast
  obtain ps where ps: "sorted_wrt (<) ps" "set ps \<subseteq> {1..n}" "ob_pending_resends ob = map (seq_at 1) ps"
    using ok by (auto simp: outbound_ok_def)
  have lim: "n < SESSION" using ok by (simp add: outbound_ok_def)
  have "set ps \<subseteq> {..<SESSION}" "j < SESSION" using ps(2) j(1) lim by auto
  from merge_insert_sorted [OF ps(1) this] merge_insert_set [OF ps(1), of j] ps j(1)
  have "\<exists>qs. sorted_wrt (<) qs \<and> set qs \<subseteq> {1..n} \<and>
      merge_insert_pending sid (ob_pending_resends ob) = map (seq_at 1) qs"
    unfolding j(2) ps(3) by (metis insert_subset)
  then show ?thesis using ok by (simp add: outbound_ok_def)
qed

lemma request_one_ok:
  "outbound_ok K n ob \<Longrightarrow> outbound_ok K n (fst (request_one e (ob, st)))"
proof -
  assume ok: "outbound_ok K n ob"
  obtain i sid where e: "e = (i, sid)" by force
  obtain ob1 st1 where a: "(if i = 0 then on_ack_sequence sid (ob, st) else (ob, st)) = (ob1, st1)" by force
  have "outbound_ok K n ob1"
    using a ok outbound_ok_cong(4) by (auto simp: on_ack_sequence_def split: if_splits)
  then show ?thesis using a outbound_ok_pending by (auto simp: e request_one_def)
qed

lemma on_retransmit_request_ok:
  assumes "outbound_ok K n ob"
  shows "outbound_ok K n (fst (on_retransmit_request ids (ob, st)))"
proof -
  have "outbound_ok K n (fst (fold request_one es s))" if "outbound_ok K n (fst s)" for es s
    using that
  proof (induction es arbitrary: s)
    case (Cons e es)
    then show ?case using request_one_ok [of K n "fst s" e "snd s"] by simp
  qed simp
  then show ?thesis using assms by (simp add: on_retransmit_request_def)
qed

text \<open>A datagram that is, or repeats, one of the first \<open>n\<close> numbered packets.\<close>

definition own_packet :: "isaac \<Rightarrow> nat \<Rightarrow> bytes \<Rightarrow> bool" where
  "own_packet K n d \<longleftrightarrow>
     (\<exists>j \<in> {1..n}. \<exists>ack stamps fo. opens_as d (seq_at 1 j) (ks.word (j - 1) K) ack stamps fo)"

lemma own_packet_mono: "own_packet K n d \<Longrightarrow> n \<le> m \<Longrightarrow> own_packet K m d"
  unfolding own_packet_def by (meson atLeastAtMost_iff order_trans)

lemma open_from_own: "open_from K n ds cs \<Longrightarrow> list_all (own_packet K (n + length cs)) ds"
proof (induction K n ds cs rule: open_from.induct)
  case (2 K n d ds ack stamps fo cs)
  have "own_packet K (Suc (n + length cs)) d"
    unfolding own_packet_def using 2(2) by (intro bexI [of _ "Suc n"]) auto
  then show ?case using 2 by simp
qed simp_all

lemma resend_one_ok:
  assumes ok: "outbound_ok K n ob"
  shows "\<exists>ob' st' ds. resend_one iv now sid (ob, st, out) = (ob', st', out @ ds) \<and> outbound_ok K n ob' \<and>
    list_all (own_packet K n) ds \<and> ob_pending_resends ob' = ob_pending_resends ob \<and>
    ob_time_pair_held ob' = ob_time_pair_held ob \<and> ob_ack_watermark ob' = ob_ack_watermark ob"
proof (cases "(ob_ack_watermark ob \<noteq> 0 \<and> is_newer (ob_ack_watermark ob) sid) \<or> store_get sid (ob_store ob) = None")
  case True
  then show ?thesis using ok by (auto simp: resend_one_def)
next
  case False
  then obtain c where c: "store_get sid (ob_store ob) = Some c" by auto
  then have held: "store_contains sid (ob_store ob)" by (simp add: store_get_def store_contains_def)
  obtain j where j: "j \<in> {1..n}" "sid = seq_at 1 j" using outbound_ok_held [OF ok held] by blast
  have "cached_at K j c" using ok c j by (auto simp: outbound_ok_def)
  then obtain ack stamps fo where form: "cached_form c (seq_at 1 j) (ks.word (j - 1) K) ack stamps fo"
    by (auto simp: cached_at_def)
  obtain c' where c': "rebuild_for_resend c iv now = (True, c')"
    "cached_form c' (seq_at 1 j) (ks.word (j - 1) K) ack (restamp now stamps) fo"
    "opens_as (ca_datagram c') (seq_at 1 j) (ks.word (j - 1) K) ack (restamp now stamps) fo"
    using rebuild_ok [OF form, of iv now] by blast
  define ob' where "ob' = ob\<lparr>ob_store := store_put sid c' (ob_store ob)\<rparr>"
  have st: "store_ok (ob_store ob)" "n < SESSION" using ok by (simp_all add: outbound_ok_def)
  then have hm: "hm_ok (ss_by_sequence (ob_store ob))" by (simp add: store_ok_def)
  have get: "store_get (seq_at 1 i) (store_put sid c' (ob_store ob)) =
      (if i = j then Some c' else store_get (seq_at 1 i) (ob_store ob))" if "i \<in> {1..n}" for i
    using seq_session_inj [of i j] that j st(2) hm by (simp add: store_get_def store_put_def hm.get_put)
  have "cached_at K j c'" using c'(2) by (auto simp: cached_at_def)
  moreover have "ss_order (store_put sid c' (ob_store ob)) = ss_order (ob_store ob)" by (simp add: store_put_def)
  ultimately have ok': "outbound_ok K n ob'"
    using ok get store_ok_put [OF st(1) held, of c'] by (auto simp: outbound_ok_def ob'_def split: if_splits)
  have "own_packet K n (ca_datagram c')" unfolding own_packet_def using c'(3) j(1) by blast
  then show ?thesis
    using False c c'(1) ok' by (auto simp: resend_one_def emit_def ob'_def)
qed

lemma fold_resend_ok:
  assumes "outbound_ok K n ob"
  shows "\<exists>ob' st' ds. fold (resend_one iv now) ids (ob, st, out) = (ob', st', out @ ds) \<and> outbound_ok K n ob' \<and>
    list_all (own_packet K n) ds \<and> ob_time_pair_held ob' = ob_time_pair_held ob"
  using assms
proof (induction ids arbitrary: ob st out)
  case Nil
  then show ?case by auto
next
  case (Cons sid ids)
  obtain ob1 st1 ds1 where r1: "resend_one iv now sid (ob, st, out) = (ob1, st1, out @ ds1)" "outbound_ok K n ob1"
    "list_all (own_packet K n) ds1" "ob_time_pair_held ob1 = ob_time_pair_held ob"
    using resend_one_ok [OF Cons.prems, of iv now sid st out] by blast
  obtain ob2 st2 ds2 where "fold (resend_one iv now) ids (ob1, st1, out @ ds1) = (ob2, st2, (out @ ds1) @ ds2)"
    "outbound_ok K n ob2" "list_all (own_packet K n) ds2" "ob_time_pair_held ob2 = ob_time_pair_held ob1"
    using Cons.IH [OF r1(2), of st1 "out @ ds1"] by blast
  then show ?case using r1 by (intro exI [of _ ob2] exI [of _ st2] exI [of _ "ds1 @ ds2"]) simp
qed

lemma transmit_pending_resends_ok:
  assumes "outbound_ok K n ob"
  shows "\<exists>ob' st' ds. transmit_pending_resends iv now (ob, st, out) = (ob', st', out @ ds) \<and> outbound_ok K n ob' \<and>
    list_all (own_packet K n) ds \<and> ob_time_pair_held ob' = ob_time_pair_held ob \<and> ob_pending_resends ob' = []"
proof -
  obtain ob1 st1 ds where r: "fold (resend_one iv now) (ob_pending_resends ob) (ob, st, out) = (ob1, st1, out @ ds)"
    "outbound_ok K n ob1" "list_all (own_packet K n) ds" "ob_time_pair_held ob1 = ob_time_pair_held ob"
    using fold_resend_ok [OF assms] by blast
  let ?w = "ob_ack_watermark ob1"
  define ob2 where "ob2 = ob1\<lparr>ob_pending_resends := [], ob_store := flush_older_than ?w (ob_store ob1)\<rparr>"
  have st: "store_ok (ob_store ob1)" using r(2) by (simp add: outbound_ok_def)
  obtain js where js: "sorted_wrt (<) js" "set js \<subseteq> {1..n}" "ss_order (ob_store ob1) = map (seq_at 1) js"
    using r(2) by (auto simp: outbound_ok_def)
  define ks where "ks = dropWhile (is_newer ?w \<circ> seq_at 1) js"
  have "js = takeWhile (is_newer ?w \<circ> seq_at 1) js @ ks" by (simp add: ks_def)
  then have "sorted_wrt (<) ks" "set ks \<subseteq> {1..n}" using js(1,2) by (metis sorted_wrt_append, metis le_supE set_append)
  moreover have "ss_order (flush_older_than ?w (ob_store ob1)) = map (seq_at 1) ks"
    by (simp add: flush_older_than_eq(1) [OF st] js(3) ks_def dropWhile_map)
  ultimately have order: "\<exists>ks. sorted_wrt (<) ks \<and> set ks \<subseteq> {1..n} \<and>
      ss_order (flush_older_than ?w (ob_store ob1)) = map (seq_at 1) ks" by blast
  have pending: "\<exists>ps. sorted_wrt (<) ps \<and> set ps \<subseteq> {1..n} \<and> ([] :: u32 list) = map (seq_at 1) ps"
    by (intro exI [of _ "[]"]) simp
  have cached: "\<forall>j \<in> {1..n}. \<forall>c. store_get (seq_at 1 j) (flush_older_than ?w (ob_store ob1)) = Some c \<longrightarrow> cached_at K j c"
    using r(2) by (simp add: outbound_ok_def flush_older_than_eq(3) [OF st])
  have "outbound_ok K n ob2"
    using r(2) order pending cached flush_older_than_eq(2) [OF st, of ?w]
    by (simp add: outbound_ok_def ob2_def)
  then show ?thesis using r by (auto simp: transmit_pending_resends_def ob2_def)
qed

section \<open>Sessions\<close>

text \<open>
  Everything the transport does with the queue, in any order; \<open>n\<close> counts the numbered
  packets sent so far. The connection drains the outgoing datagrams at any time.
\<close>

inductive outbound_session :: "isaac \<Rightarrow> nat \<Rightarrow> flow \<Rightarrow> bool" for K where
  start: "outbound_session K 0 (outbound_new K client_id iteration, st, [])"
| message: "outbound_session K n (ob, st, out) \<Longrightarrow> split_message body = Some ps \<Longrightarrow> n + length ps + 1 < SESSION \<Longrightarrow>
    outbound_send_game_message body queue iv stamps (ob, st, out) = (r, s) \<Longrightarrow>
    outbound_session K (n + length (message_packets (ob_time_pair_held ob) stamps (ob_fragment_sequence ob) queue ps)) s"
| time_pair: "outbound_session K n (ob, st, out) \<Longrightarrow> Suc n < SESSION \<Longrightarrow>
    queue_time_pair iv stamps (ob, st, out) = Some s \<Longrightarrow>
    outbound_session K (if ob_time_pair_held ob then Suc n else n) s"
| released: "outbound_session K n (ob, st, out) \<Longrightarrow> Suc n < SESSION \<Longrightarrow>
    release_time_pair_with_ack ack hold iv stamps (ob, st, out) = Some s \<Longrightarrow>
    outbound_session K (if ob_time_pair_held ob \<or> hold then Suc n else n) s"
| acknowledged: "outbound_session K n (ob, st, out) \<Longrightarrow> on_ack_sequence ack (ob, st) = (ob', st') \<Longrightarrow>
    outbound_session K n (ob', st', out)"
| requested: "outbound_session K n (ob, st, out) \<Longrightarrow> on_retransmit_request ids (ob, st) = (ob', st') \<Longrightarrow>
    outbound_session K n (ob', st', out)"
| resent: "outbound_session K n s \<Longrightarrow> outbound_session K n (transmit_pending_resends iv stamps s)"
| drained: "outbound_session K n (ob, st, d # out) \<Longrightarrow> outbound_session K n (ob, st, out)"

lemma sends_own:
  assumes "sends K n (ob, st, out) cs s" "list_all (own_packet K n) out"
  shows "outbound_ok K (n + length cs) (fst s) \<and> list_all (own_packet K (n + length cs)) (snd (snd s))"
proof -
  obtain ob' st' out' where s: "s = (ob', st', out')" by (metis prod_cases3)
  obtain ds where ds: "out' = out @ ds" "open_from K n ds cs" using assms(1) by (auto simp: s sends_def)
  have "list_all (own_packet K (n + length cs)) out"
    using assms(2) own_packet_mono by (fastforce simp: list_all_iff)
  then show ?thesis using assms(1) ds open_from_own [OF ds(2)] by (simp add: s sends_def)
qed

lemma session_sound: "outbound_session K n s \<Longrightarrow> outbound_ok K n (fst s) \<and> list_all (own_packet K n) (snd (snd s))"
proof (induction rule: outbound_session.induct)
  case (start client_id iteration st)
  then show ?case by (simp add: outbound_ok_new)
next
  case (message n ob st out body ps queue iv stamps r s)
  then show ?case
    using send_game_message_ok [of K n ob body ps queue iv stamps st out] sends_own [of K n ob st out _ s] by auto
next
  case (time_pair n ob st out iv stamps s)
  then show ?case
    using queue_time_pair_ok [of K n ob iv stamps st out] sends_own [of K n ob st out _ s]
    by (cases "ob_time_pair_held ob") fastforce+
next
  case (released n ob st out ack hold iv stamps s)
  then show ?case
    using release_time_pair_ok [of K n ob ack hold iv stamps st out] sends_own [of K n ob st out _ s]
    by (cases "ob_time_pair_held ob \<or> hold") fastforce+
next
  case (acknowledged n ob st out ack ob' st')
  then show ?case by (auto simp: on_ack_sequence_def outbound_ok_cong)
next
  case (requested n ob st out ids ob' st')
  then show ?case using on_retransmit_request_ok [of K n ob ids st] by simp
next
  case (resent n s iv stamps)
  obtain ob st out where s: "s = (ob, st, out)" by (metis prod_cases3)
  then show ?case using resent transmit_pending_resends_ok [of K n ob iv stamps st out] by auto
next
  case (drained n ob st d out)
  then show ?case by simp
qed

section \<open>Properties\<close>

text \<open>
  C4. One keystream word per numbered packet, for good. In any session (messages, time pairs,
  acknowledgements, requests, resends, in any order) the keystream stands exactly at the
  number of packets numbered so far, their sequences are consecutive and skip zero, the
  resend queue names only sent packets and never twice, and every datagram emitted, first or
  resent, parses and verifies under the word of its own sequence.
\<close>

theorem outbound_session_sound:
  assumes "outbound_session K n (ob, st, out)"
  shows "ob_keystream ob = ks.after n K \<and> ob_highest_id_sent ob = seq_at 1 n \<and>
    next_sequence ob = seq_at 1 (Suc n) \<and>
    distinct (ob_pending_resends ob) \<and> set (ob_pending_resends ob) \<subseteq> seq_at 1 ` {1..n} \<and>
    list_all (own_packet K n) out"
proof -
  have ok: "outbound_ok K n ob" "list_all (own_packet K n) out" using session_sound [OF assms] by simp_all
  obtain ps where ps: "sorted_wrt (<) ps" "set ps \<subseteq> {1..n}" "ob_pending_resends ob = map (seq_at 1) ps"
    using ok(1) by (auto simp: outbound_ok_def)
  have lim: "n < SESSION" using ok(1) by (simp add: outbound_ok_def)
  have "inj_on (seq_at 1) (set ps)"
    using ps(2) lim seq_session_inj by (intro inj_onI) (meson atLeastAtMost_iff order.strict_trans1 subsetD)
  then have "distinct (ob_pending_resends ob)" using ps(1,3) by (simp add: distinct_map strict_sorted_iff)
  moreover have "set (ob_pending_resends ob) \<subseteq> seq_at 1 ` {1..n}" using ps by auto
  ultimately show ?thesis
    using ok next_sequence_at [of ob n] by (simp add: outbound_ok_def)
qed

lemma split_small: "split_message [1, 2, 3] = Some [[1, 2, 3]]"
  by (simp add: split_message_def frag_consts chunks_step Let_def)

lemma outbound_session_sound_witness:
  "\<exists>ob st out. outbound_session (isaac_new 9) 1 (ob, st, out) \<and> ob_highest_id_sent ob = 2"
proof -
  let ?K = "isaac_new 9"
  define ob0 where "ob0 = outbound_new ?K 5 6"
  have s0: "outbound_session ?K 0 (ob0, stats_default, [])" unfolding ob0_def by (rule outbound_session.start)
  obtain r ob st out where run: "outbound_send_game_message [1, 2, 3] 4 1 \<lparr>ts_server_time = 0, ts_local_time = 0\<rparr>
      (ob0, stats_default, []) = (r, ob, st, out)"
    using prod_cases4 by blast
  have lim: "0 + length [[1, 2, 3 :: u8]] + 1 < SESSION" by (simp add: SESSION_def)
  have "length (message_packets (ob_time_pair_held ob0) \<lparr>ts_server_time = 0, ts_local_time = 0\<rparr> (ob_fragment_sequence ob0) 4 [[1, 2, 3]]) = 1"
    by (simp add: ob0_def outbound_new_def message_packets_def plain_packets_def)
  with outbound_session.message [OF s0 split_small lim run]
  have s1: "outbound_session ?K 1 (ob, st, out)" by simp
  have "seq_at 1 1 = 2" by (simp add: seq_at_def seq_next_def)
  then show ?thesis using outbound_session_sound [OF s1] s1 by auto
qed

text \<open>
  C15. Sending a message never fails but for its size. A body of at most 448 * 65535 bytes is
  sent as exactly the packets of \<open>message_packets\<close> (a held time pair first, carrying the last
  piece when both fit in one packet, then the other pieces in order), each opening under the
  next word of the stream; a larger body is refused and nothing at all changes.
\<close>

theorem send_game_message_total:
  assumes "outbound_session K n (ob, st, out)" "n + 65536 < SESSION"
  shows "case outbound_send_game_message body queue iv stamps (ob, st, out) of
      (Inl e, s) \<Rightarrow> e = MessageTooLarge (length body) \<and> MAX_MESSAGE_BODY < length body \<and> s = (ob, st, out)
    | (Inr _, ob', st', out') \<Rightarrow>
        (\<exists>ps ds. split_message body = Some ps \<and> out' = out @ ds \<and>
          open_from K n ds (message_packets (ob_time_pair_held ob) stamps (ob_fragment_sequence ob) queue ps) \<and>
          packets_sent st' = packets_sent st + length ds \<and>
          ob_fragment_sequence ob' = ob_fragment_sequence ob + 1 \<and> \<not> ob_time_pair_held ob')"
proof (cases "split_message body")
  case None
  then show ?thesis by (simp add: outbound_send_game_message_def split_message_None [symmetric])
next
  case (Some ps)
  have ok: "outbound_ok K n ob" using session_sound [OF assms(1)] by simp
  have "n + length ps + 1 < SESSION" using assms(2) split_message_pieces(3) [OF Some] by simp
  from send_game_message_ok [OF ok Some this, of queue iv stamps st out]
  obtain ob' st' out' where r: "outbound_send_game_message body queue iv stamps (ob, st, out) = (Inr (), ob', st', out')"
    "sends K n (ob, st, out) (message_packets (ob_time_pair_held ob) stamps (ob_fragment_sequence ob) queue ps) (ob', st', out')"
    "\<not> ob_time_pair_held ob'" "ob_fragment_sequence ob' = ob_fragment_sequence ob + 1"
    by (metis fst_conv prod_cases3)
  obtain ds where ds: "out' = out @ ds"
    "open_from K n ds (message_packets (ob_time_pair_held ob) stamps (ob_fragment_sequence ob) queue ps)"
    using r(2) by (auto simp: sends_def)
  then show ?thesis
    using r ds Some open_from_length [OF ds(2)] by (auto simp: sends_def)
qed

lemma send_game_message_total_witness:
  "case outbound_send_game_message [1, 2, 3] 4 1 \<lparr>ts_server_time = 0, ts_local_time = 0\<rparr>
       (outbound_new (isaac_new 9) 5 6, stats_default, []) of
     (Inl _, _) \<Rightarrow> False | (Inr _, _, st', out') \<Rightarrow> length out' = 1 \<and> packets_sent st' = 1"
proof -
  let ?ts = "\<lparr>ts_server_time = 0, ts_local_time = 0\<rparr> :: time_stamps"
  let ?ob = "outbound_new (isaac_new 9) 5 6"
  have s0: "outbound_session (isaac_new 9) 0 (?ob, stats_default, [])" by (rule outbound_session.start)
  have lim: "0 + 65536 < SESSION" by (simp add: SESSION_def)
  have "length (message_packets (ob_time_pair_held ?ob) ?ts (ob_fragment_sequence ?ob) 4 [[1, 2, 3]]) = 1"
    by (simp add: outbound_new_def message_packets_def plain_packets_def)
  moreover have "\<not> MAX_MESSAGE_BODY < length [1, 2, 3 :: u8]" by (simp add: MAX_MESSAGE_BODY_def frag_consts)
  ultimately show ?thesis
    using send_game_message_total [OF s0 lim, where body = "[1, 2, 3]" and queue = 4 and iv = 1 and stamps = ?ts]
      split_small
    by (auto simp: stats_default_def dest!: open_from_length split: sum.splits)
qed

end
