(* ===== verification/Cleartext.thy ===== *)
theory Cleartext
  imports Sections
begin

text \<open>
  Packets the client sends in the clear: the login request, the connect response, the
  standalone acknowledgement and the request for missing packets. Their body is all optional
  section, so sealing them draws no keystream word and never fails, and they open with no key.
\<close>

definition clear_header :: "packet_header \<Rightarrow> bool" where
  "clear_header h \<longleftrightarrow> \<not> has (hdr_flags h) ENCRYPTED_CHECKSUM \<and> \<not> has (hdr_flags h) BLOB_FRAGMENTS"

text \<open>What a receiver reads from a datagram without a key.\<close>

definition opens_clear :: "bytes \<Rightarrow> packet_header \<Rightarrow> optional_header \<Rightarrow> bytes \<Rightarrow> bool" where
  "opens_clear d h s body \<longleftrightarrow>
     (case parse_packet d of
        Inl _ \<Rightarrow> False
      | Inr p \<Rightarrow>
          pkt_verify p None \<and> pkt_header p = sealed_header h (length body) (hash32 body) \<and>
          pkt_optional p = s \<and> pkt_body p = body \<and> pkt_fragments p = [])"

definition clear_datagram :: "packet_header \<Rightarrow> bytes \<Rightarrow> bytes" where
  "clear_datagram h body = header_to_bytes (sealed_header h (length body) (hash32 body)) @ body"

lemma clear_share: "clear_header h \<Longrightarrow> payload_share (hdr_flags h) body (length body) = hash32 body"
  by (simp add: clear_header_def payload_share_def)

lemma clear_opens:
  assumes h: "clear_header h" and opt: "parse_optional body (hdr_flags h) = Some (s, length body)"
    and len: "length body \<le> 65535"
  shows "opens_clear (clear_datagram h body) h s body"
proof -
  let ?h = "sealed_header h (length body) (hash32 body)"
  define p where "p = the_packet ?h s body (length body)"
  have size: "length body = unat (hdr_data_size ?h)" using len by (simp add: unat_of_nat_small)
  have opt': "parse_optional body (hdr_flags ?h) = Some (s, length body)" using opt by simp
  have "parse_packet (header_to_bytes ?h @ body @ []) = Inr p"
    unfolding p_def by (rule parse_packet_build [OF size opt']) simp
  moreover have "opt_raw s = take (length body) body" using parse_optional_raw [OF opt] by simp
  then have "pkt_verify p None"
    unfolding p_def by (rule sealed_verifies) (simp add: seal_share_def clear_share [OF h])
  moreover have "pkt_fragments p = []"
    using h by (simp add: p_def the_packet_def pkt_fragments_def clear_header_def Let_def)
  ultimately show ?thesis by (simp add: opens_clear_def clear_datagram_def p_def)
qed

lemma clear_seals:
  assumes "clear_header h" "length body \<le> 65535"
  shows "seal_in_place h (replicate 20 0 @ body) (length body) (length body) None =
    (Inr \<lparr>sealed_len = 20 + length body, sealed_key = 0, sealed_payload = hash32 body\<rparr>, clear_datagram h body, None)"
proof -
  have "seal_ok h (replicate 20 0 @ body) (length body) (length body)"
    using assms by (simp add: seal_ok_def layout_ok_def clear_header_def subslice_def)
  moreover have "\<not> has (hdr_flags h) ENCRYPTED_CHECKSUM" using assms(1) by (simp add: clear_header_def)
  ultimately show ?thesis
    using clear_share [OF assms(1), of body]
    by (subst seal_in_place_ok)
      (simp_all add: seal_result_def seal_key_def seal_rest_def seal_share_def clear_datagram_def subslice_def Let_def)
qed

lemma clear_encodes:
  assumes "clear_header h" "parse_optional body (hdr_flags h) = Some (s, length body)" "length body \<le> 65535"
  shows "encode h body None = (Inr (clear_datagram h body), None)"
proof -
  have "layout_ok (hdr_flags h) body (length body)" using assms(1) by (simp add: layout_ok_def clear_header_def)
  then show ?thesis
    using assms clear_share [OF assms(1), of body] by (subst encode_Inr)
      (auto simp: clear_header_def clear_datagram_def seal_key_def seal_rest_def seal_share_def)
qed

section \<open>Lists of sequences\<close>

lemma length_4: "length xs = 4 \<Longrightarrow> \<exists>a b c d. xs = [a, b, c, d]"
  by (auto simp: numeral_eq_Suc length_Suc_conv)

lemma chunks4_concat: "chunks4 (concat (map (le_bytes 4) ids)) = ids"
proof (induction ids)
  case (Cons w ids)
  obtain a b c d where l: "le_bytes 4 w = [a, b, c, d]"
    using length_4 [OF length_le_bytes] by blast
  have "from_le [a, b, c, d] = w" by (simp flip: l)
  then show ?case using Cons by (simp add: l)
qed simp

definition list_body :: "u32 list \<Rightarrow> bytes" where
  "list_body ids = le_bytes 4 (word_of_nat (length ids) :: u32) @ concat (map (le_bytes 4) ids)"

lemma length_concat_le4: "length (concat (map (le_bytes 4) ids)) = 4 * length ids"
  by (induction ids) auto

lemma length_list_body [simp]: "length (list_body ids) = 4 + 4 * length ids"
  by (simp add: list_body_def length_concat_le4)

definition requests :: "u32 list \<Rightarrow> optional_header" where
  "requests ids =
     optional_default\<lparr>opt_raw := list_body ids,
       opt_retransmit_requests := \<lparr>sl_bytes = concat (map (le_bytes 4) ids)\<rparr>\<rparr>"

lemma requests_ids [simp]: "sl_iter (opt_retransmit_requests (requests ids)) = ids"
  by (simp add: requests_def sl_iter_def chunks4_concat)

lemma parses_read_list:
  assumes "length ids \<le> 1024"
  shows "parses read_list (list_body ids) (Some \<lparr>sl_bytes = concat (map (le_bytes 4) ids)\<rparr>)"
  unfolding parses_def
proof (intro allI)
  fix pre suf
  let ?ids = "concat (map (le_bytes 4) ids)" and ?n = "word_of_nat (length ids) :: u32"
  let ?d = "pre @ list_body ids @ suf"
  have n: "unat ?n = length ids" using assms by (simp add: unat_of_nat_small)
  let ?r = "\<lparr>rd_data = ?d, rd_pos = length pre + 4\<rparr>"
  have step1: "rd_u32 \<lparr>rd_data = ?d, rd_pos = length pre\<rparr> = (Inr ?n, ?r)"
    using u32_codec.reads_back [of ?n] unfolding parses_def list_body_def by simp
  have step2: "rd_bytes (4 * length ids) ?r = (Inr ?ids, \<lparr>rd_data = ?d, rd_pos = length pre + 4 + length ?ids\<rparr>)"
  proof -
    have "parses (rd_bytes (4 * length ids)) ?ids ?ids" by (rule parses_bytes) (rule length_concat_le4)
    from this [unfolded parses_def, rule_format, of "pre @ le_bytes 4 ?n" suf]
    show ?thesis by (simp add: list_body_def)
  qed
  have step3: "\<not> rd_remaining ?r < 4 * length ids"
    by (simp add: rd_remaining_def list_body_def length_concat_le4)
  show "read_list \<lparr>rd_data = ?d, rd_pos = length pre\<rparr> =
      (Inr (Some \<lparr>sl_bytes = ?ids\<rparr>), \<lparr>rd_data = ?d, rd_pos = length pre + length (list_body ids)\<rparr>)"
    using assms n step3
    by (simp add: read_list_def rd_bind_def [of rd_u32] step1 mult.commute [of _ 4])
      (simp add: rd_bind_def step2 rd_ret_def length_concat_le4)
qed

definition asks :: "packet_flags \<Rightarrow> bool" where
  "asks f \<longleftrightarrow> \<not> has f SERVER_SWITCH \<and> has f REQUEST_RETRANSMIT \<and> \<not> has f REJECT_RETRANSMIT \<and>
     \<not> has f ACK_SEQUENCE \<and> \<not> has f LOGIN_REQUEST \<and> \<not> has f WORLD_LOGIN_REQUEST \<and>
     \<not> has f CONNECT_REQUEST \<and> \<not> has f CONNECT_RESPONSE \<and> \<not> has f CICMD_COMMAND \<and>
     \<not> has f TIME_SYNC \<and> \<not> has f ECHO_REQUEST \<and> \<not> has f ECHO_RESPONSE \<and> \<not> has f FLOW"

lemma parse_requests:
  assumes "asks f" "length ids \<le> 1024"
  shows "parse_optional (list_body ids) f = Some (requests ids, length (list_body ids))"
proof -
  have inner: "parse_optional_inner (list_body ids) f =
      rd_bind read_list (\<lambda>l. case l of None \<Rightarrow> rd_ret None
        | Some l \<Rightarrow> opt_end (list_body ids) (optional_default\<lparr>opt_retransmit_requests := l\<rparr>))"
    using assms(1) by (simp add: parse_optional_inner_def asks_def opt_list_def [of True])
  have d: "drop 0 (list_body ids) = list_body ids @ []" by simp
  show ?thesis
    unfolding parse_optional_def inner rd_new_def rd_bind_parses [OF parses_read_list [OF assms(2)] d le0]
    by (simp add: opt_end_at requests_def)
qed

end
