(* ===== verification/Scheduler.thy ===== *)
theory Scheduler
  imports Inbound Outbound Cleartext
begin

text \<open>
  \<open>crates/ac-net/src/transport/scheduler.rs\<close>: once per sweep, either the request for missing
  packets (the NAK), or the cumulative acknowledgement, or nothing. \<open>None\<close> as the whole result
  of a definition is the panic of \<open>expect\<close>; \<open>sched_sweep_ok\<close> shows it never happens.
\<close>

section \<open>State and operations\<close>

definition ACK_GATE :: duration where "ACK_GATE = from_secs 2"
definition NAK_GATE :: duration where "NAK_GATE = from_millis 600"
definition MAX_NAK_IDS :: nat where "MAX_NAK_IDS = 114"

record control_header =
  ch_sequence :: u32
  ch_client_id :: u16
  ch_interval_id :: u16
  ch_iteration :: u16

record scheduler =
  sc_shared_timestamp :: net_time

definition scheduler_new :: "net_time \<Rightarrow> scheduler" where
  "scheduler_new t = \<lparr>sc_shared_timestamp = t\<rparr>"

definition control_packet :: "packet_flags \<Rightarrow> bytes \<Rightarrow> control_header \<Rightarrow> bytes option" where
  "control_packet flags body control =
     (let header = header_default\<lparr>hdr_sequence := ch_sequence control, hdr_flags := flags,
                     hdr_id := ch_client_id control, hdr_time := ch_interval_id control,
                     hdr_iteration := ch_iteration control\<rparr>;
          datagram = overwrite (replicate (HEADER_SIZE + length body) 0) HEADER_SIZE body
      in case seal_in_place header datagram (length body) (length body) None of
           (Inl _, _, _) \<Rightarrow> None
         | (Inr s, datagram, _) \<Rightarrow> Some (take (sealed_len s) datagram))"

definition emit_cumulative_ack ::
  "u32 \<Rightarrow> control_header \<Rightarrow> transport_stats \<times> bytes list \<Rightarrow> (transport_stats \<times> bytes list) option" where
  "emit_cumulative_ack highest_received control = (\<lambda>(st, out).
     case control_packet ACK_SEQUENCE (le_bytes 4 highest_received) control of
       None \<Rightarrow> None
     | Some datagram \<Rightarrow> Some (emit st out datagram))"

definition emit_request_retransmit ::
  "inbound \<Rightarrow> control_header \<Rightarrow> transport_stats \<times> bytes list \<Rightarrow> (transport_stats \<times> bytes list) option" where
  "emit_request_retransmit tr control = (\<lambda>(st, out).
     let ids = nak_ids_ascending MAX_NAK_IDS tr;
         body = le_bytes 4 (word_of_nat (length ids) :: u32) @ concat (map (le_bytes 4) ids)
     in case control_packet REQUEST_RETRANSMIT body control of
          None \<Rightarrow> None
        | Some datagram \<Rightarrow>
            let (st, out) = emit st out datagram;
                st = st\<lparr>naks_sent := naks_sent st + 1\<rparr>
            in Some (st\<lparr>nak_ids_sent := nak_ids_sent st + length ids\<rparr>, out))"

definition sched_sweep ::
  "net_time \<Rightarrow> inbound \<Rightarrow> control_header \<Rightarrow> bool \<Rightarrow> scheduler \<times> transport_stats \<times> bytes list \<Rightarrow>
   (u32 option \<times> scheduler \<times> transport_stats \<times> bytes list) option" where
  "sched_sweep t tr control ack_can_ride = (\<lambda>(sc, st, out).
     let elapsed = since t (sc_shared_timestamp sc)
     in if nak_count tr > 0
        then if elapsed \<le> NAK_GATE then Some (None, sc, st, out)
             else (case emit_request_retransmit tr control (st, out) of
                     None \<Rightarrow> None
                   | Some (st, out) \<Rightarrow> Some (None, sc\<lparr>sc_shared_timestamp := t\<rparr>, st, out))
        else if elapsed < ACK_GATE then Some (None, sc, st, out)
        else let sc = sc\<lparr>sc_shared_timestamp := t\<rparr>;
                 st = st\<lparr>acks_sent := acks_sent st + 1\<rparr>;
                 highest = highest_id_received tr
             in if ack_can_ride then Some (Some highest, sc, st, out)
                else (case emit_cumulative_ack highest control (st, out) of
                        None \<Rightarrow> None
                      | Some (st, out) \<Rightarrow> Some (None, sc, st, out)))"

section \<open>The packets\<close>

definition control_fields :: "packet_flags \<Rightarrow> control_header \<Rightarrow> packet_header" where
  "control_fields flags control =
     header_default\<lparr>hdr_sequence := ch_sequence control, hdr_flags := flags,
       hdr_id := ch_client_id control, hdr_time := ch_interval_id control,
       hdr_iteration := ch_iteration control\<rparr>"

lemma control_packet_eq:
  assumes "\<not> has flags ENCRYPTED_CHECKSUM" "\<not> has flags BLOB_FRAGMENTS" "length body \<le> 65535"
  shows "control_packet flags body control = Some (clear_datagram (control_fields flags control) body)"
proof -
  have clear: "clear_header (control_fields flags control)"
    using assms by (simp add: clear_header_def control_fields_def)
  have "overwrite (replicate (HEADER_SIZE + length body) 0) HEADER_SIZE body = replicate 20 0 @ body"
    using overwrite_zeros [of body] by (simp add: HEADER_SIZE_def)
  then show ?thesis
    using clear_seals [OF clear assms(3)] unfolding control_packet_def control_fields_def [symmetric]
    by (simp add: clear_datagram_def)
qed

lemma clear_kinds:
  "\<not> has ACK_SEQUENCE ENCRYPTED_CHECKSUM" "\<not> has ACK_SEQUENCE BLOB_FRAGMENTS"
  "\<not> has REQUEST_RETRANSMIT ENCRYPTED_CHECKSUM" "\<not> has REQUEST_RETRANSMIT BLOB_FRAGMENTS"
  "carries ACK_SEQUENCE True False" "asks REQUEST_RETRANSMIT"
  by (simp_all add: has_def flag_defs carries_def asks_def)

text \<open>What the receiver reads from an acknowledgement and from a request.\<close>

definition ack_packet :: "control_header \<Rightarrow> u32 \<Rightarrow> bytes \<Rightarrow> bool" where
  "ack_packet control a d \<longleftrightarrow>
     opens_clear d (control_fields ACK_SEQUENCE control) (pair_optional (Some a) None) (le_bytes 4 a)"

definition nak_packet :: "control_header \<Rightarrow> u32 list \<Rightarrow> bytes \<Rightarrow> bool" where
  "nak_packet control ids d \<longleftrightarrow>
     opens_clear d (control_fields REQUEST_RETRANSMIT control) (requests ids) (list_body ids)"

lemma emit_cumulative_ack_ok:
  "\<exists>d. emit_cumulative_ack a control (st, out) =
     Some (st\<lparr>packets_sent := packets_sent st + 1\<rparr>, out @ [d]) \<and> ack_packet control a d"
proof -
  let ?d = "clear_datagram (control_fields ACK_SEQUENCE control) (le_bytes 4 a)"
  have "control_packet ACK_SEQUENCE (le_bytes 4 a) control = Some ?d"
    by (rule control_packet_eq) (simp_all add: clear_kinds)
  moreover have "opens_clear ?d (control_fields ACK_SEQUENCE control) (pair_optional (Some a) None) (le_bytes 4 a)"
  proof (rule clear_opens)
    show "clear_header (control_fields ACK_SEQUENCE control)"
      by (simp add: clear_header_def control_fields_def clear_kinds)
    show "parse_optional (le_bytes 4 a) (hdr_flags (control_fields ACK_SEQUENCE control)) =
        Some (pair_optional (Some a) None, length (le_bytes 4 a))"
      using parse_sections [of ACK_SEQUENCE "Some a" None "[]"]
      by (simp add: control_fields_def ack_bytes_def pair_bytes_def clear_kinds)
  qed simp
  ultimately show ?thesis by (simp add: emit_cumulative_ack_def emit_def ack_packet_def)
qed

lemma length_nak_ids: "length (nak_ids_ascending MAX_NAK_IDS tr) \<le> 114"
  by (simp add: nak_ids_ascending_def MAX_NAK_IDS_def)

lemma emit_request_retransmit_ok:
  fixes tr
  defines "ids \<equiv> nak_ids_ascending MAX_NAK_IDS tr"
  shows "\<exists>d. emit_request_retransmit tr control (st, out) =
     Some (st\<lparr>packets_sent := packets_sent st + 1, naks_sent := naks_sent st + 1,
              nak_ids_sent := nak_ids_sent st + length ids\<rparr>, out @ [d]) \<and> nak_packet control ids d"
proof -
  let ?d = "clear_datagram (control_fields REQUEST_RETRANSMIT control) (list_body ids)"
  have len: "length ids \<le> 114" unfolding ids_def by (rule length_nak_ids)
  then have "control_packet REQUEST_RETRANSMIT (list_body ids) control = Some ?d"
    by (intro control_packet_eq) (simp_all add: clear_kinds)
  moreover have "opens_clear ?d (control_fields REQUEST_RETRANSMIT control) (requests ids) (list_body ids)"
  proof (rule clear_opens)
    show "clear_header (control_fields REQUEST_RETRANSMIT control)"
      by (simp add: clear_header_def control_fields_def clear_kinds)
    show "parse_optional (list_body ids) (hdr_flags (control_fields REQUEST_RETRANSMIT control)) =
        Some (requests ids, length (list_body ids))"
      using parse_requests [of REQUEST_RETRANSMIT ids] len by (simp add: control_fields_def clear_kinds)
  qed (use len in simp)
  ultimately show ?thesis
    by (simp add: emit_request_retransmit_def emit_def nak_packet_def Let_def flip: ids_def list_body_def)
qed

section \<open>One sweep\<close>

lemma sched_sweep_nak:
  assumes "nak_count tr > 0"
  shows "sched_sweep t tr control ride (sc, st, out) =
      (if since t (sc_shared_timestamp sc) \<le> NAK_GATE then Some (None, sc, st, out)
       else case the (emit_request_retransmit tr control (st, out)) of
              (st, out) \<Rightarrow> Some (None, \<lparr>sc_shared_timestamp = t\<rparr>, st, out))"
  using assms emit_request_retransmit_ok [of tr control st out] by (cases sc) (auto simp: sched_sweep_def Let_def)

lemma sched_sweep_ack:
  assumes "nak_count tr = 0"
  shows "sched_sweep t tr control ride (sc, st, out) =
      (if since t (sc_shared_timestamp sc) < ACK_GATE then Some (None, sc, st, out)
       else if ride then Some (Some (highest_id_received tr), \<lparr>sc_shared_timestamp = t\<rparr>,
              st\<lparr>acks_sent := acks_sent st + 1\<rparr>, out)
       else case the (emit_cumulative_ack (highest_id_received tr) control (st\<lparr>acks_sent := acks_sent st + 1\<rparr>, out)) of
              (st, out) \<Rightarrow> Some (None, \<lparr>sc_shared_timestamp = t\<rparr>, st, out))"
  using assms emit_cumulative_ack_ok [of "highest_id_received tr" control "st\<lparr>acks_sent := acks_sent st + 1\<rparr>" out]
  by (cases sc) (auto simp: sched_sweep_def Let_def)

text \<open>What one sweep sends: nothing, a NAK, or an ack that rides or goes alone.\<close>

definition sweep_sends ::
  "net_time \<Rightarrow> inbound \<Rightarrow> control_header \<Rightarrow> bool \<Rightarrow> scheduler \<Rightarrow> transport_stats \<Rightarrow>
   u32 option \<Rightarrow> scheduler \<Rightarrow> transport_stats \<Rightarrow> bytes list \<Rightarrow> bool" where
  "sweep_sends t tr control ride sc st riding sc' st' ds \<longleftrightarrow>
     (let elapsed = since t (sc_shared_timestamp sc); ids = nak_ids_ascending MAX_NAK_IDS tr
      in if nak_count tr > 0 \<and> NAK_GATE < elapsed
         then riding = None \<and> sc_shared_timestamp sc' = t \<and> list_all2 (nak_packet control) [ids] ds \<and>
              st' = st\<lparr>packets_sent := packets_sent st + 1, naks_sent := naks_sent st + 1,
                       nak_ids_sent := nak_ids_sent st + length ids\<rparr>
         else if nak_count tr = 0 \<and> ACK_GATE \<le> elapsed
         then sc_shared_timestamp sc' = t \<and>
              (if ride
               then riding = Some (highest_id_received tr) \<and> ds = [] \<and> st' = st\<lparr>acks_sent := acks_sent st + 1\<rparr>
               else riding = None \<and> list_all2 (ack_packet control) [highest_id_received tr] ds \<and>
                    st' = st\<lparr>acks_sent := acks_sent st + 1, packets_sent := packets_sent st + 1\<rparr>)
         else riding = None \<and> sc' = sc \<and> st' = st \<and> ds = [])"

lemma sched_sweep_ok:
  "\<exists>riding sc' st' ds. sched_sweep t tr control ride (sc, st, out) = Some (riding, sc', st', out @ ds) \<and>
     sweep_sends t tr control ride sc st riding sc' st' ds"
proof (cases "nak_count tr = 0")
  case True
  obtain d where "emit_cumulative_ack (highest_id_received tr) control (st\<lparr>acks_sent := acks_sent st + 1\<rparr>, out) =
      Some (st\<lparr>acks_sent := acks_sent st + 1, packets_sent := packets_sent st + 1\<rparr>, out @ [d])"
    "ack_packet control (highest_id_received tr) d"
    using emit_cumulative_ack_ok [of "highest_id_received tr" control "st\<lparr>acks_sent := acks_sent st + 1\<rparr>" out] by auto
  then show ?thesis
    using True by (auto simp: sched_sweep_ack sweep_sends_def Let_def)
next
  case False
  obtain d where d: "emit_request_retransmit tr control (st, out) =
      Some (st\<lparr>packets_sent := packets_sent st + 1, naks_sent := naks_sent st + 1,
              nak_ids_sent := nak_ids_sent st + length (nak_ids_ascending MAX_NAK_IDS tr)\<rparr>, out @ [d])"
    "nak_packet control (nak_ids_ascending MAX_NAK_IDS tr) d"
    using emit_request_retransmit_ok [of tr control st out] by auto
  then show ?thesis
    using False by (auto simp: sched_sweep_nak sweep_sends_def Let_def)
qed

section \<open>Cadence\<close>

text \<open>
  A run of sweeps, each with its time and what it sees, and the list of the sweeps that
  sent (or let ride) something: the time and whether it was an acknowledgement.
\<close>

fun sched_trace ::
  "(net_time \<times> inbound \<times> control_header \<times> bool) list \<Rightarrow> scheduler \<times> transport_stats \<times> bytes list \<Rightarrow>
   (net_time \<times> bool) list option" where
  "sched_trace [] s = Some []"
| "sched_trace ((t, tr, control, ride) # sweeps) (sc, st, out) =
     (case sched_sweep t tr control ride (sc, st, out) of
        None \<Rightarrow> None
      | Some (_, sc', st', out') \<Rightarrow>
          map_option (\<lambda>ev.
              (if acks_sent st' + naks_sent st' = acks_sent st + naks_sent st then []
               else replicate (acks_sent st' + naks_sent st' - (acks_sent st + naks_sent st)) (t, acks_sent st < acks_sent st')) @ ev)
            (sched_trace sweeps (sc', st', out')))"

fun spaced :: "net_time \<Rightarrow> (net_time \<times> bool) list \<Rightarrow> bool" where
  "spaced t [] \<longleftrightarrow> True"
| "spaced t ((u, ack) # ev) \<longleftrightarrow> NAK_GATE < since u t \<and> (ack \<longrightarrow> ACK_GATE \<le> since u t) \<and> spaced u ev"

lemma gates: "NAK_GATE < ACK_GATE"
  by (simp add: NAK_GATE_def ACK_GATE_def from_millis_def from_secs_def)

lemma sched_trace_spaced:
  "\<exists>ev. sched_trace sweeps (sc, st, out) = Some ev \<and> spaced (sc_shared_timestamp sc) ev"
proof (induction sweeps arbitrary: sc st out)
  case Nil
  then show ?case by simp
next
  case (Cons sweep sweeps)
  obtain t tr control ride where s: "sweep = (t, tr, control, ride)" by (metis prod_cases4)
  obtain riding sc' st' ds where r: "sched_sweep t tr control ride (sc, st, out) = Some (riding, sc', st', out @ ds)"
    "sweep_sends t tr control ride sc st riding sc' st' ds"
    using sched_sweep_ok by blast
  obtain ev where ev: "sched_trace sweeps (sc', st', out @ ds) = Some ev" "spaced (sc_shared_timestamp sc') ev"
    using Cons.IH by blast
  show ?case
    using r(2) ev gates by (auto simp: s r(1) sweep_sends_def Let_def split: if_splits)
qed

section \<open>Properties\<close>

text \<open>
  C17. One sweep sends at most one control packet and never fails. It asks for missing
  packets when some are missing and more than 600 ms have passed, naming at most 114, the
  lowest ones, as an exact cleartext request the receiver reads back; otherwise, with nothing
  missing and at least 2 s passed, it acknowledges the highest sequence received, either in an
  exact cleartext packet or by handing the number over; otherwise nothing changes.
\<close>

theorem sweep_sends_one:
  "case sched_sweep t tr control ride (sc, st, out) of
     None \<Rightarrow> False
   | Some (riding, sc', st', out') \<Rightarrow>
       length (nak_ids_ascending MAX_NAK_IDS tr) \<le> 114 \<and> length out' \<le> Suc (length out) \<and>
       take (length out) out' = out \<and>
       sweep_sends t tr control ride sc st riding sc' st' (drop (length out) out')"
proof -
  obtain riding sc' st' ds where r: "sched_sweep t tr control ride (sc, st, out) = Some (riding, sc', st', out @ ds)"
    "sweep_sends t tr control ride sc st riding sc' st' ds"
    using sched_sweep_ok by blast
  have "length ds \<le> 1"
    using r(2) by (auto simp: sweep_sends_def Let_def split: if_splits dest!: list_all2_lengthD)
  then show ?thesis using r length_nak_ids by simp
qed

text \<open>
  The control cadence. Over any run of sweeps at any times, two consecutive control
  messages (and the connection's birth and the first one) are more than 600 ms apart, and an
  acknowledgement comes at least 2 s after whatever went before it.
\<close>

theorem control_cadence:
  "case sched_trace sweeps (scheduler_new t0, st, out) of None \<Rightarrow> False | Some ev \<Rightarrow> spaced t0 ev"
  using sched_trace_spaced [of sweeps "scheduler_new t0" st out] by (auto simp: scheduler_new_def)

end
