(* ===== verification/Ieee.thy ===== *)
theory Ieee
  imports Net_Time
begin

text \<open>
  The floating point the transport uses: the two clocks of a time pair and the loss
  percentage. A non-negative finite number of a format is its bit pattern as a natural number;
  \<open>fp_value\<close> is its value in units of the smallest subnormal and \<open>fp_round\<close> rounds a quotient
  of such values to the nearest number, ties to even. \<open>as_secs_f64\<close>, \<open>as_secs_f32\<close> and
  integer-to-float \<open>as\<close> are those of the Rust standard library. The payload of a NaN that an
  operation makes is not specified by Rust; \<open>F64_NAN\<close> is the one the common targets make.
\<close>

section \<open>Rounding\<close>

definition round_even :: "nat \<Rightarrow> nat \<Rightarrow> nat" where
  "round_even a b =
     (let q = a div b; r = a mod b in if 2 * r > b \<or> (2 * r = b \<and> odd q) then q + 1 else q)"

fun bit_len :: "nat \<Rightarrow> nat" where
  "bit_len n = (if n = 0 then 0 else Suc (bit_len (n div 2)))"

declare bit_len.simps [simp del]

text \<open>Precision, exponent of the smallest subnormal, and the bit pattern of infinity.\<close>

record fp_format =
  fp_prec :: nat
  fp_unit :: nat
  fp_inf :: nat

definition F64 :: fp_format where
  "F64 = \<lparr>fp_prec = 53, fp_unit = 1074, fp_inf = 0x7FF0000000000000\<rparr>"

definition F32 :: fp_format where
  "F32 = \<lparr>fp_prec = 24, fp_unit = 149, fp_inf = 0x7F800000\<rparr>"

definition fp_round :: "fp_format \<Rightarrow> nat \<Rightarrow> nat \<Rightarrow> nat" where
  "fp_round F a b =
     (let k = bit_len (a div b) - fp_prec F
      in min (fp_inf F) (k * 2 ^ (fp_prec F - 1) + round_even a (b * 2 ^ k)))"

definition fp_value :: "fp_format \<Rightarrow> nat \<Rightarrow> nat" where
  "fp_value F m =
     (let e = m div 2 ^ (fp_prec F - 1); f = m mod 2 ^ (fp_prec F - 1)
      in if e = 0 then f else (2 ^ (fp_prec F - 1) + f) * 2 ^ (e - 1))"

section \<open>Operations\<close>

definition fp_of_nat :: "fp_format \<Rightarrow> nat \<Rightarrow> nat" where
  "fp_of_nat F n = fp_round F (n * 2 ^ fp_unit F) 1"

definition fp_plus :: "fp_format \<Rightarrow> nat \<Rightarrow> nat \<Rightarrow> nat" where
  "fp_plus F x y = fp_round F (fp_value F x + fp_value F y) 1"

definition fp_times :: "fp_format \<Rightarrow> nat \<Rightarrow> nat \<Rightarrow> nat" where
  "fp_times F x y = fp_round F (fp_value F x * fp_value F y) (2 ^ fp_unit F)"

definition fp_div :: "fp_format \<Rightarrow> nat \<Rightarrow> nat \<Rightarrow> nat" where
  "fp_div F x y = fp_round F (fp_value F x * 2 ^ fp_unit F) (fp_value F y)"

definition as_secs :: "fp_format \<Rightarrow> duration \<Rightarrow> nat" where
  "as_secs F d = fp_plus F (fp_of_nat F (d div 1000000000))
     (fp_div F (fp_of_nat F (d mod 1000000000)) (fp_of_nat F 1000000000))"

definition as_secs_f64 :: "duration \<Rightarrow> u64" where
  "as_secs_f64 d = word_of_nat (as_secs F64 d)"

definition as_secs_f32 :: "duration \<Rightarrow> u32" where
  "as_secs_f32 d = word_of_nat (as_secs F32 d)"

definition F64_NAN :: u64 where "F64_NAN = 0x7FF8000000000000"

definition f64_neg :: "u64 \<Rightarrow> bool" where
  "f64_neg x \<longleftrightarrow> 2 ^ 63 \<le> unat x"

definition f64_mag :: "u64 \<Rightarrow> nat" where
  "f64_mag x = unat x mod 2 ^ 63"

definition f64_is_nan :: "u64 \<Rightarrow> bool" where
  "f64_is_nan x \<longleftrightarrow> fp_inf F64 < f64_mag x"

definition f64_pack :: "bool \<Rightarrow> nat \<Rightarrow> u64" where
  "f64_pack neg m = word_of_nat (m + (if neg then 2 ^ 63 else 0))"

definition f64_int :: "u64 \<Rightarrow> int" where
  "f64_int x = (if f64_neg x then - int (fp_value F64 (f64_mag x)) else int (fp_value F64 (f64_mag x)))"

definition f64_add :: "u64 \<Rightarrow> u64 \<Rightarrow> u64" where
  "f64_add x y =
     (if f64_is_nan x \<or> f64_is_nan y then F64_NAN
      else if f64_mag x = fp_inf F64
      then (if f64_mag y = fp_inf F64 \<and> f64_neg x \<noteq> f64_neg y then F64_NAN else x)
      else if f64_mag y = fp_inf F64 then y
      else let s = f64_int x + f64_int y
           in if s = 0 then f64_pack (f64_neg x \<and> f64_neg y) 0
              else f64_pack (s < 0) (fp_round F64 (nat \<bar>s\<bar>) 1))"

text \<open>\<open>x > 0.0\<close>: neither zero nor negative nor NaN.\<close>

definition f64_positive :: "u64 \<Rightarrow> bool" where
  "f64_positive x \<longleftrightarrow> \<not> f64_neg x \<and> 0 < f64_mag x \<and> \<not> f64_is_nan x"

section \<open>Rounding is exact on representable values and monotone\<close>

lemma round_even_exact: "0 < b \<Longrightarrow> round_even (n * b) b = n"
  by (simp add: round_even_def)

lemma round_even_bounds: "a div b \<le> round_even a b" "round_even a b \<le> Suc (a div b)"
  by (auto simp: round_even_def Let_def)

lemma round_even_mono:
  assumes "a \<le> a'"
  shows "round_even a b \<le> round_even a' b"
proof -
  have le: "a div b \<le> a' div b" using assms by (rule div_le_mono)
  show ?thesis
  proof (cases "a div b = a' div b")
    case True
    have "a' div b * b + a mod b \<le> a' div b * b + a' mod b"
      using assms div_mult_mod_eq [of a b] div_mult_mod_eq [of a' b] unfolding True by linarith
    then have "a mod b \<le> a' mod b" by (simp only: add_le_cancel_left)
    then show ?thesis using True by (auto simp: round_even_def Let_def)
  next
    case False
    then have "Suc (a div b) \<le> a' div b" using le by simp
    then show ?thesis using round_even_bounds(2) [of a b] round_even_bounds(1) [of a' b] by linarith
  qed
qed

lemma bit_len_0 [simp]: "bit_len 0 = 0"
  by (simp add: bit_len.simps)

lemma bit_len_bounds: "0 < n \<Longrightarrow> 2 ^ (bit_len n - 1) \<le> n \<and> n < 2 ^ bit_len n \<and> 0 < bit_len n"
proof (induction n rule: bit_len.induct)
  case (1 n)
  show ?case
  proof (cases "n div 2 = 0")
    case True
    then have "n = 1" using 1(2) by simp
    then show ?thesis by (simp add: bit_len.simps)
  next
    case False
    then have ih: "2 ^ (bit_len (n div 2) - 1) \<le> n div 2" "n div 2 < 2 ^ bit_len (n div 2)" "0 < bit_len (n div 2)"
      using 1 by auto
    have s: "bit_len n = Suc (bit_len (n div 2))" using 1(2) by (subst bit_len.simps) simp
    obtain j where j: "bit_len (n div 2) = Suc j" using ih(3) gr0_implies_Suc by blast
    show ?thesis using ih(1,2) by (simp add: s j) linarith
  qed
qed

lemma bit_len_unique: "2 ^ j \<le> n \<Longrightarrow> n < 2 ^ Suc j \<Longrightarrow> bit_len n = Suc j"
proof -
  assume a: "2 ^ j \<le> n" "n < 2 ^ Suc j"
  have "0 < n" by (rule order_less_le_trans [OF _ a(1)]) simp
  then have b: "2 ^ (bit_len n - 1) \<le> n" "n < 2 ^ bit_len n" "0 < bit_len n" using bit_len_bounds by auto
  have "(2::nat) ^ j < 2 ^ bit_len n" "(2::nat) ^ (bit_len n - 1) < 2 ^ Suc j" using a b by linarith+
  then have "j < bit_len n" "bit_len n - 1 < Suc j"
    by (simp_all only: power_strict_increasing_iff one_less_numeral_iff semiring_norm)
  then show ?thesis using b(3) by simp
qed

lemma bit_len_le: "n < 2 ^ j \<Longrightarrow> bit_len n \<le> j"
proof -
  assume a: "n < 2 ^ j"
  show ?thesis
  proof (cases "n = 0")
    case False
    then have "2 ^ (bit_len n - 1) \<le> n" using bit_len_bounds [of n] by simp
    then have "2 ^ (bit_len n - 1) < (2::nat) ^ j" using a by (rule order.strict_trans1)
    then have "bit_len n - 1 < j" by simp_all
    then show ?thesis by simp
  qed simp
qed

lemma bit_len_mono: "m \<le> n \<Longrightarrow> bit_len m \<le> bit_len n"
  using bit_len_le [of m "bit_len n"] bit_len_bounds [of n] by (cases "n = 0") auto

text \<open>Before the cap: the exponent step and the mantissa of a rounded quotient.\<close>

definition fp_step :: "fp_format \<Rightarrow> nat \<Rightarrow> nat \<Rightarrow> nat" where
  "fp_step F a b = bit_len (a div b) - fp_prec F"

lemma fp_round_step:
  "fp_round F a b = min (fp_inf F)
     (fp_step F a b * 2 ^ (fp_prec F - 1) + round_even a (b * 2 ^ fp_step F a b))"
  by (simp add: fp_round_def fp_step_def Let_def)

lemma mantissa_upper:
  assumes "0 < fp_prec F"
  shows "round_even a (b * 2 ^ fp_step F a b) \<le> 2 ^ fp_prec F"
proof -
  let ?k = "fp_step F a b"
  have "a div b < 2 ^ (fp_prec F + ?k)"
  proof (cases "a div b = 0")
    case False
    then have "a div b < 2 ^ bit_len (a div b)" using bit_len_bounds by simp
    also have "\<dots> \<le> 2 ^ (fp_prec F + ?k)" by (rule power_increasing) (simp_all add: fp_step_def)
    finally show ?thesis .
  qed simp
  then have "a div b div 2 ^ ?k < 2 ^ fp_prec F" by (simp add: div_less_iff_less_mult power_add)
  then have "a div (b * 2 ^ ?k) < 2 ^ fp_prec F" by (simp add: div_mult2_eq)
  then show ?thesis using round_even_bounds(2) [of a "b * 2 ^ ?k"] by linarith
qed

lemma mantissa_lower:
  assumes "0 < fp_step F a b" "0 < fp_prec F"
  shows "2 ^ (fp_prec F - 1) \<le> round_even a (b * 2 ^ fp_step F a b)"
proof -
  let ?k = "fp_step F a b"
  have len: "bit_len (a div b) = fp_prec F + ?k" using assms(1) by (simp add: fp_step_def)
  then have "0 < a div b" using assms(1) by (metis add_is_0 bit_len_0 neq0_conv)
  then have "2 ^ (fp_prec F + ?k - 1) \<le> a div b" using bit_len_bounds [of "a div b"] len by simp
  moreover have "(2::nat) ^ (fp_prec F - 1) * 2 ^ ?k \<le> 2 ^ (fp_prec F + ?k - 1)"
    by (simp flip: power_add) (use assms in \<open>simp add: power_increasing\<close>)
  ultimately have "2 ^ (fp_prec F - 1) * 2 ^ ?k \<le> a div b" by linarith
  then have "2 ^ (fp_prec F - 1) \<le> a div b div 2 ^ ?k"
    by (metis div_le_mono nonzero_mult_div_cancel_right power_not_zero zero_neq_numeral)
  then show ?thesis using round_even_bounds(1) [of a "b * 2 ^ ?k"] by (simp add: div_mult2_eq)
qed

lemma fp_round_mono:
  assumes "a \<le> a'" "0 < fp_prec F"
  shows "fp_round F a b \<le> fp_round F a' b"
proof -
  let ?k = "fp_step F a b" and ?k' = "fp_step F a' b" and ?p = "2 ^ (fp_prec F - 1) :: nat"
  have kk: "?k \<le> ?k'" using bit_len_mono [OF div_le_mono [OF assms(1)]] by (simp add: fp_step_def diff_le_mono)
  have "?k * ?p + round_even a (b * 2 ^ ?k) \<le> ?k' * ?p + round_even a' (b * 2 ^ ?k')"
  proof (cases "?k = ?k'")
    case True
    then show ?thesis using round_even_mono [OF assms(1)] by simp
  next
    case False
    then have "Suc ?k \<le> ?k'" using kk by simp
    have "(2::nat) ^ fp_prec F = 2 * ?p" using assms(2) by (cases "fp_prec F") simp_all
    then have "?k * ?p + round_even a (b * 2 ^ ?k) \<le> Suc ?k * ?p + ?p"
      using mantissa_upper [OF assms(2), of a b] by simp
    also have "\<dots> \<le> ?k' * ?p + ?p" using \<open>Suc ?k \<le> ?k'\<close> by (simp del: mult_Suc)
    also have "\<dots> \<le> ?k' * ?p + round_even a' (b * 2 ^ ?k')"
      using mantissa_lower [of F a' b] assms(2) \<open>Suc ?k \<le> ?k'\<close> by simp
    finally show ?thesis .
  qed
  then show ?thesis by (auto simp: fp_round_step)
qed

text \<open>Reading back a number: the exponent and fraction fields of its bits.\<close>

lemma fp_value_small:
  assumes "v < 2 ^ fp_prec F" "0 < fp_prec F"
  shows "fp_value F v = v"
proof -
  let ?p = "2 ^ (fp_prec F - 1) :: nat"
  have P: "(2::nat) ^ fp_prec F = 2 * ?p" using assms(2) by (cases "fp_prec F") simp_all
  show ?thesis
  proof (cases "v < ?p")
    case True
    then show ?thesis by (simp add: fp_value_def)
  next
    case False
    then have "v div ?p = 1" "v mod ?p = v - ?p"
      using assms(1) by (auto simp: P intro!: div_nat_eqI mod_nat_eqI)
    then show ?thesis using False by (simp add: fp_value_def Let_def)
  qed
qed

lemma fp_value_normal:
  assumes "2 ^ (fp_prec F - 1) \<le> n" "n < 2 * 2 ^ (fp_prec F - 1)"
  shows "fp_value F (k * 2 ^ (fp_prec F - 1) + n) = n * 2 ^ k"
proof -
  let ?p = "2 ^ (fp_prec F - 1) :: nat"
  define r where "r = n - ?p"
  have n: "n = ?p + r" "r < ?p" using assms by (simp_all add: r_def)
  have e: "k * ?p + n = r + (k + 1) * ?p" by (simp add: n(1))
  have "(r + (k + 1) * ?p) div ?p = k + 1" using n(2) by (subst div_mult_self1) simp_all
  moreover have "(r + (k + 1) * ?p) mod ?p = r" using n(2) by (subst mod_mult_self1) simp
  ultimately have "(k * ?p + n) div ?p = k + 1" "(k * ?p + n) mod ?p = r" unfolding e by this
  then show ?thesis by (simp add: fp_value_def Let_def n(1))
qed

lemma fp_round_exact:
  assumes "v = m * 2 ^ k" "m < 2 ^ fp_prec F" "0 < fp_prec F" "fp_round F v 1 < fp_inf F"
  shows "fp_value F (fp_round F v 1) = v"
proof -
  let ?p = "2 ^ (fp_prec F - 1) :: nat"
  define s where "s = fp_step F v 1"
  have P: "(2::nat) ^ fp_prec F = 2 * ?p" using assms(3) by (cases "fp_prec F") simp_all
  have bits: "fp_round F v 1 = s * ?p + round_even v (2 ^ s)"
    using assms(4) by (simp add: fp_round_step s_def)
  show ?thesis
  proof (cases "s = 0")
    case True
    then have "bit_len v \<le> fp_prec F" by (simp add: s_def fp_step_def)
    then have "v < 2 ^ fp_prec F"
      using bit_len_bounds [of v] by (cases "v = 0") (auto intro: order.strict_trans2 power_increasing)
    then show ?thesis using bits True round_even_exact [of 1 v] by (simp add: fp_value_small assms(3))
  next
    case False
    then have len: "bit_len v = fp_prec F + s" by (simp add: s_def fp_step_def)
    then have v: "2 ^ (fp_prec F + s - 1) \<le> v" "v < 2 ^ (fp_prec F + s)"
      using bit_len_bounds [of v] assms(3) by (cases "v = 0"; simp)+
    have "v < 2 ^ (fp_prec F + k)" using assms(1,2) by (simp add: power_add)
    then have "(2::nat) ^ (fp_prec F + s - 1) < 2 ^ (fp_prec F + k)" using v(1) by linarith
    then have "fp_prec F + s - 1 < fp_prec F + k"
      by (simp only: power_strict_increasing_iff one_less_numeral_iff semiring_norm)
    then have "s \<le> k" by simp
    define n where "n = m * 2 ^ (k - s)"
    have vn: "v = n * 2 ^ s" using \<open>s \<le> k\<close> by (simp add: n_def assms(1) flip: power_add)
    have "fp_prec F + s - 1 = (fp_prec F - 1) + s" using assms(3) by simp
    then have n: "?p \<le> n" "n < 2 * ?p"
    proof -
      have "?p * 2 ^ s \<le> n * 2 ^ s" using v(1) unfolding vn \<open>_ = (fp_prec F - 1) + s\<close> power_add .
      then show "?p \<le> n" by simp
      have "n * 2 ^ s < 2 * ?p * 2 ^ s" using v(2) unfolding vn power_add P .
      then show "n < 2 * ?p" by simp
    qed
    have r: "round_even v (2 ^ s) = n" using round_even_exact [of "2 ^ s" n] by (simp add: vn)
    show ?thesis unfolding bits r fp_value_normal [OF n] by (rule vn [symmetric])
  qed
qed

lemma fp_value_mono:
  assumes "m \<le> m'"
  shows "fp_value F m \<le> fp_value F m'"
proof -
  let ?p = "2 ^ (fp_prec F - 1) :: nat"
  define e f e' f' where d: "e = m div ?p" "f = m mod ?p" "e' = m' div ?p" "f' = m' mod ?p"
  have lt: "f < ?p" "f' < ?p" by (simp_all add: d)
  have le: "e \<le> e'" using assms by (simp add: d div_le_mono)
  have v: "fp_value F m = (if e = 0 then f else (?p + f) * 2 ^ (e - 1))"
    "fp_value F m' = (if e' = 0 then f' else (?p + f') * 2 ^ (e' - 1))"
    by (simp_all add: fp_value_def d Let_def)
  show ?thesis
  proof (cases "e = e'")
    case True
    have "e' * ?p + f \<le> e' * ?p + f'"
      using assms div_mult_mod_eq [of m ?p] div_mult_mod_eq [of m' ?p] True by (simp add: d)
    then show ?thesis using True by (simp add: v)
  next
    case False
    then have e': "e < e'" using le by simp
    have "fp_value F m \<le> ?p * 2 ^ e"
    proof (cases "e = 0")
      case True
      then show ?thesis using lt by (simp add: v)
    next
      case False
      then have "(2::nat) ^ e = 2 * 2 ^ (e - 1)" by (cases e) simp_all
      moreover have "(?p + f) * 2 ^ (e - 1) \<le> (?p + ?p) * 2 ^ (e - 1)" using lt by simp
      ultimately show ?thesis using False by (simp add: v)
    qed
    also have "\<dots> \<le> ?p * 2 ^ (e' - 1)" using e' by simp
    also have "\<dots> \<le> fp_value F m'" using e' by (simp add: v)
    finally show ?thesis .
  qed
qed


section \<open>Seconds\<close>

lemma formats [simp]: "0 < fp_prec F64" "0 < fp_prec F32"
  by (simp_all add: F64_def F32_def)

definition is_format :: "fp_format \<Rightarrow> bool" where
  "is_format F \<longleftrightarrow> F = F64 \<or> F = F32"

text \<open>A billion is a number of both formats, and so is every whole number of seconds below \<open>2 ^ prec\<close>.\<close>

lemma fp_of_nat_exact:
  assumes "is_format F" "n < 2 ^ fp_prec F"
  shows "fp_value F (fp_of_nat F n) = n * 2 ^ fp_unit F"
  unfolding fp_of_nat_def
proof (rule fp_round_exact [OF refl assms(2)])
  have "0 < fp_prec F" using assms(1) by (auto simp: is_format_def)
  then show "0 < fp_prec F" .
  let ?v = "n * 2 ^ fp_unit F" and ?p = "2 ^ (fp_prec F - 1) :: nat"
  have "?v < 2 ^ (fp_prec F + fp_unit F)" using assms(2) by (simp add: power_add)
  then have "bit_len ?v \<le> fp_prec F + fp_unit F" by (rule bit_len_le)
  then have "fp_step F ?v 1 \<le> fp_unit F" by (simp add: fp_step_def)
  then have "fp_step F ?v 1 * ?p \<le> fp_unit F * ?p" by simp
  moreover have "round_even ?v (1 * 2 ^ fp_step F ?v 1) \<le> 2 ^ fp_prec F"
    by (rule mantissa_upper) fact
  ultimately have "fp_round F ?v 1 \<le> fp_unit F * ?p + 2 ^ fp_prec F"
    unfolding fp_round_step by (intro min.coboundedI2 add_mono)
  also have "\<dots> < fp_inf F" using assms(1) by (auto simp: is_format_def F64_def F32_def)
  finally show "fp_round F ?v 1 < fp_inf F" .
qed

lemma as_secs_eq:
  assumes "is_format F" "d div 1000000000 < 2 ^ fp_prec F"
  shows "as_secs F d = fp_round F (d div 1000000000 * 2 ^ fp_unit F +
    fp_value F (fp_div F (fp_of_nat F (d mod 1000000000)) (fp_of_nat F 1000000000))) 1"
  using fp_of_nat_exact [OF assms] by (simp add: as_secs_def fp_plus_def)

lemma fp_of_nat_mono: "m \<le> n \<Longrightarrow> is_format F \<Longrightarrow> fp_of_nat F m \<le> fp_of_nat F n"
  unfolding fp_of_nat_def by (rule fp_round_mono) (auto simp: is_format_def)

lemma fp_round_scale:
  assumes "0 < c"
  shows "fp_round F (c * a) (c * b) = fp_round F a b"
proof -
  have r: "round_even (c * a) (c * b) = round_even a b" for b
  proof -
    have d: "(c * a) div (c * b) = a div b" and m: "(c * a) mod (c * b) = c * (a mod b)"
      using assms by (simp_all only: div_mult_mult1 mult_mod_right neq0_conv)
    have "2 * (c * (a mod b)) = c * (2 * (a mod b))" by (rule mult.left_commute)
    then show ?thesis unfolding round_even_def Let_def d m using assms by simp
  qed
  show ?thesis using assms by (simp add: fp_round_step fp_step_def r mult.assoc)
qed

definition fraction_of :: "fp_format \<Rightarrow> nat \<Rightarrow> nat" where
  "fraction_of F n = fp_value F (fp_div F (fp_of_nat F n) (fp_of_nat F 1000000000))"

lemma fraction_of_mono:
  assumes "m \<le> n" "is_format F"
  shows "fraction_of F m \<le> fraction_of F n"
  unfolding fraction_of_def fp_div_def
proof (intro fp_value_mono fp_round_mono)
  show "fp_value F (fp_of_nat F m) * 2 ^ fp_unit F \<le> fp_value F (fp_of_nat F n) * 2 ^ fp_unit F"
    using fp_value_mono [OF fp_of_nat_mono [OF assms]] by simp
  show "0 < fp_prec F" using assms(2) by (auto simp: is_format_def)
qed

text \<open>The fraction of a second never rounds above one second.\<close>

lemma fraction_of_le:
  assumes "n \<le> 1000000000" "is_format F"
  shows "fraction_of F n \<le> 2 ^ fp_unit F"
proof -
  have one: "fp_value F (fp_of_nat F 1) = 2 ^ fp_unit F"
    using fp_of_nat_exact [OF assms(2), of 1] assms(2) by (auto simp: is_format_def F64_def F32_def)
  let ?v = "fp_value F (fp_of_nat F 1000000000)"
  have "fp_value F (fp_of_nat F 1) \<le> ?v" by (intro fp_value_mono fp_of_nat_mono assms(2)) simp
  moreover have "0 < (2::nat) ^ fp_unit F" by simp
  ultimately have "0 < ?v" unfolding one by linarith
  from fp_round_scale [OF this, of F "2 ^ fp_unit F" 1]
  have "fraction_of F 1000000000 = 2 ^ fp_unit F"
    using one by (simp add: fraction_of_def fp_div_def fp_of_nat_def)
  then show ?thesis using fraction_of_mono [OF assms] by simp
qed

lemma as_secs_mono:
  assumes "is_format F" "d \<le> d'" "d' div 1000000000 < 2 ^ fp_prec F"
  shows "as_secs F d \<le> as_secs F d'"
proof -
  let ?U = "2 ^ fp_unit F :: nat"
  let ?s = "d div 1000000000" and ?s' = "d' div 1000000000"
  let ?g = "fraction_of F (d mod 1000000000)" and ?g' = "fraction_of F (d' mod 1000000000)"
  have le: "?s \<le> ?s'" using assms(2) by (rule div_le_mono)
  have "?s * ?U + ?g \<le> ?s' * ?U + ?g'"
  proof (cases "?s = ?s'")
    case True
    have "d mod 1000000000 \<le> d' mod 1000000000"
      using assms(2) True div_mult_mod_eq [of d 1000000000] div_mult_mod_eq [of d' 1000000000] by linarith
    then show ?thesis using True fraction_of_mono [OF _ assms(1)] by simp
  next
    case False
    then have "Suc ?s * ?U \<le> ?s' * ?U" using le by (intro mult_le_mono1) simp
    moreover have "?g \<le> ?U" using assms(1) by (intro fraction_of_le) simp_all
    ultimately show ?thesis by simp
  qed
  then have "fp_round F (?s * ?U + ?g) 1 \<le> fp_round F (?s' * ?U + ?g') 1"
    using assms(1) by (intro fp_round_mono) (auto simp: is_format_def)
  moreover have "?s < 2 ^ fp_prec F" using le assms(3) by simp
  ultimately show ?thesis using assms by (simp add: as_secs_eq fraction_of_def)
qed

lemma as_secs_finite: "is_format F \<Longrightarrow> as_secs F d \<le> fp_inf F"
  by (simp add: as_secs_def fp_plus_def fp_round_def Let_def)

text \<open>Adding a non-negative number to a non-negative number.\<close>

definition f64_plain :: "u64 \<Rightarrow> bool" where
  "f64_plain x \<longleftrightarrow> unat x \<le> fp_inf F64"

lemma f64_plain_facts:
  assumes "f64_plain x"
  shows "\<not> f64_neg x" "f64_mag x = unat x" "\<not> f64_is_nan x"
  using assms by (simp_all add: f64_plain_def f64_neg_def f64_mag_def f64_is_nan_def F64_def)

lemma unat_pack: "m \<le> fp_inf F64 \<Longrightarrow> unat (f64_pack False m) = m"
  unfolding f64_pack_def by (simp, rule unat_of_nat_small) (simp add: F64_def)

lemma fp_value_0 [simp]: "fp_value F 0 = 0"
  by (simp add: fp_value_def)

lemma f64_add_plain:
  assumes "f64_plain x" "f64_plain y" "unat x < fp_inf F64" "unat y < fp_inf F64"
  shows "unat (f64_add x y) = fp_round F64 (fp_value F64 (unat x) + fp_value F64 (unat y)) 1"
proof -
  let ?s = "fp_value F64 (unat x) + fp_value F64 (unat y)"
  have fin: "fp_round F64 ?s 1 \<le> fp_inf F64" by (simp add: fp_round_def Let_def)
  have z: "fp_round F64 0 1 = 0" by (simp add: fp_round_def round_even_def)
  have "f64_int x + f64_int y = int ?s"
    using f64_plain_facts [OF assms(1)] f64_plain_facts [OF assms(2)] by (simp add: f64_int_def)
  then show ?thesis
    using f64_plain_facts [OF assms(1)] f64_plain_facts [OF assms(2)] assms(3,4) unat_pack [OF fin] z
    by (auto simp: f64_add_def Let_def unat_pack simp flip: of_nat_add)
qed

lemma f64_add_inf:
  assumes "f64_plain x" "unat x < fp_inf F64" "unat y = fp_inf F64"
  shows "f64_add x y = y"
proof -
  have "f64_plain y" using assms(3) by (simp add: f64_plain_def)
  then show ?thesis
    using f64_plain_facts [OF assms(1)] f64_plain_facts [of y] assms(2,3) by (simp add: f64_add_def)
qed

lemma f64_add_mono:
  assumes "f64_plain x" "unat x < fp_inf F64" "f64_plain y'" "y \<le> y'"
  shows "f64_add x y \<le> f64_add x y'"
proof -
  have le: "unat y \<le> unat y'" using assms(4) by (simp add: word_le_nat_alt)
  then have y: "f64_plain y" using assms(3) by (simp add: f64_plain_def)
  have bound: "unat (f64_add x y) \<le> fp_inf F64"
  proof (cases "unat y = fp_inf F64")
    case True
    then show ?thesis using f64_add_inf [OF assms(1,2)] by simp
  next
    case False
    then have "unat y < fp_inf F64" using y by (simp add: f64_plain_def)
    from f64_add_plain [OF assms(1) y assms(2) this] show ?thesis by (simp add: fp_round_def Let_def)
  qed
  show ?thesis
  proof (cases "unat y' = fp_inf F64")
    case True
    then show ?thesis using bound f64_add_inf [OF assms(1,2)] by (simp add: word_le_nat_alt)
  next
    case False
    then have "unat y' < fp_inf F64" "unat y < fp_inf F64" using assms(3) le by (simp_all add: f64_plain_def)
    then show ?thesis
      using f64_add_plain [OF assms(1) y assms(2)] f64_add_plain [OF assms(1,3,2)] fp_value_mono [OF le, of F64]
      by (simp add: word_le_nat_alt fp_round_mono)
  qed
qed

lemma as_secs_word:
  "f64_plain (as_secs_f64 d)" "unat (as_secs_f64 d) = as_secs F64 d" "unat (as_secs_f32 d) = as_secs F32 d"
proof -
  have "as_secs F64 d \<le> fp_inf F64" "as_secs F32 d \<le> fp_inf F32"
    by (rule as_secs_finite; simp add: is_format_def)+
  then have b: "as_secs F64 d < 2 ^ 64" "as_secs F32 d < 2 ^ 32" by (simp_all add: F64_def F32_def)
  show "unat (as_secs_f64 d) = as_secs F64 d" "unat (as_secs_f32 d) = as_secs F32 d"
    unfolding as_secs_f64_def as_secs_f32_def using b by (auto intro!: unat_of_nat_small)
  then show "f64_plain (as_secs_f64 d)" using as_secs_finite [of F64 d] by (simp add: f64_plain_def is_format_def)
qed

end
