(* ===== verification/Packet_Loss.thy ===== *)
theory Packet_Loss
  imports Link_Stats Ieee
begin

text \<open>
  \<open>crates/ac-net/src/transport/loss.rs\<close>: the link-status loss figure over a ring of 40
  two-second samples. \<open>loss_apply\<close> and \<open>loss_sweep\<close> return \<open>None\<close> where the Rust code would
  underflow a \<open>u64\<close> total; the invariant that the totals are the sums over the ring
  excludes it. The percentage is the bit pattern of the source's \<open>f64\<close>.
\<close>

definition WINDOW_SIZE :: nat where
  "WINDOW_SIZE = 40"

definition SNAPSHOT_PERIOD :: duration where
  "SNAPSHOT_PERIOD = from_secs 2"

record loss_sample =
  ls_sent :: u16
  ls_retransmitted :: u16
  ls_received :: u16
  ls_naked :: u16

definition sample_default :: loss_sample where
  "sample_default = \<lparr>ls_sent = 0, ls_retransmitted = 0, ls_received = 0, ls_naked = 0\<rparr>"

record loss_averager =
  la_samples :: "loss_sample list"
  la_snapshot_at :: net_time
  la_last :: "nat list"
  la_totals :: "nat list"
  la_next :: nat
  la_count :: nat

definition loss_counters :: "transport_stats \<Rightarrow> nat list" where
  "loss_counters st = [packets_sent st, resends_sent st, packets_received st, nak_ids_sent st]"

definition loss_new :: "net_time \<Rightarrow> transport_stats \<Rightarrow> loss_averager" where
  "loss_new t st =
     \<lparr>la_samples = replicate WINDOW_SIZE sample_default, la_snapshot_at = t,
      la_last = loss_counters st, la_totals = [0, 0, 0, 0], la_next = 0, la_count = 0\<rparr>"

definition loss_percentage :: "loss_averager \<Rightarrow> u64" where
  "loss_percentage a =
     (let sent = la_totals a ! 0; retransmitted = la_totals a ! 1;
          received = la_totals a ! 2; naked = la_totals a ! 3;
          denominator = received + sent
      in if denominator = 0 then 0
         else word_of_nat (fp_div F64 (fp_times F64 (fp_of_nat F64 100) (fp_of_nat F64 (naked + retransmitted)))
                (fp_of_nat F64 denominator)))"

definition sample_values :: "loss_sample \<Rightarrow> nat list" where
  "sample_values s = [unat (ls_sent s), unat (ls_retransmitted s), unat (ls_received s), unat (ls_naked s)]"

definition loss_apply :: "loss_sample \<Rightarrow> bool \<Rightarrow> loss_averager \<Rightarrow> loss_averager option" where
  "loss_apply s add a =
     (if add then Some (a\<lparr>la_totals := map2 (+) (la_totals a) (sample_values s)\<rparr>)
      else if list_all2 (\<le>) (sample_values s) (la_totals a)
           then Some (a\<lparr>la_totals := map2 (-) (la_totals a) (sample_values s)\<rparr>)
           else None)"

text \<open>The deltas, saturating at zero and truncated to 16 bits.\<close>

definition loss_delta :: "nat list \<Rightarrow> nat list \<Rightarrow> u16 list" where
  "loss_delta current before = map2 (\<lambda>c l. word_of_nat (c - l)) current before"

definition loss_sweep :: "net_time \<Rightarrow> transport_stats \<Rightarrow> loss_averager \<Rightarrow> loss_averager option" where
  "loss_sweep t st a =
     (if since t (la_snapshot_at a) < SNAPSHOT_PERIOD then Some a
      else let current = loss_counters st;
               delta = loss_delta current (la_last a);
               a = a\<lparr>la_snapshot_at := t, la_last := current\<rparr>;
               sample = \<lparr>ls_sent = delta ! 0, ls_retransmitted = delta ! 1, ls_received = delta ! 2,
                         ls_naked = delta ! 3\<rparr>
           in case (if la_count a = WINDOW_SIZE then loss_apply (la_samples a ! la_next a) False a
                    else Some (a\<lparr>la_count := la_count a + 1\<rparr>)) of
                None \<Rightarrow> None
              | Some a \<Rightarrow>
                  loss_apply sample True
                    (a\<lparr>la_samples := (la_samples a)[la_next a := sample],
                       la_next := (la_next a + 1) mod WINDOW_SIZE\<rparr>))"

section \<open>The totals are the sums over the ring\<close>

text \<open>Slots never written hold the zero sample, so the sum runs over the whole ring.\<close>

definition ring_sum :: "loss_sample list \<Rightarrow> nat \<Rightarrow> nat" where
  "ring_sum xs k = sum_list (map (\<lambda>s. sample_values s ! k) xs)"

definition loss_ok :: "loss_averager \<Rightarrow> bool" where
  "loss_ok a \<longleftrightarrow>
     length (la_samples a) = WINDOW_SIZE \<and> la_next a < WINDOW_SIZE \<and> la_count a \<le> WINDOW_SIZE \<and>
     length (la_last a) = 4 \<and> la_totals a = map (ring_sum (la_samples a)) [0..<4] \<and>
     (la_count a < WINDOW_SIZE \<longrightarrow> la_next a = la_count a \<and>
        (\<forall>i. la_count a \<le> i \<and> i < WINDOW_SIZE \<longrightarrow> la_samples a ! i = sample_default))"

lemma upt4: "[0..<4] = [0, 1, 2, 3 :: nat]"
  by code_simp

lemma sample_values_nth: "map (\<lambda>k. sample_values s ! k) [0..<4] = sample_values s"
  by (simp add: upt4 sample_values_def)

lemma ring_sum_update:
  "i < length xs \<Longrightarrow> ring_sum (xs[i := s]) k + sample_values (xs ! i) ! k = ring_sum xs k + sample_values s ! k"
proof (induction xs arbitrary: i)
  case Nil
  then show ?case by simp
next
  case (Cons x xs)
  show ?case
  proof (cases i)
    case 0
    then show ?thesis by (simp add: ring_sum_def)
  next
    case (Suc j)
    then have "ring_sum (xs[j := s]) k + sample_values (xs ! j) ! k = ring_sum xs k + sample_values s ! k"
      using Cons by simp
    then show ?thesis using Suc by (simp add: ring_sum_def)
  qed
qed

lemma ring_sum_ge: "i < length xs \<Longrightarrow> sample_values (xs ! i) ! k \<le> ring_sum xs k"
proof (induction xs arbitrary: i)
  case Nil
  then show ?case by simp
next
  case (Cons x xs)
  then show ?case
    by (cases i) (auto simp: ring_sum_def intro: trans_le_add2)
qed

lemma ring_sum_replace:
  assumes "i < length xs" "T = map (ring_sum xs) [0..<4]"
  shows "list_all2 (\<le>) (sample_values (xs ! i)) T"
    "map2 (+) (map2 (-) T (sample_values (xs ! i))) (sample_values s) = map (ring_sum (xs[i := s])) [0..<4]"
proof -
  note ge = ring_sum_ge [OF assms(1)]
  note up = ring_sum_update [OF assms(1), of s]
  show "list_all2 (\<le>) (sample_values (xs ! i)) T"
    using ge [of 0] ge [of 1] ge [of 2] ge [of 3] by (simp add: assms(2) upt4 sample_values_def)
  show "map2 (+) (map2 (-) T (sample_values (xs ! i))) (sample_values s) = map (ring_sum (xs[i := s])) [0..<4]"
    using ge [of 0] ge [of 1] ge [of 2] ge [of 3] up [of 0, symmetric] up [of 1, symmetric]
      up [of 2, symmetric] up [of 3, symmetric]
    by (simp add: assms(2) upt4 sample_values_def)
qed

lemma loss_ok_new [wf_intros]: "loss_ok (loss_new t st)"
  by (simp add: loss_ok_def loss_new_def WINDOW_SIZE_def upt4 ring_sum_def sum_list_replicate map_replicate
      sample_default_def sample_values_def loss_counters_def)

lemma loss_sweep_early: "since t (la_snapshot_at a) < SNAPSHOT_PERIOD \<Longrightarrow> loss_sweep t st a = Some a"
  by (simp add: loss_sweep_def)

text \<open>One sample replaces the slot at \<open>la_next\<close>; the totals follow.\<close>

lemma loss_sweep_takes:
  fixes st :: transport_stats
  assumes ok: "loss_ok a" and due: "SNAPSHOT_PERIOD \<le> t - la_snapshot_at a"
  defines "d \<equiv> loss_delta (loss_counters st) (la_last a)"
  defines "xs \<equiv> (la_samples a)[la_next a := \<lparr>ls_sent = d ! 0, ls_retransmitted = d ! 1, ls_received = d ! 2, ls_naked = d ! 3\<rparr>]"
  shows "loss_sweep t st a = Some
    \<lparr>la_samples = xs, la_snapshot_at = t, la_last = loss_counters st, la_totals = map (ring_sum xs) [0..<4],
     la_next = (la_next a + 1) mod WINDOW_SIZE, la_count = min WINDOW_SIZE (la_count a + 1)\<rparr>"
proof -
  have i: "la_next a < length (la_samples a)" and T: "la_totals a = map (ring_sum (la_samples a)) [0..<4]"
    using ok by (simp_all add: loss_ok_def)
  let ?s = "\<lparr>ls_sent = d ! 0, ls_retransmitted = d ! 1, ls_received = d ! 2, ls_naked = d ! 3\<rparr>"
  note rep = ring_sum_replace [OF i T]
  have due': "\<not> since t (la_snapshot_at a) < SNAPSHOT_PERIOD" using due by (simp add: since_def)
  show ?thesis
  proof (cases "la_count a = WINDOW_SIZE")
    case True
    then show ?thesis
      using due' rep(1) rep(2) [of ?s]
      by (simp add: loss_sweep_def loss_apply_def Let_def d_def [symmetric] xs_def)
  next
    case False
    then have c: "la_count a < WINDOW_SIZE" "la_next a = la_count a" "la_samples a ! la_next a = sample_default"
      using ok by (auto simp: loss_ok_def)
    have "map2 (-) (la_totals a) (sample_values sample_default) = la_totals a"
      by (simp add: T upt4 sample_values_def sample_default_def)
    then show ?thesis
      using due' rep(2) [of ?s] c
      by (simp add: loss_sweep_def loss_apply_def Let_def d_def [symmetric] xs_def)
  qed
qed

lemma loss_sweep_step:
  assumes "loss_ok a"
  shows "\<exists>a'. loss_sweep t st a = Some a' \<and> loss_ok a' \<and> la_totals a' = map (ring_sum (la_samples a')) [0..<4] \<and>
    (t - la_snapshot_at a < SNAPSHOT_PERIOD \<longrightarrow> a' = a) \<and>
    (SNAPSHOT_PERIOD \<le> t - la_snapshot_at a \<longrightarrow>
       la_snapshot_at a' = t \<and> la_last a' = loss_counters st \<and>
       (\<forall>i < WINDOW_SIZE. i \<noteq> la_next a \<longrightarrow> la_samples a' ! i = la_samples a ! i) \<and>
       sample_values (la_samples a' ! la_next a) =
         map2 (\<lambda>c l. (c - l) mod 65536) (loss_counters st) (la_last a))"
proof (cases "SNAPSHOT_PERIOD \<le> t - la_snapshot_at a")
  case False
  then show ?thesis using assms by (auto simp: loss_sweep_early since_def loss_ok_def)
next
  case True
  define d where "d = loss_delta (loss_counters st) (la_last a)"
  define s where "s = \<lparr>ls_sent = d ! 0, ls_retransmitted = d ! 1, ls_received = d ! 2, ls_naked = d ! 3\<rparr>"
  define xs where "xs = (la_samples a)[la_next a := s]"
  define a' where "a' = \<lparr>la_samples = xs, la_snapshot_at = t, la_last = loss_counters st,
    la_totals = map (ring_sum xs) [0..<4], la_next = (la_next a + 1) mod WINDOW_SIZE,
    la_count = min WINDOW_SIZE (la_count a + 1)\<rparr>"
  have sweep: "loss_sweep t st a = Some a'"
    using loss_sweep_takes [OF assms True, of st] by (simp add: a'_def xs_def s_def d_def)
  have i: "la_next a < length (la_samples a)" "length (la_samples a) = 40" "length (la_last a) = 4"
    using assms by (simp_all add: loss_ok_def WINDOW_SIZE_def)
  obtain l0 l1 l2 l3 where l: "la_last a = [l0, l1, l2, l3]"
    using i(3) by (auto simp: numeral_eq_Suc length_Suc_conv)
  have vals: "sample_values s = map2 (\<lambda>c l. (c - l) mod 65536) (loss_counters st) (la_last a)"
    by (simp add: s_def d_def sample_values_def loss_delta_def loss_counters_def l unat_of_nat)
  have c: "la_count a \<le> 40" "la_next a < 40"
    "la_count a < 40 \<Longrightarrow> la_next a = la_count a"
    "la_count a < 40 \<Longrightarrow> la_count a \<le> j \<Longrightarrow> j < 40 \<Longrightarrow> la_samples a ! j = sample_default" for j
    using assms by (simp_all add: loss_ok_def WINDOW_SIZE_def)
  have "xs ! j = sample_default" if "la_count a + 1 \<le> j" "j < 40" for j
    using c that i by (simp add: xs_def nth_list_update)
  note keep = this
  have lx: "length xs = 40" using i by (simp add: xs_def)
  have "loss_ok a'"
  proof (cases "la_count a < 39")
    case True
    then have "min 40 (la_count a + 1) = la_count a + 1" "(la_next a + 1) mod 40 = la_count a + 1"
      using c by simp_all
    then show ?thesis
      unfolding loss_ok_def a'_def WINDOW_SIZE_def using lx keep True by (simp add: loss_counters_def)
  next
    case False
    then have "min 40 (la_count a + 1) = 40" by simp
    then show ?thesis
      unfolding loss_ok_def a'_def WINDOW_SIZE_def using lx by (simp add: loss_counters_def)
  qed
  then show ?thesis
    using sweep vals i True by (auto simp: a'_def xs_def WINDOW_SIZE_def)
qed

text \<open>
  C19. The packet-loss totals never underflow and are always the sums over the 40-sample
  window: a sweep succeeds, keeps the invariant, takes a sample exactly when two seconds have
  passed, and then evicts precisely the sample 40 periods old.
\<close>

theorem loss_sweep_keeps_sums:
  assumes "loss_ok a"
  shows "\<exists>a'. loss_sweep t st a = Some a' \<and> loss_ok a' \<and> la_totals a' = map (ring_sum (la_samples a')) [0..<4] \<and>
    (t - la_snapshot_at a < SNAPSHOT_PERIOD \<longrightarrow> a' = a) \<and>
    (SNAPSHOT_PERIOD \<le> t - la_snapshot_at a \<longrightarrow>
       la_snapshot_at a' = t \<and> la_last a' = loss_counters st \<and>
       (\<forall>i < WINDOW_SIZE. i \<noteq> la_next a \<longrightarrow> la_samples a' ! i = la_samples a ! i) \<and>
       sample_values (la_samples a' ! la_next a) =
         map2 (\<lambda>c l. (c - l) mod 65536) (loss_counters st) (la_last a))"
  by (rule loss_sweep_step [OF assms])

lemma loss_sweep_keeps_sums_witness:
  "\<exists>a'. loss_sweep (from_secs 2) (stats_default\<lparr>packets_sent := 65541\<rparr>) (loss_new 0 stats_default) = Some a' \<and>
    sample_values (la_samples a' ! 0) = [5, 0, 0, 0]"
  using loss_sweep_keeps_sums [OF loss_ok_new [of 0 stats_default], of "from_secs 2" "stats_default\<lparr>packets_sent := 65541\<rparr>"]
  by (auto simp: SNAPSHOT_PERIOD_def loss_new_def loss_counters_def stats_default_def)

end
