(* ===== verification/Transport.thy ===== *)
theory Transport
  imports Scheduler Packet_Loss Assembler
begin

text \<open>
  \<open>ReliableTransport\<close> of \<open>crates/ac-net/src/transport/mod.rs\<close>: the clock, the counters, the
  outbound queue, the inbound tracker, the assembler, the scheduler and the loss figure under
  one periodic sweep. \<open>None\<close> as the result of the sweep is a panic of one of its parts.
\<close>

section \<open>State\<close>

definition ASSEMBLER_SWEEP_PERIOD :: duration where
  "ASSEMBLER_SWEEP_PERIOD = from_secs 5"

record transport =
  tp_clock :: interval_clock
  tp_stats :: transport_stats
  tp_outbound :: outbound
  tp_inbound :: inbound
  tp_assembler :: assembler
  tp_scheduler :: scheduler
  tp_loss :: loss_averager
  tp_assembler_sweep_at :: net_time
  tp_client_id :: u16
  tp_iteration :: u16
  tp_now :: net_time
  tp_server_time :: u64
  tp_server_time_at :: net_time
  tp_out :: "bytes list"

definition transport_new ::
  "net_time \<Rightarrow> isaac \<Rightarrow> isaac \<Rightarrow> u16 \<Rightarrow> u16 \<Rightarrow> u64 \<Rightarrow> transport" where
  "transport_new t outbound_keystream inbound_keystream client_id iteration server_time =
     (let st = stats_default
      in \<lparr>tp_clock = clock_new t, tp_stats = st,
          tp_outbound = outbound_new outbound_keystream client_id iteration,
          tp_inbound = inbound_new inbound_keystream INITIAL_WATERMARK,
          tp_assembler = assembler_new, tp_scheduler = scheduler_new t, tp_loss = loss_new t st,
          tp_assembler_sweep_at = t, tp_client_id = client_id, tp_iteration = iteration, tp_now = t,
          tp_server_time = server_time, tp_server_time_at = t, tp_out = []\<rparr>)"

definition tp_stamps :: "transport \<Rightarrow> time_stamps" where
  "tp_stamps tp =
     \<lparr>ts_server_time = f64_add (tp_server_time tp) (as_secs_f64 (since (tp_now tp) (tp_server_time_at tp))),
      ts_local_time = as_secs_f32 (as_duration (tp_now tp))\<rparr>"

text \<open>The queue with the counters and datagrams it shares with the rest, and back.\<close>

definition tp_flow :: "transport \<Rightarrow> flow" where
  "tp_flow tp = (tp_outbound tp, tp_stats tp, tp_out tp)"

definition with_flow :: "flow \<Rightarrow> transport \<Rightarrow> transport" where
  "with_flow = (\<lambda>(ob, st, out) tp. tp\<lparr>tp_outbound := ob, tp_stats := st, tp_out := out\<rparr>)"

definition tp_send_game_message ::
  "net_time \<Rightarrow> bytes \<Rightarrow> u16 \<Rightarrow> transport \<Rightarrow> (send_error + unit) \<times> transport" where
  "tp_send_game_message t body queue tp =
     (let tp = tp\<lparr>tp_now := max (tp_now tp) t\<rparr>;
          stamps = tp_stamps tp;
          (r, fl) = outbound_send_game_message body queue (ck_interval_id (tp_clock tp)) stamps (tp_flow tp)
      in (r, with_flow fl tp))"

definition note_server_time :: "u64 \<Rightarrow> net_time \<Rightarrow> transport \<Rightarrow> transport" where
  "note_server_time server_time at tp = tp\<lparr>tp_server_time := server_time, tp_server_time_at := at\<rparr>"

definition packet_loss_percentage :: "transport \<Rightarrow> u64" where
  "packet_loss_percentage tp = loss_percentage (tp_loss tp)"

definition pop_outgoing :: "transport \<Rightarrow> bytes option \<times> transport" where
  "pop_outgoing tp = (case tp_out tp of [] \<Rightarrow> (None, tp) | d # ds \<Rightarrow> (Some d, tp\<lparr>tp_out := ds\<rparr>))"

section \<open>The sweep\<close>

definition sweep_control :: "transport \<Rightarrow> control_header" where
  "sweep_control tp =
     \<lparr>ch_sequence = ob_highest_id_sent (tp_outbound tp), ch_client_id = tp_client_id tp,
      ch_interval_id = ck_interval_id (tp_clock tp), ch_iteration = tp_iteration tp\<rparr>"

text \<open>The \<open>match riding_ack\<close>.\<close>

definition sweep_pairs ::
  "u32 option \<Rightarrow> bool \<Rightarrow> bool \<Rightarrow> u16 \<Rightarrow> time_stamps \<Rightarrow> flow \<Rightarrow> flow option" where
  "sweep_pairs riding_ack held pair_point interval_id stamps fl =
     (case riding_ack of
        Some ack \<Rightarrow>
          (case release_time_pair_with_ack ack pair_point interval_id stamps fl of
             None \<Rightarrow> None
           | Some fl \<Rightarrow> if held \<and> pair_point then queue_time_pair interval_id stamps fl else Some fl)
      | None \<Rightarrow> if pair_point then queue_time_pair interval_id stamps fl else Some fl)"

definition transport_sweep :: "net_time \<Rightarrow> bool \<Rightarrow> transport \<Rightarrow> transport option" where
  "transport_sweep t confirmed tp =
     (let (crossed, clock) = clock_update t (tp_clock tp);
          pair_point = (crossed \<and> confirmed);
          tp = tp\<lparr>tp_clock := clock, tp_now := max (tp_now tp) t\<rparr>
      in case loss_sweep t (tp_stats tp) (tp_loss tp) of
           None \<Rightarrow> None
         | Some loss \<Rightarrow>
             let tp = tp\<lparr>tp_loss := loss\<rparr>;
                 control = sweep_control tp;
                 held = ob_time_pair_held (tp_outbound tp)
             in case sched_sweep t (tp_inbound tp) control (held \<or> pair_point)
                       (tp_scheduler tp, tp_stats tp, tp_out tp) of
                  None \<Rightarrow> None
                | Some (riding_ack, sc, st, out) \<Rightarrow>
                    let tp = tp\<lparr>tp_scheduler := sc, tp_stats := st, tp_out := out\<rparr>;
                        stamps = tp_stamps tp;
                        interval_id = ck_interval_id (tp_clock tp);
                        fl = transmit_pending_resends interval_id stamps (tp_flow tp)
                    in case sweep_pairs riding_ack held pair_point interval_id stamps fl of
                         None \<Rightarrow> None
                       | Some fl \<Rightarrow>
                           let tp = with_flow fl tp
                           in Some (if ASSEMBLER_SWEEP_PERIOD \<le> since t (tp_assembler_sweep_at tp)
                                    then tp\<lparr>tp_assembler_sweep_at := t,
                                            tp_assembler := snd (sweep_expired t (tp_assembler tp))\<rparr>
                                    else tp))"

section \<open>Invariant\<close>

text \<open>What the transport puts on the wire: a numbered packet of its own, or a cleartext ack or NAK.\<close>

definition wire_ok :: "isaac \<Rightarrow> nat \<Rightarrow> bytes \<Rightarrow> bool" where
  "wire_ok K n d \<longleftrightarrow>
     own_packet K n d \<or> (\<exists>control a. ack_packet control a d) \<or>
     (\<exists>control ids. length ids \<le> 114 \<and> nak_packet control ids d)"

definition transport_ok :: "isaac \<Rightarrow> nat \<Rightarrow> transport \<Rightarrow> bool" where
  "transport_ok K n tp \<longleftrightarrow>
     outbound_ok K n (tp_outbound tp) \<and> loss_ok (tp_loss tp) \<and> assembler_ok (tp_assembler tp) \<and>
     list_all (wire_ok K n) (tp_out tp)"

lemma wire_ok_mono: "wire_ok K n d \<Longrightarrow> n \<le> m \<Longrightarrow> wire_ok K m d"
  using own_packet_mono by (auto simp: wire_ok_def)

lemma wire_ok_mono_all: "list_all (wire_ok K n) ds \<Longrightarrow> n \<le> m \<Longrightarrow> list_all (wire_ok K m) ds"
  using wire_ok_mono by (auto simp: list_all_iff)

lemma own_wire_ok: "list_all (own_packet K n) ds \<Longrightarrow> list_all (wire_ok K n) ds"
  by (auto simp: list_all_iff wire_ok_def)

lemma transport_ok_new: "transport_ok K 0 (transport_new t K I cid it x)"
  by (simp add: transport_ok_def transport_new_def outbound_ok_new loss_ok_new assembler_ok_new inbound_new_def Let_def)

lemma sends_wire:
  assumes "sends K n (ob, st, out) cs s" "list_all (wire_ok K n) out"
  shows "outbound_ok K (n + length cs) (fst s) \<and> list_all (wire_ok K (n + length cs)) (snd (snd s)) \<and>
    length (snd (snd s)) = length out + length cs"
proof -
  obtain ob' st' out' where s: "s = (ob', st', out')" by (metis prod_cases3)
  obtain ds where ds: "out' = out @ ds" "open_from K n ds cs" using assms(1) by (auto simp: s sends_def)
  have "list_all (wire_ok K (n + length cs)) out" using assms(2) by (rule wire_ok_mono_all) simp
  then show ?thesis
    using assms(1) ds own_wire_ok [OF open_from_own [OF ds(2)]] open_from_length [OF ds(2)] by (simp add: s sends_def)
qed

lemma sweep_sends_wire: "sweep_sends t tr control ride sc st riding sc' st' ds \<Longrightarrow> list_all (wire_ok K n) ds"
  using length_nak_ids [of tr]
  by (auto simp: sweep_sends_def wire_ok_def Let_def list_all2_Cons1 split: if_splits) blast+

lemma sweep_sends_riding: "sweep_sends t tr control ride sc st (Some a) sc' st' ds \<Longrightarrow> ride"
  by (auto simp: sweep_sends_def Let_def split: if_splits)

section \<open>The sweep keeps the invariant\<close>

text \<open>Pairs are conserved: one held or due is held afterwards or has gone.\<close>

lemma sweep_pairs_ok:
  assumes ok: "outbound_ok K n ob" and lim: "Suc n < SESSION"
    and riding: "riding \<noteq> None \<Longrightarrow> ob_time_pair_held ob \<or> pair_point"
  shows "\<exists>s' cs. sweep_pairs riding (ob_time_pair_held ob) pair_point iv stamps (ob, st, out) = Some s' \<and>
    sends K n (ob, st, out) cs s' \<and>
    of_bool (ob_time_pair_held (fst s')) + length cs = of_bool (ob_time_pair_held ob) + (of_bool pair_point :: nat) \<and>
    list_all (\<lambda>c. c = (riding, Some stamps, None)) cs"
proof (cases riding)
  case None
  obtain s' where q: "queue_time_pair iv stamps (ob, st, out) = Some s'"
    "sends K n (ob, st, out) (if ob_time_pair_held ob then [(None, Some stamps, None)] else []) s'"
    "ob_time_pair_held (fst s')"
    using queue_time_pair_ok [OF ok lim] by blast
  have idle: "sends K n (ob, st, out) [] (ob, st, out)" using ok by (simp add: sends_def)
  show ?thesis
  proof (cases pair_point)
    case True
    show ?thesis
    proof (intro exI conjI)
      show "sweep_pairs riding (ob_time_pair_held ob) pair_point iv stamps (ob, st, out) = Some s'"
        unfolding sweep_pairs_def None option.case if_P [OF True] by (rule q(1))
      show "sends K n (ob, st, out) (if ob_time_pair_held ob then [(None, Some stamps, None)] else []) s'" by (rule q(2))
    qed (simp_all add: q(3) True None)
  next
    case False
    then show ?thesis using None idle by (intro exI [of _ "(ob, st, out)"] exI [of _ "[]"]) (simp add: sweep_pairs_def)
  qed
next
  case (Some a)
  then have due: "ob_time_pair_held ob \<or> pair_point" using riding by simp
  obtain s1 where r1: "release_time_pair_with_ack a pair_point iv stamps (ob, st, out) = Some s1"
    "sends K n (ob, st, out) (if ob_time_pair_held ob \<or> pair_point then [(Some a, Some stamps, None)] else []) s1"
    "\<not> ob_time_pair_held (fst s1)"
    using release_time_pair_ok [OF ok lim] by blast
  obtain ob1 st1 out1 where s1: "s1 = (ob1, st1, out1)" by (metis prod_cases3)
  have r: "release_time_pair_with_ack a pair_point iv stamps (ob, st, out) = Some (ob1, st1, out1)"
    "sends K n (ob, st, out) [(Some a, Some stamps, None)] (ob1, st1, out1)" "\<not> ob_time_pair_held ob1"
    using r1 due by (simp_all add: s1)
  have q: "queue_time_pair iv stamps (ob1, st1, out1) = Some (ob1\<lparr>ob_time_pair_held := True\<rparr>, st1, out1)"
    using r(3) by (simp add: queue_time_pair_def)
  have "sends K n (ob, st, out) [(Some a, Some stamps, None)] (ob1\<lparr>ob_time_pair_held := True\<rparr>, st1, out1)"
    using r(2) by (simp add: sends_def outbound_ok_cong)
  with r q due Some show ?thesis
    by (cases "ob_time_pair_held ob \<and> pair_point")
      (auto simp: sweep_pairs_def intro!: exI [of _ "[(Some a, Some stamps, None)]"])
qed

text \<open>
  What a sweep puts on the wire: at most one control packet, resends, then the time pairs. Every
  pair is a numbered packet of its own, with the given clocks and the acknowledgement that rides it.
\<close>

definition sweep_emits ::
    "isaac \<Rightarrow> nat \<Rightarrow> control_header \<Rightarrow> inbound \<Rightarrow> bool \<Rightarrow> time_stamps \<Rightarrow> bool \<Rightarrow> bool \<Rightarrow> nat \<Rightarrow> bytes list \<Rightarrow> bool" where
  "sweep_emits K n control tr due stamps held held' k ds \<longleftrightarrow>
     (\<exists>controls resent pairs riding.
        ds = controls @ resent @ pairs \<and> length controls \<le> 1 \<and>
        list_all (\<lambda>d. ack_packet control (highest_id_received tr) d \<or> nak_packet control (nak_ids_ascending MAX_NAK_IDS tr) d) controls \<and>
        list_all (own_packet K n) resent \<and>
        open_from K n pairs (replicate k (riding, Some stamps, None)) \<and>
        (riding = None \<or> riding = Some (highest_id_received tr) \<and> controls = []) \<and>
        of_bool held' + k = of_bool held + (of_bool due :: nat))"

definition sweep_adds :: "isaac \<Rightarrow> nat \<Rightarrow> bool \<Rightarrow> bool \<Rightarrow> nat \<Rightarrow> bool \<Rightarrow> bytes list \<Rightarrow> bool" where
  "sweep_adds K n pair_point held m held' ds \<longleftrightarrow>
     n \<le> m \<and> of_bool held' + (m - n) = of_bool held + (of_bool pair_point :: nat) \<and>
     list_all (wire_ok K m) ds"

lemma sweep_emits_adds:
  assumes "sweep_emits K n control tr due stamps held held' k ds"
  shows "sweep_adds K n due held (n + k) held' ds"
proof -
  obtain controls resent pairs riding where e: "ds = controls @ resent @ pairs"
      "list_all (\<lambda>d. ack_packet control (highest_id_received tr) d \<or> nak_packet control (nak_ids_ascending MAX_NAK_IDS tr) d) controls"
      "list_all (own_packet K n) resent" "open_from K n pairs (replicate k (riding, Some stamps, None))"
      "of_bool held' + k = of_bool held + (of_bool due :: nat)"
    using assms unfolding sweep_emits_def by blast
  have "list_all (wire_ok K (n + k)) controls"
    using e(2) length_nak_ids [of tr] unfolding list_all_iff wire_ok_def by blast
  moreover have "list_all (wire_ok K (n + k)) resent" using own_wire_ok [OF e(3)] by (rule wire_ok_mono_all) simp
  moreover have "list_all (wire_ok K (n + k)) pairs" using own_wire_ok [OF open_from_own [OF e(4)]] by simp
  ultimately show ?thesis using e(1,5) by (simp add: sweep_adds_def)
qed

lemma sweep_sends_controls:
  assumes "sweep_sends t tr control ride sc st riding sc' st' ds"
  shows "length ds \<le> 1"
    "list_all (\<lambda>d. ack_packet control (highest_id_received tr) d \<or> nak_packet control (nak_ids_ascending MAX_NAK_IDS tr) d) ds"
    "riding = None \<or> riding = Some (highest_id_received tr) \<and> ds = []"
  using assms by (auto simp: sweep_sends_def Let_def list_all2_Cons1 split: if_splits)

lemma list_all_replicate_eq: "list_all (\<lambda>c. c = x) cs \<Longrightarrow> cs = replicate (length cs) x"
  by (induction cs) auto

lemma sweep_tail:
  assumes ok: "outbound_ok K n ob" and lim: "Suc n < SESSION"
    and riding: "riding \<noteq> None \<Longrightarrow> ob_time_pair_held ob \<or> pair_point"
  shows "\<exists>k ob' st' resent pairs. sweep_pairs riding (ob_time_pair_held ob) pair_point iv stamps
        (transmit_pending_resends iv' stamps' (ob, st, out)) = Some (ob', st', out @ resent @ pairs) \<and>
      outbound_ok K (n + k) ob' \<and> list_all (own_packet K n) resent \<and>
      open_from K n pairs (replicate k (riding, Some stamps, None)) \<and>
      of_bool (ob_time_pair_held ob') + k = of_bool (ob_time_pair_held ob) + (of_bool pair_point :: nat)"
proof -
  obtain ob1 st1 ds1 where r: "transmit_pending_resends iv' stamps' (ob, st, out) = (ob1, st1, out @ ds1)"
    "outbound_ok K n ob1" "list_all (own_packet K n) ds1" "ob_time_pair_held ob1 = ob_time_pair_held ob"
    using transmit_pending_resends_ok [OF ok, of iv' stamps' st out] by blast
  obtain s' cs where p: "sweep_pairs riding (ob_time_pair_held ob1) pair_point iv stamps (ob1, st1, out @ ds1) = Some s'"
    "sends K n (ob1, st1, out @ ds1) cs s'"
    "of_bool (ob_time_pair_held (fst s')) + length cs = of_bool (ob_time_pair_held ob1) + (of_bool pair_point :: nat)"
    "list_all (\<lambda>c. c = (riding, Some stamps, None)) cs"
    using sweep_pairs_ok [OF r(2) lim] riding r(4) by metis
  obtain ob2 st2 ds2 where s': "s' = (ob2, st2, out @ ds1 @ ds2)" "open_from K n ds2 cs" "outbound_ok K (n + length cs) ob2"
    using p(2) by (cases s') (auto simp: sends_def)
  have "open_from K n ds2 (replicate (length cs) (riding, Some stamps, None))"
    using s'(2) list_all_replicate_eq [OF p(4)] by simp
  then show ?thesis
    using r(1,3,4) p(1,3) s'
    by (intro exI [of _ "length cs"] exI [of _ ob2] exI [of _ st2] exI [of _ ds1] exI [of _ ds2]) simp
qed

lemma transport_sweep_emits:
  assumes ok: "transport_ok K n tp" and lim: "Suc n < SESSION"
  shows "\<exists>k tp' ds. transport_sweep t confirmed tp = Some tp' \<and> transport_ok K (n + k) tp' \<and> tp_out tp' = tp_out tp @ ds \<and>
    sweep_emits K n (sweep_control (tp\<lparr>tp_clock := snd (clock_update t (tp_clock tp))\<rparr>)) (tp_inbound tp)
      (fst (clock_update t (tp_clock tp)) \<and> confirmed) (tp_stamps (tp\<lparr>tp_now := max (tp_now tp) t\<rparr>))
      (ob_time_pair_held (tp_outbound tp)) (ob_time_pair_held (tp_outbound tp')) k ds \<and> tp_inbound tp' = tp_inbound tp"
proof -
  obtain crossed clock where cu: "clock_update t (tp_clock tp) = (crossed, clock)" by fastforce
  define pp where "pp = (crossed \<and> confirmed)"
  define tp0 where "tp0 = tp\<lparr>tp_clock := clock, tp_now := max (tp_now tp) t\<rparr>"
  have parts: "outbound_ok K n (tp_outbound tp0)" "loss_ok (tp_loss tp0)" "assembler_ok (tp_assembler tp0)"
    "list_all (wire_ok K n) (tp_out tp0)" using ok by (simp_all add: transport_ok_def tp0_def)
  obtain loss where loss: "loss_sweep t (tp_stats tp0) (tp_loss tp0) = Some loss" "loss_ok loss"
    using loss_sweep_step [OF parts(2)] by blast
  define tpL where "tpL = tp0\<lparr>tp_loss := loss\<rparr>"
  let ?held = "ob_time_pair_held (tp_outbound tpL)"
  obtain riding sc st ds0 where s: "sched_sweep t (tp_inbound tpL) (sweep_control tpL) (?held \<or> pp)
      (tp_scheduler tpL, tp_stats tpL, tp_out tpL) = Some (riding, sc, st, tp_out tpL @ ds0)"
    "sweep_sends t (tp_inbound tpL) (sweep_control tpL) (?held \<or> pp) (tp_scheduler tpL) (tp_stats tpL) riding sc st ds0"
    using sched_sweep_ok by blast
  have riding: "riding \<noteq> None \<Longrightarrow> ?held \<or> pp" using sweep_sends_riding s(2) by blast
  define tp1 where "tp1 = tpL\<lparr>tp_scheduler := sc, tp_stats := st, tp_out := tp_out tpL @ ds0\<rparr>"
  let ?stamps = "tp_stamps tp1" and ?iv = "ck_interval_id (tp_clock tp1)"
  have fl: "tp_flow tp1 = (tp_outbound tpL, st, tp_out tpL @ ds0)" by (simp add: tp_flow_def tp1_def)
  have ob: "outbound_ok K n (tp_outbound tpL)" using parts(1) by (simp add: tpL_def)
  obtain k ob' st' ds1 ds2 where p: "sweep_pairs riding ?held pp ?iv ?stamps
      (transmit_pending_resends ?iv ?stamps (tp_flow tp1)) = Some (ob', st', (tp_out tpL @ ds0) @ ds1 @ ds2)"
    "outbound_ok K (n + k) ob'" "list_all (own_packet K n) ds1" "open_from K n ds2 (replicate k (riding, Some ?stamps, None))"
    "of_bool (ob_time_pair_held ob') + k = of_bool ?held + (of_bool pp :: nat)"
    using sweep_tail [OF ob lim riding] unfolding fl by blast
  define tp2 where "tp2 = with_flow (ob', st', (tp_out tpL @ ds0) @ ds1 @ ds2) tp1"
  define tp3 where "tp3 = (if ASSEMBLER_SWEEP_PERIOD \<le> since t (tp_assembler_sweep_at tp2)
      then tp2\<lparr>tp_assembler_sweep_at := t, tp_assembler := snd (sweep_expired t (tp_assembler tp2))\<rparr> else tp2)"
  have run: "transport_sweep t confirmed tp = Some tp3"
    unfolding transport_sweep_def cu Let_def prod.case tp0_def [symmetric] pp_def [symmetric] loss(1) option.case
      tpL_def [symmetric] s(1) tp1_def [symmetric] p(1) tp2_def [symmetric] tp3_def [symmetric] by (rule refl)
  have same: "tp_stamps tp1 = tp_stamps (tp\<lparr>tp_now := max (tp_now tp) t\<rparr>)" "tp_inbound tpL = tp_inbound tp"
    "sweep_control tpL = sweep_control (tp\<lparr>tp_clock := clock\<rparr>)" "?held = ob_time_pair_held (tp_outbound tp)"
    by (simp_all add: tp_stamps_def sweep_control_def tp1_def tpL_def tp0_def)
  have emits: "sweep_emits K n (sweep_control (tp\<lparr>tp_clock := clock\<rparr>)) (tp_inbound tp) pp
      (tp_stamps (tp\<lparr>tp_now := max (tp_now tp) t\<rparr>)) (ob_time_pair_held (tp_outbound tp)) (ob_time_pair_held ob') k (ds0 @ ds1 @ ds2)"
    unfolding sweep_emits_def using sweep_sends_controls [OF s(2)] p(3-5) unfolding same
    by (intro exI [of _ ds0] exI [of _ ds1] exI [of _ ds2] exI [of _ riding]) simp
  have new: "assembler_ok (tp_assembler tp3)" "tp_outbound tp3 = ob'" "tp_out tp3 = tp_out tp @ ds0 @ ds1 @ ds2"
    "tp_loss tp3 = loss" "tp_inbound tp3 = tp_inbound tp"
    using parts(3) by (simp_all add: tp3_def tp2_def tp1_def tpL_def tp0_def with_flow_def assembler_ok_sweep)
  have "list_all (wire_ok K (n + k)) (tp_out tp)" using parts(4) by (simp add: tp0_def wire_ok_mono_all)
  then have "transport_ok K (n + k) tp3"
    using p(2) loss(2) sweep_emits_adds [OF emits] new by (simp add: transport_ok_def sweep_adds_def)
  then show ?thesis
    unfolding cu fst_conv snd_conv pp_def [symmetric] using run emits new by blast
qed

lemma transport_sweep_ok:
  assumes "transport_ok K n tp" "Suc n < SESSION"
  shows "\<exists>m tp' ds. transport_sweep t confirmed tp = Some tp' \<and> transport_ok K m tp' \<and> tp_out tp' = tp_out tp @ ds \<and>
    sweep_adds K n (fst (clock_update t (tp_clock tp)) \<and> confirmed) (ob_time_pair_held (tp_outbound tp)) m
      (ob_time_pair_held (tp_outbound tp')) ds \<and> tp_inbound tp' = tp_inbound tp"
  using transport_sweep_emits [OF assms, of t confirmed] sweep_emits_adds by blast

section \<open>Properties\<close>

text \<open>
  The clocks of a time pair never run backwards: with no new report from the server, a
  pair stamped later carries a server clock and a local clock at least as late (bit patterns
  of non-negative floats are ordered like the numbers), for 194 days from the caller's origin.
\<close>

theorem stamps_never_run_backwards:
  assumes "unat (tp_server_time tp) < fp_inf F64" "tp_now tp \<le> t" "t < from_secs (2 ^ 24)"
  shows "ts_server_time (tp_stamps tp) \<le> ts_server_time (tp_stamps (tp\<lparr>tp_now := t\<rparr>)) \<and>
    ts_local_time (tp_stamps tp) \<le> ts_local_time (tp_stamps (tp\<lparr>tp_now := t\<rparr>))"
proof
  have lt: "t div 1000000000 < 2 ^ 24" using assms(3) by (simp add: from_secs_def div_less_iff_less_mult)
  let ?a = "since (tp_now tp) (tp_server_time_at tp)" and ?b = "since t (tp_server_time_at tp)"
  have ab: "?a \<le> ?b" using assms(2) by (simp add: since_def)
  have "?b div 1000000000 \<le> t div 1000000000" by (rule div_le_mono) (simp add: since_def)
  then have "?b div 1000000000 < 2 ^ fp_prec F64" using lt by (simp add: F64_def)
  then have "as_secs F64 ?a \<le> as_secs F64 ?b" using ab by (intro as_secs_mono) (simp_all add: is_format_def)
  then have "as_secs_f64 ?a \<le> as_secs_f64 ?b" by (simp add: word_le_nat_alt as_secs_word)
  moreover have "f64_plain (tp_server_time tp)" using assms(1) by (simp add: f64_plain_def)
  ultimately show "ts_server_time (tp_stamps tp) \<le> ts_server_time (tp_stamps (tp\<lparr>tp_now := t\<rparr>))"
    using f64_add_mono [OF _ assms(1) as_secs_word(1)] by (simp add: tp_stamps_def)
  have "as_secs F32 (tp_now tp) \<le> as_secs F32 t"
    using lt assms(2) by (intro as_secs_mono) (simp_all add: is_format_def F32_def)
  then show "ts_local_time (tp_stamps tp) \<le> ts_local_time (tp_stamps (tp\<lparr>tp_now := t\<rparr>))"
    by (simp add: tp_stamps_def as_duration_def word_le_nat_alt as_secs_word)
qed

lemma stamps_never_run_backwards_witness:
  "let tp = transport_new 0 (isaac_new 1) (isaac_new 2) 3 4 0x3FF0000000000000
   in ts_local_time (tp_stamps tp) \<le> ts_local_time (tp_stamps (tp\<lparr>tp_now := from_secs 5\<rparr>)) \<and>
      ts_server_time (tp_stamps tp) \<le> ts_server_time (tp_stamps (tp\<lparr>tp_now := from_secs 5\<rparr>))"
  using stamps_never_run_backwards [of "transport_new 0 (isaac_new 1) (isaac_new 2) 3 4 0x3FF0000000000000" "from_secs 5"]
  by (simp add: transport_new_def F64_def from_secs_def Let_def)

text \<open>
  C16. A sweep never fails and keeps every invariant. The time pairs held or due are conserved: each is sent
  exactly once in this sweep or is still held. What the sweep emits is, in this order, at most one control
  packet (an acknowledgement of the highest sequence received or a request for the lowest missing ones),
  resent packets that open under their own words, and then one numbered packet for each pair sent: it opens
  under the next word of the keystream, has no fragment, and its time sections are the server clock and the
  local clock as they stand in this sweep, with the acknowledgement as well when it rides on a pair, in
  which case it is not sent as a control packet.
\<close>

theorem sweep_conserves_pairs:
  assumes "transport_ok K n tp" "Suc n < SESSION"
  shows "case transport_sweep t confirmed tp of
      None \<Rightarrow> False
    | Some tp' \<Rightarrow>
        (\<exists>k controls resent pairs riding.
          transport_ok K (n + k) tp' \<and> tp_out tp' = tp_out tp @ controls @ resent @ pairs \<and>
          length controls \<le> 1 \<and>
          list_all (\<lambda>d. let control = sweep_control (tp\<lparr>tp_clock := snd (clock_update t (tp_clock tp))\<rparr>)
                        in ack_packet control (highest_id_received (tp_inbound tp)) d \<or>
                           nak_packet control (nak_ids_ascending MAX_NAK_IDS (tp_inbound tp)) d) controls \<and>
          list_all (own_packet K n) resent \<and>
          open_from K n pairs (replicate k (riding, Some (tp_stamps (tp\<lparr>tp_now := max (tp_now tp) t\<rparr>)), None)) \<and>
          (riding = None \<or> riding = Some (highest_id_received (tp_inbound tp)) \<and> controls = []) \<and>
          of_bool (ob_time_pair_held (tp_outbound tp')) + k =
            of_bool (ob_time_pair_held (tp_outbound tp)) +
            (of_bool (fst (clock_update t (tp_clock tp)) \<and> confirmed) :: nat) \<and>
          tp_inbound tp' = tp_inbound tp)"
proof -
  obtain k tp' ds where r: "transport_sweep t confirmed tp = Some tp'" "transport_ok K (n + k) tp'" "tp_out tp' = tp_out tp @ ds"
    "sweep_emits K n (sweep_control (tp\<lparr>tp_clock := snd (clock_update t (tp_clock tp))\<rparr>)) (tp_inbound tp)
      (fst (clock_update t (tp_clock tp)) \<and> confirmed) (tp_stamps (tp\<lparr>tp_now := max (tp_now tp) t\<rparr>))
      (ob_time_pair_held (tp_outbound tp)) (ob_time_pair_held (tp_outbound tp')) k ds"
    "tp_inbound tp' = tp_inbound tp"
    using transport_sweep_emits [OF assms, of t confirmed] by blast
  then show ?thesis unfolding r(1) option.case sweep_emits_def Let_def by blast
qed

lemma sweep_conserves_pairs_witness:
  "\<exists>tp' k. transport_sweep (from_secs 3) True (transport_new 0 (isaac_new 1) (isaac_new 2) 3 4 0) = Some tp' \<and>
     transport_ok (isaac_new 1) k tp' \<and> of_bool (ob_time_pair_held (tp_outbound tp')) + k \<le> (1 :: nat)"
proof -
  let ?tp = "transport_new 0 (isaac_new 1) (isaac_new 2) 3 4 0"
  have "\<not> ob_time_pair_held (tp_outbound ?tp)" by (simp add: transport_new_def outbound_new_def)
  moreover have "Suc 0 < SESSION" by (simp add: SESSION_def)
  ultimately show ?thesis
    using sweep_conserves_pairs [OF transport_ok_new [of "isaac_new 1" 0 "isaac_new 2" 3 4 0], of "from_secs 3" True]
    by (auto split: option.splits if_splits simp: of_bool_def)
qed

end
