(* ===== verification/Connection.thy ===== *)
theory Connection
  imports Transport
begin

text \<open>
  \<open>crates/ac-net/src/connection.rs\<close>: one negotiated connection, that is the connect response
  and its retries, the gate on received packets, the reliable transport and the rule on the
  server's silence. \<open>None\<close> as a result is a panic of \<open>expect\<close> or of the sweep.
\<close>

section \<open>State\<close>

definition CONNECT_RESPONSE_DELAY :: duration where
  "CONNECT_RESPONSE_DELAY = from_millis 200"

definition CONNECT_RESPONSE_RETRY :: duration where
  "CONNECT_RESPONSE_RETRY = 333333333"

definition SERVER_SILENCE_TIMEOUT :: duration where
  "SERVER_SILENCE_TIMEOUT = from_secs 140"

datatype destination = Login | Connect

record transmission =
  tm_destination :: destination
  tm_datagram :: bytes

record link_snapshot =
  sn_stats :: transport_stats
  sn_nak_set :: nat
  sn_reclaimed_words :: nat
  sn_cache_depth :: nat
  sn_pending_resends :: nat
  sn_highest_id_received :: u32
  sn_highest_id_sent :: u32
  sn_ack_watermark :: u32
  sn_partial_messages :: nat
  sn_packet_loss_percent :: u64
  sn_handshake_confirmed :: bool

record connection =
  cn_transport :: transport
  cn_client_id :: u16
  cn_iteration :: u16
  cn_connect_response :: bytes
  cn_response_not_before :: net_time
  cn_response_sent_at :: "net_time option"
  cn_handshake_confirmed :: bool
  cn_server_time :: u64
  cn_last_packet_at :: net_time
  cn_previous_silence_check :: "net_time option"
  cn_silence_timeout :: duration
  cn_lost :: bool
  cn_closed :: bool
  cn_outbox :: "transmission list"

definition response_header :: packet_header where
  "response_header = header_default\<lparr>hdr_sequence := 1, hdr_flags := CONNECT_RESPONSE, hdr_id := 0\<rparr>"

definition connection_new :: "net_time \<Rightarrow> packet_header \<Rightarrow> connect_request \<Rightarrow> connection option" where
  "connection_new t header request =
     (let client_id = ucast (cr_client_id request);
          iteration = hdr_iteration header
      in case encode response_header (le_bytes 8 (cr_cookie request)) None of
           (Inl _, _) \<Rightarrow> None
         | (Inr connect_response, _) \<Rightarrow>
             Some \<lparr>cn_transport = transport_new t (isaac_new (cr_client_seed request))
                     (isaac_new (cr_server_seed request)) client_id iteration (cr_server_time request),
                   cn_client_id = client_id, cn_iteration = iteration, cn_connect_response = connect_response,
                   cn_response_not_before = nt_add t CONNECT_RESPONSE_DELAY, cn_response_sent_at = None,
                   cn_handshake_confirmed = False, cn_server_time = cr_server_time request,
                   cn_last_packet_at = t, cn_previous_silence_check = None,
                   cn_silence_timeout = SERVER_SILENCE_TIMEOUT, cn_lost = False, cn_closed = False, cn_outbox = []\<rparr>)"

definition set_server_silence_timeout :: "duration \<Rightarrow> connection \<Rightarrow> connection" where
  "set_server_silence_timeout timeout c = c\<lparr>cn_silence_timeout := timeout\<rparr>"

definition packet_loss_percent :: "connection \<Rightarrow> u64" where
  "packet_loss_percent c = packet_loss_percentage (cn_transport c)"

definition snapshot :: "connection \<Rightarrow> link_snapshot" where
  "snapshot c =
     (let tp = cn_transport c
      in \<lparr>sn_stats = tp_stats tp, sn_nak_set = nak_count (tp_inbound tp),
          sn_reclaimed_words = reclaimed_word_count (tp_inbound tp),
          sn_cache_depth = cache_depth (tp_outbound tp),
          sn_pending_resends = pending_resend_count (tp_outbound tp),
          sn_highest_id_received = highest_id_received (tp_inbound tp),
          sn_highest_id_sent = ob_highest_id_sent (tp_outbound tp),
          sn_ack_watermark = ob_ack_watermark (tp_outbound tp),
          sn_partial_messages = partial_count (tp_assembler tp),
          sn_packet_loss_percent = packet_loss_percentage tp,
          sn_handshake_confirmed = cn_handshake_confirmed c\<rparr>)"

definition poll_transmit :: "connection \<Rightarrow> transmission option \<times> connection" where
  "poll_transmit c = (case cn_outbox c of [] \<Rightarrow> (None, c) | x # xs \<Rightarrow> (Some x, c\<lparr>cn_outbox := xs\<rparr>))"

text \<open>\<open>while let Some(datagram) = pop_outgoing()\<close>: the whole queue moves to the outbox.\<close>

definition drain_transport :: "connection \<Rightarrow> connection" where
  "drain_transport c =
     c\<lparr>cn_outbox := cn_outbox c @ map (\<lambda>d. \<lparr>tm_destination = Login, tm_datagram = d\<rparr>) (tp_out (cn_transport c)),
       cn_transport := (cn_transport c)\<lparr>tp_out := []\<rparr>\<rparr>"

section \<open>Sending\<close>

definition send_message ::
  "net_time \<Rightarrow> bytes \<Rightarrow> game_message_group \<Rightarrow> connection \<Rightarrow> (send_error + unit) \<times> connection" where
  "send_message t body grp c =
     (if cn_closed c then (Inl Closed, c)
      else if \<not> cn_handshake_confirmed c then (Inl NotConfirmed, c)
      else let (r, tp) = tp_send_game_message t body (group_to_u16 grp) (cn_transport c)
           in (r, drain_transport (c\<lparr>cn_transport := tp\<rparr>)))"

section \<open>Receiving\<close>

text \<open>The gate: unsequenced packets by their clear checksum, all others through the tracker.\<close>

definition gate :: "parsed_packet \<Rightarrow> transport \<Rightarrow> bool \<times> transport" where
  "gate packet tp =
     (let header = pkt_header packet;
          encrypted = has (hdr_flags header) ENCRYPTED_CHECKSUM
      in if hdr_sequence header = 0
         then (\<not> (encrypted \<or> \<not> pkt_verify packet None), tp)
         else case admit (hdr_sequence header) encrypted (tp_inbound tp) (tp_stats tp) of
                (Drop, ib, st) \<Rightarrow> (False, tp\<lparr>tp_inbound := ib, tp_stats := st\<rparr>)
              | (Process key draw_order, ib, st) \<Rightarrow>
                  if \<not> pkt_verify packet key
                  then let st = st\<lparr>checksum_failures := checksum_failures st + 1\<rparr>
                       in (case key of
                             Some key \<Rightarrow>
                               (let (ib, st) = repark (hdr_sequence header) key draw_order ib st
                                in (False, tp\<lparr>tp_inbound := ib, tp_stats := st\<rparr>))
                           | None \<Rightarrow> (False, tp\<lparr>tp_inbound := ib, tp_stats := st\<rparr>))
                  else (True, tp\<lparr>tp_inbound := ib, tp_stats := st\<rparr>))"

definition on_retransmit_section :: "parsed_packet \<Rightarrow> transport \<Rightarrow> transport" where
  "on_retransmit_section packet tp =
     (if has (hdr_flags (pkt_header packet)) REQUEST_RETRANSMIT
      then let (ob, st) = on_retransmit_request (opt_retransmit_requests (pkt_optional packet)) (tp_outbound tp, tp_stats tp)
           in tp\<lparr>tp_outbound := ob, tp_stats := st\<rparr>
      else tp)"

definition on_reject_section :: "parsed_packet \<Rightarrow> transport \<Rightarrow> transport" where
  "on_reject_section packet tp =
     (let header = pkt_header packet
      in if has (hdr_flags header) REJECT_RETRANSMIT
         then let st = (tp_stats tp)\<lparr>rejects_received := rejects_received (tp_stats tp) + 1\<rparr>;
                  ib = on_reject_retransmit (opt_reject_retransmits (pkt_optional packet)) (tp_inbound tp);
                  (ib, st) = (if hdr_sequence header \<noteq> 0 \<and> \<not> has (hdr_flags header) ENCRYPTED_CHECKSUM
                              then on_cleartext_reject_sequence (hdr_sequence header) ib st
                              else (ib, st))
              in tp\<lparr>tp_inbound := ib, tp_stats := st\<rparr>
         else tp)"

definition on_ack_section :: "parsed_packet \<Rightarrow> transport \<Rightarrow> transport" where
  "on_ack_section packet tp =
     (if has (hdr_flags (pkt_header packet)) ACK_SEQUENCE
      then let (ob, st) = on_ack_sequence (opt_ack_sequence (pkt_optional packet)) (tp_outbound tp, tp_stats tp)
           in tp\<lparr>tp_outbound := ob, tp_stats := st\<rparr>
      else tp)"

definition on_time_section :: "parsed_packet \<Rightarrow> net_time \<Rightarrow> connection \<Rightarrow> connection" where
  "on_time_section packet t c =
     (let time_sync = opt_time_sync (pkt_optional packet)
      in if has (hdr_flags (pkt_header packet)) TIME_SYNC \<and> f64_positive time_sync
         then c\<lparr>cn_server_time := time_sync, cn_transport := note_server_time time_sync t (cn_transport c)\<rparr>
         else c)"

text \<open>The loop over the fragments; a completed message shorter than four bytes is left out.\<close>

fun ingest_fragments ::
  "net_time \<Rightarrow> fragment list \<Rightarrow> assembler \<Rightarrow> inbound_message list \<times> assembler" where
  "ingest_fragments t [] a = ([], a)"
| "ingest_fragments t (f # fs) a =
     (let (m, a) = ingest t f a;
          (ms, a) = ingest_fragments t fs a
      in (case m of
            Some message \<Rightarrow> if 4 \<le> length (im_body message) then message # ms else ms
          | None \<Rightarrow> ms, a))"

definition accept_packet :: "net_time \<Rightarrow> parsed_packet \<Rightarrow> connection \<Rightarrow> inbound_message list \<times> connection" where
  "accept_packet t packet c =
     (let tp = cn_transport c;
          tp = tp\<lparr>tp_stats := (tp_stats tp)\<lparr>packets_received := packets_received (tp_stats tp) + 1\<rparr>\<rparr>;
          c = c\<lparr>cn_last_packet_at := t,
                cn_handshake_confirmed := cn_handshake_confirmed c \<or> \<not> has (hdr_flags (pkt_header packet)) CONNECT_REQUEST,
                cn_transport := on_ack_section packet (on_reject_section packet (on_retransmit_section packet tp))\<rparr>;
          c = on_time_section packet t c;
          (ms, a) = ingest_fragments t (pkt_fragments packet) (tp_assembler (cn_transport c))
      in (ms, c\<lparr>cn_transport := (cn_transport c)\<lparr>tp_assembler := a\<rparr>\<rparr>))"

definition process :: "net_time \<Rightarrow> bytes \<Rightarrow> connection \<Rightarrow> inbound_message list \<times> connection" where
  "process t datagram c =
     (case parse_packet datagram of
        Inl _ \<Rightarrow> ([], c)
      | Inr packet \<Rightarrow>
          (case gate packet (cn_transport c) of
             (False, tp) \<Rightarrow> ([], c\<lparr>cn_transport := tp\<rparr>)
           | (True, tp) \<Rightarrow> accept_packet t packet (c\<lparr>cn_transport := tp\<rparr>)))"

definition handle_datagram :: "net_time \<Rightarrow> bytes \<Rightarrow> connection \<Rightarrow> inbound_message list \<times> connection" where
  "handle_datagram t datagram c =
     (if cn_closed c then ([], c)
      else let (messages, c) = process t datagram c in (messages, drain_transport c))"

section \<open>Time\<close>

definition send_connect_response :: "net_time \<Rightarrow> connection \<Rightarrow> connection" where
  "send_connect_response t c =
     c\<lparr>cn_outbox := cn_outbox c @ [\<lparr>tm_destination = Connect, tm_datagram = cn_connect_response c\<rparr>],
       cn_response_sent_at := Some t\<rparr>"

definition check_server_silence :: "net_time \<Rightarrow> connection \<Rightarrow> connection" where
  "check_server_silence t c =
     (if cn_lost c then c
      else case cn_previous_silence_check c of
             None \<Rightarrow> c\<lparr>cn_previous_silence_check := Some t\<rparr>
           | Some previous \<Rightarrow>
               let c = c\<lparr>cn_previous_silence_check := Some t\<rparr>
               in if since t previous < cn_silence_timeout c \<and> since t (cn_last_packet_at c) > cn_silence_timeout c
                  then c\<lparr>cn_lost := True\<rparr> else c)"

definition due_response :: "net_time \<Rightarrow> connection \<Rightarrow> connection" where
  "due_response t c =
     (case cn_response_sent_at c of
        None \<Rightarrow> if cn_response_not_before c \<le> t then send_connect_response t c else c
      | Some at \<Rightarrow>
          if \<not> cn_handshake_confirmed c \<and> since t at > CONNECT_RESPONSE_RETRY
          then send_connect_response t c else c)"

definition tick :: "net_time \<Rightarrow> connection \<Rightarrow> connection option" where
  "tick t c =
     (if cn_closed c then Some c
      else let c = due_response t c
           in if cn_response_sent_at c \<noteq> None
              then case transport_sweep t (cn_handshake_confirmed c) (cn_transport c) of
                     None \<Rightarrow> None
                   | Some tp \<Rightarrow> Some (check_server_silence t (drain_transport (c\<lparr>cn_transport := tp\<rparr>)))
              else Some (check_server_silence t c))"

definition disconnect :: "connection \<Rightarrow> connection option" where
  "disconnect c =
     (if cn_closed c then Some c
      else case transport_disconnect (cn_client_id c) (cn_iteration c) of
             None \<Rightarrow> None
           | Some d \<Rightarrow>
               Some (c\<lparr>cn_outbox := cn_outbox c @ [\<lparr>tm_destination = Login, tm_datagram = d\<rparr>], cn_closed := True\<rparr>))"

end
