(* ===== verification/Connection_Session.thy ===== *)
theory Connection_Session
  imports Connection
begin

text \<open>
  Everything the owner of a connection can do with it, as a step relation, and the invariant
  of its reachable states: what waits in the outbox, and that nothing numbered exists before
  the server has confirmed the handshake.
\<close>

section \<open>The two fixed packets\<close>

definition responds :: "packet_flags \<Rightarrow> bool" where
  "responds f \<longleftrightarrow> \<not> has f SERVER_SWITCH \<and> \<not> has f REQUEST_RETRANSMIT \<and> \<not> has f REJECT_RETRANSMIT \<and>
     \<not> has f ACK_SEQUENCE \<and> \<not> has f LOGIN_REQUEST \<and> \<not> has f WORLD_LOGIN_REQUEST \<and>
     \<not> has f CONNECT_REQUEST \<and> has f CONNECT_RESPONSE \<and> \<not> has f CICMD_COMMAND \<and>
     \<not> has f TIME_SYNC \<and> \<not> has f ECHO_REQUEST \<and> \<not> has f ECHO_RESPONSE \<and> \<not> has f FLOW"

lemma responds_response: "responds CONNECT_RESPONSE"
  by (simp add: responds_def has_def flag_defs)

lemma parse_response:
  assumes "responds f"
  shows "parse_optional (le_bytes 8 (w :: u64)) f = Some (optional_default\<lparr>opt_raw := le_bytes 8 w\<rparr>, 8)"
proof -
  let ?b = "le_bytes 8 w"
  have inner: "parse_optional_inner ?b f = rd_bind (opt_skip8 optional_default) (opt_end ?b)"
    using assms by (simp add: parse_optional_inner_def responds_def)
  have "parses (opt_skip8 optional_default) ?b optional_default"
    unfolding opt_skip8_def by (auto intro!: parses_bind_nil parse_intros)
  moreover have "drop 0 ?b = ?b @ []" by simp
  ultimately have "rd_bind (opt_skip8 optional_default) (opt_end ?b) \<lparr>rd_data = ?b, rd_pos = 0\<rparr> =
      opt_end ?b optional_default \<lparr>rd_data = ?b, rd_pos = 0 + length ?b\<rparr>"
    by (rule rd_bind_parses) simp
  then show ?thesis by (simp add: parse_optional_def inner rd_new_def opt_end_at)
qed

definition response_optional :: "u64 \<Rightarrow> optional_header" where
  "response_optional cookie = optional_default\<lparr>opt_raw := le_bytes 8 cookie\<rparr>"

lemma response_clear: "clear_header response_header"
  by (simp add: clear_header_def response_header_def has_def flag_defs)

lemma encode_response:
  "encode response_header (le_bytes 8 cookie) None = (Inr (clear_datagram response_header (le_bytes 8 cookie)), None)"
  "opens_clear (clear_datagram response_header (le_bytes 8 cookie)) response_header (response_optional cookie) (le_bytes 8 cookie)"
proof -
  have p: "parse_optional (le_bytes 8 cookie) (hdr_flags response_header) =
      Some (response_optional cookie, length (le_bytes 8 cookie))"
    using parse_response [OF responds_response, of cookie] by (simp add: response_header_def response_optional_def)
  show "encode response_header (le_bytes 8 cookie) None = (Inr (clear_datagram response_header (le_bytes 8 cookie)), None)"
    by (rule clear_encodes [OF response_clear p]) simp
  show "opens_clear (clear_datagram response_header (le_bytes 8 cookie)) response_header (response_optional cookie) (le_bytes 8 cookie)"
    by (rule clear_opens [OF response_clear p]) simp
qed

definition disconnect_header :: "u16 \<Rightarrow> u16 \<Rightarrow> packet_header" where
  "disconnect_header client_id iteration =
     header_default\<lparr>hdr_sequence := 0, hdr_flags := DISCONNECT, hdr_id := client_id, hdr_iteration := iteration\<rparr>"

lemma disconnect_sections: "carries DISCONNECT False False"
  by (simp add: carries_def has_def flag_defs)

lemma transport_disconnect_eq:
  "transport_disconnect cid it = Some (clear_datagram (disconnect_header cid it) [])"
  "opens_clear (clear_datagram (disconnect_header cid it) []) (disconnect_header cid it) (pair_optional None None) []"
proof -
  let ?h = "disconnect_header cid it"
  have clear: "clear_header ?h"
    by (simp add: clear_header_def disconnect_header_def has_def flag_defs)
  have "seal_ok ?h (header_to_bytes ?h) 0 0"
    using clear by (simp add: seal_ok_def layout_ok_def clear_header_def subslice_def)
  moreover have "\<not> has (hdr_flags ?h) ENCRYPTED_CHECKSUM" using clear by (simp add: clear_header_def)
  ultimately have "seal_in_place ?h (header_to_bytes ?h) 0 0 None =
      (Inr \<lparr>sealed_len = 20, sealed_key = 0, sealed_payload = hash32 []\<rparr>, clear_datagram ?h [], None)"
    using clear_share [OF clear, of "[]"]
    by (subst seal_in_place_ok)
      (simp_all add: seal_result_def seal_key_def seal_rest_def seal_share_def clear_datagram_def subslice_def Let_def)
  then show "transport_disconnect cid it = Some (clear_datagram ?h [])"
    unfolding transport_disconnect_def disconnect_header_def [symmetric] by (simp add: clear_datagram_def)
  show "opens_clear (clear_datagram ?h []) ?h (pair_optional None None) []"
  proof (rule clear_opens [OF clear])
    show "parse_optional [] (hdr_flags ?h) = Some (pair_optional None None, length ([] :: bytes))"
      using parse_sections [of DISCONNECT None None "[]"] disconnect_sections
      by (simp add: disconnect_header_def ack_bytes_def pair_bytes_def)
  qed simp
qed

section \<open>Invariant\<close>

definition control_ok :: "bytes \<Rightarrow> bool" where
  "control_ok d \<longleftrightarrow> (\<exists>control a. ack_packet control a d) \<or> (\<exists>control ids. length ids \<le> 114 \<and> nak_packet control ids d)"

lemma wire_ok_control: "wire_ok K n d \<longleftrightarrow> own_packet K n d \<or> control_ok d"
  by (auto simp: wire_ok_def control_ok_def)

lemma wire_ok_0: "wire_ok K 0 d \<longleftrightarrow> control_ok d"
  by (simp add: wire_ok_control own_packet_def)

text \<open>What may wait in the outbox, at \<open>n\<close> numbered packets.\<close>

definition transmission_ok :: "isaac \<Rightarrow> u64 \<Rightarrow> nat \<Rightarrow> transmission \<Rightarrow> bool" where
  "transmission_ok K cookie n x \<longleftrightarrow>
     (case tm_destination x of
        Connect \<Rightarrow> opens_clear (tm_datagram x) response_header (response_optional cookie) (le_bytes 8 cookie)
      | Login \<Rightarrow>
          own_packet K n (tm_datagram x) \<or> control_ok (tm_datagram x) \<or>
          (\<exists>cid it. opens_clear (tm_datagram x) (disconnect_header cid it) (pair_optional None None) []))"

definition connection_ok :: "isaac \<Rightarrow> u64 \<Rightarrow> nat \<Rightarrow> connection \<Rightarrow> bool" where
  "connection_ok K cookie n c \<longleftrightarrow>
     transport_ok K n (cn_transport c) \<and> tp_out (cn_transport c) = [] \<and>
     cn_connect_response c = clear_datagram response_header (le_bytes 8 cookie) \<and>
     list_all (transmission_ok K cookie n) (cn_outbox c) \<and>
     (cn_handshake_confirmed c \<or> n = 0 \<and> \<not> ob_time_pair_held (tp_outbound (cn_transport c)))"

lemma transmission_ok_mono: "transmission_ok K cookie n x \<Longrightarrow> n \<le> m \<Longrightarrow> transmission_ok K cookie m x"
  using own_packet_mono by (auto simp: transmission_ok_def split: destination.splits)

lemma transmissions_mono:
  "list_all (transmission_ok K cookie n) xs \<Longrightarrow> n \<le> m \<Longrightarrow> list_all (transmission_ok K cookie m) xs"
  using transmission_ok_mono by (auto simp: list_all_iff)

lemma drained_ok:
  assumes "transport_ok K m (cn_transport c)" "list_all (transmission_ok K cookie n) (cn_outbox c)" "n \<le> m"
    and "cn_connect_response c = clear_datagram response_header (le_bytes 8 cookie)"
    and "cn_handshake_confirmed c \<or> m = 0 \<and> \<not> ob_time_pair_held (tp_outbound (cn_transport c))"
  shows "connection_ok K cookie m (drain_transport c)"
proof -
  have "list_all (transmission_ok K cookie m) (map (\<lambda>d. \<lparr>tm_destination = Login, tm_datagram = d\<rparr>) (tp_out (cn_transport c)))"
    using assms(1) by (auto simp: transport_ok_def list_all_iff transmission_ok_def wire_ok_control)
  then show ?thesis
    using assms transmissions_mono [OF assms(2,3)]
    by (auto simp: connection_ok_def drain_transport_def transport_ok_def)
qed

section \<open>Operations keep it\<close>

lemma connection_new_ok:
  "\<exists>c. connection_new t header request = Some c \<and> connection_ok (isaac_new (cr_client_seed request)) (cr_cookie request) 0 c \<and>
     \<not> cn_closed c \<and> \<not> cn_handshake_confirmed c \<and> cn_outbox c = []"
  by (simp add: connection_new_def encode_response connection_ok_def transport_ok_new Let_def)
    (simp add: transport_new_def outbound_new_def Let_def)

lemma send_message_ok:
  assumes ok: "connection_ok K cookie n c" and lim: "n + 65537 < SESSION" and run: "send_message t body grp c = (r, c')"
  shows "\<exists>m \<ge> n. connection_ok K cookie m c' \<and> m \<le> n + 65536"
proof (cases "cn_closed c \<or> \<not> cn_handshake_confirmed c")
  case True
  then have "c' = c" using run by (auto simp: send_message_def split: if_splits)
  then show ?thesis using ok by auto
next
  case False
  let ?tp = "(cn_transport c)\<lparr>tp_now := max (tp_now (cn_transport c)) t\<rparr>"
  let ?iv = "ck_interval_id (tp_clock ?tp)" and ?stamps = "tp_stamps ?tp" and ?q = "group_to_u16 grp"
  have tok: "transport_ok K n ?tp" and out: "tp_out ?tp = []" using ok by (simp_all add: connection_ok_def transport_ok_def)
  have ob: "outbound_ok K n (tp_outbound ?tp)" using tok by (simp add: transport_ok_def)
  obtain fl where fl: "outbound_send_game_message body ?q ?iv ?stamps (tp_flow ?tp) = (r, fl)"
    and c': "c' = drain_transport (c\<lparr>cn_transport := with_flow fl ?tp\<rparr>)"
    using run False by (auto simp: send_message_def tp_send_game_message_def Let_def split: prod.splits)
  show ?thesis
  proof (cases "split_message body")
    case None
    then have "fl = tp_flow ?tp" using fl by (simp add: outbound_send_game_message_def tp_flow_def)
    then have "c' = drain_transport (c\<lparr>cn_transport := ?tp\<rparr>)" unfolding c' by (simp add: with_flow_def tp_flow_def)
    moreover have "connection_ok K cookie n (drain_transport (c\<lparr>cn_transport := ?tp\<rparr>))"
      using ok tok by (intro drained_ok [of K n _ cookie n]) (simp_all add: connection_ok_def)
    ultimately show ?thesis by auto
  next
    case (Some ps)
    have len: "length ps \<le> 65535" "0 < length ps" using split_message_pieces(2,3) [OF Some] by simp_all
    let ?cs = "message_packets (ob_time_pair_held (tp_outbound ?tp)) ?stamps (ob_fragment_sequence (tp_outbound ?tp)) ?q ps"
    have lim': "n + length ps + 1 < SESSION" using lim len by simp
    from send_game_message_ok [OF ob Some lim', of ?q ?iv ?stamps "tp_stats ?tp" "tp_out ?tp"]
    have s: "sends K n (tp_flow ?tp) ?cs fl" using fl by (auto simp: tp_flow_def)
    have n: "length ?cs \<le> 65536" using len by (auto simp: message_packets_def plain_packets_def Let_def)
    have "outbound_ok K (n + length ?cs) (fst fl)" "list_all (wire_ok K (n + length ?cs)) (snd (snd fl))"
      using sends_wire [OF s [unfolded tp_flow_def]] tok by (simp_all add: transport_ok_def)
    then have "transport_ok K (n + length ?cs) (with_flow fl ?tp)"
      using tok by (cases fl) (simp add: with_flow_def transport_ok_def)
    then have "connection_ok K cookie (n + length ?cs) c'"
      unfolding c' using ok False by (intro drained_ok [of K "n + length ?cs" _ cookie n]) (simp_all add: connection_ok_def)
    then show ?thesis using n by (intro exI [of _ "n + length ?cs"]) simp
  qed
qed

text \<open>Receiving leaves the outbound numbering, the clock and the outgoing queue alone.\<close>

lemma request_one_frame:
  "ob_time_pair_held (fst (request_one e s)) = ob_time_pair_held (fst s)"
  by (cases e; cases s) (auto simp: request_one_def on_ack_sequence_def Let_def split_beta)

lemma on_retransmit_request_frame:
  "ob_time_pair_held (fst (on_retransmit_request ids (ob, st))) = ob_time_pair_held ob"
proof -
  have "ob_time_pair_held (fst (fold request_one es s)) = ob_time_pair_held (fst s)" for es s
    by (induction es arbitrary: s) (simp_all add: request_one_frame)
  then show ?thesis by (simp add: on_retransmit_request_def)
qed

definition same_sending :: "transport \<Rightarrow> transport \<Rightarrow> bool" where
  "same_sending tp tp' \<longleftrightarrow>
     (\<forall>K n. outbound_ok K n (tp_outbound tp) \<longrightarrow> outbound_ok K n (tp_outbound tp')) \<and>
     ob_time_pair_held (tp_outbound tp') = ob_time_pair_held (tp_outbound tp) \<and>
     tp_loss tp' = tp_loss tp \<and> tp_out tp' = tp_out tp \<and>
     (assembler_ok (tp_assembler tp) \<longrightarrow> assembler_ok (tp_assembler tp'))"

lemma same_sending_ok: "same_sending tp tp' \<Longrightarrow> transport_ok K n tp \<Longrightarrow> transport_ok K n tp'"
  by (simp add: same_sending_def transport_ok_def)

lemma same_sending_refl: "same_sending tp tp"
  by (simp add: same_sending_def)

lemma same_sending_trans: "same_sending tp tp' \<Longrightarrow> same_sending tp' tp'' \<Longrightarrow> same_sending tp tp''"
  by (simp add: same_sending_def)

lemma same_sending_gate: "gate packet tp = (b, tp') \<Longrightarrow> same_sending tp tp'"
  by (auto simp: gate_def same_sending_def Let_def split: if_splits prod.splits admission.splits option.splits)

lemma same_sending_sections:
  "same_sending tp (on_retransmit_section packet tp)" "same_sending tp (on_reject_section packet tp)"
  "same_sending tp (on_ack_section packet tp)" "same_sending tp (tp\<lparr>tp_stats := st\<rparr>)"
  "same_sending tp (note_server_time w t tp)"
proof -
  show "same_sending tp (on_retransmit_section packet tp)"
    using on_retransmit_request_ok [of _ _ "tp_outbound tp" "opt_retransmit_requests (pkt_optional packet)" "tp_stats tp"]
      on_retransmit_request_frame [of "opt_retransmit_requests (pkt_optional packet)" "tp_outbound tp" "tp_stats tp"]
    by (auto simp: on_retransmit_section_def same_sending_def split: prod.splits)
  show "same_sending tp (on_ack_section packet tp)"
    by (simp add: on_ack_section_def on_ack_sequence_def same_sending_def outbound_ok_cong)
qed (simp_all add: on_reject_section_def same_sending_def note_server_time_def Let_def split_beta)

lemma ingest_fragments_ok: "assembler_ok a \<Longrightarrow> assembler_ok (snd (ingest_fragments t fs a))"
proof (induction fs arbitrary: a)
  case (Cons f fs)
  have "assembler_ok (snd (ingest t f a))" using Cons.prems by (rule assembler_ok_ingest)
  then show ?case using Cons.IH by (simp add: split_beta Let_def)
qed simp

lemma accept_packet_frame:
  fixes c t packet
  defines "c' \<equiv> snd (accept_packet t packet c)"
  shows "same_sending (cn_transport c) (cn_transport c')" "cn_outbox c' = cn_outbox c" "cn_closed c' = cn_closed c"
    "cn_connect_response c' = cn_connect_response c"
    "cn_handshake_confirmed c' = (cn_handshake_confirmed c \<or> \<not> has (hdr_flags (pkt_header packet)) CONNECT_REQUEST)"
    "cn_last_packet_at c' = t"
    "cn_response_sent_at c' = cn_response_sent_at c" "cn_lost c' = cn_lost c"
proof -
  define tp where "tp = (cn_transport c)\<lparr>tp_stats := (tp_stats (cn_transport c))\<lparr>packets_received := packets_received (tp_stats (cn_transport c)) + 1\<rparr>\<rparr>"
  define tp1 where "tp1 = on_ack_section packet (on_reject_section packet (on_retransmit_section packet tp))"
  have s1: "same_sending (cn_transport c) tp1"
    using same_sending_trans [OF same_sending_trans [OF same_sending_trans [OF same_sending_sections(4) same_sending_sections(1)]
        same_sending_sections(2)] same_sending_sections(3)]
    unfolding tp1_def tp_def by blast
  define c1 where "c1 = on_time_section packet t (c\<lparr>cn_last_packet_at := t,
    cn_handshake_confirmed := cn_handshake_confirmed c \<or> \<not> has (hdr_flags (pkt_header packet)) CONNECT_REQUEST, cn_transport := tp1\<rparr>)"
  have c': "c' = c1\<lparr>cn_transport := (cn_transport c1)\<lparr>tp_assembler := snd (ingest_fragments t (pkt_fragments packet) (tp_assembler (cn_transport c1)))\<rparr>\<rparr>"
    by (simp add: c'_def accept_packet_def c1_def tp1_def tp_def Let_def split_beta)
  have "same_sending tp1 (cn_transport c1)"
    by (simp add: c1_def on_time_section_def Let_def same_sending_sections same_sending_refl)
  moreover have "same_sending (cn_transport c1) (cn_transport c')"
    using ingest_fragments_ok by (simp add: c' same_sending_def)
  ultimately show "same_sending (cn_transport c) (cn_transport c')" using s1 same_sending_trans by blast
  show "cn_outbox c' = cn_outbox c" "cn_closed c' = cn_closed c" "cn_connect_response c' = cn_connect_response c"
    "cn_handshake_confirmed c' = (cn_handshake_confirmed c \<or> \<not> has (hdr_flags (pkt_header packet)) CONNECT_REQUEST)"
    "cn_last_packet_at c' = t" "cn_response_sent_at c' = cn_response_sent_at c" "cn_lost c' = cn_lost c"
    by (simp_all add: c' c1_def on_time_section_def Let_def)
qed

lemma process_frame:
  fixes c t d
  defines "c' \<equiv> snd (process t d c)"
  shows "same_sending (cn_transport c) (cn_transport c')" "cn_outbox c' = cn_outbox c" "cn_closed c' = cn_closed c"
    "cn_connect_response c' = cn_connect_response c" "cn_handshake_confirmed c \<Longrightarrow> cn_handshake_confirmed c'"
    "cn_response_sent_at c' = cn_response_sent_at c" "cn_lost c' = cn_lost c"
proof -
  have *: "same_sending (cn_transport c) (cn_transport c') \<and> cn_outbox c' = cn_outbox c \<and> cn_closed c' = cn_closed c \<and>
    cn_connect_response c' = cn_connect_response c \<and> (cn_handshake_confirmed c \<longrightarrow> cn_handshake_confirmed c') \<and>
    cn_response_sent_at c' = cn_response_sent_at c \<and> cn_lost c' = cn_lost c"
  proof (cases "parse_packet d")
    case (Inl e)
    then show ?thesis by (simp add: c'_def process_def same_sending_refl)
  next
    case (Inr packet)
    obtain b tp where g: "gate packet (cn_transport c) = (b, tp)" by fastforce
    note s = same_sending_gate [OF g]
    show ?thesis
    proof (cases b)
      case False
      then show ?thesis using Inr g s by (simp add: c'_def process_def)
    next
      case True
      then have c': "c' = snd (accept_packet t packet (c\<lparr>cn_transport := tp\<rparr>))" using Inr g by (simp add: c'_def process_def)
      note f = accept_packet_frame [where c = "c\<lparr>cn_transport := tp\<rparr>" and t = t and packet = packet, folded c', simplified]
      show ?thesis using f same_sending_trans [OF s f(1)] by blast
    qed
  qed
  show "same_sending (cn_transport c) (cn_transport c')" "cn_outbox c' = cn_outbox c" "cn_closed c' = cn_closed c"
    "cn_connect_response c' = cn_connect_response c" "cn_handshake_confirmed c \<Longrightarrow> cn_handshake_confirmed c'"
    "cn_response_sent_at c' = cn_response_sent_at c" "cn_lost c' = cn_lost c"
    using * by simp_all
qed

lemma handle_datagram_ok:
  assumes "connection_ok K cookie n c"
  shows "connection_ok K cookie n (snd (handle_datagram t d c))"
proof (cases "cn_closed c")
  case True
  then show ?thesis using assms by (simp add: handle_datagram_def)
next
  case False
  let ?c = "snd (process t d c)"
  note f = process_frame [where t = t and d = d and c = c]
  have "connection_ok K cookie n (drain_transport ?c)"
  proof (rule drained_ok [of K n _ cookie n])
    show "transport_ok K n (cn_transport ?c)"
      using assms same_sending_ok [OF f(1)] by (simp add: connection_ok_def)
    show "list_all (transmission_ok K cookie n) (cn_outbox ?c)" using assms f(2) by (simp add: connection_ok_def)
    show "cn_handshake_confirmed ?c \<or> n = 0 \<and> \<not> ob_time_pair_held (tp_outbound (cn_transport ?c))"
      using assms f(1,5) by (auto simp: connection_ok_def same_sending_def)
  qed (use assms f(4) in \<open>simp_all add: connection_ok_def\<close>)
  then show ?thesis using False by (simp add: handle_datagram_def split_beta)
qed

lemma tick_ok:
  assumes ok: "connection_ok K cookie n c" and lim: "Suc n < SESSION"
  shows "\<exists>c' m. tick t c = Some c' \<and> connection_ok K cookie m c' \<and> n \<le> m \<and> m \<le> n + 2"
proof -
  define c1 where "c1 = due_response t c"
  have c1: "cn_transport c1 = cn_transport c" "cn_handshake_confirmed c1 = cn_handshake_confirmed c"
    "cn_connect_response c1 = cn_connect_response c"
    by (auto simp: c1_def due_response_def send_connect_response_def split: option.split)
  have out1: "list_all (transmission_ok K cookie n) (cn_outbox c1)"
    using ok encode_response(2)
    by (auto simp: c1_def due_response_def send_connect_response_def connection_ok_def transmission_ok_def split: option.split)
  have silent: "connection_ok K cookie m (check_server_silence t x) = connection_ok K cookie m x" for m x
    by (auto simp: check_server_silence_def connection_ok_def Let_def split: option.split)
  have ok1: "connection_ok K cookie n c1" using ok c1 out1 by (simp add: connection_ok_def)
  show ?thesis
  proof (cases "cn_closed c \<or> cn_response_sent_at c1 = None")
    case True
    then show ?thesis using ok ok1 by (auto simp: tick_def Let_def silent simp flip: c1_def intro: exI [of _ n])
  next
    case False
    have "transport_ok K n (cn_transport c1)" using ok1 by (simp add: connection_ok_def)
    from transport_sweep_ok [OF this lim, of t "cn_handshake_confirmed c1"]
    obtain m tp' ds where r: "transport_sweep t (cn_handshake_confirmed c1) (cn_transport c1) = Some tp'"
      "transport_ok K m tp'"
      "sweep_adds K n (fst (clock_update t (tp_clock (cn_transport c1))) \<and> cn_handshake_confirmed c1)
        (ob_time_pair_held (tp_outbound (cn_transport c1))) m (ob_time_pair_held (tp_outbound tp')) ds" by blast
    have m: "n \<le> m" "m - n \<le> 2" using r(3) by (auto simp: sweep_adds_def of_bool_def split: if_splits)
    have quiet: "cn_handshake_confirmed c1 \<or> m = 0 \<and> \<not> ob_time_pair_held (tp_outbound tp')"
      using r(3) ok1 by (auto simp: sweep_adds_def connection_ok_def of_bool_def split: if_splits)
    have "connection_ok K cookie m (drain_transport (c1\<lparr>cn_transport := tp'\<rparr>))"
      using r(2) ok1 m quiet by (intro drained_ok [of K m _ cookie n]) (simp_all add: connection_ok_def)
    then show ?thesis using False r(1) m
      by (intro exI [of _ "check_server_silence t (drain_transport (c1\<lparr>cn_transport := tp'\<rparr>))"] exI [of _ m])
        (simp add: tick_def Let_def silent flip: c1_def)
  qed
qed

lemma disconnect_ok:
  assumes "connection_ok K cookie n c"
  shows "\<exists>c'. disconnect c = Some c' \<and> connection_ok K cookie n c'"
proof -
  let ?d = "clear_datagram (disconnect_header (cn_client_id c) (cn_iteration c)) []"
  have "transmission_ok K cookie n \<lparr>tm_destination = Login, tm_datagram = ?d\<rparr>"
    using transport_disconnect_eq(2) by (simp add: transmission_ok_def) blast
  then show ?thesis
    using assms by (simp add: disconnect_def transport_disconnect_eq(1) connection_ok_def)
qed


section \<open>Reachable connections\<close>

text \<open>Room for one more message before the 32-bit counter nears its end.\<close>

definition room :: "connection \<Rightarrow> bool" where
  "room c \<longleftrightarrow> unat (ob_highest_id_sent (tp_outbound (cn_transport c))) + 65537 < SESSION"

definition numbered_so_far :: "connection \<Rightarrow> nat" where
  "numbered_so_far c = unat (ob_highest_id_sent (tp_outbound (cn_transport c))) - 1"

inductive connection_session :: "isaac \<Rightarrow> u64 \<Rightarrow> connection \<Rightarrow> bool" for K cookie where
  accepted: "connection_new t h req = Some c \<Longrightarrow> isaac_new (cr_client_seed req) = K \<Longrightarrow> cr_cookie req = cookie \<Longrightarrow>
    connection_session K cookie c"
| sent: "connection_session K cookie c \<Longrightarrow> room c \<Longrightarrow> send_message t body grp c = (r, c') \<Longrightarrow>
    connection_session K cookie c'"
| received: "connection_session K cookie c \<Longrightarrow> connection_session K cookie (snd (handle_datagram t d c))"
| ticked: "connection_session K cookie c \<Longrightarrow> room c \<Longrightarrow> tick t c = Some c' \<Longrightarrow> connection_session K cookie c'"
| polled: "connection_session K cookie c \<Longrightarrow> connection_session K cookie (snd (poll_transmit c))"
| timeout_set: "connection_session K cookie c \<Longrightarrow> connection_session K cookie (set_server_silence_timeout d c)"
| disconnected: "connection_session K cookie c \<Longrightarrow> disconnect c = Some c' \<Longrightarrow> connection_session K cookie c'"

lemma numbered_eq: "connection_ok K cookie n c \<Longrightarrow> numbered_so_far c = n \<and> unat (ob_highest_id_sent (tp_outbound (cn_transport c))) = Suc n"
proof -
  assume "connection_ok K cookie n c"
  then have "ob_highest_id_sent (tp_outbound (cn_transport c)) = seq_at 1 n" "n < SESSION"
    by (simp_all add: connection_ok_def transport_ok_def outbound_ok_def)
  then show ?thesis using unat_seq_at [of 1 n] by (simp add: numbered_so_far_def SESSION_def)
qed

lemma session_connection_ok: "connection_session K cookie c \<Longrightarrow> connection_ok K cookie (numbered_so_far c) c"
proof (induction rule: connection_session.induct)
  case (accepted t h req c)
  then have "connection_ok K cookie 0 c" using connection_new_ok [of t h req] by auto
  then show ?case using numbered_eq by metis
next
  case (sent c t body grp r c')
  let ?n = "numbered_so_far c"
  have "?n + 65537 < SESSION" using numbered_eq [OF sent.IH] sent.hyps(2) by (simp add: room_def)
  from send_message_ok [OF sent.IH this sent.hyps(3)] show ?case using numbered_eq by metis
next
  case (received c t d)
  show ?case using handle_datagram_ok [OF received.IH, of t d] numbered_eq by metis
next
  case (ticked c t c')
  have "Suc (numbered_so_far c) < SESSION" using numbered_eq [OF ticked.IH] ticked.hyps(2) by (simp add: room_def)
  from tick_ok [OF ticked.IH this, of t] obtain m where "connection_ok K cookie m c'" using ticked.hyps(3) by auto
  then show ?case using numbered_eq by metis
next
  case (polled c)
  have "connection_ok K cookie (numbered_so_far c) (snd (poll_transmit c))"
    using polled.IH by (auto simp: poll_transmit_def connection_ok_def split: list.split)
  then show ?case using numbered_eq by metis
next
  case (timeout_set c d)
  have "connection_ok K cookie (numbered_so_far c) (set_server_silence_timeout d c)"
    using timeout_set.IH by (simp add: set_server_silence_timeout_def connection_ok_def)
  then show ?case using numbered_eq by metis
next
  case (disconnected c c')
  obtain c'' where "disconnect c = Some c''" "connection_ok K cookie (numbered_so_far c) c''"
    using disconnect_ok [OF disconnected.IH] by blast
  then show ?case using disconnected.hyps(2) numbered_eq by (metis option.sel)
qed

section \<open>Properties of reachable connections\<close>

text \<open>
  C5. The outbox of any reachable connection holds only sound datagrams, each for its right
  port: copies of the connect response with the server's cookie for the connect port; for the
  login port a numbered packet that verifies under its own keystream word, a cleartext
  acknowledgement or request, or the transport disconnect. Before the server has confirmed the
  handshake nothing numbered exists and no keystream word has been spent. A tick never fails
  while sequence numbers remain, and a disconnect never fails.
\<close>

theorem connection_outbox_sound:
  assumes "connection_session K cookie c"
  shows "ob_keystream (tp_outbound (cn_transport c)) = ks.after (numbered_so_far c) K \<and>
    list_all (transmission_ok K cookie (numbered_so_far c)) (cn_outbox c) \<and>
    (cn_handshake_confirmed c \<or> numbered_so_far c = 0) \<and>
    (\<not> room c \<or> tick t c \<noteq> None) \<and> disconnect c \<noteq> None"
proof -
  have ok: "connection_ok K cookie (numbered_so_far c) c" by (rule session_connection_ok [OF assms])
  have "tick t c \<noteq> None" if "room c"
  proof -
    have "Suc (numbered_so_far c) < SESSION" using numbered_eq [OF ok] that by (simp add: room_def)
    then show ?thesis using tick_ok [OF ok] by fastforce
  qed
  moreover have "disconnect c \<noteq> None" using disconnect_ok [OF ok] by auto
  ultimately show ?thesis using ok by (auto simp: connection_ok_def transport_ok_def outbound_ok_def)
qed

lemma connection_outbox_sound_witness:
  "\<exists>c. connection_session (isaac_new 5) 77 c \<and> list_all (transmission_ok (isaac_new 5) 77 (numbered_so_far c)) (cn_outbox c) \<and>
     length (cn_outbox c) = 1"
proof -
  let ?req = "\<lparr>cr_server_time = 0, cr_cookie = 77, cr_client_id = 1, cr_server_seed = 4, cr_client_seed = 5\<rparr>"
  obtain c where c: "connection_new 0 header_default ?req = Some c" "\<not> cn_closed c" "cn_outbox c = []"
    using connection_new_ok [of 0 header_default ?req] by auto
  have s: "connection_session (isaac_new 5) 77 c" by (rule connection_session.accepted [OF c(1)]) simp_all
  obtain c' where d: "disconnect c = Some c'" "length (cn_outbox c') = 1"
    using c(2,3) by (simp add: disconnect_def transport_disconnect_eq(1))
  have s': "connection_session (isaac_new 5) 77 c'" by (rule connection_session.disconnected [OF s d(1)])
  show ?thesis using connection_outbox_sound [OF s'] s' d(2) by blast
qed

text \<open>
  A closed connection stays closed and silent: after a disconnect every tick, datagram,
  message and further disconnect leaves it exactly as it is, delivers nothing and refuses to
  send; only the outbox still drains.
\<close>

theorem closed_is_final:
  "case disconnect c of
     None \<Rightarrow> False
   | Some c' \<Rightarrow>
       cn_closed c' \<and> tick t c' = Some c' \<and> handle_datagram t d c' = ([], c') \<and>
       send_message t body grp c' = (Inl Closed, c') \<and> disconnect c' = Some c'"
  by (simp add: disconnect_def transport_disconnect_eq(1) tick_def handle_datagram_def send_message_def)

end
