(* ===== verification/Delivery.thy ===== *)
theory Delivery
  imports Connection_Session
begin

text \<open>
  What the connection does with the server's packets: a genuine one is accepted, a forged one
  costs nothing, a message comes out of its fragments, and silence loses the connection.
\<close>

section \<open>Sealed packets at the gate\<close>

text \<open>The word the server sealed position \<open>p\<close> with.\<close>

definition owed_word :: "isaac \<Rightarrow> ledger \<Rightarrow> nat \<Rightarrow> u32" where
  "owed_word K l p = ks.word (draw_index (lg_free l) p - 1) K"

definition sealed_at :: "u32 \<Rightarrow> nat \<Rightarrow> parsed_packet \<Rightarrow> bool" where
  "sealed_at w p packet \<longleftrightarrow>
     hdr_sequence (pkt_header packet) = seq_at w p \<and> has (hdr_flags (pkt_header packet)) ENCRYPTED_CHECKSUM"

text \<open>Neither too far ahead nor already received.\<close>

definition expected :: "u32 \<Rightarrow> ledger \<Rightarrow> nat \<Rightarrow> bool" where
  "expected w l p \<longleftrightarrow>
     p < SESSION \<and> \<not> is_newer (seq_at w p) (seq_at w (lg_newest l) + SANITY_WINDOW) \<and>
     (lg_newest l < p \<or> p \<in> lg_missing l)"

definition after_arrival :: "nat \<Rightarrow> ledger \<Rightarrow> ledger" where
  "after_arrival p l = snd (ledger_admit True p l)"

lemma after_arrival_simps [simp]:
  "lg_free (after_arrival p l) = lg_free l" "lg_newest (after_arrival p l) = max (lg_newest l) p"
  by (auto simp: after_arrival_def ledger_admit_def)

text \<open>An arrival that is not dropped only counts the words it parks.\<close>

lemma add_nakked_counts: "\<exists>x \<ge> keys_parked (snd s). snd (add_nakked sid s) = (snd s)\<lparr>keys_parked := x\<rparr>"
proof (cases s)
  case (Pair tr st)
  have "\<exists>x \<ge> keys_parked st. st = st\<lparr>keys_parked := x\<rparr>" "\<exists>x \<ge> keys_parked st. st\<lparr>keys_parked := keys_parked st + 1\<rparr> = st\<lparr>keys_parked := x\<rparr>"
    by (rule exI [of _ "keys_parked st"], simp) (rule exI [of _ "keys_parked st + 1"], simp)
  then show ?thesis by (simp add: Pair add_nakked_def split_beta)
qed

lemma gap_walk_counts: "\<exists>x \<ge> keys_parked (snd s). snd (gap_walk sid stop s) = (snd s)\<lparr>keys_parked := x\<rparr>"
proof (induction sid stop s rule: gap_walk.induct)
  case (1 sid stop s)
  define s' where "s' = (if sid \<noteq> 0 then add_nakked sid s else s)"
  show ?case
  proof (cases "sid = stop")
    case True
    then show ?thesis by (subst gap_walk.simps) (auto intro!: exI [of _ "keys_parked (snd s)"])
  next
    case False
    obtain x where x: "keys_parked (snd s) \<le> x" "snd s' = (snd s)\<lparr>keys_parked := x\<rparr>"
    proof (cases "sid = 0")
      case True
      then show ?thesis using that [of "keys_parked (snd s)"] by (simp add: s'_def)
    next
      case False
      then show ?thesis using that add_nakked_counts [of s sid] by (auto simp: s'_def)
    qed
    obtain y where "keys_parked (snd s') \<le> y" "snd (gap_walk (sid + 1) stop s') = (snd s')\<lparr>keys_parked := y\<rparr>"
      using 1 [OF False] unfolding s'_def by blast
    then have "x \<le> y" "snd (gap_walk (sid + 1) stop s') = (snd s)\<lparr>keys_parked := y\<rparr>" using x by simp_all
    moreover have "gap_walk sid stop s = gap_walk (sid + 1) stop s'" using False by (subst gap_walk.simps) (simp add: s'_def)
    ultimately show ?thesis using x(1) by (intro exI [of _ y]) simp
  qed
qed

lemma admit_known_counts:
  "\<exists>x \<ge> keys_parked st. snd (snd (admit_known s encrypted newer parked tr st)) = st\<lparr>keys_parked := x\<rparr>"
proof -
  have "\<exists>x \<ge> keys_parked st. st = st\<lparr>keys_parked := x\<rparr>" by (rule exI [of _ "keys_parked st"]) simp
  moreover have "\<exists>x \<ge> keys_parked st. snd (gap_walk a b (tr, st)) = st\<lparr>keys_parked := x\<rparr>" for a b
    using gap_walk_counts [of "(tr, st)" a b] by simp
  ultimately show ?thesis by (auto simp: admit_known_def split_beta Let_def)
qed

lemma admit_counts:
  "fst (admit s encrypted tr st) \<noteq> Drop \<Longrightarrow> \<exists>x \<ge> keys_parked st. snd (snd (admit s encrypted tr st)) = st\<lparr>keys_parked := x\<rparr>"
  using admit_known_counts by (auto simp: admit_def Let_def split: option.splits if_splits)

lemma not_missing_after: "inbound_session K w tr l \<Longrightarrow> p \<notin> lg_missing (after_arrival p l)"
  using session_aligned [of K w tr l] by (auto simp: after_arrival_def ledger_admit_def aligned_def ledger_ok_def)

lemma not_parked_after:
  assumes "inbound_session K w tr' (after_arrival p l)" "inbound_session K w tr l" "p < SESSION"
  shows "bt_get (ib_nak_set tr') (seq_at w p) = None"
proof -
  note al = alignedD [OF session_aligned [OF assms(1)]]
  show ?thesis using naks_member [OF al(8,1) assms(3) al(6)] not_missing_after [OF assms(2)] by simp
qed

lemma admit_expected:
  assumes "inbound_session K w tr l" "expected w l p"
  shows "\<exists>tr' st'. admit (seq_at w p) True tr st = (Process (Some (owed_word K l p)) (draw_index (lg_free l) p), tr', st') \<and>
    inbound_session K w tr' (after_arrival p l)"
proof -
  obtain adm tr' st' where run: "admit (seq_at w p) True tr st = (adm, tr', st')" by (metis prod_cases3)
  have al: "aligned K w tr l" by (rule session_aligned [OF assms(1)])
  have p: "p < SESSION" using assms(2) by (simp add: expected_def)
  have hi: "ib_highest tr = seq_at w (lg_newest l)" using al by (simp add: aligned_def)
  have "adm = Process (Some (owed_word K l p)) (draw_index (lg_free l) p)"
    using admit_simulated(2) [OF al p run] assms(2) by (auto simp: expected_def ledger_admit_def owed_word_def hi)
  moreover have "inbound_session K w tr' (after_arrival p l)"
    using inbound_session.arrive [OF assms(1) p run] calculation by (simp add: after_arrival_def)
  ultimately show ?thesis using run by blast
qed

lemma sealed_seq_nz: "inbound_session K w tr l \<Longrightarrow> seq_at w p \<noteq> 0"
  using session_aligned seq_at_nz by (auto simp: aligned_def)

lemma gate_genuine:
  assumes s: "inbound_session K w (tp_inbound tp) l" and e: "expected w l p" and at: "sealed_at w p packet"
    and v: "pkt_verify packet (Some (owed_word K l p))"
  shows "\<exists>ib st. gate packet tp = (True, tp\<lparr>tp_inbound := ib, tp_stats := st\<rparr>) \<and> inbound_session K w ib (after_arrival p l)"
proof -
  obtain tr' st' where r: "admit (seq_at w p) True (tp_inbound tp) (tp_stats tp) =
      (Process (Some (owed_word K l p)) (draw_index (lg_free l) p), tr', st')" "inbound_session K w tr' (after_arrival p l)"
    using admit_expected [OF s e] by blast
  show ?thesis
    using r at v sealed_seq_nz [OF s, of p]
    by (intro exI [of _ tr'] exI [of _ st']) (simp add: gate_def sealed_at_def Let_def)
qed

lemma gate_forged:
  assumes s: "inbound_session K w (tp_inbound tp) l" and e: "expected w l p" and at: "sealed_at w p packet"
    and v: "\<not> pkt_verify packet (Some (owed_word K l p))" and p: "1 \<le> p" "p \<notin> lg_free l"
  shows "\<exists>ib parked. keys_parked (tp_stats tp) < parked \<and>
    gate packet tp = (False, tp\<lparr>tp_inbound := ib, tp_stats := (tp_stats tp)
      \<lparr>checksum_failures := checksum_failures (tp_stats tp) + 1, keys_parked := parked\<rparr>\<rparr>) \<and>
    inbound_session K w ib ((after_arrival p l)\<lparr>lg_missing := insert p (lg_missing (after_arrival p l))\<rparr>)"
proof -
  obtain tr' st' where r: "admit (seq_at w p) True (tp_inbound tp) (tp_stats tp) =
      (Process (Some (owed_word K l p)) (draw_index (lg_free l) p), tr', st')" "inbound_session K w tr' (after_arrival p l)"
    using admit_expected [OF s e] by blast
  obtain x where x: "keys_parked (tp_stats tp) \<le> x" "st' = (tp_stats tp)\<lparr>keys_parked := x\<rparr>"
    using admit_counts [of "seq_at w p" True "tp_inbound tp" "tp_stats tp"] by (auto simp: r(1))
  let ?st = "st'\<lparr>checksum_failures := checksum_failures st' + 1\<rparr>"
  have "p < SESSION" using e by (simp add: expected_def)
  from not_parked_after [OF r(2) s this]
  obtain ib where k: "repark (seq_at w p) (owed_word K l p) (draw_index (lg_free l) p) tr' ?st =
      (ib, ?st\<lparr>keys_parked := x + 1\<rparr>)" by (simp add: repark_def x(2))
  have "inbound_session K w ib ((after_arrival p l)\<lparr>lg_missing := insert p (lg_missing (after_arrival p l))\<rparr>)"
    by (rule inbound_session.failed [OF r(2) p(1), of ?st ib]) (use p(2) k in \<open>simp_all add: owed_word_def\<close>)
  then show ?thesis
    using r at v k x sealed_seq_nz [OF s, of p]
    by (intro exI [of _ ib] exI [of _ "x + 1"]) (simp add: gate_def sealed_at_def Let_def)
qed

text \<open>A packet at position \<open>p\<close> that fails leaves \<open>p\<close> expected, with the same word.\<close>

lemma expected_again:
  assumes "inbound_session K w tr l" "expected w l p"
  shows "expected w ((after_arrival p l)\<lparr>lg_missing := insert p M\<rparr>) p"
    "owed_word K ((after_arrival p l)\<lparr>lg_missing := insert p M\<rparr>) p = owed_word K l p"
proof -
  have w: "w \<noteq> 0" and n: "lg_newest l < SESSION"
    using session_aligned [OF assms(1)] by (simp_all add: aligned_def ledger_ok_def)
  have "\<not> is_newer (seq_at w p) (seq_at w (max (lg_newest l) p) + 0x7FFF)"
    using assms(2) n by (intro not_beyond_window w) (auto simp: expected_def)
  then show "expected w ((after_arrival p l)\<lparr>lg_missing := insert p M\<rparr>) p"
    using assms(2) by (simp add: expected_def SANITY_WINDOW_def)
  show "owed_word K ((after_arrival p l)\<lparr>lg_missing := insert p M\<rparr>) p = owed_word K l p"
    by (simp add: owed_word_def)
qed

section \<open>Acceptance\<close>

lemma sections_assembler [simp]:
  "tp_assembler (on_retransmit_section packet tp) = tp_assembler tp"
  "tp_assembler (on_reject_section packet tp) = tp_assembler tp"
  "tp_assembler (on_ack_section packet tp) = tp_assembler tp"
  by (simp_all add: on_retransmit_section_def on_reject_section_def on_ack_section_def Let_def split_beta)

lemma sections_inbound:
  "tp_inbound (on_retransmit_section packet tp) = tp_inbound tp" "tp_inbound (on_ack_section packet tp) = tp_inbound tp"
  by (simp_all add: on_retransmit_section_def on_ack_section_def split_beta)

lemma reject_section_sealed:
  assumes "inbound_session K w (tp_inbound tp) l" "has (hdr_flags (pkt_header packet)) ENCRYPTED_CHECKSUM"
  shows "\<exists>M \<subseteq> lg_missing l. inbound_session K w (tp_inbound (on_reject_section packet tp)) (l\<lparr>lg_missing := M\<rparr>)"
proof (cases "has (hdr_flags (pkt_header packet)) REJECT_RETRANSMIT")
  case True
  let ?ids = "opt_reject_retransmits (pkt_optional packet)"
  have "tp_inbound (on_reject_section packet tp) = on_reject_retransmit ?ids (tp_inbound tp)"
    using True assms(2) by (simp add: on_reject_section_def Let_def)
  then show ?thesis using inbound_session.given_up [OF assms(1), of ?ids]
    by (intro exI [of _ "{p \<in> lg_missing l. seq_at w p \<notin> set (sl_iter ?ids)}"]) auto
next
  case False
  then show ?thesis using assms(1) by (intro exI [of _ "lg_missing l"]) (simp add: on_reject_section_def)
qed

lemma accept_messages:
  "fst (accept_packet t packet c) = fst (ingest_fragments t (pkt_fragments packet) (tp_assembler (cn_transport c)))"
  by (simp add: accept_packet_def on_time_section_def note_server_time_def Let_def split_beta)

lemma accept_assembler:
  "tp_assembler (cn_transport (snd (accept_packet t packet c))) =
     snd (ingest_fragments t (pkt_fragments packet) (tp_assembler (cn_transport c)))"
  by (simp add: accept_packet_def on_time_section_def note_server_time_def Let_def split_beta)

lemma accept_inbound:
  assumes "inbound_session K w (tp_inbound (cn_transport c)) l" "has (hdr_flags (pkt_header packet)) ENCRYPTED_CHECKSUM"
  shows "\<exists>M \<subseteq> lg_missing l. inbound_session K w (tp_inbound (cn_transport (snd (accept_packet t packet c)))) (l\<lparr>lg_missing := M\<rparr>)"
proof -
  define tp where "tp = (cn_transport c)\<lparr>tp_stats := (tp_stats (cn_transport c))\<lparr>packets_received := packets_received (tp_stats (cn_transport c)) + 1\<rparr>\<rparr>"
  have "inbound_session K w (tp_inbound (on_retransmit_section packet tp)) l"
    using assms(1) by (simp add: sections_inbound tp_def)
  from reject_section_sealed [OF this assms(2)]
  have "\<exists>M \<subseteq> lg_missing l.
      inbound_session K w (tp_inbound (on_ack_section packet (on_reject_section packet (on_retransmit_section packet tp)))) (l\<lparr>lg_missing := M\<rparr>)"
    by (simp add: sections_inbound)
  then show ?thesis
    by (simp add: accept_packet_def on_time_section_def note_server_time_def Let_def split_beta tp_def)
qed

lemma drain_simps [simp]:
  "tp_inbound (cn_transport (drain_transport c)) = tp_inbound (cn_transport c)"
  "tp_assembler (cn_transport (drain_transport c)) = tp_assembler (cn_transport c)"
  "cn_last_packet_at (drain_transport c) = cn_last_packet_at c" "cn_closed (drain_transport c) = cn_closed c"
  "cn_handshake_confirmed (drain_transport c) = cn_handshake_confirmed c"
  by (simp_all add: drain_transport_def)

lemma handle_genuine:
  assumes live: "\<not> cn_closed c" and s: "inbound_session K w (tp_inbound (cn_transport c)) l" and e: "expected w l p"
    and d: "parse_packet d = Inr packet" "sealed_at w p packet" "pkt_verify packet (Some (owed_word K l p))"
  shows "fst (handle_datagram t d c) = fst (ingest_fragments t (pkt_fragments packet) (tp_assembler (cn_transport c)))"
    "cn_last_packet_at (snd (handle_datagram t d c)) = t"
    "\<exists>M \<subseteq> lg_missing (after_arrival p l).
       inbound_session K w (tp_inbound (cn_transport (snd (handle_datagram t d c)))) ((after_arrival p l)\<lparr>lg_missing := M\<rparr>)"
    "tp_assembler (cn_transport (snd (handle_datagram t d c))) =
       snd (ingest_fragments t (pkt_fragments packet) (tp_assembler (cn_transport c)))"
    "cn_handshake_confirmed (snd (handle_datagram t d c)) =
       (cn_handshake_confirmed c \<or> \<not> has (hdr_flags (pkt_header packet)) CONNECT_REQUEST)"
proof -
  obtain ib st where g: "gate packet (cn_transport c) = (True, (cn_transport c)\<lparr>tp_inbound := ib, tp_stats := st\<rparr>)"
    and ib: "inbound_session K w ib (after_arrival p l)" using gate_genuine [OF s e d(2,3)] by blast
  let ?c = "c\<lparr>cn_transport := (cn_transport c)\<lparr>tp_inbound := ib, tp_stats := st\<rparr>\<rparr>"
  have h: "handle_datagram t d c = (fst (accept_packet t packet ?c), drain_transport (snd (accept_packet t packet ?c)))"
    using live d(1) g by (simp add: handle_datagram_def process_def split_beta)
  show "fst (handle_datagram t d c) = fst (ingest_fragments t (pkt_fragments packet) (tp_assembler (cn_transport c)))"
    by (simp add: h accept_messages)
  show "cn_last_packet_at (snd (handle_datagram t d c)) = t" by (simp add: h accept_packet_frame)
  have enc: "has (hdr_flags (pkt_header packet)) ENCRYPTED_CHECKSUM" using d(2) by (simp add: sealed_at_def)
  have "inbound_session K w (tp_inbound (cn_transport ?c)) (after_arrival p l)" using ib by simp
  from accept_inbound [OF this enc] show "\<exists>M \<subseteq> lg_missing (after_arrival p l).
      inbound_session K w (tp_inbound (cn_transport (snd (handle_datagram t d c)))) ((after_arrival p l)\<lparr>lg_missing := M\<rparr>)"
    by (simp add: h)
  show "tp_assembler (cn_transport (snd (handle_datagram t d c))) =
      snd (ingest_fragments t (pkt_fragments packet) (tp_assembler (cn_transport c)))"
    by (simp add: h accept_assembler)
  show "cn_handshake_confirmed (snd (handle_datagram t d c)) =
      (cn_handshake_confirmed c \<or> \<not> has (hdr_flags (pkt_header packet)) CONNECT_REQUEST)"
    by (simp add: h accept_packet_frame)
qed

lemma handle_forged:
  assumes live: "\<not> cn_closed c" and s: "inbound_session K w (tp_inbound (cn_transport c)) l" and e: "expected w l p"
    and p: "1 \<le> p" "p \<notin> lg_free l"
    and d: "parse_packet d = Inr packet" "sealed_at w p packet" "\<not> pkt_verify packet (Some (owed_word K l p))"
  shows "\<exists>ib parked. keys_parked (tp_stats (cn_transport c)) < parked \<and>
      handle_datagram t d c =
        ([], drain_transport (c\<lparr>cn_transport := (cn_transport c)\<lparr>tp_inbound := ib,
           tp_stats := (tp_stats (cn_transport c))
             \<lparr>checksum_failures := checksum_failures (tp_stats (cn_transport c)) + 1, keys_parked := parked\<rparr>\<rparr>\<rparr>)) \<and>
      inbound_session K w ib ((after_arrival p l)\<lparr>lg_missing := insert p (lg_missing (after_arrival p l))\<rparr>)"
proof -
  obtain ib parked where g: "keys_parked (tp_stats (cn_transport c)) < parked"
    "gate packet (cn_transport c) = (False, (cn_transport c)\<lparr>tp_inbound := ib, tp_stats := (tp_stats (cn_transport c))
      \<lparr>checksum_failures := checksum_failures (tp_stats (cn_transport c)) + 1, keys_parked := parked\<rparr>\<rparr>)"
    "inbound_session K w ib ((after_arrival p l)\<lparr>lg_missing := insert p (lg_missing (after_arrival p l))\<rparr>)"
    using gate_forged [OF s e d(2,3) p] by blast
  show ?thesis
    using live d(1) g by (intro exI [of _ ib] exI [of _ parked]) (simp add: handle_datagram_def process_def)
qed

lemma forged_again:
  assumes "\<not> cn_closed c" "inbound_session K w (tp_inbound (cn_transport c)) l" "expected w l p" "1 \<le> p" "p \<notin> lg_free l"
    "parse_packet d = Inr packet" "sealed_at w p packet" "\<not> pkt_verify packet (Some (owed_word K l p))"
  shows "\<exists>ib st l'. handle_datagram t d c =
      ([], drain_transport (c\<lparr>cn_transport := (cn_transport c)\<lparr>tp_inbound := ib, tp_stats := st\<rparr>\<rparr>)) \<and>
    inbound_session K w ib l' \<and> expected w l' p \<and> owed_word K l' p = owed_word K l p"
  using handle_forged [OF assms, of t] expected_again [OF assms(2,3)] by blast

text \<open>For every sequence and word there is a packet sealed with it.\<close>

lemma sealed_packet_exists: "\<exists>d. opens_as d seq key None None None"
proof -
  define h where "h = header_default\<lparr>hdr_sequence := seq, hdr_flags := ENCRYPTED_CHECKSUM\<rparr>"
  define h' where "h' = h\<lparr>hdr_checksum := header_hash h + (key XOR numbered_share None None None)\<rparr>"
  have "announces (hdr_flags h') None None None"
    by (simp add: h'_def h_def announces_def carries_def has_def flag_defs)
  moreover have "fits None" by (simp add: fits_def)
  moreover have "unat (hdr_data_size h') = length (numbered_body None None None)"
    by (simp add: h'_def h_def header_default_def numbered_body_def section_bytes_def)
  moreover have "hdr_checksum h' = header_hash h' + (key XOR numbered_share None None None)" by (simp add: h'_def)
  ultimately have "opens_as (header_to_bytes h' @ numbered_body None None None) (hdr_sequence h') key None None None"
    by (rule numbered_opens)
  then show ?thesis by (auto simp: h'_def h_def)
qed

lemma verify_unique: "pkt_verify packet (Some k) \<Longrightarrow> pkt_verify packet (Some k') \<Longrightarrow> k = k'"
proof -
  assume "pkt_verify packet (Some k)" "pkt_verify packet (Some k')"
  then have "k XOR pkt_payload_hash packet = k' XOR pkt_payload_hash packet"
    by (simp add: pkt_verify_def verify_checksum_def)
  then have "(k XOR pkt_payload_hash packet) XOR pkt_payload_hash packet = (k' XOR pkt_payload_hash packet) XOR pkt_payload_hash packet"
    by (rule arg_cong)
  then show "k = k'" by (simp add: xor.assoc)
qed

lemma opens_as_sealed:
  assumes "opens_as d (seq_at w p) key ack stamps fo"
  shows "\<exists>packet. parse_packet d = Inr packet \<and> sealed_at w p packet \<and> pkt_verify packet (Some key) \<and>
    pkt_fragments packet = frag_list fo"
  using assms by (auto simp: opens_as_def sealed_at_def split: sum.splits)

section \<open>Properties\<close>

text \<open>
  C7. A sealed packet at an expected position is accepted exactly when it verifies under the
  keystream word the server owes that position. Accepted, its fragments go through the assembler, which gives
  the messages and its new state, the silence clock restarts, the handshake counts as confirmed unless the
  packet is a connect request, and the position is used up. Refused, it gives no message and changes
  nothing of the connection but the tracker and two counters, the failed checksums by one and the
  parked words; what already waited to be sent goes to the outbox, as after every datagram. The tracker then
  holds the position missing, so that it is expected as before, with the same word.
\<close>

theorem sealed_packet_judged:
  assumes "\<not> cn_closed c" "inbound_session K w (tp_inbound (cn_transport c)) l" "expected w l p" "1 \<le> p" "p \<notin> lg_free l"
    "parse_packet d = Inr packet" "sealed_at w p packet"
  shows "case handle_datagram t d c of (ms, c') \<Rightarrow>
    if pkt_verify packet (Some (owed_word K l p))
    then (ms, tp_assembler (cn_transport c')) = ingest_fragments t (pkt_fragments packet) (tp_assembler (cn_transport c)) \<and>
         cn_last_packet_at c' = t \<and>
         cn_handshake_confirmed c' = (cn_handshake_confirmed c \<or> \<not> has (hdr_flags (pkt_header packet)) CONNECT_REQUEST) \<and>
         p \<notin> lg_missing (after_arrival p l) \<and>
         (\<exists>M \<subseteq> lg_missing (after_arrival p l).
            inbound_session K w (tp_inbound (cn_transport c')) ((after_arrival p l)\<lparr>lg_missing := M\<rparr>))
    else ms = [] \<and>
         (\<exists>ib parked l'. keys_parked (tp_stats (cn_transport c)) < parked \<and>
            c' = drain_transport (c\<lparr>cn_transport := (cn_transport c)\<lparr>tp_inbound := ib,
                   tp_stats := (tp_stats (cn_transport c))
                     \<lparr>checksum_failures := checksum_failures (tp_stats (cn_transport c)) + 1, keys_parked := parked\<rparr>\<rparr>\<rparr>) \<and>
            l' = (after_arrival p l)\<lparr>lg_missing := insert p (lg_missing (after_arrival p l))\<rparr> \<and>
            inbound_session K w ib l' \<and> expected w l' p \<and> owed_word K l' p = owed_word K l p)"
proof (cases "pkt_verify packet (Some (owed_word K l p))")
  case True
  then show ?thesis
    using handle_genuine [OF assms(1-3,6,7) True, of t] not_missing_after [OF assms(2)] by (simp add: split_beta)
next
  case False
  obtain ib parked where h: "keys_parked (tp_stats (cn_transport c)) < parked" "handle_datagram t d c =
        ([], drain_transport (c\<lparr>cn_transport := (cn_transport c)\<lparr>tp_inbound := ib,
           tp_stats := (tp_stats (cn_transport c))
             \<lparr>checksum_failures := checksum_failures (tp_stats (cn_transport c)) + 1, keys_parked := parked\<rparr>\<rparr>\<rparr>))"
      "inbound_session K w ib ((after_arrival p l)\<lparr>lg_missing := insert p (lg_missing (after_arrival p l))\<rparr>)"
    using handle_forged [OF assms(1-7) False, of t] by blast
  show ?thesis
    unfolding h(2) prod.case if_not_P [OF False] using h(1,3) expected_again [OF assms(2,3)] by blast
qed

lemma fresh_connection:
  "\<exists>c. connection_new 0 header_default \<lparr>cr_server_time = 0, cr_cookie = 77, cr_client_id = 1, cr_server_seed = 4, cr_client_seed = 5\<rparr> = Some c \<and>
    \<not> cn_closed c \<and>
    inbound_session (isaac_new 4) 1 (tp_inbound (cn_transport c)) \<lparr>lg_free = {}, lg_newest = 0, lg_missing = {}\<rparr> \<and>
    expected 1 \<lparr>lg_free = {}, lg_newest = 0, lg_missing = {}\<rparr> 1"
proof -
  have "inbound_session (isaac_new 4) 1 (inbound_new (isaac_new 4) 1) \<lparr>lg_free = {}, lg_newest = 0, lg_missing = {}\<rparr>"
    by (rule inbound_session.start) simp
  moreover have "expected 1 \<lparr>lg_free = {}, lg_newest = 0, lg_missing = {}\<rparr> 1"
    by (simp add: expected_def SESSION_def seq_at_def seq_next_def is_newer_def SANITY_WINDOW_def)
  ultimately show ?thesis
    by (simp add: connection_new_def encode_response transport_new_def INITIAL_WATERMARK_def Let_def)
qed

lemma sealed_packet_judged_witness:
  "\<exists>c d ms c'. handle_datagram 9 d c = (ms, c') \<and> cn_last_packet_at c' = 9 \<and> cn_last_packet_at c = 0"
proof -
  let ?l = "\<lparr>lg_free = {}, lg_newest = 0, lg_missing = {}\<rparr> :: ledger"
  obtain c where c: "connection_new 0 header_default \<lparr>cr_server_time = 0, cr_cookie = 77, cr_client_id = 1, cr_server_seed = 4, cr_client_seed = 5\<rparr> = Some c"
    "\<not> cn_closed c" "inbound_session (isaac_new 4) 1 (tp_inbound (cn_transport c)) ?l" "expected 1 ?l 1"
    using fresh_connection by blast
  obtain d packet where d: "parse_packet d = Inr packet" "sealed_at 1 1 packet"
    "pkt_verify packet (Some (owed_word (isaac_new 4) ?l 1))"
    using sealed_packet_exists opens_as_sealed by metis
  have "cn_last_packet_at c = 0" using c(1) by (auto simp: connection_new_def encode_response Let_def)
  then show ?thesis
    using sealed_packet_judged [OF c(2-4) _ _ d(1,2), of 9] d(3) by (fastforce split: prod.splits)
qed

text \<open>
  C6. A forgery costs nothing. When a sealed datagram that claims an expected position but
  does not verify arrives before the genuine one, it delivers nothing, and the genuine one is
  then handled exactly as if the forgery had never come: the same messages, and the silence
  clock restarts.
\<close>

theorem forgery_costs_nothing:
  assumes "\<not> cn_closed c" "inbound_session K w (tp_inbound (cn_transport c)) l" "expected w l p" "1 \<le> p" "p \<notin> lg_free l"
    "parse_packet f = Inr forged" "sealed_at w p forged" "\<not> pkt_verify forged (Some (owed_word K l p))"
    "parse_packet d = Inr packet" "sealed_at w p packet" "pkt_verify packet (Some (owed_word K l p))"
  shows "fst (handle_datagram t f c) = [] \<and>
    fst (handle_datagram t' d (snd (handle_datagram t f c))) = fst (handle_datagram t' d c) \<and>
    cn_last_packet_at (snd (handle_datagram t' d (snd (handle_datagram t f c)))) = t'"
proof -
  obtain ib st l' where h: "handle_datagram t f c =
      ([], drain_transport (c\<lparr>cn_transport := (cn_transport c)\<lparr>tp_inbound := ib, tp_stats := st\<rparr>\<rparr>))"
    and s: "inbound_session K w ib l'" "expected w l' p" "owed_word K l' p = owed_word K l p"
    using forged_again [OF assms(1-8), of t] by blast
  let ?c = "drain_transport (c\<lparr>cn_transport := (cn_transport c)\<lparr>tp_inbound := ib, tp_stats := st\<rparr>\<rparr>)"
  have c: "\<not> cn_closed ?c" "inbound_session K w (tp_inbound (cn_transport ?c)) l'" using assms(1) s(1) by simp_all
  have v: "pkt_verify packet (Some (owed_word K l' p))" using assms(11) s(3) by simp
  show ?thesis
    using handle_genuine(1,2) [OF c s(2) assms(9,10) v, of t'] handle_genuine(1) [OF assms(1-3,9-11), of t'] h by simp
qed

lemma forgery_costs_nothing_witness:
  "\<exists>c f d. f \<noteq> d \<and> fst (handle_datagram 3 f c) = [] \<and>
     cn_last_packet_at (snd (handle_datagram 9 d (snd (handle_datagram 3 f c)))) = 9"
proof -
  let ?l = "\<lparr>lg_free = {}, lg_newest = 0, lg_missing = {}\<rparr> :: ledger" and ?K = "isaac_new 4"
  obtain c :: connection where c: "\<not> cn_closed c" "inbound_session ?K 1 (tp_inbound (cn_transport c)) ?l" "expected 1 ?l 1"
    using fresh_connection by blast
  obtain d packet where d: "parse_packet d = Inr packet" "sealed_at 1 1 packet" "pkt_verify packet (Some (owed_word ?K ?l 1))"
    using sealed_packet_exists opens_as_sealed by metis
  obtain f forged where f: "parse_packet f = Inr forged" "sealed_at 1 1 forged" "pkt_verify forged (Some (owed_word ?K ?l 1 + 1))"
    using sealed_packet_exists opens_as_sealed by metis
  have nv: "\<not> pkt_verify forged (Some (owed_word ?K ?l 1))" 
  proof
    assume "pkt_verify forged (Some (owed_word ?K ?l 1))"
    from verify_unique [OF f(3) this] show False by simp
  qed
  then have "f \<noteq> d" using f(1) d(1,3) by auto
  then show ?thesis
    using forgery_costs_nothing [OF c _ _ f(1,2) nv d, of 3 9] by fastforce
qed

end
