(* ===== verification/Reliable_Delivery.thy ===== *)
theory Reliable_Delivery
  imports Delivery
begin

text \<open>
  From one queue to the other end: the datagrams the sender's \<open>send_game_message\<close> emits,
  handed to a connection in any order, with any repetition and with forgeries and garbage in
  between, deliver the message exactly once. The proof follows the receiver by the set of
  pieces accepted so far.
\<close>

section \<open>Positions that are not expected\<close>

lemma seq_at_1: "p < SESSION \<Longrightarrow> unat (seq_at 1 p) = p + 1"
  using unat_seq_at [of 1 p] by (simp add: SESSION_def)

lemma window_from_1:
  assumes "p < SESSION" "q < SESSION" "p \<le> q + 0x7FFF"
  shows "\<not> is_newer (seq_at 1 p) (seq_at 1 q + SANITY_WINDOW)"
proof -
  have p: "unat (seq_at 1 p) = p + 1" and q: "unat (seq_at 1 q) = q + 1" using assms seq_at_1 by simp_all
  have w: "unat (seq_at 1 q + SANITY_WINDOW) = q + 0x8000"
    using q assms(2) by (simp add: unat_word_ariths(1) SANITY_WINDOW_def SESSION_def)
  have "unat (seq_at 1 p - (seq_at 1 q + SANITY_WINDOW)) = 0 \<or> 2147483648 \<le> unat (seq_at 1 p - (seq_at 1 q + SANITY_WINDOW))"
    using p w assms by (auto simp: unat_sub_if' SESSION_def)
  then show ?thesis by (auto simp: is_newer_iff unat_eq_0)
qed

lemma expected_from_1:
  assumes "aligned K 1 tr l" "p < SESSION" "p \<le> lg_newest l + 0x7FFF"
  shows "expected 1 l p \<longleftrightarrow> lg_newest l < p \<or> p \<in> lg_missing l"
  using assms window_from_1 [of p "lg_newest l"] by (auto simp: expected_def aligned_def ledger_ok_def)

lemma handle_unexpected:
  assumes "\<not> cn_closed c" "inbound_session K w (tp_inbound (cn_transport c)) l" "p < SESSION"
    and "p \<le> lg_newest l" "p \<notin> lg_missing l" "parse_packet d = Inr packet" "sealed_at w p packet"
  shows "\<exists>st. handle_datagram t d c = ([], drain_transport (c\<lparr>cn_transport := (cn_transport c)\<lparr>tp_stats := st\<rparr>\<rparr>))"
proof -
  obtain adm tr' st' where run: "admit (seq_at w p) True (tp_inbound (cn_transport c)) (tp_stats (cn_transport c)) = (adm, tr', st')"
    by (metis prod_cases3)
  have "adm = Drop"
    using admit_simulated(2) [OF session_aligned [OF assms(2)] assms(3) run] assms(4,5) by (simp add: ledger_admit_def)
  then have "tr' = tp_inbound (cn_transport c)" using admit_drop run by blast
  then have "gate packet (cn_transport c) = (False, (cn_transport c)\<lparr>tp_stats := st'\<rparr>)"
    using run assms(7) \<open>adm = Drop\<close> sealed_seq_nz [OF assms(2), of p] by (simp add: gate_def sealed_at_def Let_def)
  then show ?thesis
    using assms(1,6) by (intro exI [of _ st']) (simp add: handle_datagram_def process_def)
qed

section \<open>Accepting one of the sender's packets\<close>

lemma accept_own_shape:
  assumes "pkt_optional packet = pair_optional ack stamps" "has (hdr_flags (pkt_header packet)) ENCRYPTED_CHECKSUM"
  shows "tp_inbound (cn_transport (snd (accept_packet t packet c))) = tp_inbound (cn_transport c)"
    "tp_assembler (cn_transport (snd (accept_packet t packet c))) =
       snd (ingest_fragments t (pkt_fragments packet) (tp_assembler (cn_transport c)))"
proof -
  have "on_reject_retransmit \<lparr>sl_bytes = []\<rparr> ib = ib" for ib by (simp add: on_reject_retransmit_def sl_iter_def)
  then have rej: "tp_inbound (on_reject_section packet tp) = tp_inbound tp" for tp
    using assms by (simp add: on_reject_section_def pair_optional_def optional_default_def Let_def)
  show "tp_inbound (cn_transport (snd (accept_packet t packet c))) = tp_inbound (cn_transport c)"
    by (simp add: accept_packet_def on_time_section_def note_server_time_def sections_inbound rej Let_def split_beta)
  show "tp_assembler (cn_transport (snd (accept_packet t packet c))) =
       snd (ingest_fragments t (pkt_fragments packet) (tp_assembler (cn_transport c)))"
    by (simp add: accept_packet_def on_time_section_def note_server_time_def Let_def split_beta)
qed

lemma handle_own:
  assumes live: "\<not> cn_closed c" and s: "inbound_session K w (tp_inbound (cn_transport c)) l" and e: "expected w l p"
    and d: "opens_as d (seq_at w p) (owed_word K l p) ack stamps fo"
  shows "\<exists>c'. handle_datagram t d c = (fst (ingest_fragments t (frag_list fo) (tp_assembler (cn_transport c))), c') \<and>
    \<not> cn_closed c' \<and> inbound_session K w (tp_inbound (cn_transport c')) (after_arrival p l) \<and>
    tp_assembler (cn_transport c') = snd (ingest_fragments t (frag_list fo) (tp_assembler (cn_transport c)))"
proof -
  obtain packet where p: "parse_packet d = Inr packet" "sealed_at w p packet" "pkt_verify packet (Some (owed_word K l p))"
    "pkt_fragments packet = frag_list fo" "pkt_optional packet = pair_optional ack stamps"
    using d by (auto simp: opens_as_def sealed_at_def split: sum.splits)
  have enc: "has (hdr_flags (pkt_header packet)) ENCRYPTED_CHECKSUM" using p(2) by (simp add: sealed_at_def)
  obtain ib st where g: "gate packet (cn_transport c) = (True, (cn_transport c)\<lparr>tp_inbound := ib, tp_stats := st\<rparr>)"
    and ib: "inbound_session K w ib (after_arrival p l)" using gate_genuine [OF s e p(2,3)] by blast
  let ?c = "c\<lparr>cn_transport := (cn_transport c)\<lparr>tp_inbound := ib, tp_stats := st\<rparr>\<rparr>"
  have h: "handle_datagram t d c = (fst (accept_packet t packet ?c), drain_transport (snd (accept_packet t packet ?c)))"
    using live p(1) g by (simp add: handle_datagram_def process_def split_beta)
  show ?thesis
    using ib live accept_own_shape [OF p(5) enc, of t ?c] accept_packet_frame(3) [of t packet ?c]
    by (simp add: h accept_messages p(4))
qed

section \<open>The pieces of one message\<close>

text \<open>
  The pieces of \<open>I\<close> have been accepted: positions \<open>n + 1, n + 2, \<dots>\<close> carry the pieces, and the
  tracker owes exactly those outside \<open>I\<close>.
\<close>

definition progress :: "isaac \<Rightarrow> nat \<Rightarrow> u32 \<Rightarrow> u16 \<Rightarrow> bytes list \<Rightarrow> nat set \<Rightarrow> connection \<Rightarrow> bool" where
  "progress K n s q ps I c \<longleftrightarrow>
     \<not> cn_closed c \<and> I \<subseteq> {..<length ps} \<and>
     assembler_ok (tp_assembler (cn_transport c)) \<and>
     (I \<noteq> {..<length ps} \<longrightarrow> holds (tp_assembler (cn_transport c)) s q ps I) \<and>
     (\<exists>l. inbound_session K 1 (tp_inbound (cn_transport c)) l \<and> lg_free l = {} \<and>
        n \<le> lg_newest l \<and> lg_newest l \<le> n + length ps \<and>
        (\<forall>i < length ps. i \<in> I \<longleftrightarrow> n + Suc i \<le> lg_newest l \<and> n + Suc i \<notin> lg_missing l))"

lemma progress_drain:
  "progress K n s q ps I (drain_transport c) \<longleftrightarrow> progress K n s q ps I c"
  by (simp add: progress_def)

lemma progress_stats:
  "progress K n s q ps I (c\<lparr>cn_transport := (cn_transport c)\<lparr>tp_stats := st\<rparr>\<rparr>) \<longleftrightarrow> progress K n s q ps I c"
  by (simp add: progress_def)

lemma draw_index_full: "draw_index {} p = p"
  by (induction p) simp_all

lemma owed_word_full: "lg_free l = {} \<Longrightarrow> owed_word K l (Suc m) = ks.word m K"
  by (simp add: owed_word_def draw_index_full)

text \<open>The ledger after an arrival at a position still owed.\<close>

lemma owed_after_arrival:
  assumes "aligned K w tr l" "lg_newest l < p \<or> p \<in> lg_missing l"
  shows "x \<le> lg_newest (after_arrival p l) \<and> x \<notin> lg_missing (after_arrival p l) \<longleftrightarrow>
    x = p \<or> x \<le> lg_newest l \<and> x \<notin> lg_missing l"
proof -
  have "lg_missing l \<subseteq> {1..lg_newest l}" using assms(1) by (auto simp: aligned_def ledger_ok_def)
  then show ?thesis using assms(2) by (auto simp: after_arrival_def ledger_admit_def)
qed

lemma progress_arrived:
  assumes pr: "progress K n s q ps I c" and lim: "n + length ps < SESSION"
    and l: "inbound_session K 1 (tp_inbound (cn_transport c)) l" "lg_free l = {}" "n \<le> lg_newest l" "lg_newest l \<le> n + length ps"
      "\<forall>j < length ps. j \<in> I \<longleftrightarrow> n + Suc j \<le> lg_newest l \<and> n + Suc j \<notin> lg_missing l"
    and i: "i < length ps" "i \<notin> I"
  shows "\<forall>j < length ps. j \<in> insert i I \<longleftrightarrow> n + Suc j \<le> lg_newest (after_arrival (n + Suc i) l) \<and>
      n + Suc j \<notin> lg_missing (after_arrival (n + Suc i) l)"
    "lg_free (after_arrival (n + Suc i) l) = {}" "n \<le> lg_newest (after_arrival (n + Suc i) l)"
    "lg_newest (after_arrival (n + Suc i) l) \<le> n + length ps"
proof -
  have owed: "lg_newest l < n + Suc i \<or> n + Suc i \<in> lg_missing l" using l(5) i by auto
  show "\<forall>j < length ps. j \<in> insert i I \<longleftrightarrow> n + Suc j \<le> lg_newest (after_arrival (n + Suc i) l) \<and>
      n + Suc j \<notin> lg_missing (after_arrival (n + Suc i) l)"
  proof (intro allI impI)
    fix j assume j: "j < length ps"
    show "j \<in> insert i I \<longleftrightarrow> n + Suc j \<le> lg_newest (after_arrival (n + Suc i) l) \<and> n + Suc j \<notin> lg_missing (after_arrival (n + Suc i) l)"
      unfolding owed_after_arrival [OF session_aligned [OF l(1)] owed] using l(5) j by auto
  qed
qed (use l i in simp_all)

text \<open>The assembler on a new piece, the single-piece message included.\<close>

lemma ingest_new_piece:
  assumes ok: "assembler_ok a" and held: "holds a s q ps I" and I: "I \<subseteq> {..<length ps}" and i: "i < length ps" "i \<notin> I"
    and len: "length ps \<le> 65535"
  shows "fst (ingest t (piece_fragment s q ps i) a) =
      (if insert i I = {..<length ps} then Some \<lparr>im_queue = q, im_body = concat ps\<rparr> else None)"
    "insert i I \<noteq> {..<length ps} \<Longrightarrow> holds (snd (ingest t (piece_fragment s q ps i) a)) s q ps (insert i I)"
proof -
  have both: "fst (ingest t (piece_fragment s q ps i) a) =
      (if insert i I = {..<length ps} then Some \<lparr>im_queue = q, im_body = concat ps\<rparr> else None) \<and>
    (insert i I \<noteq> {..<length ps} \<longrightarrow> holds (snd (ingest t (piece_fragment s q ps i) a)) s q ps (insert i I))"
  proof (cases "length ps = 1")
    case True
    then obtain x where x: "ps = [x]" by (auto simp: length_Suc_conv)
    have "i = 0" "I = {}" using i I x by auto
    moreover have "frag_count (fr_header (piece_fragment s q ps i)) = 1 \<and> frag_index (fr_header (piece_fragment s q ps i)) = 0"
      using piece_fragment_single [OF i(1) len, of s q] True by simp
    ultimately show ?thesis by (auto simp: ingest_def x Let_def)
  next
    case False
    then have "1 < length ps" using i(1) by simp
    moreover have "I \<subset> {..<length ps}" using I i by auto
    ultimately show ?thesis using ingest_piece [OF ok held _ i(1) _ len, of t] by (auto split: if_splits)
  qed
  show "fst (ingest t (piece_fragment s q ps i) a) =
      (if insert i I = {..<length ps} then Some \<lparr>im_queue = q, im_body = concat ps\<rparr> else None)" using both by simp
  show "insert i I \<noteq> {..<length ps} \<Longrightarrow> holds (snd (ingest t (piece_fragment s q ps i) a)) s q ps (insert i I)" using both by simp
qed

section \<open>One arrival\<close>

definition carries_piece :: "isaac \<Rightarrow> nat \<Rightarrow> u32 \<Rightarrow> u16 \<Rightarrow> bytes list \<Rightarrow> nat \<Rightarrow> bytes \<Rightarrow> bool" where
  "carries_piece K n s q ps i d \<longleftrightarrow>
     opens_as d (seq_at 1 (n + Suc i)) (ks.word (n + i) K) None None (Some (message_place s q ps i))"

lemma frag_list_piece: "frag_list (Some (message_place s q ps i)) = [piece_fragment s q ps i]"
  using message_place_fragment [of s q ps i] by (simp add: frag_list_def split_beta)

lemma carries_piece_sealed:
  "carries_piece K n s q ps i d \<Longrightarrow> \<exists>packet. parse_packet d = Inr packet \<and> sealed_at 1 (n + Suc i) packet"
  using opens_as_sealed unfolding carries_piece_def by blast

lemma step_piece:
  assumes pr: "progress K n s q ps I c" and lim: "n + length ps < SESSION" "length ps \<le> 0x7FFF"
    and i: "i < length ps" and d: "carries_piece K n s q ps i d" and long: "4 \<le> length (concat ps)"
  shows "\<exists>c'. handle_datagram t d c =
      (if i \<notin> I \<and> insert i I = {..<length ps} then [\<lparr>im_queue = q, im_body = concat ps\<rparr>] else [], c') \<and>
    progress K n s q ps (insert i I) c'"
proof -
  obtain l where l: "inbound_session K 1 (tp_inbound (cn_transport c)) l" "lg_free l = {}" "n \<le> lg_newest l"
      "lg_newest l \<le> n + length ps" "\<forall>j < length ps. j \<in> I \<longleftrightarrow> n + Suc j \<le> lg_newest l \<and> n + Suc j \<notin> lg_missing l"
    using pr by (auto simp: progress_def)
  have live: "\<not> cn_closed c" and I: "I \<subseteq> {..<length ps}" and aok: "assembler_ok (tp_assembler (cn_transport c))"
    using pr by (simp_all add: progress_def)
  have p: "n + Suc i < SESSION" using lim(1) i by simp
  show ?thesis
  proof (cases "i \<in> I")
    case True
    then have "n + Suc i \<le> lg_newest l" "n + Suc i \<notin> lg_missing l" using l(5) i by auto
    moreover obtain packet where "parse_packet d = Inr packet" "sealed_at 1 (n + Suc i) packet"
      using carries_piece_sealed [OF d] by blast
    ultimately obtain st where "handle_datagram t d c = ([], drain_transport (c\<lparr>cn_transport := (cn_transport c)\<lparr>tp_stats := st\<rparr>\<rparr>))"
      using handle_unexpected [OF live l(1) p] by blast
    then show ?thesis using True pr by (simp add: progress_drain progress_stats insert_absorb)
  next
    case False
    have e: "expected 1 l (n + Suc i)"
      using expected_from_1 [OF session_aligned [OF l(1)] p] l(3,5) i lim(2) False by auto
    have "opens_as d (seq_at 1 (n + Suc i)) (owed_word K l (n + Suc i)) None None (Some (message_place s q ps i))"
      using d owed_word_full [OF l(2), of K "n + i"] by (simp add: carries_piece_def)
    from handle_own [OF live l(1) e this, of t]
    obtain c' where h: "handle_datagram t d c =
        (fst (ingest_fragments t [piece_fragment s q ps i] (tp_assembler (cn_transport c))), c')"
      "\<not> cn_closed c'" "inbound_session K 1 (tp_inbound (cn_transport c')) (after_arrival (n + Suc i) l)"
      "tp_assembler (cn_transport c') = snd (ingest_fragments t [piece_fragment s q ps i] (tp_assembler (cn_transport c)))"
      unfolding frag_list_piece by blast
    have held: "holds (tp_assembler (cn_transport c)) s q ps I" using pr i False by (auto simp: progress_def)
    note piece = ingest_new_piece [OF aok held I i False, of t]
    have len: "length ps \<le> 65535" using lim(2) by simp
    have a': "tp_assembler (cn_transport c') = snd (ingest t (piece_fragment s q ps i) (tp_assembler (cn_transport c)))"
      by (simp add: h(4) split_beta)
    have ms: "fst (ingest_fragments t [piece_fragment s q ps i] (tp_assembler (cn_transport c))) =
        (if insert i I = {..<length ps} then [\<lparr>im_queue = q, im_body = concat ps\<rparr>] else [])"
      using piece(1) [OF len] long by (simp add: split_beta)
    have "progress K n s q ps (insert i I) c'"
      unfolding progress_def
      using h(2) I i piece(2) [OF len] assembler_ok_ingest [OF aok, of t "piece_fragment s q ps i"] h(3)
        progress_arrived [OF pr lim(1) l i False]
      by (auto simp: a' simp del: after_arrival_simps)
    then show ?thesis using h(1) ms False by auto
  qed
qed

text \<open>Garbage, or a forgery for one of the message's positions.\<close>

definition harmless :: "isaac \<Rightarrow> nat \<Rightarrow> nat \<Rightarrow> bytes \<Rightarrow> bool" where
  "harmless K n k d \<longleftrightarrow>
     (case parse_packet d of
        Inl _ \<Rightarrow> True
      | Inr packet \<Rightarrow> (\<exists>i < k. sealed_at 1 (n + Suc i) packet \<and> \<not> pkt_verify packet (Some (ks.word (n + i) K))))"

lemma step_harmless:
  assumes pr: "progress K n s q ps I c" and lim: "n + length ps < SESSION" "length ps \<le> 0x7FFF"
    and d: "harmless K n (length ps) d"
  shows "\<exists>c'. handle_datagram t d c = ([], c') \<and> progress K n s q ps I c'"
proof (cases "parse_packet d")
  case (Inl e)
  then have "handle_datagram t d c = ([], drain_transport c)"
    using pr by (simp add: handle_datagram_def process_def progress_def)
  then show ?thesis using pr progress_drain by blast
next
  case (Inr packet)
  then obtain i where i: "i < length ps" "sealed_at 1 (n + Suc i) packet" "\<not> pkt_verify packet (Some (ks.word (n + i) K))"
    using d by (auto simp: harmless_def)
  obtain l where l: "inbound_session K 1 (tp_inbound (cn_transport c)) l" "lg_free l = {}" "n \<le> lg_newest l"
      "lg_newest l \<le> n + length ps" "\<forall>j < length ps. j \<in> I \<longleftrightarrow> n + Suc j \<le> lg_newest l \<and> n + Suc j \<notin> lg_missing l"
    using pr by (auto simp: progress_def)
  have live: "\<not> cn_closed c" using pr by (simp add: progress_def)
  have p: "n + Suc i < SESSION" using lim(1) i by simp
  have al: "aligned K 1 (tp_inbound (cn_transport c)) l" by (rule session_aligned [OF l(1)])
  show ?thesis
  proof (cases "expected 1 l (n + Suc i)")
    case False
    then have "n + Suc i \<le> lg_newest l" "n + Suc i \<notin> lg_missing l"
      using expected_from_1 [OF al p] l(3) i(1) lim(2) by auto
    from handle_unexpected [OF live l(1) p this Inr i(2), of t] show ?thesis
      using pr progress_drain progress_stats by metis
  next
    case True
    have "\<not> pkt_verify packet (Some (owed_word K l (n + Suc i)))" using i(3) owed_word_full [OF l(2)] by simp
    moreover have "1 \<le> n + Suc i" "n + Suc i \<notin> lg_free l" using l(2) by simp_all
    ultimately have "\<exists>ib st. gate packet (cn_transport c) = (False, (cn_transport c)\<lparr>tp_inbound := ib, tp_stats := st\<rparr>) \<and>
      inbound_session K 1 ib ((after_arrival (n + Suc i) l)\<lparr>lg_missing := insert (n + Suc i) (lg_missing (after_arrival (n + Suc i) l))\<rparr>)"
      using gate_forged [OF l(1) True i(2)] by blast
    then
    obtain ib st where g: "gate packet (cn_transport c) = (False, (cn_transport c)\<lparr>tp_inbound := ib, tp_stats := st\<rparr>)"
      "inbound_session K 1 ib ((after_arrival (n + Suc i) l)\<lparr>lg_missing := insert (n + Suc i) (lg_missing (after_arrival (n + Suc i) l))\<rparr>)"
      by blast
    let ?l = "(after_arrival (n + Suc i) l)\<lparr>lg_missing := insert (n + Suc i) (lg_missing (after_arrival (n + Suc i) l))\<rparr>"
    have owed: "lg_newest l < n + Suc i \<or> n + Suc i \<in> lg_missing l" using True by (simp add: expected_def)
    have missing: "\<forall>j < length ps. j \<in> I \<longleftrightarrow> n + Suc j \<le> lg_newest ?l \<and> n + Suc j \<notin> lg_missing ?l"
    proof (intro allI impI)
      fix j assume j: "j < length ps"
      have "i \<notin> I" using l(5) i(1) owed by auto
      then show "j \<in> I \<longleftrightarrow> n + Suc j \<le> lg_newest ?l \<and> n + Suc j \<notin> lg_missing ?l"
        using owed_after_arrival [OF al owed, of "n + Suc j"] l(5) j by (auto simp del: after_arrival_simps)
    qed
    have "progress K n s q ps I (c\<lparr>cn_transport := (cn_transport c)\<lparr>tp_inbound := ib, tp_stats := st\<rparr>\<rparr>)"
      using pr g(2) missing l(2,3,4) i(1) unfolding progress_def
      by (intro conjI exI [of _ ?l]) (simp_all del: after_arrival_simps(2), simp_all)
    moreover have "handle_datagram t d c = ([], drain_transport (c\<lparr>cn_transport := (cn_transport c)\<lparr>tp_inbound := ib, tp_stats := st\<rparr>\<rparr>))"
      using live Inr g(1) by (simp add: handle_datagram_def process_def)
    ultimately show ?thesis using progress_drain by blast
  qed
qed

section \<open>All arrivals\<close>

text \<open>Handing over datagrams one after the other, collecting what is delivered.\<close>

fun deliver :: "(net_time \<times> bytes) list \<Rightarrow> connection \<Rightarrow> inbound_message list \<times> connection" where
  "deliver [] c = ([], c)"
| "deliver ((t, d) # evs) c =
     (let (ms, c) = handle_datagram t d c; (ms', c) = deliver evs c in (ms @ ms', c))"

lemma carries_piece_inj:
  assumes "carries_piece K n s q ps i d" "carries_piece K n s q ps j d" "n + Suc i < SESSION" "n + Suc j < SESSION"
  shows "i = j"
proof -
  have "seq_at 1 (n + Suc i) = seq_at 1 (n + Suc j)"
    using carries_piece_sealed [OF assms(1)] carries_piece_sealed [OF assms(2)] by (auto simp: sealed_at_def)
  then show ?thesis using seq_session_inj [OF assms(3,4)] by simp
qed

lemma deliver_progress:
  assumes lim: "n + length ps < SESSION" "length ps \<le> 0x7FFF" and long: "4 \<le> length (concat ps)"
    and ds: "length ds = length ps" "\<And>i. i < length ps \<Longrightarrow> carries_piece K n s q ps i (ds ! i)"
    and evs: "list_all (\<lambda>(t, d). d \<in> set ds \<or> harmless K n (length ps) d) evs"
    and pr: "progress K n s q ps I c"
  shows "\<exists>c'. let I' = I \<union> {i. i < length ps \<and> ds ! i \<in> snd ` set evs} in
    deliver evs c =
      (if I \<noteq> {..<length ps} \<and> I' = {..<length ps} then [\<lparr>im_queue = q, im_body = concat ps\<rparr>] else [], c') \<and>
    progress K n s q ps I' c'"
  using evs pr
proof (induction evs arbitrary: I c)
  case Nil
  then show ?case by simp
next
  case (Cons e evs)
  obtain t d where e: "e = (t, d)" by (cases e)
  define J where "J = I \<union> {i. i < length ps \<and> ds ! i = d}"
  obtain c1 where step: "handle_datagram t d c =
        (if I \<noteq> {..<length ps} \<and> J = {..<length ps} then [\<lparr>im_queue = q, im_body = concat ps\<rparr>] else [], c1)"
      "progress K n s q ps J c1"
  proof (cases "d \<in> set ds")
    case True
    then obtain i where i: "i < length ps" "d = ds ! i" using ds(1) by (auto simp: in_set_conv_nth)
    have at: "carries_piece K n s q ps i d" using ds(2) [OF i(1)] i(2) by simp
    have "j = i" if "j < length ps" "ds ! j = d" for j
      using carries_piece_inj [OF _ at, of j] ds(2) [OF that(1)] that i(1) lim(1) by simp
    then have J: "J = insert i I" using i by (auto simp: J_def)
    have "i \<notin> I \<and> insert i I = {..<length ps} \<longleftrightarrow> I \<noteq> {..<length ps} \<and> insert i I = {..<length ps}"
      using i(1) insert_absorb [of i I] by (metis lessThan_iff)
    note only = this
    from step_piece [OF Cons.prems(2) lim i(1) at long, of t]
    obtain c1 where "handle_datagram t d c =
          (if i \<notin> I \<and> insert i I = {..<length ps} then [\<lparr>im_queue = q, im_body = concat ps\<rparr>] else [], c1)"
        "progress K n s q ps (insert i I) c1" by blast
    then show ?thesis unfolding only unfolding J [symmetric] by (rule that)
  next
    case False
    then have "J = I" using ds(1) by (auto simp: J_def in_set_conv_nth)
    moreover have "harmless K n (length ps) d" using False Cons.prems(1) e by simp
    ultimately show ?thesis using step_harmless [OF Cons.prems(2) lim, of d t] that by auto
  qed
  define I' where "I' = J \<union> {i. i < length ps \<and> ds ! i \<in> snd ` set evs}"
  from Cons.IH [OF _ step(2)] Cons.prems(1)
  obtain c' where rest: "deliver evs c1 =
        (if J \<noteq> {..<length ps} \<and> I' = {..<length ps} then [\<lparr>im_queue = q, im_body = concat ps\<rparr>] else [], c')"
      "progress K n s q ps I' c'" unfolding I'_def [symmetric] Let_def by auto
  have sub: "I \<subseteq> J" "J \<subseteq> I'" "J \<subseteq> {..<length ps}" "I' \<subseteq> {..<length ps}"
    using step(2) rest(2) by (simp_all add: progress_def I'_def J_def)
  have "deliver (e # evs) c =
      (if I \<noteq> {..<length ps} \<and> I' = {..<length ps} then [\<lparr>im_queue = q, im_body = concat ps\<rparr>] else [], c')"
    using step(1) rest(1) sub by (auto simp: e)
  moreover have "I \<union> {i. i < length ps \<and> ds ! i \<in> snd ` set (e # evs)} = I'"
    by (auto simp: I'_def J_def e)
  ultimately show ?case using rest(2) unfolding Let_def by (intro exI [of _ c']) simp
qed

lemma open_from_nth:
  "open_from K n ds cs \<Longrightarrow> i < length cs \<Longrightarrow>
    opens_as (ds ! i) (seq_at 1 (n + Suc i)) (ks.word (n + i) K) (fst (cs ! i)) (fst (snd (cs ! i))) (snd (snd (cs ! i)))"
proof (induction K n ds cs arbitrary: i rule: open_from.induct)
  case (2 K n d ds ack stamps fo cs)
  then show ?case by (cases i) auto
qed simp_all

lemma message_sent_pieces:
  assumes ok: "outbound_ok K n ob" and free: "\<not> ob_time_pair_held ob" and ps: "split_message body = Some ps"
    and lim: "n + length ps + 1 < SESSION"
    and run: "outbound_send_game_message body q iv stamps (ob, st, []) = (r, ob', st', ds)"
  shows "length ds = length ps" "i < length ps \<Longrightarrow> carries_piece K n (ob_fragment_sequence ob) q ps i (ds ! i)"
proof -
  let ?cs = "message_packets False stamps (ob_fragment_sequence ob) q ps"
  have cs: "?cs = map (\<lambda>i. (None, None, Some (message_place (ob_fragment_sequence ob) q ps i))) [0..<length ps]"
    by (simp add: message_packets_def plain_packets_def)
  from send_game_message_ok [OF ok ps lim, of q iv stamps st "[]"] run free
  have o: "open_from K n ds ?cs" by (auto simp: sends_def)
  show "length ds = length ps" using open_from_length [OF o] by (simp add: cs)
  show "carries_piece K n (ob_fragment_sequence ob) q ps i (ds ! i)" if "i < length ps"
    using open_from_nth [OF o, of i] that by (simp add: cs carries_piece_def)
qed

lemma progress_start:
  assumes "\<not> cn_closed c" "inbound_session K 1 (tp_inbound (cn_transport c)) l" "lg_free l = {}" "lg_newest l = n"
    and "assembler_ok (tp_assembler (cn_transport c))" "hm_get (as_in_flight (tp_assembler (cn_transport c))) s = None"
    and "\<not> was_recently_completed (tp_assembler (cn_transport c)) s"
  shows "progress K n s q ps {} c"
  using assms by (auto simp: progress_def holds_def)

lemma delivered_once:
  assumes "outbound_ok K n ob" "\<not> ob_time_pair_held ob" "split_message body = Some ps" "4 \<le> length body"
    and "length ps \<le> 0x7FFF" "n + length ps + 1 < SESSION"
    and "outbound_send_game_message body q iv stamps (ob, st, []) = (r, ob', st', ds)"
    and "\<not> cn_closed c" "inbound_session K 1 (tp_inbound (cn_transport c)) l" "lg_free l = {}" "lg_newest l = n"
    and "assembler_ok (tp_assembler (cn_transport c))"
    and "hm_get (as_in_flight (tp_assembler (cn_transport c))) (ob_fragment_sequence ob) = None"
    and "\<not> was_recently_completed (tp_assembler (cn_transport c)) (ob_fragment_sequence ob)"
    and "list_all (\<lambda>(t, d). d \<in> set ds \<or> harmless K n (length ps) d) evs"
  shows "fst (deliver evs c) = (if set ds \<subseteq> snd ` set evs then [\<lparr>im_queue = q, im_body = body\<rparr>] else [])"
proof -
  note sent = message_sent_pieces [OF assms(1-3,6,7)] and pieces = split_message_pieces [OF assms(3)]
  let ?I = "{i. i < length ps \<and> ds ! i \<in> snd ` set evs}"
  have "4 \<le> length (concat ps)" "n + length ps < SESSION" using assms(4,6) pieces(1) by simp_all
  from deliver_progress [OF this(2) assms(5) this(1) sent(1) sent(2) assms(15) progress_start [OF assms(8-14)]]
  obtain c' where "deliver evs c =
      (if {} \<noteq> {..<length ps} \<and> ?I = {..<length ps} then [\<lparr>im_queue = q, im_body = concat ps\<rparr>] else [], c')"
    unfolding Let_def Un_empty_left by blast
  then have d: "fst (deliver evs c) = (if {} \<noteq> {..<length ps} \<and> ?I = {..<length ps} then [\<lparr>im_queue = q, im_body = concat ps\<rparr>] else [])"
    by (simp only: fst_conv)
  have "?I = {..<length ps} \<longleftrightarrow> set ds \<subseteq> snd ` set evs"
  proof -
    have "set ds = (!) ds ` {..<length ps}" using sent(1) using nth_image [of "length ds" ds] by (simp add: atLeast0LessThan)
    then have "set ds \<subseteq> snd ` set evs \<longleftrightarrow> (\<forall>i \<in> {..<length ps}. ds ! i \<in> snd ` set evs)" by (simp only: image_subset_iff)
    then show ?thesis unfolding set_eq_iff by blast
  qed
  moreover have "{} \<noteq> {..<length ps}" using pieces(2) by auto
  ultimately show ?thesis using d pieces(1) by simp
qed

section \<open>Properties\<close>

text \<open>
  C1. Reliable delivery, exactly once. A sender whose flow queue has numbered \<open>n\<close> packets and
  holds no time pair sends a message of at most 32767 pieces; a receiver that has seen up to
  position \<open>n\<close> (with any gaps before) is handed datagrams in any order and at any times, each
  either one of the sender's, any number of times, or harmless: one that does not parse, or
  a forgery for one of the message's positions. The receiver delivers the message exactly once,
  whole and on its queue, if every datagram of the sender arrives, and nothing otherwise.
\<close>

theorem message_delivered_exactly_once:
  assumes "outbound_ok K n ob" "\<not> ob_time_pair_held ob" "split_message body = Some ps" "4 \<le> length body"
    and "length ps \<le> 0x7FFF" "n + length ps + 1 < SESSION"
    and "outbound_send_game_message body q iv stamps (ob, st, []) = (r, ob', st', ds)"
    and "\<not> cn_closed c" "inbound_session K 1 (tp_inbound (cn_transport c)) l" "lg_free l = {}" "lg_newest l = n"
    and "assembler_ok (tp_assembler (cn_transport c))"
    and "hm_get (as_in_flight (tp_assembler (cn_transport c))) (ob_fragment_sequence ob) = None"
    and "\<not> was_recently_completed (tp_assembler (cn_transport c)) (ob_fragment_sequence ob)"
    and "list_all (\<lambda>(t, d). d \<in> set ds \<or> harmless K n (length ps) d) evs"
  shows "fst (deliver evs c) = (if set ds \<subseteq> snd ` set evs then [\<lparr>im_queue = q, im_body = body\<rparr>] else [])"
  by (rule delivered_once [OF assms])

lemma message_delivered_exactly_once_witness:
  "\<exists>c d. fst (deliver [(3, [0, 1, 2]), (4, d), (5, d)] c) = [\<lparr>im_queue = 6, im_body = [1, 2, 3, 4]\<rparr>]"
proof -
  let ?l = "\<lparr>lg_free = {}, lg_newest = 0, lg_missing = {}\<rparr> :: ledger" and ?K = "isaac_new 4"
  let ?ob = "outbound_new ?K 5 6" and ?ts = "\<lparr>ts_server_time = 0, ts_local_time = 0\<rparr> :: time_stamps"
  obtain c :: connection where c: "connection_new 0 header_default \<lparr>cr_server_time = 0, cr_cookie = 77, cr_client_id = 1, cr_server_seed = 4, cr_client_seed = 5\<rparr> = Some c"
    "\<not> cn_closed c" "inbound_session ?K 1 (tp_inbound (cn_transport c)) ?l"
    using fresh_connection by blast
  have a: "tp_assembler (cn_transport c) = assembler_new"
    using c(1) by (auto simp: connection_new_def encode_response transport_new_def Let_def)
  have fresh: "assembler_ok (tp_assembler (cn_transport c))"
    "hm_get (as_in_flight (tp_assembler (cn_transport c))) (ob_fragment_sequence ?ob) = None"
    "\<not> was_recently_completed (tp_assembler (cn_transport c)) (ob_fragment_sequence ?ob)"
    by (simp_all add: a assembler_ok_new) (simp_all add: assembler_new_def was_recently_completed_def)
  have ob: "outbound_ok ?K 0 ?ob" "\<not> ob_time_pair_held ?ob"
    using session_sound [OF outbound_session.start [of ?K 5 6]] by (simp_all add: outbound_new_def)
  have ps: "split_message [1, 2, 3, 4] = Some [[1, 2, 3, 4]]"
    by (simp add: split_message_def frag_consts chunks_step Let_def)
  have lim: "0 + length [[1, 2, 3, 4 :: u8]] + 1 < SESSION" by (simp add: SESSION_def)
  obtain r ob' st' ds where run: "outbound_send_game_message [1, 2, 3, 4] 6 1 ?ts (?ob, stats_default, []) = (r, ob', st', ds)"
    using prod_cases4 by blast
  obtain d where d: "ds = [d]"
    using message_sent_pieces(1) [OF ob ps lim run] by (auto simp: length_Suc_conv)
  have junk: "parse_packet [0, 1, 2] = Inl TooShort" by (simp add: parse_packet_def header_from_bytes_def HEADER_SIZE_def)
  have "list_all (\<lambda>(t, d). d \<in> set ds \<or> harmless ?K 0 (length [[1, 2, 3, 4 :: u8]]) d) [(3 :: nat, [0, 1, 2]), (4, d), (5, d)]"
    by (simp add: d harmless_def junk)
  from message_delivered_exactly_once [OF ob ps _ _ lim run c(2,3) _ _ fresh this] d
  show ?thesis by auto
qed

end
