(* ===== verification/Login_Request.thy ===== *)
theory Login_Request
  imports Bits_Writer
begin

text \<open>
  \<open>crates/ac-net/src/packet/login.rs\<close>: the body of the first packet a client sends, built
  from the account and password and read back. A Rust string is the list of its code points.
\<close>

section \<open>Types\<close>

datatype net_auth_type = Undefined | Account | AccountPassword | GlsTicket | Other u32

definition auth_to_u32 :: "net_auth_type \<Rightarrow> u32" where
  "auth_to_u32 a =
     (case a of Undefined \<Rightarrow> 0 | Account \<Rightarrow> 1 | AccountPassword \<Rightarrow> 2 | GlsTicket \<Rightarrow> 0x40000002 | Other v \<Rightarrow> v)"

definition auth_from_u32 :: "u32 \<Rightarrow> net_auth_type" where
  "auth_from_u32 v =
     (if v = 0 then Undefined else if v = 1 then Account else if v = 2 then AccountPassword
      else if v = 0x40000002 then GlsTicket else Other v)"

definition RETAIL_CLIENT_VERSION :: bytes where
  "RETAIL_CLIENT_VERSION = [0x31, 0x38, 0x30, 0x32]"

datatype login_build_error = AccountTooLong nat | PasswordTooLong nat

datatype login_parse_error = Truncated string

record login_request_fields =
  lr_client_version :: rstring
  lr_body_length :: u32
  lr_auth_type :: net_auth_type
  lr_auth_flags :: u32
  lr_timestamp :: u32
  lr_account :: rstring
  lr_login_as :: rstring
  lr_password :: "rstring option"
  lr_gls_ticket :: "rstring option"

section \<open>Building\<close>

definition ascii :: "rstring \<Rightarrow> bytes" where
  "ascii cs = map (\<lambda>c. if c \<le> 0x7F then ucast c else 0x3F) cs"

definition write_string32l :: "bytes \<Rightarrow> wbuf \<Rightarrow> wbuf" where
  "write_string32l txt w =
     (if txt = [] then wr_u32 0 w
      else let w = wr_u32 (word_of_nat (length txt) + 1) w;
               w = wr_u8 0 w;
               w = wr_bytes txt w
           in wr_pad (pad4 (4 + 1 + length txt)) w)"

definition build_login_request :: "rstring \<Rightarrow> rstring \<Rightarrow> u32 \<Rightarrow> login_build_error + bytes" where
  "build_login_request account_text password_text timestamp =
     (let account = ascii account_text; password = ascii password_text
      in if length account > 0xFFFF then Inl (AccountTooLong (length account))
         else if length password > 255 then Inl (PasswordTooLong (length password))
         else
           let w = snd (wr_string16l_bytes RETAIL_CLIENT_VERSION wr_new);
               length_at = wr_len w;
               w = wr_u32 0 w;
               body_start = wr_len w;
               w = wr_u32 (auth_to_u32 AccountPassword) w;
               w = wr_u32 0 w;
               w = wr_u32 timestamp w;
               w = snd (wr_string16l_bytes account w);
               w = snd (wr_string16l_bytes [] w);
               w = write_string32l password w;
               body_length = (word_of_nat (wr_len w - body_start) :: u32)
           in Inr (overwrite (wr_buf w) length_at (le_bytes 4 body_length)))"

section \<open>Reading\<close>

text \<open>\<open>let _ = r.skip(pad.min(r.remaining()))\<close>: padding may be cut off at the end.\<close>

definition skip_padding :: "nat \<Rightarrow> ('e, unit) reading" where
  "skip_padding pad r = (Inr (), snd (rd_skip (min pad (rd_remaining r)) r))"

definition latin :: "bytes \<Rightarrow> rstring" where
  "latin txt = map ucast txt"

definition read_string32l :: "(login_parse_error, rstring) reading" where
  "read_string32l =
     rd_bind (rd_map_err (Truncated ''string32 length'') rd_u32) (\<lambda>outer.
       if outer = 0 then rd_ret []
       else rd_bind (rd_map_err (Truncated ''string32 marker'') (rd_skip 1)) (\<lambda>_.
         let len = outer - 1
         in rd_bind (if len > 255
                     then rd_bind (rd_map_err (Truncated ''string32 marker'') (rd_skip 1)) (\<lambda>_. rd_ret (len - 1))
                     else rd_ret len) (\<lambda>len.
           rd_bind (rd_map_err (Truncated ''string32 text'') (rd_bytes (unat len))) (\<lambda>txt.
             rd_bind (skip_padding (pad4 (4 + unat outer))) (\<lambda>_. rd_ret (latin txt))))))"

definition read_string16l :: "string \<Rightarrow> (login_parse_error, rstring) reading" where
  "read_string16l field =
     rd_bind (rd_map_err (Truncated field) rd_u16) (\<lambda>len.
       rd_bind (rd_map_err (Truncated field) (rd_bytes (unat len))) (\<lambda>txt.
         rd_bind (skip_padding (pad4 (2 + unat len))) (\<lambda>_. rd_ret (latin txt))))"

definition read_secrets ::
  "net_auth_type \<Rightarrow> (login_parse_error, rstring option \<times> rstring option) reading" where
  "read_secrets auth_type =
     (case auth_type of
        AccountPassword \<Rightarrow> rd_bind read_string32l (\<lambda>s. rd_ret (Some s, None))
      | GlsTicket \<Rightarrow> rd_bind read_string32l (\<lambda>s. rd_ret (None, Some s))
      | _ \<Rightarrow> rd_ret (None, None))"

definition login_fields :: "(login_parse_error, login_request_fields) reading" where
  "login_fields =
     rd_bind (read_string16l ''client version'') (\<lambda>client_version.
     rd_bind (rd_map_err (Truncated ''body length'') rd_u32) (\<lambda>body_length.
     rd_bind (rd_map_err (Truncated ''auth type'') rd_u32) (\<lambda>auth_type.
     rd_bind (rd_map_err (Truncated ''auth flags'') rd_u32) (\<lambda>auth_flags.
     rd_bind (rd_map_err (Truncated ''timestamp'') rd_u32) (\<lambda>timestamp.
     rd_bind (read_string16l ''account'') (\<lambda>account.
     rd_bind (read_string16l ''login as'') (\<lambda>login_as.
     rd_bind (read_secrets (auth_from_u32 auth_type)) (\<lambda>(password, gls_ticket).
     rd_ret \<lparr>lr_client_version = client_version, lr_body_length = body_length,
       lr_auth_type = auth_from_u32 auth_type, lr_auth_flags = auth_flags, lr_timestamp = timestamp,
       lr_account = account, lr_login_as = login_as, lr_password = password, lr_gls_ticket = gls_ticket\<rparr>))))))))"

definition parse_login_request :: "bytes \<Rightarrow> login_parse_error + login_request_fields" where
  "parse_login_request bs = fst (login_fields (rd_new bs))"

section \<open>What is written\<close>

definition string32l_enc :: "bytes \<Rightarrow> bytes" where
  "string32l_enc txt =
     (if txt = [] then le_bytes 4 (0 :: u32)
      else le_bytes 4 (word_of_nat (length txt) + 1 :: u32) @ [0] @ txt @ replicate (pad4 (4 + 1 + length txt)) 0)"

definition login_tail :: "bytes \<Rightarrow> bytes \<Rightarrow> u32 \<Rightarrow> bytes" where
  "login_tail account password timestamp =
     le_bytes 4 (2 :: u32) @ le_bytes 4 (0 :: u32) @ le_bytes 4 timestamp @
     string16l_enc account @ string16l_enc [] @ string32l_enc password"

definition login_body :: "bytes \<Rightarrow> bytes \<Rightarrow> u32 \<Rightarrow> bytes" where
  "login_body account password timestamp =
     string16l_enc RETAIL_CLIENT_VERSION @
     le_bytes 4 (word_of_nat (length (login_tail account password timestamp)) :: u32) @
     login_tail account password timestamp"

lemma write_string32l_eq: "write_string32l txt w = w\<lparr>wr_buf := wr_buf w @ string32l_enc txt\<rparr>"
  by (simp add: write_string32l_def string32l_enc_def wr_defs le_bytes_def Let_def)

lemma length_ascii [simp]: "length (ascii cs) = length cs"
  by (simp add: ascii_def)

lemma build_login_request_eq:
  "build_login_request account password timestamp =
     (if length account > 0xFFFF then Inl (AccountTooLong (length account))
      else if length password > 255 then Inl (PasswordTooLong (length password))
      else Inr (login_body (ascii account) (ascii password) timestamp))"
proof -
  let ?v = "string16l_enc RETAIL_CLIENT_VERSION"
  have "overwrite (?v @ le_bytes 4 (0 :: u32) @ t) (length ?v) (le_bytes 4 n) = ?v @ le_bytes 4 n @ t" for t and n :: u32
    by (rule overwrite_append) simp
  then show ?thesis
    by (simp add: build_login_request_def wr_string16l_bytes_eq write_string32l_eq wr_defs wr_len_def wr_new_def
        auth_to_u32_def login_body_def login_tail_def RETAIL_CLIENT_VERSION_def Let_def)
qed

lemma pad4_le: "pad4 n \<le> 3"
  using pad4_lt [of n] by simp

lemma length_string32l_enc:
  "length (string32l_enc txt) = (if txt = [] then 4 else 5 + length txt + pad4 (5 + length txt))"
  by (simp add: string32l_enc_def)

lemma length_login_tail_le:
  "length (login_tail account password timestamp) \<le> length account + length password + 29"
  using pad4_le [of "2 + length account"] pad4_le [of "5 + length password"]
  by (simp add: login_tail_def length_string16l_enc length_string32l_enc pad4_def)

lemma length_string16l_mod4: "length (string16l_enc s) mod 4 = 0"
  using pad4_mod [of "2 + length s"] by (simp add: length_string16l_enc add.assoc)

lemma length_string32l_mod4: "length (string32l_enc s) mod 4 = 0"
  using pad4_mod [of "5 + length s"] by (simp add: length_string32l_enc)

lemma length_version: "length (string16l_enc RETAIL_CLIENT_VERSION) = 8"
  by (simp add: length_string16l_enc RETAIL_CLIENT_VERSION_def pad4_def)

lemma length_login_body: "length (login_body account password timestamp) = 12 + length (login_tail account password timestamp)"
  by (simp add: login_body_def length_version)

lemma length_login_body_mod4: "length (login_body account password timestamp) mod 4 = 0"
  using length_string16l_mod4 [of account] length_string16l_mod4 [of "[]"] length_string32l_mod4 [of password]
  by (simp add: length_login_body login_tail_def) presburger

section \<open>What is read back\<close>

lemma parses_bind_ret: "parses (f v) enc x \<Longrightarrow> parses (rd_bind (rd_ret v) f) enc x"
  by (simp add: parses_def rd_bind_def rd_ret_def)

lemma parses_skip_padding:
  assumes "length bs = n"
  shows "parses (skip_padding n) bs ()"
proof -
  have "parses (rd_skip n) bs ()" using assms by (rule parses_skip)
  then show ?thesis using assms by (simp add: parses_def skip_padding_def rd_remaining_def)
qed

lemma parses_read_string16l:
  assumes "length s \<le> 0xFFFF"
  shows "parses (read_string16l field) (string16l_enc s) (latin s)"
proof -
  have n: "unat (word_of_nat (length s) :: u16) = length s"
    using assms by (intro unat_of_nat_small) simp
  show ?thesis
    unfolding read_string16l_def string16l_enc_def
    by (intro parses_bind [OF parses_map_err [OF parses_ints(2)]] parses_bind [OF parses_map_err [OF parses_bytes]]
        parses_bind_nil [OF parses_skip_padding] parses_ret) (simp_all add: n)
qed

lemma parses_read_string32l:
  assumes "length s \<le> 255"
  shows "parses read_string32l (string32l_enc s) (latin s)"
proof (cases "s = []")
  case True
  have "parses (rd_map_err (Truncated ''string32 length'') rd_u32) (le_bytes 4 (0 :: u32)) 0"
    by (rule parses_map_err [OF parses_ints(3)])
  then show ?thesis
    unfolding read_string32l_def string32l_enc_def True if_P [OF refl]
    by (rule parses_bind_nil) (simp add: parses_ret latin_def)
next
  case False
  let ?n = "word_of_nat (length s) + 1 :: u32"
  have l: "unat (word_of_nat (length s) :: u32) = length s"
    using assms by (intro unat_of_nat_small) simp
  then have n: "unat ?n = length s + 1" using assms by (simp add: unat_word_ariths(1))
  have nz: "?n \<noteq> 0" using n by (auto simp: unat_eq_0 [symmetric])
  have len: "?n - 1 = word_of_nat (length s)" by simp
  have small: "\<not> 255 < (word_of_nat (length s) :: u32)" using l assms by (simp add: word_less_nat_alt)
  have body: "parses (rd_bind (rd_map_err (Truncated ''string32 text'') (rd_bytes (unat (word_of_nat (length s) :: u32)))) (\<lambda>txt.
             rd_bind (skip_padding (pad4 (4 + unat ?n))) (\<lambda>_. rd_ret (latin txt))))
      (s @ replicate (pad4 (4 + 1 + length s)) 0) (latin s)"
    unfolding l n
    by (intro parses_bind [OF parses_map_err [OF parses_bytes]] parses_bind_nil [OF parses_skip_padding] parses_ret) simp_all
  show ?thesis
    unfolding read_string32l_def string32l_enc_def if_not_P [OF False]
    apply (rule parses_bind [OF parses_map_err [OF parses_ints(3)]])
    apply (subst if_not_P [OF nz])
    apply (rule parses_bind [OF parses_map_err [OF parses_skip]], simp)
    unfolding Let_def len if_not_P [OF small]
    by (rule parses_bind_ret) (rule body)
qed

lemma auth_from_to: "auth_from_u32 (auth_to_u32 AccountPassword) = AccountPassword"
  by (simp add: auth_from_u32_def auth_to_u32_def)

definition fields_of :: "bytes \<Rightarrow> bytes \<Rightarrow> u32 \<Rightarrow> login_request_fields" where
  "fields_of account password timestamp =
     \<lparr>lr_client_version = [0x31, 0x38, 0x30, 0x32],
      lr_body_length = word_of_nat (length (login_tail account password timestamp)),
      lr_auth_type = AccountPassword, lr_auth_flags = 0, lr_timestamp = timestamp,
      lr_account = latin account, lr_login_as = [], lr_password = Some (latin password), lr_gls_ticket = None\<rparr>"

lemma parses_login_body:
  assumes "length account \<le> 0xFFFF" "length password \<le> 255"
  shows "parses login_fields (login_body account password timestamp) (fields_of account password timestamp)"
proof -
  have v: "parses (read_string16l ''client version'') (string16l_enc RETAIL_CLIENT_VERSION) (latin RETAIL_CLIENT_VERSION)"
    and e: "parses (read_string16l ''login as'') (string16l_enc []) (latin [])"
    by (rule parses_read_string16l, simp add: RETAIL_CLIENT_VERSION_def)+
  have two: "auth_from_u32 2 = AccountPassword" by (simp add: auth_from_u32_def)
  have pw: "parses (read_secrets (auth_from_u32 2)) (string32l_enc password) (Some (latin password), None)"
    unfolding two read_secrets_def net_auth_type.case
    by (rule parses_bind_nil [OF parses_read_string32l [OF assms(2)] parses_ret])
  show ?thesis
    unfolding login_fields_def login_body_def login_tail_def [of account password timestamp]
    apply (rule parses_bind [OF v])
    apply (rule parses_bind [OF parses_map_err [OF parses_ints(3)]])+
    apply (rule parses_bind [OF parses_read_string16l [OF assms(1)]])
    apply (rule parses_bind [OF e])
    apply (rule parses_bind_nil [OF pw])
    unfolding prod.case
    by (rule parses_eq [OF parses_ret])
      (simp add: fields_of_def two latin_def RETAIL_CLIENT_VERSION_def login_tail_def)
qed

lemma parse_login_body:
  assumes "length account \<le> 0xFFFF" "length password \<le> 255"
  shows "parse_login_request (login_body account password timestamp @ rest) = Inr (fields_of account password timestamp)"
  using parses_new [OF parses_login_body [OF assms], where post = rest] by (simp add: parse_login_request_def)

section \<open>Properties\<close>

text \<open>
  C26. Building a login request either refuses an over-long account or password, naming its
  length, or gives a body of whole 32-bit words that reads back, whatever follows it, to the
  fields it was built from: the version 1802, the count of bytes after the length field, an
  account and password login with the timestamp, each character that is not ASCII replaced by
  a question mark, no "log in as" name and no ticket.
\<close>

theorem login_request_round_trip:
  "case build_login_request account password timestamp of
     Inl (AccountTooLong n) \<Rightarrow> n = length account \<and> 0xFFFF < n
   | Inl (PasswordTooLong n) \<Rightarrow> n = length password \<and> 255 < n \<and> length account \<le> 0xFFFF
   | Inr body \<Rightarrow>
       length account \<le> 0xFFFF \<and> length password \<le> 255 \<and> length body mod 4 = 0 \<and>
       parse_login_request (body @ rest) =
         Inr \<lparr>lr_client_version = [0x31, 0x38, 0x30, 0x32], lr_body_length = word_of_nat (length body - 12),
              lr_auth_type = AccountPassword, lr_auth_flags = 0, lr_timestamp = timestamp,
              lr_account = map (\<lambda>c. if c \<le> 0x7F then c else 0x3F) account, lr_login_as = [],
              lr_password = Some (map (\<lambda>c. if c \<le> 0x7F then c else 0x3F) password), lr_gls_ticket = None\<rparr>"
proof -
  have latin: "latin (ascii cs) = map (\<lambda>c. if c \<le> 0x7F then c else 0x3F) cs" for cs
  proof -
    have "ucast (ucast c :: u8) = c" if "c \<le> 0x7F" for c :: u32
      using that by (rule compressed_one(2))
    then show ?thesis by (simp add: latin_def ascii_def)
  qed
  show ?thesis
    using length_login_body_mod4 [of "ascii account" "ascii password" timestamp]
    by (auto simp: build_login_request_eq parse_login_body fields_of_def latin length_login_body)
qed

end
