(* ===== verification/Handshake.thy ===== *)
theory Handshake
  imports Login_Request Connection_Session
begin

text \<open>
  \<open>crates/ac-net/src/handshake.rs\<close>: the login request out, the server's connect request back.
  \<open>None\<close> as a result is a panic of \<open>expect\<close>.
\<close>

section \<open>State and operations\<close>

record handshake =
  hs_outbox :: "transmission list"
  hs_started_at :: net_time
  hs_established :: bool

definition login_header :: packet_header where
  "login_header = header_default\<lparr>hdr_flags := LOGIN_REQUEST\<rparr>"

definition handshake_start ::
  "net_time \<Rightarrow> rstring \<Rightarrow> rstring \<Rightarrow> u32 \<Rightarrow> (login_build_error + handshake) option" where
  "handshake_start t account password unix_time =
     (case build_login_request account password unix_time of
        Inl e \<Rightarrow> Some (Inl e)
      | Inr body \<Rightarrow>
          (case encode login_header body None of
             (Inl _, _) \<Rightarrow> None
           | (Inr datagram, _) \<Rightarrow>
               Some (Inr \<lparr>hs_outbox = [\<lparr>tm_destination = Login, tm_datagram = datagram\<rparr>],
                          hs_started_at = t, hs_established = False\<rparr>)))"

definition handshake_started_at :: "handshake \<Rightarrow> net_time" where
  "handshake_started_at h = hs_started_at h"

definition handshake_poll_transmit :: "handshake \<Rightarrow> transmission option \<times> handshake" where
  "handshake_poll_transmit h =
     (case hs_outbox h of [] \<Rightarrow> (None, h) | x # xs \<Rightarrow> (Some x, h\<lparr>hs_outbox := xs\<rparr>))"

definition handshake_datagram ::
  "net_time \<Rightarrow> bytes \<Rightarrow> handshake \<Rightarrow> (connection option \<times> handshake) option" where
  "handshake_datagram t datagram h =
     (if hs_established h then Some (None, h)
      else case parse_packet datagram of
             Inl _ \<Rightarrow> Some (None, h)
           | Inr packet \<Rightarrow>
               let header = pkt_header packet
               in if has (hdr_flags header) ENCRYPTED_CHECKSUM \<or> \<not> pkt_verify packet None \<or>
                     \<not> has (hdr_flags header) CONNECT_REQUEST
                  then Some (None, h)
                  else case opt_connect_request (pkt_optional packet) of
                         None \<Rightarrow> Some (None, h)
                       | Some request \<Rightarrow>
                           map_option (\<lambda>c. (Some c, h\<lparr>hs_established := True\<rparr>)) (connection_new t header request))"

section \<open>The request fits a datagram unless the account is too long\<close>

lemma login_flags:
  "\<not> has LOGIN_REQUEST SERVER_SWITCH" "\<not> has LOGIN_REQUEST REQUEST_RETRANSMIT" "\<not> has LOGIN_REQUEST REJECT_RETRANSMIT"
  "\<not> has LOGIN_REQUEST ACK_SEQUENCE" "has LOGIN_REQUEST LOGIN_REQUEST" "\<not> has LOGIN_REQUEST ENCRYPTED_CHECKSUM"
  "\<not> has LOGIN_REQUEST BLOB_FRAGMENTS"
  by (simp_all add: has_def flag_defs)

lemma login_flags_header [simp]: "hdr_flags login_header = LOGIN_REQUEST"
  by (simp add: login_header_def)

lemma login_clear: "clear_header login_header"
  by (simp add: clear_header_def login_flags)

lemma parse_login_section: "parse_optional body LOGIN_REQUEST = Some (optional_default\<lparr>opt_raw := body\<rparr>, length body)"
  by (simp add: parse_optional_def parse_optional_inner_def login_flags opt_when_def opt_list_def rd_bind_def rd_ret_def)

lemma encode_login:
  "length body \<le> 65535 \<Longrightarrow> encode login_header body None = (Inr (clear_datagram login_header body), None)"
  using clear_encodes [OF login_clear, of body] by (simp add: parse_login_section)

lemma encode_login_long: "65535 < length body \<Longrightarrow> \<exists>e ks. encode login_header body None = (Inl e, ks)"
  using encode_Inr [of login_header body None] by (cases "encode login_header body None") (auto split: sum.splits, metis not_less sum.exhaust)

lemma login_opens:
  "length body \<le> 65535 \<Longrightarrow>
     opens_clear (clear_datagram login_header body) login_header (optional_default\<lparr>opt_raw := body\<rparr>) body"
  by (rule clear_opens [OF login_clear]) (simp_all add: parse_login_section)

section \<open>Accepting the connect request\<close>

text \<open>The server's clear connect request, as its reader sees it.\<close>

definition connect_request_in :: "bytes \<Rightarrow> (packet_header \<times> connect_request) option" where
  "connect_request_in d =
     (case parse_packet d of
        Inl _ \<Rightarrow> None
      | Inr p \<Rightarrow>
          if has (hdr_flags (pkt_header p)) CONNECT_REQUEST \<and> \<not> has (hdr_flags (pkt_header p)) ENCRYPTED_CHECKSUM \<and>
             pkt_verify p None
          then map_option (Pair (pkt_header p)) (opt_connect_request (pkt_optional p)) else None)"

lemma connection_new_total: "\<exists>c. connection_new t header request = Some c"
  by (simp add: connection_new_def encode_response Let_def)

lemma handshake_datagram_eq:
  "handshake_datagram t d h =
     (case connect_request_in d of
        Some (header, request) \<Rightarrow>
          if hs_established h then Some (None, h)
          else Some (connection_new t header request, h\<lparr>hs_established := True\<rparr>)
      | None \<Rightarrow> Some (None, h))"
  using connection_new_total
  by (auto simp: handshake_datagram_def connect_request_in_def Let_def split: sum.splits option.splits)
    metis

text \<open>Offering datagrams one after the other.\<close>

fun handshake_offers ::
  "(net_time \<times> bytes) list \<Rightarrow> handshake \<Rightarrow> (connection option list \<times> handshake) option" where
  "handshake_offers [] h = Some ([], h)"
| "handshake_offers ((t, d) # evs) h =
     Option.bind (handshake_datagram t d h) (\<lambda>(c, h).
       map_option (\<lambda>(cs, h). (c # cs, h)) (handshake_offers evs h))"

lemma offers_established:
  "hs_established h \<Longrightarrow> handshake_offers evs h = Some (replicate (length evs) None, h)"
  by (induction evs) (auto simp: handshake_datagram_def)

text \<open>What a fresh handshake returns: a connection for the first connect request, nothing else.\<close>

fun first_connection :: "(net_time \<times> bytes) list \<Rightarrow> connection option list" where
  "first_connection [] = []"
| "first_connection ((t, d) # evs) =
     (case connect_request_in d of
        None \<Rightarrow> None # first_connection evs
      | Some (header, request) \<Rightarrow> connection_new t header request # replicate (length evs) None)"

lemma offers_fresh:
  "\<not> hs_established h \<Longrightarrow> \<exists>h'. handshake_offers evs h = Some (first_connection evs, h')"
proof (induction evs arbitrary: h)
  case (Cons e evs)
  obtain t d where e: "e = (t, d)" by (cases e)
  show ?case
  proof (cases "connect_request_in d")
    case None
    then show ?thesis using Cons by (auto simp: e handshake_datagram_eq)
  next
    case (Some hr)
    then show ?thesis using Cons.prems offers_established [of "h\<lparr>hs_established := True\<rparr>" evs]
      by (auto simp: e handshake_datagram_eq split: prod.splits)
  qed
qed simp

section \<open>Properties\<close>

text \<open>
  C28. Starting a handshake: an account or password the builder refuses is reported; a request
  of at most 65535 bytes becomes exactly one datagram for the login port, readable without a
  key and carrying the request as its whole body; a longer request panics.
\<close>

theorem handshake_start_cases:
  "case build_login_request account password unix_time of
     Inl e \<Rightarrow> handshake_start t account password unix_time = Some (Inl e)
   | Inr body \<Rightarrow>
       if length body \<le> 65535
       then \<exists>d. handshake_start t account password unix_time =
             Some (Inr \<lparr>hs_outbox = [\<lparr>tm_destination = Login, tm_datagram = d\<rparr>], hs_started_at = t, hs_established = False\<rparr>) \<and>
           opens_clear d login_header (optional_default\<lparr>opt_raw := body\<rparr>) body
       else handshake_start t account password unix_time = None"
proof (cases "build_login_request account password unix_time")
  case (Inl e)
  then show ?thesis by (simp add: handshake_start_def)
next
  case (Inr body)
  show ?thesis
  proof (cases "length body \<le> 65535")
    case True
    then show ?thesis using Inr encode_login [OF True] login_opens [OF True] by (simp add: handshake_start_def)
  next
    case False
    then obtain e ks where "encode login_header body None = (Inl e, ks)" using encode_login_long by force
    then show ?thesis using False Inr by (simp add: handshake_start_def)
  qed
qed

text \<open>
  An account name the builder accepts can make the start of the handshake panic: the
  16-bit length allows 65535 characters, the datagram does not.
\<close>

theorem handshake_start_panics:
  "\<exists>body. build_login_request (replicate 65535 0x61) [] 0 = Inr body \<and>
     handshake_start t (replicate 65535 0x61) [] 0 = None"
proof -
  let ?account = "replicate 65535 (0x61 :: u32)"
  let ?body = "login_body (ascii ?account) (ascii []) 0"
  have b: "build_login_request ?account [] 0 = Inr ?body" by (simp add: build_login_request_eq)
  have "length ?body = 65572"
    by (simp add: length_login_body login_tail_def length_string16l_enc length_string32l_enc pad4_def ascii_def)
  then obtain e ks where "encode login_header ?body None = (Inl e, ks)" using encode_login_long [of ?body] by auto
  then show ?thesis using b by (simp add: handshake_start_def)
qed

text \<open>
  C27. The handshake connects once. Whatever datagrams a fresh handshake is offered, the first
  one that parses, verifies in the clear and carries a connect request gives the connection
  built from its header and request; every other datagram, before or after, gives nothing, and
  no step panics.
\<close>

theorem handshake_connects_once:
  "case handshake_offers evs (h\<lparr>hs_established := False\<rparr>) of
     None \<Rightarrow> False
   | Some (cs, h') \<Rightarrow>
       let k = length (takeWhile (\<lambda>(t, d). connect_request_in d = None) evs)
       in if k = length evs then cs = replicate k None
          else (case connect_request_in (snd (evs ! k)) of
                  None \<Rightarrow> False
                | Some (header, request) \<Rightarrow>
                    \<exists>c. connection_new (fst (evs ! k)) header request = Some c \<and>
                      cs = replicate k None @ Some c # replicate (length evs - k - 1) None)"
proof -
  have first: "let k = length (takeWhile (\<lambda>(t, d). connect_request_in d = None) evs)
       in if k = length evs then first_connection evs = replicate k None
          else (case connect_request_in (snd (evs ! k)) of
                  None \<Rightarrow> False
                | Some (header, request) \<Rightarrow>
                    \<exists>c. connection_new (fst (evs ! k)) header request = Some c \<and>
                      first_connection evs = replicate k None @ Some c # replicate (length evs - k - 1) None)"
  proof (induction evs)
    case (Cons e evs)
    obtain t d where e: "e = (t, d)" by (cases e)
    show ?case
    proof (cases "connect_request_in d")
      case None
      then show ?thesis using Cons by (auto simp: e Let_def split: option.splits if_splits)
    next
      case (Some hr)
      then show ?thesis using connection_new_total [of t "fst hr" "snd hr"] by (auto simp: e Let_def split: prod.splits)
    qed
  qed simp
  obtain h' where "handshake_offers evs (h\<lparr>hs_established := False\<rparr>) = Some (first_connection evs, h')"
    using offers_fresh [of "h\<lparr>hs_established := False\<rparr>" evs] by auto
  then show ?thesis using first by simp
qed

end
