(* ===== verification/Lossy.thy ===== *)
theory Lossy
  imports Packet
begin

text \<open>
  \<open>crates/ac-net/src/lossy.rs\<close>: the seeded packet-loss filter and its SplitMix64 generator.
  The counters are natural numbers.
\<close>

section \<open>Options\<close>

datatype loss_direction = LossOut | LossIn | LossBoth

record loss_options =
  lo_drop_percent :: u8
  lo_seed :: u64
  lo_direction :: loss_direction

definition loss_options_default :: loss_options where
  "loss_options_default = \<lparr>lo_drop_percent = 0, lo_seed = 1, lo_direction = LossBoth\<rparr>"

datatype invalid_drop_percent = InvalidDropPercent u8

record loss_counters =
  outbound_dropped :: nat
  inbound_dropped :: nat
  outbound_forwarded :: nat
  inbound_forwarded :: nat

section \<open>The generator\<close>

type_synonym split_mix = u64

definition split_mix_next :: "split_mix \<Rightarrow> u64 \<times> split_mix" where
  "split_mix_next s =
     (let s = s + 0x9E3779B97F4A7C15;
          z = s;
          z = (z XOR drop_bit 30 z) * 0xBF58476D1CE4E5B9;
          z = (z XOR drop_bit 27 z) * 0x94D049BB133111EB
      in (z XOR drop_bit 31 z, s))"

definition split_mix_below :: "u64 \<Rightarrow> split_mix \<Rightarrow> u64 \<times> split_mix" where
  "split_mix_below bound s =
     (let (x, s) = split_mix_next s
      in (ucast (drop_bit 64 ((ucast x :: 128 word) * ucast bound)), s))"

section \<open>The filter\<close>

record lossy_filter =
  lf_drop_percent :: u64
  lf_drop_outbound :: bool
  lf_drop_inbound :: bool
  lf_outbound_rng :: split_mix
  lf_inbound_rng :: split_mix
  lf_armed :: bool
  lf_counters :: loss_counters

definition lossy_new :: "loss_options \<Rightarrow> invalid_drop_percent + lossy_filter option" where
  "lossy_new options =
     (if lo_drop_percent options > 100 then Inl (InvalidDropPercent (lo_drop_percent options))
      else if lo_drop_percent options = 0 then Inr None
      else Inr (Some \<lparr>lf_drop_percent = ucast (lo_drop_percent options),
                      lf_drop_outbound = (lo_direction options = LossOut \<or> lo_direction options = LossBoth),
                      lf_drop_inbound = (lo_direction options = LossIn \<or> lo_direction options = LossBoth),
                      lf_outbound_rng = lo_seed options, lf_inbound_rng = NOT (lo_seed options),
                      lf_armed = False,
                      lf_counters = \<lparr>outbound_dropped = 0, inbound_dropped = 0,
                        outbound_forwarded = 0, inbound_forwarded = 0\<rparr>\<rparr>))"

text \<open>\<open>a && b && rng.below(100) < p\<close>: the generator is drawn from only when the first two hold.\<close>

definition loses :: "bool \<Rightarrow> u64 \<Rightarrow> split_mix \<Rightarrow> bool \<times> split_mix" where
  "loses on percent rng =
     (if on then let (x, rng) = split_mix_below 100 rng in (x < percent, rng) else (False, rng))"

definition pass_outbound :: "bytes \<Rightarrow> lossy_filter \<Rightarrow> bool \<times> lossy_filter" where
  "pass_outbound datagram f =
     (let (lost, rng) = loses (lf_armed f \<and> lf_drop_outbound f) (lf_drop_percent f) (lf_outbound_rng f);
          f = f\<lparr>lf_outbound_rng := rng\<rparr>;
          n = lf_counters f
      in if lost then (False, f\<lparr>lf_counters := n\<lparr>outbound_dropped := outbound_dropped n + 1\<rparr>\<rparr>)
         else let f = f\<lparr>lf_counters := n\<lparr>outbound_forwarded := outbound_forwarded n + 1\<rparr>\<rparr>
              in (True,
                  if \<not> lf_armed f \<and> length datagram > HEADER_SIZE \<and>
                     (case header_from_bytes datagram of None \<Rightarrow> False | Some h \<Rightarrow> has (hdr_flags h) ENCRYPTED_CHECKSUM)
                  then f\<lparr>lf_armed := True\<rparr> else f))"

definition pass_inbound :: "lossy_filter \<Rightarrow> bool \<times> lossy_filter" where
  "pass_inbound f =
     (let (lost, rng) = loses (lf_armed f \<and> lf_drop_inbound f) (lf_drop_percent f) (lf_inbound_rng f);
          f = f\<lparr>lf_inbound_rng := rng\<rparr>;
          n = lf_counters f
      in if lost then (False, f\<lparr>lf_counters := n\<lparr>inbound_dropped := inbound_dropped n + 1\<rparr>\<rparr>)
         else (True, f\<lparr>lf_counters := n\<lparr>inbound_forwarded := inbound_forwarded n + 1\<rparr>\<rparr>))"

section \<open>Draws are below their bound\<close>

lemma below_eq: "unat (fst (split_mix_below bound s)) = unat (fst (split_mix_next s)) * unat bound div 2 ^ 64"
proof -
  let ?x = "fst (split_mix_next s)"
  have lt: "unat ?x < 2 ^ 64" "unat bound < 2 ^ 64"
    using unsigned_less [of ?x, where 'a = nat] unsigned_less [of bound, where 'a = nat] by simp_all
  then have "unat ?x * unat bound < 2 ^ 64 * 2 ^ 64" by (intro mult_strict_mono') simp_all
  then have m: "unat ?x * unat bound < 2 ^ 128" by (simp flip: power_add)
  have u: "unat (ucast w :: 128 word) = unat w" for w :: u64 by (rule unat_ucast_up) simp
  have p: "unat ((ucast ?x :: 128 word) * ucast bound) = unat ?x * unat bound"
    using m by (simp add: unat_word_ariths(2) u)
  have d: "unat (drop_bit 64 ((ucast ?x :: 128 word) * ucast bound)) = unat ?x * unat bound div 2 ^ 64"
    by (simp add: drop_bit_eq_div unat_div p)
  have "unat ?x * unat bound div 2 ^ 64 < 2 ^ 64"
    using m by (simp add: less_mult_imp_div_less flip: power_add)
  then have "unat ((ucast (drop_bit 64 ((ucast ?x :: 128 word) * ucast bound))) :: u64) = unat ?x * unat bound div 2 ^ 64"
    using d by (simp add: unat_ucast_mod)
  then show ?thesis by (simp add: split_mix_below_def split_beta Let_def)
qed

lemma below_bound: "0 < bound \<Longrightarrow> fst (split_mix_below bound s) < bound"
proof -
  assume b: "0 < bound"
  have "unat (fst (split_mix_next s)) < 2 ^ 64" using unsigned_less [of "fst (split_mix_next s)", where 'a = nat] by simp
  moreover have "0 < unat bound" using b by (simp add: word_less_nat_alt)
  ultimately have "unat (fst (split_mix_next s)) * unat bound < unat bound * 2 ^ 64" by simp
  then have "unat (fst (split_mix_next s)) * unat bound div 2 ^ 64 < unat bound" by (rule less_mult_imp_div_less)
  then show ?thesis by (simp add: word_less_nat_alt below_eq)
qed

section \<open>Runs\<close>

datatype link_event = Outgoing bytes | Incoming

fun lossy_step :: "link_event \<Rightarrow> lossy_filter \<Rightarrow> bool \<times> lossy_filter" where
  "lossy_step (Outgoing d) f = pass_outbound d f"
| "lossy_step Incoming f = pass_inbound f"

fun lossy_run :: "link_event list \<Rightarrow> lossy_filter \<Rightarrow> bool list \<times> lossy_filter" where
  "lossy_run [] f = ([], f)"
| "lossy_run (e # es) f = (let (r, f) = lossy_step e f; (rs, f) = lossy_run es f in (r # rs, f))"

text \<open>The event that arms the filter: a sealed outbound datagram with a body.\<close>

fun arming :: "link_event \<Rightarrow> bool" where
  "arming (Outgoing d) = (HEADER_SIZE < length d \<and>
     (case header_from_bytes d of None \<Rightarrow> False | Some h \<Rightarrow> has (hdr_flags h) ENCRYPTED_CHECKSUM))"
| "arming Incoming = False"

fun exposed :: "lossy_filter \<Rightarrow> link_event \<Rightarrow> bool" where
  "exposed f (Outgoing d) = lf_drop_outbound f"
| "exposed f Incoming = lf_drop_inbound f"

lemma lossy_step_settings [simp]:
  "lf_drop_percent (snd (lossy_step e f)) = lf_drop_percent f"
  "exposed (snd (lossy_step e f)) = exposed f"
  "lf_armed (snd (lossy_step e f)) \<longleftrightarrow> lf_armed f \<or> arming e"
proof -
  show "lf_drop_percent (snd (lossy_step e f)) = lf_drop_percent f"
    "lf_armed (snd (lossy_step e f)) \<longleftrightarrow> lf_armed f \<or> arming e"
    by (cases e; auto simp: pass_outbound_def pass_inbound_def loses_def Let_def split_beta)+
  have "lf_drop_outbound (snd (lossy_step e f)) = lf_drop_outbound f" "lf_drop_inbound (snd (lossy_step e f)) = lf_drop_inbound f"
    by (cases e; auto simp: pass_outbound_def pass_inbound_def loses_def Let_def split_beta)+
  then show "exposed (snd (lossy_step e f)) = exposed f"
    by (intro ext) (metis exposed.elims exposed.simps)
qed

lemma lossy_step_result:
  "fst (lossy_step e f) \<longleftrightarrow>
     \<not> (lf_armed f \<and> exposed f e \<and>
        fst (split_mix_below 100 (case e of Outgoing _ \<Rightarrow> lf_outbound_rng f | Incoming \<Rightarrow> lf_inbound_rng f)) < lf_drop_percent f)"
  by (cases e) (auto simp: pass_outbound_def pass_inbound_def loses_def Let_def split_beta)

lemma lossy_step_full:
  assumes "lf_drop_percent f = 100" "lf_armed f" "exposed f e"
  shows "\<not> fst (lossy_step e f)"
  using below_bound [of 100] assms by (simp add: lossy_step_result)

lemma lossy_run_length: "length (fst (lossy_run es f)) = length es"
  by (induction es arbitrary: f) (auto simp: split_beta)

text \<open>What is lost in a run: nothing before the arming event has passed, nothing in a direction that is not exposed, everything else at 100 percent.\<close>

fun fate :: "bool \<Rightarrow> (link_event \<Rightarrow> bool) \<Rightarrow> bool \<Rightarrow> link_event list \<Rightarrow> bool list \<Rightarrow> bool" where
  "fate armed ex full [] [] = True"
| "fate armed ex full (e # es) (r # rs) =
     ((if armed \<and> ex e then (if full then \<not> r else True) else r) \<and> fate (armed \<or> arming e) ex full es rs)"
| "fate armed ex full _ _ = False"

lemma lossy_run_fate: "fate (lf_armed f) (exposed f) (lf_drop_percent f = 100) es (fst (lossy_run es f))"
proof (induction es arbitrary: f)
  case (Cons e es)
  have "fate (lf_armed f \<or> arming e) (exposed f) (lf_drop_percent f = 100) es (fst (lossy_run es (snd (lossy_step e f))))"
    using Cons.IH [of "snd (lossy_step e f)"] by simp
  then show ?case
    using lossy_step_full [of f e] lossy_step_result [of e f] by (auto simp: split_beta Let_def)
qed simp

fun is_out :: "link_event \<Rightarrow> bool" where
  "is_out (Outgoing _) = True"
| "is_out Incoming = False"

definition tally :: "bool \<Rightarrow> bool \<Rightarrow> link_event list \<Rightarrow> bool list \<Rightarrow> nat" where
  "tally out passed es rs = length (filter (\<lambda>(e, r). is_out e = out \<and> r = passed) (zip es rs))"

lemma tally_simps [simp]:
  "tally out passed [] rs = 0"
  "tally out passed (e # es) (r # rs) = (if is_out e = out \<and> r = passed then 1 else 0) + tally out passed es rs"
  by (simp_all add: tally_def)

definition counts :: "lossy_filter \<Rightarrow> nat \<times> nat \<times> nat \<times> nat" where
  "counts f = (outbound_dropped (lf_counters f), inbound_dropped (lf_counters f),
     outbound_forwarded (lf_counters f), inbound_forwarded (lf_counters f))"

lemma counts_step:
  "counts f = (a, b, c, d) \<Longrightarrow> lossy_step e f = (r, f') \<Longrightarrow>
     counts f' = (a + tally True False [e] [r], b + tally False False [e] [r],
                  c + tally True True [e] [r], d + tally False True [e] [r])"
  by (cases e; cases r) (auto simp: counts_def pass_outbound_def pass_inbound_def Let_def split_beta split: if_splits)

lemma counts_run:
  "counts f = (a, b, c, d) \<Longrightarrow> lossy_run es f = (rs, f') \<Longrightarrow>
     counts f' = (a + tally True False es rs, b + tally False False es rs, c + tally True True es rs, d + tally False True es rs)"
proof (induction es arbitrary: f a b c d rs)
  case (Cons e es)
  obtain r f1 where s: "lossy_step e f = (r, f1)" by force
  obtain qs f2 where q2: "lossy_run es f1 = (qs, f2)" by force
  then have q: "lossy_run es f1 = (qs, f')" "rs = r # qs" using Cons.prems(2) s by simp_all
  show ?case
    using Cons.IH [OF counts_step [OF Cons.prems(1) s] q(1)] by (simp add: q(2))
qed simp

section \<open>Properties\<close>

text \<open>
  The loss filter. A percentage above 100 is refused and 0 means no filter. Over any run of
  datagrams sent and received, the filter passes everything up to and including the first
  sealed outbound datagram that has a body, always passes a direction it does not cover, drops
  every later covered datagram at 100 percent, and its four counters are the numbers of
  datagrams dropped and passed in each direction.
\<close>

theorem loss_filter_contract:
  "case lossy_new options of
     Inl (InvalidDropPercent p) \<Rightarrow> p = lo_drop_percent options \<and> 100 < p
   | Inr None \<Rightarrow> lo_drop_percent options = 0
   | Inr (Some f) \<Rightarrow>
       (case lossy_run es f of (rs, f') \<Rightarrow>
          fate False (\<lambda>e. lo_direction options \<noteq> (if is_out e then LossIn else LossOut))
            (lo_drop_percent options = 100) es rs \<and>
          counts f' = (tally True False es rs, tally False False es rs, tally True True es rs, tally False True es rs))"
proof (cases "lo_drop_percent options > 100 \<or> lo_drop_percent options = 0")
  case True
  then show ?thesis by (auto simp: lossy_new_def)
next
  case False
  then obtain f where f: "lossy_new options = Inr (Some f)" "\<not> lf_armed f" "lf_drop_percent f = ucast (lo_drop_percent options)"
    "exposed f = (\<lambda>e. lo_direction options \<noteq> (if is_out e then LossIn else LossOut))" "counts f = (0, 0, 0, 0)"
  proof -
    let ?d = "lo_direction options"
    have ex: "exposed f = (\<lambda>e. ?d \<noteq> (if is_out e then LossIn else LossOut))"
      if "lf_drop_outbound f = (?d = LossOut \<or> ?d = LossBoth)" "lf_drop_inbound f = (?d = LossIn \<or> ?d = LossBoth)"
      for f :: lossy_filter
    proof
      fix e show "exposed f e = (?d \<noteq> (if is_out e then LossIn else LossOut))"
        using that by (cases e; cases ?d) auto
    qed
    obtain f where "lossy_new options = Inr (Some f)" using False by (simp add: lossy_new_def)
    then show thesis
      using that [of f] ex [of f] False by (auto simp: lossy_new_def counts_def)
  qed
  obtain rs f' where r: "lossy_run es f = (rs, f')" by force
  have "(ucast (lo_drop_percent options) :: u64) = 100 \<longleftrightarrow> lo_drop_percent options = 100"
  proof -
    have "unat (ucast (lo_drop_percent options) :: u64) = unat (lo_drop_percent options)" by (rule unat_ucast_up) simp
    then show ?thesis by (simp add: word_unat_eq_iff)
  qed
  then show ?thesis
    using f r lossy_run_fate [of f es] counts_run [OF f(5) r] by simp
qed

end
