(* ===== verification/Link_Cadence.thy ===== *)
theory Link_Cadence
  imports Connection_Session
begin

text \<open>
  The connection over time: when it repeats its connect response and when it gives the server
  up. A history is a list of ticks and received datagrams.
\<close>

section \<open>Histories\<close>

datatype link_act = Tick net_time | Arrive net_time bytes

fun act_time :: "link_act \<Rightarrow> net_time" where
  "act_time (Tick t) = t"
| "act_time (Arrive t d) = t"

fun act :: "link_act \<Rightarrow> connection \<Rightarrow> connection option" where
  "act (Tick t) c = tick t c"
| "act (Arrive t d) c = Some (snd (handle_datagram t d c))"

fun live :: "link_act list \<Rightarrow> connection \<Rightarrow> connection option" where
  "live [] c = Some c"
| "live (e # es) c = Option.bind (act e c) (live es)"

section \<open>What one step does to the clocks\<close>

lemma handle_datagram_clocks:
  "cn_lost (snd (handle_datagram t d c)) = cn_lost c"
  "cn_previous_silence_check (snd (handle_datagram t d c)) = cn_previous_silence_check c"
  "cn_silence_timeout (snd (handle_datagram t d c)) = cn_silence_timeout c"
  "cn_closed (snd (handle_datagram t d c)) = cn_closed c"
  "cn_response_sent_at (snd (handle_datagram t d c)) = cn_response_sent_at c"
  "cn_response_not_before (snd (handle_datagram t d c)) = cn_response_not_before c"
  "cn_handshake_confirmed c \<Longrightarrow> cn_handshake_confirmed (snd (handle_datagram t d c))"
  by (auto simp: handle_datagram_def process_def accept_packet_def on_time_section_def drain_transport_def Let_def split_beta
      split: sum.splits prod.splits bool.splits)

definition responded :: "connection \<Rightarrow> nat" where
  "responded c = length (filter (\<lambda>x. tm_destination x = Connect) (cn_outbox c))"

lemma responded_drain [simp]: "responded (drain_transport c) = responded c"
  by (simp add: responded_def drain_transport_def filter_map comp_def)

definition due :: "net_time \<Rightarrow> connection \<Rightarrow> bool" where
  "due t c \<longleftrightarrow>
     (case cn_response_sent_at c of
        None \<Rightarrow> cn_response_not_before c \<le> t
      | Some at \<Rightarrow> \<not> cn_handshake_confirmed c \<and> CONNECT_RESPONSE_RETRY < t - at)"

lemma due_response_eq: "due_response t c = (if due t c then send_connect_response t c else c)"
  by (auto simp: due_response_def due_def since_def split: option.split)

lemma check_silence_frame:
  "cn_closed (check_server_silence t c) = cn_closed c" "cn_last_packet_at (check_server_silence t c) = cn_last_packet_at c"
  "cn_silence_timeout (check_server_silence t c) = cn_silence_timeout c" "responded (check_server_silence t c) = responded c"
  "cn_response_sent_at (check_server_silence t c) = cn_response_sent_at c"
  "cn_response_not_before (check_server_silence t c) = cn_response_not_before c"
  "cn_handshake_confirmed (check_server_silence t c) = cn_handshake_confirmed c"
  by (auto simp: check_server_silence_def responded_def Let_def split: option.split)

lemma check_silence_verdict:
  "cn_lost (check_server_silence t c) \<longleftrightarrow>
     cn_lost c \<or> (case cn_previous_silence_check c of None \<Rightarrow> False
       | Some p \<Rightarrow> t - p < cn_silence_timeout c \<and> cn_silence_timeout c < t - cn_last_packet_at c)"
  "\<not> cn_lost c \<Longrightarrow> cn_previous_silence_check (check_server_silence t c) = Some t"
  by (auto simp: check_server_silence_def since_def Let_def split: option.split)

lemma tick_shape:
  assumes "tick t c = Some c'" "\<not> cn_closed c"
  shows "\<exists>c1. c' = check_server_silence t c1 \<and> cn_closed c1 = cn_closed c \<and> cn_lost c1 = cn_lost c \<and>
    cn_last_packet_at c1 = cn_last_packet_at c \<and> cn_silence_timeout c1 = cn_silence_timeout c \<and>
    cn_previous_silence_check c1 = cn_previous_silence_check c \<and>
    cn_response_sent_at c1 = (if due t c then Some t else cn_response_sent_at c) \<and>
    cn_response_not_before c1 = cn_response_not_before c \<and> cn_handshake_confirmed c1 = cn_handshake_confirmed c \<and>
    responded c1 = responded c + (if due t c then 1 else 0)"
proof -
  define c0 where "c0 = due_response t c"
  have c0: "cn_closed c0 = cn_closed c \<and> cn_lost c0 = cn_lost c \<and>
    cn_last_packet_at c0 = cn_last_packet_at c \<and> cn_silence_timeout c0 = cn_silence_timeout c \<and>
    cn_previous_silence_check c0 = cn_previous_silence_check c \<and>
    cn_response_sent_at c0 = (if due t c then Some t else cn_response_sent_at c) \<and>
    cn_response_not_before c0 = cn_response_not_before c \<and> cn_handshake_confirmed c0 = cn_handshake_confirmed c \<and>
    responded c0 = responded c + (if due t c then 1 else 0)"
    by (simp add: c0_def due_response_eq send_connect_response_def responded_def)
  show ?thesis
  proof (cases "cn_response_sent_at c0")
    case None
    then show ?thesis using assms c0 by (intro exI [of _ c0]) (simp add: tick_def Let_def flip: c0_def)
  next
    case (Some a)
    then obtain tp where "transport_sweep t (cn_handshake_confirmed c0) (cn_transport c0) = Some tp"
      "c' = check_server_silence t (drain_transport (c0\<lparr>cn_transport := tp\<rparr>))"
      using assms by (auto simp: tick_def Let_def simp flip: c0_def split: option.splits)
    moreover have "responded (c0\<lparr>cn_transport := tp\<rparr>) = responded c0" by (simp add: responded_def)
    ultimately show ?thesis
      using c0 by (intro exI [of _ "drain_transport (c0\<lparr>cn_transport := tp\<rparr>)"]) (simp add: drain_transport_def [of c0], simp add: drain_transport_def)
  qed
qed

lemma tick_clocks:
  assumes "tick t c = Some c'" "\<not> cn_closed c"
  shows "\<not> cn_closed c'" "cn_last_packet_at c' = cn_last_packet_at c" "cn_silence_timeout c' = cn_silence_timeout c"
    "cn_response_sent_at c' = (if due t c then Some t else cn_response_sent_at c)"
    "cn_response_not_before c' = cn_response_not_before c" "cn_handshake_confirmed c' = cn_handshake_confirmed c"
    "responded c' = responded c + (if due t c then 1 else 0)"
    "\<not> cn_lost c \<Longrightarrow> cn_previous_silence_check c' = Some t"
    "cn_lost c' \<longleftrightarrow> cn_lost c \<or> (case cn_previous_silence_check c of None \<Rightarrow> False
       | Some p \<Rightarrow> t - p < cn_silence_timeout c \<and> cn_silence_timeout c < t - cn_last_packet_at c)"
proof -
  obtain c1 where c1: "c' = check_server_silence t c1" "cn_closed c1 = cn_closed c" "cn_lost c1 = cn_lost c"
    "cn_last_packet_at c1 = cn_last_packet_at c" "cn_silence_timeout c1 = cn_silence_timeout c"
    "cn_previous_silence_check c1 = cn_previous_silence_check c"
    "cn_response_sent_at c1 = (if due t c then Some t else cn_response_sent_at c)"
    "cn_response_not_before c1 = cn_response_not_before c" "cn_handshake_confirmed c1 = cn_handshake_confirmed c"
    "responded c1 = responded c + (if due t c then 1 else 0)"
    using tick_shape [OF assms] by blast
  show "\<not> cn_closed c'" "cn_last_packet_at c' = cn_last_packet_at c" "cn_silence_timeout c' = cn_silence_timeout c"
    "cn_response_sent_at c' = (if due t c then Some t else cn_response_sent_at c)"
    "cn_response_not_before c' = cn_response_not_before c" "cn_handshake_confirmed c' = cn_handshake_confirmed c"
    "responded c' = responded c + (if due t c then 1 else 0)"
    unfolding c1(1) check_silence_frame using c1 assms(2) by simp_all
  show "\<not> cn_lost c \<Longrightarrow> cn_previous_silence_check c' = Some t"
    unfolding c1(1) using c1(3) by (simp add: check_silence_verdict(2))
  show "cn_lost c' \<longleftrightarrow> cn_lost c \<or> (case cn_previous_silence_check c of None \<Rightarrow> False
       | Some p \<Rightarrow> t - p < cn_silence_timeout c \<and> cn_silence_timeout c < t - cn_last_packet_at c)"
    unfolding c1(1) check_silence_verdict(1) c1(3-6) by (rule refl)
qed

lemma handle_responded: "responded (snd (handle_datagram t d c)) = responded c"
proof -
  have "responded (snd (process t d c)) = responded c"
    by (auto simp: process_def accept_packet_def on_time_section_def responded_def Let_def split_beta
        split: sum.splits prod.splits bool.splits)
  then show ?thesis by (simp add: handle_datagram_def split_beta)
qed

section \<open>Silence\<close>

text \<open>Ticks come in order, each less than \<open>d\<close> after the one before.\<close>

fun steady :: "net_time \<Rightarrow> duration \<Rightarrow> link_act list \<Rightarrow> bool" where
  "steady p d [] = True"
| "steady p d (Tick t # es) = (p \<le> t \<and> t - p < d \<and> steady t d es)"
| "steady p d (Arrive t x # es) = steady p d es"

text \<open>At each tick, the time since the last packet the connection accepted.\<close>

fun silences :: "link_act list \<Rightarrow> connection \<Rightarrow> duration list" where
  "silences [] c = []"
| "silences (Tick t # es) c =
     (t - cn_last_packet_at c) # (case tick t c of None \<Rightarrow> [] | Some c \<Rightarrow> silences es c)"
| "silences (Arrive t x # es) c = silences es (snd (handle_datagram t x c))"

lemma lost_stays:
  "live es c = Some c' \<Longrightarrow> \<not> cn_closed c \<Longrightarrow> cn_lost c \<Longrightarrow> cn_lost c'"
proof (induction es c rule: silences.induct)
  case (2 t es c)
  then obtain c1 where c1: "tick t c = Some c1" "live es c1 = Some c'" by (auto simp: bind_eq_Some_conv)
  then show ?case using 2 tick_clocks [OF c1(1)] by simp
next
  case (3 t x es c)
  then show ?case using handle_datagram_clocks [where t = t and d = x and c = c] by simp
qed simp

lemma silence_rule:
  "live es c = Some c' \<Longrightarrow> \<not> cn_closed c \<Longrightarrow> \<not> cn_lost c \<Longrightarrow> cn_previous_silence_check c = Some p \<Longrightarrow>
   steady p (cn_silence_timeout c) es \<Longrightarrow>
   cn_lost c' \<longleftrightarrow> list_ex (\<lambda>s. cn_silence_timeout c < s) (silences es c)"
proof (induction es c arbitrary: p rule: silences.induct)
  case (2 t es c)
  then obtain c1 where c1: "tick t c = Some c1" "live es c1 = Some c'" by (auto simp: bind_eq_Some_conv)
  note k = tick_clocks [OF c1(1) "2.prems"(2)]
  show ?case
  proof (cases "cn_lost c1")
    case True
    then show ?thesis using lost_stays [OF c1(2) k(1)] k(9) "2.prems" by simp
  next
    case False
    then have quiet: "\<not> cn_silence_timeout c < t - cn_last_packet_at c" using k(9) "2.prems" by simp
    have "cn_lost c' \<longleftrightarrow> list_ex (\<lambda>s. cn_silence_timeout c1 < s) (silences es c1)"
      using "2.IH" [OF c1 k(1) False k(8) [OF "2.prems"(3)]] "2.prems"(5) k(3) by simp
    then show ?thesis using quiet k(3) c1(1) by simp
  qed
next
  case (3 t x es c)
  then show ?case using handle_datagram_clocks [where t = t and d = x and c = c] by simp
qed simp

section \<open>The connect response\<close>

text \<open>The times of the ticks that put a connect response in the outbox.\<close>

fun response_log :: "link_act list \<Rightarrow> connection \<Rightarrow> net_time list" where
  "response_log [] c = []"
| "response_log (Tick t # es) c =
     (case tick t c of
        None \<Rightarrow> []
      | Some c' \<Rightarrow> (if responded c < responded c' then [t] else []) @ response_log es c')"
| "response_log (Arrive t x # es) c = response_log es (snd (handle_datagram t x c))"

lemma log_counts:
  "live es c = Some c' \<Longrightarrow> \<not> cn_closed c \<Longrightarrow> responded c' = responded c + length (response_log es c)"
proof (induction es c rule: silences.induct)
  case (2 t es c)
  then obtain c1 where c1: "tick t c = Some c1" "live es c1 = Some c'" by (auto simp: bind_eq_Some_conv)
  then show ?case using 2 tick_clocks [OF c1(1)] by simp
next
  case (3 t x es c)
  then show ?case using handle_datagram_clocks(4) [where t = t and d = x and c = c] handle_responded [of t x c] by simp
qed simp

lemma log_none_confirmed:
  "live es c = Some c' \<Longrightarrow> \<not> cn_closed c \<Longrightarrow> cn_handshake_confirmed c \<Longrightarrow> cn_response_sent_at c \<noteq> None \<Longrightarrow>
   response_log es c = []"
proof (induction es c rule: silences.induct)
  case (2 t es c)
  then obtain c1 where c1: "tick t c = Some c1" "live es c1 = Some c'" by (auto simp: bind_eq_Some_conv)
  have "\<not> due t c" using "2.prems" by (auto simp: due_def)
  then show ?case using 2 c1 tick_clocks [OF c1(1)] by simp
next
  case (3 t x es c)
  then show ?case using handle_datagram_clocks [where t = t and d = x and c = c] by simp
qed simp

lemma log_spaced:
  "live es c = Some c' \<Longrightarrow> \<not> cn_closed c \<Longrightarrow>
   successively (\<lambda>a b. CONNECT_RESPONSE_RETRY < b - a)
     ((case cn_response_sent_at c of None \<Rightarrow> [] | Some a \<Rightarrow> [a]) @ response_log es c) \<and>
   (cn_response_sent_at c \<noteq> None \<or> list_all (\<lambda>t. cn_response_not_before c \<le> t) (take 1 (response_log es c)))"
proof (induction es c rule: silences.induct)
  case (2 t es c)
  then obtain c1 where c1: "tick t c = Some c1" "live es c1 = Some c'" by (auto simp: bind_eq_Some_conv)
  note k = tick_clocks [OF c1(1) "2.prems"(2)]
  have ih: "successively (\<lambda>a b. CONNECT_RESPONSE_RETRY < b - a)
     ((case cn_response_sent_at c1 of None \<Rightarrow> [] | Some a \<Rightarrow> [a]) @ response_log es c1) \<and>
   (cn_response_sent_at c1 \<noteq> None \<or> list_all (\<lambda>t. cn_response_not_before c1 \<le> t) (take 1 (response_log es c1)))"
    using "2.IH" [OF c1 k(1)] by simp
  show ?case
  proof (cases "due t c")
    case True
    then show ?thesis using ih c1(1) k(4,7) by (auto simp: due_def split: option.splits)
  next
    case False
    then show ?thesis using ih c1(1) k(4,5,7) by simp
  qed
next
  case (3 t x es c)
  then show ?case using handle_datagram_clocks [where t = t and d = x and c = c] by simp
qed (simp split: option.split)

lemma log_happens:
  "live es c = Some c' \<Longrightarrow> \<not> cn_closed c \<Longrightarrow> cn_response_sent_at c = None \<Longrightarrow> Tick t \<in> set es \<Longrightarrow>
   cn_response_not_before c \<le> t \<Longrightarrow> response_log es c \<noteq> []"
proof (induction es c rule: silences.induct)
  case (2 u es c)
  then obtain c1 where c1: "tick u c = Some c1" "live es c1 = Some c'" by (auto simp: bind_eq_Some_conv)
  note k = tick_clocks [OF c1(1) "2.prems"(2)]
  show ?case
  proof (cases "due u c")
    case True
    then show ?thesis using c1(1) k(7) by simp
  next
    case False
    then have "t \<noteq> u" using "2.prems" by (auto simp: due_def)
    then show ?thesis using "2.IH" [OF c1 k(1)] "2.prems" False c1(1) k by simp
  qed
next
  case (3 u x es c)
  then show ?case using handle_datagram_clocks [where t = u and d = x and c = c] by simp
qed simp

section \<open>Properties\<close>

text \<open>
  C39. The silence rule. Over any history whose ticks come in order and less than the silence
  timeout apart, the connection is given up exactly when at some tick the last packet it
  accepted is more than the timeout ago; exactly the timeout is not yet a loss, and once lost
  it stays lost.
\<close>

theorem server_silence_rule:
  assumes "\<not> cn_closed c" "\<not> cn_lost c" "cn_previous_silence_check c = Some p"
    and "steady p (cn_silence_timeout c) es" "live es c = Some c'"
  shows "cn_lost c' \<longleftrightarrow> list_ex (\<lambda>s. cn_silence_timeout c < s) (silences es c)"
  by (rule silence_rule [OF assms(5,1,2,3,4)])

lemma server_silence_rule_witness:
  "\<exists>c c'. \<not> cn_lost c \<and> cn_last_packet_at c = 0 \<and> live [Tick 5, Tick 10, Tick 11] c = Some c' \<and> cn_lost c'"
proof -
  let ?r = "\<lparr>cr_server_time = 0, cr_cookie = 77, cr_client_id = 1, cr_server_seed = 4, cr_client_seed = 5\<rparr>"
  obtain c0 where c0: "connection_new 0 header_default ?r = Some c0"
    by (simp add: connection_new_def encode_response Let_def)
  define c where "c = c0\<lparr>cn_silence_timeout := 10, cn_previous_silence_check := Some 0\<rparr>"
  have c: "\<not> cn_closed c" "\<not> cn_lost c" "cn_previous_silence_check c = Some 0" "cn_silence_timeout c = 10"
    "cn_last_packet_at c = 0" "cn_response_sent_at c = None" "cn_response_not_before c = 200000000"
    using c0 by (auto simp: c_def connection_new_def encode_response Let_def nt_add_def CONNECT_RESPONSE_DELAY_def from_millis_def)
  have tk: "tick t x = Some (check_server_silence t x)"
    if "t < 200000000" "\<not> cn_closed x" "cn_response_sent_at x = None" "cn_response_not_before x = 200000000" for t x
    using that by (simp add: tick_def due_response_def Let_def)
  obtain c' where l: "live [Tick 5, Tick 10, Tick 11] c = Some c'"
    using c by (simp add: tk check_silence_frame)
  have "silences [Tick 5, Tick 10, Tick 11] c = [5, 10, 11]"
    using c by (simp add: tk check_silence_frame)
  moreover have "steady 0 (cn_silence_timeout c) [Tick 5, Tick 10, Tick 11]" by (simp add: c)
  ultimately have "cn_lost c'" using server_silence_rule [OF c(1-3) _ l] by (simp add: c)
  then show ?thesis using c(2,5) l by blast
qed

text \<open>
  C40. The connect response and its retries. A new connection puts its first response in the
  outbox at the first tick 200 ms or more after it was made, never earlier, and each repetition
  more than a third of a second after the one before; the outbox holds exactly that many, and
  once the server has confirmed the handshake a response already sent is never repeated.
\<close>

theorem connect_response_cadence:
  assumes "connection_new t0 header request = Some c" "live es c = Some c1" "live es' c1 = Some c2"
  shows "successively (\<lambda>a b. 333333333 < b - a) (response_log es c) \<and>
    list_all (\<lambda>t. t0 + 200000000 \<le> t) (take 1 (response_log es c)) \<and>
    (response_log es c \<noteq> [] \<or> list_all (\<lambda>e. case e of Tick t \<Rightarrow> t < t0 + 200000000 | Arrive t d \<Rightarrow> True) es) \<and>
    responded c1 = length (response_log es c) \<and>
    (\<not> cn_handshake_confirmed c1 \<or> cn_response_sent_at c1 = None \<or> response_log es' c1 = [])"
proof -
  have c: "\<not> cn_closed c" "cn_response_sent_at c = None" "cn_response_not_before c = t0 + 200000000" "responded c = 0"
    using assms(1) by (auto simp: connection_new_def encode_response Let_def nt_add_def CONNECT_RESPONSE_DELAY_def
        from_millis_def responded_def)
  have closed: "live es c = Some c' \<Longrightarrow> \<not> cn_closed c \<Longrightarrow> \<not> cn_closed c'" for es c c'
  proof (induction es c rule: silences.induct)
    case (2 t es c)
    then obtain d where "tick t c = Some d" "live es d = Some c'" by (auto simp: bind_eq_Some_conv)
    then show ?case using 2 tick_clocks(1) by blast
  qed (auto simp: handle_datagram_clocks)
  have "response_log es c \<noteq> [] \<or> list_all (\<lambda>e. case e of Tick t \<Rightarrow> t < t0 + 200000000 | Arrive t d \<Rightarrow> True) es"
    using log_happens [OF assms(2) c(1,2)] c(3) by (auto simp: list_all_iff not_less [symmetric] split: link_act.split)
  moreover have "\<not> cn_handshake_confirmed c1 \<or> cn_response_sent_at c1 = None \<or> response_log es' c1 = []"
    using log_none_confirmed [OF assms(3) closed [OF assms(2) c(1)]] by blast
  ultimately show ?thesis
    using log_spaced [OF assms(2) c(1)] log_counts [OF assms(2) c(1)] c by (simp add: CONNECT_RESPONSE_RETRY_def)
qed

lemma connect_response_cadence_witness:
  "\<exists>c c1. live [Tick 199999999, Tick 200000000] c = Some c1 \<and> responded c = 0 \<and> responded c1 = 1"
proof -
  let ?r = "\<lparr>cr_server_time = 0, cr_cookie = 77, cr_client_id = 1, cr_server_seed = 4, cr_client_seed = 5\<rparr>"
  obtain c where c: "connection_new 0 header_default ?r = Some c" "connection_ok (isaac_new 5) 77 0 c" "responded c = 0"
    "cn_response_not_before c = 200000000" "cn_response_sent_at c = None" "\<not> cn_closed c"
    using connection_new_ok [of 0 header_default ?r]
    by (auto simp: connection_new_def encode_response Let_def responded_def nt_add_def CONNECT_RESPONSE_DELAY_def from_millis_def)
  obtain a m where a: "tick 199999999 c = Some a" "connection_ok (isaac_new 5) 77 m a" "m \<le> 2"
    using tick_ok [OF c(2), of 199999999] by (auto simp: SESSION_def)
  obtain b where b: "tick 200000000 a = Some b"
    using tick_ok [OF a(2), of 200000000] a(3) by (auto simp: SESSION_def)
  have l: "live [Tick 199999999, Tick 200000000] c = Some b" "live [] b = Some b" using a(1) b by simp_all
  have "\<not> due 199999999 c" using c by (simp add: due_def)
  then have "due 200000000 a" "\<not> cn_closed a" "responded a = 0" using tick_clocks [OF a(1) c(6)] c by (simp_all add: due_def)
  then have "response_log [Tick 199999999, Tick 200000000] c = [200000000]"
    using a(1) b c(3) tick_clocks(7) [OF b] by simp
  then have "responded b = 1" using connect_response_cadence [OF c(1) l] by simp
  then show ?thesis using l c(3) by blast
qed

end
