(* ===== verification/Png.thy ===== *)
theory Png
  imports Net_Prelude
begin

text \<open>
  \<open>crates/ac-bits/src/png.rs\<close>: the PNG writer with stored deflate blocks, and its two
  checksums. The theorems: the table-driven CRC is the bit-by-bit one, Adler-32 with its
  deferred reductions never overflows and is the sum of RFC 1950, and a reader of the formats
  gets the pixels back.
\<close>

section \<open>CRC-32\<close>

record crc32 =
  crc_table :: "u32 list"
  crc_value :: u32

text \<open>One of the eight rounds for a table slot.\<close>

definition crc_round :: "u32 \<Rightarrow> u32" where
  "crc_round c = (if c AND 1 \<noteq> 0 then 0xEDB88320 XOR drop_bit 1 c else drop_bit 1 c)"

definition crc_new :: crc32 where
  "crc_new = \<lparr>crc_table = map (\<lambda>n. (crc_round ^^ 8) (word_of_nat n)) [0..<256], crc_value = 0xFFFFFFFF\<rparr>"

fun crc_update :: "bytes \<Rightarrow> crc32 \<Rightarrow> crc32" where
  "crc_update [] c = c"
| "crc_update (b # bs) c =
     crc_update bs (c\<lparr>crc_value :=
       crc_table c ! unat ((crc_value c XOR ucast b) AND 0xFF) XOR drop_bit 8 (crc_value c)\<rparr>)"

definition crc_finish :: "crc32 \<Rightarrow> u32" where
  "crc_finish c = crc_value c XOR 0xFFFFFFFF"

section \<open>Adler-32\<close>

definition ADLER_MOD :: u32 where
  "ADLER_MOD = 65521"

fun adler_run :: "bytes \<Rightarrow> u32 \<times> u32 \<Rightarrow> u32 \<times> u32" where
  "adler_run [] (a, b) = (a, b)"
| "adler_run (x # xs) (a, b) = (let a = a + ucast x; b = b + a in adler_run xs (a, b))"

fun adler_runs :: "bytes list \<Rightarrow> u32 \<times> u32 \<Rightarrow> u32 \<times> u32" where
  "adler_runs [] (a, b) = (a, b)"
| "adler_runs (run # runs) (a, b) =
     (let (a, b) = adler_run run (a, b) in adler_runs runs (a mod ADLER_MOD, b mod ADLER_MOD))"

definition adler32 :: "bytes \<Rightarrow> u32" where
  "adler32 data = (let (a, b) = adler_runs (chunks 5552 data) (1, 0) in push_bit 16 b OR a)"

section \<open>The file\<close>

fun stored_blocks :: "bytes list \<Rightarrow> bytes" where
  "stored_blocks [] = []"
| "stored_blocks (block # blocks) =
     (let last = (if blocks = [] then 1 else 0); len = (word_of_nat (length block) :: u16)
      in [last] @ le_bytes 2 len @ le_bytes 2 (NOT len) @ block @ stored_blocks blocks)"

definition zlib_stored :: "bytes \<Rightarrow> bytes" where
  "zlib_stored data =
     (let blocks = chunks 0xFFFF data
      in [0x78, 0x01] @ (if blocks = [] then [1, 0, 0, 0xFF, 0xFF] else []) @ stored_blocks blocks @
         be_bytes 4 (adler32 data))"

definition png_chunk :: "bytes \<Rightarrow> bytes \<Rightarrow> bytes \<Rightarrow> bytes" where
  "png_chunk out kind data =
     (let len = (if length data \<le> 0xFFFFFFFF then word_of_nat (length data) else 0xFFFFFFFF :: u32);
          crc = crc_update data (crc_update kind crc_new)
      in out @ be_bytes 4 len @ kind @ data @ be_bytes 4 (crc_finish crc))"

text \<open>\<open>chunks_exact\<close>: the remainder is left out.\<close>

definition chunks_exact :: "nat \<Rightarrow> 'a list \<Rightarrow> 'a list list" where
  "chunks_exact n xs = filter (\<lambda>c. length c = n) (chunks n xs)"

definition PNG_SIGNATURE :: bytes where
  "PNG_SIGNATURE = [0x89, 0x50, 0x4E, 0x47, 0x0D, 0x0A, 0x1A, 0x0A]"

definition IHDR :: bytes where "IHDR = [0x49, 0x48, 0x44, 0x52]"
definition IDAT :: bytes where "IDAT = [0x49, 0x44, 0x41, 0x54]"
definition IEND :: bytes where "IEND = [0x49, 0x45, 0x4E, 0x44]"

definition encode_rgba :: "u32 \<Rightarrow> u32 \<Rightarrow> bytes \<Rightarrow> bytes" where
  "encode_rgba width height rgba =
     (let row = unat width * 4;
          raw = concat (map (\<lambda>line. 0 # line) (take (unat height) (chunks_exact (max row 1) rgba)));
          png = PNG_SIGNATURE;
          ihdr = be_bytes 4 width @ be_bytes 4 height @ [8, 6, 0, 0, 0];
          png = png_chunk png IHDR ihdr;
          png = png_chunk png IDAT (zlib_stored raw)
      in png_chunk png IEND [])"

section \<open>The CRC, bit by bit\<close>

text \<open>The reference: eight rounds for each byte, no table.\<close>

fun crc_bitwise :: "bytes \<Rightarrow> u32 \<Rightarrow> u32" where
  "crc_bitwise [] v = v"
| "crc_bitwise (b # bs) v = crc_bitwise bs ((crc_round ^^ 8) (v XOR ucast b))"

lemma crc_round_even: "\<not> bit h 0 \<Longrightarrow> crc_round (l XOR h) = crc_round l XOR drop_bit 1 h"
  by (auto simp: crc_round_def and_exp_eq_0_iff_not_bit [of _ 0, simplified] bit_xor_iff xor.assoc)

lemma crc_rounds_shift:
  "(\<And>i. i < k \<Longrightarrow> \<not> bit h i) \<Longrightarrow> (crc_round ^^ k) (l XOR h) = (crc_round ^^ k) l XOR drop_bit k h"
proof (induction k)
  case (Suc k)
  have "\<not> bit (drop_bit k h) 0" using Suc.prems [of k] by (simp add: bit_drop_bit_eq)
  then show ?case using Suc by (simp add: crc_round_even)
qed simp

lemma low_byte: "w AND 0xFF = take_bit 8 w" for w :: u32
  by (simp add: take_bit_eq_mask mask_eq_exp_minus_1)

lemma crc_table_step:
  "(crc_round ^^ 8) (v XOR ucast (b :: u8)) =
     crc_table crc_new ! unat ((v XOR ucast b) AND 0xFF) XOR drop_bit 8 v"
proof -
  define w where "w = v XOR ucast b"
  have split: "w = take_bit 8 w XOR push_bit 8 (drop_bit 8 w)"
    by (rule bit_word_eqI) (auto simp: bit_simps)
  have "(crc_round ^^ 8) (take_bit 8 w XOR push_bit 8 (drop_bit 8 w)) =
      (crc_round ^^ 8) (take_bit 8 w) XOR drop_bit 8 (push_bit 8 (drop_bit 8 w))"
    by (rule crc_rounds_shift) (simp add: bit_simps)
  also have "drop_bit 8 (push_bit 8 (drop_bit 8 w)) = drop_bit 8 v"
    by (rule bit_word_eqI) (auto simp: w_def bit_simps dest: bit_imp_le_length)
  finally have rounds: "(crc_round ^^ 8) w = (crc_round ^^ 8) (take_bit 8 w) XOR drop_bit 8 v"
    using split by simp
  have "unat (take_bit 8 w) = take_bit 8 (unat w)" by (simp add: unsigned_take_bit_eq)
  then have "unat (take_bit 8 w) < 256" using take_bit_nat_less_exp [of 8 "unat w"] by simp
  then have "crc_table crc_new ! unat (take_bit 8 w) = (crc_round ^^ 8) (take_bit 8 w)"
    by (simp add: crc_new_def)
  then show ?thesis using rounds by (simp add: low_byte w_def)
qed

lemma crc_table_update [simp]: "crc_table (crc_update bs c) = crc_table c"
  by (induction bs c rule: crc_update.induct) simp_all

lemma crc_update_bitwise:
  "crc_table c = crc_table crc_new \<Longrightarrow> crc_value (crc_update bs c) = crc_bitwise bs (crc_value c)"
proof (induction bs c rule: crc_update.induct)
  case (2 b bs c)
  then show ?case using crc_table_step [of "crc_value c" b] by simp
qed simp

lemma crc_update_append: "crc_update (xs @ ys) c = crc_update ys (crc_update xs c)"
  by (induction xs c rule: crc_update.induct) simp_all

section \<open>Adler-32 without overflow\<close>

text \<open>The reference of RFC 1950: both sums reduced after every byte, over the naturals.\<close>

fun adler_spec :: "bytes \<Rightarrow> nat \<times> nat \<Rightarrow> nat \<times> nat" where
  "adler_spec [] (a, b) = (a, b)"
| "adler_spec (x # xs) (a, b) =
     (let a = (a + unat x) mod 65521; b = (b + a) mod 65521 in adler_spec xs (a, b))"

text \<open>The sums of one run, not reduced.\<close>

fun adler_sums :: "bytes \<Rightarrow> nat \<times> nat \<Rightarrow> nat \<times> nat" where
  "adler_sums [] (a, b) = (a, b)"
| "adler_sums (x # xs) (a, b) = adler_sums xs (a + unat x, b + (a + unat x))"

lemma adler_sums_bound:
  "adler_sums xs (a, b) = (a', b') \<Longrightarrow>
     a' \<le> a + 255 * length xs \<and> 2 * b' \<le> 2 * b + 2 * a * length xs + 255 * length xs * (length xs + 1)"
proof (induction xs arbitrary: a b)
  case (Cons x xs)
  have x: "unat x \<le> 255" using unsigned_less [of x, where 'a = nat] by simp
  let ?n = "length xs"
  have ih: "a' \<le> (a + unat x) + 255 * ?n"
    "2 * b' \<le> 2 * (b + (a + unat x)) + 2 * (a + unat x) * ?n + 255 * ?n * (?n + 1)"
    using Cons.IH [of "a + unat x" "b + (a + unat x)"] Cons.prems by simp_all
  define k s q where "k = ?n * unat x" and "s = ?n * ?n" and "q = a * ?n"
  have "k \<le> ?n * 255" unfolding k_def by (rule mult_le_mono2) (use x in simp)
  moreover have "2 * b' \<le> 2 * b + 2 * a + 2 * unat x + 2 * q + 2 * k + 255 * ?n + 255 * s"
    using ih(2) by (simp add: k_def s_def q_def algebra_simps)
  ultimately have "2 * b' \<le> 2 * b + 2 * a + 2 * q + 510 + 765 * ?n + 255 * s" using x by linarith
  then show ?case using ih(1) x by (simp add: s_def q_def algebra_simps)
qed simp

lemma adler_sums_mono: "a \<le> fst (adler_sums xs (a, b)) \<and> b \<le> snd (adler_sums xs (a, b))"
proof (induction xs arbitrary: a b)
  case (Cons x xs)
  show ?case unfolding adler_sums.simps using Cons.IH [of "a + unat x" "b + (a + unat x)"] by linarith
qed simp

lemma adler_run_sums:
  assumes "fst (adler_sums xs (unat a, unat b)) < 2 ^ 32" "snd (adler_sums xs (unat a, unat b)) < 2 ^ 32"
  shows "unat (fst (adler_run xs (a, b))) = fst (adler_sums xs (unat a, unat b)) \<and>
    unat (snd (adler_run xs (a, b))) = snd (adler_sums xs (unat a, unat b))"
  using assms
proof (induction xs arbitrary: a b)
  case (Cons x xs)
  let ?a = "a + ucast x" and ?b = "b + (a + ucast x)"
  have u: "unat (ucast x :: u32) = unat x" by (rule unat_ucast_up) simp
  have m: "unat a + unat x < 2 ^ 32" "unat b + (unat a + unat x) < 2 ^ 32"
    using adler_sums_mono [of "unat a + unat x" xs "unat b + (unat a + unat x)"] Cons.prems by simp_all
  have a: "unat ?a = unat a + unat x" using m(1) u by (simp add: unat_word_ariths(1))
  have b: "unat ?b = unat b + (unat a + unat x)" using m(2) a unat_word_ariths(1) [of b ?a] by simp
  show ?case using Cons.IH [of ?a ?b] Cons.prems by (simp add: a b Let_def)
qed simp

lemma adler_sums_spec:
  "adler_spec xs (a mod 65521, b mod 65521) =
     (fst (adler_sums xs (a, b)) mod 65521, snd (adler_sums xs (a, b)) mod 65521)"
proof (induction xs arbitrary: a b)
  case (Cons x xs)
  have "(a mod 65521 + unat x) mod 65521 = (a + unat x) mod 65521" by (rule mod_add_left_eq)
  moreover have "(b mod 65521 + (a + unat x) mod 65521) mod 65521 = (b + (a + unat x)) mod 65521" by (rule mod_add_eq)
  ultimately show ?case using Cons [of "a + unat x" "b + (a + unat x)"] by (simp add: Let_def)
qed simp

lemma adler_spec_append: "adler_spec (xs @ ys) p = adler_spec ys (adler_spec xs p)"
  by (induction xs p rule: adler_spec.induct) (simp_all add: Let_def)

text \<open>The longest run that cannot overflow, as the source says.\<close>

lemma adler_run_bounded:
  assumes "length xs \<le> 5552" "a < 65521" "b < 65521"
  shows "fst (adler_sums xs (a, b)) < 2 ^ 32" "snd (adler_sums xs (a, b)) < 2 ^ 32"
proof -
  obtain a' b' where r: "adler_sums xs (a, b) = (a', b')" by force
  let ?n = "length xs"
  have "a * ?n \<le> 65520 * 5552" using assms by (intro mult_le_mono) simp_all
  moreover have "?n * (?n + 1) \<le> 5552 * 5553" using assms by (intro mult_le_mono) simp_all
  ultimately show "fst (adler_sums xs (a, b)) < 2 ^ 32" "snd (adler_sums xs (a, b)) < 2 ^ 32"
    using adler_sums_bound [OF r] assms by (simp_all add: r algebra_simps)
qed

lemma adler_runs_spec:
  assumes "\<And>run. run \<in> set runs \<Longrightarrow> length run \<le> 5552" "unat a < 65521" "unat b < 65521"
  shows "(unat (fst (adler_runs runs (a, b))), unat (snd (adler_runs runs (a, b)))) =
     adler_spec (concat runs) (unat a, unat b)"
  using assms
proof (induction runs arbitrary: a b)
  case (Cons run runs)
  have len: "length run \<le> 5552" using Cons.prems(1) by simp
  note bounds = adler_run_bounded [OF len Cons.prems(2,3)]
  obtain a1 b1 where r: "adler_run run (a, b) = (a1, b1)" by force
  have s: "unat a1 = fst (adler_sums run (unat a, unat b))" "unat b1 = snd (adler_sums run (unat a, unat b))"
    using adler_run_sums [OF bounds] r by simp_all
  have m: "unat (a1 mod ADLER_MOD) = unat a1 mod 65521" "unat (b1 mod ADLER_MOD) = unat b1 mod 65521"
    by (simp_all add: ADLER_MOD_def unat_mod)
  have "adler_spec run (unat a, unat b) = (unat (a1 mod ADLER_MOD), unat (b1 mod ADLER_MOD))"
    using adler_sums_spec [of run "unat a" "unat b"] Cons.prems(2,3) by (simp add: m s)
  then show ?case
    using Cons.IH [of "a1 mod ADLER_MOD" "b1 mod ADLER_MOD"] Cons.prems(1)
    by (simp add: r m adler_spec_append)
qed simp

lemma adler_spec_less: "snd p < 65521 \<Longrightarrow> fst p < 65521 \<Longrightarrow> fst (adler_spec xs p) < 65521 \<and> snd (adler_spec xs p) < 65521"
  by (induction xs p rule: adler_spec.induct) (simp_all add: Let_def)

lemma adler32_spec:
  "unat (adler32 data) = (let (a, b) = adler_spec data (1, 0) in b * 65536 + a)"
proof -
  obtain a b where r: "adler_runs (chunks 5552 data) (1, 0) = (a, b)" by force
  have s: "(unat a, unat b) = adler_spec data (1, 0)"
    using adler_runs_spec [of "chunks 5552 data" 1 0] length_chunks_le [of 5552 _ data] r by (simp add: concat_chunks)
  have "fst (unat a, unat b) < 65521 \<and> snd (unat a, unat b) < 65521"
    unfolding s by (rule adler_spec_less) simp_all
  then have lt: "unat a < 2 ^ 16" "unat b < 65536" by simp_all
  have z: "push_bit 16 b AND a = 0"
    by (rule bit_word_eqI) (auto simp: bit_simps dest!: bit_lt_exp [OF lt(1)])
  have "push_bit 16 b OR a = b * 65536 + a" using disjunctive_add_eq_or [OF z] by (simp add: push_bit_eq_mult)
  then have "unat (push_bit 16 b OR a) = unat (b * 65536 + a)" by (rule arg_cong)
  also have "\<dots> = unat b * 65536 + unat a" using lt by (simp add: unat_word_ariths)
  finally show ?thesis by (simp add: adler32_def r s [symmetric] del: One_nat_def)
qed

section \<open>A reader of the formats\<close>

text \<open>Stored blocks as RFC 1951 reads them: the data and what follows the final block.\<close>

function inflate_stored :: "bytes \<Rightarrow> (bytes \<times> bytes) option" where
  "inflate_stored d =
     (let len = from_le (take 2 (drop 1 d)) :: u16; rest = drop 5 d
      in if length d < 5 \<or> from_le (take 2 (drop 3 d)) \<noteq> NOT len \<or> length rest < unat len then None
         else if hd d = 1 then Some (take (unat len) rest, drop (unat len) rest)
         else if hd d = 0
              then map_option (\<lambda>(b, r). (take (unat len) rest @ b, r)) (inflate_stored (drop (unat len) rest))
              else None)"
  by pat_completeness auto
termination
  by (relation "measure length") auto

declare inflate_stored.simps [simp del]

definition zlib_read :: "bytes \<Rightarrow> bytes option" where
  "zlib_read z =
     (if take 2 z \<noteq> [0x78, 0x01] then None
      else case inflate_stored (drop 2 z) of
             None \<Rightarrow> None
           | Some (d, trailer) \<Rightarrow>
               let (a, b) = adler_spec d (1, 0)
               in if trailer = be_bytes 4 (word_of_nat (b * 65536 + a) :: u32) then Some d else None)"

text \<open>One chunk, checked against the bit-by-bit CRC.\<close>

definition read_chunk :: "bytes \<Rightarrow> (bytes \<times> bytes \<times> bytes) option" where
  "read_chunk d =
     (let len = unat (from_le (rev (take 4 d)) :: u32); kind = take 4 (drop 4 d); data = take len (drop 8 d)
      in if length d < 12 + len \<or>
            take 4 (drop (8 + len) d) \<noteq> be_bytes 4 (crc_bitwise (kind @ data) 0xFFFFFFFF XOR 0xFFFFFFFF)
         then None else Some (kind, data, drop (12 + len) d))"

definition png_pixels :: "bytes \<Rightarrow> bytes \<Rightarrow> (u32 \<times> u32 \<times> bytes) option" where
  "png_pixels ihdr raw =
     (let width = from_le (rev (take 4 ihdr)); height = from_le (rev (take 4 (drop 4 ihdr)));
          row = unat width * 4; lines = chunks (row + 1) raw
      in if drop 8 ihdr = [8, 6, 0, 0, 0] \<and> length lines = unat height \<and>
            list_all (\<lambda>l. length l = row + 1 \<and> hd l = 0) lines
         then Some (width, height, concat (map tl lines)) else None)"

definition png_read :: "bytes \<Rightarrow> (u32 \<times> u32 \<times> bytes) option" where
  "png_read d =
     (if take 8 d \<noteq> PNG_SIGNATURE then None
      else Option.bind (read_chunk (drop 8 d)) (\<lambda>(k1, ihdr, d).
           Option.bind (read_chunk d) (\<lambda>(k2, z, d).
           Option.bind (read_chunk d) (\<lambda>(k3, e, d).
             if k1 = IHDR \<and> k2 = IDAT \<and> k3 = IEND \<and> e = [] \<and> d = []
             then Option.bind (zlib_read z) (png_pixels ihdr) else None))))"

section \<open>Reading back\<close>

lemma from_be_bytes: "from_le (rev (be_bytes 4 w)) = (w :: u32)"
  by (simp add: be_bytes_def)

lemma inflate_block:
  assumes "length b \<le> 65535"
  shows "inflate_stored (k # le_bytes 2 (word_of_nat (length b) :: u16) @
      le_bytes 2 (NOT (word_of_nat (length b)) :: u16) @ b @ rest) =
    (if k = 1 then Some (b, rest)
     else if k = 0 then map_option (\<lambda>(c, r). (b @ c, r)) (inflate_stored rest) else None)"
proof -
  let ?l = "word_of_nat (length b) :: u16"
  have u: "unat ?l = length b" using assms by (intro unat_of_nat_small) simp
  have d: "drop 5 (k # le_bytes 2 ?l @ le_bytes 2 (NOT ?l) @ b @ rest) = b @ rest" by simp
  show ?thesis
    by (subst inflate_stored.simps) (simp add: u Let_def)
qed

lemma inflate_blocks:
  assumes "blocks \<noteq> []" "\<And>b. b \<in> set blocks \<Longrightarrow> length b \<le> 65535"
  shows "inflate_stored (stored_blocks blocks @ rest) = Some (concat blocks, rest)"
  using assms
proof (induction blocks)
  case (Cons b blocks)
  have b: "length b \<le> 65535" using Cons.prems(2) by simp
  show ?case
    using Cons inflate_block [OF b, of "if blocks = [] then 1 else 0" "stored_blocks blocks @ rest"]
    by (cases "blocks = []") (simp_all add: Let_def)
qed simp

lemma word_of_nat_eq: "unat w = n \<Longrightarrow> word_of_nat n = w"
  by auto

lemma zlib_read_stored: "zlib_read (zlib_stored data) = Some data"
proof -
  let ?t = "be_bytes 4 (adler32 data)"
  have "inflate_stored (drop 2 (zlib_stored data)) = Some (data, ?t)"
  proof (cases "data = []")
    case True
    have "inflate_stored (1 # le_bytes 2 (0 :: u16) @ le_bytes 2 (NOT 0 :: u16) @ [] @ ?t) = Some ([], ?t)"
      using inflate_block [of "[]" 1 ?t] by simp
    moreover have "le_bytes 2 (0 :: u16) = [0, 0]" "le_bytes 2 (NOT 0 :: u16) = [0xFF, 0xFF]" by code_simp+
    ultimately show ?thesis by (simp add: zlib_stored_def True)
  next
    case False
    then have ne: "chunks 0xFFFF data \<noteq> []" by (simp add: chunks_step)
    have "inflate_stored (stored_blocks (chunks 0xFFFF data) @ ?t) = Some (concat (chunks 0xFFFF data), ?t)"
      using ne by (rule inflate_blocks) (auto dest!: length_chunks_le [rotated])
    then show ?thesis using ne by (simp add: zlib_stored_def Let_def concat_chunks)
  qed
  moreover have "(case adler_spec data (1, 0) of (a, b) \<Rightarrow> word_of_nat (b * 65536 + a)) = adler32 data"
    using adler32_spec [of data] word_of_nat_eq [of "adler32 data"] by (simp add: split_beta Let_def)
  ultimately show ?thesis by (simp add: zlib_read_def split_beta Let_def) (simp add: zlib_stored_def Let_def)
qed

lemma png_chunk_append: "png_chunk out kind data = out @ png_chunk [] kind data"
  by (simp add: png_chunk_def Let_def)

lemma read_png_chunk:
  assumes "length kind = 4" "length data \<le> 0xFFFFFFFF"
  shows "read_chunk (png_chunk [] kind data @ rest) = Some (kind, data, rest)"
proof -
  let ?n = "word_of_nat (length data) :: u32"
  define crc where "crc = crc_finish (crc_update data (crc_update kind crc_new))"
  define c where "c = be_bytes 4 ?n @ kind @ data @ be_bytes 4 crc"
  have u: "unat ?n = length data" using assms by (intro unat_of_nat_small) simp
  have "crc = crc_bitwise (kind @ data) 0xFFFFFFFF XOR 0xFFFFFFFF"
    using crc_update_bitwise [of crc_new "kind @ data"] by (simp add: crc_def crc_finish_def crc_update_append crc_new_def)
  then have "read_chunk (c @ rest) = Some (kind, data, rest)"
    using assms(1) by (simp add: read_chunk_def c_def from_be_bytes u Let_def)
  moreover have "png_chunk [] kind data = c"
    using assms(2) by (simp add: png_chunk_def c_def crc_def Let_def)
  ultimately show ?thesis by simp
qed

lemma chunks_whole:
  "length xs = n * m \<Longrightarrow> 0 < n \<Longrightarrow> length (chunks n xs) = m \<and> list_all (\<lambda>c. length c = n) (chunks n xs)"
proof (induction m arbitrary: xs)
  case (Suc m)
  have "xs \<noteq> []" using Suc.prems by auto
  then show ?case using Suc.IH [of "drop n xs"] Suc.prems by (simp add: chunks_step)
qed simp

lemma chunks_lines:
  "list_all (\<lambda>l. length l = n) ls \<Longrightarrow> chunks (Suc n) (concat (map (Cons x) ls)) = map (Cons x) ls"
  by (induction ls) (auto simp: chunks_step)

lemma length_stored_blocks: "length (stored_blocks blocks) = 5 * length blocks + length (concat blocks)"
  by (induction blocks) (simp_all add: Let_def)

lemma length_zlib_stored: "length (zlib_stored data) \<le> length data + 5 * (length data div 65535 + 1) + 6"
proof (cases "data = []")
  case False
  then have ne: "chunks 65535 data \<noteq> []" by (simp add: chunks_step)
  have "length (chunks 65535 data) = (length data + 65534) div 65535" using length_chunks [of 65535 data] by simp
  moreover have "(length data + 65534) div 65535 \<le> (length data + 65535) div 65535" by (rule div_le_mono) simp
  ultimately show ?thesis
    using ne by (simp add: zlib_stored_def length_stored_blocks concat_chunks Let_def div_add_self2)
qed (simp add: zlib_stored_def)

lemma length_concat_lines:
  "list_all (\<lambda>l. length l = n) ls \<Longrightarrow> length (concat (map (Cons x) ls)) = (n + 1) * length ls"
  by (induction ls) auto

lemma png_lines:
  assumes "length rgba = unat width * 4 * unat height" "0 < width"
  defines "ls \<equiv> take (unat height) (chunks_exact (max (unat width * 4) 1) rgba)"
  shows "list_all (\<lambda>l. length l = unat width * 4) ls" "length ls = unat height" "concat ls = rgba"
proof -
  have w: "0 < unat width * 4" using assms(2) by (simp add: word_less_nat_alt)
  have m: "max (unat width * 4) 1 = unat width * 4" using w by simp
  note c = chunks_whole [OF assms(1) w]
  have "chunks_exact (unat width * 4) rgba = chunks (unat width * 4) rgba"
    using c by (simp add: chunks_exact_def list_all_iff)
  then have "ls = chunks (unat width * 4) rgba" using c unfolding ls_def m by simp
  then show "list_all (\<lambda>l. length l = unat width * 4) ls" "length ls = unat height" "concat ls = rgba"
    using c w by (simp_all add: concat_chunks)
qed

lemma png_pixels_lines:
  assumes "list_all (\<lambda>l. length l = unat width * 4) ls" "length ls = unat height"
  shows "png_pixels (be_bytes 4 width @ be_bytes 4 height @ [8, 6, 0, 0, 0]) (concat (map (Cons 0) ls)) =
    Some (width, height, concat ls)"
  using assms chunks_lines [OF assms(1), of 0]
  by (simp add: png_pixels_def from_be_bytes Let_def list_all_iff comp_def)

section \<open>Properties\<close>

text \<open>
  C23. The PNG writer is lossless: whatever the picture, as long as its rows are whole and the
  file fits the 32-bit chunk length, a reader that checks the signature, the three chunks with
  their CRC computed bit by bit, the stored deflate blocks and the Adler-32 sum of RFC 1950
  gets the width, the height and the pixels back.
\<close>

theorem png_round_trip:
  assumes "0 < width" "length rgba = unat width * 4 * unat height" "(unat width * 4 + 1) * unat height \<le> 4000000000"
  shows "png_read (encode_rgba width height rgba) = Some (width, height, rgba)"
proof -
  define ls where "ls = take (unat height) (chunks_exact (max (unat width * 4) 1) rgba)"
  define raw where "raw = concat (map (Cons 0) ls)"
  define ihdr where "ihdr = be_bytes 4 width @ be_bytes 4 height @ [8, 6, 0, 0, 0 :: u8]"
  note lines = png_lines [OF assms(2,1), folded ls_def]
  have "length raw = (unat width * 4 + 1) * unat height"
    using length_concat_lines [OF lines(1), of 0] lines(2) by (simp add: raw_def)
  then have raw: "length raw \<le> 4000000000" using assms(3) by simp
  then have "length raw div 65535 \<le> 4000000000 div 65535" by (rule div_le_mono)
  then have z: "length (zlib_stored raw) \<le> 0xFFFFFFFF" using length_zlib_stored [of raw] raw by simp
  obtain c1 c2 c3 where c: "png_chunk PNG_SIGNATURE IHDR ihdr = PNG_SIGNATURE @ c1"
      "read_chunk (c1 @ c2 @ c3) = Some (IHDR, ihdr, c2 @ c3)"
      "png_chunk (PNG_SIGNATURE @ c1) IDAT (zlib_stored raw) = (PNG_SIGNATURE @ c1) @ c2"
      "read_chunk (c2 @ c3) = Some (IDAT, zlib_stored raw, c3)"
      "png_chunk ((PNG_SIGNATURE @ c1) @ c2) IEND [] = ((PNG_SIGNATURE @ c1) @ c2) @ c3"
      "read_chunk (c3 @ []) = Some (IEND, [], [])"
  proof -
    have k: "length IHDR = 4" "length IDAT = 4" "length IEND = 4" by (simp_all add: IHDR_def IDAT_def IEND_def)
    have i: "length ihdr \<le> 0xFFFFFFFF" "length ([] :: bytes) \<le> 0xFFFFFFFF" by (simp_all add: ihdr_def)
    show thesis
      by (rule that) (rule png_chunk_append, rule read_png_chunk [OF k(1) i(1)], rule png_chunk_append,
        rule read_png_chunk [OF k(2) z], rule png_chunk_append, rule read_png_chunk [OF k(3) i(2)])
  qed
  have "encode_rgba width height rgba = PNG_SIGNATURE @ c1 @ c2 @ c3"
    using c(1,3,5) by (simp add: encode_rgba_def Let_def ihdr_def raw_def ls_def)
  then show ?thesis
    using c(2,4,6) png_pixels_lines [OF lines(1,2)] lines(3)
    by (simp add: png_read_def PNG_SIGNATURE_def zlib_read_stored ihdr_def raw_def)
qed

lemma png_round_trip_witness:
  "png_read (encode_rgba 2 1 [1, 2, 3, 4, 5, 6, 7, 8]) = Some (2, 1, [1, 2, 3, 4, 5, 6, 7, 8])"
  by (rule png_round_trip) simp_all

text \<open>
  C24. The two checksums are what their standards say. The CRC read through the 256-entry table
  is the bit-by-bit CRC-32 with reflected polynomial EDB88320. Adler-32, which reduces its
  32-bit sums only every 5552 bytes, equals the pair of sums reduced modulo 65521 after every
  byte, so no sum ever wraps.
\<close>

theorem checksums_match_reference:
  "crc_finish (crc_update data crc_new) = crc_bitwise data 0xFFFFFFFF XOR 0xFFFFFFFF \<and>
   unat (adler32 data) = (let (a, b) = adler_spec data (1, 0) in b * 65536 + a)"
  using crc_update_bitwise [of crc_new data] adler32_spec [of data] by (simp add: crc_finish_def crc_new_def)

end
