(* ===== verification/Plugin_Icon.thy ===== *)
theory Plugin_Icon
  imports Png
begin

text \<open>
  \<open>crates/ac-plugin-icon/src/lib.rs\<close>: the rules a plugin's icon must meet and the PNG decoder.
  The inflater is not in the repository: it is the argument \<open>miniz\<close> (data and output limit to
  the output, or the status it failed with). Sizes declared by a header are natural numbers; the
  decoder computes them only for pictures of at most 4096 pixels a side, so the 64-bit
  arithmetic of the source cannot overflow.
\<close>

section \<open>Types\<close>

record plugin_icon =
  ic_width :: u32
  ic_height :: u32
  ic_rgba :: bytes

definition ICON_EXTENT :: u32 where "ICON_EXTENT = 64"
definition ICON_MAXIMUM_BYTES :: nat where "ICON_MAXIMUM_BYTES = 64 * 1024"
definition ICON_SIGNATURE :: bytes where "ICON_SIGNATURE = [137, 80, 78, 71, 13, 10, 26, 10]"
definition MAXIMUM_DECODE_EXTENT :: u32 where "MAXIMUM_DECODE_EXTENT = 4096"

datatype icon_error =
    TooLarge | NotPng | MalformedHeader | WrongSize | IconTruncated | ChunkLength | NoEnd
  | Animated | TrailingData | DataTooLarge | DataInvalid

datatype inflate_status = HasMoreOutput | OtherStatus

type_synonym inflater = "bytes \<Rightarrow> nat \<Rightarrow> inflate_status + bytes"

definition from_be32 :: "bytes \<Rightarrow> u32" where
  "from_be32 b = from_le (rev b)"

definition from_be16 :: "bytes \<Rightarrow> u16" where
  "from_be16 b = from_le (rev b)"

section \<open>Chunks and sizes\<close>

definition chunk_header :: "bytes \<Rightarrow> nat \<Rightarrow> icon_error + nat \<times> bytes \<times> nat" where
  "chunk_header d offset =
     (if length d < offset + 8 then Inl IconTruncated
      else let header = subslice d offset (offset + 8);
               declared = from_be32 (take 4 header)
           in if declared > 0x7FFFFFFF then Inl ChunkLength
              else let len = unat declared; data_offset = offset + 8; end = data_offset + len + 4
                   in if end > length d then Inl IconTruncated
                      else Inr (len, drop 4 header, data_offset))"

definition is_allowed_depth :: "u8 \<Rightarrow> u8 \<Rightarrow> bool" where
  "is_allowed_depth color_type bit_depth \<longleftrightarrow>
     (if color_type = 0 then bit_depth = 1 \<or> bit_depth = 2 \<or> bit_depth = 4 \<or> bit_depth = 8 \<or> bit_depth = 16
      else if color_type = 3 then bit_depth = 1 \<or> bit_depth = 2 \<or> bit_depth = 4 \<or> bit_depth = 8
      else if color_type = 2 \<or> color_type = 4 \<or> color_type = 6 then bit_depth = 8 \<or> bit_depth = 16
      else False)"

definition ADAM7 :: "(nat \<times> nat \<times> nat \<times> nat) list" where
  "ADAM7 = [(0, 0, 8, 8), (4, 0, 8, 8), (0, 4, 4, 8), (2, 0, 4, 4), (0, 2, 2, 4), (1, 0, 2, 2), (0, 1, 1, 2)]"

definition icon_channels :: "u8 \<Rightarrow> nat" where
  "icon_channels color_type =
     (if color_type = 0 \<or> color_type = 3 then 1 else if color_type = 2 then 3 else if color_type = 4 then 2 else 4)"

definition div_ceil :: "nat \<Rightarrow> nat \<Rightarrow> nat" where
  "div_ceil a b = (a + b - 1) div b"

definition scanline_bytes :: "nat \<Rightarrow> nat \<Rightarrow> nat" where
  "scanline_bytes width bits_per_pixel = 1 + div_ceil (width * bits_per_pixel) 8"

text \<open>The columns (rows) of a pass: from \<open>start\<close> in steps of \<open>step\<close>.\<close>

definition pass_extent :: "nat \<Rightarrow> nat \<Rightarrow> nat \<Rightarrow> nat" where
  "pass_extent extent start step = (if extent > start then div_ceil (extent - start) step else 0)"

definition expected_raw_size :: "u32 \<Rightarrow> u32 \<Rightarrow> u8 \<Rightarrow> u8 \<Rightarrow> u8 \<Rightarrow> nat" where
  "expected_raw_size width height color_type bit_depth interlace =
     (let bits = icon_channels color_type * unat bit_depth; width = unat width; height = unat height
      in if interlace = 0 then scanline_bytes width bits * height
         else sum_list (map (\<lambda>(x_start, y_start, x_step, y_step).
                let pass_width = pass_extent width x_start x_step; pass_height = pass_extent height y_start y_step
                in if pass_width > 0 \<and> pass_height > 0 then scanline_bytes pass_width bits * pass_height else 0) ADAM7))"

definition icon_inflate :: "inflater \<Rightarrow> bytes \<Rightarrow> nat \<Rightarrow> icon_error + bytes" where
  "icon_inflate miniz data expected =
     (let limit = min (expected + 1) (2 ^ 64 - 1)
      in case miniz data limit of
           Inr output \<Rightarrow> if length output > expected then Inl DataTooLarge else Inr output
         | Inl HasMoreOutput \<Rightarrow> Inl DataTooLarge
         | Inl _ \<Rightarrow> Inl DataInvalid)"

lemma chunk_header_Inr:
  "chunk_header d offset = Inr (len, kind, data) \<Longrightarrow> data = offset + 8 \<and> data + len + 4 \<le> length d"
  by (auto simp: chunk_header_def Let_def split: if_splits)

section \<open>The rules\<close>

text \<open>The loop over the chunks after the header: the image data and where \<open>IEND\<close> stops.\<close>

function validate_chunks :: "bytes \<Rightarrow> nat \<Rightarrow> bytes \<Rightarrow> icon_error + bytes \<times> nat" where
  "validate_chunks d offset idat =
     (if offset \<ge> length d then Inl NoEnd
      else case chunk_header d offset of
             Inl e \<Rightarrow> Inl e
           | Inr (len, kind, data_offset) \<Rightarrow>
               if kind = [0x61, 0x63, 0x54, 0x4C] then Inl Animated
               else let idat = (if kind = IDAT then idat @ subslice d data_offset (data_offset + len) else idat);
                        offset = data_offset + len + 4
                    in if kind = IEND then Inr (idat, offset) else validate_chunks d offset idat)"
  by pat_completeness auto
termination
  by (relation "measure (\<lambda>(d, offset, idat). length d - offset)") (auto dest: chunk_header_Inr)

declare validate_chunks.simps [simp del]

definition validate_icon :: "inflater \<Rightarrow> bytes \<Rightarrow> icon_error + unit" where
  "validate_icon miniz d =
     (if length d > ICON_MAXIMUM_BYTES then Inl TooLarge
      else if length d < length ICON_SIGNATURE \<or> take 8 d \<noteq> ICON_SIGNATURE then Inl NotPng
      else case chunk_header d 8 of
             Inl e \<Rightarrow> Inl e
           | Inr (len, kind, data_offset) \<Rightarrow>
               if kind \<noteq> IHDR \<or> len \<noteq> 13 then Inl MalformedHeader
               else
                 let ihdr = subslice d data_offset (data_offset + 13);
                     width = from_be32 (subslice ihdr 0 4); height = from_be32 (subslice ihdr 4 8);
                     bit_depth = ihdr ! 8; color_type = ihdr ! 9; interlace = ihdr ! 12
                 in if width \<noteq> ICON_EXTENT \<or> height \<noteq> ICON_EXTENT then Inl WrongSize
                    else if \<not> is_allowed_depth color_type bit_depth \<or> ihdr ! 10 \<noteq> 0 \<or> ihdr ! 11 \<noteq> 0 \<or> interlace > 1
                    then Inl MalformedHeader
                    else case validate_chunks d (data_offset + len + 4) [] of
                           Inl e \<Rightarrow> Inl e
                         | Inr (idat, offset) \<Rightarrow>
                             if offset \<noteq> length d then Inl TrailingData
                             else map_sum id (\<lambda>_. ())
                                    (icon_inflate miniz idat (expected_raw_size width height color_type bit_depth interlace)))"

section \<open>Samples\<close>

record icon_header =
  ih_width :: u32
  ih_height :: u32
  ih_bit_depth :: u8
  ih_color_type :: u8
  ih_interlace :: u8

definition ih_channels :: "icon_header \<Rightarrow> nat" where
  "ih_channels h = icon_channels (ih_color_type h)"

definition ih_bits_per_pixel :: "icon_header \<Rightarrow> nat" where
  "ih_bits_per_pixel h = ih_channels h * unat (ih_bit_depth h)"

text \<open>\<open>i16\<close> arithmetic on bytes cannot overflow; the integers stand for it.\<close>

definition paeth :: "u8 \<Rightarrow> u8 \<Rightarrow> u8 \<Rightarrow> u8" where
  "paeth a b c =
     (let p = uint a + uint b - uint c; pa = \<bar>p - uint a\<bar>; pb = \<bar>p - uint b\<bar>; pc = \<bar>p - uint c\<bar>
      in if pa \<le> pb \<and> pa \<le> pc then a else if pb \<le> pc then b else c)"

text \<open>One step of the loop over a line; \<open>None\<close> is the early return of an unknown filter.\<close>

definition predictor :: "u8 \<Rightarrow> nat \<Rightarrow> bytes \<Rightarrow> bytes \<Rightarrow> nat \<Rightarrow> u8 option" where
  "predictor filt pixel_bytes previous current index =
     (let left = (if index \<ge> pixel_bytes then current ! (index - pixel_bytes) else 0);
          up = previous ! index;
          up_left = (if index \<ge> pixel_bytes then previous ! (index - pixel_bytes) else 0)
      in if filt = 0 then Some 0
         else if filt = 1 then Some left
         else if filt = 2 then Some up
         else if filt = 3 then Some (ucast ((ucast left + ucast up :: u16) div 2))
         else if filt = 4 then Some (paeth left up up_left)
         else None)"

fun unfilter_line :: "u8 \<Rightarrow> nat \<Rightarrow> bytes \<Rightarrow> bytes \<Rightarrow> nat list \<Rightarrow> bytes \<Rightarrow> bytes option" where
  "unfilter_line filt pixel_bytes previous line [] current = Some current"
| "unfilter_line filt pixel_bytes previous line (index # is) current =
     (case predictor filt pixel_bytes previous current index of
        None \<Rightarrow> None
      | Some p \<Rightarrow> unfilter_line filt pixel_bytes previous line is (current[index := line ! index + p]))"

definition read_sample :: "bytes \<Rightarrow> nat \<Rightarrow> u8 \<Rightarrow> u16" where
  "read_sample line index bit_depth =
     (if bit_depth = 16 then from_be16 [line ! (index * 2), line ! (index * 2 + 1)]
      else if bit_depth = 8 then ucast (line ! index)
      else let depth = unat bit_depth; bit = index * depth; byte = line ! (bit div 8);
               shift = 8 - depth - bit mod 8
           in ucast (drop_bit shift byte AND (push_bit depth 1 - 1)))"

text \<open>The samples of one row, into their places; \<open>None\<close> when a place is outside.\<close>

fun place_row ::
  "icon_header \<Rightarrow> bytes \<Rightarrow> nat \<Rightarrow> nat \<Rightarrow> nat \<Rightarrow> (nat \<times> nat) list \<Rightarrow> u16 list \<Rightarrow> u16 list option" where
  "place_row h current y x0 dx [] samples = Some samples"
| "place_row h current y x0 dx ((column, channel) # ps) samples =
     (let x = x0 + column * dx;
          sample_index = column * ih_channels h + channel;
          value = read_sample current sample_index (ih_bit_depth h);
          at = (y * unat (ih_width h) + x) * ih_channels h + channel
      in if at < length samples then place_row h current y x0 dx ps (samples[at := value]) else None)"

definition row_places :: "nat \<Rightarrow> nat \<Rightarrow> (nat \<times> nat) list" where
  "row_places pass_width channels = concat (map (\<lambda>column. map (Pair column) [0..<channels]) [0..<pass_width])"

text \<open>The loop over the rows of an image or pass.\<close>

fun unfilter_rows ::
  "icon_header \<Rightarrow> bytes \<Rightarrow> nat \<times> nat \<times> nat \<times> nat \<Rightarrow> nat \<Rightarrow> nat list \<Rightarrow>
   nat \<times> bytes \<times> bytes \<times> u16 list \<Rightarrow> (nat \<times> u16 list) option" where
  "unfilter_rows h raw pass pass_width [] (pos, previous, current, samples) = Some (pos, samples)"
| "unfilter_rows h raw (x0, y0, dx, dy) pass_width (row # rows) (pos, previous, current, samples) =
     (let bits = ih_bits_per_pixel h; stride = div_ceil (pass_width * bits) 8;
          pixel_bytes = max (div_ceil bits 8) 1
      in if pos \<ge> length raw then None
         else let filt = raw ! pos
              in if pos + 1 + stride > length raw then None
                 else let line = subslice raw (pos + 1) (pos + 1 + stride);
                          pos = pos + (1 + stride)
                      in case unfilter_line filt pixel_bytes previous line [0..<stride] current of
                           None \<Rightarrow> None
                         | Some current \<Rightarrow>
                             (case place_row h current (y0 + row * dy) x0 dx (row_places pass_width (ih_channels h)) samples of
                                None \<Rightarrow> None
                              | Some samples \<Rightarrow>
                                  unfilter_rows h raw (x0, y0, dx, dy) pass_width rows (pos, current, previous, samples)))"

definition unfilter_into ::
  "icon_header \<Rightarrow> bytes \<Rightarrow> nat \<Rightarrow> nat \<times> nat \<times> nat \<times> nat \<Rightarrow> nat \<Rightarrow> nat \<Rightarrow> u16 list \<Rightarrow> (nat \<times> u16 list) option" where
  "unfilter_into h raw start pass pass_width pass_height samples =
     (let stride = div_ceil (pass_width * ih_bits_per_pixel h) 8
      in unfilter_rows h raw pass pass_width [0..<pass_height]
           (start, replicate stride 0, replicate stride 0, samples))"

fun unfilter_passes ::
  "icon_header \<Rightarrow> bytes \<Rightarrow> (nat \<times> nat \<times> nat \<times> nat) list \<Rightarrow> nat \<times> u16 list \<Rightarrow> (nat \<times> u16 list) option" where
  "unfilter_passes h raw [] (consumed, samples) = Some (consumed, samples)"
| "unfilter_passes h raw ((x0, y0, dx, dy) # passes) (consumed, samples) =
     (let pass_width = pass_extent (unat (ih_width h)) x0 dx; pass_height = pass_extent (unat (ih_height h)) y0 dy
      in if pass_width = 0 \<or> pass_height = 0 then unfilter_passes h raw passes (consumed, samples)
         else case unfilter_into h raw consumed (x0, y0, dx, dy) pass_width pass_height samples of
                None \<Rightarrow> None
              | Some (consumed, samples) \<Rightarrow> unfilter_passes h raw passes (consumed, samples))"

section \<open>Colours\<close>

definition to_8 :: "u16 \<Rightarrow> u8 \<Rightarrow> u8" where
  "to_8 value bit_depth =
     (if bit_depth = 16 then ucast (drop_bit 8 value)
      else if bit_depth = 8 then ucast value
      else let maximum = push_bit (unat bit_depth) 1 - 1 :: u16
           in ucast ((ucast value * 255 + ucast maximum div 2 :: u32) div ucast maximum))"

definition transparency_key :: "bytes \<Rightarrow> nat \<Rightarrow> u16 option" where
  "transparency_key transparency index =
     (if length transparency < index * 2 + 2 then None
      else Some (from_be16 (subslice transparency (index * 2) (index * 2 + 2))))"

definition pixel_rgba ::
  "icon_header \<Rightarrow> u16 list \<Rightarrow> bytes list \<Rightarrow> bytes \<Rightarrow> nat \<Rightarrow> bytes option" where
  "pixel_rgba h samples palette transparency pixel =
     (let depth = ih_bit_depth h; key = transparency_key transparency
      in if ih_color_type h = 0
         then let gray = samples ! pixel; level = to_8 gray depth; alpha = (if key 0 = Some gray then 0 else 255)
              in Some [level, level, level, alpha]
         else if ih_color_type h = 2
         then let rgb = subslice samples (pixel * 3) (pixel * 3 + 3);
                  alpha = (if key 0 = Some (rgb ! 0) \<and> key 1 = Some (rgb ! 1) \<and> key 2 = Some (rgb ! 2) then 0 else 255)
              in Some [to_8 (rgb ! 0) depth, to_8 (rgb ! 1) depth, to_8 (rgb ! 2) depth, alpha]
         else if ih_color_type h = 3
         then let index = unat (samples ! pixel)
              in if index < length palette
                 then let color = palette ! index; alpha = (if index < length transparency then transparency ! index else 255)
                      in Some [color ! 0, color ! 1, color ! 2, alpha]
                 else None
         else if ih_color_type h = 4
         then let level = to_8 (samples ! (pixel * 2)) depth; alpha = to_8 (samples ! (pixel * 2 + 1)) depth
              in Some [level, level, level, alpha]
         else if ih_color_type h = 6
         then Some (map (\<lambda>value. to_8 value depth) (subslice samples (pixel * 4) (pixel * 4 + 4)))
         else None)"

fun rgba_pixels ::
  "icon_header \<Rightarrow> u16 list \<Rightarrow> bytes list \<Rightarrow> bytes \<Rightarrow> nat list \<Rightarrow> bytes option" where
  "rgba_pixels h samples palette transparency [] = Some []"
| "rgba_pixels h samples palette transparency (pixel # pixels) =
     (case pixel_rgba h samples palette transparency pixel of
        None \<Rightarrow> None
      | Some p \<Rightarrow> map_option ((@) p) (rgba_pixels h samples palette transparency pixels))"

definition to_rgba :: "icon_header \<Rightarrow> u16 list \<Rightarrow> bytes list \<Rightarrow> bytes \<Rightarrow> bytes option" where
  "to_rgba h samples palette transparency =
     rgba_pixels h samples palette transparency [0..<unat (ih_width h * ih_height h)]"

section \<open>Decoding\<close>

record icon_chunks =
  ck_header :: "icon_header option"
  ck_palette :: "bytes list"
  ck_transparency :: bytes
  ck_data :: bytes

definition PLTE :: bytes where "PLTE = [0x50, 0x4C, 0x54, 0x45]"
definition tRNS :: bytes where "tRNS = [0x74, 0x52, 0x4E, 0x53]"

text \<open>The match on a chunk's kind, up to \<open>IEND\<close>; \<open>None\<close> rejects the file.\<close>

definition take_chunk :: "bytes \<Rightarrow> bytes \<Rightarrow> icon_chunks \<Rightarrow> icon_chunks option" where
  "take_chunk kind body k =
     (if kind = IHDR \<and> length body = 13
      then if body ! 10 \<noteq> 0 \<or> body ! 11 \<noteq> 0 \<or> body ! 12 > 1 then None
           else Some (k\<lparr>ck_header := Some \<lparr>ih_width = from_be32 (subslice body 0 4), ih_height = from_be32 (subslice body 4 8),
                         ih_bit_depth = body ! 8, ih_color_type = body ! 9, ih_interlace = body ! 12\<rparr>\<rparr>)
      else if kind = PLTE then Some (k\<lparr>ck_palette := chunks_exact 3 body\<rparr>)
      else if kind = tRNS then Some (k\<lparr>ck_transparency := body\<rparr>)
      else if kind = IDAT then Some (k\<lparr>ck_data := ck_data k @ body\<rparr>)
      else Some k)"

function decode_chunks :: "bytes \<Rightarrow> nat \<Rightarrow> icon_chunks \<Rightarrow> icon_chunks option" where
  "decode_chunks d offset k =
     (if \<not> offset + 8 \<le> length d then Some k
      else case chunk_header d offset of
             Inl _ \<Rightarrow> None
           | Inr (len, kind, start) \<Rightarrow>
               if kind = IEND then Some k
               else case take_chunk kind (subslice d start (start + len)) k of
                      None \<Rightarrow> None
                    | Some k \<Rightarrow> decode_chunks d (start + len + 4) k)"
  by pat_completeness auto
termination
  by (relation "measure (\<lambda>(d, offset, k). length d - offset)") (auto dest: chunk_header_Inr)

declare decode_chunks.simps [simp del]

definition decode_samples :: "icon_header \<Rightarrow> bytes \<Rightarrow> u16 list option" where
  "decode_samples h raw =
     (let width = unat (ih_width h); height = unat (ih_height h);
          samples = replicate (width * height * ih_channels h) 0
      in if ih_interlace h = 0 then map_option snd (unfilter_into h raw 0 (0, 0, 1, 1) width height samples)
         else map_option snd (unfilter_passes h raw ADAM7 (0, samples)))"

definition decode_png :: "inflater \<Rightarrow> bytes \<Rightarrow> plugin_icon option" where
  "decode_png miniz d =
     (if length d < 8 \<or> take 8 d \<noteq> ICON_SIGNATURE then None
      else case decode_chunks d 8 \<lparr>ck_header = None, ck_palette = [], ck_transparency = [], ck_data = []\<rparr> of
             None \<Rightarrow> None
           | Some k \<Rightarrow>
               (case ck_header k of
                  None \<Rightarrow> None
                | Some h \<Rightarrow>
                    if ih_width h = 0 \<or> ih_height h = 0 \<or> ih_width h > MAXIMUM_DECODE_EXTENT \<or>
                       ih_height h > MAXIMUM_DECODE_EXTENT \<or> \<not> is_allowed_depth (ih_color_type h) (ih_bit_depth h)
                    then None
                    else let expected = expected_raw_size (ih_width h) (ih_height h) (ih_color_type h) (ih_bit_depth h) (ih_interlace h)
                         in case icon_inflate miniz (ck_data k) expected of
                              Inl _ \<Rightarrow> None
                            | Inr raw \<Rightarrow>
                                (case decode_samples h raw of
                                   None \<Rightarrow> None
                                 | Some samples \<Rightarrow>
                                     map_option (\<lambda>rgba. \<lparr>ic_width = ih_width h, ic_height = ih_height h, ic_rgba = rgba\<rparr>)
                                       (to_rgba h samples (ck_palette k) (ck_transparency k)))))"

definition decode_icon :: "inflater \<Rightarrow> bytes \<Rightarrow> plugin_icon option" where
  "decode_icon miniz d =
     (case validate_icon miniz d of
        Inl _ \<Rightarrow> None
      | Inr _ \<Rightarrow>
          (case decode_png miniz d of
             None \<Rightarrow> None
           | Some icon \<Rightarrow> if ic_width icon = ICON_EXTENT \<and> ic_height icon = ICON_EXTENT then Some icon else None))"

end
