(* ===== verification/Icon_Filters.thy ===== *)
theory Icon_Filters
  imports Plugin_Icon
begin

text \<open>
  The row arithmetic of the icon decoder: the filters are inverted, every read of a row and
  every write of a sample is inside its array, and the seven interlace passes cover each pixel
  once.
\<close>

section \<open>Filters\<close>

text \<open>The predictions of the PNG specification, over integers and naturals.\<close>

definition nearest :: "int \<Rightarrow> u8 list \<Rightarrow> u8" where
  "nearest p xs = hd (filter (\<lambda>x. list_all (\<lambda>y. \<bar>p - uint x\<bar> \<le> \<bar>p - uint y\<bar>) xs) xs)"

definition spec_prediction :: "u8 \<Rightarrow> u8 \<Rightarrow> u8 \<Rightarrow> u8 \<Rightarrow> u8" where
  "spec_prediction filt left up up_left =
     (if filt = 1 then left
      else if filt = 2 then up
      else if filt = 3 then word_of_nat ((unat left + unat up) div 2)
      else if filt = 4 then nearest (uint left + uint up - uint up_left) [left, up, up_left]
      else 0)"

text \<open>A row filtered as the specification says, from the row above.\<close>

definition filter_line :: "u8 \<Rightarrow> nat \<Rightarrow> bytes \<Rightarrow> bytes \<Rightarrow> bytes" where
  "filter_line filt pixel_bytes previous row =
     map (\<lambda>i. row ! i - spec_prediction filt
         (if pixel_bytes \<le> i then row ! (i - pixel_bytes) else 0) (previous ! i)
         (if pixel_bytes \<le> i then previous ! (i - pixel_bytes) else 0)) [0..<length row]"

lemma paeth_nearest: "paeth a b c = nearest (uint a + uint b - uint c) [a, b, c]"
  by (auto simp: paeth_def nearest_def Let_def)

lemma average: "ucast ((ucast (a :: u8) + ucast (b :: u8) :: u16) div 2) = (word_of_nat ((unat a + unat b) div 2) :: u8)"
proof -
  have u: "unat (ucast x :: u16) = unat x" for x :: u8 by (rule unat_ucast_up) simp
  have "unat a < 256" "unat b < 256" using unsigned_less [of a, where 'a = nat] unsigned_less [of b, where 'a = nat] by simp_all
  then have "unat (ucast a + ucast b :: u16) = unat a + unat b" by (simp add: unat_word_ariths(1) u)
  then have "unat ((ucast a + ucast b :: u16) div 2) = (unat a + unat b) div 2" by (simp add: unat_div)
  then show ?thesis by (simp add: word_unat_eq_iff unat_ucast_mod unsigned_of_nat take_bit_eq_mod)
qed

lemma predictor_spec:
  "filt \<le> 4 \<Longrightarrow> predictor filt pb previous current i = Some (spec_prediction filt
     (if pb \<le> i then current ! (i - pb) else 0) (previous ! i) (if pb \<le> i then previous ! (i - pb) else 0))"
proof -
  assume "filt \<le> 4"
  then have "unat filt \<le> 4" by (simp add: word_le_nat_alt)
  then consider "unat filt = 0" | "unat filt = 1" | "unat filt = 2" | "unat filt = 3" | "unat filt = 4" by linarith
  then have "filt = 0 \<or> filt = 1 \<or> filt = 2 \<or> filt = 3 \<or> filt = 4" by cases (simp_all add: word_unat_eq_iff)
  then show ?thesis by (auto simp: predictor_def spec_prediction_def paeth_nearest average Let_def)
qed

lemma unfilter_from:
  assumes "filt \<le> 4" "0 < pb" "length row = n"
  shows "k \<le> n \<Longrightarrow> length current = n \<Longrightarrow> take k current = take k row \<Longrightarrow>
    unfilter_line filt pb previous (filter_line filt pb previous row) [k..<n] current = Some row"
proof (induction "n - k" arbitrary: k current)
  case 0
  then show ?case using assms(3) by simp
next
  case (Suc m)
  then have k: "k < n" by simp
  let ?c = "current[k := row ! k]"
  have same: "current ! j = row ! j" if "j < k" for j
    using Suc.prems(3) that by (metis nth_take)
  have "predictor filt pb previous current k = predictor filt pb previous row k"
    using same [of "k - pb"] assms(2) by (auto simp: predictor_def Let_def)
  then have step: "unfilter_line filt pb previous (filter_line filt pb previous row) [k..<n] current =
      unfilter_line filt pb previous (filter_line filt pb previous row) [Suc k..<n] ?c"
    using k assms(3) by (simp add: upt_rec [of k] predictor_spec [OF assms(1)] filter_line_def)
  have "take (Suc k) ?c = take (Suc k) row"
    using k Suc.prems assms(3) by (simp add: take_Suc_conv_app_nth)
  then show ?case using Suc.hyps Suc.prems k step by simp
qed

lemma unfilter_filter:
  "filt \<le> 4 \<Longrightarrow> 0 < pb \<Longrightarrow> length current = length row \<Longrightarrow>
     unfilter_line filt pb previous (filter_line filt pb previous row) [0..<length row] current = Some row"
  by (rule unfilter_from) simp_all

lemma filter_line_0: "filter_line 0 pb previous row = row"
  by (simp add: filter_line_def spec_prediction_def map_nth)

lemma predictor_unknown: "4 < filt \<Longrightarrow> predictor filt pb previous current i = None"
  by (auto simp: predictor_def Let_def)

section \<open>Rows stay inside\<close>

lemma unfilter_line_length:
  "unfilter_line filt pb previous line is current = Some row \<Longrightarrow> length row = length current"
  by (induction filt pb previous line "is" current rule: unfilter_line.induct) (auto split: option.splits)

lemma place_row_length: "place_row h current y x0 dx ps samples = Some samples' \<Longrightarrow> length samples' = length samples"
  by (induction h current y x0 dx ps samples rule: place_row.induct) (auto simp: Let_def split: if_splits)

lemma unfilter_rows_length:
  "unfilter_rows h raw pass w rows (pos, previous, current, samples) = Some (pos', samples') \<Longrightarrow> length samples' = length samples"
proof (induction rows arbitrary: pos previous current samples)
  case (Cons row rows)
  obtain x0 y0 dx dy where "pass = (x0, y0, dx, dy)" by (cases pass) auto
  then show ?case
    using Cons by (auto simp: Let_def dest: place_row_length split: if_splits option.splits)
qed simp

lemma unfilter_into_length:
  "unfilter_into h raw start pass w ht samples = Some (pos, samples') \<Longrightarrow> length samples' = length samples"
  by (auto simp: unfilter_into_def Let_def dest: unfilter_rows_length)

lemma unfilter_passes_length:
  "unfilter_passes h raw passes (consumed, samples) = Some (pos, samples') \<Longrightarrow> length samples' = length samples"
proof (induction passes arbitrary: consumed samples)
  case (Cons p passes)
  obtain x0 y0 dx dy where "p = (x0, y0, dx, dy)" by (cases p) auto
  then show ?case
    using Cons by (auto simp: Let_def dest: unfilter_into_length split: if_splits option.splits)
qed simp

lemma decode_samples_length:
  "decode_samples h raw = Some samples \<Longrightarrow> length samples = unat (ih_width h) * unat (ih_height h) * ih_channels h"
  by (auto simp: decode_samples_def Let_def split: if_splits dest: unfilter_into_length unfilter_passes_length)

text \<open>The bytes of a row a sample is read from.\<close>

definition sample_bytes :: "nat \<Rightarrow> u8 \<Rightarrow> nat list" where
  "sample_bytes index bit_depth =
     (if bit_depth = 16 then [index * 2, index * 2 + 1] else if bit_depth = 8 then [index]
      else [index * unat bit_depth div 8])"

lemma allowed_depths: "is_allowed_depth ct d \<Longrightarrow> d \<in> {1, 2, 4, 8, 16}"
  by (auto simp: is_allowed_depth_def split: if_splits)

lemma div_ceil_less: "i < n \<Longrightarrow> i div 8 < div_ceil n 8"
proof -
  assume "i < n"
  moreover have "i div 8 * 8 \<le> i" by simp
  ultimately have "Suc (i div 8) * 8 \<le> n + 8 - 1" by simp
  then show ?thesis unfolding div_ceil_def Suc_le_eq [symmetric] by (simp add: less_eq_div_iff_mult_less_eq)
qed

lemma flat_less: "a < n \<Longrightarrow> b < m \<Longrightarrow> a * m + b < n * (m :: nat)"
proof -
  assume "a < n" "b < m"
  then have "Suc a * m \<le> n * m" by (intro mult_le_mono1) simp
  then show ?thesis using \<open>b < m\<close> by simp
qed

lemma sample_bytes_inside:
  assumes "d \<in> {1, 2, 4, 8, 16 :: u8}" "index < n"
  shows "list_all (\<lambda>j. j < div_ceil (n * unat d) 8) (sample_bytes index d) \<and>
    (unat d < 8 \<longrightarrow> index * unat d mod 8 + unat d \<le> 8)"
proof -
  have sub: "index * unat d div 8 < div_ceil (n * unat d) 8" if "0 < unat d"
    using assms(2) that by (intro div_ceil_less) simp
  have "index * 2 mod 8 + 2 \<le> 8" "index * 4 mod 8 + 4 \<le> 8" by presburger+
  then show ?thesis
    using assms sub by (auto simp: sample_bytes_def div_ceil_def)
qed

lemma sample_place_inside:
  assumes "y < ht" "x < (w :: nat)" "c < ch"
  shows "(y * w + x) * ch + c < w * ht * ch"
proof -
  have "(y * w + x) * ch + c < (ht * w) * ch" by (intro flat_less assms)
  then show ?thesis by (simp add: ac_simps)
qed

section \<open>Interlace\<close>

text \<open>Pass \<open>i\<close> draws pixel \<open>(x, y)\<close> as its sample at \<open>(column, row)\<close>.\<close>

definition draws :: "nat \<Rightarrow> nat \<Rightarrow> nat \<times> nat \<times> nat \<Rightarrow> nat \<Rightarrow> nat \<Rightarrow> bool" where
  "draws width height p x y =
     (case p of (i, column, row) \<Rightarrow>
        i < 7 \<and> (case ADAM7 ! i of (x0, y0, dx, dy) \<Rightarrow>
          column < pass_extent width x0 dx \<and> row < pass_extent height y0 dy \<and> x = x0 + column * dx \<and> y = y0 + row * dy))"

lemma pass_extent_iff:
  assumes "0 < step"
  shows "column < pass_extent extent start step \<longleftrightarrow> start + column * step < extent"
proof (cases "start < extent")
  case True
  define n where "n = extent - start"
  have "column < (n + step - 1) div step \<longleftrightarrow> column * step < n"
    unfolding Suc_le_eq [symmetric] less_eq_div_iff_mult_less_eq [OF assms] using assms by auto
  then show ?thesis using True by (auto simp: pass_extent_def div_ceil_def n_def)
qed (auto simp: pass_extent_def)

lemma strip: "0 < s \<Longrightarrow> a < s \<Longrightarrow> (x = a + c * s) \<longleftrightarrow> x mod s = a \<and> c = x div s" for x :: nat
  by auto

lemma draws_iff:
  "x < width \<Longrightarrow> y < height \<Longrightarrow>
   draws width height (i, column, row) x y \<longleftrightarrow>
     i < 7 \<and> (case ADAM7 ! i of (x0, y0, dx, dy) \<Rightarrow>
       x mod dx = x0 \<and> y mod dy = y0 \<and> column = x div dx \<and> row = y div dy)"
proof -
  assume xy: "x < width" "y < height"
  have "i < 7 \<Longrightarrow> (case ADAM7 ! i of (x0, y0, dx, dy) \<Rightarrow> x0 < dx \<and> y0 < dy)"
    by (auto simp: ADAM7_def less_Suc_eq numeral_eq_Suc)
  then show ?thesis
    using xy by (auto simp: draws_def pass_extent_iff strip split: prod.splits)
qed

lemma one_pass:
  "a < 8 \<Longrightarrow> b < 8 \<Longrightarrow> \<exists>!i. i < 7 \<and> (case ADAM7 ! i of (x0, y0, dx, dy) \<Rightarrow> a mod dx = x0 \<and> b mod dy = y0)"
proof -
  define hits where "hits a b = filter (\<lambda>i. case ADAM7 ! i of (x0, y0, dx, dy) \<Rightarrow> a mod dx = x0 \<and> b mod dy = y0) [0..<7]" for a b :: nat
  have "list_all (\<lambda>a. list_all (\<lambda>b. length (hits a b) = 1) [0..<8]) [0..<8]"
    unfolding hits_def by code_simp
  moreover assume "a < 8" "b < 8"
  ultimately have "length (hits a b) = 1" by (simp add: list_all_iff)
  then obtain i where "hits a b = [i]" by (auto simp: length_Suc_conv)
  then have "set (hits a b) = {i}" by simp
  then show ?thesis by (auto simp: hits_def set_eq_iff)
qed

section \<open>Properties\<close>

text \<open>
  Unfiltering inverts the five filters of the PNG specification (none, sub, up, average,
  Paeth, with predictions taken over the integers), whatever the row above, the pixel size and
  the old content of the row buffer; a row with any other filter type is refused.
\<close>

theorem unfilter_inverts_filter:
  assumes "0 < pixel_bytes" "length current = length row"
  shows "if filt \<le> 4
    then unfilter_line filt pixel_bytes previous (filter_line filt pixel_bytes previous row) [0..<length row] current = Some row
    else unfilter_line filt pixel_bytes previous line (i # is) current = None"
  using unfilter_filter [OF _ assms] predictor_unknown [of filt] by (simp add: not_le)

lemma unfilter_inverts_filter_witness:
  "unfilter_line 4 1 [9, 9, 9] (filter_line 4 1 [9, 9, 9] [1, 200, 3]) [0..<length [1, 200, 3 :: u8]] [0, 0, 0] =
     Some [1, 200, 3]"
proof -
  have "0 < (1 :: nat)" "length [0, 0, 0 :: u8] = length [1, 200, 3 :: u8]" by simp_all
  from unfilter_inverts_filter [OF this, where filt = 4 and previous = "[9, 9, 9]"] show ?thesis
    unfolding if_P [OF order_refl] .
qed

text \<open>
  The seven interlace passes draw every pixel of a picture of any size exactly once: there
  is exactly one pass, column and row of that pass that lands on it.
\<close>

theorem adam7_covers_once:
  assumes "x < width" "y < height"
  shows "\<exists>!p. draws width height p x y"
proof -
  have m: "x mod 8 mod d = x mod d" "y mod 8 mod d = y mod d" if "d dvd 8" for d :: nat
    using that by (simp_all add: mod_mod_cancel)
  have "list_all (\<lambda>(x0, y0, dx, dy). dx dvd 8 \<and> dy dvd 8) ADAM7" "length ADAM7 = 7" by (simp_all add: ADAM7_def)
  then have dvd: "i < 7 \<Longrightarrow> (case ADAM7 ! i of (x0, y0, dx, dy) \<Rightarrow> dx dvd 8 \<and> dy dvd 8)" for i
    by (simp add: list_all_length)
  define Q where "Q = (\<lambda>j. j < 7 \<and> (case ADAM7 ! j of (x0, y0, dx, dy) \<Rightarrow> x mod 8 mod dx = x0 \<and> y mod 8 mod dy = y0))"
  have "\<exists>!i. Q i" unfolding Q_def by (rule one_pass) simp_all
  then obtain i where Q: "Q i" and only: "\<And>j. Q j \<Longrightarrow> j = i" by blast
  note i = conjunct1 [OF Q [unfolded Q_def]] conjunct2 [OF Q [unfolded Q_def]]
  obtain x0 y0 dx dy where pass: "ADAM7 ! i = (x0, y0, dx, dy)" by (metis prod_cases4)
  show ?thesis
  proof (rule ex1I [of _ "(i, x div dx, y div dy)"])
    show "draws width height (i, x div dx, y div dy) x y"
      using i dvd [OF i(1)] m by (simp add: draws_iff [OF assms] pass)
  next
    fix p assume p: "draws width height p x y"
    obtain j c r where j: "p = (j, c, r)" by (cases p)
    obtain x1 y1 ex ey where pass': "ADAM7 ! j = (x1, y1, ex, ey)" by (metis prod_cases4)
    have d: "j < 7" "x mod ex = x1" "y mod ey = y1" "c = x div ex" "r = y div ey"
      using p by (simp_all add: j draws_iff [OF assms] pass')
    then have "j = i" using only [of j] dvd [of j] m by (simp add: pass' Q_def)
    then show "p = (i, x div dx, y div dy)" using d pass pass' by (simp add: j)
  qed
qed

lemma adam7_covers_once_witness: "\<exists>!p. draws 5 3 p 4 2"
  by (rule adam7_covers_once) simp_all

text \<open>
  The decoder's indexing never panics: for every colour type and depth the specification
  allows, each sample of a pass of \<open>n\<close> columns is read from inside the row of
  \<open>scanline_bytes\<close> less the filter byte, a depth below 8 never shifts by a negative amount,
  and the sample of a pixel inside the picture is written inside the sample array.
\<close>

theorem samples_in_bounds:
  assumes "is_allowed_depth color_type depth" "column < n" "channel < icon_channels color_type" "x < width" "y < height"
  shows "list_all (\<lambda>j. j < scanline_bytes n (icon_channels color_type * unat depth) - 1)
      (sample_bytes (column * icon_channels color_type + channel) depth) \<and>
    (8 \<le> unat depth \<or> (column * icon_channels color_type + channel) * unat depth mod 8 + unat depth \<le> 8) \<and>
    (y * width + x) * icon_channels color_type + channel < width * height * icon_channels color_type"
proof -
  have "column * icon_channels color_type + channel < n * icon_channels color_type"
    by (rule flat_less [OF assms(2,3)])
  from sample_bytes_inside [OF allowed_depths [OF assms(1)] this] sample_place_inside [OF assms(5,4,3)]
  show ?thesis by (auto simp: scanline_bytes_def mult.assoc)
qed

lemma samples_in_bounds_witness:
  "list_all (\<lambda>j. j < scanline_bytes 5 2 - 1) (sample_bytes 4 2) \<and> (1 * 5 + 3) * 1 + 0 < 5 * 2 * (1 :: nat)"
proof -
  have "is_allowed_depth 0 2" by (simp add: is_allowed_depth_def)
  from samples_in_bounds [OF this, of 4 5 0 3 5 1 2] show ?thesis by (simp add: icon_channels_def)
qed

end
