(* ===== verification/Icon_Decode.thy ===== *)
theory Icon_Decode
  imports Icon_Filters
begin

text \<open>
  The icon decoder as a whole: what it returns is a complete picture, what it accepts as an icon
  is 64 by 64, and it reads back exactly what the PNG writer of \<open>ac-bits\<close> wrote.
\<close>

section \<open>The result is a complete picture\<close>

lemma pixel_rgba_length:
  "pixel_rgba h samples palette transparency pixel = Some p \<Longrightarrow>
   ih_color_type h \<noteq> 6 \<or> pixel * 4 + 4 \<le> length samples \<Longrightarrow> length p = 4"
  by (auto simp: pixel_rgba_def Let_def subslice_def split: if_splits)

lemma rgba_pixels_length:
  "rgba_pixels h samples palette transparency pixels = Some rgba \<Longrightarrow>
   ih_color_type h \<noteq> 6 \<or> (\<forall>p \<in> set pixels. p * 4 + 4 \<le> length samples) \<Longrightarrow> length rgba = 4 * length pixels"
proof (induction pixels arbitrary: rgba)
  case (Cons pixel pixels)
  then obtain p r where "pixel_rgba h samples palette transparency pixel = Some p"
    "rgba_pixels h samples palette transparency pixels = Some r" "rgba = p @ r"
    by (auto split: option.splits)
  then show ?case using Cons pixel_rgba_length [of h samples palette transparency pixel p] by auto
qed simp

lemma unat_pixels:
  "w \<le> MAXIMUM_DECODE_EXTENT \<Longrightarrow> v \<le> MAXIMUM_DECODE_EXTENT \<Longrightarrow> unat (w * v) = unat w * unat v"
proof -
  assume "w \<le> MAXIMUM_DECODE_EXTENT" "v \<le> MAXIMUM_DECODE_EXTENT"
  then have "unat w \<le> 4096" "unat v \<le> 4096" by (simp_all add: MAXIMUM_DECODE_EXTENT_def word_le_nat_alt)
  then have "unat w * unat v \<le> 4096 * 4096" by (rule mult_le_mono)
  then show ?thesis by (simp add: unat_word_ariths(2))
qed

definition picture_ok :: "plugin_icon \<Rightarrow> bool" where
  "picture_ok icon \<longleftrightarrow>
     0 < ic_width icon \<and> ic_width icon \<le> 4096 \<and> 0 < ic_height icon \<and> ic_height icon \<le> 4096 \<and>
     length (ic_rgba icon) = unat (ic_width icon) * unat (ic_height icon) * 4"

lemma decode_png_ok: "decode_png miniz d = Some icon \<Longrightarrow> picture_ok icon"
proof -
  assume "decode_png miniz d = Some icon"
  then obtain h :: icon_header and raw samples rgba palette transparency where k: "\<not> (ih_width h = 0 \<or> ih_height h = 0 \<or> ih_width h > MAXIMUM_DECODE_EXTENT \<or>
       ih_height h > MAXIMUM_DECODE_EXTENT \<or> \<not> is_allowed_depth (ih_color_type h) (ih_bit_depth h))"
    "decode_samples h raw = Some samples" "to_rgba h samples palette transparency = Some rgba"
    "icon = \<lparr>ic_width = ih_width h, ic_height = ih_height h, ic_rgba = rgba\<rparr>"
    by (clarsimp simp: decode_png_def Let_def split: if_splits option.splits sum.splits)
  let ?n = "unat (ih_width h) * unat (ih_height h)"
  have n: "unat (ih_width h * ih_height h) = ?n" using k(1) by (intro unat_pixels) (simp_all add: not_less)
  have "length rgba = 4 * length [0..<?n]"
    using k(3) unfolding to_rgba_def n
    by (rule rgba_pixels_length) (use decode_samples_length [OF k(2)] in \<open>auto simp: ih_channels_def icon_channels_def\<close>)
  then show ?thesis using k(1,4) by (simp add: picture_ok_def MAXIMUM_DECODE_EXTENT_def not_less word_gt_0)
qed

section \<open>Reading the writer's chunks\<close>

lemma length_png_chunk: "length kind = 4 \<Longrightarrow> length (png_chunk [] kind data) = length data + 12"
  by (simp add: png_chunk_def Let_def)

lemma chunk_header_written:
  assumes "length kind = 4" "length data \<le> 0x7FFFFFFF"
  shows "chunk_header (pre @ png_chunk [] kind data @ rest) (length pre) = Inr (length data, kind, length pre + 8)"
    "subslice (pre @ png_chunk [] kind data @ rest) (length pre + 8) (length pre + 8 + length data) = data"
proof -
  let ?n = "word_of_nat (length data) :: u32"
  obtain crc where c: "png_chunk [] kind data = be_bytes 4 ?n @ kind @ data @ be_bytes 4 (crc :: u32)"
    using assms(2) by (simp add: png_chunk_def Let_def)
  have u: "unat ?n = length data" using assms(2) by (intro unat_of_nat_small) simp
  have small: "\<not> 0x7FFFFFFF < ?n" using u assms(2) by (simp add: word_less_nat_alt)
  have s: "subslice (pre @ png_chunk [] kind data @ rest) (length pre) (length pre + 8) = be_bytes 4 ?n @ kind"
    using assms(1) by (simp add: subslice_def c)
  show "chunk_header (pre @ png_chunk [] kind data @ rest) (length pre) = Inr (length data, kind, length pre + 8)"
    unfolding chunk_header_def s using small assms(1) u by (simp add: c from_be32_def from_be_bytes Let_def)
  show "subslice (pre @ png_chunk [] kind data @ rest) (length pre + 8) (length pre + 8 + length data) = data"
    using assms(1) by (simp add: subslice_def c)
qed

lemma decode_chunks_step:
  assumes "length kind = 4" "length data \<le> 0x7FFFFFFF"
  shows "decode_chunks (pre @ png_chunk [] kind data @ rest) (length pre) k =
    (if kind = IEND then Some k
     else case take_chunk kind data k of
            None \<Rightarrow> None
          | Some k \<Rightarrow> decode_chunks (pre @ png_chunk [] kind data @ rest) (length pre + (length data + 12)) k)"
proof -
  have e: "length pre + 8 + length data + 4 = length pre + (length data + 12)" by simp
  define D where "D = pre @ png_chunk [] kind data @ rest"
  have D: "chunk_header D (length pre) = Inr (length data, kind, length pre + 8)"
    "subslice D (length pre + 8) (length pre + 8 + length data) = data" "length pre + 12 \<le> length D"
    using chunk_header_written [OF assms] length_png_chunk [OF assms(1), of data] by (simp_all add: D_def)
  then show ?thesis
    unfolding D_def [symmetric] by (subst decode_chunks.simps) (simp add: e split: option.split)
qed

lemma validate_chunks_step:
  assumes "length kind = 4" "length data \<le> 0x7FFFFFFF"
  shows "validate_chunks (pre @ png_chunk [] kind data @ rest) (length pre) idat =
    (if kind = [0x61, 0x63, 0x54, 0x4C] then Inl Animated
     else let idat = (if kind = IDAT then idat @ data else idat); at = length pre + (length data + 12)
          in if kind = IEND then Inr (idat, at) else validate_chunks (pre @ png_chunk [] kind data @ rest) at idat)"
proof -
  have e: "length pre + 8 + length data + 4 = length pre + (length data + 12)" by simp
  define D where "D = pre @ png_chunk [] kind data @ rest"
  have D: "chunk_header D (length pre) = Inr (length data, kind, length pre + 8)"
    "subslice D (length pre + 8) (length pre + 8 + length data) = data" "length pre + 12 \<le> length D"
    using chunk_header_written [OF assms] length_png_chunk [OF assms(1), of data] by (simp_all add: D_def)
  then show ?thesis
    unfolding D_def [symmetric] by (subst validate_chunks.simps) (simp add: e Let_def)
qed

section \<open>Reading the writer's rows\<close>

lemma row_places_eq: "0 < ch \<Longrightarrow> row_places n ch = map (\<lambda>i. (i div ch, i mod ch)) [0..<n * ch]"
proof (induction n)
  case (Suc n)
  have "map (Pair n) [0..<ch] = map (\<lambda>i. (i div ch, i mod ch)) [n * ch..<n * ch + ch]"
    using Suc.prems by (intro nth_equalityI) auto
  then show ?case
    using Suc by (simp add: row_places_def upt_add_eq_append [of 0 "n * ch" ch, simplified] add.commute [of ch])
qed (simp add: row_places_def)

text \<open>Writing the samples of a row from index \<open>k\<close> on.\<close>

lemma place_row_from:
  assumes h: "ih_bit_depth h = 8" "0 < ih_channels h" and m: "length row = m"
    and base: "base = y * unat (ih_width h) * ih_channels h"
  shows "base + m \<le> length samples \<Longrightarrow> k \<le> m \<Longrightarrow>
    place_row h row y 0 1 (map (\<lambda>i. (i div ih_channels h, i mod ih_channels h)) [k..<m]) samples =
      Some (take (base + k) samples @ map ucast (drop k row) @ drop (base + m) samples)"
proof (induction "m - k" arbitrary: k samples)
  case 0
  then show ?case using m by simp
next
  case (Suc n)
  then have k: "k < m" by simp
  let ?c = "ih_channels h" and ?s = "samples[base + k := ucast (row ! k)]"
  have i: "k div ?c * ?c + k mod ?c = k" by simp
  have at: "(y * unat (ih_width h) + k div ?c) * ?c + k mod ?c = base + k"
    by (simp add: base distrib_right add.assoc)
  have step: "place_row h row y 0 1 (map (\<lambda>i. (i div ?c, i mod ?c)) [k..<m]) samples =
      place_row h row y 0 1 (map (\<lambda>i. (i div ?c, i mod ?c)) [Suc k..<m]) ?s"
    using k Suc.prems(1) h(1) by (simp add: upt_rec [of k] Let_def at i read_sample_def del: upt_Suc)
  have "place_row h row y 0 1 (map (\<lambda>i. (i div ?c, i mod ?c)) [Suc k..<m]) ?s =
      Some (take (base + Suc k) ?s @ map ucast (drop (Suc k) row) @ drop (base + m) ?s)"
    using Suc.hyps(2) Suc.prems k by (intro Suc.hyps(1)) simp_all
  moreover have "take (base + Suc k) ?s = take (base + k) samples @ [ucast (row ! k)]"
    using Suc.prems(1) k by (simp add: take_Suc_conv_app_nth)
  moreover have "map ucast (drop k row) = (ucast (row ! k) :: u16) # map ucast (drop (Suc k) row)"
    using k m by (simp add: Cons_nth_drop_Suc [symmetric])
  ultimately show ?case using step k by simp
qed

definition rgba_header :: "u32 \<Rightarrow> u32 \<Rightarrow> icon_header" where
  "rgba_header width height =
     \<lparr>ih_width = width, ih_height = height, ih_bit_depth = 8, ih_color_type = 6, ih_interlace = 0\<rparr>"

lemma rgba_header_simps [simp]:
  "ih_width (rgba_header w v) = w" "ih_height (rgba_header w v) = v" "ih_bit_depth (rgba_header w v) = 8"
  "ih_color_type (rgba_header w v) = 6" "ih_interlace (rgba_header w v) = 0" "ih_channels (rgba_header w v) = 4"
  "ih_bits_per_pixel (rgba_header w v) = 32"
  by (simp_all add: rgba_header_def ih_channels_def icon_channels_def ih_bits_per_pixel_def)

lemma raw_lines:
  assumes "list_all (\<lambda>l. length l = n) ls" "r < length ls"
  shows "concat (map (Cons 0) ls) ! (r * (n + 1)) = (0 :: u8)"
    "subslice (concat (map (Cons 0) ls)) (r * (n + 1) + 1) (r * (n + 1) + 1 + n) = ls ! r"
    "r * (n + 1) + 1 + n \<le> length (concat (map (Cons 0) ls))"
proof -
  have ls: "ls = take r ls @ ls ! r # drop (Suc r) ls" using assms(2) by (rule id_take_nth_drop)
  have t: "list_all (\<lambda>l. length l = n) (take r ls)" "length (ls ! r) = n"
    using assms by (auto simp: list_all_length)
  have len: "length (concat (map (Cons (0 :: u8)) (take r ls))) = r * (n + 1)"
    using length_concat_lines [OF t(1), of 0] assms(2) by (simp add: mult.commute)
  have raw: "concat (map (Cons 0) ls) = concat (map (Cons 0) (take r ls)) @ 0 # ls ! r @ concat (map (Cons 0) (drop (Suc r) ls))"
    by (subst ls) simp
  show "concat (map (Cons 0) ls) ! (r * (n + 1)) = (0 :: u8)"
    unfolding raw len [symmetric] by (simp only: nth_append_length)
  show "subslice (concat (map (Cons 0) ls)) (r * (n + 1) + 1) (r * (n + 1) + 1 + n) = ls ! r"
    unfolding raw len [symmetric] using t(2) by (simp add: subslice_def)
  show "r * (n + 1) + 1 + n \<le> length (concat (map (Cons (0 :: u8)) ls))"
    unfolding raw len [symmetric] using t(2) by simp
qed

lemma length_concat_same: "list_all (\<lambda>l. length l = n) ls \<Longrightarrow> length (concat ls) = length ls * n"
  by (induction ls) auto

lemma unfilter_rows_plain:
  assumes ls: "list_all (\<lambda>l. length l = unat w * 4) ls" "length ls = v"
  defines "raw \<equiv> concat (map (Cons 0) ls)" and "n \<equiv> unat w * 4"
  shows "r \<le> v \<Longrightarrow> length previous = n \<Longrightarrow> length current = n \<Longrightarrow> length samples = v * n \<Longrightarrow>
    take (r * n) samples = map ucast (concat (take r ls)) \<Longrightarrow>
    map_option snd (unfilter_rows (rgba_header w h) raw (0, 0, 1, 1) (unat w) [r..<v] (r * (n + 1), previous, current, samples)) =
      Some (map ucast (concat ls))"
proof (induction "v - r" arbitrary: r previous current samples)
  case 0
  then show ?case using ls(2) by simp
next
  case (Suc m)
  then have r: "r < v" by simp
  have rl: "length (ls ! r) = n" using ls r by (simp add: list_all_length n_def)
  note raw = raw_lines [OF ls(1), folded raw_def n_def, of r]
  have stride: "div_ceil (unat w * 32) 8 = n" "max (div_ceil 32 8) 1 = 4" by (simp_all add: div_ceil_def n_def)
  have line: "unfilter_line 0 4 previous (ls ! r) [0..<n] current = Some (ls ! r)"
    using unfilter_filter [of 0 4 current "ls ! r" previous] rl Suc.prems(3) by (simp add: filter_line_0)
  define samples' where "samples' = take (r * n) samples @ map ucast (ls ! r) @ drop (r * n + n) samples"
  have bound: "r * n + n \<le> length samples" using r Suc.prems(4) mult_le_mono1 [of "Suc r" v n] by simp
  have place: "place_row (rgba_header w h) (ls ! r) (0 + r * 1) 0 1 (row_places (unat w) 4) samples = Some samples'"
    using place_row_from [of "rgba_header w h" "ls ! r" n "r * n" r samples 0] rl bound
    by (simp add: row_places_eq n_def mult.assoc samples'_def)
  have step: "unfilter_rows (rgba_header w h) raw (0, 0, 1, 1) (unat w) [r..<v] (r * (n + 1), previous, current, samples) =
      unfilter_rows (rgba_header w h) raw (0, 0, 1, 1) (unat w) [Suc r..<v] (Suc r * (n + 1), ls ! r, previous, samples')"
  proof -
    have "\<not> length raw \<le> r * (n + 1)" "\<not> length raw < r * (n + 1) + 1 + n" "raw ! (r * (n + 1)) = 0"
      "subslice raw (r * (n + 1) + 1) (r * (n + 1) + 1 + n) = ls ! r" "r * (n + 1) + (1 + n) = Suc r * (n + 1)"
      using raw r ls(2) by simp_all
    then show ?thesis
      unfolding upt_conv_Cons [OF r] unfilter_rows.simps Let_def rgba_header_simps stride
      using line place by (simp add: add.commute [of n] add.assoc)
  qed
  have "list_all (\<lambda>l. length l = n) (take r ls)" using ls(1) by (auto simp: n_def list_all_iff dest: in_set_takeD)
  then have "length (concat (take r ls)) = r * n" using length_concat_same r ls(2) by fastforce
  then have "take (Suc r * n) samples' = map ucast (concat (take (Suc r) ls))"
    using Suc.prems(5) rl bound r ls(2) by (simp add: samples'_def take_Suc_conv_app_nth add.commute [of n])
  moreover have "length samples' = v * n" using Suc.prems(4) rl bound by (simp add: samples'_def)
  ultimately show ?case using Suc.hyps(1) [of "Suc r" "ls ! r" previous samples'] Suc.hyps(2) Suc.prems r rl step by simp
qed

lemma decode_samples_plain:
  assumes "list_all (\<lambda>l. length l = unat w * 4) ls" "length ls = unat v"
  shows "decode_samples (rgba_header w v) (concat (map (Cons 0) ls)) = Some (map ucast (concat ls))"
proof -
  have "div_ceil (unat w * 32) 8 = unat w * 4" by (simp add: div_ceil_def)
  then have "unfilter_into (rgba_header w v) (concat (map (Cons 0) ls)) 0 (0, 0, 1, 1) (unat w) (unat v)
      (replicate (unat w * unat v * 4) 0) =
    unfilter_rows (rgba_header w v) (concat (map (Cons 0) ls)) (0, 0, 1, 1) (unat w) [0..<unat v]
      (0 * (unat w * 4 + 1), replicate (unat w * 4) 0, replicate (unat w * 4) 0, replicate (unat w * unat v * 4) 0)"
    by (simp add: unfilter_into_def Let_def)
  then show ?thesis
    using unfilter_rows_plain [OF assms, of 0 "replicate (unat w * 4) 0" "replicate (unat w * 4) 0"
        "replicate (unat w * unat v * 4) 0" v]
    by (simp add: decode_samples_def Let_def mult.assoc mult.commute [of "unat w" "unat v * 4"] mult.commute [of 4])
qed

lemma pixel_rgba_8:
  assumes "length rgba = 4 * n" "k < n"
  shows "pixel_rgba (rgba_header w v) (map ucast rgba) palette transparency k = Some (take 4 (drop (4 * k) rgba))"
proof -
  have "ucast (ucast b :: u16) = b" for b :: u8 by (rule ucast_ucast_up) simp
  then show ?thesis
    by (simp add: pixel_rgba_def Let_def subslice_def take_map drop_map to_8_def comp_def mult.commute)
qed

lemma rgba_pixels_8:
  assumes "length rgba = 4 * n"
  shows "k \<le> n \<Longrightarrow> rgba_pixels (rgba_header w v) (map ucast rgba) palette transparency [k..<n] = Some (drop (4 * k) rgba)"
proof (induction "n - k" arbitrary: k)
  case 0
  then show ?case using assms by simp
next
  case (Suc m)
  then have k: "k < n" by simp
  have "drop (4 * k) rgba = take 4 (drop (4 * k) rgba) @ drop (4 * Suc k) rgba"
    using append_take_drop_id [of 4 "drop (4 * k) rgba"] by (simp add: add.commute)
  then show ?case
    using Suc.hyps k by (simp add: upt_conv_Cons pixel_rgba_8 [OF assms k])
qed

section \<open>Reading the writer's file\<close>

definition rgba_ihdr :: "u32 \<Rightarrow> u32 \<Rightarrow> bytes" where
  "rgba_ihdr width height = be_bytes 4 width @ be_bytes 4 height @ [8, 6, 0, 0, 0]"

definition rgba_raw :: "u32 \<Rightarrow> u32 \<Rightarrow> bytes \<Rightarrow> bytes" where
  "rgba_raw width height rgba =
     concat (map (Cons 0) (take (unat height) (chunks_exact (max (unat width * 4) 1) rgba)))"

lemma encode_rgba_chunks:
  "encode_rgba width height rgba =
     PNG_SIGNATURE @ png_chunk [] IHDR (rgba_ihdr width height) @ png_chunk [] IDAT (zlib_stored (rgba_raw width height rgba)) @
       png_chunk [] IEND []"
  by (simp add: encode_rgba_def rgba_ihdr_def rgba_raw_def Let_def png_chunk_append [of "_ @ _"]
      png_chunk_append [of PNG_SIGNATURE])

lemma kinds: "length IHDR = 4" "length IDAT = 4" "length IEND = 4" "IHDR \<noteq> IEND" "IDAT \<noteq> IEND" "IDAT \<noteq> IHDR" "IDAT \<noteq> PLTE"
    "IDAT \<noteq> tRNS" "IHDR \<noteq> IDAT" "IHDR \<noteq> [0x61, 0x63, 0x54, 0x4C]" "IDAT \<noteq> [0x61, 0x63, 0x54, 0x4C]" "IEND \<noteq> [0x61, 0x63, 0x54, 0x4C]"
    "IEND \<noteq> IDAT" "length PNG_SIGNATURE = 8" "ICON_SIGNATURE = PNG_SIGNATURE"
  by (simp_all add: IHDR_def IDAT_def IEND_def PLTE_def tRNS_def PNG_SIGNATURE_def ICON_SIGNATURE_def)

lemma ihdr_parts:
  "length (rgba_ihdr w v) = 13" "from_be32 (take 4 (rgba_ihdr w v)) = w" "from_be32 (subslice (rgba_ihdr w v) 4 8) = v"
  "rgba_ihdr w v ! 8 = 8" "rgba_ihdr w v ! 9 = 6" "rgba_ihdr w v ! 10 = 0" "rgba_ihdr w v ! 11 = 0" "rgba_ihdr w v ! 12 = 0"
  by (simp_all add: rgba_ihdr_def subslice_def from_be32_def from_be_bytes nth_append)

lemma file_offsets:
  fixes w v :: u32 and z :: bytes
  assumes "length z \<le> 0x7FFFFFFF"
  defines "d \<equiv> PNG_SIGNATURE @ png_chunk [] IHDR (rgba_ihdr w v) @ png_chunk [] IDAT z @ png_chunk [] IEND []"
  shows "decode_chunks d 8 \<lparr>ck_header = None, ck_palette = [], ck_transparency = [], ck_data = []\<rparr> =
      Some \<lparr>ck_header = Some (rgba_header w v), ck_palette = [], ck_transparency = [], ck_data = z\<rparr>"
    "chunk_header d 8 = Inr (13, IHDR, 16)" "subslice d 16 29 = rgba_ihdr w v"
    "validate_chunks d 33 [] = Inr (z, length d)" "take 8 d = PNG_SIGNATURE" "length d = length z + 57"
proof -
  define c1 c2 c3 where "c1 = png_chunk [] IHDR (rgba_ihdr w v)" and "c2 = png_chunk [] IDAT z" and "c3 = png_chunk [] IEND []"
  have d: "d = PNG_SIGNATURE @ c1 @ (c2 @ c3)" "d = (PNG_SIGNATURE @ c1) @ c2 @ c3" "d = (PNG_SIGNATURE @ c1 @ c2) @ c3 @ []"
    by (simp_all add: d_def c1_def c2_def c3_def)
  have len: "length c1 = 25" "length c2 = length z + 12" "length c3 = 12"
    by (simp_all add: c1_def c2_def c3_def length_png_chunk kinds ihdr_parts(1))
  have at: "length (PNG_SIGNATURE @ c1) = 33" "length (PNG_SIGNATURE @ c1 @ c2) = length z + 45"
    by (simp_all add: len kinds)
  show "length d = length z + 57" "take 8 d = PNG_SIGNATURE" by (simp_all add: d(1) len kinds)
  have i: "length (rgba_ihdr w v) \<le> 0x7FFFFFFF" "length ([] :: bytes) \<le> 0x7FFFFFFF" by (simp_all add: ihdr_parts(1))
  show "chunk_header d 8 = Inr (13, IHDR, 16)" "subslice d 16 29 = rgba_ihdr w v"
    using chunk_header_written [OF kinds(1) i(1), of PNG_SIGNATURE "c2 @ c3"]
    unfolding d(1) c1_def by (simp_all add: kinds ihdr_parts(1))
  have v2: "validate_chunks d 33 [] = validate_chunks d (length z + 45) z"
    using validate_chunks_step [OF kinds(2) assms(1), of "PNG_SIGNATURE @ c1" c3 "[]"]
    unfolding c2_def [symmetric] d(2) [symmetric] at by (simp add: kinds Let_def add.commute)
  have v3: "validate_chunks d (length z + 45) z = Inr (z, length z + 57)"
    using validate_chunks_step [OF kinds(3) i(2), of "PNG_SIGNATURE @ c1 @ c2" "[]" z]
    unfolding c3_def [symmetric] d(3) [symmetric] at by (simp add: kinds Let_def add.commute)
  show "validate_chunks d 33 [] = Inr (z, length d)"
    using v2 v3 \<open>length d = length z + 57\<close> by simp
  let ?k0 = "\<lparr>ck_header = None, ck_palette = [], ck_transparency = [], ck_data = []\<rparr>"
  let ?k1 = "?k0\<lparr>ck_header := Some (rgba_header w v)\<rparr>" and ?k2 = "?k0\<lparr>ck_header := Some (rgba_header w v), ck_data := z\<rparr>"
  have t1: "take_chunk IHDR (rgba_ihdr w v) ?k0 = Some ?k1" by (simp add: take_chunk_def ihdr_parts rgba_header_def)
  have t2: "take_chunk IDAT z ?k1 = Some ?k2" by (simp add: take_chunk_def kinds)
  have "decode_chunks d 8 ?k0 = decode_chunks d 33 ?k1"
    using decode_chunks_step [OF kinds(1) i(1), of PNG_SIGNATURE "c2 @ c3" ?k0]
    unfolding c1_def [symmetric] d(1) [symmetric] kinds(14) ihdr_parts(1) t1 by (simp add: kinds)
  also have "\<dots> = decode_chunks d (length z + 45) ?k2"
    using decode_chunks_step [OF kinds(2) assms(1), of "PNG_SIGNATURE @ c1" c3 ?k1]
    unfolding c2_def [symmetric] d(2) [symmetric] at t2 by (simp add: kinds add.commute)
  also have "\<dots> = Some ?k2"
    using decode_chunks_step [OF kinds(3) i(2), of "PNG_SIGNATURE @ c1 @ c2" "[]" ?k2]
    unfolding c3_def [symmetric] d(3) [symmetric] at by simp
  finally show "decode_chunks d 8 ?k0 = Some \<lparr>ck_header = Some (rgba_header w v), ck_palette = [], ck_transparency = [], ck_data = z\<rparr>"
    by simp
qed

text \<open>The inflater on the stored streams of the writer, as RFC 1950 and 1951 have it.\<close>

lemma inflated:
  assumes "\<And>d n. length d \<le> n \<Longrightarrow> miniz (zlib_stored d) n = Inr d" "length d \<le> expected" "expected < 2 ^ 63"
  shows "icon_inflate miniz (zlib_stored d) expected = Inr d"
proof -
  have "length d \<le> min (expected + 1) (2 ^ 64 - 1)" using assms(2,3) by simp
  then show ?thesis using assms(1) [of d "min (expected + 1) (2 ^ 64 - 1)"] assms(2)
    by (simp add: icon_inflate_def del: min_less_iff_conj)
qed

lemma rgba_size: "expected_raw_size w v 6 8 0 = (unat w * 4 + 1) * unat v"
proof -
  have "div_ceil (unat w * 32) 8 = unat w * 4" by (simp add: div_ceil_def)
  then show ?thesis by (simp add: expected_raw_size_def scanline_bytes_def icon_channels_def Let_def)
qed

lemma small_picture:
  assumes "w \<le> (4096 :: u32)" "v \<le> (4096 :: u32)"
  shows "(unat w * 4 + 1) * unat v \<le> 67112960"
proof -
  have "unat w * 4 + 1 \<le> 16385" "unat v \<le> 4096" using assms by (simp_all add: word_le_nat_alt)
  then have "(unat w * 4 + 1) * unat v \<le> 16385 * 4096" by (rule mult_le_mono)
  then show ?thesis by simp
qed

lemma decode_written:
  assumes law: "\<And>d n. length d \<le> n \<Longrightarrow> miniz (zlib_stored d) n = Inr d"
    and size: "0 < w" "w \<le> 4096" "0 < v" "v \<le> 4096" "length rgba = unat w * 4 * unat v"
  shows "decode_png miniz (encode_rgba w v rgba) = Some \<lparr>ic_width = w, ic_height = v, ic_rgba = rgba\<rparr>"
    "length (zlib_stored (rgba_raw w v rgba)) \<le> (unat w * 4 + 1) * unat v + 5 * ((unat w * 4 + 1) * unat v div 65535 + 1) + 6"
    "icon_inflate miniz (zlib_stored (rgba_raw w v rgba)) (expected_raw_size w v 6 8 0) = Inr (rgba_raw w v rgba)"
proof -
  define ls where "ls = take (unat v) (chunks_exact (max (unat w * 4) 1) rgba)"
  note lines = png_lines [OF size(5,1), folded ls_def]
  have raw: "rgba_raw w v rgba = concat (map (Cons 0) ls)" by (simp add: rgba_raw_def ls_def)
  have len: "length (rgba_raw w v rgba) = (unat w * 4 + 1) * unat v"
    using length_concat_lines [OF lines(1), of 0] lines(2) by (simp add: raw)
  show z: "length (zlib_stored (rgba_raw w v rgba)) \<le> (unat w * 4 + 1) * unat v + 5 * ((unat w * 4 + 1) * unat v div 65535 + 1) + 6"
    using length_zlib_stored [of "rgba_raw w v rgba"] by (simp only: len)
  show inf: "icon_inflate miniz (zlib_stored (rgba_raw w v rgba)) (expected_raw_size w v 6 8 0) = Inr (rgba_raw w v rgba)"
    using small_picture [OF size(2,4)] by (intro inflated law) (simp_all add: rgba_size len)
  have "(unat w * 4 + 1) * unat v div 65535 \<le> 67112960 div 65535"
    using small_picture [OF size(2,4)] by (rule div_le_mono)
  then have zl: "length (zlib_stored (rgba_raw w v rgba)) \<le> 0x7FFFFFFF"
    using z small_picture [OF size(2,4)] by simp
  note f = file_offsets [OF zl, of w v, folded encode_rgba_chunks]
  have ok: "\<not> (w = 0 \<or> v = 0 \<or> w > MAXIMUM_DECODE_EXTENT \<or> v > MAXIMUM_DECODE_EXTENT \<or> \<not> is_allowed_depth 6 8)"
    using size by (auto simp: MAXIMUM_DECODE_EXTENT_def is_allowed_depth_def)
  have n: "unat (w * v) = unat w * unat v" using size(2,4) by (intro unat_pixels) (simp_all add: MAXIMUM_DECODE_EXTENT_def)
  have "length rgba = 4 * (unat w * unat v)" using size(5) by simp
  from rgba_pixels_8 [OF this, of 0] have "to_rgba (rgba_header w v) (map ucast rgba) [] [] = Some rgba"
    by (simp add: to_rgba_def n)
  then show "decode_png miniz (encode_rgba w v rgba) = Some \<lparr>ic_width = w, ic_height = v, ic_rgba = rgba\<rparr>"
    using ok inf f(1,5,6) decode_samples_plain [OF lines(1,2)] lines(3)
    by (simp add: decode_png_def kinds raw)
qed

lemma validate_written:
  assumes law: "\<And>d n. length d \<le> n \<Longrightarrow> miniz (zlib_stored d) n = Inr d" and size: "length rgba = 64 * 4 * 64"
  shows "validate_icon miniz (encode_rgba 64 64 rgba) = Inr ()"
proof -
  have s: "length rgba = unat (64 :: u32) * 4 * unat (64 :: u32)" using size by simp
  have p: "0 < (64 :: u32)" "(64 :: u32) \<le> 4096" by simp_all
  note w = decode_written [where miniz = miniz, OF law p p s]
  have z: "length (zlib_stored (rgba_raw 64 64 rgba)) \<le> 16459" using w(2) by simp
  then have zl: "length (zlib_stored (rgba_raw 64 64 rgba)) \<le> 0x7FFFFFFF" by simp
  note f = file_offsets [OF zl, of 64 64, folded encode_rgba_chunks]
  show ?thesis
    using z f w(3) by (simp add: validate_icon_def kinds ICON_MAXIMUM_BYTES_def ihdr_parts ICON_EXTENT_def is_allowed_depth_def Let_def)
qed

section \<open>Properties\<close>

text \<open>
  What the decoder relies on: the inflater gives back the data of every valid zlib stream (RFC 1950) of
  stored blocks (RFC 1951) when the limit allows it. Which streams are valid is what the strict reader of
  \<open>Png\<close> says, which knows nothing of the writer: it checks the header, the complement of each length, the
  final-block bits, and the Adler-32 sum of the data reduced after every byte.
\<close>

definition inflates_stored :: "inflater \<Rightarrow> bool" where
  "inflates_stored miniz \<longleftrightarrow> (\<forall>z d n. zlib_read z = Some d \<and> length d \<le> n \<longrightarrow> miniz z n = Inr d)"

lemma inflates_written: "inflates_stored miniz \<Longrightarrow> length d \<le> n \<Longrightarrow> miniz (zlib_stored d) n = Inr d"
  using zlib_read_stored [of d] unfolding inflates_stored_def by blast

text \<open>
  C37. The icon decoder reads the PNG writer. For every picture of at most 4096 by 4096 pixels,
  decoding what \<open>encode_rgba\<close> wrote gives the same width, height and pixels, and it is taken
  as an icon exactly when it is 64 by 64. The inflater is assumed to give back the data of every valid
  zlib stream of stored blocks; that the writer's streams are such streams is part of the proof.
\<close>

theorem icon_reads_writer:
  assumes "inflates_stored miniz"
    and "0 < w" "w \<le> 4096" "0 < v" "v \<le> 4096" "length rgba = unat w * 4 * unat v"
  shows "decode_png miniz (encode_rgba w v rgba) = Some \<lparr>ic_width = w, ic_height = v, ic_rgba = rgba\<rparr> \<and>
    decode_icon miniz (encode_rgba w v rgba) =
      (if w = 64 \<and> v = 64 then Some \<lparr>ic_width = w, ic_height = v, ic_rgba = rgba\<rparr> else None)"
proof -
  note law = inflates_written [OF assms(1)]
  have d: "decode_png miniz (encode_rgba w v rgba) = Some \<lparr>ic_width = w, ic_height = v, ic_rgba = rgba\<rparr>"
    by (rule decode_written(1) [where miniz = miniz, OF law assms(2-6)])
  moreover have "validate_icon miniz (encode_rgba w v rgba) = Inr ()" if "w = 64" "v = 64"
    using validate_written [where miniz = miniz and rgba = rgba, OF law] assms(6) that by simp
  ultimately show ?thesis
    by (auto simp: decode_icon_def ICON_EXTENT_def split: sum.split)
qed

text \<open>An inflater that reads exactly these streams.\<close>

definition stored_inflater :: inflater where
  "stored_inflater z n =
     (case zlib_read z of None \<Rightarrow> Inl OtherStatus | Some d \<Rightarrow> if length d \<le> n then Inr d else Inl HasMoreOutput)"

lemma stored_inflater_inflates: "inflates_stored stored_inflater"
  by (simp add: inflates_stored_def stored_inflater_def)

lemma icon_reads_writer_witness:
  "inflates_stored stored_inflater \<and>
   decode_png stored_inflater (encode_rgba 1 2 [1, 2, 3, 4, 5, 6, 7, 8]) =
     Some \<lparr>ic_width = 1, ic_height = 2, ic_rgba = [1, 2, 3, 4, 5, 6, 7, 8]\<rparr> \<and>
   decode_icon stored_inflater (encode_rgba 1 2 [1, 2, 3, 4, 5, 6, 7, 8]) = None"
  using icon_reads_writer [OF stored_inflater_inflates, of 1 2 "[1, 2, 3, 4, 5, 6, 7, 8]"] stored_inflater_inflates by simp

text \<open>
  Whatever the file and whatever the inflater returns, a decoded picture is complete: both
  sides between 1 and 4096 pixels and exactly four bytes for every pixel; an icon is moreover
  64 by 64 with 16384 bytes, and its file kept every rule of \<open>validate_icon\<close>.
\<close>

theorem decoded_pictures_complete:
  "(case decode_png miniz d of None \<Rightarrow> True | Some icon \<Rightarrow> picture_ok icon) \<and>
   (case decode_icon miniz d of
      None \<Rightarrow> True
    | Some icon \<Rightarrow> validate_icon miniz d = Inr () \<and> length d \<le> 65536 \<and> ic_width icon = 64 \<and> ic_height icon = 64 \<and>
        length (ic_rgba icon) = 16384)"
proof -
  have "length d \<le> 65536" if "validate_icon miniz d = Inr ()"
    using that by (simp add: validate_icon_def ICON_MAXIMUM_BYTES_def split: if_splits)
  then show ?thesis
    using decode_png_ok [of miniz d]
    by (auto simp: decode_icon_def picture_ok_def ICON_EXTENT_def split: option.split sum.splits if_splits)
qed

end
