(* ===== verification/Chess.thy ===== *)
theory Chess
  imports Net_Prelude
begin

text \<open>
  \<open>crates/ac-core/src/chess.rs\<close>: a chess position and the rules for moving in it. Coordinates
  and results are \<open>int\<close>: every coordinate is checked to be on the board before it is used in
  arithmetic, so the 32-bit operations cannot overflow.
\<close>

section \<open>Pieces, squares, results\<close>

definition SIZE :: int where "SIZE = 8"

datatype chess_team = White | Black

definition team_from_wire :: "int \<Rightarrow> chess_team option" where
  "team_from_wire t = (if t = 0 then Some White else if t = 1 then Some Black else None)"

definition team_wire :: "chess_team \<Rightarrow> int" where
  "team_wire t = (case t of White \<Rightarrow> 0 | Black \<Rightarrow> 1)"

definition opponent :: "chess_team \<Rightarrow> chess_team" where
  "opponent t = (case t of White \<Rightarrow> Black | Black \<Rightarrow> White)"

datatype piece_type = Pawn | Rook | Knight | Bishop | Queen | King

record chess_piece =
  cp_type :: piece_type
  cp_team :: chess_team
  cp_moved :: bool

definition piece_new :: "piece_type \<Rightarrow> chess_team \<Rightarrow> chess_piece" where
  "piece_new k t = \<lparr>cp_type = k, cp_team = t, cp_moved = False\<rparr>"

definition piece_moved :: "piece_type \<Rightarrow> chess_team \<Rightarrow> bool \<Rightarrow> chess_piece" where
  "piece_moved k t m = \<lparr>cp_type = k, cp_team = t, cp_moved = m\<rparr>"

record chess_square =
  sq_x :: int
  sq_y :: int

definition square :: "int \<Rightarrow> int \<Rightarrow> chess_square" where
  "square x y = \<lparr>sq_x = x, sq_y = y\<rparr>"

definition on_board :: "chess_square \<Rightarrow> bool" where
  "on_board s \<longleftrightarrow> 0 \<le> sq_x s \<and> sq_x s < SIZE \<and> 0 \<le> sq_y s \<and> sq_y s < SIZE"

type_synonym move_result = int

definition RESULT_NONE :: move_result where "RESULT_NONE = 0"
definition MOVED_TO_EMPTY_SQUARE :: move_result where "MOVED_TO_EMPTY_SQUARE = 0x0001"
definition CAPTURED :: move_result where "CAPTURED = 0x0002"
definition CAPTURED_EN_PASSANT :: move_result where "CAPTURED_EN_PASSANT = 0x0003"
definition CHECK :: move_result where "CHECK = 0x0400"
definition CHECKMATE :: move_result where "CHECKMATE = 0x0800"
definition PROMOTION :: move_result where "PROMOTION = 0x1000"
definition INVALID_COMMAND :: move_result where "INVALID_COMMAND = - 1"
definition NOT_PLAYING :: move_result where "NOT_PLAYING = - 2"
definition NOT_YOUR_TURN :: move_result where "NOT_YOUR_TURN = - 3"
definition BAD_DIRECTION :: move_result where "BAD_DIRECTION = - 100"
definition BAD_DISTANCE :: move_result where "BAD_DISTANCE = - 101"
definition NO_PIECE :: move_result where "NO_PIECE = - 102"
definition NOT_YOURS :: move_result where "NOT_YOURS = - 103"
definition OFF_BOARD :: move_result where "OFF_BOARD = - 104"
definition WOULD_CAPTURE_OWN_PIECE :: move_result where "WOULD_CAPTURE_OWN_PIECE = - 105"
definition WOULD_SELF_CHECK :: move_result where "WOULD_SELF_CHECK = - 106"
definition PATH_BLOCKED :: move_result where "PATH_BLOCKED = - 107"
definition CANT_CASTLE_OUT_OF_CHECK :: move_result where "CANT_CASTLE_OUT_OF_CHECK = - 108"
definition CANT_CASTLE_THROUGH_CHECK :: move_result where "CANT_CASTLE_THROUGH_CHECK = - 109"
definition CANT_CASTLE_AFTER_MOVING :: move_result where "CANT_CASTLE_AFTER_MOVING = - 110"
definition INVALID_BOARD_STATE :: move_result where "INVALID_BOARD_STATE = - 111"
definition MOVE_KIND_MASK :: int where "MOVE_KIND_MASK = 0x03FF"

definition is_accepted :: "move_result \<Rightarrow> bool" where
  "is_accepted r \<longleftrightarrow> r > 0"

definition move_kind :: "move_result \<Rightarrow> move_result" where
  "move_kind r = (if is_accepted r then r AND MOVE_KIND_MASK else r)"

definition gives_check :: "move_result \<Rightarrow> bool" where
  "gives_check r \<longleftrightarrow> is_accepted r \<and> r AND CHECK \<noteq> 0"

definition gives_checkmate :: "move_result \<Rightarrow> bool" where
  "gives_checkmate r \<longleftrightarrow> is_accepted r \<and> r AND CHECKMATE \<noteq> 0"

definition promotes :: "move_result \<Rightarrow> bool" where
  "promotes r \<longleftrightarrow> is_accepted r \<and> r AND PROMOTION \<noteq> 0"

section \<open>The board\<close>

definition BACK_RANK :: "piece_type list" where
  "BACK_RANK = [Rook, Knight, Bishop, Queen, King, Bishop, Knight, Rook]"

definition KING_STEPS :: "(int \<times> int) list" where
  "KING_STEPS = [(1, 0), (1, 1), (0, 1), (-1, 1), (-1, 0), (-1, -1), (0, -1), (1, -1)]"

record planned_move =
  pl_from :: chess_square
  pl_to :: chess_square
  pl_captured :: "chess_square option"
  pl_rook_from :: "chess_square option"
  pl_rook_to :: "chess_square option"

definition plan_default :: planned_move where
  "plan_default = \<lparr>pl_from = square 0 0, pl_to = square 0 0, pl_captured = None, pl_rook_from = None, pl_rook_to = None\<rparr>"

definition plan_step :: "chess_square \<Rightarrow> chess_square \<Rightarrow> planned_move" where
  "plan_step f t = plan_default\<lparr>pl_from := f, pl_to := t\<rparr>"

record chess_board =
  bd_squares :: "chess_piece option list"
  bd_ep_target :: "chess_square option"
  bd_ep_victim :: chess_square
  bd_turn :: chess_team

text \<open>\<open>usize::try_from(\<dots>).unwrap_or(0)\<close>.\<close>

definition sq_index :: "chess_square \<Rightarrow> nat" where
  "sq_index s = (let i = sq_y s * SIZE + sq_x s in if i < 0 then 0 else nat i)"

definition board_get :: "chess_board \<Rightarrow> chess_square \<Rightarrow> chess_piece option" where
  "board_get b s = (if on_board s then bd_squares b ! sq_index s else None)"

text \<open>The assignment of \<open>place\<close>; \<open>chess_place\<close> adds its assertion (\<open>None\<close> is the panic).\<close>

definition put :: "chess_square \<Rightarrow> chess_piece option \<Rightarrow> chess_board \<Rightarrow> chess_board" where
  "put s p b = b\<lparr>bd_squares := (bd_squares b)[sq_index s := p]\<rparr>"

definition chess_place :: "chess_square \<Rightarrow> chess_piece option \<Rightarrow> chess_board \<Rightarrow> chess_board option" where
  "chess_place s p b = (if on_board s then Some (put s p b) else None)"

definition board_empty :: "chess_team \<Rightarrow> chess_board" where
  "board_empty t = \<lparr>bd_squares = replicate 64 None, bd_ep_target = None, bd_ep_victim = square 0 0, bd_turn = t\<rparr>"

fun set_files :: "(int \<times> piece_type) list \<Rightarrow> chess_board \<Rightarrow> chess_board" where
  "set_files [] b = b"
| "set_files ((x, back) # fs) b =
     (let b = put (square x 0) (Some (piece_new back White)) b;
          b = put (square x 1) (Some (piece_new Pawn White)) b;
          b = put (square x 6) (Some (piece_new Pawn Black)) b;
          b = put (square x 7) (Some (piece_new back Black)) b
      in set_files fs b)"

definition board_standard :: chess_board where
  "board_standard = set_files (zip [0..SIZE - 1] BACK_RANK) (board_empty White)"

definition restore_squares :: "chess_board \<Rightarrow> chess_board \<Rightarrow> chess_board" where
  "restore_squares snapshot b = b\<lparr>bd_squares := bd_squares snapshot\<rparr>"

definition board_pieces :: "chess_board \<Rightarrow> (chess_square \<times> chess_piece) list" where
  "board_pieces b =
     concat (map (\<lambda>i. let s = square (i mod SIZE) (i div SIZE)
                       in case board_get b s of None \<Rightarrow> [] | Some p \<Rightarrow> [(s, p)]) [0..SIZE * SIZE - 1])"

section \<open>How pieces move\<close>

definition can_go_to :: "chess_piece \<Rightarrow> int \<Rightarrow> int \<Rightarrow> bool" where
  "can_go_to piece dx forward =
     (let ax = \<bar>dx\<bar>; af = \<bar>forward\<bar>
      in case cp_type piece of
           Pawn \<Rightarrow> dx = 0 \<and> (forward = 1 \<or> forward = 2 \<and> \<not> cp_moved piece)
         | Rook \<Rightarrow> (dx \<noteq> 0) \<noteq> (forward \<noteq> 0)
         | Knight \<Rightarrow> ax = 1 \<and> af = 2 \<or> ax = 2 \<and> af = 1
         | Bishop \<Rightarrow> ax = af
         | Queen \<Rightarrow> dx = 0 \<or> forward = 0 \<or> ax = af
         | King \<Rightarrow> ax < 2 \<and> af < 2)"

definition can_attack :: "chess_piece \<Rightarrow> int \<Rightarrow> int \<Rightarrow> bool" where
  "can_attack piece dx forward =
     (if cp_type piece = Pawn then \<bar>dx\<bar> = 1 \<and> forward = 1 else can_go_to piece dx forward)"

definition on_line :: "int \<Rightarrow> int \<Rightarrow> bool" where
  "on_line dx dy \<longleftrightarrow> dx = 0 \<or> dy = 0 \<or> \<bar>dx\<bar> = \<bar>dy\<bar>"

text \<open>\<open>while square != to\<close>: \<open>None\<close> would be a walk that never meets \<open>to\<close>.\<close>

partial_function (option) walk_clear ::
  "chess_board \<Rightarrow> chess_square \<Rightarrow> int \<Rightarrow> int \<Rightarrow> chess_square \<Rightarrow> bool option" where
  "walk_clear b to sx sy s =
     (if s = to then Some True
      else if board_get b s \<noteq> None then Some False
      else walk_clear b to sx sy (square (sq_x s + sx) (sq_y s + sy)))"

declare walk_clear.simps [code]

definition path_is_clear :: "chess_board \<Rightarrow> chess_square \<Rightarrow> chess_square \<Rightarrow> bool" where
  "path_is_clear b from to =
     (let dx = sq_x to - sq_x from; dy = sq_y to - sq_y from
      in if \<not> on_line dx dy then True
         else let sx = sgn dx; sy = sgn dy
              in the (walk_clear b to sx sy (square (sq_x from + sx) (sq_y from + sy))))"

text \<open>\<open>refuse(r)\<close>.\<close>

definition refuse :: "move_result \<Rightarrow> move_result \<times> planned_move" where
  "refuse r = (r, plan_default)"

text \<open>The end of \<open>plan_reach\<close>: the path, then promotion.\<close>

definition finish_reach ::
  "chess_board \<Rightarrow> chess_square \<Rightarrow> chess_square \<Rightarrow> chess_piece \<Rightarrow> move_result \<Rightarrow> chess_square option \<Rightarrow>
   move_result \<times> planned_move" where
  "finish_reach b from to piece kind captured =
     (if \<not> path_is_clear b from to then refuse PATH_BLOCKED
      else (if cp_type piece = Pawn \<and> (sq_y to = 0 \<or> sq_y to = SIZE - 1) then kind OR PROMOTION else kind,
            (plan_step from to)\<lparr>pl_captured := captured\<rparr>))"

definition plan_reach ::
  "chess_board \<Rightarrow> chess_square \<Rightarrow> chess_square \<Rightarrow> chess_piece \<Rightarrow> bool \<Rightarrow> move_result \<times> planned_move" where
  "plan_reach b from to piece allow_en_passant =
     (if \<not> on_board to then refuse OFF_BOARD
      else
        let dx = sq_x to - sq_x from;
            forward = (if cp_team piece = White then sq_y to - sq_y from else sq_y from - sq_y to)
        in if allow_en_passant \<and> cp_type piece = Pawn \<and> bd_ep_target b = Some to \<and> can_attack piece dx forward \<and>
              (case board_get b (bd_ep_victim b) of None \<Rightarrow> False | Some v \<Rightarrow> cp_type v = Pawn)
           then finish_reach b from to piece CAPTURED_EN_PASSANT (Some (bd_ep_victim b))
           else case board_get b to of
                  Some target \<Rightarrow>
                    if cp_team target = cp_team piece then refuse WOULD_CAPTURE_OWN_PIECE
                    else if \<not> can_attack piece dx forward then refuse BAD_DIRECTION
                    else finish_reach b from to piece CAPTURED (Some to)
                | None \<Rightarrow>
                    if \<not> can_go_to piece dx forward then refuse BAD_DIRECTION
                    else finish_reach b from to piece MOVED_TO_EMPTY_SQUARE None)"

section \<open>Making a planned move\<close>

definition is_attacked :: "chess_board \<Rightarrow> chess_square \<Rightarrow> chess_team \<Rightarrow> bool" where
  "is_attacked b s by_team =
     list_ex (\<lambda>(from, piece). cp_team piece = by_team \<and> is_accepted (fst (plan_reach b from s piece False))) (board_pieces b)"

definition king_of :: "chess_board \<Rightarrow> chess_team \<Rightarrow> (chess_square \<times> chess_piece) option" where
  "king_of b team = find (\<lambda>(_, p). cp_type p = King \<and> cp_team p = team) (board_pieces b)"

text \<open>The loop of \<open>is_in_check\<close> returns at the first king of the team.\<close>

fun check_loop :: "chess_board \<Rightarrow> chess_team \<Rightarrow> (chess_square \<times> chess_piece) list \<Rightarrow> bool" where
  "check_loop b team [] = False"
| "check_loop b team ((s, piece) # ps) =
     (if cp_type piece = King \<and> cp_team piece = team then is_attacked b s (opponent team) else check_loop b team ps)"

definition is_in_check :: "chess_board \<Rightarrow> chess_team \<Rightarrow> bool" where
  "is_in_check b team = check_loop b team (board_pieces b)"

definition chess_apply :: "planned_move \<Rightarrow> chess_board \<Rightarrow> chess_board" where
  "chess_apply plan b =
     (case board_get b (pl_from plan) of
        None \<Rightarrow> b
      | Some piece \<Rightarrow>
          let b = (case pl_captured plan of Some captured \<Rightarrow> put captured None b | None \<Rightarrow> b);
              b = put (pl_from plan) None b;
              promoted = (cp_type piece = Pawn \<and> (sq_y (pl_to plan) = 0 \<or> sq_y (pl_to plan) = SIZE - 1));
              b = put (pl_to plan)
                    (Some (piece\<lparr>cp_type := (if promoted then Queen else cp_type piece), cp_moved := True\<rparr>)) b;
              b = (case (pl_rook_from plan, pl_rook_to plan) of
                     (Some rook_from, Some rook_to) \<Rightarrow>
                       (case board_get b rook_from of
                          Some rook \<Rightarrow> put rook_to (Some (rook\<lparr>cp_moved := True\<rparr>)) (put rook_from None b)
                        | None \<Rightarrow> b)
                   | _ \<Rightarrow> b);
              b = b\<lparr>bd_ep_target := None\<rparr>
          in if cp_type piece = Pawn \<and> \<bar>sq_y (pl_to plan) - sq_y (pl_from plan)\<bar> = 2
             then b\<lparr>bd_ep_target := Some (square (sq_x (pl_from plan)) ((sq_y (pl_from plan) + sq_y (pl_to plan)) div 2)),
                    bd_ep_victim := pl_to plan\<rparr>
             else b)"

definition leaves_king_safe :: "chess_board \<Rightarrow> planned_move \<Rightarrow> chess_team \<Rightarrow> bool" where
  "leaves_king_safe b plan team \<longleftrightarrow> \<not> is_in_check (chess_apply plan b) team"

definition has_both_kings :: "chess_board \<Rightarrow> bool" where
  "has_both_kings b =
     (list_ex (\<lambda>(_, p). cp_type p = King \<and> cp_team p = White) (board_pieces b) \<and>
      list_ex (\<lambda>(_, p). cp_type p = King \<and> cp_team p = Black) (board_pieces b))"

section \<open>Castling\<close>

definition castle_at ::
  "chess_board \<Rightarrow> chess_square \<Rightarrow> chess_square \<Rightarrow> chess_piece \<Rightarrow> chess_square \<Rightarrow> chess_square \<Rightarrow> chess_piece \<Rightarrow>
   move_result \<times> planned_move" where
  "castle_at b from to king passing s other =
     (if cp_type other \<noteq> Rook \<or> cp_team other \<noteq> cp_team king then refuse PATH_BLOCKED
      else if cp_moved other then refuse CANT_CASTLE_AFTER_MOVING
      else if \<not> leaves_king_safe b (plan_step from passing) (cp_team king) then refuse CANT_CASTLE_THROUGH_CHECK
      else if \<not> leaves_king_safe b (plan_step from to) (cp_team king) then refuse WOULD_SELF_CHECK
      else (MOVED_TO_EMPTY_SQUARE, (plan_step from to)\<lparr>pl_rook_from := Some s, pl_rook_to := Some passing\<rparr>))"

text \<open>\<open>while square.is_on_board()\<close>, one file at a time to the left or right.\<close>

function castle_scan ::
  "chess_board \<Rightarrow> chess_square \<Rightarrow> chess_square \<Rightarrow> chess_piece \<Rightarrow> chess_square \<Rightarrow> bool \<Rightarrow> chess_square \<Rightarrow>
   move_result \<times> planned_move" where
  "castle_scan b from to king passing left s =
     (if \<not> on_board s then refuse NO_PIECE
      else case board_get b s of
             Some other \<Rightarrow> castle_at b from to king passing s other
           | None \<Rightarrow> castle_scan b from to king passing left (square (sq_x s + (if left then -1 else 1)) (sq_y s)))"
  by pat_completeness auto
termination
  by (relation "measure (\<lambda>(b, from, to, king, passing, left, s). nat (if left then sq_x s + 1 else SIZE - sq_x s))")
    (auto simp: on_board_def square_def)

declare castle_scan.simps [simp del]

definition plan_castle ::
  "chess_board \<Rightarrow> chess_square \<Rightarrow> chess_square \<Rightarrow> chess_piece \<Rightarrow> move_result \<times> planned_move" where
  "plan_castle b from to king =
     (if is_in_check b (cp_team king) then refuse CANT_CASTLE_OUT_OF_CHECK
      else if cp_moved king then refuse CANT_CASTLE_AFTER_MOVING
      else let left = (sq_x to < sq_x from);
               passing = square (sq_x from + (if left then -1 else 1)) (sq_y from)
           in castle_scan b from to king passing left passing)"

section \<open>Moves and mate\<close>

definition plan_move :: "chess_board \<Rightarrow> chess_square \<Rightarrow> chess_square \<Rightarrow> move_result \<times> planned_move" where
  "plan_move b from to =
     (if \<not> on_board from \<or> \<not> on_board to then refuse OFF_BOARD
      else if \<not> has_both_kings b then refuse INVALID_BOARD_STATE
      else case board_get b from of
             None \<Rightarrow> refuse NO_PIECE
           | Some piece \<Rightarrow>
               if cp_team piece \<noteq> bd_turn b then refuse NOT_YOURS
               else if cp_type piece = King \<and> \<bar>sq_x to - sq_x from\<bar> = 2 \<and> sq_y to = sq_y from
               then plan_castle b from to piece
               else let (result, plan) = plan_reach b from to piece True
                    in if is_accepted result \<and> \<not> leaves_king_safe b plan (cp_team piece) then refuse WOULD_SELF_CHECK
                       else (result, plan))"

definition squares_up_to_king :: "chess_square \<Rightarrow> chess_square \<Rightarrow> chess_square list" where
  "squares_up_to_king from king =
     (let dx = sq_x king - sq_x from; dy = sq_y king - sq_y from;
          count = (if on_line dx dy then max \<bar>dx\<bar> \<bar>dy\<bar> else 1);
          sx = sgn dx; sy = sgn dy
      in map (\<lambda>step. square (sq_x from + sx * step) (sq_y from + sy * step)) [0..count - 1])"

text \<open>A move of \<open>plan_reach\<close> that leaves the king safe.\<close>

definition answers :: "chess_board \<Rightarrow> chess_team \<Rightarrow> chess_square \<Rightarrow> chess_square \<Rightarrow> chess_piece \<Rightarrow> bool" where
  "answers b team from to piece =
     (let (result, plan) = plan_reach b from to piece True in is_accepted result \<and> leaves_king_safe b plan team)"

fun mate_loop ::
  "chess_board \<Rightarrow> chess_team \<Rightarrow> chess_square \<Rightarrow> (chess_square \<times> chess_piece) list \<Rightarrow> bool" where
  "mate_loop b team king [] = False"
| "mate_loop b team king ((from, attacker) # ps) =
     (if cp_team attacker = team \<or> \<not> is_accepted (fst (plan_reach b from king attacker False))
      then mate_loop b team king ps
      else \<not> list_ex (\<lambda>s. list_ex (\<lambda>(defender_from, defender).
                cp_team defender = team \<and> answers b team defender_from s defender) (board_pieces b))
              (squares_up_to_king from king))"

definition is_checkmated :: "chess_board \<Rightarrow> chess_team \<Rightarrow> bool" where
  "is_checkmated b team =
     (case king_of b team of
        None \<Rightarrow> False
      | Some (king, king_piece) \<Rightarrow>
          if list_ex (\<lambda>(dx, dy). answers b team king (square (sq_x king + dx) (sq_y king + dy)) king_piece) KING_STEPS
          then False
          else mate_loop b team king (board_pieces b))"

definition make_move :: "chess_square \<Rightarrow> chess_square \<Rightarrow> chess_board \<Rightarrow> move_result \<times> chess_board" where
  "make_move from to b =
     (let (result, plan) = plan_move b from to
      in if \<not> is_accepted result then (result, b)
         else let b = chess_apply plan b;
                  b = b\<lparr>bd_turn := opponent (bd_turn b)\<rparr>
              in if is_in_check b (bd_turn b)
                 then (result OR (if is_checkmated b (bd_turn b) then CHECKMATE else CHECK), b)
                 else (result, b))"

end
