(* ===== verification/Chess_Board.thy ===== *)
theory Chess_Board
  imports Chess
begin

text \<open>
  The board as a map from squares to pieces, the walk along a line, and what a planned move can
  be: the facts the invariant of the game rests on.
\<close>

section \<open>Squares\<close>

lemma square_simps [simp]: "sq_x (square x y) = x" "sq_y (square x y) = y"
  by (simp_all add: square_def)

lemma square_eq: "s = square x y \<longleftrightarrow> sq_x s = x \<and> sq_y s = y" for s :: chess_square
  by (cases s) (simp add: square_def)

lemma square_eqI: "sq_x s = sq_x t \<Longrightarrow> sq_y s = sq_y t \<Longrightarrow> s = t" for s t :: chess_square
  by simp

lemma square_self [simp]: "square (sq_x s) (sq_y s) = s" for s :: chess_square
  by (simp add: square_def)

lemma sq_index_int: "on_board s \<Longrightarrow> int (sq_index s) = sq_y s * 8 + sq_x s"
  by (simp add: sq_index_def on_board_def SIZE_def Let_def)

lemma sq_index_less: "on_board s \<Longrightarrow> sq_index s < 64"
  using sq_index_int [of s] by (simp add: on_board_def SIZE_def)

lemma sq_index_inj:
  assumes "on_board s" "on_board t"
  shows "sq_index s = sq_index t \<longleftrightarrow> s = t"
proof
  assume "sq_index s = sq_index t"
  then have "sq_y s * 8 + sq_x s = sq_y t * 8 + sq_x t" using sq_index_int assms by metis
  then have "sq_x s = sq_x t \<and> sq_y s = sq_y t" using assms unfolding on_board_def SIZE_def by presburger
  then show "s = t" by simp
qed simp

definition board_ok :: "chess_board \<Rightarrow> bool" where
  "board_ok b \<longleftrightarrow> length (bd_squares b) = 64"

lemma board_ok_put [simp]: "board_ok (put s p b) \<longleftrightarrow> board_ok b"
  by (simp add: board_ok_def put_def)

lemma get_off_board: "\<not> on_board s \<Longrightarrow> board_get b s = None"
  by (simp add: board_get_def)

lemma get_on_board: "board_get b s = Some p \<Longrightarrow> on_board s"
  by (simp add: board_get_def split: if_splits)

lemma get_put:
  assumes "board_ok b" "on_board s"
  shows "board_get (put s p b) t = (if t = s then p else board_get b t)"
proof (cases "on_board t")
  case True
  then show ?thesis
    using assms sq_index_inj [OF True assms(2)] sq_index_less [OF assms(2)]
    by (auto simp: board_get_def put_def board_ok_def nth_list_update)
next
  case False
  then show ?thesis using assms(2) by (auto simp: board_get_def)
qed

lemma put_frame [simp]: "bd_turn (put s p b) = bd_turn b" "bd_ep_target (put s p b) = bd_ep_target b" "bd_ep_victim (put s p b) = bd_ep_victim b"
  by (simp_all add: put_def)

lemma get_frame [simp]: "board_get (b\<lparr>bd_ep_target := t\<rparr>) s = board_get b s" "board_get (b\<lparr>bd_ep_victim := v\<rparr>) s = board_get b s"
    "board_get (b\<lparr>bd_turn := u\<rparr>) s = board_get b s"
  by (simp_all add: board_get_def)

lemma set_board_pieces: "(s, p) \<in> set (board_pieces b) \<longleftrightarrow> board_get b s = Some p"
proof
  assume "(s, p) \<in> set (board_pieces b)"
  then show "board_get b s = Some p" by (auto simp: board_pieces_def Let_def split: option.splits)
next
  assume g: "board_get b s = Some p"
  then have on: "on_board s" by (rule get_on_board)
  define i where "i = sq_y s * SIZE + sq_x s"
  have i: "i \<in> set [0..SIZE * SIZE - 1]" "square (i mod SIZE) (i div SIZE) = s"
    using on by (auto simp: i_def on_board_def SIZE_def square_eq [symmetric] intro!: square_eqI)
  show "(s, p) \<in> set (board_pieces b)"
    unfolding board_pieces_def Let_def set_concat set_map
    by (rule UN_I [OF imageI [OF i(1)]]) (simp add: i(2) g)
qed

lemma ex_piece: "list_ex (\<lambda>(s, p). Q s p) (board_pieces b) \<longleftrightarrow> (\<exists>s p. board_get b s = Some p \<and> Q s p)"
  unfolding list_ex_iff using set_board_pieces by force

section \<open>Walking a line\<close>

text \<open>The square \<open>j\<close> steps from \<open>f\<close> towards \<open>t\<close>, and how many steps there are.\<close>

definition toward :: "chess_square \<Rightarrow> chess_square \<Rightarrow> int \<Rightarrow> chess_square" where
  "toward f t j = square (sq_x f + j * sgn (sq_x t - sq_x f)) (sq_y f + j * sgn (sq_y t - sq_y f))"

definition distance :: "chess_square \<Rightarrow> chess_square \<Rightarrow> int" where
  "distance f t = max \<bar>sq_x t - sq_x f\<bar> \<bar>sq_y t - sq_y f\<bar>"

lemma toward_end:
  assumes "on_line (sq_x t - sq_x f) (sq_y t - sq_y f)"
  shows "toward f t j = t \<longleftrightarrow> j = distance f t \<or> f = t"
proof
  assume e: "toward f t j = t"
  have "j = distance f t" if "f \<noteq> t"
  proof -
    have "sq_x t - sq_x f \<noteq> 0 \<or> sq_y t - sq_y f \<noteq> 0" using that square_eqI by auto
    then show ?thesis using e assms by (auto simp: toward_def square_eq [symmetric] distance_def on_line_def sgn_if dest!: square_eq [THEN iffD1, OF sym] split: if_splits)
  qed
  then show "j = distance f t \<or> f = t" by blast
next
  assume "j = distance f t \<or> f = t"
  then show "toward f t j = t"
  proof
    assume "j = distance f t"
    then show ?thesis using assms by (auto simp: toward_def distance_def on_line_def sgn_if intro!: square_eqI split: if_splits)
  qed (simp add: toward_def)
qed

lemma walk_clear_from:
  assumes "on_line (sq_x t - sq_x f) (sq_y t - sq_y f)" "f \<noteq> t"
  shows "1 \<le> j \<Longrightarrow> j \<le> distance f t \<Longrightarrow>
    walk_clear b t (sgn (sq_x t - sq_x f)) (sgn (sq_y t - sq_y f)) (toward f t j) =
      Some (\<forall>i \<in> {j..<distance f t}. board_get b (toward f t i) = None)"
proof (induction "nat (distance f t - j)" arbitrary: j)
  case 0
  then show ?case using toward_end [OF assms(1)] by (subst walk_clear.simps) simp
next
  case (Suc n)
  then have j: "j < distance f t" by simp
  have step: "square (sq_x (toward f t j) + sgn (sq_x t - sq_x f)) (sq_y (toward f t j) + sgn (sq_y t - sq_y f)) = toward f t (j + 1)"
    by (simp add: toward_def distrib_right)
  have ne: "toward f t j \<noteq> t" using toward_end [OF assms(1), of j] assms(2) j by simp
  have split: "{j..<distance f t} = insert j {j + 1..<distance f t}" using j by auto
  have "walk_clear b t (sgn (sq_x t - sq_x f)) (sgn (sq_y t - sq_y f)) (toward f t (j + 1)) =
      Some (\<forall>i \<in> {j + 1..<distance f t}. board_get b (toward f t i) = None)"
    using Suc.hyps Suc.prems j by simp
  then show ?case
    using ne by (subst walk_clear.simps) (simp add: step split)
qed

lemma walk_clear_start:
  assumes "on_line (sq_x t - sq_x f) (sq_y t - sq_y f)"
  shows "walk_clear b t (sgn (sq_x t - sq_x f)) (sgn (sq_y t - sq_y f))
      (square (sq_x f + sgn (sq_x t - sq_x f)) (sq_y f + sgn (sq_y t - sq_y f))) =
    Some (\<forall>i \<in> {1..<distance f t}. board_get b (toward f t i) = None)"
proof (cases "f = t")
  case True
  then show ?thesis by (subst walk_clear.simps) (simp add: distance_def)
next
  case False
  then have "sq_x f \<noteq> sq_x t \<or> sq_y f \<noteq> sq_y t" using square_eqI by blast
  then have "1 \<le> distance f t" unfolding distance_def by linarith
  from walk_clear_from [OF assms False order_refl this] show ?thesis by (simp add: toward_def)
qed

lemma path_is_clear_iff:
  "path_is_clear b f t \<longleftrightarrow>
     \<not> on_line (sq_x t - sq_x f) (sq_y t - sq_y f) \<or> (\<forall>i \<in> {1..<distance f t}. board_get b (toward f t i) = None)"
  using walk_clear_start [of t f b] by (auto simp: path_is_clear_def Let_def)

text \<open>Squares strictly inside a path are never in a corner of the board.\<close>

lemma toward_inside:
  assumes "on_board f" "on_board t" "on_line (sq_x t - sq_x f) (sq_y t - sq_y f)" "i \<in> {1..<distance f t}"
  shows "on_board (toward f t i)" "sq_x (toward f t i) \<in> {0, 7} \<Longrightarrow> sq_y (toward f t i) \<notin> {0, 7}"
  using assms by (auto simp: toward_def distance_def on_line_def on_board_def SIZE_def sgn_if split: if_splits)

section \<open>What a planned move can be\<close>

definition forward :: "chess_piece \<Rightarrow> chess_square \<Rightarrow> chess_square \<Rightarrow> int" where
  "forward piece f t = (if cp_team piece = White then sq_y t - sq_y f else sq_y f - sq_y t)"

lemma refuse_accepted [simp]: "is_accepted r \<Longrightarrow> refuse r \<noteq> (k, p) \<or> k = r"
  by (auto simp: refuse_def)

lemma refuse_Pair [simp]: "refuse r = (k, p) \<longleftrightarrow> k = r \<and> p = plan_default"
  by (auto simp: refuse_def)

lemmas refusals = BAD_DIRECTION_def NO_PIECE_def NOT_YOURS_def OFF_BOARD_def WOULD_CAPTURE_OWN_PIECE_def WOULD_SELF_CHECK_def
  PATH_BLOCKED_def CANT_CASTLE_OUT_OF_CHECK_def CANT_CASTLE_THROUGH_CHECK_def CANT_CASTLE_AFTER_MOVING_def INVALID_BOARD_STATE_def

lemma kinds_accepted: "is_accepted CAPTURED" "is_accepted CAPTURED_EN_PASSANT" "is_accepted MOVED_TO_EMPTY_SQUARE"
    "is_accepted (CAPTURED OR PROMOTION)" "is_accepted (CAPTURED_EN_PASSANT OR PROMOTION)" "is_accepted (MOVED_TO_EMPTY_SQUARE OR PROMOTION)"
  by (simp_all add: is_accepted_def CAPTURED_def CAPTURED_EN_PASSANT_def MOVED_TO_EMPTY_SQUARE_def PROMOTION_def)

lemma refused: "\<not> is_accepted BAD_DIRECTION" "\<not> is_accepted NO_PIECE" "\<not> is_accepted NOT_YOURS" "\<not> is_accepted OFF_BOARD"
    "\<not> is_accepted WOULD_CAPTURE_OWN_PIECE" "\<not> is_accepted WOULD_SELF_CHECK" "\<not> is_accepted PATH_BLOCKED"
    "\<not> is_accepted CANT_CASTLE_OUT_OF_CHECK" "\<not> is_accepted CANT_CASTLE_THROUGH_CHECK"
    "\<not> is_accepted CANT_CASTLE_AFTER_MOVING" "\<not> is_accepted INVALID_BOARD_STATE"
  by (simp_all add: is_accepted_def refusals)

lemma finish_reach_accepted:
  assumes "kind \<in> {CAPTURED, CAPTURED_EN_PASSANT, MOVED_TO_EMPTY_SQUARE}"
  shows "is_accepted (fst (finish_reach b f t piece kind c)) \<longleftrightarrow> path_is_clear b f t"
  using assms kinds_accepted by (auto simp: finish_reach_def refuse_def refused)

lemma finish_reach_plan:
  "finish_reach b f t piece kind c = (r, plan) \<Longrightarrow> is_accepted r \<Longrightarrow> plan = (plan_step f t)\<lparr>pl_captured := c\<rparr>"
  by (auto simp: finish_reach_def refused split: if_splits)

text \<open>Reaching a square without en passant.\<close>

lemma plan_reach_plain:
  "is_accepted (fst (plan_reach b f t piece False)) \<longleftrightarrow>
     on_board t \<and> path_is_clear b f t \<and>
     (case board_get b t of
        Some target \<Rightarrow> cp_team target \<noteq> cp_team piece \<and> can_attack piece (sq_x t - sq_x f) (forward piece f t)
      | None \<Rightarrow> can_go_to piece (sq_x t - sq_x f) (forward piece f t))"
  by (auto simp: plan_reach_def Let_def forward_def [symmetric] refuse_def refused finish_reach_accepted split: option.splits)

definition reaches :: "chess_board \<Rightarrow> chess_square \<Rightarrow> chess_square \<Rightarrow> chess_piece \<Rightarrow> chess_square option \<Rightarrow> bool" where
  "reaches b f t piece c \<longleftrightarrow> on_board t \<and> path_is_clear b f t \<and>
     (c = Some (bd_ep_victim b) \<and> cp_type piece = Pawn \<and> bd_ep_target b = Some t \<and>
        can_attack piece (sq_x t - sq_x f) (forward piece f t) \<and>
        (\<exists>v. board_get b (bd_ep_victim b) = Some v \<and> cp_type v = Pawn) \<or>
      (\<exists>target. c = Some t \<and> board_get b t = Some target \<and> cp_team target \<noteq> cp_team piece \<and>
        can_attack piece (sq_x t - sq_x f) (forward piece f t)) \<or>
      c = None \<and> board_get b t = None \<and> can_go_to piece (sq_x t - sq_x f) (forward piece f t))"

lemma plan_reach_accepted:
  assumes "plan_reach b f t piece True = (r, plan)" "is_accepted r"
  shows "\<exists>c. plan = (plan_step f t)\<lparr>pl_captured := c\<rparr> \<and> reaches b f t piece c"
proof -
  have clear: "path_is_clear b f t" if "finish_reach b f t piece kind c = (r, plan)" for kind c
    using that assms(2) by (auto simp: finish_reach_def refused split: if_splits)
  show ?thesis
    using assms clear
    by (auto simp: plan_reach_def Let_def forward_def [symmetric] refused reaches_def
        dest!: finish_reach_plan split: if_splits option.splits)
qed
end
