(* ===== verification/Chess_Game.thy ===== *)
theory Chess_Game
  imports Chess_Board
begin

text \<open>
  The invariant of a game from the opening position: one king a side, the side that has just
  moved not in check, unmoved kings, rooks and pawns on their home squares, no pawn on a last
  rank, and a sensible en passant chance; every accepted move keeps it.
\<close>

section \<open>Attack and check\<close>

definition attacks :: "chess_board \<Rightarrow> chess_square \<Rightarrow> chess_piece \<Rightarrow> chess_square \<Rightarrow> bool" where
  "attacks b f p t \<longleftrightarrow> is_accepted (fst (plan_reach b f t p False))"

lemma is_attacked_iff:
  "is_attacked b t team \<longleftrightarrow> (\<exists>f p. board_get b f = Some p \<and> cp_team p = team \<and> attacks b f p t)"
  by (simp add: is_attacked_def ex_piece attacks_def)

definition king_at :: "chess_board \<Rightarrow> chess_team \<Rightarrow> chess_square \<Rightarrow> bool" where
  "king_at b team s \<longleftrightarrow> (\<exists>p. board_get b s = Some p \<and> cp_type p = King \<and> cp_team p = team)"

definition the_king :: "chess_board \<Rightarrow> chess_team \<Rightarrow> chess_square \<Rightarrow> bool" where
  "the_king b team k \<longleftrightarrow> (\<forall>s. king_at b team s \<longleftrightarrow> s = k)"

lemma check_loop_eq:
  "(\<And>s p. (s, p) \<in> set ps \<Longrightarrow> cp_type p = King \<and> cp_team p = team \<longleftrightarrow> s = k) \<Longrightarrow> \<exists>p. (k, p) \<in> set ps \<Longrightarrow>
    check_loop b team ps \<longleftrightarrow> is_attacked b k (opponent team)"
proof (induction b team ps rule: check_loop.induct)
  case (2 b team s piece ps)
  show ?case
  proof (cases "s = k")
    case True
    then have "cp_type piece = King \<and> cp_team piece = team" using "2.prems"(1) [of s piece] by simp
    then show ?thesis using True by simp
  next
    case False
    then have "\<not> (cp_type piece = King \<and> cp_team piece = team)" using "2.prems"(1) [of s piece] by simp
    then show ?thesis using "2.IH" "2.prems" False by auto
  qed
qed simp

lemma in_check_iff:
  assumes "the_king b team k"
  shows "is_in_check b team \<longleftrightarrow> is_attacked b k (opponent team)"
proof -
  have "cp_type p = King \<and> cp_team p = team \<longleftrightarrow> s = k" if "(s, p) \<in> set (board_pieces b)" for s p
    using that assms unfolding set_board_pieces the_king_def king_at_def by (metis option.inject)
  moreover have "\<exists>p. (k, p) \<in> set (board_pieces b)"
    using assms by (auto simp: set_board_pieces the_king_def king_at_def)
  ultimately show ?thesis unfolding is_in_check_def by (rule check_loop_eq)
qed

lemma check_loop_Cons:
  "check_loop b team (q # ps) =
     (if cp_type (snd q) = King \<and> cp_team (snd q) = team then is_attacked b (fst q) (opponent team) else check_loop b team ps)"
  by (cases q) simp

text \<open>Only the squares matter.\<close>

lemma attacks_cong: "(\<And>s. board_get b s = board_get b' s) \<Longrightarrow> attacks b f p t = attacks b' f p t"
  by (simp add: attacks_def plan_reach_plain path_is_clear_iff)

lemma in_check_squares: "bd_squares b = bd_squares b' \<Longrightarrow> is_in_check b team = is_in_check b' team"
proof -
  assume "bd_squares b = bd_squares b'"
  then have g: "board_get b = board_get b'" by (auto simp: board_get_def fun_eq_iff)
  then have a: "is_attacked b = is_attacked b'"
    using attacks_cong [of b b'] by (auto simp: is_attacked_iff fun_eq_iff)
  have "check_loop b team ps = check_loop b' team ps" for ps
    by (induction ps) (simp_all add: a split_beta check_loop_Cons)
  moreover have "board_pieces b = board_pieces b'" by (simp add: board_pieces_def g)
  ultimately show ?thesis by (simp add: is_in_check_def)
qed

lemma in_check_turn [simp]: "is_in_check (b\<lparr>bd_turn := t\<rparr>) team = is_in_check b team"
  by (rule in_check_squares) simp

section \<open>What making a move does\<close>

definition landed :: "chess_piece \<Rightarrow> chess_square \<Rightarrow> chess_piece" where
  "landed p t = p\<lparr>cp_type := (if cp_type p = Pawn \<and> (sq_y t = 0 \<or> sq_y t = 7) then Queen else cp_type p), cp_moved := True\<rparr>"

lemma landed_simps [simp]:
  "cp_team (landed p t) = cp_team p" "cp_moved (landed p t)" "cp_type (landed p t) = King \<longleftrightarrow> cp_type p = King"
  by (auto simp: landed_def)

lemma landed_pawn: "cp_type (landed p t) = Pawn \<Longrightarrow> cp_type p = Pawn \<and> sq_y t \<noteq> 0 \<and> sq_y t \<noteq> 7"
  by (auto simp: landed_def split: if_splits)

lemma apply_frame: "bd_turn (chess_apply plan b) = bd_turn b"
  by (auto simp: chess_apply_def Let_def split: option.split)

lemma apply_ok: "board_ok b \<Longrightarrow> board_ok (chess_apply plan b)"
  by (auto simp: chess_apply_def Let_def board_ok_def put_def split: option.split)

lemma apply_ep:
  assumes "board_get b (pl_from plan) = Some p"
  shows "bd_ep_target (chess_apply plan b) =
      (if cp_type p = Pawn \<and> \<bar>sq_y (pl_to plan) - sq_y (pl_from plan)\<bar> = 2
       then Some (square (sq_x (pl_from plan)) ((sq_y (pl_from plan) + sq_y (pl_to plan)) div 2)) else None)"
    "cp_type p = Pawn \<and> \<bar>sq_y (pl_to plan) - sq_y (pl_from plan)\<bar> = 2 \<Longrightarrow> bd_ep_victim (chess_apply plan b) = pl_to plan"
  using assms by (auto simp: chess_apply_def Let_def)

lemma apply_get:
  assumes ok: "board_ok b" and f: "board_get b f = Some p" and t: "on_board t"
    and c: "c = None \<or> (\<exists>v. c = Some v \<and> on_board v)"
  shows "board_get (chess_apply ((plan_step f t)\<lparr>pl_captured := c\<rparr>) b) s =
    (if s = t then Some (landed p t) else if s = f \<or> c = Some s then None else board_get b s)"
proof -
  have on: "on_board f" by (rule get_on_board [OF f])
  show ?thesis
    using c f ok on t by (auto simp: chess_apply_def plan_step_def plan_default_def get_put landed_def SIZE_def Let_def)
qed

lemma apply_castle_get:
  assumes ok: "board_ok b" and f: "board_get b f = Some p" and t: "on_board t" and rf: "board_get b r = Some rook"
    and rt: "on_board r'" and ne: "r \<noteq> f" "r \<noteq> t" "cp_type p = King"
  shows "board_get (chess_apply ((plan_step f t)\<lparr>pl_rook_from := Some r, pl_rook_to := Some r'\<rparr>) b) s =
    (if s = r' then Some (rook\<lparr>cp_moved := True\<rparr>) else if s = r then None else if s = t then Some (landed p t)
     else if s = f then None else board_get b s)"
proof -
  have on: "on_board f" "on_board r" by (rule get_on_board [OF f], rule get_on_board [OF rf])
  have l: "p\<lparr>cp_type := King, cp_moved := True\<rparr> = landed p t" using ne(3) by (simp add: landed_def)
  show ?thesis
    using ok f on t rf rt ne by (simp add: chess_apply_def plan_step_def plan_default_def get_put l Let_def)
qed

section \<open>The invariant\<close>

definition home_rank :: "chess_team \<Rightarrow> int" where
  "home_rank team = (if team = White then 0 else 7)"

definition pawn_rank :: "chess_team \<Rightarrow> int" where
  "pawn_rank team = (if team = White then 1 else 6)"

text \<open>A piece that has not moved stands where the game put it.\<close>

definition at_home :: "chess_square \<Rightarrow> chess_piece \<Rightarrow> bool" where
  "at_home s p \<longleftrightarrow> cp_moved p \<or>
     (case cp_type p of
        Pawn \<Rightarrow> sq_y s = pawn_rank (cp_team p)
      | Rook \<Rightarrow> (sq_x s = 0 \<or> sq_x s = 7) \<and> sq_y s = home_rank (cp_team p)
      | King \<Rightarrow> s = square 4 (home_rank (cp_team p))
      | _ \<Rightarrow> True)"

definition pieces_ok :: "chess_board \<Rightarrow> bool" where
  "pieces_ok b \<longleftrightarrow> (\<forall>s p. board_get b s = Some p \<longrightarrow> at_home s p \<and> (cp_type p = Pawn \<longrightarrow> 1 \<le> sq_y s \<and> sq_y s \<le> 6))"

text \<open>The square skipped by the last move is empty and the pawn that skipped it stands beyond.\<close>

definition ep_ok :: "chess_board \<Rightarrow> bool" where
  "ep_ok b \<longleftrightarrow>
     (case bd_ep_target b of
        None \<Rightarrow> True
      | Some t \<Rightarrow> board_get b t = None \<and> on_board t \<and>
          bd_ep_victim b = square (sq_x t) (if bd_turn b = White then 4 else 3) \<and>
          sq_y t = (if bd_turn b = White then 5 else 2) \<and>
          (\<exists>v. board_get b (bd_ep_victim b) = Some v \<and> cp_type v = Pawn \<and> cp_team v = opponent (bd_turn b)))"

definition game_ok :: "chess_board \<Rightarrow> bool" where
  "game_ok b \<longleftrightarrow> board_ok b \<and> pieces_ok b \<and> ep_ok b \<and> (\<forall>team. \<exists>k. the_king b team k) \<and>
     \<not> is_in_check b (opponent (bd_turn b))"

lemma opponent_simps [simp]: "opponent (opponent t) = t" "opponent t \<noteq> t" "t \<noteq> opponent t"
  by (cases t; simp add: opponent_def)+

lemma other_team: "t \<noteq> u \<longleftrightarrow> t = opponent u"
  by (cases t; cases u; simp add: opponent_def)

text \<open>No move of the side to move takes a king.\<close>

lemma no_king_taken:
  assumes ok: "game_ok b" and f: "board_get b f = Some p" "cp_team p = bd_turn b" and r: "reaches b f t p c"
    and t: "board_get b t = Some q" "cp_team q \<noteq> cp_team p"
  shows "cp_type q \<noteq> King"
proof
  assume q: "cp_type q = King"
  have team: "cp_team q = opponent (bd_turn b)" using t(2) f(2) by (simp add: other_team)
  obtain k where k: "the_king b (opponent (bd_turn b)) k" using ok by (auto simp: game_ok_def)
  then have "t = k" using t(1) q team by (auto simp: the_king_def king_at_def)
  have "can_attack p (sq_x t - sq_x f) (forward p f t)" using r t(1) by (auto simp: reaches_def)
  then have "attacks b f p t"
    using r t f by (simp add: attacks_def plan_reach_plain reaches_def)
  then have "is_attacked b k (bd_turn b)" using f \<open>t = k\<close> by (auto simp: is_attacked_iff)
  then show False using ok in_check_iff [OF k] by (simp add: game_ok_def)
qed

lemma reaches_facts:
  assumes ok: "game_ok b" and f: "board_get b f = Some p" "cp_team p = bd_turn b" and r: "reaches b f t p c"
  shows "t \<noteq> f" "on_board t" "c = None \<or> (\<exists>v. c = Some v \<and> on_board v \<and> v \<noteq> f)"
    "c = Some v \<Longrightarrow> \<exists>q. board_get b v = Some q \<and> cp_team q \<noteq> cp_team p \<and> cp_type q \<noteq> King"
    "c \<noteq> Some t \<Longrightarrow> board_get b t = None"
proof -
  have cases: "c = Some (bd_ep_victim b) \<and> bd_ep_target b = Some t \<and> board_get b t = None \<and>
      (\<exists>v. board_get b (bd_ep_victim b) = Some v \<and> cp_type v = Pawn \<and> cp_team v \<noteq> cp_team p) \<or>
    (\<exists>q. c = Some t \<and> board_get b t = Some q \<and> cp_team q \<noteq> cp_team p) \<or> c = None \<and> board_get b t = None"
    using r ok f(2) by (auto simp: reaches_def game_ok_def ep_ok_def split: option.splits)
  then show "t \<noteq> f" "c \<noteq> Some t \<Longrightarrow> board_get b t = None" using f(1) by auto
  show "on_board t" using r by (simp add: reaches_def)
  show "c = None \<or> (\<exists>v. c = Some v \<and> on_board v \<and> v \<noteq> f)"
    using cases f(1) get_on_board by auto
  show "\<exists>q. board_get b v = Some q \<and> cp_team q \<noteq> cp_team p \<and> cp_type q \<noteq> King" if "c = Some v"
    using cases that no_king_taken [OF ok f r] by auto
qed

section \<open>An ordinary move keeps the invariant\<close>

lemma pieces_ok_after:
  assumes "pieces_ok b" "on_board t"
    and get: "\<And>s. board_get b' s = (if s = t then Some (landed p t) else if s = f \<or> c = Some s then None else board_get b s)"
  shows "pieces_ok b'"
  unfolding pieces_ok_def
proof (intro allI impI)
  fix s q assume q: "board_get b' s = Some q"
  show "at_home s q \<and> (cp_type q = Pawn \<longrightarrow> 1 \<le> sq_y s \<and> sq_y s \<le> 6)"
  proof (cases "s = t")
    case True
    then have "q = landed p t" using q get by simp
    then show ?thesis
      using assms(2) True landed_pawn [of p t] by (auto simp: at_home_def on_board_def SIZE_def)
  next
    case False
    then show ?thesis using assms(1) q get by (auto simp: pieces_ok_def split: if_splits)
  qed
qed

lemma kings_after:
  assumes k: "the_king b team k" and f: "board_get b f = Some p" and t: "t \<noteq> f"
    and c: "\<And>v. c = Some v \<Longrightarrow> \<exists>q. board_get b v = Some q \<and> cp_type q \<noteq> King" "c \<noteq> Some t \<Longrightarrow> board_get b t = None"
    and get: "\<And>s. board_get b' s = (if s = t then Some (landed p t) else if s = f \<or> c = Some s then None else board_get b s)"
  shows "the_king b' team (if cp_type p = King \<and> cp_team p = team then t else k)"
proof -
  have old: "king_at b team s \<longleftrightarrow> s = k" for s using k by (simp add: the_king_def)
  have t_not: "\<not> king_at b team t" using c by (cases "c = Some t") (auto simp: king_at_def)
  have c_not: "\<not> king_at b team v" if "c = Some v" for v using c(1) [OF that] by (auto simp: king_at_def)
  have f_iff: "king_at b team f \<longleftrightarrow> cp_type p = King \<and> cp_team p = team" using f by (auto simp: king_at_def)
  have new: "king_at b' team s \<longleftrightarrow>
      (if s = t then cp_type p = King \<and> cp_team p = team else s \<noteq> f \<and> c \<noteq> Some s \<and> king_at b team s)" for s
    using get by (auto simp: king_at_def)
  show ?thesis
    unfolding the_king_def new using old t_not c_not f_iff t by metis
qed

lemma ep_after:
  assumes ok: "game_ok b" and f: "board_get b f = Some p" "cp_team p = bd_turn b" and r: "reaches b f t p c"
    and get: "\<And>s. board_get b' s = (if s = t then Some (landed p t) else if s = f \<or> c = Some s then None else board_get b s)"
    and turn: "bd_turn b' = opponent (bd_turn b)"
    and ep: "bd_ep_target b' = (if cp_type p = Pawn \<and> \<bar>sq_y t - sq_y f\<bar> = 2
        then Some (square (sq_x f) ((sq_y f + sq_y t) div 2)) else None)"
      "cp_type p = Pawn \<and> \<bar>sq_y t - sq_y f\<bar> = 2 \<Longrightarrow> bd_ep_victim b' = t"
  shows "ep_ok b'"
proof (cases "cp_type p = Pawn \<and> \<bar>sq_y t - sq_y f\<bar> = 2")
  case False
  then have "bd_ep_target b' = None" using ep(1) by (simp only: if_False)
  then show ?thesis by (simp add: ep_ok_def)
next
  case True
  have fw: "\<bar>forward p f t\<bar> = 2" using True by (auto simp: forward_def)
  then have "\<not> can_attack p (sq_x t - sq_x f) (forward p f t)" using True by (auto simp: can_attack_def)
  then have c: "c = None" "can_go_to p (sq_x t - sq_x f) (forward p f t)" using r by (auto simp: reaches_def)
  then have go: "sq_x t = sq_x f" "forward p f t = 2" "\<not> cp_moved p"
    using True fw by (auto simp: can_go_to_def Let_def)
  have home: "sq_y f = pawn_rank (cp_team p)"
  proof -
    have "at_home f p" using ok f(1) by (simp add: game_ok_def pieces_ok_def)
    then show ?thesis using go(3) True by (simp add: at_home_def)
  qed
  have dist: "distance f t = 2" using go True by (auto simp: distance_def)
  have line: "on_line (sq_x t - sq_x f) (sq_y t - sq_y f)" using go by (simp add: on_line_def)
  have "path_is_clear b f t" using r by (simp add: reaches_def)
  then have clear: "board_get b (toward f t 1) = None" using dist line by (auto simp: path_is_clear_iff)
  have mid: "toward f t 1 = square (sq_x f) ((sq_y f + sq_y t) div 2)"
    using True go by (auto simp: toward_def sgn_if square_eq)
  have on: "on_board f" "on_board t" using get_on_board [OF f(1)] r by (simp_all add: reaches_def)
  have ne: "toward f t 1 \<noteq> t" "toward f t 1 \<noteq> f" using True go by (auto simp: toward_def square_eq sgn_if dest: sym)
  have ty: "sq_y t = (if cp_team p = White then 3 else 4)"
    using go(2) home by (auto simp: forward_def pawn_rank_def split: if_splits)
  have l: "cp_type (landed p t) = Pawn" using True ty by (auto simp: landed_def)
  have tgt: "bd_ep_target b' = Some (toward f t 1)" using ep(1) True mid by simp
  have "board_get b' (toward f t 1) = None" using get ne clear c(1) by simp
  moreover have "on_board (toward f t 1)" "sq_y (toward f t 1) = (if bd_turn b' = White then 5 else 2)"
    using on home ty mid f(2) turn by (cases "bd_turn b"; auto simp: on_board_def SIZE_def pawn_rank_def opponent_def)+
  moreover have "bd_ep_victim b' = square (sq_x (toward f t 1)) (if bd_turn b' = White then 4 else 3)"
    using ep(2) True go ty mid f(2) turn by (cases "bd_turn b") (auto simp: square_eq opponent_def)
  moreover have "board_get b' (bd_ep_victim b') = Some (landed p t)" using ep(2) True get by simp
  ultimately show ?thesis
    using tgt l f(2) turn by (simp add: ep_ok_def)
qed

lemma ordinary_move_ok:
  assumes ok: "game_ok b" and f: "board_get b f = Some p" "cp_team p = bd_turn b" and r: "reaches b f t p c"
    and safe: "leaves_king_safe b ((plan_step f t)\<lparr>pl_captured := c\<rparr>) (bd_turn b)"
  shows "game_ok ((chess_apply ((plan_step f t)\<lparr>pl_captured := c\<rparr>) b)\<lparr>bd_turn := opponent (bd_turn b)\<rparr>)"
proof -
  define plan where "plan = (plan_step f t)\<lparr>pl_captured := c\<rparr>"
  have plan: "pl_from plan = f" "pl_to plan = t" by (simp_all add: plan_def plan_step_def)
  define b' where "b' = (chess_apply plan b)\<lparr>bd_turn := opponent (bd_turn b)\<rparr>"
  note facts = reaches_facts [OF ok f r]
  have bok: "board_ok b" using ok by (simp add: game_ok_def)
  have get: "board_get b' s = (if s = t then Some (landed p t) else if s = f \<or> c = Some s then None else board_get b s)" for s
    using apply_get [OF bok f(1) facts(2), of c s] facts(3) by (auto simp: b'_def plan_def)
  have ep: "bd_ep_target b' = (if cp_type p = Pawn \<and> \<bar>sq_y t - sq_y f\<bar> = 2
        then Some (square (sq_x f) ((sq_y f + sq_y t) div 2)) else None)"
      "cp_type p = Pawn \<and> \<bar>sq_y t - sq_y f\<bar> = 2 \<Longrightarrow> bd_ep_victim b' = t"
    using apply_ep [of b plan p] f(1) plan by (simp_all add: b'_def)
  have turn: "bd_turn b' = opponent (bd_turn b)" by (simp add: b'_def)
  have "board_ok b'" using apply_ok [OF bok, of plan] by (simp add: b'_def board_ok_def)
  moreover have "pieces_ok b'"
    using ok by (intro pieces_ok_after [OF _ facts(2) get]) (simp add: game_ok_def)
  moreover have "ep_ok b'" by (rule ep_after [OF ok f r get turn ep])
  moreover have "\<exists>k. the_king b' team k" for team
  proof -
    obtain k where k: "the_king b team k" using ok by (auto simp: game_ok_def)
    have cap: "\<exists>q. board_get b v = Some q \<and> cp_type q \<noteq> King" if "c = Some v" for v using facts(4) [OF that] by blast
    from kings_after [OF k f(1) facts(1) cap facts(5) get] show ?thesis by blast
  qed
  moreover have "\<not> is_in_check b' (opponent (bd_turn b'))"
    using safe turn by (simp add: leaves_king_safe_def b'_def plan_def)
  ultimately show ?thesis unfolding game_ok_def b'_def plan_def by blast
qed

section \<open>Castling keeps the invariant\<close>

definition castles :: "chess_board \<Rightarrow> chess_square \<Rightarrow> chess_square \<Rightarrow> chess_piece \<Rightarrow> int \<Rightarrow> int \<Rightarrow> bool" where
  "castles b f t king d n \<longleftrightarrow>
     (d = 1 \<or> d = -1) \<and> 1 \<le> n \<and>
     (\<forall>i \<in> {1..<n}. board_get b (square (sq_x f + d * i) (sq_y f)) = None) \<and>
     (\<exists>rook. board_get b (square (sq_x f + d * n) (sq_y f)) = Some rook \<and> cp_type rook = Rook \<and>
        cp_team rook = cp_team king \<and> \<not> cp_moved rook) \<and>
     leaves_king_safe b (plan_step f (square (sq_x f + d) (sq_y f))) (cp_team king) \<and>
     leaves_king_safe b (plan_step f t) (cp_team king)"

lemma castle_scan_accepted:
  assumes d: "d = (if left then -1 else 1)" and passing: "passing = square (sq_x f + d) (sq_y f)"
  shows "castle_scan b f t king passing left s = (r, plan) \<Longrightarrow> is_accepted r \<Longrightarrow>
    s = square (sq_x f + d * m) (sq_y f) \<Longrightarrow> 1 \<le> m \<Longrightarrow>
    \<forall>i \<in> {1..<m}. board_get b (square (sq_x f + d * i) (sq_y f)) = None \<Longrightarrow>
    \<exists>n. castles b f t king d n \<and>
      plan = (plan_step f t)\<lparr>pl_rook_from := Some (square (sq_x f + d * n) (sq_y f)), pl_rook_to := Some passing\<rparr>"
proof (induction "nat (if left then sq_x s + 1 else SIZE - sq_x s)" arbitrary: s m rule: less_induct)
  case less
  show ?case
  proof (cases "on_board s")
    case False
    then show ?thesis using less.prems(1,2) by (simp add: castle_scan.simps refused)
  next
    case on: True
    show ?thesis
    proof (cases "board_get b s")
      case None
      let ?s = "square (sq_x s + d) (sq_y s)"
      have step: "castle_scan b f t king passing left ?s = (r, plan)"
        using less.prems(1) on None d by (simp add: castle_scan.simps [of b f t king passing left s])
      have shorter: "nat (if left then sq_x ?s + 1 else SIZE - sq_x ?s) < nat (if left then sq_x s + 1 else SIZE - sq_x s)"
        using on d by (auto simp: on_board_def)
      have at: "?s = square (sq_x f + d * (m + 1)) (sq_y f)"
        using less.prems(3) by (simp add: square_eq distrib_left)
      have "{1..<m + 1} = insert m {1..<m}" using less.prems(4) by auto
      then have clear: "\<forall>i \<in> {1..<m + 1}. board_get b (square (sq_x f + d * i) (sq_y f)) = None"
        using less.prems(3,5) None by auto
      from less.hyps [OF shorter step less.prems(2) at _ clear] less.prems(4) show ?thesis by simp
    next
      case (Some other)
      then have "castle_at b f t king passing s other = (r, plan)"
        using less.prems(1) on by (simp add: castle_scan.simps [of b f t king passing left s])
      then have "cp_type other = Rook \<and> cp_team other = cp_team king \<and> \<not> cp_moved other \<and>
          leaves_king_safe b (plan_step f passing) (cp_team king) \<and> leaves_king_safe b (plan_step f t) (cp_team king) \<and>
          plan = (plan_step f t)\<lparr>pl_rook_from := Some s, pl_rook_to := Some passing\<rparr>"
        using less.prems(2) by (auto simp: castle_at_def refused split: if_splits)
      then show ?thesis
        using less.prems(3-5) Some d passing by (intro exI [of _ m]) (auto simp: castles_def)
    qed
  qed
qed

lemma plan_castle_accepted:
  assumes "plan_castle b f t king = (r, plan)" "is_accepted r"
  shows "\<exists>d n. d = (if sq_x t < sq_x f then -1 else 1) \<and> castles b f t king d n \<and> \<not> cp_moved king \<and>
    \<not> is_in_check b (cp_team king) \<and>
    plan = (plan_step f t)\<lparr>pl_rook_from := Some (square (sq_x f + d * n) (sq_y f)), pl_rook_to := Some (square (sq_x f + d) (sq_y f))\<rparr>"
proof -
  define d :: int where "d = (if sq_x t < sq_x f then -1 else 1)"
  have c: "\<not> is_in_check b (cp_team king)" "\<not> cp_moved king"
    "castle_scan b f t king (square (sq_x f + d) (sq_y f)) (sq_x t < sq_x f) (square (sq_x f + d) (sq_y f)) = (r, plan)"
    using assms by (auto simp: plan_castle_def d_def Let_def refused split: if_splits)
  have "square (sq_x f + d) (sq_y f) = square (sq_x f + d * 1) (sq_y f)" "\<forall>i \<in> {1..<1::int}. board_get b (square (sq_x f + d * i) (sq_y f)) = None"
    by simp_all
  from castle_scan_accepted [OF d_def refl c(3) assms(2) this(1) order_refl this(2)] c(1,2) show ?thesis
    unfolding d_def by blast
qed

text \<open>Where the pieces of a castling stand, in a game that keeps the invariant.\<close>

lemma castle_squares:
  assumes ok: "game_ok b" and f: "board_get b f = Some king" "cp_type king = King" "\<not> cp_moved king"
    and t: "\<bar>sq_x t - sq_x f\<bar> = 2" "sq_y t = sq_y f" and d: "d = (if sq_x t < sq_x f then -1 else 1)"
    and c: "castles b f t king d n"
  shows "f = square 4 (home_rank (cp_team king))" "t = square (4 + 2 * d) (home_rank (cp_team king))"
    "n = (if d = 1 then 3 else 4)" "board_get b t = None" "board_get b (square (4 + d) (home_rank (cp_team king))) = None"
proof -
  have home: "at_home s q" if "board_get b s = Some q" for s q using ok that by (simp add: game_ok_def pieces_ok_def)
  show fk: "f = square 4 (home_rank (cp_team king))" using home [OF f(1)] f(2,3) by (simp add: at_home_def)
  show tk: "t = square (4 + 2 * d) (home_rank (cp_team king))" using t d by (auto simp: fk square_eq split: if_splits)
  obtain rook where rook: "board_get b (square (sq_x f + d * n) (sq_y f)) = Some rook" "cp_type rook = Rook" "\<not> cp_moved rook"
    using c by (auto simp: castles_def)
  have "4 + d * n = 0 \<or> 4 + d * n = 7" using home [OF rook(1)] rook(2,3) fk by (simp add: at_home_def)
  moreover have "d = 1 \<or> d = -1" "1 \<le> n" using c by (simp_all add: castles_def)
  ultimately show n: "n = (if d = 1 then 3 else 4)" by auto
  have clear: "board_get b (square (4 + d * i) (home_rank (cp_team king))) = None" if "1 \<le> i" "i < 3" for i
    using c that n fk by (auto simp: castles_def)
  show "board_get b t = None" using clear [of 2] tk by (simp add: mult.commute)
  show "board_get b (square (4 + d) (home_rank (cp_team king))) = None" using clear [of 1] by simp
qed

text \<open>Moving the rook beside the king opens no line on the king: the rook came from a corner.\<close>

lemma rook_move_shields:
  assumes corner: "sq_x r \<in> {0, 7}" "sq_y r \<in> {0, 7}"
    and t: "on_board t" "board_get b' t = board_get b1 t" "board_get b' t = Some k" "cp_team k = team"
    and r': "board_get b' r' = Some rook" "cp_team rook = team"
    and same: "\<And>s. s \<noteq> r \<Longrightarrow> s \<noteq> r' \<Longrightarrow> board_get b' s = board_get b1 s" and gone: "board_get b' r = None"
    and attacked: "is_attacked b' t (opponent team)"
  shows "is_attacked b1 t (opponent team)"
proof -
  obtain a q where a: "board_get b' a = Some q" "cp_team q = opponent team" "attacks b' a q t"
    using attacked by (auto simp: is_attacked_iff)
  have "a \<noteq> r" "a \<noteq> r'" using a gone r' by auto
  then have a1: "board_get b1 a = Some q" using same a(1) by simp
  have on: "on_board a" by (rule get_on_board [OF a(1)])
  have "path_is_clear b1 a t"
    unfolding path_is_clear_iff
  proof (cases "on_line (sq_x t - sq_x a) (sq_y t - sq_y a)")
    case True
    have "board_get b1 (toward a t i) = None" if i: "i \<in> {1..<distance a t}" for i
    proof -
      have "board_get b' (toward a t i) = None"
        using a(3) True i by (auto simp: attacks_def plan_reach_plain path_is_clear_iff)
      moreover have "toward a t i \<noteq> r" using toward_inside(2) [OF on t(1) True i] corner by auto
      moreover have "toward a t i \<noteq> r'" using calculation(1) r'(1) by auto
      ultimately show ?thesis using same by simp
    qed
    then show "\<not> on_line (sq_x t - sq_x a) (sq_y t - sq_y a) \<or> (\<forall>i\<in>{1..<distance a t}. board_get b1 (toward a t i) = None)"
      by blast
  qed simp
  then have "attacks b1 a q t"
    using a(3) t by (simp add: attacks_def plan_reach_plain)
  then show ?thesis using a1 a(2) by (auto simp: is_attacked_iff)
qed

lemma castle_kings:
  assumes k: "the_king b u k" and f: "board_get b f = Some king" "cp_type king = King"
    and t: "board_get b t = None" and rook: "board_get b r = Some rook" "cp_type rook = Rook" and r': "board_get b r' = None"
    and get: "\<And>s. board_get b' s =
      (if s = r' then Some (rook\<lparr>cp_moved := True\<rparr>) else if s = r then None else if s = t then Some (landed king t)
       else if s = f then None else board_get b s)" and ne: "r' \<noteq> t"
  shows "the_king b' u (if cp_team king = u then t else k)"
proof -
  have old: "king_at b u s \<longleftrightarrow> s = k" for s using k by (simp add: the_king_def)
  have not: "\<not> king_at b u t" "\<not> king_at b u r" "\<not> king_at b u r'" using t rook r' by (auto simp: king_at_def)
  have f_iff: "king_at b u f \<longleftrightarrow> cp_team king = u" using f by (auto simp: king_at_def)
  have new: "king_at b' u s \<longleftrightarrow> (if s = t then cp_team king = u else s \<noteq> f \<and> king_at b u s)" for s
    using get [of s] not ne rook t f(2) by (cases "s = r'"; cases "s = r"; cases "s = t"; cases "s = f") (auto simp: king_at_def)
  show ?thesis
    unfolding the_king_def new using old not(1) f_iff by metis
qed

lemma castle_move_ok:
  assumes ok: "game_ok b" and f: "board_get b f = Some king" "cp_type king = King" "\<not> cp_moved king" "cp_team king = bd_turn b"
    and t: "\<bar>sq_x t - sq_x f\<bar> = 2" "sq_y t = sq_y f" and d: "d = (if sq_x t < sq_x f then -1 else 1)"
    and c: "castles b f t king d n"
    and plan: "plan = (plan_step f t)\<lparr>pl_rook_from := Some (square (sq_x f + d * n) (sq_y f)), pl_rook_to := Some (square (sq_x f + d) (sq_y f))\<rparr>"
  shows "game_ok ((chess_apply plan b)\<lparr>bd_turn := opponent (bd_turn b)\<rparr>)"
proof -
  define h where "h = home_rank (cp_team king)"
  define r where "r = square (sq_x f + d * n) (sq_y f)"
  define r' where "r' = square (sq_x f + d) (sq_y f)"
  note sq = castle_squares [OF ok f(1-3) t d c, folded h_def]
  have dd: "d = 1 \<or> d = -1" and hh: "h = 0 \<or> h = 7" using c by (auto simp: castles_def h_def home_rank_def)
  have f_at: "sq_x f = 4" "sq_y f = h" and t_at: "sq_x t = 4 + 2 * d" "sq_y t = h" using sq(1,2) by simp_all
  have r_at: "sq_x r \<in> {0, 7}" "sq_y r \<in> {0, 7}" "r \<noteq> f" "r \<noteq> t" "r \<noteq> r'" "r' \<noteq> t" "r' \<noteq> f" "t \<noteq> f"
    using dd hh sq(3) f_at t_at by (auto simp: r_def r'_def square_eq dest!: arg_cong [where f = sq_x])
  have on: "on_board t" "on_board r'" "on_board f"
    using dd hh t_at f_at by (auto simp: on_board_def SIZE_def r'_def)
  have r'_none: "board_get b r' = None" using sq(5) f_at by (simp add: r'_def)
  obtain rook where rook: "board_get b r = Some rook" "cp_type rook = Rook" "cp_team rook = cp_team king"
    using c by (auto simp: castles_def r_def)
  have bok: "board_ok b" using ok by (simp add: game_ok_def)
  define b1 where "b1 = chess_apply (plan_step f t) b"
  define b' where "b' = (chess_apply plan b)\<lparr>bd_turn := opponent (bd_turn b)\<rparr>"
  have get: "board_get b' s = (if s = r' then Some (rook\<lparr>cp_moved := True\<rparr>) else if s = r then None
      else if s = t then Some (landed king t) else if s = f then None else board_get b s)" for s
    using apply_castle_get [OF bok f(1) on(1) rook(1) on(2) r_at(3,4) f(2), of s]
    by (simp add: b'_def plan r_def r'_def)
  have same_plan: "(plan_step f t)\<lparr>pl_captured := None\<rparr> = plan_step f t" by (simp add: plan_step_def plan_default_def)
  have get1: "board_get b1 s = (if s = t then Some (landed king t) else if s = f then None else board_get b s)" for s
    using apply_get [OF bok f(1) on(1), of None s] by (simp add: b1_def same_plan)
  have turn: "bd_turn b' = opponent (bd_turn b)" by (simp add: b'_def)
  have kings: "the_king b' u (if cp_team king = u then t else k)" if "the_king b u k" for u k
    using castle_kings [OF that f(1,2) sq(4) rook(1,2) r'_none get r_at(6)] .
  obtain k where k: "the_king b (bd_turn b) k" using ok by (auto simp: game_ok_def)
  have k': "the_king b' (bd_turn b) t" using kings [OF k] f(4) by simp
  have "the_king b1 (bd_turn b) (if cp_type king = King \<and> cp_team king = bd_turn b then t else k)"
    by (rule kings_after [OF k f(1) r_at(8), where c = None]) (use get1 sq(4) in auto)
  then have k1: "the_king b1 (bd_turn b) t" using f(2,4) by simp
  have "board_ok b'" using apply_ok [OF bok, of plan] by (simp add: b'_def board_ok_def)
  moreover have "pieces_ok b'"
    unfolding pieces_ok_def
  proof (intro allI impI)
    fix s q assume q: "board_get b' s = Some q"
    have "board_get b s = Some q \<or> q = rook\<lparr>cp_moved := True\<rparr> \<or> q = landed king t"
      using q get [of s] by (auto split: if_splits)
    then show "at_home s q \<and> (cp_type q = Pawn \<longrightarrow> 1 \<le> sq_y s \<and> sq_y s \<le> 6)"
      using ok rook(2) f(2) landed_pawn [of king t] by (auto simp: game_ok_def pieces_ok_def at_home_def)
  qed
  moreover have "ep_ok b'"
  proof -
    have "board_get b (pl_from plan) = Some king" using f(1) plan by (simp add: plan_step_def)
    from apply_ep(1) [OF this] f(2) have "bd_ep_target b' = None" by (simp add: b'_def)
    then show ?thesis by (simp add: ep_ok_def)
  qed
  moreover have "\<exists>k. the_king b' u k" for u
    using ok kings unfolding game_ok_def by blast
  moreover have "\<not> is_in_check b' (opponent (bd_turn b'))"
  proof
    assume "is_in_check b' (opponent (bd_turn b'))"
    then have a: "is_attacked b' t (opponent (bd_turn b))" using in_check_iff [OF k'] turn by simp
    have "is_attacked b1 t (opponent (bd_turn b))"
      by (rule rook_move_shields [OF r_at(1,2) on(1) _ _ _ _ _ _ _ a, where k = "landed king t" and r' = r' and rook = "rook\<lparr>cp_moved := True\<rparr>"])
        (use get get1 r_at rook(3) f(4) in auto)
    then have "is_in_check b1 (bd_turn b)" using in_check_iff [OF k1] by simp
    then show False using c f(4) by (simp add: castles_def leaves_king_safe_def b1_def)
  qed
  ultimately show ?thesis unfolding game_ok_def b'_def by blast
qed

section \<open>The moves the rules accept\<close>

lemma plan_move_accepted:
  assumes "plan_move b f t = (r, plan)" "is_accepted r"
  shows "\<exists>p. board_get b f = Some p \<and> cp_team p = bd_turn b \<and>
    ((\<exists>c. plan = (plan_step f t)\<lparr>pl_captured := c\<rparr> \<and> reaches b f t p c \<and> leaves_king_safe b plan (cp_team p)) \<or>
     cp_type p = King \<and> \<bar>sq_x t - sq_x f\<bar> = 2 \<and> sq_y t = sq_y f \<and> plan_castle b f t p = (r, plan))"
proof -
  obtain p where p: "board_get b f = Some p" "cp_team p = bd_turn b"
    using assms by (auto simp: plan_move_def refused split: if_splits option.splits)
  show ?thesis
  proof (cases "cp_type p = King \<and> \<bar>sq_x t - sq_x f\<bar> = 2 \<and> sq_y t = sq_y f")
    case True
    then have "plan_castle b f t p = (r, plan)"
      using assms p by (auto simp: plan_move_def refused split: if_splits)
    then show ?thesis using True p by blast
  next
    case False
    then have "plan_reach b f t p True = (r, plan)" "leaves_king_safe b plan (cp_team p)"
      using assms p by (auto simp: plan_move_def refused split: if_splits prod.splits)
    then show ?thesis using plan_reach_accepted [OF _ assms(2)] p by blast
  qed
qed

lemma accepted_move_ok:
  assumes "game_ok b" "plan_move b f t = (r, plan)" "is_accepted r"
  shows "game_ok ((chess_apply plan b)\<lparr>bd_turn := opponent (bd_turn b)\<rparr>)"
proof -
  obtain p where p: "board_get b f = Some p" "cp_team p = bd_turn b"
    and plan: "(\<exists>c. plan = (plan_step f t)\<lparr>pl_captured := c\<rparr> \<and> reaches b f t p c \<and> leaves_king_safe b plan (cp_team p)) \<or>
     cp_type p = King \<and> \<bar>sq_x t - sq_x f\<bar> = 2 \<and> sq_y t = sq_y f \<and> plan_castle b f t p = (r, plan)"
    using plan_move_accepted [OF assms(2,3)] by blast
  from plan show ?thesis
  proof (elim disjE exE conjE)
    fix c assume "plan = (plan_step f t)\<lparr>pl_captured := c\<rparr>" "reaches b f t p c" "leaves_king_safe b plan (cp_team p)"
    then show ?thesis using ordinary_move_ok [OF assms(1) p] p(2) by simp
  next
    assume k: "cp_type p = King" "\<bar>sq_x t - sq_x f\<bar> = 2" "sq_y t = sq_y f" "plan_castle b f t p = (r, plan)"
    from plan_castle_accepted [OF k(4) assms(3)] obtain d n where
      "d = (if sq_x t < sq_x f then -1 else 1)" "castles b f t p d n" "\<not> cp_moved p"
      "plan = (plan_step f t)\<lparr>pl_rook_from := Some (square (sq_x f + d * n) (sq_y f)), pl_rook_to := Some (square (sq_x f + d) (sq_y f))\<rparr>"
      by blast
    then show ?thesis using castle_move_ok [OF assms(1) p(1) k(1) _ p(2) k(2,3)] by blast
  qed
qed

text \<open>\<open>make_move\<close>, on each branch.\<close>

lemma make_move_refused: "\<not> is_accepted (fst (plan_move b f t)) \<Longrightarrow> make_move f t b = (fst (plan_move b f t), b)"
  by (simp add: make_move_def split_beta)

lemma make_move_board:
  "plan_move b f t = (r, plan) \<Longrightarrow> is_accepted r \<Longrightarrow>
    snd (make_move f t b) = (chess_apply plan b)\<lparr>bd_turn := opponent (bd_turn b)\<rparr>"
  by (simp add: make_move_def Let_def apply_frame)

lemma make_move_ok: "game_ok b \<Longrightarrow> game_ok (snd (make_move f t b))"
  using accepted_move_ok [of b f t] make_move_refused [of b f t] make_move_board [of b f t]
  by (cases "plan_move b f t"; cases "is_accepted (fst (plan_move b f t))") auto

section \<open>The opening position\<close>

lemma board_standard_squares: "bd_squares board_standard =
    map (\<lambda>k. Some (piece_new k White)) BACK_RANK @ replicate 8 (Some (piece_new Pawn White)) @ replicate 32 None @
    replicate 8 (Some (piece_new Pawn Black)) @ map (\<lambda>k. Some (piece_new k Black)) BACK_RANK"
  by code_simp

lemma board_standard_frame [simp]: "bd_ep_target board_standard = None" "bd_turn board_standard = White"
  by code_simp+

lemma standard_pieces:
  "list_all (\<lambda>(s, p). at_home s p \<and> (cp_type p = Pawn \<longrightarrow> 1 \<le> sq_y s \<and> sq_y s \<le> 6)) (board_pieces board_standard)"
  by code_simp

lemma standard_kings:
  "map fst (filter (\<lambda>(s, p). cp_type p = King \<and> cp_team p = White) (board_pieces board_standard)) = [square 4 0]"
  "map fst (filter (\<lambda>(s, p). cp_type p = King \<and> cp_team p = Black) (board_pieces board_standard)) = [square 4 7]"
  by code_simp+

lemma the_king_of_pieces:
  assumes "map fst (filter (\<lambda>(s, p). cp_type p = King \<and> cp_team p = team) (board_pieces b)) = [k]"
  shows "the_king b team k"
proof -
  have "king_at b team s \<longleftrightarrow> s \<in> set (map fst (filter (\<lambda>(s, p). cp_type p = King \<and> cp_team p = team) (board_pieces b)))" for s
    by (force simp: king_at_def set_board_pieces)
  then show ?thesis unfolding the_king_def assms by simp
qed

lemma standard_no_check: "\<not> is_in_check board_standard Black"
  by code_simp

lemma game_ok_standard: "game_ok board_standard"
  unfolding game_ok_def
proof (intro conjI allI)
  show "board_ok board_standard" by (simp add: board_ok_def board_standard_squares BACK_RANK_def)
  show "pieces_ok board_standard"
    using standard_pieces unfolding pieces_ok_def list_all_iff using set_board_pieces by fastforce
  show "ep_ok board_standard" by (simp add: ep_ok_def)
  show "\<exists>k. the_king board_standard team k" for team
    using the_king_of_pieces [OF standard_kings(1)] the_king_of_pieces [OF standard_kings(2)] by (cases team) auto
  show "\<not> is_in_check board_standard (opponent (bd_turn board_standard))"
    using standard_no_check by (simp add: opponent_def)
qed
end
