(* ===== verification/Chess_Rules.thy ===== *)
theory Chess_Rules
  imports Chess_Game
begin

text \<open>
  What the game is held to: positions reachable from the opening keep the invariant, \<open>make_move\<close>
  reports what it does, and checkmate is having no accepted move but an en passant capture.
\<close>

section \<open>Playing\<close>

inductive playable :: "chess_board \<Rightarrow> bool" where
  standard: "playable board_standard"
| play: "playable b \<Longrightarrow> playable (snd (make_move f t b))"

lemma playable_ok: "playable b \<Longrightarrow> game_ok b"
  by (induction rule: playable.induct) (simp_all add: game_ok_standard make_move_ok)

section \<open>The flags of a result\<close>

definition plain_results :: "move_result set" where
  "plain_results = (let kinds = {CAPTURED, CAPTURED_EN_PASSANT, MOVED_TO_EMPTY_SQUARE} in kinds \<union> (\<lambda>k. k OR PROMOTION) ` kinds)"

lemma plain_results_list: "plain_results = {1, 2, 3, 4097, 4098, 4099}"
  by (auto simp: plain_results_def Let_def CAPTURED_def CAPTURED_EN_PASSANT_def MOVED_TO_EMPTY_SQUARE_def PROMOTION_def)

lemma plain_result_flags:
  assumes "r \<in> plain_results"
  shows "\<not> gives_check r" "\<not> gives_checkmate r" "is_accepted r"
    "gives_check (r OR CHECK)" "\<not> gives_checkmate (r OR CHECK)" "gives_checkmate (r OR CHECKMATE)" "\<not> gives_check (r OR CHECKMATE)"
    "is_accepted (r OR CHECK)" "is_accepted (r OR CHECKMATE)"
  using assms by (auto simp: plain_results_list gives_check_def gives_checkmate_def is_accepted_def CHECK_def CHECKMATE_def)

lemma plan_reach_result:
  assumes "plan_reach b f t p e = (r, plan)" "is_accepted r"
  shows "r \<in> plain_results"
  using assms unfolding plan_reach_def finish_reach_def plain_results_list
  by (auto simp: Let_def refused CAPTURED_def CAPTURED_EN_PASSANT_def MOVED_TO_EMPTY_SQUARE_def PROMOTION_def
      split: if_splits option.splits)

lemma castle_result:
  "castle_scan b f t king passing left s = (r, plan) \<Longrightarrow> is_accepted r \<Longrightarrow> r = MOVED_TO_EMPTY_SQUARE"
  by (induction b f t king passing left s rule: castle_scan.induct)
    (subst (asm) (2) castle_scan.simps, auto simp: castle_at_def refused split: if_splits option.splits)

lemma plan_move_result:
  assumes "plan_move b f t = (r, plan)" "is_accepted r"
  shows "r \<in> plain_results"
proof -
  have "r = MOVED_TO_EMPTY_SQUARE" if "plan_castle b f t p = (r, plan)" for p
    using that castle_result assms(2) by (auto simp: plan_castle_def Let_def refused split: if_splits)
  then have "r \<in> plain_results" if "plan_castle b f t p = (r, plan)" for p
    using that by (simp add: plain_results_list MOVED_TO_EMPTY_SQUARE_def)
  then show ?thesis
    using assms plan_reach_result
    by (auto simp: plan_move_def refused split: if_splits option.splits prod.splits)
qed

section \<open>What a move does\<close>

lemma make_move_accepted:
  assumes "plan_move b f t = (r, plan)" "is_accepted r"
  defines "b' \<equiv> (chess_apply plan b)\<lparr>bd_turn := opponent (bd_turn b)\<rparr>"
  shows "make_move f t b =
    (if is_in_check b' (bd_turn b') then r OR (if is_checkmated b' (bd_turn b') then CHECKMATE else CHECK) else r, b')"
  using assms(1,2) unfolding b'_def by (simp add: make_move_def Let_def apply_frame)

lemma fst_make_move_accepted: "is_accepted (fst (make_move f t b)) \<longleftrightarrow> is_accepted (fst (plan_move b f t))"
proof (cases "plan_move b f t")
  case (Pair r plan)
  show ?thesis
  proof (cases "is_accepted r")
    case True
    from plan_move_result [OF Pair True] plain_result_flags show ?thesis
      unfolding make_move_accepted [OF Pair True] using Pair True by simp
  qed (use make_move_refused [of b f t] Pair in simp)
qed

section \<open>Checkmate\<close>

lemma answers_iff:
  "answers b team f t p \<longleftrightarrow> (\<exists>r plan. plan_reach b f t p True = (r, plan) \<and> is_accepted r \<and> leaves_king_safe b plan team)"
  by (auto simp: answers_def split: prod.splits)

text \<open>The squares that stop the piece at \<open>a\<close>: its own, and those between it and the king.\<close>

lemma own_square_stops: "a \<noteq> k \<Longrightarrow> a \<in> set (squares_up_to_king a k)"
proof -
  assume "a \<noteq> k"
  then have "sq_x a \<noteq> sq_x k \<or> sq_y a \<noteq> sq_y k" using square_eqI by blast
  then have "0 < max \<bar>sq_x k - sq_x a\<bar> \<bar>sq_y k - sq_y a\<bar>" by linarith
  then show ?thesis
    by (auto simp: squares_up_to_king_def Let_def intro!: image_eqI [of _ _ 0])
qed

lemma between_stops:
  assumes "on_line (sq_x k - sq_x a) (sq_y k - sq_y a)" "i \<in> {1..<distance a k}"
  shows "toward a k i \<in> set (squares_up_to_king a k)"
  using assms by (auto simp: squares_up_to_king_def Let_def distance_def toward_def mult.commute intro!: image_eqI [of _ _ i])

text \<open>A move that answers the check of the piece at \<open>a\<close>, without moving the king, lands on one of them.\<close>

lemma answer_stops:
  assumes a: "board_get b a = Some q" "attacks b a q k" and k: "board_get b k = Some kp" "cp_team kp \<noteq> cp_team q"
    and t: "t \<noteq> k" and f: "f \<noteq> k" "f \<noteq> a"
    and get: "\<And>s. board_get b' s = (if s = t then Some (landed p t) else if s = f \<or> c = Some s then None else board_get b s)"
    and c: "c = None \<or> c = Some t" and safe: "\<And>q. board_get b' a = Some q \<Longrightarrow> cp_team q \<noteq> cp_team kp \<Longrightarrow> \<not> attacks b' a q k"
  shows "t \<in> set (squares_up_to_king a k)"
proof (cases "t = a")
  case True
  have "a \<noteq> k" using a(1) k by auto
  then show ?thesis using own_square_stops True by simp
next
  case False
  have "board_get b' a = Some q" using get False f(2) c a(1) by auto
  then have "\<not> attacks b' a q k" using safe k(2) by simp
  moreover have kk: "board_get b' k = Some kp" using get t f(1) c k(1) by auto
  ultimately have "\<not> path_is_clear b' a k" "path_is_clear b a k"
    using a(2) k by (auto simp: attacks_def plan_reach_plain)
  then obtain i where i: "on_line (sq_x k - sq_x a) (sq_y k - sq_y a)" "i \<in> {1..<distance a k}"
    "board_get b' (toward a k i) \<noteq> None" "board_get b (toward a k i) = None"
    by (auto simp: path_is_clear_iff)
  then have "toward a k i = t" using get by (auto split: if_splits)
  then show ?thesis using between_stops [OF i(1,2)] by simp
qed

lemma mate_loop_answer:
  assumes "\<And>a q. (a, q) \<in> set ps \<Longrightarrow> cp_team q \<noteq> team \<Longrightarrow> attacks b a q k \<Longrightarrow> t \<in> set (squares_up_to_king a k)"
    and "board_get b f = Some p" "cp_team p = team" "answers b team f t p"
  shows "\<not> mate_loop b team k ps"
  using assms(1)
proof (induction ps)
  case (Cons aq ps)
  obtain a q where aq: "aq = (a, q)" by (cases aq)
  show ?case
  proof (cases "cp_team q = team \<or> \<not> is_accepted (fst (plan_reach b a k q False))")
    case True
    have "\<not> mate_loop b team k ps" by (rule Cons.IH) (use Cons.prems in auto)
    then show ?thesis using True by (simp add: aq)
  next
    case False
    then have "t \<in> set (squares_up_to_king a k)" using Cons.prems [of a q] aq by (simp add: attacks_def)
    then show ?thesis
      using False assms(2-4) by (force simp: aq list_ex_iff set_board_pieces)
  qed
qed simp

lemma mate_loop_no_answer:
  assumes "\<not> mate_loop b team k ps" "(a, q) \<in> set ps" "cp_team q \<noteq> team" "attacks b a q k"
  shows "\<exists>f p t. board_get b f = Some p \<and> cp_team p = team \<and> answers b team f t p"
  using assms
proof (induction ps)
  case (Cons aq ps)
  obtain a' q' where aq: "aq = (a', q')" by (cases aq)
  show ?case
  proof (cases "cp_team q' = team \<or> \<not> is_accepted (fst (plan_reach b a' k q' False))")
    case True
    then have "\<not> mate_loop b team k ps" using Cons.prems(1) by (simp add: aq)
    moreover have "(a, q) \<in> set ps" using Cons.prems(2-4) True by (auto simp: aq attacks_def)
    ultimately show ?thesis using Cons.IH Cons.prems by blast
  next
    case False
    then show ?thesis
      using Cons.prems(1) by (force simp: aq list_ex_iff set_board_pieces)
  qed
qed simp

lemma king_of_the_king:
  assumes "the_king b team k"
  shows "\<exists>kp. king_of b team = Some (k, kp) \<and> board_get b k = Some kp \<and> cp_type kp = King \<and> cp_team kp = team"
proof -
  obtain kp where kp: "board_get b k = Some kp" "cp_type kp = King" "cp_team kp = team"
    using assms by (auto simp: the_king_def king_at_def)
  have only: "s = k \<and> q = kp" if "(s, q) \<in> set (board_pieces b)" "cp_type q = King" "cp_team q = team" for s q
  proof -
    have "king_at b team s" using that by (auto simp: king_at_def set_board_pieces)
    then have "s = k" using assms by (simp add: the_king_def)
    then show ?thesis using that(1) kp(1) by (simp add: set_board_pieces)
  qed
  have "(k, kp) \<in> set (board_pieces b)" using kp(1) by (simp add: set_board_pieces)
  then have "king_of b team \<noteq> None"
    using kp(2,3) unfolding king_of_def find_None_iff by blast
  then obtain s q where sq: "king_of b team = Some (s, q)" by auto
  then have "(s, q) \<in> set (board_pieces b) \<and> cp_type q = King \<and> cp_team q = team"
    by (auto simp: king_of_def find_Some_iff in_set_conv_nth)
  then show ?thesis using only sq kp by blast
qed

lemma plan_move_in_check:
  assumes "plan_move b f t = (r, plan)" "is_accepted r" "is_in_check b (bd_turn b)"
  shows "\<exists>p. board_get b f = Some p \<and> cp_team p = bd_turn b \<and> plan_reach b f t p True = (r, plan) \<and>
    leaves_king_safe b plan (bd_turn b)"
  using assms by (auto simp: plan_move_def plan_castle_def refused split: if_splits option.splits prod.splits)

lemma plan_reach_not_en_passant:
  assumes "plan_reach b f t p True = (r, plan)" "is_accepted r" "move_kind r \<noteq> CAPTURED_EN_PASSANT"
  shows "\<exists>c. plan = (plan_step f t)\<lparr>pl_captured := c\<rparr> \<and> reaches b f t p c \<and> (c = None \<or> c = Some t)"
proof -
  have en_passant: "move_kind CAPTURED_EN_PASSANT = CAPTURED_EN_PASSANT" "move_kind (CAPTURED_EN_PASSANT OR PROMOTION) = CAPTURED_EN_PASSANT"
    by (simp_all add: move_kind_def is_accepted_def CAPTURED_EN_PASSANT_def PROMOTION_def MOVE_KIND_MASK_def)
  obtain c where c: "plan = (plan_step f t)\<lparr>pl_captured := c\<rparr>" "reaches b f t p c"
    using plan_reach_accepted [OF assms(1,2)] by blast
  have "pl_captured plan = None \<or> pl_captured plan = Some t"
    using assms en_passant
    by (auto simp: plan_reach_def Let_def refused finish_reach_def plan_step_def plan_default_def split: if_splits option.splits)
  then show ?thesis using c by auto
qed

lemma king_steps_all:
  assumes "\<bar>dx\<bar> < 2" "\<bar>dy\<bar> < 2" "dx \<noteq> 0 \<or> dy \<noteq> 0"
  shows "(dx, dy) \<in> set KING_STEPS"
proof -
  have "dx = -1 \<or> dx = 0 \<or> dx = 1" "dy = -1 \<or> dy = 0 \<or> dy = 1" using assms(1,2) by linarith+
  then show ?thesis using assms(3) by (elim disjE) (simp_all add: KING_STEPS_def)
qed

lemma escapes_mate:
  assumes ok: "game_ok b" and check: "is_in_check b (bd_turn b)"
    and move: "plan_move b f t = (r, plan)" "is_accepted r" "move_kind r \<noteq> CAPTURED_EN_PASSANT"
  shows "\<not> is_checkmated b (bd_turn b)"
proof -
  obtain p where p: "board_get b f = Some p" "cp_team p = bd_turn b"
    and reach: "plan_reach b f t p True = (r, plan)" and safe: "leaves_king_safe b plan (bd_turn b)"
    using plan_move_in_check [OF move(1,2) check] by blast
  obtain c where plan: "plan = (plan_step f t)\<lparr>pl_captured := c\<rparr>" and r: "reaches b f t p c" and c: "c = None \<or> c = Some t"
    using plan_reach_not_en_passant [OF reach move(2,3)] by blast
  note facts = reaches_facts [OF ok p r]
  have answer: "answers b (bd_turn b) f t p" using reach move(2) safe by (auto simp: answers_iff)
  obtain k kp where k: "the_king b (bd_turn b) k" and kp: "king_of b (bd_turn b) = Some (k, kp)" "board_get b k = Some kp"
      "cp_type kp = King" "cp_team kp = bd_turn b"
    using ok king_of_the_king unfolding game_ok_def by metis
  have "king_at b (bd_turn b) f \<longleftrightarrow> cp_type p = King" using p by (auto simp: king_at_def)
  then have f_king: "f = k \<longleftrightarrow> cp_type p = King" using k by (simp add: the_king_def)
  show ?thesis
  proof (cases "cp_type p = King")
    case True
    then have "\<bar>sq_x t - sq_x f\<bar> < 2" "\<bar>sq_y t - sq_y f\<bar> < 2"
      using r by (auto simp: reaches_def can_attack_def can_go_to_def forward_def Let_def split: if_splits)
    moreover have "sq_x t - sq_x f \<noteq> 0 \<or> sq_y t - sq_y f \<noteq> 0" using facts(1) square_eqI by auto
    ultimately have "(sq_x t - sq_x f, sq_y t - sq_y f) \<in> set KING_STEPS" by (rule king_steps_all)
    then have "list_ex (\<lambda>(dx, dy). answers b (bd_turn b) f (square (sq_x f + dx) (sq_y f + dy)) p) KING_STEPS"
      using answer unfolding list_ex_iff by (intro bexI) auto
    then show ?thesis using True f_king kp p(1) by (auto simp: is_checkmated_def)
  next
    case False
    define b' where "b' = chess_apply plan b"
    have bok: "board_ok b" using ok by (simp add: game_ok_def)
    have get: "board_get b' s = (if s = t then Some (landed p t) else if s = f \<or> c = Some s then None else board_get b s)" for s
      using apply_get [OF bok p(1) facts(2), of c s] facts(3) plan by (auto simp: b'_def)
    have cap: "\<exists>q. board_get b v = Some q \<and> cp_type q \<noteq> King" if "c = Some v" for v using facts(4) [OF that] by blast
    have k': "the_king b' (bd_turn b) k"
      using kings_after [OF k p(1) facts(1) cap facts(5) get] False by simp
    have tk: "t \<noteq> k" using r kp(2-4) p(2) c by (auto simp: reaches_def)
    have quiet: "\<not> attacks b' a q k" if "board_get b' a = Some q" "cp_team q \<noteq> cp_team kp" for a q
      using safe that kp(4) in_check_iff [OF k'] other_team by (auto simp: leaves_king_safe_def b'_def is_attacked_iff)
    have "\<not> mate_loop b (bd_turn b) k (board_pieces b)"
    proof (rule mate_loop_answer [OF _ p answer])
      fix a q assume a: "(a, q) \<in> set (board_pieces b)" "cp_team q \<noteq> bd_turn b" "attacks b a q k"
      then show "t \<in> set (squares_up_to_king a k)"
        using answer_stops [OF _ a(3) kp(2) _ tk _ _ get c quiet] kp(4) p f_king False set_board_pieces by fastforce
    qed
    then show ?thesis using kp(1) by (simp add: is_checkmated_def)
  qed
qed

lemma both_kings: "game_ok b \<Longrightarrow> has_both_kings b"
  unfolding has_both_kings_def ex_piece game_ok_def the_king_def king_at_def by metis

lemma answer_is_move:
  assumes ok: "game_ok b" and f: "board_get b f = Some p" "cp_team p = bd_turn b" and a: "answers b (bd_turn b) f t p"
  shows "is_accepted (fst (plan_move b f t))"
proof -
  obtain r plan where r: "plan_reach b f t p True = (r, plan)" "is_accepted r" "leaves_king_safe b plan (bd_turn b)"
    using a by (auto simp: answers_iff)
  obtain c where c: "reaches b f t p c" using plan_reach_accepted [OF r(1,2)] by blast
  then have "\<not> (cp_type p = King \<and> \<bar>sq_x t - sq_x f\<bar> = 2 \<and> sq_y t = sq_y f)"
    by (auto simp: reaches_def can_attack_def can_go_to_def Let_def split: if_splits)
  moreover have "on_board f" "on_board t" using get_on_board [OF f(1)] c by (simp_all add: reaches_def)
  ultimately have "plan_move b f t = (r, plan)"
    using both_kings [OF ok] f r by (auto simp: plan_move_def)
  then show ?thesis using r(2) by simp
qed

lemma not_mated_has_move:
  assumes ok: "game_ok b" and check: "is_in_check b (bd_turn b)" and alive: "\<not> is_checkmated b (bd_turn b)"
  shows "\<exists>f t. is_accepted (fst (plan_move b f t))"
proof -
  obtain k kp where k: "the_king b (bd_turn b) k" and kp: "king_of b (bd_turn b) = Some (k, kp)" "board_get b k = Some kp"
      "cp_team kp = bd_turn b"
    using ok king_of_the_king unfolding game_ok_def by metis
  obtain a q where a: "board_get b a = Some q" "cp_team q = opponent (bd_turn b)" "attacks b a q k"
    using check in_check_iff [OF k] by (auto simp: is_attacked_iff)
  have "\<exists>f p t. board_get b f = Some p \<and> cp_team p = bd_turn b \<and> answers b (bd_turn b) f t p"
  proof (cases "mate_loop b (bd_turn b) k (board_pieces b)")
    case True
    then have "list_ex (\<lambda>(dx, dy). answers b (bd_turn b) k (square (sq_x k + dx) (sq_y k + dy)) kp) KING_STEPS"
      using alive kp(1) by (auto simp: is_checkmated_def split: if_splits)
    then show ?thesis using kp(2,3) by (auto simp: list_ex_iff)
  next
    case False
    then show ?thesis using mate_loop_no_answer [of b "bd_turn b" k "board_pieces b" a q] a set_board_pieces by auto
  qed
  then show ?thesis using answer_is_move [OF ok] by blast
qed

lemma move_kind_flags:
  assumes "r \<in> plain_results"
  shows "move_kind (r OR CHECK) = move_kind r" "move_kind (r OR CHECKMATE) = move_kind r"
  using assms by (auto simp: plain_results_list move_kind_def is_accepted_def CHECK_def CHECKMATE_def MOVE_KIND_MASK_def)

lemma make_move_kind:
  assumes "is_accepted (fst (plan_move b f t))"
  shows "move_kind (fst (make_move f t b)) = move_kind (fst (plan_move b f t))"
proof -
  obtain r plan where r: "plan_move b f t = (r, plan)" by (cases "plan_move b f t")
  then show ?thesis
    using make_move_accepted [OF r] move_kind_flags plan_move_result [OF r] assms by simp
qed

section \<open>A game: 1. f3 e5 2. g4 Qh4 mate\<close>

definition fools_mate :: chess_board where
  "fools_mate = put (square 3 7) None (put (square 7 3) (Some (piece_moved Queen Black True))
     (put (square 6 1) None (put (square 6 3) (Some (piece_moved Pawn White True))
     (put (square 4 6) None (put (square 4 4) (Some (piece_moved Pawn Black True))
     (put (square 5 1) None (put (square 5 2) (Some (piece_moved Pawn White True)) (board_standard\<lparr>bd_ep_victim := square 6 3\<rparr>))))))))"

definition before_mate :: chess_board where
  "before_mate = snd (make_move (square 6 1) (square 6 3)
     (snd (make_move (square 4 6) (square 4 4) (snd (make_move (square 5 1) (square 5 2) board_standard)))))"

lemma before_mate_playable: "playable before_mate"
  unfolding before_mate_def by (intro playable.intros)

lemma mating_move: "make_move (square 3 7) (square 7 3) before_mate = (MOVED_TO_EMPTY_SQUARE OR CHECKMATE, fools_mate)"
  by code_simp

lemma fools_mate_playable: "playable fools_mate"
  using play [OF before_mate_playable, of "square 3 7" "square 7 3"] by (simp add: mating_move)

lemma fools_mate_facts: "is_in_check fools_mate White" "bd_turn fools_mate = White" "is_checkmated fools_mate White"
  by code_simp+

section \<open>The properties of the game\<close>

text \<open>
  C35. In every position of a game played from the opening with \<open>make_move\<close>, each side has exactly
  one king, the side that has just moved is not in check, no pawn stands on a last rank, and the
  board has its 64 squares.
\<close>

theorem chess_game_invariant:
  assumes "playable b"
  shows "(\<forall>team. \<exists>!s. \<exists>p. board_get b s = Some p \<and> cp_type p = King \<and> cp_team p = team) \<and>
    \<not> is_in_check b (opponent (bd_turn b)) \<and>
    (\<forall>s p. board_get b s = Some p \<and> cp_type p = Pawn \<longrightarrow> 1 \<le> sq_y s \<and> sq_y s \<le> 6) \<and>
    length (bd_squares b) = 64"
proof -
  have ok: "game_ok b" by (rule playable_ok [OF assms])
  have "\<exists>!s. \<exists>p. board_get b s = Some p \<and> cp_type p = King \<and> cp_team p = team" for team
    using ok unfolding game_ok_def the_king_def king_at_def by metis
  then show ?thesis using ok by (simp add: game_ok_def pieces_ok_def board_ok_def)
qed

lemma chess_game_invariant_witness: "playable fools_mate \<and> \<not> is_in_check fools_mate Black"
proof -
  have "\<not> is_in_check fools_mate (opponent (bd_turn fools_mate))"
    using chess_game_invariant [OF fools_mate_playable] by blast
  then show ?thesis using fools_mate_playable fools_mate_facts(2) by (simp add: opponent_def)
qed

text \<open>
  C36. In a game, a refused move leaves the board as it was; an accepted one passes the turn, does
  not leave the mover in check, and its result carries the check flag exactly when the other side is
  in check but not mated, and the checkmate flag exactly when it is mated.
\<close>

theorem make_move_contract:
  assumes "playable b" "make_move f t b = (r, b')"
  shows "if is_accepted r
    then bd_turn b' = opponent (bd_turn b) \<and> \<not> is_in_check b' (bd_turn b) \<and>
      (gives_check r \<longleftrightarrow> is_in_check b' (bd_turn b') \<and> \<not> is_checkmated b' (bd_turn b')) \<and>
      (gives_checkmate r \<longleftrightarrow> is_in_check b' (bd_turn b') \<and> is_checkmated b' (bd_turn b'))
    else b' = b"
proof (cases "plan_move b f t")
  case (Pair r0 plan)
  show ?thesis
  proof (cases "is_accepted r0")
    case True
    have "game_ok b'" using make_move_ok [OF playable_ok [OF assms(1)], of f t] assms(2) by simp
    moreover have turn: "bd_turn b' = opponent (bd_turn b)"
      using assms(2) make_move_board [OF Pair True] by simp
    ultimately have "\<not> is_in_check b' (bd_turn b)" by (simp add: game_ok_def)
    then show ?thesis
      using turn assms(2) plain_result_flags [OF plan_move_result [OF Pair True]]
      by (auto simp: make_move_accepted [OF Pair True] simp del: in_check_turn split: if_splits)
  next
    case False
    then show ?thesis using assms(2) make_move_refused [of b f t] Pair by simp
  qed
qed

lemma make_move_contract_witness:
  "is_checkmated fools_mate White \<and> gives_checkmate (MOVED_TO_EMPTY_SQUARE OR CHECKMATE)"
proof -
  have "is_accepted (MOVED_TO_EMPTY_SQUARE OR CHECKMATE)"
    using plain_result_flags(9) [of MOVED_TO_EMPTY_SQUARE] by (simp add: plain_results_list MOVED_TO_EMPTY_SQUARE_def)
  then show ?thesis
    using make_move_contract [OF before_mate_playable mating_move] fools_mate_facts by simp
qed

text \<open>
  C34. Checkmate is what it should be. For a side in check in a game, \<open>is_checkmated\<close> says yes only
  when every move still accepted is an en passant capture (which the code documents it does not
  count), and no only when some move is accepted.
\<close>

theorem checkmate_means_no_move:
  assumes "playable b" "is_in_check b (bd_turn b)"
  shows "if is_checkmated b (bd_turn b)
    then \<forall>f t. is_accepted (fst (make_move f t b)) \<longrightarrow> move_kind (fst (make_move f t b)) = CAPTURED_EN_PASSANT
    else \<exists>f t. is_accepted (fst (make_move f t b))"
proof (cases "is_checkmated b (bd_turn b)")
  case True
  have "move_kind (fst (make_move f t b)) = CAPTURED_EN_PASSANT" if "is_accepted (fst (make_move f t b))" for f t
  proof -
    obtain r plan where r: "plan_move b f t = (r, plan)" by (cases "plan_move b f t")
    then have "is_accepted r" using that by (simp add: fst_make_move_accepted)
    then show ?thesis
      using escapes_mate [OF playable_ok [OF assms(1)] assms(2) r] True make_move_kind [of b f t] r by auto
  qed
  then show ?thesis using True by simp
next
  case False
  then show ?thesis
    using not_mated_has_move [OF playable_ok [OF assms(1)] assms(2)] by (simp add: fst_make_move_accepted)
qed

lemma checkmate_means_no_move_witness:
  "is_checkmated fools_mate White \<and>
   {(f, t). is_accepted (fst (make_move f t fools_mate))} \<subseteq>
   {(f, t). move_kind (fst (make_move f t fools_mate)) = CAPTURED_EN_PASSANT}"
proof -
  have "is_in_check fools_mate (bd_turn fools_mate)" using fools_mate_facts by simp
  from checkmate_means_no_move [OF fools_mate_playable this] fools_mate_facts show ?thesis by auto
qed

text \<open>
  The \<open>while square != to\<close> of \<open>path_is_clear\<close> ends for every pair of squares on a line, on any
  board, with the answer whether all squares strictly between them are empty.
\<close>

theorem chess_path_walk_ends:
  assumes "on_line (sq_x to - sq_x from) (sq_y to - sq_y from)"
  shows "\<exists>r. walk_clear b to (sgn (sq_x to - sq_x from)) (sgn (sq_y to - sq_y from))
      (square (sq_x from + sgn (sq_x to - sq_x from)) (sq_y from + sgn (sq_y to - sq_y from))) = Some r \<and>
    (r \<longleftrightarrow> (\<forall>i \<in> {1..<distance from to}. board_get b (toward from to i) = None))"
  using walk_clear_start [OF assms] by blast

lemma chess_path_walk_ends_witness:
  "\<exists>r. walk_clear board_standard (square 7 7) 1 1 (square 1 1) = Some r \<and>
     (r \<longleftrightarrow> (\<forall>i \<in> {1..<distance (square 0 0) (square 7 7)}. board_get board_standard (toward (square 0 0) (square 7 7) i) = None))"
  using chess_path_walk_ends [of "square 7 7" "square 0 0" board_standard] by (simp add: on_line_def)
end
