(* ===== verification/Utf8.thy ===== *)
theory Utf8
  imports Net_Prelude
begin

text \<open>
  UTF-8 as the Rust standard library has it: what \<open>str::from_utf8\<close> accepts, the characters of
  a string, encoding one character, and character boundaries. A Rust string is its bytes; a
  character is its code point, a natural number.
\<close>

section \<open>Encoding and decoding\<close>

definition is_scalar :: "nat \<Rightarrow> bool" where
  "is_scalar c \<longleftrightarrow> c < 0xD800 \<or> 0xE000 \<le> c \<and> c < 0x110000"

definition utf8_encode :: "nat \<Rightarrow> bytes" where
  "utf8_encode c =
     (if c < 0x80 then [word_of_nat c]
      else if c < 0x800 then [word_of_nat (0xC0 + c div 64), word_of_nat (0x80 + c mod 64)]
      else if c < 0x10000
      then [word_of_nat (0xE0 + c div 4096), word_of_nat (0x80 + c div 64 mod 64), word_of_nat (0x80 + c mod 64)]
      else [word_of_nat (0xF0 + c div 262144), word_of_nat (0x80 + c div 4096 mod 64),
            word_of_nat (0x80 + c div 64 mod 64), word_of_nat (0x80 + c mod 64)])"

definition is_continuation :: "u8 \<Rightarrow> bool" where
  "is_continuation b \<longleftrightarrow> 0x80 \<le> b \<and> b < 0xC0"

text \<open>The first character, when it is encoded as the standard demands.\<close>

definition utf8_char :: "bytes \<Rightarrow> (nat \<times> bytes) option" where
  "utf8_char bs =
     (case bs of
        [] \<Rightarrow> None
      | a # bs \<Rightarrow>
          if a < 0x80 then Some (unat a, bs)
          else if a < 0xC2 then None
          else if a < 0xE0 then
            (case bs of
               b # bs \<Rightarrow> if is_continuation b then Some ((unat a - 0xC0) * 64 + (unat b - 0x80), bs) else None
             | _ \<Rightarrow> None)
          else if a < 0xF0 then
            (case bs of
               b # c # bs \<Rightarrow>
                 if is_continuation b \<and> is_continuation c \<and> (a = 0xE0 \<longrightarrow> 0xA0 \<le> b) \<and> (a = 0xED \<longrightarrow> b < 0xA0)
                 then Some ((unat a - 0xE0) * 4096 + (unat b - 0x80) * 64 + (unat c - 0x80), bs) else None
             | _ \<Rightarrow> None)
          else if a < 0xF5 then
            (case bs of
               b # c # d # bs \<Rightarrow>
                 if is_continuation b \<and> is_continuation c \<and> is_continuation d \<and>
                    (a = 0xF0 \<longrightarrow> 0x90 \<le> b) \<and> (a = 0xF4 \<longrightarrow> b < 0x90)
                 then Some ((unat a - 0xF0) * 262144 + (unat b - 0x80) * 4096 + (unat c - 0x80) * 64 + (unat d - 0x80), bs)
                 else None
             | _ \<Rightarrow> None)
          else None)"

lemma utf8_char_shorter: "utf8_char bs = Some (c, rest) \<Longrightarrow> length rest < length bs"
  by (auto simp: utf8_char_def split: list.splits if_splits)

text \<open>The characters up to the first invalid sequence, and what is left from there.\<close>

function utf8_chars :: "bytes \<Rightarrow> nat list \<times> bytes" where
  "utf8_chars bs =
     (case utf8_char bs of
        None \<Rightarrow> ([], bs)
      | Some (c, rest) \<Rightarrow> let (cs, end) = utf8_chars rest in (c # cs, end))"
  by pat_completeness auto
termination
  by (relation "measure length") (auto dest: utf8_char_shorter)

declare utf8_chars.simps [simp del]

definition utf8_valid :: "bytes \<Rightarrow> bool" where
  "utf8_valid bs \<longleftrightarrow> snd (utf8_chars bs) = []"

text \<open>\<open>error.valid_up_to()\<close>.\<close>

definition utf8_valid_up_to :: "bytes \<Rightarrow> nat" where
  "utf8_valid_up_to bs = length bs - length (snd (utf8_chars bs))"

text \<open>\<open>s.chars().count()\<close> of a valid string, and the indices \<open>&s[a..b]\<close> does not panic at.\<close>

definition char_count :: "bytes \<Rightarrow> nat" where
  "char_count bs = length (filter (\<lambda>b. \<not> is_continuation b) bs)"

definition is_boundary :: "bytes \<Rightarrow> nat \<Rightarrow> bool" where
  "is_boundary bs i \<longleftrightarrow> i = length bs \<or> i < length bs \<and> \<not> is_continuation (bs ! i)"

definition str_slice :: "bytes \<Rightarrow> nat \<Rightarrow> nat \<Rightarrow> bytes option" where
  "str_slice bs a b = (if a \<le> b \<and> is_boundary bs a \<and> is_boundary bs b then Some (subslice bs a b) else None)"

section \<open>Encoding and decoding are inverse\<close>

lemmas byte_nat = word_less_nat_alt word_le_nat_alt word_unat_eq_iff

lemma unat_byte [simp]: "n < 256 \<Longrightarrow> unat (word_of_nat n :: u8) = n"
  by (simp add: unat_of_nat_small)

lemma byte_of_nat: "unat (a :: u8) = n \<Longrightarrow> word_of_nat n = a"
  by auto

text \<open>The base-64 digits of a code point.\<close>

lemma digits3:
  fixes x y z :: nat
  assumes "y < 64" "z < 64"
  shows "(x * 4096 + y * 64 + z) div 4096 = x" "(x * 4096 + y * 64 + z) div 64 mod 64 = y" "(x * 4096 + y * 64 + z) mod 64 = z"
proof -
  have d: "(x * 4096 + y * 64 + z) div 64 = x * 64 + y"
  proof -
    have "x * 4096 + y * 64 + z = z + 64 * (x * 64 + y)" by simp
    then show ?thesis using assms(2) by (simp only: div_mult_self2 zero_neq_numeral not_False_eq_True div_less)
  qed
  then show "(x * 4096 + y * 64 + z) div 64 mod 64 = y" using assms(1) by simp
  show "(x * 4096 + y * 64 + z) div 4096 = x"
    using d assms(1) div_mult2_eq [of "x * 4096 + y * 64 + z" 64 64] by simp
  have "x * 4096 + y * 64 + z = z + 64 * (x * 64 + y)" by simp
  then show "(x * 4096 + y * 64 + z) mod 64 = z" using assms(2) by (simp only: mod_mult_self2 mod_less)
qed

lemma digits4:
  fixes x y z w :: nat
  assumes "y < 64" "z < 64" "w < 64"
  shows "(x * 262144 + y * 4096 + z * 64 + w) div 262144 = x" "(x * 262144 + y * 4096 + z * 64 + w) div 4096 mod 64 = y"
    "(x * 262144 + y * 4096 + z * 64 + w) div 64 mod 64 = z" "(x * 262144 + y * 4096 + z * 64 + w) mod 64 = w"
proof -
  have e: "x * 262144 + y * 4096 + z * 64 + w = (x * 64 + y) * 4096 + z * 64 + w" by simp
  note d = digits3 [OF assms(2,3), of "x * 64 + y", folded e]
  show "(x * 262144 + y * 4096 + z * 64 + w) div 64 mod 64 = z" "(x * 262144 + y * 4096 + z * 64 + w) mod 64 = w"
    by (rule d(2), rule d(3))
  show "(x * 262144 + y * 4096 + z * 64 + w) div 4096 mod 64 = y" unfolding d(1) using assms(1) by simp
  show "(x * 262144 + y * 4096 + z * 64 + w) div 262144 = x"
    using d(1) assms(1) div_mult2_eq [of "x * 262144 + y * 4096 + z * 64 + w" 4096 64] by simp
qed

lemma utf8_encode_char:
  assumes "is_scalar c"
  shows "utf8_char (utf8_encode c @ rest) = Some (c, rest)"
proof -
  consider "c < 0x80" | "0x80 \<le> c" "c < 0x800" | "0x800 \<le> c" "c < 0x10000" | "0x10000 \<le> c" "c < 0x110000"
  proof -
    have "c < 0x110000" using assms by (auto simp: is_scalar_def)
    then show ?thesis using that by (metis not_le)
  qed
  then show ?thesis
  proof cases
    case 1
    then show ?thesis by (simp add: utf8_encode_def utf8_char_def byte_nat)
  next
    case 2
    define x y where "x = c div 64" and "y = c mod 64"
    have xy: "c = x * 64 + y" "2 \<le> x" "x < 32" "y < 64" using 2 by (simp_all add: x_def y_def)
    have enc: "utf8_encode c = [word_of_nat (192 + x), word_of_nat (128 + y)]"
      using 2 by (simp add: utf8_encode_def x_def y_def)
    show ?thesis unfolding enc using xy by (simp add: utf8_char_def byte_nat is_continuation_def del: of_nat_add)
  next
    case 3
    define x y z where "x = c div 4096" and "y = c div 64 mod 64" and "z = c mod 64"
    have "c div 64 div 64 = x" by (simp add: x_def div_mult2_eq [symmetric])
    then have "c div 64 = x * 64 + y" using div_mult_mod_eq [of "c div 64" 64] by (simp add: y_def)
    then have c: "c = x * 4096 + y * 64 + z" using div_mult_mod_eq [of c 64] by (simp add: z_def)
    have xyz: "y < 64" "z < 64" by (simp_all add: y_def z_def)
    have lim: "x < 16" "x = 0 \<longrightarrow> 32 \<le> y" "x = 13 \<longrightarrow> y < 32"
      using 3 assms c xyz unfolding is_scalar_def by linarith+
    have enc: "utf8_encode c = [word_of_nat (224 + x), word_of_nat (128 + y), word_of_nat (128 + z)]"
      using 3 by (simp add: utf8_encode_def x_def y_def z_def)
    show ?thesis unfolding enc using xyz lim c by (simp add: utf8_char_def byte_nat is_continuation_def del: of_nat_add)
  next
    case 4
    define x y z w where "x = c div 262144" and "y = c div 4096 mod 64" and "z = c div 64 mod 64" and "w = c mod 64"
    have "c div 4096 div 64 = x" "c div 64 div 64 = c div 4096" by (simp_all add: x_def div_mult2_eq [symmetric])
    then have "c div 4096 = x * 64 + y" "c div 64 = c div 4096 * 64 + z"
      using div_mult_mod_eq [of "c div 4096" 64] div_mult_mod_eq [of "c div 64" 64] by (simp_all add: y_def z_def)
    then have c: "c = x * 262144 + y * 4096 + z * 64 + w" using div_mult_mod_eq [of c 64] by (simp add: w_def)
    have xyz: "y < 64" "z < 64" "w < 64" by (simp_all add: y_def z_def w_def)
    have lim: "x < 5" "x = 0 \<longrightarrow> 16 \<le> y" "x = 4 \<longrightarrow> y < 16" using 4 c xyz by linarith+
    have enc: "utf8_encode c = [word_of_nat (240 + x), word_of_nat (128 + y), word_of_nat (128 + z), word_of_nat (128 + w)]"
      using 4 by (simp add: utf8_encode_def x_def y_def z_def w_def)
    show ?thesis unfolding enc using xyz lim c by (simp add: utf8_char_def byte_nat is_continuation_def del: of_nat_add)
  qed
qed

lemma utf8_char_encode:
  assumes "utf8_char bs = Some (c, rest)"
  shows "bs = utf8_encode c @ rest \<and> is_scalar c"
proof -
  obtain a as where bs: "bs = a # as" using assms by (cases bs) (auto simp: utf8_char_def)
  consider "unat a < 128" | "194 \<le> unat a" "unat a < 224" | "224 \<le> unat a" "unat a < 240" | "240 \<le> unat a" "unat a < 245"
    using assms by (auto simp: bs utf8_char_def byte_nat split: if_splits)
  then show ?thesis
  proof cases
    case 1
    then have "c = unat a" "rest = as" using assms by (simp_all add: bs utf8_char_def byte_nat)
    then show ?thesis using 1 by (simp add: bs utf8_encode_def is_scalar_def)
  next
    case 2
    then obtain b where b: "as = b # rest" "128 \<le> unat b" "unat b < 192" "c = (unat a - 192) * 64 + (unat b - 128)"
      using assms by (auto simp: bs utf8_char_def byte_nat is_continuation_def split: list.splits if_splits)
    define x y where "x = unat a - 192" and "y = unat b - 128"
    have xy: "unat a = 192 + x" "unat b = 128 + y" "2 \<le> x" "x < 32" "y < 64"
      using 2 b(2,3) by (simp_all add: x_def y_def)
    have c: "c = x * 64 + y" using b(4) xy by simp
    then have "c div 64 = x" "c mod 64 = y" "128 \<le> c" "c < 2048" using xy by simp_all
    then show ?thesis using xy byte_of_nat [OF xy(1)] byte_of_nat [OF xy(2)] by (simp add: bs b(1) utf8_encode_def is_scalar_def del: of_nat_add)
  next
    case 3
    then obtain b d where b: "as = b # d # rest" "128 \<le> unat b" "unat b < 192" "128 \<le> unat d" "unat d < 192"
      "unat a = 224 \<longrightarrow> 160 \<le> unat b" "unat a = 237 \<longrightarrow> unat b < 160"
      "c = (unat a - 224) * 4096 + (unat b - 128) * 64 + (unat d - 128)"
      using assms by (auto simp: bs utf8_char_def byte_nat is_continuation_def split: list.splits if_splits)
    define x y z where "x = unat a - 224" and "y = unat b - 128" and "z = unat d - 128"
    have xy: "unat a = 224 + x" "unat b = 128 + y" "unat d = 128 + z" "x < 16" "y < 64" "z < 64"
      using 3 b(2-5) by (simp_all add: x_def y_def z_def)
    have c: "c = x * 4096 + y * 64 + z" using b(8) xy by simp
    have e: "x = 0 \<longrightarrow> 32 \<le> y" "x = 13 \<longrightarrow> y < 32" using b(6,7) xy by simp_all
    have big: "c < 65536" "2048 \<le> c" using c xy(4-6) e by linarith+
    have "x \<le> 12 \<or> x = 13 \<or> 14 \<le> x" by linarith
    then have "is_scalar c" using c xy(4-6) e unfolding is_scalar_def by (elim disjE) simp_all
    then show ?thesis
      using big digits3 [OF xy(5,6), of x, folded c] byte_of_nat [OF xy(1)] byte_of_nat [OF xy(2)] byte_of_nat [OF xy(3)] by (simp add: bs b(1) utf8_encode_def del: of_nat_add)
  next
    case 4
    then obtain b d e where b: "as = b # d # e # rest" "128 \<le> unat b" "unat b < 192" "128 \<le> unat d" "unat d < 192"
      "128 \<le> unat e" "unat e < 192" "unat a = 240 \<longrightarrow> 144 \<le> unat b" "unat a = 244 \<longrightarrow> unat b < 144"
      "c = (unat a - 240) * 262144 + (unat b - 128) * 4096 + (unat d - 128) * 64 + (unat e - 128)"
      using assms by (auto simp: bs utf8_char_def byte_nat is_continuation_def split: list.splits if_splits)
    define x y z w where "x = unat a - 240" and "y = unat b - 128" and "z = unat d - 128" and "w = unat e - 128"
    have xy: "unat a = 240 + x" "unat b = 128 + y" "unat d = 128 + z" "unat e = 128 + w" "x < 5" "y < 64" "z < 64" "w < 64"
      using 4 b(2-7) by (simp_all add: x_def y_def z_def w_def)
    have c: "c = x * 262144 + y * 4096 + z * 64 + w" using b(10) xy by simp
    have f: "x = 0 \<longrightarrow> 16 \<le> y" "x = 4 \<longrightarrow> y < 16" using b(8,9) xy by simp_all
    have big: "65536 \<le> c" "c < 1114112" using c f xy(5-8) by linarith+
    then have "is_scalar c" by (simp add: is_scalar_def)
    then show ?thesis
      using big digits4 [OF xy(6,7,8), of x, folded c] byte_of_nat [OF xy(1)] byte_of_nat [OF xy(2)] byte_of_nat [OF xy(3)] byte_of_nat [OF xy(4)]
      by (simp add: bs b(1) utf8_encode_def del: of_nat_add)
  qed
qed

lemma utf8_valid_induct [consumes 1, case_names Nil char]:
  assumes "utf8_valid bs" "P []"
    and "\<And>c rest. is_scalar c \<Longrightarrow> utf8_valid rest \<Longrightarrow> P rest \<Longrightarrow> P (utf8_encode c @ rest)"
  shows "P bs"
  using assms(1)
proof (induction bs rule: utf8_chars.induct)
  case (1 bs)
  show ?case
  proof (cases "utf8_char bs")
    case None
    then show ?thesis using "1.prems" assms(2) by (simp add: utf8_valid_def utf8_chars.simps [of bs])
  next
    case (Some p)
    obtain c rest where p: "p = (c, rest)" by (cases p)
    then have v: "utf8_valid rest" using "1.prems" Some by (auto simp: utf8_valid_def utf8_chars.simps [of bs] split_beta)
    have "P rest" using "1.IH" [OF Some] p v by simp
    then show ?thesis using utf8_char_encode [of bs c rest] Some p assms(3) v by simp
  qed
qed

lemma utf8_chars_Nil [simp]: "utf8_chars [] = ([], [])"
  by (simp add: utf8_chars.simps utf8_char_def)

lemma utf8_chars_encode [simp]:
  "is_scalar c \<Longrightarrow> utf8_chars (utf8_encode c @ rest) = (c # fst (utf8_chars rest), snd (utf8_chars rest))"
  by (simp add: utf8_chars.simps [of "utf8_encode c @ rest"] utf8_encode_char split_beta)

lemma utf8_valid_encode [simp]: "is_scalar c \<Longrightarrow> utf8_valid (utf8_encode c @ rest) \<longleftrightarrow> utf8_valid rest"
  by (simp add: utf8_valid_def)

lemma utf8_valid_Nil [simp]: "utf8_valid []"
  by (simp add: utf8_valid_def)

lemma utf8_chars_scalar: "utf8_valid bs \<Longrightarrow> list_all is_scalar (fst (utf8_chars bs))"
  by (induction rule: utf8_valid_induct) simp_all

lemma utf8_chars_concat: "utf8_valid bs \<Longrightarrow> concat (map utf8_encode (fst (utf8_chars bs))) = bs"
  by (induction rule: utf8_valid_induct) simp_all

lemma utf8_valid_append: "utf8_valid bs \<Longrightarrow> utf8_valid cs \<Longrightarrow> utf8_valid (bs @ cs)"
  by (induction rule: utf8_valid_induct) simp_all

section \<open>Boundaries\<close>

lemma utf8_encode_heads:
  assumes "is_scalar c"
  shows "utf8_encode c \<noteq> [] \<and> \<not> is_continuation (hd (utf8_encode c)) \<and> list_all is_continuation (tl (utf8_encode c))"
proof -
  have c: "c < 0x110000" using assms by (auto simp: is_scalar_def)
  have d: "c < 0x800 \<Longrightarrow> c div 64 < 32" "c < 0x10000 \<Longrightarrow> c div 4096 < 16" "c div 262144 < 5" using c by simp_all
  have m: "n mod 64 < 64" for n :: nat by simp
  have k: "is_continuation (word_of_nat (128 + n mod 64))" for n using m [of n] by (simp add: is_continuation_def byte_nat del: of_nat_add)
  have h: "n < 128 \<or> 192 \<le> n \<and> n < 256 \<Longrightarrow> \<not> is_continuation (word_of_nat n)" for n
    by (auto simp: is_continuation_def byte_nat)
  show ?thesis using d by (simp add: utf8_encode_def k h del: of_nat_add)
qed

lemma utf8_valid_cases:
  assumes "utf8_valid bs"
  shows "bs = [] \<or> (\<exists>c rest. bs = utf8_encode c @ rest \<and> is_scalar c \<and> utf8_valid rest)"
  using assms by (induction rule: utf8_valid_induct) blast+

lemma utf8_valid_head: "utf8_valid (b # bs) \<Longrightarrow> \<not> is_continuation b"
  using utf8_valid_cases [of "b # bs"] utf8_encode_heads by (metis hd_append2 list.distinct(1) list.sel(1))

lemma utf8_encode_ascii: "c < 0x80 \<Longrightarrow> utf8_encode c = [word_of_nat c]"
  by (simp add: utf8_encode_def)

lemma ascii_scalar: "(b :: u8) < 0x80 \<Longrightarrow> is_scalar (unat b) \<and> utf8_encode (unat b) = [b]"
  by (simp add: is_scalar_def utf8_encode_def byte_nat)

lemma utf8_valid_ascii_Cons: "b < 0x80 \<Longrightarrow> utf8_valid (b # bs) \<longleftrightarrow> utf8_valid bs"
  using ascii_scalar [of b] utf8_valid_encode [of "unat b" bs] by simp

lemma utf8_valid_split: "utf8_valid bs \<Longrightarrow> is_boundary bs i \<Longrightarrow> utf8_valid (take i bs) \<and> utf8_valid (drop i bs)"
proof (induction bs arbitrary: i rule: utf8_valid_induct)
  case (char c rest)
  note h = utf8_encode_heads [OF char.hyps(1)]
  let ?n = "length (utf8_encode c)"
  consider "i = 0" | "0 < i" "i < ?n" | "?n \<le> i" by linarith
  then show ?case
  proof cases
    case 1
    then show ?thesis using char.hyps by simp
  next
    case 2
    then have "utf8_encode c ! i = tl (utf8_encode c) ! (i - 1)" "i - 1 < length (tl (utf8_encode c))" by (simp_all add: nth_tl)
    then have "is_continuation (utf8_encode c ! i)" using h by (simp add: list_all_length)
    then show ?thesis using char.prems 2 by (simp add: is_boundary_def nth_append)
  next
    case 3
    then have "is_boundary rest (i - ?n)" using char.prems by (auto simp: is_boundary_def nth_append)
    from char.IH [OF this] show ?thesis using 3 char.hyps(1) by simp
  qed
qed simp

lemma utf8_valid_slice:
  assumes "utf8_valid bs" "a \<le> b" "is_boundary bs a" "is_boundary bs b"
  shows "utf8_valid (subslice bs a b)"
proof -
  have "utf8_valid (drop a bs)" using utf8_valid_split [OF assms(1,3)] by simp
  moreover have "is_boundary (drop a bs) (b - a)" using assms(2,4) by (auto simp: is_boundary_def)
  ultimately show ?thesis using utf8_valid_split by (simp add: subslice_def)
qed

lemma boundary_ascii: "i < length bs \<Longrightarrow> bs ! i < 0x80 \<Longrightarrow> is_boundary bs i"
  by (auto simp: is_boundary_def is_continuation_def)

lemma boundary_end [simp]: "is_boundary bs (length bs)"
  by (simp add: is_boundary_def)

lemma boundary_start: "utf8_valid bs \<Longrightarrow> is_boundary bs 0"
  using utf8_valid_head [of "hd bs" "tl bs"] by (cases bs) (auto simp: is_boundary_def)

lemma boundary_after_ascii:
  assumes "utf8_valid bs" "i < length bs" "bs ! i < 0x80"
  shows "is_boundary bs (Suc i)"
proof -
  have "utf8_valid (drop i bs)" using utf8_valid_split [OF assms(1) boundary_ascii [OF assms(2,3)]] by simp
  then have v: "utf8_valid (drop (Suc i) bs)"
    using assms(2,3) by (simp add: Cons_nth_drop_Suc [symmetric] utf8_valid_ascii_Cons)
  show ?thesis
  proof (cases "Suc i = length bs")
    case False
    then have l: "Suc i < length bs" using assms(2) by simp
    then have "drop (Suc i) bs = bs ! Suc i # drop (Suc (Suc i)) bs" by (simp add: Cons_nth_drop_Suc)
    then show ?thesis using utf8_valid_head v l by (simp add: is_boundary_def)
  qed simp
qed
end
