(* ===== verification/Json.thy ===== *)
theory Json
  imports Utf8
begin

text \<open>
  \<open>crates/ac-host-core/src/json.rs\<close>: the strict JSON reader for configuration documents and the
  writer. The reader's functions return a value and the parser as they leave it, an error, or a
  panic: \<open>here\<close> slices the text and panics when an end of the slice is inside a character. The
  recursion runs on fuel; \<open>Json_Read\<close> shows that the fuel \<open>parse\<close> gives never runs out.
\<close>

section \<open>Values, positions and errors\<close>

definition MAX_DEPTH :: nat where "MAX_DEPTH = 64"

record json_pos =
  jq_line :: u32
  jq_column :: u32

datatype json_value =
    JNull
  | JBool bool
  | JNumber bytes
  | JString bytes
  | JArray "json_node list"
  | JObject "json_member list"
and json_node = Node (node_value: json_value) (node_at: json_pos)
and json_member = Member (member_name: bytes) (member_value: json_node) (member_at: json_pos)

definition node_made :: "json_value \<Rightarrow> json_node" where
  "node_made v = Node v \<lparr>jq_line = 0, jq_column = 0\<rparr>"

definition member_made :: "bytes \<Rightarrow> json_value \<Rightarrow> json_member" where
  "member_made name v = Member name (node_made v) \<lparr>jq_line = 0, jq_column = 0\<rparr>"

datatype json_error_kind =
    NotUtf8
  | EmptyDocument
  | Syntax string
  | TooDeep
  | DuplicateMember
  | UnknownMember
  | MissingMember bytes
  | WrongType string
  | OutOfRange
  | UnknownEnumValue

record json_error =
  je_kind :: json_error_kind
  je_at :: json_pos

section \<open>The parser\<close>

record json_parser =
  jp_text :: bytes
  jp_offset :: nat
  jp_line :: nat
  jp_line_start :: nat

datatype 'a parsed = Done 'a json_parser | Fails json_error | Panics | NoFuel

text \<open>The \<open>?\<close> operator.\<close>

fun and_then :: "'a parsed \<Rightarrow> ('a \<Rightarrow> json_parser \<Rightarrow> 'b parsed) \<Rightarrow> 'b parsed" where
  "and_then (Done x p) f = f x p"
| "and_then (Fails e) f = Fails e"
| "and_then Panics f = Panics"
| "and_then NoFuel f = NoFuel"

definition saturate32 :: "nat \<Rightarrow> u32" where
  "saturate32 n = (if n < 2 ^ 32 then word_of_nat n else - 1)"

definition position_of :: "bytes \<Rightarrow> nat \<Rightarrow> json_pos" where
  "position_of txt offset =
     (let before = take offset txt;
          line = length (filter (\<lambda>b. b = 0x0A) before) + 1;
          last_line = rev (takeWhile (\<lambda>b. b \<noteq> 0x0A) (rev before))
      in \<lparr>jq_line = saturate32 line, jq_column = saturate32 (char_count last_line + 1)\<rparr>)"

definition here :: "json_parser \<Rightarrow> json_pos option" where
  "here p = map_option
     (\<lambda>s. \<lparr>jq_line = saturate32 (jp_line p), jq_column = saturate32 (char_count s + 1)\<rparr>)
     (str_slice (jp_text p) (jp_line_start p) (jp_offset p))"

definition json_fail :: "json_error_kind \<Rightarrow> json_parser \<Rightarrow> 'a parsed" where
  "json_fail kind p =
     (case here p of None \<Rightarrow> Panics | Some at \<Rightarrow> Fails \<lparr>je_kind = kind, je_at = at\<rparr>)"

definition peek :: "json_parser \<Rightarrow> u8 option" where
  "peek p = (if jp_offset p < length (jp_text p) then Some (jp_text p ! jp_offset p) else None)"

definition advance :: "nat \<Rightarrow> json_parser \<Rightarrow> json_parser" where
  "advance n p = p\<lparr>jp_offset := jp_offset p + n\<rparr>"

lemma peek_less: "peek p = Some b \<Longrightarrow> jp_offset p < length (jp_text p)"
  by (simp add: peek_def split: if_splits)

function skip_whitespace :: "json_parser \<Rightarrow> json_parser" where
  "skip_whitespace p =
     (case peek p of
        None \<Rightarrow> p
      | Some byte \<Rightarrow>
          if byte = 0x20 \<or> byte = 0x09 \<or> byte = 0x0D then skip_whitespace (advance 1 p)
          else if byte = 0x0A then
            let p = advance 1 p
            in skip_whitespace (p\<lparr>jp_line := jp_line p + 1, jp_line_start := jp_offset p\<rparr>)
          else p)"
  by pat_completeness auto
termination
  by (relation "measure (\<lambda>p. length (jp_text p) - jp_offset p)") (auto simp: advance_def dest: peek_less)

declare skip_whitespace.simps [simp del]

definition expect :: "u8 \<Rightarrow> string \<Rightarrow> json_parser \<Rightarrow> unit parsed" where
  "expect byte what p = (if peek p = Some byte then Done () (advance 1 p) else json_fail (Syntax what) p)"

text \<open>\<open>self.text[self.offset..].starts_with(word)\<close>; \<open>None\<close> when the slice panics.\<close>

definition starts_with :: "bytes \<Rightarrow> json_parser \<Rightarrow> bool option" where
  "starts_with word p =
     map_option (\<lambda>s. take (length word) s = word) (str_slice (jp_text p) (jp_offset p) (length (jp_text p)))"

definition literal :: "bytes \<Rightarrow> json_value \<Rightarrow> json_parser \<Rightarrow> json_value parsed" where
  "literal word v p =
     (case starts_with word p of
        None \<Rightarrow> Panics
      | Some True \<Rightarrow> Done v (advance (length word) p)
      | Some False \<Rightarrow> json_fail (Syntax ''expected a value'') p)"

section \<open>Numbers\<close>

definition is_digit :: "u8 \<Rightarrow> bool" where
  "is_digit b \<longleftrightarrow> 0x30 \<le> b \<and> b \<le> 0x39"

definition peek_digit :: "json_parser \<Rightarrow> bool" where
  "peek_digit p = (case peek p of None \<Rightarrow> False | Some b \<Rightarrow> is_digit b)"

function digits :: "json_parser \<Rightarrow> json_parser" where
  "digits p = (if peek_digit p then digits (advance 1 p) else p)"
  by pat_completeness auto
termination
  by (relation "measure (\<lambda>p. length (jp_text p) - jp_offset p)")
    (auto simp: advance_def peek_digit_def dest: peek_less split: option.splits)

declare digits.simps [simp del]

text \<open>At least one digit, then the rest of them.\<close>

definition some_digits :: "json_parser \<Rightarrow> unit parsed" where
  "some_digits p = (if \<not> peek_digit p then json_fail (Syntax ''expected a digit'') p else Done () (digits p))"

definition number_integer :: "json_parser \<Rightarrow> unit parsed" where
  "number_integer p =
     (if peek p = Some 0x30 then Done () (advance 1 p)
      else if peek_digit p then Done () (digits p)
      else json_fail (Syntax ''expected a digit'') p)"

definition number_fraction :: "json_parser \<Rightarrow> unit parsed" where
  "number_fraction p = (if peek p = Some 0x2E then some_digits (advance 1 p) else Done () p)"

definition number_exponent :: "json_parser \<Rightarrow> unit parsed" where
  "number_exponent p =
     (if peek p = Some 0x65 \<or> peek p = Some 0x45 then
        let p = advance 1 p;
            p = (if peek p = Some 0x2B \<or> peek p = Some 0x2D then advance 1 p else p)
        in some_digits p
      else Done () p)"

definition json_number :: "json_parser \<Rightarrow> bytes parsed" where
  "json_number p =
     (let start = jp_offset p;
          p = (if peek p = Some 0x2D then advance 1 p else p)
      in and_then (number_integer p) (\<lambda>_ p.
         and_then (number_fraction p) (\<lambda>_ p.
         and_then (number_exponent p) (\<lambda>_ p.
           if peek_digit p then json_fail (Syntax ''a number has a leading zero'') p
           else case str_slice (jp_text p) start (jp_offset p) of
                  None \<Rightarrow> Panics
                | Some raw \<Rightarrow> Done raw p))))"

section \<open>Strings\<close>

definition hex_digit :: "u8 \<Rightarrow> u16 option" where
  "hex_digit b =
     (if 0x30 \<le> b \<and> b \<le> 0x39 then Some (ucast b - 0x30)
      else if 0x41 \<le> b \<and> b \<le> 0x46 then Some (ucast b - 0x41 + 10)
      else if 0x61 \<le> b \<and> b \<le> 0x66 then Some (ucast b - 0x61 + 10)
      else None)"

fun hex_fold :: "u16 \<Rightarrow> bytes \<Rightarrow> u16 option" where
  "hex_fold acc [] = Some acc"
| "hex_fold acc (b # bs) =
     (case hex_digit b of None \<Rightarrow> None | Some nibble \<Rightarrow> hex_fold (push_bit 4 acc OR nibble) bs)"

definition hex4 :: "json_parser \<Rightarrow> u16 parsed" where
  "hex4 p =
     (case (if jp_offset p + 4 \<le> length (jp_text p)
            then hex_fold 0 (subslice (jp_text p) (jp_offset p) (jp_offset p + 4)) else None) of
        Some v \<Rightarrow> Done v (advance 4 p)
      | None \<Rightarrow> json_fail (Syntax ''expected four hex digits'') p)"

text \<open>The code after \<open>\u\<close>: one unit, or a surrogate pair.\<close>

definition unicode_escape :: "json_parser \<Rightarrow> nat parsed" where
  "unicode_escape p =
     and_then (hex4 p) (\<lambda>unit p.
       if 0xD800 \<le> unit \<and> unit \<le> 0xDBFF then
         (case starts_with [0x5C, 0x75] p of
            None \<Rightarrow> Panics
          | Some False \<Rightarrow> json_fail (Syntax ''a high surrogate is not followed by a low surrogate'') p
          | Some True \<Rightarrow>
              and_then (hex4 (advance 2 p)) (\<lambda>low p.
                if \<not> (0xDC00 \<le> low \<and> low \<le> 0xDFFF)
                then json_fail (Syntax ''a high surrogate is not followed by a low surrogate'') p
                else Done (0x10000 + (unat unit - 0xD800) * 2 ^ 10 + (unat low - 0xDC00)) p))
       else if 0xDC00 \<le> unit \<and> unit \<le> 0xDFFF
       then json_fail (Syntax ''a low surrogate has no high surrogate'') p
       else Done (unat unit) p)"

definition simple_escape :: "u8 \<Rightarrow> nat option" where
  "simple_escape b = map_of [(0x22, 0x22), (0x5C, 0x5C), (0x2F, 0x2F), (0x62, 8), (0x66, 12), (0x6E, 10), (0x72, 13), (0x74, 9)] b"

text \<open>\<open>escape\<close>: what is pushed on the output.\<close>

definition json_escape :: "json_parser \<Rightarrow> bytes parsed" where
  "json_escape p =
     (case peek p of
        None \<Rightarrow> json_fail (Syntax ''a string is not closed'') p
      | Some byte \<Rightarrow>
          let p = advance 1 p
          in case simple_escape byte of
               Some c \<Rightarrow> Done (utf8_encode c) p
             | None \<Rightarrow>
                 if byte = 0x75 then
                   and_then (unicode_escape p) (\<lambda>code p.
                     if \<not> is_scalar code then json_fail (Syntax ''an escape is not a character'') p
                     else Done (utf8_encode code) p)
                 else json_fail (Syntax ''an escape sequence is not valid'') p)"

text \<open>A later state of the same parser, further on in the text by at least \<open>n\<close> bytes.\<close>

definition moved :: "nat \<Rightarrow> json_parser \<Rightarrow> json_parser \<Rightarrow> bool" where
  "moved n p p' \<longleftrightarrow> jp_text p' = jp_text p \<and> jp_offset p + n \<le> jp_offset p' \<and> jp_offset p' \<le> length (jp_text p)"

lemma and_then_Done: "and_then r f = Done y q \<longleftrightarrow> (\<exists>x p. r = Done x p \<and> f x p = Done y q)"
  by (cases r) auto

lemma json_fail_not_Done [simp]: "json_fail k p \<noteq> Done x q" "Done x q \<noteq> json_fail k p"
  by (auto simp: json_fail_def split: option.splits)

lemma hex4_moved: "hex4 p = Done v p' \<Longrightarrow> moved 4 p p'"
  by (auto simp: hex4_def moved_def advance_def split: option.splits if_splits)

lemma moved_trans: "moved a p q \<Longrightarrow> moved b q r \<Longrightarrow> moved (a + b) p r"
  by (auto simp: moved_def)

lemma moved_le: "moved a p q \<Longrightarrow> b \<le> a \<Longrightarrow> moved b p q"
  by (auto simp: moved_def)

lemma moved_advance: "moved n (advance k p) q \<Longrightarrow> moved (k + n) p q"
  by (auto simp: moved_def advance_def)

lemma advance_moved: "peek p = Some b \<Longrightarrow> moved 1 p (advance 1 p)"
  by (auto simp: moved_def advance_def dest: peek_less)

lemma unicode_escape_moved: "unicode_escape p = Done c p' \<Longrightarrow> moved 4 p p'"
  unfolding unicode_escape_def and_then_Done
proof (elim exE conjE, goal_cases)
  case (1 unit q)
  then have q: "moved 4 p q" by (simp add: hex4_moved)
  have "q = p' \<or> moved 6 q p'"
    using 1(2) by (auto simp: and_then_Done split: if_splits option.splits bool.splits dest!: hex4_moved dest: moved_advance)
  then show ?case using q moved_trans [OF q] moved_le by fastforce
qed

lemma escape_moved: "json_escape p = Done c p' \<Longrightarrow> moved 1 p p'"
proof -
  assume e: "json_escape p = Done c p'"
  then obtain b where b: "peek p = Some b" by (auto simp: json_escape_def split: option.splits)
  then have "p' = advance 1 p \<or> moved 4 (advance 1 p) p'"
    using e by (auto simp: json_escape_def and_then_Done Let_def split: option.splits if_splits dest: unicode_escape_moved)
  then show ?thesis using advance_moved [OF b] moved_trans [OF advance_moved [OF b]] moved_le by fastforce
qed

text \<open>The loop of \<open>string\<close>; \<open>out\<close> and \<open>run_start\<close> are its variables.\<close>

function string_loop :: "bytes \<Rightarrow> nat \<Rightarrow> json_parser \<Rightarrow> bytes parsed" where
  "string_loop out run_start p =
     (case peek p of
        None \<Rightarrow> json_fail (Syntax ''a string is not closed'') p
      | Some byte \<Rightarrow>
          if byte = 0x22 then
            (case str_slice (jp_text p) run_start (jp_offset p) of
               None \<Rightarrow> Panics
             | Some run \<Rightarrow> Done (out @ run) (advance 1 p))
          else if byte = 0x5C then
            (case str_slice (jp_text p) run_start (jp_offset p) of
               None \<Rightarrow> Panics
             | Some run \<Rightarrow>
                 (case json_escape (advance 1 p) of
                    Done c p \<Rightarrow> string_loop (out @ run @ c) (jp_offset p) p
                  | Fails e \<Rightarrow> Fails e
                  | Panics \<Rightarrow> Panics
                  | NoFuel \<Rightarrow> NoFuel))
          else if byte \<le> 0x1F
          then json_fail (Syntax ''a control character must be escaped inside a string'') p
          else string_loop out run_start (advance 1 p))"
  by pat_completeness auto
termination
  by (relation "measure (\<lambda>(out, run_start, p). length (jp_text p) - jp_offset p)")
    (auto simp: advance_def moved_def dest: peek_less dest!: escape_moved)

declare string_loop.simps [simp del]

definition json_string :: "json_parser \<Rightarrow> bytes parsed" where
  "json_string p = (let p = advance 1 p in string_loop [] (jp_offset p) p)"

section \<open>Values\<close>

text \<open>\<open>object\<close> and \<open>array\<close> before their loops, which are the arguments.\<close>

definition parse_object :: "(json_parser \<Rightarrow> json_value parsed) \<Rightarrow> nat \<Rightarrow> json_parser \<Rightarrow> json_value parsed" where
  "parse_object members depth p =
     (if depth > MAX_DEPTH then json_fail TooDeep p
      else let p = skip_whitespace (advance 1 p)
           in if peek p = Some 0x7D then Done (JObject []) (advance 1 p) else members p)"

definition parse_array :: "(json_parser \<Rightarrow> json_value parsed) \<Rightarrow> nat \<Rightarrow> json_parser \<Rightarrow> json_value parsed" where
  "parse_array items depth p =
     (if depth > MAX_DEPTH then json_fail TooDeep p
      else let p = skip_whitespace (advance 1 p)
           in if peek p = Some 0x5D then Done (JArray []) (advance 1 p) else items p)"

text \<open>One turn of the loop of \<open>object\<close> up to the value: the member's name and where it starts.\<close>

definition member_head :: "bytes list \<Rightarrow> json_parser \<Rightarrow> (bytes \<times> json_pos) parsed" where
  "member_head names p =
     (case here p of
        None \<Rightarrow> Panics
      | Some at \<Rightarrow>
          if peek p \<noteq> Some 0x22 then json_fail (Syntax ''expected a member name'') p
          else and_then (json_string p) (\<lambda>name p.
            if name \<in> set names then Fails \<lparr>je_kind = DuplicateMember, je_at = at\<rparr>
            else and_then (expect 0x3A ''expected ':' after a member name'' (skip_whitespace p)) (\<lambda>_ p.
              Done (name, at) (skip_whitespace p))))"

text \<open>The end of a turn: a comma goes on, the closing byte ends the loop.\<close>

definition after_item :: "u8 \<Rightarrow> string \<Rightarrow> json_parser \<Rightarrow> bool parsed" where
  "after_item close what p =
     (let p = skip_whitespace p
      in if peek p = Some 0x2C then Done True (skip_whitespace (advance 1 p))
         else if peek p = Some close then Done False (advance 1 p)
         else json_fail (Syntax what) p)"

fun parse_value :: "nat \<Rightarrow> nat \<Rightarrow> json_parser \<Rightarrow> json_node parsed"
and parse_members :: "nat \<Rightarrow> nat \<Rightarrow> json_member list \<Rightarrow> json_parser \<Rightarrow> json_value parsed"
and parse_items :: "nat \<Rightarrow> nat \<Rightarrow> json_node list \<Rightarrow> json_parser \<Rightarrow> json_value parsed" where
  "parse_value 0 depth p = NoFuel"
| "parse_value (Suc fuel) depth p =
     (case here p of
        None \<Rightarrow> Panics
      | Some at \<Rightarrow>
          and_then
            (case peek p of
               None \<Rightarrow> json_fail (Syntax ''expected a value'') p
             | Some b \<Rightarrow>
                 if b = 0x7B then parse_object (\<lambda>p. parse_members fuel (depth + 1) [] p) (depth + 1) p
                 else if b = 0x5B then parse_array (\<lambda>p. parse_items fuel (depth + 1) [] p) (depth + 1) p
                 else if b = 0x22 then and_then (json_string p) (\<lambda>s p. Done (JString s) p)
                 else if b = 0x74 then literal [0x74, 0x72, 0x75, 0x65] (JBool True) p
                 else if b = 0x66 then literal [0x66, 0x61, 0x6C, 0x73, 0x65] (JBool False) p
                 else if b = 0x6E then literal [0x6E, 0x75, 0x6C, 0x6C] JNull p
                 else if b = 0x2D \<or> is_digit b then and_then (json_number p) (\<lambda>raw p. Done (JNumber raw) p)
                 else json_fail (Syntax ''expected a value'') p)
            (\<lambda>v p. Done (Node v at) p))"
| "parse_members 0 depth members p = NoFuel"
| "parse_members (Suc fuel) depth members p =
     and_then (member_head (map member_name members) p) (\<lambda>(name, at) p.
     and_then (parse_value fuel depth p) (\<lambda>v p.
       let members = members @ [Member name v at]
       in and_then (after_item 0x7D (''expected ',' or '}'' @ [CHR 0x27]) p) (\<lambda>more p.
            if more then parse_members fuel depth members p else Done (JObject members) p)))"
| "parse_items 0 depth items p = NoFuel"
| "parse_items (Suc fuel) depth items p =
     and_then (parse_value fuel depth p) (\<lambda>v p.
       let items = items @ [v]
       in and_then (after_item 0x5D (''expected ',' or ']'' @ [CHR 0x27]) p) (\<lambda>more p.
            if more then parse_items fuel depth items p else Done (JArray items) p))"

text \<open>\<open>parse\<close>: the error carries no text of the document.\<close>

definition strip_bom :: "bytes \<Rightarrow> bytes" where
  "strip_bom txt = (if take 3 txt = [0xEF, 0xBB, 0xBF] then drop 3 txt else txt)"

definition json_parse :: "bytes \<Rightarrow> json_node parsed" where
  "json_parse bs =
     (if \<not> utf8_valid bs
      then let prefix = take (utf8_valid_up_to bs) bs
           in Fails \<lparr>je_kind = NotUtf8, je_at = position_of prefix (length prefix)\<rparr>
      else
        let txt = strip_bom bs;
            p = skip_whitespace \<lparr>jp_text = txt, jp_offset = 0, jp_line = 1, jp_line_start = 0\<rparr>
        in if jp_offset p = length txt then json_fail EmptyDocument p
           else and_then (parse_value (2 * length txt + 1) 0 p) (\<lambda>node p.
             let p = skip_whitespace p
             in if jp_offset p \<noteq> length txt then json_fail (Syntax ''unexpected text after the document'') p
                else Done node p))"
end
