(* ===== verification/Json_Text.thy ===== *)
theory Json_Text
  imports Json
begin

text \<open>
  The rest of \<open>crates/ac-host-core/src/json.rs\<close>: the accessors that read a parsed document
  (\<open>ObjectReader\<close> and the typed values) and the writer.
\<close>

section \<open>Typed values\<close>

text \<open>\<open>text.parse::<i32>()\<close> and \<open>text.parse::<u32>()\<close> of the standard library.\<close>

definition digits_value :: "bytes \<Rightarrow> nat option" where
  "digits_value ds =
     (if ds = [] \<or> \<not> list_all is_digit ds then None
      else Some (foldl (\<lambda>acc d. acc * 10 + (unat d - 0x30)) 0 ds))"

definition parse_i32 :: "bytes \<Rightarrow> int option" where
  "parse_i32 bs =
     (let v = (if take 1 bs = [0x2D] then map_option (\<lambda>n. - int n) (digits_value (drop 1 bs))
               else if take 1 bs = [0x2B] then map_option int (digits_value (drop 1 bs))
               else map_option int (digits_value bs))
      in case v of
           None \<Rightarrow> None
         | Some i \<Rightarrow> if - (2 ^ 31) \<le> i \<and> i < 2 ^ 31 then Some i else None)"

definition parse_u32 :: "bytes \<Rightarrow> u32 option" where
  "parse_u32 bs =
     (case (if take 1 bs = [0x2B] then digits_value (drop 1 bs) else digits_value bs) of
        None \<Rightarrow> None
      | Some n \<Rightarrow> if n < 2 ^ 32 then Some (word_of_nat n) else None)"

definition ascii_lower :: "u8 \<Rightarrow> u8" where
  "ascii_lower b = (if 0x41 \<le> b \<and> b \<le> 0x5A then b + 0x20 else b)"

definition eq_ignore_ascii_case :: "bytes \<Rightarrow> bytes \<Rightarrow> bool" where
  "eq_ignore_ascii_case a b \<longleftrightarrow> map ascii_lower a = map ascii_lower b"

definition wrong_type :: "json_node \<Rightarrow> string \<Rightarrow> json_error" where
  "wrong_type node expected = \<lparr>je_kind = WrongType expected, je_at = node_at node\<rparr>"

definition object_members :: "json_node \<Rightarrow> json_error + json_member list" where
  "object_members node = (case node_value node of JObject ms \<Rightarrow> Inr ms | _ \<Rightarrow> Inl (wrong_type node ''an object''))"

definition array_items :: "json_node \<Rightarrow> json_error + json_node list" where
  "array_items node = (case node_value node of JArray ns \<Rightarrow> Inr ns | _ \<Rightarrow> Inl (wrong_type node ''an array''))"

definition is_null :: "json_node \<Rightarrow> bool" where
  "is_null node \<longleftrightarrow> node_value node = JNull"

definition string_or_null :: "json_node \<Rightarrow> json_error + bytes option" where
  "string_or_null node =
     (case node_value node of
        JString txt \<Rightarrow> Inr (Some txt)
      | JNull \<Rightarrow> Inr None
      | _ \<Rightarrow> Inl (wrong_type node ''a string''))"

definition json_boolean :: "json_node \<Rightarrow> json_error + bool" where
  "json_boolean node = (case node_value node of JBool b \<Rightarrow> Inr b | _ \<Rightarrow> Inl (wrong_type node ''true or false''))"

definition integer_text :: "json_node \<Rightarrow> json_error + bytes" where
  "integer_text node =
     (case node_value node of
        JNumber raw \<Rightarrow>
          if list_ex (\<lambda>b. b = 0x2E \<or> b = 0x65 \<or> b = 0x45) raw
          then Inl \<lparr>je_kind = OutOfRange, je_at = node_at node\<rparr> else Inr raw
      | _ \<Rightarrow> Inl (wrong_type node ''an integer''))"

definition json_int32 :: "json_node \<Rightarrow> json_error + int" where
  "json_int32 node =
     (case integer_text node of
        Inl e \<Rightarrow> Inl e
      | Inr raw \<Rightarrow>
          (case parse_i32 raw of Some i \<Rightarrow> Inr i | None \<Rightarrow> Inl \<lparr>je_kind = OutOfRange, je_at = node_at node\<rparr>))"

definition json_uint32 :: "json_node \<Rightarrow> json_error + u32" where
  "json_uint32 node =
     (case integer_text node of
        Inl e \<Rightarrow> Inl e
      | Inr raw \<Rightarrow>
          (case parse_u32 raw of Some i \<Rightarrow> Inr i | None \<Rightarrow> Inl \<lparr>je_kind = OutOfRange, je_at = node_at node\<rparr>))"

definition enumeration :: "json_node \<Rightarrow> (bytes \<times> 'a) list \<Rightarrow> json_error + 'a" where
  "enumeration node names =
     (case node_value node of
        JString txt \<Rightarrow>
          (case find (\<lambda>(name, _). eq_ignore_ascii_case name txt) names of
             Some (_, v) \<Rightarrow> Inr v
           | None \<Rightarrow> Inl \<lparr>je_kind = UnknownEnumValue, je_at = node_at node\<rparr>)
      | _ \<Rightarrow> Inl (wrong_type node ''a name''))"

section \<open>Reading an object\<close>

record object_reader =
  rd_members :: "json_member list"
  rd_at :: json_pos
  rd_used :: "bool list"

definition reader_new :: "json_node \<Rightarrow> json_error + object_reader" where
  "reader_new node =
     (case node_value node of
        JObject ms \<Rightarrow> Inr \<lparr>rd_members = ms, rd_at = node_at node, rd_used = replicate (length ms) False\<rparr>
      | _ \<Rightarrow> Inl (wrong_type node ''an object''))"

definition reader_take :: "bytes \<Rightarrow> object_reader \<Rightarrow> json_node option \<times> object_reader" where
  "reader_take name r =
     (case position (\<lambda>m. member_name m = name) (rd_members r) of
        None \<Rightarrow> (None, r)
      | Some index \<Rightarrow> (Some (member_value (rd_members r ! index)), r\<lparr>rd_used := (rd_used r)[index := True]\<rparr>))"

definition reader_required :: "bytes \<Rightarrow> object_reader \<Rightarrow> (json_error + json_node) \<times> object_reader" where
  "reader_required name r =
     (case reader_take name r of
        (Some node, r) \<Rightarrow> (Inr node, r)
      | (None, r) \<Rightarrow> (Inl \<lparr>je_kind = MissingMember name, je_at = rd_at r\<rparr>, r))"

definition reader_finish :: "object_reader \<Rightarrow> json_error + unit" where
  "reader_finish r =
     (case position (\<lambda>used. \<not> used) (rd_used r) of
        Some index \<Rightarrow> Inl \<lparr>je_kind = UnknownMember, je_at = member_at (rd_members r ! index)\<rparr>
      | None \<Rightarrow> Inr ())"

section \<open>Writing\<close>

definition upper_hex :: "nat \<Rightarrow> u8" where
  "upper_hex n = word_of_nat (if n < 10 then 0x30 + n else 0x37 + n)"

text \<open>\<open>{:04X}\<close> of a number below 0x10000.\<close>

definition upper_hex4 :: "nat \<Rightarrow> bytes" where
  "upper_hex4 n = [upper_hex (n div 4096), upper_hex (n div 256 mod 16), upper_hex (n div 16 mod 16), upper_hex (n mod 16)]"

definition encode_utf16 :: "nat \<Rightarrow> nat list" where
  "encode_utf16 c =
     (if c < 0x10000 then [c]
      else [0xD800 + (c - 0x10000) div 0x400, 0xDC00 + (c - 0x10000) mod 0x400])"

definition unit_text :: "nat \<Rightarrow> bytes" where
  "unit_text u = [0x5C, 0x75] @ upper_hex4 u"

definition write_char :: "nat \<Rightarrow> bytes" where
  "write_char c =
     (if c = 0x22 then [0x5C, 0x22]
      else if c = 0x5C then [0x5C, 0x5C]
      else if c = 10 then [0x5C, 0x6E]
      else if c = 13 then [0x5C, 0x72]
      else if c = 9 then [0x5C, 0x74]
      else if c = 8 then [0x5C, 0x62]
      else if c = 12 then [0x5C, 0x66]
      else if c = 0x26 \<or> c = 0x27 \<or> c = 0x3C \<or> c = 0x3E \<or> c = 0x2B \<or> c = 0x60 then unit_text c
      else if 0x20 \<le> c \<and> c \<le> 0x7E then [word_of_nat c]
      else concat (map unit_text (encode_utf16 c)))"

text \<open>What \<open>write_string\<close> appends.\<close>

definition string_text :: "bytes \<Rightarrow> bytes" where
  "string_text txt = [0x22] @ concat (map write_char (fst (utf8_chars txt))) @ [0x22]"

definition write_string :: "bytes \<Rightarrow> bytes \<Rightarrow> bytes" where
  "write_string out txt = out @ string_text txt"

definition pad_text :: "nat \<Rightarrow> bytes" where
  "pad_text level = concat (replicate level [0x20, 0x20])"

definition bool_text :: "bool \<Rightarrow> bytes" where
  "bool_text b = (if b then [0x74, 0x72, 0x75, 0x65] else [0x66, 0x61, 0x6C, 0x73, 0x65])"

text \<open>The end of an item's line.\<close>

definition line_end :: "'a list \<Rightarrow> bytes" where
  "line_end rest = (if rest \<noteq> [] then [0x2C, 0x0A] else [0x0A])"

text \<open>What \<open>write_value\<close> appends; \<open>items_text\<close> and \<open>members_text\<close> are its loops.\<close>

fun value_text :: "json_value \<Rightarrow> nat \<Rightarrow> bytes"
and node_text :: "json_node \<Rightarrow> nat \<Rightarrow> bytes"
and items_text :: "json_node list \<Rightarrow> nat \<Rightarrow> bytes"
and members_text :: "json_member list \<Rightarrow> nat \<Rightarrow> bytes" where
  "value_text JNull indent = [0x6E, 0x75, 0x6C, 0x6C]"
| "value_text (JBool b) indent = bool_text b"
| "value_text (JNumber raw) indent = raw"
| "value_text (JString txt) indent = string_text txt"
| "value_text (JArray items) indent =
     (if items = [] then [0x5B, 0x5D]
      else [0x5B, 0x0A] @ items_text items indent @ pad_text indent @ [0x5D])"
| "value_text (JObject members) indent =
     (if members = [] then [0x7B, 0x7D]
      else [0x7B, 0x0A] @ members_text members indent @ pad_text indent @ [0x7D])"
| "node_text (Node v at) indent = value_text v indent"
| "items_text [] indent = []"
| "items_text (item # rest) indent =
     pad_text (indent + 1) @ node_text item (indent + 1) @ line_end rest @ items_text rest indent"
| "members_text [] indent = []"
| "members_text (Member name v at # rest) indent =
     pad_text (indent + 1) @ string_text name @ [0x3A, 0x20] @ node_text v (indent + 1) @ line_end rest @
     members_text rest indent"

definition write_value :: "bytes \<Rightarrow> json_node \<Rightarrow> nat \<Rightarrow> bytes" where
  "write_value out node indent = out @ node_text node indent"

end
