(* ===== verification/Json_Read.thy ===== *)
theory Json_Read
  imports Json_Text
begin

text \<open>
  What the reader guarantees on every input: it ends within the fuel \<open>parse\<close> gives it, it
  panics only where a backslash is followed by a character outside ASCII, and what it returns is
  well formed (depth, distinct member names, RFC 8259 numbers, valid UTF-8).
\<close>

section \<open>Well-formed documents\<close>

definition all_digits :: "bytes \<Rightarrow> bool" where
  "all_digits ds \<longleftrightarrow> ds \<noteq> [] \<and> list_all is_digit ds"

definition is_integer_part :: "bytes \<Rightarrow> bool" where
  "is_integer_part i \<longleftrightarrow> i = [0x30] \<or> all_digits i \<and> hd i \<noteq> 0x30"

definition is_fraction :: "bytes \<Rightarrow> bool" where
  "is_fraction f \<longleftrightarrow> f = [] \<or> (\<exists>ds. f = 0x2E # ds \<and> all_digits ds)"

definition is_exponent :: "bytes \<Rightarrow> bool" where
  "is_exponent e \<longleftrightarrow> e = [] \<or>
     (\<exists>h sg ds. e = h # sg @ ds \<and> (h = 0x65 \<or> h = 0x45) \<and> (sg = [] \<or> sg = [0x2B] \<or> sg = [0x2D]) \<and> all_digits ds)"

text \<open>The \<open>number\<close> of RFC 8259.\<close>

definition is_number :: "bytes \<Rightarrow> bool" where
  "is_number raw \<longleftrightarrow>
     (\<exists>sg i f e. raw = sg @ i @ f @ e \<and> (sg = [] \<or> sg = [0x2D]) \<and> is_integer_part i \<and> is_fraction f \<and> is_exponent e)"

text \<open>Values that may stand at nesting depth \<open>d\<close>.\<close>

fun value_ok :: "nat \<Rightarrow> json_value \<Rightarrow> bool"
and node_ok :: "nat \<Rightarrow> json_node \<Rightarrow> bool"
and items_ok :: "nat \<Rightarrow> json_node list \<Rightarrow> bool"
and members_ok :: "nat \<Rightarrow> json_member list \<Rightarrow> bool" where
  "value_ok d JNull = True"
| "value_ok d (JBool b) = True"
| "value_ok d (JNumber raw) = is_number raw"
| "value_ok d (JString txt) = utf8_valid txt"
| "value_ok d (JArray items) = (d < MAX_DEPTH \<and> items_ok (d + 1) items)"
| "value_ok d (JObject members) = (d < MAX_DEPTH \<and> distinct (map member_name members) \<and> members_ok (d + 1) members)"
| "node_ok d (Node v at) = value_ok d v"
| "items_ok d [] = True"
| "items_ok d (item # rest) = (node_ok d item \<and> items_ok d rest)"
| "members_ok d [] = True"
| "members_ok d (Member name v at # rest) = (utf8_valid name \<and> node_ok d v \<and> members_ok d rest)"

lemma items_ok_append [simp]: "items_ok d (xs @ ys) \<longleftrightarrow> items_ok d xs \<and> items_ok d ys"
  by (induction xs) auto

lemma members_ok_append [simp]: "members_ok d (xs @ ys) \<longleftrightarrow> members_ok d xs \<and> members_ok d ys"
proof (induction xs)
  case (Cons m xs)
  then show ?case by (cases m) auto
qed simp

section \<open>Where a parser may stand\<close>

definition stands :: "json_parser \<Rightarrow> bool" where
  "stands p \<longleftrightarrow> utf8_valid (jp_text p) \<and> jp_line_start p \<le> jp_offset p \<and>
     is_boundary (jp_text p) (jp_line_start p) \<and> is_boundary (jp_text p) (jp_offset p)"

definition bad_escape :: "bytes \<Rightarrow> bool" where
  "bad_escape txt \<longleftrightarrow> (\<exists>i. Suc i < length txt \<and> txt ! i = 0x5C \<and> 0x80 \<le> txt ! Suc i)"

text \<open>From \<open>o\<close> on in the text, with a result in \<open>P\<close>.\<close>

definition result_ok :: "bytes \<Rightarrow> nat \<Rightarrow> ('a \<Rightarrow> bool) \<Rightarrow> 'a parsed \<Rightarrow> bool" where
  "result_ok txt o' P r \<longleftrightarrow>
     (case r of
        Done x p \<Rightarrow> stands p \<and> jp_text p = txt \<and> o' \<le> jp_offset p \<and> P x
      | Fails e \<Rightarrow> True
      | Panics \<Rightarrow> bad_escape txt
      | NoFuel \<Rightarrow> False)"

lemma result_ok_simps [simp]:
  "result_ok txt o' P (Done x p) \<longleftrightarrow> stands p \<and> jp_text p = txt \<and> o' \<le> jp_offset p \<and> P x"
  "result_ok txt o' P (Fails e)" "result_ok txt o' P Panics \<longleftrightarrow> bad_escape txt" "\<not> result_ok txt o' P NoFuel"
  by (simp_all add: result_ok_def)

lemma result_ok_then:
  assumes "result_ok txt a Q r"
    and "\<And>x p. stands p \<Longrightarrow> jp_text p = txt \<Longrightarrow> a \<le> jp_offset p \<Longrightarrow> Q x \<Longrightarrow> result_ok txt b P (f x p)"
  shows "result_ok txt b P (and_then r f)"
  using assms by (cases r) auto

lemma stands_le: "stands p \<Longrightarrow> jp_offset p \<le> length (jp_text p)"
  by (auto simp: stands_def is_boundary_def)

lemma here_stands: "stands p \<Longrightarrow> \<exists>at. here p = Some at"
  by (simp add: here_def str_slice_def stands_def)

lemma fail_ok [simp]: "stands p \<Longrightarrow> result_ok txt o' P (json_fail k p)"
  using here_stands [of p] by (auto simp: json_fail_def)

lemma advance_simps [simp]:
  "jp_text (advance n p) = jp_text p" "jp_offset (advance n p) = jp_offset p + n"
  "jp_line (advance n p) = jp_line p" "jp_line_start (advance n p) = jp_line_start p"
  by (simp_all add: advance_def)

lemma stands_ascii:
  assumes "stands p" "peek p = Some b" "b < 0x80"
  shows "stands (advance 1 p)"
  using assms boundary_after_ascii [of "jp_text p" "jp_offset p"] by (auto simp: stands_def peek_def split: if_splits)

lemma stands_line: "stands p \<Longrightarrow> stands (p\<lparr>jp_line := n, jp_line_start := jp_offset p\<rparr>)"
  by (simp add: stands_def)

lemma skip_whitespace_ok:
  "stands p \<Longrightarrow> stands (skip_whitespace p) \<and> jp_text (skip_whitespace p) = jp_text p \<and> jp_offset p \<le> jp_offset (skip_whitespace p)"
proof (induction p rule: skip_whitespace.induct)
  case (1 p)
  show ?case
  proof (cases "peek p")
    case None
    then show ?thesis using "1.prems" by (simp add: skip_whitespace.simps [of p])
  next
    case (Some b)
    consider "b = 0x20 \<or> b = 0x09 \<or> b = 0x0D" | "b = 0x0A" | "\<not> (b = 0x20 \<or> b = 0x09 \<or> b = 0x0D \<or> b = 0x0A)" by blast
    then show ?thesis
    proof cases
      case 1
      then have "stands (advance 1 p)" using stands_ascii [OF "1.prems" Some] by (auto simp: byte_nat)
      then show ?thesis using "1.IH"(1) [OF Some] 1 Some by (auto simp: skip_whitespace.simps [of p])
    next
      case 2
      then have "stands (advance 1 p)" using stands_ascii [OF "1.prems" Some] by (simp add: byte_nat)
      from stands_line [OF this] show ?thesis
        using "1.IH"(2) [OF Some] 2 Some by (auto simp: skip_whitespace.simps [of p] Let_def)
    next
      case 3
      then show ?thesis using "1.prems" Some by (simp add: skip_whitespace.simps [of p])
    qed
  qed
qed

lemmas skip_ok = skip_whitespace_ok [THEN conjunct1] skip_whitespace_ok [THEN conjunct2, THEN conjunct1]
  skip_whitespace_ok [THEN conjunct2, THEN conjunct2]

lemma peek_same: "jp_text p = txt \<Longrightarrow> peek p = Some b \<Longrightarrow> jp_offset p < length txt \<and> txt ! jp_offset p = b"
  by (auto simp: peek_def split: if_splits)

lemma starts_with_ok: "stands p \<Longrightarrow> starts_with w p = Some (take (length w) (drop (jp_offset p) (jp_text p)) = w)"
  using stands_le [of p] by (simp add: starts_with_def str_slice_def stands_def subslice_def)

lemma drop_peek: "peek p = Some b \<Longrightarrow> drop (jp_offset p) (jp_text p) = b # drop (Suc (jp_offset p)) (jp_text p)"
  by (auto simp: peek_def Cons_nth_drop_Suc split: if_splits)

lemma peek_drop: "drop (jp_offset p) (jp_text p) = b # rest \<Longrightarrow> peek p = Some b"
proof -
  assume d: "drop (jp_offset p) (jp_text p) = b # rest"
  then have "jp_offset p < length (jp_text p)" by (metis drop_all leI list.distinct(1))
  then show ?thesis using d by (simp add: peek_def Cons_nth_drop_Suc [symmetric])
qed

lemma stands_ascii_run:
  "stands p \<Longrightarrow> take (length w) (drop (jp_offset p) (jp_text p)) = w \<Longrightarrow> \<forall>b \<in> set w. b < 0x80 \<Longrightarrow> stands (advance (length w) p)"
proof (induction w arbitrary: p)
  case Nil
  then show ?case by (simp add: advance_def)
next
  case (Cons b w)
  then obtain rest where d: "drop (jp_offset p) (jp_text p) = b # rest"
    by (cases "drop (jp_offset p) (jp_text p)") auto
  note p = peek_drop [OF d]
  have "stands (advance 1 p)" using stands_ascii [OF Cons.prems(1) p] Cons.prems(3) by simp
  moreover have "take (length w) (drop (jp_offset (advance 1 p)) (jp_text (advance 1 p))) = w"
    using Cons.prems(2) d drop_peek [OF p] by simp
  ultimately have "stands (advance (length w) (advance 1 p))" using Cons.IH Cons.prems(3) by simp
  then show ?case by (simp add: advance_def)
qed

lemma literal_ok:
  assumes "stands p" "list_all (\<lambda>b. b < 0x80) w" "w \<noteq> []" "P v"
  shows "result_ok (jp_text p) (jp_offset p + 1) P (literal w v p)"
  using assms stands_ascii_run [of p w] by (cases w) (auto simp: literal_def starts_with_ok list_all_iff split: bool.split)

section \<open>Numbers\<close>

lemma digits_eq: "digits p = advance (length (takeWhile is_digit (drop (jp_offset p) (jp_text p)))) p"
proof (induction p rule: digits.induct)
  case (1 p)
  show ?case
  proof (cases "peek_digit p")
    case True
    then obtain b where b: "peek p = Some b" "is_digit b" by (auto simp: peek_digit_def split: option.splits)
    then show ?thesis using "1.IH" [OF True] True drop_peek [OF b(1)] by (simp add: digits.simps [of p] advance_def)
  next
    case False
    then have "takeWhile is_digit (drop (jp_offset p) (jp_text p)) = []"
      using peek_drop [of p] by (cases "drop (jp_offset p) (jp_text p)") (auto simp: peek_digit_def)
    then show ?thesis using False by (simp add: digits.simps [of p] advance_def)
  qed
qed

lemma is_digit_ascii: "is_digit b \<Longrightarrow> b < 0x80"
  by (simp add: is_digit_def byte_nat)

text \<open>What was read between two states.\<close>

definition consumed :: "json_parser \<Rightarrow> json_parser \<Rightarrow> bytes" where
  "consumed p q = subslice (jp_text p) (jp_offset p) (jp_offset q)"

definition steps_to :: "json_parser \<Rightarrow> bytes \<Rightarrow> json_parser \<Rightarrow> bool" where
  "steps_to p w q \<longleftrightarrow> stands q \<and> jp_text q = jp_text p \<and> jp_offset q = jp_offset p + length w \<and>
     take (length w) (drop (jp_offset p) (jp_text p)) = w"

lemma steps_to_trans:
  assumes "steps_to p v q" "steps_to q w r"
  shows "steps_to p (v @ w) r"
proof -
  have "take (length v + length w) (drop (jp_offset p) (jp_text p)) = v @ w"
    using assms unfolding steps_to_def by (metis add.commute drop_drop take_add)
  then show ?thesis using assms by (simp add: steps_to_def add.assoc)
qed

lemma steps_to_refl: "stands p \<Longrightarrow> steps_to p [] p"
  by (simp add: steps_to_def)

lemma steps_to_one: "stands p \<Longrightarrow> peek p = Some b \<Longrightarrow> b < 0x80 \<Longrightarrow> steps_to p [b] (advance 1 p)"
  using stands_ascii drop_peek by (simp add: steps_to_def)

lemma digits_step:
  assumes "stands p" "peek p = Some b" "is_digit b"
  shows "\<exists>ds. steps_to p ds (digits p) \<and> all_digits ds \<and> hd ds = b"
proof -
  let ?ds = "takeWhile is_digit (drop (jp_offset p) (jp_text p))"
  have t: "take (length ?ds) (drop (jp_offset p) (jp_text p)) = ?ds" by (rule takeWhile_eq_take [symmetric])
  have "\<forall>b \<in> set ?ds. b < 0x80" using is_digit_ascii by (auto dest: set_takeWhileD)
  from stands_ascii_run [OF assms(1) t this] have "steps_to p ?ds (digits p)" using t by (simp add: steps_to_def digits_eq)
  moreover have "all_digits ?ds" "hd ?ds = b"
    using drop_peek [OF assms(2)] assms(3) by (auto simp: all_digits_def list_all_iff dest: set_takeWhileD)
  ultimately show ?thesis by blast
qed

lemma some_digits_ok:
  assumes "stands p"
  shows "(\<exists>e. some_digits p = Fails e) \<or> (\<exists>q ds. some_digits p = Done () q \<and> steps_to p ds q \<and> all_digits ds)"
proof (cases "peek_digit p")
  case True
  then obtain b where "peek p = Some b" "is_digit b" by (auto simp: peek_digit_def split: option.splits)
  from digits_step [OF assms this] show ?thesis using True by (auto simp: some_digits_def)
next
  case False
  then show ?thesis using here_stands [OF assms] by (auto simp: some_digits_def json_fail_def)
qed

definition numbers_ok :: "(bytes \<Rightarrow> bool) \<Rightarrow> json_parser \<Rightarrow> unit parsed \<Rightarrow> bool" where
  "numbers_ok P p r \<longleftrightarrow> (\<exists>e. r = Fails e) \<or> (\<exists>q w. r = Done () q \<and> steps_to p w q \<and> P w)"

lemma number_integer_ok:
  assumes "stands p"
  shows "numbers_ok is_integer_part p (number_integer p)"
proof -
  consider "peek p = Some 0x30" | b where "peek p = Some b" "is_digit b" "b \<noteq> 0x30" | "\<not> peek_digit p" "peek p \<noteq> Some 0x30"
    by (cases "peek p") (auto simp: peek_digit_def)
  then show ?thesis
  proof cases
    case 1
    then show ?thesis using steps_to_one [OF assms 1] by (auto simp: number_integer_def numbers_ok_def is_integer_part_def byte_nat)
  next
    case 2
    from digits_step [OF assms 2(1,2)] obtain ds where "steps_to p ds (digits p)" "all_digits ds" "hd ds = b" by blast
    then show ?thesis using 2 by (auto simp: number_integer_def numbers_ok_def is_integer_part_def peek_digit_def)
  next
    case 3
    then show ?thesis using here_stands [OF assms] by (auto simp: number_integer_def numbers_ok_def json_fail_def)
  qed
qed

lemma number_fraction_ok:
  assumes "stands p"
  shows "numbers_ok is_fraction p (number_fraction p)"
proof (cases "peek p = Some 0x2E")
  case True
  have s: "steps_to p [0x2E] (advance 1 p)" using steps_to_one [OF assms True] by (simp add: byte_nat)
  then have "stands (advance 1 p)" by (simp add: steps_to_def)
  from some_digits_ok [OF this] show ?thesis
    using True steps_to_trans [OF s] by (fastforce simp: number_fraction_def numbers_ok_def is_fraction_def)
next
  case False
  then show ?thesis using steps_to_refl [OF assms] by (auto simp: number_fraction_def numbers_ok_def is_fraction_def)
qed

lemma number_exponent_ok:
  assumes "stands p"
  shows "numbers_ok is_exponent p (number_exponent p)"
proof (cases "peek p = Some 0x65 \<or> peek p = Some 0x45")
  case True
  then obtain h where h: "peek p = Some h" "h = 0x65 \<or> h = 0x45" by blast
  then have s: "steps_to p [h] (advance 1 p)" using steps_to_one [OF assms h(1)] by (auto simp: byte_nat)
  define q where "q = (if peek (advance 1 p) = Some 0x2B \<or> peek (advance 1 p) = Some 0x2D then advance 1 (advance 1 p) else advance 1 p)"
  have st: "stands (advance 1 p)" using s by (simp add: steps_to_def)
  have "\<exists>sg. steps_to (advance 1 p) sg q \<and> (sg = [] \<or> sg = [0x2B] \<or> sg = [0x2D])"
    using steps_to_refl [OF st] steps_to_one [OF st, where b = "0x2B"] steps_to_one [OF st, where b = "0x2D"] by (auto simp: q_def byte_nat)
  then obtain sg where sg: "steps_to (advance 1 p) sg q" "sg = [] \<or> sg = [0x2B] \<or> sg = [0x2D]" by blast
  have e: "number_exponent p = some_digits q" using True by (simp add: number_exponent_def q_def Let_def)
  have "stands q" using sg(1) by (simp add: steps_to_def)
  from some_digits_ok [OF this] show ?thesis
  proof (elim disjE exE conjE)
    fix r ds assume "some_digits q = Done () r" "steps_to q ds r" "all_digits ds"
    then have "steps_to p (h # sg @ ds) r" using steps_to_trans [OF steps_to_trans [OF s sg(1)]] by fastforce
    moreover have "is_exponent (h # sg @ ds)" unfolding is_exponent_def using h(2) sg(2) \<open>all_digits ds\<close> by blast
    ultimately show ?thesis using e \<open>some_digits q = Done () r\<close> unfolding numbers_ok_def by auto
  qed (use e in \<open>auto simp: numbers_ok_def\<close>)
next
  case False
  then show ?thesis using steps_to_refl [OF assms] by (auto simp: number_exponent_def numbers_ok_def is_exponent_def)
qed

lemma numbers_ok_then:
  assumes "numbers_ok P p r" "steps_to p0 v p"
    and "\<And>q w. steps_to p w q \<Longrightarrow> P w \<Longrightarrow> steps_to p0 (v @ w) q \<Longrightarrow> result_ok txt o' R (f () q)"
  shows "result_ok txt o' R (and_then r f)"
  using assms(1)
proof (elim numbers_ok_def [THEN iffD1, elim_format] disjE exE conjE)
  fix q w assume "r = Done () q" "steps_to p w q" "P w"
  then show ?thesis using assms(3) steps_to_trans [OF assms(2)] by simp
qed simp

lemma slice_steps: "stands p \<Longrightarrow> steps_to p w q \<Longrightarrow> str_slice (jp_text q) (jp_offset p) (jp_offset q) = Some w"
  by (auto simp: steps_to_def str_slice_def stands_def subslice_def)

lemma number_ok:
  assumes "stands p"
  shows "result_ok (jp_text p) (jp_offset p + 1) is_number (json_number p)"
proof -
  define q where "q = (if peek p = Some 0x2D then advance 1 p else p)"
  have "\<exists>sg. steps_to p sg q \<and> (sg = [] \<or> sg = [0x2D])"
    using steps_to_refl [OF assms] steps_to_one [OF assms, where b = "0x2D"] by (auto simp: q_def byte_nat)
  then obtain sg where sg: "steps_to p sg q" "sg = [] \<or> sg = [0x2D]" by blast
  have st: "steps_to p0 w r \<Longrightarrow> stands r" for p0 w r by (simp add: steps_to_def)
  show ?thesis
    unfolding json_number_def Let_def q_def [symmetric]
  proof (rule numbers_ok_then [OF number_integer_ok [OF st [OF sg(1)]] sg(1)])
    fix r i assume i: "steps_to q i r" "is_integer_part i" "steps_to p (sg @ i) r"
    show "result_ok (jp_text p) (jp_offset p + 1) is_number (and_then (number_fraction r) (\<lambda>_ p'.
         and_then (number_exponent p') (\<lambda>_ p'.
           if peek_digit p' then json_fail (Syntax ''a number has a leading zero'') p'
           else case str_slice (jp_text p') (jp_offset p) (jp_offset p') of None \<Rightarrow> Panics | Some raw \<Rightarrow> Done raw p')))"
    proof (rule numbers_ok_then [OF number_fraction_ok [OF st [OF i(1)]] i(3)])
      fix x f assume f: "steps_to r f x" "is_fraction f" "steps_to p ((sg @ i) @ f) x"
      show "result_ok (jp_text p) (jp_offset p + 1) is_number (and_then (number_exponent x) (\<lambda>_ p'.
           if peek_digit p' then json_fail (Syntax ''a number has a leading zero'') p'
           else case str_slice (jp_text p') (jp_offset p) (jp_offset p') of None \<Rightarrow> Panics | Some raw \<Rightarrow> Done raw p'))"
      proof (rule numbers_ok_then [OF number_exponent_ok [OF st [OF f(1)]] f(3)])
        fix y e assume e: "steps_to x e y" "is_exponent e" "steps_to p (((sg @ i) @ f) @ e) y"
        have "is_number (((sg @ i) @ f) @ e)" unfolding is_number_def using sg(2) i(2) f(2) e(2) append_assoc by metis
        moreover have "0 < length i" using i(2) by (auto simp: is_integer_part_def all_digits_def)
        then have "jp_offset p + 1 \<le> jp_offset y" using e(3) unfolding steps_to_def length_append by linarith
        moreover have "stands y" "jp_text y = jp_text p" using e(3) by (simp_all add: steps_to_def)
        ultimately show "result_ok (jp_text p) (jp_offset p + 1) is_number
            (if peek_digit y then json_fail (Syntax ''a number has a leading zero'') y
             else case str_slice (jp_text y) (jp_offset p) (jp_offset y) of None \<Rightarrow> Panics | Some raw \<Rightarrow> Done raw y)"
          using slice_steps [OF assms e(3)] by simp
      qed
    qed
  qed
qed

section \<open>Strings\<close>

lemma hex_fold_ascii: "hex_fold acc bs = Some v \<Longrightarrow> \<forall>b \<in> set bs. b < 0x80"
proof (induction bs arbitrary: acc)
  case (Cons b bs)
  then obtain n where "hex_digit b = Some n" "hex_fold (push_bit 4 acc OR n) bs = Some v" by (auto split: option.splits)
  then show ?case using Cons.IH by (auto simp: hex_digit_def byte_nat split: if_splits)
qed simp

lemma hex4_ok:
  assumes "stands p"
  shows "result_ok (jp_text p) (jp_offset p + 4) (\<lambda>_. True) (hex4 p)"
proof (cases "if jp_offset p + 4 \<le> length (jp_text p)
            then hex_fold 0 (subslice (jp_text p) (jp_offset p) (jp_offset p + 4)) else None")
  case None
  then show ?thesis unfolding hex4_def None using assms by simp
next
  case (Some v)
  then have l: "jp_offset p + 4 \<le> length (jp_text p)"
    and h: "hex_fold 0 (subslice (jp_text p) (jp_offset p) (jp_offset p + 4)) = Some v" by (auto split: if_splits)
  let ?w = "take 4 (drop (jp_offset p) (jp_text p))"
  have w: "length ?w = 4" using l by simp
  have "stands (advance (length ?w) p)"
    by (rule stands_ascii_run [OF assms]) (use hex_fold_ascii [OF h] w in \<open>simp_all add: subslice_def\<close>)
  then show ?thesis unfolding hex4_def Some w by simp
qed

lemma unicode_escape_ok:
  assumes "stands p"
  shows "result_ok (jp_text p) (jp_offset p) (\<lambda>_. True) (unicode_escape p)"
  unfolding unicode_escape_def
proof (rule result_ok_then [OF hex4_ok [OF assms]], goal_cases)
  case (1 unit q)
  have pair: "result_ok (jp_text p) (jp_offset p) (\<lambda>_. True) (and_then (hex4 (advance 2 q)) (\<lambda>low r.
      if \<not> (0xDC00 \<le> low \<and> low \<le> 0xDFFF)
      then json_fail (Syntax ''a high surrogate is not followed by a low surrogate'') r
      else Done (0x10000 + (unat unit - 0xD800) * 2 ^ 10 + (unat low - 0xDC00)) r))"
    if "take 2 (drop (jp_offset q) (jp_text q)) = [0x5C, 0x75]"
  proof -
    have len: "length [0x5C, 0x75 :: u8] = 2" by simp
    have "\<forall>b \<in> set [0x5C, 0x75 :: u8]. b < 0x80" by (simp add: byte_nat)
    from stands_ascii_run [OF 1(1) _ this] that have st: "stands (advance 2 q)" by (simp only: len)
    have "result_ok (jp_text p) (jp_offset q + 6) (\<lambda>_. True) (hex4 (advance 2 q))"
      using hex4_ok [OF st] 1(2) by (simp add: add.commute)
    then show ?thesis by (rule result_ok_then) (use 1(2,3) in simp)
  qed
  have "length [0x5C, 0x75 :: u8] = 2" by simp
  then have sw: "starts_with [0x5C, 0x75] q = Some (take 2 (drop (jp_offset q) (jp_text q)) = [0x5C, 0x75])"
    using starts_with_ok [OF 1(1)] by metis
  then show ?case using 1 pair by (simp add: sw split: bool.split)
qed

lemma fail_bad: "bad_escape txt \<Longrightarrow> result_ok txt o' P (json_fail k q)"
  by (simp add: json_fail_def split: option.split)

lemma simple_escape_scalar: "simple_escape b = Some c \<Longrightarrow> is_scalar c \<and> b < 0x80"
  by (auto simp: simple_escape_def is_scalar_def byte_nat split: if_splits)

lemma escape_ok:
  assumes "stands p" "0 < jp_offset p" "jp_text p ! (jp_offset p - 1) = 0x5C"
  shows "result_ok (jp_text p) (jp_offset p + 1) utf8_valid (json_escape p)"
proof (cases "peek p")
  case None
  then show ?thesis using assms(1) by (simp add: json_escape_def)
next
  case (Some b)
  show ?thesis
  proof (cases "b < 0x80")
    case False
    have "bad_escape (jp_text p)"
      unfolding bad_escape_def using peek_same [OF refl Some] assms(2,3) False
      by (intro exI [of _ "jp_offset p - 1"]) (simp add: not_less)
    moreover have "simple_escape b = None" "b \<noteq> 0x75"
      using simple_escape_scalar [of b] False by (cases "simple_escape b"; auto)+
    ultimately show ?thesis using Some by (simp add: json_escape_def fail_bad)
  next
    case True
    have st: "stands (advance 1 p)" by (rule stands_ascii [OF assms(1) Some True])
    have "result_ok (jp_text p) (jp_offset p + 1) utf8_valid (and_then (unicode_escape (advance 1 p)) (\<lambda>code q.
        if \<not> is_scalar code then json_fail (Syntax ''an escape is not a character'') q else Done (utf8_encode code) q))"
    proof (rule result_ok_then)
      show "result_ok (jp_text p) (jp_offset p + 1) (\<lambda>_. True) (unicode_escape (advance 1 p))"
        using unicode_escape_ok [OF st] by simp
    qed (use utf8_valid_encode [where rest = "[]"] in simp)
    then show ?thesis
      using Some st simple_escape_scalar utf8_valid_encode [where rest = "[]"]
      by (auto simp: json_escape_def Let_def split: option.split)
  qed
qed

lemma slice_ok:
  assumes "stands p" "is_boundary (jp_text p) a" "a \<le> jp_offset p"
  shows "\<exists>run. str_slice (jp_text p) a (jp_offset p) = Some run \<and> utf8_valid run"
  using assms utf8_valid_slice [of "jp_text p" a "jp_offset p"] by (simp add: stands_def str_slice_def)

text \<open>Inside a string the parser may stand within a character, so only the run's start is a boundary.\<close>

definition in_string :: "nat \<Rightarrow> json_parser \<Rightarrow> bool" where
  "in_string run p \<longleftrightarrow> utf8_valid (jp_text p) \<and> jp_line_start p \<le> run \<and> run \<le> jp_offset p \<and> jp_offset p \<le> length (jp_text p) \<and>
     is_boundary (jp_text p) (jp_line_start p) \<and> is_boundary (jp_text p) run"

lemma in_string_stands: "in_string run p \<Longrightarrow> is_boundary (jp_text p) (jp_offset p) \<Longrightarrow> stands p"
  by (simp add: in_string_def stands_def)

lemma stands_in_string: "stands p \<Longrightarrow> in_string (jp_offset p) p"
  using stands_le by (simp add: in_string_def stands_def)

lemma string_loop_ok:
  "in_string run p \<Longrightarrow> utf8_valid out \<Longrightarrow> result_ok (jp_text p) (jp_offset p + 1) utf8_valid (string_loop out run p)"
proof (induction out run p rule: string_loop.induct)
  case (1 out run p)
  show ?case
  proof (cases "peek p")
    case None
    then have "jp_offset p = length (jp_text p)" using "1.prems"(1) by (auto simp: peek_def in_string_def split: if_splits)
    then have "stands p" using in_string_stands [OF "1.prems"(1)] by simp
    then show ?thesis using None by (simp add: string_loop.simps [of out run p])
  next
    case (Some b)
    note at = peek_same [OF refl Some]
    show ?thesis
    proof (cases "b < 0x80")
      case False
      then have ne: "b \<noteq> 0x22" "b \<noteq> 0x5C" "\<not> b \<le> 0x1F" by (auto simp: byte_nat)
      have "in_string run (advance 1 p)" using "1.prems"(1) at by (simp add: in_string_def)
      with "1.IH"(2) [OF Some ne this "1.prems"(2)] show ?thesis
        using Some ne by (auto simp: string_loop.simps [of out run p] result_ok_def split: parsed.splits)
    next
      case ascii: True
      have st: "stands p" by (rule in_string_stands [OF "1.prems"(1)]) (use at ascii boundary_ascii in auto)
      have next_st: "stands (advance 1 p)" by (rule stands_ascii [OF st Some ascii])
      obtain s where s: "str_slice (jp_text p) run (jp_offset p) = Some s" "utf8_valid s"
        using slice_ok [OF st, of run] "1.prems"(1) by (auto simp: in_string_def)
      consider "b = 0x22" | "b = 0x5C" | "b \<noteq> 0x22" "b \<noteq> 0x5C" "b \<le> 0x1F" | "b \<noteq> 0x22" "b \<noteq> 0x5C" "\<not> b \<le> 0x1F" by blast
      then show ?thesis
      proof cases
        case 1
        then show ?thesis using Some s next_st utf8_valid_append [OF "1.prems"(2) s(2)] by (simp add: string_loop.simps [of out run p])
      next
        case 2
        have "result_ok (jp_text p) (jp_offset p + 2) utf8_valid (json_escape (advance 1 p))"
          using escape_ok [OF next_st] at 2 by simp
        then show ?thesis
        proof (cases "json_escape (advance 1 p)")
          case (Done c q)
          with \<open>result_ok (jp_text p) (jp_offset p + 2) utf8_valid (json_escape (advance 1 p))\<close>
          have q: "stands q" "jp_text q = jp_text p" "jp_offset p + 2 \<le> jp_offset q" "utf8_valid c" by simp_all
          have "utf8_valid (out @ s @ c)" using "1.prems"(2) s(2) q(4) by (intro utf8_valid_append)
          from "1.IH"(1) [OF Some _ 2 s(1) Done stands_in_string [OF q(1)] this] 2 show ?thesis
            using Some 2 s(1) Done q(2,3) by (auto simp: string_loop.simps [of out run p] result_ok_def split: parsed.splits)
        qed (use Some 2 s(1) in \<open>simp_all add: string_loop.simps [of out run p]\<close>)
      next
        case 3
        then show ?thesis using Some st by (simp add: string_loop.simps [of out run p])
      next
        case 4
        have "in_string run (advance 1 p)" using "1.prems"(1) at by (simp add: in_string_def)
        with "1.IH"(2) [OF Some 4 this "1.prems"(2)] show ?thesis
          using Some 4 by (auto simp: string_loop.simps [of out run p] result_ok_def split: parsed.splits)
      qed
    qed
  qed
qed

lemma string_ok:
  assumes "stands p" "peek p = Some 0x22"
  shows "result_ok (jp_text p) (jp_offset p + 2) utf8_valid (json_string p)"
proof -
  have "stands (advance 1 p)" using stands_ascii [OF assms] by (simp add: byte_nat)
  from string_loop_ok [OF stands_in_string [OF this], of "[]"] show ?thesis by (simp add: json_string_def Let_def)
qed

section \<open>Values\<close>

lemma expect_ok: "stands p \<Longrightarrow> b < 0x80 \<Longrightarrow> result_ok (jp_text p) (jp_offset p + 1) (\<lambda>_. True) (expect b what p)"
  using stands_ascii [of p b] by (simp add: expect_def)

lemma member_head_ok:
  assumes "stands p"
  shows "result_ok (jp_text p) (jp_offset p + 3) (\<lambda>(name, at). name \<notin> set names \<and> utf8_valid name) (member_head names p)"
proof -
  obtain at where at: "here p = Some at" using here_stands [OF assms] by blast
  show ?thesis
  proof (cases "peek p = Some 0x22")
    case True
    have "result_ok (jp_text p) (jp_offset p + 3) (\<lambda>(name, at). name \<notin> set names \<and> utf8_valid name)
        (and_then (json_string p) (\<lambda>name p.
            if name \<in> set names then Fails \<lparr>je_kind = DuplicateMember, je_at = at\<rparr>
            else and_then (expect 0x3A ''expected ':' after a member name'' (skip_whitespace p)) (\<lambda>_ p.
              Done (name, at) (skip_whitespace p))))"
    proof (rule result_ok_then [OF string_ok [OF assms True]], goal_cases)
      case (1 name q)
      note sk = skip_ok [OF 1(1)]
      have "result_ok (jp_text p) (jp_offset p + 3) (\<lambda>_. True) (expect 0x3A ''expected ':' after a member name'' (skip_whitespace q))"
        using expect_ok [OF sk(1), where b = "0x3A" and what = "''expected ':' after a member name''"] sk(2,3) 1(2,3)
        by (auto simp: result_ok_def byte_nat split: parsed.splits)
      then have "result_ok (jp_text p) (jp_offset p + 3) (\<lambda>(name, at). name \<notin> set names \<and> utf8_valid name)
          (and_then (expect 0x3A ''expected ':' after a member name'' (skip_whitespace q)) (\<lambda>_ p. Done (name, at) (skip_whitespace p)))"
        if "name \<notin> set names"
        by (rule result_ok_then) (use that 1(4) skip_ok le_trans in \<open>auto intro: le_trans\<close>)
      then show ?case by simp
    qed
    then show ?thesis by (simp add: member_head_def at True)
  qed (use assms at in \<open>simp add: member_head_def\<close>)
qed

lemma after_item_ok:
  assumes "stands p" "close < 0x80"
  shows "result_ok (jp_text p) (jp_offset p + 1) (\<lambda>_. True) (after_item close what p)"
proof -
  note sk = skip_ok [OF assms(1)]
  consider "peek (skip_whitespace p) = Some 0x2C" | "peek (skip_whitespace p) \<noteq> Some 0x2C" "peek (skip_whitespace p) = Some close"
    | "peek (skip_whitespace p) \<noteq> Some 0x2C" "peek (skip_whitespace p) \<noteq> Some close" by blast
  then show ?thesis
  proof cases
    case 1
    then have "stands (advance 1 (skip_whitespace p))" using stands_ascii [OF sk(1) 1] by (simp add: byte_nat)
    from skip_ok [OF this] 1 show ?thesis using sk by (auto simp: after_item_def Let_def)
  next
    case 2
    then show ?thesis using stands_ascii [OF sk(1) 2(2) assms(2)] sk by (auto simp: after_item_def Let_def)
  next
    case 3
    then show ?thesis using sk by (simp add: after_item_def Let_def)
  qed
qed

lemma result_ok_mono: "result_ok txt a P r \<Longrightarrow> b \<le> a \<Longrightarrow> (\<And>x. P x \<Longrightarrow> Q x) \<Longrightarrow> result_ok txt b Q r"
  by (cases r) auto

text \<open>The opening byte, then an empty list or the loop.\<close>

lemma opened_ok:
  assumes "stands p" "peek p = Some b" "b < 0x80" "close < 0x80" "P nothing"
    and "\<And>q. stands q \<Longrightarrow> jp_text q = jp_text p \<Longrightarrow> jp_offset p + 1 \<le> jp_offset q \<Longrightarrow> result_ok (jp_text p) (jp_offset p + 1) P (items q)"
  shows "result_ok (jp_text p) (jp_offset p + 1) P
    (let q = skip_whitespace (advance 1 p) in if peek q = Some close then Done nothing (advance 1 q) else items q)"
proof -
  have st: "stands (advance 1 p)" by (rule stands_ascii [OF assms(1-3)])
  note sk = skip_ok [OF st]
  show ?thesis
    using assms(4-6) sk stands_ascii [OF sk(1) _ assms(4)] by (auto simp: Let_def)
qed

lemma parse_ok:
  "(stands p \<longrightarrow> 2 * (length (jp_text p) - jp_offset p) + 1 \<le> fuel \<longrightarrow>
      result_ok (jp_text p) (jp_offset p + 1) (node_ok d) (parse_value fuel d p)) \<and>
   (stands p \<longrightarrow> 2 * (length (jp_text p) - jp_offset p) + 2 \<le> fuel \<longrightarrow> d < MAX_DEPTH \<longrightarrow>
      distinct (map member_name ms) \<longrightarrow> members_ok (d + 1) ms \<longrightarrow>
      result_ok (jp_text p) (jp_offset p + 1) (value_ok d) (parse_members fuel (d + 1) ms p)) \<and>
   (stands p \<longrightarrow> 2 * (length (jp_text p) - jp_offset p) + 2 \<le> fuel \<longrightarrow> d < MAX_DEPTH \<longrightarrow> items_ok (d + 1) ns \<longrightarrow>
      result_ok (jp_text p) (jp_offset p + 1) (value_ok d) (parse_items fuel (d + 1) ns p))"
proof (induction fuel arbitrary: d p ms ns)
  case (Suc fuel)
  note V = Suc.IH [THEN conjunct1, rule_format] and M = Suc.IH [THEN conjunct2, THEN conjunct1, rule_format]
    and I = Suc.IH [THEN conjunct2, THEN conjunct2, rule_format]
  have members: "result_ok (jp_text p) (jp_offset p + 1) (value_ok d) (parse_members (Suc fuel) (d + 1) ms p)"
    if p: "stands p" "2 * (length (jp_text p) - jp_offset p) + 2 \<le> Suc fuel" "d < MAX_DEPTH"
      "distinct (map member_name ms)" "members_ok (d + 1) ms"
    unfolding parse_members.simps
  proof (rule result_ok_then [OF member_head_ok [OF p(1)]], goal_cases)
    case (1 head q)
    obtain name at where head: "head = (name, at)" by (cases head)
    have name: "name \<notin> set (map member_name ms)" "utf8_valid name" using 1(4) head by simp_all
    have "2 * (length (jp_text q) - jp_offset q) + 1 \<le> fuel" using p(2) 1(2,3) stands_le [OF 1(1)] by simp
    from V [OF 1(1) this, of "d + 1"] have v: "result_ok (jp_text p) (jp_offset p + 1) (node_ok (d + 1)) (parse_value fuel (d + 1) q)"
      using 1(2,3) by (auto intro: result_ok_mono)
    show ?case
      unfolding head prod.case
    proof (rule result_ok_then [OF v], goal_cases)
      case (1 v r)
      let ?ms = "ms @ [Member name v at]"
      have ms: "distinct (map member_name ?ms)" "members_ok (d + 1) ?ms" using p(4,5) name 1(4) by simp_all
      have a: "result_ok (jp_text p) (jp_offset p + 2) (\<lambda>_. True) (after_item 0x7D (''expected ',' or '}'' @ [CHR 0x27]) r)"
        using after_item_ok [OF 1(1), of "0x7D"] 1(2,3) by (auto simp: byte_nat intro: result_ok_mono)
      show ?case
        unfolding Let_def
      proof (rule result_ok_then [OF a], goal_cases)
        case (1 more x)
        have "2 * (length (jp_text x) - jp_offset x) + 2 \<le> fuel" using p(2) 1(2,3) stands_le [OF 1(1)] by simp
        from M [OF 1(1) this p(3) ms] show ?case
          using 1(1-3) ms p(3) by (auto intro: result_ok_mono)
      qed
    qed
  qed
  have items: "result_ok (jp_text p) (jp_offset p + 1) (value_ok d) (parse_items (Suc fuel) (d + 1) ns p)"
    if p: "stands p" "2 * (length (jp_text p) - jp_offset p) + 2 \<le> Suc fuel" "d < MAX_DEPTH" "items_ok (d + 1) ns"
  proof -
    have "2 * (length (jp_text p) - jp_offset p) + 1 \<le> fuel" using p(2) by simp
    from V [OF p(1) this, of "d + 1"] show ?thesis
      unfolding parse_items.simps
    proof (rule result_ok_then, goal_cases)
      case (1 v r)
      have ns: "items_ok (d + 1) (ns @ [v])" using p(4) 1(4) by simp
      have a: "result_ok (jp_text p) (jp_offset p + 2) (\<lambda>_. True) (after_item 0x5D (''expected ',' or ']'' @ [CHR 0x27]) r)"
        using after_item_ok [OF 1(1), of "0x5D"] 1(2,3) by (auto simp: byte_nat intro: result_ok_mono)
      show ?case
        unfolding Let_def
      proof (rule result_ok_then [OF a], goal_cases)
        case (1 more x)
        have "2 * (length (jp_text x) - jp_offset x) + 2 \<le> fuel" using p(2) 1(2,3) stands_le [OF 1(1)] by simp
        from I [OF 1(1) this p(3) ns] show ?case
          using 1(1-3) ns p(3) by (auto intro: result_ok_mono)
      qed
    qed
  qed
  have "result_ok (jp_text p) (jp_offset p + 1) (node_ok d) (parse_value (Suc fuel) d p)"
    if p: "stands p" "2 * (length (jp_text p) - jp_offset p) + 1 \<le> Suc fuel"
  proof -
    obtain at where at: "here p = Some at" using here_stands [OF p(1)] by blast
    show ?thesis
    proof (cases "peek p")
      case None
      then show ?thesis using p(1) at by (simp add: json_fail_def)
    next
      case (Some b)
      have less: "jp_offset p < length (jp_text p)" using peek_same [OF refl Some] by simp
      have fuel': "2 * (length (jp_text q) - jp_offset q) + 2 \<le> fuel" if "jp_text q = jp_text p" "jp_offset p + 1 \<le> jp_offset q" for q
        using that p(2) less by simp
      have obj: "result_ok (jp_text p) (jp_offset p + 1) (value_ok d) (parse_object (\<lambda>p. parse_members fuel (d + 1) [] p) (d + 1) p)"
        if "b = 0x7B"
      proof (cases "d + 1 > MAX_DEPTH")
        case False
        have "result_ok (jp_text p) (jp_offset p + 1) (value_ok d)
          (let q = skip_whitespace (advance 1 p) in if peek q = Some 0x7D then Done (JObject []) (advance 1 q) else parse_members fuel (d + 1) [] q)"
        proof (intro opened_ok [OF p(1) Some])
          fix q assume q: "stands q" "jp_text q = jp_text p" "jp_offset p + 1 \<le> jp_offset q"
          have "result_ok (jp_text q) (jp_offset q + 1) (value_ok d) (parse_members fuel (d + 1) [] q)"
            by (rule M [OF q(1) fuel' [OF q(2,3)]]) (use False in simp_all)
          then show "result_ok (jp_text p) (jp_offset p + 1) (value_ok d) (parse_members fuel (d + 1) [] q)"
            using q(2,3) by (auto intro: result_ok_mono)
        qed (use that False in \<open>simp_all add: byte_nat\<close>)
        then show ?thesis using False unfolding parse_object_def by (simp only: if_False)
      qed (use p(1) in \<open>simp add: parse_object_def\<close>)
      have arr: "result_ok (jp_text p) (jp_offset p + 1) (value_ok d) (parse_array (\<lambda>p. parse_items fuel (d + 1) [] p) (d + 1) p)"
        if "b = 0x5B"
      proof (cases "d + 1 > MAX_DEPTH")
        case False
        have "result_ok (jp_text p) (jp_offset p + 1) (value_ok d)
          (let q = skip_whitespace (advance 1 p) in if peek q = Some 0x5D then Done (JArray []) (advance 1 q) else parse_items fuel (d + 1) [] q)"
        proof (intro opened_ok [OF p(1) Some])
          fix q assume q: "stands q" "jp_text q = jp_text p" "jp_offset p + 1 \<le> jp_offset q"
          have "result_ok (jp_text q) (jp_offset q + 1) (value_ok d) (parse_items fuel (d + 1) [] q)"
            by (rule I [OF q(1) fuel' [OF q(2,3)]]) (use False in simp_all)
          then show "result_ok (jp_text p) (jp_offset p + 1) (value_ok d) (parse_items fuel (d + 1) [] q)"
            using q(2,3) by (auto intro: result_ok_mono)
        qed (use that False in \<open>simp_all add: byte_nat\<close>)
        then show ?thesis using False unfolding parse_array_def by (simp only: if_False)
      qed (use p(1) in \<open>simp add: parse_array_def\<close>)
      have str: "result_ok (jp_text p) (jp_offset p + 1) (value_ok d) (and_then (json_string p) (\<lambda>s q. Done (JString s) q))"
        if "b = 0x22"
        by (rule result_ok_then [OF string_ok [OF p(1)]]) (use that Some in simp_all)
      have num: "result_ok (jp_text p) (jp_offset p + 1) (value_ok d) (and_then (json_number p) (\<lambda>raw q. Done (JNumber raw) q))"
        by (rule result_ok_then [OF number_ok [OF p(1)]]) simp_all
      show ?thesis
        unfolding parse_value.simps at option.case Some
      proof (rule result_ok_then [where a = "jp_offset p + 1" and Q = "value_ok d"], goal_cases)
        case 1
        show ?case
          using obj arr str num literal_ok [OF p(1), where P = "value_ok d"] p(1) by (auto simp: byte_nat)
      qed simp
    qed
  qed
  then show ?case using members items by blast
qed simp
end
