(* ===== verification/Json_Roundtrip.thy ===== *)
theory Json_Roundtrip
  imports Json_Read
begin

text \<open>
  What the writer writes, the reader reads back. The written text is ASCII, so every offset is a
  character boundary; \<open>lands\<close> says what is left to read.
\<close>

section \<open>Reading ASCII text\<close>

definition ascii_bytes :: "bytes \<Rightarrow> bool" where
  "ascii_bytes doc \<longleftrightarrow> list_all (\<lambda>b. b < 0x80) doc"

definition lands :: "bytes \<Rightarrow> bytes \<Rightarrow> json_parser \<Rightarrow> bool" where
  "lands doc rest p \<longleftrightarrow> ascii_bytes doc \<and> jp_text p = doc \<and> drop (jp_offset p) doc = rest \<and>
     jp_offset p \<le> length doc \<and> jp_line_start p \<le> jp_offset p"

lemma ascii_valid: "ascii_bytes doc \<Longrightarrow> utf8_valid doc"
  by (induction doc) (simp_all add: ascii_bytes_def utf8_valid_ascii_Cons)

lemma ascii_boundary: "ascii_bytes doc \<Longrightarrow> i \<le> length doc \<Longrightarrow> is_boundary doc i"
  using boundary_ascii [of i doc] by (cases "i = length doc") (auto simp: ascii_bytes_def list_all_length)

lemma lands_stands: "lands doc rest p \<Longrightarrow> stands p"
  using ascii_valid ascii_boundary by (auto simp: lands_def stands_def)

lemma lands_peek: "lands doc (b # rest) p \<Longrightarrow> peek p = Some b"
  using peek_drop [of p] by (simp add: lands_def)

lemma lands_peek_Nil: "lands doc [] p \<Longrightarrow> peek p = None"
  by (simp add: lands_def peek_def)

lemma lands_advance: "lands doc (b # rest) p \<Longrightarrow> lands doc rest (advance 1 p)"
proof -
  assume l: "lands doc (b # rest) p"
  then have "jp_offset p < length doc" by (metis drop_all lands_def leI list.distinct(1))
  then show ?thesis using l drop_peek [OF lands_peek [OF l]] by (simp add: lands_def)
qed

lemma lands_run: "lands doc (w @ rest) p \<Longrightarrow> lands doc rest (advance (length w) p)"
proof (induction w arbitrary: p)
  case Nil
  then show ?case by (simp add: advance_def)
next
  case (Cons b w)
  from Cons.IH [OF lands_advance] Cons.prems show ?case by (simp add: advance_def)
qed

lemma lands_slice:
  assumes "lands doc rest p" "a \<le> jp_offset p"
  shows "str_slice doc a (jp_offset p) = Some (subslice doc a (jp_offset p))"
  using assms ascii_boundary [of doc a] ascii_boundary [of doc "jp_offset p"] by (auto simp: lands_def str_slice_def)

definition is_space :: "u8 \<Rightarrow> bool" where
  "is_space b \<longleftrightarrow> b = 0x20 \<or> b = 0x09 \<or> b = 0x0D \<or> b = 0x0A"

lemma lands_skip:
  "lands doc (ws @ rest) p \<Longrightarrow> list_all is_space ws \<Longrightarrow> rest = [] \<or> \<not> is_space (hd rest) \<Longrightarrow> lands doc rest (skip_whitespace p)"
proof (induction ws arbitrary: p)
  case Nil
  then show ?case
    using lands_peek_Nil [of doc p] lands_peek [of doc "hd rest" "tl rest" p]
    by (cases rest) (auto simp: skip_whitespace.simps [of p] is_space_def)
next
  case (Cons b ws)
  have p: "peek p = Some b" using lands_peek Cons.prems(1) by simp
  have l: "lands doc (ws @ rest) (advance 1 p)" using lands_advance Cons.prems(1) by simp
  then have l': "lands doc (ws @ rest) ((advance 1 p)\<lparr>jp_line := n, jp_line_start := jp_offset (advance 1 p)\<rparr>)" for n
    by (simp add: lands_def)
  show ?case
    using Cons.IH [OF l] Cons.IH [OF l'] Cons.prems(2,3) p
    by (auto simp: skip_whitespace.simps [of p] is_space_def Let_def)
qed

lemma lands_starts: "lands doc (w @ rest) p \<Longrightarrow> starts_with w p = Some True"
  using starts_with_ok [OF lands_stands] by (simp add: lands_def)

section \<open>Hexadecimal escapes\<close>

lemma hex_digit_upper:
  assumes "n < 16"
  shows "hex_digit (upper_hex n) = Some (word_of_nat n) \<and> upper_hex n < 0x80"
proof -
  have "list_all (\<lambda>n. hex_digit (upper_hex n) = Some (word_of_nat n) \<and> upper_hex n < 0x80) [0..<16]"
    by (simp add: upt_rec hex_digit_def upper_hex_def)
  then show ?thesis using assms by (simp add: list_all_iff)
qed

lemma push_nibble:
  assumes "n < 16"
  shows "push_bit 4 (word_of_nat a :: u16) OR word_of_nat n = word_of_nat (a * 16 + n)"
proof -
  have "push_bit 4 a AND n = 0"
  proof (rule bit_eqI)
    fix k
    have "\<not> bit n k" if "4 \<le> k"
    proof -
      have "(2::nat) ^ 4 \<le> 2 ^ k" using that by (intro power_increasing) simp_all
      then have "n < 2 ^ k" using assms by simp
      then show ?thesis by (simp add: bit_iff_odd)
    qed
    then show "bit (push_bit 4 a AND n) k = bit 0 k" by (auto simp: bit_and_iff bit_push_bit_iff)
  qed
  then have "push_bit 4 a OR n = a * 16 + n" using disjunctive_add_eq_or [of "push_bit 4 a" n] by (simp add: push_bit_eq_mult)
  then show ?thesis by (metis of_nat_or_eq of_nat_push_bit)
qed

lemma hex_fold_upper:
  assumes "u < 65536"
  shows "hex_fold 0 (upper_hex4 u) = Some (word_of_nat u)"
proof -
  have up: "u div 256 div 16 = u div 4096" "u div 16 div 16 = u div 256" by (simp_all add: div_mult2_eq [symmetric])
  have e: "u div 4096 * 16 + u div 256 mod 16 = u div 256" "u div 256 * 16 + u div 16 mod 16 = u div 16" "u div 16 * 16 + u mod 16 = u"
    using div_mult_mod_eq [of "u div 256" 16] div_mult_mod_eq [of "u div 16" 16] up by simp_all
  have d: "u div 4096 < 16" "u div 256 mod 16 < 16" "u div 16 mod 16 < 16" "u mod 16 < 16" using assms by simp_all
  have "push_bit 4 (0 :: u16) OR word_of_nat (u div 4096) = word_of_nat (u div 4096)" by simp
  then show ?thesis
    using d e hex_digit_upper push_nibble by (simp add: upper_hex4_def del: of_nat_add of_nat_mult push_bit_of_0)
qed

lemma hex4_reads:
  assumes "lands doc (upper_hex4 u @ rest) p" "u < 65536"
  shows "hex4 p = Done (word_of_nat u) (advance 4 p) \<and> lands doc rest (advance 4 p)"
proof -
  have len: "length (upper_hex4 u) = 4" by (simp add: upper_hex4_def)
  have "length (drop (jp_offset p) doc) = 4 + length rest" using assms(1) len by (simp add: lands_def)
  then have l: "jp_offset p + 4 \<le> length doc" by simp
  have s: "subslice doc (jp_offset p) (jp_offset p + 4) = upper_hex4 u" using assms(1) len by (simp add: lands_def subslice_def)
  have "jp_text p = doc" using assms(1) by (simp add: lands_def)
  then have "hex4 p = Done (word_of_nat u) (advance 4 p)" using l s hex_fold_upper [OF assms(2)] by (simp add: hex4_def)
  then show ?thesis using lands_run [OF assms(1)] len by simp
qed

lemma unicode_reads:
  assumes "is_scalar c" "lands doc (upper_hex4 (hd (encode_utf16 c)) @ concat (map unit_text (tl (encode_utf16 c))) @ rest) p"
  shows "\<exists>q. unicode_escape p = Done c q \<and> lands doc rest q"
proof (cases "c < 0x10000")
  case True
  then have l: "lands doc (upper_hex4 c @ rest) p" using assms(2) by (simp add: encode_utf16_def)
  have u: "unat (word_of_nat c :: u16) = c" using True by (simp add: unat_of_nat_small)
  have "c < 0xD800 \<or> 0xE000 \<le> c" using assms(1) True by (auto simp: is_scalar_def)
  then show ?thesis using hex4_reads [OF l] True u by (auto simp: unicode_escape_def byte_nat)
next
  case False
  define hi lo where "hi = 0xD800 + (c - 0x10000) div 0x400" and "lo = 0xDC00 + (c - 0x10000) mod 0x400"
  have c: "c < 0x110000" using assms(1) by (auto simp: is_scalar_def)
  then have hi: "0xD800 \<le> hi" "hi \<le> 0xDBFF" using False by (simp_all add: hi_def)
  have "(c - 0x10000) mod 0x400 < 0x400" by simp
  then have lo: "0xDC00 \<le> lo" "lo \<le> 0xDFFF" by (simp_all add: lo_def)
  have u: "unat (word_of_nat hi :: u16) = hi" "unat (word_of_nat lo :: u16) = lo" using hi lo by (simp_all add: unat_of_nat_small)
  have l: "lands doc (upper_hex4 hi @ [0x5C, 0x75] @ upper_hex4 lo @ rest) p"
    using assms(2) False by (simp add: encode_utf16_def unit_text_def hi_def lo_def)
  have h: "hex4 p = Done (word_of_nat hi) (advance 4 p)" "lands doc ([0x5C, 0x75] @ upper_hex4 lo @ rest) (advance 4 p)"
    using hex4_reads [OF l] hi by simp_all
  have len: "length [0x5C, 0x75 :: u8] = 2" by simp
  have "lands doc (upper_hex4 lo @ rest) (advance 2 (advance 4 p))" using lands_run [OF h(2)] unfolding len .
  then have h2: "hex4 (advance 2 (advance 4 p)) = Done (word_of_nat lo) (advance 4 (advance 2 (advance 4 p)))"
    "lands doc rest (advance 4 (advance 2 (advance 4 p)))"
    using hex4_reads lo by simp_all
  have "c - 0x10000 = (c - 0x10000) div 0x400 * 0x400 + (c - 0x10000) mod 0x400" by (rule div_mult_mod_eq [symmetric])
  then have "0x10000 + (hi - 0xD800) * 2 ^ 10 + (lo - 0xDC00) = c" using False by (simp add: hi_def lo_def)
  then show ?thesis
    using h(1) h2 lands_starts [OF h(2)] hi lo u by (auto simp: unicode_escape_def byte_nat)
qed

section \<open>Strings\<close>

text \<open>A character is written as itself, or as a backslash and what \<open>escape\<close> reads back.\<close>

definition plain_char :: "nat \<Rightarrow> bool" where
  "plain_char c \<longleftrightarrow> 0x20 \<le> c \<and> c \<le> 0x7E \<and> c \<notin> {0x22, 0x5C, 0x26, 0x27, 0x3C, 0x3E, 0x2B, 0x60}"

lemma write_plain: "plain_char c \<Longrightarrow> write_char c = [word_of_nat c]"
  by (auto simp: plain_char_def write_char_def)

lemma escape_unit_text:
  assumes "is_scalar c" "lands doc (tl (concat (map unit_text (encode_utf16 c))) @ rest) p"
  shows "\<exists>q. json_escape p = Done (utf8_encode c) q \<and> lands doc rest q"
proof -
  have e: "tl (concat (map unit_text (encode_utf16 c))) @ rest =
      0x75 # (upper_hex4 (hd (encode_utf16 c)) @ concat (map unit_text (tl (encode_utf16 c))) @ rest)"
    by (simp add: encode_utf16_def unit_text_def)
  have p: "peek p = Some 0x75" using assms(2) unfolding e by (rule lands_peek)
  have "lands doc (upper_hex4 (hd (encode_utf16 c)) @ concat (map unit_text (tl (encode_utf16 c))) @ rest) (advance 1 p)"
    using assms(2) unfolding e by (rule lands_advance)
  from unicode_reads [OF assms(1) this] p assms(1) show ?thesis
    by (auto simp: json_escape_def simple_escape_def Let_def)
qed

lemma escape_simple:
  assumes "lands doc (b # rest) p" "simple_escape b = Some c"
  shows "\<exists>q. json_escape p = Done (utf8_encode c) q \<and> lands doc rest q"
  using assms lands_peek [OF assms(1)] lands_advance [OF assms(1)] by (auto simp: json_escape_def Let_def)

lemma write_escaped:
  assumes "is_scalar c" "\<not> plain_char c"
  shows "\<exists>e. write_char c = 0x5C # e \<and> (\<forall>doc rest p. lands doc (e @ rest) p \<longrightarrow>
    (\<exists>q. json_escape p = Done (utf8_encode c) q \<and> lands doc rest q))"
proof (cases "c \<in> {0x22, 0x5C, 10, 13, 9, 8, 12}")
  case True
  define m where "m = map_of [(0x22, 0x22), (0x5C, 0x5C), (10, 0x6E), (13, 0x72), (9, 0x74), (8, 0x62), (12 :: nat, 0x66 :: u8)]"
  have "write_char c = [0x5C, the (m c)] \<and> simple_escape (the (m c)) = Some c"
    using True by (auto simp: write_char_def simple_escape_def m_def)
  then show ?thesis using escape_simple by (intro exI [of _ "[the (m c)]"]) auto
next
  case False
  have "write_char c = concat (map unit_text (encode_utf16 c))"
    using False assms(2) by (auto simp: write_char_def plain_char_def encode_utf16_def)
  moreover have "concat (map unit_text (encode_utf16 c)) = 0x5C # tl (concat (map unit_text (encode_utf16 c)))"
    by (simp add: encode_utf16_def unit_text_def)
  ultimately show ?thesis using escape_unit_text [OF assms(1)] by (intro exI) auto
qed

lemma slice_grow:
  assumes "lands doc (b # rest) p" "run \<le> jp_offset p"
  shows "subslice doc run (jp_offset p + 1) = subslice doc run (jp_offset p) @ [b]"
proof -
  have d: "drop (jp_offset p - run) (drop run doc) = b # rest" using assms by (simp add: lands_def)
  have "take (Suc (jp_offset p - run)) (drop run doc) = take (jp_offset p - run) (drop run doc) @ [b]"
    using d by (metis Cons_nth_drop_Suc drop_all leI list.inject list.simps(3) take_Suc_conv_app_nth)
  then show ?thesis using assms(2) by (simp add: subslice_def Suc_diff_le)
qed

lemma string_loop_reads:
  "list_all is_scalar cs \<Longrightarrow> lands doc (concat (map write_char cs) @ 0x22 # rest) p \<Longrightarrow> run \<le> jp_offset p \<Longrightarrow>
    \<exists>q. string_loop out run p = Done (out @ subslice doc run (jp_offset p) @ concat (map utf8_encode cs)) q \<and> lands doc rest q"
proof (induction cs arbitrary: p run out)
  case Nil
  have p: "peek p = Some 0x22" using Nil.prems(2) lands_peek by simp
  have "jp_text p = doc" using Nil.prems(2) by (simp add: lands_def)
  then show ?case
    using p lands_slice [OF Nil.prems(2,3)] lands_advance Nil.prems(2) by (simp add: string_loop.simps [of out run p])
next
  case (Cons c cs)
  let ?tail = "concat (map write_char cs) @ 0x22 # rest"
  have doc: "jp_text p = doc" using Cons.prems(2) by (simp add: lands_def)
  show ?case
  proof (cases "plain_char c")
    case True
    define b :: u8 where "b = word_of_nat c"
    have c: "32 \<le> c" "c \<le> 126" "c \<noteq> 34" "c \<noteq> 92" using True by (auto simp: plain_char_def)
    then have b: "b \<noteq> 0x22" "b \<noteq> 0x5C" "\<not> b \<le> 0x1F" "utf8_encode c = [b]"
      by (simp_all add: b_def byte_nat utf8_encode_ascii)
    have l: "lands doc (b # ?tail) p" using Cons.prems(2) write_plain [OF True] by (simp add: b_def)
    have "run \<le> jp_offset (advance 1 p)" using Cons.prems(3) by simp
    from Cons.IH [OF _ lands_advance [OF l] this, of out] Cons.prems(1) obtain q where
      q: "string_loop out run (advance 1 p) = Done (out @ subslice doc run (jp_offset p + 1) @ concat (map utf8_encode cs)) q" "lands doc rest q"
      by auto
    then show ?thesis
      using b lands_peek [OF l] slice_grow [OF l Cons.prems(3)] by (simp add: string_loop.simps [of out run p])
  next
    case False
    obtain e where e: "write_char c = 0x5C # e"
      and reads: "\<And>doc rest p. lands doc (e @ rest) p \<Longrightarrow> \<exists>q. json_escape p = Done (utf8_encode c) q \<and> lands doc rest q"
      using write_escaped [OF _ False] Cons.prems(1) by auto
    have l: "lands doc (0x5C # e @ ?tail) p" using Cons.prems(2) e by simp
    obtain q where q: "json_escape (advance 1 p) = Done (utf8_encode c) q" "lands doc ?tail q"
      using reads [OF lands_advance [OF l]] by blast
    from Cons.IH [OF _ q(2) order_refl, of "out @ subslice doc run (jp_offset p) @ utf8_encode c"] Cons.prems(1) obtain r where
      r: "string_loop (out @ subslice doc run (jp_offset p) @ utf8_encode c) (jp_offset q) q =
        Done ((out @ subslice doc run (jp_offset p) @ utf8_encode c) @ [] @ concat (map utf8_encode cs)) r" "lands doc rest r"
      by (auto simp: subslice_def)
    then show ?thesis
      using q(1) lands_peek [OF l] lands_slice [OF l Cons.prems(3)] doc by (simp add: string_loop.simps [of out run p])
  qed
qed

lemma string_reads:
  assumes "utf8_valid s" "lands doc (string_text s @ rest) p"
  shows "\<exists>q. json_string p = Done s q \<and> lands doc rest q"
proof -
  have l: "lands doc (concat (map write_char (fst (utf8_chars s))) @ 0x22 # rest) (advance 1 p)"
    using assms(2) lands_advance by (simp add: string_text_def)
  from string_loop_reads [OF utf8_chars_scalar [OF assms(1)] l order_refl, of "[]"] utf8_chars_concat [OF assms(1)]
  show ?thesis by (auto simp: json_string_def Let_def subslice_def)
qed

section \<open>Numbers\<close>

text \<open>What may follow a number in a written document.\<close>

definition number_ends :: "bytes \<Rightarrow> bool" where
  "number_ends rest \<longleftrightarrow> rest = [] \<or> \<not> is_digit (hd rest) \<and> hd rest \<notin> {0x2E, 0x65, 0x45}"

lemma lands_digits:
  assumes "lands doc (ds @ rest) p" "list_all is_digit ds" "rest = [] \<or> \<not> is_digit (hd rest)"
  shows "digits p = advance (length ds) p \<and> lands doc rest (digits p)"
proof -
  have "takeWhile is_digit (ds @ rest) = ds" using assms(2,3) by (cases rest) (auto simp: takeWhile_append list_all_iff)
  then have "digits p = advance (length ds) p" using assms(1) by (simp add: digits_eq lands_def)
  then show ?thesis using lands_run [OF assms(1)] by simp
qed

lemma lands_peek_hd: "lands doc rest p \<Longrightarrow> peek p = (if rest = [] then None else Some (hd rest))"
  using lands_peek lands_peek_Nil by (cases rest) auto

lemma some_digits_reads:
  assumes "lands doc (ds @ rest) p" "all_digits ds" "rest = [] \<or> \<not> is_digit (hd rest)"
  shows "some_digits p = Done () (digits p) \<and> lands doc rest (digits p)"
proof -
  have "peek p = Some (hd ds)" "is_digit (hd ds)"
    using assms(1,2) lands_peek_hd [OF assms(1)] by (cases ds; simp add: all_digits_def)+
  then show ?thesis using lands_digits [OF assms(1) _ assms(3)] assms(2) by (auto simp: some_digits_def peek_digit_def all_digits_def)
qed

lemma integer_reads:
  assumes "lands doc (i @ rest) p" "is_integer_part i" "rest = [] \<or> \<not> is_digit (hd rest)"
  shows "\<exists>q. number_integer p = Done () q \<and> lands doc rest q"
proof (cases "i = [0x30]")
  case True
  then show ?thesis using lands_peek lands_advance assms(1) by (fastforce simp: number_integer_def)
next
  case False
  then have i: "all_digits i" "hd i \<noteq> 0x30" using assms(2) by (auto simp: is_integer_part_def)
  then have "peek p = Some (hd i)" "is_digit (hd i)"
    using lands_peek_hd [OF assms(1)] by (cases i; simp add: all_digits_def)+
  then show ?thesis
    using lands_digits [OF assms(1) _ assms(3)] i by (auto simp: number_integer_def peek_digit_def all_digits_def)
qed

lemma fraction_reads:
  assumes "lands doc (f @ rest) p" "is_fraction f" "rest = [] \<or> \<not> is_digit (hd rest)" "f = [] \<Longrightarrow> rest = [] \<or> hd rest \<noteq> 0x2E"
  shows "\<exists>q. number_fraction p = Done () q \<and> lands doc rest q"
proof (cases "f = []")
  case True
  then show ?thesis using assms(1,4) lands_peek_hd [OF assms(1)] by (auto simp: number_fraction_def)
next
  case False
  then obtain ds where ds: "f = 0x2E # ds" "all_digits ds" using assms(2) by (auto simp: is_fraction_def)
  then have l: "lands doc (0x2E # ds @ rest) p" using assms(1) by simp
  from some_digits_reads [OF lands_advance [OF l] ds(2) assms(3)] show ?thesis
    using lands_peek [OF l] by (auto simp: number_fraction_def)
qed

lemma exponent_reads:
  assumes "lands doc (e @ rest) p" "is_exponent e" "number_ends rest"
  shows "\<exists>q. number_exponent p = Done () q \<and> lands doc rest q"
proof (cases "e = []")
  case True
  then show ?thesis using assms(1,3) lands_peek_hd [OF assms(1)] by (auto simp: number_exponent_def number_ends_def)
next
  case False
  then obtain h sg ds where e: "e = h # sg @ ds" "h = 0x65 \<or> h = 0x45" "sg = [] \<or> sg = [0x2B] \<or> sg = [0x2D]" "all_digits ds"
    using assms(2) by (auto simp: is_exponent_def)
  have l: "lands doc (h # sg @ ds @ rest) p" using assms(1) e(1) by simp
  define q where "q = (if peek (advance 1 p) = Some 0x2B \<or> peek (advance 1 p) = Some 0x2D then advance 1 (advance 1 p) else advance 1 p)"
  have ds: "ds \<noteq> []" "is_digit (hd ds)" using e(4) by (cases ds; simp add: all_digits_def)+
  have "\<not> is_digit 0x2B" "\<not> is_digit 0x2D" by (simp_all add: is_digit_def byte_nat)
  then have "lands doc (ds @ rest) q"
    using lands_advance [OF l] lands_advance [of doc _ "ds @ rest" "advance 1 p"] lands_peek_hd [OF lands_advance [OF l]] e(3) ds
    by (auto simp: q_def)
  from some_digits_reads [OF this e(4)] assms(3) have "some_digits q = Done () (digits q) \<and> lands doc rest (digits q)"
    by (auto simp: number_ends_def)
  then show ?thesis using lands_peek [OF l] e(2) by (auto simp: number_exponent_def q_def Let_def)
qed

lemma lands_back:
  assumes "lands doc (w @ rest) p" "lands doc rest q"
  shows "str_slice doc (jp_offset p) (jp_offset q) = Some w"
proof -
  have "length (drop (jp_offset p) doc) = length (w @ rest)" "length (drop (jp_offset q) doc) = length rest"
    using assms by (simp_all add: lands_def)
  then have "length doc - jp_offset p = length w + length rest" "length doc - jp_offset q = length rest" by simp_all
  moreover have "jp_offset p \<le> length doc" "jp_offset q \<le> length doc" using assms by (simp_all add: lands_def)
  ultimately have "jp_offset p \<le> jp_offset q" "jp_offset q - jp_offset p = length w" by linarith+
  then show ?thesis using lands_slice [OF assms(2), of "jp_offset p"] assms(1) by (simp add: subslice_def lands_def)
qed

lemma number_reads:
  assumes "lands doc (raw @ rest) p" "is_number raw" "number_ends rest"
  shows "\<exists>q. json_number p = Done raw q \<and> lands doc rest q"
proof -
  obtain sg i f e where raw: "raw = sg @ i @ f @ e" "sg = [] \<or> sg = [0x2D]" "is_integer_part i" "is_fraction f" "is_exponent e"
    using assms(2) unfolding is_number_def by blast
  have l: "lands doc (sg @ i @ f @ e @ rest) p" using assms(1) raw(1) by simp
  have d: "\<not> is_digit 0x2D" "\<not> is_digit 0x2E" "\<not> is_digit 0x65" "\<not> is_digit 0x45" by (simp_all add: is_digit_def byte_nat)
  have i: "i \<noteq> []" "is_digit (hd i)"
    using raw(3) by (auto simp: is_integer_part_def all_digits_def is_digit_def byte_nat neq_Nil_conv)
  define q where "q = (if peek p = Some 0x2D then advance 1 p else p)"
  have q: "lands doc (i @ f @ e @ rest) q"
    using l raw(2) i d lands_peek_hd [OF l] lands_advance [of doc "0x2D" "i @ f @ e @ rest" p] by (auto simp: q_def)
  have e_end: "e @ rest = [] \<or> \<not> is_digit (hd (e @ rest)) \<and> hd (e @ rest) \<noteq> 0x2E"
    using raw(5) assms(3) d by (auto simp: is_exponent_def number_ends_def)
  have f_end: "f @ e @ rest = [] \<or> \<not> is_digit (hd (f @ e @ rest))"
    using raw(4) e_end d by (auto simp: is_fraction_def)
  obtain q1 where q1: "number_integer q = Done () q1" "lands doc (f @ e @ rest) q1"
    using integer_reads [OF q raw(3) f_end] by blast
  obtain q2 where q2: "number_fraction q1 = Done () q2" "lands doc (e @ rest) q2"
    using fraction_reads [OF q1(2) raw(4)] e_end by auto
  obtain q3 where q3: "number_exponent q2 = Done () q3" "lands doc rest q3"
    using exponent_reads [OF q2(2) raw(5) assms(3)] by blast
  have "\<not> peek_digit q3" using lands_peek_hd [OF q3(2)] assms(3) by (auto simp: peek_digit_def number_ends_def)
  moreover have "jp_text q3 = doc" using q3(2) by (simp add: lands_def)
  ultimately have "json_number p = Done raw q3"
    using q1(1) q2(1) q3(1) lands_back [OF assms(1) q3(2)] by (simp add: json_number_def Let_def q_def [symmetric])
  then show ?thesis using q3(2) by blast
qed

section \<open>Values\<close>

text \<open>A document without its positions.\<close>

fun erase_value :: "json_value \<Rightarrow> json_value" and erase :: "json_node \<Rightarrow> json_node" and erase_member :: "json_member \<Rightarrow> json_member" where
  "erase_value (JArray items) = JArray (map erase items)"
| "erase_value (JObject members) = JObject (map erase_member members)"
| "erase_value v = v"
| "erase (Node v at) = node_made (erase_value v)"
| "erase_member (Member name v at) = Member name (erase v) \<lparr>jq_line = 0, jq_column = 0\<rparr>"

lemma lands_here: "lands doc rest p \<Longrightarrow> \<exists>at. here p = Some at"
  using here_stands lands_stands by blast

definition item_ends :: "bytes \<Rightarrow> bool" where
  "item_ends rest \<longleftrightarrow> rest = [] \<or> hd rest = 0x2C \<or> hd rest = 0x0A"

lemma item_ends_number: "item_ends rest \<Longrightarrow> number_ends rest"
  by (auto simp: item_ends_def number_ends_def is_digit_def byte_nat)

text \<open>What it is for a node to read back.\<close>

definition reads_node :: "json_node \<Rightarrow> bool" where
  "reads_node n \<longleftrightarrow> (\<forall>doc rest p fuel d indent. node_ok d n \<longrightarrow> lands doc (node_text n indent @ rest) p \<longrightarrow> item_ends rest \<longrightarrow>
     2 * length (node_text n indent @ rest) + 1 \<le> fuel \<longrightarrow>
     (\<exists>m q. parse_value fuel d p = Done m q \<and> erase m = erase n \<and> lands doc rest q))"

lemma reads_nodeD:
  assumes "reads_node n" "node_ok d n" "lands doc (node_text n indent @ rest) p" "item_ends rest"
    "2 * length (node_text n indent @ rest) + 1 \<le> fuel"
  shows "\<exists>m q. parse_value fuel d p = Done m q \<and> erase m = erase n \<and> lands doc rest q"
  using assms unfolding reads_node_def by blast

lemma pad_space: "list_all is_space (pad_text n)"
  by (induction n) (simp_all add: pad_text_def is_space_def)

text \<open>After an item: the comma and the next line, or the closing byte.\<close>

lemma after_comma:
  assumes "lands doc (0x2C # 0x0A # pad_text n @ rest) p" "rest \<noteq> []" "\<not> is_space (hd rest)"
  shows "\<exists>q. after_item close what p = Done True q \<and> lands doc rest q"
proof -
  have s: "skip_whitespace p = p" using lands_peek [OF assms(1)] by (simp add: skip_whitespace.simps [of p])
  have "lands doc ((0x0A # pad_text n) @ rest) (advance 1 p)" using lands_advance [OF assms(1)] by simp
  from lands_skip [OF this] show ?thesis
    using lands_peek [OF assms(1)] pad_space assms(2,3) by (simp add: after_item_def s is_space_def)
qed

lemma after_close:
  assumes "lands doc (0x0A # pad_text n @ close # rest) p" "\<not> is_space close" "close \<noteq> 0x2C"
  shows "\<exists>q. after_item close what p = Done False q \<and> lands doc rest q"
proof -
  have "lands doc ((0x0A # pad_text n) @ close # rest) p" using assms(1) by simp
  from lands_skip [OF this] have l: "lands doc (close # rest) (skip_whitespace p)" using pad_space assms(2) by (simp add: is_space_def)
  then show ?thesis using lands_peek [OF l] lands_advance [OF l] assms(3) by (simp add: after_item_def Let_def)
qed

lemma integer_head: "is_integer_part i \<Longrightarrow> i \<noteq> [] \<and> is_digit (hd i)"
proof -
  have "is_digit 0x30" by (simp add: is_digit_def byte_nat)
  then show "is_integer_part i \<Longrightarrow> i \<noteq> [] \<and> is_digit (hd i)"
    by (cases i) (auto simp: is_integer_part_def all_digits_def)
qed

lemma number_head: "is_number raw \<Longrightarrow> raw \<noteq> [] \<and> (hd raw = 0x2D \<or> is_digit (hd raw))"
  using integer_head by (auto simp: is_number_def)

lemma digit_head: "b = 0x2D \<or> is_digit b \<Longrightarrow> \<not> is_space b \<and> b \<notin> {0x5D, 0x7D}"
  by (auto simp: is_digit_def is_space_def byte_nat)

lemma node_text_head:
  assumes "node_ok d n"
  shows "node_text n indent \<noteq> [] \<and> \<not> is_space (hd (node_text n indent)) \<and> hd (node_text n indent) \<notin> {0x5D, 0x7D}"
proof -
  obtain v at where n: "n = Node v at" by (cases n)
  show ?thesis
  proof (cases v)
    case (JNumber raw)
    then have raw: "is_number raw" using assms n by simp
    show ?thesis using number_head [OF raw] digit_head [of "hd raw"] by (simp add: n JNumber)
  qed (auto simp: n is_space_def bool_text_def string_text_def)
qed

lemma items_loop:
  "\<forall>n \<in> set (item # items). reads_node n \<Longrightarrow> items_ok (d + 1) (item # items) \<Longrightarrow>
    lands doc (node_text item (indent + 1) @ line_end items @ items_text items indent @ pad_text indent @ 0x5D # rest) p \<Longrightarrow>
    2 * length (node_text item (indent + 1) @ line_end items @ items_text items indent @ pad_text indent @ 0x5D # rest) + 2 \<le> fuel \<Longrightarrow>
    \<exists>ms q. parse_items fuel (d + 1) acc p = Done (JArray (acc @ ms)) q \<and> map erase ms = map erase (item # items) \<and> lands doc rest q"
proof (induction items arbitrary: item p fuel acc)
  case Nil
  obtain k where k: "fuel = Suc k" using Nil.prems(4) by (cases fuel) auto
  obtain m q where m: "parse_value k (d + 1) p = Done m q" "erase m = erase item" "lands doc (line_end ([] :: json_node list) @ pad_text indent @ 0x5D # rest) q"
    using reads_nodeD [of item "d + 1" doc "indent + 1" "line_end ([] :: json_node list) @ items_text [] indent @ pad_text indent @ 0x5D # rest" p k]
      Nil.prems k by (auto simp: item_ends_def line_end_def)
  obtain r where "after_item 0x5D (''expected ',' or ']'' @ [CHR 0x27]) q = Done False r" "lands doc rest r"
    using after_close [of doc indent "0x5D" rest q] m(3) by (auto simp: line_end_def is_space_def)
  then show ?case using m by (intro exI [of _ "[m]"] exI [of _ r]) (simp add: k)
next
  case (Cons next_item items)
  obtain k where k: "fuel = Suc k" using Cons.prems(4) by (cases fuel) auto
  let ?tail = "node_text next_item (indent + 1) @ line_end items @ items_text items indent @ pad_text indent @ 0x5D # rest"
  have lines: "line_end (next_item # items) @ items_text (next_item # items) indent @ pad_text indent @ 0x5D # rest =
      0x2C # 0x0A # pad_text (indent + 1) @ ?tail" by (simp add: line_end_def)
  have l: "lands doc (node_text item (indent + 1) @ 0x2C # 0x0A # pad_text (indent + 1) @ ?tail) p"
    using Cons.prems(3) unfolding lines .
  have fuel: "2 * length (node_text item (indent + 1) @ 0x2C # 0x0A # pad_text (indent + 1) @ ?tail) + 2 \<le> fuel"
    using Cons.prems(4) unfolding lines .
  obtain m q where m: "parse_value k (d + 1) p = Done m q" "erase m = erase item" "lands doc (0x2C # 0x0A # pad_text (indent + 1) @ ?tail) q"
    using reads_nodeD [OF _ _ l, of "d + 1" k] Cons.prems(1,2) fuel k by (auto simp: item_ends_def)
  have h: "node_ok (d + 1) next_item" using Cons.prems(2) by simp
  note head = node_text_head [OF h, of "indent + 1"]
  obtain r where r: "after_item 0x5D (''expected ',' or ']'' @ [CHR 0x27]) q = Done True r" "lands doc ?tail r"
    using after_comma [OF m(3)] head by auto
  have "2 * length ?tail + 2 \<le> k" using fuel k by simp
  from Cons.IH [OF _ _ r(2) this, of "acc @ [m]"] Cons.prems(1,2) obtain ms s where
    ms: "parse_items k (d + 1) ((acc @ [m]) @ []) r = Done (JArray ((acc @ [m]) @ ms)) s" "map erase ms = map erase (next_item # items)" "lands doc rest s"
    by auto
  then show ?case using m r by (intro exI [of _ "m # ms"] exI [of _ s]) (simp add: k)
qed

lemma member_head_reads:
  assumes "utf8_valid name" "name \<notin> set names" "lands doc (string_text name @ [0x3A, 0x20] @ rest) p" "rest \<noteq> []" "\<not> is_space (hd rest)"
  shows "\<exists>at q. member_head names p = Done (name, at) q \<and> lands doc rest q"
proof -
  obtain at where at: "here p = Some at" using lands_here [OF assms(3)] by blast
  have p: "peek p = Some 0x22" using lands_peek_hd [OF assms(3)] by (simp add: string_text_def)
  obtain q where q: "json_string p = Done name q" "lands doc ([0x3A, 0x20] @ rest) q" using string_reads [OF assms(1,3)] by blast
  have q': "lands doc (0x3A # [0x20] @ rest) q" using q(2) by simp
  have sk: "skip_whitespace q = q" using lands_peek [OF q'] by (simp add: skip_whitespace.simps [of q])
  have "lands doc rest (skip_whitespace (advance 1 q))"
    by (rule lands_skip [OF lands_advance [OF q']]) (use assms(5) in \<open>simp_all add: is_space_def\<close>)
  then show ?thesis using at p q(1) lands_peek [OF q'] assms(2) by (simp add: member_head_def sk expect_def)
qed

lemma string_text_head: "string_text s \<noteq> [] \<and> hd (string_text s) = 0x22"
  by (simp add: string_text_def)

lemma members_loop:
  "\<forall>m \<in> set (Member name v at # ms). reads_node (member_value m) \<Longrightarrow> members_ok (d + 1) (Member name v at # ms) \<Longrightarrow>
    distinct (map member_name acc @ name # map member_name ms) \<Longrightarrow>
    lands doc (string_text name @ [0x3A, 0x20] @ node_text v (indent + 1) @ line_end ms @ members_text ms indent @ pad_text indent @ 0x7D # rest) p \<Longrightarrow>
    2 * length (string_text name @ [0x3A, 0x20] @ node_text v (indent + 1) @ line_end ms @ members_text ms indent @ pad_text indent @ 0x7D # rest) + 2 \<le> fuel \<Longrightarrow>
    \<exists>ns q. parse_members fuel (d + 1) acc p = Done (JObject (acc @ ns)) q \<and>
      map erase_member ns = map erase_member (Member name v at # ms) \<and> lands doc rest q"
proof (induction ms arbitrary: name v at p fuel acc)
  case Nil
  obtain k where k: "fuel = Suc k" using Nil.prems(5) by (cases fuel) auto
  have v: "node_ok (d + 1) v" "reads_node v" "utf8_valid name" using Nil.prems(1,2) by simp_all
  let ?tail = "0x0A # pad_text indent @ 0x7D # rest"
  have l: "lands doc (string_text name @ [0x3A, 0x20] @ node_text v (indent + 1) @ ?tail) p"
    using Nil.prems(4) by (simp add: line_end_def)
  obtain at' q where q: "member_head (map member_name acc) p = Done (name, at') q" "lands doc (node_text v (indent + 1) @ ?tail) q"
    using member_head_reads [OF v(3) _ l, of "map member_name acc"] Nil.prems(3) node_text_head [OF v(1)] by auto
  obtain m r where m: "parse_value k (d + 1) q = Done m r" "erase m = erase v" "lands doc ?tail r"
    using reads_nodeD [OF v(2,1) q(2), of k] Nil.prems(5) k by (auto simp: item_ends_def line_end_def)
  obtain s where "after_item 0x7D (''expected ',' or '}'' @ [CHR 0x27]) r = Done False s" "lands doc rest s"
    using after_close [OF m(3)] by (auto simp: is_space_def)
  then show ?case using q m by (intro exI [of _ "[Member name m at']"] exI [of _ s]) (simp add: k)
next
  case (Cons next_member ms)
  obtain name' v' at2 where n: "next_member = Member name' v' at2" by (cases next_member)
  obtain k where k: "fuel = Suc k" using Cons.prems(5) by (cases fuel) auto
  have v: "node_ok (d + 1) v" "reads_node v" "utf8_valid name" using Cons.prems(1,2) by simp_all
  let ?tail = "string_text name' @ [0x3A, 0x20] @ node_text v' (indent + 1) @ line_end ms @ members_text ms indent @ pad_text indent @ 0x7D # rest"
  let ?line = "0x2C # 0x0A # pad_text (indent + 1) @ ?tail"
  have lines: "line_end (next_member # ms) @ members_text (next_member # ms) indent @ pad_text indent @ 0x7D # rest = ?line"
    by (simp add: line_end_def n)
  have l: "lands doc (string_text name @ [0x3A, 0x20] @ node_text v (indent + 1) @ ?line) p" using Cons.prems(4) unfolding lines .
  have fuel: "2 * length (string_text name @ [0x3A, 0x20] @ node_text v (indent + 1) @ ?line) + 2 \<le> fuel" using Cons.prems(5) unfolding lines .
  obtain at' q where q: "member_head (map member_name acc) p = Done (name, at') q" "lands doc (node_text v (indent + 1) @ ?line) q"
    using member_head_reads [OF v(3) _ l, of "map member_name acc"] Cons.prems(3) node_text_head [OF v(1)] by auto
  obtain m r where m: "parse_value k (d + 1) q = Done m r" "erase m = erase v" "lands doc ?line r"
    using reads_nodeD [OF v(2,1) q(2), of k] fuel k by (auto simp: item_ends_def)
  obtain s where s: "after_item 0x7D (''expected ',' or '}'' @ [CHR 0x27]) r = Done True s" "lands doc ?tail s"
    using after_comma [OF m(3)] string_text_head [of name'] by (auto simp: is_space_def)
  have "2 * length ?tail + 2 \<le> k" using fuel k by simp
  from Cons.IH [OF _ _ _ s(2) this, of at2 "acc @ [Member name m at']"] Cons.prems(1-3) n obtain ns t where
    ns: "parse_members k (d + 1) (acc @ [Member name m at']) s = Done (JObject ((acc @ [Member name m at']) @ ns)) t"
      "map erase_member ns = map erase_member (Member name' v' at2 # ms)" "lands doc rest t"
    by auto
  then show ?case using q m s n by (intro exI [of _ "Member name m at' # ns"] exI [of _ t]) (simp add: k)
qed


text \<open>Every kind of value reads back.\<close>

lemma literal_reads:
  assumes "lands doc (w @ rest) p"
  shows "\<exists>q. literal w v p = Done v q \<and> lands doc rest q"
  using lands_starts [OF assms] lands_run [OF assms] by (simp add: literal_def)

lemma reads_scalar:
  assumes "v = JNull \<or> (\<exists>b. v = JBool b) \<or> (\<exists>raw. v = JNumber raw) \<or> (\<exists>s. v = JString s)"
  shows "reads_node (Node v at)"
  unfolding reads_node_def
proof (intro allI impI)
  fix doc rest p fuel d indent
  assume ok: "node_ok d (Node v at)" and l: "lands doc (node_text (Node v at) indent @ rest) p" and e: "item_ends rest"
    and fuel: "2 * length (node_text (Node v at) indent @ rest) + 1 \<le> fuel"
  obtain k where k: "fuel = Suc k" using fuel by (cases fuel) auto
  obtain at' where at': "here p = Some at'" using lands_here [OF l] by blast
  show "\<exists>m q. parse_value fuel d p = Done m q \<and> erase m = erase (Node v at) \<and> lands doc rest q"
    using assms
  proof (elim disjE exE)
    assume v: "v = JNull"
    then show ?thesis using l k at' lands_peek_hd [OF l] literal_reads [of doc "[0x6E, 0x75, 0x6C, 0x6C]" rest p JNull] by auto
  next
    fix b assume v: "v = JBool b"
    then show ?thesis
      using l k at' lands_peek_hd [OF l] literal_reads [of doc "[0x74, 0x72, 0x75, 0x65]" rest p "JBool True"]
        literal_reads [of doc "[0x66, 0x61, 0x6C, 0x73, 0x65]" rest p "JBool False"]
      by (cases b) (auto simp: bool_text_def)
  next
    fix raw assume v: "v = JNumber raw"
    have raw: "is_number raw" "lands doc (raw @ rest) p" using ok l v by simp_all
    obtain q where q: "json_number p = Done raw q" "lands doc rest q"
      using number_reads [OF raw(2,1) item_ends_number [OF e]] by blast
    have h: "peek p = Some (hd raw)" "hd raw = 0x2D \<or> is_digit (hd raw)"
      using lands_peek_hd [OF raw(2)] number_head [OF raw(1)] by simp_all
    have f: "(hd raw = 0x7B) = False" "(hd raw = 0x5B) = False" "(hd raw = 0x22) = False" "(hd raw = 0x74) = False"
      "(hd raw = 0x66) = False" "(hd raw = 0x6E) = False" "(hd raw = 0x2D \<or> is_digit (hd raw)) = True"
      using h(2) by (auto simp: is_digit_def byte_nat)
    have "parse_value fuel d p = Done (Node (JNumber raw) at') q"
      unfolding k parse_value.simps at' h(1) option.case f if_False if_True q(1) and_then.simps ..
    then show ?thesis using q(2) v by simp
  next
    fix s assume v: "v = JString s"
    have s: "utf8_valid s" "lands doc (string_text s @ rest) p" using ok l v by simp_all
    then show ?thesis using string_reads [OF s] lands_peek_hd [OF s(2)] string_text_head [of s] at' k v by auto
  qed
qed

lemma reads_array:
  assumes "\<forall>n \<in> set items. reads_node n"
  shows "reads_node (Node (JArray items) at)"
  unfolding reads_node_def
proof (intro allI impI)
  fix doc rest p fuel d indent
  assume ok: "node_ok d (Node (JArray items) at)" and l: "lands doc (node_text (Node (JArray items) at) indent @ rest) p"
    and fuel: "2 * length (node_text (Node (JArray items) at) indent @ rest) + 1 \<le> fuel"
  obtain k where k: "fuel = Suc k" using fuel by (cases fuel) auto
  obtain at' where at': "here p = Some at'" using lands_here [OF l] by blast
  have d: "\<not> MAX_DEPTH < d + 1" "items_ok (d + 1) items" using ok by simp_all
  show "\<exists>m q. parse_value fuel d p = Done m q \<and> erase m = erase (Node (JArray items) at) \<and> lands doc rest q"
  proof (cases items)
    case Nil
    then have l2: "lands doc (0x5B # [] @ 0x5D # rest) p" using l by simp
    have l3: "lands doc (0x5D # rest) (skip_whitespace (advance 1 p))"
      by (rule lands_skip [OF lands_advance [OF l2]]) (simp_all add: is_space_def)
    then show ?thesis
      using lands_peek [OF l2] lands_peek [OF l3] lands_advance [OF l3] at' k d(1) Nil by (simp add: parse_array_def Let_def)
  next
    case (Cons item rest_items)
    let ?body = "node_text item (indent + 1) @ line_end rest_items @ items_text rest_items indent @ pad_text indent @ 0x5D # rest"
    have full: "node_text (Node (JArray items) at) indent @ rest = 0x5B # (0x0A # pad_text (indent + 1)) @ ?body"
      by (simp add: Cons)
    have l2: "lands doc (0x5B # (0x0A # pad_text (indent + 1)) @ ?body) p" using l unfolding full .
    have head: "?body \<noteq> []" "\<not> is_space (hd ?body)" "hd ?body \<noteq> 0x5D"
      using node_text_head [of "d + 1" item "indent + 1"] d(2) Cons by auto
    have l3: "lands doc ?body (skip_whitespace (advance 1 p))"
      by (rule lands_skip [OF lands_advance [OF l2]]) (use pad_space head in \<open>auto simp: is_space_def\<close>)
    have fuel': "2 * length ?body + 2 \<le> k" using fuel unfolding full k by simp
    obtain ms q where ms: "parse_items k (d + 1) [] (skip_whitespace (advance 1 p)) = Done (JArray ms) q"
        "map erase ms = map erase items" "lands doc rest q"
      using items_loop [OF _ _ l3 fuel', of d "[]"] assms d(2) Cons by auto
    have "peek (skip_whitespace (advance 1 p)) \<noteq> Some 0x5D" using lands_peek_hd [OF l3] head by simp
    then have "parse_array (\<lambda>p. parse_items k (d + 1) [] p) (d + 1) p = Done (JArray ms) q"
      using ms(1) d(1) unfolding parse_array_def Let_def by (simp only: if_False)
    then show ?thesis using lands_peek [OF l2] at' ms(2,3) k by simp
  qed
qed

lemma reads_object:
  assumes "\<forall>m \<in> set ms. reads_node (member_value m)"
  shows "reads_node (Node (JObject ms) at)"
  unfolding reads_node_def
proof (intro allI impI)
  fix doc rest p fuel d indent
  assume ok: "node_ok d (Node (JObject ms) at)" and l: "lands doc (node_text (Node (JObject ms) at) indent @ rest) p"
    and fuel: "2 * length (node_text (Node (JObject ms) at) indent @ rest) + 1 \<le> fuel"
  obtain k where k: "fuel = Suc k" using fuel by (cases fuel) auto
  obtain at' where at': "here p = Some at'" using lands_here [OF l] by blast
  have d: "\<not> MAX_DEPTH < d + 1" "members_ok (d + 1) ms" "distinct (map member_name ms)" using ok by simp_all
  show "\<exists>m q. parse_value fuel d p = Done m q \<and> erase m = erase (Node (JObject ms) at) \<and> lands doc rest q"
  proof (cases ms)
    case Nil
    then have l2: "lands doc (0x7B # [] @ 0x7D # rest) p" using l by simp
    have l3: "lands doc (0x7D # rest) (skip_whitespace (advance 1 p))"
      by (rule lands_skip [OF lands_advance [OF l2]]) (simp_all add: is_space_def)
    then show ?thesis
      using lands_peek [OF l2] lands_peek [OF l3] lands_advance [OF l3] at' k d(1) Nil by (simp add: parse_object_def Let_def)
  next
    case (Cons member rest_members)
    obtain name v at2 where m: "member = Member name v at2" by (cases member)
    let ?body = "string_text name @ [0x3A, 0x20] @ node_text v (indent + 1) @ line_end rest_members @
      members_text rest_members indent @ pad_text indent @ 0x7D # rest"
    have full: "node_text (Node (JObject ms) at) indent @ rest = 0x7B # (0x0A # pad_text (indent + 1)) @ ?body"
      by (simp add: Cons m)
    have l2: "lands doc (0x7B # (0x0A # pad_text (indent + 1)) @ ?body) p" using l unfolding full .
    have head: "?body \<noteq> []" "\<not> is_space (hd ?body)" "hd ?body \<noteq> 0x7D"
      using string_text_head [of name] by (auto simp: is_space_def)
    have l3: "lands doc ?body (skip_whitespace (advance 1 p))"
      by (rule lands_skip [OF lands_advance [OF l2]]) (use pad_space head in \<open>auto simp: is_space_def\<close>)
    have fuel': "2 * length ?body + 2 \<le> k" using fuel unfolding full k by simp
    obtain ns q where ns: "parse_members k (d + 1) [] (skip_whitespace (advance 1 p)) = Done (JObject ns) q"
        "map erase_member ns = map erase_member ms" "lands doc rest q"
      using members_loop [OF _ _ _ l3 fuel', of at2 d "[]"] assms d(2,3) Cons m by auto
    have "peek (skip_whitespace (advance 1 p)) \<noteq> Some 0x7D" using lands_peek_hd [OF l3] head by simp
    then have "parse_object (\<lambda>p. parse_members k (d + 1) [] p) (d + 1) p = Done (JObject ns) q"
      using ns(1) d(1) unfolding parse_object_def Let_def by (simp only: if_False)
    then show ?thesis using lands_peek [OF l2] at' ns(2,3) k by simp
  qed
qed

lemma reads_every_node: "reads_node n"
proof (induction n rule: json_node.induct [where ?P1.0 = "\<lambda>v. \<forall>at. reads_node (Node v at)" and ?P3.0 = "\<lambda>m. reads_node (member_value m)"])
  case (JArray items)
  then show ?case using reads_array by blast
next
  case (JObject ms)
  then show ?case using reads_object by blast
qed (auto intro: reads_scalar)
end
