(* ===== verification/Json_Documents.thy ===== *)
theory Json_Documents
  imports Json_Roundtrip
begin

text \<open>
  The properties of \<open>crates/ac-host-core/src/json.rs\<close>: reading is total and safe, written
  documents read back, and \<open>ObjectReader\<close> refuses exactly the members nobody asked for.
\<close>

section \<open>Whole documents\<close>

lemma bom_valid: "utf8_valid bs \<Longrightarrow> utf8_valid (strip_bom bs)"
proof (cases "take 3 bs = [0xEF, 0xBB, 0xBF]")
  case True
  have bom: "[0xEF, 0xBB, 0xBF] = utf8_encode 0xFEFF" "is_scalar 0xFEFF" by (simp_all add: utf8_encode_def is_scalar_def)
  assume "utf8_valid bs"
  then have "utf8_valid (utf8_encode 0xFEFF @ drop 3 bs)" using append_take_drop_id [of 3 bs] True bom(1) by metis
  then show ?thesis using True bom(2) by (simp add: strip_bom_def)
qed (simp add: strip_bom_def)

lemma bom_bad_escape: "bad_escape (strip_bom bs) \<Longrightarrow> bad_escape bs"
proof (cases "take 3 bs = [0xEF, 0xBB, 0xBF]")
  case True
  assume "bad_escape (strip_bom bs)"
  then obtain i where "Suc i < length bs - 3" "drop 3 bs ! i = 0x5C" "0x80 \<le> drop 3 bs ! Suc i"
    using True by (auto simp: strip_bom_def bad_escape_def)
  then show ?thesis unfolding bad_escape_def by (intro exI [of _ "3 + i"]) simp
qed (simp add: strip_bom_def)

definition start_of :: "bytes \<Rightarrow> json_parser" where
  "start_of t = \<lparr>jp_text = t, jp_offset = 0, jp_line = 1, jp_line_start = 0\<rparr>"

lemma json_parse_start:
  assumes "utf8_valid bs" "strip_bom bs = t" "skip_whitespace (start_of t) = p"
  shows "json_parse bs = (if jp_offset p = length t then json_fail EmptyDocument p
      else and_then (parse_value (2 * length t + 1) 0 p) (\<lambda>node p.
             let p = skip_whitespace p
             in if jp_offset p \<noteq> length t then json_fail (Syntax ''unexpected text after the document'') p
                else Done node p))"
  using assms by (simp add: json_parse_def start_of_def Let_def)

lemma parse_result:
  "case json_parse bs of
     Done n p \<Rightarrow> node_ok 0 n \<and> jp_text p = strip_bom bs \<and> jp_offset p = length (jp_text p)
   | Fails e \<Rightarrow> True
   | Panics \<Rightarrow> bad_escape bs
   | NoFuel \<Rightarrow> False"
proof (cases "utf8_valid bs")
  case True
  define t where "t = strip_bom bs"
  define p where "p = skip_whitespace (start_of t)"
  have "utf8_valid t" using bom_valid [OF True] by (simp add: t_def)
  then have "stands (start_of t)" using boundary_start by (simp add: stands_def start_of_def)
  then have p: "stands p" "jp_text p = t" using skip_ok [of "start_of t"] by (simp_all add: p_def, simp add: start_of_def)
  note e = json_parse_start [OF True t_def [symmetric] p_def [symmetric]]
  have "result_ok t (jp_offset p + 1) (node_ok 0) (parse_value (2 * length t + 1) 0 p)"
    using parse_ok [THEN conjunct1, rule_format, OF p(1), of "2 * length t + 1" 0] p(2) by simp
  then have "result_ok t 0 (node_ok 0) (json_parse bs) \<and> (case json_parse bs of Done n p \<Rightarrow> jp_offset p = length t | _ \<Rightarrow> True)"
    unfolding e
  proof (intro conjI)
    assume r: "result_ok t (jp_offset p + 1) (node_ok 0) (parse_value (2 * length t + 1) 0 p)"
    let ?r = "and_then (parse_value (2 * length t + 1) 0 p) (\<lambda>node p.
             let p = skip_whitespace p
             in if jp_offset p \<noteq> length t then json_fail (Syntax ''unexpected text after the document'') p
                else Done node p)"
    have "result_ok t 0 (node_ok 0) ?r"
      by (rule result_ok_then [OF r]) (use skip_ok in \<open>simp add: Let_def\<close>)
    then show "result_ok t 0 (node_ok 0) (if jp_offset p = length t then json_fail EmptyDocument p else ?r)"
      using p(1) by simp
    have "case ?r of Done n p \<Rightarrow> jp_offset p = length t | _ \<Rightarrow> True"
      by (cases "parse_value (2 * length t + 1) 0 p") (auto simp: Let_def json_fail_def split: option.split)
    then show "case (if jp_offset p = length t then json_fail EmptyDocument p else ?r) of Done n p \<Rightarrow> jp_offset p = length t | _ \<Rightarrow> True"
      by (simp add: json_fail_def split: option.split)
  qed
  then show ?thesis using bom_bad_escape [of bs] by (auto simp: t_def [symmetric] split: parsed.splits)
next
  case False
  then show ?thesis by (simp add: json_parse_def Let_def)
qed

section \<open>Written documents are ASCII\<close>

lemma write_char_ascii: "is_scalar c \<Longrightarrow> ascii_bytes (write_char c)"
proof -
  assume c: "is_scalar c"
  have hex: "n < 16 \<Longrightarrow> upper_hex n < 0x80" for n using hex_digit_upper by blast
  have u: "ascii_bytes (unit_text u)" if "u < 65536" for u
  proof -
    have "u div 4096 < 16" "(0x5C :: u8) < 0x80" "(0x75 :: u8) < 0x80" using that by simp_all
    then show ?thesis by (simp add: ascii_bytes_def unit_text_def upper_hex4_def hex)
  qed
  have "c < 0x110000" using c by (auto simp: is_scalar_def)
  then have "0xDC00 + (c - 0x10000) mod 0x400 < 65536" "0x10000 \<le> c \<Longrightarrow> 0xD800 + (c - 0x10000) div 0x400 < 65536" by simp_all
  then have "ascii_bytes (concat (map unit_text (encode_utf16 c)))"
    using u by (auto simp: encode_utf16_def ascii_bytes_def)
  then show ?thesis
    using u [of c] by (auto simp: write_char_def ascii_bytes_def byte_nat)
qed

lemma string_text_ascii: "utf8_valid s \<Longrightarrow> ascii_bytes (string_text s)"
proof -
  assume "utf8_valid s"
  then have "list_all is_scalar (fst (utf8_chars s))" by (rule utf8_chars_scalar)
  then have "ascii_bytes (concat (map write_char (fst (utf8_chars s))))"
    using write_char_ascii by (auto simp: ascii_bytes_def list_all_iff)
  then show ?thesis by (auto simp: string_text_def ascii_bytes_def byte_nat)
qed

lemma ascii_append [simp]: "ascii_bytes (a @ b) \<longleftrightarrow> ascii_bytes a \<and> ascii_bytes b"
  by (simp add: ascii_bytes_def)

lemma ascii_Cons: "ascii_bytes (b # a) \<longleftrightarrow> b < 0x80 \<and> ascii_bytes a"
  by (simp add: ascii_bytes_def)

lemma ascii_Nil: "ascii_bytes []"
  by (simp add: ascii_bytes_def)

lemma all_digits_ascii: "all_digits ds \<Longrightarrow> ascii_bytes ds"
  using is_digit_ascii by (auto simp: all_digits_def ascii_bytes_def list_all_iff)

lemma number_ascii: "is_number raw \<Longrightarrow> ascii_bytes raw"
  by (auto simp: is_number_def is_integer_part_def is_fraction_def is_exponent_def ascii_Cons ascii_Nil all_digits_ascii byte_nat)

lemma pad_ascii: "ascii_bytes (pad_text n)"
  by (induction n) (simp_all add: pad_text_def ascii_Cons ascii_Nil byte_nat)

lemma text_ascii:
  "value_ok d v \<Longrightarrow> ascii_bytes (value_text v indent)"
  "node_ok d n \<Longrightarrow> ascii_bytes (node_text n indent)"
  "items_ok d ns \<Longrightarrow> ascii_bytes (items_text ns indent)"
  "members_ok d ms \<Longrightarrow> ascii_bytes (members_text ms indent)"
  by (induction v indent and n indent and ns indent and ms indent arbitrary: d and d and d and d
      rule: value_text_node_text_items_text_members_text.induct)
    (auto simp: ascii_Cons ascii_Nil bool_text_def line_end_def pad_ascii number_ascii string_text_ascii byte_nat)

text \<open>The writer does not look at positions.\<close>

lemma text_erase:
  "value_text (erase_value v) indent = value_text v indent"
  "node_text (erase n) indent = node_text n indent"
  "items_text (map erase ns) indent = items_text ns indent"
  "members_text (map erase_member ms) indent = members_text ms indent"
  by (induction v indent and n indent and ns indent and ms indent rule: value_text_node_text_items_text_members_text.induct)
    (simp_all add: node_made_def line_end_def)

lemma written_reads:
  assumes "node_ok 0 n"
  shows "\<exists>m q. json_parse (write_value [] n 0) = Done m q \<and> erase m = erase n"
proof -
  define t where "t = node_text n 0"
  have a: "ascii_bytes t" using text_ascii(2) [OF assms] by (simp add: t_def)
  have h: "t \<noteq> []" "\<not> is_space (hd t)" using node_text_head [OF assms] by (simp_all add: t_def)
  have bom: "strip_bom t = t" using a h(1) by (cases t) (auto simp: strip_bom_def ascii_Cons byte_nat)
  define p where "p = start_of t"
  have l: "lands t (t @ []) p" using a by (simp add: lands_def p_def start_of_def)
  have sk: "skip_whitespace p = p"
    using lands_peek_hd [OF l] h by (simp add: skip_whitespace.simps [of p] is_space_def)
  obtain m q where m: "parse_value (2 * length t + 1) 0 p = Done m q" "erase m = erase n" "lands t [] q"
    using reads_nodeD [OF reads_every_node assms, of t 0 "[]" p "2 * length t + 1"] l by (auto simp: t_def [symmetric] item_ends_def)
  have "skip_whitespace q = q" using lands_peek_Nil [OF m(3)] by (simp add: skip_whitespace.simps [of q])
  moreover have "jp_offset q = length t" using m(3) by (simp add: lands_def)
  moreover have "jp_offset p \<noteq> length t" using h(1) by (simp add: p_def start_of_def)
  ultimately have "json_parse t = Done m q"
    unfolding json_parse_start [OF ascii_valid [OF a] bom sk [unfolded p_def], folded p_def] m(1) and_then.simps Let_def by simp
  then show ?thesis using m(2) by (simp add: write_value_def t_def)
qed

section \<open>Properties\<close>

text \<open>
  C30. Reading a document is total and safe. For every byte string the reader comes to a result
  within the recursion it is given: a document that is well formed (at most 64 levels deep,
  member names distinct in each object, numbers as RFC 8259 writes them, strings valid UTF-8)
  with the whole text read; an error; or a panic, and that only if the text has a backslash
  followed by a character outside ASCII.
\<close>

theorem json_parse_total:
  "case json_parse bs of
     Done n p \<Rightarrow> node_ok 0 n \<and> jp_text p = strip_bom bs \<and> jp_offset p = length (jp_text p)
   | Fails e \<Rightarrow> True
   | Panics \<Rightarrow> bad_escape bs
   | NoFuel \<Rightarrow> False"
  by (rule parse_result)

text \<open>
  C29. What was read is written back with the same values: whatever document the reader
  accepts, what \<open>write_value\<close> makes of it is accepted again and holds the same values, numbers
  as they were written, and is written to the same text again.
\<close>

theorem json_round_trip:
  "case json_parse bs of
     Done n p \<Rightarrow> \<exists>m q. json_parse (write_value [] n 0) = Done m q \<and> erase m = erase n \<and>
       write_value [] m 0 = write_value [] n 0
   | _ \<Rightarrow> True"
proof (cases "json_parse bs")
  case (Done n p)
  then have "node_ok 0 n" using parse_result [of bs] by simp
  then obtain m q where m: "json_parse (write_value [] n 0) = Done m q" "erase m = erase n" using written_reads by blast
  have "node_text m 0 = node_text n 0" using text_erase(2) [of m 0] text_erase(2) [of n 0] m(2) by simp
  then show ?thesis using m Done by (simp add: write_value_def)
qed simp_all

text \<open>The offending document: an array of one string with a backslash before \<open>U+00E9\<close>.\<close>

definition accent_document :: bytes where
  "accent_document = [0x5B, 0x22, 0x5C, 0xC3, 0xA9, 0x22, 0x5D]"

lemma accent_escape: "json_escape (advance 3 (start_of accent_document)) = Panics"
  by (simp add: json_escape_def peek_def start_of_def accent_document_def simple_escape_def json_fail_def here_def
      str_slice_def is_boundary_def is_continuation_def byte_nat)

lemma skip_none: "peek p = Some b \<Longrightarrow> \<not> is_space b \<Longrightarrow> skip_whitespace p = p"
  by (subst skip_whitespace.simps) (simp add: is_space_def)

lemma accent_string: "json_string (advance 1 (start_of accent_document)) = Panics"
proof -
  let ?p = "advance 2 (start_of accent_document)"
  have "peek ?p = Some 0x5C" "str_slice (jp_text ?p) 2 (jp_offset ?p) = Some []"
    by (simp_all add: peek_def str_slice_def is_boundary_def is_continuation_def byte_nat start_of_def accent_document_def subslice_def)
  moreover have "json_escape (advance 1 ?p) = Panics" using accent_escape by (simp add: advance_def numeral_3_eq_3)
  ultimately have "string_loop [] 2 ?p = Panics"
    by (subst string_loop.simps) (simp del: advance_simps)
  then show ?thesis by (simp add: json_string_def advance_def start_of_def numeral_2_eq_2)
qed

lemma accent_value: "parse_value (Suc (Suc (Suc k))) 0 (start_of accent_document) = Panics"
proof -
  have peeks: "peek (start_of accent_document) = Some 0x5B" "peek (advance 1 (start_of accent_document)) = Some 0x22"
    by (simp_all add: peek_def start_of_def accent_document_def)
  have sk: "skip_whitespace (advance 1 (start_of accent_document)) = advance 1 (start_of accent_document)"
    by (rule skip_none [OF peeks(2)]) (simp add: is_space_def)
  have b: "is_boundary accent_document 0" "is_boundary accent_document 1"
    by (simp_all add: is_boundary_def accent_document_def is_continuation_def byte_nat)
  have h: "\<exists>at. here (start_of accent_document) = Some at" "\<exists>at. here (advance 1 (start_of accent_document)) = Some at"
    using b by (simp_all add: here_def str_slice_def start_of_def)
  obtain at1 at2 where at: "here (start_of accent_document) = Some at1" "here (advance 1 (start_of accent_document)) = Some at2"
    using h by blast
  have "parse_value (Suc k) 1 (advance 1 (start_of accent_document)) = Panics"
    using at(2) peeks(2) accent_string by simp
  then have items: "parse_items (Suc (Suc k)) 1 [] (advance 1 (start_of accent_document)) = Panics"
    by (simp del: One_nat_def)
  have "parse_array (\<lambda>p. parse_items (Suc (Suc k)) (0 + 1) [] p) (0 + 1) (start_of accent_document) = Panics"
    unfolding parse_array_def sk Let_def using peeks(2) items by (simp add: MAX_DEPTH_def del: One_nat_def parse_items.simps parse_members.simps)
  then show ?thesis using at(1) peeks(1) by (simp del: One_nat_def parse_items.simps parse_members.simps)
qed

text \<open>
  A document can make the reader panic: in a valid UTF-8 text with a backslash followed by a
  character outside ASCII, the error of the unknown escape is reported from inside that
  character, where slicing the text to count the column panics.
\<close>

theorem json_escape_panics:
  "utf8_valid accent_document \<and> json_parse accent_document = Panics"
proof -
  have v: "utf8_valid accent_document" unfolding accent_document_def by code_simp
  have bom: "strip_bom accent_document = accent_document" by (simp add: strip_bom_def accent_document_def)
  have sk: "skip_whitespace (start_of accent_document) = start_of accent_document"
    by (rule skip_none [of _ "0x5B"]) (simp_all add: peek_def start_of_def accent_document_def is_space_def)
  have len: "length accent_document = 7" by (simp add: accent_document_def)
  have fuel: "2 * length accent_document + 1 = Suc (Suc (Suc 12))" by (simp add: len)
  have "jp_offset (start_of accent_document) \<noteq> length accent_document" by (simp add: start_of_def len)
  then show ?thesis
    using v unfolding json_parse_start [OF v bom sk] fuel accent_value and_then.simps by simp
qed

section \<open>Reading an object\<close>

fun take_all :: "bytes list \<Rightarrow> object_reader \<Rightarrow> json_node option list \<times> object_reader" where
  "take_all [] r = ([], r)"
| "take_all (name # names) r =
     (let (v, r) = reader_take name r; (vs, r) = take_all names r in (v # vs, r))"

definition member_of :: "json_member list \<Rightarrow> bytes \<Rightarrow> json_node option" where
  "member_of ms name = map_of (map (\<lambda>m. (member_name m, member_value m)) ms) name"

lemma position_member: "member_of ms name = map_option (\<lambda>i. member_value (ms ! i)) (position (\<lambda>m. member_name m = name) ms)"
  by (induction ms) (auto simp: member_of_def option.map_comp comp_def)

text \<open>A reader of \<open>ms\<close> from which the names of \<open>S\<close> have been taken.\<close>

definition reads_from :: "json_member list \<Rightarrow> bytes set \<Rightarrow> object_reader \<Rightarrow> bool" where
  "reads_from ms S r \<longleftrightarrow> rd_members r = ms \<and> rd_used r = map (\<lambda>m. member_name m \<in> S) ms"

lemma take_reads:
  assumes "distinct (map member_name ms)" "reads_from ms S r"
  shows "fst (reader_take name r) = member_of ms name \<and> reads_from ms (insert name S) (snd (reader_take name r))"
proof (cases "position (\<lambda>m. member_name m = name) ms")
  case None
  then have "m \<in> set ms \<Longrightarrow> member_name m \<noteq> name" for m by (simp add: position_None)
  then have "map (\<lambda>m. member_name m \<in> insert name S) ms = map (\<lambda>m. member_name m \<in> S) ms" by simp
  then show ?thesis using assms(2) None by (simp add: reader_take_def reads_from_def position_member)
next
  case (Some i)
  note i = position_Some [OF Some]
  have "map (\<lambda>m. member_name m \<in> insert name S) ms = (map (\<lambda>m. member_name m \<in> S) ms)[i := True]"
  proof (rule nth_equalityI)
    fix j assume "j < length (map (\<lambda>m. member_name m \<in> insert name S) ms)"
    then have j: "j < length ms" by simp
    have "member_name (ms ! j) = name \<longleftrightarrow> j = i"
      using i j nth_eq_iff_index_eq [OF assms(1), of j i] by auto
    then show "map (\<lambda>m. member_name m \<in> insert name S) ms ! j = (map (\<lambda>m. member_name m \<in> S) ms)[i := True] ! j"
      using j by (cases "j = i") simp_all
  qed simp
  then show ?thesis using assms(2) Some by (simp add: reader_take_def reads_from_def position_member)
qed

lemma take_all_reads:
  assumes "distinct (map member_name ms)"
  shows "reads_from ms S r \<Longrightarrow>
    fst (take_all names r) = map (member_of ms) names \<and> reads_from ms (S \<union> set names) (snd (take_all names r))"
proof (induction names arbitrary: S r)
  case (Cons name names)
  note t = take_reads [OF assms Cons.prems, of name]
  from Cons.IH [OF conjunct2 [OF t]] t show ?case by (simp add: split_beta)
qed simp

lemma position_map: "position P (map f xs) = position (\<lambda>x. P (f x)) xs"
  by (induction xs) auto

text \<open>
  Reading an object: taking names in any order and any number of times gives each the value
  of the member of that name, or none, and the read then ends without an error exactly when
  every member's name was asked for; otherwise the error is at the first member left.
\<close>

theorem object_reader_contract:
  assumes "distinct (map member_name ms)" "reader_new (Node (JObject ms) at) = Inr r" "take_all names r = (vs, r')"
  shows "vs = map (member_of ms) names \<and>
    reader_finish r' = (case position (\<lambda>m. member_name m \<notin> set names) ms of
        None \<Rightarrow> Inr ()
      | Some i \<Rightarrow> Inl \<lparr>je_kind = UnknownMember, je_at = member_at (ms ! i)\<rparr>)"
proof -
  have "reads_from ms {} r" using assms(2) by (auto simp: reader_new_def reads_from_def map_replicate_const)
  from take_all_reads [OF assms(1) this, of names] assms(3)
  have "vs = map (member_of ms) names" "rd_members r' = ms" "rd_used r' = map (\<lambda>m. member_name m \<in> set names) ms"
    by (simp_all add: reads_from_def)
  then show ?thesis by (simp add: reader_finish_def position_map split: option.split)
qed

lemma object_reader_contract_witness:
  "\<exists>r'. take_all [[0x62], [0x61], [0x7A]] \<lparr>rd_members = [member_made [0x61] JNull, member_made [0x62] (JBool True)], rd_at = \<lparr>jq_line = 1, jq_column = 1\<rparr>, rd_used = [False, False]\<rparr> =
      ([Some (node_made (JBool True)), Some (node_made JNull), None], r') \<and> reader_finish r' = Inr ()"
proof -
  let ?ms = "[member_made [0x61] JNull, member_made [0x62] (JBool True)]"
  let ?r = "\<lparr>rd_members = ?ms, rd_at = \<lparr>jq_line = 1, jq_column = 1\<rparr>, rd_used = [False, False]\<rparr>"
  obtain vs r' where t: "take_all [[0x62], [0x61], [0x7A]] ?r = (vs, r')" by (cases "take_all [[0x62], [0x61], [0x7A]] ?r")
  have "distinct (map member_name ?ms)" "reader_new (Node (JObject ?ms) \<lparr>jq_line = 1, jq_column = 1\<rparr>) = Inr ?r"
    by (simp_all add: member_made_def reader_new_def)
  from object_reader_contract [OF this t] t show ?thesis
    by (simp add: member_of_def member_made_def)
qed
end
