(* ===== verification/Std_Text.thy ===== *)
theory Std_Text
  imports Json_Text
begin

text \<open>
  Strings as the Rust standard library handles them, on their UTF-8 bytes: literals, decimal
  numbers, splitting at a separator, trimming, lines. Shared by the versions of
  \<open>ac-plugin-version\<close>, the manifest of \<open>ac-plugin-manifest\<close> and the error texts of \<open>json.rs\<close>.
\<close>

section \<open>Literals and decimal numbers\<close>

definition ascii :: "string \<Rightarrow> bytes" where
  "ascii s = map of_char s"

text \<open>\<open>Display\<close> of an unsigned integer.\<close>

function decimal :: "nat \<Rightarrow> bytes" where
  "decimal n = (if n < 10 then [word_of_nat (0x30 + n)] else decimal (n div 10) @ [word_of_nat (0x30 + n mod 10)])"
  by pat_completeness auto
termination
  by (relation "measure id") auto

declare decimal.simps [simp del]

text \<open>\<open>text.parse::<u16>()\<close>.\<close>

definition parse_u16 :: "bytes \<Rightarrow> u16 option" where
  "parse_u16 bs =
     (case (if take 1 bs = [0x2B] then digits_value (drop 1 bs) else digits_value bs) of
        None \<Rightarrow> None
      | Some n \<Rightarrow> if n < 2 ^ 16 then Some (word_of_nat n) else None)"

section \<open>Separators and lines\<close>

text \<open>\<open>split\<close> at every byte that satisfies a test, and \<open>split_once\<close>.\<close>

fun split_on :: "(u8 \<Rightarrow> bool) \<Rightarrow> bytes \<Rightarrow> bytes list" where
  "split_on sep [] = [[]]"
| "split_on sep (b # bs) =
     (if sep b then [] # split_on sep bs
      else (case split_on sep bs of [] \<Rightarrow> [[b]] | part # parts \<Rightarrow> (b # part) # parts))"

fun split_once :: "u8 \<Rightarrow> bytes \<Rightarrow> (bytes \<times> bytes) option" where
  "split_once sep [] = None"
| "split_once sep (b # bs) =
     (if b = sep then Some ([], bs) else map_option (\<lambda>(before, after). (b # before, after)) (split_once sep bs))"

fun contains :: "bytes \<Rightarrow> bytes \<Rightarrow> bool" where
  "contains needle [] = (needle = [])"
| "contains needle (b # bs) = (take (length needle) (b # bs) = needle \<or> contains needle bs)"

text \<open>\<open>lines\<close>: a line ends with a newline, or a carriage return and a newline; what is left
  after the last newline is a line when it is not empty.\<close>

definition strip_cr :: "bytes \<Rightarrow> bytes" where
  "strip_cr line = (if line \<noteq> [] \<and> last line = 0x0D then butlast line else line)"

definition str_lines :: "bytes \<Rightarrow> bytes list" where
  "str_lines txt =
     (let parts = split_on (\<lambda>b. b = 0x0A) txt
      in map strip_cr (butlast parts) @ (if last parts = [] then [] else [last parts]))"

section \<open>Characters\<close>

text \<open>\<open>chars\<close> of a valid string, and the string of characters.\<close>

definition str_chars :: "bytes \<Rightarrow> nat list" where
  "str_chars txt = fst (utf8_chars txt)"

definition str_of :: "nat list \<Rightarrow> bytes" where
  "str_of cs = concat (map utf8_encode cs)"

definition is_white_space :: "nat \<Rightarrow> bool" where
  "is_white_space c \<longleftrightarrow>
     9 \<le> c \<and> c \<le> 13 \<or> 0x2000 \<le> c \<and> c \<le> 0x200A \<or>
     c \<in> set [0x20, 0x85, 0xA0, 0x1680, 0x2028, 0x2029, 0x202F, 0x205F, 0x3000]"

definition is_control :: "nat \<Rightarrow> bool" where
  "is_control c \<longleftrightarrow> c < 0x20 \<or> 0x7F \<le> c \<and> c \<le> 0x9F"

definition trim_chars :: "nat list \<Rightarrow> nat list" where
  "trim_chars cs = rev (dropWhile is_white_space (rev (dropWhile is_white_space cs)))"

definition trim_text :: "bytes \<Rightarrow> bytes" where
  "trim_text txt = str_of (trim_chars (str_chars txt))"

section \<open>Results\<close>

text \<open>The \<open>?\<close> operator on a \<open>Result\<close>, and \<open>collect\<close> into one.\<close>

fun ok_then :: "'e + 'a \<Rightarrow> ('a \<Rightarrow> 'e + 'b) \<Rightarrow> 'e + 'b" where
  "ok_then (Inl e) f = Inl e"
| "ok_then (Inr x) f = f x"

fun collect_ok :: "('e + 'a) list \<Rightarrow> 'e + 'a list" where
  "collect_ok [] = Inr []"
| "collect_ok (r # rs) = ok_then r (\<lambda>x. ok_then (collect_ok rs) (\<lambda>xs. Inr (x # xs)))"

lemma ok_then_Inr: "ok_then r f = Inr y \<longleftrightarrow> (\<exists>x. r = Inr x \<and> f x = Inr y)"
  by (cases r) simp_all

lemma ok_thenE:
  assumes "ok_then r f = Inr y"
  obtains x where "r = Inr x" "f x = Inr y"
  using assms by (auto simp: ok_then_Inr)

lemma collect_ok_Inr: "collect_ok rs = Inr xs \<longleftrightarrow> rs = map Inr xs"
  by (induction rs arbitrary: xs) (auto simp: ok_then_Inr Cons_eq_map_conv eq_commute [of "_ # _"])

section \<open>Decimal numbers read back\<close>

lemma is_digit_unat: "is_digit b \<longleftrightarrow> 0x30 \<le> unat b \<and> unat b \<le> 0x39"
  by (simp add: is_digit_def word_le_nat_alt)

lemma digit_of_nat:
  assumes "n < 10"
  shows "is_digit (word_of_nat (0x30 + n))" "unat (word_of_nat (0x30 + n) :: u8) - 0x30 = n"
  using assms by (simp_all add: is_digit_unat unat_of_nat_small del: of_nat_add)

lemma decimal_digits: "decimal n \<noteq> [] \<and> list_all is_digit (decimal n)"
proof (induction n rule: decimal.induct)
  case (1 n)
  show ?case
  proof (cases "n < 10")
    case True
    then show ?thesis by (simp add: decimal.simps [of n] digit_of_nat(1) del: of_nat_add)
  next
    case False
    then show ?thesis using 1 digit_of_nat(1) [of "n mod 10"]
      by (simp add: decimal.simps [of n] del: of_nat_add)
  qed
qed

definition digits_fold :: "bytes \<Rightarrow> nat" where
  "digits_fold ds = foldl (\<lambda>acc d. acc * 10 + (unat d - 0x30)) 0 ds"

lemma digits_value_fold: "digits_value ds = (if ds = [] \<or> \<not> list_all is_digit ds then None else Some (digits_fold ds))"
  by (simp add: digits_value_def digits_fold_def)

lemma digits_fold_snoc: "digits_fold (ds @ [d]) = digits_fold ds * 10 + (unat d - 0x30)"
  by (simp add: digits_fold_def)

lemma decimal_fold: "digits_fold (decimal n) = n"
proof (induction n rule: decimal.induct)
  case (1 n)
  show ?case
  proof (cases "n < 10")
    case True
    then show ?thesis
      using digit_of_nat(2) [OF True] by (simp add: decimal.simps [of n] digits_fold_def del: of_nat_add)
  next
    case False
    then show ?thesis using 1 digit_of_nat(2) [of "n mod 10"]
      by (simp add: decimal.simps [of n] digits_fold_snoc del: of_nat_add)
  qed
qed

text \<open>The canonical numerals: no leading zero, except for zero itself.\<close>

definition canonical :: "bytes \<Rightarrow> bool" where
  "canonical ds \<longleftrightarrow> ds \<noteq> [] \<and> list_all is_digit ds \<and> (length ds > 1 \<longrightarrow> hd ds \<noteq> 0x30)"

lemma digit_nonzero:
  assumes "0 < n" "n < 10"
  shows "(word_of_nat (0x30 + n) :: u8) \<noteq> 0x30"
proof
  assume "(word_of_nat (0x30 + n) :: u8) = 0x30"
  then have "unat (word_of_nat (0x30 + n) :: u8) - 0x30 = 0" by simp
  then show False using digit_of_nat(2) [OF assms(2)] assms(1) by simp
qed

lemma decimal_hd: "0 < n \<Longrightarrow> hd (decimal n) \<noteq> 0x30"
proof (induction n rule: decimal.induct)
  case (1 n)
  show ?case
  proof (cases "n < 10")
    case True
    then show ?thesis using digit_nonzero [OF 1(2) True] by (simp add: decimal.simps [of n] del: of_nat_add)
  next
    case False
    then have "hd (decimal (n div 10)) \<noteq> 0x30" using 1 by simp
    then show ?thesis using False decimal_digits [of "n div 10"] by (simp add: decimal.simps [of n] del: of_nat_add)
  qed
qed

lemma decimal_canonical: "canonical (decimal n)"
proof (cases "n = 0")
  case True
  then show ?thesis by (simp add: canonical_def decimal.simps [of 0] is_digit_def)
next
  case False
  then show ?thesis using decimal_digits [of n] decimal_hd [of n] by (simp add: canonical_def)
qed

lemma digits_fold_pos: "ds \<noteq> [] \<Longrightarrow> list_all is_digit ds \<Longrightarrow> hd ds \<noteq> 0x30 \<Longrightarrow> 0 < digits_fold ds"
proof (induction ds rule: rev_induct)
  case (snoc d ds)
  then show ?case
  proof (cases "ds = []")
    case True
    then have "0x30 \<le> unat d" "unat d \<noteq> 0x30"
      using snoc.prems by (auto simp: is_digit_unat word_unat_eq_iff)
    then show ?thesis using True by (simp add: digits_fold_def)
  next
    case False
    then show ?thesis using snoc by (simp add: digits_fold_snoc)
  qed
qed simp

lemma canonical_decimal: "canonical ds \<Longrightarrow> decimal (digits_fold ds) = ds"
proof (induction ds rule: rev_induct)
  case (snoc d ds)
  have d: "is_digit d" using snoc.prems by (simp add: canonical_def)
  then have v: "unat d - 0x30 < 10" by (simp add: is_digit_unat, linarith)
  have "0x30 + (unat d - 0x30) = unat d" using d by (simp only: is_digit_unat le_add_diff_inverse)
  then have w: "word_of_nat (0x30 + (unat d - 0x30)) = d" by (metis of_nat_unat ucast_id)
  show ?case
  proof (cases "ds = []")
    case True
    then show ?thesis using v w by (simp add: digits_fold_def decimal.simps [of "unat d - 0x30"] del: of_nat_add)
  next
    case False
    then have c: "canonical ds" "hd ds \<noteq> 0x30" using snoc.prems by (auto simp: canonical_def)
    then have "0 < digits_fold ds" using digits_fold_pos False by (simp add: canonical_def)
    then show ?thesis using snoc.IH [OF c(1)] v w
      by (simp add: digits_fold_snoc decimal.simps [of "digits_fold ds * 10 + (unat d - 0x30)"] del: of_nat_add)
  qed
qed (simp add: canonical_def)

text \<open>A numeral is read exactly when it is the decimal text of a number in range.\<close>

lemma canonical_iff: "canonical ds \<and> digits_fold ds = n \<longleftrightarrow> ds = decimal n"
proof
  show "ds = decimal n \<Longrightarrow> canonical ds \<and> digits_fold ds = n" by (simp add: decimal_canonical decimal_fold)
  show "canonical ds \<and> digits_fold ds = n \<Longrightarrow> ds = decimal n" using canonical_decimal [of ds] by simp
qed

section \<open>Splitting and joining\<close>

lemma split_on_nonempty [simp]: "split_on sep bs \<noteq> []"
  by (induction bs) (auto split: list.splits)

lemma split_on_none: "list_all (\<lambda>b. \<not> sep b) bs \<Longrightarrow> split_on sep bs = [bs]"
  by (induction bs) simp_all

lemma split_on_append:
  "list_all (\<lambda>b. \<not> sep b) xs \<Longrightarrow> sep c \<Longrightarrow> split_on sep (xs @ c # bs) = xs # split_on sep bs"
  by (induction xs) simp_all

lemma split_on_parts: "p \<in> set (split_on sep bs) \<Longrightarrow> list_all (\<lambda>b. \<not> sep b) p"
  by (induction bs arbitrary: p) (auto split: if_splits list.splits)

lemma split_on_join:
  "concat (map (\<lambda>p. p @ [c]) (split_on (\<lambda>b. b = c) bs)) = bs @ [c]"
proof (induction bs)
  case (Cons b bs)
  then show ?case by (cases "split_on (\<lambda>b. b = c) bs") auto
qed simp

lemma split_once_Some:
  "split_once sep bs = Some (x, y) \<longleftrightarrow> bs = x @ sep # y \<and> sep \<notin> set x"
proof (induction bs arbitrary: x)
  case (Cons b bs)
  then show ?case by (cases x) auto
qed simp

section \<open>Trimmed strings\<close>

lemma str_chars_scalar: "list_all is_scalar (str_chars t)"
  unfolding str_chars_def
proof (induction t rule: utf8_chars.induct)
  case (1 t)
  show ?case
  proof (cases "utf8_char t")
    case None
    then show ?thesis by (simp add: utf8_chars.simps [of t])
  next
    case (Some p)
    then show ?thesis using 1 utf8_char_encode [of t]
      by (cases p) (simp add: utf8_chars.simps [of t] split: prod.split)
  qed
qed

lemma str_chars_of: "list_all is_scalar cs \<Longrightarrow> str_chars (str_of cs) = cs"
  by (induction cs) (simp_all add: str_chars_def str_of_def)

lemma str_of_chars: "utf8_valid t \<Longrightarrow> str_of (str_chars t) = t"
  by (simp add: str_of_def str_chars_def utf8_chars_concat)

lemma str_of_valid: "list_all is_scalar cs \<Longrightarrow> utf8_valid (str_of cs)"
  by (induction cs) (simp_all add: str_of_def)

lemma str_of_empty: "list_all is_scalar cs \<Longrightarrow> str_of cs = [] \<longleftrightarrow> cs = []"
  using str_chars_of [of cs] by (cases "str_of cs = []") (auto simp: str_chars_def str_of_def [of "[]"])

lemma set_trim_chars: "set (trim_chars cs) \<subseteq> set cs"
  unfolding trim_chars_def by (auto dest!: set_dropWhileD)

lemma trim_chars_scalar: "list_all is_scalar cs \<Longrightarrow> list_all is_scalar (trim_chars cs)"
  using set_trim_chars [of cs] by (auto simp: list_all_iff)

lemma trim_chars_id:
  assumes "cs = [] \<or> \<not> is_white_space (hd cs) \<and> \<not> is_white_space (last cs)"
  shows "trim_chars cs = cs"
proof -
  have d: "dropWhile is_white_space xs = xs" if "xs = [] \<or> \<not> is_white_space (hd xs)" for xs
    using that by (cases xs) auto
  have "rev cs = [] \<or> \<not> is_white_space (hd (rev cs))" using assms by (auto simp: hd_rev)
  then have "dropWhile is_white_space (rev cs) = rev cs" by (rule d)
  moreover have "dropWhile is_white_space cs = cs" using assms by (intro d) blast
  ultimately show ?thesis by (simp add: trim_chars_def)
qed

lemma trim_chars_ends:
  "trim_chars cs = [] \<or> \<not> is_white_space (hd (trim_chars cs)) \<and> \<not> is_white_space (last (trim_chars cs))"
proof (cases "trim_chars cs = []")
  case False
  define ds where "ds = dropWhile is_white_space cs"
  define es where "es = dropWhile is_white_space (rev ds)"
  have t: "trim_chars cs = rev es" by (simp add: trim_chars_def ds_def es_def)
  have ne: "es \<noteq> []" "ds \<noteq> []" using False t by (auto simp: es_def)
  have "\<not> is_white_space (hd es)" using ne(1) hd_dropWhile unfolding es_def by blast
  moreover have "\<not> is_white_space (hd ds)" using ne(2) hd_dropWhile unfolding ds_def by blast
  moreover have "last es = hd ds"
    using takeWhile_dropWhile_id [of is_white_space "rev ds"] ne
    by (metis es_def hd_rev last_appendR rev_rev_ident rev_is_Nil_conv)
  ultimately show ?thesis using ne(1) t by (simp add: hd_rev last_rev)
qed simp

lemma trim_text_chars: "str_chars (trim_text t) = trim_chars (str_chars t)"
  by (simp add: trim_text_def str_chars_of trim_chars_scalar str_chars_scalar)

lemma trim_text_idem: "trim_text (trim_text t) = trim_text t"
proof -
  have "trim_chars (trim_chars (str_chars t)) = trim_chars (str_chars t)" by (rule trim_chars_id [OF trim_chars_ends])
  then show ?thesis unfolding trim_text_def [of "trim_text t"] trim_text_chars by (simp add: trim_text_def)
qed

lemma str_chars_ascii: "list_all (\<lambda>b. b < 0x80) bs \<Longrightarrow> str_chars bs = map unat bs"
proof (induction bs)
  case (Cons b bs)
  then have "utf8_chars (b # bs) = (unat b # fst (utf8_chars bs), snd (utf8_chars bs))"
    using ascii_scalar [of b] utf8_chars_encode [of "unat b" bs] by simp
  then show ?case using Cons by (simp add: str_chars_def)
qed (simp add: str_chars_def)

lemma str_of_ascii: "list_all (\<lambda>b. b < 0x80) bs \<Longrightarrow> str_of (map unat bs) = bs"
proof (induction bs)
  case (Cons b bs)
  then show ?case using ascii_scalar [of b] by (simp add: str_of_def)
qed (simp add: str_of_def)

text \<open>A word without spaces is its own trimmed text.\<close>

lemma trim_word: "list_all (\<lambda>b. 0x21 \<le> b \<and> b < 0x7F) bs \<Longrightarrow> trim_text bs = bs"
proof -
  assume a: "list_all (\<lambda>b. 0x21 \<le> b \<and> b < 0x7F) bs"
  then have s: "list_all (\<lambda>b. b < 0x80) bs" by (auto simp: list_all_iff byte_nat)
  have "\<not> is_white_space (unat b)" if "b \<in> set bs" for b
  proof -
    have "0x21 \<le> unat b \<and> unat b < 0x7F" using a that by (simp add: list_all_iff byte_nat)
    then show ?thesis by (simp add: is_white_space_def)
  qed
  then have "trim_chars (map unat bs) = map unat bs"
    by (intro trim_chars_id) (auto simp: hd_map last_map)
  then show ?thesis by (simp add: trim_text_def str_chars_ascii [OF s] str_of_ascii [OF s])
qed

end
