(* ===== verification/Plugin_Version.thy ===== *)
theory Plugin_Version
  imports Std_Text
begin

text \<open>
  \<open>crates/ac-plugin-version\<close> and \<open>crates/ac-plugin-manifest/src/version.rs\<close>: the plugin API
  version (\<open>MAJOR.MINOR\<close>), the client's own version as manifests name it
  (\<open>MAJOR.MINOR.PATCH\<close>), their order, and the permissions a manifest may declare. Both
  versions are read from exactly the texts they are written to.
\<close>

section \<open>The plugin API version\<close>

datatype api_version = ApiVersion (av_major: u16) (av_minor: u16)

text \<open>The derived order: major, then minor.\<close>

instantiation api_version :: linorder
begin

definition less_eq_api_version :: "api_version \<Rightarrow> api_version \<Rightarrow> bool" where
  "less_eq_api_version a b \<longleftrightarrow> av_major a < av_major b \<or> av_major a = av_major b \<and> av_minor a \<le> av_minor b"

definition less_api_version :: "api_version \<Rightarrow> api_version \<Rightarrow> bool" where
  "less_api_version a b \<longleftrightarrow> av_major a < av_major b \<or> av_major a = av_major b \<and> av_minor a < av_minor b"

instance
  by standard (auto simp: less_eq_api_version_def less_api_version_def api_version.expand)

end

definition api_component :: "bytes \<Rightarrow> u16 option" where
  "api_component txt =
     (if txt = [] \<or> \<not> list_all is_digit txt \<or> length txt > 1 \<and> take 1 txt = [0x30] then None else parse_u16 txt)"

definition api_parse :: "bytes \<Rightarrow> api_version option" where
  "api_parse txt =
     (case split_once 0x2E txt of
        None \<Rightarrow> None
      | Some (major, minor) \<Rightarrow>
          (case api_component major of
             None \<Rightarrow> None
           | Some major \<Rightarrow> map_option (ApiVersion major) (api_component minor)))"

definition is_at_most :: "api_version \<Rightarrow> api_version \<Rightarrow> bool" where
  "is_at_most a b \<longleftrightarrow> av_major a < av_major b \<or> av_major a = av_major b \<and> av_minor a \<le> av_minor b"

definition api_text :: "api_version \<Rightarrow> bytes" where
  "api_text v = decimal (unat (av_major v)) @ [0x2E] @ decimal (unat (av_minor v))"

definition API_CURRENT :: api_version where "API_CURRENT = ApiVersion 1 9"

definition API_MINIMUM :: api_version where "API_MINIMUM = ApiVersion 1 0"

definition is_supported :: "api_version \<Rightarrow> bool" where
  "is_supported v \<longleftrightarrow> v \<ge> API_MINIMUM \<and> v \<le> API_CURRENT"

section \<open>Permissions\<close>

datatype permission = Chat | Network | Listen | Profiles | Clipboard

definition ALL_PERMISSIONS :: "permission list" where
  "ALL_PERMISSIONS = [Chat, Network, Listen, Profiles, Clipboard]"

fun permission_name :: "permission \<Rightarrow> bytes" where
  "permission_name Chat = ascii ''chat''"
| "permission_name Network = ascii ''network''"
| "permission_name Listen = ascii ''listen''"
| "permission_name Profiles = ascii ''profiles''"
| "permission_name Clipboard = ascii ''clipboard''"

definition from_name :: "bytes \<Rightarrow> permission option" where
  "from_name name = find (\<lambda>p. eq_ignore_ascii_case (permission_name p) (trim_text name)) ALL_PERMISSIONS"

definition PERMISSIONS_VERSION :: u32 where "PERMISSIONS_VERSION = 1"

section \<open>The client's version\<close>

datatype host_version = HostVersion (hv_major: u32) (hv_minor: u32) (hv_patch: u32)

instantiation host_version :: linorder
begin

definition less_eq_host_version :: "host_version \<Rightarrow> host_version \<Rightarrow> bool" where
  "less_eq_host_version a b \<longleftrightarrow>
     hv_major a < hv_major b \<or> hv_major a = hv_major b \<and>
       (hv_minor a < hv_minor b \<or> hv_minor a = hv_minor b \<and> hv_patch a \<le> hv_patch b)"

definition less_host_version :: "host_version \<Rightarrow> host_version \<Rightarrow> bool" where
  "less_host_version a b \<longleftrightarrow>
     hv_major a < hv_major b \<or> hv_major a = hv_major b \<and>
       (hv_minor a < hv_minor b \<or> hv_minor a = hv_minor b \<and> hv_patch a < hv_patch b)"

instance
  by standard (auto simp: less_eq_host_version_def less_host_version_def host_version.expand)

end

definition host_component :: "bytes \<Rightarrow> u32 option" where
  "host_component txt =
     (if txt = [] \<or> \<not> list_all is_digit txt \<or> length txt > 1 \<and> take 1 txt = [0x30] then None else parse_u32 txt)"

definition host_parse :: "bytes \<Rightarrow> host_version option" where
  "host_parse txt =
     (case split_on (\<lambda>b. b = 0x2E) txt of
        a # b # c # rest \<Rightarrow>
          (case (host_component a, host_component b, host_component c) of
             (Some a, Some b, Some c) \<Rightarrow> if rest = [] then Some (HostVersion a b c) else None
           | _ \<Rightarrow> None)
      | _ \<Rightarrow> None)"

text \<open>Pre-release and build metadata are cut off at the first minus or plus sign.\<close>

definition from_informational :: "bytes \<Rightarrow> host_version option" where
  "from_informational txt = host_parse (takeWhile (\<lambda>b. b \<noteq> 0x2D \<and> b \<noteq> 0x2B) txt)"

text \<open>\<open>current\<close>: the package version is set by the build.\<close>

definition current_version :: "bytes \<Rightarrow> host_version" where
  "current_version package_version = (case from_informational package_version of Some v \<Rightarrow> v | None \<Rightarrow> HostVersion 0 0 0)"

definition host_text :: "host_version \<Rightarrow> bytes" where
  "host_text v =
     decimal (unat (hv_major v)) @ [0x2E] @ decimal (unat (hv_minor v)) @ [0x2E] @ decimal (unat (hv_patch v))"

section \<open>Reading what was written\<close>

text \<open>A component is read exactly when it is the decimal text of its value.\<close>

lemma leading_zero: "length txt > 1 \<and> take 1 txt = [0x30] \<longleftrightarrow> length txt > 1 \<and> hd txt = (0x30 :: u8)"
  by (cases "txt") auto

lemma no_plus: "list_all is_digit txt \<Longrightarrow> take 1 txt \<noteq> [0x2B]"
  by (cases "txt") (auto simp: is_digit_def)

lemma api_component_iff: "api_component txt = Some w \<longleftrightarrow> txt = decimal (unat w)"
proof -
  have "api_component txt = Some w \<longleftrightarrow> canonical txt \<and> digits_fold txt < 2 ^ 16 \<and> word_of_nat (digits_fold txt) = w"
    using no_plus unfolding api_component_def leading_zero
    by (auto simp: canonical_def parse_u16_def digits_value_fold split: if_splits)
  also have "\<dots> \<longleftrightarrow> canonical txt \<and> digits_fold txt = unat w"
    using unsigned_less [of w] by (auto simp: unat_of_nat_small)
  finally show ?thesis by (simp add: canonical_iff)
qed

lemma host_component_iff: "host_component txt = Some w \<longleftrightarrow> txt = decimal (unat w)"
proof -
  have "host_component txt = Some w \<longleftrightarrow> canonical txt \<and> digits_fold txt < 2 ^ 32 \<and> word_of_nat (digits_fold txt) = w"
    using no_plus unfolding host_component_def leading_zero
    by (auto simp: canonical_def parse_u32_def digits_value_fold split: if_splits)
  also have "\<dots> \<longleftrightarrow> canonical txt \<and> digits_fold txt = unat w"
    using unsigned_less [of w] by (auto simp: unat_of_nat_small)
  finally show ?thesis by (simp add: canonical_iff)
qed

lemma decimal_no_mark: "\<not> is_digit b \<Longrightarrow> b \<notin> set (decimal n)"
  using decimal_digits [of n] by (auto simp: list_all_iff)

lemma decimal_no_dot: "0x2E \<notin> set (decimal n)"
  by (rule decimal_no_mark) (simp add: is_digit_def)

lemma api_parse_iff: "api_parse txt = Some v \<longleftrightarrow> txt = api_text v"
proof -
  have "api_parse txt = Some v \<longleftrightarrow>
      (\<exists>a b. split_once 0x2E txt = Some (a, b) \<and> api_component a = Some (av_major v) \<and> api_component b = Some (av_minor v))"
    by (cases v) (auto simp: api_parse_def split: option.splits)
  also have "\<dots> \<longleftrightarrow> txt = api_text v"
    by (auto simp: api_component_iff split_once_Some decimal_no_dot api_text_def)
  finally show ?thesis .
qed

lemma split_three:
  "split_on (\<lambda>b. b = 0x2E) txt = [a, b, c] \<longleftrightarrow>
     txt = a @ [0x2E] @ b @ [0x2E] @ c \<and> 0x2E \<notin> set a \<and> 0x2E \<notin> set b \<and> 0x2E \<notin> set c" (is "?l \<longleftrightarrow> ?r")
proof
  assume l: ?l
  have "txt @ [0x2E] = a @ [0x2E] @ b @ [0x2E] @ c @ [0x2E]" using split_on_join [of "0x2E" "txt"] l by simp
  then have "txt = a @ [0x2E] @ b @ [0x2E] @ c" by (metis append.assoc append_same_eq)
  moreover have "0x2E \<notin> set p" if "p \<in> set [a, b, c]" for p
    using split_on_parts [of p "\<lambda>b. b = 0x2E" "txt"] that l by (auto simp: list_all_iff)
  ultimately show ?r by simp
next
  assume r: ?r
  then have n: "list_all (\<lambda>b. b \<noteq> 0x2E) a" "list_all (\<lambda>b. b \<noteq> 0x2E) b" "list_all (\<lambda>b. b \<noteq> 0x2E) c"
    by (auto simp: list_all_iff)
  show ?l using r n by (simp add: split_on_append split_on_none)
qed

lemma host_parse_iff: "host_parse txt = Some v \<longleftrightarrow> txt = host_text v"
proof -
  have "host_parse txt = Some v \<longleftrightarrow>
      (\<exists>a b c. split_on (\<lambda>b. b = 0x2E) txt = [a, b, c] \<and> host_component a = Some (hv_major v) \<and>
         host_component b = Some (hv_minor v) \<and> host_component c = Some (hv_patch v))"
    by (cases v) (auto simp: host_parse_def split: list.splits option.splits)
  also have "\<dots> \<longleftrightarrow> txt = host_text v"
    by (auto simp: host_component_iff split_three decimal_no_dot host_text_def)
  finally show ?thesis .
qed

text \<open>
  C33. Versions are read from exactly the texts they are written to: an API version or a client
  version is read from a text when the text is what \<open>Display\<close> writes for it and from no other, so
  no two texts name the same version and none with a sign, a leading zero or a number out of
  range is read; and a pre-release or build suffix after the version of a release is ignored.
\<close>

theorem versions_read_their_text:
  "(api_parse txt = Some v \<longleftrightarrow> txt = api_text v) \<and>
   (host_parse txt = Some h \<longleftrightarrow> txt = host_text h) \<and>
   from_informational (host_text h @ 0x2D # suffix) = Some h \<and>
   from_informational (host_text h @ 0x2B # suffix) = Some h"
proof -
  have "\<forall>b\<in>set (host_text h). b \<noteq> 0x2D \<and> b \<noteq> 0x2B"
    using decimal_no_mark [of "0x2D"] decimal_no_mark [of "0x2B"] by (auto simp: host_text_def is_digit_def)
  then have "from_informational (host_text h @ c # suffix) = Some h" if "c = 0x2D \<or> c = 0x2B" for c
    using that unfolding from_informational_def by (subst takeWhile_append2) (auto simp: host_parse_iff)
  then show ?thesis using api_parse_iff host_parse_iff by simp
qed

end
