(* ===== verification/Plugin_Manifest.thy ===== *)
theory Plugin_Manifest
  imports Plugin_Version
begin

text \<open>
  \<open>crates/ac-plugin-manifest/src/manifest.rs\<close>: reading a plugin's \<open>plugin.json\<close>, with the text of
  every refusal. \<open>to_lowercase\<close> of a string is the parameter \<open>lowercase\<close> (its tables are Unicode's);
  \<open>windows\<close> says which platform's paths \<open>std::path\<close> reads. A panic of the JSON reader is \<open>None\<close>.
  At the end, why a manifest cannot run on a client version (\<open>version.rs\<close>).
\<close>

section \<open>The manifest\<close>

definition DEFAULT_MEMORY_MIB :: u32 where "DEFAULT_MEMORY_MIB = 256"
definition MAX_MEMORY_MIB :: u32 where "MAX_MEMORY_MIB = 1024"
definition MAX_NOTE_LEN :: nat where "MAX_NOTE_LEN = 120"

record permission_declaration =
  pd_permission :: permission
  pd_note :: bytes
  pd_hosts :: "bytes list"

record plugin_manifest =
  pm_id :: bytes
  pm_display_name :: bytes
  pm_version :: bytes
  pm_entry :: bytes
  pm_api_version :: api_version
  pm_dependencies :: "bytes list"
  pm_min_host_version :: "host_version option"
  pm_max_host_version :: "host_version option"
  pm_skip_host_versions :: "host_version list"
  pm_permissions_version :: u32
  pm_permissions :: "permission_declaration list"
  pm_memory_mib :: u32

text \<open>\<open>ManifestError\<close> is its text.\<close>

type_synonym 'a manifest_result = "bytes + 'a"

definition invalid :: "bytes \<Rightarrow> 'a manifest_result" where
  "invalid message = Inl message"

definition quoted :: "bytes \<Rightarrow> bytes" where
  "quoted name = [0x27] @ name @ [0x27]"

definition allows :: "permission \<Rightarrow> plugin_manifest \<Rightarrow> bool" where
  "allows permission m = list_ex (\<lambda>p. pd_permission p = permission) (pm_permissions m)"

section \<open>The texts of the JSON reader's errors\<close>

definition json_kind_text :: "json_error_kind \<Rightarrow> bytes" where
  "json_kind_text kind =
     (case kind of
        NotUtf8 \<Rightarrow> ascii ''the text is not UTF-8''
      | EmptyDocument \<Rightarrow> ascii ''the document is empty''
      | Syntax expected \<Rightarrow> ascii expected
      | TooDeep \<Rightarrow> ascii ''nested deeper than '' @ decimal MAX_DEPTH @ ascii '' levels''
      | DuplicateMember \<Rightarrow> ascii ''a member name is repeated''
      | UnknownMember \<Rightarrow> ascii ''a member name is not part of the format''
      | MissingMember name \<Rightarrow> ascii ''required member '' @ quoted name @ ascii '' is missing''
      | WrongType expected \<Rightarrow> ascii ''expected '' @ ascii expected
      | OutOfRange \<Rightarrow> ascii ''a number is out of range''
      | UnknownEnumValue \<Rightarrow> ascii ''a value is not one of the allowed names'')"

definition json_error_text :: "json_error \<Rightarrow> bytes" where
  "json_error_text e =
     ascii ''line '' @ decimal (unat (jq_line (je_at e))) @ ascii '', column '' @
     decimal (unat (jq_column (je_at e))) @ ascii '': '' @ json_kind_text (je_kind e)"

section \<open>An object's members, ignoring case\<close>

definition object_new :: "json_node \<Rightarrow> json_member list manifest_result" where
  "object_new node =
     (case object_members node of
        Inl e \<Rightarrow> invalid (ascii ''invalid json: '' @ json_error_text e)
      | Inr members \<Rightarrow> Inr members)"

definition object_get :: "json_member list \<Rightarrow> string \<Rightarrow> json_node option" where
  "object_get members name =
     map_option member_value (find (\<lambda>m. eq_ignore_ascii_case (member_name m) (ascii name)) members)"

definition bad_member :: "string \<Rightarrow> string \<Rightarrow> 'a manifest_result" where
  "bad_member name what = invalid (ascii ''invalid json: the '' @ quoted (ascii name) @ ascii '' member must '' @ ascii what)"

definition object_text :: "json_member list \<Rightarrow> string \<Rightarrow> bytes option manifest_result" where
  "object_text members name =
     (case map_option node_value (object_get members name) of
        None \<Rightarrow> Inr None
      | Some JNull \<Rightarrow> Inr None
      | Some (JString t) \<Rightarrow> Inr (Some t)
      | Some _ \<Rightarrow> bad_member name ''be a string'')"

definition list_item :: "string \<Rightarrow> json_node \<Rightarrow> bytes option manifest_result" where
  "list_item name item =
     (case node_value item of
        JNull \<Rightarrow> Inr None
      | JString t \<Rightarrow> Inr (Some t)
      | _ \<Rightarrow> bad_member name ''hold strings'')"

definition object_string_list :: "json_member list \<Rightarrow> string \<Rightarrow> bytes option list option manifest_result" where
  "object_string_list members name =
     (case map_option node_value (object_get members name) of
        None \<Rightarrow> Inr None
      | Some JNull \<Rightarrow> Inr None
      | Some (JArray items) \<Rightarrow> ok_then (collect_ok (map (list_item name) items)) (\<lambda>xs. Inr (Some xs))
      | Some _ \<Rightarrow> bad_member name ''be an array'')"

definition or_default :: "'a list option \<Rightarrow> 'a list" where
  "or_default v = (case v of None \<Rightarrow> [] | Some x \<Rightarrow> x)"

definition require :: "bytes option \<Rightarrow> string \<Rightarrow> bytes manifest_result" where
  "require v field =
     (case v of
        Some t \<Rightarrow> if trim_text t \<noteq> [] then Inr t else invalid (ascii ''missing required field: '' @ ascii field)
      | None \<Rightarrow> invalid (ascii ''missing required field: '' @ ascii field))"

definition read_host_version :: "bytes option \<Rightarrow> string \<Rightarrow> host_version option manifest_result" where
  "read_host_version v field =
     (case v of
        None \<Rightarrow> Inr None
      | Some t \<Rightarrow>
          (case host_parse t of
             Some h \<Rightarrow> Inr (Some h)
           | None \<Rightarrow> invalid (ascii ''malformed '' @ ascii field @ ascii '': '' @ t)))"

section \<open>The entry's path\<close>

text \<open>\<open>std::path\<close>: a root, then the parts between separators; empty parts and dots are skipped,
  except for a dot the path starts with. (A drive or share prefix, on Windows, needs a colon or
  two leading separators, which the check refuses beside the components.)\<close>

datatype path_component = RootDir | CurDir | ParentDir | NormalPart bytes

definition is_path_separator :: "bool \<Rightarrow> u8 \<Rightarrow> bool" where
  "is_path_separator windows b \<longleftrightarrow> b = 0x2F \<or> windows \<and> b = 0x5C"

definition part_component :: "bytes \<Rightarrow> path_component list" where
  "part_component part =
     (if part = [] \<or> part = [0x2E] then [] else if part = [0x2E, 0x2E] then [ParentDir] else [NormalPart part])"

definition path_components :: "bool \<Rightarrow> bytes \<Rightarrow> path_component list" where
  "path_components windows path =
     (let parts = split_on (is_path_separator windows) path;
          rooted = (path \<noteq> [] \<and> is_path_separator windows (hd path))
      in (if rooted then [RootDir] else if hd parts = [0x2E] then [CurDir] else []) @ concat (map part_component parts))"

definition path_file_name :: "bool \<Rightarrow> bytes \<Rightarrow> bytes option" where
  "path_file_name windows path =
     (let cs = path_components windows path
      in if cs = [] then None else (case last cs of NormalPart part \<Rightarrow> Some part | _ \<Rightarrow> None))"

text \<open>What follows the last dot of the file name, unless that dot is the first character.\<close>

definition path_extension :: "bool \<Rightarrow> bytes \<Rightarrow> bytes option" where
  "path_extension windows path =
     (case path_file_name windows path of
        None \<Rightarrow> None
      | Some name \<Rightarrow>
          let after = rev (takeWhile (\<lambda>b. b \<noteq> 0x2E) (rev name))
          in if length name - length after \<le> 1 then None else Some after)"

definition is_wasm_inside_folder :: "bool \<Rightarrow> bytes \<Rightarrow> bool" where
  "is_wasm_inside_folder windows entry \<longleftrightarrow>
     (case path_extension windows entry of None \<Rightarrow> False | Some e \<Rightarrow> eq_ignore_ascii_case e (ascii ''wasm'')) \<and>
     0x3A \<notin> set entry \<and>
     \<not> (entry \<noteq> [] \<and> (hd entry = 0x2F \<or> hd entry = 0x5C)) \<and>
     list_all (\<lambda>c. case c of NormalPart _ \<Rightarrow> True | CurDir \<Rightarrow> True | _ \<Rightarrow> False) (path_components windows entry) \<and>
     \<not> list_ex (\<lambda>part. part = [0x2E, 0x2E]) (split_on (\<lambda>b. b = 0x2F \<or> b = 0x5C) entry)"

section \<open>Permissions\<close>

definition is_format_character :: "nat \<Rightarrow> bool" where
  "is_format_character c \<longleftrightarrow>
     list_ex (\<lambda>(a, b). a \<le> c \<and> c \<le> b)
       [(0x00AD, 0x00AD), (0x0600, 0x0605), (0x061C, 0x061C), (0x06DD, 0x06DD), (0x070F, 0x070F),
        (0x0890, 0x0891), (0x08E2, 0x08E2), (0x180E, 0x180E), (0x200B, 0x200F), (0x202A, 0x202E),
        (0x2060, 0x2064), (0x2066, 0x206F), (0xFEFF, 0xFEFF), (0xFFF9, 0xFFFB), (0x110BD, 0x110BD),
        (0x110CD, 0x110CD), (0x13430, 0x1343F), (0x1BCA0, 0x1BCA3), (0x1D173, 0x1D17A),
        (0xE0001, 0xE0001), (0xE0020, 0xE007F)]"

definition utf16_count :: "nat list \<Rightarrow> nat" where
  "utf16_count cs = sum_list (map (\<lambda>c. length (encode_utf16 c)) cs)"

definition bad_permission :: "bytes \<Rightarrow> bytes \<Rightarrow> 'a manifest_result" where
  "bad_permission name what = invalid (ascii ''permission '' @ quoted name @ ascii '' '' @ what)"

text \<open>The loop over the characters of a note.\<close>

fun note_chars :: "bytes \<Rightarrow> nat list \<Rightarrow> unit manifest_result" where
  "note_chars name [] = Inr ()"
| "note_chars name (c # cs) =
     (if is_control c then bad_permission name (ascii ''note contains a control character'')
      else if is_format_character c then bad_permission name (ascii ''note contains a disallowed formatting character'')
      else note_chars name cs)"

definition read_note :: "bytes option \<Rightarrow> bytes \<Rightarrow> bytes manifest_result" where
  "read_note v name =
     (let trimmed = trim_text (case v of None \<Rightarrow> [] | Some t \<Rightarrow> t)
      in if trimmed = [] then bad_permission name (ascii ''is missing a note'')
         else if utf16_count (str_chars trimmed) > MAX_NOTE_LEN
         then bad_permission name (ascii ''note exceeds '' @ decimal MAX_NOTE_LEN @ ascii '' characters'')
         else ok_then (note_chars name (str_chars trimmed)) (\<lambda>_.
           if contains (ascii ''://'') trimmed then bad_permission name (ascii ''note contains a link'')
           else Inr trimmed))"

definition permission_host :: "bytes \<Rightarrow> bytes option \<Rightarrow> bytes manifest_result" where
  "permission_host name host =
     (case host of
        Some h \<Rightarrow> if trim_text h \<noteq> [] then Inr (trim_text h) else bad_permission name (ascii ''names an empty host'')
      | None \<Rightarrow> bad_permission name (ascii ''names an empty host''))"

text \<open>One entry, given the permissions declared before it.\<close>

definition permission_entry :: "permission_declaration list \<Rightarrow> json_node \<Rightarrow> permission_declaration manifest_result" where
  "permission_entry declared item =
     (if is_null item then invalid (ascii ''permission entry is missing a name'')
      else case object_new item of
        Inl _ \<Rightarrow> invalid (ascii ''invalid json: a permission entry must be an object'')
      | Inr entry \<Rightarrow>
          ok_then (object_text entry ''name'') (\<lambda>name_text.
          case name_text of
            None \<Rightarrow> invalid (ascii ''permission entry is missing a name'')
          | Some name \<Rightarrow>
              if trim_text name = [] then invalid (ascii ''permission entry is missing a name'')
              else (case from_name name of
                None \<Rightarrow> invalid (ascii ''unknown permission: '' @ name)
              | Some permission \<Rightarrow>
                  if list_ex (\<lambda>d. pd_permission d = permission) declared
                  then invalid (ascii ''duplicate permission: '' @ name)
                  else
                    ok_then (object_text entry ''note'') (\<lambda>note_text.
                    ok_then (read_note note_text name) (\<lambda>note.
                    ok_then (object_string_list entry ''hosts'') (\<lambda>hosts.
                    ok_then (collect_ok (map (permission_host name) (or_default hosts))) (\<lambda>hosts.
                    if hosts \<noteq> [] \<and> permission \<noteq> Network
                    then bad_permission name (ascii ''takes no hosts (only network does)'')
                    else Inr \<lparr>pd_permission = permission, pd_note = note, pd_hosts = hosts\<rparr>)))))))"

fun permission_entries :: "permission_declaration list \<Rightarrow> json_node list \<Rightarrow> permission_declaration list manifest_result" where
  "permission_entries declared [] = Inr declared"
| "permission_entries declared (item # items) =
     ok_then (permission_entry declared item) (\<lambda>d. permission_entries (declared @ [d]) items)"

definition permissions :: "json_member list \<Rightarrow> u32 \<Rightarrow> permission_declaration list manifest_result" where
  "permissions members version =
     (case map_option node_value (object_get members ''permissions'') of
        None \<Rightarrow> Inr []
      | Some JNull \<Rightarrow> Inr []
      | Some (JArray entries) \<Rightarrow>
          if entries = [] then Inr []
          else if version < 1 then invalid (ascii ''permissions requires permissionsVersion >= 1'')
          else if version > PERMISSIONS_VERSION
          then invalid (ascii ''permissionsVersion '' @ decimal (unat version) @
                 ascii '' is newer than this client'' @ [0x27] @ ascii ''s vocabulary ('' @
                 decimal (unat PERMISSIONS_VERSION) @ ascii '')'')
          else permission_entries [] entries
      | Some _ \<Rightarrow> bad_member ''permissions'' ''be an array'')"

definition memory_limit :: "json_member list \<Rightarrow> u32 manifest_result" where
  "memory_limit members =
     (case object_get members ''limits'' of
        None \<Rightarrow> Inr DEFAULT_MEMORY_MIB
      | Some node \<Rightarrow>
          if is_null node then Inr DEFAULT_MEMORY_MIB
          else (case object_new node of
            Inl _ \<Rightarrow> bad_member ''limits'' ''be an object''
          | Inr limits \<Rightarrow>
              (case object_get limits ''memoryMiB'' of
                 None \<Rightarrow> Inr DEFAULT_MEMORY_MIB
               | Some node \<Rightarrow>
                   (case json_uint32 node of
                      Inr mib \<Rightarrow>
                        if 1 \<le> mib \<and> mib \<le> MAX_MEMORY_MIB then Inr mib
                        else invalid (ascii ''limits.memoryMiB must be a whole number from 1 to '' @ decimal (unat MAX_MEMORY_MIB))
                    | Inl _ \<Rightarrow>
                        invalid (ascii ''limits.memoryMiB must be a whole number from 1 to '' @ decimal (unat MAX_MEMORY_MIB))))))"

section \<open>Repeated names\<close>

text \<open>\<open>reject_case_insensitive_duplicates\<close>; the loop over the members keeps the folded names seen.\<close>

fun reject_value :: "(bytes \<Rightarrow> bytes) \<Rightarrow> json_value \<Rightarrow> unit manifest_result"
and reject_node :: "(bytes \<Rightarrow> bytes) \<Rightarrow> json_node \<Rightarrow> unit manifest_result"
and reject_items :: "(bytes \<Rightarrow> bytes) \<Rightarrow> json_node list \<Rightarrow> unit manifest_result"
and reject_members :: "(bytes \<Rightarrow> bytes) \<Rightarrow> bytes list \<Rightarrow> json_member list \<Rightarrow> unit manifest_result" where
  "reject_value lowercase (JObject members) = reject_members lowercase [] members"
| "reject_value lowercase (JArray items) = reject_items lowercase items"
| "reject_value lowercase JNull = Inr ()"
| "reject_value lowercase (JBool b) = Inr ()"
| "reject_value lowercase (JNumber t) = Inr ()"
| "reject_value lowercase (JString t) = Inr ()"
| "reject_node lowercase (Node v at) = reject_value lowercase v"
| "reject_items lowercase [] = Inr ()"
| "reject_items lowercase (item # items) = ok_then (reject_node lowercase item) (\<lambda>_. reject_items lowercase items)"
| "reject_members lowercase seen [] = Inr ()"
| "reject_members lowercase seen (Member name v at # members) =
     (if lowercase name \<in> set seen then invalid (ascii ''duplicate property: '' @ name)
      else ok_then (reject_node lowercase v) (\<lambda>_. reject_members lowercase (seen @ [lowercase name]) members))"

text \<open>\<open>char_indices().nth(n)\<close>, as the rest of the text from that character on.\<close>

fun char_suffix :: "nat \<Rightarrow> bytes \<Rightarrow> bytes option" where
  "char_suffix n t =
     (case utf8_char t of
        None \<Rightarrow> None
      | Some (c, rest) \<Rightarrow> (case n of 0 \<Rightarrow> Some t | Suc n \<Rightarrow> char_suffix n rest))"

declare char_suffix.simps [simp del]

text \<open>The offset of the first quote that is not escaped. (The quote and the backslash are single
  bytes that occur in no longer character, so the bytes may be read one by one.)\<close>

fun closing_quote :: "bool \<Rightarrow> nat \<Rightarrow> bytes \<Rightarrow> nat option" where
  "closing_quote escaped offset [] = None"
| "closing_quote escaped offset (b # bs) =
     (if b = 0x5C \<and> \<not> escaped then closing_quote True (offset + 1) bs
      else if b = 0x22 \<and> \<not> escaped then Some offset
      else closing_quote False (offset + 1) bs)"

text \<open>The outer option is the panic of the JSON reader.\<close>

definition member_name_at :: "bytes \<Rightarrow> u32 \<Rightarrow> u32 \<Rightarrow> bytes option option" where
  "member_name_at t line column =
     (if line = 0 \<or> length (str_lines t) < unat line \<or> column = 0 then Some None
      else case char_suffix (unat column - 1) (str_lines t ! (unat line - 1)) of
        None \<Rightarrow> Some None
      | Some rest \<Rightarrow>
          (case utf8_char rest of
             None \<Rightarrow> Some None
           | Some (_, after) \<Rightarrow>
               (case closing_quote False (length rest - length after) after of
                  None \<Rightarrow> Some None
                | Some offset \<Rightarrow>
                    (case json_parse (take (offset + 1) rest) of
                       Done node _ \<Rightarrow> (case node_value node of JString name \<Rightarrow> Some (Some name) | _ \<Rightarrow> Some None)
                     | Fails _ \<Rightarrow> Some None
                     | _ \<Rightarrow> None))))"

section \<open>Reading a manifest\<close>

text \<open>The document, its errors named.\<close>

definition manifest_root :: "bytes \<Rightarrow> json_node manifest_result option" where
  "manifest_root t =
     (case json_parse t of
        Done node _ \<Rightarrow> Some (Inr node)
      | Fails e \<Rightarrow>
          if je_kind e = DuplicateMember
          then (case member_name_at t (jq_line (je_at e)) (jq_column (je_at e)) of
                  None \<Rightarrow> None
                | Some (Some name) \<Rightarrow> Some (invalid (ascii ''duplicate property: '' @ name))
                | Some None \<Rightarrow> Some (invalid (ascii ''invalid json: '' @ json_error_text e)))
          else Some (invalid (ascii ''invalid json: '' @ json_error_text e))
      | _ \<Rightarrow> None)"

definition read_entry :: "bool \<Rightarrow> json_member list \<Rightarrow> bytes manifest_result" where
  "read_entry windows obj =
     (if object_get obj ''entryDll'' \<noteq> None
      then invalid (ascii ''built for OpenAC (C#): entryDll names a .NET assembly; this client loads '' @
             ascii ''WebAssembly plugins named by entry'')
      else ok_then (object_text obj ''entry'') (\<lambda>t. ok_then (require t ''entry'') (\<lambda>entry.
        if \<not> is_wasm_inside_folder windows entry
        then invalid (ascii ''entry must name a .wasm file inside the plugin folder: '' @ entry)
        else Inr entry)))"

definition read_api_version :: "json_member list \<Rightarrow> api_version manifest_result" where
  "read_api_version obj =
     (case map_option node_value (object_get obj ''apiVersion'') of
        None \<Rightarrow> invalid (ascii ''missing required field: apiVersion'')
      | Some JNull \<Rightarrow> invalid (ascii ''missing required field: apiVersion'')
      | Some (JString t) \<Rightarrow>
          (case api_parse t of Some v \<Rightarrow> Inr v | None \<Rightarrow> invalid (ascii ''malformed apiVersion: '' @ t))
      | Some _ \<Rightarrow> invalid (ascii ''apiVersion must be a string \"MAJOR.MINOR\" (a number is OpenAC's C# API)''))"

definition skip_version :: "bytes option \<Rightarrow> host_version manifest_result" where
  "skip_version v =
     (case (case v of None \<Rightarrow> None | Some t \<Rightarrow> host_parse t) of
        Some h \<Rightarrow> Inr h
      | None \<Rightarrow> invalid (ascii ''malformed skipHostVersions entry: '' @ (case v of None \<Rightarrow> ascii ''<null>'' | Some t \<Rightarrow> t)))"

definition check_host_range ::
    "host_version option \<Rightarrow> host_version option \<Rightarrow> (host_version option \<times> host_version option) manifest_result" where
  "check_host_range low high =
     (case (low, high) of
        (Some a, Some b) \<Rightarrow>
          if a > b
          then invalid (ascii ''minHostVersion ('' @ host_text a @ ascii '') is greater than maxHostVersion ('' @ host_text b @ ascii '')'')
          else Inr (low, high)
      | _ \<Rightarrow> Inr (low, high))"

definition read_host_range ::
    "json_member list \<Rightarrow> (host_version option \<times> host_version option) manifest_result" where
  "read_host_range obj =
     ok_then (object_text obj ''minHostVersion'') (\<lambda>t. ok_then (read_host_version t ''minHostVersion'') (\<lambda>low.
     ok_then (object_text obj ''maxHostVersion'') (\<lambda>t. ok_then (read_host_version t ''maxHostVersion'') (\<lambda>high.
     check_host_range low high))))"

definition read_permissions_version :: "json_member list \<Rightarrow> u32 manifest_result" where
  "read_permissions_version obj =
     (case object_get obj ''permissionsVersion'' of
        None \<Rightarrow> Inr 0
      | Some node \<Rightarrow>
          (case json_uint32 node of
             Inr n \<Rightarrow> Inr n
           | Inl _ \<Rightarrow> bad_member ''permissionsVersion'' ''be a whole number''))"

definition read_manifest :: "bool \<Rightarrow> json_member list \<Rightarrow> plugin_manifest manifest_result" where
  "read_manifest windows obj =
     ok_then (object_text obj ''id'') (\<lambda>t. ok_then (require t ''id'') (\<lambda>id.
     ok_then (object_text obj ''displayName'') (\<lambda>t. ok_then (require t ''displayName'') (\<lambda>display_name.
     ok_then (object_text obj ''version'') (\<lambda>t. ok_then (require t ''version'') (\<lambda>version.
     ok_then (read_entry windows obj) (\<lambda>entry.
     ok_then (read_api_version obj) (\<lambda>api.
     ok_then (object_string_list obj ''dependencies'') (\<lambda>dependencies.
     ok_then (read_host_range obj) (\<lambda>(low, high).
     ok_then (object_string_list obj ''skipHostVersions'') (\<lambda>skips.
     ok_then (collect_ok (map skip_version (or_default skips))) (\<lambda>skips.
     ok_then (read_permissions_version obj) (\<lambda>permissions_version.
     ok_then (permissions obj permissions_version) (\<lambda>permissions.
     ok_then (memory_limit obj) (\<lambda>memory.
       Inr \<lparr>pm_id = id, pm_display_name = display_name, pm_version = version, pm_entry = entry,
            pm_api_version = api,
            pm_dependencies = map (\<lambda>d. case d of None \<Rightarrow> [] | Some t \<Rightarrow> t) (or_default dependencies),
            pm_min_host_version = low, pm_max_host_version = high, pm_skip_host_versions = skips,
            pm_permissions_version = permissions_version, pm_permissions = permissions,
            pm_memory_mib = memory\<rparr>)))))))))))))))"

definition manifest_parse :: "(bytes \<Rightarrow> bytes) \<Rightarrow> bool \<Rightarrow> bytes \<Rightarrow> plugin_manifest manifest_result option" where
  "manifest_parse lowercase windows t =
     map_option (\<lambda>r.
       ok_then r (\<lambda>root.
       ok_then (reject_node lowercase root) (\<lambda>_.
       if is_null root then invalid (ascii ''manifest is empty'')
       else ok_then (object_new root) (read_manifest windows))))
     (manifest_root t)"

section \<open>Running on a client version\<close>

definition incompatibility :: "plugin_manifest \<Rightarrow> host_version \<Rightarrow> bytes option" where
  "incompatibility m version =
     (if (case pm_min_host_version m of None \<Rightarrow> False | Some low \<Rightarrow> version < low)
      then Some (ascii ''requires openAC '' @ host_text (the (pm_min_host_version m)) @ ascii '' or newer (this is '' @ host_text version @ ascii '')'')
      else if (case pm_max_host_version m of None \<Rightarrow> False | Some high \<Rightarrow> version > high)
      then Some (ascii ''supports openAC up to '' @ host_text (the (pm_max_host_version m)) @ ascii '' (this is '' @ host_text version @ ascii '')'')
      else if version \<in> set (pm_skip_host_versions m)
      then Some (ascii ''is marked broken on openAC '' @ host_text version)
      else None)"

end
