(* ===== verification/Manifest_Rules.thy ===== *)
theory Manifest_Rules
  imports Plugin_Manifest Json_Documents "HOL-Library.Sublist"
begin

text \<open>
  What an accepted manifest guarantees (\<open>crates/ac-plugin-manifest/src/manifest.rs\<close>): the rules of
  every field, an entry that names a file inside the plugin's folder on either platform, and no
  object of the document with two names that fold alike; and when it may run on a client version.
\<close>

section \<open>Panics are the JSON reader's\<close>

lemma bad_escape_sublist:
  assumes "sublist x t" "bad_escape x"
  shows "bad_escape t"
proof -
  obtain a b where t: "t = a @ x @ b" using assms(1) by (auto simp: sublist_def)
  obtain i where "Suc i < length x" "x ! i = 0x5C" "0x80 \<le> x ! Suc i" using assms(2) by (auto simp: bad_escape_def)
  then show ?thesis unfolding bad_escape_def t by (intro exI [of _ "length a + i"]) (simp add: nth_append)
qed

lemma split_on_sublist: "p \<in> set (split_on sep t) \<Longrightarrow> sublist p t"
proof (induction t arbitrary: p)
  case (Cons b t)
  obtain q qs where q: "split_on sep t = q # qs" by (cases "split_on sep t") auto
  have pre: "prefix q t"
  proof -
    have "prefix (hd (split_on sep t)) t" for t
      by (induction t) (auto split: list.splits)
    then show ?thesis using q by (metis list.sel(1))
  qed
  show ?case
  proof (cases "sep b")
    case True
    then show ?thesis using Cons by (auto intro: sublist_Cons_right [THEN iffD2])
  next
    case False
    then have "p = b # q \<or> p \<in> set qs" using Cons.prems q by auto
    then show ?thesis
    proof
      assume "p = b # q"
      then show ?thesis using pre by (simp add: prefix_imp_sublist)
    next
      assume "p \<in> set qs"
      then show ?thesis using Cons.IH q by (auto intro: sublist_Cons_right [THEN iffD2])
    qed
  qed
qed simp

lemma strip_cr_sublist: "sublist (strip_cr p) p"
  by (auto simp: strip_cr_def intro: prefix_imp_sublist prefixeq_butlast)

lemma str_lines_sublist: "p \<in> set (str_lines t) \<Longrightarrow> sublist p t"
proof -
  assume "p \<in> set (str_lines t)"
  then have "(\<exists>q \<in> set (split_on (\<lambda>b. b = 0x0A) t). p = strip_cr q) \<or> p \<in> set (split_on (\<lambda>b. b = 0x0A) t)"
    by (auto simp: str_lines_def Let_def dest: in_set_butlastD split: if_splits)
  then show ?thesis using split_on_sublist strip_cr_sublist sublist_order.order_trans by blast
qed

lemma char_suffix_suffix: "char_suffix n t = Some r \<Longrightarrow> suffix r t"
proof (induction n t rule: char_suffix.induct)
  case (1 n t)
  show ?case
  proof (cases "utf8_char t")
    case None
    then show ?thesis using 1(2) by (simp add: char_suffix.simps [of n t])
  next
    case (Some p)
    obtain c rest where p: "p = (c, rest)" by (cases p)
    have "suffix rest t" using utf8_char_encode [of t c rest] Some p by (auto simp: suffix_def)
    then show ?thesis using 1 Some p
      by (cases n) (auto simp: char_suffix.simps [of _ t] elim: suffix_order.order_trans [rotated])
  qed
qed

lemma json_parse_bad: "json_parse t = Panics \<or> json_parse t = NoFuel \<Longrightarrow> bad_escape t"
  using parse_result [of t] by auto

lemma line_sublist:
  assumes "line \<noteq> 0" "\<not> length (str_lines t) < unat (line :: u32)"
    "char_suffix n (str_lines t ! (unat line - 1)) = Some rest"
  shows "sublist (take k rest) t"
proof -
  have "0 < unat line" using assms(1) by (simp add: unat_gt_0)
  then have "unat line - 1 < length (str_lines t)" using assms(2) by linarith
  then have "sublist (str_lines t ! (unat line - 1)) t" using str_lines_sublist by simp
  moreover have "sublist rest (str_lines t ! (unat line - 1))"
    using char_suffix_suffix [OF assms(3)] by (simp add: suffix_imp_sublist)
  moreover have "sublist (take k rest) rest" by (simp add: prefix_imp_sublist take_is_prefix)
  ultimately show ?thesis using sublist_order.order_trans by blast
qed

lemma literal_bad:
  assumes "line \<noteq> 0" "\<not> length (str_lines t) < unat (line :: u32)"
    "char_suffix n (str_lines t ! (unat line - 1)) = Some rest"
  shows "json_parse (take k rest) = Panics \<Longrightarrow> bad_escape t" "json_parse (take k rest) = NoFuel \<Longrightarrow> bad_escape t"
  using bad_escape_sublist [OF line_sublist [OF assms] json_parse_bad] by blast+

lemma member_name_panics: "member_name_at t line column = None \<Longrightarrow> bad_escape t"
  unfolding member_name_at_def
  by (auto simp del: One_nat_def split: if_splits option.splits parsed.splits json_value.splits intro: literal_bad)

lemma manifest_root_result:
  "case manifest_root t of
     None \<Rightarrow> bad_escape t
   | Some (Inl e) \<Rightarrow> True
   | Some (Inr root) \<Rightarrow> \<exists>p. json_parse t = Done root p"
proof (cases "json_parse t")
  case (Fails e)
  then show ?thesis
    using member_name_panics [of t] by (auto simp: manifest_root_def invalid_def split: option.splits)
qed (use parse_result [of t] in \<open>auto simp: manifest_root_def invalid_def\<close>)

section \<open>Names in every object\<close>

fun value_objects :: "json_value \<Rightarrow> json_member list list"
and node_objects :: "json_node \<Rightarrow> json_member list list"
and items_objects :: "json_node list \<Rightarrow> json_member list list"
and members_objects :: "json_member list \<Rightarrow> json_member list list" where
  "value_objects (JObject members) = members # members_objects members"
| "value_objects (JArray items) = items_objects items"
| "value_objects JNull = []"
| "value_objects (JBool b) = []"
| "value_objects (JNumber t) = []"
| "value_objects (JString t) = []"
| "node_objects (Node v at) = value_objects v"
| "items_objects [] = []"
| "items_objects (item # items) = node_objects item @ items_objects items"
| "members_objects [] = []"
| "members_objects (Member name v at # members) = node_objects v @ members_objects members"

definition folds_apart :: "(bytes \<Rightarrow> bytes) \<Rightarrow> json_member list \<Rightarrow> bool" where
  "folds_apart lowercase members \<longleftrightarrow> distinct (map (\<lambda>m. lowercase (member_name m)) members)"

lemma reject_iff:
  "reject_value lowercase v = Inr () \<longleftrightarrow> list_all (folds_apart lowercase) (value_objects v)"
  "reject_node lowercase n = Inr () \<longleftrightarrow> list_all (folds_apart lowercase) (node_objects n)"
  "reject_items lowercase ns = Inr () \<longleftrightarrow> list_all (folds_apart lowercase) (items_objects ns)"
  "reject_members lowercase seen ms = Inr () \<longleftrightarrow>
     list_all (folds_apart lowercase) (members_objects ms) \<and>
     distinct (map (\<lambda>m. lowercase (member_name m)) ms) \<and> (\<lambda>m. lowercase (member_name m)) ` set ms \<inter> set seen = {}"
  by (induction lowercase v and lowercase n and lowercase ns and lowercase seen ms
      rule: reject_value_reject_node_reject_items_reject_members.induct)
    (auto simp: ok_then_Inr invalid_def folds_apart_def)

section \<open>Entries\<close>

text \<open>Walking a path from a folder: the names walked into, or none when the walk leaves it.\<close>

fun walk_path :: "bytes list \<Rightarrow> path_component list \<Rightarrow> bytes list option" where
  "walk_path names [] = Some names"
| "walk_path names (RootDir # cs) = None"
| "walk_path names (CurDir # cs) = walk_path names cs"
| "walk_path names (ParentDir # cs) = (if names = [] then None else walk_path (butlast names) cs)"
| "walk_path names (NormalPart part # cs) = walk_path (names @ [part]) cs"

lemma walk_normal:
  "list_all (\<lambda>c. case c of NormalPart _ \<Rightarrow> True | CurDir \<Rightarrow> True | _ \<Rightarrow> False) cs \<Longrightarrow>
   walk_path names cs = Some (names @ concat (map (\<lambda>c. case c of NormalPart p \<Rightarrow> [p] | _ \<Rightarrow> []) cs))"
  by (induction names cs rule: walk_path.induct) auto

text \<open>No part between separators of either platform goes up.\<close>

lemma split_on_hd: "hd (split_on sep t) = takeWhile (\<lambda>b. \<not> sep b) t"
  by (induction t) (auto split: list.splits)

lemma split_on_Cons: "split_on sep t = takeWhile (\<lambda>b. \<not> sep b) t # tl (split_on sep t)"
  using split_on_hd [of sep t] by (metis list.collapse split_on_nonempty)

lemma split_on_set: "p \<in> set (split_on sep t) \<longleftrightarrow> p = takeWhile (\<lambda>b. \<not> sep b) t \<or> p \<in> set (tl (split_on sep t))"
  by (subst split_on_Cons) simp

lemma split_on_tl: "tl (split_on sep (b # t)) = (if sep b then split_on sep t else tl (split_on sep t))"
  by (auto split: list.splits)

lemma takeWhile_finer:
  assumes "\<And>b. s1 b \<Longrightarrow> s2 b" "list_all (\<lambda>b. \<not> s2 b) (takeWhile (\<lambda>b. \<not> s1 b) t)"
  shows "takeWhile (\<lambda>b. \<not> s2 b) t = takeWhile (\<lambda>b. \<not> s1 b) t"
  using assms(2) by (induction t) (auto dest: assms(1) split: if_splits)

lemma split_on_finer_tl:
  assumes "\<And>b. s1 b \<Longrightarrow> s2 b" "list_all (\<lambda>b. \<not> s2 b) p" "p \<in> set (tl (split_on s1 t))"
  shows "p \<in> set (tl (split_on s2 t))"
  using assms(3)
proof (induction t)
  case (Cons b t)
  show ?case
  proof (cases "s1 b")
    case True
    have first: "p = takeWhile (\<lambda>b. \<not> s1 b) t \<Longrightarrow> p = takeWhile (\<lambda>b. \<not> s2 b) t"
      using takeWhile_finer [of s1 s2 t, OF assms(1)] assms(2) by simp
    from True have "p = takeWhile (\<lambda>b. \<not> s1 b) t \<or> p \<in> set (tl (split_on s1 t))"
      using Cons.prems by (simp only: split_on_tl if_True split_on_set)
    then have "p = takeWhile (\<lambda>b. \<not> s2 b) t \<or> p \<in> set (tl (split_on s2 t))"
      using first Cons.IH by blast
    then show ?thesis using True assms(1) by (simp only: split_on_tl if_True split_on_set)
  next
    case False
    then have "p \<in> set (tl (split_on s2 t))" using Cons by (simp only: split_on_tl if_False)
    then show ?thesis unfolding split_on_tl by (auto dest: list.set_sel(2) [rotated])
  qed
qed simp

lemma split_on_finer:
  assumes "\<And>b. s1 b \<Longrightarrow> s2 b" "list_all (\<lambda>b. \<not> s2 b) p" "p \<in> set (split_on s1 t)"
  shows "p \<in> set (split_on s2 t)"
proof -
  have first: "p = takeWhile (\<lambda>b. \<not> s1 b) t \<Longrightarrow> p = takeWhile (\<lambda>b. \<not> s2 b) t"
    using takeWhile_finer [of s1 s2 t, OF assms(1)] assms(2) by simp
  have rest: "p \<in> set (tl (split_on s1 t)) \<Longrightarrow> p \<in> set (tl (split_on s2 t))"
    by (rule split_on_finer_tl [of s1 s2 p t, OF assms(1,2)])
  have "p = takeWhile (\<lambda>b. \<not> s1 b) t \<or> p \<in> set (tl (split_on s1 t))" using assms(3) by (simp only: split_on_set)
  then have "p = takeWhile (\<lambda>b. \<not> s2 b) t \<or> p \<in> set (tl (split_on s2 t))"
    using first rest by blast
  then show ?thesis by (simp only: split_on_set)
qed

lemma wasm_inside:
  assumes "is_wasm_inside_folder windows entry"
  shows "\<exists>names. walk_path [] (path_components platform entry) = Some names"
proof -
  let ?either = "\<lambda>b. b = 0x2F \<or> b = (0x5C :: u8)"
  have "[0x2E, 0x2E] \<notin> set (split_on ?either entry)"
    using assms by (auto simp: is_wasm_inside_folder_def list_ex_iff)
  then have up: "[0x2E, 0x2E] \<notin> set (split_on (is_path_separator platform) entry)"
    using split_on_finer [of "is_path_separator platform" ?either "[0x2E, 0x2E]" entry]
    by (auto simp: is_path_separator_def)
  have "\<not> (entry \<noteq> [] \<and> is_path_separator platform (hd entry))"
    using assms by (auto simp: is_wasm_inside_folder_def is_path_separator_def)
  then have "list_all (\<lambda>c. case c of NormalPart _ \<Rightarrow> True | CurDir \<Rightarrow> True | _ \<Rightarrow> False) (path_components platform entry)"
    using up by (auto simp: path_components_def Let_def list_all_iff part_component_def)
  then show ?thesis using walk_normal by blast
qed

section \<open>The rules of the fields\<close>

definition note_ok :: "bytes \<Rightarrow> bool" where
  "note_ok t \<longleftrightarrow>
     t \<noteq> [] \<and> trim_text t = t \<and> utf16_count (str_chars t) \<le> MAX_NOTE_LEN \<and>
     list_all (\<lambda>c. \<not> is_control c \<and> \<not> is_format_character c) (str_chars t) \<and> \<not> contains (ascii ''://'') t"

definition declaration_ok :: "permission_declaration \<Rightarrow> bool" where
  "declaration_ok d \<longleftrightarrow>
     note_ok (pd_note d) \<and> list_all (\<lambda>h. h \<noteq> [] \<and> trim_text h = h) (pd_hosts d) \<and>
     (pd_hosts d = [] \<or> pd_permission d = Network)"

definition range_ok :: "host_version option \<Rightarrow> host_version option \<Rightarrow> bool" where
  "range_ok low high \<longleftrightarrow> (case (low, high) of (Some a, Some b) \<Rightarrow> a \<le> b | _ \<Rightarrow> True)"

definition manifest_ok :: "bool \<Rightarrow> plugin_manifest \<Rightarrow> bool" where
  "manifest_ok windows m \<longleftrightarrow>
     trim_text (pm_id m) \<noteq> [] \<and> trim_text (pm_display_name m) \<noteq> [] \<and> trim_text (pm_version m) \<noteq> [] \<and>
     trim_text (pm_entry m) \<noteq> [] \<and> is_wasm_inside_folder windows (pm_entry m) \<and>
     range_ok (pm_min_host_version m) (pm_max_host_version m) \<and>
     (pm_permissions m = [] \<or> pm_permissions_version m = PERMISSIONS_VERSION) \<and>
     distinct (map pd_permission (pm_permissions m)) \<and> list_all declaration_ok (pm_permissions m) \<and>
     1 \<le> pm_memory_mib m \<and> pm_memory_mib m \<le> MAX_MEMORY_MIB"

lemma invalid_Inr [simp]: "invalid e \<noteq> Inr x" "bad_permission n w \<noteq> Inr x" "bad_member n' w' \<noteq> Inr x"
  by (simp_all add: invalid_def bad_permission_def bad_member_def)

lemma require_Inr: "require v field = Inr t \<longleftrightarrow> v = Some t \<and> trim_text t \<noteq> []"
  by (auto simp: require_def split: option.splits if_splits)

lemma read_entry_Inr: "read_entry windows obj = Inr t \<Longrightarrow> trim_text t \<noteq> [] \<and> is_wasm_inside_folder windows t"
  by (auto simp: read_entry_def ok_then_Inr require_Inr split: if_splits)

lemma check_host_range_Inr:
  "check_host_range low high = Inr r \<longleftrightarrow> r = (low, high) \<and> range_ok low high"
  by (cases low; cases high) (auto simp: check_host_range_def range_ok_def)

lemma read_host_range_Inr:
  "read_host_range obj = Inr (low, high) \<Longrightarrow> range_ok low high"
  by (auto simp: read_host_range_def ok_then_Inr check_host_range_Inr)

lemma memory_limit_Inr: "memory_limit members = Inr n \<Longrightarrow> 1 \<le> n \<and> n \<le> MAX_MEMORY_MIB"
  by (auto simp: memory_limit_def DEFAULT_MEMORY_MIB_def MAX_MEMORY_MIB_def split: option.splits if_splits sum.splits)

lemma note_chars_Inr: "note_chars name cs = Inr () \<longleftrightarrow> list_all (\<lambda>c. \<not> is_control c \<and> \<not> is_format_character c) cs"
  by (induction cs) simp_all

lemma read_note_Inr: "read_note v name = Inr t \<longleftrightarrow> (\<exists>u. t = trim_text (or_default u) \<and> u = v \<and> note_ok t)"
  by (auto simp: read_note_def Let_def ok_then_Inr note_chars_Inr note_ok_def or_default_def trim_text_idem split: if_splits)

lemma permission_host_Inr: "permission_host name host = Inr h \<longleftrightarrow> (\<exists>t. host = Some t \<and> h = trim_text t \<and> h \<noteq> [])"
  by (auto simp: permission_host_def split: option.splits)

lemma permission_hosts_Inr:
  "collect_ok (map (permission_host name) xs) = Inr hs \<Longrightarrow> list_all (\<lambda>h. h \<noteq> [] \<and> trim_text h = h) hs"
  by (induction xs arbitrary: hs) (auto simp: ok_then_Inr permission_host_Inr trim_text_idem)

lemma permission_entry_Inr:
  "permission_entry declared item = Inr d \<Longrightarrow> declaration_ok d \<and> \<not> list_ex (\<lambda>e. pd_permission e = pd_permission d) declared"
  by (auto simp: permission_entry_def read_note_Inr declaration_ok_def
      elim!: ok_thenE dest!: permission_hosts_Inr split: if_splits sum.splits option.splits)

lemma permission_entries_Inr:
  "permission_entries declared items = Inr ds \<Longrightarrow>
   distinct (map pd_permission declared) \<Longrightarrow> list_all declaration_ok declared \<Longrightarrow>
   distinct (map pd_permission ds) \<and> list_all declaration_ok ds"
proof (induction items arbitrary: declared)
  case (Cons item items)
  obtain d where d: "permission_entry declared item = Inr d" "permission_entries (declared @ [d]) items = Inr ds"
    using Cons.prems(1) by (auto elim!: ok_thenE)
  have "declaration_ok d" "pd_permission d \<notin> pd_permission ` set declared"
    using permission_entry_Inr [OF d(1)] by (auto simp: list_ex_iff)
  then show ?case using Cons.IH [OF d(2)] Cons.prems(2,3) by simp
qed simp

lemma version_one: "\<not> 1 < (v :: u32) \<Longrightarrow> v \<noteq> 0 \<Longrightarrow> v = 1"
proof -
  assume "\<not> 1 < v" "v \<noteq> 0"
  then have "\<not> 1 < unat v" "0 < unat v" by (simp_all add: word_less_nat_alt unat_gt_0)
  then have "unat v = unat (1 :: u32)" by simp
  then show "v = 1" using word_unat_eq_iff by blast
qed

lemma permissions_Inr:
  assumes "permissions obj version = Inr ds"
  shows "distinct (map pd_permission ds) \<and> list_all declaration_ok ds \<and> (ds = [] \<or> version = PERMISSIONS_VERSION)"
proof (cases "ds = []")
  case False
  then obtain entries where "permission_entries [] entries = Inr ds" "version \<noteq> 0" "\<not> 1 < version"
    using assms by (auto simp: permissions_def PERMISSIONS_VERSION_def split: option.splits json_value.splits if_splits)
  then show ?thesis using permission_entries_Inr [of "[]" entries ds] version_one by (simp add: PERMISSIONS_VERSION_def)
qed simp

lemma read_manifest_ok:
  assumes "read_manifest windows obj = Inr m"
  shows "manifest_ok windows m"
  using assms
  by (auto simp: read_manifest_def require_Inr manifest_ok_def elim!: ok_thenE
      dest!: read_entry_Inr read_host_range_Inr memory_limit_Inr permissions_Inr)

text \<open>
  C32. What an accepted manifest guarantees. For every text, either platform and any folding of
  letters: the reader panics only where the JSON reader does; and an accepted manifest has an id,
  names, a version and an entry that are not blank, an entry that is a .wasm file and never leaves
  the plugin's folder on either platform, a range of client versions that is not empty, distinct
  permissions under the vocabulary this client knows, each with a disclosable note and with hosts
  only for the network, a memory cap of 1 to 1024 MiB, and no object anywhere in the document with
  two names that fold alike.
\<close>

theorem manifest_parse_sound:
  "case manifest_parse lowercase windows t of
     None \<Rightarrow> bad_escape t
   | Some (Inl e) \<Rightarrow> True
   | Some (Inr m) \<Rightarrow>
       manifest_ok windows m \<and>
       (\<exists>names. walk_path [] (path_components platform (pm_entry m)) = Some names) \<and>
       (\<exists>root p. json_parse t = Done root p \<and> list_all (folds_apart lowercase) (node_objects root))"
proof (cases "manifest_root t")
  case None
  then show ?thesis using manifest_root_result [of t] by (simp add: manifest_parse_def)
next
  case (Some r)
  show ?thesis
  proof (cases "manifest_parse lowercase windows t")
    case None
    then show ?thesis using Some by (simp add: manifest_parse_def)
  next
    case (Some q)
    show ?thesis
    proof (cases q)
      case (Inr m)
      then obtain root obj where m: "manifest_root t = Some (Inr root)" "reject_node lowercase root = Inr ()"
        "read_manifest windows obj = Inr m"
        using Some by (auto simp: manifest_parse_def elim!: ok_thenE split: if_splits)
      then have "manifest_ok windows m" "\<exists>p. json_parse t = Done root p"
        using manifest_root_result [of t] by (simp_all add: read_manifest_ok)
      moreover from this have "\<exists>names. walk_path [] (path_components platform (pm_entry m)) = Some names"
        by (intro wasm_inside [of windows]) (simp add: manifest_ok_def)
      ultimately show ?thesis using Some Inr m(2) by (auto simp: reject_iff)
    qed (simp add: Some)
  qed
qed

text \<open>When a manifest may run on a client version.\<close>

lemma incompatibility_None:
  "incompatibility m v = None \<longleftrightarrow>
     (\<forall>low \<in> set_option (pm_min_host_version m). low \<le> v) \<and> (\<forall>high \<in> set_option (pm_max_host_version m). v \<le> high) \<and>
     v \<notin> set (pm_skip_host_versions m)"
  by (auto simp: incompatibility_def not_less split: option.splits)

end
