(* ===== verification/Manifest_Roundtrip.thy ===== *)
theory Manifest_Roundtrip
  imports Manifest_Rules
begin

text \<open>
  Manifests are read back from the documents that list their fields: reading depends on the values
  of a document alone, not on where they stand, so what holds of the tree that a program makes
  holds of the tree the JSON reader finds in the written text.
\<close>

section \<open>Reading ignores positions\<close>

lemma node_value_erase [simp]: "node_value (erase n) = erase_value (node_value n)"
  by (cases n) (simp add: node_made_def)

lemma member_erase [simp]: "member_name (erase_member m) = member_name m" "member_value (erase_member m) = erase (member_value m)"
  by (cases m; simp)+

lemma is_null_erase [simp]: "is_null (erase n) = is_null n"
  by (cases "node_value n") (simp_all add: is_null_def)

lemma uint32_erase: "json_uint32 (erase n) = Inr x \<longleftrightarrow> json_uint32 n = Inr x"
  by (cases "node_value n") (simp_all add: json_uint32_def integer_text_def split: option.splits)

lemma uint32_erase_case [simp]:
  "(case json_uint32 (erase n) of Inl _ \<Rightarrow> a | Inr x \<Rightarrow> f x) = (case json_uint32 n of Inl _ \<Rightarrow> a | Inr x \<Rightarrow> f x)"
  using uint32_erase [of n] by (auto split: sum.split) (metis sum.inject(2) sum.simps(4))+

lemma object_get_erase [simp]: "object_get (map erase_member ms) name = map_option erase (object_get ms name)"
  by (induction ms) (simp_all add: object_get_def)

lemma object_text_erase [simp]: "object_text (map erase_member ms) name = object_text ms name"
  by (auto simp: object_text_def split: option.splits json_value.splits)

lemma list_item_erase [simp]: "list_item name (erase n) = list_item name n"
  by (cases "node_value n") (simp_all add: list_item_def)

lemma object_string_list_erase [simp]: "object_string_list (map erase_member ms) name = object_string_list ms name"
  by (auto simp: object_string_list_def comp_def split: option.splits json_value.splits)

text \<open>What is read of an object whose error is not looked at.\<close>

lemma object_new_erase:
  "object_new n = Inr ms \<Longrightarrow> object_new (erase n) = Inr (map erase_member ms)"
  "object_new n = Inl e \<Longrightarrow> \<exists>e'. object_new (erase n) = Inl e'"
  by (cases "node_value n"; auto simp: object_new_def object_members_def invalid_def)+

lemma permission_entry_erase [simp]: "permission_entry declared (erase n) = permission_entry declared n"
  using object_new_erase [of n] by (cases "object_new n") (auto simp: permission_entry_def cong: option.case_cong if_cong)

lemma permission_entries_erase [simp]: "permission_entries declared (map erase ns) = permission_entries declared ns"
  by (induction ns arbitrary: declared) simp_all

lemma permissions_erase [simp]: "permissions (map erase_member ms) v = permissions ms v"
  by (auto simp: permissions_def split: option.splits json_value.splits)

lemma memory_limit_erase [simp]: "memory_limit (map erase_member ms) = memory_limit ms"
proof (cases "object_get ms ''limits''")
  case (Some n)
  then show ?thesis using object_new_erase [of n]
    by (cases "object_new n") (auto simp: memory_limit_def split: option.splits)
qed (simp add: memory_limit_def)

lemma read_manifest_erase: "read_manifest windows (map erase_member ms) = read_manifest windows ms"
proof -
  have "read_entry windows (map erase_member ms) = read_entry windows ms"
    by (simp add: read_entry_def)
  moreover have "read_api_version (map erase_member ms) = read_api_version ms"
    by (auto simp: read_api_version_def split: option.splits json_value.splits)
  moreover have "read_host_range (map erase_member ms) = read_host_range ms"
    by (simp add: read_host_range_def)
  moreover have "read_permissions_version (map erase_member ms) = read_permissions_version ms"
    by (auto simp: read_permissions_version_def split: option.splits)
  ultimately show ?thesis by (simp add: read_manifest_def)
qed

lemma folds_apart_erase [simp]: "folds_apart lowercase (map erase_member ms) = folds_apart lowercase ms"
  by (simp add: folds_apart_def comp_def)

lemma objects_erase:
  "value_objects (erase_value v) = map (map erase_member) (value_objects v)"
  "node_objects (erase n) = map (map erase_member) (node_objects n)"
  "items_objects (map erase ns) = map (map erase_member) (items_objects ns)"
  "members_objects (map erase_member ms) = map (map erase_member) (members_objects ms)"
  by (induction v and n and ns and ms rule: value_objects_node_objects_items_objects_members_objects.induct)
    (simp_all add: node_made_def)

section \<open>The document of a manifest\<close>

definition text_node :: "bytes \<Rightarrow> json_node" where
  "text_node t = node_made (JString t)"

definition version_value :: "host_version option \<Rightarrow> json_value" where
  "version_value v = (case v of None \<Rightarrow> JNull | Some h \<Rightarrow> JString (host_text h))"

definition declaration_members :: "permission_declaration \<Rightarrow> json_member list" where
  "declaration_members d =
     [member_made (ascii ''name'') (JString (permission_name (pd_permission d))),
      member_made (ascii ''note'') (JString (pd_note d)),
      member_made (ascii ''hosts'') (JArray (map text_node (pd_hosts d)))]"

definition limit_members :: "u32 \<Rightarrow> json_member list" where
  "limit_members n = [member_made (ascii ''memoryMiB'') (JNumber (decimal (unat n)))]"

definition manifest_members :: "plugin_manifest \<Rightarrow> json_member list" where
  "manifest_members m =
     [member_made (ascii ''id'') (JString (pm_id m)),
      member_made (ascii ''displayName'') (JString (pm_display_name m)),
      member_made (ascii ''version'') (JString (pm_version m)),
      member_made (ascii ''entry'') (JString (pm_entry m)),
      member_made (ascii ''apiVersion'') (JString (api_text (pm_api_version m))),
      member_made (ascii ''dependencies'') (JArray (map text_node (pm_dependencies m))),
      member_made (ascii ''minHostVersion'') (version_value (pm_min_host_version m)),
      member_made (ascii ''maxHostVersion'') (version_value (pm_max_host_version m)),
      member_made (ascii ''skipHostVersions'') (JArray (map (text_node \<circ> host_text) (pm_skip_host_versions m))),
      member_made (ascii ''permissionsVersion'') (JNumber (decimal (unat (pm_permissions_version m)))),
      member_made (ascii ''permissions'') (JArray (map (\<lambda>d. node_made (JObject (declaration_members d))) (pm_permissions m))),
      member_made (ascii ''limits'') (JObject (limit_members (pm_memory_mib m)))]"

definition manifest_document :: "plugin_manifest \<Rightarrow> json_node" where
  "manifest_document m = node_made (JObject (manifest_members m))"

text \<open>Every string of the manifest is a Rust string.\<close>

definition manifest_utf8 :: "plugin_manifest \<Rightarrow> bool" where
  "manifest_utf8 m \<longleftrightarrow>
     utf8_valid (pm_id m) \<and> utf8_valid (pm_display_name m) \<and> utf8_valid (pm_version m) \<and> utf8_valid (pm_entry m) \<and>
     list_all utf8_valid (pm_dependencies m) \<and>
     list_all (\<lambda>d. utf8_valid (pd_note d) \<and> list_all utf8_valid (pd_hosts d)) (pm_permissions m)"

subsection \<open>The document is well formed\<close>

lemma str_ascii_valid: "list_all (\<lambda>b. b < 0x80) bs \<Longrightarrow> utf8_valid bs"
  by (induction bs) (simp_all add: utf8_valid_ascii_Cons)

lemma decimal_ascii: "list_all (\<lambda>b. b < 0x80) (decimal n)"
  using decimal_digits [of n] by (auto simp: list_all_iff is_digit_def byte_nat)

lemma decimal_number: "is_number (decimal n)"
proof -
  have "is_integer_part (decimal n)"
    using decimal_canonical [of n] by (cases "decimal n"; cases "tl (decimal n)")
      (auto simp: canonical_def is_integer_part_def all_digits_def)
  moreover have "is_fraction []" "is_exponent []" by (simp_all add: is_fraction_def is_exponent_def)
  ultimately show ?thesis unfolding is_number_def by (metis append_Nil append_Nil2)
qed

lemma texts_valid: "utf8_valid (host_text h)" "utf8_valid (api_text v)" "utf8_valid (permission_name p)"
  subgoal by (rule str_ascii_valid) (simp add: host_text_def decimal_ascii)
  subgoal by (rule str_ascii_valid) (simp add: api_text_def decimal_ascii)
  subgoal by (rule str_ascii_valid) (cases p; simp add: ascii_def)
  done

lemma items_ok_list: "items_ok d ns \<longleftrightarrow> list_all (node_ok d) ns"
  by (induction ns) simp_all

lemma made_ok [simp]:
  "node_ok d (node_made v) = value_ok d v"
  "members_ok d (member_made name v # ms) \<longleftrightarrow> utf8_valid name \<and> value_ok d v \<and> members_ok d ms"
  "member_name (member_made name v) = name" "member_value (member_made name v) = node_made v"
  "node_value (node_made v) = v"
  by (simp_all add: node_made_def member_made_def)

lemma member_names:
  "map member_name (declaration_members d) = map ascii [''name'', ''note'', ''hosts'']"
  "map member_name (limit_members n) = map ascii [''memoryMiB'']"
  "map member_name (manifest_members m) = map ascii
     [''id'', ''displayName'', ''version'', ''entry'', ''apiVersion'', ''dependencies'', ''minHostVersion'',
      ''maxHostVersion'', ''skipHostVersions'', ''permissionsVersion'', ''permissions'', ''limits'']"
  by (simp_all add: declaration_members_def limit_members_def manifest_members_def)

lemma names_distinct:
  "distinct (map ascii [''name'', ''note'', ''hosts''])"
  "distinct (map ascii
     [''id'', ''displayName'', ''version'', ''entry'', ''apiVersion'', ''dependencies'', ''minHostVersion'',
      ''maxHostVersion'', ''skipHostVersions'', ''permissionsVersion'', ''permissions'', ''limits''])"
  by (simp_all add: ascii_def)

lemma texts_ok: "d < MAX_DEPTH \<Longrightarrow> value_ok d (JArray (map text_node ts)) \<longleftrightarrow> list_all utf8_valid ts"
  by (simp add: items_ok_list text_node_def list.pred_map comp_def)

lemma ascii_names_valid:
  "utf8_valid (ascii ''name'')" "utf8_valid (ascii ''note'')" "utf8_valid (ascii ''hosts'')" "utf8_valid (ascii ''memoryMiB'')"
  "utf8_valid (ascii ''id'')" "utf8_valid (ascii ''displayName'')" "utf8_valid (ascii ''version'')" "utf8_valid (ascii ''entry'')"
  "utf8_valid (ascii ''apiVersion'')" "utf8_valid (ascii ''dependencies'')" "utf8_valid (ascii ''minHostVersion'')"
  "utf8_valid (ascii ''maxHostVersion'')" "utf8_valid (ascii ''skipHostVersions'')" "utf8_valid (ascii ''permissionsVersion'')"
  "utf8_valid (ascii ''permissions'')" "utf8_valid (ascii ''limits'')"
  by (simp_all add: ascii_def utf8_valid_ascii_Cons)

lemma declaration_value_ok:
  assumes "utf8_valid (pd_note d)" "list_all utf8_valid (pd_hosts d)"
  shows "value_ok 2 (JObject (declaration_members d))"
proof -
  have "members_ok 3 (declaration_members d)"
    using assms texts_ok [of 3 "pd_hosts d"]
    by (simp add: declaration_members_def ascii_names_valid texts_valid MAX_DEPTH_def del: value_ok.simps(5))
  moreover have "distinct (map member_name (declaration_members d))" by (simp only: member_names names_distinct)
  ultimately show ?thesis by (simp add: MAX_DEPTH_def)
qed

lemma document_ok:
  assumes "manifest_utf8 m"
  shows "node_ok 0 (manifest_document m)"
proof -
  have deps: "value_ok 1 (JArray (map text_node (pm_dependencies m)))"
    using assms by (simp add: texts_ok manifest_utf8_def MAX_DEPTH_def del: value_ok.simps(5))
  have skips: "value_ok 1 (JArray (map (text_node \<circ> host_text) (pm_skip_host_versions m)))"
    using texts_ok [of 1 "map host_text (pm_skip_host_versions m)"]
    by (simp add: MAX_DEPTH_def texts_valid list.pred_map comp_def list_all_iff del: value_ok.simps(5))
  have perms: "value_ok 1 (JArray (map (\<lambda>d. node_made (JObject (declaration_members d))) (pm_permissions m)))"
    using assms declaration_value_ok [unfolded numeral_2_eq_2]
    by (simp add: items_ok_list list.pred_map comp_def MAX_DEPTH_def manifest_utf8_def list_all_iff del: value_ok.simps(6))
  have limits: "value_ok 1 (JObject (limit_members n))" for n
    by (simp add: limit_members_def decimal_number ascii_names_valid MAX_DEPTH_def)
  have versions: "value_ok 1 (version_value v)" for v
    by (simp add: version_value_def texts_valid split: option.split)
  have "members_ok 1 (manifest_members m)"
    using assms deps skips perms limits versions
    by (simp add: manifest_members_def ascii_names_valid texts_valid decimal_number manifest_utf8_def del: value_ok.simps(5,6))
  moreover have "distinct (map member_name (manifest_members m))" by (simp only: member_names names_distinct)
  ultimately show ?thesis by (simp add: manifest_document_def MAX_DEPTH_def)
qed

subsection \<open>No two names of the document fold alike\<close>

lemma document_folds_apart:
  assumes "\<And>s. list_all (\<lambda>b. b < 0x80) s \<Longrightarrow> lowercase s = map ascii_lower s"
  shows "list_all (folds_apart lowercase) (node_objects (manifest_document m))"
proof -
  have made: "node_objects (node_made v) = value_objects v"
    "members_objects (member_made name v # ms) = value_objects v @ members_objects ms" for v name ms
    by (simp_all add: node_made_def member_made_def)
  have texts: "items_objects (map text_node ts) = []" for ts
    by (induction ts) (simp_all add: text_node_def made)
  have decl: "items_objects (map (\<lambda>d. node_made (JObject (declaration_members d))) ds) = map declaration_members ds" for ds
    by (induction ds) (simp_all add: made declaration_members_def texts)
  have objs: "node_objects (manifest_document m) =
      manifest_members m # map declaration_members (pm_permissions m) @ [limit_members (pm_memory_mib m)]"
    using texts [of "map host_text (pm_skip_host_versions m)"]
    by (simp add: manifest_document_def manifest_members_def made texts decl limit_members_def version_value_def comp_def
        split: option.split)
  have folds: "folds_apart lowercase ms \<longleftrightarrow> distinct (map (map ascii_lower) (map member_name ms))"
    if "list_all (\<lambda>m. list_all (\<lambda>b. b < 0x80) (member_name m)) ms" for ms
    unfolding folds_apart_def using assms that by (induction ms) (auto simp: list_all_iff)
  have "folds_apart lowercase (manifest_members m)" "folds_apart lowercase (declaration_members d)"
    "folds_apart lowercase (limit_members n)" for d n
    by (subst folds; simp add: manifest_members_def declaration_members_def limit_members_def ascii_def ascii_lower_def)+
  then show ?thesis by (simp add: objs list_all_iff)
qed

section \<open>The members of the document are read back\<close>

lemma collect_Inr [simp]: "collect_ok (map Inr xs) = Inr xs"
  by (simp add: collect_ok_Inr)

lemma read_texts [simp]: "collect_ok (map (list_item name \<circ> text_node) ts) = Inr (map Some ts)"
proof -
  have "list_item name \<circ> text_node = Inr \<circ> Some" by (simp add: fun_eq_iff list_item_def text_node_def)
  then show ?thesis using collect_Inr [of "map Some ts"] unfolding map_map by (simp only:)
qed

text \<open>The folded names, as bytes.\<close>

lemma folded_names:
  "map ascii_lower (ascii ''id'') = [105, 100]"
  "map ascii_lower (ascii ''displayName'') = [100, 105, 115, 112, 108, 97, 121, 110, 97, 109, 101]"
  "map ascii_lower (ascii ''version'') = [118, 101, 114, 115, 105, 111, 110]"
  "map ascii_lower (ascii ''entry'') = [101, 110, 116, 114, 121]"
  "map ascii_lower (ascii ''entryDll'') = [101, 110, 116, 114, 121, 100, 108, 108]"
  "map ascii_lower (ascii ''apiVersion'') = [97, 112, 105, 118, 101, 114, 115, 105, 111, 110]"
  "map ascii_lower (ascii ''dependencies'') = [100, 101, 112, 101, 110, 100, 101, 110, 99, 105, 101, 115]"
  "map ascii_lower (ascii ''minHostVersion'') = [109, 105, 110, 104, 111, 115, 116, 118, 101, 114, 115, 105, 111, 110]"
  "map ascii_lower (ascii ''maxHostVersion'') = [109, 97, 120, 104, 111, 115, 116, 118, 101, 114, 115, 105, 111, 110]"
  "map ascii_lower (ascii ''skipHostVersions'') = [115, 107, 105, 112, 104, 111, 115, 116, 118, 101, 114, 115, 105, 111, 110, 115]"
  "map ascii_lower (ascii ''permissionsVersion'') = [112, 101, 114, 109, 105, 115, 115, 105, 111, 110, 115, 118, 101, 114, 115, 105, 111, 110]"
  "map ascii_lower (ascii ''permissions'') = [112, 101, 114, 109, 105, 115, 115, 105, 111, 110, 115]"
  "map ascii_lower (ascii ''limits'') = [108, 105, 109, 105, 116, 115]"
  "map ascii_lower (ascii ''memoryMiB'') = [109, 101, 109, 111, 114, 121, 109, 105, 98]"
  "map ascii_lower (ascii ''name'') = [110, 97, 109, 101]"
  "map ascii_lower (ascii ''note'') = [110, 111, 116, 101]"
  "map ascii_lower (ascii ''hosts'') = [104, 111, 115, 116, 115]"
  by (simp_all add: ascii_def ascii_lower_def)

lemma declaration_get:
  "object_get (declaration_members d) ''name'' = Some (node_made (JString (permission_name (pd_permission d))))"
  "object_get (declaration_members d) ''note'' = Some (node_made (JString (pd_note d)))"
  "object_get (declaration_members d) ''hosts'' = Some (node_made (JArray (map text_node (pd_hosts d))))"
  by (simp_all add: object_get_def declaration_members_def eq_ignore_ascii_case_def folded_names)

lemma limit_get: "object_get (limit_members n) ''memoryMiB'' = Some (node_made (JNumber (decimal (unat n))))"
  by (simp add: object_get_def limit_members_def eq_ignore_ascii_case_def folded_names)

lemma manifest_get:
  "object_get (manifest_members m) ''id'' = Some (node_made (JString (pm_id m)))"
  "object_get (manifest_members m) ''displayName'' = Some (node_made (JString (pm_display_name m)))"
  "object_get (manifest_members m) ''version'' = Some (node_made (JString (pm_version m)))"
  "object_get (manifest_members m) ''entry'' = Some (node_made (JString (pm_entry m)))"
  "object_get (manifest_members m) ''entryDll'' = None"
  "object_get (manifest_members m) ''apiVersion'' = Some (node_made (JString (api_text (pm_api_version m))))"
  "object_get (manifest_members m) ''dependencies'' = Some (node_made (JArray (map text_node (pm_dependencies m))))"
  "object_get (manifest_members m) ''minHostVersion'' = Some (node_made (version_value (pm_min_host_version m)))"
  "object_get (manifest_members m) ''maxHostVersion'' = Some (node_made (version_value (pm_max_host_version m)))"
  "object_get (manifest_members m) ''skipHostVersions'' =
     Some (node_made (JArray (map (text_node \<circ> host_text) (pm_skip_host_versions m))))"
  "object_get (manifest_members m) ''permissionsVersion'' = Some (node_made (JNumber (decimal (unat (pm_permissions_version m)))))"
  "object_get (manifest_members m) ''permissions'' =
     Some (node_made (JArray (map (\<lambda>d. node_made (JObject (declaration_members d))) (pm_permissions m))))"
  "object_get (manifest_members m) ''limits'' = Some (node_made (JObject (limit_members (pm_memory_mib m))))"
  by (simp_all add: object_get_def manifest_members_def eq_ignore_ascii_case_def folded_names)

lemma uint32_decimal: "json_uint32 (node_made (JNumber (decimal (unat n)))) = Inr n"
proof -
  have "\<not> list_ex (\<lambda>b. b = 0x2E \<or> b = 0x65 \<or> b = 0x45) (decimal (unat n))"
    using decimal_no_mark [of "0x2E"] decimal_no_mark [of "0x65"] decimal_no_mark [of "0x45"]
    by (auto simp: list_ex_iff is_digit_def)
  moreover have "parse_u32 (decimal (unat n)) = Some n"
  proof -
    have "unat n < 2 ^ 32" using unsigned_less [of n] by simp
    then show ?thesis
      using decimal_digits [of "unat n"] no_plus [of "decimal (unat n)"]
      by (simp add: parse_u32_def digits_value_fold decimal_fold)
  qed
  ultimately show ?thesis by (simp add: json_uint32_def integer_text_def)
qed

lemma from_permission_name: "from_name (permission_name p) = Some p" "trim_text (permission_name p) = permission_name p"
proof -
  show t: "trim_text (permission_name p) = permission_name p" by (rule trim_word) (cases p; simp add: ascii_def)
  show "from_name (permission_name p) = Some p"
    unfolding from_name_def t by (cases p) (simp_all add: ALL_PERMISSIONS_def eq_ignore_ascii_case_def ascii_def ascii_lower_def)
qed

lemma read_hosts:
  assumes "list_all (\<lambda>h. h \<noteq> [] \<and> trim_text h = h) hs"
  shows "collect_ok (map (permission_host name) (map Some hs)) = Inr hs"
  using assms by (induction hs) (simp_all add: permission_host_def)

lemma read_declaration:
  assumes "declaration_ok d" "\<not> list_ex (\<lambda>e. pd_permission e = pd_permission d) declared"
  shows "permission_entry declared (node_made (JObject (declaration_members d))) = Inr d"
proof -
  let ?name = "permission_name (pd_permission d)"
  have n: "?name \<noteq> []" by (cases "pd_permission d") (simp_all add: ascii_def)
  have nt: "read_note (Some (pd_note d)) ?name = Inr (pd_note d)"
    using assms(1) by (auto simp: read_note_Inr declaration_ok_def note_ok_def or_default_def)
  have hosts: "collect_ok (map (permission_host ?name \<circ> Some) (pd_hosts d)) = Inr (pd_hosts d)"
    using read_hosts [of "pd_hosts d" ?name] assms(1) by (simp add: declaration_ok_def comp_def)
  show ?thesis
    using assms n nt hosts
    by (auto simp: permission_entry_def is_null_def object_new_def object_members_def object_text_def object_string_list_def
        declaration_get from_permission_name or_default_def declaration_ok_def)
qed

lemma read_declarations:
  "list_all declaration_ok ds \<Longrightarrow> distinct (map pd_permission (declared @ ds)) \<Longrightarrow>
   permission_entries declared (map (\<lambda>d. node_made (JObject (declaration_members d))) ds) = Inr (declared @ ds)"
proof (induction ds arbitrary: declared)
  case (Cons d ds)
  have "\<not> list_ex (\<lambda>e. pd_permission e = pd_permission d) declared" using Cons.prems(2) by (simp add: list_ex_iff) (metis imageI)
  then show ?case using Cons by (simp add: read_declaration)
qed simp

lemma host_parse_text: "host_parse (host_text h) = Some h"
  by (simp add: host_parse_iff)

lemma read_members:
  assumes "manifest_ok windows m"
  shows "read_manifest windows (manifest_members m) = Inr m"
proof -
  note get = manifest_get
  have req: "require (Some t) field = Inr t" if "trim_text t \<noteq> []" for t field using that by (simp add: require_def)
  have entry: "read_entry windows (manifest_members m) = Inr (pm_entry m)"
    using assms by (simp add: read_entry_def get object_text_def req manifest_ok_def)
  have api: "read_api_version (manifest_members m) = Inr (pm_api_version m)"
    using api_parse_iff [of "api_text (pm_api_version m)" "pm_api_version m"] by (simp add: read_api_version_def get)
  have range: "read_host_range (manifest_members m) = Inr (pm_min_host_version m, pm_max_host_version m)"
    using assms by (cases "pm_min_host_version m"; cases "pm_max_host_version m")
      (simp_all add: read_host_range_def get object_text_def version_value_def read_host_version_def host_parse_text
        check_host_range_Inr manifest_ok_def)
  have skips: "object_string_list (manifest_members m) ''skipHostVersions'' = Inr (Some (map (Some \<circ> host_text) (pm_skip_host_versions m)))"
    using read_texts [of "''skipHostVersions''" "map host_text (pm_skip_host_versions m)"]
    by (simp add: object_string_list_def get comp_def)
  have skipped: "collect_ok (map (\<lambda>h. skip_version (Some (host_text h))) hs) = Inr hs" for hs
    by (simp add: skip_version_def host_parse_text)
  have perms: "permissions (manifest_members m) (pm_permissions_version m) = Inr (pm_permissions m)"
    using assms read_declarations [of "pm_permissions m" "[]"]
    by (auto simp: permissions_def get manifest_ok_def PERMISSIONS_VERSION_def)
  have memory: "memory_limit (manifest_members m) = Inr (pm_memory_mib m)"
    using assms by (simp add: memory_limit_def get is_null_def object_new_def object_members_def limit_get uint32_decimal manifest_ok_def)
  have deps: "object_string_list (manifest_members m) ''dependencies'' = Inr (Some (map Some (pm_dependencies m)))"
    by (simp add: object_string_list_def get)
  show ?thesis
    using assms
    by (simp add: read_manifest_def get object_text_def req entry api range skips skipped perms memory deps or_default_def
        read_permissions_version_def uint32_decimal manifest_ok_def comp_def)
qed

text \<open>
  C31. Every manifest that keeps the rules can be written: the document that lists the fields of a
  manifest, as \<open>write_value\<close> writes it, is accepted by the parser on that platform and read back
  to the same manifest, for any folding of letters that is the usual one on ASCII.
\<close>

theorem manifest_round_trip:
  assumes "manifest_ok windows m" "manifest_utf8 m"
    "\<And>s. list_all (\<lambda>b. b < 0x80) s \<Longrightarrow> lowercase s = map ascii_lower s"
  shows "manifest_parse lowercase windows (write_value [] (manifest_document m) 0) = Some (Inr m)"
proof -
  obtain r q where r: "json_parse (write_value [] (manifest_document m) 0) = Done r q" "erase r = erase (manifest_document m)"
    using written_reads [OF document_ok [OF assms(2)]] by blast
  obtain ms where ms: "node_value r = JObject ms" "map erase_member ms = map erase_member (manifest_members m)"
    using r(2) by (cases r; cases "node_value r") (auto simp: manifest_document_def node_made_def)
  have "reject_node lowercase r = Inr ()"
    using document_folds_apart [OF assms(3), of m] objects_erase(2) [of r] objects_erase(2) [of "manifest_document m"] r(2)
    by (simp add: reject_iff) (metis (mono_tags, lifting) comp_apply folds_apart_erase list.pred_map list_all_cong)
  moreover have "read_manifest windows ms = Inr m"
    using read_manifest_erase [of windows ms] read_manifest_erase [of windows "manifest_members m"] ms(2) read_members [OF assms(1)]
    by simp
  ultimately show ?thesis
    using r(1) ms(1) by (simp add: manifest_parse_def manifest_root_def is_null_def object_new_def object_members_def)
qed

text \<open>A short word of visible ASCII characters without a colon is a note.\<close>

lemma contains_head: "contains (c # cs) bs \<Longrightarrow> c \<in> set bs"
  by (induction bs) auto

lemma plain_note:
  assumes "list_all (\<lambda>b. 0x21 \<le> b \<and> b < 0x7F \<and> b \<noteq> 0x3A) bs" "bs \<noteq> []" "length bs \<le> MAX_NOTE_LEN"
  shows "note_ok bs"
proof -
  have w: "0x21 \<le> unat b \<and> unat b < 0x7F \<and> b \<noteq> 0x3A" if "b \<in> set bs" for b
    using assms(1) that by (simp add: list_all_iff byte_nat)
  have "trim_text bs = bs" using assms(1) by (intro trim_word) (auto simp: list_all_iff)
  moreover have "list_all (\<lambda>b. b < 0x80) bs" using w by (fastforce simp: list_all_iff byte_nat)
  then have c: "str_chars bs = map unat bs" by (rule str_chars_ascii)
  moreover have "utf16_count (str_chars bs) = length bs"
  proof -
    have "length (encode_utf16 (unat b)) = 1" if "b \<in> set bs" for b
      using w [OF that] by (simp add: encode_utf16_def)
    then have "map (\<lambda>c. length (encode_utf16 c)) (map unat bs) = replicate (length bs) 1"
      by (simp add: map_replicate_const [symmetric] del: map_replicate_const)
    then show ?thesis unfolding c utf16_count_def by (simp add: sum_list_replicate)
  qed
  moreover have "list_all (\<lambda>c. \<not> is_control c \<and> \<not> is_format_character c) (str_chars bs)"
    unfolding c list.pred_map using w by (fastforce simp: list_all_iff is_control_def is_format_character_def)
  moreover have "\<not> contains (ascii ''://'') bs"
    using contains_head [of "0x3A" "[0x2F, 0x2F]" bs] w by (auto simp: ascii_def)
  ultimately show ?thesis using assms(2,3) by (simp add: note_ok_def)
qed

text \<open>A plugin that reads chat and talks to its backend.\<close>

definition tank_manifest :: plugin_manifest where
  "tank_manifest =
     \<lparr>pm_id = ascii ''edwards.tank'', pm_display_name = ascii ''Tank'', pm_version = ascii ''0.1.0'',
      pm_entry = ascii ''bin/tank.wasm'', pm_api_version = ApiVersion 1 0, pm_dependencies = [ascii ''edwards.base''],
      pm_min_host_version = Some (HostVersion 0 1 5), pm_max_host_version = None,
      pm_skip_host_versions = [HostVersion 0 1 7], pm_permissions_version = 1,
      pm_permissions = [\<lparr>pd_permission = Chat, pd_note = ascii ''Reads.'', pd_hosts = []\<rparr>,
        \<lparr>pd_permission = Network, pd_note = ascii ''Talks.'', pd_hosts = [ascii ''example.org'']\<rparr>],
      pm_memory_mib = 64\<rparr>"

lemma manifest_round_trip_witness:
  "manifest_parse (map ascii_lower) False (write_value [] (manifest_document tank_manifest) 0) = Some (Inr tank_manifest)"
proof (rule manifest_round_trip)
  have trims: "trim_text (ascii t) = ascii t" if "t \<in> set [''edwards.tank'', ''Tank'', ''0.1.0'', ''bin/tank.wasm'', ''Reads.'', ''Talks.'', ''example.org'']" for t
    using that by (intro trim_word) (auto simp: ascii_def)
  have nts: "note_ok (ascii t)" if "t \<in> set [''Reads.'', ''Talks.'']" for t
    using that by (intro plain_note) (auto simp: ascii_def MAX_NOTE_LEN_def)
  have parts: "split_on (is_path_separator False) (ascii ''bin/tank.wasm'') = [ascii ''bin'', ascii ''tank.wasm'']"
    "split_on (\<lambda>b. b = 0x2F \<or> b = 0x5C) (ascii ''bin/tank.wasm'') = [ascii ''bin'', ascii ''tank.wasm'']"
    by (simp_all add: ascii_def is_path_separator_def)
  have "path_components False (ascii ''bin/tank.wasm'') = [NormalPart (ascii ''bin''), NormalPart (ascii ''tank.wasm'')]"
    unfolding path_components_def parts by (simp add: ascii_def part_component_def is_path_separator_def)
  then have "is_wasm_inside_folder False (ascii ''bin/tank.wasm'')"
    unfolding is_wasm_inside_folder_def parts
    by (simp add: path_extension_def path_file_name_def ascii_def eq_ignore_ascii_case_def ascii_lower_def)
  then show "manifest_ok False tank_manifest"
    using trims nts by (simp add: manifest_ok_def tank_manifest_def range_ok_def declaration_ok_def PERMISSIONS_VERSION_def
        MAX_MEMORY_MIB_def) (simp add: ascii_def)
  show "manifest_utf8 tank_manifest"
    by (simp add: manifest_utf8_def tank_manifest_def ascii_def str_ascii_valid)
qed simp

end
