(* ===== verification/Client_Object.thy ===== *)
theory Client_Object
  imports Std_Containers Ieee
begin

text \<open>
  \<open>crates/ac-core/src/items/object.rs\<close> and \<open>house.rs\<close>: one object as the client knows it, the
  description the server sends of it and its property tables. Object ids, bit masks and named
  enumerations are their 32-bit words, the signed integers are integers, a float is its bit
  pattern and a string its bytes; a map iterated in key order is the tree of \<open>Std_Containers\<close>.
\<close>

section \<open>Profiles and properties\<close>

record house_restriction =
  hr_open_to_public :: bool
  hr_allegiance_monarch_id :: u32
  hr_guests :: "(u32, u32) btree"

definition is_allowed_in :: "house_restriction \<Rightarrow> u32 \<Rightarrow> u32 \<Rightarrow> bool" where
  "is_allowed_in house mover_id mover_monarch_id \<longleftrightarrow>
     hr_open_to_public house \<or>
     hr_allegiance_monarch_id house \<noteq> 0 \<and> mover_monarch_id = hr_allegiance_monarch_id house \<or>
     mover_id \<noteq> 0 \<and> bt_get (hr_guests house) mover_id \<noteq> None"

record weapon_profile =
  wp_damage_type :: u32
  wp_weapon_time :: u32
  wp_weapon_skill :: u32
  wp_damage :: u32
  wp_damage_variance :: u64
  wp_damage_mod :: u64
  wp_weapon_length :: u64
  wp_max_velocity :: u64
  wp_weapon_offense :: u64
  wp_max_velocity_estimated :: u32

record creature_attributes =
  ca_strength :: u32
  ca_endurance :: u32
  ca_quickness :: u32
  ca_coordination :: u32
  ca_focus :: u32
  ca_self :: u32
  ca_stamina :: u32
  ca_max_stamina :: u32
  ca_mana :: u32
  ca_max_mana :: u32

record creature_profile =
  cp_flags :: u32
  cp_health :: u32
  cp_max_health :: u32
  cp_attributes :: "creature_attributes option"
  cp_attribute_highlights :: u16
  cp_attribute_colors :: u16

record armor_profile =
  ap_slashing_protection :: u32
  ap_piercing_protection :: u32
  ap_bludgeoning_protection :: u32
  ap_cold_protection :: u32
  ap_fire_protection :: u32
  ap_acid_protection :: u32
  ap_nether_protection :: u32
  ap_lightning_protection :: u32

record object_header =
  oh_weenie_header_flags :: "u32 option"
  oh_weenie_header_flags2 :: "u32 option"
  oh_physics_description_flags :: "u32 option"
  oh_physics_state :: "u32 option"
  oh_object_description_flags :: "u32 option"
  oh_setup_id :: "u32 option"
  oh_scale :: "u32 option"
  oh_hook_type :: "u32 option"
  oh_parent_id :: "u32 option"
  oh_parent_location :: "u32 option"
  oh_use_radius :: "u32 option"

record property_bundle =
  pb_ints :: "(u32, int) btree"
  pb_int64s :: "(u32, int) btree"
  pb_bools :: "(u32, bool) btree"
  pb_floats :: "(u32, u64) btree"
  pb_strings :: "(u32, bytes) btree"
  pb_data_ids :: "(u32, u32) btree"
  pb_instance_ids :: "(u32, u32) btree"

definition empty_bundle :: property_bundle where
  "empty_bundle = \<lparr>pb_ints = [], pb_int64s = [], pb_bools = [], pb_floats = [], pb_strings = [], pb_data_ids = [],
     pb_instance_ids = []\<rparr>"

text \<open>\<open>get_int\<close> and its like; \<open>extend\<close> of a map, and \<open>merge\<close>.\<close>

definition get_or :: "('k, 'v) btree \<Rightarrow> 'k \<Rightarrow> 'v \<Rightarrow> 'v" where
  "get_or m key default_value = (case bt_get m key of None \<Rightarrow> default_value | Some v \<Rightarrow> v)"

definition bt_extend :: "('k::linorder, 'v) btree \<Rightarrow> ('k, 'v) btree \<Rightarrow> ('k, 'v) btree" where
  "bt_extend m incoming = fold (\<lambda>(k, v) m. bt_insert k v m) incoming m"

definition bundle_merge :: "property_bundle \<Rightarrow> property_bundle \<Rightarrow> property_bundle" where
  "bundle_merge incoming b =
     \<lparr>pb_ints = bt_extend (pb_ints b) (pb_ints incoming),
      pb_int64s = bt_extend (pb_int64s b) (pb_int64s incoming),
      pb_bools = bt_extend (pb_bools b) (pb_bools incoming),
      pb_floats = bt_extend (pb_floats b) (pb_floats incoming),
      pb_strings = bt_extend (pb_strings b) (pb_strings incoming),
      pb_data_ids = bt_extend (pb_data_ids b) (pb_data_ids incoming),
      pb_instance_ids = bt_extend (pb_instance_ids b) (pb_instance_ids incoming)\<rparr>"

text \<open>The damage field's unknown marker becomes -1.\<close>

definition normalize_damage :: "u32 \<Rightarrow> int" where
  "normalize_damage damage = (if damage = - 1 then - 1 else sint damage)"

section \<open>Objects\<close>

record client_object =
  ob_object_id :: u32
  ob_identity :: nat
  ob_weenie_class_id :: u32
  ob_name :: bytes
  ob_plural_name :: bytes
  ob_item_type :: u32
  ob_valid_locations :: u32
  ob_currently_equipped_location :: u32
  ob_icon_id :: u32
  ob_icon_underlay_id :: u32
  ob_icon_overlay_id :: u32
  ob_effects :: u32
  ob_stack_size :: int
  ob_stack_size_max :: int
  ob_burden :: int
  ob_value :: int
  ob_container_id :: u32
  ob_container_slot :: int
  ob_container_type_hint :: u32
  ob_attuned :: bool
  ob_bonded :: bool
  ob_wielder_id :: u32
  ob_items_capacity :: int
  ob_containers_capacity :: int
  ob_hook_item_types :: u32
  ob_hook_type :: u32
  ob_priority :: u32
  ob_useability :: "u32 option"
  ob_target_type :: "u32 option"
  ob_public_weenie_bitfield :: "u32 option"
  ob_pet_owner_id :: u32
  ob_combat_use :: "u8 option"
  ob_ammo_type :: "u16 option"
  ob_spell_id :: "u32 option"
  ob_appraised_spell_ids :: "u32 list"
  ob_last_appraisal_time_ms :: int
  ob_appraisal_answered :: bool
  ob_last_appraisal_unsuccessful :: bool
  ob_last_appraisal_unsuccessful_at_seconds :: u64
  ob_weapon_profile :: "weapon_profile option"
  ob_armor_profile :: "armor_profile option"
  ob_creature_profile :: "creature_profile option"
  ob_cooldown_id :: "u32 option"
  ob_cooldown_duration :: "u64 option"
  ob_trade_state :: int
  ob_sell_state :: int
  ob_is_component_pack :: bool
  ob_radar_blip_color :: "u8 option"
  ob_radar_behavior :: "u8 option"
  ob_structure :: int
  ob_max_structure :: int
  ob_workmanship :: u32
  ob_material_type :: "u32 option"
  ob_house_owner_id :: "u32 option"
  ob_monarch_id :: "u32 option"
  ob_restrictions :: "house_restriction option"
  ob_properties :: property_bundle
  ob_header :: "object_header option"

record weenie_data =
  wd_guid :: u32
  wd_name :: "bytes option"
  wd_item_type :: "u32 option"
  wd_weenie_class_id :: u32
  wd_icon_id :: u32
  wd_icon_overlay_id :: u32
  wd_icon_underlay_id :: u32
  wd_effects :: u32
  wd_value :: "int option"
  wd_stack_size :: "int option"
  wd_stack_size_max :: "int option"
  wd_burden :: "int option"
  wd_container_id :: "u32 option"
  wd_wielder_id :: "u32 option"
  wd_valid_locations :: "u32 option"
  wd_current_wielded_location :: "u32 option"
  wd_priority :: "u32 option"
  wd_items_capacity :: "int option"
  wd_containers_capacity :: "int option"
  wd_structure :: "int option"
  wd_max_structure :: "int option"
  wd_workmanship :: "u32 option"
  wd_useability :: "u32 option"
  wd_target_type :: "u32 option"
  wd_radar_blip_color :: "u8 option"
  wd_radar_behavior :: "u8 option"
  wd_public_weenie_bitfield :: "u32 option"
  wd_combat_use :: "u8 option"
  wd_plural_name :: "bytes option"
  wd_pet_owner_id :: "u32 option"
  wd_ammo_type :: "u16 option"
  wd_spell_id :: "u32 option"
  wd_cooldown_id :: "u32 option"
  wd_cooldown_duration :: "u64 option"
  wd_hook_item_types :: "u32 option"
  wd_hook_type :: "u32 option"
  wd_material_type :: "u32 option"
  wd_house_owner_id :: "u32 option"
  wd_monarch_id :: "u32 option"
  wd_restrictions :: "house_restriction option"
  wd_header :: "object_header option"

definition client_object_new :: "u32 \<Rightarrow> client_object" where
  "client_object_new object_id =
     \<lparr>ob_object_id = object_id, ob_identity = 0, ob_weenie_class_id = 0, ob_name = [],
      ob_plural_name = [], ob_item_type = 0, ob_valid_locations = 0, ob_currently_equipped_location = 0,
      ob_icon_id = 0, ob_icon_underlay_id = 0, ob_icon_overlay_id = 0, ob_effects = 0, ob_stack_size = 1,
      ob_stack_size_max = 1, ob_burden = 0, ob_value = 0, ob_container_id = 0, ob_container_slot = - 1,
      ob_container_type_hint = 0, ob_attuned = False, ob_bonded = False, ob_wielder_id = 0,
      ob_items_capacity = 0, ob_containers_capacity = 0, ob_hook_item_types = 0, ob_hook_type = 0,
      ob_priority = 0, ob_useability = None, ob_target_type = None, ob_public_weenie_bitfield = None,
      ob_pet_owner_id = 0, ob_combat_use = None, ob_ammo_type = None, ob_spell_id = None,
      ob_appraised_spell_ids = [], ob_last_appraisal_time_ms = 0, ob_appraisal_answered = False,
      ob_last_appraisal_unsuccessful = False, ob_last_appraisal_unsuccessful_at_seconds = 0,
      ob_weapon_profile = None, ob_armor_profile = None, ob_creature_profile = None,
      ob_cooldown_id = None, ob_cooldown_duration = None, ob_trade_state = 0, ob_sell_state = 0,
      ob_is_component_pack = False, ob_radar_blip_color = None, ob_radar_behavior = None,
      ob_structure = 0, ob_max_structure = 0, ob_workmanship = 0, ob_material_type = None,
      ob_house_owner_id = None, ob_monarch_id = None, ob_restrictions = None,
      ob_properties = empty_bundle, ob_header = None\<rparr>"

definition is_hook :: "client_object \<Rightarrow> bool" where
  "is_hook item \<longleftrightarrow> ob_hook_type item \<noteq> 0 \<and> ob_hook_item_types item \<noteq> 0"

definition or_zero :: "'a::zero option \<Rightarrow> 'a" where
  "or_zero v = (case v of None \<Rightarrow> 0 | Some x \<Rightarrow> x)"

definition object_flags :: "client_object \<Rightarrow> u32" where
  "object_flags item = or_zero (ob_public_weenie_bitfield item)"

section \<open>Player-killer status\<close>

definition PK :: int where "PK = 0x04"
definition PK_FREE :: int where "PK_FREE = 0x20"
definition PK_LITE :: int where "PK_LITE = 0x40"

definition pk_apply :: "u32 \<Rightarrow> int \<Rightarrow> u32" where
  "pk_apply bitfield status =
     (if status = PK then (bitfield AND 0xFDDFFFFF) OR 0x20
      else if status = PK_LITE then (bitfield AND 0xFFDFFFDF) OR 0x2000000
      else if status = PK_FREE then (bitfield AND 0xFDFFFFDF) OR 0x200000
      else bitfield AND 0xFDDFFFDF)"

end
