(* ===== verification/Object_Index.thy ===== *)
theory Object_Index
  imports Client_Object
begin

text \<open>
  The lists of \<open>crates/ac-core/src/items/table.rs\<close>: where an object is, what the table announces,
  and the functions that keep the contents list of each container and the equipment list of each
  wielder. Slots are integers: a list is shorter than \<open>2 ^ 31\<close> entries.
\<close>

section \<open>Placements\<close>

record content_entry =
  ce_guid :: u32
  ce_container_type :: u32

record equipment_entry =
  ee_guid :: u32
  ee_equip_location :: u32
  ee_priority :: u32

record object_placement =
  pc_container_id :: u32
  pc_container_slot :: int
  pc_wielder_id :: u32
  pc_equip_location :: u32

definition placement_default :: object_placement where
  "placement_default = \<lparr>pc_container_id = 0, pc_container_slot = 0, pc_wielder_id = 0, pc_equip_location = 0\<rparr>"

definition placement_of :: "client_object \<Rightarrow> object_placement" where
  "placement_of item =
     \<lparr>pc_container_id = ob_container_id item, pc_container_slot = ob_container_slot item,
      pc_wielder_id = ob_wielder_id item, pc_equip_location = ob_currently_equipped_location item\<rparr>"

definition in_container :: "u32 \<Rightarrow> int \<Rightarrow> object_placement" where
  "in_container container_id container_slot =
     \<lparr>pc_container_id = container_id, pc_container_slot = container_slot, pc_wielder_id = 0, pc_equip_location = 0\<rparr>"

definition place_object :: "object_placement \<Rightarrow> client_object \<Rightarrow> client_object" where
  "place_object p item =
     item\<lparr>ob_container_id := pc_container_id p, ob_container_slot := pc_container_slot p,
          ob_wielder_id := pc_wielder_id p, ob_currently_equipped_location := pc_equip_location p\<rparr>"

section \<open>Events\<close>

datatype move_origin = LocalProjection | ServerRollbackProjection | AuthoritativeResponse

record object_move =
  om_item_id :: u32
  om_identity :: "nat option"
  om_previous :: object_placement
  om_current :: object_placement
  om_origin :: move_origin

datatype removal_reason = OrdinaryRemoval | LogicalDelete | GenerationReplacement

record move_request_failure =
  mf_item_id :: u32
  mf_weenie_error :: u32
  mf_rolled_back :: bool

datatype table_event =
    ObjectAdded u32 nat
  | ObjectUpdated u32 nat
  | ObjectMoved object_move
  | ContainerContentsReplaced u32
  | ContentsViewEnded u32 "u32 list" bool
  | MoveRolledBack u32 nat
  | WieldConfirmed u32
  | MoveRequestFailed move_request_failure
  | ObjectRemoved client_object removal_reason u16
  | StackSizeUpdated u32 nat
  | TableCleared

record appraisal_update =
  au_properties :: property_bundle
  au_spell_ids :: "u32 list"
  au_received_at_seconds :: u64
  au_weapon_profile :: "weapon_profile option"
  au_armor_profile :: "armor_profile option"
  au_creature_profile :: "creature_profile option"

section \<open>Lists\<close>

type_synonym contents_index = "(u32, u32 list) btree"
type_synonym objects = "(u32, client_object) btree"

definition ITEM_TYPE_CONTAINER :: u32 where "ITEM_TYPE_CONTAINER = 0x200"

definition is_container_list_member :: "client_object \<Rightarrow> bool" where
  "is_container_list_member item \<longleftrightarrow>
     ob_container_type_hint item \<noteq> 0 \<or> ob_item_type item AND ITEM_TYPE_CONTAINER \<noteq> 0 \<or> ob_items_capacity item > 0"

definition equipment_owner :: "object_placement \<Rightarrow> u32" where
  "equipment_owner p =
     (if pc_equip_location p = 0 then 0
      else if pc_wielder_id p \<noteq> 0 then pc_wielder_id p else pc_container_id p)"

definition list_or_default :: "contents_index \<Rightarrow> u32 \<Rightarrow> u32 list" where
  "list_or_default index k = (case bt_get index k of None \<Rightarrow> [] | Some xs \<Rightarrow> xs)"

text \<open>The changed containers come in ascending order, as the map is iterated.\<close>

definition remove_from_other_container_indexes ::
    "contents_index \<Rightarrow> u32 \<Rightarrow> u32 \<Rightarrow> contents_index \<times> u32 list" where
  "remove_from_other_container_indexes index item_id except =
     (map (\<lambda>(c, members). (c, if c = except then members else remove1 item_id members)) index,
      map fst (filter (\<lambda>(c, members). c \<noteq> except \<and> item_id \<in> set members) index))"

fun renumber_container_category ::
    "objects \<Rightarrow> u32 list \<Rightarrow> bool \<Rightarrow> (u32 \<times> int) option \<Rightarrow> int \<Rightarrow> objects" where
  "renumber_container_category objs [] is_container preserved slot = objs"
| "renumber_container_category objs (k # ks) is_container preserved slot =
     (case bt_get objs k of
        Some member \<Rightarrow>
          if is_container_list_member member = is_container
          then renumber_container_category
                 (bt_insert k (member\<lparr>ob_container_slot :=
                    (case preserved of Some (p, s) \<Rightarrow> if p = k then s else slot | None \<Rightarrow> slot)\<rparr>) objs)
                 ks is_container preserved (slot + 1)
          else renumber_container_category objs ks is_container preserved slot
      | None \<Rightarrow> renumber_container_category objs ks is_container preserved slot)"

fun remove_from_all_container_indexes ::
    "contents_index \<Rightarrow> objects \<Rightarrow> u32 \<Rightarrow> u32 \<Rightarrow> bool \<Rightarrow> contents_index \<times> objects \<times> u32 list" where
  "remove_from_all_container_indexes [] objs item_id destination was_container = ([], objs, [])"
| "remove_from_all_container_indexes ((c, members) # index) objs item_id destination was_container =
     (if item_id \<notin> set members
      then (let (index', objs', changed) = remove_from_all_container_indexes index objs item_id destination was_container
            in ((c, members) # index', objs', changed))
      else (let members' = remove1 item_id members;
                objs1 = renumber_container_category objs members' was_container None 0;
                (index', objs', changed) = remove_from_all_container_indexes index objs1 item_id destination was_container
            in ((c, members') # index', objs', if c \<noteq> destination then c # changed else changed)))"

text \<open>The scan for the place of a new member: the members of its own category counted, and the
  index to insert at.\<close>

fun insertion_scan :: "objects \<Rightarrow> bool \<Rightarrow> int \<Rightarrow> u32 list \<Rightarrow> nat \<Rightarrow> int \<Rightarrow> nat \<Rightarrow> int \<times> nat" where
  "insertion_scan objs is_container requested [] i count at = (count, at)"
| "insertion_scan objs is_container requested (k # ks) i count at =
     (case bt_get objs k of
        None \<Rightarrow> insertion_scan objs is_container requested ks (i + 1) count at
      | Some existing \<Rightarrow>
          if is_container_list_member existing \<noteq> is_container
          then insertion_scan objs is_container requested ks (i + 1) count at
          else if count = requested then (count, i)
          else insertion_scan objs is_container requested ks (i + 1) (count + 1) (i + 1))"

definition insert_at :: "nat \<Rightarrow> 'a \<Rightarrow> 'a list \<Rightarrow> 'a list" where
  "insert_at i x xs = take i xs @ x # drop i xs"

definition insert_container_member :: "contents_index \<Rightarrow> objects \<Rightarrow> u32 \<Rightarrow> int \<Rightarrow> contents_index \<times> objects" where
  "insert_container_member index objs item_id requested_slot =
     (case bt_get objs item_id of
        None \<Rightarrow> (index, objs)
      | Some item \<Rightarrow>
          let container_id = ob_container_id item;
              is_container = is_container_list_member item;
              members = list_or_default index container_id;
              requested = (if requested_slot < 0 then 2 ^ 31 - 1 else requested_slot);
              (count, at) = insertion_scan objs is_container requested members 0 0 (length members);
              members = insert_at at item_id members;
              published = (if requested_slot < 0 then count else requested_slot)
          in (bt_insert container_id members index,
              renumber_container_category objs members is_container (Some (item_id, published)) 0))"

definition slot_key :: "objects \<Rightarrow> u32 \<Rightarrow> int" where
  "slot_key objs k =
     (case bt_get objs k of
        Some member \<Rightarrow> if ob_container_slot member \<ge> 0 then ob_container_slot member else 2 ^ 31 - 1
      | None \<Rightarrow> 2 ^ 31 - 1)"

definition leave_list :: "u32 \<Rightarrow> u32 \<Rightarrow> contents_index \<Rightarrow> contents_index" where
  "leave_list container_id item_id index =
     (case bt_get index container_id of
        None \<Rightarrow> index
      | Some xs \<Rightarrow> bt_insert container_id (filter (\<lambda>id. id \<noteq> item_id) xs) index)"

definition reindex :: "contents_index \<Rightarrow> objects \<Rightarrow> u32 \<Rightarrow> u32 \<Rightarrow> contents_index" where
  "reindex index objs item_id old_container_id =
     (case bt_get objs item_id of
        None \<Rightarrow> index
      | Some item \<Rightarrow>
          let container_id = ob_container_id item;
              index = (if old_container_id \<noteq> container_id \<and> old_container_id \<noteq> 0
                       then leave_list old_container_id item_id index else index)
          in if container_id \<noteq> 0
             then (let xs = list_or_default index container_id;
                       xs = (if item_id \<in> set xs then xs else xs @ [item_id])
                   in bt_insert container_id (sort_key (slot_key objs) xs) index)
             else index)"

fun renumber_container :: "objects \<Rightarrow> u32 list \<Rightarrow> int \<Rightarrow> objects" where
  "renumber_container objs [] slot = objs"
| "renumber_container objs (k # ks) slot =
     renumber_container
       (case bt_get objs k of None \<Rightarrow> objs | Some member \<Rightarrow> bt_insert k (member\<lparr>ob_container_slot := slot\<rparr>) objs)
       ks (slot + 1)"

definition update_equipment_index ::
    "contents_index \<Rightarrow> u32 \<Rightarrow> object_placement \<Rightarrow> object_placement \<Rightarrow> contents_index" where
  "update_equipment_index index item_id previous current =
     (if previous = current then index
      else
        let previous_owner = equipment_owner previous;
            index = (if previous_owner = 0 then index
                     else case bt_get index previous_owner of
                       None \<Rightarrow> index
                     | Some xs \<Rightarrow>
                         let xs = filter (\<lambda>id. id \<noteq> item_id) xs
                         in if xs = [] then bt_remove previous_owner index else bt_insert previous_owner xs index);
            current_owner = equipment_owner current
        in if current_owner = 0 then index
           else bt_insert current_owner (item_id # filter (\<lambda>id. id \<noteq> item_id) (list_or_default index current_owner)) index)"

definition remove_equipment_index_membership :: "contents_index \<Rightarrow> u32 \<Rightarrow> contents_index" where
  "remove_equipment_index_membership index item_id =
     filter (\<lambda>(_, xs). xs \<noteq> []) (map (\<lambda>(k, xs). (k, filter (\<lambda>id. id \<noteq> item_id) xs)) index)"

text \<open>Each changed container is announced once, where it first occurs.\<close>

fun published_once :: "u32 list \<Rightarrow> u32 list \<Rightarrow> table_event list" where
  "published_once seen [] = []"
| "published_once seen (c # cs) =
     (if c \<in> set seen then published_once seen cs
      else ContainerContentsReplaced c # published_once (c # seen) cs)"

definition publish_container_contents_changes :: "u32 list \<Rightarrow> table_event list" where
  "publish_container_contents_changes changed = published_once [] changed"

end
