(* ===== verification/Object_Table.thy ===== *)
theory Object_Table
  imports Object_Index
begin

text \<open>
  \<open>crates/ac-core/src/items/table.rs\<close>: the object table. Every operation takes the table and
  returns it changed, with the events it appends to the caller's list and its result. The counters
  of identities and outstanding moves are natural numbers.
\<close>

section \<open>The table\<close>

record object_table =
  ot_objects :: objects
  ot_container_index :: contents_index
  ot_described_containers :: "u32 set"
  ot_equipment_index :: contents_index
  ot_pending_moves :: "(u32, object_placement \<times> nat) hmap"
  ot_pending_unresolved :: "(u32, object_placement \<times> u32 option) hmap"
  ot_next_identity :: nat
  ot_mutation_revision :: u64
  ot_clears :: u64

definition table_new :: object_table where
  "table_new =
     \<lparr>ot_objects = [], ot_container_index = [], ot_described_containers = {}, ot_equipment_index = [],
      ot_pending_moves = [], ot_pending_unresolved = [], ot_next_identity = 0, ot_mutation_revision = 0, ot_clears = 0\<rparr>"

definition bumps_revision :: "table_event \<Rightarrow> bool" where
  "bumps_revision e =
     (case e of ObjectAdded _ _ \<Rightarrow> True | ObjectUpdated _ _ \<Rightarrow> True | ObjectMoved _ \<Rightarrow> True
      | ObjectRemoved _ _ _ \<Rightarrow> True | TableCleared \<Rightarrow> True | _ \<Rightarrow> False)"

definition bump :: "nat \<Rightarrow> object_table \<Rightarrow> object_table" where
  "bump n t = t\<lparr>ot_mutation_revision := ot_mutation_revision t + word_of_nat n\<rparr>"

definition emit :: "table_event \<Rightarrow> object_table \<Rightarrow> object_table \<times> table_event list" where
  "emit e t = (if bumps_revision e then bump 1 t else t, [e])"

text \<open>The object with a guid, and the record put back after a change.\<close>

definition table_get :: "object_table \<Rightarrow> u32 \<Rightarrow> client_object option" where
  "table_get t object_id = bt_get (ot_objects t) object_id"

definition put_object :: "u32 \<Rightarrow> client_object \<Rightarrow> object_table \<Rightarrow> object_table" where
  "put_object object_id item t = t\<lparr>ot_objects := bt_insert object_id item (ot_objects t)\<rparr>"

section \<open>Reading the table\<close>

definition get_contents :: "object_table \<Rightarrow> u32 \<Rightarrow> u32 list" where
  "get_contents t container_id = list_or_default (ot_container_index t) container_id"

definition get_contained_items :: "object_table \<Rightarrow> u32 \<Rightarrow> u32 list" where
  "get_contained_items t container_id =
     filter (\<lambda>k. case table_get t k of None \<Rightarrow> False | Some member \<Rightarrow> \<not> is_container_list_member member)
       (get_contents t container_id)"

definition contents_list :: "object_table \<Rightarrow> u32 \<Rightarrow> u32 list option" where
  "contents_list t container_id = bt_get (ot_container_index t) container_id"

definition set_contents_list :: "u32 \<Rightarrow> u32 list option \<Rightarrow> object_table \<Rightarrow> object_table" where
  "set_contents_list container_id xs t =
     (case xs of
        Some xs \<Rightarrow> t\<lparr>ot_container_index := bt_insert container_id xs (ot_container_index t)\<rparr>
      | None \<Rightarrow> t\<lparr>ot_container_index := bt_remove container_id (ot_container_index t),
                 ot_described_containers := ot_described_containers t - {container_id}\<rparr>)"

definition is_focus :: "client_object \<Rightarrow> bool" where
  "is_focus item \<longleftrightarrow> ob_container_type_hint item = 2"

text \<open>The containers among a contents list, or none when one of its objects is not known.\<close>

fun packs_of :: "object_table \<Rightarrow> u32 list \<Rightarrow> u32 list option" where
  "packs_of t [] = Some []"
| "packs_of t (k # ks) =
     (case table_get t k of
        None \<Rightarrow> None
      | Some item \<Rightarrow>
          map_option (\<lambda>packs. if is_container_list_member item \<and> \<not> is_focus item then k # packs else packs) (packs_of t ks))"

lemma unvisited_less:
  assumes "k \<in> set ks" "k \<notin> set visited"
  shows "length (filter (\<lambda>k'. k' \<notin> set (k # visited)) ks) < length (filter (\<lambda>k'. k' \<notin> set visited) ks)"
proof -
  have "filter (\<lambda>k'. k' \<notin> set (k # visited)) ks = filter (\<lambda>k'. k' \<noteq> k) (filter (\<lambda>k'. k' \<notin> set visited) ks)"
    by (simp add: conj_commute)
  moreover have "k \<in> set (filter (\<lambda>k'. k' \<notin> set visited) ks)" using assms by simp
  ultimately show ?thesis by (metis (mono_tags, lifting) length_filter_less)
qed

text \<open>The loop of \<open>has_complete_inventory\<close>; the stack's top is its head.\<close>

function complete_loop :: "object_table \<Rightarrow> u32 list \<Rightarrow> u32 list \<Rightarrow> bool" where
  "complete_loop t [] visited = True"
| "complete_loop t (container # pending) visited =
     (if container \<in> set visited \<or> container \<notin> ot_described_containers t then False
      else case contents_list t container of
        None \<Rightarrow> False
      | Some contents \<Rightarrow>
          (case packs_of t contents of
             None \<Rightarrow> False
           | Some packs \<Rightarrow> complete_loop t (rev packs @ pending) (container # visited)))"
  by pat_completeness auto

termination
proof (relation "measure (\<lambda>(t, pending, visited). length (filter (\<lambda>k. k \<notin> set visited) (bt_keys (ot_container_index t))))", goal_cases)
  case (2 t container pending visited contents packs)
  have "container \<in> set (bt_keys (ot_container_index t))"
    using 2(2) by (force simp: contents_list_def bt_get_def bt_keys_def dest: map_of_SomeD)
  then show ?case using 2(1) unvisited_less [of container _ visited] by simp
qed simp

definition has_complete_inventory :: "object_table \<Rightarrow> u32 \<Rightarrow> bool" where
  "has_complete_inventory t owner_id =
     (if owner_id = 0 \<or> ot_pending_moves t \<noteq> [] then False else complete_loop t [owner_id] [])"

definition get_equipped_by :: "object_table \<Rightarrow> u32 \<Rightarrow> client_object list" where
  "get_equipped_by t wielder_id =
     filter (\<lambda>item. ob_currently_equipped_location item \<noteq> 0 \<and>
         (ob_wielder_id item = wielder_id \<or> ob_container_id item = wielder_id))
       (List.map_filter (table_get t) (list_or_default (ot_equipment_index t) wielder_id))"

definition is_owned_by_object :: "object_table \<Rightarrow> u32 \<Rightarrow> u32 \<Rightarrow> bool" where
  "is_owned_by_object t object_id owner_id =
     (if owner_id = 0 then False
      else case table_get t object_id of
        None \<Rightarrow> False
      | Some item \<Rightarrow>
          if ob_object_id item = owner_id \<or> ob_container_id item = owner_id \<or> ob_wielder_id item = owner_id then True
          else if table_get t owner_id = None then False
          else if ob_container_id item \<noteq> 0 \<and> ob_container_id item \<in> set (list_or_default (ot_container_index t) owner_id)
          then True
          else ob_object_id item \<in> set (list_or_default (ot_equipment_index t) owner_id))"

fun carried_loop :: "object_table \<Rightarrow> u32 \<Rightarrow> nat \<Rightarrow> u32 \<Rightarrow> bool" where
  "carried_loop t owner 0 container = False"
| "carried_loop t owner (Suc n) container =
     (if container = 0 then False
      else if container = owner then True
      else carried_loop t owner n (case table_get t container of None \<Rightarrow> 0 | Some c \<Rightarrow> ob_container_id c))"

definition is_carried_by :: "object_table \<Rightarrow> client_object \<Rightarrow> u32 \<Rightarrow> bool" where
  "is_carried_by t item owner \<longleftrightarrow> ob_wielder_id item = owner \<or> carried_loop t owner 8 (ob_container_id item)"

text \<open>A sum of 32-bit integers that wraps.\<close>

definition sum_carried_burden :: "object_table \<Rightarrow> u32 \<Rightarrow> int" where
  "sum_carried_burden t owner =
     sint (foldl (\<lambda>total item. total + word_of_int (ob_burden item) :: u32) 0
       (filter (\<lambda>item. is_carried_by t item owner) (map snd (ot_objects t))))"

section \<open>Records\<close>

text \<open>Something the server says about the object overturns an earlier refused appraisal.\<close>

definition server_showed_object :: "client_object \<Rightarrow> client_object" where
  "server_showed_object item = item\<lparr>ob_last_appraisal_unsuccessful := False\<rparr>"

definition fresh_identity :: "object_table \<Rightarrow> nat \<times> object_table" where
  "fresh_identity t = (ot_next_identity t + 1, t\<lparr>ot_next_identity := ot_next_identity t + 1\<rparr>)"

text \<open>\<open>ensure_record\<close>: the record, whether it existed, and the table that holds it.\<close>

definition ensure_record :: "u32 \<Rightarrow> object_table \<Rightarrow> client_object \<times> bool \<times> object_table" where
  "ensure_record object_id t =
     (case table_get t object_id of
        Some item \<Rightarrow> (item, True, t)
      | None \<Rightarrow>
          let (identity, t) = fresh_identity t;
              item = (client_object_new object_id)\<lparr>ob_identity := identity\<rparr>
          in (item, False, put_object object_id item t))"

definition identity_of :: "object_table \<Rightarrow> u32 \<Rightarrow> nat" where
  "identity_of t object_id = (case table_get t object_id of None \<Rightarrow> 0 | Some item \<Rightarrow> ob_identity item)"

definition emit_added_or_updated :: "u32 \<Rightarrow> bool \<Rightarrow> object_table \<Rightarrow> object_table \<times> table_event list" where
  "emit_added_or_updated object_id existed t =
     emit (if existed then ObjectUpdated object_id (identity_of t object_id)
           else ObjectAdded object_id (identity_of t object_id)) t"

definition emit_updated :: "u32 \<Rightarrow> object_table \<Rightarrow> object_table \<times> table_event list" where
  "emit_updated object_id t = emit_added_or_updated object_id True t"

definition add_or_update :: "client_object \<Rightarrow> object_table \<Rightarrow> nat \<times> object_table \<times> table_event list" where
  "add_or_update item t =
     (let object_id = ob_object_id item;
          prior = table_get t object_id;
          previous = (case prior of None \<Rightarrow> placement_default | Some p \<Rightarrow> placement_of p);
          (identity, t) = fresh_identity t;
          item = item\<lparr>ob_identity := identity\<rparr>;
          t = put_object object_id item t;
          t = t\<lparr>ot_equipment_index := update_equipment_index (ot_equipment_index t) object_id previous (placement_of item)\<rparr>;
          (t, events) = emit_added_or_updated object_id (prior \<noteq> None) t
      in (identity, t, events))"

section \<open>Placing objects\<close>

definition publish_placement_change ::
    "u32 \<Rightarrow> object_placement \<Rightarrow> move_origin \<Rightarrow> object_table \<Rightarrow> object_table \<times> table_event list" where
  "publish_placement_change item_id previous origin t =
     (case table_get t item_id of
        None \<Rightarrow> (t, [])
      | Some item \<Rightarrow>
          let current = placement_of item;
              t = t\<lparr>ot_equipment_index := update_equipment_index (ot_equipment_index t) item_id previous current\<rparr>
          in emit (ObjectMoved \<lparr>om_item_id = item_id, om_identity = Some (ob_identity item), om_previous = previous,
                    om_current = current, om_origin = origin\<rparr>) t)"

text \<open>The object takes the placement and the hint; the lists it leaves, the list it joins.\<close>

definition hinted :: "u32 option \<Rightarrow> client_object \<Rightarrow> client_object" where
  "hinted hint item = (case hint of None \<Rightarrow> item | Some h \<Rightarrow> item\<lparr>ob_container_type_hint := h\<rparr>)"

definition leave_lists :: "u32 \<Rightarrow> client_object \<Rightarrow> u32 \<Rightarrow> bool \<Rightarrow> object_table \<Rightarrow> u32 list \<times> object_table" where
  "leave_lists item_id item destination retail_container_insert t =
     (if retail_container_insert
      then (let (index, objs, changed) = remove_from_all_container_indexes (ot_container_index t) (ot_objects t)
                  item_id destination (is_container_list_member item)
            in (changed, t\<lparr>ot_container_index := index, ot_objects := objs\<rparr>))
      else (let (index, changed) = remove_from_other_container_indexes (ot_container_index t) item_id destination
            in (changed, t\<lparr>ot_container_index := index\<rparr>)))"

definition join_list :: "u32 \<Rightarrow> object_placement \<Rightarrow> u32 \<Rightarrow> bool \<Rightarrow> object_table \<Rightarrow> object_table" where
  "join_list item_id current previous_container retail_container_insert t =
     (if retail_container_insert \<and> pc_container_id current \<noteq> 0
      then (let (index, objs) = insert_container_member (ot_container_index t) (ot_objects t) item_id (pc_container_slot current)
            in t\<lparr>ot_container_index := index, ot_objects := objs\<rparr>)
      else t\<lparr>ot_container_index := reindex (ot_container_index t) (ot_objects t) item_id previous_container\<rparr>)"

definition apply_placement ::
    "u32 \<Rightarrow> object_placement \<Rightarrow> u32 option \<Rightarrow> move_origin \<Rightarrow> bool \<Rightarrow> object_table \<Rightarrow> bool \<times> object_table \<times> table_event list" where
  "apply_placement item_id current hint origin retail_container_insert t =
     (case table_get t item_id of
        None \<Rightarrow> (False, t, [])
      | Some item \<Rightarrow>
          let previous = placement_of item;
              (changed, t) = leave_lists item_id item (pc_container_id current) retail_container_insert t
          in case table_get t item_id of
               None \<Rightarrow> (False, t, [])
             | Some item \<Rightarrow>
                 let t = put_object item_id (hinted hint (place_object current item)) t;
                     t = join_list item_id current (pc_container_id previous) retail_container_insert t;
                     (t, events) = publish_placement_change item_id previous origin t
                 in (True, t, events @ publish_container_contents_changes changed))"

definition move_item ::
    "u32 \<Rightarrow> u32 \<Rightarrow> int \<Rightarrow> u32 \<Rightarrow> u32 option \<Rightarrow> object_table \<Rightarrow> bool \<times> object_table \<times> table_event list" where
  "move_item item_id new_container_id new_slot new_equip_location hint t =
     (case table_get t item_id of
        None \<Rightarrow> (False, t, [])
      | Some item \<Rightarrow>
          apply_placement item_id
            \<lparr>pc_container_id = new_container_id, pc_container_slot = new_slot, pc_wielder_id = ob_wielder_id item,
             pc_equip_location = new_equip_location\<rparr>
            hint LocalProjection False t)"

definition apply_server_move ::
    "u32 \<Rightarrow> object_placement \<Rightarrow> u32 option \<Rightarrow> object_table \<Rightarrow> bool \<times> object_table \<times> table_event list" where
  "apply_server_move item_id placement hint t =
     (case table_get t item_id of
        None \<Rightarrow> (False, t, [])
      | Some item \<Rightarrow>
          apply_placement item_id placement hint AuthoritativeResponse True (put_object item_id (server_showed_object item) t))"

section \<open>Moves ahead of the server\<close>

definition confirm_move :: "u32 \<Rightarrow> object_table \<Rightarrow> object_table" where
  "confirm_move item_id t =
     (case hm_get (ot_pending_moves t) item_id of
        None \<Rightarrow> t
      | Some (placement, outstanding) \<Rightarrow>
          if outstanding \<le> 1 then t\<lparr>ot_pending_moves := hm_remove item_id (ot_pending_moves t)\<rparr>
          else t\<lparr>ot_pending_moves := hm_insert item_id (placement, outstanding - 1) (ot_pending_moves t)\<rparr>)"

definition unresolved_move :: "u32 \<Rightarrow> object_placement \<Rightarrow> table_event" where
  "unresolved_move item_id placement =
     ObjectMoved \<lparr>om_item_id = item_id, om_identity = None, om_previous = placement_default, om_current = placement,
       om_origin = AuthoritativeResponse\<rparr>"

definition apply_confirmed_server_move ::
    "u32 \<Rightarrow> object_placement \<Rightarrow> u32 option \<Rightarrow> object_table \<Rightarrow> bool \<times> object_table \<times> table_event list" where
  "apply_confirmed_server_move item_id placement hint t =
     (let t = confirm_move item_id t;
          (applied, t, events) = apply_server_move item_id placement hint t
      in if applied then (True, t, events)
         else
           let t = (if item_id \<noteq> 0 \<and> pc_container_id placement \<noteq> 0 \<and> table_get t item_id = None
                    then t\<lparr>ot_pending_unresolved := hm_insert item_id (placement, hint) (ot_pending_unresolved t)\<rparr> else t);
               (t, moved) = emit (unresolved_move item_id placement) t
           in (False, t, events @ moved))"

definition apply_confirmed_server_wield ::
    "u32 \<Rightarrow> u32 \<Rightarrow> u32 \<Rightarrow> object_table \<Rightarrow> bool \<times> object_table \<times> table_event list" where
  "apply_confirmed_server_wield item_id wielder_id equip_location t =
     (let t = confirm_move item_id t;
          placement = \<lparr>pc_container_id = 0, pc_container_slot = 0, pc_wielder_id = wielder_id, pc_equip_location = equip_location\<rparr>
      in case table_get t item_id of
           None \<Rightarrow> (let (t, events) = emit (unresolved_move item_id placement) t in (False, t, events @ [WieldConfirmed item_id]))
         | Some item \<Rightarrow>
             let (applied, t, events) = apply_placement item_id placement None AuthoritativeResponse False
                   (put_object item_id (server_showed_object item) t)
             in if applied then (True, t, events @ [WieldConfirmed item_id]) else (False, t, events))"

definition record_pending :: "u32 \<Rightarrow> object_table \<Rightarrow> object_table" where
  "record_pending item_id t =
     (case table_get t item_id of
        None \<Rightarrow> t
      | Some item \<Rightarrow>
          t\<lparr>ot_pending_moves := hm_insert item_id
              (case hm_get (ot_pending_moves t) item_id of
                 Some (placement, outstanding) \<Rightarrow> (placement, outstanding + 1)
               | None \<Rightarrow> (placement_of item, 1)) (ot_pending_moves t)\<rparr>)"

text \<open>The list the object leaves closes up; the list it joins opens at the slot.\<close>

definition leave_source :: "u32 \<Rightarrow> u32 \<Rightarrow> u32 \<Rightarrow> object_table \<Rightarrow> object_table" where
  "leave_source item_id old_container new_container_id t =
     (if old_container \<noteq> 0 \<and> old_container \<noteq> new_container_id
      then (case bt_get (ot_container_index t) old_container of
              None \<Rightarrow> t
            | Some source \<Rightarrow>
                let source = filter (\<lambda>k. k \<noteq> item_id) source
                in t\<lparr>ot_container_index := bt_insert old_container source (ot_container_index t),
                     ot_objects := renumber_container (ot_objects t) source 0\<rparr>)
      else t)"

definition join_destination :: "u32 \<Rightarrow> u32 \<Rightarrow> int \<Rightarrow> object_table \<Rightarrow> object_table" where
  "join_destination item_id new_container_id new_slot t =
     (if new_container_id \<noteq> 0
      then (let destination = filter (\<lambda>k. k \<noteq> item_id) (list_or_default (ot_container_index t) new_container_id);
                at = (if new_slot < 0 \<or> nat new_slot > length destination then length destination else nat new_slot);
                destination = insert_at at item_id destination
            in t\<lparr>ot_container_index := bt_insert new_container_id destination (ot_container_index t),
                 ot_objects := renumber_container (ot_objects t) destination 0\<rparr>)
      else (case table_get t item_id of
              None \<Rightarrow> t | Some item \<Rightarrow> put_object item_id (item\<lparr>ob_container_slot := new_slot\<rparr>) t))"

definition move_item_optimistic ::
    "u32 \<Rightarrow> u32 \<Rightarrow> int \<Rightarrow> object_table \<Rightarrow> bool \<times> object_table \<times> table_event list" where
  "move_item_optimistic item_id new_container_id new_slot t =
     (case table_get t item_id of
        None \<Rightarrow> (False, t, [])
      | Some item \<Rightarrow>
          let t = record_pending item_id t;
              previous = placement_of item;
              t = put_object item_id (item\<lparr>ob_container_id := new_container_id, ob_currently_equipped_location := 0\<rparr>) t;
              (index, changed) = remove_from_other_container_indexes (ot_container_index t) item_id new_container_id;
              t = leave_source item_id (pc_container_id previous) new_container_id (t\<lparr>ot_container_index := index\<rparr>);
              t = join_destination item_id new_container_id new_slot t;
              (t, events) = publish_placement_change item_id previous LocalProjection t
          in (True, t, events @ publish_container_contents_changes changed))"

definition wield_item_optimistic ::
    "u32 \<Rightarrow> u32 \<Rightarrow> u32 \<Rightarrow> object_table \<Rightarrow> bool \<times> object_table \<times> table_event list" where
  "wield_item_optimistic item_id wielder_guid equip_mask t =
     (case table_get t item_id of
        None \<Rightarrow> (False, t, [])
      | Some item \<Rightarrow> move_item item_id wielder_guid (- 1) equip_mask None (record_pending item_id t))"

definition rollback_move :: "u32 \<Rightarrow> object_table \<Rightarrow> bool \<times> object_table \<times> table_event list" where
  "rollback_move item_id t =
     (case hm_get (ot_pending_moves t) item_id of
        None \<Rightarrow> (False, t, [])
      | Some (placement, _) \<Rightarrow>
          let t = t\<lparr>ot_pending_moves := hm_remove item_id (ot_pending_moves t)\<rparr>;
              (applied, t, events) = apply_placement item_id placement None ServerRollbackProjection False t
          in if applied then (True, t, events @ [MoveRolledBack item_id (identity_of t item_id)]) else (False, t, events))"

definition reject_move :: "u32 \<Rightarrow> u32 \<Rightarrow> object_table \<Rightarrow> bool \<times> object_table \<times> table_event list" where
  "reject_move item_id weenie_error t =
     (let (rolled_back, t, events) = rollback_move item_id t
      in (rolled_back, t, events @
            [MoveRequestFailed \<lparr>mf_item_id = item_id, mf_weenie_error = weenie_error, mf_rolled_back = rolled_back\<rparr>]))"

end
