(* ===== verification/Object_Updates.thy ===== *)
theory Object_Updates
  imports Object_Table
begin

text \<open>
  The rest of \<open>crates/ac-core/src/items/table.rs\<close>: removing objects, the property updates, the
  descriptions the server sends and its listings of what a character or a container holds.
\<close>

section \<open>Removing\<close>

definition remove_core ::
    "u32 \<Rightarrow> removal_reason \<Rightarrow> u16 \<Rightarrow> object_table \<Rightarrow> bool \<times> object_table \<times> table_event list" where
  "remove_core item_id reason generation t =
     (case table_get t item_id of
        None \<Rightarrow> (False, t, [])
      | Some item \<Rightarrow>
          let t = t\<lparr>ot_objects := bt_remove item_id (ot_objects t),
                    ot_described_containers := ot_described_containers t - {item_id}\<rparr>;
              (index, changed) = remove_from_other_container_indexes (ot_container_index t) item_id 0;
              t = t\<lparr>ot_container_index := index,
                    ot_equipment_index := update_equipment_index (ot_equipment_index t) item_id (placement_of item) placement_default,
                    ot_pending_moves := hm_remove item_id (ot_pending_moves t)\<rparr>;
              (t, events) = emit (ObjectRemoved item reason generation) t
          in (True, t, events @ publish_container_contents_changes changed))"

definition table_remove :: "u32 \<Rightarrow> object_table \<Rightarrow> bool \<times> object_table \<times> table_event list" where
  "table_remove item_id t = remove_core item_id OrdinaryRemoval 0 t"

definition remove_logical_generation :: "u32 \<Rightarrow> u16 \<Rightarrow> object_table \<Rightarrow> bool \<times> object_table \<times> table_event list" where
  "remove_logical_generation item_id generation t = remove_core item_id LogicalDelete generation t"

definition clear_table :: "object_table \<Rightarrow> object_table \<times> table_event list" where
  "clear_table t = emit TableCleared
     (t\<lparr>ot_objects := [], ot_container_index := [], ot_described_containers := {}, ot_equipment_index := [],
        ot_pending_moves := [], ot_pending_unresolved := [], ot_clears := ot_clears t + 1\<rparr>)"

section \<open>Properties\<close>

definition notify_object_updated :: "u32 \<Rightarrow> object_table \<Rightarrow> bool \<times> object_table \<times> table_event list" where
  "notify_object_updated item_id t =
     (if table_get t item_id = None then (False, t, []) else (True, emit_updated item_id t))"

text \<open>Applies a change to the record of an object the table holds, then announces it.\<close>

definition change_object ::
    "u32 \<Rightarrow> (client_object \<Rightarrow> client_object) \<Rightarrow> object_table \<Rightarrow> bool \<times> object_table \<times> table_event list" where
  "change_object item_id f t =
     (case table_get t item_id of
        None \<Rightarrow> (False, t, [])
      | Some item \<Rightarrow> (True, emit_updated item_id (put_object item_id (f item) t)))"

definition merge_properties :: "property_bundle \<Rightarrow> client_object \<Rightarrow> client_object" where
  "merge_properties incoming item =
     (let item = item\<lparr>ob_properties := bundle_merge incoming (ob_properties item)\<rparr>;
          item = (case bt_get (pb_ints incoming) 6 of None \<Rightarrow> item | Some n \<Rightarrow> item\<lparr>ob_items_capacity := n\<rparr>)
      in case bt_get (pb_ints incoming) 7 of None \<Rightarrow> item | Some n \<Rightarrow> item\<lparr>ob_containers_capacity := n\<rparr>)"

definition apply_cooldown_properties :: "property_bundle \<Rightarrow> client_object \<Rightarrow> client_object" where
  "apply_cooldown_properties incoming item =
     (let item = (case bt_get (pb_ints incoming) 280 of None \<Rightarrow> item | Some n \<Rightarrow> item\<lparr>ob_cooldown_id := Some (word_of_int n)\<rparr>)
      in case bt_get (pb_floats incoming) 167 of None \<Rightarrow> item | Some d \<Rightarrow> item\<lparr>ob_cooldown_duration := Some d\<rparr>)"

definition update_properties :: "u32 \<Rightarrow> property_bundle \<Rightarrow> object_table \<Rightarrow> bool \<times> object_table \<times> table_event list" where
  "update_properties item_id incoming t =
     change_object item_id (\<lambda>item. apply_cooldown_properties incoming (merge_properties incoming (server_showed_object item))) t"

text \<open>\<open>(seconds * 1000.0).round() as i64 as i32\<close> of a finite number that is not negative: halves
  round up, a number too large saturates, and the low 32 bits are kept.\<close>

definition milliseconds :: "u64 \<Rightarrow> int" where
  "milliseconds seconds =
     (let m = fp_times F64 (f64_mag seconds) (fp_of_nat F64 1000);
          v = fp_value F64 m; unit = 2 ^ fp_unit F64;
          n = (if m = fp_inf F64 then 2 ^ 63 - 1 else min (2 ^ 63 - 1) ((2 * v + unit) div (2 * unit)))
      in sint (word_of_nat n :: u32))"

text \<open>Finite and at least zero (a negative zero is).\<close>

definition arrival_known :: "u64 \<Rightarrow> bool" where
  "arrival_known seconds \<longleftrightarrow> f64_mag seconds < fp_inf F64 \<and> (\<not> f64_neg seconds \<or> f64_mag seconds = 0)"

definition update_appraisal :: "u32 \<Rightarrow> appraisal_update \<Rightarrow> object_table \<Rightarrow> bool \<times> object_table \<times> table_event list" where
  "update_appraisal item_id a t =
     change_object item_id (\<lambda>item.
       let item = (merge_properties (au_properties a) item)
             \<lparr>ob_appraisal_answered := True, ob_last_appraisal_unsuccessful := False, ob_appraised_spell_ids := au_spell_ids a,
              ob_weapon_profile := au_weapon_profile a, ob_armor_profile := au_armor_profile a,
              ob_creature_profile := au_creature_profile a\<rparr>;
           item = (if arrival_known (au_received_at_seconds a)
                   then item\<lparr>ob_last_appraisal_time_ms := milliseconds (au_received_at_seconds a)\<rparr> else item)
       in apply_cooldown_properties (au_properties a) item) t"

definition record_unsuccessful_appraisal ::
    "u32 \<Rightarrow> u64 \<Rightarrow> creature_profile option \<Rightarrow> object_table \<Rightarrow> bool \<times> object_table \<times> table_event list" where
  "record_unsuccessful_appraisal item_id now_seconds profile t =
     (case table_get t item_id of
        None \<Rightarrow> (False, t, [])
      | Some item \<Rightarrow>
          let profile_changed = (ob_creature_profile item \<noteq> profile);
              item = item\<lparr>ob_last_appraisal_unsuccessful_at_seconds := now_seconds, ob_creature_profile := profile\<rparr>
          in if ob_appraisal_answered item \<and> ob_last_appraisal_unsuccessful item \<and> \<not> profile_changed
             then (True, put_object item_id item t, [])
             else (True, emit_updated item_id
                    (put_object item_id (item\<lparr>ob_appraisal_answered := True, ob_last_appraisal_unsuccessful := True\<rparr>) t)))"

definition upsert_properties :: "u32 \<Rightarrow> property_bundle \<Rightarrow> object_table \<Rightarrow> object_table \<times> table_event list" where
  "upsert_properties guid incoming t =
     (let (item, existed, t) = ensure_record guid t
      in emit_added_or_updated guid existed
           (put_object guid (apply_cooldown_properties incoming (merge_properties incoming (server_showed_object item))) t))"

text \<open>The fields an int property is mirrored into.\<close>

definition mirror_int :: "u32 \<Rightarrow> int \<Rightarrow> client_object \<Rightarrow> client_object" where
  "mirror_int property_id v item =
     (let bits = word_of_int v
      in if property_id = 6 then item\<lparr>ob_items_capacity := v\<rparr>
         else if property_id = 7 then item\<lparr>ob_containers_capacity := v\<rparr>
         else if property_id = 18 then item\<lparr>ob_effects := bits\<rparr>
         else if property_id = 280 then item\<lparr>ob_cooldown_id := Some bits\<rparr>
         else if property_id = 10 then item\<lparr>ob_currently_equipped_location := bits\<rparr>
         else if property_id = 151 then item\<lparr>ob_hook_type := bits\<rparr>
         else if property_id = 152 then item\<lparr>ob_hook_item_types := bits\<rparr>
         else if property_id = 91 then item\<lparr>ob_max_structure := v\<rparr>
         else if property_id = 92 then item\<lparr>ob_structure := v\<rparr>
         else if property_id = 134
         then item\<lparr>ob_public_weenie_bitfield := Some (pk_apply (or_zero (ob_public_weenie_bitfield item)) v)\<rparr>
         else item)"

definition update_int_property :: "u32 \<Rightarrow> u32 \<Rightarrow> int \<Rightarrow> object_table \<Rightarrow> bool \<times> object_table \<times> table_event list" where
  "update_int_property item_id property_id v t =
     (case table_get t item_id of
        None \<Rightarrow> (False, t, [])
      | Some item \<Rightarrow>
          let item = server_showed_object item;
              previous = placement_of item;
              item = item\<lparr>ob_properties := (ob_properties item)\<lparr>pb_ints := bt_insert property_id v (pb_ints (ob_properties item))\<rparr>\<rparr>;
              item = mirror_int property_id v item;
              t = put_object item_id item t;
              t = (if property_id = 10
                   then t\<lparr>ot_equipment_index := update_equipment_index (ot_equipment_index t) item_id previous (placement_of item)\<rparr>
                   else t)
          in (True, emit_updated item_id t))"

definition update_data_id_property :: "u32 \<Rightarrow> u32 \<Rightarrow> u32 \<Rightarrow> object_table \<Rightarrow> bool \<times> object_table \<times> table_event list" where
  "update_data_id_property item_id property_id v t =
     change_object item_id (\<lambda>item.
       let item = server_showed_object item;
           item = item\<lparr>ob_properties := (ob_properties item)\<lparr>pb_data_ids := bt_insert property_id v (pb_data_ids (ob_properties item))\<rparr>\<rparr>
       in if property_id = 8 then item\<lparr>ob_icon_id := v\<rparr>
          else if property_id = 50 then item\<lparr>ob_icon_overlay_id := v\<rparr>
          else if property_id = 52 then item\<lparr>ob_icon_underlay_id := v\<rparr>
          else item) t"

definition update_string_property :: "u32 \<Rightarrow> u32 \<Rightarrow> bytes \<Rightarrow> object_table \<Rightarrow> bool \<times> object_table \<times> table_event list" where
  "update_string_property item_id property_id v t =
     change_object item_id (\<lambda>item. let item = server_showed_object item in
       item\<lparr>ob_properties := (ob_properties item)\<lparr>pb_strings := bt_insert property_id v (pb_strings (ob_properties item))\<rparr>\<rparr>) t"

definition update_int64_property :: "u32 \<Rightarrow> u32 \<Rightarrow> int \<Rightarrow> object_table \<Rightarrow> bool \<times> object_table \<times> table_event list" where
  "update_int64_property item_id property_id v t =
     change_object item_id (\<lambda>item. let item = server_showed_object item in
       item\<lparr>ob_properties := (ob_properties item)\<lparr>pb_int64s := bt_insert property_id v (pb_int64s (ob_properties item))\<rparr>\<rparr>) t"

definition update_float_property :: "u32 \<Rightarrow> u32 \<Rightarrow> u64 \<Rightarrow> object_table \<Rightarrow> bool \<times> object_table \<times> table_event list" where
  "update_float_property item_id property_id v t =
     change_object item_id (\<lambda>item. let item = server_showed_object item in
       item\<lparr>ob_properties := (ob_properties item)\<lparr>pb_floats := bt_insert property_id v (pb_floats (ob_properties item))\<rparr>\<rparr>) t"

definition update_instance_id_property :: "u32 \<Rightarrow> u32 \<Rightarrow> u32 \<Rightarrow> object_table \<Rightarrow> bool \<times> object_table \<times> table_event list" where
  "update_instance_id_property item_id property_id v t =
     (case table_get t item_id of
        None \<Rightarrow> (False, t, [])
      | Some item \<Rightarrow>
          let item = server_showed_object item;
              item = item\<lparr>ob_properties := (ob_properties item)\<lparr>pb_instance_ids := bt_insert property_id v (pb_instance_ids (ob_properties item))\<rparr>\<rparr>;
              known = (if v \<noteq> 0 then Some v else None);
              house = (property_id = 32 \<and> ob_house_owner_id item \<noteq> known);
              item = (if house then item\<lparr>ob_house_owner_id := known\<rparr> else item);
              monarch = (property_id = 26 \<and> ob_monarch_id item \<noteq> known);
              item = (if monarch then item\<lparr>ob_monarch_id := known\<rparr> else item)
          in (True, emit_updated item_id (bump (if house \<or> monarch then 1 else 0) (put_object item_id item t))))"

text \<open>The public description bit a true or false property stands for, and whether it is inverted.\<close>

definition description_bit_of :: "u32 \<Rightarrow> (u32 \<times> bool) option" where
  "description_bit_of property =
     map_of [(1, (0x4, False)), (3, (0x1, True)), (22, (0x2, False)), (24, (0x80, False)), (25, (0x400000, False)),
       (26, (0x40, False))] property"

definition flags_set :: "u32 \<Rightarrow> bool \<Rightarrow> u32 \<Rightarrow> u32" where
  "flags_set b on flags = (if on then flags OR b else flags AND NOT b)"

definition update_bool_property :: "u32 \<Rightarrow> u32 \<Rightarrow> bool \<Rightarrow> object_table \<Rightarrow> bool \<times> object_table \<times> table_event list" where
  "update_bool_property item_id property_id v t =
     change_object item_id (\<lambda>item.
       let item = server_showed_object item;
           item = item\<lparr>ob_properties := (ob_properties item)\<lparr>pb_bools := bt_insert property_id v (pb_bools (ob_properties item))\<rparr>\<rparr>
       in case description_bit_of property_id of
            None \<Rightarrow> item
          | Some (b, inverted) \<Rightarrow>
              item\<lparr>ob_public_weenie_bitfield := Some (flags_set b (v \<noteq> inverted) (or_zero (ob_public_weenie_bitfield item)))\<rparr>) t"

definition update_stack_size :: "u32 \<Rightarrow> int \<Rightarrow> int \<Rightarrow> object_table \<Rightarrow> bool \<times> object_table \<times> table_event list" where
  "update_stack_size guid stack_size v t =
     (case table_get t guid of
        None \<Rightarrow> (False, t, [])
      | Some item \<Rightarrow>
          let item = (server_showed_object item)\<lparr>ob_stack_size := stack_size, ob_value := v\<rparr>;
              (t, events) = emit_updated guid (put_object guid item t)
          in (True, t, events @ [StackSizeUpdated guid (ob_identity item)]))"

definition update_house_restrictions :: "u32 \<Rightarrow> house_restriction \<Rightarrow> object_table \<Rightarrow> bool \<times> object_table \<times> table_event list" where
  "update_house_restrictions guid restrictions t =
     (case table_get t guid of
        None \<Rightarrow> (False, t, [])
      | Some item \<Rightarrow>
          let item = server_showed_object item;
              t = (if ob_restrictions item \<noteq> Some restrictions
                   then bump 1 (put_object guid (item\<lparr>ob_restrictions := Some restrictions\<rparr>) t)
                   else put_object guid item t)
          in (True, emit_updated guid t))"

section \<open>Descriptions\<close>

definition set_if :: "'a \<Rightarrow> 'a option \<Rightarrow> 'a" where
  "set_if field v = (case v of None \<Rightarrow> field | Some v \<Rightarrow> v)"

definition set_some_if :: "'a option \<Rightarrow> 'a option \<Rightarrow> 'a option" where
  "set_some_if field v = (if v \<noteq> None then v else field)"

text \<open>A name is taken when it is not empty, an id when it is not zero.\<close>

definition set_name :: "bytes \<Rightarrow> bytes option \<Rightarrow> bytes" where
  "set_name field v = (case v of None \<Rightarrow> field | Some name \<Rightarrow> if name = [] then field else name)"

definition set_id :: "u32 \<Rightarrow> u32 \<Rightarrow> u32" where
  "set_id field v = (if v \<noteq> 0 then v else field)"

text \<open>The description's fields laid over the record.\<close>

definition patch_fields :: "weenie_data \<Rightarrow> client_object \<Rightarrow> client_object" where
  "patch_fields d item =
     (let item = item\<lparr>ob_name := set_name (ob_name item) (wd_name d)\<rparr>;
          item = item\<lparr>ob_plural_name := set_name (ob_plural_name item) (wd_plural_name d)\<rparr>;
          item = item\<lparr>ob_item_type := set_if (ob_item_type item) (wd_item_type d)\<rparr>;
          item = item\<lparr>ob_weenie_class_id := set_id (ob_weenie_class_id item) (wd_weenie_class_id d)\<rparr>;
          item = item\<lparr>ob_icon_id := set_id (ob_icon_id item) (wd_icon_id d)\<rparr>;
          item = item\<lparr>ob_icon_overlay_id := set_id (ob_icon_overlay_id item) (wd_icon_overlay_id d)\<rparr>;
          item = item\<lparr>ob_icon_underlay_id := set_id (ob_icon_underlay_id item) (wd_icon_underlay_id d)\<rparr>;
          item = item\<lparr>ob_effects := wd_effects d\<rparr>;
          item = item\<lparr>ob_value := set_if (ob_value item) (wd_value d)\<rparr>;
          item = item\<lparr>ob_stack_size := set_if (ob_stack_size item) (wd_stack_size d)\<rparr>;
          item = item\<lparr>ob_stack_size_max := set_if (ob_stack_size_max item) (wd_stack_size_max d)\<rparr>;
          item = item\<lparr>ob_burden := set_if (ob_burden item) (wd_burden d)\<rparr>;
          item = item\<lparr>ob_container_id := set_if (ob_container_id item) (wd_container_id d)\<rparr>;
          item = item\<lparr>ob_wielder_id := set_if (ob_wielder_id item) (wd_wielder_id d)\<rparr>;
          item = item\<lparr>ob_valid_locations := set_if (ob_valid_locations item) (wd_valid_locations d)\<rparr>;
          item = item\<lparr>ob_currently_equipped_location := set_if (ob_currently_equipped_location item) (wd_current_wielded_location d)\<rparr>;
          item = item\<lparr>ob_priority := set_if (ob_priority item) (wd_priority d)\<rparr>;
          item = item\<lparr>ob_useability := set_some_if (ob_useability item) (wd_useability d)\<rparr>;
          item = item\<lparr>ob_target_type := set_some_if (ob_target_type item) (wd_target_type d)\<rparr>;
          item = item\<lparr>ob_public_weenie_bitfield := set_some_if (ob_public_weenie_bitfield item) (wd_public_weenie_bitfield d)\<rparr>;
          item = item\<lparr>ob_pet_owner_id := set_if (ob_pet_owner_id item) (wd_pet_owner_id d)\<rparr>;
          item = item\<lparr>ob_combat_use := set_some_if (ob_combat_use item) (wd_combat_use d)\<rparr>;
          item = item\<lparr>ob_ammo_type := set_some_if (ob_ammo_type item) (wd_ammo_type d)\<rparr>;
          item = item\<lparr>ob_spell_id := set_some_if (ob_spell_id item) (wd_spell_id d)\<rparr>;
          item = item\<lparr>ob_cooldown_id := set_some_if (ob_cooldown_id item) (wd_cooldown_id d)\<rparr>;
          item = item\<lparr>ob_cooldown_duration := set_some_if (ob_cooldown_duration item) (wd_cooldown_duration d)\<rparr>;
          item = item\<lparr>ob_radar_blip_color := set_some_if (ob_radar_blip_color item) (wd_radar_blip_color d)\<rparr>;
          item = item\<lparr>ob_radar_behavior := set_some_if (ob_radar_behavior item) (wd_radar_behavior d)\<rparr>;
          item = item\<lparr>ob_items_capacity := set_if (ob_items_capacity item) (wd_items_capacity d)\<rparr>;
          item = item\<lparr>ob_containers_capacity := set_if (ob_containers_capacity item) (wd_containers_capacity d)\<rparr>;
          item = item\<lparr>ob_hook_item_types := set_if (ob_hook_item_types item) (wd_hook_item_types d)\<rparr>;
          item = item\<lparr>ob_hook_type := set_if (ob_hook_type item) (wd_hook_type d)\<rparr>;
          item = item\<lparr>ob_structure := set_if (ob_structure item) (wd_structure d)\<rparr>;
          item = item\<lparr>ob_max_structure := set_if (ob_max_structure item) (wd_max_structure d)\<rparr>;
          item = item\<lparr>ob_workmanship := set_if (ob_workmanship item) (wd_workmanship d)\<rparr>;
          item = item\<lparr>ob_material_type := set_some_if (ob_material_type item) (wd_material_type d)\<rparr>;
          item = item\<lparr>ob_header := set_some_if (ob_header item) (wd_header d)\<rparr>
      in item)"

text \<open>\<open>patch_from_weenie\<close>: the record, and how many of house owner, monarch and restrictions changed.\<close>

definition patch_from_weenie :: "weenie_data \<Rightarrow> client_object \<Rightarrow> client_object \<times> nat" where
  "patch_from_weenie d item =
     (let item = patch_fields d item;
          owner = (wd_house_owner_id d \<noteq> None \<and> ob_house_owner_id item \<noteq> wd_house_owner_id d);
          item = (if owner then item\<lparr>ob_house_owner_id := wd_house_owner_id d\<rparr> else item);
          monarch = (wd_monarch_id d \<noteq> None \<and> ob_monarch_id item \<noteq> wd_monarch_id d);
          item = (if monarch then item\<lparr>ob_monarch_id := wd_monarch_id d\<rparr> else item);
          limits = (wd_restrictions d \<noteq> None \<and> ob_restrictions item \<noteq> wd_restrictions d);
          item = (if limits then item\<lparr>ob_restrictions := wd_restrictions d\<rparr> else item)
      in (item, of_bool owner + of_bool monarch + of_bool limits))"

text \<open>The lists after a record changed its placement without the game's own insertion.\<close>

definition follow_placement ::
    "u32 \<Rightarrow> object_placement \<Rightarrow> object_placement \<Rightarrow> object_table \<Rightarrow> u32 list \<times> object_table" where
  "follow_placement guid previous current t =
     (let (index, changed) = remove_from_other_container_indexes (ot_container_index t) guid (pc_container_id current);
          index = reindex index (ot_objects t) guid (pc_container_id previous)
      in (changed, t\<lparr>ot_container_index := index,
            ot_equipment_index := update_equipment_index (ot_equipment_index t) guid previous current\<rparr>))"

definition ingest_object :: "weenie_data \<Rightarrow> object_table \<Rightarrow> nat \<times> object_table \<times> table_event list" where
  "ingest_object d t =
     (let guid = wd_guid d;
          (item, existed, t) = ensure_record guid t;
          item = server_showed_object item;
          previous = placement_of item;
          (item, authority_changes) = patch_from_weenie d item;
          current = placement_of item;
          t = bump authority_changes (put_object guid item t);
          (changed, t) = follow_placement guid previous current t;
          (t, events) = emit_added_or_updated guid existed t;
          events = events @ publish_container_contents_changes changed
      in if existed then (identity_of t guid, t, events)
         else case hm_get (ot_pending_unresolved t) guid of
           None \<Rightarrow> (identity_of t guid, t, events)
         | Some (placement, hint) \<Rightarrow>
             let t = t\<lparr>ot_pending_unresolved := hm_remove guid (ot_pending_unresolved t)\<rparr>
             in if wd_container_id d = Some (pc_container_id placement)
                then (let (applied, t, moved) = apply_server_move guid placement hint t in (identity_of t guid, t, events @ moved))
                else (identity_of t guid, t, events))"

definition replace_generation ::
    "weenie_data \<Rightarrow> u16 \<Rightarrow> bool \<Rightarrow> object_table \<Rightarrow> nat option \<times> object_table \<times> table_event list" where
  "replace_generation d generation install_replacement t =
     (let (removed, t, events) = remove_core (wd_guid d) GenerationReplacement generation t
      in if \<not> install_replacement then (None, t, events)
         else (let (identity, t, added) = ingest_object d t in (Some identity, t, events @ added)))"

definition ingest_recreated :: "weenie_data \<Rightarrow> object_table \<Rightarrow> nat \<times> object_table \<times> table_event list" where
  "ingest_recreated d t =
     (let (identity, t, events) = ingest_object d t
      in case wd_container_id d of
           None \<Rightarrow> (identity, t, events)
         | Some container_id \<Rightarrow>
             if container_id = 0 then (identity, t, events)
             else (let (applied, t, moved) = apply_server_move (wd_guid d) (in_container container_id 0) None t
                   in (identity, t, events @ moved)))"

definition record_membership ::
    "u32 \<Rightarrow> u32 \<Rightarrow> u32 \<Rightarrow> u32 option \<Rightarrow> u32 option \<Rightarrow> object_table \<Rightarrow> nat \<times> object_table \<times> table_event list" where
  "record_membership guid container_id equip hint priority t =
     (let (item, existed, t) = ensure_record guid t;
          item = server_showed_object item;
          previous = placement_of item;
          item = (if container_id \<noteq> 0 then item\<lparr>ob_container_id := container_id\<rparr> else item);
          item = item\<lparr>ob_currently_equipped_location := equip\<rparr>;
          item = (if equip \<noteq> 0 then item\<lparr>ob_container_slot := - 1\<rparr> else item);
          item = hinted hint item;
          item = (case priority of None \<Rightarrow> item | Some p \<Rightarrow> item\<lparr>ob_priority := p\<rparr>);
          (changed, t) = follow_placement guid previous (placement_of item) (put_object guid item t);
          (t, events) = emit_added_or_updated guid existed t
      in (identity_of t guid, t, events @ publish_container_contents_changes changed))"

end
