(* ===== verification/Object_Listings.thy ===== *)
theory Object_Listings
  imports Object_Updates
begin

text \<open>
  The server's listings in \<open>crates/ac-core/src/items/table.rs\<close>: what a character wears and carries,
  what a container holds, and the end of a container's view.
\<close>

section \<open>Inventory and equipment of a character\<close>

text \<open>Announces each object noted, as added or updated.\<close>

fun announce_all :: "(u32 \<times> bool) list \<Rightarrow> object_table \<Rightarrow> object_table \<times> table_event list" where
  "announce_all [] t = (t, [])"
| "announce_all ((object_id, existed) # notes) t =
     (let (t, events) = emit_added_or_updated object_id existed t;
          (t, more) = announce_all notes t
      in (t, events @ more))"

definition nowhere :: "client_object \<Rightarrow> client_object" where
  "nowhere item =
     item\<lparr>ob_container_id := 0, ob_container_slot := - 1, ob_wielder_id := 0, ob_currently_equipped_location := 0,
          ob_priority := 0\<rparr>"

definition worn_by :: "u32 \<Rightarrow> client_object \<Rightarrow> bool" where
  "worn_by wielder_id item \<longleftrightarrow>
     ob_wielder_id item = wielder_id \<or> ob_container_id item = wielder_id \<and> ob_currently_equipped_location item \<noteq> 0"

text \<open>What the wielder wore and the listing leaves out is taken off; the ids taken off and the
  containers changed.\<close>

fun take_off_missing :: "u32 \<Rightarrow> u32 set \<Rightarrow> u32 list \<Rightarrow> object_table \<Rightarrow> u32 list \<times> u32 list \<times> object_table" where
  "take_off_missing wielder_id incoming [] t = ([], [], t)"
| "take_off_missing wielder_id incoming (prior_id # priors) t =
     (case (if prior_id \<in> incoming then None else table_get t prior_id) of
        None \<Rightarrow> take_off_missing wielder_id incoming priors t
      | Some prior \<Rightarrow>
          if \<not> worn_by wielder_id prior then take_off_missing wielder_id incoming priors t
          else
            let t = put_object prior_id (nowhere prior) t;
                (index, changed) = remove_from_other_container_indexes (ot_container_index t) prior_id 0;
                (notes, more, t) = take_off_missing wielder_id incoming priors (t\<lparr>ot_container_index := index\<rparr>)
            in (prior_id # notes, changed @ more, t))"

fun put_on_listed :: "u32 \<Rightarrow> equipment_entry list \<Rightarrow> object_table \<Rightarrow> (u32 \<times> bool) list \<times> u32 list \<times> object_table" where
  "put_on_listed wielder_id [] t = ([], [], t)"
| "put_on_listed wielder_id (e # entries) t =
     (let guid = ee_guid e;
          (item, existed, t) = ensure_record guid t;
          item = server_showed_object item;
          previous = placement_of item;
          item = item\<lparr>ob_container_id := 0, ob_container_slot := - 1, ob_wielder_id := wielder_id,
                      ob_currently_equipped_location := ee_equip_location e, ob_priority := ee_priority e\<rparr>;
          t = put_object guid item t;
          (index, changed) = remove_from_other_container_indexes (ot_container_index t) guid 0;
          t = t\<lparr>ot_container_index := reindex index (ot_objects t) guid (pc_container_id previous),
                ot_equipment_index := remove_equipment_index_membership (ot_equipment_index t) guid\<rparr>;
          (notes, more, t) = put_on_listed wielder_id entries t
      in ((guid, existed) # notes, changed @ more, t))"

definition initialize_equipment_manifest ::
    "u32 \<Rightarrow> equipment_entry list \<Rightarrow> object_table \<Rightarrow> object_table \<times> table_event list" where
  "initialize_equipment_manifest wielder_id entries t =
     (if wielder_id = 0 then (t, [])
      else
        let (off, changed1, t) = take_off_missing wielder_id (set (map ee_guid entries))
                (list_or_default (ot_equipment_index t) wielder_id) t;
            (on, changed2, t) = put_on_listed wielder_id entries t;
            t = t\<lparr>ot_equipment_index := bt_insert wielder_id (map ee_guid entries) (ot_equipment_index t)\<rparr>;
            (t, events) = announce_all (map (\<lambda>k. (k, True)) off @ on) t
        in (t, events @ publish_container_contents_changes (changed1 @ changed2)))"

fun take_out_missing :: "u32 \<Rightarrow> u32 set \<Rightarrow> u32 list \<Rightarrow> object_table \<Rightarrow> u32 list \<times> object_table" where
  "take_out_missing owner_id incoming [] t = ([], t)"
| "take_out_missing owner_id incoming (prior_id # priors) t =
     (case (if prior_id \<in> incoming then None else table_get t prior_id) of
        None \<Rightarrow> take_out_missing owner_id incoming priors t
      | Some prior \<Rightarrow>
          if ob_container_id prior \<noteq> owner_id then take_out_missing owner_id incoming priors t
          else
            let previous = placement_of prior;
                t = put_object prior_id (nowhere prior) t;
                t = t\<lparr>ot_equipment_index :=
                      update_equipment_index (ot_equipment_index t) prior_id previous (placement_of (nowhere prior))\<rparr>;
                (notes, t) = take_out_missing owner_id incoming priors t
            in (prior_id # notes, t))"

text \<open>\<open>i32::try_from(position).unwrap_or(i32::MAX)\<close>.\<close>

definition listed_slot :: "nat \<Rightarrow> int" where
  "listed_slot at = min (int at) (2 ^ 31 - 1)"

fun put_in_listed ::
    "u32 \<Rightarrow> nat \<Rightarrow> content_entry list \<Rightarrow> object_table \<Rightarrow> (u32 \<times> bool) list \<times> u32 list \<times> object_table" where
  "put_in_listed owner_id at [] t = ([], [], t)"
| "put_in_listed owner_id at (e # entries) t =
     (let guid = ce_guid e;
          (item, existed, t) = ensure_record guid t;
          item = server_showed_object item;
          previous = placement_of item;
          item = item\<lparr>ob_container_id := owner_id, ob_container_slot := listed_slot at, ob_wielder_id := 0,
                      ob_currently_equipped_location := 0, ob_container_type_hint := ce_container_type e\<rparr>;
          t = put_object guid item t;
          (index, changed) = remove_from_other_container_indexes (ot_container_index t) guid owner_id;
          t = t\<lparr>ot_container_index := index,
                ot_equipment_index := update_equipment_index (ot_equipment_index t) guid previous (placement_of item)\<rparr>;
          (notes, more, t) = put_in_listed owner_id (at + 1) entries t
      in ((guid, existed) # notes, changed @ more, t))"

definition initialize_inventory_manifest ::
    "u32 \<Rightarrow> content_entry list \<Rightarrow> object_table \<Rightarrow> object_table \<times> table_event list" where
  "initialize_inventory_manifest owner_id entries t =
     (if owner_id = 0 then (t, [])
      else
        let (out, t) = take_out_missing owner_id (set (map ce_guid entries)) (get_contents t owner_id) t;
            (notes, changed, t) = put_in_listed owner_id 0 entries t;
            t = t\<lparr>ot_container_index := bt_insert owner_id (map ce_guid entries) (ot_container_index t),
                  ot_described_containers := insert owner_id (ot_described_containers t)\<rparr>;
            (t, events) = announce_all (map (\<lambda>k. (k, True)) out @ notes) t
        in (t, events @ [ContainerContentsReplaced owner_id] @ publish_container_contents_changes changed))"

section \<open>Views of a container\<close>

text \<open>The entries of a view: the objects added, and the ones whose earlier refusal is overturned.\<close>

fun view_entries :: "content_entry list \<Rightarrow> object_table \<Rightarrow> u32 list \<times> u32 list \<times> object_table" where
  "view_entries [] t = ([], [], t)"
| "view_entries (e # entries) t =
     (let guid = ce_guid e;
          (item, existed, t) = ensure_record guid t;
          item = item\<lparr>ob_container_type_hint := ce_container_type e\<rparr>;
          refused = ob_last_appraisal_unsuccessful item;
          t = put_object guid (if existed then server_showed_object item else item) t;
          (added, shown, t) = view_entries entries t
      in (if existed then added else guid # added, if existed \<and> refused then guid # shown else shown, t))"

definition replace_contents :: "u32 \<Rightarrow> content_entry list \<Rightarrow> object_table \<Rightarrow> object_table \<times> table_event list" where
  "replace_contents container_id entries t =
     (if container_id = 0 then (t, [])
      else
        let (added, shown, t) = view_entries entries t;
            t = t\<lparr>ot_container_index := bt_insert container_id (map ce_guid entries) (ot_container_index t),
                  ot_described_containers := insert container_id (ot_described_containers t)\<rparr>;
            (t, events) = announce_all (map (\<lambda>k. (k, False)) added @ map (\<lambda>k. (k, True)) shown) t
        in (t, events @ [ContainerContentsReplaced container_id]))"

definition replace_contents_ids :: "u32 \<Rightarrow> u32 list \<Rightarrow> object_table \<Rightarrow> object_table \<times> table_event list" where
  "replace_contents_ids container_id guids t =
     replace_contents container_id (map (\<lambda>guid. \<lparr>ce_guid = guid, ce_container_type = 0\<rparr>) guids) t"

definition stop_viewing_contents :: "u32 \<Rightarrow> object_table \<Rightarrow> bool \<times> object_table \<times> table_event list" where
  "stop_viewing_contents container_id t =
     (if container_id = 0 then (False, t, [])
      else case contents_list t container_id of
        None \<Rightarrow> (False, t, [])
      | Some contents \<Rightarrow>
          (True,
           t\<lparr>ot_container_index := bt_remove container_id (ot_container_index t),
             ot_described_containers := ot_described_containers t - {container_id}\<rparr>,
           [ContentsViewEnded container_id contents False, ContainerContentsReplaced container_id]))"

lemma bt_remove_less: "bt_get index k = Some v \<Longrightarrow> length (bt_remove k index) < length index"
proof -
  assume "bt_get index k = Some v"
  then have "(k, v) \<in> set index" by (auto simp: bt_get_def dest: map_of_SomeD)
  then show ?thesis by (auto simp: bt_remove_def intro: length_filter_less)
qed

text \<open>The loop over a container and the containers listed in it: the lists dropped, in order.\<close>

function drop_tree ::
    "u32 list \<Rightarrow> u32 list \<Rightarrow> contents_index \<Rightarrow> (u32 \<times> u32 list) list \<times> contents_index" where
  "drop_tree [] visited index = ([], index)"
| "drop_tree (container_id # pending) visited index =
     (if container_id \<in> set visited then drop_tree pending visited index
      else case bt_get index container_id of
        None \<Rightarrow> drop_tree pending (container_id # visited) index
      | Some contents \<Rightarrow>
          let index = bt_remove container_id index;
              children = filter (\<lambda>child. bt_get index child \<noteq> None) contents;
              (removed, index) = drop_tree (rev children @ pending) (container_id # visited) index
          in ((container_id, contents) # removed, index))"
  by pat_completeness auto

termination
  by (relation "measures [\<lambda>(pending, visited, index). length index, \<lambda>(pending, visited, index). length pending]")
    (auto dest: bt_remove_less)

declare drop_tree.simps [simp del]

definition stop_viewing_contents_tree :: "u32 \<Rightarrow> object_table \<Rightarrow> nat \<times> object_table \<times> table_event list" where
  "stop_viewing_contents_tree root t =
     (if root = 0 then (0, t, [])
      else
        let (removed, index) = drop_tree [root] [] (ot_container_index t)
        in (length removed,
            t\<lparr>ot_container_index := index, ot_described_containers := ot_described_containers t - set (map fst removed)\<rparr>,
            map (\<lambda>(c, contents). ContentsViewEnded c contents (c \<noteq> root)) removed @
            map (\<lambda>(c, _). ContainerContentsReplaced c) removed))"

end
