(* ===== verification/Table_Commands.thy ===== *)
theory Table_Commands
  imports Object_Listings
begin

text \<open>
  Everything that changes an object table, as one command each: the public operations of
  \<open>crates/ac-core/src/items/table.rs\<close> and the trade and sell marks the world puts on a record
  (\<open>crates/ac-runtime/src/world/items.rs\<close>). A history is a list of commands run from the empty table.
\<close>

section \<open>The marks of trade and sale\<close>

definition set_trade_state :: "u32 \<Rightarrow> int \<Rightarrow> object_table \<Rightarrow> object_table \<times> table_event list" where
  "set_trade_state guid state t =
     (case table_get t guid of
        None \<Rightarrow> (t, [])
      | Some item \<Rightarrow>
          if ob_trade_state item \<noteq> state
          then snd (notify_object_updated guid (put_object guid (item\<lparr>ob_trade_state := state\<rparr>) t)) else (t, []))"

definition set_sell_state :: "u32 \<Rightarrow> int \<Rightarrow> object_table \<Rightarrow> object_table \<times> table_event list" where
  "set_sell_state guid state t =
     (case table_get t guid of
        None \<Rightarrow> (t, [])
      | Some item \<Rightarrow>
          if ob_sell_state item \<noteq> state
          then snd (notify_object_updated guid (put_object guid (item\<lparr>ob_sell_state := state\<rparr>) t)) else (t, []))"

section \<open>Commands\<close>

datatype placement_command =
    MoveItem u32 u32 int u32 "u32 option"
  | ServerMove u32 object_placement "u32 option"
  | ConfirmedServerMove u32 object_placement "u32 option"
  | ConfirmedServerWield u32 u32 u32
  | MoveOptimistic u32 u32 int
  | WieldOptimistic u32 u32 u32
  | ConfirmMove u32
  | RollbackMove u32
  | RejectMove u32 u32
  | RemoveObject u32
  | RemoveGeneration u32 u16
  | ClearTable

fun place_command :: "placement_command \<Rightarrow> object_table \<Rightarrow> object_table \<times> table_event list" where
  "place_command (MoveItem k c s e h) t = snd (move_item k c s e h t)"
| "place_command (ServerMove k p h) t = snd (apply_server_move k p h t)"
| "place_command (ConfirmedServerMove k p h) t = snd (apply_confirmed_server_move k p h t)"
| "place_command (ConfirmedServerWield k w e) t = snd (apply_confirmed_server_wield k w e t)"
| "place_command (MoveOptimistic k c s) t = snd (move_item_optimistic k c s t)"
| "place_command (WieldOptimistic k w m) t = snd (wield_item_optimistic k w m t)"
| "place_command (ConfirmMove k) t = (confirm_move k t, [])"
| "place_command (RollbackMove k) t = snd (rollback_move k t)"
| "place_command (RejectMove k e) t = snd (reject_move k e t)"
| "place_command (RemoveObject k) t = snd (table_remove k t)"
| "place_command (RemoveGeneration k g) t = snd (remove_logical_generation k g t)"
| "place_command ClearTable t = clear_table t"

datatype property_command =
    NotifyUpdated u32
  | UpdateProperties u32 property_bundle
  | UpdateAppraisal u32 appraisal_update
  | UnsuccessfulAppraisal u32 u64 "creature_profile option"
  | UpsertProperties u32 property_bundle
  | UpdateInt u32 u32 int
  | UpdateDataId u32 u32 u32
  | UpdateString u32 u32 bytes
  | UpdateInstanceId u32 u32 u32
  | UpdateBool u32 u32 bool
  | UpdateInt64 u32 u32 int
  | UpdateFloat u32 u32 u64
  | UpdateStackSize u32 int int
  | UpdateHouse u32 house_restriction
  | SetTradeState u32 int
  | SetSellState u32 int

fun write_command :: "property_command \<Rightarrow> object_table \<Rightarrow> object_table \<times> table_event list" where
  "write_command (NotifyUpdated k) t = snd (notify_object_updated k t)"
| "write_command (UpdateProperties k b) t = snd (update_properties k b t)"
| "write_command (UpdateAppraisal k a) t = snd (update_appraisal k a t)"
| "write_command (UnsuccessfulAppraisal k n p) t = snd (record_unsuccessful_appraisal k n p t)"
| "write_command (UpsertProperties k b) t = upsert_properties k b t"
| "write_command (UpdateInt k p v) t = snd (update_int_property k p v t)"
| "write_command (UpdateDataId k p v) t = snd (update_data_id_property k p v t)"
| "write_command (UpdateString k p v) t = snd (update_string_property k p v t)"
| "write_command (UpdateInstanceId k p v) t = snd (update_instance_id_property k p v t)"
| "write_command (UpdateBool k p v) t = snd (update_bool_property k p v t)"
| "write_command (UpdateInt64 k p v) t = snd (update_int64_property k p v t)"
| "write_command (UpdateFloat k p v) t = snd (update_float_property k p v t)"
| "write_command (UpdateStackSize k n v) t = snd (update_stack_size k n v t)"
| "write_command (UpdateHouse k r) t = snd (update_house_restrictions k r t)"
| "write_command (SetTradeState k v) t = set_trade_state k v t"
| "write_command (SetSellState k v) t = set_sell_state k v t"

datatype listing_command =
    AddOrUpdate client_object
  | ReplaceGeneration weenie_data u16 bool
  | Ingest weenie_data
  | IngestRecreated weenie_data
  | RecordMembership u32 u32 u32 "u32 option" "u32 option"
  | EquipmentManifest u32 "equipment_entry list"
  | InventoryManifest u32 "content_entry list"
  | ReplaceContents u32 "content_entry list"
  | StopViewing u32
  | StopViewingTree u32
  | SetContents u32 "u32 list option"

fun list_command :: "listing_command \<Rightarrow> object_table \<Rightarrow> object_table \<times> table_event list" where
  "list_command (AddOrUpdate item) t = snd (add_or_update item t)"
| "list_command (ReplaceGeneration d g b) t = snd (replace_generation d g b t)"
| "list_command (Ingest d) t = snd (ingest_object d t)"
| "list_command (IngestRecreated d) t = snd (ingest_recreated d t)"
| "list_command (RecordMembership k c e h p) t = snd (record_membership k c e h p t)"
| "list_command (EquipmentManifest w es) t = initialize_equipment_manifest w es t"
| "list_command (InventoryManifest w es) t = initialize_inventory_manifest w es t"
| "list_command (ReplaceContents c es) t = replace_contents c es t"
| "list_command (StopViewing c) t = snd (stop_viewing_contents c t)"
| "list_command (StopViewingTree c) t = snd (stop_viewing_contents_tree c t)"
| "list_command (SetContents c xs) t = (set_contents_list c xs t, [])"

datatype table_command =
    Placement placement_command
  | Property property_command
  | Listing listing_command

fun run_command :: "table_command \<Rightarrow> object_table \<Rightarrow> object_table \<times> table_event list" where
  "run_command (Placement c) t = place_command c t"
| "run_command (Property c) t = write_command c t"
| "run_command (Listing c) t = list_command c t"

fun run_commands :: "table_command list \<Rightarrow> object_table \<Rightarrow> object_table \<times> table_event list" where
  "run_commands [] t = (t, [])"
| "run_commands (c # cs) t =
     (let (t, events) = run_command c t; (t, more) = run_commands cs t in (t, events @ more))"

definition table_after :: "table_command list \<Rightarrow> object_table" where
  "table_after cs = fst (run_commands cs table_new)"

lemma run_commands_keep:
  assumes "\<And>c t. P t \<Longrightarrow> P (fst (run_command c t))" "P t"
  shows "P (fst (run_commands cs t))"
  using assms(2) by (induction cs arbitrary: t) (auto simp: assms(1) case_prod_beta)

end
