(* ===== verification/Worn_Objects.thy ===== *)
theory Worn_Objects
  imports Table_Commands
begin

text \<open>
  The equipment lists of \<open>crates/ac-core/src/items/table.rs\<close> follow the records: whatever the server
  says and the client does, an object that is worn or wielded is on its wearer's list, and no two
  records have the same identity. The contents lists and the slots do not matter for this, so the
  operations are followed through the part of a record that does: its id, its identity and the owner
  of its equipment slot.
\<close>

section \<open>What the lists depend on\<close>

definition owner_of :: "client_object \<Rightarrow> u32" where
  "owner_of item = equipment_owner (placement_of item)"

definition record_view :: "objects \<Rightarrow> u32 \<Rightarrow> (u32 \<times> nat \<times> u32) option" where
  "record_view objs k = map_option (\<lambda>item. (ob_object_id item, ob_identity item, owner_of item)) (bt_get objs k)"

definition table_owner :: "object_table \<Rightarrow> u32 \<Rightarrow> u32" where
  "table_owner t k = (case record_view (ot_objects t) k of None \<Rightarrow> 0 | Some (_, _, w) \<Rightarrow> w)"

definition worn_list :: "object_table \<Rightarrow> u32 \<Rightarrow> u32 list" where
  "worn_list t = list_or_default (ot_equipment_index t)"

text \<open>Each object with an owner is on that owner's list.\<close>

definition listed :: "(u32 \<Rightarrow> u32) \<Rightarrow> (u32 \<Rightarrow> u32 list) \<Rightarrow> bool" where
  "listed own held \<longleftrightarrow> (\<forall>k. own k \<noteq> 0 \<longrightarrow> k \<in> set (held (own k)))"

text \<open>Records have their own ids, and identities handed out before, each its own.\<close>

definition views_ok :: "(u32 \<Rightarrow> (u32 \<times> nat \<times> u32) option) \<Rightarrow> nat \<Rightarrow> bool" where
  "views_ok v newest \<longleftrightarrow>
     (\<forall>k x. v k = Some x \<longrightarrow> fst x = k \<and> 0 < fst (snd x) \<and> fst (snd x) \<le> newest) \<and>
     (\<forall>k k' x x'. v k = Some x \<longrightarrow> v k' = Some x' \<longrightarrow> fst (snd x) = fst (snd x') \<longrightarrow> k = k')"

lemma views_okD:
  "views_ok v newest \<Longrightarrow> v k = Some x \<Longrightarrow> fst x = k \<and> 0 < fst (snd x) \<and> fst (snd x) \<le> newest"
  "views_ok v newest \<Longrightarrow> v k = Some x \<Longrightarrow> v k' = Some x' \<Longrightarrow> fst (snd x) = fst (snd x') \<Longrightarrow> k = k'"
  unfolding views_ok_def by blast+

lemma views_okI:
  assumes "\<And>k x. v k = Some x \<Longrightarrow> fst x = k \<and> 0 < fst (snd x) \<and> fst (snd x) \<le> newest"
    and "\<And>k k' x x'. v k = Some x \<Longrightarrow> v k' = Some x' \<Longrightarrow> fst (snd x) = fst (snd x') \<Longrightarrow> k = k'"
  shows "views_ok v newest"
  unfolding views_ok_def using assms by blast

lemma views_ok_keep:
  assumes "views_ok v newest" "v k = Some (i, d, w)"
  shows "views_ok (v(k \<mapsto> (i, d, w'))) newest"
proof (rule views_okI)
  have *: "\<exists>y. v j = Some y \<and> fst y = fst x \<and> fst (snd y) = fst (snd x)" if "(v(k \<mapsto> (i, d, w'))) j = Some x" for j x
    using that assms(2) by (cases "j = k") auto
  show "fst x = j \<and> 0 < fst (snd x) \<and> fst (snd x) \<le> newest" if "(v(k \<mapsto> (i, d, w'))) j = Some x" for j x
    using * [OF that] views_okD(1) [OF assms(1)] by fastforce
  show "j = j'" if "(v(k \<mapsto> (i, d, w'))) j = Some x" "(v(k \<mapsto> (i, d, w'))) j' = Some x'" "fst (snd x) = fst (snd x')" for j j' x x'
    using * [OF that(1)] * [OF that(2)] views_okD(2) [OF assms(1)] that(3) by fastforce
qed

lemma views_ok_fresh:
  assumes "views_ok v newest"
  shows "views_ok (v(k \<mapsto> (k, newest + 1, w))) (newest + 1)"
proof (rule views_okI)
  have old: "fst x = j \<and> 0 < fst (snd x) \<and> fst (snd x) \<le> newest" if "v j = Some x" for j x
    using views_okD(1) [OF assms that] .
  show "fst x = j \<and> 0 < fst (snd x) \<and> fst (snd x) \<le> newest + 1" if "(v(k \<mapsto> (k, newest + 1, w))) j = Some x" for j x
    using that old [of j x] by (auto split: if_splits)
  show "j = j'" if "(v(k \<mapsto> (k, newest + 1, w))) j = Some x" "(v(k \<mapsto> (k, newest + 1, w))) j' = Some x'"
      "fst (snd x) = fst (snd x')" for j j' x x'
  proof (cases "j = k \<or> j' = k")
    case True
    then show ?thesis using that old [of j x] old [of j' x'] by (cases "j = j'") (auto split: if_splits)
  next
    case False
    then show ?thesis using that views_okD(2) [OF assms, of j x j' x'] by simp
  qed
qed

text \<open>The table is in order and its lists hold what \<open>own\<close> says; between two steps of an operation
  \<open>own\<close> is not yet the records' own word.\<close>

definition tracks :: "(u32 \<Rightarrow> u32) \<Rightarrow> object_table \<Rightarrow> bool" where
  "tracks own t \<longleftrightarrow>
     bt_ok (ot_objects t) \<and> bt_ok (ot_equipment_index t) \<and>
     views_ok (record_view (ot_objects t)) (ot_next_identity t) \<and> listed own (worn_list t)"

definition worn_ok :: "object_table \<Rightarrow> bool" where
  "worn_ok t \<longleftrightarrow> tracks (table_owner t) t"

section \<open>The trees\<close>

lemma list_or_default_insert:
  "bt_ok index \<Longrightarrow> list_or_default (bt_insert k xs index) = (list_or_default index)(k := xs)"
  by (auto simp: list_or_default_def bt_get_insert fun_eq_iff)

lemma list_or_default_remove: "list_or_default (bt_remove k index) = (list_or_default index)(k := [])"
  by (auto simp: list_or_default_def bt_get_remove fun_eq_iff)

lemma record_view_insert:
  "bt_ok objs \<Longrightarrow> record_view (bt_insert k item objs) = (record_view objs)(k \<mapsto> (ob_object_id item, ob_identity item, owner_of item))"
  by (auto simp: record_view_def bt_get_insert fun_eq_iff)

lemma record_view_same:
  "bt_ok objs \<Longrightarrow> bt_get objs k = Some item \<Longrightarrow> ob_object_id item' = ob_object_id item \<Longrightarrow>
   ob_identity item' = ob_identity item \<Longrightarrow> owner_of item' = owner_of item \<Longrightarrow>
   record_view (bt_insert k item' objs) = record_view objs"
  by (auto simp: record_view_insert record_view_def fun_eq_iff)

lemma owner_of_slot [simp]: "owner_of (item\<lparr>ob_container_slot := s\<rparr>) = owner_of item"
  by (simp add: owner_of_def placement_of_def equipment_owner_def)

text \<open>Renumbering touches the slots alone.\<close>

definition renumbered :: "objects \<Rightarrow> objects \<Rightarrow> bool" where
  "renumbered objs objs' \<longleftrightarrow> (bt_ok objs \<longrightarrow> bt_ok objs' \<and> record_view objs' = record_view objs)"

lemma renumbered_refl [simp, intro]: "renumbered objs objs"
  by (simp add: renumbered_def)

lemma renumbered_trans: "renumbered objs objs1 \<Longrightarrow> renumbered objs1 objs2 \<Longrightarrow> renumbered objs objs2"
  by (simp add: renumbered_def)

lemma renumbered_slot: "bt_get objs k = Some m \<Longrightarrow> renumbered objs (bt_insert k (m\<lparr>ob_container_slot := s\<rparr>) objs)"
  by (simp add: renumbered_def bt_ok_insert record_view_same [of objs k m])

lemma renumber_category_view [simp]: "renumbered objs (renumber_container_category objs ks c p s)"
proof (induction objs ks c p s rule: renumber_container_category.induct)
  case (2 objs k ks c p s)
  then show ?case by (auto split: option.split intro: renumbered_trans [OF renumbered_slot])
qed simp

lemma renumber_container_view [simp]: "renumbered objs (renumber_container objs ks s)"
proof (induction objs ks s rule: renumber_container.induct)
  case (2 objs k ks s)
  then show ?case by (auto split: option.splits intro: renumbered_trans [OF renumbered_slot])
qed simp

lemma remove_from_all_view: "renumbered objs (fst (snd (remove_from_all_container_indexes index objs k dst c)))"
proof (induction index objs k dst c rule: remove_from_all_container_indexes.induct)
  case (2 c ms index objs k dst was)
  then show ?case
    by (auto simp: Let_def case_prod_beta intro: renumbered_trans [OF renumber_category_view])
qed simp

lemma insert_member_view: "renumbered objs (snd (insert_container_member index objs k s))"
  by (auto simp: insert_container_member_def Let_def case_prod_beta split: option.split)


section \<open>Tables\<close>

lemma table_owner_put:
  "bt_ok (ot_objects t) \<Longrightarrow> table_owner (put_object k item t) = (table_owner t)(k := owner_of item)"
  by (auto simp: table_owner_def put_object_def record_view_insert fun_eq_iff)

lemma table_owner_get: "table_get t k = Some item \<Longrightarrow> table_owner t k = owner_of item"
  by (simp add: table_owner_def record_view_def table_get_def)

lemma table_owner_absent: "table_get t k = None \<Longrightarrow> table_owner t k = 0"
  by (simp add: table_owner_def record_view_def table_get_def)

text \<open>What the lists do not depend on.\<close>

lemma tracks_more [simp]:
  "tracks own (t\<lparr>ot_container_index := x\<rparr>) = tracks own t"
  "tracks own (t\<lparr>ot_described_containers := ds\<rparr>) = tracks own t"
  "tracks own (t\<lparr>ot_pending_moves := ps\<rparr>) = tracks own t"
  "tracks own (t\<lparr>ot_pending_unresolved := us\<rparr>) = tracks own t"
  "tracks own (t\<lparr>ot_mutation_revision := r\<rparr>) = tracks own t"
  "tracks own (t\<lparr>ot_clears := r\<rparr>) = tracks own t"
  "tracks own (bump n t) = tracks own t"
  "tracks own (fst (emit e t)) = tracks own t"
  by (simp_all add: tracks_def worn_list_def bump_def emit_def)

lemma table_owner_more [simp]:
  "table_owner (t\<lparr>ot_container_index := x\<rparr>) = table_owner t"
  "table_owner (t\<lparr>ot_equipment_index := x\<rparr>) = table_owner t"
  "table_owner (t\<lparr>ot_described_containers := ds\<rparr>) = table_owner t"
  "table_owner (t\<lparr>ot_pending_moves := ps\<rparr>) = table_owner t"
  "table_owner (t\<lparr>ot_pending_unresolved := us\<rparr>) = table_owner t"
  "table_owner (t\<lparr>ot_mutation_revision := r\<rparr>) = table_owner t"
  "table_owner (t\<lparr>ot_next_identity := n\<rparr>) = table_owner t"
  "table_owner (t\<lparr>ot_clears := r\<rparr>) = table_owner t"
  "table_owner (bump n t) = table_owner t"
  "table_owner (fst (emit e t)) = table_owner t"
  by (simp_all add: table_owner_def bump_def emit_def fun_eq_iff)

lemma table_get_more [simp]:
  "table_get (t\<lparr>ot_container_index := x\<rparr>) k = table_get t k"
  "table_get (t\<lparr>ot_equipment_index := x\<rparr>) k = table_get t k"
  "table_get (t\<lparr>ot_described_containers := ds\<rparr>) k = table_get t k"
  "table_get (t\<lparr>ot_pending_moves := ps\<rparr>) k = table_get t k"
  "table_get (t\<lparr>ot_pending_unresolved := us\<rparr>) k = table_get t k"
  "table_get (t\<lparr>ot_mutation_revision := r\<rparr>) k = table_get t k"
  "table_get (t\<lparr>ot_next_identity := n\<rparr>) k = table_get t k"
  "table_get (bump n t) k = table_get t k"
  by (simp_all add: table_get_def bump_def)

lemma worn_ok_more [simp]:
  "worn_ok (t\<lparr>ot_container_index := x\<rparr>) = worn_ok t"
  "worn_ok (t\<lparr>ot_described_containers := ds\<rparr>) = worn_ok t"
  "worn_ok (t\<lparr>ot_pending_moves := ps\<rparr>) = worn_ok t"
  "worn_ok (t\<lparr>ot_pending_unresolved := us\<rparr>) = worn_ok t"
  "worn_ok (bump n t) = worn_ok t"
  "worn_ok (fst (emit e t)) = worn_ok t"
  by (simp_all add: worn_ok_def)

lemma tracks_ok: "tracks own t \<Longrightarrow> bt_ok (ot_objects t)" "tracks own t \<Longrightarrow> bt_ok (ot_equipment_index t)"
  by (simp_all add: tracks_def)

lemma tracks_record:
  "tracks own t \<Longrightarrow> table_get t k = Some item \<Longrightarrow> ob_object_id item = k \<and> 0 < ob_identity item \<and> ob_identity item \<le> ot_next_identity t"
  using views_okD(1) [of "record_view (ot_objects t)" "ot_next_identity t" k "(ob_object_id item, ob_identity item, owner_of item)"]
  by (simp add: tracks_def record_view_def table_get_def)

lemma tracks_renumbered:
  assumes "tracks own t" "renumbered (ot_objects t) objs"
  shows "tracks own (t\<lparr>ot_objects := objs\<rparr>)" "table_owner (t\<lparr>ot_objects := objs\<rparr>) = table_owner t"
proof -
  have "bt_ok objs" "record_view objs = record_view (ot_objects t)"
    using assms by (simp_all add: tracks_def renumbered_def)
  then show "tracks own (t\<lparr>ot_objects := objs\<rparr>)" "table_owner (t\<lparr>ot_objects := objs\<rparr>) = table_owner t"
    using assms(1) by (simp_all add: tracks_def worn_list_def) (simp add: table_owner_def fun_eq_iff)
qed

text \<open>A record changed in place.\<close>

lemma tracks_put:
  assumes "tracks own t" "table_get t k = Some old" "ob_object_id item = ob_object_id old" "ob_identity item = ob_identity old"
  shows "tracks own (put_object k item t)"
proof -
  have "views_ok ((record_view (ot_objects t))(k \<mapsto> (ob_object_id item, ob_identity item, owner_of item))) (ot_next_identity t)"
    using assms by (intro views_ok_keep [where w = "owner_of old"]) (auto simp: tracks_def record_view_def table_get_def)
  then show ?thesis
    using assms(1) by (auto simp: tracks_def put_object_def record_view_insert bt_ok_insert worn_list_def)
qed

lemma worn_ok_put:
  assumes "worn_ok t" "table_get t k = Some old" "ob_object_id item = ob_object_id old" "ob_identity item = ob_identity old"
    "owner_of item = owner_of old"
  shows "worn_ok (put_object k item t)"
proof -
  have "table_owner (put_object k item t) = table_owner t"
    using assms(1,2,5) by (auto simp: worn_ok_def table_owner_put tracks_ok table_owner_get fun_eq_iff)
  then show ?thesis using assms tracks_put [of "table_owner t" t k old item] by (simp add: worn_ok_def)
qed

text \<open>A record under a new identity.\<close>

lemma tracks_put_fresh:
  assumes "tracks own t" "ob_object_id item = k" "ob_identity item = ot_next_identity t + 1"
  shows "tracks own (put_object k item (t\<lparr>ot_next_identity := ot_next_identity t + 1\<rparr>))"
proof -
  have "views_ok ((record_view (ot_objects t))(k \<mapsto> (ob_object_id item, ob_identity item, owner_of item))) (ot_next_identity t + 1)"
    using assms views_ok_fresh [of _ "ot_next_identity t" k] by (simp add: tracks_def)
  then show ?thesis
    using assms(1) by (auto simp: tracks_def put_object_def record_view_insert bt_ok_insert worn_list_def)
qed

lemma table_get_put [simp]: "bt_ok (ot_objects t) \<Longrightarrow> table_get (put_object k item t) k' = (if k' = k then Some item else table_get t k')"
  by (simp add: table_get_def put_object_def bt_get_insert)

lemma owner_of_new [simp]: "owner_of ((client_object_new k)\<lparr>ob_identity := d\<rparr>) = 0"
  by (simp add: owner_of_def placement_of_def equipment_owner_def client_object_new_def)

lemma object_id_new [simp]: "ob_object_id (client_object_new k) = k"
  by (simp add: client_object_new_def)

lemma ensured:
  assumes "ensure_record k t = (item, existed, t')" "tracks own t"
  shows "tracks own t'" "table_get t' k = Some item" "table_owner t' = table_owner t" "existed \<longleftrightarrow> table_get t k \<noteq> None"
proof -
  show "tracks own t'"
    using assms tracks_put_fresh [of own t "(client_object_new k)\<lparr>ob_identity := ot_next_identity t + 1\<rparr>" k]
    by (cases "table_get t k") (auto simp: ensure_record_def fresh_identity_def Let_def)
  show "table_owner t' = table_owner t"
    using assms by (auto simp: ensure_record_def fresh_identity_def Let_def table_owner_put tracks_ok table_owner_absent fun_eq_iff
        split: option.splits)
qed (use assms in \<open>auto simp: ensure_record_def fresh_identity_def Let_def tracks_ok split: option.splits\<close>)

section \<open>The equipment lists\<close>

lemma update_index_ok: "bt_ok index \<Longrightarrow> bt_ok (update_equipment_index index k p c)"
  by (auto simp: update_equipment_index_def Let_def bt_ok_insert bt_ok_remove split: option.split)

text \<open>The member that moves is on its new owner's list, and the others stay where they are.\<close>

lemma update_index_lists:
  assumes "bt_ok index"
  shows "equipment_owner c \<noteq> 0 \<Longrightarrow> p \<noteq> c \<Longrightarrow>
      k \<in> set (list_or_default (update_equipment_index index k p c) (equipment_owner c))"
    and "k' \<noteq> k \<Longrightarrow>
      k' \<in> set (list_or_default (update_equipment_index index k p c) w) \<longleftrightarrow> k' \<in> set (list_or_default index w)"
proof -
  let ?x = "if equipment_owner p = 0 then index
            else case bt_get index (equipment_owner p) of None \<Rightarrow> index
              | Some xs \<Rightarrow> if filter (\<lambda>id. id \<noteq> k) xs = [] then bt_remove (equipment_owner p) index
                          else bt_insert (equipment_owner p) (filter (\<lambda>id. id \<noteq> k) xs) index"
  have ok: "bt_ok ?x"
    using assms by (auto simp: bt_ok_insert bt_ok_remove split: option.split)
  have rest: "k' \<in> set (list_or_default ?x w) \<longleftrightarrow> k' \<in> set (list_or_default index w)" if "k' \<noteq> k" for k' w
    using assms that
    by (auto simp: list_or_default_insert list_or_default_remove filter_empty_conv split: option.split)
      (auto simp: list_or_default_def)
  have upd: "update_equipment_index index k p c =
      (if p = c then index else if equipment_owner c = 0 then ?x
       else bt_insert (equipment_owner c) (k # filter (\<lambda>id. id \<noteq> k) (list_or_default ?x (equipment_owner c))) ?x)"
    by (simp only: update_equipment_index_def Let_def)
  show "k \<in> set (list_or_default (update_equipment_index index k p c) (equipment_owner c))"
    if "equipment_owner c \<noteq> 0" "p \<noteq> c"
    unfolding upd using ok that by (simp add: list_or_default_insert)
  show "k' \<in> set (list_or_default (update_equipment_index index k p c) w) \<longleftrightarrow> k' \<in> set (list_or_default index w)" if "k' \<noteq> k"
    unfolding upd using ok that rest [OF that] by (auto simp: list_or_default_insert)
qed

lemma tracks_update:
  assumes "tracks own t" "own k = equipment_owner p"
  shows "tracks (own(k := equipment_owner c)) (t\<lparr>ot_equipment_index := update_equipment_index (ot_equipment_index t) k p c\<rparr>)"
proof -
  have ok: "bt_ok (ot_equipment_index t)" using assms(1) by (simp add: tracks_def)
  have "listed (own(k := equipment_owner c)) (list_or_default (update_equipment_index (ot_equipment_index t) k p c))"
    unfolding listed_def
  proof (intro allI impI)
    fix k'
    assume *: "(own(k := equipment_owner c)) k' \<noteq> 0"
    show "k' \<in> set (list_or_default (update_equipment_index (ot_equipment_index t) k p c) ((own(k := equipment_owner c)) k'))"
    proof (cases "k' = k \<and> p \<noteq> c")
      case False
      then have "own k' = (own(k := equipment_owner c)) k'" using assms(2) by auto
      then have "k' \<in> set (list_or_default (ot_equipment_index t) ((own(k := equipment_owner c)) k'))"
        using * assms(1) unfolding tracks_def listed_def worn_list_def by metis
      then show ?thesis
        using False update_index_lists(2) [OF ok] by (cases "k' = k") (auto simp: update_equipment_index_def)
    qed (use * update_index_lists(1) [OF ok] in auto)
  qed
  then show ?thesis using assms(1) by (simp add: tracks_def worn_list_def update_index_ok)
qed

end
