(* ===== verification/Worn_Kept.thy ===== *)
theory Worn_Kept
  imports Worn_Objects
begin

text \<open>
  Every operation of the object table keeps the equipment lists true to the records; the invariant
  itself and what it rests on are in \<open>Worn_Objects\<close>.
\<close>

section \<open>A record that moves\<close>

lemma worn_ok_moved:
  assumes "tracks own t" "own k = equipment_owner p" "table_owner t = own(k := equipment_owner c)"
    "index = ot_equipment_index t"
  shows "worn_ok (t\<lparr>ot_equipment_index := update_equipment_index index k p c\<rparr>)"
  using tracks_update [OF assms(1,2), of c] assms(3,4) by (simp add: worn_ok_def)

lemma worn_ok_tracks: "worn_ok t \<Longrightarrow> tracks (table_owner t) t"
  by (simp add: worn_ok_def)

lemma worn_ok_emit [simp]: "worn_ok (fst (emit_added_or_updated k e t)) = worn_ok t" "worn_ok (fst (emit_updated k t)) = worn_ok t"
  by (simp_all add: emit_added_or_updated_def emit_updated_def)

lemma placed [simp]:
  "ob_object_id (hinted h (place_object p item)) = ob_object_id item"
  "ob_identity (hinted h (place_object p item)) = ob_identity item"
  "placement_of (hinted h item) = placement_of item"
  "placement_of (place_object p item) = p"
  by (simp_all add: hinted_def place_object_def placement_of_def split: option.split)

lemma owner_of_placed [simp]: "owner_of (hinted h (place_object p item)) = equipment_owner p"
  by (simp add: owner_of_def)

lemma server_showed [simp]:
  "ob_object_id (server_showed_object item) = ob_object_id item"
  "ob_identity (server_showed_object item) = ob_identity item"
  "placement_of (server_showed_object item) = placement_of item"
  "owner_of (server_showed_object item) = owner_of item"
  by (simp_all add: server_showed_object_def placement_of_def owner_of_def)

lemma left_lists:
  assumes "leave_lists k item dst r t = (changed, t')" "tracks own t"
  shows "tracks own t'" "table_owner t' = table_owner t"
  using assms remove_from_all_view [of "ot_objects t" "ot_container_index t" k dst "is_container_list_member item"]
    tracks_renumbered [of own t] tracks_renumbered [of own "t\<lparr>ot_container_index := i\<rparr>" for i]
  by (auto simp: leave_lists_def case_prod_beta split: if_splits)

lemma joined_list:
  assumes "tracks own t"
  shows "tracks own (join_list k p old r t)" "table_owner (join_list k p old r t) = table_owner t"
  using assms insert_member_view [of "ot_objects t" "ot_container_index t" k "pc_container_slot p"]
    tracks_renumbered [of own t] tracks_renumbered [of own "t\<lparr>ot_container_index := i\<rparr>" for i]
  by (auto simp: join_list_def case_prod_beta split: if_splits)

lemma worn_publish:
  assumes "tracks own t" "own k = equipment_owner p" "table_owner t = own(k := w)" "table_get t k \<noteq> None"
  shows "worn_ok (fst (publish_placement_change k p origin t))"
proof -
  obtain item where item: "table_get t k = Some item" using assms(4) by auto
  then have "w = equipment_owner (placement_of item)"
    using assms(3) table_owner_get [OF item] by (simp add: owner_of_def)
  then show ?thesis
    using assms item worn_ok_moved [of own t k p "placement_of item"] by (simp add: publish_placement_change_def Let_def)
qed

lemma got_owner: "table_get t k = Some item \<Longrightarrow> table_owner t k = equipment_owner (placement_of item)"
  using table_owner_get [of t k item] by (simp add: owner_of_def)

lemma absent_view: "table_get t k = None \<longleftrightarrow> record_view (ot_objects t) k = None"
  by (simp add: record_view_def table_get_def)

lemma joined_present:
  assumes "tracks own t"
  shows "table_get (join_list k' p old r t) k = None \<longleftrightarrow> table_get t k = None"
  using assms insert_member_view [of "ot_objects t" "ot_container_index t" k' "pc_container_slot p"]
  by (simp add: join_list_def case_prod_beta absent_view renumbered_def tracks_def)

lemma worn_apply_placement:
  assumes "worn_ok t"
  shows "worn_ok (fst (snd (apply_placement k p h origin r t)))"
proof (cases "table_get t k")
  case (Some item)
  obtain changed t1 where t1: "leave_lists k item (pc_container_id p) r t = (changed, t1)" by force
  note tr1 = left_lists [OF t1 worn_ok_tracks [OF assms]]
  show ?thesis
  proof (cases "table_get t1 k")
    case None
    then show ?thesis using Some t1 tr1 by (simp add: apply_placement_def worn_ok_def)
  next
    case (Some item1)
    let ?t2 = "put_object k (hinted h (place_object p item1)) t1"
    have tr2: "tracks (table_owner t) ?t2" using tr1(1) Some by (rule tracks_put) simp_all
    have ow2: "table_owner ?t2 = (table_owner t)(k := equipment_owner p)"
      using tr1 by (simp add: table_owner_put tracks_ok(1))
    let ?t3 = "join_list k p (pc_container_id (placement_of item)) r ?t2"
    have "table_get ?t3 k \<noteq> None"
      using joined_present [OF tr2, of k p "pc_container_id (placement_of item)" r k] tracks_ok(1) [OF tr1(1)] by simp
    then have "worn_ok (fst (publish_placement_change k (placement_of item) origin ?t3))"
      using worn_publish [of "table_owner t" ?t3 k "placement_of item" "equipment_owner p" origin]
        joined_list [OF tr2] ow2 got_owner [OF \<open>table_get t k = Some item\<close>] by simp
    then show ?thesis
      using \<open>table_get t k = Some item\<close> t1 Some by (simp add: apply_placement_def Let_def case_prod_beta)
  qed
qed (use assms in \<open>simp add: apply_placement_def\<close>)

section \<open>Moves\<close>

lemma worn_ok_showed: "worn_ok t \<Longrightarrow> table_get t k = Some item \<Longrightarrow> worn_ok (put_object k (server_showed_object item) t)"
  by (rule worn_ok_put) simp_all

lemma worn_move_item: "worn_ok t \<Longrightarrow> worn_ok (fst (snd (move_item k c s e h t)))"
  by (simp add: move_item_def worn_apply_placement split: option.split)

lemma worn_server_move: "worn_ok t \<Longrightarrow> worn_ok (fst (snd (apply_server_move k p h t)))"
  by (simp add: apply_server_move_def worn_apply_placement worn_ok_showed split: option.split)

lemma worn_confirm_move [simp]: "worn_ok (confirm_move k t) = worn_ok t"
  by (simp add: confirm_move_def split: option.split)

lemma worn_confirmed_server_move: "worn_ok t \<Longrightarrow> worn_ok (fst (snd (apply_confirmed_server_move k p h t)))"
  using worn_server_move [of "confirm_move k t" k p h]
  by (simp add: apply_confirmed_server_move_def Let_def case_prod_beta)

lemma worn_confirmed_server_wield: "worn_ok t \<Longrightarrow> worn_ok (fst (snd (apply_confirmed_server_wield k w e t)))"
  by (simp add: apply_confirmed_server_wield_def Let_def case_prod_beta worn_apply_placement worn_ok_showed split: option.split)

lemma worn_record_pending [simp]: "worn_ok (record_pending k t) = worn_ok t"
  by (simp add: record_pending_def split: option.split)

lemma table_get_pending [simp]: "table_get (record_pending k t) k' = table_get t k'"
  by (simp add: record_pending_def split: option.split)

lemma worn_wield_item: "worn_ok t \<Longrightarrow> worn_ok (fst (snd (wield_item_optimistic k w m t)))"
  by (simp add: wield_item_optimistic_def worn_move_item split: option.split)

lemma worn_rollback: "worn_ok t \<Longrightarrow> worn_ok (fst (snd (rollback_move k t)))"
  using worn_apply_placement [of "t\<lparr>ot_pending_moves := hm_remove k (ot_pending_moves t)\<rparr>" k]
  by (simp add: rollback_move_def Let_def case_prod_beta split: option.split)

lemma worn_reject: "worn_ok t \<Longrightarrow> worn_ok (fst (snd (reject_move k e t)))"
  using worn_rollback [of t k] by (simp add: reject_move_def case_prod_beta)

text \<open>Between the record's change and its announcement the optimistic move only renumbers slots.\<close>

definition in_transit :: "(u32 \<Rightarrow> u32) \<Rightarrow> u32 \<Rightarrow> u32 \<Rightarrow> object_table \<Rightarrow> bool" where
  "in_transit own k w t \<longleftrightarrow> tracks own t \<and> table_owner t = own(k := w) \<and> table_get t k \<noteq> None"

lemma in_transit_index [simp]: "in_transit own k w (t\<lparr>ot_container_index := i\<rparr>) = in_transit own k w t"
  by (simp add: in_transit_def)

lemma in_transit_renumbered:
  assumes "in_transit own k w t" "renumbered (ot_objects t) objs"
  shows "in_transit own k w (t\<lparr>ot_objects := objs\<rparr>)"
proof -
  have "bt_ok (ot_objects t)" using assms tracks_ok by (auto simp: in_transit_def)
  then have "table_get (t\<lparr>ot_objects := objs\<rparr>) k = None \<longleftrightarrow> table_get t k = None"
    using assms(2) by (simp add: absent_view renumbered_def)
  then show ?thesis using assms tracks_renumbered [of own t objs] by (simp add: in_transit_def)
qed

lemma in_transit_slot:
  "in_transit own k w t \<Longrightarrow> table_get t k = Some item \<Longrightarrow> in_transit own k w (put_object k (item\<lparr>ob_container_slot := s\<rparr>) t)"
  using in_transit_renumbered [of own k w t "bt_insert k (item\<lparr>ob_container_slot := s\<rparr>) (ot_objects t)"]
    renumbered_slot [of "ot_objects t" k item s]
  by (simp add: put_object_def table_get_def)

lemma in_transit_put:
  assumes "worn_ok t" "table_get t k = Some item" "ob_object_id item' = ob_object_id item" "ob_identity item' = ob_identity item"
  shows "in_transit (table_owner t) k (owner_of item') (put_object k item' t)"
  using assms tracks_put [of "table_owner t" t k item item']
  by (simp add: in_transit_def worn_ok_def table_owner_put tracks_ok)

lemma in_transit_publish:
  "in_transit own k w t \<Longrightarrow> own k = equipment_owner p \<Longrightarrow> worn_ok (fst (publish_placement_change k p origin t))"
  using worn_publish [of own t k p w origin] by (simp add: in_transit_def)

lemma pending_owner [simp]: "table_owner (record_pending k t) = table_owner t"
  by (simp add: record_pending_def split: option.split)

lemma in_transit_left: "in_transit own k w t \<Longrightarrow> in_transit own k w (leave_source k old c t)"
  by (auto simp: leave_source_def Let_def split: option.split intro!: in_transit_renumbered)

lemma in_transit_joined: "in_transit own k w t \<Longrightarrow> in_transit own k w (join_destination k c s t)"
  by (auto simp: join_destination_def Let_def split: option.split intro!: in_transit_renumbered in_transit_slot)

lemma worn_move_optimistic:
  assumes "worn_ok t"
  shows "worn_ok (fst (snd (move_item_optimistic k c s t)))"
proof (cases "table_get t k")
  case (Some item)
  let ?old = "pc_container_id (placement_of item)"
  define t1 where "t1 = put_object k (item\<lparr>ob_container_id := c, ob_currently_equipped_location := 0\<rparr>) (record_pending k t)"
  obtain w where 1: "in_transit (table_owner t) k w t1"
    using in_transit_put [of "record_pending k t" k item "item\<lparr>ob_container_id := c, ob_currently_equipped_location := 0\<rparr>"]
      Some assms by (simp add: t1_def)
  obtain index changed where i: "remove_from_other_container_indexes (ot_container_index t1) k c = (index, changed)" by force
  define t2 where "t2 = join_destination k c s (leave_source k ?old c (t1\<lparr>ot_container_index := index\<rparr>))"
  have 2: "in_transit (table_owner t) k w t2"
    using 1 by (simp add: t2_def in_transit_left in_transit_joined)
  have "move_item_optimistic k c s t =
      (let (t', events) = publish_placement_change k (placement_of item) LocalProjection t2
       in (True, t', events @ publish_container_contents_changes changed))"
    using Some i by (simp add: move_item_optimistic_def t1_def [symmetric] t2_def Let_def)
  then show ?thesis
    using in_transit_publish [OF 2, of "placement_of item"] got_owner [OF Some] by (simp add: case_prod_beta)
qed (use assms in \<open>simp add: move_item_optimistic_def\<close>)

section \<open>Removals\<close>

lemma views_ok_drop: "views_ok v n \<Longrightarrow> views_ok (v(k := None)) n"
  unfolding views_ok_def by simp

lemma record_view_remove: "record_view (bt_remove k objs) = (record_view objs)(k := None)"
  by (auto simp: record_view_def bt_get_remove fun_eq_iff)

lemma tracks_remove:
  "tracks own t \<Longrightarrow> tracks own (t\<lparr>ot_objects := bt_remove k (ot_objects t)\<rparr>)"
  by (simp add: tracks_def bt_ok_remove record_view_remove views_ok_drop worn_list_def)

lemma table_owner_remove: "table_owner (t\<lparr>ot_objects := bt_remove k (ot_objects t)\<rparr>) = (table_owner t)(k := 0)"
  by (auto simp: table_owner_def record_view_remove fun_eq_iff)

lemma equipment_owner_default [simp]: "equipment_owner placement_default = 0"
  by (simp add: equipment_owner_def placement_default_def)

lemma worn_remove_core:
  assumes "worn_ok t"
  shows "worn_ok (fst (snd (remove_core k reason g t)))"
proof (cases "table_get t k")
  case (Some item)
  have "tracks (table_owner t) (t\<lparr>ot_objects := bt_remove k (ot_objects t)\<rparr>)"
    using assms by (simp add: tracks_remove worn_ok_def)
  then have "worn_ok (t\<lparr>ot_objects := bt_remove k (ot_objects t), ot_described_containers := ds, ot_container_index := i,
      ot_equipment_index := update_equipment_index (ot_equipment_index t) k (placement_of item) placement_default\<rparr>)" for ds i
    by (intro worn_ok_moved [where own = "table_owner t"]) (simp_all add: table_owner_remove got_owner [OF Some])
  then show ?thesis using Some by (simp add: remove_core_def Let_def case_prod_beta)
qed (use assms in \<open>simp add: remove_core_def\<close>)

lemma worn_empty: "ot_objects t = [] \<Longrightarrow> ot_equipment_index t = [] \<Longrightarrow> worn_ok t"
  by (simp add: worn_ok_def tracks_def record_view_def views_ok_def listed_def table_owner_def worn_list_def)

lemma worn_clear: "worn_ok (fst (clear_table t))"
  unfolding clear_table_def worn_ok_more by (rule worn_empty) simp_all

lemma worn_new: "worn_ok table_new"
  by (rule worn_empty) (simp_all add: table_new_def)

section \<open>Properties\<close>

lemma owner_of_cong: "placement_of item' = placement_of item \<Longrightarrow> owner_of item' = owner_of item"
  by (simp add: owner_of_def)

text \<open>A change that leaves the placement and the identity of a record alone.\<close>

definition keeps_place :: "(client_object \<Rightarrow> client_object) \<Rightarrow> bool" where
  "keeps_place f \<longleftrightarrow> (\<forall>item. ob_object_id (f item) = ob_object_id item \<and> ob_identity (f item) = ob_identity item \<and>
     placement_of (f item) = placement_of item)"

lemma keeps_place_showed: "keeps_place server_showed_object"
  by (simp add: keeps_place_def)

lemma keeps_place_merge: "keeps_place (merge_properties b)"
  by (simp add: keeps_place_def merge_properties_def Let_def placement_of_def split: option.split)

lemma keeps_place_cooldown: "keeps_place (apply_cooldown_properties b)"
  by (simp add: keeps_place_def apply_cooldown_properties_def Let_def placement_of_def split: option.split)

lemmas keeps_place_facts =
  keeps_place_showed [unfolded keeps_place_def] keeps_place_merge [unfolded keeps_place_def]
  keeps_place_cooldown [unfolded keeps_place_def]

lemma keeps_place_update:
  "keeps_place (\<lambda>item. apply_cooldown_properties b (merge_properties b (server_showed_object item)))"
  unfolding keeps_place_def by (simp only: keeps_place_facts simp_thms)

lemma worn_put_kept: "worn_ok t \<Longrightarrow> keeps_place f \<Longrightarrow> table_get t k = Some item \<Longrightarrow> worn_ok (put_object k (f item) t)"
  by (rule worn_ok_put [where old = item]) (auto simp: keeps_place_def intro: owner_of_cong)

lemma worn_change_object: "worn_ok t \<Longrightarrow> keeps_place f \<Longrightarrow> worn_ok (fst (snd (change_object k f t)))"
  by (simp add: change_object_def worn_put_kept split: option.split)

lemma worn_notify: "worn_ok t \<Longrightarrow> worn_ok (fst (snd (notify_object_updated k t)))"
  by (simp add: notify_object_updated_def)

lemma worn_update_properties: "worn_ok t \<Longrightarrow> worn_ok (fst (snd (update_properties k b t)))"
  unfolding update_properties_def by (rule worn_change_object [OF _ keeps_place_update])

lemma worn_update_appraisal: "worn_ok t \<Longrightarrow> worn_ok (fst (snd (update_appraisal k a t)))"
  unfolding update_appraisal_def
  by (intro worn_change_object)
    (use keeps_place_merge [of "au_properties a"] keeps_place_cooldown [of "au_properties a"] in
      \<open>simp_all add: keeps_place_def Let_def placement_of_def\<close>)

lemma worn_unsuccessful: "worn_ok t \<Longrightarrow> worn_ok (fst (snd (record_unsuccessful_appraisal k n p t)))"
  by (simp add: record_unsuccessful_appraisal_def Let_def worn_ok_put owner_of_def placement_of_def split: option.split)

lemma tracks_put_kept: "tracks own t \<Longrightarrow> keeps_place f \<Longrightarrow> table_get t k = Some item \<Longrightarrow>
    tracks own (put_object k (f item) t) \<and> table_owner (put_object k (f item) t) = table_owner t"
  by (auto simp: keeps_place_def tracks_put table_owner_put tracks_ok owner_of_def got_owner fun_eq_iff)

lemma worn_upsert: "worn_ok t \<Longrightarrow> worn_ok (fst (upsert_properties k b t))"
proof -
  assume ok: "worn_ok t"
  obtain item existed t1 where e: "ensure_record k t = (item, existed, t1)" using prod_cases3 by blast
  note e1 = ensured [OF e worn_ok_tracks [OF ok]]
  have "worn_ok t1" using e1 by (simp add: worn_ok_def)
  from worn_put_kept [OF this keeps_place_update e1(2)] show ?thesis by (simp add: upsert_properties_def e)
qed

lemma worn_update_int: "worn_ok t \<Longrightarrow> worn_ok (fst (snd (update_int_property k p v t)))"
proof (cases "table_get t k")
  case (Some item)
  assume ok: "worn_ok t"
  let ?new = "mirror_int p v ((server_showed_object item)\<lparr>ob_properties :=
      (ob_properties (server_showed_object item))\<lparr>pb_ints := bt_insert p v (pb_ints (ob_properties (server_showed_object item)))\<rparr>\<rparr>)"
  have ids: "ob_object_id ?new = ob_object_id item" "ob_identity ?new = ob_identity item"
    by (simp_all add: mirror_int_def Let_def server_showed_object_def)
  have put: "tracks (table_owner t) (put_object k ?new t)"
    using tracks_put [OF worn_ok_tracks [OF ok] Some ids] .
  have own: "table_owner (put_object k ?new t) = (table_owner t)(k := equipment_owner (placement_of ?new))"
    using ok by (simp add: table_owner_put tracks_ok worn_ok_def owner_of_def)
  show ?thesis
  proof (cases "p = 10")
    case True
    then show ?thesis
      using worn_ok_moved [OF put _ own, of "placement_of item"] Some got_owner [OF Some]
      by (simp add: update_int_property_def Let_def put_object_def)
  next
    case False
    then have "placement_of ?new = placement_of item"
      by (simp add: mirror_int_def Let_def placement_of_def server_showed_object_def)
    then have "worn_ok (put_object k ?new t)" using worn_ok_put [OF ok Some ids] owner_of_cong by blast
    then show ?thesis using False Some by (simp add: update_int_property_def Let_def)
  qed
qed (simp add: update_int_property_def)

lemmas property_updates =
  update_data_id_property_def update_string_property_def update_int64_property_def update_float_property_def
  update_bool_property_def

lemma worn_property_updates:
  assumes "worn_ok t"
  shows "worn_ok (fst (snd (update_data_id_property k p w t)))"
    "worn_ok (fst (snd (update_string_property k p s t)))"
    "worn_ok (fst (snd (update_int64_property k p i t)))"
    "worn_ok (fst (snd (update_float_property k p d t)))"
    "worn_ok (fst (snd (update_bool_property k p b t)))"
  unfolding property_updates
  by (rule worn_change_object [OF assms];
      simp add: keeps_place_def Let_def placement_of_def server_showed_object_def split: option.split)+

lemma worn_update_instance: "worn_ok t \<Longrightarrow> worn_ok (fst (snd (update_instance_id_property k p v t)))"
  by (simp add: update_instance_id_property_def Let_def worn_ok_put owner_of_def placement_of_def server_showed_object_def
      split: option.split)

lemma worn_update_stack: "worn_ok t \<Longrightarrow> worn_ok (fst (snd (update_stack_size k n v t)))"
  by (simp add: update_stack_size_def Let_def case_prod_beta worn_ok_put owner_of_def placement_of_def server_showed_object_def
      split: option.split)

lemma worn_update_house: "worn_ok t \<Longrightarrow> worn_ok (fst (snd (update_house_restrictions k r t)))"
  by (simp add: update_house_restrictions_def Let_def worn_ok_put owner_of_def placement_of_def server_showed_object_def
      split: option.split)

lemma worn_marks:
  "worn_ok t \<Longrightarrow> worn_ok (fst (set_trade_state k v t))" "worn_ok t \<Longrightarrow> worn_ok (fst (set_sell_state k v t))"
  by (simp_all add: set_trade_state_def set_sell_state_def worn_notify worn_ok_put owner_of_def placement_of_def
      split: option.split)

end
