(* ===== verification/Worn_Listed.thy ===== *)
theory Worn_Listed
  imports Worn_Kept
begin

text \<open>
  Descriptions and listings keep the equipment lists true to the records, and with them every
  command: what is worn is listed, in every table a history of commands can make.
\<close>

section \<open>Descriptions\<close>

lemma worn_followed:
  assumes "tracks own t" "own k = equipment_owner p" "table_owner t = own(k := equipment_owner c)"
  shows "worn_ok (snd (follow_placement k p c t))"
  unfolding follow_placement_def Let_def case_prod_beta snd_conv
  by (rule worn_ok_moved [where own = own]) (use assms in simp_all)

lemma patched:
  "ob_object_id (patch_fields d item) = ob_object_id item" "ob_identity (patch_fields d item) = ob_identity item"
  by (simp_all add: patch_fields_def Let_def)

lemma patched_weenie:
  "ob_object_id (fst (patch_from_weenie d item)) = ob_object_id item"
  "ob_identity (fst (patch_from_weenie d item)) = ob_identity item"
  by (simp_all add: patch_from_weenie_def Let_def patched)

text \<open>The record written anew under its identity, and the lists made to follow.\<close>

lemma worn_rewritten:
  assumes "worn_ok t" "ensure_record k t = (item, existed, t1)"
    "ob_object_id item' = ob_object_id item" "ob_identity item' = ob_identity item"
  shows "tracks (table_owner t) (put_object k item' t1)"
    "table_owner (put_object k item' t1) = (table_owner t)(k := owner_of item')"
    "table_owner t k = owner_of item"
proof -
  note e = ensured [OF assms(2) worn_ok_tracks [OF assms(1)]]
  show "tracks (table_owner t) (put_object k item' t1)" using e(1,2) assms(3,4) by (rule tracks_put)
  show "table_owner (put_object k item' t1) = (table_owner t)(k := owner_of item')"
    using e by (simp add: table_owner_put tracks_ok)
  show "table_owner t k = owner_of item" using table_owner_get [OF e(2)] e(3) by simp
qed

lemma worn_ingest:
  assumes "worn_ok t"
  shows "worn_ok (fst (snd (ingest_object d t)))"
proof -
  obtain item existed t1 where e: "ensure_record (wd_guid d) t = (item, existed, t1)" using prod_cases3 by blast
  obtain item' n where p: "patch_from_weenie d (server_showed_object item) = (item', n)" by force
  have ids: "ob_object_id item' = ob_object_id item" "ob_identity item' = ob_identity item"
    using patched_weenie [of d "server_showed_object item"] p by simp_all
  note r = worn_rewritten [OF assms e ids]
  define t2 where "t2 = snd (follow_placement (wd_guid d) (placement_of item) (placement_of item')
      (bump n (put_object (wd_guid d) item' t1)))"
  have 2: "worn_ok t2"
    unfolding t2_def using r by (intro worn_followed [where own = "table_owner t"]) (simp_all add: owner_of_def)
  show ?thesis
    using 2 by (simp add: ingest_object_def e p Let_def case_prod_beta t2_def [symmetric] worn_server_move split: option.split)
qed

lemma worn_replace_generation: "worn_ok t \<Longrightarrow> worn_ok (fst (snd (replace_generation d g b t)))"
  using worn_remove_core [of t "wd_guid d" GenerationReplacement g]
  by (simp add: replace_generation_def case_prod_beta worn_ingest)

lemma worn_ingest_recreated: "worn_ok t \<Longrightarrow> worn_ok (fst (snd (ingest_recreated d t)))"
  using worn_ingest [of t d]
  by (simp add: ingest_recreated_def case_prod_beta worn_server_move split: option.split)

lemma worn_record_membership:
  assumes "worn_ok t"
  shows "worn_ok (fst (snd (record_membership k c e h p t)))"
proof -
  obtain item existed t1 where e: "ensure_record k t = (item, existed, t1)" using prod_cases3 by blast
  let ?put = "\<lambda>item'. fst (emit_added_or_updated k existed
      (snd (follow_placement k (placement_of item) (placement_of item') (put_object k item' t1))))"
  have *: "worn_ok (?put item')" if "ob_object_id item' = ob_object_id item" "ob_identity item' = ob_identity item" for item'
    using worn_rewritten [OF assms e that]
    by simp (intro worn_followed [where own = "table_owner t"]; simp add: owner_of_def)
  show ?thesis
    unfolding record_membership_def Let_def e prod.case case_prod_beta fst_conv snd_conv server_showed
    by (rule *) (simp_all add: hinted_def split: option.split)
qed

lemma worn_add_or_update:
  assumes "worn_ok t"
  shows "worn_ok (fst (snd (add_or_update item t)))"
proof -
  let ?item = "item\<lparr>ob_identity := ot_next_identity t + 1\<rparr>"
  let ?t = "put_object (ob_object_id item) ?item (t\<lparr>ot_next_identity := ot_next_identity t + 1\<rparr>)"
  let ?old = "case table_get t (ob_object_id item) of None \<Rightarrow> placement_default | Some p \<Rightarrow> placement_of p"
  have "tracks (table_owner t) ?t" using tracks_put_fresh [OF worn_ok_tracks [OF assms], of ?item] by simp
  moreover have "table_owner ?t = (table_owner t)(ob_object_id item := equipment_owner (placement_of ?item))"
    using assms by (simp add: table_owner_put tracks_ok worn_ok_def owner_of_def)
  moreover have "table_owner t (ob_object_id item) = equipment_owner ?old"
    by (simp add: got_owner table_owner_absent split: option.split)
  ultimately have "worn_ok (?t\<lparr>ot_equipment_index := update_equipment_index (ot_equipment_index ?t) (ob_object_id item) ?old (placement_of ?item)\<rparr>)"
    by (intro worn_ok_moved [where own = "table_owner t"]) simp_all
  then show ?thesis by (simp add: add_or_update_def fresh_identity_def Let_def case_prod_beta)
qed

section \<open>Listings\<close>

lemma worn_announce_all [simp]: "worn_ok (fst (announce_all ks t)) = worn_ok t"
proof (induction ks arbitrary: t)
  case (Cons e ks)
  obtain k existed where "e = (k, existed)" by force
  then show ?case using Cons.IH [of "fst (emit_added_or_updated k existed t)"] by (simp add: case_prod_beta)
qed simp

text \<open>The inventory listing.\<close>

lemma owner_nowhere [simp]: "equipment_owner (placement_of (nowhere item)) = 0" "owner_of (nowhere item) = 0"
  "ob_object_id (nowhere item) = ob_object_id item" "ob_identity (nowhere item) = ob_identity item"
  by (simp_all add: equipment_owner_def placement_of_def nowhere_def owner_of_def)

lemma worn_take_out: "worn_ok t \<Longrightarrow> worn_ok (snd (take_out_missing w inc ks t))"
proof (induction w inc ks t rule: take_out_missing.induct)
  case (2 w inc k ks t)
  show ?case
  proof (cases "if k \<in> inc then None else table_get t k")
    case None
    then show ?thesis using 2 by simp
  next
    case (Some item)
    then have got: "table_get t k = Some item" by (simp split: if_splits)
    let ?t = "put_object k (nowhere item) t"
    have tr: "tracks (table_owner t) ?t" by (rule tracks_put [OF worn_ok_tracks [OF 2(4)] got]) simp_all
    have ow: "table_owner ?t = (table_owner t)(k := equipment_owner (placement_of (nowhere item)))"
      using 2(4) by (simp add: table_owner_put tracks_ok worn_ok_def)
    have "worn_ok (?t\<lparr>ot_equipment_index := update_equipment_index (ot_equipment_index t) k (placement_of item) (placement_of (nowhere item))\<rparr>)"
      by (rule worn_ok_moved [OF tr _ ow]) (simp_all add: got_owner [OF got] put_object_def)
    then show ?thesis using 2 Some by (simp add: Let_def case_prod_beta put_object_def)
  qed
qed simp

lemma worn_put_in: "worn_ok t \<Longrightarrow> worn_ok (snd (snd (put_in_listed w n es t)))"
proof (induction es arbitrary: n t)
  case (Cons e es)
  obtain item existed t1 where en: "ensure_record (ce_guid e) t = (item, existed, t1)" using prod_cases3 by blast
  define item' where "item' = (server_showed_object item)\<lparr>ob_container_id := w, ob_container_slot := listed_slot n,
      ob_wielder_id := 0, ob_currently_equipped_location := 0, ob_container_type_hint := ce_container_type e\<rparr>"
  have ids: "ob_object_id item' = ob_object_id item" "ob_identity item' = ob_identity item" by (simp_all add: item'_def)
  note r = worn_rewritten [OF Cons.prems en ids]
  define t2 where "t2 = (put_object (ce_guid e) item' t1)
      \<lparr>ot_container_index := fst (remove_from_other_container_indexes (ot_container_index t1) (ce_guid e) w),
       ot_equipment_index := update_equipment_index (ot_equipment_index t1) (ce_guid e) (placement_of item) (placement_of item')\<rparr>"
  have "worn_ok t2"
    unfolding t2_def using r
    by (intro worn_ok_moved [where own = "table_owner t"]) (simp_all add: owner_of_def put_object_def)
  from Cons.IH [OF this, of "n + 1"] show ?case
    by (simp add: en Let_def case_prod_beta put_object_def item'_def [symmetric] t2_def)
qed simp

lemma worn_inventory_manifest: "worn_ok t \<Longrightarrow> worn_ok (fst (initialize_inventory_manifest w es t))"
  using worn_put_in [of "snd (take_out_missing w (set (map ce_guid es)) (get_contents t w) t)" w 0 es]
    worn_take_out [of t w "set (map ce_guid es)" "get_contents t w"]
  by (simp add: initialize_inventory_manifest_def case_prod_beta Let_def)

text \<open>The equipment listing: what the wielder wore and the listing leaves out loses its owner.\<close>

lemma not_worn: "table_get t k = Some item \<Longrightarrow> w \<noteq> 0 \<Longrightarrow> table_owner t k = w \<Longrightarrow> worn_by w item"
  by (auto simp: got_owner equipment_owner_def placement_of_def worn_by_def split: if_splits)

lemma take_off:
  assumes "worn_ok t" "w \<noteq> 0" "t' = snd (snd (take_off_missing w inc ks t))"
  shows "worn_ok t' \<and> ot_equipment_index t' = ot_equipment_index t \<and>
    (\<forall>k. table_owner t' k = table_owner t k \<or> table_owner t' k = 0) \<and>
    (\<forall>k. k \<in> set ks \<longrightarrow> k \<notin> inc \<longrightarrow> table_owner t' k \<noteq> w)"
  using assms(1) unfolding assms(3)
proof (induction ks arbitrary: t)
  case (Cons k ks)
  let ?skip = "take_off_missing w inc (k # ks) t = take_off_missing w inc ks t"
  show ?case
  proof (cases "if k \<in> inc then None else table_get t k")
    case None
    then have ?skip by simp
    moreover have "k \<in> inc \<or> table_owner t k = 0" using None by (auto simp: table_owner_absent split: if_splits)
    ultimately show ?thesis using Cons.IH [OF Cons.prems] assms(2) by (metis set_ConsD)
  next
    case (Some item)
    then have got: "table_get t k = Some item" by (simp split: if_splits)
    show ?thesis
    proof (cases "worn_by w item")
      case False
      then have ?skip using Some by simp
      moreover have "table_owner t k \<noteq> w" using not_worn [OF got assms(2)] False by blast
      ultimately show ?thesis using Cons.IH [OF Cons.prems] assms(2) by (metis set_ConsD)
    next
      case True
      define t1 where "t1 = put_object k (nowhere item) t"
      have "tracks (table_owner t) t1" unfolding t1_def by (rule tracks_put [OF worn_ok_tracks [OF Cons.prems] got]) simp_all
      moreover have ow: "table_owner t1 = (table_owner t)(k := 0)"
        using Cons.prems by (simp add: t1_def table_owner_put tracks_ok worn_ok_def)
      ultimately have "worn_ok t1" by (auto simp: worn_ok_def tracks_def listed_def)
      then have 2: "worn_ok (t1\<lparr>ot_container_index := fst (remove_from_other_container_indexes (ot_container_index t1) k 0)\<rparr>)" (is "worn_ok ?t2")
        by simp
      have step: "snd (snd (take_off_missing w inc (k # ks) t)) = snd (snd (take_off_missing w inc ks ?t2))"
        using Some True by (simp add: t1_def Let_def case_prod_beta put_object_def)
      have eq: "ot_equipment_index ?t2 = ot_equipment_index t" by (simp add: t1_def put_object_def)
      have ow2: "table_owner ?t2 = (table_owner t)(k := 0)" using ow by simp
      have "table_owner (snd (snd (take_off_missing w inc ks ?t2))) k = 0"
        using Cons.IH [OF 2] ow2 by (metis fun_upd_same)
      then show ?thesis unfolding step using Cons.IH [OF 2] eq ow2 assms(2) by (metis fun_upd_apply set_ConsD)
    qed
  qed
qed simp

text \<open>While the listed objects are put on, the lists of the other wielders stay true.\<close>

definition worn_elsewhere :: "u32 \<Rightarrow> object_table \<Rightarrow> u32 \<Rightarrow> u32" where
  "worn_elsewhere w t k = (if table_owner t k = w then 0 else table_owner t k)"

definition putting_on :: "u32 \<Rightarrow> u32 set \<Rightarrow> object_table \<Rightarrow> bool" where
  "putting_on w inc t \<longleftrightarrow> tracks (worn_elsewhere w t) t \<and> (\<forall>k. table_owner t k = w \<longrightarrow> k \<in> inc)"

lemma bt_get_map_values: "bt_get (map (\<lambda>(k, v). (k, f v)) m) k = map_option f (bt_get m k)"
  by (induction m) (auto simp: bt_get_def)

lemma bt_get_filter_values:
  "bt_ok m \<Longrightarrow> bt_get (filter (\<lambda>(k, v). p v) m) k = (case bt_get m k of None \<Rightarrow> None | Some v \<Rightarrow> if p v then Some v else None)"
  using hm_get_retain [of m "\<lambda>k v. p v" k]
  by (simp add: bt_ok_def strict_sorted_iff hm_ok_def hm_keys_def bt_keys_def hm_get_def bt_get_def hm_retain_def)

lemma membership_removed:
  assumes "bt_ok index"
  shows "bt_ok (remove_equipment_index_membership index k)"
    "list_or_default (remove_equipment_index_membership index k) w = filter (\<lambda>j. j \<noteq> k) (list_or_default index w)"
proof -
  let ?m = "map (\<lambda>(w, xs). (w, filter (\<lambda>j. j \<noteq> k) xs)) index"
  have keys: "bt_keys ?m = bt_keys index" by (induction index) (auto simp: bt_keys_def)
  then have ok: "bt_ok ?m" using assms by (simp add: bt_ok_def)
  then show "bt_ok (remove_equipment_index_membership index k)"
    by (simp add: remove_equipment_index_membership_def bt_ok_def bt_keys_def sorted_wrt_map sorted_wrt_filter)
  show "list_or_default (remove_equipment_index_membership index k) w = filter (\<lambda>j. j \<noteq> k) (list_or_default index w)"
    using bt_get_filter_values [OF ok, of "\<lambda>xs. xs \<noteq> []" w]
    by (auto simp: remove_equipment_index_membership_def list_or_default_def bt_get_map_values split: option.split)
qed

lemma putting_on_listed:
  assumes "putting_on w inc t" "w \<noteq> 0" "set (map ee_guid es) \<subseteq> inc"
  shows "putting_on w inc (snd (snd (put_on_listed w es t)))"
  using assms(1,3)
proof (induction es arbitrary: t)
  case (Cons e es)
  let ?k = "ee_guid e"
  obtain item existed t1 where en: "ensure_record ?k t = (item, existed, t1)" using prod_cases3 by blast
  define item' where "item' = (server_showed_object item)\<lparr>ob_container_id := 0, ob_container_slot := - 1, ob_wielder_id := w,
      ob_currently_equipped_location := ee_equip_location e, ob_priority := ee_priority e\<rparr>"
  define t2 where "t2 = put_object ?k item' t1"
  define t3 where "t3 = t2\<lparr>ot_container_index := reindex (fst (remove_from_other_container_indexes (ot_container_index t2) ?k 0))
        (ot_objects t2) ?k (pc_container_id (placement_of item)),
      ot_equipment_index := remove_equipment_index_membership (ot_equipment_index t2) ?k\<rparr>"
  have tr: "tracks (worn_elsewhere w t) t" and inc: "\<forall>k. table_owner t k = w \<longrightarrow> k \<in> inc"
    using Cons.prems(1) by (auto simp: putting_on_def)
  note e1 = ensured [OF en tr]
  have tr2: "tracks (worn_elsewhere w t) t2"
    unfolding t2_def by (rule tracks_put [OF e1(1,2)]) (simp_all add: item'_def)
  have own: "owner_of item' = (if ee_equip_location e = 0 then 0 else w)"
    using assms(2) by (simp add: item'_def owner_of_def placement_of_def equipment_owner_def)
  have ow2: "table_owner t2 = (table_owner t)(?k := owner_of item')"
    using e1 by (simp add: t2_def table_owner_put tracks_ok)
  have else2: "worn_elsewhere w t2 = (worn_elsewhere w t)(?k := 0)"
    using ow2 own by (auto simp: worn_elsewhere_def fun_eq_iff)
  have "listed (worn_elsewhere w t2) (list_or_default (remove_equipment_index_membership (ot_equipment_index t2) ?k))"
    using tr2 membership_removed [OF tracks_ok(2) [OF tr2]] unfolding else2
    by (auto simp: listed_def tracks_def worn_list_def)
  then have "tracks (worn_elsewhere w t2) t3"
    using tr2 membership_removed(1) [OF tracks_ok(2) [OF tr2], of ?k]
    by (simp add: t3_def tracks_def worn_list_def)
  moreover have own3: "table_owner t3 = table_owner t2" by (simp add: t3_def)
  moreover have "worn_elsewhere w t3 = worn_elsewhere w t2" by (simp add: own3 worn_elsewhere_def fun_eq_iff)
  ultimately have "putting_on w inc t3"
    using inc ow2 Cons.prems(2) by (auto simp: putting_on_def)
  from Cons.IH [OF this] Cons.prems(2) show ?case
    by (simp add: en Let_def case_prod_beta item'_def [symmetric] t2_def [symmetric] t3_def)
qed simp

lemma worn_equipment_manifest:
  assumes "worn_ok t"
  shows "worn_ok (fst (initialize_equipment_manifest w es t))"
proof (cases "w = 0")
  case False
  let ?inc = "ee_guid ` set es"
  define t1 where "t1 = snd (snd (take_off_missing w ?inc (list_or_default (ot_equipment_index t) w) t))"
  note off = take_off [OF assms False t1_def]
  have "k \<in> ?inc" if "table_owner t1 k = w" for k
    using off False that unfolding worn_ok_def tracks_def listed_def worn_list_def by metis
  moreover have "tracks (worn_elsewhere w t1) t1"
    using off by (auto simp: worn_ok_def tracks_def listed_def worn_elsewhere_def)
  ultimately have "putting_on w ?inc t1" by (simp add: putting_on_def)
  define t2 where "t2 = snd (snd (put_on_listed w es t1))"
  have 2: "putting_on w ?inc t2"
    unfolding t2_def by (rule putting_on_listed [OF \<open>putting_on w ?inc t1\<close> False]) simp
  let ?t3 = "t2\<lparr>ot_equipment_index := bt_insert w (map ee_guid es) (ot_equipment_index t2)\<rparr>"
  have "listed (table_owner t2) ((worn_list t2)(w := map ee_guid es))"
    unfolding listed_def
  proof (intro allI impI)
    fix k assume "table_owner t2 k \<noteq> 0"
    then show "k \<in> set (((worn_list t2)(w := map ee_guid es)) (table_owner t2 k))"
      using 2 by (cases "table_owner t2 k = w") (auto simp: putting_on_def tracks_def listed_def worn_elsewhere_def split: if_splits)
  qed
  then have "worn_ok ?t3"
    using 2 by (simp add: putting_on_def worn_ok_def tracks_def bt_ok_insert list_or_default_insert worn_list_def)
  then show ?thesis
    using False by (simp add: initialize_equipment_manifest_def Let_def case_prod_beta t1_def [symmetric] t2_def [symmetric])
qed (use assms in \<open>simp add: initialize_equipment_manifest_def\<close>)

section \<open>Views\<close>

lemma worn_ensured: "worn_ok t \<Longrightarrow> ensure_record k t = (item, existed, t') \<Longrightarrow> worn_ok t'"
  using ensured(1,3) [of k t item existed t' "table_owner t"] by (simp add: worn_ok_def)

lemma worn_view_entries: "worn_ok t \<Longrightarrow> worn_ok (snd (snd (view_entries es t)))"
proof (induction es arbitrary: t)
  case (Cons e es)
  obtain item existed t1 where en: "ensure_record (ce_guid e) t = (item, existed, t1)" using prod_cases3 by blast
  note e1 = worn_ensured [OF Cons.prems en] ensured(2) [OF en worn_ok_tracks [OF Cons.prems]]
  let ?item = "item\<lparr>ob_container_type_hint := ce_container_type e\<rparr>"
  have "worn_ok (put_object (ce_guid e) (if existed then server_showed_object ?item else ?item) t1)"
    by (rule worn_ok_put [OF e1]) (simp_all add: owner_of_def placement_of_def server_showed_object_def)
  from Cons.IH [OF this] show ?case by (cases existed) (simp_all add: en Let_def case_prod_beta)
qed simp

lemma worn_views:
  assumes "worn_ok t"
  shows "worn_ok (fst (replace_contents c es t))" "worn_ok (fst (snd (stop_viewing_contents c t)))"
    "worn_ok (fst (snd (stop_viewing_contents_tree c t)))" "worn_ok (set_contents_list c xs t)"
  using assms worn_view_entries [OF assms, of es]
  by (auto simp: replace_contents_def stop_viewing_contents_def stop_viewing_contents_tree_def set_contents_list_def
      Let_def case_prod_beta split: option.split)

section \<open>Every command\<close>

lemma worn_placement: "worn_ok t \<Longrightarrow> worn_ok (fst (place_command c t))"
  by (cases c) (simp_all add: worn_move_item worn_server_move worn_confirmed_server_move worn_confirmed_server_wield
      worn_move_optimistic worn_wield_item worn_rollback worn_reject worn_clear table_remove_def remove_logical_generation_def
      worn_remove_core)

lemma worn_property: "worn_ok t \<Longrightarrow> worn_ok (fst (write_command c t))"
  by (cases c) (simp_all add: worn_notify worn_update_properties worn_update_appraisal worn_unsuccessful worn_upsert
      worn_update_int worn_property_updates worn_update_instance worn_update_stack worn_update_house worn_marks)

lemma worn_listing: "worn_ok t \<Longrightarrow> worn_ok (fst (list_command c t))"
  by (cases c) (simp_all add: worn_add_or_update worn_replace_generation worn_ingest worn_ingest_recreated
      worn_record_membership worn_equipment_manifest worn_inventory_manifest worn_views)

lemma worn_run_command: "worn_ok t \<Longrightarrow> worn_ok (fst (run_command c t))"
  by (cases c) (simp_all add: worn_placement worn_property worn_listing)

lemma worn_after: "worn_ok (table_after cs)"
  unfolding table_after_def by (rule run_commands_keep [of worn_ok, OF worn_run_command worn_new])

text \<open>
  C8. In every table, whatever the history of moves, updates, descriptions and listings: a worn or
  wielded object is among what its wearer is found to wear, each record has its own guid as its key,
  and no two records have the same identity.
\<close>

theorem worn_objects_listed:
  "(\<forall>k item. table_get (table_after cs) k = Some item \<longrightarrow>
      ob_object_id item = k \<and> 0 < ob_identity item \<and>
      (equipment_owner (placement_of item) \<noteq> 0 \<longrightarrow>
         item \<in> set (get_equipped_by (table_after cs) (equipment_owner (placement_of item))))) \<and>
   (\<forall>k k' item item'. table_get (table_after cs) k = Some item \<longrightarrow> table_get (table_after cs) k' = Some item' \<longrightarrow>
      ob_identity item = ob_identity item' \<longrightarrow> k = k')"
proof (intro conjI allI impI)
  let ?t = "table_after cs"
  note tr = worn_ok_tracks [OF worn_after, of cs]
  show "ob_object_id item = k" "0 < ob_identity item" if "table_get ?t k = Some item" for k item
    using tracks_record [OF tr that] by simp_all
  show "item \<in> set (get_equipped_by ?t (equipment_owner (placement_of item)))"
    if got: "table_get ?t k = Some item" and worn: "equipment_owner (placement_of item) \<noteq> 0" for k item
  proof -
    have "k \<in> set (worn_list ?t (equipment_owner (placement_of item)))"
      using tr worn got_owner [OF got] unfolding tracks_def listed_def by metis
    then have "item \<in> set (List.map_filter (table_get ?t) (list_or_default (ot_equipment_index ?t) (equipment_owner (placement_of item))))"
      using got by (force simp: worn_list_def List.map_filter_def)
    then show ?thesis using worn by (auto simp: get_equipped_by_def equipment_owner_def placement_of_def split: if_splits)
  qed
  show "k = k'" if "table_get ?t k = Some item" "table_get ?t k' = Some item'" "ob_identity item = ob_identity item'" for k k' item item'
    using that tr views_okD(2) [of "record_view (ot_objects ?t)" "ot_next_identity ?t" k _ k']
    by (auto simp: tracks_def record_view_def table_get_def)
qed

definition worn_history :: "table_command list" where
  "worn_history = [Listing (AddOrUpdate (client_object_new 7)), Placement (WieldOptimistic 7 9 4)]"

lemma worn_history_owner:
  "map_option (\<lambda>item. equipment_owner (placement_of item)) (table_get (table_after worn_history) 7) = Some 9"
  by (simp add: table_after_def worn_history_def table_new_def add_or_update_def fresh_identity_def table_get_def
      put_object_def update_equipment_index_def placement_of_def placement_default_def equipment_owner_def
      emit_added_or_updated_def emit_def bumps_revision_def bump_def identity_of_def wield_item_optimistic_def
      move_item_def apply_placement_def leave_lists_def join_list_def publish_placement_change_def hinted_def
      place_object_def record_pending_def remove_from_other_container_indexes_def reindex_def leave_list_def
      list_or_default_def client_object_new_def bt_get_def Let_def)

theorem worn_objects_listed_witness:
  "\<exists>item. table_get (table_after worn_history) 7 = Some item \<and> item \<in> set (get_equipped_by (table_after worn_history) 9)"
proof -
  obtain item where item: "table_get (table_after worn_history) 7 = Some item" "equipment_owner (placement_of item) = 9"
    using worn_history_owner by auto
  show ?thesis
    using conjunct1 [OF worn_objects_listed [of worn_history], THEN spec, THEN spec, THEN mp, OF item(1)] item by auto
qed

end
