(* ===== verification/Records_Kept.thy ===== *)
theory Records_Kept
  imports Worn_Listed
begin

text \<open>
  A record of the object table keeps its identity until the table announces that it went: only
  \<open>add_or_update\<close> of \<open>crates/ac-core/src/items/table.rs\<close>, which the copies of a table use, gives the
  record of a guid a new identity in place.
\<close>

section \<open>Records that stay\<close>

definition kept :: "object_table \<Rightarrow> object_table \<Rightarrow> bool" where
  "kept t t' \<longleftrightarrow> bt_ok (ot_objects t') \<and>
     (\<forall>k item. table_get t k = Some item \<longrightarrow> (\<exists>item'. table_get t' k = Some item' \<and> ob_identity item' = ob_identity item))"

lemma kept_same: "ot_objects t1 = ot_objects t2 \<Longrightarrow> kept t t1 = kept t t2"
  by (simp add: kept_def table_get_def)

lemma kept_more [simp]:
  "kept t (t'\<lparr>ot_container_index := x\<rparr>) = kept t t'"
  "kept t (t'\<lparr>ot_equipment_index := x\<rparr>) = kept t t'"
  "kept t (t'\<lparr>ot_described_containers := ds\<rparr>) = kept t t'"
  "kept t (t'\<lparr>ot_pending_moves := ps\<rparr>) = kept t t'"
  "kept t (t'\<lparr>ot_pending_unresolved := us\<rparr>) = kept t t'"
  "kept t (t'\<lparr>ot_next_identity := n\<rparr>) = kept t t'"
  "kept t (bump n t') = kept t t'"
  "kept t (fst (emit e t')) = kept t t'"
  "kept t (fst (emit_added_or_updated k b t')) = kept t t'"
  "kept t (fst (emit_updated k t')) = kept t t'"
  by (rule kept_same; simp add: bump_def emit_def emit_added_or_updated_def emit_updated_def)+

lemma kept_refl: "bt_ok (ot_objects t) \<Longrightarrow> kept t t"
  by (simp add: kept_def)

lemma kept_ok: "kept t t' \<Longrightarrow> bt_ok (ot_objects t')"
  by (simp add: kept_def)

lemma kept_put:
  "kept t0 t \<Longrightarrow> table_get t k = Some old \<Longrightarrow> ob_identity item = ob_identity old \<Longrightarrow> kept t0 (put_object k item t)"
  unfolding kept_def table_get_def put_object_def
  by (simp add: bt_ok_insert bt_get_insert) (metis option.distinct(1) option.inject)

lemma kept_new: "kept t0 t \<Longrightarrow> table_get t k = None \<Longrightarrow> kept t0 (put_object k item t)"
  unfolding kept_def table_get_def put_object_def
  by (simp add: bt_ok_insert bt_get_insert) (metis option.distinct(1) option.inject)

lemma kept_renumbered:
  assumes "kept t0 t" "renumbered (ot_objects t) objs"
  shows "kept t0 (t\<lparr>ot_objects := objs\<rparr>)"
proof -
  have view: "record_view objs = record_view (ot_objects t)" and ok: "bt_ok objs"
    using assms by (simp_all add: kept_def renumbered_def)
  have "\<exists>item'. bt_get objs k = Some item' \<and> ob_identity item' = ob_identity item"
    if "bt_get (ot_objects t) k = Some item" for k item
    using fun_cong [OF view, of k] that by (auto simp: record_view_def)
  then show ?thesis using assms(1) ok unfolding kept_def table_get_def by simp metis
qed

lemma kept_ensure:
  assumes "kept t0 t" "ensure_record k t = (item, existed, t')"
  shows "kept t0 t'" "table_get t' k = Some item"
proof -
  have "kept t0 (t\<lparr>ot_next_identity := ot_next_identity t + 1\<rparr>)" using assms(1) by simp
  from kept_new [OF this, of k] show "kept t0 t'"
    using assms by (auto simp: ensure_record_def fresh_identity_def Let_def split: option.splits)
  show "table_get t' k = Some item"
    using assms kept_ok [OF assms(1)] by (auto simp: ensure_record_def fresh_identity_def Let_def split: option.splits)
qed

section \<open>Moves\<close>

lemma kept_left: "kept t0 t \<Longrightarrow> leave_lists k item dst r t = (changed, t') \<Longrightarrow> kept t0 t'"
  using remove_from_all_view [of "ot_objects t" "ot_container_index t" k dst "is_container_list_member item"]
    kept_renumbered [of t0 "t\<lparr>ot_container_index := i\<rparr>" for i]
  by (auto simp: leave_lists_def case_prod_beta split: if_splits)

lemma kept_joined: "kept t0 t \<Longrightarrow> kept t0 (join_list k p old r t)"
  using insert_member_view [of "ot_objects t" "ot_container_index t" k "pc_container_slot p"]
    kept_renumbered [of t0 "t\<lparr>ot_container_index := i\<rparr>" for i]
  by (auto simp: join_list_def case_prod_beta)

lemma kept_publish: "kept t0 t \<Longrightarrow> kept t0 (fst (publish_placement_change k p origin t))"
  by (simp add: publish_placement_change_def Let_def split: option.split)

lemma kept_apply_placement: "kept t0 t \<Longrightarrow> kept t0 (fst (snd (apply_placement k p h origin r t)))"
  by (auto simp: apply_placement_def Let_def case_prod_beta split: option.split
      intro!: kept_publish kept_joined kept_put dest: kept_left [OF _ prod.collapse [symmetric]])

lemma kept_server_move: "kept t0 t \<Longrightarrow> kept t0 (fst (snd (apply_server_move k p h t)))"
  by (auto simp: apply_server_move_def intro!: kept_apply_placement kept_put split: option.split)

lemma kept_move_item: "kept t0 t \<Longrightarrow> kept t0 (fst (snd (move_item k c s e h t)))"
  by (simp add: move_item_def kept_apply_placement split: option.split)

lemma kept_pending [simp]: "kept t0 (confirm_move k t) = kept t0 t" "kept t0 (record_pending k t) = kept t0 t"
  by (simp_all add: confirm_move_def record_pending_def split: option.split)

lemma kept_confirmed_move: "kept t0 t \<Longrightarrow> kept t0 (fst (snd (apply_confirmed_server_move k p h t)))"
  using kept_server_move [of t0 "confirm_move k t" k p h]
  by (simp add: apply_confirmed_server_move_def Let_def case_prod_beta)

lemma kept_confirmed_wield: "kept t0 t \<Longrightarrow> kept t0 (fst (snd (apply_confirmed_server_wield k w e t)))"
  by (auto simp: apply_confirmed_server_wield_def Let_def case_prod_beta intro!: kept_apply_placement kept_put split: option.split)

lemma kept_wield_item: "kept t0 t \<Longrightarrow> kept t0 (fst (snd (wield_item_optimistic k w m t)))"
  by (simp add: wield_item_optimistic_def kept_move_item split: option.split)

lemma kept_left_source: "kept t0 t \<Longrightarrow> kept t0 (leave_source k old c t)"
  by (auto simp: leave_source_def Let_def split: option.split intro!: kept_renumbered)

lemma kept_joined_destination: "kept t0 t \<Longrightarrow> kept t0 (join_destination k c s t)"
  by (auto simp: join_destination_def Let_def split: option.split intro!: kept_renumbered kept_put)

lemma kept_move_optimistic: "kept t0 t \<Longrightarrow> kept t0 (fst (snd (move_item_optimistic k c s t)))"
  by (auto simp: move_item_optimistic_def Let_def case_prod_beta split: option.split
      intro!: kept_publish kept_joined_destination kept_left_source kept_put)

lemma kept_rollback: "kept t0 t \<Longrightarrow> kept t0 (fst (snd (rollback_move k t)))"
  by (simp add: rollback_move_def Let_def case_prod_beta kept_apply_placement split: option.split)

lemma kept_reject: "kept t0 t \<Longrightarrow> kept t0 (fst (snd (reject_move k e t)))"
  by (simp add: reject_move_def case_prod_beta kept_rollback)

section \<open>Properties\<close>

lemma kept_change_object: "kept t0 t \<Longrightarrow> keeps_place f \<Longrightarrow> kept t0 (fst (snd (change_object k f t)))"
  by (auto simp: change_object_def keeps_place_def intro!: kept_put split: option.split)

lemma kept_write_command: "kept t0 t \<Longrightarrow> kept t0 (fst (write_command c t))"
proof (cases c)
  case (UpdateInt k p v)
  assume "kept t0 t"
  then show ?thesis
    by (auto simp: UpdateInt update_int_property_def Let_def mirror_int_def server_showed_object_def intro!: kept_put
        split: option.split)
next
  case (UpsertProperties k b)
  assume ok: "kept t0 t"
  obtain item existed t1 where e: "ensure_record k t = (item, existed, t1)" using prod_cases3 by blast
  have "kept t0 (put_object k (apply_cooldown_properties b (merge_properties b (server_showed_object item))) t1)"
    using keeps_place_update [of b] by (auto simp: keeps_place_def intro!: kept_put [OF kept_ensure [OF ok e]])
  then show ?thesis by (simp add: UpsertProperties upsert_properties_def e)
next
  case (UpdateAppraisal k a)
  assume "kept t0 t"
  then show ?thesis
    by (auto simp: UpdateAppraisal update_appraisal_def change_object_def Let_def keeps_place_facts intro!: kept_put
        split: option.split)
next
  case (UpdateProperties k b)
  assume "kept t0 t"
  then show ?thesis by (simp add: UpdateProperties update_properties_def kept_change_object keeps_place_update)
qed (auto simp: notify_object_updated_def property_updates change_object_def record_unsuccessful_appraisal_def
    update_instance_id_property_def update_stack_size_def update_house_restrictions_def set_trade_state_def
    set_sell_state_def server_showed_object_def Let_def case_prod_beta intro!: kept_put split: option.split)

section \<open>Descriptions and listings\<close>

lemma kept_ingest:
  assumes "kept t0 t"
  shows "kept t0 (fst (snd (ingest_object d t)))"
proof -
  obtain item existed t1 where e: "ensure_record (wd_guid d) t = (item, existed, t1)" using prod_cases3 by blast
  obtain item' n where p: "patch_from_weenie d (server_showed_object item) = (item', n)" by force
  have "ob_identity item' = ob_identity item" using patched_weenie(2) [of d "server_showed_object item"] p by simp
  then have "kept t0 (put_object (wd_guid d) item' t1)" using kept_ensure [OF assms e] kept_put by blast
  then show ?thesis
    by (simp add: ingest_object_def e p Let_def case_prod_beta follow_placement_def kept_server_move split: option.split)
qed

lemma kept_ingest_recreated: "kept t0 t \<Longrightarrow> kept t0 (fst (snd (ingest_recreated d t)))"
  using kept_ingest [of t0 t d] by (simp add: ingest_recreated_def case_prod_beta kept_server_move split: option.split)

lemma kept_record_membership:
  assumes "kept t0 t"
  shows "kept t0 (fst (snd (record_membership k c e h p t)))"
proof -
  obtain item existed t1 where en: "ensure_record k t = (item, existed, t1)" using prod_cases3 by blast
  note put = kept_put [OF kept_ensure [OF assms en]]
  show ?thesis
    by (simp add: record_membership_def en Let_def case_prod_beta follow_placement_def hinted_def
        server_showed_object_def put split: option.split)
qed

lemma kept_announce_all [simp]: "kept t0 (fst (announce_all ks t)) = kept t0 t"
proof (induction ks arbitrary: t)
  case (Cons e ks)
  obtain k existed where "e = (k, existed)" by force
  then show ?case using Cons.IH [of "fst (emit_added_or_updated k existed t)"] by (simp add: case_prod_beta)
qed simp

lemma kept_take_out: "kept t0 t \<Longrightarrow> kept t0 (snd (take_out_missing w inc ks t))"
proof (induction ks arbitrary: t)
  case (Cons k ks)
  from Cons.prems show ?case
    by (simp add: Let_def case_prod_beta Cons.IH kept_put split: option.split)
qed simp

lemma kept_put_in: "kept t0 t \<Longrightarrow> kept t0 (snd (snd (put_in_listed w n es t)))"
proof (induction es arbitrary: n t)
  case (Cons e es)
  obtain item existed t1 where en: "ensure_record (ce_guid e) t = (item, existed, t1)" using prod_cases3 by blast
  show ?case
    by (simp add: en Let_def case_prod_beta)
      (rule Cons.IH, simp add: kept_put [OF kept_ensure [OF Cons.prems en]] server_showed_object_def)
qed simp

lemma kept_take_off: "kept t0 t \<Longrightarrow> kept t0 (snd (snd (take_off_missing w inc ks t)))"
proof (induction ks arbitrary: t)
  case (Cons k ks)
  from Cons.prems show ?case
    by (simp add: Let_def case_prod_beta Cons.IH kept_put split: option.split)
qed simp

lemma kept_put_on: "kept t0 t \<Longrightarrow> kept t0 (snd (snd (put_on_listed w es t)))"
proof (induction es arbitrary: t)
  case (Cons e es)
  obtain item existed t1 where en: "ensure_record (ee_guid e) t = (item, existed, t1)" using prod_cases3 by blast
  show ?case
    by (simp add: en Let_def case_prod_beta)
      (rule Cons.IH, simp add: kept_put [OF kept_ensure [OF Cons.prems en]] server_showed_object_def)
qed simp

lemma kept_view_entries: "kept t0 t \<Longrightarrow> kept t0 (snd (snd (view_entries es t)))"
proof (induction es arbitrary: t)
  case (Cons e es)
  obtain item existed t1 where en: "ensure_record (ce_guid e) t = (item, existed, t1)" using prod_cases3 by blast
  let ?item = "item\<lparr>ob_container_type_hint := ce_container_type e\<rparr>"
  have "kept t0 (put_object (ce_guid e) (if existed then server_showed_object ?item else ?item) t1)"
    by (rule kept_put [OF kept_ensure [OF Cons.prems en]]) simp
  from Cons.IH [OF this] show ?case by (cases existed) (simp_all add: en Let_def case_prod_beta)
qed simp

lemma kept_inventory_manifest: "kept t0 t \<Longrightarrow> kept t0 (fst (initialize_inventory_manifest w es t))"
  by (simp add: initialize_inventory_manifest_def Let_def case_prod_beta kept_put_in kept_take_out)

lemma kept_equipment_manifest: "kept t0 t \<Longrightarrow> kept t0 (fst (initialize_equipment_manifest w es t))"
  by (simp add: initialize_equipment_manifest_def Let_def case_prod_beta kept_put_on kept_take_off)

lemma kept_views:
  assumes "kept t0 t"
  shows "kept t0 (fst (replace_contents c es t))" "kept t0 (fst (snd (stop_viewing_contents c t)))"
    "kept t0 (fst (snd (stop_viewing_contents_tree c t)))" "kept t0 (set_contents_list c xs t)"
  using assms
  by (simp_all add: replace_contents_def stop_viewing_contents_def stop_viewing_contents_tree_def set_contents_list_def
      Let_def case_prod_beta kept_view_entries split: option.split)

section \<open>Records that go\<close>

text \<open>The event that ends the record of a guid with an identity.\<close>

definition ends_record :: "u32 \<Rightarrow> nat \<Rightarrow> table_event \<Rightarrow> bool" where
  "ends_record k d e =
     (case e of ObjectRemoved item _ _ \<Rightarrow> ob_object_id item = k \<and> ob_identity item = d | TableCleared \<Rightarrow> True | _ \<Rightarrow> False)"

definition tells :: "object_table \<Rightarrow> table_event list \<Rightarrow> object_table \<Rightarrow> bool" where
  "tells t events t' \<longleftrightarrow> bt_ok (ot_objects t') \<and>
     (\<forall>k item. table_get t k = Some item \<longrightarrow>
        (\<exists>item'. table_get t' k = Some item' \<and> ob_identity item' = ob_identity item) \<or>
        (\<exists>e \<in> set events. ends_record k (ob_identity item) e))"

lemma kept_tells: "kept t t' \<Longrightarrow> tells t events t'"
  by (simp add: kept_def tells_def)

lemma tells_kept: "tells t events t' \<Longrightarrow> kept t' t'' \<Longrightarrow> tells t (events @ es) t''"
  unfolding kept_def tells_def by (metis Un_iff set_append)

lemma removed_tells:
  assumes "worn_ok t"
  shows "tells t (snd (snd (remove_core k reason g t))) (fst (snd (remove_core k reason g t)))"
proof (cases "table_get t k")
  case None
  then show ?thesis using assms by (simp add: remove_core_def kept_tells kept_refl worn_ok_def tracks_ok)
next
  case (Some item)
  have ok: "bt_ok (ot_objects t)" using assms by (simp add: worn_ok_def tracks_ok)
  have id: "ob_object_id item = k" using tracks_record [OF worn_ok_tracks [OF assms] Some] by simp
  have objects: "ot_objects (fst (snd (remove_core k reason g t))) = bt_remove k (ot_objects t)"
    and event: "ObjectRemoved item reason g \<in> set (snd (snd (remove_core k reason g t)))"
    using Some by (simp_all add: remove_core_def Let_def case_prod_beta emit_def bump_def)
  show ?thesis
    unfolding tells_def
  proof (intro conjI allI impI)
    show "bt_ok (ot_objects (fst (snd (remove_core k reason g t))))" using ok by (simp add: objects bt_ok_remove)
    fix j item' assume got: "table_get t j = Some item'"
    show "(\<exists>item''. table_get (fst (snd (remove_core k reason g t))) j = Some item'' \<and> ob_identity item'' = ob_identity item') \<or>
        (\<exists>e \<in> set (snd (snd (remove_core k reason g t))). ends_record j (ob_identity item') e)"
    proof (cases "j = k")
      case True
      then have "ends_record j (ob_identity item') (ObjectRemoved item reason g)"
        using got Some id by (simp add: ends_record_def)
      then show ?thesis using event by blast
    next
      case False
      then show ?thesis using got objects by (simp add: table_get_def bt_get_remove)
    qed
  qed
qed

text \<open>The commands a session gives its own table.\<close>

definition session_command :: "table_command \<Rightarrow> bool" where
  "session_command c = (case c of Listing (AddOrUpdate _) \<Rightarrow> False | _ \<Rightarrow> True)"

lemma kept_place_command:
  "kept t0 t \<Longrightarrow> c \<noteq> ClearTable \<Longrightarrow> (\<forall>k. c \<noteq> RemoveObject k) \<Longrightarrow> (\<forall>k g. c \<noteq> RemoveGeneration k g) \<Longrightarrow> kept t0 (fst (place_command c t))"
  by (cases c) (simp_all add: kept_move_item kept_server_move kept_confirmed_move kept_confirmed_wield kept_move_optimistic
      kept_wield_item kept_rollback kept_reject)

lemma placed_tells: "worn_ok t \<Longrightarrow> tells t (snd (place_command c t)) (fst (place_command c t))"
proof (cases "c = ClearTable \<or> (\<exists>k. c = RemoveObject k) \<or> (\<exists>k g. c = RemoveGeneration k g)")
  case True
  assume "worn_ok t"
  then show ?thesis
    using True by (auto simp: table_remove_def remove_logical_generation_def removed_tells)
      (simp add: tells_def clear_table_def emit_def bump_def ends_record_def)
next
  case False
  assume "worn_ok t"
  then have "kept t t" by (simp add: worn_ok_def tracks_ok kept_refl)
  then show ?thesis using False kept_place_command [of t t c] by (auto intro: kept_tells)
qed

lemma listed_tells: "worn_ok t \<Longrightarrow> (\<forall>item. c \<noteq> AddOrUpdate item) \<Longrightarrow> tells t (snd (list_command c t)) (fst (list_command c t))"
proof -
  assume ok: "worn_ok t" and no: "\<forall>item. c \<noteq> AddOrUpdate item"
  have t: "kept t t" using ok by (simp add: worn_ok_def tracks_ok kept_refl)
  show ?thesis
  proof (cases c)
    case (ReplaceGeneration d g b)
    have *: "tells t (snd (snd (remove_core (wd_guid d) GenerationReplacement g t))) (fst (snd (remove_core (wd_guid d) GenerationReplacement g t)))"
      by (rule removed_tells [OF ok])
    then have "bt_ok (ot_objects (fst (snd (remove_core (wd_guid d) GenerationReplacement g t))))" by (simp add: tells_def)
    then show ?thesis
      using * tells_kept [OF * kept_ingest [OF kept_refl]]
      by (simp add: ReplaceGeneration replace_generation_def case_prod_beta)
  qed (use t no in \<open>simp_all add: kept_tells kept_ingest kept_ingest_recreated kept_record_membership
      kept_inventory_manifest kept_equipment_manifest kept_views\<close>)
qed

lemma command_tells:
  "worn_ok t \<Longrightarrow> session_command c \<Longrightarrow> tells t (snd (run_command c t)) (fst (run_command c t))"
proof (cases c)
  case (Property p)
  assume "worn_ok t"
  then have "kept t t" by (simp add: worn_ok_def tracks_ok kept_refl)
  then show ?thesis using kept_write_command by (simp add: Property kept_tells)
next
  case (Listing l)
  assume "worn_ok t" "session_command c"
  then show ?thesis using listed_tells [of t l] by (auto simp: Listing session_command_def split: listing_command.splits)
qed (simp add: placed_tells)

end
