(* ===== verification/Optimistic_Moves.thy ===== *)
theory Optimistic_Moves
  imports Records_Kept
begin

text \<open>
  Moves made ahead of the server in \<open>crates/ac-core/src/items/table.rs\<close>: where an object was before its
  first unconfirmed move is remembered until the server answers about it, whatever else happens in
  between, and a refusal puts it back there.
\<close>

section \<open>What leaves the outstanding moves alone\<close>

lemma moves_more [simp]:
  "ot_pending_moves (put_object k item t) = ot_pending_moves t"
  "ot_pending_moves (bump n t) = ot_pending_moves t"
  "ot_pending_moves (fst (emit e t)) = ot_pending_moves t"
  "ot_pending_moves (fst (emit_added_or_updated k b t)) = ot_pending_moves t"
  "ot_pending_moves (fst (emit_updated k t)) = ot_pending_moves t"
  "ot_pending_moves (snd (fresh_identity t)) = ot_pending_moves t"
  by (simp_all add: put_object_def bump_def emit_def emit_added_or_updated_def emit_updated_def fresh_identity_def)

lemma moves_ensure: "ensure_record k t = (item, existed, t') \<Longrightarrow> ot_pending_moves t' = ot_pending_moves t"
  by (auto simp: ensure_record_def fresh_identity_def Let_def split: option.splits)

lemma moves_ensure_snd [simp]: "ot_pending_moves (snd (snd (ensure_record k t))) = ot_pending_moves t"
  by (cases "ensure_record k t") (simp add: moves_ensure)

lemma moves_lists [simp]:
  "ot_pending_moves (snd (leave_lists k item dst r t)) = ot_pending_moves t"
  "ot_pending_moves (join_list k p old r t) = ot_pending_moves t"
  "ot_pending_moves (leave_source k old c t) = ot_pending_moves t"
  "ot_pending_moves (join_destination k c s t) = ot_pending_moves t"
  by (simp_all add: leave_lists_def join_list_def leave_source_def join_destination_def Let_def case_prod_beta split: option.split)

lemma moves_placed [simp]:
  "ot_pending_moves (fst (publish_placement_change k p origin t)) = ot_pending_moves t"
  "ot_pending_moves (fst (snd (apply_placement k p h origin r t))) = ot_pending_moves t"
  "ot_pending_moves (fst (snd (apply_server_move k p h t))) = ot_pending_moves t"
  "ot_pending_moves (fst (snd (move_item k c s e h t))) = ot_pending_moves t"
  by (simp_all add: publish_placement_change_def apply_placement_def apply_server_move_def move_item_def Let_def case_prod_beta
      split: option.split)

lemma moves_written [simp]: "ot_pending_moves (fst (write_command c t)) = ot_pending_moves t"
  by (cases c) (simp_all add: notify_object_updated_def update_properties_def update_appraisal_def change_object_def
      property_updates record_unsuccessful_appraisal_def upsert_properties_def update_int_property_def
      update_instance_id_property_def update_stack_size_def update_house_restrictions_def set_trade_state_def
      set_sell_state_def Let_def case_prod_beta split: option.split)

lemma moves_announced [simp]: "ot_pending_moves (fst (announce_all ks t)) = ot_pending_moves t"
proof (induction ks arbitrary: t)
  case (Cons e ks)
  then show ?case by (cases e) (simp add: case_prod_beta)
qed simp

lemma moves_listed [simp]:
  "ot_pending_moves (snd (take_out_missing w inc ks t)) = ot_pending_moves t"
  "ot_pending_moves (snd (snd (put_in_listed w n es t))) = ot_pending_moves t"
  "ot_pending_moves (snd (snd (take_off_missing w inc ks t))) = ot_pending_moves t"
  "ot_pending_moves (snd (snd (put_on_listed w es' t))) = ot_pending_moves t"
  "ot_pending_moves (snd (snd (view_entries es t))) = ot_pending_moves t"
proof -
  show "ot_pending_moves (snd (take_out_missing w inc ks t)) = ot_pending_moves t"
    by (induction ks arbitrary: t) (simp_all add: Let_def case_prod_beta split: option.split)
  show "ot_pending_moves (snd (snd (put_in_listed w n es t))) = ot_pending_moves t"
    by (induction es arbitrary: n t) (simp_all add: Let_def case_prod_beta)
  show "ot_pending_moves (snd (snd (take_off_missing w inc ks t))) = ot_pending_moves t"
    by (induction ks arbitrary: t) (simp_all add: Let_def case_prod_beta split: option.split)
  show "ot_pending_moves (snd (snd (put_on_listed w es' t))) = ot_pending_moves t"
    by (induction es' arbitrary: t) (simp_all add: Let_def case_prod_beta)
  show "ot_pending_moves (snd (snd (view_entries es t))) = ot_pending_moves t"
    by (induction es arbitrary: t) (simp_all add: Let_def case_prod_beta)
qed

lemma moves_described [simp]:
  "ot_pending_moves (fst (snd (ingest_object d t))) = ot_pending_moves t"
  "ot_pending_moves (fst (snd (record_membership k c e h p t))) = ot_pending_moves t"
  "ot_pending_moves (snd (follow_placement k p' c' t)) = ot_pending_moves t"
  by (simp_all add: ingest_object_def record_membership_def follow_placement_def Let_def case_prod_beta split: option.split)

section \<open>The count of unanswered moves\<close>

lemma hm_get_insert [simp]: "hm_get (hm_insert k v m) = (hm_get m)(k \<mapsto> v)"
  by (simp add: hm_get_def hm_insert_def update_conv')

lemma hm_get_remove [simp]: "hm_get (hm_remove k m) = (hm_get m)(k := None)"
  by (simp add: hm_get_def hm_remove_def delete_conv')

text \<open>
  What a history says about an object, without looking at what the table remembers: the moves made ahead of
  the server, the server's answers that accept one, and what ends them all (a refusal, the removal of the
  object, the clearing of the table).
\<close>

definition is_move_of :: "u32 \<Rightarrow> table_command \<Rightarrow> bool" where
  "is_move_of k c =
     (case c of
        Placement (MoveOptimistic j _ _) \<Rightarrow> j = k
      | Placement (WieldOptimistic j _ _) \<Rightarrow> j = k
      | _ \<Rightarrow> False)"

definition accepts_move_of :: "u32 \<Rightarrow> table_command \<Rightarrow> bool" where
  "accepts_move_of k c =
     (case c of
        Placement (ConfirmedServerMove j _ _) \<Rightarrow> j = k
      | Placement (ConfirmedServerWield j _ _) \<Rightarrow> j = k
      | Placement (ConfirmMove j) \<Rightarrow> j = k
      | _ \<Rightarrow> False)"

definition ends_moves_of :: "u32 \<Rightarrow> table_command \<Rightarrow> bool" where
  "ends_moves_of k c =
     (case c of
        Placement (RollbackMove j) \<Rightarrow> j = k
      | Placement (RejectMove j _) \<Rightarrow> j = k
      | Placement (RemoveObject j) \<Rightarrow> j = k
      | Placement (RemoveGeneration j _) \<Rightarrow> j = k
      | Placement ClearTable \<Rightarrow> True
      | Listing (ReplaceGeneration d _ _) \<Rightarrow> wd_guid d = k
      | _ \<Rightarrow> False)"

lemmas bearing_defs = is_move_of_def accepts_move_of_def ends_moves_of_def

text \<open>A move of an object the table does not hold is not made; an answer without a move changes nothing.\<close>

definition count_after :: "u32 \<Rightarrow> table_command \<Rightarrow> object_table \<Rightarrow> nat \<Rightarrow> nat" where
  "count_after k c t n =
     (if is_move_of k c then (if table_get t k = None then n else n + 1)
      else if accepts_move_of k c then n - 1
      else if ends_moves_of k c then 0 else n)"

fun open_moves :: "u32 \<Rightarrow> table_command list \<Rightarrow> object_table \<Rightarrow> nat \<Rightarrow> nat" where
  "open_moves k [] t n = n"
| "open_moves k (c # cs) t n = open_moves k cs (fst (run_command c t)) (count_after k c t n)"

definition unanswered :: "u32 \<Rightarrow> table_command list \<Rightarrow> nat" where
  "unanswered k history = open_moves k history table_new 0"

text \<open>How much of a history had passed when no move of the object was last unanswered.\<close>

definition settled_at :: "u32 \<Rightarrow> table_command list \<Rightarrow> nat" where
  "settled_at k history = last (filter (\<lambda>i. unanswered k (take i history) = 0) [0..<Suc (length history)])"

lemma run_commands_append:
  "run_commands (cs @ ds) t =
     (fst (run_commands ds (fst (run_commands cs t))),
      snd (run_commands cs t) @ snd (run_commands ds (fst (run_commands cs t))))"
  by (induction cs arbitrary: t) (simp_all add: case_prod_beta)

lemma table_after_snoc [simp]: "table_after (cs @ [c]) = fst (run_command c (table_after cs))"
  by (simp add: table_after_def run_commands_append case_prod_beta)

lemma open_moves_append: "open_moves k (cs @ ds) t n = open_moves k ds (fst (run_commands cs t)) (open_moves k cs t n)"
  by (induction cs arbitrary: t n) (simp_all add: case_prod_beta)

lemma unanswered_snoc [simp]: "unanswered k (cs @ [c]) = count_after k c (table_after cs) (unanswered k cs)"
  by (simp add: unanswered_def open_moves_append table_after_def)

lemma unanswered_Nil [simp]: "unanswered k [] = 0"
  by (simp add: unanswered_def)

lemma settled_snoc:
  "settled_at k (cs @ [c]) = (if unanswered k (cs @ [c]) = 0 then Suc (length cs) else settled_at k cs)"
proof -
  have "filter (\<lambda>i. unanswered k (take i (cs @ [c])) = 0) [0..<Suc (length cs)] =
      filter (\<lambda>i. unanswered k (take i cs) = 0) [0..<Suc (length cs)]"
    by (rule filter_cong) auto
  then have "filter (\<lambda>i. unanswered k (take i (cs @ [c])) = 0) [0..<Suc (Suc (length cs))] =
      filter (\<lambda>i. unanswered k (take i cs) = 0) [0..<Suc (length cs)] @
      (if unanswered k (cs @ [c]) = 0 then [Suc (length cs)] else [])"
    by (simp del: unanswered_snoc add: upt_Suc_append [of 0 "Suc (length cs)"])
  then show ?thesis by (simp add: settled_at_def del: unanswered_snoc upt_Suc)
qed

lemma settled_bound: "settled_at k cs \<le> length cs"
proof (induction cs rule: rev_induct)
  case Nil
  show ?case by (simp add: settled_at_def)
next
  case (snoc c cs)
  then show ?case by (simp add: settled_snoc del: unanswered_snoc)
qed

lemma settled_Nil [simp]: "settled_at k [] = 0"
  using settled_bound [of k "[]"] by simp

section \<open>What the table remembers\<close>

abbreviation pending :: "object_table \<Rightarrow> u32 \<Rightarrow> (object_placement \<times> nat) option" where
  "pending t k \<equiv> hm_get (ot_pending_moves t) k"

definition moved_on :: "client_object \<Rightarrow> (object_placement \<times> nat) option \<Rightarrow> (object_placement \<times> nat) option" where
  "moved_on item m = Some (case m of None \<Rightarrow> (placement_of item, 1) | Some (p, n) \<Rightarrow> (p, n + 1))"

definition accepted :: "(object_placement \<times> nat) option \<Rightarrow> (object_placement \<times> nat) option" where
  "accepted m = (case m of None \<Rightarrow> None | Some (p, n) \<Rightarrow> if n \<le> 1 then None else Some (p, n - 1))"

lemma pending_record:
  "pending (record_pending j t) k =
     (if j = k then (case table_get t k of None \<Rightarrow> pending t k | Some item \<Rightarrow> moved_on item (pending t k)) else pending t k)"
  by (auto simp: record_pending_def moved_on_def split: option.split)

lemma pending_confirm: "pending (confirm_move j t) k = (if j = k then accepted (pending t k) else pending t k)"
  by (auto simp: confirm_move_def accepted_def split: option.split)

lemma pending_remove:
  "pending (fst (snd (remove_core j reason g t))) k = (if j = k \<and> table_get t k \<noteq> None then None else pending t k)"
  by (auto simp: remove_core_def Let_def case_prod_beta split: option.split)

lemma pending_rollback: "pending (fst (snd (rollback_move j t))) k = (if j = k then None else pending t k)"
  by (auto simp: rollback_move_def Let_def case_prod_beta split: option.split)

lemma pending_reject: "pending (fst (snd (reject_move j e t))) k = (if j = k then None else pending t k)"
  using pending_rollback [of j t k] by (simp add: reject_move_def Let_def case_prod_beta)

text \<open>One step of what is remembered about an object.\<close>

definition pending_after ::
    "u32 \<Rightarrow> table_command \<Rightarrow> object_table \<Rightarrow> (object_placement \<times> nat) option \<Rightarrow> (object_placement \<times> nat) option" where
  "pending_after k c t m =
     (if is_move_of k c then (case table_get t k of None \<Rightarrow> m | Some item \<Rightarrow> moved_on item m)
      else if accepts_move_of k c then accepted m
      else if ends_moves_of k c then None else m)"

lemma pending_placed:
  assumes "table_get t k = None \<Longrightarrow> pending t k = None"
  shows "pending (fst (place_command c t)) k = pending_after k (Placement c) t (pending t k)"
proof (cases c)
  case (ConfirmedServerMove j p h)
  then show ?thesis
    by (auto simp: pending_confirm apply_confirmed_server_move_def Let_def case_prod_beta pending_after_def bearing_defs)
next
  case (ConfirmedServerWield j w e)
  then show ?thesis
    by (auto simp: pending_confirm apply_confirmed_server_wield_def Let_def case_prod_beta pending_after_def bearing_defs split: option.split)
next
  case (MoveOptimistic j d s)
  then show ?thesis
    by (auto simp: pending_record move_item_optimistic_def Let_def case_prod_beta pending_after_def bearing_defs split: option.split)
next
  case (WieldOptimistic j w m)
  then show ?thesis
    by (auto simp: pending_record wield_item_optimistic_def Let_def case_prod_beta pending_after_def bearing_defs split: option.split)
next
  case (RemoveObject j)
  then show ?thesis using assms by (auto simp: table_remove_def pending_remove pending_after_def bearing_defs)
next
  case (RemoveGeneration j g)
  then show ?thesis using assms by (auto simp: remove_logical_generation_def pending_remove pending_after_def bearing_defs)
next
  case ClearTable
  then show ?thesis by (simp add: clear_table_def pending_after_def bearing_defs hm_get_def)
qed (simp_all add: pending_after_def bearing_defs pending_confirm pending_rollback pending_reject)

lemma pending_listed:
  assumes "table_get t k = None \<Longrightarrow> pending t k = None"
  shows "pending (fst (list_command c t)) k = pending_after k (Listing c) t (pending t k)"
proof (cases c)
  case (ReplaceGeneration d g b)
  then show ?thesis
    using assms by (auto simp: replace_generation_def case_prod_beta pending_remove pending_after_def bearing_defs)
next
  case (AddOrUpdate item)
  then show ?thesis
    by (simp add: add_or_update_def Let_def case_prod_beta pending_after_def bearing_defs fresh_identity_def)
qed (simp_all add: pending_after_def bearing_defs ingest_recreated_def
    initialize_inventory_manifest_def initialize_equipment_manifest_def replace_contents_def stop_viewing_contents_def
    stop_viewing_contents_tree_def set_contents_list_def Let_def case_prod_beta split: option.split)

lemma pending_command:
  "(table_get t k = None \<Longrightarrow> pending t k = None) \<Longrightarrow>
   pending (fst (run_command c t)) k = pending_after k c t (pending t k)"
  by (cases c) (simp_all add: pending_placed pending_listed, simp add: pending_after_def bearing_defs)

section \<open>The object stays\<close>

lemma present_removed:
  "bt_ok (ot_objects t) \<Longrightarrow> j \<noteq> k \<Longrightarrow> table_get (fst (snd (remove_core j reason g t))) k = table_get t k"
  by (simp add: remove_core_def Let_def case_prod_beta emit_def table_get_def bt_get_remove bump_def split: option.split)

lemma kept_present: "kept t t' \<Longrightarrow> table_get t k \<noteq> None \<Longrightarrow> table_get t' k \<noteq> None"
  by (auto simp: kept_def)

lemma present_added:
  assumes "bt_ok (ot_objects t)" "table_get t k \<noteq> None"
  shows "table_get (fst (snd (add_or_update item t))) k \<noteq> None"
  using assms
  by (cases "ob_object_id item = k")
    (simp_all add: add_or_update_def Let_def case_prod_beta fresh_identity_def emit_added_or_updated_def emit_def bump_def
      table_get_def put_object_def bt_get_insert del: not_None_eq)

lemma present_command:
  assumes "worn_ok t" "\<not> ends_moves_of k c" "table_get t k \<noteq> None"
  shows "table_get (fst (run_command c t)) k \<noteq> None"
proof -
  have ok: "bt_ok (ot_objects t)" and t: "kept t t" using assms(1) by (simp_all add: worn_ok_def tracks_ok kept_refl)
  show ?thesis
  proof (cases c)
    case (Placement p)
    show ?thesis
    proof (cases "(\<exists>j. p = RemoveObject j) \<or> (\<exists>j g. p = RemoveGeneration j g)")
      case True
      then show ?thesis
        using assms(2,3) ok by (auto simp: Placement ends_moves_of_def table_remove_def remove_logical_generation_def present_removed)
    next
      case False
      moreover have "p \<noteq> ClearTable" using assms(2) by (auto simp: Placement ends_moves_of_def)
      ultimately show ?thesis using kept_present [OF kept_place_command [OF t] assms(3), of p] by (auto simp: Placement)
    qed
  next
    case (Property p)
    then show ?thesis using kept_present [OF kept_write_command [OF t] assms(3)] by simp
  next
    case (Listing l)
    show ?thesis
    proof (cases l)
      case (ReplaceGeneration d g b)
      let ?t1 = "fst (snd (remove_core (wd_guid d) GenerationReplacement g t))"
      have 1: "table_get ?t1 k \<noteq> None" using assms(2,3) ok by (simp add: Listing ReplaceGeneration ends_moves_of_def present_removed)
      have "bt_ok (ot_objects ?t1)" by (rule tracks_ok(1) [OF worn_ok_tracks [OF worn_remove_core [OF assms(1)]]])
      then have "kept ?t1 ?t1" by (rule kept_refl)
      from kept_present [OF kept_ingest [OF this] 1, of d] 1 show ?thesis
        by (simp add: Listing ReplaceGeneration replace_generation_def case_prod_beta)
    qed (use present_added [OF ok assms(3)] kept_present [OF _ assms(3)] t in \<open>simp_all add: Listing kept_ingest kept_ingest_recreated
      kept_record_membership kept_inventory_manifest kept_equipment_manifest kept_views del: not_None_eq\<close>)
  qed
qed

text \<open>What is remembered is where the object was when no move of it was last unanswered, and how many are.\<close>

lemma remembered:
  "if unanswered k history = 0 then pending (table_after history) k = None
   else \<exists>item. table_get (table_after (take (settled_at k history) history)) k = Some item \<and>
     pending (table_after history) k = Some (placement_of item, unanswered k history) \<and>
     table_get (table_after history) k \<noteq> None"
proof (induction history rule: rev_induct)
  case Nil
  show ?case by (simp add: table_after_def table_new_def hm_get_def)
next
  case (snoc c cs)
  let ?t = "table_after cs" and ?n = "unanswered k cs"
  have pr: "table_get ?t k = None \<Longrightarrow> pending ?t k = None" using snoc by (auto split: if_splits)
  note step = pending_command [OF pr, of c]
  have stays: "\<not> ends_moves_of k c \<Longrightarrow> table_get ?t k \<noteq> None \<Longrightarrow> table_get (table_after (cs @ [c])) k \<noteq> None"
    using present_command [OF worn_after] by simp
  have kinds: "is_move_of k c \<Longrightarrow> \<not> accepts_move_of k c \<and> \<not> ends_moves_of k c" "accepts_move_of k c \<Longrightarrow> \<not> ends_moves_of k c"
    by (auto simp: bearing_defs split: table_command.splits placement_command.splits)
  show ?case
  proof (cases "unanswered k (cs @ [c]) = 0")
    case True
    then have "pending_after k c ?t (pending ?t k) = None"
      using snoc pr by (auto simp: pending_after_def count_after_def accepted_def split: if_splits option.splits)
    then show ?thesis using True step by simp
  next
    case False
    then have here: "table_get ?t k \<noteq> None" "\<not> ends_moves_of k c"
      using snoc kinds by (auto simp: count_after_def split: if_splits)
    show ?thesis
    proof (cases "?n = 0")
      case True
      obtain item where "table_get ?t k = Some item" using here(1) by auto
      moreover have "is_move_of k c" using False True by (auto simp: count_after_def split: if_splits)
      moreover have "pending ?t k = None" using snoc True by simp
      moreover have "settled_at k cs = length cs"
        using True by (cases cs rule: rev_cases) (simp_all add: settled_snoc del: unanswered_snoc)
      ultimately show ?thesis
        using False True step stays here
        by (simp add: settled_snoc pending_after_def moved_on_def count_after_def)
    next
      case n: False
      obtain item where item: "table_get (table_after (take (settled_at k cs) cs)) k = Some item"
        "pending ?t k = Some (placement_of item, ?n)" using snoc n by auto
      have "pending_after k c ?t (pending ?t k) = Some (placement_of item, unanswered k (cs @ [c]))"
        using False here item(2) n by (auto simp: pending_after_def moved_on_def accepted_def count_after_def split: option.splits if_splits)
      moreover have "settled_at k (cs @ [c]) = settled_at k cs" using False by (simp add: settled_snoc del: unanswered_snoc)
      ultimately show ?thesis
        using False step stays here item(1) settled_bound [of k cs] by (simp del: unanswered_snoc)
    qed
  qed
qed

section \<open>A refusal puts the object back\<close>

lemma bt_get_inserted [simp]: "bt_get (bt_insert k v m) k = Some v"
  by (induction k v m rule: bt_insert.induct) (auto simp: bt_get_def)

definition put_back :: "object_table \<Rightarrow> u32 \<Rightarrow> object_placement \<Rightarrow> bool" where
  "put_back t k p \<longleftrightarrow>
     (\<exists>item. table_get t k = Some item \<and> placement_of item = p) \<and> hm_get (ot_pending_moves t) k = None \<and>
     (pc_container_id p \<noteq> 0 \<longrightarrow>
        k \<in> set (get_contents t (pc_container_id p)) \<and>
        sorted (map (slot_key (ot_objects t)) (get_contents t (pc_container_id p))))"

lemma get_contents_same:
  "ot_container_index t' = ot_container_index t \<Longrightarrow> get_contents t' c = get_contents t c"
  by (simp add: get_contents_def)

lemma placed_back:
  assumes "table_get t k = Some item" "bt_ok (ot_objects t)" "r = apply_placement k p None origin False t"
  shows "fst r" "table_get (fst (snd r)) k = Some (place_object p item)"
    "pc_container_id p \<noteq> 0 \<Longrightarrow> k \<in> set (get_contents (fst (snd r)) (pc_container_id p)) \<and>
       sorted (map (slot_key (ot_objects (fst (snd r)))) (get_contents (fst (snd r)) (pc_container_id p)))"
proof -
  define t2 where "t2 = put_object k (place_object p item)
      (t\<lparr>ot_container_index := fst (remove_from_other_container_indexes (ot_container_index t) k (pc_container_id p))\<rparr>)"
  define t3 where "t3 = join_list k p (pc_container_id (placement_of item)) False t2"
  have 2: "table_get t2 k = Some (place_object p item)" using assms(2) by (simp add: t2_def)
  have objects: "ot_objects t3 = ot_objects t2" by (simp add: t3_def join_list_def)
  have index: "ot_container_index t3 = reindex (ot_container_index t2) (ot_objects t2) k (pc_container_id (placement_of item))"
    by (simp add: t3_def join_list_def)
  have r: "r = (True, fst (publish_placement_change k (placement_of item) origin t3),
      snd (publish_placement_change k (placement_of item) origin t3) @
      publish_container_contents_changes (snd (remove_from_other_container_indexes (ot_container_index t) k (pc_container_id p))))"
    using assms(1) by (simp add: assms(3) apply_placement_def leave_lists_def case_prod_beta Let_def hinted_def t2_def t3_def)
  have published: "ot_objects (fst (snd r)) = ot_objects t3" "ot_container_index (fst (snd r)) = ot_container_index t3"
    by (simp_all add: r publish_placement_change_def Let_def emit_def bump_def split: option.split)
  show "fst r" by (simp add: r)
  show "table_get (fst (snd r)) k = Some (place_object p item)" using 2 published objects by (simp add: table_get_def)
  assume "pc_container_id p \<noteq> 0"
  moreover have "ob_container_id (place_object p item) = pc_container_id p" by (simp add: place_object_def)
  ultimately show "k \<in> set (get_contents (fst (snd r)) (pc_container_id p)) \<and>
       sorted (map (slot_key (ot_objects (fst (snd r)))) (get_contents (fst (snd r)) (pc_container_id p)))"
    using 2 by (simp add: get_contents_def published objects index reindex_def Let_def table_get_def list_or_default_def)
qed

lemma rolled_back:
  assumes "worn_ok t" "table_get t k \<noteq> None" "pending t k = Some (p, n)"
  shows "fst (reject_move k err t) \<and> put_back (fst (snd (reject_move k err t))) k p \<and>
    MoveRequestFailed \<lparr>mf_item_id = k, mf_weenie_error = err, mf_rolled_back = True\<rparr> \<in> set (snd (snd (reject_move k err t)))"
proof -
  obtain item where item: "table_get t k = Some item" using assms(2) by auto
  let ?t = "t\<lparr>ot_pending_moves := hm_remove k (ot_pending_moves t)\<rparr>"
  have "table_get ?t k = Some item" "bt_ok (ot_objects ?t)" using item assms(1) by (simp_all add: worn_ok_def tracks_ok)
  note b = placed_back [OF this refl, of p ServerRollbackProjection]
  have "reject_move k err t = (True, fst (snd (apply_placement k p None ServerRollbackProjection False ?t)),
      snd (snd (apply_placement k p None ServerRollbackProjection False ?t)) @
      [MoveRolledBack k (identity_of (fst (snd (apply_placement k p None ServerRollbackProjection False ?t))) k),
       MoveRequestFailed \<lparr>mf_item_id = k, mf_weenie_error = err, mf_rolled_back = True\<rparr>])"
    using assms(3) b(1) by (simp add: reject_move_def rollback_move_def Let_def case_prod_beta)
  then show ?thesis using b(2,3) by (auto simp: put_back_def)
qed

text \<open>
  C10. After any history of the table the server refuses a move of an object. If no move of it that was made
  ahead of the server is unanswered (every one was accepted, refused before, or ended with the
  object), nothing changes and the failure is announced as not rolled back. Otherwise the object is put back at
  exactly the placement it had when no move of it was last unanswered, that is before the first move of
  the unbroken series, even when the server has accepted some of that series in between; nothing
  about it is outstanding, it is on its container's list again, which is in the order of the slots, and the failure is
  announced as rolled back. Which moves are unanswered is counted on the history alone.
\<close>

theorem refused_move_restores:
  "let t = table_after history; r = reject_move k err t
   in if unanswered k history = 0
      then r = (False, t, [MoveRequestFailed \<lparr>mf_item_id = k, mf_weenie_error = err, mf_rolled_back = False\<rparr>])
      else \<exists>item. table_get (table_after (take (settled_at k history) history)) k = Some item \<and>
        fst r \<and> put_back (fst (snd r)) k (placement_of item) \<and>
        MoveRequestFailed \<lparr>mf_item_id = k, mf_weenie_error = err, mf_rolled_back = True\<rparr> \<in> set (snd (snd r))"
proof (cases "unanswered k history = 0")
  case True
  then have "pending (table_after history) k = None" using remembered [of k history] by simp
  then show ?thesis using True by (simp add: reject_move_def rollback_move_def)
next
  case False
  then obtain item where "table_get (table_after (take (settled_at k history) history)) k = Some item"
      "pending (table_after history) k = Some (placement_of item, unanswered k history)" "table_get (table_after history) k \<noteq> None"
    using remembered [of k history] by auto
  then show ?thesis using False rolled_back [OF worn_after] by (simp add: Let_def)
qed

definition pack_history :: "table_command list" where
  "pack_history = [Listing (InventoryManifest 5 [\<lparr>ce_guid = 7, ce_container_type = 0\<rparr>, \<lparr>ce_guid = 8, ce_container_type = 0\<rparr>])]"

text \<open>Wielded, moved on, and one of the two accepted: the refusal goes back to before both.\<close>

definition pack_moves :: "table_command list" where
  "pack_moves = [Placement (WieldOptimistic 7 9 4), Placement (MoveOptimistic 7 6 0), Placement (ConfirmMove 7)]"

lemma pack_history_item:
  "map_option placement_of (table_get (table_after pack_history) 7) = Some (in_container 5 0)"
  "hm_get (ot_pending_moves (table_after pack_history)) 7 = None"
  by (simp_all add: pack_history_def table_after_def table_new_def initialize_inventory_manifest_def get_contents_def
      list_or_default_def bt_get_def ensure_record_def fresh_identity_def table_get_def put_object_def Let_def
      server_showed_object_def client_object_new_def listed_slot_def remove_from_other_container_indexes_def
      update_equipment_index_def placement_of_def equipment_owner_def emit_added_or_updated_def emit_def bumps_revision_def
      bump_def identity_of_def in_container_def)

lemma pack_moves_count:
  "unanswered 7 (pack_history @ pack_moves) = 1" "settled_at 7 (pack_history @ pack_moves) = 1"
proof -
  have 0: "table_get (table_after pack_history) 7 \<noteq> None" using pack_history_item(1) by auto
  let ?h1 = "pack_history @ [Placement (WieldOptimistic 7 9 4)]"
  let ?h2 = "?h1 @ [Placement (MoveOptimistic 7 6 0)]"
  let ?h3 = "?h2 @ [Placement (ConfirmMove 7)]"
  have 1: "table_get (table_after ?h1) 7 \<noteq> None"
    using present_command [OF worn_after _ 0, of "Placement (WieldOptimistic 7 9 4)"] by (simp add: ends_moves_of_def)
  have n0: "unanswered 7 pack_history = 0"
    by (simp add: pack_history_def unanswered_def count_after_def bearing_defs)
  have n1: "unanswered 7 ?h1 = 1" using 0 by (subst unanswered_snoc) (simp add: count_after_def bearing_defs n0 del: unanswered_snoc)
  have n2: "unanswered 7 ?h2 = 2" using 1 unfolding unanswered_snoc [of 7 ?h1] n1 count_after_def by (simp add: bearing_defs del: table_after_snoc)
  have n3: "unanswered 7 ?h3 = 1" unfolding unanswered_snoc [of 7 ?h2] n2 count_after_def by (simp add: bearing_defs)
  have s0: "settled_at 7 pack_history = 1"
    using settled_snoc [of 7 "[]" "hd pack_history"] n0 by (simp add: pack_history_def del: unanswered_snoc)
  have h: "pack_history @ pack_moves = ?h3" by (simp add: pack_moves_def)
  show "unanswered 7 (pack_history @ pack_moves) = 1" using n3 by (simp only: h)
  show "settled_at 7 (pack_history @ pack_moves) = 1"
    unfolding h settled_snoc n3 n2 n1 s0 by simp
qed

lemma refused_move_restores_witness:
  "fst (reject_move 7 1 (table_after (pack_history @ pack_moves))) \<and>
   put_back (fst (snd (reject_move 7 1 (table_after (pack_history @ pack_moves))))) 7 (in_container 5 0)"
proof -
  have "take 1 (pack_history @ pack_moves) = pack_history" by (simp add: pack_history_def)
  then show ?thesis
    using refused_move_restores [where history = "pack_history @ pack_moves" and k = 7 and err = 1] pack_moves_count pack_history_item(1)
    by (auto simp: Let_def)
qed

text \<open>What the refusal does not put back: the list closed up when the object left, so its place in the
  order of the list is lost when another object has taken its slot.\<close>

lemma rollback_reorders:
  "get_contents (table_after pack_history) 5 = [7, 8]"
  "get_contents (fst (snd (reject_move 7 1 (fst (place_command (MoveOptimistic 7 6 0) (table_after pack_history)))))) 5 = [8, 7]"
  by (simp_all add: pack_history_def table_after_def table_new_def initialize_inventory_manifest_def get_contents_def
      list_or_default_def bt_get_def ensure_record_def fresh_identity_def table_get_def put_object_def Let_def
      server_showed_object_def client_object_new_def listed_slot_def remove_from_other_container_indexes_def
      update_equipment_index_def placement_of_def equipment_owner_def emit_added_or_updated_def emit_def bumps_revision_def
      bump_def identity_of_def in_container_def move_item_optimistic_def record_pending_def leave_source_def
      join_destination_def insert_at_def publish_placement_change_def reject_move_def rollback_move_def apply_placement_def
      leave_lists_def join_list_def reindex_def leave_list_def slot_key_def hinted_def place_object_def)

end
