(* ===== verification/Inventory_Transaction.thy ===== *)
theory Inventory_Transaction
  imports Object_Listings
begin

text \<open>
  \<open>crates/ac-core/src/items/transaction.rs\<close>: the one inventory request in flight, the uses and the
  appraisals outstanding. A send passed in as a closure is its result; the busy counters are
  natural numbers that stop at \<open>2 ^ 32 - 1\<close>, and a subtraction below zero is what the properties
  rule out.
\<close>

section \<open>State and events\<close>

datatype request_kind =
    Pickup | PutInContainer | SplitToContainer | Merge | MoveRequest | DropToWorld | SplitToWorld | Wield | Give | Shop

record pending_request =
  pr_token :: u64
  pr_kind :: request_kind
  pr_item_id :: u32
  pr_item_identity :: "nat option"
  pr_dispatched :: bool

datatype transaction_event =
    StateChanged
  | RequestCompleted pending_request
  | RequestFailed pending_request u32
  | ObjectTableCleared

record use_reservation =
  ur_generation :: u64
  ur_resolved :: bool

record transaction_state =
  ts_next_request_token :: u64
  ts_use_generation :: u64
  ts_pending :: "pending_request option"
  ts_busy_count :: nat
  ts_cast_busy_count :: nat
  ts_appraisal_count :: nat

definition transaction_new :: transaction_state where
  "transaction_new =
     \<lparr>ts_next_request_token = 0, ts_use_generation = 0, ts_pending = None, ts_busy_count = 0, ts_cast_busy_count = 0,
      ts_appraisal_count = 0\<rparr>"

definition COUNT_MAX :: nat where "COUNT_MAX = 2 ^ 32 - 1"

definition item_busy_count :: "transaction_state \<Rightarrow> nat" where
  "item_busy_count s = ts_busy_count s - ts_cast_busy_count s"

definition can_begin_request :: "transaction_state \<Rightarrow> bool" where
  "can_begin_request s \<longleftrightarrow> item_busy_count s = 0 \<and> ts_pending s = None"

definition can_begin_appraisal :: "transaction_state \<Rightarrow> bool" where
  "can_begin_appraisal s \<longleftrightarrow> ts_appraisal_count s = 0"

section \<open>Requests\<close>

definition next_token :: "transaction_state \<Rightarrow> u64 \<times> transaction_state" where
  "next_token s =
     (let n = ts_next_request_token s + 1; n = (if n = 0 then 1 else n) in (n, s\<lparr>ts_next_request_token := n\<rparr>))"

definition try_reserve ::
    "request_kind \<Rightarrow> u32 \<Rightarrow> nat option \<Rightarrow> transaction_state \<Rightarrow>
     pending_request option \<times> transaction_state \<times> transaction_event list" where
  "try_reserve kind item_id item_identity s =
     (if item_id = 0 \<or> \<not> can_begin_request s then (None, s, [])
      else
        let (token, s) = next_token s;
            pending = \<lparr>pr_token = token, pr_kind = kind, pr_item_id = item_id, pr_item_identity = item_identity,
                       pr_dispatched = False\<rparr>
        in (Some pending, s\<lparr>ts_pending := Some pending\<rparr>, [StateChanged]))"

definition reserved_as :: "u64 \<Rightarrow> request_kind \<Rightarrow> u32 \<Rightarrow> pending_request \<Rightarrow> bool" where
  "reserved_as token kind item_id p \<longleftrightarrow>
     token \<noteq> 0 \<and> pr_token p = token \<and> pr_item_id p = item_id \<and> pr_kind p = kind \<and> \<not> pr_dispatched p"

definition mark_dispatched ::
    "u64 \<Rightarrow> request_kind \<Rightarrow> u32 \<Rightarrow> transaction_state \<Rightarrow> bool \<times> transaction_state \<times> transaction_event list" where
  "mark_dispatched token kind item_id s =
     (case ts_pending s of
        None \<Rightarrow> (False, s, [])
      | Some current \<Rightarrow>
          if reserved_as token kind item_id current
          then (True, s\<lparr>ts_pending := Some (current\<lparr>pr_dispatched := True\<rparr>)\<rparr>, [StateChanged])
          else (False, s, []))"

definition clear_pending :: "u64 \<Rightarrow> transaction_state \<Rightarrow> transaction_state \<times> transaction_event list" where
  "clear_pending token s =
     (case ts_pending s of
        None \<Rightarrow> (s, [])
      | Some pending \<Rightarrow> if pr_token pending = token then (s\<lparr>ts_pending := None\<rparr>, [StateChanged]) else (s, []))"

definition finish_dispatch ::
    "pending_request \<Rightarrow> bool \<Rightarrow> transaction_state \<Rightarrow> bool \<times> transaction_state \<times> transaction_event list" where
  "finish_dispatch reserved dispatched s =
     (if \<not> dispatched then (False, clear_pending (pr_token reserved) s)
      else (let (marked, s, events) = mark_dispatched (pr_token reserved) (pr_kind reserved) (pr_item_id reserved) s
            in (True, s, events)))"

definition try_dispatch ::
    "request_kind \<Rightarrow> u32 \<Rightarrow> nat option \<Rightarrow> bool \<Rightarrow> transaction_state \<Rightarrow>
     bool \<times> transaction_state \<times> transaction_event list" where
  "try_dispatch kind item_id item_identity dispatched s =
     (let (reserved, s, events) = try_reserve kind item_id item_identity s
      in case reserved of
           None \<Rightarrow> (False, s, events)
         | Some reserved \<Rightarrow> (let (sent, s, more) = finish_dispatch reserved dispatched s in (sent, s, events @ more)))"

definition try_dispatch_reserved ::
    "u64 \<Rightarrow> request_kind \<Rightarrow> u32 \<Rightarrow> bool \<Rightarrow> transaction_state \<Rightarrow> bool \<times> transaction_state \<times> transaction_event list" where
  "try_dispatch_reserved token kind item_id dispatched s =
     (case ts_pending s of
        None \<Rightarrow> (False, s, [])
      | Some current \<Rightarrow>
          if item_id \<noteq> 0 \<and> reserved_as token kind item_id current then finish_dispatch current dispatched s
          else (False, s, []))"

definition cancel_before_dispatch :: "u64 \<Rightarrow> transaction_state \<Rightarrow> bool \<times> transaction_state \<times> transaction_event list" where
  "cancel_before_dispatch token s =
     (case ts_pending s of
        None \<Rightarrow> (False, s, [])
      | Some pending \<Rightarrow>
          if pr_token pending = token \<and> \<not> pr_dispatched pending then (True, s\<lparr>ts_pending := None\<rparr>, [StateChanged])
          else (False, s, []))"

section \<open>Uses and appraisals\<close>

definition increment_busy_count :: "transaction_state \<Rightarrow> transaction_state \<times> transaction_event list" where
  "increment_busy_count s = (s\<lparr>ts_busy_count := min COUNT_MAX (ts_busy_count s + 1)\<rparr>, [StateChanged])"

definition increment_cast_busy_count :: "transaction_state \<Rightarrow> transaction_state \<times> transaction_event list" where
  "increment_cast_busy_count s =
     (if ts_busy_count s = COUNT_MAX then (s, [])
      else (s\<lparr>ts_busy_count := ts_busy_count s + 1, ts_cast_busy_count := ts_cast_busy_count s + 1\<rparr>, [StateChanged]))"

definition begin_use_request_reservation ::
    "transaction_state \<Rightarrow> use_reservation \<times> transaction_state \<times> transaction_event list" where
  "begin_use_request_reservation s =
     (let (s, events) = increment_busy_count s
      in (\<lparr>ur_generation = ts_use_generation s, ur_resolved = False\<rparr>, s, events))"

definition mark_use_dispatched :: "use_reservation \<Rightarrow> use_reservation" where
  "mark_use_dispatched r = r\<lparr>ur_resolved := True\<rparr>"

definition cancel_use_before_dispatch ::
    "use_reservation \<Rightarrow> transaction_state \<Rightarrow> use_reservation \<times> transaction_state \<times> transaction_event list" where
  "cancel_use_before_dispatch r s =
     (if ur_resolved r \<or> ur_generation r \<noteq> ts_use_generation s then (r\<lparr>ur_resolved := True\<rparr>, s, [])
      else (r\<lparr>ur_resolved := True\<rparr>,
            if item_busy_count s > 0 then s\<lparr>ts_busy_count := ts_busy_count s - 1\<rparr> else s, [StateChanged]))"

definition complete_use :: "transaction_state \<Rightarrow> transaction_state \<times> transaction_event list" where
  "complete_use s =
     (if ts_busy_count s = 0 then (s, [])
      else
        let s = (if item_busy_count s = 0 then s\<lparr>ts_cast_busy_count := ts_cast_busy_count s - 1\<rparr> else s)
        in (s\<lparr>ts_busy_count := ts_busy_count s - 1\<rparr>, [StateChanged]))"

definition increment_appraisal_count :: "transaction_state \<Rightarrow> transaction_state \<times> transaction_event list" where
  "increment_appraisal_count s = (s\<lparr>ts_appraisal_count := min COUNT_MAX (ts_appraisal_count s + 1)\<rparr>, [StateChanged])"

definition complete_appraisal :: "transaction_state \<Rightarrow> transaction_state \<times> transaction_event list" where
  "complete_appraisal s =
     (if ts_appraisal_count s = 0 then (s, []) else (s\<lparr>ts_appraisal_count := ts_appraisal_count s - 1\<rparr>, [StateChanged]))"

definition clear_busy :: "transaction_state \<Rightarrow> transaction_state \<times> transaction_event list" where
  "clear_busy s =
     (if ts_busy_count s = 0 \<and> ts_appraisal_count s = 0 then (s, [])
      else (s\<lparr>ts_use_generation := ts_use_generation s + 1, ts_busy_count := 0, ts_cast_busy_count := 0,
             ts_appraisal_count := 0\<rparr>, [StateChanged]))"

definition reset_session :: "transaction_state \<Rightarrow> transaction_state \<times> transaction_event list" where
  "reset_session s =
     (let changed = (ts_pending s \<noteq> None \<or> ts_busy_count s \<noteq> 0 \<or> ts_appraisal_count s \<noteq> 0)
      in (s\<lparr>ts_pending := None, ts_use_generation := ts_use_generation s + 1, ts_busy_count := 0, ts_cast_busy_count := 0,
            ts_appraisal_count := 0\<rparr>, if changed then [StateChanged] else []))"

section \<open>Following the table and the vendor\<close>

definition matches_identity :: "nat option \<Rightarrow> u32 \<Rightarrow> nat option \<Rightarrow> object_table \<Rightarrow> bool" where
  "matches_identity expected item_id actual t =
     (case expected of
        None \<Rightarrow> True
      | Some expected \<Rightarrow>
          (case actual of
             Some actual \<Rightarrow> actual = expected
           | None \<Rightarrow> (case table_get t item_id of None \<Rightarrow> True | Some current \<Rightarrow> ob_identity current = expected)))"

definition complete_inventory_response ::
    "u32 \<Rightarrow> nat option \<Rightarrow> object_table \<Rightarrow> transaction_state \<Rightarrow>
     pending_request option \<times> transaction_state \<times> transaction_event list" where
  "complete_inventory_response item_id identity t s =
     (case ts_pending s of
        None \<Rightarrow> (None, s, [])
      | Some request \<Rightarrow>
          if pr_kind request = Shop \<or> pr_item_id request \<noteq> item_id \<or>
             \<not> matches_identity (pr_item_identity request) item_id identity t
          then (None, s, [])
          else (Some request, s\<lparr>ts_pending := None\<rparr>, [RequestCompleted request, StateChanged]))"

definition on_move_failed :: "u32 \<Rightarrow> u32 \<Rightarrow> object_table \<Rightarrow> transaction_state \<Rightarrow> transaction_state \<times> transaction_event list" where
  "on_move_failed failed_item_id weenie_error t s =
     (if (case ts_pending s of Some p \<Rightarrow> pr_kind p = Shop | None \<Rightarrow> False)
      then (s\<lparr>ts_pending := None\<rparr>, [RequestFailed (the (ts_pending s)) weenie_error, StateChanged])
      else
        let item_id = (case ts_pending s of None \<Rightarrow> failed_item_id | Some p \<Rightarrow> pr_item_id p);
            identity = map_option ob_identity (table_get t item_id);
            (completed, s, events) = complete_inventory_response item_id identity t s
        in (s, events @ (case completed of None \<Rightarrow> [] | Some failed \<Rightarrow> [RequestFailed failed weenie_error])))"

definition observe_table_event ::
    "table_event \<Rightarrow> object_table \<Rightarrow> transaction_state \<Rightarrow> transaction_state \<times> transaction_event list" where
  "observe_table_event e t s =
     (case e of
        ObjectMoved m \<Rightarrow>
          if om_origin m = AuthoritativeResponse
          then snd (complete_inventory_response (om_item_id m) (om_identity m) t s) else (s, [])
      | MoveRequestFailed f \<Rightarrow> on_move_failed (mf_item_id f) (mf_weenie_error f) t s
      | ObjectRemoved item reason generation \<Rightarrow>
          snd (complete_inventory_response (ob_object_id item) (Some (ob_identity item)) t s)
      | StackSizeUpdated object_id identity \<Rightarrow> snd (complete_inventory_response object_id (Some identity) t s)
      | TableCleared \<Rightarrow>
          (s\<lparr>ts_pending := None\<rparr>, ObjectTableCleared # (if ts_pending s \<noteq> None then [StateChanged] else []))
      | _ \<Rightarrow> (s, []))"

datatype vendor_transition_kind = VendorOpened | VendorRefreshed | VendorClosed | VendorReset

record vendor_transition =
  vt_kind :: vendor_transition_kind
  vt_previous_vendor_id :: u32
  vt_vendor_id :: u32

definition observe_vendor_transition ::
    "vendor_transition \<Rightarrow> transaction_state \<Rightarrow> transaction_state \<times> transaction_event list" where
  "observe_vendor_transition tr s =
     (if vt_kind tr \<noteq> VendorOpened \<and> vt_kind tr \<noteq> VendorRefreshed then (s, [])
      else case ts_pending s of
        None \<Rightarrow> (s, [])
      | Some pending \<Rightarrow>
          if pr_kind pending = Shop \<and> pr_item_id pending = vt_vendor_id tr
          then (s\<lparr>ts_pending := None\<rparr>, [RequestCompleted pending, StateChanged])
          else (s, []))"

end
