(* ===== verification/Inventory_Session.thy ===== *)
theory Inventory_Session
  imports Records_Kept Inventory_Transaction
begin

text \<open>
  The inventory of a session: the object table, the request in flight and the table's events that the
  request has yet to follow. \<open>Inventory::observe\<close> of \<open>crates/ac-runtime/src/inventory/mod.rs\<close> takes
  the events in order, each with the table as it then is; a request is reserved with the identity its
  object then has (\<open>dispatch\<close> and \<open>begin_placement\<close> of \<open>inventory/actions.rs\<close>).
\<close>

section \<open>The session\<close>

datatype transaction_command =
    Reserve request_kind u32 bool
  | Dispatch request_kind u32 bool
  | MarkDispatched u64 request_kind u32
  | DispatchReserved u64 request_kind u32 bool
  | Cancel u64
  | VendorMoved vendor_transition
  | BeginUse
  | BeginCast
  | CancelUse use_reservation
  | CompleteUse
  | BeginAppraisal
  | CompleteAppraisal
  | ClearBusy
  | ResetRequests

text \<open>A reservation names its object's record, or (a shop request) does not.\<close>

definition identity_now :: "object_table \<Rightarrow> u32 \<Rightarrow> nat option" where
  "identity_now t item_id = map_option ob_identity (table_get t item_id)"

fun run_transaction ::
    "transaction_command \<Rightarrow> object_table \<Rightarrow> transaction_state \<Rightarrow> transaction_state \<times> transaction_event list" where
  "run_transaction (Reserve kind item_id named) t s =
     snd (try_reserve kind item_id (if named then identity_now t item_id else None) s)"
| "run_transaction (Dispatch kind item_id sent) t s = snd (try_dispatch kind item_id (identity_now t item_id) sent s)"
| "run_transaction (MarkDispatched token kind item_id) t s = snd (mark_dispatched token kind item_id s)"
| "run_transaction (DispatchReserved token kind item_id sent) t s = snd (try_dispatch_reserved token kind item_id sent s)"
| "run_transaction (Cancel token) t s = snd (cancel_before_dispatch token s)"
| "run_transaction (VendorMoved tr) t s = observe_vendor_transition tr s"
| "run_transaction BeginUse t s = snd (begin_use_request_reservation s)"
| "run_transaction BeginCast t s = increment_cast_busy_count s"
| "run_transaction (CancelUse r) t s = snd (cancel_use_before_dispatch r s)"
| "run_transaction CompleteUse t s = complete_use s"
| "run_transaction BeginAppraisal t s = increment_appraisal_count s"
| "run_transaction CompleteAppraisal t s = complete_appraisal s"
| "run_transaction ClearBusy t s = clear_busy s"
| "run_transaction ResetRequests t s = reset_session s"

record inventory_session =
  in_table :: object_table
  in_requests :: transaction_state
  in_unseen :: "table_event list"

definition session_new :: inventory_session where
  "session_new = \<lparr>in_table = table_new, in_requests = transaction_new, in_unseen = []\<rparr>"

datatype session_step =
    Change table_command
  | Transact transaction_command
  | ObserveNext

fun run_step :: "session_step \<Rightarrow> inventory_session \<Rightarrow> inventory_session \<times> transaction_event list" where
  "run_step (Change c) s =
     (let (t, events) = run_command c (in_table s)
      in (s\<lparr>in_table := t, in_unseen := in_unseen s @ events\<rparr>, []))"
| "run_step (Transact c) s =
     (let (r, told) = run_transaction c (in_table s) (in_requests s) in (s\<lparr>in_requests := r\<rparr>, told))"
| "run_step ObserveNext s =
     (case in_unseen s of
        [] \<Rightarrow> (s, [])
      | e # es \<Rightarrow>
          let (r, told) = observe_table_event e (in_table s) (in_requests s)
          in (s\<lparr>in_requests := r, in_unseen := es\<rparr>, told))"

fun run_steps :: "session_step list \<Rightarrow> inventory_session \<Rightarrow> inventory_session" where
  "run_steps [] s = s"
| "run_steps (x # xs) s = run_steps xs (fst (run_step x s))"

definition session_after :: "session_step list \<Rightarrow> inventory_session" where
  "session_after xs = run_steps xs session_new"

text \<open>The events of a list followed one after the other, as a call of \<open>observe\<close> does.\<close>

fun observe_all ::
    "table_event list \<Rightarrow> object_table \<Rightarrow> transaction_state \<Rightarrow> transaction_state \<times> transaction_event list" where
  "observe_all [] t r = (r, [])"
| "observe_all (e # es) t r =
     (let (r, told) = observe_table_event e t r; (r, more) = observe_all es t r in (r, told @ more))"

definition own_steps :: "session_step list \<Rightarrow> bool" where
  "own_steps xs \<longleftrightarrow> list_all (\<lambda>x. case x of Change c \<Rightarrow> session_command c | _ \<Rightarrow> True) xs"

section \<open>Counters and tokens\<close>

definition counts_ok :: "transaction_state \<Rightarrow> bool" where
  "counts_ok r \<longleftrightarrow>
     ts_cast_busy_count r \<le> ts_busy_count r \<and> ts_busy_count r \<le> COUNT_MAX \<and> ts_appraisal_count r \<le> COUNT_MAX \<and>
     (\<forall>p. ts_pending r = Some p \<longrightarrow> pr_token p \<noteq> 0 \<and> pr_token p = ts_next_request_token r \<and> pr_item_id p \<noteq> 0)"

lemma next_token_nonzero: "fst (next_token r) \<noteq> 0"
  by (simp add: next_token_def Let_def)

lemma counts_reserve: "counts_ok r \<Longrightarrow> counts_ok (fst (snd (try_reserve kind k i r)))"
  using next_token_nonzero [of r]
  by (auto simp: try_reserve_def next_token_def Let_def counts_ok_def)

lemma counts_pending:
  "counts_ok r \<Longrightarrow> ts_pending r' \<in> {ts_pending r, None, map_option (\<lambda>p. p\<lparr>pr_dispatched := True\<rparr>) (ts_pending r)} \<Longrightarrow>
   ts_next_request_token r' = ts_next_request_token r \<Longrightarrow> ts_cast_busy_count r' \<le> ts_busy_count r' \<Longrightarrow>
   ts_busy_count r' \<le> COUNT_MAX \<Longrightarrow> ts_appraisal_count r' \<le> COUNT_MAX \<Longrightarrow> counts_ok r'"
  by (auto simp: counts_ok_def)

lemma counts_bounds:
  "counts_ok r \<Longrightarrow> ts_cast_busy_count r \<le> ts_busy_count r" "counts_ok r \<Longrightarrow> ts_busy_count r \<le> COUNT_MAX"
  "counts_ok r \<Longrightarrow> ts_appraisal_count r \<le> COUNT_MAX"
  by (simp_all add: counts_ok_def)

lemma counts_finish:
  assumes "counts_ok r"
  shows "counts_ok (fst (snd (finish_dispatch p sent r)))"
  by (rule counts_pending [OF assms])
    (auto simp: finish_dispatch_def mark_dispatched_def clear_pending_def case_prod_beta counts_bounds [OF assms] split: option.split)

lemma counts_transaction: "counts_ok r \<Longrightarrow> counts_ok (fst (run_transaction c t r))"
proof (cases c)
  case (Reserve kind k named)
  assume "counts_ok r"
  then show ?thesis by (simp add: Reserve counts_reserve)
next
  case (Dispatch kind k sent)
  assume "counts_ok r"
  then show ?thesis
    using counts_reserve [of r kind k "identity_now t k"]
    by (simp add: Dispatch try_dispatch_def case_prod_beta counts_finish split: option.split)
next
  case (DispatchReserved token kind k sent)
  assume "counts_ok r"
  then show ?thesis by (simp add: DispatchReserved try_dispatch_reserved_def counts_finish split: option.split)
next
  case (MarkDispatched token kind k)
  assume "counts_ok r"
  then show ?thesis
    by (rule counts_pending) (auto simp: MarkDispatched mark_dispatched_def counts_bounds [OF \<open>counts_ok r\<close>] split: option.split)
next
  case (Cancel token)
  assume "counts_ok r"
  then show ?thesis
    by (rule counts_pending) (auto simp: Cancel cancel_before_dispatch_def counts_bounds [OF \<open>counts_ok r\<close>] split: option.split)
next
  case (VendorMoved tr)
  assume "counts_ok r"
  then show ?thesis
    by (rule counts_pending) (auto simp: VendorMoved observe_vendor_transition_def counts_bounds [OF \<open>counts_ok r\<close>] split: option.split)
qed (auto simp: counts_ok_def item_busy_count_def Let_def begin_use_request_reservation_def increment_busy_count_def
    increment_cast_busy_count_def cancel_use_before_dispatch_def complete_use_def increment_appraisal_count_def
    complete_appraisal_def clear_busy_def reset_session_def)

lemma completed_cases: "fst (snd (complete_inventory_response k d t r)) \<in> {r, r\<lparr>ts_pending := None\<rparr>}"
  by (simp add: complete_inventory_response_def split: option.split)

text \<open>Following an event keeps the request or ends it, and changes nothing else.\<close>

lemma observe_cases: "fst (observe_table_event e t r) \<in> {r, r\<lparr>ts_pending := None\<rparr>}"
proof (cases e)
  case (MoveRequestFailed f)
  then show ?thesis
    using completed_cases [of "case ts_pending r of None \<Rightarrow> mf_item_id f | Some p \<Rightarrow> pr_item_id p"]
    by (simp add: observe_table_event_def on_move_failed_def Let_def case_prod_beta)
qed (use completed_cases in \<open>simp_all add: observe_table_event_def\<close>)

lemma counts_observe: "counts_ok r \<Longrightarrow> counts_ok (fst (observe_table_event e t r))"
  using observe_cases [of e t r] by (auto simp: counts_ok_def)

lemma counts_new: "counts_ok transaction_new"
  by (simp add: counts_ok_def transaction_new_def)

lemma session_keeps:
  assumes "\<And>x s. P s \<Longrightarrow> x \<in> set xs \<Longrightarrow> P (fst (run_step x s))" "P s"
  shows "P (run_steps xs s)"
  using assms by (induction xs arbitrary: s) auto

lemma session_counts: "counts_ok (in_requests (session_after xs))"
proof -
  have step: "counts_ok (in_requests (fst (run_step x s)))" if "counts_ok (in_requests s)" for x s
    using that by (cases x) (auto simp: case_prod_beta counts_transaction counts_observe split: list.split)
  show ?thesis
    unfolding session_after_def
    by (rule session_keeps [of "\<lambda>s. counts_ok (in_requests s)"]) (simp_all add: step session_new_def counts_new)
qed

section \<open>The request and its record\<close>

definition request_followed :: "object_table \<Rightarrow> table_event list \<Rightarrow> transaction_state \<Rightarrow> bool" where
  "request_followed t es r \<longleftrightarrow>
     (\<forall>p d. ts_pending r = Some p \<longrightarrow> pr_kind p \<noteq> Shop \<longrightarrow> pr_item_identity p = Some d \<longrightarrow>
        identity_now t (pr_item_id p) = Some d \<or> (\<exists>e \<in> set es. ends_record (pr_item_id p) d e))"

lemma observe_pending: "ts_pending (fst (observe_table_event e t r)) \<in> {ts_pending r, None}"
  using observe_cases [of e t r] by auto

lemma ends_record_observed:
  "ts_pending r = Some p \<Longrightarrow> pr_kind p \<noteq> Shop \<Longrightarrow> pr_item_identity p = Some d \<Longrightarrow> ends_record (pr_item_id p) d e \<Longrightarrow>
   ts_pending (fst (observe_table_event e t r)) = None"
  by (auto simp: ends_record_def observe_table_event_def complete_inventory_response_def matches_identity_def
      split: table_event.splits)

lemma followed_observe:
  assumes "request_followed t (e # es) r"
  shows "request_followed t es (fst (observe_table_event e t r))"
proof (cases "ts_pending (fst (observe_table_event e t r))")
  case (Some p)
  then have p: "ts_pending r = Some p" using observe_pending [of e t r] by auto
  have "\<not> ends_record (pr_item_id p) d e" if "pr_kind p \<noteq> Shop" "pr_item_identity p = Some d" for d
    using ends_record_observed [OF p that, of e t] Some by auto
  then show ?thesis using assms p Some by (auto simp: request_followed_def)
qed (simp add: request_followed_def)

lemma followed_pending:
  "request_followed t es r \<Longrightarrow>
   ts_pending r' \<in> {ts_pending r, None, map_option (\<lambda>p. p\<lparr>pr_dispatched := True\<rparr>) (ts_pending r)} \<Longrightarrow> request_followed t es r'"
  by (auto simp: request_followed_def)

lemma followed_reserve:
  assumes "request_followed t es r" "i = None \<or> i = identity_now t k"
  shows "request_followed t es (fst (snd (try_reserve kind k i r)))"
  using assms by (auto simp: try_reserve_def request_followed_def Let_def case_prod_beta next_token_def)

lemma followed_finish: "request_followed t es r \<Longrightarrow> request_followed t es (fst (snd (finish_dispatch p sent r)))"
  by (erule followed_pending)
    (auto simp: finish_dispatch_def mark_dispatched_def clear_pending_def case_prod_beta split: option.split)

lemma followed_transaction:
  assumes ok: "request_followed t es r"
  shows "request_followed t es (fst (run_transaction c t r))"
proof (cases c)
  case (Reserve kind k named)
  then show ?thesis using ok by (simp add: followed_reserve)
next
  case (Dispatch kind k sent)
  then show ?thesis
    using followed_reserve [OF ok, of "identity_now t k" k kind]
    by (simp add: try_dispatch_def case_prod_beta followed_finish split: option.split)
next
  case (DispatchReserved token kind k sent)
  then show ?thesis using ok by (simp add: try_dispatch_reserved_def followed_finish split: option.split)
next
  case (MarkDispatched token kind k)
  show ?thesis by (rule followed_pending [OF ok]) (auto simp: MarkDispatched mark_dispatched_def split: option.split)
next
  case (Cancel token)
  show ?thesis by (rule followed_pending [OF ok]) (auto simp: Cancel cancel_before_dispatch_def split: option.split)
next
  case (VendorMoved tr)
  show ?thesis by (rule followed_pending [OF ok]) (auto simp: VendorMoved observe_vendor_transition_def split: option.split)
qed (auto intro!: followed_pending [OF ok] simp: begin_use_request_reservation_def increment_busy_count_def Let_def
    increment_cast_busy_count_def cancel_use_before_dispatch_def complete_use_def increment_appraisal_count_def
    complete_appraisal_def clear_busy_def reset_session_def)

lemma followed_change:
  assumes "request_followed t es r" "tells t events t'"
  shows "request_followed t' (es @ events) r"
  using assms unfolding request_followed_def tells_def identity_now_def by (fastforce simp: map_option_case split: option.splits)

definition session_ok :: "inventory_session \<Rightarrow> bool" where
  "session_ok s \<longleftrightarrow> worn_ok (in_table s) \<and> request_followed (in_table s) (in_unseen s) (in_requests s)"

lemma session_step_ok:
  assumes "session_ok s" "own_steps [x]"
  shows "session_ok (fst (run_step x s))"
proof (cases x)
  case (Change c)
  then have "tells (in_table s) (snd (run_command c (in_table s))) (fst (run_command c (in_table s)))"
    using assms by (intro command_tells) (simp_all add: session_ok_def own_steps_def)
  then show ?thesis
    using assms(1) followed_change by (auto simp: Change session_ok_def case_prod_beta worn_run_command)
next
  case (Transact c)
  then show ?thesis using assms(1) by (simp add: session_ok_def case_prod_beta followed_transaction)
next
  case ObserveNext
  then show ?thesis using assms(1) by (auto simp: session_ok_def case_prod_beta followed_observe split: list.split)
qed

lemma session_after_ok: "own_steps xs \<Longrightarrow> session_ok (session_after xs)"
  unfolding session_after_def
proof (rule session_keeps [of session_ok])
  show "session_ok session_new" by (simp add: session_ok_def session_new_def worn_new request_followed_def transaction_new_def)
  show "session_ok (fst (run_step x s))" if "own_steps xs" "session_ok s" "x \<in> set xs" for x s
    using that by (intro session_step_ok) (auto simp: own_steps_def list_all_iff)
qed

section \<open>A refusal ends the request\<close>

definition ended :: "pending_request \<Rightarrow> transaction_event list \<Rightarrow> bool" where
  "ended p told \<longleftrightarrow> RequestCompleted p \<in> set told \<or> (\<exists>err. RequestFailed p err \<in> set told) \<or> ObjectTableCleared \<in> set told"

lemma completed_told:
  "ts_pending (fst (snd (complete_inventory_response k d t r))) = None \<Longrightarrow> ts_pending r = Some p \<Longrightarrow>
   RequestCompleted p \<in> set (snd (snd (complete_inventory_response k d t r)))"
  by (simp add: complete_inventory_response_def split: option.splits if_splits)

lemma observe_told:
  assumes "ts_pending r = Some p" "ts_pending (fst (observe_table_event e t r)) = None"
  shows "ended p (snd (observe_table_event e t r))"
proof (cases e)
  case (MoveRequestFailed f)
  then show ?thesis
    using assms completed_told [of "pr_item_id p" "map_option ob_identity (table_get t (pr_item_id p))" t r p]
    by (auto simp: observe_table_event_def on_move_failed_def Let_def case_prod_beta ended_def)
qed (use assms completed_told in \<open>auto simp: observe_table_event_def ended_def split: if_splits\<close>)

lemma all_none: "ts_pending r = None \<Longrightarrow> ts_pending (fst (observe_all es t r)) = None"
proof (induction es arbitrary: r)
  case (Cons e es)
  then show ?case using observe_pending [of e t r] by (simp add: case_prod_beta)
qed simp

lemma all_told:
  "ts_pending r = Some p \<Longrightarrow> ts_pending (fst (observe_all es t r)) = None \<Longrightarrow> ended p (snd (observe_all es t r))"
proof (induction es arbitrary: r)
  case (Cons e es)
  show ?case
  proof (cases "ts_pending (fst (observe_table_event e t r))")
    case None
    then show ?thesis using observe_told [OF Cons.prems(1)] by (auto simp: case_prod_beta ended_def)
  next
    case (Some q)
    then have "ts_pending (fst (observe_table_event e t r)) = Some p" using observe_pending [of e t r] Cons.prems(1) by auto
    from Cons.IH [OF this] Cons.prems(2) show ?thesis by (auto simp: case_prod_beta ended_def)
  qed
qed simp

lemma all_ends_record:
  "ts_pending r = Some p \<Longrightarrow> pr_kind p \<noteq> Shop \<Longrightarrow> pr_item_identity p = Some d \<Longrightarrow>
   \<exists>e \<in> set es. ends_record (pr_item_id p) d e \<Longrightarrow> ts_pending (fst (observe_all es t r)) = None"
proof (induction es arbitrary: r)
  case (Cons e es)
  show ?case
  proof (cases "ts_pending (fst (observe_table_event e t r))")
    case None
    then show ?thesis by (simp add: case_prod_beta all_none)
  next
    case (Some q)
    then have q: "ts_pending (fst (observe_table_event e t r)) = Some p"
      using observe_pending [of e t r] Cons.prems(1) by auto
    then have "\<not> ends_record (pr_item_id p) d e" using ends_record_observed [OF Cons.prems(1-3)] by fastforce
    then show ?thesis using Cons.IH [OF q Cons.prems(2,3)] Cons.prems(4) by (simp add: case_prod_beta)
  qed
qed simp

lemma refusal_observed:
  assumes "ts_pending r = Some p" "request_followed t (MoveRequestFailed f # es) r"
  shows "ts_pending (fst (observe_table_event (MoveRequestFailed f) t r)) = None \<or>
    pr_kind p \<noteq> Shop \<and> (\<exists>d. pr_item_identity p = Some d \<and> (\<exists>e \<in> set es. ends_record (pr_item_id p) d e))"
proof (cases "pr_kind p = Shop \<or> matches_identity (pr_item_identity p) (pr_item_id p) (identity_now t (pr_item_id p)) t")
  case True
  then show ?thesis
    using assms(1) by (auto simp: observe_table_event_def on_move_failed_def complete_inventory_response_def identity_now_def)
next
  case False
  then obtain d where d: "pr_item_identity p = Some d" by (auto simp: matches_identity_def split: option.splits)
  moreover have "identity_now t (pr_item_id p) \<noteq> Some d" using False d by (auto simp: matches_identity_def)
  moreover have "\<not> ends_record (pr_item_id p) d (MoveRequestFailed f)" by (simp add: ends_record_def)
  ultimately show ?thesis using False assms by (auto simp: request_followed_def)
qed

lemma all_refused:
  "request_followed t es r \<Longrightarrow> MoveRequestFailed f \<in> set es \<Longrightarrow> ts_pending (fst (observe_all es t r)) = None"
proof (induction es arbitrary: r)
  case (Cons e es)
  show ?case
  proof (cases "ts_pending r")
    case None
    then show ?thesis by (rule all_none)
  next
    case (Some p)
    show ?thesis
    proof (cases "MoveRequestFailed f \<in> set es")
      case True
      then show ?thesis using Cons.IH [OF followed_observe [OF Cons.prems(1)]] by (simp add: case_prod_beta)
    next
      case False
      then have e: "e = MoveRequestFailed f" using Cons.prems(2) by simp
      consider "ts_pending (fst (observe_table_event e t r)) = None"
        | d where "pr_kind p \<noteq> Shop" "pr_item_identity p = Some d" "\<exists>e \<in> set es. ends_record (pr_item_id p) d e"
        using refusal_observed [OF Some, of t f es] Cons.prems(1) e by auto
      then show ?thesis
      proof cases
        case 1
        then show ?thesis by (simp add: case_prod_beta all_none)
      next
        case 2
        then have "\<exists>e' \<in> set (e # es). ends_record (pr_item_id p) d e'" by simp
        then show ?thesis by (rule all_ends_record [OF Some 2(1,2)])
      qed
    qed
  qed
qed simp

text \<open>
  C9. When the server refuses a move, whatever came before and whatever object the refusal names, then
  once the session has followed the table's events no request is in flight, and the one that was is
  reported as completed, as failed or as dropped with the table. No request is left waiting for an
  answer about a record that is gone.
\<close>

theorem refusal_ends_request:
  assumes "own_steps xs"
    and "(t, events) = run_command (Placement (RejectMove item_id weenie_error)) (in_table (session_after xs))"
    and "(r, told) = observe_all (in_unseen (session_after xs) @ events) t (in_requests (session_after xs))"
  shows "ts_pending r = None \<and> (\<forall>p. ts_pending (in_requests (session_after xs)) = Some p \<longrightarrow> ended p told)"
proof -
  let ?s = "session_after xs"
  let ?c = "Placement (RejectMove item_id weenie_error)"
  have "own_steps (xs @ [Change ?c])" using assms(1) by (simp add: own_steps_def session_command_def)
  then have "session_ok (session_after (xs @ [Change ?c]))" by (rule session_after_ok)
  moreover have "run_steps (xs @ [x]) s = fst (run_step x (run_steps xs s))" for x s by (induction xs arbitrary: s) simp_all
  ultimately have "request_followed t (in_unseen ?s @ events) (in_requests ?s)"
    using assms(2) [symmetric] by (simp add: session_after_def session_ok_def case_prod_beta del: run_command.simps)
  moreover have "\<exists>f. MoveRequestFailed f \<in> set events"
    using assms(2) by (auto simp: reject_move_def case_prod_beta)
  ultimately have none: "ts_pending r = None"
    using all_refused assms(3) by (metis Un_iff fst_conv set_append)
  then show ?thesis using all_told assms(3) by (metis fst_conv snd_conv)
qed

definition refused_steps :: "session_step list" where
  "refused_steps =
     [Change (Listing (ReplaceContents 5 [\<lparr>ce_guid = 7, ce_container_type = 0\<rparr>])), Transact (Dispatch PutInContainer 7 True)]"

lemma refused_steps_pending: "map_option pr_item_id (ts_pending (in_requests (session_after refused_steps))) = Some 7"
  by (simp add: refused_steps_def session_after_def session_new_def table_new_def transaction_new_def replace_contents_def
      ensure_record_def fresh_identity_def table_get_def put_object_def bt_get_def Let_def client_object_new_def
      emit_added_or_updated_def emit_def bumps_revision_def bump_def identity_of_def identity_now_def try_dispatch_def
      try_reserve_def next_token_def finish_dispatch_def mark_dispatched_def reserved_as_def can_begin_request_def
      item_busy_count_def)

theorem refusal_ends_request_witness:
  "\<exists>p t events r told. ts_pending (in_requests (session_after refused_steps)) = Some p \<and>
     (t, events) = run_command (Placement (RejectMove 99 1)) (in_table (session_after refused_steps)) \<and>
     (r, told) = observe_all (in_unseen (session_after refused_steps) @ events) t (in_requests (session_after refused_steps)) \<and>
     ts_pending r = None \<and> ended p told"
proof -
  obtain p where p: "ts_pending (in_requests (session_after refused_steps)) = Some p"
    using refused_steps_pending by auto
  obtain t events where c: "(t, events) = run_command (Placement (RejectMove 99 1)) (in_table (session_after refused_steps))"
    by (metis surj_pair)
  obtain r told where o: "(r, told) = observe_all (in_unseen (session_after refused_steps) @ events) t (in_requests (session_after refused_steps))"
    by (metis surj_pair)
  have "own_steps refused_steps" by (simp add: own_steps_def refused_steps_def session_command_def)
  from refusal_ends_request [OF this c o] p c o show ?thesis by blast
qed

text \<open>
  C20. In a session the casting uses never outnumber the uses outstanding and every counter fits its
  32 bits, so no subtraction of the code goes below zero; the request in flight bears the newest token
  handed out, which is not zero, so no older reservation can be marked sent or called off in its place.
\<close>

theorem busy_counts_sound:
  "ts_cast_busy_count (in_requests (session_after xs)) \<le> ts_busy_count (in_requests (session_after xs)) \<and>
   ts_busy_count (in_requests (session_after xs)) \<le> 2 ^ 32 - 1 \<and>
   ts_appraisal_count (in_requests (session_after xs)) \<le> 2 ^ 32 - 1 \<and>
   (\<forall>p. ts_pending (in_requests (session_after xs)) = Some p \<longrightarrow>
      pr_token p \<noteq> 0 \<and> pr_token p = ts_next_request_token (in_requests (session_after xs)) \<and> pr_item_id p \<noteq> 0)"
  using session_counts [of xs] unfolding counts_ok_def COUNT_MAX_def by blast

theorem busy_counts_sound_witness:
  "\<exists>p. ts_pending (in_requests (session_after refused_steps)) = Some p \<and> pr_token p \<noteq> 0 \<and>
     pr_token p = ts_next_request_token (in_requests (session_after refused_steps)) \<and> pr_item_id p \<noteq> 0"
  using busy_counts_sound [of refused_steps] refused_steps_pending by auto

end
