(* ===== verification/Update_Stamps.thy ===== *)
theory Update_Stamps
  imports Net_Prelude
begin

text \<open>
  \<open>crates/ac-core/src/physics/timestamps.rs\<close>: the nine 16-bit counters of an object that decide which
  of the server's updates about it are new enough to apply.
\<close>

section \<open>Counters\<close>

record physics_timestamps =
  pt_position :: u16
  pt_movement :: u16
  pt_state :: u16
  pt_vector :: u16
  pt_teleport :: u16
  pt_server_controlled_move :: u16
  pt_force_position :: u16
  pt_obj_desc :: u16
  pt_instance :: u16

definition timestamps_default :: physics_timestamps where
  "timestamps_default =
     \<lparr>pt_position = 0, pt_movement = 0, pt_state = 0, pt_vector = 0, pt_teleport = 0, pt_server_controlled_move = 0,
      pt_force_position = 0, pt_obj_desc = 0, pt_instance = 0\<rparr>"

datatype create_disposition = StaleGeneration | InitialGeneration | ExistingGeneration | NewGeneration

datatype position_disposition = Rejected | Apply | ForcePosition

definition stamp_newer :: "u16 \<Rightarrow> u16 \<Rightarrow> bool" where
  "stamp_newer old new =
     (let distance = \<bar>int (unat new) - int (unat old)\<bar>
      in if distance > 0x7FFF then new < old else old < new)"

record timestamp_gate =
  tg_stamps :: physics_timestamps
  tg_seeded :: bool

definition gate_new :: timestamp_gate where
  "gate_new = \<lparr>tg_stamps = timestamps_default, tg_seeded = False\<rparr>"

section \<open>Generations\<close>

definition preview_create_object :: "timestamp_gate \<Rightarrow> u16 \<Rightarrow> create_disposition" where
  "preview_create_object g incarnation =
     (if \<not> tg_seeded g then InitialGeneration
      else if stamp_newer (pt_instance (tg_stamps g)) incarnation then NewGeneration
      else if stamp_newer incarnation (pt_instance (tg_stamps g)) then StaleGeneration
      else ExistingGeneration)"

definition seed_for_create_object :: "physics_timestamps \<Rightarrow> timestamp_gate \<Rightarrow> create_disposition \<times> timestamp_gate" where
  "seed_for_create_object incoming g =
     (let disposition = preview_create_object g (pt_instance incoming)
      in (disposition,
          if disposition = InitialGeneration \<or> disposition = NewGeneration
          then g\<lparr>tg_stamps := incoming, tg_seeded := True\<rparr> else g))"

definition seed_for_replacement :: "physics_timestamps \<Rightarrow> timestamp_gate \<Rightarrow> create_disposition \<times> timestamp_gate" where
  "seed_for_replacement incoming g =
     (if tg_seeded g then NewGeneration else InitialGeneration, g\<lparr>tg_stamps := incoming, tg_seeded := True\<rparr>)"

section \<open>Updates\<close>

definition is_current_instance :: "timestamp_gate \<Rightarrow> u16 \<Rightarrow> bool" where
  "is_current_instance g incarnation \<longleftrightarrow> tg_seeded g \<and> incarnation = pt_instance (tg_stamps g)"

definition advance_stamp :: "u16 \<Rightarrow> u16 \<Rightarrow> bool \<times> u16" where
  "advance_stamp current incoming = (if stamp_newer current incoming then (True, incoming) else (False, current))"

definition try_accept_movement :: "u16 \<Rightarrow> u16 \<Rightarrow> u16 \<Rightarrow> timestamp_gate \<Rightarrow> bool \<times> timestamp_gate" where
  "try_accept_movement incarnation movement server_controlled_move g =
     (if \<not> is_current_instance g incarnation then (False, g)
      else
        let (advanced, stamp) = advance_stamp (pt_movement (tg_stamps g)) movement;
            g = g\<lparr>tg_stamps := (tg_stamps g)\<lparr>pt_movement := stamp\<rparr>\<rparr>
        in if \<not> advanced then (False, g)
           else if stamp_newer server_controlled_move (pt_server_controlled_move (tg_stamps g)) then (False, g)
           else (True, g\<lparr>tg_stamps := (tg_stamps g)\<lparr>pt_server_controlled_move := server_controlled_move\<rparr>\<rparr>))"

definition try_accept_state :: "u16 \<Rightarrow> u16 \<Rightarrow> timestamp_gate \<Rightarrow> bool \<times> timestamp_gate" where
  "try_accept_state incarnation state g =
     (if \<not> is_current_instance g incarnation then (False, g)
      else let (advanced, stamp) = advance_stamp (pt_state (tg_stamps g)) state
           in (advanced, g\<lparr>tg_stamps := (tg_stamps g)\<lparr>pt_state := stamp\<rparr>\<rparr>))"

definition try_accept_vector :: "u16 \<Rightarrow> u16 \<Rightarrow> timestamp_gate \<Rightarrow> bool \<times> timestamp_gate" where
  "try_accept_vector incarnation vector g =
     (if \<not> is_current_instance g incarnation then (False, g)
      else let (advanced, stamp) = advance_stamp (pt_vector (tg_stamps g)) vector
           in (advanced, g\<lparr>tg_stamps := (tg_stamps g)\<lparr>pt_vector := stamp\<rparr>\<rparr>))"

definition try_accept_obj_desc :: "u16 \<Rightarrow> u16 \<Rightarrow> timestamp_gate \<Rightarrow> bool \<times> timestamp_gate" where
  "try_accept_obj_desc incarnation obj_desc g =
     (if \<not> is_current_instance g incarnation then (False, g)
      else let (advanced, stamp) = advance_stamp (pt_obj_desc (tg_stamps g)) obj_desc
           in (advanced, g\<lparr>tg_stamps := (tg_stamps g)\<lparr>pt_obj_desc := stamp\<rparr>\<rparr>))"

definition try_accept_position_channel :: "u16 \<Rightarrow> u16 \<Rightarrow> timestamp_gate \<Rightarrow> bool \<times> timestamp_gate" where
  "try_accept_position_channel incarnation pos g =
     (if \<not> is_current_instance g incarnation then (False, g)
      else let (advanced, stamp) = advance_stamp (pt_position (tg_stamps g)) pos
           in (advanced, g\<lparr>tg_stamps := (tg_stamps g)\<lparr>pt_position := stamp\<rparr>\<rparr>))"

definition is_fresh_teleport_start :: "timestamp_gate \<Rightarrow> u16 \<Rightarrow> bool" where
  "is_fresh_teleport_start g teleport \<longleftrightarrow> tg_seeded g \<and> \<not> stamp_newer teleport (pt_teleport (tg_stamps g))"

definition try_accept_delete :: "timestamp_gate \<Rightarrow> u16 \<Rightarrow> bool \<Rightarrow> bool" where
  "try_accept_delete g incarnation is_local_player \<longleftrightarrow>
     \<not> is_local_player \<and> tg_seeded g \<and> incarnation = pt_instance (tg_stamps g)"

text \<open>The position part after the forced positions: the counter moves, and moves back when a newer
  teleport is known.\<close>

definition accept_ordinary_position :: "u16 \<Rightarrow> u16 \<Rightarrow> timestamp_gate \<Rightarrow> position_disposition \<times> timestamp_gate" where
  "accept_ordinary_position pos teleport g =
     (let previous = pt_position (tg_stamps g);
          (advanced, stamp) = advance_stamp previous pos;
          g = g\<lparr>tg_stamps := (tg_stamps g)\<lparr>pt_position := stamp\<rparr>\<rparr>
      in if \<not> advanced then (Rejected, g)
         else if stamp_newer teleport (pt_teleport (tg_stamps g))
         then (Rejected, g\<lparr>tg_stamps := (tg_stamps g)\<lparr>pt_position := previous\<rparr>\<rparr>)
         else (Apply,
               if stamp_newer (pt_teleport (tg_stamps g)) teleport
               then g\<lparr>tg_stamps := (tg_stamps g)\<lparr>pt_teleport := teleport\<rparr>\<rparr> else g))"

definition try_accept_position ::
    "u16 \<Rightarrow> u16 \<Rightarrow> u16 \<Rightarrow> u16 \<Rightarrow> bool \<Rightarrow> timestamp_gate \<Rightarrow> position_disposition \<times> timestamp_gate" where
  "try_accept_position incarnation pos teleport force_position is_local_player g =
     (if \<not> is_current_instance g incarnation then (Rejected, g)
      else if is_local_player \<and> stamp_newer (pt_force_position (tg_stamps g)) force_position
      then (let g = g\<lparr>tg_stamps := (tg_stamps g)\<lparr>pt_force_position := force_position\<rparr>\<rparr>
            in if \<not> stamp_newer teleport (pt_teleport (tg_stamps g))
               then (ForcePosition, g\<lparr>tg_stamps := (tg_stamps g)\<lparr>pt_position := pos\<rparr>\<rparr>)
               else accept_ordinary_position pos teleport g)
      else accept_ordinary_position pos teleport g)"

section \<open>The wrapping comparison\<close>

text \<open>The stamp that comes \<open>n\<close> after another.\<close>

definition stamp_at :: "u16 \<Rightarrow> nat \<Rightarrow> u16" where
  "stamp_at base n = base + of_nat n"

lemma unat_stamp: "unat (stamp_at base n) = (unat base + n) mod 65536"
  by (simp add: stamp_at_def unat_word_ariths unat_of_nat mod_simps)

text \<open>Of two stamps at most 32767 apart on the server's count the later is newer, wherever the count
  wraps; no stamp is newer than itself, and of two stamps one at most is newer.\<close>

lemma newer_counts:
  assumes "m \<le> 32767" "n \<le> 32767"
  shows "stamp_newer (stamp_at base m) (stamp_at base n) \<longleftrightarrow> m < n"
proof -
  define b where "b = unat base"
  have b: "b < 65536" unfolding b_def using unsigned_less [of base] by simp
  have u: "unat (stamp_at base k) = (if b + k < 65536 then b + k else b + k - 65536)" if "k \<le> 32767" for k
    using that b by (simp add: unat_stamp b_def [symmetric] mod_if le_mod_geq)
  show ?thesis
    unfolding stamp_newer_def Let_def word_less_nat_alt u [OF assms(1)] u [OF assms(2)]
    using assms b by (auto simp: abs_if)
qed

lemma newer_irrefl: "\<not> stamp_newer s s"
  by (simp add: stamp_newer_def)

lemma newer_asym: "stamp_newer a b \<Longrightarrow> \<not> stamp_newer b a"
  by (auto simp: stamp_newer_def Let_def abs_minus_commute split: if_splits)

lemma stamp_at_eq: "m \<le> 32767 \<Longrightarrow> n \<le> 32767 \<Longrightarrow> stamp_at base m = stamp_at base n \<longleftrightarrow> m = n"
  by (metis newer_counts newer_irrefl not_less_iff_gr_or_eq)

section \<open>The server's own counts\<close>

text \<open>The counters as the server has them, which never wrap.\<close>

record object_counts =
  ct_position :: nat
  ct_movement :: nat
  ct_state :: nat
  ct_vector :: nat
  ct_teleport :: nat
  ct_server_controlled_move :: nat
  ct_force_position :: nat
  ct_obj_desc :: nat
  ct_instance :: nat

text \<open>The updates, over counters of a type \<open>'c\<close>; \<open>'s\<close> holds all nine.\<close>

datatype ('s, 'c) object_update =
    CreateObject 's
  | UpdateObject 's
  | MovementUpdate 'c 'c 'c
  | StateUpdate 'c 'c
  | VectorUpdate 'c 'c
  | DescUpdate 'c 'c
  | ChannelUpdate 'c 'c
  | PositionUpdate 'c 'c 'c 'c bool
  | TeleportStart 'c
  | DeleteObject 'c bool

datatype update_answer = Generation create_disposition | Answer bool | Placed position_disposition

fun gate_update :: "(physics_timestamps, u16) object_update \<Rightarrow> timestamp_gate \<Rightarrow> update_answer \<times> timestamp_gate" where
  "gate_update (CreateObject s) g = apfst Generation (seed_for_create_object s g)"
| "gate_update (UpdateObject s) g = apfst Generation (seed_for_replacement s g)"
| "gate_update (MovementUpdate i m e) g = apfst Answer (try_accept_movement i m e g)"
| "gate_update (StateUpdate i n) g = apfst Answer (try_accept_state i n g)"
| "gate_update (VectorUpdate i n) g = apfst Answer (try_accept_vector i n g)"
| "gate_update (DescUpdate i n) g = apfst Answer (try_accept_obj_desc i n g)"
| "gate_update (ChannelUpdate i n) g = apfst Answer (try_accept_position_channel i n g)"
| "gate_update (PositionUpdate i p t f player) g = apfst Placed (try_accept_position i p t f player g)"
| "gate_update (TeleportStart t) g = (Answer (is_fresh_teleport_start g t), g)"
| "gate_update (DeleteObject i player) g = (Answer (try_accept_delete g i player), g)"

text \<open>What the updates mean on counts: an object not created yet has none.\<close>

definition count_create :: "object_counts \<Rightarrow> object_counts option \<Rightarrow> create_disposition \<times> object_counts option" where
  "count_create s a =
     (case a of None \<Rightarrow> (InitialGeneration, Some s)
      | Some c \<Rightarrow> if ct_instance c < ct_instance s then (NewGeneration, Some s)
                  else (if ct_instance s < ct_instance c then StaleGeneration else ExistingGeneration, Some c))"

definition count_channel ::
    "(object_counts \<Rightarrow> nat) \<Rightarrow> (nat \<Rightarrow> object_counts \<Rightarrow> object_counts) \<Rightarrow> nat \<Rightarrow> nat \<Rightarrow> object_counts option \<Rightarrow>
     bool \<times> object_counts option" where
  "count_channel get put i n a =
     (case a of None \<Rightarrow> (False, None)
      | Some c \<Rightarrow> if ct_instance c = i \<and> get c < n then (True, Some (put n c)) else (False, Some c))"

definition count_movement :: "nat \<Rightarrow> nat \<Rightarrow> nat \<Rightarrow> object_counts option \<Rightarrow> bool \<times> object_counts option" where
  "count_movement i m e a =
     (case a of None \<Rightarrow> (False, None)
      | Some c \<Rightarrow>
          if ct_instance c = i \<and> ct_movement c < m
          then if ct_server_controlled_move c \<le> e
               then (True, Some (c\<lparr>ct_movement := m, ct_server_controlled_move := e\<rparr>))
               else (False, Some (c\<lparr>ct_movement := m\<rparr>))
          else (False, Some c))"

definition count_position ::
    "nat \<Rightarrow> nat \<Rightarrow> nat \<Rightarrow> nat \<Rightarrow> bool \<Rightarrow> object_counts option \<Rightarrow> position_disposition \<times> object_counts option" where
  "count_position i p t f player a =
     (case a of None \<Rightarrow> (Rejected, None)
      | Some c \<Rightarrow>
          if ct_instance c \<noteq> i then (Rejected, Some c)
          else let forced = player \<and> ct_force_position c < f;
                   c' = if forced then c\<lparr>ct_force_position := f\<rparr> else c
               in if forced \<and> ct_teleport c \<le> t then (ForcePosition, Some (c'\<lparr>ct_position := p\<rparr>))
                  else if ct_position c < p \<and> ct_teleport c \<le> t
                  then (Apply, Some (c'\<lparr>ct_position := p, ct_teleport := t\<rparr>))
                  else (Rejected, Some c'))"

fun count_update ::
    "(object_counts, nat) object_update \<Rightarrow> object_counts option \<Rightarrow> update_answer \<times> object_counts option" where
  "count_update (CreateObject s) a = apfst Generation (count_create s a)"
| "count_update (UpdateObject s) a =
     (Generation (if a = None then InitialGeneration else NewGeneration), Some s)"
| "count_update (MovementUpdate i m e) a = apfst Answer (count_movement i m e a)"
| "count_update (StateUpdate i n) a = apfst Answer (count_channel ct_state (\<lambda>n. ct_state_update (\<lambda>_. n)) i n a)"
| "count_update (VectorUpdate i n) a = apfst Answer (count_channel ct_vector (\<lambda>n. ct_vector_update (\<lambda>_. n)) i n a)"
| "count_update (DescUpdate i n) a = apfst Answer (count_channel ct_obj_desc (\<lambda>n. ct_obj_desc_update (\<lambda>_. n)) i n a)"
| "count_update (ChannelUpdate i n) a = apfst Answer (count_channel ct_position (\<lambda>n. ct_position_update (\<lambda>_. n)) i n a)"
| "count_update (PositionUpdate i p t f player) a = apfst Placed (count_position i p t f player a)"
| "count_update (TeleportStart t) a = (Answer (case a of None \<Rightarrow> False | Some c \<Rightarrow> ct_teleport c \<le> t), a)"
| "count_update (DeleteObject i player) a =
     (Answer (\<not> player \<and> (case a of None \<Rightarrow> False | Some c \<Rightarrow> i = ct_instance c)), a)"

fun answers :: "('u \<Rightarrow> 'g \<Rightarrow> 'r \<times> 'g) \<Rightarrow> 'u list \<Rightarrow> 'g \<Rightarrow> 'r list" where
  "answers f [] g = []"
| "answers f (u # us) g = (let (r, g') = f u g in r # answers f us g')"

text \<open>The stamps of counts, each after a starting value of its own.\<close>

definition stamps_at :: "physics_timestamps \<Rightarrow> object_counts \<Rightarrow> physics_timestamps" where
  "stamps_at b c =
     \<lparr>pt_position = stamp_at (pt_position b) (ct_position c), pt_movement = stamp_at (pt_movement b) (ct_movement c),
      pt_state = stamp_at (pt_state b) (ct_state c), pt_vector = stamp_at (pt_vector b) (ct_vector c),
      pt_teleport = stamp_at (pt_teleport b) (ct_teleport c),
      pt_server_controlled_move = stamp_at (pt_server_controlled_move b) (ct_server_controlled_move c),
      pt_force_position = stamp_at (pt_force_position b) (ct_force_position c),
      pt_obj_desc = stamp_at (pt_obj_desc b) (ct_obj_desc c), pt_instance = stamp_at (pt_instance b) (ct_instance c)\<rparr>"

fun stamped :: "physics_timestamps \<Rightarrow> (object_counts, nat) object_update \<Rightarrow> (physics_timestamps, u16) object_update" where
  "stamped b (CreateObject c) = CreateObject (stamps_at b c)"
| "stamped b (UpdateObject c) = UpdateObject (stamps_at b c)"
| "stamped b (MovementUpdate i m e) =
     MovementUpdate (stamp_at (pt_instance b) i) (stamp_at (pt_movement b) m) (stamp_at (pt_server_controlled_move b) e)"
| "stamped b (StateUpdate i n) = StateUpdate (stamp_at (pt_instance b) i) (stamp_at (pt_state b) n)"
| "stamped b (VectorUpdate i n) = VectorUpdate (stamp_at (pt_instance b) i) (stamp_at (pt_vector b) n)"
| "stamped b (DescUpdate i n) = DescUpdate (stamp_at (pt_instance b) i) (stamp_at (pt_obj_desc b) n)"
| "stamped b (ChannelUpdate i n) = ChannelUpdate (stamp_at (pt_instance b) i) (stamp_at (pt_position b) n)"
| "stamped b (PositionUpdate i p t f player) =
     PositionUpdate (stamp_at (pt_instance b) i) (stamp_at (pt_position b) p) (stamp_at (pt_teleport b) t)
       (stamp_at (pt_force_position b) f) player"
| "stamped b (TeleportStart t) = TeleportStart (stamp_at (pt_teleport b) t)"
| "stamped b (DeleteObject i player) = DeleteObject (stamp_at (pt_instance b) i) player"

definition counts_within :: "object_counts \<Rightarrow> bool" where
  "counts_within c \<longleftrightarrow>
     ct_position c \<le> 32767 \<and> ct_movement c \<le> 32767 \<and> ct_state c \<le> 32767 \<and> ct_vector c \<le> 32767 \<and> ct_teleport c \<le> 32767 \<and>
     ct_server_controlled_move c \<le> 32767 \<and> ct_force_position c \<le> 32767 \<and> ct_obj_desc c \<le> 32767 \<and> ct_instance c \<le> 32767"

definition update_within :: "(object_counts, nat) object_update \<Rightarrow> bool" where
  "update_within u \<longleftrightarrow> pred_object_update counts_within (\<lambda>n. n \<le> 32767) u"

text \<open>A gate stands for counts.\<close>

definition stands_for :: "physics_timestamps \<Rightarrow> timestamp_gate \<Rightarrow> object_counts option \<Rightarrow> bool" where
  "stands_for b g a \<longleftrightarrow>
     (case a of None \<Rightarrow> \<not> tg_seeded g
      | Some c \<Rightarrow> tg_seeded g \<and> tg_stamps g = stamps_at b c \<and> counts_within c)"

lemma stands_for_step:
  assumes "stands_for b g a" "update_within u"
  shows "fst (gate_update (stamped b u) g) = fst (count_update u a) \<and>
         stands_for b (snd (gate_update (stamped b u) g)) (snd (count_update u a))"
proof (cases a)
  case None
  then show ?thesis
    using assms
    by (cases u) (auto simp: stands_for_def update_within_def seed_for_create_object_def preview_create_object_def
        count_create_def seed_for_replacement_def try_accept_movement_def is_current_instance_def count_movement_def
        try_accept_state_def try_accept_vector_def try_accept_obj_desc_def try_accept_position_channel_def count_channel_def
        try_accept_position_def count_position_def is_fresh_teleport_start_def try_accept_delete_def Let_def)
next
  case (Some c)
  have g: "tg_seeded g" "tg_stamps g = stamps_at b c" "counts_within c"
    using assms(1) Some by (auto simp: stands_for_def)
  have gs: "g = \<lparr>tg_stamps = stamps_at b c, tg_seeded = True\<rparr>"
    using g by (cases g) auto
  note w = g(3) [unfolded counts_within_def]
  show ?thesis
    using assms(2) w unfolding Some gs
    by (cases u; simp add: stands_for_def update_within_def seed_for_create_object_def preview_create_object_def
        count_create_def seed_for_replacement_def try_accept_movement_def is_current_instance_def count_movement_def
        try_accept_state_def try_accept_vector_def try_accept_obj_desc_def try_accept_position_channel_def count_channel_def
        try_accept_position_def count_position_def accept_ordinary_position_def is_fresh_teleport_start_def
        try_accept_delete_def Let_def advance_stamp_def stamps_at_def newer_counts stamp_at_eq counts_within_def not_less
        split: if_splits)
qed

lemma gate_answers:
  "stands_for b g a \<Longrightarrow> \<forall>u\<in>set us. update_within u \<Longrightarrow>
   answers gate_update (map (stamped b) us) g = answers count_update us a"
proof (induction us arbitrary: g a)
  case (Cons u us)
  from stands_for_step [OF Cons.prems(1), of u] Cons.prems(2) Cons.IH show ?case
    by (auto simp: case_prod_beta Let_def)
qed simp

text \<open>
  C21. However the server's creates, replacements, movements, positions, appearances and deletes of an
  object reach the client, late, twice or out of order, the nine 16-bit counters answer each of them
  exactly as counters that never wrap would, as long as no two values of one counter in the history
  are more than 32767 apart; where each counter starts does not matter.
\<close>

theorem gate_counts_exactly:
  assumes "\<forall>u\<in>set us. update_within u"
  shows "answers gate_update (map (stamped b) us) gate_new = answers count_update us None"
  using gate_answers [OF _ assms, of b gate_new None] by (simp add: stands_for_def gate_new_def)

definition counts_from :: "nat \<Rightarrow> nat \<Rightarrow> object_counts" where
  "counts_from n i =
     \<lparr>ct_position = n, ct_movement = n, ct_state = n, ct_vector = n, ct_teleport = n, ct_server_controlled_move = n,
      ct_force_position = n, ct_obj_desc = n, ct_instance = i\<rparr>"

definition wrapping_base :: physics_timestamps where
  "wrapping_base =
     \<lparr>pt_position = 65534, pt_movement = 65535, pt_state = 65533, pt_vector = 65534, pt_teleport = 0,
      pt_server_controlled_move = 9, pt_force_position = 65535, pt_obj_desc = 1, pt_instance = 65535\<rparr>"

text \<open>Around the wrap: a late position, a repeated velocity, a forced position, a create of an older incarnation.\<close>

theorem gate_counts_exactly_witness:
  "answers gate_update
     (map (stamped wrapping_base)
        [CreateObject (counts_from 1 1), PositionUpdate 1 4 1 1 False, PositionUpdate 1 3 1 1 False, VectorUpdate 1 2,
         VectorUpdate 1 2, PositionUpdate 1 2 1 3 True, CreateObject (counts_from 5 0), DeleteObject 1 False]) gate_new =
   [Generation InitialGeneration, Placed Apply, Placed Rejected, Answer True, Answer False, Placed ForcePosition,
    Generation StaleGeneration, Answer True]"
  by (subst gate_counts_exactly)
     (simp_all add: update_within_def counts_within_def counts_from_def count_create_def count_position_def
       count_channel_def Let_def)

end
