(* ===== verification/Land_Cells.thy ===== *)
theory Land_Cells
  imports Net_Prelude
begin

text \<open>
  \<open>crates/ac-core/src/physics/land_defs.rs\<close>: cell ids, whose bytes name a landblock of the 255 by 255
  map and one of its 64 outdoor cells, and land coordinates, which count outdoor cells across the
  map. A coordinate is an \<open>i32\<close> of the code; every one that is computed with lies on the map.
\<close>

unbundle bit_operations_syntax

definition LAND_LENGTH :: int where
  "LAND_LENGTH = 0x7F8"

definition in_bounds :: "int \<Rightarrow> int \<Rightarrow> bool" where
  "in_bounds lx ly \<longleftrightarrow> lx \<ge> 0 \<and> ly \<ge> 0 \<and> lx < LAND_LENGTH \<and> ly < LAND_LENGTH"

definition block_lcoord :: "u32 \<Rightarrow> int \<times> int" where
  "block_lcoord cell_id =
     (let lx = sint (push_bit 3 (drop_bit 24 cell_id AND 0xFF));
          ly = sint (push_bit 3 (drop_bit 16 cell_id AND 0xFF))
      in (lx, ly))"

definition blockid_to_lcoord :: "u32 \<Rightarrow> (int \<times> int) option" where
  "blockid_to_lcoord cell_id =
     (if cell_id = 0 then None
      else let (lx, ly) = block_lcoord cell_id in if in_bounds lx ly then Some (lx, ly) else None)"

definition cell_low_in_range :: "u32 \<Rightarrow> bool" where
  "cell_low_in_range low \<longleftrightarrow> 1 \<le> low \<and> low \<le> 0x40 \<or> 0x100 \<le> low \<and> low \<le> 0xFFFD \<or> low = 0xFFFF"

definition inbound_valid_cell_id :: "u32 \<Rightarrow> bool" where
  "inbound_valid_cell_id cell_id =
     (if \<not> cell_low_in_range (cell_id AND 0xFFFF) then False
      else let (lx, ly) = block_lcoord cell_id in in_bounds lx ly)"

definition gid_to_lcoord :: "u32 \<Rightarrow> (int \<times> int) option" where
  "gid_to_lcoord cell_id =
     (if \<not> inbound_valid_cell_id cell_id then None
      else let low = cell_id AND 0xFFFF in
           if low \<ge> 0x100 then None
           else let (bx, by') = block_lcoord cell_id;
                    lx = bx + sint (drop_bit 3 (low - 1));
                    ly = by' + sint ((low - 1) AND 7)
                in if in_bounds lx ly then Some (lx, ly) else None)"

definition lcoord_to_gid :: "int \<Rightarrow> int \<Rightarrow> u32 option" where
  "lcoord_to_gid lx ly =
     (if \<not> in_bounds lx ly then None
      else let low = (word_of_int ((ly AND 7) + push_bit 3 (lx AND 7) + 1) :: u32);
               block = (word_of_int (push_bit 8 (drop_bit 3 lx) OR drop_bit 3 ly) :: u32)
           in Some (push_bit 16 block OR low))"

section \<open>Ids as numbers\<close>

lemma sint_small: "uint w < 2 ^ 31 \<Longrightarrow> sint (w :: u32) = uint w"
  unfolding sint_uint by (rule signed_take_bit_int_eq_self) (auto intro: order_trans [of _ 0])

lemma uint_and_mask: "m = mask n \<Longrightarrow> uint (w AND m) = uint w mod 2 ^ n" for w :: u32
  by (metis take_bit_eq_mask unsigned_take_bit_eq take_bit_eq_mod)

lemma uint_and_masks:
  "uint ((w :: u32) AND 7) = uint w mod 8" "uint (w AND 0xFF) = uint w mod 256" "uint (w AND 0xFFFF) = uint w mod 65536"
  using uint_and_mask [where m = 7 and n = 3] uint_and_mask [where m = 255 and n = 8]
    uint_and_mask [where m = 65535 and n = 16]
  by (simp_all add: mask_eq_exp_minus_1)

lemma uint_drop: "uint (drop_bit n w) = uint w div 2 ^ n" for w :: u32
proof -
  have "uint w \<ge> 0" "uint w < 2 ^ 32" using unsigned_less [of w] by simp_all
  then have "take_bit 32 (uint w) = uint w" by (simp add: take_bit_int_eq_self)
  then show ?thesis using unsigned_drop_bit_eq [of n w, where 'a = int] by (simp add: drop_bit_eq_div [where 'a = int])
qed

text \<open>The value of an id: block column, block row and low word.\<close>

lemma block_lcoord_uint: "block_lcoord c = (8 * (uint c div 2 ^ 24), 8 * (uint c div 2 ^ 16 mod 256))"
proof -
  have b: "sint (push_bit 3 (w AND 0xFF)) = 8 * (uint w mod 256)" for w :: u32
  proof -
    have "uint w mod 256 < 256" "uint w mod 256 \<ge> 0" by simp_all
    then have "uint (push_bit 3 (w AND 0xFF)) = 8 * (uint w mod 256)"
      by (simp add: push_bit_eq_mult uint_word_ariths uint_and_masks mult.commute)
    then show ?thesis using \<open>uint w mod 256 < 256\<close> by (simp add: sint_small)
  qed
  have "uint c < 2 ^ 32" "uint c \<ge> 0" using unsigned_less [of c] by simp_all
  then have "uint c div 2 ^ 24 mod 256 = uint c div 2 ^ 24" by (intro mod_pos_pos_trivial) (auto simp: pos_imp_zdiv_nonneg_iff)
  then show ?thesis
    by (simp add: block_lcoord_def b uint_drop Let_def del: push_bit_and)
qed

lemma low_uint: "cell_low_in_range (c AND 0xFFFF) \<longleftrightarrow>
   (let l = uint c mod 65536 in 1 \<le> l \<and> l \<le> 64 \<or> 256 \<le> l \<and> l \<le> 65533 \<or> l = 65535)"
  by (simp add: cell_low_in_range_def word_le_def uint_and_masks Let_def word_uint_eq_iff)

text \<open>An id from its parts.\<close>

lemma or_add: "0 \<le> y \<Longrightarrow> y < 2 ^ n \<Longrightarrow> push_bit n x OR y = x * 2 ^ n + (y :: int)"
  by (metis concat_bit_eq concat_bit_def add.commute or.commute push_bit_eq_mult take_bit_int_eq_self)

lemma gid_parts:
  assumes "0 \<le> y" "y < 256" "0 \<le> l" "l < 65536"
  shows "push_bit 16 (word_of_int (push_bit 8 x OR y)) OR word_of_int l = (word_of_int (x * 2 ^ 24 + y * 2 ^ 16 + l) :: u32)"
proof -
  have "push_bit 16 (word_of_int (push_bit 8 x OR y) :: u32) OR word_of_int l
      = word_of_int (push_bit 16 (push_bit 8 x OR y) OR l)"
    by (rule bit_word_eqI) (auto simp: bit_simps)
  also have "push_bit 16 (push_bit 8 x OR y) OR l = (x * 2 ^ 8 + y) * 2 ^ 16 + l"
    using assms by (subst or_add) (auto simp: or_add)
  finally show ?thesis by (simp add: algebra_simps)
qed

lemma lcoord_to_gid_uint:
  assumes "in_bounds lx ly"
  shows "\<exists>g. lcoord_to_gid lx ly = Some g \<and>
    uint g = (lx div 8) * 2 ^ 24 + (ly div 8) * 2 ^ 16 + (lx mod 8 * 8 + ly mod 8 + 1)"
proof -
  have b: "0 \<le> lx" "lx < 2040" "0 \<le> ly" "ly < 2040" using assms by (auto simp: in_bounds_def LAND_LENGTH_def)
  have m: "(z AND 7) = z mod 8" for z :: int
    using take_bit_eq_mask [of 3 z] by (simp add: mask_eq_exp_minus_1 take_bit_eq_mod)
  have d: "lx div 8 < 255" "ly div 8 < 255" "0 \<le> lx div 8" "0 \<le> ly div 8" using b by auto
  have r: "lx mod 8 < 8" "ly mod 8 < 8" "0 \<le> lx mod 8" "0 \<le> ly mod 8" by auto
  let ?l = "lx mod 8 * 8 + ly mod 8 + 1"
  have "lcoord_to_gid lx ly = Some (word_of_int (lx div 8 * 2 ^ 24 + ly div 8 * 2 ^ 16 + ?l))"
    using gid_parts [of "ly div 8" ?l "lx div 8"] d r assms
    by (simp add: lcoord_to_gid_def m drop_bit_eq_div push_bit_eq_mult Let_def add_ac)
  moreover have "uint (word_of_int (lx div 8 * 2 ^ 24 + ly div 8 * 2 ^ 16 + ?l) :: u32)
      = lx div 8 * 2 ^ 24 + ly div 8 * 2 ^ 16 + ?l"
    using d r unfolding uint_word_of_int by (intro mod_pos_pos_trivial) auto
  ultimately show ?thesis by blast
qed

lemma gid_to_lcoord_uint:
  "gid_to_lcoord c =
     (let l = uint c mod 65536; x = 8 * (uint c div 2 ^ 24) + (l - 1) div 8; y = 8 * (uint c div 2 ^ 16 mod 256) + (l - 1) mod 8
      in if 1 \<le> l \<and> l \<le> 64 \<and> in_bounds (8 * (uint c div 2 ^ 24)) (8 * (uint c div 2 ^ 16 mod 256)) then Some (x, y) else None)"
proof (cases "1 \<le> uint c mod 65536 \<and> uint c mod 65536 \<le> 64 \<and> in_bounds (8 * (uint c div 2 ^ 24)) (8 * (uint c div 2 ^ 16 mod 256))")
  case True
  define l where "l = uint c mod 65536"
  define x where "x = 8 * (uint c div 2 ^ 24)"
  define y where "y = 8 * (uint c div 2 ^ 16 mod 256)"
  have l: "1 \<le> l" "l \<le> 64" and xy: "in_bounds x y" using True by (auto simp: l_def x_def y_def)
  have v: "inbound_valid_cell_id c"
    using l xy by (simp add: inbound_valid_cell_id_def low_uint block_lcoord_uint x_def y_def l_def [symmetric] Let_def)
  have u: "uint ((c AND 0xFFFF) - 1) = l - 1"
    using l by (simp add: uint_sub_if_size word_size uint_and_masks l_def [symmetric])
  have s1: "sint (drop_bit 3 ((c AND 0xFFFF) - 1)) = (l - 1) div 8"
    using l u uint_drop [of 3 "(c AND 0xFFFF) - 1"] by (subst sint_small) auto
  have s2: "sint (((c AND 0xFFFF) - 1) AND 7) = (l - 1) mod 8"
    using l u by (subst sint_small) (auto simp: uint_and_masks)
  have g: "\<not> (0x100 \<le> c AND 0xFFFF)" using l by (simp add: word_le_def uint_and_masks l_def)
  have "in_bounds (x + (l - 1) div 8) (y + (l - 1) mod 8)"
  proof -
    have "x \<le> 8 * 254" "y \<le> 8 * 254" using xy by (auto simp: in_bounds_def LAND_LENGTH_def x_def y_def)
    then show ?thesis using xy l by (auto simp: in_bounds_def LAND_LENGTH_def)
  qed
  then show ?thesis
    using True v g by (simp add: gid_to_lcoord_def block_lcoord_uint s1 s2 x_def y_def l_def Let_def)
next
  case False
  then show ?thesis
    by (auto simp: gid_to_lcoord_def inbound_valid_cell_id_def low_uint block_lcoord_uint Let_def word_le_def uint_and_masks
        split: if_splits)
qed

lemma digits:
  assumes "0 \<le> y" "y < 256" "0 \<le> l" "l < (65536 :: int)"
  shows "(x * 2 ^ 24 + y * 2 ^ 16 + l) div 2 ^ 24 = x" "(x * 2 ^ 24 + y * 2 ^ 16 + l) div 2 ^ 16 mod 256 = y"
    "(x * 2 ^ 24 + y * 2 ^ 16 + l) mod 65536 = l"
proof -
  have "(x * 2 ^ 24 + y * 2 ^ 16 + l) div 2 ^ 24 = (x * 2 ^ 24 + (y * 2 ^ 16 + l)) div 2 ^ 24" by (simp only: add.assoc)
  also have "\<dots> = x + (y * 2 ^ 16 + l) div 2 ^ 24" by (subst div_mult_self3) simp_all
  also have "(y * 2 ^ 16 + l) div 2 ^ 24 = 0" using assms by (intro div_pos_pos_trivial) auto
  finally show "(x * 2 ^ 24 + y * 2 ^ 16 + l) div 2 ^ 24 = x" by simp
  have a: "x * 2 ^ 24 + y * 2 ^ 16 + l = l + (x * 256 + y) * 65536" by simp
  have "(x * 2 ^ 24 + y * 2 ^ 16 + l) div 2 ^ 16 = x * 256 + y" unfolding a using assms by simp
  then show "(x * 2 ^ 24 + y * 2 ^ 16 + l) div 2 ^ 16 mod 256 = y" using assms by simp
  show "(x * 2 ^ 24 + y * 2 ^ 16 + l) mod 65536 = l" unfolding a mod_mult_self1 using assms by (rule_tac mod_pos_pos_trivial) auto
qed

lemma small_mod: "0 \<le> z mod 8" "z mod 8 \<le> (7 :: int)"
  by presburger+

lemma parts_of_gid:
  assumes "uint c = (lx div 8) * 2 ^ 24 + (ly div 8) * 2 ^ 16 + (lx mod 8 * 8 + ly mod 8 + 1)"
    "0 \<le> lx" "lx < 2040" "0 \<le> ly" "ly < 2040"
  shows "uint c div 2 ^ 24 = lx div 8" "uint c div 2 ^ 16 mod 256 = ly div 8"
    "uint c mod 65536 = lx mod 8 * 8 + ly mod 8 + 1"
proof -
  have "0 \<le> ly div 8" "ly div 8 < 256" "0 \<le> lx mod 8 * 8 + ly mod 8 + 1" "lx mod 8 * 8 + ly mod 8 + 1 < 65536"
    using assms small_mod [of lx] small_mod [of ly] by linarith+
  from digits [OF this, of "lx div 8"] assms(1)
  show "uint c div 2 ^ 24 = lx div 8" "uint c div 2 ^ 16 mod 256 = ly div 8"
    "uint c mod 65536 = lx mod 8 * 8 + ly mod 8 + 1"
    by (simp_all only:)
qed

lemma lcoord_of_parts:
  assumes "uint c div 2 ^ 24 = lx div 8" "uint c div 2 ^ 16 mod 256 = ly div 8"
    "uint c mod 65536 = lx mod 8 * 8 + ly mod 8 + 1" "in_bounds lx ly"
  shows "gid_to_lcoord c = Some (lx, ly)"
proof -
  have "in_bounds (8 * (lx div 8)) (8 * (ly div 8))"
    using assms(4) by (auto simp: in_bounds_def LAND_LENGTH_def)
  moreover have "1 \<le> lx mod 8 * 8 + ly mod 8 + 1" "lx mod 8 * 8 + ly mod 8 + 1 \<le> 64"
    using small_mod [of lx] small_mod [of ly] by linarith+
  moreover have "(lx mod 8 * 8 + ly mod 8) div 8 = lx mod 8" "(lx mod 8 * 8 + ly mod 8) mod 8 = ly mod 8" by simp_all
  ultimately show ?thesis
    unfolding gid_to_lcoord_uint assms(1-3) Let_def add_diff_cancel_right' mult_div_mod_eq by simp
qed

lemma gid_of_lcoord:
  assumes "gid_to_lcoord c = Some (lx, ly)"
  shows "uint c = (lx div 8) * 2 ^ 24 + (ly div 8) * 2 ^ 16 + (lx mod 8 * 8 + ly mod 8 + 1)"
proof -
  define l where "l = uint c mod 65536"
  have p: "lx = 8 * (uint c div 2 ^ 24) + (l - 1) div 8" "ly = 8 * (uint c div 2 ^ 16 mod 256) + (l - 1) mod 8" "1 \<le> l" "l \<le> 64"
    using assms by (auto simp: gid_to_lcoord_uint Let_def l_def split: if_splits)
  have d: "0 \<le> (l - 1) div 8" "(l - 1) div 8 < 8" using p by auto
  have "lx div 8 = uint c div 2 ^ 24" "lx mod 8 = (l - 1) div 8" using d unfolding p(1) by simp_all
  moreover have "ly div 8 = uint c div 2 ^ 16 mod 256" "ly mod 8 = (l - 1) mod 8" unfolding p(2) by simp_all
  moreover have "(l - 1) div 8 * 8 + (l - 1) mod 8 = l - 1" by (rule div_mult_mod_eq)
  moreover have "uint c = uint c div 2 ^ 24 * 2 ^ 24 + (uint c div 2 ^ 16 mod 256) * 2 ^ 16 + ((l - 1) + 1)"
  proof -
    have join: "c' = b * 2 ^ 24 + y * 2 ^ 16 + l'" if "c' = a * 65536 + l'" "a = b * 256 + y" for c' a b y l' :: int
      using that by simp
    have "uint c = uint c div 65536 * 65536 + l" unfolding l_def by (rule div_mult_mod_eq [symmetric])
    moreover have "uint c div 65536 = uint c div 65536 div 256 * 256 + uint c div 65536 mod 256"
      by (rule div_mult_mod_eq [symmetric])
    ultimately have "uint c = (uint c div 65536 div 256) * 2 ^ 24 + (uint c div 65536 mod 256) * 2 ^ 16 + l" by (rule join)
    then show ?thesis using zdiv_zmult2_eq [of 256 "uint c" 65536] by simp
  qed
  ultimately show ?thesis by (simp only:)
qed

text \<open>
  C38. Cell ids and land coordinates name the same outdoor cells: every coordinate on the map has one
  outdoor cell id, which gives the coordinate back, and every id that gives a coordinate is the id
  of that coordinate; a coordinate off the map has no id, and no two ids share a coordinate.
\<close>

theorem cells_are_coordinates:
  "(in_bounds lx ly \<longleftrightarrow> lcoord_to_gid lx ly \<noteq> None) \<and>
   (lcoord_to_gid lx ly = Some g \<longleftrightarrow> gid_to_lcoord g = Some (lx, ly))"
proof (cases "in_bounds lx ly")
  case True
  then obtain g' where g': "lcoord_to_gid lx ly = Some g'"
    "uint g' = (lx div 8) * 2 ^ 24 + (ly div 8) * 2 ^ 16 + (lx mod 8 * 8 + ly mod 8 + 1)"
    using lcoord_to_gid_uint by blast
  have b: "0 \<le> lx" "lx < 2040" "0 \<le> ly" "ly < 2040" using True by (auto simp: in_bounds_def LAND_LENGTH_def)
  have "gid_to_lcoord g' = Some (lx, ly)"
    using lcoord_of_parts [OF parts_of_gid [OF g'(2) b] True] by simp
  moreover have "g = g'" if "gid_to_lcoord g = Some (lx, ly)"
    using gid_of_lcoord [OF that] g'(2) by (simp add: word_uint_eq_iff)
  ultimately show ?thesis using True g' by auto
next
  case False
  have "gid_to_lcoord g \<noteq> Some (lx, ly)"
    using False by (auto simp: gid_to_lcoord_def Let_def split: prod.splits if_splits)
  then show ?thesis using False by (auto simp: lcoord_to_gid_def)
qed

end
