(* ===== verification/Event_Dispatch.thy ===== *)
theory Event_Dispatch
  imports Std_Containers
begin

text \<open>
  \<open>crates/ac-proto/src/game_event_dispatch.rs\<close>: the table that routes game events to handlers by event
  type. A handler is a closure, a value of type \<open>'h\<close> here, which the table holds and hands out; while it
  runs it may call every operation of the table, dispatching included, so a call of \<open>dispatch\<close> is modelled
  as its two halves, the code before the handler is called and the code after it returns, with
  anything in between. The context and the envelope go to the handler only.
\<close>

section \<open>The table\<close>

record 'h registration =
  rg_id :: nat
  rg_handler :: "'h option"

record owned_registration =
  or_event_type :: u32
  or_id :: nat

datatype dispatch_outcome = Handled | Unhandled | HandlerBusy

record 'h dispatcher =
  dp_handlers :: "(u32, 'h registration list) btree"
  dp_unhandled :: "(u32, nat) btree"
  dp_next_id :: nat

definition dispatcher_new :: "'h dispatcher" where
  "dispatcher_new = \<lparr>dp_handlers = [], dp_unhandled = [], dp_next_id = 0\<rparr>"

definition make_registration :: "'h \<Rightarrow> 'h dispatcher \<Rightarrow> 'h registration \<times> 'h dispatcher" where
  "make_registration handler d =
     (let new_id = dp_next_id d
      in (\<lparr>rg_id = new_id, rg_handler = Some handler\<rparr>, d\<lparr>dp_next_id := new_id + 1\<rparr>))"

definition dp_register :: "u32 \<Rightarrow> 'h \<Rightarrow> 'h dispatcher \<Rightarrow> 'h dispatcher" where
  "dp_register event_type handler d =
     (let (registration, d) = make_registration handler d
      in d\<lparr>dp_handlers := bt_insert event_type [registration] (dp_handlers d)\<rparr>)"

definition stack_of :: "'h dispatcher \<Rightarrow> u32 \<Rightarrow> 'h registration list" where
  "stack_of d event_type = (case bt_get (dp_handlers d) event_type of None \<Rightarrow> [] | Some stack \<Rightarrow> stack)"

definition dp_register_owned :: "u32 \<Rightarrow> 'h \<Rightarrow> 'h dispatcher \<Rightarrow> owned_registration \<times> 'h dispatcher" where
  "dp_register_owned event_type handler d =
     (let (registration, d) = make_registration handler d
      in (\<lparr>or_event_type = event_type, or_id = rg_id registration\<rparr>,
          d\<lparr>dp_handlers := bt_insert event_type (stack_of d event_type @ [registration]) (dp_handlers d)\<rparr>))"

definition dp_unregister :: "u32 \<Rightarrow> 'h dispatcher \<Rightarrow> 'h dispatcher" where
  "dp_unregister event_type d = d\<lparr>dp_handlers := bt_remove event_type (dp_handlers d)\<rparr>"

definition dp_retire :: "owned_registration \<Rightarrow> 'h dispatcher \<Rightarrow> 'h dispatcher" where
  "dp_retire registration d =
     (case bt_get (dp_handlers d) (or_event_type registration) of
        None \<Rightarrow> d
      | Some stack \<Rightarrow>
          let stack = filter (\<lambda>r. rg_id r \<noteq> or_id registration) stack
          in if stack = [] then d\<lparr>dp_handlers := bt_remove (or_event_type registration) (dp_handlers d)\<rparr>
             else d\<lparr>dp_handlers := bt_insert (or_event_type registration) stack (dp_handlers d)\<rparr>)"

text \<open>\<open>u64::saturating_add\<close>.\<close>

definition count_unhandled :: "u32 \<Rightarrow> 'h dispatcher \<Rightarrow> 'h dispatcher" where
  "count_unhandled event_type d =
     (let count = (case bt_get (dp_unhandled d) event_type of None \<Rightarrow> 0 | Some n \<Rightarrow> n)
      in d\<lparr>dp_unhandled := bt_insert event_type (min (count + 1) (2 ^ 64 - 1)) (dp_unhandled d)\<rparr>)"

text \<open>A handler that is running: its event type, the id of its registration and the closure taken out.\<close>

record 'h running =
  rn_event_type :: u32
  rn_id :: nat
  rn_handler :: 'h

text \<open>\<open>dispatch\<close> up to the call of the handler: the outcome when there is no call, else what runs.\<close>

definition dispatch_begin :: "u32 \<Rightarrow> 'h dispatcher \<Rightarrow> (dispatch_outcome + 'h running) \<times> 'h dispatcher" where
  "dispatch_begin event_type d =
     (case stack_of d event_type of
        [] \<Rightarrow> (Inl Unhandled, count_unhandled event_type d)
      | stack \<Rightarrow>
          let live = last stack
          in case rg_handler live of
               None \<Rightarrow> (Inl HandlerBusy, d)
             | Some handler \<Rightarrow>
                 (Inr \<lparr>rn_event_type = event_type, rn_id = rg_id live, rn_handler = handler\<rparr>,
                  d\<lparr>dp_handlers :=
                     bt_insert event_type (butlast stack @ [live\<lparr>rg_handler := None\<rparr>]) (dp_handlers d)\<rparr>))"

text \<open>The first slot of a stack with an id gets the handler back.\<close>

fun fill_slot_of :: "nat \<Rightarrow> 'h \<Rightarrow> 'h registration list \<Rightarrow> 'h registration list" where
  "fill_slot_of i h [] = []"
| "fill_slot_of i h (r # stack) = (if rg_id r = i then r\<lparr>rg_handler := Some h\<rparr> # stack else r # fill_slot_of i h stack)"

text \<open>\<open>dispatch\<close> from the handler's return: the closure, changed by its run, goes back to its registration.\<close>

definition dispatch_end :: "'h running \<Rightarrow> 'h \<Rightarrow> 'h dispatcher \<Rightarrow> dispatch_outcome \<times> 'h dispatcher" where
  "dispatch_end run handler d =
     (Handled,
      case bt_get (dp_handlers d) (rn_event_type run) of
        None \<Rightarrow> d
      | Some stack \<Rightarrow> d\<lparr>dp_handlers := bt_insert (rn_event_type run) (fill_slot_of (rn_id run) handler stack) (dp_handlers d)\<rparr>)"

definition unhandled_count :: "'h dispatcher \<Rightarrow> u32 \<Rightarrow> nat" where
  "unhandled_count d event_type = (case bt_get (dp_unhandled d) event_type of None \<Rightarrow> 0 | Some n \<Rightarrow> n)"

definition reset_unhandled_counts :: "'h dispatcher \<Rightarrow> 'h dispatcher" where
  "reset_unhandled_counts d = d\<lparr>dp_unhandled := []\<rparr>"

definition registered_handler_count :: "'h dispatcher \<Rightarrow> nat" where
  "registered_handler_count d = length (bt_keys (dp_handlers d))"

section \<open>Sets of subscriptions\<close>

text \<open>Release actions, the newest run first; the ones the code adds retire a registration.\<close>

type_synonym 't subscription_set = "('t \<Rightarrow> 't) list"

definition set_release :: "'t subscription_set \<Rightarrow> 't \<Rightarrow> 't" where
  "set_release releases target = fold (\<lambda>release t. release t) (rev releases) target"

definition add_registration ::
    "owned_registration \<Rightarrow> 'h dispatcher subscription_set \<Rightarrow> 'h dispatcher subscription_set" where
  "add_registration registration releases = releases @ [dp_retire registration]"

section \<open>Sessions\<close>

text \<open>What can happen to a table: its operations, a dispatch that starts, and the return of the handler
  that started last, with the closure it left.\<close>

datatype 'h table_step =
    Register u32 'h
  | RegisterOwned u32 'h
  | Unregister u32
  | Retire owned_registration
  | ResetCounts
  | Begin u32
  | Return 'h

fun take_step ::
    "'h table_step \<Rightarrow> 'h dispatcher \<times> 'h running list \<Rightarrow> 'h dispatcher \<times> 'h running list" where
  "take_step (Register t h) (d, runs) = (dp_register t h d, runs)"
| "take_step (RegisterOwned t h) (d, runs) = (snd (dp_register_owned t h d), runs)"
| "take_step (Unregister t) (d, runs) = (dp_unregister t d, runs)"
| "take_step (Retire r) (d, runs) = (dp_retire r d, runs)"
| "take_step ResetCounts (d, runs) = (reset_unhandled_counts d, runs)"
| "take_step (Begin t) (d, runs) =
     (case dispatch_begin t d of (Inl _, d) \<Rightarrow> (d, runs) | (Inr run, d) \<Rightarrow> (d, run # runs))"
| "take_step (Return h) (d, []) = (d, [])"
| "take_step (Return h) (d, run # runs) = (snd (dispatch_end run h d), runs)"

definition table_session :: "'h table_step list \<Rightarrow> 'h dispatcher \<times> 'h running list" where
  "table_session steps = fold take_step steps (dispatcher_new, [])"

section \<open>The invariant\<close>

definition runs_at :: "'h running list \<Rightarrow> u32 \<Rightarrow> nat \<Rightarrow> bool" where
  "runs_at runs t i \<longleftrightarrow> (\<exists>run\<in>set runs. rn_event_type run = t \<and> rn_id run = i)"

definition ids_of :: "'h dispatcher \<Rightarrow> u32 \<Rightarrow> nat list" where
  "ids_of d t = map rg_id (stack_of d t)"

text \<open>Ids grow along a stack and are below the next one; the registrations without their handler are
  the running ones; no registration runs twice.\<close>

definition table_ok :: "'h dispatcher \<times> 'h running list \<Rightarrow> bool" where
  "table_ok s \<longleftrightarrow>
     bt_ok (dp_handlers (fst s)) \<and> bt_ok (dp_unhandled (fst s)) \<and>
     (\<forall>t. bt_get (dp_handlers (fst s)) t \<noteq> Some []) \<and>
     (\<forall>t. sorted_wrt (<) (ids_of (fst s) t)) \<and>
     (\<forall>t. \<forall>i\<in>set (ids_of (fst s) t). i < dp_next_id (fst s)) \<and>
     (\<forall>t. \<forall>r\<in>set (stack_of (fst s) t). rg_handler r = None \<longleftrightarrow> runs_at (snd s) t (rg_id r)) \<and>
     (\<forall>run\<in>set (snd s). rn_id run < dp_next_id (fst s)) \<and>
     distinct (map (\<lambda>run. (rn_event_type run, rn_id run)) (snd s))"

text \<open>Every operation replaces one stack: what the new one must satisfy.\<close>

lemma stack_of_insert: "bt_ok (dp_handlers d) \<Longrightarrow>
    stack_of (d\<lparr>dp_handlers := bt_insert t stack (dp_handlers d)\<rparr>) = (stack_of d)(t := stack)"
  by (rule ext) (simp add: stack_of_def bt_get_insert)

lemma stack_of_remove: "stack_of (d\<lparr>dp_handlers := bt_remove t (dp_handlers d)\<rparr>) = (stack_of d)(t := [])"
  by (rule ext) (simp add: stack_of_def bt_get_remove)

lemma table_ok_parts:
  assumes "table_ok (d, runs)"
  shows "bt_ok (dp_handlers d)" "bt_ok (dp_unhandled d)" "\<forall>t. bt_get (dp_handlers d) t \<noteq> Some []"
    "sorted_wrt (<) (map rg_id (stack_of d t))" "\<forall>r\<in>set (stack_of d t). rg_id r < dp_next_id d"
    "\<forall>r\<in>set (stack_of d t). rg_handler r = None \<longleftrightarrow> runs_at runs t (rg_id r)"
    "\<forall>run\<in>set runs. rn_id run < dp_next_id d" "distinct (map (\<lambda>run. (rn_event_type run, rn_id run)) runs)"
  using assms by (auto simp: table_ok_def ids_of_def)

lemma table_ok_stack:
  assumes "table_ok (d, runs)" "bt_ok (dp_handlers d')" "\<forall>t'. bt_get (dp_handlers d') t' \<noteq> Some []"
    "dp_unhandled d' = dp_unhandled d" "dp_next_id d \<le> dp_next_id d'" "stack_of d' = (stack_of d)(t := stack)"
    "sorted_wrt (<) (map rg_id stack)" "\<forall>r\<in>set stack. rg_id r < dp_next_id d'"
    "\<forall>r\<in>set stack. rg_handler r = None \<longleftrightarrow> runs_at runs' t (rg_id r)"
    "\<forall>t' i. t' \<noteq> t \<longrightarrow> runs_at runs' t' i = runs_at runs t' i"
    "\<forall>run\<in>set runs'. rn_id run < dp_next_id d'" "distinct (map (\<lambda>run. (rn_event_type run, rn_id run)) runs')"
  shows "table_ok (d', runs')"
proof -
  have "\<forall>t'. \<forall>r\<in>set (stack_of d' t'). rg_handler r = None \<longleftrightarrow> runs_at runs' t' (rg_id r)"
    using assms(1,6,9,10) by (simp add: table_ok_def)
  moreover have "\<forall>t'. sorted_wrt (<) (ids_of d' t')" using assms(1,6,7) by (simp add: table_ok_def ids_of_def)
  moreover have "\<forall>t'. \<forall>i\<in>set (ids_of d' t'). i < dp_next_id d'"
  proof (intro allI ballI)
    fix t' i
    assume "i \<in> set (ids_of d' t')"
    then obtain r where r: "r \<in> set (((stack_of d)(t := stack)) t')" "i = rg_id r" by (auto simp: ids_of_def assms(6))
    show "i < dp_next_id d'"
    proof (cases "t' = t")
      case False
      then show ?thesis using r table_ok_parts(5) [OF assms(1), of t'] assms(5) by fastforce
    qed (use r assms(8) in auto)
  qed
  ultimately show ?thesis using assms(1-4,11,12) by (simp add: table_ok_def)
qed

lemma fresh_not_running: "table_ok (d, runs) \<Longrightarrow> \<not> runs_at runs t (dp_next_id d)"
  by (auto simp: table_ok_def runs_at_def)

lemma ok_register:
  assumes "table_ok (d, runs)"
  shows "table_ok (dp_register t h d, runs)"
  unfolding dp_register_def make_registration_def Let_def prod.case
proof (rule table_ok_stack [OF assms])
  note p = table_ok_parts [OF assms]
  show "stack_of (dp_handlers_update (\<lambda>_. bt_insert t [\<lparr>rg_id = dp_next_id d, rg_handler = Some h\<rparr>]
      (dp_handlers (d\<lparr>dp_next_id := dp_next_id d + 1\<rparr>))) (d\<lparr>dp_next_id := dp_next_id d + 1\<rparr>))
      = (stack_of d)(t := [\<lparr>rg_id = dp_next_id d, rg_handler = Some h\<rparr>])"
    using p(1) by (auto simp: stack_of_def bt_get_insert)
  show "\<forall>t'. bt_get (dp_handlers (dp_handlers_update (\<lambda>_. bt_insert t [\<lparr>rg_id = dp_next_id d, rg_handler = Some h\<rparr>]
      (dp_handlers (d\<lparr>dp_next_id := dp_next_id d + 1\<rparr>))) (d\<lparr>dp_next_id := dp_next_id d + 1\<rparr>))) t' \<noteq> Some []"
    using p(1,3) by (simp add: bt_get_insert)
  show "\<forall>r\<in>set [\<lparr>rg_id = dp_next_id d, rg_handler = Some h\<rparr>]. (rg_handler r = None) = runs_at runs t (rg_id r)"
    using fresh_not_running [OF assms] by simp
qed (use table_ok_parts(1,7,8) [OF assms] in \<open>simp_all add: bt_ok_insert less_SucI\<close>)

lemma ok_register_owned:
  assumes "table_ok (d, runs)"
  shows "table_ok (snd (dp_register_owned t h d), runs)"
  unfolding dp_register_owned_def make_registration_def Let_def prod.case snd_conv
proof (rule table_ok_stack [OF assms])
  note p = table_ok_parts [OF assms]
  let ?d = "d\<lparr>dp_next_id := dp_next_id d + 1\<rparr>"
  have s: "stack_of ?d = stack_of d" by (rule ext) (simp add: stack_of_def)
  show "stack_of (dp_handlers_update (\<lambda>_. bt_insert t (stack_of ?d t @ [\<lparr>rg_id = dp_next_id d, rg_handler = Some h\<rparr>])
      (dp_handlers ?d)) ?d) = (stack_of d)(t := stack_of d t @ [\<lparr>rg_id = dp_next_id d, rg_handler = Some h\<rparr>])"
    using p(1) unfolding s by (intro ext) (simp add: stack_of_def bt_get_insert)
  show "sorted_wrt (<) (map rg_id (stack_of d t @ [\<lparr>rg_id = dp_next_id d, rg_handler = Some h\<rparr>]))"
    using p(4,5) [of t] by (simp add: sorted_wrt_append)
  show "\<forall>r\<in>set (stack_of d t @ [\<lparr>rg_id = dp_next_id d, rg_handler = Some h\<rparr>]).
      (rg_handler r = None) = runs_at runs t (rg_id r)"
    using p(6) [of t] fresh_not_running [OF assms] by auto
qed (use table_ok_parts [OF assms] in \<open>auto simp: bt_ok_insert bt_get_insert less_SucI\<close>)

lemma ok_unregister:
  assumes "table_ok (d, runs)"
  shows "table_ok (dp_unregister t d, runs)"
  unfolding dp_unregister_def
  by (rule table_ok_stack [OF assms, where t = t and stack = "[]"])
     (use table_ok_parts [OF assms] in \<open>auto simp: bt_ok_remove bt_get_remove stack_of_remove\<close>)

lemma ok_retire:
  assumes "table_ok (d, runs)"
  shows "table_ok (dp_retire r d, runs)"
proof (cases "bt_get (dp_handlers d) (or_event_type r)")
  case None
  then show ?thesis using assms by (simp add: dp_retire_def)
next
  case (Some stack)
  note p = table_ok_parts [OF assms]
  have st: "stack_of d (or_event_type r) = stack" using Some by (simp add: stack_of_def)
  let ?stack = "filter (\<lambda>x. rg_id x \<noteq> or_id r) stack"
  have so: "stack_of (dp_retire r d) = (stack_of d)(or_event_type r := ?stack)"
    using Some p(1) by (simp add: dp_retire_def Let_def stack_of_insert stack_of_remove)
  have ok: "bt_ok (dp_handlers (dp_retire r d))" "\<forall>t'. bt_get (dp_handlers (dp_retire r d)) t' \<noteq> Some []"
    using Some p(1,3) by (auto simp: dp_retire_def Let_def bt_ok_insert bt_ok_remove bt_get_insert bt_get_remove)
  have srt: "sorted_wrt (<) (map rg_id ?stack)"
    using p(4) [of "or_event_type r"] by (simp add: st sorted_wrt_map sorted_wrt_filter)
  show ?thesis
    by (rule table_ok_stack [OF assms ok _ _ so srt])
       (use p(5,6) [of "or_event_type r"] p(7,8) st Some in \<open>auto simp: dp_retire_def Let_def\<close>)
qed

lemma ok_counts:
  "table_ok (d, runs) \<Longrightarrow> table_ok (reset_unhandled_counts d, runs)"
  "table_ok (d, runs) \<Longrightarrow> table_ok (count_unhandled t d, runs)"
  by (auto simp: table_ok_def reset_unhandled_counts_def count_unhandled_def Let_def ids_of_def stack_of_def bt_ok_insert)

lemma dispatch_begin_snoc:
  assumes "stack_of d t = front @ [live]"
  shows "dispatch_begin t d =
    (case rg_handler live of
       None \<Rightarrow> (Inl HandlerBusy, d)
     | Some handler \<Rightarrow>
         (Inr \<lparr>rn_event_type = t, rn_id = rg_id live, rn_handler = handler\<rparr>,
          d\<lparr>dp_handlers := bt_insert t (front @ [live\<lparr>rg_handler := None\<rparr>]) (dp_handlers d)\<rparr>))"
  using assms by (cases front) (auto simp: dispatch_begin_def Let_def butlast_append split: option.split)

lemma ok_begin:
  assumes "table_ok (d, runs)" "dispatch_begin t d = (Inr run, d')"
  shows "table_ok (d', run # runs)"
proof -
  note p = table_ok_parts [OF assms(1)]
  obtain front live where st: "stack_of d t = front @ [live]"
    using assms(2) by (cases "stack_of d t" rule: rev_cases) (auto simp: dispatch_begin_def)
  obtain handler where h: "rg_handler live = Some handler"
    using assms(2) by (cases "rg_handler live") (auto simp: dispatch_begin_snoc [OF st])
  have run: "run = \<lparr>rn_event_type = t, rn_id = rg_id live, rn_handler = handler\<rparr>"
    and d': "d' = d\<lparr>dp_handlers := bt_insert t (front @ [live\<lparr>rg_handler := None\<rparr>]) (dp_handlers d)\<rparr>"
    using assms(2) h by (auto simp: dispatch_begin_snoc [OF st])
  have live: "\<not> runs_at runs t (rg_id live)" using p(6) [of t] h by (auto simp: st)
  have ids: "\<forall>r\<in>set front. rg_id r \<noteq> rg_id live" using p(4) [of t] by (auto simp: st sorted_wrt_append)
  show ?thesis
    unfolding d'
  proof (rule table_ok_stack [OF assms(1) _ _ _ _ stack_of_insert [OF p(1)]])
    show "\<forall>r\<in>set (front @ [live\<lparr>rg_handler := None\<rparr>]). (rg_handler r = None) = runs_at (run # runs) t (rg_id r)"
      using p(6) [of t] ids by (auto simp: st runs_at_def run)
    show "\<forall>t' i. t' \<noteq> t \<longrightarrow> runs_at (run # runs) t' i = runs_at runs t' i" by (auto simp: runs_at_def run)
    show "distinct (map (\<lambda>run. (rn_event_type run, rn_id run)) (run # runs))"
      using p(8) live by (auto simp: run runs_at_def)
  qed (use p(1,3,7) p(4) [of t] p(5) [of t] in \<open>auto simp: bt_ok_insert bt_get_insert st run sorted_wrt_append\<close>)
qed

lemma fill_slot_ids: "map rg_id (fill_slot_of i h stack) = map rg_id stack"
  by (induction stack) auto

lemma fill_slot_set:
  "sorted_wrt (<) (map rg_id stack) \<Longrightarrow> r \<in> set (fill_slot_of i h stack) \<Longrightarrow>
   (if rg_id r = i then rg_handler r = Some h else r \<in> set stack)"
  by (induction stack) (auto split: if_splits)

lemma ok_end:
  assumes "table_ok (d, run # runs)"
  shows "table_ok (snd (dispatch_end run h d), runs)"
proof (cases "bt_get (dp_handlers d) (rn_event_type run)")
  case None
  then show ?thesis using assms
    by (auto simp: dispatch_end_def table_ok_def ids_of_def runs_at_def stack_of_def split: option.splits)
next
  case (Some stack)
  note p = table_ok_parts [OF assms]
  let ?t = "rn_event_type run" let ?stack = "fill_slot_of (rn_id run) h stack"
  have st: "stack_of d ?t = stack" using Some by (simp add: stack_of_def)
  have srt: "sorted_wrt (<) (map rg_id stack)" using p(4) [of ?t] by (simp add: st)
  have gone: "\<not> runs_at runs ?t (rn_id run)" using p(8) by (auto simp: runs_at_def image_iff)
  have ne: "?stack \<noteq> []" using p(3) Some fill_slot_ids [of "rn_id run" h stack] by (metis map_is_Nil_conv)
  show ?thesis
    unfolding dispatch_end_def snd_conv Some option.case
  proof (rule table_ok_stack [OF assms _ _ _ _ stack_of_insert [OF p(1)]])
    show "\<forall>r\<in>set ?stack. (rg_handler r = None) = runs_at runs ?t (rg_id r)"
    proof
      fix r assume r: "r \<in> set ?stack"
      show "(rg_handler r = None) = runs_at runs ?t (rg_id r)"
        using fill_slot_set [OF srt r] gone p(6) [of ?t] by (auto simp: st runs_at_def split: if_splits)
    qed
    show "\<forall>r\<in>set ?stack. rg_id r < dp_next_id (d\<lparr>dp_handlers := bt_insert ?t ?stack (dp_handlers d)\<rparr>)"
      using p(5) [of ?t] fill_slot_ids [of "rn_id run" h stack] unfolding st
      by (metis (no_types, lifting) image_eqI image_iff list.set_map dispatcher.select_convs(3) dispatcher.surjective dispatcher.update_convs(1))
  qed (use p(1,3,7,8) ne srt in \<open>auto simp: bt_ok_insert bt_get_insert fill_slot_ids runs_at_def\<close>)
qed

lemma ok_step: "table_ok s \<Longrightarrow> table_ok (take_step x s)"
proof (cases s)
  case (Pair d runs)
  assume "table_ok s"
  then have ok: "table_ok (d, runs)" by (simp add: Pair)
  show ?thesis
  proof (cases x)
    case (Begin t)
    then show ?thesis
    proof (cases "dispatch_begin t d")
      case b: (Pair res d')
      show ?thesis
      proof (cases res)
        case (Inl a)
        then have "d' = d \<or> d' = count_unhandled t d"
          using b by (auto simp: dispatch_begin_def Let_def split: list.splits option.splits)
        then show ?thesis using ok ok_counts(2) by (auto simp: Begin Pair b Inl)
      next
        case (Inr run)
        then show ?thesis using ok_begin [OF ok] b by (simp add: Begin Pair)
      qed
    qed
  next
    case (Return h)
    then show ?thesis using ok ok_end by (cases runs) (auto simp: Pair)
  qed (use ok ok_register ok_register_owned ok_unregister ok_retire ok_counts in \<open>auto simp: Pair\<close>)
qed

lemma session_ok: "table_ok (table_session steps)"
proof -
  have "table_ok s \<Longrightarrow> table_ok (fold take_step steps s)" for s :: "'a dispatcher \<times> 'a running list"
    by (induction steps arbitrary: s) (simp_all add: ok_step)
  moreover have "table_ok (dispatcher_new, [])"
    by (simp add: table_ok_def dispatcher_new_def stack_of_def ids_of_def)
  ultimately show ?thesis by (simp add: table_session_def)
qed

section \<open>Property\<close>

lemma fill_slot_map:
  "sorted_wrt (<) (map rg_id stack) \<Longrightarrow>
   fill_slot_of i h stack = map (\<lambda>r. if rg_id r = i then r\<lparr>rg_handler := Some h\<rparr> else r) stack"
  by (induction stack) (auto intro!: map_idI [symmetric])

lemma stack_of_end:
  assumes "table_ok (d, runs)"
  shows "stack_of (snd (dispatch_end run h d)) t =
    (if t = rn_event_type run
     then map (\<lambda>r. if rg_id r = rn_id run then r\<lparr>rg_handler := Some h\<rparr> else r) (stack_of d t) else stack_of d t)"
proof (cases "bt_get (dp_handlers d) (rn_event_type run)")
  case None
  then show ?thesis by (auto simp: dispatch_end_def stack_of_def)
next
  case (Some stack)
  then have "stack_of d (rn_event_type run) = stack" by (simp add: stack_of_def)
  then show ?thesis
    using Some table_ok_parts(1) [OF assms] table_ok_parts(4) [OF assms, of "rn_event_type run"]
    by (auto simp: dispatch_end_def stack_of_insert fill_slot_map)
qed

lemma last_newest: "sorted_wrt (<) xs \<Longrightarrow> xs \<noteq> [] \<Longrightarrow> last xs = Max (set (xs :: nat list))"
  by (rule Max_eqI [symmetric]; cases xs rule: rev_cases) (auto simp: sorted_wrt_append)

text \<open>
  C11. No handler of the event table is ever lost, whatever handlers do while they run: after any
  sequence of registrations, retirements, dispatches and returns, however nested, exactly the
  registrations that are running are without their handler, so at rest every registration has
  its own. An event goes to the newest registration of its type that is left, is dropped as busy only when
  that very registration is running, and is counted when none is left; a handler that returns goes back
  to its registration and to no other, or nowhere when its registration went away meanwhile.
\<close>

theorem handlers_never_lost:
  assumes "table_session steps = (d, runs)"
  shows "(\<forall>r\<in>set (stack_of d t). rg_handler r = None \<longleftrightarrow> runs_at runs t (rg_id r)) \<and>
    (case dispatch_begin t d of
       (Inl Handled, d') \<Rightarrow> False
     | (Inl Unhandled, d') \<Rightarrow>
         stack_of d t = [] \<and> dp_handlers d' = dp_handlers d \<and>
         unhandled_count d' t = min (unhandled_count d t + 1) (2 ^ 64 - 1)
     | (Inl HandlerBusy, d') \<Rightarrow> d' = d \<and> stack_of d t \<noteq> [] \<and> runs_at runs t (Max (set (ids_of d t)))
     | (Inr run, d') \<Rightarrow>
         rn_event_type run = t \<and> rn_id run = Max (set (ids_of d t)) \<and> \<not> runs_at runs t (rn_id run) \<and> ids_of d' = ids_of d) \<and>
    (case runs of
       [] \<Rightarrow> True
     | run # _ \<Rightarrow>
         stack_of (snd (dispatch_end run h d)) t =
           map (\<lambda>r. if rn_event_type run = t \<and> rg_id r = rn_id run then r\<lparr>rg_handler := Some h\<rparr> else r) (stack_of d t))"
proof -
  have ok: "table_ok (d, runs)" using session_ok [of steps] assms by simp
  note p = table_ok_parts [OF ok]
  have starts: "case dispatch_begin t d of
       (Inl Handled, d') \<Rightarrow> False
     | (Inl Unhandled, d') \<Rightarrow>
         stack_of d t = [] \<and> dp_handlers d' = dp_handlers d \<and>
         unhandled_count d' t = min (unhandled_count d t + 1) (2 ^ 64 - 1)
     | (Inl HandlerBusy, d') \<Rightarrow> d' = d \<and> stack_of d t \<noteq> [] \<and> runs_at runs t (Max (set (ids_of d t)))
     | (Inr run, d') \<Rightarrow>
         rn_event_type run = t \<and> rn_id run = Max (set (ids_of d t)) \<and> \<not> runs_at runs t (rn_id run) \<and> ids_of d' = ids_of d"
  proof (cases "stack_of d t" rule: rev_cases)
    case Nil
    then show ?thesis using p(2) by (simp add: dispatch_begin_def count_unhandled_def unhandled_count_def Let_def bt_get_insert)
  next
    case (snoc front live)
    have m: "rg_id live = Max (set (ids_of d t))"
      using last_newest [of "ids_of d t"] p(4) [of t] by (simp add: ids_of_def snoc)
    have busy: "rg_handler live = None \<longleftrightarrow> runs_at runs t (Max (set (ids_of d t)))"
      using p(6) [of t] by (simp add: snoc m)
    show ?thesis
    proof (cases "rg_handler live")
      case None
      then show ?thesis using busy by (simp add: dispatch_begin_snoc [OF snoc] snoc)
    next
      case (Some handler)
      have "ids_of (d\<lparr>dp_handlers := bt_insert t (front @ [live\<lparr>rg_handler := None\<rparr>]) (dp_handlers d)\<rparr>) = ids_of d"
        by (rule ext) (simp add: ids_of_def stack_of_insert [OF p(1)] snoc)
      then show ?thesis using Some busy m by (simp add: dispatch_begin_snoc [OF snoc])
    qed
  qed
  moreover have "\<forall>r\<in>set (stack_of d t). rg_handler r = None \<longleftrightarrow> runs_at runs t (rg_id r)" by (rule p(6))
  moreover have "case runs of
       [] \<Rightarrow> True
     | run # _ \<Rightarrow>
         stack_of (snd (dispatch_end run h d)) t =
           map (\<lambda>r. if rn_event_type run = t \<and> rg_id r = rn_id run then r\<lparr>rg_handler := Some h\<rparr> else r) (stack_of d t)"
    by (auto simp: stack_of_end [OF ok] split: list.split)
  ultimately show ?thesis by blast
qed

text \<open>A handler that registers another for its own type and sends itself an event: the event goes to the new one.\<close>

theorem handlers_never_lost_witness:
  "\<exists>d runs. table_session [Register 4 ''a'', Begin 4, RegisterOwned 4 ''b''] = (d, runs) \<and> length runs = 1 \<and>
     map rg_handler (stack_of d 4) = [None, Some ''b''] \<and>
     map rg_handler (stack_of (snd (dispatch_end (hd runs) ''c'' d)) 4) = [Some ''c'', Some ''b'']"
proof -
  let ?steps = "[Register 4 ''a'', Begin 4, RegisterOwned 4 ''b'']"
  obtain d runs where s: "table_session ?steps = (d, runs)" by force
  have d: "stack_of d 4 = [\<lparr>rg_id = 0, rg_handler = None\<rparr>, \<lparr>rg_id = 1, rg_handler = Some ''b''\<rparr>]"
    and r: "runs = [\<lparr>rn_event_type = 4, rn_id = 0, rn_handler = ''a''\<rparr>]"
    using s by (auto simp: table_session_def dp_register_def make_registration_def dispatcher_new_def dispatch_begin_def
        stack_of_def Let_def dp_register_owned_def bt_get_def)
  from handlers_never_lost [OF s, of 4 "''c''"] show ?thesis by (auto simp: s d r)
qed

end
