(* ===== verification/Proto_Wire.thy ===== *)
theory Proto_Wire
  imports Bits_Writer
begin

text \<open>
  The ground of \<open>crates/ac-proto\<close>: its errors (\<open>src/lib.rs\<close>), the message opcodes (\<open>src/opcode.rs\<close>) and the
  helpers every message shares (\<open>src/wire.rs\<close>). A field-less enum with wire values is its values here:
  an opcode is a \<open>u32\<close> with a constant per opcode. A parser is a reader operation over \<open>proto_error\<close>. A
  parser is \<open>rd_exact\<close> when its outcome depends only on the bytes up to where it stops, so that bytes
  after a message are ignored and a message cut short is refused.
\<close>

section \<open>Errors\<close>

datatype proto_error =
    Bits bits_error
  | WrongOpcode u32 u32
  | CountExceedsPayload string u32
  | InvalidLength string nat
  | CountOutOfRange string u32 u32
  | DataVersionOutOfRange u32 u32
  | CountTooLarge string u32 u32
  | NonFinite string
  | InvalidValue string u32
  | Inconsistent string
  | InvalidArgument string

type_synonym 'a pr = "(proto_error, 'a) reading"

text \<open>\<open>From<BitsError>\<close>, which the \<open>?\<close> operator applies.\<close>

definition rd_lift :: "'a rd \<Rightarrow> 'a pr" where
  "rd_lift f r = (case f r of (Inl e, r') \<Rightarrow> (Inl (Bits e), r') | (Inr v, r') \<Rightarrow> (Inr v, r'))"

definition rd_fail :: "'e \<Rightarrow> ('e, 'a) reading" where
  "rd_fail e r = (Inl e, r)"

definition pr_u8 :: "u8 pr" where "pr_u8 = rd_lift rd_u8"
definition pr_i8 :: "u8 pr" where "pr_i8 = rd_lift rd_i8"
definition pr_u16 :: "u16 pr" where "pr_u16 = rd_lift rd_u16"
definition pr_i16 :: "u16 pr" where "pr_i16 = rd_lift rd_i16"
definition pr_u32 :: "u32 pr" where "pr_u32 = rd_lift rd_u32"
definition pr_i32 :: "u32 pr" where "pr_i32 = rd_lift rd_i32"
definition pr_u64 :: "u64 pr" where "pr_u64 = rd_lift rd_u64"
definition pr_i64 :: "u64 pr" where "pr_i64 = rd_lift rd_i64"
definition pr_f32 :: "u32 pr" where "pr_f32 = rd_lift rd_f32"
definition pr_f64 :: "u64 pr" where "pr_f64 = rd_lift rd_f64"
definition pr_bytes :: "nat \<Rightarrow> bytes pr" where "pr_bytes n = rd_lift (rd_bytes n)"
definition pr_skip :: "nat \<Rightarrow> unit pr" where "pr_skip n = rd_lift (rd_skip n)"
definition pr_string16l :: "rstring pr" where "pr_string16l = rd_lift rd_string16l"
definition pr_packed_dword :: "u32 pr" where "pr_packed_dword = rd_lift rd_packed_dword"

definition pr_packed_dword_of_known_type :: "u32 \<Rightarrow> u32 pr" where
  "pr_packed_dword_of_known_type k = rd_lift (rd_packed_dword_of_known_type k)"

text \<open>\<open>align(4)\<close>, which does not panic.\<close>

definition pr_align4 :: "unit pr" where
  "pr_align4 = rd_lift (\<lambda>r. the (rd_align 4 r))"

text \<open>What is left of the body, and a field that is read only under a condition.\<close>

definition pr_remaining :: "nat pr" where
  "pr_remaining r = (Inr (rd_remaining r), r)"

definition pr_position :: "nat pr" where
  "pr_position r = (Inr (rd_position r), r)"

definition pr_opt :: "bool \<Rightarrow> 'a pr \<Rightarrow> 'a option pr" where
  "pr_opt present f = (if present then rd_bind f (\<lambda>v. rd_ret (Some v)) else rd_ret None)"

text \<open>\<open>for _ in 0..n\<close>, collecting.\<close>

fun pr_times :: "nat \<Rightarrow> 'a pr \<Rightarrow> 'a list pr" where
  "pr_times 0 f = rd_ret []"
| "pr_times (Suc n) f = rd_bind f (\<lambda>v. rd_bind (pr_times n f) (\<lambda>vs. rd_ret (v # vs)))"

text \<open>A parser run on a body.\<close>

definition parse_body :: "'a pr \<Rightarrow> bytes \<Rightarrow> proto_error + 'a" where
  "parse_body f body = fst (f (rd_new body))"

text \<open>The \<open>?\<close> of a builder.\<close>

definition ok_then :: "'e + 'a \<Rightarrow> ('a \<Rightarrow> 'e + 'b) \<Rightarrow> 'e + 'b" where
  "ok_then x f = (case x of Inl e \<Rightarrow> Inl e | Inr v \<Rightarrow> f v)"

definition put_string :: "rstring \<Rightarrow> wbuf \<Rightarrow> proto_error + wbuf" where
  "put_string s w = (case wr_string16l s w of (Inl e, _) \<Rightarrow> Inl (Bits e) | (Inr _, w') \<Rightarrow> Inr w')"

section \<open>Opcodes\<close>

type_synonym opcode = u32

definition OP_CharacterLogOff :: opcode where "OP_CharacterLogOff = 0xF653"
definition OP_CharacterEnterWorld :: opcode where "OP_CharacterEnterWorld = 0xF657"
definition OP_CharacterList :: opcode where "OP_CharacterList = 0xF658"
definition OP_CharacterError :: opcode where "OP_CharacterError = 0xF659"
definition OP_CreateObject :: opcode where "OP_CreateObject = 0xF745"
definition OP_GameEvent :: opcode where "OP_GameEvent = 0xF7B0"
definition OP_GameAction :: opcode where "OP_GameAction = 0xF7B1"
definition OP_CharacterEnterWorldRequest :: opcode where "OP_CharacterEnterWorldRequest = 0xF7C8"
definition OP_ServerReady :: opcode where "OP_ServerReady = 0xF7DF"
definition OP_ServerName :: opcode where "OP_ServerName = 0xF7E1"
definition OP_DddDataMessage :: opcode where "OP_DddDataMessage = 0xF7E2"
definition OP_DddInterrogation :: opcode where "OP_DddInterrogation = 0xF7E5"
definition OP_DddInterrogationResponse :: opcode where "OP_DddInterrogationResponse = 0xF7E6"
definition OP_DddBegin :: opcode where "OP_DddBegin = 0xF7E7"
definition OP_DddEnd :: opcode where "OP_DddEnd = 0xF7EA"
definition OP_SetStackSize :: opcode where "OP_SetStackSize = 0x0197"
definition OP_InventoryRemoveObject :: opcode where "OP_InventoryRemoveObject = 0x0024"
definition OP_PrivateUpdatePropertyInt :: opcode where "OP_PrivateUpdatePropertyInt = 0x02CD"
definition OP_PublicUpdatePropertyInt :: opcode where "OP_PublicUpdatePropertyInt = 0x02CE"
definition OP_PrivateUpdatePropertyInt64 :: opcode where "OP_PrivateUpdatePropertyInt64 = 0x02CF"
definition OP_PublicUpdatePropertyInt64 :: opcode where "OP_PublicUpdatePropertyInt64 = 0x02D0"
definition OP_PrivateUpdatePropertyBool :: opcode where "OP_PrivateUpdatePropertyBool = 0x02D1"
definition OP_PublicUpdatePropertyBool :: opcode where "OP_PublicUpdatePropertyBool = 0x02D2"
definition OP_PrivateUpdatePropertyFloat :: opcode where "OP_PrivateUpdatePropertyFloat = 0x02D3"
definition OP_PublicUpdatePropertyFloat :: opcode where "OP_PublicUpdatePropertyFloat = 0x02D4"
definition OP_PrivateUpdatePropertyString :: opcode where "OP_PrivateUpdatePropertyString = 0x02D5"
definition OP_PublicUpdatePropertyString :: opcode where "OP_PublicUpdatePropertyString = 0x02D6"
definition OP_PrivateUpdatePropertyDataId :: opcode where "OP_PrivateUpdatePropertyDataId = 0x02D7"
definition OP_PublicUpdatePropertyDataId :: opcode where "OP_PublicUpdatePropertyDataId = 0x02D8"
definition OP_PrivateUpdatePropertyInstanceId :: opcode where "OP_PrivateUpdatePropertyInstanceId = 0x02D9"
definition OP_PublicUpdatePropertyInstanceId :: opcode where "OP_PublicUpdatePropertyInstanceId = 0x02DA"
definition OP_PrivateUpdatePosition :: opcode where "OP_PrivateUpdatePosition = 0x02DB"
definition OP_PrivateUpdateSkill :: opcode where "OP_PrivateUpdateSkill = 0x02DD"
definition OP_PrivateUpdateAttribute :: opcode where "OP_PrivateUpdateAttribute = 0x02E3"
definition OP_PrivateUpdateVital :: opcode where "OP_PrivateUpdateVital = 0x02E7"
definition OP_PrivateUpdateVitalCurrent :: opcode where "OP_PrivateUpdateVitalCurrent = 0x02E9"
definition OP_ObjDescEvent :: opcode where "OP_ObjDescEvent = 0xF625"
definition OP_DeleteObject :: opcode where "OP_DeleteObject = 0xF747"
definition OP_UpdatePosition :: opcode where "OP_UpdatePosition = 0xF748"
definition OP_ParentEvent :: opcode where "OP_ParentEvent = 0xF749"
definition OP_PickupEvent :: opcode where "OP_PickupEvent = 0xF74A"
definition OP_SetState :: opcode where "OP_SetState = 0xF74B"
definition OP_UpdateMotion :: opcode where "OP_UpdateMotion = 0xF74C"
definition OP_VectorUpdate :: opcode where "OP_VectorUpdate = 0xF74E"
definition OP_PlayerTeleport :: opcode where "OP_PlayerTeleport = 0xF751"
definition OP_UpdateObject :: opcode where "OP_UpdateObject = 0xF7DB"
definition OP_HearSpeech :: opcode where "OP_HearSpeech = 0x02BB"
definition OP_HearRangedSpeech :: opcode where "OP_HearRangedSpeech = 0x02BC"
definition OP_EmoteText :: opcode where "OP_EmoteText = 0x01E0"
definition OP_SoulEmote :: opcode where "OP_SoulEmote = 0x01E2"
definition OP_ServerMessage :: opcode where "OP_ServerMessage = 0xF7E0"
definition OP_TurbineChat :: opcode where "OP_TurbineChat = 0xF7DE"
definition OP_PlayerKilled :: opcode where "OP_PlayerKilled = 0x019E"
definition OP_SoundEvent :: opcode where "OP_SoundEvent = 0xF750"
definition OP_PlayScript :: opcode where "OP_PlayScript = 0xF754"
definition OP_PlayScriptType :: opcode where "OP_PlayScriptType = 0xF755"
definition OP_AdminEnvirons :: opcode where "OP_AdminEnvirons = 0xEA60"
definition OP_CharacterDelete :: opcode where "OP_CharacterDelete = 0xF655"
definition OP_CharacterCreate :: opcode where "OP_CharacterCreate = 0xF656"
definition OP_CharacterRestore :: opcode where "OP_CharacterRestore = 0xF7D9"
definition OP_CharGenVerificationResponse :: opcode where "OP_CharGenVerificationResponse = 0xF643"
definition OP_FriendsOld :: opcode where "OP_FriendsOld = 0xF7CD"
definition OP_AccountBanned :: opcode where "OP_AccountBanned = 0xF7C1"
definition OP_AccountBooted :: opcode where "OP_AccountBooted = 0xF7DC"

definition OPCODES :: "opcode list" where
  "OPCODES =
     [OP_CharacterLogOff, OP_CharacterEnterWorld, OP_CharacterList, OP_CharacterError, OP_CreateObject,
      OP_GameEvent, OP_GameAction, OP_CharacterEnterWorldRequest, OP_ServerReady, OP_ServerName,
      OP_DddDataMessage, OP_DddInterrogation, OP_DddInterrogationResponse, OP_DddBegin, OP_DddEnd,
      OP_SetStackSize, OP_InventoryRemoveObject, OP_PrivateUpdatePropertyInt, OP_PublicUpdatePropertyInt,
      OP_PrivateUpdatePropertyInt64, OP_PublicUpdatePropertyInt64, OP_PrivateUpdatePropertyBool,
      OP_PublicUpdatePropertyBool, OP_PrivateUpdatePropertyFloat, OP_PublicUpdatePropertyFloat,
      OP_PrivateUpdatePropertyString, OP_PublicUpdatePropertyString, OP_PrivateUpdatePropertyDataId,
      OP_PublicUpdatePropertyDataId, OP_PrivateUpdatePropertyInstanceId,
      OP_PublicUpdatePropertyInstanceId, OP_PrivateUpdatePosition, OP_PrivateUpdateSkill,
      OP_PrivateUpdateAttribute, OP_PrivateUpdateVital, OP_PrivateUpdateVitalCurrent, OP_ObjDescEvent,
      OP_DeleteObject, OP_UpdatePosition, OP_ParentEvent, OP_PickupEvent, OP_SetState, OP_UpdateMotion,
      OP_VectorUpdate, OP_PlayerTeleport, OP_UpdateObject, OP_HearSpeech, OP_HearRangedSpeech,
      OP_EmoteText, OP_SoulEmote, OP_ServerMessage, OP_TurbineChat, OP_PlayerKilled, OP_SoundEvent,
      OP_PlayScript, OP_PlayScriptType, OP_AdminEnvirons, OP_CharacterDelete, OP_CharacterCreate,
      OP_CharacterRestore, OP_CharGenVerificationResponse, OP_FriendsOld, OP_AccountBanned,
      OP_AccountBooted]"

lemmas opcode_values =
  OP_CharacterLogOff_def OP_CharacterEnterWorld_def OP_CharacterList_def OP_CharacterError_def
  OP_CreateObject_def OP_GameEvent_def OP_GameAction_def OP_CharacterEnterWorldRequest_def
  OP_ServerReady_def OP_ServerName_def OP_DddDataMessage_def OP_DddInterrogation_def
  OP_DddInterrogationResponse_def OP_DddBegin_def OP_DddEnd_def OP_SetStackSize_def
  OP_InventoryRemoveObject_def OP_PrivateUpdatePropertyInt_def OP_PublicUpdatePropertyInt_def
  OP_PrivateUpdatePropertyInt64_def OP_PublicUpdatePropertyInt64_def OP_PrivateUpdatePropertyBool_def
  OP_PublicUpdatePropertyBool_def OP_PrivateUpdatePropertyFloat_def OP_PublicUpdatePropertyFloat_def
  OP_PrivateUpdatePropertyString_def OP_PublicUpdatePropertyString_def
  OP_PrivateUpdatePropertyDataId_def OP_PublicUpdatePropertyDataId_def
  OP_PrivateUpdatePropertyInstanceId_def OP_PublicUpdatePropertyInstanceId_def
  OP_PrivateUpdatePosition_def OP_PrivateUpdateSkill_def OP_PrivateUpdateAttribute_def
  OP_PrivateUpdateVital_def OP_PrivateUpdateVitalCurrent_def OP_ObjDescEvent_def OP_DeleteObject_def
  OP_UpdatePosition_def OP_ParentEvent_def OP_PickupEvent_def OP_SetState_def OP_UpdateMotion_def
  OP_VectorUpdate_def OP_PlayerTeleport_def OP_UpdateObject_def OP_HearSpeech_def
  OP_HearRangedSpeech_def OP_EmoteText_def OP_SoulEmote_def OP_ServerMessage_def OP_TurbineChat_def
  OP_PlayerKilled_def OP_SoundEvent_def OP_PlayScript_def OP_PlayScriptType_def OP_AdminEnvirons_def
  OP_CharacterDelete_def OP_CharacterCreate_def OP_CharacterRestore_def
  OP_CharGenVerificationResponse_def OP_FriendsOld_def OP_AccountBanned_def OP_AccountBooted_def

definition opcode_from_u32 :: "u32 \<Rightarrow> opcode option" where
  "opcode_from_u32 v = find (\<lambda>op. op = v) OPCODES"

definition bare_body :: "opcode \<Rightarrow> bytes" where
  "bare_body op = le_bytes 4 op"

definition read_opcode :: "bytes \<Rightarrow> proto_error + u32" where
  "read_opcode = parse_body pr_u32"

definition expect_opcode :: "opcode \<Rightarrow> unit pr" where
  "expect_opcode expected =
     rd_bind pr_u32 (\<lambda>actual. if actual = expected then rd_ret () else rd_fail (WrongOpcode expected actual))"

section \<open>Shared reads and writes\<close>

definition read_string :: "rstring pr" where
  "read_string =
     rd_bind pr_u16 (\<lambda>len.
     rd_bind (pr_bytes (unat len)) (\<lambda>txt.
     rd_bind pr_remaining (\<lambda>rest.
     rd_bind (pr_skip (min (pad4 (2 + unat len)) rest)) (\<lambda>_.
     rd_ret (cp_decode txt)))))"

definition read_bool32 :: "bool pr" where
  "read_bool32 = rd_bind pr_u32 (\<lambda>v. rd_ret (v \<noteq> 0))"

text \<open>The product is checked, so the test is the one on naturals.\<close>

definition check_count :: "u32 \<Rightarrow> nat \<Rightarrow> string \<Rightarrow> unit pr" where
  "check_count count min_size what =
     rd_bind pr_remaining (\<lambda>rest.
       if unat count * min_size > rest then rd_fail (CountExceedsPayload what count) else rd_ret ())"

definition read_count :: "nat \<Rightarrow> string \<Rightarrow> u32 pr" where
  "read_count min_size what =
     rd_bind pr_u32 (\<lambda>count. rd_bind (check_count count min_size what) (\<lambda>_. rd_ret count))"

definition action :: "u32 \<Rightarrow> u32 \<Rightarrow> wbuf" where
  "action sequence action_type = wr_u32 action_type (wr_u32 sequence (wr_u32 OP_GameAction wr_new))"

definition bare_action :: "u32 \<Rightarrow> u32 \<Rightarrow> bytes" where
  "bare_action sequence action_type = wr_buf (action sequence action_type)"

definition u32_action :: "u32 \<Rightarrow> u32 \<Rightarrow> u32 \<Rightarrow> bytes" where
  "u32_action sequence action_type v = wr_buf (wr_u32 v (action sequence action_type))"

definition string_action :: "u32 \<Rightarrow> u32 \<Rightarrow> rstring \<Rightarrow> proto_error + bytes" where
  "string_action sequence action_type txt =
     ok_then (put_string txt (action sequence action_type)) (\<lambda>w. Inr (wr_buf w))"

section \<open>Opcodes are told apart\<close>

lemma distinct_opcodes: "distinct OPCODES"
  by (simp add: OPCODES_def opcode_values)

lemma opcode_from_u32_eq: "opcode_from_u32 v = (if v \<in> set OPCODES then Some v else None)"
proof -
  have "find (\<lambda>op. op = v) xs = (if v \<in> set xs then Some v else None)" for xs
    by (induction xs) auto
  then show ?thesis by (simp only: opcode_from_u32_def)
qed

section \<open>Parsers that depend on their own bytes only\<close>

definition rd_exact :: "('e, 'a) reading \<Rightarrow> bool" where
  "rd_exact f \<longleftrightarrow>
     rd_safe f \<and>
     (\<forall>d ys p v p'. p \<le> length d \<longrightarrow>
        (f \<lparr>rd_data = d, rd_pos = p\<rparr> = (Inr v, \<lparr>rd_data = d, rd_pos = p'\<rparr>) \<longleftrightarrow>
         f \<lparr>rd_data = d @ ys, rd_pos = p\<rparr> = (Inr v, \<lparr>rd_data = d @ ys, rd_pos = p'\<rparr>) \<and> p' \<le> length d))"

lemma bind_ret [simp]: "rd_bind (rd_ret v) f = f v"
  by (rule ext) (simp add: rd_bind_def rd_ret_def)

lemma rd_exactD:
  assumes "rd_exact f" "p \<le> length d"
  shows "f \<lparr>rd_data = d, rd_pos = p\<rparr> = (Inr v, \<lparr>rd_data = d, rd_pos = p'\<rparr>) \<longleftrightarrow>
         f \<lparr>rd_data = d @ ys, rd_pos = p\<rparr> = (Inr v, \<lparr>rd_data = d @ ys, rd_pos = p'\<rparr>) \<and> p' \<le> length d"
  using assms by (simp add: rd_exact_def)

lemma rd_exact_safe: "rd_exact f \<Longrightarrow> rd_safe f"
  by (simp add: rd_exact_def)

text \<open>A safe reader leaves the same slice.\<close>

lemma safe_state:
  assumes "rd_safe f" "p \<le> length d" "f \<lparr>rd_data = d, rd_pos = p\<rparr> = (x, r)"
  shows "\<exists>p'. r = \<lparr>rd_data = d, rd_pos = p'\<rparr> \<and> p \<le> p' \<and> p' \<le> length d"
  using rd_safe_pos [OF assms(1) _ assms(3)] assms(2) by (cases r) (simp add: rd_ok_def)

lemma bind_Inr:
  "rd_bind f g r = (Inr w, r') \<longleftrightarrow> (\<exists>v r1. f r = (Inr v, r1) \<and> g v r1 = (Inr w, r'))"
  by (auto simp: rd_bind_def split: prod.splits sum.splits)

lemma rd_exact_bind [wf_intros]:
  assumes f: "rd_exact f" and g: "\<And>v. rd_exact (g v)"
  shows "rd_exact (rd_bind f g)"
  unfolding rd_exact_def
proof (intro conjI allI impI)
  show safe: "rd_safe (rd_bind f g)" using f g by (auto intro: rd_safe_bind rd_exact_safe)
  fix d ys :: bytes and p v p'
  assume p: "p \<le> length d"
  let ?d = "\<lparr>rd_data = d, rd_pos = p\<rparr>" and ?e = "\<lparr>rd_data = d @ ys, rd_pos = p\<rparr>"
  show "rd_bind f g ?d = (Inr v, \<lparr>rd_data = d, rd_pos = p'\<rparr>) \<longleftrightarrow>
        rd_bind f g ?e = (Inr v, \<lparr>rd_data = d @ ys, rd_pos = p'\<rparr>) \<and> p' \<le> length d"
  proof
    assume "rd_bind f g ?d = (Inr v, \<lparr>rd_data = d, rd_pos = p'\<rparr>)"
    then obtain x r1 where 1: "f ?d = (Inr x, r1)" "g x r1 = (Inr v, \<lparr>rd_data = d, rd_pos = p'\<rparr>)"
      by (auto simp: bind_Inr)
    obtain p1 where p1: "r1 = \<lparr>rd_data = d, rd_pos = p1\<rparr>" "p1 \<le> length d"
      using safe_state [OF rd_exact_safe [OF f] p 1(1)] by blast
    have "f ?e = (Inr x, \<lparr>rd_data = d @ ys, rd_pos = p1\<rparr>)"
      using rd_exactD [OF f p] 1(1) p1(1) by blast
    moreover have "g x \<lparr>rd_data = d @ ys, rd_pos = p1\<rparr> = (Inr v, \<lparr>rd_data = d @ ys, rd_pos = p'\<rparr>) \<and> p' \<le> length d"
      using rd_exactD [OF g p1(2)] 1(2) p1(1) by blast
    ultimately show "rd_bind f g ?e = (Inr v, \<lparr>rd_data = d @ ys, rd_pos = p'\<rparr>) \<and> p' \<le> length d"
      by (auto simp: bind_Inr)
  next
    assume a: "rd_bind f g ?e = (Inr v, \<lparr>rd_data = d @ ys, rd_pos = p'\<rparr>) \<and> p' \<le> length d"
    then obtain x r1 where 1: "f ?e = (Inr x, r1)" "g x r1 = (Inr v, \<lparr>rd_data = d @ ys, rd_pos = p'\<rparr>)"
      by (auto simp: bind_Inr)
    have pe: "p \<le> length (d @ ys)" using p by simp
    obtain p1 where p1: "r1 = \<lparr>rd_data = d @ ys, rd_pos = p1\<rparr>" "p1 \<le> length (d @ ys)"
      using safe_state [OF rd_exact_safe [OF f] pe 1(1)] by blast
    have "p1 \<le> p'"
      using safe_state [OF rd_exact_safe [OF g] p1(2), of x] 1(2) p1(1) by force
    then have le: "p1 \<le> length d" using a by simp
    have "f ?d = (Inr x, \<lparr>rd_data = d, rd_pos = p1\<rparr>)"
      using rd_exactD [OF f p, of x p1 ys] 1(1) p1(1) le by blast
    moreover have "g x \<lparr>rd_data = d, rd_pos = p1\<rparr> = (Inr v, \<lparr>rd_data = d, rd_pos = p'\<rparr>)"
      using rd_exactD [OF g le, of x v p' ys] 1(2) p1(1) a by blast
    ultimately show "rd_bind f g ?d = (Inr v, \<lparr>rd_data = d, rd_pos = p'\<rparr>)"
      by (auto simp: bind_Inr)
  qed
qed

lemma rd_exact_ret [wf_intros]: "rd_exact (rd_ret v)"
  by (auto simp: rd_exact_def rd_ret_def intro: rd_safe_ret)

lemma rd_exact_fail [wf_intros]: "rd_exact (rd_fail e)"
  by (simp add: rd_exact_def rd_fail_def rd_safe_def)

lemma rd_exact_if [wf_intros]: "rd_exact f \<Longrightarrow> rd_exact g \<Longrightarrow> rd_exact (if b then f else g)"
  by simp

lemma lift_eq: "rd_lift f r = (Inr v, r') \<longleftrightarrow> f r = (Inr v, r')"
  by (auto simp: rd_lift_def split: prod.splits sum.splits)

lemma rd_safe_lift [wf_intros]: "rd_safe f \<Longrightarrow> rd_safe (rd_lift f)"
proof -
  assume f: "rd_safe f"
  have "snd (rd_lift f r) = snd (f r)" for r by (simp add: rd_lift_def split: prod.split sum.split)
  then show ?thesis using f by (simp only: rd_safe_def)
qed

lemma rd_exact_lift [wf_intros]: "rd_exact f \<Longrightarrow> rd_exact (rd_lift f)"
  by (simp add: rd_exact_def lift_eq rd_safe_lift)

lemma rd_exact_bytes [wf_intros]: "rd_exact (rd_bytes n)"
  by (auto simp: rd_exact_def rd_safe_bytes rd_bytes_def rd_remaining_def Let_def subslice_def)

lemma rd_exact_skip [wf_intros]: "rd_exact (rd_skip n)"
  unfolding rd_skip_def by (intro wf_intros)

lemma rd_exact_le [wf_intros]: "rd_exact (rd_le n)"
  unfolding rd_le_def rd_array_def by (intro wf_intros)

lemma rd_exact_ints [wf_intros]:
  "rd_exact pr_u8" "rd_exact pr_i8" "rd_exact pr_u16" "rd_exact pr_i16" "rd_exact pr_u32" "rd_exact pr_i32"
  "rd_exact pr_u64" "rd_exact pr_i64" "rd_exact pr_f32" "rd_exact pr_f64" "rd_exact (pr_bytes n)" "rd_exact (pr_skip n)"
  unfolding pr_u8_def pr_i8_def pr_u16_def pr_i16_def pr_u32_def pr_i32_def pr_u64_def pr_i64_def pr_f32_def pr_f64_def
    rd_u8_def rd_i8_def rd_u16_def rd_i16_def rd_u32_def rd_i32_def rd_u64_def rd_i64_def rd_f32_def rd_f64_def
    pr_bytes_def pr_skip_def
  by (intro wf_intros)+

lemma rd_exact_compound [wf_intros]:
  "rd_exact pr_packed_dword" "rd_exact (pr_packed_dword_of_known_type k)" "rd_exact pr_string16l"
  unfolding pr_packed_dword_def pr_packed_dword_of_known_type_def pr_string16l_def rd_packed_dword_of_known_type_def
    rd_packed_dword_def rd_string16l_def rd_string16l_bytes_def rd_u16_def
  by (intro wf_intros)+

lemma align4_eq: "the (rd_align 4 r) = (if rd_pos r mod 4 = 0 then (Inr (), r) else rd_skip (4 - rd_pos r mod 4) r)"
  by (simp add: rd_align_def Let_def)

lemma rd_exact_align4 [wf_intros]: "rd_exact pr_align4"
proof -
  have "rd_exact (\<lambda>r. the (rd_align 4 r))"
    unfolding rd_exact_def
  proof (intro conjI allI impI)
    show "rd_safe (\<lambda>r. the (rd_align 4 r))"
      using rd_safe_skip by (auto simp: rd_safe_def align4_eq)
    fix d ys :: bytes and p v p'
    assume p: "p \<le> length d"
    show "(the (rd_align 4 \<lparr>rd_data = d, rd_pos = p\<rparr>) = (Inr v, \<lparr>rd_data = d, rd_pos = p'\<rparr>)) =
        (the (rd_align 4 \<lparr>rd_data = d @ ys, rd_pos = p\<rparr>) = (Inr v, \<lparr>rd_data = d @ ys, rd_pos = p'\<rparr>) \<and> p' \<le> length d)"
      using rd_exactD [OF rd_exact_skip p, of "4 - p mod 4" v p' ys] p unfolding align4_eq reader.simps
      by (cases "p mod 4 = 0") auto
  qed
  then show ?thesis unfolding pr_align4_def by (rule rd_exact_lift)
qed

lemma rd_exact_opt [wf_intros]: "rd_exact f \<Longrightarrow> rd_exact (pr_opt b f)"
  unfolding pr_opt_def by (intro wf_intros)

lemma rd_exact_times [wf_intros]: "rd_exact f \<Longrightarrow> rd_exact (pr_times n f)"
  by (induction n) (auto intro!: wf_intros)

lemma rd_exact_opcode [wf_intros]: "rd_exact (expect_opcode op)"
  unfolding expect_opcode_def by (intro wf_intros)

lemma rd_exact_bool32 [wf_intros]: "rd_exact read_bool32"
  unfolding read_bool32_def by (intro wf_intros)

text \<open>An exact parser that accepts a body takes its first \<open>n\<close> bytes: cut before, the body is refused; cut
  or continued after, it gives the same message.\<close>

definition takes_exactly :: "(bytes \<Rightarrow> proto_error + 'a) \<Rightarrow> nat \<Rightarrow> bytes \<Rightarrow> 'a \<Rightarrow> bool" where
  "takes_exactly parse n body v \<longleftrightarrow>
     n \<le> length body \<and> (\<forall>k ys. if k < n then isl (parse (take k body)) else parse (take k body @ ys) = Inr v)"

lemma exact_takes:
  assumes f: "rd_exact f" and ok: "parse_body f body = Inr v"
  shows "\<exists>n. takes_exactly (parse_body f) n body v"
proof -
  obtain r where r: "f \<lparr>rd_data = body, rd_pos = 0\<rparr> = (Inr v, r)"
    using ok by (metis parse_body_def rd_new_def prod.collapse)
  obtain n where n: "r = \<lparr>rd_data = body, rd_pos = n\<rparr>" "n \<le> length body"
    using safe_state [OF rd_exact_safe [OF f] _ r] by auto
  have short: "isl (parse_body f (take k body))" if k: "k < n" for k
  proof (rule ccontr)
    assume "\<not> isl (parse_body f (take k body))"
    then obtain w r' where w: "f \<lparr>rd_data = take k body, rd_pos = 0\<rparr> = (Inr w, r')"
      by (metis parse_body_def rd_new_def prod.collapse sum.collapse(2))
    obtain m where m: "r' = \<lparr>rd_data = take k body, rd_pos = m\<rparr>" "m \<le> length (take k body)"
      using safe_state [OF rd_exact_safe [OF f] _ w] by auto
    have "f \<lparr>rd_data = take k body @ drop k body, rd_pos = 0\<rparr> = (Inr w, \<lparr>rd_data = take k body @ drop k body, rd_pos = m\<rparr>)"
      using rd_exactD [OF f, of 0 "take k body"] w m(1) by blast
    then have "m = n" using r n(1) by simp
    then show False using m(2) k n(2) by simp
  qed
  moreover have "parse_body f (take k body @ ys) = Inr v" if k: "n \<le> k" for k ys
  proof -
    have "f \<lparr>rd_data = take k body, rd_pos = 0\<rparr> = (Inr v, \<lparr>rd_data = take k body, rd_pos = n\<rparr>)"
      using rd_exactD [OF f, of 0 "take k body" v n "drop k body"] r n k by simp
    then have "f \<lparr>rd_data = take k body @ ys, rd_pos = 0\<rparr> = (Inr v, \<lparr>rd_data = take k body @ ys, rd_pos = n\<rparr>)"
      using rd_exactD [OF f, of 0 "take k body" v n ys] by simp
    then show ?thesis by (simp add: parse_body_def rd_new_def)
  qed
  ultimately show ?thesis using n(2) unfolding takes_exactly_def by (metis not_le)
qed

section \<open>Reading back\<close>

lemma parses_lift [parse_intros]: "parses f enc v \<Longrightarrow> parses (rd_lift f) enc v"
  by (simp add: parses_def rd_lift_def)

lemma parses_pr_ints [parse_intros]:
  "parses pr_u8 (le_bytes 1 a) a" "parses pr_u16 (le_bytes 2 b) b" "parses pr_u32 (le_bytes 4 c) c"
  "parses pr_i32 (le_bytes 4 c) c" "parses pr_u64 (le_bytes 8 d) d" "parses pr_i64 (le_bytes 8 d) d"
  "parses pr_f32 (le_bytes 4 e) e" "parses pr_f64 (le_bytes 8 f) f" "parses pr_i8 (le_bytes 1 a) a"
  "parses pr_i16 (le_bytes 2 b) b"
  by (auto simp: pr_u8_def pr_u16_def pr_u32_def pr_i32_def pr_u64_def pr_i64_def pr_f32_def pr_f64_def pr_i8_def pr_i16_def
      rd_u8_def rd_u16_def rd_u32_def rd_i32_def rd_u64_def rd_i64_def rd_f32_def rd_f64_def rd_i8_def rd_i16_def
      simp del: One_nat_def intro!: parses_le parses_lift)

lemma parses_pr_bytes [parse_intros]: "length bs = n \<Longrightarrow> parses (pr_bytes n) bs bs"
  unfolding pr_bytes_def by (intro parse_intros)

lemma parses_pr_skip [parse_intros]: "length bs = n \<Longrightarrow> parses (pr_skip n) bs ()"
  unfolding pr_skip_def by (intro parse_intros)

lemma parses_opcode [parse_intros]: "parses (expect_opcode op) (le_bytes 4 op) ()"
  unfolding expect_opcode_def by (rule parses_bind_nil) (auto intro: parse_intros)

text \<open>A test of what is left, which the encoding that follows meets.\<close>

lemma parses_guard:
  assumes "parses g enc v" "n \<le> length enc"
  shows "parses (rd_bind pr_remaining (\<lambda>rest. if n > rest then rd_fail e else g)) enc v"
  using assms by (auto simp: parses_def rd_bind_def pr_remaining_def rd_remaining_def)

lemma parses_check_count:
  assumes "parses g enc v" "unat count * min_size \<le> length enc"
  shows "parses (rd_bind (check_count count min_size what) (\<lambda>_. g)) enc v"
proof -
  have "rd_bind (check_count count min_size what) (\<lambda>_. g) =
      rd_bind pr_remaining (\<lambda>rest. if unat count * min_size > rest then rd_fail (CountExceedsPayload what count) else g)"
    by (rule ext) (simp add: check_count_def rd_bind_def pr_remaining_def rd_fail_def rd_ret_def)
  then show ?thesis using parses_guard [OF assms] by simp
qed

lemma parses_times:
  "(\<And>v. v \<in> set vs \<Longrightarrow> parses f (enc v) v) \<Longrightarrow> parses (pr_times (length vs) f) (concat (map enc vs)) vs"
proof (induction vs)
  case Nil
  show ?case by (simp add: parses_ret)
next
  case (Cons v vs)
  have "parses (rd_bind (pr_times (length vs) f) (\<lambda>vs. rd_ret (v # vs))) (concat (map enc vs)) (v # vs)"
    using Cons by (intro parses_bind_nil [where x = vs]) (auto intro: parse_intros)
  then show ?case using Cons.prems by (auto intro!: parses_bind)
qed

lemma parses_body: "parses f enc v \<Longrightarrow> parse_body f (enc @ post) = Inr v"
  using parses_new [of f enc v post] by (simp add: parse_body_def)

text \<open>One read after another, for a goal whose encoding is written as a right-nested append.\<close>

lemma parses_step: "parses f e1 x \<Longrightarrow> parses (g x) e2 y \<Longrightarrow> enc = e1 @ e2 \<Longrightarrow> parses (rd_bind f g) enc y"
  using parses_bind by simp

lemma parses_next: "enc = e1 @ e2 \<Longrightarrow> parses f e1 x \<Longrightarrow> parses (g x) e2 y \<Longrightarrow> parses (rd_bind f g) enc y"
  using parses_bind by simp

lemma parses_padding:
  assumes "parses (rd_bind (pr_skip n) g) enc v" "n \<le> length enc"
  shows "parses (rd_bind pr_remaining (\<lambda>rest. rd_bind (pr_skip (min n rest)) g)) enc v"
  using assms by (auto simp: parses_def rd_bind_def pr_remaining_def rd_remaining_def min_def)

lemma parses_read_string:
  assumes "length s \<le> 0xFFFF"
  shows "parses read_string (string16l_enc s) (cp_decode s)"
proof -
  have u: "unat (word_of_nat (length s) :: u16) = length s" using assms by (simp add: unat_of_nat)
  show ?thesis
    unfolding read_string_def string16l_enc_def
  proof (rule parses_next [OF refl parses_pr_ints(2)], unfold u, rule parses_next [OF refl parses_pr_bytes [OF refl]])
    show "parses (rd_bind pr_remaining (\<lambda>rest. rd_bind (pr_skip (min (pad4 (2 + length s)) rest))
        (\<lambda>_. rd_ret (cp_decode s)))) (replicate (pad4 (2 + length s)) 0) (cp_decode s)"
      by (intro parses_padding parses_bind_nil [OF parses_pr_skip] parses_ret) simp_all
  qed
qed

end
