(* ===== verification/Allegiance.thy ===== *)
theory Allegiance
  imports Proto_Wire
begin

text \<open>
  \<open>crates/ac-proto/src/allegiance.rs\<close>: the allegiance tree the server sends, with its version gates. The
  reader keeps a tree only when every record names a patron read before it; the property is that what it
  keeps is a tree, so that the client's walks up and down it end and agree. The string fields
  that the code skips without keeping are read and dropped here too.
\<close>

section \<open>Records\<close>

definition LOGGED_IN :: u32 where "LOGGED_IN = 0x01"
definition HAS_PACKED_LEVEL :: u32 where "HAS_PACKED_LEVEL = 0x08"
definition MAY_PASSUP_EXPERIENCE :: u32 where "MAY_PASSUP_EXPERIENCE = 0x10"

record allegiance_member =
  am_character_id :: u32
  am_parent_guid :: u32
  am_is_logged_in :: bool
  am_name :: rstring
  am_rank :: u16
  am_level :: u32
  am_loyalty :: u16
  am_leadership :: u16
  am_cp_cached :: u32
  am_cp_tithed :: u32
  am_gender :: u8
  am_heritage_group :: u8
  am_may_passup_experience :: bool

definition member_read :: "u32 \<Rightarrow> allegiance_member pr" where
  "member_read parent_guid =
     rd_bind pr_u32 (\<lambda>character_id.
     rd_bind pr_u32 (\<lambda>cp_cached.
     rd_bind pr_u32 (\<lambda>cp_tithed.
     rd_bind pr_u32 (\<lambda>bits.
     rd_bind pr_u8 (\<lambda>gender.
     rd_bind pr_u8 (\<lambda>heritage_group.
     rd_bind pr_u16 (\<lambda>rank.
     rd_bind (if bits AND HAS_PACKED_LEVEL \<noteq> 0 then pr_u32 else rd_ret 0) (\<lambda>level.
     rd_bind pr_u16 (\<lambda>loyalty.
     rd_bind pr_u16 (\<lambda>leadership.
     rd_bind (pr_skip 8) (\<lambda>_.
     rd_bind read_string (\<lambda>name.
     rd_ret
       \<lparr>am_character_id = character_id, am_parent_guid = parent_guid, am_is_logged_in = (bits AND LOGGED_IN \<noteq> 0),
        am_name = name, am_rank = rank, am_level = level, am_loyalty = loyalty, am_leadership = leadership,
        am_cp_cached = cp_cached, am_cp_tithed = cp_tithed, am_gender = gender, am_heritage_group = heritage_group,
        am_may_passup_experience = (bits AND MAY_PASSUP_EXPERIENCE \<noteq> 0 \<or> bits AND HAS_PACKED_LEVEL = 0)\<rparr>))))))))))))"

section \<open>The profile\<close>

record allegiance_profile =
  ap_total_members :: u32
  ap_total_vassals :: u32
  ap_record_count :: u16
  ap_old_version :: u16
  ap_motd :: rstring
  ap_motd_set_by :: rstring
  ap_chat_room_id :: u32
  ap_allegiance_name :: rstring
  ap_name_last_set_time :: u32
  ap_is_locked :: bool
  ap_approved_vassal :: u32
  ap_monarch :: "allegiance_member option"
  ap_records :: "allegiance_member list"

text \<open>A field of later record versions, its default before.\<close>

definition since :: "bool \<Rightarrow> 'a \<Rightarrow> 'a pr \<Rightarrow> 'a pr" where
  "since present unset f = (if present then f else rd_ret unset)"

text \<open>The officers of version 6 and up, the spokesperson of older ones.\<close>

definition skip_officers :: "u16 \<Rightarrow> unit pr" where
  "skip_officers version =
     (if version \<ge> 6 then
        rd_bind pr_u16 (\<lambda>count. rd_bind pr_u16 (\<lambda>buckets. pr_skip (unat count * 8)))
      else if version \<ge> 1 then pr_skip 4
      else rd_ret ())"

definition skip_titles :: "u16 \<Rightarrow> unit pr" where
  "skip_titles version =
     since (version \<ge> 9) ()
       (rd_bind pr_i32 (\<lambda>count.
        if sint count > 0 then
          rd_bind (check_count count 2 ''allegiance officer titles'') (\<lambda>_.
          rd_bind (pr_times (nat (sint count)) read_string) (\<lambda>_. rd_ret ()))
        else rd_ret ()))"

text \<open>The loop over the records after the monarch's: \<open>known\<close> holds the ids read so far.\<close>

fun read_records :: "nat \<Rightarrow> u32 set \<Rightarrow> allegiance_member list pr" where
  "read_records 0 known = rd_ret []"
| "read_records (Suc n) known =
     rd_bind pr_u32 (\<lambda>parent.
     rd_bind (member_read parent) (\<lambda>record.
     if am_character_id record = 0 \<or> parent \<notin> known \<or> parent = am_character_id record \<or> am_character_id record \<in> known
     then rd_fail (Inconsistent ''allegiance tree'')
     else rd_bind (read_records n (insert (am_character_id record) known)) (\<lambda>records. rd_ret (record # records))))"

definition read_tree :: "u16 \<Rightarrow> (allegiance_member option \<times> allegiance_member list) pr" where
  "read_tree record_count =
     (if record_count > 0 then
        rd_bind (member_read 0) (\<lambda>monarch.
        if am_character_id monarch = 0 then rd_fail (Inconsistent ''allegiance tree'')
        else
        rd_bind (read_records (unat record_count - 1) {am_character_id monarch}) (\<lambda>records.
        rd_ret (Some (monarch\<lparr>am_may_passup_experience := False\<rparr>), records)))
      else rd_ret (None, []))"

definition profile_read :: "allegiance_profile pr" where
  "profile_read =
     rd_bind pr_u32 (\<lambda>total_members.
     rd_bind pr_u32 (\<lambda>total_vassals.
     rd_bind pr_u16 (\<lambda>record_count.
     rd_bind pr_u16 (\<lambda>version.
     rd_bind (skip_officers version) (\<lambda>_.
     rd_bind (skip_titles version) (\<lambda>_.
     rd_bind (since (version \<ge> 2) () (pr_skip 16)) (\<lambda>_.
     rd_bind (since (version \<ge> 3) [] read_string) (\<lambda>motd.
     rd_bind (since (version \<ge> 3) [] read_string) (\<lambda>motd_set_by.
     rd_bind (since (version \<ge> 4) 0 pr_u32) (\<lambda>chat_room_id.
     rd_bind (since (version \<ge> 7) () (pr_skip 32)) (\<lambda>_.
     rd_bind (since (version \<ge> 8) [] read_string) (\<lambda>allegiance_name.
     rd_bind (since (version \<ge> 8) 0 pr_u32) (\<lambda>name_last_set_time.
     rd_bind (since (version \<ge> 10) False read_bool32) (\<lambda>is_locked.
     rd_bind (since (version \<ge> 11) 0 pr_u32) (\<lambda>approved_vassal.
     rd_bind (read_tree record_count) (\<lambda>(monarch, records).
     rd_ret
       \<lparr>ap_total_members = total_members, ap_total_vassals = total_vassals, ap_record_count = record_count,
        ap_old_version = version, ap_motd = motd, ap_motd_set_by = motd_set_by, ap_chat_room_id = chat_room_id,
        ap_allegiance_name = allegiance_name, ap_name_last_set_time = name_last_set_time, ap_is_locked = is_locked,
        ap_approved_vassal = approved_vassal, ap_monarch = monarch, ap_records = records\<rparr>))))))))))))))))"

section \<open>Walks\<close>

definition all_members :: "allegiance_profile \<Rightarrow> allegiance_member list" where
  "all_members p = (case ap_monarch p of None \<Rightarrow> [] | Some m \<Rightarrow> [m]) @ ap_records p"

definition find_data :: "u32 \<Rightarrow> allegiance_profile \<Rightarrow> allegiance_member option" where
  "find_data guid p = find (\<lambda>m. am_character_id m = guid) (all_members p)"

definition find_patron :: "u32 \<Rightarrow> allegiance_profile \<Rightarrow> allegiance_member option" where
  "find_patron guid p =
     (if (case ap_monarch p of None \<Rightarrow> False | Some m \<Rightarrow> am_character_id m = guid) then None
      else case find (\<lambda>m. am_character_id m = guid) (ap_records p) of
             None \<Rightarrow> None
           | Some record \<Rightarrow> find_data (am_parent_guid record) p)"

definition find_vassals :: "u32 \<Rightarrow> allegiance_profile \<Rightarrow> allegiance_member list" where
  "find_vassals guid p = filter (\<lambda>m. am_parent_guid m = guid) (rev (ap_records p))"

section \<open>Events\<close>

record allegiance_update =
  au_rank :: u32
  au_profile :: allegiance_profile

definition allegiance_update_parse :: "bytes \<Rightarrow> proto_error + allegiance_update" where
  "allegiance_update_parse =
     parse_body (rd_bind pr_u32 (\<lambda>rank. rd_bind profile_read (\<lambda>profile. rd_ret \<lparr>au_rank = rank, au_profile = profile\<rparr>)))"

record allegiance_info_response =
  ai_target_guid :: u32
  ai_profile :: allegiance_profile

definition allegiance_info_parse :: "bytes \<Rightarrow> proto_error + allegiance_info_response" where
  "allegiance_info_parse =
     parse_body (rd_bind pr_u32 (\<lambda>target_guid. rd_bind profile_read (\<lambda>profile.
       rd_ret \<lparr>ai_target_guid = target_guid, ai_profile = profile\<rparr>)))"

record allegiance_login_notification =
  al_character_guid :: u32
  al_is_logged_in :: bool

definition allegiance_login_parse :: "bytes \<Rightarrow> proto_error + allegiance_login_notification" where
  "allegiance_login_parse =
     parse_body (rd_bind pr_u32 (\<lambda>character_guid. rd_bind read_bool32 (\<lambda>is_logged_in.
       rd_ret \<lparr>al_character_guid = character_guid, al_is_logged_in = is_logged_in\<rparr>)))"

definition parse_update_result :: "bytes \<Rightarrow> proto_error + u32" where
  "parse_update_result = parse_body pr_u32"

section \<open>What the reader keeps\<close>

abbreviation member_id :: "allegiance_member \<Rightarrow> u32" where
  "member_id \<equiv> am_character_id"

text \<open>Records that each name a patron among the ids before.\<close>

fun tree_from :: "u32 set \<Rightarrow> allegiance_member list \<Rightarrow> bool" where
  "tree_from known [] \<longleftrightarrow> True"
| "tree_from known (m # ms) \<longleftrightarrow>
     member_id m \<noteq> 0 \<and> member_id m \<notin> known \<and> am_parent_guid m \<in> known \<and> tree_from (insert (member_id m) known) ms"

lemma member_read_parent: "member_read parent r = (Inr m, r') \<Longrightarrow> am_parent_guid m = parent"
  unfolding member_read_def bind_Inr by (auto simp: rd_ret_def)

lemma read_records_tree:
  "read_records n known r = (Inr ms, r') \<Longrightarrow> length ms = n \<and> tree_from known ms"
proof (induction n arbitrary: known r ms r')
  case 0
  then show ?case by (simp add: rd_ret_def)
next
  case (Suc n)
  from Suc.prems obtain parent r1 m r2 where 1: "member_read parent r1 = (Inr m, r2)" and
    2: "(if member_id m = 0 \<or> parent \<notin> known \<or> parent = member_id m \<or> member_id m \<in> known
         then rd_fail (Inconsistent ''allegiance tree'')
         else rd_bind (read_records n (insert (member_id m) known)) (\<lambda>records. rd_ret (m # records))) r2 = (Inr ms, r')"
    by (auto simp: bind_Inr)
  from 2 obtain ms' r3 where 3: "member_id m \<noteq> 0" "parent \<in> known" "member_id m \<notin> known"
    "read_records n (insert (member_id m) known) r2 = (Inr ms', r3)" "ms = m # ms'"
    by (auto simp: bind_Inr rd_fail_def rd_ret_def split: if_splits)
  from Suc.IH [OF 3(4)] 3 member_read_parent [OF 1] show ?case by simp
qed

definition profile_ok :: "allegiance_profile \<Rightarrow> bool" where
  "profile_ok p \<longleftrightarrow>
     length (all_members p) = unat (ap_record_count p) \<and>
     (case ap_monarch p of
        None \<Rightarrow> ap_records p = []
      | Some m \<Rightarrow> member_id m \<noteq> 0 \<and> am_parent_guid m = 0 \<and> \<not> am_may_passup_experience m \<and>
                   tree_from {member_id m} (ap_records p))"

lemma read_tree_ok:
  assumes "read_tree n r = (Inr (monarch, records), r')"
  shows "(case monarch of
       None \<Rightarrow> n = 0 \<and> records = []
     | Some m \<Rightarrow> length records + 1 = unat n \<and> member_id m \<noteq> 0 \<and> am_parent_guid m = 0 \<and>
         \<not> am_may_passup_experience m \<and> tree_from {member_id m} records)"
proof (cases "n > 0")
  case False
  then show ?thesis using assms by (auto simp: read_tree_def rd_ret_def word_neq_0_conv [symmetric])
next
  case True
  from assms True obtain m r1 where 1: "member_read 0 r = (Inr m, r1)" and
    2: "(if member_id m = 0 then rd_fail (Inconsistent ''allegiance tree'')
         else rd_bind (read_records (unat n - 1) {member_id m})
           (\<lambda>records. rd_ret (Some (m\<lparr>am_may_passup_experience := False\<rparr>), records))) r1 = (Inr (monarch, records), r')"
    by (auto simp: read_tree_def bind_Inr)
  from 2 obtain r2 where 3: "member_id m \<noteq> 0" "read_records (unat n - 1) {member_id m} r1 = (Inr records, r2)"
    "monarch = Some (m\<lparr>am_may_passup_experience := False\<rparr>)"
    by (auto simp: bind_Inr rd_fail_def rd_ret_def split: if_splits)
  have "0 < unat n" using True by (simp add: word_less_nat_alt)
  then show ?thesis using read_records_tree [OF 3(2)] member_read_parent [OF 1] 3(1,3) by auto
qed

lemma profile_read_ok: "profile_read r = (Inr p, r') \<Longrightarrow> profile_ok p"
  unfolding profile_read_def bind_Inr
  by (auto simp: rd_ret_def profile_ok_def all_members_def dest!: read_tree_ok split: option.splits)

section \<open>The tree\<close>

lemma tree_ids:
  "tree_from known ms \<Longrightarrow>
     distinct (map member_id ms) \<and> set (map member_id ms) \<inter> known = {} \<and> 0 \<notin> set (map member_id ms)"
  by (induction known ms rule: tree_from.induct) auto

lemma tree_parent:
  "tree_from known ms \<Longrightarrow> i < length ms \<Longrightarrow>
     am_parent_guid (ms ! i) \<in> known \<union> set (map member_id (take i ms))"
proof (induction known ms arbitrary: i rule: tree_from.induct)
  case (2 known m ms)
  then show ?case by (cases i) auto
qed simp

text \<open>Going up: the ids of one's patrons in turn, the monarch staying where it is.\<close>

fun climb :: "allegiance_profile \<Rightarrow> nat \<Rightarrow> u32 \<Rightarrow> u32" where
  "climb p 0 guid = guid"
| "climb p (Suc n) guid = (case find_patron guid p of None \<Rightarrow> guid | Some m \<Rightarrow> climb p n (member_id m))"

lemma find_unique: "distinct (map f xs) \<Longrightarrow> x \<in> set xs \<Longrightarrow> find (\<lambda>y. f y = f x) xs = Some x"
  by (induction xs) (auto simp: image_iff)

lemma find_missing: "a \<notin> set (map f xs) \<Longrightarrow> find (\<lambda>y. f y = a) xs = None"
  by (auto simp: find_None_iff)

lemma ok_members:
  assumes "profile_ok p"
  shows "distinct (map member_id (all_members p))" "0 \<notin> set (map member_id (all_members p))"
  using assms tree_ids by (fastforce simp: profile_ok_def all_members_def split: option.splits)+

lemma data_of:
  assumes "profile_ok p"
  shows "find_data guid p = Some m \<longleftrightarrow> m \<in> set (all_members p) \<and> member_id m = guid"
proof
  assume "find_data guid p = Some m"
  then show "m \<in> set (all_members p) \<and> member_id m = guid" by (auto simp: find_data_def find_Some_iff)
next
  assume "m \<in> set (all_members p) \<and> member_id m = guid"
  then show "find_data guid p = Some m"
    using find_unique [OF ok_members(1) [OF assms], of m] by (auto simp: find_data_def)
qed

lemma patron_of_record:
  assumes "profile_ok p" "ap_monarch p = Some k" "v \<in> set (ap_records p)"
  shows "\<exists>m. find_patron (member_id v) p = Some m \<and> member_id m = am_parent_guid v"
proof -
  have t: "tree_from {member_id k} (ap_records p)" using assms(1,2) by (simp add: profile_ok_def)
  have ne: "member_id k \<noteq> member_id v" using tree_ids [OF t] assms(3) by auto
  have f: "find (\<lambda>m. member_id m = member_id v) (ap_records p) = Some v"
    using find_unique [OF _ assms(3)] tree_ids [OF t] by blast
  obtain i where i: "i < length (ap_records p)" "v = ap_records p ! i" using assms(3) by (auto simp: in_set_conv_nth)
  have "am_parent_guid v \<in> set (map member_id (all_members p))"
    using tree_parent [OF t i(1)] i(2) assms(2) by (auto simp: all_members_def dest: in_set_takeD)
  then obtain m where "m \<in> set (all_members p)" "member_id m = am_parent_guid v" by auto
  then have "find_data (am_parent_guid v) p = Some m" using data_of [OF assms(1)] by blast
  then show ?thesis using ne f \<open>member_id m = am_parent_guid v\<close> by (simp add: find_patron_def assms(2))
qed

lemma patron_of_monarch: "ap_monarch p = Some k \<Longrightarrow> find_patron (member_id k) p = None"
  by (simp add: find_patron_def)

lemma climb_monarch: "ap_monarch p = Some k \<Longrightarrow> climb p n (member_id k) = member_id k"
  by (cases n) (simp_all add: patron_of_monarch)

lemma climb_record:
  assumes "profile_ok p" "ap_monarch p = Some k"
  shows "i < length (ap_records p) \<Longrightarrow> i < n \<Longrightarrow> climb p n (member_id (ap_records p ! i)) = member_id k"
proof (induction i arbitrary: n rule: less_induct)
  case (less i)
  have t: "tree_from {member_id k} (ap_records p)" using assms by (simp add: profile_ok_def)
  obtain n' where n: "n = Suc n'" using less.prems(2) by (cases n) auto
  obtain m where m: "find_patron (member_id (ap_records p ! i)) p = Some m" "member_id m = am_parent_guid (ap_records p ! i)"
    using patron_of_record [OF assms] less.prems(1) by (meson nth_mem)
  have "climb p n' (member_id m) = member_id k"
  proof (cases "member_id m = member_id k")
    case True
    then show ?thesis using climb_monarch [OF assms(2)] by simp
  next
    case False
    then have "member_id m \<in> set (map member_id (take i (ap_records p)))"
      using tree_parent [OF t less.prems(1)] m(2) by auto
    then obtain j where j: "j < i" "member_id (ap_records p ! j) = member_id m"
      using less.prems(1) by (auto simp: in_set_conv_nth)
    have "climb p n' (member_id (ap_records p ! j)) = member_id k"
      by (rule less.IH [OF j(1)]) (use j less.prems n in auto)
    then show ?thesis using j(2) by simp
  qed
  then show ?case by (simp add: n m(1))
qed

text \<open>
  C12. Every allegiance the client keeps is a tree: it has as many members as its message counts, all with
  different ids other than zero; from every member the patrons lead to the monarch in at most as many steps as
  there are other records; and walking down agrees with walking up, since a record is among the vassals
  of exactly the member that is found as its patron.
\<close>

theorem allegiance_is_a_tree:
  assumes "allegiance_update_parse payload = Inr u"
  shows "let p = au_profile u in
    length (all_members p) = unat (ap_record_count p) \<and>
    distinct (map am_character_id (all_members p)) \<and> 0 \<notin> set (map am_character_id (all_members p)) \<and>
    (\<forall>m\<in>set (all_members p). \<exists>k. ap_monarch p = Some k \<and>
       climb p (length (ap_records p)) (am_character_id m) = am_character_id k) \<and>
    (\<forall>m\<in>set (all_members p). \<forall>v\<in>set (ap_records p).
       v \<in> set (find_vassals (am_character_id m) p) \<longleftrightarrow> find_patron (am_character_id v) p = Some m)"
proof -
  have ok: "profile_ok (au_profile u)"
    using assms unfolding allegiance_update_parse_def parse_body_def
    by (auto simp: rd_bind_def rd_ret_def split: prod.splits sum.splits dest: profile_read_ok)
  define p where "p = au_profile u"
  have ok: "profile_ok p" using ok by (simp add: p_def)
  have up: "\<exists>k. ap_monarch p = Some k \<and> climb p (length (ap_records p)) (member_id m) = member_id k"
    if m: "m \<in> set (all_members p)" for m
  proof (cases "ap_monarch p")
    case None
    then show ?thesis using m ok by (simp add: all_members_def profile_ok_def)
  next
    case (Some k)
    show ?thesis
    proof (cases "m = k")
      case True
      then show ?thesis using Some climb_monarch [OF Some] by simp
    next
      case False
      then obtain i where "i < length (ap_records p)" "m = ap_records p ! i"
        using m Some by (auto simp: all_members_def in_set_conv_nth)
      then show ?thesis using climb_record [OF ok Some, of i "length (ap_records p)"] Some by simp
    qed
  qed
  have down: "v \<in> set (find_vassals (member_id m) p) \<longleftrightarrow> find_patron (member_id v) p = Some m"
    if m: "m \<in> set (all_members p)" and v: "v \<in> set (ap_records p)" for m v
  proof -
    obtain k where k: "ap_monarch p = Some k" using up [OF m] by blast
    obtain w where w: "find_patron (member_id v) p = Some w" "member_id w = am_parent_guid v"
      using patron_of_record [OF ok k v] by blast
    then have "w \<in> set (all_members p)"
      using data_of [OF ok] by (auto simp: find_patron_def split: option.splits if_splits)
    then have "w = m \<longleftrightarrow> member_id w = member_id m"
      using ok_members(1) [OF ok] m by (auto simp: distinct_map dest: inj_onD)
    then show ?thesis using w v by (auto simp: find_vassals_def)
  qed
  show ?thesis
    unfolding Let_def p_def [symmetric] using ok ok_members [OF ok] up down by (auto simp: profile_ok_def)
qed

text \<open>A monarch and a vassal, in a version 0 record.\<close>

definition plain_member :: "u32 \<Rightarrow> u32 \<Rightarrow> bool \<Rightarrow> allegiance_member" where
  "plain_member character_id parent may =
     \<lparr>am_character_id = character_id, am_parent_guid = parent, am_is_logged_in = False, am_name = [], am_rank = 1, am_level = 0,
      am_loyalty = 0, am_leadership = 0, am_cp_cached = 0, am_cp_tithed = 0, am_gender = 0, am_heritage_group = 0,
      am_may_passup_experience = may\<rparr>"

definition plain_member_bytes :: "u32 \<Rightarrow> bytes" where
  "plain_member_bytes character_id =
     le_bytes 4 character_id @ le_bytes 4 (0 :: u32) @ le_bytes 4 (0 :: u32) @ le_bytes 4 (0 :: u32) @ le_bytes 1 (0 :: u8) @
     le_bytes 1 (0 :: u8) @ le_bytes 2 (1 :: u16) @ le_bytes 2 (0 :: u16) @ le_bytes 2 (0 :: u16) @ replicate 8 0 @ string16l_enc []"

lemmas member_fields = parses_next [OF _ parses_pr_ints(1)] parses_next [OF _ parses_pr_ints(2)]
  parses_next [OF _ parses_pr_ints(3)] parses_next [OF _ parses_pr_skip]

lemma parses_plain_member: "parses (member_read parent) (plain_member_bytes i) (plain_member i parent True)"
  unfolding member_read_def plain_member_bytes_def plain_member_def
  by (rule member_fields, rule refl)+
     (auto intro!: member_fields parses_next [OF _ parses_ret] parses_bind_nil [OF parses_read_string] parses_eq [OF parses_ret]
       simp: HAS_PACKED_LEVEL_def LOGGED_IN_def MAY_PASSUP_EXPERIENCE_def cp_decode_def)

definition small_allegiance :: allegiance_profile where
  "small_allegiance =
     \<lparr>ap_total_members = 2, ap_total_vassals = 1, ap_record_count = 2, ap_old_version = 0, ap_motd = [], ap_motd_set_by = [],
      ap_chat_room_id = 0, ap_allegiance_name = [], ap_name_last_set_time = 0, ap_is_locked = False, ap_approved_vassal = 0,
      ap_monarch = Some (plain_member 7 0 False), ap_records = [plain_member 8 7 True]\<rparr>"

definition small_allegiance_bytes :: bytes where
  "small_allegiance_bytes =
     le_bytes 4 (2 :: u32) @ le_bytes 4 (1 :: u32) @ le_bytes 2 (2 :: u16) @ le_bytes 2 (0 :: u16) @
     plain_member_bytes 7 @ le_bytes 4 (7 :: u32) @ plain_member_bytes 8"

lemma plain_member_simps [simp]:
  "am_character_id (plain_member i p b) = i" "am_parent_guid (plain_member i p b) = p"
  "(plain_member i p b)\<lparr>am_may_passup_experience := b'\<rparr> = plain_member i p b'"
  by (simp_all add: plain_member_def)

lemma parses_small_tree:
  "parses (read_tree 2) (plain_member_bytes 7 @ le_bytes 4 (7 :: u32) @ plain_member_bytes 8)
     (Some (plain_member 7 0 False), [plain_member 8 7 True])"
proof -
  have "parses (read_records 1 {7}) (le_bytes 4 (7 :: u32) @ plain_member_bytes 8) [plain_member 8 7 True]"
    unfolding One_nat_def read_records.simps
    by (rule parses_next [OF refl parses_pr_ints(3)], rule parses_bind_nil [OF parses_plain_member])
       (simp add: parses_ret)
  then show ?thesis
    unfolding read_tree_def
    by (simp, intro parses_next [OF refl parses_plain_member], simp)
       (rule parses_bind_nil, assumption, simp add: parses_ret)
qed

lemma small_allegiance_read:
  "allegiance_update_parse (le_bytes 4 (3 :: u32) @ small_allegiance_bytes) = Inr \<lparr>au_rank = 3, au_profile = small_allegiance\<rparr>"
proof -
  have "parses profile_read small_allegiance_bytes small_allegiance"
    unfolding profile_read_def small_allegiance_bytes_def small_allegiance_def
    by (rule member_fields, rule refl)+
       (simp add: skip_officers_def skip_titles_def since_def, rule parses_bind_nil [OF parses_small_tree], simp add: parses_ret)
  then have "parses (rd_bind pr_u32 (\<lambda>rank. rd_bind profile_read (\<lambda>profile. rd_ret \<lparr>au_rank = rank, au_profile = profile\<rparr>)))
      (le_bytes 4 (3 :: u32) @ small_allegiance_bytes) \<lparr>au_rank = 3, au_profile = small_allegiance\<rparr>"
    by (rule parses_next [OF refl parses_pr_ints(3) parses_bind_nil]) (simp add: parses_ret)
  from parses_body [OF this, of "[]"] show ?thesis by (simp add: allegiance_update_parse_def)
qed

theorem allegiance_is_a_tree_witness:
  "\<exists>u. allegiance_update_parse (le_bytes 4 (3 :: u32) @ small_allegiance_bytes) = Inr u \<and>
     climb (au_profile u) 1 8 = 7 \<and> find_patron 8 (au_profile u) = Some (plain_member 7 0 False)"
proof -
  note t = allegiance_is_a_tree [OF small_allegiance_read, unfolded Let_def]
  have m: "all_members small_allegiance = [plain_member 7 0 False, plain_member 8 7 True]"
    "ap_records small_allegiance = [plain_member 8 7 True]" "ap_monarch small_allegiance = Some (plain_member 7 0 False)"
    by (simp_all add: all_members_def small_allegiance_def)
  have "climb small_allegiance 1 8 = 7" using t m by (simp del: climb.simps)
  moreover have "find_patron 8 small_allegiance = Some (plain_member 7 0 False)"
    using t m by (simp add: find_vassals_def)
  ultimately show ?thesis using small_allegiance_read by auto
qed

end
