(* ===== verification/Object_Messages.thy ===== *)
theory Object_Messages
  imports Proto_Wire
begin

text \<open>
  The messages about objects in the world, from \<open>crates/ac-proto/src\<close>: \<open>geometry.rs\<close>, \<open>object_events.rs\<close>,
  \<open>update_position.rs\<close>, \<open>movement.rs\<close>, \<open>update_motion.rs\<close>, \<open>model_data.rs\<close>, \<open>obj_desc_event.rs\<close>,
  \<open>inventory_update.rs\<close> and \<open>effects.rs\<close>. Each message is a record and the reader of its body. A float is
  its bit pattern, a signed integer the word that holds it.
\<close>

section \<open>Geometry\<close>

record vector3 =
  v3_x :: u32
  v3_y :: u32
  v3_z :: u32

definition vector3_read :: "vector3 pr" where
  "vector3_read =
     rd_bind pr_f32 (\<lambda>x.
     rd_bind pr_f32 (\<lambda>y.
     rd_bind pr_f32 (\<lambda>z.
     rd_ret \<lparr>v3_x = x, v3_y = y, v3_z = z\<rparr>)))"

record quaternion =
  qn_w :: u32
  qn_x :: u32
  qn_y :: u32
  qn_z :: u32

definition quaternion_read :: "quaternion pr" where
  "quaternion_read =
     rd_bind pr_f32 (\<lambda>w.
     rd_bind pr_f32 (\<lambda>x.
     rd_bind pr_f32 (\<lambda>y.
     rd_bind pr_f32 (\<lambda>z.
     rd_ret \<lparr>qn_w = w, qn_x = x, qn_y = y, qn_z = z\<rparr>))))"

record wire_position =
  wp_cell_id :: u32
  wp_origin :: vector3
  wp_orientation :: quaternion

definition position_read :: "wire_position pr" where
  "position_read =
     rd_bind pr_u32 (\<lambda>cell_id.
     rd_bind vector3_read (\<lambda>origin.
     rd_bind quaternion_read (\<lambda>orientation.
     rd_ret \<lparr>wp_cell_id = cell_id, wp_origin = origin, wp_orientation = orientation\<rparr>)))"

section \<open>Small messages\<close>

record delete_object =
  do_guid :: u32
  do_instance_sequence :: u16

definition delete_object_read :: "delete_object pr" where
  "delete_object_read =
     rd_bind (expect_opcode OP_DeleteObject) (\<lambda>_.
     rd_bind pr_u32 (\<lambda>guid.
     rd_bind pr_u16 (\<lambda>instance_sequence.
     rd_ret \<lparr>do_guid = guid, do_instance_sequence = instance_sequence\<rparr>)))"

record pickup_event =
  pk_guid :: u32
  pk_instance_sequence :: u16
  pk_position_sequence :: u16

definition pickup_event_read :: "pickup_event pr" where
  "pickup_event_read =
     rd_bind (expect_opcode OP_PickupEvent) (\<lambda>_.
     rd_bind pr_u32 (\<lambda>guid.
     rd_bind pr_u16 (\<lambda>instance_sequence.
     rd_bind pr_u16 (\<lambda>position_sequence.
     rd_ret \<lparr>pk_guid = guid, pk_instance_sequence = instance_sequence, pk_position_sequence = position_sequence\<rparr>))))"

record parent_event =
  pv_parent_guid :: u32
  pv_child_guid :: u32
  pv_parent_location :: u32
  pv_placement_id :: u32
  pv_parent_instance_sequence :: u16
  pv_child_position_sequence :: u16

definition parent_event_read :: "parent_event pr" where
  "parent_event_read =
     rd_bind (expect_opcode OP_ParentEvent) (\<lambda>_.
     rd_bind pr_u32 (\<lambda>parent_guid.
     rd_bind pr_u32 (\<lambda>child_guid.
     rd_bind pr_u32 (\<lambda>parent_location.
     rd_bind pr_u32 (\<lambda>placement_id.
     rd_bind pr_u16 (\<lambda>parent_instance_sequence.
     rd_bind pr_u16 (\<lambda>child_position_sequence.
     rd_ret \<lparr>pv_parent_guid = parent_guid, pv_child_guid = child_guid, pv_parent_location = parent_location,
              pv_placement_id = placement_id, pv_parent_instance_sequence = parent_instance_sequence,
              pv_child_position_sequence = child_position_sequence\<rparr>)))))))"

record set_state =
  ss_guid :: u32
  ss_physics_state :: u32
  ss_instance_sequence :: u16
  ss_state_sequence :: u16

definition set_state_read :: "set_state pr" where
  "set_state_read =
     rd_bind (expect_opcode OP_SetState) (\<lambda>_.
     rd_bind pr_u32 (\<lambda>guid.
     rd_bind pr_u32 (\<lambda>physics_state.
     rd_bind pr_u16 (\<lambda>instance_sequence.
     rd_bind pr_u16 (\<lambda>state_sequence.
     rd_ret \<lparr>ss_guid = guid, ss_physics_state = physics_state, ss_instance_sequence = instance_sequence,
              ss_state_sequence = state_sequence\<rparr>)))))"

record vector_update =
  vu_guid :: u32
  vu_velocity :: vector3
  vu_omega :: vector3
  vu_instance_sequence :: u16
  vu_vector_sequence :: u16

definition vector_update_read :: "vector_update pr" where
  "vector_update_read =
     rd_bind (expect_opcode OP_VectorUpdate) (\<lambda>_.
     rd_bind pr_u32 (\<lambda>guid.
     rd_bind vector3_read (\<lambda>velocity.
     rd_bind vector3_read (\<lambda>omega.
     rd_bind pr_u16 (\<lambda>instance_sequence.
     rd_bind pr_u16 (\<lambda>vector_sequence.
     rd_ret \<lparr>vu_guid = guid, vu_velocity = velocity, vu_omega = omega,
              vu_instance_sequence = instance_sequence, vu_vector_sequence = vector_sequence\<rparr>))))))"

record player_teleport =
  pt_teleport_sequence :: u16

definition player_teleport_read :: "player_teleport pr" where
  "player_teleport_read =
     rd_bind (expect_opcode OP_PlayerTeleport) (\<lambda>_.
     rd_bind pr_u16 (\<lambda>teleport_sequence.
     rd_ret \<lparr>pt_teleport_sequence = teleport_sequence\<rparr>))"

record set_stack_size =
  sk_sequence :: u8
  sk_guid :: u32
  sk_stack_size :: u32
  sk_value :: u32

definition set_stack_size_read :: "set_stack_size pr" where
  "set_stack_size_read =
     rd_bind (expect_opcode OP_SetStackSize) (\<lambda>_.
     rd_bind pr_u8 (\<lambda>sequence.
     rd_bind pr_u32 (\<lambda>guid.
     rd_bind pr_i32 (\<lambda>stack_size.
     rd_bind pr_i32 (\<lambda>value.
     rd_ret \<lparr>sk_sequence = sequence, sk_guid = guid, sk_stack_size = stack_size, sk_value = value\<rparr>)))))"

record inventory_remove_object =
  ir_guid :: u32

definition inventory_remove_object_read :: "inventory_remove_object pr" where
  "inventory_remove_object_read =
     rd_bind (expect_opcode OP_InventoryRemoveObject) (\<lambda>_.
     rd_bind pr_u32 (\<lambda>guid.
     rd_ret \<lparr>ir_guid = guid\<rparr>))"

record sound_event =
  se_guid :: u32
  se_sound_type :: u32
  se_volume :: u32

definition sound_event_read :: "sound_event pr" where
  "sound_event_read =
     rd_bind (expect_opcode OP_SoundEvent) (\<lambda>_.
     rd_bind pr_u32 (\<lambda>guid.
     rd_bind pr_u32 (\<lambda>sound_type.
     rd_bind pr_f32 (\<lambda>volume.
     rd_ret \<lparr>se_guid = guid, se_sound_type = sound_type, se_volume = volume\<rparr>))))"

record play_script =
  ps_guid :: u32
  ps_script_id :: u32

definition play_script_read :: "play_script pr" where
  "play_script_read =
     rd_bind (expect_opcode OP_PlayScript) (\<lambda>_.
     rd_bind pr_u32 (\<lambda>guid.
     rd_bind pr_u32 (\<lambda>script_id.
     rd_ret \<lparr>ps_guid = guid, ps_script_id = script_id\<rparr>)))"

record play_script_type =
  py_guid :: u32
  py_script_type :: u32
  py_intensity :: u32

definition play_script_type_read :: "play_script_type pr" where
  "play_script_type_read =
     rd_bind (expect_opcode OP_PlayScriptType) (\<lambda>_.
     rd_bind pr_u32 (\<lambda>guid.
     rd_bind pr_u32 (\<lambda>script_type.
     rd_bind pr_f32 (\<lambda>intensity.
     rd_ret \<lparr>py_guid = guid, py_script_type = script_type, py_intensity = intensity\<rparr>))))"

record admin_environs =
  ae_environ_type :: u32

definition admin_environs_read :: "admin_environs pr" where
  "admin_environs_read =
     rd_bind (expect_opcode OP_AdminEnvirons) (\<lambda>_.
     rd_bind pr_u32 (\<lambda>environ_type.
     rd_ret \<lparr>ae_environ_type = environ_type\<rparr>))"

text \<open>The two script messages have one length only.\<close>

definition check_exact :: "bytes \<Rightarrow> nat \<Rightarrow> string \<Rightarrow> proto_error + unit" where
  "check_exact body body_size what = (if length body = body_size then Inr () else Inl (InvalidLength what (length body)))"

definition play_script_parse :: "bytes \<Rightarrow> proto_error + play_script" where
  "play_script_parse body =
     ok_then (check_exact body 12 ''play script'') (\<lambda>_. parse_body play_script_read body)"

definition play_script_type_parse :: "bytes \<Rightarrow> proto_error + play_script_type" where
  "play_script_type_parse body =
     ok_then (check_exact body 16 ''play script type'') (\<lambda>_. parse_body play_script_type_read body)"

section \<open>Positions\<close>

definition POSITION_HAS_VELOCITY :: u32 where "POSITION_HAS_VELOCITY = 0x01"
definition POSITION_HAS_PLACEMENT_ID :: u32 where "POSITION_HAS_PLACEMENT_ID = 0x02"
definition POSITION_IS_GROUNDED :: u32 where "POSITION_IS_GROUNDED = 0x04"
definition POSITION_ORIENTATION_HAS_NO_W :: u32 where "POSITION_ORIENTATION_HAS_NO_W = 0x08"
definition POSITION_ORIENTATION_HAS_NO_X :: u32 where "POSITION_ORIENTATION_HAS_NO_X = 0x10"
definition POSITION_ORIENTATION_HAS_NO_Y :: u32 where "POSITION_ORIENTATION_HAS_NO_Y = 0x20"
definition POSITION_ORIENTATION_HAS_NO_Z :: u32 where "POSITION_ORIENTATION_HAS_NO_Z = 0x40"

record update_position =
  up_guid :: u32
  up_flags :: u32
  up_position :: wire_position
  up_velocity :: "vector3 option"
  up_placement_id :: "u32 option"
  up_instance_sequence :: u16
  up_position_sequence :: u16
  up_teleport_sequence :: u16
  up_force_position_sequence :: u16

definition is_grounded :: "update_position \<Rightarrow> bool" where
  "is_grounded u \<longleftrightarrow> up_flags u AND POSITION_IS_GROUNDED \<noteq> 0"

definition orientation_component :: "u32 \<Rightarrow> u32 \<Rightarrow> u32 pr" where
  "orientation_component flags omitted = (if flags AND omitted = 0 then pr_f32 else rd_ret 0)"

definition update_position_read :: "update_position pr" where
  "update_position_read =
     rd_bind (expect_opcode OP_UpdatePosition) (\<lambda>_.
     rd_bind pr_u32 (\<lambda>guid.
     rd_bind pr_u32 (\<lambda>flags.
     rd_bind pr_u32 (\<lambda>cell_id.
     rd_bind vector3_read (\<lambda>origin.
     rd_bind (orientation_component flags POSITION_ORIENTATION_HAS_NO_W) (\<lambda>w.
     rd_bind (orientation_component flags POSITION_ORIENTATION_HAS_NO_X) (\<lambda>x.
     rd_bind (orientation_component flags POSITION_ORIENTATION_HAS_NO_Y) (\<lambda>y.
     rd_bind (orientation_component flags POSITION_ORIENTATION_HAS_NO_Z) (\<lambda>z.
     rd_bind (pr_opt (flags AND POSITION_HAS_VELOCITY \<noteq> 0) vector3_read) (\<lambda>velocity.
     rd_bind (pr_opt (flags AND POSITION_HAS_PLACEMENT_ID \<noteq> 0) pr_u32) (\<lambda>placement_id.
     rd_bind pr_u16 (\<lambda>instance_sequence.
     rd_bind pr_u16 (\<lambda>position_sequence.
     rd_bind pr_u16 (\<lambda>teleport_sequence.
     rd_bind pr_u16 (\<lambda>force_position_sequence.
     rd_ret
       \<lparr>up_guid = guid, up_flags = flags,
        up_position =
          \<lparr>wp_cell_id = cell_id, wp_origin = origin,
           wp_orientation = \<lparr>qn_w = w, qn_x = x, qn_y = y, qn_z = z\<rparr>\<rparr>,
        up_velocity = velocity, up_placement_id = placement_id, up_instance_sequence = instance_sequence,
        up_position_sequence = position_sequence, up_teleport_sequence = teleport_sequence,
        up_force_position_sequence = force_position_sequence\<rparr>)))))))))))))))"

section \<open>Movement\<close>

definition IMS_CURRENT_STYLE :: u32 where "IMS_CURRENT_STYLE = 0x01"
definition IMS_FORWARD_COMMAND :: u32 where "IMS_FORWARD_COMMAND = 0x02"
definition IMS_FORWARD_SPEED :: u32 where "IMS_FORWARD_SPEED = 0x04"
definition IMS_SIDESTEP_COMMAND :: u32 where "IMS_SIDESTEP_COMMAND = 0x08"
definition IMS_SIDESTEP_SPEED :: u32 where "IMS_SIDESTEP_SPEED = 0x10"
definition IMS_TURN_COMMAND :: u32 where "IMS_TURN_COMMAND = 0x20"
definition IMS_TURN_SPEED :: u32 where "IMS_TURN_SPEED = 0x40"
definition MOTION_FLAG_STICK_TO_OBJECT :: u8 where "MOTION_FLAG_STICK_TO_OBJECT = 0x01"
definition MOTION_FLAG_STANDING_LONG_JUMP :: u8 where "MOTION_FLAG_STANDING_LONG_JUMP = 0x02"
definition MOVE_PARAM_CAN_RUN :: u32 where "MOVE_PARAM_CAN_RUN = 0x2"
definition MOVE_PARAM_CAN_CHARGE :: u32 where "MOVE_PARAM_CAN_CHARGE = 0x10"
definition MOVE_PARAM_MOVE_TOWARDS :: u32 where "MOVE_PARAM_MOVE_TOWARDS = 0x200"

record motion_item =
  mi_command :: u16
  mi_packed_sequence :: u16
  mi_speed :: u32

definition motion_item_read :: "motion_item pr" where
  "motion_item_read =
     rd_bind pr_u16 (\<lambda>command.
     rd_bind pr_u16 (\<lambda>packed_sequence.
     rd_bind pr_f32 (\<lambda>speed.
     rd_ret \<lparr>mi_command = command, mi_packed_sequence = packed_sequence, mi_speed = speed\<rparr>)))"

record interpreted_motion_state =
  im_packed_flags :: u32
  im_current_style :: "u16 option"
  im_forward_command :: "u16 option"
  im_sidestep_command :: "u16 option"
  im_turn_command :: "u16 option"
  im_forward_speed :: "u32 option"
  im_sidestep_speed :: "u32 option"
  im_turn_speed :: "u32 option"
  im_commands :: "motion_item list"

definition interpreted_read :: "interpreted_motion_state pr" where
  "interpreted_read =
     rd_bind pr_u32 (\<lambda>packed_flags.
     rd_bind (pr_opt (packed_flags AND IMS_CURRENT_STYLE \<noteq> 0) pr_u16) (\<lambda>current_style.
     rd_bind (pr_opt (packed_flags AND IMS_FORWARD_COMMAND \<noteq> 0) pr_u16) (\<lambda>forward_command.
     rd_bind (pr_opt (packed_flags AND IMS_SIDESTEP_COMMAND \<noteq> 0) pr_u16) (\<lambda>sidestep_command.
     rd_bind (pr_opt (packed_flags AND IMS_TURN_COMMAND \<noteq> 0) pr_u16) (\<lambda>turn_command.
     rd_bind (pr_opt (packed_flags AND IMS_FORWARD_SPEED \<noteq> 0) pr_f32) (\<lambda>forward_speed.
     rd_bind (pr_opt (packed_flags AND IMS_SIDESTEP_SPEED \<noteq> 0) pr_f32) (\<lambda>sidestep_speed.
     rd_bind (pr_opt (packed_flags AND IMS_TURN_SPEED \<noteq> 0) pr_f32) (\<lambda>turn_speed.
     rd_bind (pr_times (unat (drop_bit 7 packed_flags AND 0x1F)) motion_item_read) (\<lambda>commands.
     rd_bind pr_align4 (\<lambda>_.
     rd_ret
       \<lparr>im_packed_flags = packed_flags, im_current_style = current_style, im_forward_command = forward_command,
        im_sidestep_command = sidestep_command, im_turn_command = turn_command, im_forward_speed = forward_speed,
        im_sidestep_speed = sidestep_speed, im_turn_speed = turn_speed, im_commands = commands\<rparr>))))))))))"

record move_to_path =
  mp_origin_cell_id :: u32
  mp_origin :: vector3
  mp_bitfield :: u32
  mp_distance_to_object :: u32
  mp_min_distance :: u32
  mp_fail_distance :: u32
  mp_speed :: u32
  mp_walk_run_threshold :: u32
  mp_desired_heading :: u32
  mp_run_rate :: u32

definition move_to_path_read :: "move_to_path pr" where
  "move_to_path_read =
     rd_bind pr_u32 (\<lambda>origin_cell_id.
     rd_bind vector3_read (\<lambda>origin.
     rd_bind pr_u32 (\<lambda>bitfield.
     rd_bind pr_f32 (\<lambda>distance_to_object.
     rd_bind pr_f32 (\<lambda>min_distance.
     rd_bind pr_f32 (\<lambda>fail_distance.
     rd_bind pr_f32 (\<lambda>speed.
     rd_bind pr_f32 (\<lambda>walk_run_threshold.
     rd_bind pr_f32 (\<lambda>desired_heading.
     rd_bind pr_f32 (\<lambda>run_rate.
     rd_ret \<lparr>mp_origin_cell_id = origin_cell_id, mp_origin = origin, mp_bitfield = bitfield,
              mp_distance_to_object = distance_to_object, mp_min_distance = min_distance,
              mp_fail_distance = fail_distance, mp_speed = speed, mp_walk_run_threshold = walk_run_threshold,
              mp_desired_heading = desired_heading, mp_run_rate = run_rate\<rparr>))))))))))"

record turn_to_params =
  tt_bitfield :: u32
  tt_speed :: u32
  tt_desired_heading :: u32

definition turn_to_params_read :: "turn_to_params pr" where
  "turn_to_params_read =
     rd_bind pr_u32 (\<lambda>bitfield.
     rd_bind pr_f32 (\<lambda>speed.
     rd_bind pr_f32 (\<lambda>desired_heading.
     rd_ret \<lparr>tt_bitfield = bitfield, tt_speed = speed, tt_desired_heading = desired_heading\<rparr>)))"

datatype movement =
    Interpreted interpreted_motion_state "u32 option"
  | MoveToObject u32 move_to_path
  | MoveToPosition move_to_path
  | TurnToObject u32 u32 turn_to_params
  | TurnToHeading turn_to_params
  | OtherMovement

record movement_data =
  md_movement_type :: u8
  md_motion_flags :: u8
  md_current_style :: u16
  md_movement :: movement

definition movement_body_read :: "u8 \<Rightarrow> u8 \<Rightarrow> movement pr" where
  "movement_body_read movement_type motion_flags =
     (if movement_type = 0 then
        rd_bind interpreted_read (\<lambda>state.
        rd_bind (pr_opt (motion_flags AND MOTION_FLAG_STICK_TO_OBJECT \<noteq> 0) pr_u32) (\<lambda>sticky_object.
        rd_ret (Interpreted state sticky_object)))
      else if movement_type = 6 then
        rd_bind pr_u32 (\<lambda>target. rd_bind move_to_path_read (\<lambda>path. rd_ret (MoveToObject target path)))
      else if movement_type = 7 then rd_bind move_to_path_read (\<lambda>path. rd_ret (MoveToPosition path))
      else if movement_type = 8 then
        rd_bind pr_u32 (\<lambda>target.
        rd_bind pr_f32 (\<lambda>wire_heading.
        rd_bind turn_to_params_read (\<lambda>params. rd_ret (TurnToObject target wire_heading params))))
      else if movement_type = 9 then rd_bind turn_to_params_read (\<lambda>params. rd_ret (TurnToHeading params))
      else rd_ret OtherMovement)"

definition movement_data_read :: "movement_data pr" where
  "movement_data_read =
     rd_bind pr_u8 (\<lambda>movement_type.
     rd_bind pr_u8 (\<lambda>motion_flags.
     rd_bind pr_u16 (\<lambda>current_style.
     rd_bind (movement_body_read movement_type motion_flags) (\<lambda>movement.
     rd_ret
       \<lparr>md_movement_type = movement_type, md_motion_flags = motion_flags, md_current_style = current_style,
        md_movement = movement\<rparr>))))"

definition stance :: "movement_data \<Rightarrow> u16" where
  "stance d =
     (case md_movement d of
        Interpreted state _ \<Rightarrow> (case im_current_style state of None \<Rightarrow> md_current_style d | Some s \<Rightarrow> s)
      | _ \<Rightarrow> md_current_style d)"

definition interpreted_state :: "movement_data \<Rightarrow> interpreted_motion_state option" where
  "interpreted_state d = (case md_movement d of Interpreted state _ \<Rightarrow> Some state | _ \<Rightarrow> None)"

definition move_to_path_of :: "movement_data \<Rightarrow> move_to_path option" where
  "move_to_path_of d =
     (case md_movement d of MoveToObject _ path \<Rightarrow> Some path | MoveToPosition path \<Rightarrow> Some path | _ \<Rightarrow> None)"

definition is_server_controlled_move_to :: "movement_data \<Rightarrow> bool" where
  "is_server_controlled_move_to d \<longleftrightarrow> md_movement_type d = 6 \<or> md_movement_type d = 7"

definition is_server_controlled_turn_to :: "movement_data \<Rightarrow> bool" where
  "is_server_controlled_turn_to d \<longleftrightarrow> md_movement_type d = 8 \<or> md_movement_type d = 9"

definition standing_long_jump :: "movement_data \<Rightarrow> bool" where
  "standing_long_jump d \<longleftrightarrow> md_motion_flags d AND MOTION_FLAG_STANDING_LONG_JUMP \<noteq> 0"

definition move_to_can_run :: "movement_data \<Rightarrow> bool" where
  "move_to_can_run d \<longleftrightarrow>
     (case move_to_path_of d of None \<Rightarrow> True | Some p \<Rightarrow> mp_bitfield p AND MOVE_PARAM_CAN_RUN \<noteq> 0)"

definition move_towards :: "movement_data \<Rightarrow> bool" where
  "move_towards d \<longleftrightarrow>
     (case move_to_path_of d of None \<Rightarrow> False | Some p \<Rightarrow> mp_bitfield p AND MOVE_PARAM_MOVE_TOWARDS \<noteq> 0)"

definition can_charge :: "movement_data \<Rightarrow> bool" where
  "can_charge d \<longleftrightarrow>
     (case move_to_path_of d of None \<Rightarrow> False | Some p \<Rightarrow> mp_bitfield p AND MOVE_PARAM_CAN_CHARGE \<noteq> 0)"

record update_motion =
  um_guid :: u32
  um_instance_sequence :: u16
  um_movement_sequence :: u16
  um_server_control_sequence :: u16
  um_is_autonomous :: bool
  um_movement :: movement_data

definition update_motion_read :: "update_motion pr" where
  "update_motion_read =
     rd_bind (expect_opcode OP_UpdateMotion) (\<lambda>_.
     rd_bind pr_u32 (\<lambda>guid.
     rd_bind pr_u16 (\<lambda>instance_sequence.
     rd_bind pr_u16 (\<lambda>movement_sequence.
     rd_bind pr_u16 (\<lambda>server_control_sequence.
     rd_bind pr_u8 (\<lambda>autonomous.
     rd_bind pr_align4 (\<lambda>_.
     rd_bind movement_data_read (\<lambda>movement.
     rd_ret
       \<lparr>um_guid = guid, um_instance_sequence = instance_sequence, um_movement_sequence = movement_sequence,
        um_server_control_sequence = server_control_sequence, um_is_autonomous = (autonomous \<noteq> 0),
        um_movement = movement\<rparr>))))))))"

section \<open>Appearance\<close>

definition PALETTE_ID_TYPE :: u32 where "PALETTE_ID_TYPE = 0x04000000"
definition SURFACE_TEXTURE_ID_TYPE :: u32 where "SURFACE_TEXTURE_ID_TYPE = 0x05000000"
definition GFX_OBJ_ID_TYPE :: u32 where "GFX_OBJ_ID_TYPE = 0x01000000"

record sub_palette =
  sp_sub_palette_id :: u32
  sp_offset :: u8
  sp_length :: u8

record texture_change =
  tx_part_index :: u8
  tx_old_texture :: u32
  tx_new_texture :: u32

record anim_part_change =
  an_part_index :: u8
  an_new_model_id :: u32

record model_data =
  mo_base_palette_id :: "u32 option"
  mo_sub_palettes :: "sub_palette list"
  mo_texture_changes :: "texture_change list"
  mo_anim_part_changes :: "anim_part_change list"

definition sub_palette_read :: "sub_palette pr" where
  "sub_palette_read =
     rd_bind (pr_packed_dword_of_known_type PALETTE_ID_TYPE) (\<lambda>sub_palette_id.
     rd_bind pr_u8 (\<lambda>start.
     rd_bind pr_u8 (\<lambda>len.
     rd_ret \<lparr>sp_sub_palette_id = sub_palette_id, sp_offset = start, sp_length = len\<rparr>)))"

definition texture_change_read :: "texture_change pr" where
  "texture_change_read =
     rd_bind pr_u8 (\<lambda>part_index.
     rd_bind (pr_packed_dword_of_known_type SURFACE_TEXTURE_ID_TYPE) (\<lambda>old_texture.
     rd_bind (pr_packed_dword_of_known_type SURFACE_TEXTURE_ID_TYPE) (\<lambda>new_texture.
     rd_ret \<lparr>tx_part_index = part_index, tx_old_texture = old_texture, tx_new_texture = new_texture\<rparr>)))"

definition anim_part_change_read :: "anim_part_change pr" where
  "anim_part_change_read =
     rd_bind pr_u8 (\<lambda>part_index.
     rd_bind (pr_packed_dword_of_known_type GFX_OBJ_ID_TYPE) (\<lambda>new_model_id.
     rd_ret \<lparr>an_part_index = part_index, an_new_model_id = new_model_id\<rparr>))"

definition model_data_read :: "model_data pr" where
  "model_data_read =
     rd_bind pr_u8 (\<lambda>marker.
     rd_bind pr_u8 (\<lambda>sub_palette_count.
     rd_bind pr_u8 (\<lambda>texture_change_count.
     rd_bind pr_u8 (\<lambda>anim_part_change_count.
     rd_bind (pr_opt (sub_palette_count > 0) (pr_packed_dword_of_known_type PALETTE_ID_TYPE)) (\<lambda>base_palette_id.
     rd_bind (pr_times (unat sub_palette_count) sub_palette_read) (\<lambda>sub_palettes.
     rd_bind (pr_times (unat texture_change_count) texture_change_read) (\<lambda>texture_changes.
     rd_bind (pr_times (unat anim_part_change_count) anim_part_change_read) (\<lambda>anim_part_changes.
     rd_bind pr_align4 (\<lambda>_.
     rd_ret
       \<lparr>mo_base_palette_id = base_palette_id, mo_sub_palettes = sub_palettes, mo_texture_changes = texture_changes,
        mo_anim_part_changes = anim_part_changes\<rparr>)))))))))"

record obj_desc_event =
  oe_guid :: u32
  oe_model :: model_data
  oe_instance_sequence :: u16
  oe_obj_desc_sequence :: u16

text \<open>The length in the error is the body's.\<close>

definition obj_desc_event_read :: "nat \<Rightarrow> obj_desc_event pr" where
  "obj_desc_event_read body_len =
     rd_bind (expect_opcode OP_ObjDescEvent) (\<lambda>_.
     rd_bind pr_u32 (\<lambda>guid.
     rd_bind model_data_read (\<lambda>model.
     rd_bind pr_remaining (\<lambda>rest.
     if rest \<noteq> 4 then rd_fail (InvalidLength ''appearance change'' body_len)
     else
     rd_bind pr_u16 (\<lambda>instance_sequence.
     rd_bind pr_u16 (\<lambda>obj_desc_sequence.
     rd_ret
       \<lparr>oe_guid = guid, oe_model = model, oe_instance_sequence = instance_sequence,
        oe_obj_desc_sequence = obj_desc_sequence\<rparr>))))))"

definition obj_desc_event_parse :: "bytes \<Rightarrow> proto_error + obj_desc_event" where
  "obj_desc_event_parse body = parse_body (obj_desc_event_read (length body)) body"

section \<open>The readers depend on their own bytes only\<close>

lemma exact_geometry [wf_intros]:
  "rd_exact vector3_read" "rd_exact quaternion_read" "rd_exact position_read"
  unfolding position_read_def vector3_read_def quaternion_read_def by (intro wf_intros)+

lemma exact_small_messages:
  "rd_exact delete_object_read" "rd_exact pickup_event_read" "rd_exact parent_event_read" "rd_exact set_state_read"
  "rd_exact vector_update_read" "rd_exact player_teleport_read" "rd_exact set_stack_size_read"
  "rd_exact inventory_remove_object_read" "rd_exact sound_event_read" "rd_exact admin_environs_read"
  unfolding delete_object_read_def pickup_event_read_def parent_event_read_def set_state_read_def vector_update_read_def
    player_teleport_read_def set_stack_size_read_def inventory_remove_object_read_def sound_event_read_def
    admin_environs_read_def
  by (intro wf_intros)+

lemma exact_update_position: "rd_exact update_position_read"
  unfolding update_position_read_def orientation_component_def by (intro wf_intros)

lemma exact_interpreted [wf_intros]: "rd_exact interpreted_read"
  unfolding interpreted_read_def motion_item_read_def by (intro wf_intros)

lemma exact_turn_and_path [wf_intros]: "rd_exact move_to_path_read" "rd_exact turn_to_params_read"
  unfolding move_to_path_read_def turn_to_params_read_def by (intro wf_intros)+

lemma exact_movement_data [wf_intros]: "rd_exact movement_data_read"
  unfolding movement_data_read_def movement_body_read_def by (intro wf_intros)

lemma exact_update_motion: "rd_exact update_motion_read"
  unfolding update_motion_read_def by (intro wf_intros)

lemma exact_model_data [wf_intros]: "rd_exact model_data_read"
  unfolding model_data_read_def sub_palette_read_def texture_change_read_def anim_part_change_read_def by (intro wf_intros)

end
