(* ===== verification/Object_Description.thy ===== *)
theory Object_Description
  imports Object_Messages
begin

text \<open>
  The full description of an object, from \<open>crates/ac-proto/src\<close>: \<open>physics_desc.rs\<close>, \<open>weenie_desc.rs\<close> and
  \<open>create_object.rs\<close>. Flag words say which fields follow.
\<close>

section \<open>The physics block\<close>

definition PD_SETUP :: u32 where "PD_SETUP = 0x00000001"
definition PD_MOTION_TABLE :: u32 where "PD_MOTION_TABLE = 0x00000002"
definition PD_VELOCITY :: u32 where "PD_VELOCITY = 0x00000004"
definition PD_ACCELERATION :: u32 where "PD_ACCELERATION = 0x00000008"
definition PD_OMEGA :: u32 where "PD_OMEGA = 0x00000010"
definition PD_PARENT :: u32 where "PD_PARENT = 0x00000020"
definition PD_CHILDREN :: u32 where "PD_CHILDREN = 0x00000040"
definition PD_OBJ_SCALE :: u32 where "PD_OBJ_SCALE = 0x00000080"
definition PD_FRICTION :: u32 where "PD_FRICTION = 0x00000100"
definition PD_ELASTICITY :: u32 where "PD_ELASTICITY = 0x00000200"
definition PD_TIMESTAMPS :: u32 where "PD_TIMESTAMPS = 0x00000400"
definition PD_SOUND_TABLE :: u32 where "PD_SOUND_TABLE = 0x00000800"
definition PD_PHYSICS_SCRIPT_TABLE :: u32 where "PD_PHYSICS_SCRIPT_TABLE = 0x00001000"
definition PD_DEFAULT_SCRIPT :: u32 where "PD_DEFAULT_SCRIPT = 0x00002000"
definition PD_DEFAULT_SCRIPT_INTENSITY :: u32 where "PD_DEFAULT_SCRIPT_INTENSITY = 0x00004000"
definition PD_POSITION :: u32 where "PD_POSITION = 0x00008000"
definition PD_MOVEMENT :: u32 where "PD_MOVEMENT = 0x00010000"
definition PD_ANIMATION_FRAME :: u32 where "PD_ANIMATION_FRAME = 0x00020000"
definition PD_TRANSLUCENCY :: u32 where "PD_TRANSLUCENCY = 0x00040000"
definition MAX_CHILDREN :: u32 where "MAX_CHILDREN = 1024"

record wire_timestamps =
  wt_position :: u16
  wt_movement :: u16
  wt_state :: u16
  wt_vector :: u16
  wt_teleport :: u16
  wt_server_controlled_move :: u16
  wt_force_position :: u16
  wt_obj_desc :: u16
  wt_instance :: u16

definition timestamps_read :: "wire_timestamps pr" where
  "timestamps_read =
     rd_bind pr_u16 (\<lambda>position.
     rd_bind pr_u16 (\<lambda>movement.
     rd_bind pr_u16 (\<lambda>state.
     rd_bind pr_u16 (\<lambda>vector.
     rd_bind pr_u16 (\<lambda>teleport.
     rd_bind pr_u16 (\<lambda>server_controlled_move.
     rd_bind pr_u16 (\<lambda>force_position.
     rd_bind pr_u16 (\<lambda>obj_desc.
     rd_bind pr_u16 (\<lambda>incarnation.
     rd_bind pr_align4 (\<lambda>_.
     rd_ret \<lparr>wt_position = position, wt_movement = movement, wt_state = state, wt_vector = vector,
              wt_teleport = teleport, wt_server_controlled_move = server_controlled_move,
              wt_force_position = force_position, wt_obj_desc = obj_desc, wt_instance = incarnation\<rparr>))))))))))"

record physics_attachment =
  pa_guid :: u32
  pa_location_id :: u32

definition attachment_read :: "physics_attachment pr" where
  "attachment_read =
     rd_bind pr_u32 (\<lambda>guid.
     rd_bind pr_u32 (\<lambda>location_id.
     rd_ret \<lparr>pa_guid = guid, pa_location_id = location_id\<rparr>))"

datatype physics_movement = EmptyMovement | PresentMovement bytes movement_data bool

record physics_desc =
  pd_flags :: u32
  pd_state :: u32
  pd_movement :: "physics_movement option"
  pd_animation_frame :: "u32 option"
  pd_position :: "wire_position option"
  pd_motion_table_id :: "u32 option"
  pd_sound_table_id :: "u32 option"
  pd_physics_script_table_id :: "u32 option"
  pd_setup_id :: "u32 option"
  pd_parent :: "physics_attachment option"
  pd_children :: "physics_attachment list option"
  pd_scale :: "u32 option"
  pd_friction :: "u32 option"
  pd_elasticity :: "u32 option"
  pd_translucency :: "u32 option"
  pd_velocity :: "vector3 option"
  pd_acceleration :: "vector3 option"
  pd_omega :: "vector3 option"
  pd_default_script :: "u32 option"
  pd_default_script_intensity :: "u32 option"
  pd_timestamps :: wire_timestamps

text \<open>The blob has a reader of its own, whose error is the error of the message.\<close>

definition physics_movement_read :: "physics_movement pr" where
  "physics_movement_read =
     rd_bind pr_u32 (\<lambda>len.
     if len = 0 then rd_ret EmptyMovement
     else
     rd_bind (check_count len 1 ''movement bytes'') (\<lambda>_.
     rd_bind (pr_bytes (unat len)) (\<lambda>raw.
     case parse_body movement_data_read raw of
       Inl e \<Rightarrow> rd_fail e
     | Inr data \<Rightarrow>
         rd_bind pr_u32 (\<lambda>autonomous. rd_ret (PresentMovement raw data (autonomous \<noteq> 0))))))"

definition children_read :: "physics_attachment list pr" where
  "children_read =
     rd_bind pr_i32 (\<lambda>count.
     if sint count < 0 \<or> count > MAX_CHILDREN then rd_fail (CountOutOfRange ''physics children'' count MAX_CHILDREN)
     else rd_bind (check_count count 8 ''physics children'') (\<lambda>_. pr_times (unat count) attachment_read))"

definition physics_desc_read :: "physics_desc pr" where
  "physics_desc_read =
     rd_bind pr_u32 (\<lambda>flags.
     rd_bind pr_u32 (\<lambda>state.
     let has = (\<lambda>b. flags AND b \<noteq> 0) in
     rd_bind (pr_opt (has PD_MOVEMENT) physics_movement_read) (\<lambda>movement.
     rd_bind (pr_opt (\<not> has PD_MOVEMENT \<and> has PD_ANIMATION_FRAME) pr_u32) (\<lambda>animation_frame.
     rd_bind (pr_opt (has PD_POSITION) position_read) (\<lambda>position_field.
     rd_bind (pr_opt (has PD_MOTION_TABLE) pr_u32) (\<lambda>motion_table_id.
     rd_bind (pr_opt (has PD_SOUND_TABLE) pr_u32) (\<lambda>sound_table_id.
     rd_bind (pr_opt (has PD_PHYSICS_SCRIPT_TABLE) pr_u32) (\<lambda>physics_script_table_id.
     rd_bind (pr_opt (has PD_SETUP) pr_u32) (\<lambda>setup_id.
     rd_bind (pr_opt (has PD_PARENT) attachment_read) (\<lambda>parent.
     rd_bind (pr_opt (has PD_CHILDREN) children_read) (\<lambda>children.
     rd_bind (pr_opt (has PD_OBJ_SCALE) pr_f32) (\<lambda>scale.
     rd_bind (pr_opt (has PD_FRICTION) pr_f32) (\<lambda>friction.
     rd_bind (pr_opt (has PD_ELASTICITY) pr_f32) (\<lambda>elasticity.
     rd_bind (pr_opt (has PD_TRANSLUCENCY) pr_f32) (\<lambda>translucency.
     rd_bind (pr_opt (has PD_VELOCITY) vector3_read) (\<lambda>velocity.
     rd_bind (pr_opt (has PD_ACCELERATION) vector3_read) (\<lambda>acceleration.
     rd_bind (pr_opt (has PD_OMEGA) vector3_read) (\<lambda>omega.
     rd_bind (pr_opt (has PD_DEFAULT_SCRIPT) pr_u32) (\<lambda>default_script.
     rd_bind (pr_opt (has PD_DEFAULT_SCRIPT_INTENSITY) pr_f32) (\<lambda>default_script_intensity.
     rd_bind timestamps_read (\<lambda>timestamps.
     rd_ret
       \<lparr>pd_flags = flags, pd_state = state, pd_movement = movement, pd_animation_frame = animation_frame,
        pd_position = position_field, pd_motion_table_id = motion_table_id, pd_sound_table_id = sound_table_id,
        pd_physics_script_table_id = physics_script_table_id, pd_setup_id = setup_id, pd_parent = parent,
        pd_children = children, pd_scale = scale, pd_friction = friction, pd_elasticity = elasticity,
        pd_translucency = translucency, pd_velocity = velocity, pd_acceleration = acceleration, pd_omega = omega,
        pd_default_script = default_script, pd_default_script_intensity = default_script_intensity,
        pd_timestamps = timestamps\<rparr>)))))))))))))))))))))"

section \<open>The public description\<close>

definition ICON_ID_TYPE :: u32 where "ICON_ID_TYPE = 0x06000000"
definition OBJECT_DESC_INCLUDES_SECOND_HEADER :: u32 where "OBJECT_DESC_INCLUDES_SECOND_HEADER = 0x04000000"

definition WD_PLURAL_NAME :: u32 where "WD_PLURAL_NAME = 0x00000001"
definition WD_ITEMS_CAPACITY :: u32 where "WD_ITEMS_CAPACITY = 0x00000002"
definition WD_CONTAINERS_CAPACITY :: u32 where "WD_CONTAINERS_CAPACITY = 0x00000004"
definition WD_VALUE :: u32 where "WD_VALUE = 0x00000008"
definition WD_USEABLE :: u32 where "WD_USEABLE = 0x00000010"
definition WD_USE_RADIUS :: u32 where "WD_USE_RADIUS = 0x00000020"
definition WD_MONARCH :: u32 where "WD_MONARCH = 0x00000040"
definition WD_UI_EFFECTS :: u32 where "WD_UI_EFFECTS = 0x00000080"
definition WD_AMMO_TYPE :: u32 where "WD_AMMO_TYPE = 0x00000100"
definition WD_COMBAT_USE :: u32 where "WD_COMBAT_USE = 0x00000200"
definition WD_STRUCTURE :: u32 where "WD_STRUCTURE = 0x00000400"
definition WD_MAX_STRUCTURE :: u32 where "WD_MAX_STRUCTURE = 0x00000800"
definition WD_STACK_SIZE :: u32 where "WD_STACK_SIZE = 0x00001000"
definition WD_MAX_STACK_SIZE :: u32 where "WD_MAX_STACK_SIZE = 0x00002000"
definition WD_CONTAINER :: u32 where "WD_CONTAINER = 0x00004000"
definition WD_WIELDER :: u32 where "WD_WIELDER = 0x00008000"
definition WD_VALID_LOCATIONS :: u32 where "WD_VALID_LOCATIONS = 0x00010000"
definition WD_CURRENTLY_WIELDED_LOCATION :: u32 where "WD_CURRENTLY_WIELDED_LOCATION = 0x00020000"
definition WD_PRIORITY :: u32 where "WD_PRIORITY = 0x00040000"
definition WD_TARGET_TYPE :: u32 where "WD_TARGET_TYPE = 0x00080000"
definition WD_RADAR_BLIP_COLOR :: u32 where "WD_RADAR_BLIP_COLOR = 0x00100000"
definition WD_BURDEN :: u32 where "WD_BURDEN = 0x00200000"
definition WD_SPELL :: u32 where "WD_SPELL = 0x00400000"
definition WD_RADAR_BEHAVIOR :: u32 where "WD_RADAR_BEHAVIOR = 0x00800000"
definition WD_WORKMANSHIP :: u32 where "WD_WORKMANSHIP = 0x01000000"
definition WD_HOUSE_OWNER :: u32 where "WD_HOUSE_OWNER = 0x02000000"
definition WD_HOUSE_RESTRICTIONS :: u32 where "WD_HOUSE_RESTRICTIONS = 0x04000000"
definition WD_PSCRIPT :: u32 where "WD_PSCRIPT = 0x08000000"
definition WD_HOOK_TYPE :: u32 where "WD_HOOK_TYPE = 0x10000000"
definition WD_HOOK_ITEM_TYPES :: u32 where "WD_HOOK_ITEM_TYPES = 0x20000000"
definition WD_ICON_OVERLAY :: u32 where "WD_ICON_OVERLAY = 0x40000000"
definition WD_MATERIAL_TYPE :: u32 where "WD_MATERIAL_TYPE = 0x80000000"
definition WD2_ICON_UNDERLAY :: u32 where "WD2_ICON_UNDERLAY = 0x00000001"
definition WD2_COOLDOWN :: u32 where "WD2_COOLDOWN = 0x00000002"
definition WD2_COOLDOWN_DURATION :: u32 where "WD2_COOLDOWN_DURATION = 0x00000004"
definition WD2_PET_OWNER :: u32 where "WD2_PET_OWNER = 0x00000008"

record wire_house_guest =
  hg_guest_id :: u32
  hg_permission :: u32

definition wire_house_guest_read :: "wire_house_guest pr" where
  "wire_house_guest_read =
     rd_bind pr_u32 (\<lambda>guest_id.
     rd_bind pr_u32 (\<lambda>permission.
     rd_ret \<lparr>hg_guest_id = guest_id, hg_permission = permission\<rparr>))"

record wire_house_restrictions =
  hx_version :: u32
  hx_flags :: u32
  hx_monarch_id :: u32
  hx_guests :: "wire_house_guest list"

definition wire_open_to_public :: "wire_house_restrictions \<Rightarrow> bool" where
  "wire_open_to_public h \<longleftrightarrow> hx_flags h \<noteq> 0"

definition house_restrictions_read :: "wire_house_restrictions pr" where
  "house_restrictions_read =
     rd_bind pr_u32 (\<lambda>version.
     rd_bind pr_u32 (\<lambda>flags.
     rd_bind pr_u32 (\<lambda>monarch_id.
     rd_bind pr_u32 (\<lambda>packed.
     let count = packed AND 0x00FFFFFF in
     rd_bind (check_count count 8 ''house guests'') (\<lambda>_.
     rd_bind (pr_times (unat count) wire_house_guest_read) (\<lambda>guests.
     rd_ret \<lparr>hx_version = version, hx_flags = flags, hx_monarch_id = monarch_id, hx_guests = guests\<rparr>))))))"

record public_weenie_desc =
  pw_header_flags :: u32
  pw_name :: rstring
  pw_weenie_class_id :: u32
  pw_icon_id :: u32
  pw_item_type :: u32
  pw_object_description_flags :: u32
  pw_header_flags2 :: "u32 option"
  pw_plural_name :: "rstring option"
  pw_items_capacity :: "u8 option"
  pw_containers_capacity :: "u8 option"
  pw_ammo_type :: "u16 option"
  pw_value :: "u32 option"
  pw_useability :: "u32 option"
  pw_use_radius :: "u32 option"
  pw_target_type :: "u32 option"
  pw_ui_effects :: "u32 option"
  pw_combat_use :: "u8 option"
  pw_structure :: "u16 option"
  pw_max_structure :: "u16 option"
  pw_stack_size :: "u16 option"
  pw_max_stack_size :: "u16 option"
  pw_container_id :: "u32 option"
  pw_wielder_id :: "u32 option"
  pw_valid_locations :: "u32 option"
  pw_currently_wielded_location :: "u32 option"
  pw_priority :: "u32 option"
  pw_radar_blip_color :: "u8 option"
  pw_radar_behavior :: "u8 option"
  pw_physics_script :: "u16 option"
  pw_workmanship :: "u32 option"
  pw_burden :: "u16 option"
  pw_spell_id :: "u16 option"
  pw_house_owner_id :: "u32 option"
  pw_house_restrictions :: "wire_house_restrictions option"
  pw_hook_item_types :: "u32 option"
  pw_monarch_id :: "u32 option"
  pw_hook_type :: "u16 option"
  pw_icon_overlay_id :: "u32 option"
  pw_icon_underlay_id :: "u32 option"
  pw_material_type :: "u32 option"
  pw_cooldown_id :: "u32 option"
  pw_cooldown_duration :: "u64 option"
  pw_pet_owner_id :: "u32 option"

definition public_weenie_desc_read :: "public_weenie_desc pr" where
  "public_weenie_desc_read =
     rd_bind pr_u32 (\<lambda>header_flags.
     rd_bind pr_string16l (\<lambda>name.
     rd_bind pr_packed_dword (\<lambda>weenie_class_id.
     rd_bind (pr_packed_dword_of_known_type ICON_ID_TYPE) (\<lambda>icon_id.
     rd_bind pr_u32 (\<lambda>item_type.
     rd_bind pr_u32 (\<lambda>object_description_flags.
     rd_bind pr_align4 (\<lambda>_.
     rd_bind (pr_opt (object_description_flags AND OBJECT_DESC_INCLUDES_SECOND_HEADER \<noteq> 0) pr_u32) (\<lambda>header_flags2.
     let has = (\<lambda>b. header_flags AND b \<noteq> 0);
         has2 = (\<lambda>b. (case header_flags2 of None \<Rightarrow> 0 | Some w \<Rightarrow> w) AND b \<noteq> 0) in
     rd_bind (pr_opt (has WD_PLURAL_NAME) pr_string16l) (\<lambda>plural_name.
     rd_bind (pr_opt (has WD_ITEMS_CAPACITY) pr_i8) (\<lambda>items_capacity.
     rd_bind (pr_opt (has WD_CONTAINERS_CAPACITY) pr_i8) (\<lambda>containers_capacity.
     rd_bind (pr_opt (has WD_AMMO_TYPE) pr_u16) (\<lambda>ammo_type.
     rd_bind (pr_opt (has WD_VALUE) pr_i32) (\<lambda>value.
     rd_bind (pr_opt (has WD_USEABLE) pr_u32) (\<lambda>useability.
     rd_bind (pr_opt (has WD_USE_RADIUS) pr_f32) (\<lambda>use_radius.
     rd_bind (pr_opt (has WD_TARGET_TYPE) pr_u32) (\<lambda>target_type.
     rd_bind (pr_opt (has WD_UI_EFFECTS) pr_u32) (\<lambda>ui_effects.
     rd_bind (pr_opt (has WD_COMBAT_USE) pr_u8) (\<lambda>combat_use.
     rd_bind (pr_opt (has WD_STRUCTURE) pr_u16) (\<lambda>structure.
     rd_bind (pr_opt (has WD_MAX_STRUCTURE) pr_u16) (\<lambda>max_structure.
     rd_bind (pr_opt (has WD_STACK_SIZE) pr_u16) (\<lambda>stack_size.
     rd_bind (pr_opt (has WD_MAX_STACK_SIZE) pr_u16) (\<lambda>max_stack_size.
     rd_bind (pr_opt (has WD_CONTAINER) pr_u32) (\<lambda>container_id.
     rd_bind (pr_opt (has WD_WIELDER) pr_u32) (\<lambda>wielder_id.
     rd_bind (pr_opt (has WD_VALID_LOCATIONS) pr_u32) (\<lambda>valid_locations.
     rd_bind (pr_opt (has WD_CURRENTLY_WIELDED_LOCATION) pr_u32) (\<lambda>currently_wielded_location.
     rd_bind (pr_opt (has WD_PRIORITY) pr_u32) (\<lambda>priority.
     rd_bind (pr_opt (has WD_RADAR_BLIP_COLOR) pr_u8) (\<lambda>radar_blip_color.
     rd_bind (pr_opt (has WD_RADAR_BEHAVIOR) pr_u8) (\<lambda>radar_behavior.
     rd_bind (pr_opt (has WD_PSCRIPT) pr_u16) (\<lambda>physics_script.
     rd_bind (pr_opt (has WD_WORKMANSHIP) pr_f32) (\<lambda>workmanship.
     rd_bind (pr_opt (has WD_BURDEN) pr_u16) (\<lambda>burden.
     rd_bind (pr_opt (has WD_SPELL) pr_u16) (\<lambda>spell_id.
     rd_bind (pr_opt (has WD_HOUSE_OWNER) pr_u32) (\<lambda>house_owner_id.
     rd_bind (pr_opt (has WD_HOUSE_RESTRICTIONS) house_restrictions_read) (\<lambda>house_restrictions.
     rd_bind (pr_opt (has WD_HOOK_ITEM_TYPES) pr_u32) (\<lambda>hook_item_types.
     rd_bind (pr_opt (has WD_MONARCH) pr_u32) (\<lambda>monarch_id.
     rd_bind (pr_opt (has WD_HOOK_TYPE) pr_u16) (\<lambda>hook_type.
     rd_bind (pr_opt (has WD_ICON_OVERLAY) (pr_packed_dword_of_known_type ICON_ID_TYPE)) (\<lambda>icon_overlay_id.
     rd_bind (pr_opt (has2 WD2_ICON_UNDERLAY) (pr_packed_dword_of_known_type ICON_ID_TYPE)) (\<lambda>icon_underlay_id.
     rd_bind (pr_opt (has WD_MATERIAL_TYPE) pr_u32) (\<lambda>material_type.
     rd_bind (pr_opt (has2 WD2_COOLDOWN) pr_u32) (\<lambda>cooldown_id.
     rd_bind (pr_opt (has2 WD2_COOLDOWN_DURATION) pr_f64) (\<lambda>cooldown_duration.
     rd_bind (pr_opt (has2 WD2_PET_OWNER) pr_u32) (\<lambda>pet_owner_id.
     rd_ret
       \<lparr>pw_header_flags = header_flags, pw_name = name, pw_weenie_class_id = weenie_class_id,
        pw_icon_id = icon_id, pw_item_type = item_type, pw_object_description_flags = object_description_flags,
        pw_header_flags2 = header_flags2, pw_plural_name = plural_name, pw_items_capacity = items_capacity,
        pw_containers_capacity = containers_capacity, pw_ammo_type = ammo_type, pw_value = value,
        pw_useability = useability, pw_use_radius = use_radius, pw_target_type = target_type,
        pw_ui_effects = ui_effects, pw_combat_use = combat_use, pw_structure = structure,
        pw_max_structure = max_structure, pw_stack_size = stack_size, pw_max_stack_size = max_stack_size,
        pw_container_id = container_id, pw_wielder_id = wielder_id, pw_valid_locations = valid_locations,
        pw_currently_wielded_location = currently_wielded_location, pw_priority = priority,
        pw_radar_blip_color = radar_blip_color, pw_radar_behavior = radar_behavior,
        pw_physics_script = physics_script, pw_workmanship = workmanship, pw_burden = burden,
        pw_spell_id = spell_id, pw_house_owner_id = house_owner_id, pw_house_restrictions = house_restrictions,
        pw_hook_item_types = hook_item_types, pw_monarch_id = monarch_id, pw_hook_type = hook_type,
        pw_icon_overlay_id = icon_overlay_id, pw_icon_underlay_id = icon_underlay_id,
        pw_material_type = material_type, pw_cooldown_id = cooldown_id,
        pw_cooldown_duration = cooldown_duration, pw_pet_owner_id = pet_owner_id\<rparr>))))))))))))))))))))))))))))))))))))))))))))"

section \<open>The object\<close>

record create_object =
  co_guid :: u32
  co_model :: model_data
  co_physics :: physics_desc
  co_weenie :: "public_weenie_desc option"

definition create_object_read :: "opcode \<Rightarrow> create_object pr" where
  "create_object_read op =
     rd_bind (expect_opcode op) (\<lambda>_.
     rd_bind pr_u32 (\<lambda>guid.
     rd_bind model_data_read (\<lambda>model.
     rd_bind physics_desc_read (\<lambda>physics.
     rd_bind pr_remaining (\<lambda>rest.
     rd_bind (pr_opt (\<not> rest < 4) public_weenie_desc_read) (\<lambda>weenie.
     rd_ret \<lparr>co_guid = guid, co_model = model, co_physics = physics, co_weenie = weenie\<rparr>))))))"

definition create_object_parse :: "bytes \<Rightarrow> proto_error + create_object" where
  "create_object_parse = parse_body (create_object_read OP_CreateObject)"

definition update_object_parse :: "bytes \<Rightarrow> proto_error + create_object" where
  "update_object_parse = parse_body (create_object_read OP_UpdateObject)"

end
