(* ===== verification/Quality_Messages.thy ===== *)
theory Quality_Messages
  imports Object_Messages
begin

text \<open>
  \<open>crates/ac-proto/src/quality_update.rs\<close>: one property, vital, attribute, skill or saved position changed. Each
  message is its opcode, a one-byte sequence and its fields; the public ones name the object.
\<close>

definition quality_header :: "opcode \<Rightarrow> u8 pr" where
  "quality_header op = rd_bind (expect_opcode op) (\<lambda>_. pr_u8)"

definition read_update_string :: "rstring pr" where
  "read_update_string = rd_bind pr_align4 (\<lambda>_. read_string)"

record public_property_int =
  pui_sequence :: u8
  pui_guid :: u32
  pui_property :: u32
  pui_value :: u32

definition public_property_int_read :: "public_property_int pr" where
  "public_property_int_read =
     rd_bind (quality_header OP_PublicUpdatePropertyInt) (\<lambda>sequence.
     rd_bind pr_u32 (\<lambda>guid.
     rd_bind pr_u32 (\<lambda>prop.
     rd_bind pr_i32 (\<lambda>value.
     rd_ret \<lparr>pui_sequence = sequence, pui_guid = guid, pui_property = prop, pui_value = value\<rparr>))))"

record private_property_int =
  pri_sequence :: u8
  pri_property :: u32
  pri_value :: u32

definition private_property_int_read :: "private_property_int pr" where
  "private_property_int_read =
     rd_bind (quality_header OP_PrivateUpdatePropertyInt) (\<lambda>sequence.
     rd_bind pr_u32 (\<lambda>prop.
     rd_bind pr_i32 (\<lambda>value.
     rd_ret \<lparr>pri_sequence = sequence, pri_property = prop, pri_value = value\<rparr>)))"

record public_property_int64 =
  pul_sequence :: u8
  pul_guid :: u32
  pul_property :: u32
  pul_value :: u64

definition public_property_int64_read :: "public_property_int64 pr" where
  "public_property_int64_read =
     rd_bind (quality_header OP_PublicUpdatePropertyInt64) (\<lambda>sequence.
     rd_bind pr_u32 (\<lambda>guid.
     rd_bind pr_u32 (\<lambda>prop.
     rd_bind pr_i64 (\<lambda>value.
     rd_ret \<lparr>pul_sequence = sequence, pul_guid = guid, pul_property = prop, pul_value = value\<rparr>))))"

record private_property_int64 =
  prl_sequence :: u8
  prl_property :: u32
  prl_value :: u64

definition private_property_int64_read :: "private_property_int64 pr" where
  "private_property_int64_read =
     rd_bind (quality_header OP_PrivateUpdatePropertyInt64) (\<lambda>sequence.
     rd_bind pr_u32 (\<lambda>prop.
     rd_bind pr_i64 (\<lambda>value.
     rd_ret \<lparr>prl_sequence = sequence, prl_property = prop, prl_value = value\<rparr>)))"

record public_property_bool =
  pub_sequence :: u8
  pub_guid :: u32
  pub_property :: u32
  pub_value :: bool

definition public_property_bool_read :: "public_property_bool pr" where
  "public_property_bool_read =
     rd_bind (quality_header OP_PublicUpdatePropertyBool) (\<lambda>sequence.
     rd_bind pr_u32 (\<lambda>guid.
     rd_bind pr_u32 (\<lambda>prop.
     rd_bind read_bool32 (\<lambda>value.
     rd_ret \<lparr>pub_sequence = sequence, pub_guid = guid, pub_property = prop, pub_value = value\<rparr>))))"

record private_property_bool =
  prb_sequence :: u8
  prb_property :: u32
  prb_value :: bool

definition private_property_bool_read :: "private_property_bool pr" where
  "private_property_bool_read =
     rd_bind (quality_header OP_PrivateUpdatePropertyBool) (\<lambda>sequence.
     rd_bind pr_u32 (\<lambda>prop.
     rd_bind read_bool32 (\<lambda>value.
     rd_ret \<lparr>prb_sequence = sequence, prb_property = prop, prb_value = value\<rparr>)))"

record public_property_float =
  puf_sequence :: u8
  puf_guid :: u32
  puf_property :: u32
  puf_value :: u64

definition public_property_float_read :: "public_property_float pr" where
  "public_property_float_read =
     rd_bind (quality_header OP_PublicUpdatePropertyFloat) (\<lambda>sequence.
     rd_bind pr_u32 (\<lambda>guid.
     rd_bind pr_u32 (\<lambda>prop.
     rd_bind pr_f64 (\<lambda>value.
     rd_ret \<lparr>puf_sequence = sequence, puf_guid = guid, puf_property = prop, puf_value = value\<rparr>))))"

record private_property_float =
  prf_sequence :: u8
  prf_property :: u32
  prf_value :: u64

definition private_property_float_read :: "private_property_float pr" where
  "private_property_float_read =
     rd_bind (quality_header OP_PrivateUpdatePropertyFloat) (\<lambda>sequence.
     rd_bind pr_u32 (\<lambda>prop.
     rd_bind pr_f64 (\<lambda>value.
     rd_ret \<lparr>prf_sequence = sequence, prf_property = prop, prf_value = value\<rparr>)))"

record public_property_data_id =
  pud_sequence :: u8
  pud_guid :: u32
  pud_property :: u32
  pud_value :: u32

definition public_property_data_id_read :: "public_property_data_id pr" where
  "public_property_data_id_read =
     rd_bind (quality_header OP_PublicUpdatePropertyDataId) (\<lambda>sequence.
     rd_bind pr_u32 (\<lambda>guid.
     rd_bind pr_u32 (\<lambda>prop.
     rd_bind pr_u32 (\<lambda>value.
     rd_ret \<lparr>pud_sequence = sequence, pud_guid = guid, pud_property = prop, pud_value = value\<rparr>))))"

record private_property_data_id =
  prd_sequence :: u8
  prd_property :: u32
  prd_value :: u32

definition private_property_data_id_read :: "private_property_data_id pr" where
  "private_property_data_id_read =
     rd_bind (quality_header OP_PrivateUpdatePropertyDataId) (\<lambda>sequence.
     rd_bind pr_u32 (\<lambda>prop.
     rd_bind pr_u32 (\<lambda>value.
     rd_ret \<lparr>prd_sequence = sequence, prd_property = prop, prd_value = value\<rparr>)))"

record public_property_string =
  pus_sequence :: u8
  pus_guid :: u32
  pus_property :: u32
  pus_value :: rstring

definition public_property_string_read :: "public_property_string pr" where
  "public_property_string_read =
     rd_bind (quality_header OP_PublicUpdatePropertyString) (\<lambda>sequence.
     rd_bind pr_u32 (\<lambda>guid.
     rd_bind pr_u32 (\<lambda>prop.
     rd_bind read_update_string (\<lambda>value.
     rd_ret \<lparr>pus_sequence = sequence, pus_guid = guid, pus_property = prop, pus_value = value\<rparr>))))"

record private_property_string =
  prs_sequence :: u8
  prs_property :: u32
  prs_value :: rstring

definition private_property_string_read :: "private_property_string pr" where
  "private_property_string_read =
     rd_bind (quality_header OP_PrivateUpdatePropertyString) (\<lambda>sequence.
     rd_bind pr_u32 (\<lambda>prop.
     rd_bind read_update_string (\<lambda>value.
     rd_ret \<lparr>prs_sequence = sequence, prs_property = prop, prs_value = value\<rparr>)))"

record public_property_instance_id =
  pun_sequence :: u8
  pun_guid :: u32
  pun_property :: u32
  pun_value :: u32

definition public_property_instance_id_read :: "public_property_instance_id pr" where
  "public_property_instance_id_read =
     rd_bind (quality_header OP_PublicUpdatePropertyInstanceId) (\<lambda>sequence.
     rd_bind pr_u32 (\<lambda>guid.
     rd_bind pr_u32 (\<lambda>prop.
     rd_bind pr_u32 (\<lambda>value.
     rd_ret \<lparr>pun_sequence = sequence, pun_guid = guid, pun_property = prop, pun_value = value\<rparr>))))"

record private_property_instance_id =
  prn_sequence :: u8
  prn_property :: u32
  prn_value :: u32

definition private_property_instance_id_read :: "private_property_instance_id pr" where
  "private_property_instance_id_read =
     rd_bind (quality_header OP_PrivateUpdatePropertyInstanceId) (\<lambda>sequence.
     rd_bind pr_u32 (\<lambda>prop.
     rd_bind pr_u32 (\<lambda>value.
     rd_ret \<lparr>prn_sequence = sequence, prn_property = prop, prn_value = value\<rparr>)))"

record private_update_position =
  pp_sequence :: u8
  pp_position_type :: u32
  pp_slot_position :: wire_position

definition private_update_position_read :: "private_update_position pr" where
  "private_update_position_read =
     rd_bind (quality_header OP_PrivateUpdatePosition) (\<lambda>sequence.
     rd_bind pr_u32 (\<lambda>position_type.
     rd_bind position_read (\<lambda>slot_position.
     rd_ret \<lparr>pp_sequence = sequence, pp_position_type = position_type, pp_slot_position = slot_position\<rparr>)))"

record private_update_vital =
  pvi_sequence :: u8
  pvi_vital :: u32
  pvi_ranks :: u32
  pvi_start :: u32
  pvi_xp :: u32
  pvi_current :: u32

definition private_update_vital_read :: "private_update_vital pr" where
  "private_update_vital_read =
     rd_bind (quality_header OP_PrivateUpdateVital) (\<lambda>sequence.
     rd_bind pr_u32 (\<lambda>vital.
     rd_bind pr_u32 (\<lambda>ranks.
     rd_bind pr_u32 (\<lambda>start.
     rd_bind pr_u32 (\<lambda>xp.
     rd_bind pr_u32 (\<lambda>current.
     rd_ret \<lparr>pvi_sequence = sequence, pvi_vital = vital, pvi_ranks = ranks, pvi_start = start, pvi_xp = xp,
              pvi_current = current\<rparr>))))))"

record private_update_vital_current =
  pvc_sequence :: u8
  pvc_vital :: u32
  pvc_current :: u32

definition private_update_vital_current_read :: "private_update_vital_current pr" where
  "private_update_vital_current_read =
     rd_bind (quality_header OP_PrivateUpdateVitalCurrent) (\<lambda>sequence.
     rd_bind pr_u32 (\<lambda>vital.
     rd_bind pr_u32 (\<lambda>current.
     rd_ret \<lparr>pvc_sequence = sequence, pvc_vital = vital, pvc_current = current\<rparr>)))"

record private_update_attribute =
  pat_sequence :: u8
  pat_attribute :: u32
  pat_ranks :: u32
  pat_start :: u32
  pat_xp :: u32

definition private_update_attribute_read :: "private_update_attribute pr" where
  "private_update_attribute_read =
     rd_bind (quality_header OP_PrivateUpdateAttribute) (\<lambda>sequence.
     rd_bind pr_u32 (\<lambda>attribute.
     rd_bind pr_u32 (\<lambda>ranks.
     rd_bind pr_u32 (\<lambda>start.
     rd_bind pr_u32 (\<lambda>xp.
     rd_ret \<lparr>pat_sequence = sequence, pat_attribute = attribute, pat_ranks = ranks, pat_start = start,
              pat_xp = xp\<rparr>)))))"

record private_update_skill =
  psk_sequence :: u8
  psk_skill :: u32
  psk_ranks :: u16
  psk_adjust_pp :: u16
  psk_advancement_class :: u32
  psk_xp :: u32
  psk_init :: u32
  psk_resistance :: u32
  psk_last_used :: u64

definition private_update_skill_read :: "private_update_skill pr" where
  "private_update_skill_read =
     rd_bind (quality_header OP_PrivateUpdateSkill) (\<lambda>sequence.
     rd_bind pr_u32 (\<lambda>skill.
     rd_bind pr_u16 (\<lambda>ranks.
     rd_bind pr_u16 (\<lambda>adjust_pp.
     rd_bind pr_u32 (\<lambda>advancement_class.
     rd_bind pr_u32 (\<lambda>xp.
     rd_bind pr_u32 (\<lambda>init.
     rd_bind pr_u32 (\<lambda>resistance.
     rd_bind pr_f64 (\<lambda>last_used.
     rd_ret \<lparr>psk_sequence = sequence, psk_skill = skill, psk_ranks = ranks, psk_adjust_pp = adjust_pp,
              psk_advancement_class = advancement_class, psk_xp = xp, psk_init = init,
              psk_resistance = resistance, psk_last_used = last_used\<rparr>)))))))))"

lemma exact_quality_header [wf_intros]: "rd_exact (quality_header op)"
  unfolding quality_header_def by (intro wf_intros)

lemma exact_quality_messages:
  "rd_exact public_property_int_read" "rd_exact private_property_int_read"
  "rd_exact public_property_int64_read" "rd_exact private_property_int64_read"
  "rd_exact public_property_bool_read" "rd_exact private_property_bool_read"
  "rd_exact public_property_float_read" "rd_exact private_property_float_read"
  "rd_exact public_property_data_id_read" "rd_exact private_property_data_id_read"
  "rd_exact public_property_instance_id_read" "rd_exact private_property_instance_id_read"
  "rd_exact private_update_position_read" "rd_exact private_update_vital_read"
  "rd_exact private_update_vital_current_read" "rd_exact private_update_attribute_read"
  "rd_exact private_update_skill_read"
  unfolding public_property_int_read_def private_property_int_read_def public_property_int64_read_def
    private_property_int64_read_def public_property_bool_read_def private_property_bool_read_def
    public_property_float_read_def private_property_float_read_def public_property_data_id_read_def
    private_property_data_id_read_def public_property_instance_id_read_def
    private_property_instance_id_read_def private_update_position_read_def private_update_vital_read_def
    private_update_vital_current_read_def private_update_attribute_read_def private_update_skill_read_def
  by (intro wf_intros)+

end
