(* ===== verification/Session_Messages.thy ===== *)
theory Session_Messages
  imports Proto_Wire
begin

text \<open>
  The messages of the login flow and of the chat window, from \<open>crates/ac-proto/src\<close>: \<open>character_list.rs\<close>,
  \<open>server_name.rs\<close>, \<open>character_error.rs\<close>, \<open>account_boot.rs\<close>, \<open>ddd.rs\<close>, \<open>enter_world.rs\<close>, \<open>logoff.rs\<close>, the
  messages of \<open>chat.rs\<close>, and those of \<open>combat.rs\<close>, \<open>character.rs\<close>, \<open>game_event.rs\<close> and \<open>game_action.rs\<close> that
  travel outside a game event.
\<close>

section \<open>Entering the world\<close>

definition build_enter_world_request :: bytes where
  "build_enter_world_request = bare_body OP_CharacterEnterWorldRequest"

definition build_enter_world :: "u32 \<Rightarrow> rstring \<Rightarrow> proto_error + bytes" where
  "build_enter_world character_id account_name =
     ok_then (put_string account_name (wr_u32 character_id (wr_u32 OP_CharacterEnterWorld wr_new))) (\<lambda>w. Inr (wr_buf w))"

definition build_logoff_request :: "u32 \<Rightarrow> bytes" where
  "build_logoff_request character_id = wr_buf (wr_u32 character_id (wr_u32 OP_CharacterLogOff wr_new))"

definition is_logoff_confirmation :: "bytes \<Rightarrow> bool" where
  "is_logoff_confirmation body \<longleftrightarrow> body = le_bytes 4 OP_CharacterLogOff"

section \<open>The character list\<close>

definition MIN_CHARACTER_SIZE :: nat where "MIN_CHARACTER_SIZE = 12"

record character =
  ch_id :: u32
  ch_name :: rstring
  ch_seconds_greyed_out :: u32

definition is_available_active_identity :: "character \<Rightarrow> bool" where
  "is_available_active_identity c \<longleftrightarrow> ch_id c \<noteq> 0 \<and> ch_seconds_greyed_out c = 0"

record character_list =
  cl_status :: u32
  cl_characters :: "character list"
  cl_deleted_characters :: "character list"
  cl_slot_count :: u32
  cl_account_name :: rstring
  cl_use_turbine_chat :: bool
  cl_has_throne_of_destiny :: bool

record enter_world_selection =
  es_character :: character
  es_enter_world_body :: bytes

datatype selection_error = IndexOutOfRange nat nat | Unavailable nat | Encode proto_error

definition character_read :: "character pr" where
  "character_read =
     rd_bind pr_u32 (\<lambda>cid.
     rd_bind pr_string16l (\<lambda>name.
     rd_bind pr_u32 (\<lambda>seconds_greyed_out.
     rd_ret \<lparr>ch_id = cid, ch_name = name, ch_seconds_greyed_out = seconds_greyed_out\<rparr>)))"

definition read_characters :: "string \<Rightarrow> character list pr" where
  "read_characters what =
     rd_bind pr_u32 (\<lambda>count.
     rd_bind pr_remaining (\<lambda>rest.
     if \<not> unat count \<le> rest div MIN_CHARACTER_SIZE then rd_fail (CountExceedsPayload what count)
     else pr_times (unat count) character_read))"

definition character_list_read :: "character_list pr" where
  "character_list_read =
     rd_bind (expect_opcode OP_CharacterList) (\<lambda>_.
     rd_bind pr_u32 (\<lambda>status.
     rd_bind (read_characters ''active character'') (\<lambda>characters.
     rd_bind (read_characters ''deleted character'') (\<lambda>deleted_characters.
     rd_bind pr_i32 (\<lambda>slot_count.
     rd_bind pr_string16l (\<lambda>account_name.
     rd_bind pr_u32 (\<lambda>use_turbine_chat.
     rd_bind pr_u32 (\<lambda>has_throne_of_destiny.
     rd_ret
       \<lparr>cl_status = status, cl_characters = characters, cl_deleted_characters = deleted_characters,
        cl_slot_count = slot_count, cl_account_name = account_name, cl_use_turbine_chat = (use_turbine_chat \<noteq> 0),
        cl_has_throne_of_destiny = (has_throne_of_destiny \<noteq> 0)\<rparr>))))))))"

definition first_available :: "character_list \<Rightarrow> (nat \<times> character) option" where
  "first_available l = find (\<lambda>(_, c). is_available_active_identity c) (enumerate 0 (cl_characters l))"

definition select_for_enter_world :: "character_list \<Rightarrow> nat \<Rightarrow> selection_error + enter_world_selection" where
  "select_for_enter_world l index =
     (if \<not> index < length (cl_characters l) then Inl (IndexOutOfRange index (length (cl_characters l)))
      else let chosen = cl_characters l ! index in
           if \<not> is_available_active_identity chosen then Inl (Unavailable index)
           else case build_enter_world (ch_id chosen) (cl_account_name l) of
                  Inl e \<Rightarrow> Inl (Encode e)
                | Inr body \<Rightarrow> Inr \<lparr>es_character = chosen, es_enter_world_body = body\<rparr>)"

section \<open>Names, errors and boots\<close>

record server_name =
  sv_current_connections :: u32
  sv_max_connections :: u32
  sv_world_name :: rstring

definition server_name_read :: "server_name pr" where
  "server_name_read =
     rd_bind (expect_opcode OP_ServerName) (\<lambda>_.
     rd_bind pr_i32 (\<lambda>current_connections.
     rd_bind pr_i32 (\<lambda>max_connections.
     rd_bind pr_u16 (\<lambda>len.
     rd_bind (pr_bytes (unat len)) (\<lambda>name.
     rd_ret
       \<lparr>sv_current_connections = current_connections, sv_max_connections = max_connections,
        sv_world_name = cp_decode name\<rparr>)))))"

text \<open>The error codes are the values 0 to 0x19, the last of which is no error.\<close>

definition NumErrors :: u32 where "NumErrors = 0x19"

record character_error =
  ce_raw_error_code :: u32

definition character_error_read :: "character_error pr" where
  "character_error_read =
     rd_bind (expect_opcode OP_CharacterError) (\<lambda>_. rd_bind pr_u32 (\<lambda>code. rd_ret \<lparr>ce_raw_error_code = code\<rparr>))"

definition error_code_from_u32 :: "u32 \<Rightarrow> u32 option" where
  "error_code_from_u32 v = (if v \<le> NumErrors then Some v else None)"

definition is_sentinel :: "character_error \<Rightarrow> bool" where
  "is_sentinel e \<longleftrightarrow> error_code_from_u32 (ce_raw_error_code e) = Some NumErrors"

text \<open>A failed read inside \<open>read_reason\<close> means no reason; the message is accepted.\<close>

definition strip_nul :: "bytes \<Rightarrow> bytes" where
  "strip_nul bs = (if bs \<noteq> [] \<and> last bs = 0 then butlast bs else bs)"

definition reason_bytes :: "bytes pr" where
  "reason_bytes =
     rd_bind pr_u16 (\<lambda>short.
     rd_bind (if short = 0xFFFF then rd_bind pr_u32 (\<lambda>len. rd_ret (unat len)) else rd_ret (unat short)) (\<lambda>len.
     pr_bytes len))"

definition read_reason :: "reader \<Rightarrow> rstring option" where
  "read_reason r =
     (case fst (reason_bytes r) of
        Inl _ \<Rightarrow> None
      | Inr bs \<Rightarrow>
          let stored = strip_nul bs
          in if stored = [] then None else Some (cp_decode (takeWhile (\<lambda>b. b \<noteq> 0) stored)))"

record account_booted =
  ab_reason :: "rstring option"

definition account_booted_parse :: "bytes \<Rightarrow> proto_error + account_booted" where
  "account_booted_parse body =
     (case expect_opcode OP_AccountBooted (rd_new body) of
        (Inl e, _) \<Rightarrow> Inl e
      | (Inr _, r) \<Rightarrow> Inr \<lparr>ab_reason = read_reason r\<rparr>)"

record account_banned =
  bn_seconds_remaining :: u32
  bn_reason :: "rstring option"

definition account_banned_parse :: "bytes \<Rightarrow> proto_error + account_banned" where
  "account_banned_parse body =
     (case rd_bind (expect_opcode OP_AccountBanned) (\<lambda>_. pr_i32) (rd_new body) of
        (Inl e, _) \<Rightarrow> Inl e
      | (Inr seconds, r) \<Rightarrow> Inr \<lparr>bn_seconds_remaining = seconds, bn_reason = read_reason r\<rparr>)"

section \<open>The game-data check\<close>

definition ENGLISH_LANGUAGE :: u32 where "ENGLISH_LANGUAGE = 1"
definition MAX_DATA_VERSION_COUNT :: u32 where "MAX_DATA_VERSION_COUNT = 100000"

record ddd_data_versions =
  dv_portal :: u32
  dv_cell :: u32
  dv_language :: u32

definition write_version :: "u32 \<Rightarrow> u32 \<Rightarrow> u32 \<Rightarrow> wbuf \<Rightarrow> proto_error + wbuf" where
  "write_version file_type file_id count w =
     (if count > MAX_DATA_VERSION_COUNT then Inl (DataVersionOutOfRange count MAX_DATA_VERSION_COUNT)
      else
        let w = wr_u32 count (wr_u32 file_id (wr_u32 file_type w))
        in Inr (if count > 2 then wr_u32 1 (wr_u32 (- count) w)
                else fold wr_u32 (map word_of_nat [1..<unat count + 1]) w))"

definition build_interrogation_response :: "ddd_data_versions option \<Rightarrow> proto_error + bytes" where
  "build_interrogation_response versions =
     (let w = wr_u32 (if versions \<noteq> None then 3 else 0)
                (wr_u32 ENGLISH_LANGUAGE (wr_u32 OP_DddInterrogationResponse wr_new))
      in ok_then
           (case versions of
              None \<Rightarrow> Inr w
            | Some installed \<Rightarrow>
                ok_then (write_version 0 1 (dv_portal installed) w) (\<lambda>w.
                ok_then (write_version 1 2 (dv_cell installed) w) (\<lambda>w.
                write_version 1 3 (dv_language installed) w)))
           (\<lambda>w. Inr (wr_buf (wr_u32 0 (wr_u32 0 w)))))"

definition build_data_check_complete :: bytes where
  "build_data_check_complete = bare_body OP_DddEnd"

record ddd_begin =
  db_expected_bytes :: u32
  db_iteration_count :: u32

definition MIN_ITERATION_SIZE :: nat where "MIN_ITERATION_SIZE = 20"

definition skip_ids :: "unit pr" where
  "skip_ids =
     rd_bind pr_u32 (\<lambda>count.
     rd_bind pr_remaining (\<lambda>rest.
     if \<not> unat count \<le> rest div 4 then rd_fail (CountExceedsPayload ''data-update item'' count)
     else pr_skip (4 * unat count)))"

definition ddd_begin_parse :: "bytes \<Rightarrow> proto_error + ddd_begin" where
  "ddd_begin_parse body =
     (if length body < 12 then Inl (InvalidLength ''data-update announcement'' (length body))
      else parse_body (
        rd_bind (expect_opcode OP_DddBegin) (\<lambda>_.
        rd_bind pr_u32 (\<lambda>expected_bytes.
        rd_bind pr_u32 (\<lambda>iteration_count.
        rd_bind pr_remaining (\<lambda>rest.
        if \<not> unat iteration_count \<le> rest div MIN_ITERATION_SIZE
        then rd_fail (CountExceedsPayload ''data-update iteration'' iteration_count)
        else
        rd_bind (pr_times (unat iteration_count)
          (rd_bind (pr_skip 12) (\<lambda>_. rd_bind skip_ids (\<lambda>_. skip_ids)))) (\<lambda>_.
        rd_bind pr_remaining (\<lambda>rest.
        if rest \<noteq> 0 then rd_fail (InvalidLength ''data-update announcement'' (length body))
        else rd_ret \<lparr>db_expected_bytes = expected_bytes, db_iteration_count = iteration_count\<rparr>))))))) body)"

definition requires_update :: "ddd_begin \<Rightarrow> bool" where
  "requires_update d \<longleftrightarrow> db_expected_bytes d \<noteq> 0 \<or> db_iteration_count d \<noteq> 0"

section \<open>Chat and deaths\<close>

record hear_speech =
  hs_text :: rstring
  hs_sender_name :: rstring
  hs_sender_guid :: u32
  hs_range :: "u32 option"
  hs_chat_type :: u32

definition hear_speech_read :: "hear_speech pr" where
  "hear_speech_read =
     rd_bind pr_u32 (\<lambda>op.
     if op \<noteq> OP_HearSpeech \<and> op \<noteq> OP_HearRangedSpeech then rd_fail (WrongOpcode OP_HearSpeech op)
     else
     rd_bind read_string (\<lambda>message.
     rd_bind read_string (\<lambda>sender_name.
     rd_bind pr_u32 (\<lambda>sender_guid.
     rd_bind (pr_opt (op = OP_HearRangedSpeech) pr_f32) (\<lambda>reach.
     rd_bind pr_u32 (\<lambda>chat_type.
     rd_ret
       \<lparr>hs_text = message, hs_sender_name = sender_name, hs_sender_guid = sender_guid, hs_range = reach,
        hs_chat_type = chat_type\<rparr>))))))"

record emote =
  em_sender_guid :: u32
  em_sender_name :: rstring
  em_text :: rstring

definition emote_read :: "opcode \<Rightarrow> emote pr" where
  "emote_read op =
     rd_bind (expect_opcode op) (\<lambda>_.
     rd_bind pr_u32 (\<lambda>sender_guid.
     rd_bind read_string (\<lambda>sender_name.
     rd_bind read_string (\<lambda>message.
     rd_ret \<lparr>em_sender_guid = sender_guid, em_sender_name = sender_name, em_text = message\<rparr>))))"

record server_message =
  sm_message :: rstring
  sm_chat_type :: u32

definition server_message_read :: "server_message pr" where
  "server_message_read =
     rd_bind (expect_opcode OP_ServerMessage) (\<lambda>_.
     rd_bind read_string (\<lambda>message.
     rd_bind pr_u32 (\<lambda>chat_type.
     rd_ret \<lparr>sm_message = message, sm_chat_type = chat_type\<rparr>)))"

record player_killed =
  pl_death_message :: rstring
  pl_victim_guid :: u32
  pl_killer_guid :: u32

definition player_killed_read :: "player_killed pr" where
  "player_killed_read =
     rd_bind (expect_opcode OP_PlayerKilled) (\<lambda>_.
     rd_bind read_string (\<lambda>death_message.
     rd_bind pr_u32 (\<lambda>victim_guid.
     rd_bind pr_u32 (\<lambda>killer_guid.
     rd_ret \<lparr>pl_death_message = death_message, pl_victim_guid = victim_guid, pl_killer_guid = killer_guid\<rparr>))))"

section \<open>Characters made and deleted\<close>

definition is_character_delete_acknowledgement :: "bytes \<Rightarrow> bool" where
  "is_character_delete_acknowledgement body \<longleftrightarrow> body = le_bytes 4 OP_CharacterDelete"

definition build_character_restore :: "u32 \<Rightarrow> bytes" where
  "build_character_restore character_guid = wr_buf (wr_u32 character_guid (wr_u32 OP_CharacterRestore wr_new))"

definition CHARGEN_OK :: u32 where "CHARGEN_OK = 1"

record created_character =
  cc_guid :: u32
  cc_name :: rstring
  cc_seconds_greyed_out :: u32

record char_gen_verification =
  cv_code :: u32
  cv_character :: "created_character option"

definition created_character_read :: "created_character pr" where
  "created_character_read =
     rd_bind pr_u32 (\<lambda>guid.
     rd_bind read_string (\<lambda>name.
     rd_bind pr_u32 (\<lambda>seconds_greyed_out.
     rd_ret \<lparr>cc_guid = guid, cc_name = name, cc_seconds_greyed_out = seconds_greyed_out\<rparr>)))"

definition char_gen_verification_read :: "char_gen_verification pr" where
  "char_gen_verification_read =
     rd_bind (expect_opcode OP_CharGenVerificationResponse) (\<lambda>_.
     rd_bind pr_u32 (\<lambda>code.
     rd_bind (pr_opt (code = CHARGEN_OK) created_character_read) (\<lambda>character.
     rd_ret \<lparr>cv_code = code, cv_character = character\<rparr>)))"

section \<open>Envelopes\<close>

record game_event_envelope =
  ge_player_guid :: u32
  ge_sequence :: u32
  ge_event_type :: u32
  ge_payload :: bytes

definition game_event_parse :: "bytes \<Rightarrow> proto_error + game_event_envelope" where
  "game_event_parse body =
     (if length body < 16 then Inl (InvalidLength ''game event'' (length body))
      else parse_body (
        rd_bind (expect_opcode OP_GameEvent) (\<lambda>_.
        rd_bind pr_u32 (\<lambda>player_guid.
        rd_bind pr_u32 (\<lambda>sequence.
        rd_bind pr_u32 (\<lambda>event_type.
        rd_bind (\<lambda>r. (Inr (rd_peek_rest r), r)) (\<lambda>payload.
        rd_ret
          \<lparr>ge_player_guid = player_guid, ge_sequence = sequence, ge_event_type = event_type, ge_payload = payload\<rparr>)))))) body)"

record game_action =
  ga_sequence :: u32
  ga_action_type :: u32
  ga_args :: bytes

definition game_action_parse :: "bytes \<Rightarrow> proto_error + game_action" where
  "game_action_parse = parse_body (
     rd_bind (expect_opcode OP_GameAction) (\<lambda>_.
     rd_bind pr_u32 (\<lambda>sequence.
     rd_bind pr_u32 (\<lambda>action_type.
     rd_bind (\<lambda>r. (Inr (rd_peek_rest r), r)) (\<lambda>args.
     rd_ret \<lparr>ga_sequence = sequence, ga_action_type = action_type, ga_args = args\<rparr>)))))"

definition build_game_action :: "u32 \<Rightarrow> u32 \<Rightarrow> bytes \<Rightarrow> bytes" where
  "build_game_action sequence action_type args =
     wr_buf (wr_bytes args (wr_u32 action_type (wr_u32 sequence (wr_u32 OP_GameAction wr_new))))"

definition build_login_complete :: bytes where
  "build_login_complete = build_game_action 0 0x00A1 []"

definition build_house_query :: "u32 \<Rightarrow> bytes" where
  "build_house_query sequence = build_game_action sequence 0x021E []"

record game_action_sequence =
  gs_last :: u32

definition sequence_advance :: "game_action_sequence \<Rightarrow> u32 \<times> game_action_sequence" where
  "sequence_advance s = (let n = gs_last s + 1 in (n, s\<lparr>gs_last := n\<rparr>))"

definition sequence_reset :: "game_action_sequence \<Rightarrow> game_action_sequence" where
  "sequence_reset s = s\<lparr>gs_last := 0\<rparr>"

end
