(* ===== verification/Turbine_Chat.thy ===== *)
theory Turbine_Chat
  imports Proto_Wire
begin

text \<open>
  \<open>crates/ac-proto/src/turbine_chat.rs\<close>: the chat-room message, read and written by the client. Its strings
  are UTF-16, which the standard library converts; a \<open>char\<close> is a code point.
\<close>

section \<open>UTF-16\<close>

definition scalar_char :: "rchar \<Rightarrow> bool" where
  "scalar_char c \<longleftrightarrow> c < 0xD800 \<or> 0xE000 \<le> c \<and> c < 0x110000"

text \<open>\<open>char::encode_utf16\<close>, \<open>str::encode_utf16\<close>.\<close>

definition utf16_char :: "rchar \<Rightarrow> u16 list" where
  "utf16_char c =
     (if c < 0x10000 then [ucast c]
      else [ucast (0xD800 + (c - 0x10000) div 0x400), ucast (0xDC00 + (c - 0x10000) mod 0x400)])"

definition utf16_encode :: "rstring \<Rightarrow> u16 list" where
  "utf16_encode s = concat (map utf16_char s)"

text \<open>\<open>String::from_utf16_lossy\<close>: an unpaired surrogate becomes U+FFFD.\<close>

fun from_utf16_lossy :: "u16 list \<Rightarrow> rstring" where
  "from_utf16_lossy [] = []"
| "from_utf16_lossy [u] = [if 0xD800 \<le> u \<and> u \<le> 0xDFFF then 0xFFFD else ucast u]"
| "from_utf16_lossy (u # v # us) =
     (if u < 0xD800 \<or> 0xDFFF < u then ucast u # from_utf16_lossy (v # us)
      else if 0xDC00 \<le> u \<or> v < 0xDC00 \<or> 0xDFFF < v then 0xFFFD # from_utf16_lossy (v # us)
      else (0x10000 + (ucast u - 0xD800) * 0x400 + (ucast v - 0xDC00)) # from_utf16_lossy us)"

section \<open>Types\<close>

definition HEADER_SIZE :: nat where "HEADER_SIZE = 36"
definition SEND_TO_ROOM_BY_ID :: u32 where "SEND_TO_ROOM_BY_ID = 2"
definition REQUEST_EXTRA_DATA_SIZE :: u32 where "REQUEST_EXTRA_DATA_SIZE = 0x0C"

datatype blob_type =
    BlobUnknown | EventBinary | EventXmlRpc | RequestBinary | RequestXmlRpc | ResponseBinary | ResponseXmlRpc

definition blob_types :: "blob_type list" where
  "blob_types = [BlobUnknown, EventBinary, EventXmlRpc, RequestBinary, RequestXmlRpc, ResponseBinary, ResponseXmlRpc]"

definition blob_from_u32 :: "u32 \<Rightarrow> proto_error + blob_type" where
  "blob_from_u32 v =
     (if v < 7 then Inr (blob_types ! unat v) else Inl (InvalidValue ''turbine chat blob type'' v))"

text \<open>\<open>as u32\<close>.\<close>

fun blob_value :: "blob_type \<Rightarrow> u32" where
  "blob_value BlobUnknown = 0"
| "blob_value EventBinary = 1"
| "blob_value EventXmlRpc = 2"
| "blob_value RequestBinary = 3"
| "blob_value RequestXmlRpc = 4"
| "blob_value ResponseBinary = 5"
| "blob_value ResponseXmlRpc = 6"

datatype dispatch_type =
    DispatchUnknown | SendToRoomByName | SendToRoomById | CreateRoom | InviteClientToRoomById | EjectClientFromRoomById

definition dispatch_types :: "dispatch_type list" where
  "dispatch_types =
     [DispatchUnknown, SendToRoomByName, SendToRoomById, CreateRoom, InviteClientToRoomById, EjectClientFromRoomById]"

definition dispatch_from_u32 :: "u32 \<Rightarrow> proto_error + dispatch_type" where
  "dispatch_from_u32 v =
     (if v < 6 then Inr (dispatch_types ! unat v) else Inl (InvalidValue ''turbine chat dispatch type'' v))"

fun dispatch_value :: "dispatch_type \<Rightarrow> u32" where
  "dispatch_value DispatchUnknown = 0"
| "dispatch_value SendToRoomByName = 1"
| "dispatch_value SendToRoomById = 2"
| "dispatch_value CreateRoom = 3"
| "dispatch_value InviteClientToRoomById = 4"
| "dispatch_value EjectClientFromRoomById = 5"

text \<open>The fields in the order of the code: room, sender name, message, extra-data size, sender id, result and
  chat type; context, room, message and the same; context, response id, method id and result.\<close>

datatype chat_payload =
    EventSendToRoom u32 rstring rstring u32 u32 u32 u32
  | RequestSendToRoomById u32 u32 rstring u32 u32 u32 u32
  | Response u32 u32 u32 u32
  | UnknownPayload bytes

record turbine_chat =
  tc_blob_type :: blob_type
  tc_dispatch_type :: dispatch_type
  tc_target_type :: u32
  tc_target_id :: u32
  tc_transport_type :: u32
  tc_transport_id :: u32
  tc_cookie :: u32
  tc_payload :: chat_payload

section \<open>Strings\<close>

fun units_of :: "bytes \<Rightarrow> u16 list" where
  "units_of (a # b # bs) = from_le [a, b] # units_of bs"
| "units_of _ = []"

definition read_turbine_string :: "rstring pr" where
  "read_turbine_string =
     rd_bind pr_u8 (\<lambda>first.
     rd_bind (if first AND 0x80 \<noteq> 0
              then rd_bind pr_u8 (\<lambda>low. rd_ret (unat (first AND 0x7F) * 256 + unat low))
              else rd_ret (unat first)) (\<lambda>units.
     rd_bind (pr_bytes (units * 2)) (\<lambda>bs. rd_ret (from_utf16_lossy (units_of bs)))))"

definition write_turbine_string :: "rstring \<Rightarrow> wbuf \<Rightarrow> proto_error + wbuf" where
  "write_turbine_string txt w =
     (let units = utf16_encode txt; count = length units
      in if count \<ge> 0x8000 then Inl (InvalidArgument ''turbine string length'')
         else let w = (if count < 0x80 then wr_u8 (word_of_nat count) w
                       else wr_u8 (word_of_nat count) (wr_u8 (0x80 OR word_of_nat (count div 256)) w))
              in Inr (fold wr_u16 units w))"

section \<open>Reading a message\<close>

definition read_payload :: "blob_type \<Rightarrow> dispatch_type \<Rightarrow> nat \<Rightarrow> chat_payload pr" where
  "read_payload blob dispatch payload_size =
     (if blob = EventBinary \<and> dispatch = SendToRoomByName then
        rd_bind pr_u32 (\<lambda>room_id.
        rd_bind read_turbine_string (\<lambda>sender_name.
        rd_bind read_turbine_string (\<lambda>message.
        rd_bind pr_u32 (\<lambda>extra_data_size.
        rd_bind pr_u32 (\<lambda>sender_id.
        rd_bind pr_i32 (\<lambda>hresult.
        rd_bind pr_u32 (\<lambda>chat_type.
        rd_ret (EventSendToRoom room_id sender_name message extra_data_size sender_id hresult chat_type))))))))
      else if blob = RequestBinary \<and> dispatch = SendToRoomById then
        rd_bind pr_u32 (\<lambda>context_id.
        rd_bind pr_u32 (\<lambda>response_id.
        rd_bind pr_u32 (\<lambda>method_id.
        rd_bind pr_u32 (\<lambda>room_id.
        if response_id \<noteq> SEND_TO_ROOM_BY_ID then rd_fail (InvalidValue ''turbine chat response id'' response_id)
        else if method_id \<noteq> SEND_TO_ROOM_BY_ID then rd_fail (InvalidValue ''turbine chat method id'' method_id)
        else
        rd_bind read_turbine_string (\<lambda>message.
        rd_bind pr_u32 (\<lambda>extra_data_size.
        rd_bind pr_u32 (\<lambda>sender_id.
        rd_bind pr_i32 (\<lambda>hresult.
        rd_bind pr_u32 (\<lambda>chat_type.
        rd_ret (RequestSendToRoomById context_id room_id message extra_data_size sender_id hresult chat_type))))))))))
      else if blob = ResponseBinary then
        rd_bind pr_u32 (\<lambda>context_id.
        rd_bind pr_u32 (\<lambda>response_id.
        rd_bind pr_u32 (\<lambda>method_id.
        rd_bind pr_i32 (\<lambda>hresult. rd_ret (Response context_id response_id method_id hresult)))))
      else rd_bind (pr_bytes payload_size) (\<lambda>bs. rd_ret (UnknownPayload bs)))"

definition rd_result :: "proto_error + 'a \<Rightarrow> 'a pr" where
  "rd_result x = (case x of Inl e \<Rightarrow> rd_fail e | Inr v \<Rightarrow> rd_ret v)"

definition turbine_chat_read :: "turbine_chat pr" where
  "turbine_chat_read =
     rd_bind (expect_opcode OP_TurbineChat) (\<lambda>_.
     rd_bind pr_u32 (\<lambda>total_size.
     rd_bind pr_u32 (\<lambda>blob_type.
     rd_bind pr_u32 (\<lambda>dispatch_type.
     rd_bind pr_u32 (\<lambda>target_type.
     rd_bind pr_u32 (\<lambda>target_id.
     rd_bind pr_u32 (\<lambda>transport_type.
     rd_bind pr_u32 (\<lambda>transport_id.
     rd_bind pr_u32 (\<lambda>cookie.
     rd_bind pr_u32 (\<lambda>size.
     if size < 8 then rd_fail (InvalidValue ''turbine chat payload size'' size)
     else
     let payload_size = unat (size - 8) in
     rd_bind pr_remaining (\<lambda>rest.
     if payload_size > rest then rd_fail (CountExceedsPayload ''turbine chat payload bytes'' (size - 8))
     else
     rd_bind (rd_result (blob_from_u32 blob_type)) (\<lambda>blob_type.
     rd_bind (rd_result (dispatch_from_u32 dispatch_type)) (\<lambda>dispatch_type.
     rd_bind pr_position (\<lambda>start.
     rd_bind (read_payload blob_type dispatch_type payload_size) (\<lambda>payload.
     rd_bind pr_position (\<lambda>end_pos.
     rd_bind (if end_pos - start < payload_size then pr_skip (payload_size - (end_pos - start)) else rd_ret ()) (\<lambda>_.
     rd_ret \<lparr>tc_blob_type = blob_type, tc_dispatch_type = dispatch_type, tc_target_type = target_type,
       tc_target_id = target_id, tc_transport_type = transport_type, tc_transport_id = transport_id,
       tc_cookie = cookie, tc_payload = payload\<rparr>)))))))))))))))))"

definition turbine_chat_parse :: "bytes \<Rightarrow> proto_error + turbine_chat" where
  "turbine_chat_parse = parse_body turbine_chat_read"

section \<open>Building a message\<close>

fun write_payload :: "chat_payload \<Rightarrow> wbuf \<Rightarrow> proto_error + wbuf" where
  "write_payload (EventSendToRoom room_id sender_name message extra_data_size sender_id hresult chat_type) w =
     ok_then (write_turbine_string sender_name (wr_u32 room_id w)) (\<lambda>w.
     ok_then (write_turbine_string message w) (\<lambda>w.
     Inr (wr_u32 chat_type (wr_u32 hresult (wr_u32 sender_id (wr_u32 extra_data_size w))))))"
| "write_payload (RequestSendToRoomById context_id room_id message extra_data_size sender_id hresult chat_type) w =
     ok_then (write_turbine_string message
       (wr_u32 room_id (wr_u32 SEND_TO_ROOM_BY_ID (wr_u32 SEND_TO_ROOM_BY_ID (wr_u32 context_id w))))) (\<lambda>w.
     Inr (wr_u32 chat_type (wr_u32 hresult (wr_u32 sender_id (wr_u32 extra_data_size w)))))"
| "write_payload (Response context_id response_id method_id hresult) w =
     Inr (wr_u32 hresult (wr_u32 method_id (wr_u32 response_id (wr_u32 context_id w))))"
| "write_payload (UnknownPayload bs) w = Inr (wr_bytes bs w)"

definition turbine_chat_build :: "turbine_chat \<Rightarrow> proto_error + bytes" where
  "turbine_chat_build m =
     ok_then (write_payload (tc_payload m) wr_new) (\<lambda>pw.
       let payload = wr_buf pw
       in if length payload \<ge> 2 ^ 32 \<or> length payload > 2 ^ 32 - 1 - 40
          then Inl (InvalidArgument ''turbine chat payload'')
          else
            let payload_len = word_of_nat (length payload);
                w = wr_u32 OP_TurbineChat wr_new;
                w = wr_u32 (40 + payload_len) w;
                w = wr_u32 (blob_value (tc_blob_type m)) w;
                w = wr_u32 (dispatch_value (tc_dispatch_type m)) w;
                w = wr_u32 (tc_target_type m) w;
                w = wr_u32 (tc_target_id m) w;
                w = wr_u32 (tc_transport_type m) w;
                w = wr_u32 (tc_transport_id m) w;
                w = wr_u32 (tc_cookie m) w;
                w = wr_u32 (8 + payload_len) w;
                w = wr_bytes payload w
            in Inr (wr_buf w))"

definition build_turbine_chat_to_room :: "u32 \<Rightarrow> u32 \<Rightarrow> u32 \<Rightarrow> rstring \<Rightarrow> u32 \<Rightarrow> proto_error + bytes" where
  "build_turbine_chat_to_room room_id chat_type sender_guid txt cookie =
     turbine_chat_build
       \<lparr>tc_blob_type = RequestBinary, tc_dispatch_type = SendToRoomById, tc_target_type = 1, tc_target_id = 0,
        tc_transport_type = 0, tc_transport_id = 0, tc_cookie = 0,
        tc_payload = RequestSendToRoomById cookie room_id txt REQUEST_EXTRA_DATA_SIZE sender_guid 0 chat_type\<rparr>"

section \<open>Channel rooms\<close>

record turbine_chat_channels =
  ch_allegiance :: u32
  ch_general :: u32
  ch_trade :: u32
  ch_lfg :: u32
  ch_roleplay :: u32
  ch_olthoi :: u32
  ch_society :: u32
  ch_society_celestial_hand :: u32
  ch_society_eldrytch_web :: u32
  ch_society_radiant_blood :: u32

definition channels_parse :: "bytes \<Rightarrow> proto_error + turbine_chat_channels" where
  "channels_parse = parse_body (
     rd_bind pr_u32 (\<lambda>allegiance. rd_bind pr_u32 (\<lambda>general. rd_bind pr_u32 (\<lambda>trade. rd_bind pr_u32 (\<lambda>lfg.
     rd_bind pr_u32 (\<lambda>roleplay. rd_bind pr_u32 (\<lambda>olthoi. rd_bind pr_u32 (\<lambda>society. rd_bind pr_u32 (\<lambda>celestial_hand.
     rd_bind pr_u32 (\<lambda>eldrytch_web. rd_bind pr_u32 (\<lambda>radiant_blood.
     rd_ret \<lparr>ch_allegiance = allegiance, ch_general = general, ch_trade = trade, ch_lfg = lfg, ch_roleplay = roleplay,
       ch_olthoi = olthoi, ch_society = society, ch_society_celestial_hand = celestial_hand,
       ch_society_eldrytch_web = eldrytch_web, ch_society_radiant_blood = radiant_blood\<rparr>)))))))))))"

definition channels_to_payload :: "turbine_chat_channels \<Rightarrow> bytes" where
  "channels_to_payload c =
     wr_buf (fold wr_u32
       [ch_allegiance c, ch_general c, ch_trade c, ch_lfg c, ch_roleplay c, ch_olthoi c, ch_society c,
        ch_society_celestial_hand c, ch_society_eldrytch_web c, ch_society_radiant_blood c] wr_new)"

section \<open>UTF-16 is undone\<close>

lemma unat_ucast16: "unat (ucast (c :: u32) :: u16) = unat c mod 65536"
  by (simp add: unsigned_ucast_eq take_bit_eq_mod)

lemma unat_ucast32: "unat (ucast (u :: u16) :: u32) = unat u"
proof -
  have "unat u < 2 ^ 16" using unsigned_less [of u] by simp
  then have "unat u mod 4294967296 = unat u" by simp
  then show ?thesis by (simp add: unsigned_ucast_eq take_bit_eq_mod)
qed

lemma utf16_pair:
  assumes "0x10000 \<le> c" "c < 0x110000"
  shows "\<exists>u v. utf16_char c = [u, v] \<and> 0xD800 \<le> u \<and> u < 0xDC00 \<and> 0xDC00 \<le> v \<and> v \<le> 0xDFFF \<and>
    0x10000 + (ucast u - 0xD800) * 0x400 + (ucast v - 0xDC00) = c"
proof -
  define n where "n = unat c - 0x10000"
  have c: "unat c = n + 0x10000" "n < 0x100000" using assms by (auto simp: n_def word_le_nat_alt word_less_nat_alt)
  have sub: "unat (c - 0x10000) = n" using assms(1) c by (simp add: unat_sub)
  have q: "unat (0xD800 + (c - 0x10000) div 0x400) = 0xD800 + n div 0x400"
    using c(2) sub by (simp add: unat_word_ariths unat_div)
  have r: "unat (0xDC00 + (c - 0x10000) mod 0x400) = 0xDC00 + n mod 0x400"
    using sub by (simp add: unat_word_ariths unat_mod)
  let ?u = "ucast (0xD800 + (c - 0x10000) div 0x400) :: u16" and ?v = "ucast (0xDC00 + (c - 0x10000) mod 0x400) :: u16"
  have lt: "n div 0x400 < 0x400" "n mod 0x400 < 0x400" using c(2) by auto
  have u: "unat ?u = 0xD800 + n div 0x400" using q lt by (simp add: unat_ucast16)
  have v: "unat ?v = 0xDC00 + n mod 0x400" using r lt by (simp add: unat_ucast16)
  have "unat (0x10000 + (ucast ?u - 0xD800) * 0x400 + (ucast ?v - 0xDC00) :: u32) = unat c"
  proof -
    have a: "unat (ucast ?u - 0xD800 :: u32) = n div 0x400"
      using u by (subst unat_sub) (auto simp: word_le_nat_alt unat_ucast32)
    have b: "unat (ucast ?v - 0xDC00 :: u32) = n mod 0x400"
      using v by (subst unat_sub) (auto simp: word_le_nat_alt unat_ucast32)
    have dm: "n div 0x400 * 0x400 + n mod 0x400 = n" by (rule div_mult_mod_eq)
    have "unat (0x10000 + A * 0x400 + B :: u32) = n + 0x10000" if "unat A = n div 0x400" "unat B = n mod 0x400" for A B
      using that c(2) dm by (simp add: unat_word_ariths)
    from this [OF a b] c(1) show ?thesis by (simp only:)
  qed
  then have "0x10000 + (ucast ?u - 0xD800) * 0x400 + (ucast ?v - 0xDC00) = c" by (simp only: word_unat_eq_iff)
  moreover have "\<not> c < 0x10000" using assms(1) by simp
  ultimately show ?thesis
    using u v lt by (intro exI [of _ ?u] exI [of _ ?v]) (simp add: utf16_char_def word_le_nat_alt word_less_nat_alt)
qed

lemma utf16_single:
  assumes "scalar_char c" "c < 0x10000"
  shows "utf16_char c = [ucast c]" "\<not> (0xD800 \<le> (ucast c :: u16) \<and> (ucast c :: u16) \<le> 0xDFFF)" "ucast (ucast c :: u16) = c"
proof -
  have n: "unat (ucast c :: u16) = unat c" using assms(2) by (simp add: unat_ucast16 word_less_nat_alt)
  show "utf16_char c = [ucast c]" using assms(2) by (simp add: utf16_char_def)
  show "\<not> (0xD800 \<le> (ucast c :: u16) \<and> (ucast c :: u16) \<le> 0xDFFF)"
    using assms n by (auto simp: scalar_char_def word_le_nat_alt word_less_nat_alt)
  show "ucast (ucast c :: u16) = c"
    using n by (simp add: word_unat_eq_iff unat_ucast32)
qed

lemma from_utf16_char: "scalar_char c \<Longrightarrow> from_utf16_lossy (utf16_char c @ us) = c # from_utf16_lossy us"
proof (cases "c < 0x10000")
  case True
  assume "scalar_char c"
  note s = utf16_single [OF this True]
  show ?thesis
    using s by (cases us) (auto simp: not_le)
next
  case False
  assume "scalar_char c"
  then have "0x10000 \<le> c" "c < 0x110000" using False by (auto simp: scalar_char_def word_le_nat_alt word_less_nat_alt)
  then obtain u v where uv: "utf16_char c = [u, v]" "0xD800 \<le> u" "u < 0xDC00" "0xDC00 \<le> v" "v \<le> 0xDFFF"
    "0x10000 + (ucast u - 0xD800) * 0x400 + (ucast v - 0xDC00) = c"
    using utf16_pair by blast
  have "\<not> (u < 0xD800 \<or> 0xDFFF < u)" "\<not> (0xDC00 \<le> u \<or> v < 0xDC00 \<or> 0xDFFF < v)"
    using uv(2-5) by (auto simp: word_le_nat_alt word_less_nat_alt)
  then show ?thesis using uv(6) by (simp add: uv(1))
qed

lemma from_utf16_encode: "list_all scalar_char s \<Longrightarrow> from_utf16_lossy (utf16_encode s) = s"
  by (induction s) (auto simp: utf16_encode_def from_utf16_char)

lemma units_of_bytes: "units_of (concat (map (le_bytes 2) us)) = us"
proof (induction us)
  case (Cons u us)
  have "\<exists>a b. xs = [a, b]" if "length xs = 2" for xs :: bytes
    using that by (cases xs; cases "tl xs") auto
  then obtain a b where ab: "le_bytes 2 u = [a, b]" by (metis length_le_bytes)
  have "from_le [a, b] = u" using from_le_le_bytes [of 2 u] ab by simp
  then show ?case using Cons.IH by (simp add: ab)
qed simp

section \<open>A message is read back\<close>

definition turbine_string_enc :: "rstring \<Rightarrow> bytes" where
  "turbine_string_enc s =
     (let units = utf16_encode s; count = length units
      in (if count < 0x80 then le_bytes 1 (word_of_nat count :: u8)
          else le_bytes 1 (0x80 OR word_of_nat (count div 256) :: u8) @ le_bytes 1 (word_of_nat count :: u8)) @
         concat (map (le_bytes 2) units))"

lemma fold_wr_u16: "wr_buf (fold wr_u16 us w) = wr_buf w @ concat (map (le_bytes 2) us)"
  by (induction us arbitrary: w) (auto simp: wr_u16_def wr_bytes_def)

lemma write_turbine_string_eq:
  "write_turbine_string s w =
     (if length (utf16_encode s) < 0x8000 then Inr \<lparr>wr_buf = wr_buf w @ turbine_string_enc s\<rparr>
      else Inl (InvalidArgument ''turbine string length''))"
proof -
  have "w' = \<lparr>wr_buf = wr_buf w'\<rparr>" for w' :: wbuf by simp
  then have "fold wr_u16 us w' = \<lparr>wr_buf = wr_buf w' @ concat (map (le_bytes 2) us)\<rparr>" for us w'
    by (metis fold_wr_u16)
  then show ?thesis
    by (auto simp: write_turbine_string_def turbine_string_enc_def Let_def wr_u8_def wr_bytes_def)
qed

lemma bit_top: "bit (0x80 :: int) i \<longleftrightarrow> i = 7"
proof -
  have "(0x80 :: int) = 2 ^ 7" by simp
  then show ?thesis by (simp only: bit_exp_iff) auto
qed

lemma long_count:
  assumes "0x80 \<le> n" "n < 0x8000"
  defines "first \<equiv> 0x80 OR word_of_nat (n div 256) :: u8"
  shows "first AND 0x80 \<noteq> 0" "unat (first AND 0x7F) * 256 + unat (word_of_nat n :: u8) = n"
proof -
  have d: "n div 256 < 128" using assms(2) by simp
  have u: "unat (word_of_nat (n div 256) :: u8) = n div 256" using d by (simp add: unat_of_nat)
  have b: "bit (word_of_nat (n div 256) :: u8) i \<Longrightarrow> i < 7" for i
  proof -
    assume "bit (word_of_nat (n div 256) :: u8) i"
    then have "bit (n div 256) i" by (simp add: bit_simps)
    moreover have "take_bit 7 (n div 256) = n div 256" using d by (simp add: take_bit_nat_eq_self)
    ultimately show "i < 7" by (metis bit_take_bit_iff)
  qed
  have "first AND 0x80 = 0x80"
    by (rule bit_word_eqI) (auto simp: first_def bit_or_iff bit_and_iff bit_top)
  then show "first AND 0x80 \<noteq> 0" by simp
  have m: "(0x7F :: u8) = mask 7" by (simp add: mask_eq_exp_minus_1)
  have "first AND 0x7F = word_of_nat (n div 256)"
    unfolding first_def m by (rule bit_word_eqI) (use b in \<open>auto simp: bit_or_iff bit_and_iff bit_mask_iff bit_top\<close>)
  then have "unat (first AND 0x7F) = n div 256" using u by simp
  moreover have "unat (word_of_nat n :: u8) = n mod 256" by (simp add: unat_of_nat)
  ultimately show "unat (first AND 0x7F) * 256 + unat (word_of_nat n :: u8) = n" by (simp only: div_mult_mod_eq)
qed

lemma short_count:
  assumes "n < 0x80"
  shows "(word_of_nat n :: u8) AND 0x80 = 0" "unat (word_of_nat n :: u8) = n"
proof -
  show u: "unat (word_of_nat n :: u8) = n" using assms by (simp add: unat_of_nat)
  have b: "bit (word_of_nat n :: u8) i \<Longrightarrow> i < 7" for i
  proof -
    assume "bit (word_of_nat n :: u8) i"
    then have "bit n i" by (simp add: bit_simps)
    moreover have "take_bit 7 n = n" using assms by (simp add: take_bit_nat_eq_self)
    ultimately show "i < 7" by (metis bit_take_bit_iff)
  qed
  show "(word_of_nat n :: u8) AND 0x80 = 0"
    by (rule bit_word_eqI) (use b in \<open>auto simp: bit_and_iff bit_top\<close>)
qed

lemma length_units: "length (concat (map (le_bytes 2) us)) = length us * 2"
  by (induction us) auto

lemma parses_turbine_string:
  assumes "list_all scalar_char s" "length (utf16_encode s) < 0x8000"
  shows "parses read_turbine_string (turbine_string_enc s) s"
proof -
  define us where "us = utf16_encode s"
  have tail: "parses (rd_bind (pr_bytes (length us * 2)) (\<lambda>bs. rd_ret (from_utf16_lossy (units_of bs))))
      (concat (map (le_bytes 2) us)) s"
    by (rule parses_bind_nil [OF parses_pr_bytes [OF length_units]])
       (simp add: units_of_bytes us_def from_utf16_encode [OF assms(1)] parses_ret)
  show ?thesis
  proof (cases "length us < 0x80")
    case True
    note c = short_count [OF True]
    show ?thesis
      unfolding read_turbine_string_def turbine_string_enc_def Let_def us_def [symmetric]
      by (rule parses_step [OF parses_pr_ints(1), where x = "word_of_nat (length us)"])
         (use True c tail in \<open>auto intro!: parses_step [OF parses_ret]\<close>)
  next
    case False
    have c: "(0x80 OR word_of_nat (length us div 256)) AND (0x80 :: u8) \<noteq> 0"
      "unat ((0x80 OR word_of_nat (length us div 256)) AND (0x7F :: u8)) * 256 + unat (word_of_nat (length us) :: u8) = length us"
      using False assms(2) by (auto intro!: long_count simp: us_def)
    show ?thesis
      unfolding read_turbine_string_def turbine_string_enc_def Let_def us_def [symmetric]
    proof (rule parses_step [where x = "0x80 OR word_of_nat (length us div 256)"])
      show "parses pr_u8 (le_bytes 1 (0x80 OR word_of_nat (length us div 256) :: u8)) (0x80 OR word_of_nat (length us div 256))"
        by (rule parses_pr_ints)
      show "parses (rd_bind
          (if (0x80 OR word_of_nat (length us div 256)) AND (0x80 :: u8) \<noteq> 0
           then rd_bind pr_u8 (\<lambda>low. rd_ret (unat ((0x80 OR word_of_nat (length us div 256)) AND (0x7F :: u8)) * 256 + unat low))
           else rd_ret (unat (0x80 OR word_of_nat (length us div 256) :: u8)))
          (\<lambda>units. rd_bind (pr_bytes (units * 2)) (\<lambda>bs. rd_ret (from_utf16_lossy (units_of bs)))))
          (le_bytes 1 (word_of_nat (length us) :: u8) @ concat (map (le_bytes 2) us)) s"
      proof (rule parses_step [where x = "length us"])
        show "parses (if (0x80 OR word_of_nat (length us div 256)) AND (0x80 :: u8) \<noteq> 0
           then rd_bind pr_u8 (\<lambda>low. rd_ret (unat ((0x80 OR word_of_nat (length us div 256)) AND (0x7F :: u8)) * 256 + unat low))
           else rd_ret (unat (0x80 OR word_of_nat (length us div 256) :: u8)))
           (le_bytes 1 (word_of_nat (length us) :: u8)) (length us)"
          unfolding if_P [OF c(1)] by (rule parses_bind_nil [OF parses_pr_ints(1)]) (simp only: c(2) parses_ret)
      qed (rule tail, simp)
    qed (use False in simp)
  qed
qed

fun payload_enc :: "chat_payload \<Rightarrow> bytes" where
  "payload_enc (EventSendToRoom room_id sender_name message extra_data_size sender_id hresult chat_type) =
     le_bytes 4 room_id @ turbine_string_enc sender_name @ turbine_string_enc message @
     le_bytes 4 extra_data_size @ le_bytes 4 sender_id @ le_bytes 4 hresult @ le_bytes 4 chat_type"
| "payload_enc (RequestSendToRoomById context_id room_id message extra_data_size sender_id hresult chat_type) =
     le_bytes 4 context_id @ le_bytes 4 SEND_TO_ROOM_BY_ID @ le_bytes 4 SEND_TO_ROOM_BY_ID @ le_bytes 4 room_id @
     turbine_string_enc message @ le_bytes 4 extra_data_size @ le_bytes 4 sender_id @ le_bytes 4 hresult @ le_bytes 4 chat_type"
| "payload_enc (Response context_id response_id method_id hresult) =
     le_bytes 4 context_id @ le_bytes 4 response_id @ le_bytes 4 method_id @ le_bytes 4 hresult"
| "payload_enc (UnknownPayload bs) = bs"

fun payload_strings :: "chat_payload \<Rightarrow> rstring list" where
  "payload_strings (EventSendToRoom _ sender_name message _ _ _ _) = [sender_name, message]"
| "payload_strings (RequestSendToRoomById _ _ message _ _ _ _) = [message]"
| "payload_strings _ = []"

text \<open>The payload is the one the types announce.\<close>

definition payload_matches :: "blob_type \<Rightarrow> dispatch_type \<Rightarrow> chat_payload \<Rightarrow> bool" where
  "payload_matches blob dispatch p \<longleftrightarrow>
     (if blob = EventBinary \<and> dispatch = SendToRoomByName then (\<exists>r n m x s h c. p = EventSendToRoom r n m x s h c)
      else if blob = RequestBinary \<and> dispatch = SendToRoomById then (\<exists>i r m x s h c. p = RequestSendToRoomById i r m x s h c)
      else if blob = ResponseBinary then (\<exists>i r m h. p = Response i r m h)
      else (\<exists>bs. p = UnknownPayload bs))"

definition strings_fit :: "chat_payload \<Rightarrow> bool" where
  "strings_fit p \<longleftrightarrow> (\<forall>s\<in>set (payload_strings p). length (utf16_encode s) < 0x8000)"

lemma write_payload_eq:
  "write_payload p w =
     (if strings_fit p then Inr \<lparr>wr_buf = wr_buf w @ payload_enc p\<rparr> else Inl (InvalidArgument ''turbine string length''))"
  by (cases p) (auto simp: write_turbine_string_eq ok_then_def strings_fit_def wr_u32_def wr_bytes_def)

lemmas parses_fields = parses_next [OF _ parses_pr_ints(3)] parses_next [OF _ parses_pr_ints(4)]
  parses_next [OF _ parses_turbine_string]
  parses_bind_nil [OF parses_pr_ints(3)] parses_bind_nil [OF parses_pr_ints(4)] parses_ret

lemma parses_payload:
  assumes "payload_matches blob dispatch p" "strings_fit p" "\<forall>s\<in>set (payload_strings p). list_all scalar_char s"
    "length (payload_enc p) = n"
  shows "parses (read_payload blob dispatch n) (payload_enc p) p"
  using assms
  by (cases p)
     (auto simp: payload_matches_def read_payload_def strings_fit_def split: if_splits
       intro!: parses_fields parses_bind_nil [OF parses_pr_bytes])

lemma blob_round: "rd_result (blob_from_u32 (blob_value b)) = rd_ret b"
  by (cases b) (simp_all add: rd_result_def blob_from_u32_def blob_types_def)

lemma dispatch_round: "rd_result (dispatch_from_u32 (dispatch_value d)) = rd_ret d"
  by (cases d) (simp_all add: rd_result_def dispatch_from_u32_def dispatch_types_def)

lemma parses_region:
  assumes "parses f enc v" "length enc = n" "parses (g v) [] w"
  shows "parses (rd_bind pr_position (\<lambda>s. rd_bind f (\<lambda>v. rd_bind pr_position (\<lambda>e.
           rd_bind (if e - s < n then pr_skip (n - (e - s)) else rd_ret ()) (\<lambda>_. g v))))) enc w"
proof (unfold parses_def, intro allI)
  fix pre post
  have f: "f \<lparr>rd_data = pre @ enc @ post, rd_pos = length pre\<rparr> =
      (Inr v, \<lparr>rd_data = pre @ enc @ post, rd_pos = length pre + n\<rparr>)"
    using assms(1,2) by (simp add: parses_def)
  have g: "g v \<lparr>rd_data = pre @ enc @ post, rd_pos = length pre + n\<rparr> =
      (Inr w, \<lparr>rd_data = pre @ enc @ post, rd_pos = length pre + n\<rparr>)"
    using assms(3) [unfolded parses_def, rule_format, of "pre @ enc" post] assms(2) by simp
  show "rd_bind pr_position (\<lambda>s. rd_bind f (\<lambda>v. rd_bind pr_position (\<lambda>e.
      rd_bind (if e - s < n then pr_skip (n - (e - s)) else rd_ret ()) (\<lambda>_. g v))))
      \<lparr>rd_data = pre @ enc @ post, rd_pos = length pre\<rparr> =
      (Inr w, \<lparr>rd_data = pre @ enc @ post, rd_pos = length pre + length enc\<rparr>)"
    by (simp add: rd_bind_def pr_position_def rd_position_def f g rd_ret_def assms(2))
qed

definition turbine_chat_enc :: "turbine_chat \<Rightarrow> bytes" where
  "turbine_chat_enc m =
     (let payload = payload_enc (tc_payload m); len = word_of_nat (length payload) :: u32
      in le_bytes 4 OP_TurbineChat @ le_bytes 4 (40 + len) @ le_bytes 4 (blob_value (tc_blob_type m)) @
         le_bytes 4 (dispatch_value (tc_dispatch_type m)) @ le_bytes 4 (tc_target_type m) @ le_bytes 4 (tc_target_id m) @
         le_bytes 4 (tc_transport_type m) @ le_bytes 4 (tc_transport_id m) @ le_bytes 4 (tc_cookie m) @
         le_bytes 4 (8 + len) @ payload)"

lemma turbine_chat_build_eq:
  "turbine_chat_build m =
     (if \<not> strings_fit (tc_payload m) then Inl (InvalidArgument ''turbine string length'')
      else if length (payload_enc (tc_payload m)) > 2 ^ 32 - 1 - 40 then Inl (InvalidArgument ''turbine chat payload'')
      else Inr (turbine_chat_enc m))"
  by (auto simp: turbine_chat_build_def write_payload_eq ok_then_def Let_def turbine_chat_enc_def wr_new_def wr_u32_def
      wr_bytes_def)

definition turbine_chat_ok :: "turbine_chat \<Rightarrow> bool" where
  "turbine_chat_ok m \<longleftrightarrow>
     payload_matches (tc_blob_type m) (tc_dispatch_type m) (tc_payload m) \<and>
     (\<forall>s\<in>set (payload_strings (tc_payload m)). list_all scalar_char s)"

lemma parses_turbine_chat:
  assumes "turbine_chat_ok m" "strings_fit (tc_payload m)" "length (payload_enc (tc_payload m)) \<le> 2 ^ 32 - 1 - 40"
  shows "parses turbine_chat_read (turbine_chat_enc m) m"
proof -
  define n where "n = length (payload_enc (tc_payload m))"
  have n: "unat (8 + word_of_nat n :: u32) = 8 + n" "(8 + word_of_nat n :: u32) - 8 = word_of_nat n"
    "unat (word_of_nat n :: u32) = n"
    using assms(3) by (simp_all add: n_def unat_word_ariths unat_of_nat)
  then have size: "\<not> (8 + word_of_nat n :: u32) < 8" by (simp add: word_less_nat_alt)
  have p: "parses (read_payload (tc_blob_type m) (tc_dispatch_type m) n) (payload_enc (tc_payload m)) (tc_payload m)"
    using assms by (intro parses_payload) (auto simp: turbine_chat_ok_def n_def)
  show ?thesis
    unfolding turbine_chat_read_def turbine_chat_enc_def Let_def n_def [symmetric]
    apply (rule parses_step [OF parses_opcode _ refl])
    apply (rule parses_step [OF parses_pr_ints(3) _ refl])+
    unfolding if_not_P [OF size] n(2,3)
    apply (rule parses_guard)
     apply (simp only: blob_round dispatch_round bind_ret)
     apply (rule parses_region [OF p n_def [symmetric]])
     apply (rule parses_eq [OF parses_ret], simp)
    apply (simp add: n_def)
    done
qed

lemma turbine_string_short: "length (utf16_encode s) < 0x8000 \<Longrightarrow> length (turbine_string_enc s) < 65540"
  by (simp add: turbine_string_enc_def Let_def length_units)

lemma payload_bound:
  assumes "strings_fit p"
  shows "(\<exists>bs. p = UnknownPayload bs \<and> length (payload_enc p) = length bs) \<or> length (payload_enc p) < 200000"
proof (cases p)
  case (EventSendToRoom r n m x s h c)
  then show ?thesis
    using assms turbine_string_short [of n] turbine_string_short [of m] by (simp add: strings_fit_def)
next
  case (RequestSendToRoomById i r m x s h c)
  then show ?thesis using assms turbine_string_short [of m] by (simp add: strings_fit_def)
qed simp_all

text \<open>
  C25. A chat-room message is read back by the client from the body it builds, whatever bytes follow: for
  every message whose payload is of the kind its types announce, building refuses a text of 32768 or more
  UTF-16 units or a payload that does not fit the 32-bit size words, and otherwise gives a body of 40 bytes
  and the payload that parses to the same message.
\<close>

theorem turbine_chat_round_trip:
  assumes "turbine_chat_ok m"
  shows "case turbine_chat_build m of
      Inl e \<Rightarrow> (e = InvalidArgument ''turbine string length'' \<and>
                 (\<exists>s\<in>set (payload_strings (tc_payload m)). 0x8000 \<le> length (utf16_encode s))) \<or>
               (e = InvalidArgument ''turbine chat payload'' \<and> (\<exists>bs. tc_payload m = UnknownPayload bs \<and> 2 ^ 32 - 40 \<le> length bs))
    | Inr body \<Rightarrow> turbine_chat_parse (body @ extra) = Inr m"
proof (cases "strings_fit (tc_payload m)")
  case False
  then show ?thesis by (auto simp: turbine_chat_build_eq strings_fit_def not_less)
next
  case True
  show ?thesis
  proof (cases "length (payload_enc (tc_payload m)) > 2 ^ 32 - 1 - 40")
    case False
    then have "parses turbine_chat_read (turbine_chat_enc m) m"
      using parses_turbine_chat [OF assms True] by simp
    then show ?thesis
      using True False by (simp add: turbine_chat_build_eq turbine_chat_parse_def parses_body)
  next
    case long: True
    have "\<exists>bs. tc_payload m = UnknownPayload bs \<and> 2 ^ 32 - 40 \<le> length bs"
      using payload_bound [OF True] long by auto
    then show ?thesis using True long by (simp add: turbine_chat_build_eq)
  qed
qed

theorem turbine_chat_round_trip_witness:
  "\<exists>body. build_turbine_chat_to_room 5 2 0x50000001 [0x48, 0x1F600] 7 = Inr body \<and>
     turbine_chat_parse (body @ [1, 2]) =
       Inr \<lparr>tc_blob_type = RequestBinary, tc_dispatch_type = SendToRoomById, tc_target_type = 1, tc_target_id = 0,
            tc_transport_type = 0, tc_transport_id = 0, tc_cookie = 0,
            tc_payload = RequestSendToRoomById 7 5 [0x48, 0x1F600] 0x0C 0x50000001 0 2\<rparr>"
proof -
  let ?m = "\<lparr>tc_blob_type = RequestBinary, tc_dispatch_type = SendToRoomById, tc_target_type = 1, tc_target_id = 0,
      tc_transport_type = 0, tc_transport_id = 0, tc_cookie = 0,
      tc_payload = RequestSendToRoomById 7 5 [0x48, 0x1F600] 0x0C 0x50000001 0 2\<rparr>"
  have ok: "turbine_chat_ok ?m" by (simp add: turbine_chat_ok_def payload_matches_def scalar_char_def)
  have "length (utf16_encode [0x48, 0x1F600]) < 0x8000" by (simp add: utf16_encode_def utf16_char_def)
  with turbine_chat_round_trip [OF ok, of "[1, 2]"] show ?thesis
    by (auto simp: build_turbine_chat_to_room_def REQUEST_EXTRA_DATA_SIZE_def split: sum.splits)
qed

end
