(* ===== verification/Inbound_Messages.thy ===== *)
theory Inbound_Messages
  imports Object_Description Quality_Messages Session_Messages Turbine_Chat
begin

text \<open>
  \<open>crates/ac-proto/src/inbound.rs\<close>: which message a body is. The variants of the code's one enum are in four
  groups here (objects, qualities, login, chat). The match on the opcode is a table, since
  its arms name different opcodes.
\<close>

section \<open>Messages\<close>

datatype object_message =
    CreateObject create_object
  | UpdateObject create_object
  | DeleteObject delete_object
  | PickupEvent pickup_event
  | ParentEvent parent_event
  | SetState set_state
  | UpdatePosition update_position
  | VectorUpdate vector_update
  | UpdateMotion update_motion
  | ObjDescEvent obj_desc_event
  | PlayerTeleport player_teleport
  | SetStackSize set_stack_size
  | InventoryRemoveObject inventory_remove_object
  | SoundEvent sound_event
  | PlayScript play_script
  | PlayScriptType play_script_type
  | AdminEnvirons admin_environs

datatype quality_message =
    PublicUpdatePropertyInt public_property_int
  | PrivateUpdatePropertyInt private_property_int
  | PublicUpdatePropertyInt64 public_property_int64
  | PrivateUpdatePropertyInt64 private_property_int64
  | PublicUpdatePropertyBool public_property_bool
  | PrivateUpdatePropertyBool private_property_bool
  | PublicUpdatePropertyFloat public_property_float
  | PrivateUpdatePropertyFloat private_property_float
  | PublicUpdatePropertyDataId public_property_data_id
  | PrivateUpdatePropertyDataId private_property_data_id
  | PublicUpdatePropertyString public_property_string
  | PrivateUpdatePropertyString private_property_string
  | PublicUpdatePropertyInstanceId public_property_instance_id
  | PrivateUpdatePropertyInstanceId private_property_instance_id
  | PrivateUpdatePosition private_update_position
  | PrivateUpdateVital private_update_vital
  | PrivateUpdateVitalCurrent private_update_vital_current
  | PrivateUpdateAttribute private_update_attribute
  | PrivateUpdateSkill private_update_skill

datatype session_message =
    CharacterList character_list
  | ServerName server_name
  | CharacterError character_error
  | AccountBooted account_booted
  | AccountBanned account_banned
  | LogOffConfirmed
  | ServerReady
  | DddInterrogation
  | DddBegin ddd_begin
  | DddDataMessage
  | DddEnd
  | CharacterDeleteAcknowledged
  | CharGenVerification char_gen_verification

datatype chat_message =
    HearSpeech hear_speech
  | EmoteText emote
  | SoulEmote emote
  | ServerMessage server_message
  | TurbineChat turbine_chat
  | PlayerKilled player_killed
  | GameEvent game_event_envelope

datatype inbound =
    ObjectMessage object_message
  | QualityMessage quality_message
  | SessionMessage session_message
  | ChatMessage chat_message
  | Other u32 bytes

section \<open>The table\<close>

definition ok_map :: "('a \<Rightarrow> 'b) \<Rightarrow> 'e + 'a \<Rightarrow> 'e + 'b" where
  "ok_map f x = ok_then x (\<lambda>v. Inr (f v))"

text \<open>A message read by a reader, wrapped as its variant.\<close>

definition reads_as :: "'a pr \<Rightarrow> ('a \<Rightarrow> inbound) \<Rightarrow> bytes \<Rightarrow> proto_error + inbound" where
  "reads_as f c body = ok_map c (parse_body f body)"

definition ddd_end_parse :: "bytes \<Rightarrow> proto_error + session_message" where
  "ddd_end_parse body =
     (if length body \<noteq> 4 then Inl (InvalidLength ''game-data check end'' (length body)) else Inr DddEnd)"

text \<open>The messages whose readers take no notice of what follows them.\<close>

definition fixed_parsers :: "(opcode \<times> (bytes \<Rightarrow> proto_error + inbound)) list" where
  "fixed_parsers =
     [(OP_DeleteObject, reads_as delete_object_read (\<lambda>m. ObjectMessage (DeleteObject m))),
      (OP_PickupEvent, reads_as pickup_event_read (\<lambda>m. ObjectMessage (PickupEvent m))),
      (OP_ParentEvent, reads_as parent_event_read (\<lambda>m. ObjectMessage (ParentEvent m))),
      (OP_SetState, reads_as set_state_read (\<lambda>m. ObjectMessage (SetState m))),
      (OP_UpdatePosition, reads_as update_position_read (\<lambda>m. ObjectMessage (UpdatePosition m))),
      (OP_VectorUpdate, reads_as vector_update_read (\<lambda>m. ObjectMessage (VectorUpdate m))),
      (OP_UpdateMotion, reads_as update_motion_read (\<lambda>m. ObjectMessage (UpdateMotion m))),
      (OP_PlayerTeleport, reads_as player_teleport_read (\<lambda>m. ObjectMessage (PlayerTeleport m))),
      (OP_SetStackSize, reads_as set_stack_size_read (\<lambda>m. ObjectMessage (SetStackSize m))),
      (OP_InventoryRemoveObject, reads_as inventory_remove_object_read (\<lambda>m. ObjectMessage (InventoryRemoveObject m))),
      (OP_SoundEvent, reads_as sound_event_read (\<lambda>m. ObjectMessage (SoundEvent m))),
      (OP_AdminEnvirons, reads_as admin_environs_read (\<lambda>m. ObjectMessage (AdminEnvirons m))),
      (OP_PublicUpdatePropertyInt, reads_as public_property_int_read (\<lambda>m. QualityMessage (PublicUpdatePropertyInt m))),
      (OP_PrivateUpdatePropertyInt, reads_as private_property_int_read (\<lambda>m. QualityMessage (PrivateUpdatePropertyInt m))),
      (OP_PublicUpdatePropertyInt64, reads_as public_property_int64_read (\<lambda>m. QualityMessage (PublicUpdatePropertyInt64 m))),
      (OP_PrivateUpdatePropertyInt64, reads_as private_property_int64_read (\<lambda>m. QualityMessage (PrivateUpdatePropertyInt64 m))),
      (OP_PublicUpdatePropertyBool, reads_as public_property_bool_read (\<lambda>m. QualityMessage (PublicUpdatePropertyBool m))),
      (OP_PrivateUpdatePropertyBool, reads_as private_property_bool_read (\<lambda>m. QualityMessage (PrivateUpdatePropertyBool m))),
      (OP_PublicUpdatePropertyFloat, reads_as public_property_float_read (\<lambda>m. QualityMessage (PublicUpdatePropertyFloat m))),
      (OP_PrivateUpdatePropertyFloat, reads_as private_property_float_read (\<lambda>m. QualityMessage (PrivateUpdatePropertyFloat m))),
      (OP_PublicUpdatePropertyDataId, reads_as public_property_data_id_read (\<lambda>m. QualityMessage (PublicUpdatePropertyDataId m))),
      (OP_PrivateUpdatePropertyDataId, reads_as private_property_data_id_read (\<lambda>m. QualityMessage (PrivateUpdatePropertyDataId m))),
      (OP_PublicUpdatePropertyInstanceId, reads_as public_property_instance_id_read (\<lambda>m. QualityMessage (PublicUpdatePropertyInstanceId m))),
      (OP_PrivateUpdatePropertyInstanceId, reads_as private_property_instance_id_read (\<lambda>m. QualityMessage (PrivateUpdatePropertyInstanceId m))),
      (OP_PrivateUpdatePosition, reads_as private_update_position_read (\<lambda>m. QualityMessage (PrivateUpdatePosition m))),
      (OP_PrivateUpdateVital, reads_as private_update_vital_read (\<lambda>m. QualityMessage (PrivateUpdateVital m))),
      (OP_PrivateUpdateVitalCurrent, reads_as private_update_vital_current_read (\<lambda>m. QualityMessage (PrivateUpdateVitalCurrent m))),
      (OP_PrivateUpdateAttribute, reads_as private_update_attribute_read (\<lambda>m. QualityMessage (PrivateUpdateAttribute m))),
      (OP_PrivateUpdateSkill, reads_as private_update_skill_read (\<lambda>m. QualityMessage (PrivateUpdateSkill m))),
      (OP_ServerName, reads_as server_name_read (\<lambda>m. SessionMessage (ServerName m))),
      (OP_CharacterError, reads_as character_error_read (\<lambda>m. SessionMessage (CharacterError m)))]"

definition other_parsers :: "(opcode \<times> (bytes \<Rightarrow> proto_error + inbound)) list" where
  "other_parsers =
     [(OP_CreateObject, \<lambda>b. ok_map (\<lambda>m. ObjectMessage (CreateObject m)) (create_object_parse b)),
      (OP_UpdateObject, \<lambda>b. ok_map (\<lambda>m. ObjectMessage (UpdateObject m)) (update_object_parse b)),
      (OP_ObjDescEvent, \<lambda>b. ok_map (\<lambda>m. ObjectMessage (ObjDescEvent m)) (obj_desc_event_parse b)),
      (OP_PlayScript, \<lambda>b. ok_map (\<lambda>m. ObjectMessage (PlayScript m)) (play_script_parse b)),
      (OP_PlayScriptType, \<lambda>b. ok_map (\<lambda>m. ObjectMessage (PlayScriptType m)) (play_script_type_parse b)),
      (OP_PublicUpdatePropertyString, reads_as public_property_string_read (\<lambda>m. QualityMessage (PublicUpdatePropertyString m))),
      (OP_PrivateUpdatePropertyString, reads_as private_property_string_read (\<lambda>m. QualityMessage (PrivateUpdatePropertyString m))),
      (OP_CharacterList, reads_as character_list_read (\<lambda>m. SessionMessage (CharacterList m))),
      (OP_AccountBooted, \<lambda>b. ok_map (\<lambda>m. SessionMessage (AccountBooted m)) (account_booted_parse b)),
      (OP_AccountBanned, \<lambda>b. ok_map (\<lambda>m. SessionMessage (AccountBanned m)) (account_banned_parse b)),
      (OP_DddBegin, \<lambda>b. ok_map (\<lambda>m. SessionMessage (DddBegin m)) (ddd_begin_parse b)),
      (OP_CharGenVerificationResponse, reads_as char_gen_verification_read (\<lambda>m. SessionMessage (CharGenVerification m))),
      (OP_HearSpeech, reads_as hear_speech_read (\<lambda>m. ChatMessage (HearSpeech m))),
      (OP_HearRangedSpeech, reads_as hear_speech_read (\<lambda>m. ChatMessage (HearSpeech m))),
      (OP_EmoteText, reads_as (emote_read OP_EmoteText) (\<lambda>m. ChatMessage (EmoteText m))),
      (OP_SoulEmote, reads_as (emote_read OP_SoulEmote) (\<lambda>m. ChatMessage (SoulEmote m))),
      (OP_ServerMessage, reads_as server_message_read (\<lambda>m. ChatMessage (ServerMessage m))),
      (OP_TurbineChat, \<lambda>b. ok_map (\<lambda>m. ChatMessage (TurbineChat m)) (turbine_chat_parse b)),
      (OP_PlayerKilled, reads_as player_killed_read (\<lambda>m. ChatMessage (PlayerKilled m))),
      (OP_GameEvent, \<lambda>b. ok_map (\<lambda>m. ChatMessage (GameEvent m)) (game_event_parse b)),
      (OP_ServerReady, \<lambda>b. Inr (SessionMessage ServerReady)),
      (OP_DddInterrogation, \<lambda>b. Inr (SessionMessage DddInterrogation)),
      (OP_DddDataMessage, \<lambda>b. Inr (SessionMessage DddDataMessage)),
      (OP_DddEnd, \<lambda>b. ok_map SessionMessage (ddd_end_parse b)),
      (OP_CharacterDelete, \<lambda>b. Inr (if is_character_delete_acknowledgement b then SessionMessage CharacterDeleteAcknowledged
                                    else Other OP_CharacterDelete b))]"

definition inbound_parse :: "bytes \<Rightarrow> proto_error + inbound" where
  "inbound_parse body =
     ok_then (read_opcode body) (\<lambda>op.
       if is_logoff_confirmation body then Inr (SessionMessage LogOffConfirmed)
       else case opcode_from_u32 op of
              None \<Rightarrow> Inr (Other op body)
            | Some known \<Rightarrow>
                (case map_of (fixed_parsers @ other_parsers) known of
                   Some parse \<Rightarrow> parse body
                 | None \<Rightarrow> Inr (Other op body)))"

section \<open>Where a message ends\<close>

lemma exact_server_name: "rd_exact server_name_read"
  unfolding server_name_read_def by (intro wf_intros)

lemma exact_character_error: "rd_exact character_error_read"
  unfolding character_error_read_def by (intro wf_intros)

lemma ok_map_simps [simp]: "ok_map f (Inr v) = Inr (f v)" "isl (ok_map f x) = isl x"
  by (auto simp: ok_map_def ok_then_def split: sum.split)

lemma reads_as_takes:
  assumes "rd_exact f" "reads_as f c body = Inr m"
  shows "\<exists>n. takes_exactly (reads_as f c) n body m"
proof -
  obtain v where v: "parse_body f body = Inr v" "m = c v"
    using assms(2) by (auto simp: reads_as_def ok_map_def ok_then_def split: sum.splits)
  obtain n where "takes_exactly (parse_body f) n body v" using exact_takes [OF assms(1) v(1)] by blast
  then have "takes_exactly (reads_as f c) n body m"
    unfolding takes_exactly_def reads_as_def v(2) by (metis ok_map_simps)
  then show ?thesis ..
qed

lemmas exact_fixed = exact_small_messages exact_update_position exact_update_motion exact_quality_messages exact_server_name
  exact_character_error

lemma fixed_takes:
  "(op, parse) \<in> set fixed_parsers \<Longrightarrow> parse body = Inr m \<Longrightarrow> \<exists>n. takes_exactly parse n body m"
  unfolding fixed_parsers_def list.set insert_iff prod.inject
  by (elim disjE conjE; (hypsubst, rule reads_as_takes, rule exact_fixed, assumption)?) simp_all

lemma read_opcode_eq:
  "read_opcode body =
     (if length body < 4 then Inl (Bits (UnexpectedEnd 0 4 (length body))) else Inr (from_le (take 4 body)))"
  by (simp add: read_opcode_def parse_body_def pr_u32_def rd_lift_def rd_u32_def rd_le_def rd_array_def rd_bind_def rd_bytes_def
      rd_new_def rd_remaining_def rd_ret_def subslice_def)

lemma opcode_kept: "4 \<le> k \<Longrightarrow> read_opcode body = Inr op \<Longrightarrow> read_opcode (take k body @ ys) = Inr op"
  by (auto simp: read_opcode_eq min_def split: if_splits)

lemma logoff_opcode: "is_logoff_confirmation body \<Longrightarrow> read_opcode body = Inr OP_CharacterLogOff"
  by (simp add: is_logoff_confirmation_def read_opcode_eq)

lemma fixed_opcodes:
  "map_of fixed_parsers OP_CharacterLogOff = None" "op \<in> fst ` set fixed_parsers \<Longrightarrow> opcode_from_u32 op = Some op"
  by (simp add: fixed_parsers_def opcode_values)
     (unfold opcode_from_u32_eq fixed_parsers_def OPCODES_def, auto)

lemma inbound_fixed:
  assumes "read_opcode body = Inr op" "map_of fixed_parsers op = Some parse"
  shows "inbound_parse body = parse body"
proof -
  have "\<not> is_logoff_confirmation body" using assms fixed_opcodes(1) logoff_opcode by fastforce
  moreover have "opcode_from_u32 op = Some op"
    using fixed_opcodes(2) assms(2) by (metis fst_conv image_eqI map_of_SomeD)
  ultimately show ?thesis using assms by (simp add: inbound_parse_def ok_then_def map_add_def)
qed

text \<open>
  C13. The client finds the end of every message of fixed layout by itself: for each accepted object, quality
  or login message without padded text there is a length \<open>n\<close> such that the first \<open>n\<close> bytes are the message. Cut
  anywhere before, the body is refused and never taken for another message; cut or continued in any way after, it is
  the same message.
\<close>

theorem inbound_messages_end:
  assumes "inbound_parse body = Inr m" "read_opcode body = Inr op" "op \<in> fst ` set fixed_parsers"
  shows "\<exists>n. 4 \<le> n \<and> takes_exactly inbound_parse n body m"
proof -
  obtain parse where p: "map_of fixed_parsers op = Some parse"
    using assms(3) by (metis map_of_eq_None_iff not_None_eq)
  have "parse body = Inr m" using inbound_fixed [OF assms(2) p] assms(1) by simp
  then obtain n where n: "takes_exactly parse n body m" using fixed_takes [OF map_of_SomeD [OF p]] by blast
  have len: "4 \<le> length body" using assms(2) by (auto simp: read_opcode_eq split: if_splits)
  have same: "inbound_parse (take k body @ ys) = parse (take k body @ ys)" if "4 \<le> k" for k ys
    using inbound_fixed [OF opcode_kept [OF that assms(2)] p] .
  have short: "isl (inbound_parse (take k body))" if "k < 4" for k
  proof -
    have "length (take k body) < 4" using that by simp
    then show ?thesis unfolding inbound_parse_def read_opcode_eq ok_then_def by simp
  qed
  have "takes_exactly inbound_parse (max 4 n) body m"
    unfolding takes_exactly_def
  proof (intro conjI allI)
    show "max 4 n \<le> length body" using len n by (simp add: takes_exactly_def)
    fix k ys
    show "if k < max 4 n then isl (inbound_parse (take k body)) else inbound_parse (take k body @ ys) = Inr m"
    proof (cases "k < 4")
      case True
      then have "k < max 4 n" by simp
      then show ?thesis using short [OF True] by simp
    next
      case False
      then have four: "4 \<le> k" by simp
      then have reached: "k < max 4 n \<longleftrightarrow> k < n" by (auto simp: less_max_iff_disj)
      have "if k < n then isl (parse (take k body)) else parse (take k body @ ys) = Inr m"
        using n unfolding takes_exactly_def by blast
      then show ?thesis using same [OF four, of "[]"] same [OF four, of ys] unfolding reached by simp
    qed
  qed
  then show ?thesis by (intro exI [of _ "max 4 n"]) simp
qed

text \<open>A state change cut at every place, and with a byte to spare.\<close>

definition set_state_body :: bytes where
  "set_state_body = le_bytes 4 OP_SetState @ le_bytes 4 (0x50000001 :: u32) @ le_bytes 4 (0x408 :: u32) @ le_bytes 2 (1 :: u16) @ le_bytes 2 (7 :: u16)"

lemma set_state_reads:
  "inbound_parse (set_state_body @ post) =
     Inr (ObjectMessage (SetState \<lparr>ss_guid = 0x50000001, ss_physics_state = 0x408, ss_instance_sequence = 1, ss_state_sequence = 7\<rparr>))"
proof -
  have "parses set_state_read set_state_body
      \<lparr>ss_guid = 0x50000001, ss_physics_state = 0x408, ss_instance_sequence = 1, ss_state_sequence = 7\<rparr>"
    unfolding set_state_read_def set_state_body_def
    by (rule parses_next [OF refl parses_opcode] parses_next [OF refl parses_pr_ints(3)] parses_next [OF refl parses_pr_ints(2)]
        parses_bind_nil [OF parses_pr_ints(2)] parses_ret)+
  then have "parse_body set_state_read (set_state_body @ post) =
      Inr \<lparr>ss_guid = 0x50000001, ss_physics_state = 0x408, ss_instance_sequence = 1, ss_state_sequence = 7\<rparr>"
    by (rule parses_body)
  moreover have "read_opcode (set_state_body @ post) = Inr OP_SetState" by (simp add: read_opcode_eq set_state_body_def)
  moreover have "map_of fixed_parsers OP_SetState = Some (reads_as set_state_read (\<lambda>m. ObjectMessage (SetState m)))"
    by (simp add: fixed_parsers_def opcode_values)
  ultimately show ?thesis by (simp add: inbound_fixed reads_as_def)
qed

theorem inbound_messages_end_witness:
  "\<exists>n. 4 \<le> n \<and> takes_exactly inbound_parse n (set_state_body @ [9])
     (ObjectMessage (SetState \<lparr>ss_guid = 0x50000001, ss_physics_state = 0x408, ss_instance_sequence = 1, ss_state_sequence = 7\<rparr>))"
  by (rule inbound_messages_end [OF set_state_reads, where op = OP_SetState])
     (simp_all add: read_opcode_eq set_state_body_def fixed_parsers_def)

end
