(* ===== verification/Spec2Isabelle.thy ===== *)
theory Spec2Isabelle
  imports Cp1252 Codec Group Reliable_Delivery Handshake Lossy Link_Cadence Icon_Decode Chess_Rules Json_Documents Manifest_Roundtrip
    Optimistic_Moves Inventory_Session Update_Stamps Land_Cells
    Event_Dispatch Allegiance Inbound_Messages
begin

text \<open>
  OpenAC is a client for a game server that speaks a reliable protocol over UDP. This library models the parts of
  it that hold its own logic and no floating-point geometry: the transport, the messages that arrive over it,
  what the client keeps about objects and requests, and the documents and pictures it reads from plugins. All
  paths below are under \<open>src/\<close>.

  How the parts interact. A \<^bold>\<open>connection\<close> (\<open>crates/ac-net\<close>) turns datagrams into whole messages and
  messages into datagrams. It is free of I/O: every operation takes the time and the bytes, and leaves
  datagrams in an outbox. A received message is classified by its opcode (\<open>crates/ac-proto/src/inbound.rs\<close>);
  game events inside it go through the table of handlers (\<open>game_event_dispatch.rs\<close>). Handlers update the object
  table and the inventory transaction (\<open>crates/ac-core/src/items\<close>), and the update stamps
  (\<open>crates/ac-core/src/physics/timestamps.rs\<close>) decide which movement and description of an object is
  still new.

  \<^bold>\<open>Conventions.\<close> A struct is a record, an enum a datatype, a w-bit integer a \<open>w word\<close> with the wrap-around of
  release builds where the code wraps and an explicit bound where it does not, a counter that only counts
  (the \<open>u64\<close> statistics, the \<open>u32\<close> of outstanding moves of an object) a natural number. A float is its bit pattern; where the code computes with it (\<open>Ieee\<close>) the operations are
  given by exact rounding. \<open>Result\<close> is a sum with the error on the left, \<open>Option\<close> an option; a panic
  (\<open>expect\<close>, \<open>unwrap\<close>, a slice out of range) is \<open>None\<close> or a constructor of its own. \<open>BTreeMap\<close>, \<open>HashMap\<close> and
  the heap are the containers of \<open>Std_Containers\<close>, which interpret one locale, \<open>kv_store\<close>. State is passed
  explicitly. A string is the list of its UTF-8 bytes where the code slices it (\<open>Json\<close>), and of its code points
  elsewhere.
\<close>

section \<open>The theories\<close>

text \<open>
  \<^bold>\<open>Ground.\<close> \<open>Net_Prelude\<close> (integers, little-endian bytes, slices, shared collections of facts),
  \<open>Std_Containers\<close>, \<open>Net_Time\<close>, \<open>Ieee\<close>, \<open>Utf8\<close>, \<open>Std_Text\<close>: what the code uses of the Rust language
  and its standard library.

  \<^bold>\<open>Bits\<close> (\<open>crates/ac-bits\<close>). \<open>Bits_Reader\<close>, \<open>Bits_Writer\<close>: the cursor and the buffer, with the locale
  \<open>wire_codec\<close> for a reader and the encoding it undoes. \<open>Cp1252\<close>: the code page of the game's texts.
  \<open>Png\<close>: the picture writer, its CRC and Adler-32 sums against their bit-by-bit definitions, and a
  strict reader that gets the picture back.

  \<^bold>\<open>Packets\<close> (\<open>crates/ac-net/src/packet\<close>, \<open>crypto.rs\<close>). \<open>Crypto\<close>: the hash and the ISAAC keystream
  (locale \<open>word_stream\<close>). \<open>Packet\<close>: header, flags, fragments (locale \<open>item_parser\<close>). \<open>Codec\<close>: parsing, verifying,
  sealing and resealing; a sealed packet opens at the same place of the keystream and nowhere is a word
  spent on a refused one. \<open>Sections\<close>, \<open>Cleartext\<close>: the optional sections and the packets sent unsealed.
  \<open>Login_Request\<close>: the body of the first packet.

  \<^bold>\<open>Transport\<close> (\<open>crates/ac-net/src/transport\<close>). \<open>Sequence\<close>: half-range comparison of sequences.
  \<open>Link_Stats\<close>, \<open>Packet_Loss\<close>: counters, interval clock, loss figure. \<open>Inbound\<close>: arrived, missing and parked
  positions. Its sessions are refined by a ledger that gives every position its own keystream word.
  \<open>Sent_Store\<close>, \<open>Outbound\<close>: splitting, numbering, resending. \<open>Scheduler\<close>: acknowledgements and requests for
  missing packets. \<open>Transport\<close>: one sweep and one received datagram over all of these.

  \<^bold>\<open>Connection\<close> (\<open>crates/ac-net/src\<close>). \<open>Group\<close>, \<open>Assembler\<close>: queues and the reassembly of messages.
  \<open>Connection\<close>, \<open>Connection_Session\<close>: its operations and the invariant of every reachable connection.
  \<open>Delivery\<close>, \<open>Reliable_Delivery\<close>: forged packets cost nothing, and a message that one side sends comes out at
  the other exactly once. \<open>Link_Cadence\<close>: behaviour over time. \<open>Handshake\<close>: from login request to connection.
  \<open>Lossy\<close>: the loss filter used to try the transport.

  \<^bold>\<open>Messages\<close> (\<open>crates/ac-proto/src\<close>). \<open>Proto_Wire\<close>: errors, opcodes, shared readers, and the calculus that
  says a reader depends on its own bytes only (\<open>rd_exact\<close>). \<open>Object_Messages\<close>, \<open>Object_Description\<close>,
  \<open>Quality_Messages\<close>, \<open>Session_Messages\<close>: one record and one reader per message. \<open>Turbine_Chat\<close>: read and written
  by the client, with the round trip. \<open>Allegiance\<close>: the tree of vassals and why it is one. \<open>Inbound_Messages\<close>: the
  table from opcodes to readers. \<open>Event_Dispatch\<close>: the handlers; a dispatch is split at the call of its handler, so that a
  session may nest any operation inside a running handler.

  \<^bold>\<open>Items\<close> (\<open>crates/ac-core/src/items\<close>, \<open>crates/ac-runtime/src/inventory/mod.rs\<close>). \<open>Client_Object\<close>: an object's
  record. \<open>Object_Index\<close>, \<open>Object_Table\<close>, \<open>Object_Updates\<close>, \<open>Object_Listings\<close>: the operations of the table.
  \<open>Table_Commands\<close>: all of them as commands, and histories of commands. \<open>Worn_Objects\<close>, \<open>Worn_Kept\<close>, \<open>Worn_Listed\<close>,
  \<open>Records_Kept\<close>: what every history keeps true. \<open>Optimistic_Moves\<close>: moves shown before the server confirms
  them, counted on the history alone, and their refusal. \<open>Inventory_Transaction\<close>, \<open>Inventory_Session\<close>: the one request in flight, and the table's
  events that end it.

  \<^bold>\<open>Other rules of the game\<close> (\<open>crates/ac-core/src\<close>). \<open>Update_Stamps\<close>: nine wrapping counters per object, compared with
  counters that never wrap. \<open>Land_Cells\<close>: cell ids and map coordinates. \<open>Chess\<close>, \<open>Chess_Board\<close>, \<open>Chess_Game\<close>,
  \<open>Chess_Rules\<close>: the game of chess and the positions its games can reach.

  \<^bold>\<open>Documents and pictures\<close>. \<open>Json\<close>, \<open>Json_Text\<close>, \<open>Json_Read\<close>, \<open>Json_Roundtrip\<close>, \<open>Json_Documents\<close>
  (\<open>crates/ac-host-core/src/json.rs\<close>): the strict reader, the writer, totality and round trip. \<open>Plugin_Version\<close>,
  \<open>Plugin_Manifest\<close>, \<open>Manifest_Rules\<close>, \<open>Manifest_Roundtrip\<close> (\<open>crates/ac-plugin-version\<close>,
  \<open>crates/ac-plugin-manifest\<close>): every rule of a plugin's manifest. \<open>Plugin_Icon\<close>, \<open>Icon_Filters\<close>, \<open>Icon_Decode\<close>
  (\<open>crates/ac-plugin-icon\<close>): the picture decoder, which reads back what \<open>Png\<close> writes.
\<close>

section \<open>Bounds, fuel and parameters\<close>

text \<open>
  Loops are structural or have a measure, with two exceptions. The JSON reader runs on fuel; \<open>json_parse\<close> gives it
  twice the length of the text and one more, which \<open>json_parse_total\<close> shows to be enough for every input, nesting
  being limited to 64 by the code. The walk along a line of the chess board is a partial function, which its lemmas
  show to end on the board.

  A session of the transport is bounded where a sequence half-range of 32 bits bounds the protocol itself; each
  theorem states its bound. The counters of \<open>Update_Stamps\<close> agree with unbounded ones while any two values of one
  counter are at most 32767 apart, which is the half-range that \<open>is_newer\<close> compares.

  Parameters of definitions stand for code that is not in the repository: the inflater of the icon decoder
  (assumed to give back the data of every stream the strict zlib reader of \<open>Png\<close> accepts), the Unicode
  lower-casing of names in manifests, and the platform whose paths the standard library reads. A closure passed to an
  operation is its result or an opaque value.
\<close>

section \<open>Not modelled\<close>

text \<open>
  Sockets, files, processes, the wall clock and the threads around the core. The payloads of game events other than the
  allegiance's and the turbine channels, and most request builders of \<open>crates/ac-proto\<close>: they are lists of fields, read and
  written by the primitives that are modelled. The dat-file reader's asset formats. Physics, navigation,
  animation, effects, audio and rendering, which are arithmetic on \<open>f32\<close> over asset tables. The user
  interfaces, the launcher, the plugin host around its WebAssembly engine, and the session runtime, which ties all of
  these together.
\<close>

end
